(* ===== verification/Prelude.thy ===== *)
theory Prelude
  imports Main "HOL-Library.Word"
begin

text \<open>
  Shared vocabulary of the development: the fixed-width integers of the Go sources, byte-string
  readers, the result type of fallible operations, and the generic facts on lists, options, words
  and sums that the component theories use.  Nothing here models a particular source file.
\<close>

unbundle bit_operations_syntax

text \<open>Byte positions are written with numerals, so 1 is kept as it is.\<close>

declare One_nat_def [simp del]

text \<open>The bits of word numerals are given by \<open>byte_bounds\<close> below, not by those of integers.\<close>

declare bit_numeral_word_iff [simp del]

text \<open>Evaluation of truncated numerals, with 1 as it is.\<close>

lemma take_bit_num_1 [simp]:
  "take_bit_num 1 num.One = Some num.One" "take_bit_num 1 (num.Bit0 m) = None"
  "take_bit_num 1 (num.Bit1 m) = Some num.One"
  by (simp_all add: One_nat_def)

section \<open>Types\<close>

text \<open>
  A Go \<open>byte\<close> or \<open>uint8\<close> is an 8-bit word, \<open>uint16\<close> a 16-bit word, and so on; the signed
  types use the same words read with \<open>sint\<close>.  A Go slice of bytes is a list.  Lengths, offsets and
  counters that the code keeps inside a checked range are \<open>nat\<close> or \<open>int\<close>.
\<close>

type_synonym byte = "8 word"
type_synonym u16 = "16 word"
type_synonym u32 = "32 word"
type_synonym u64 = "64 word"
type_synonym i32 = "32 word"
type_synonym i64 = "64 word"
type_synonym bytes = "byte list"

text \<open>\<open>catalogmodel.ID\<close> is an opaque 16-byte array; its zero value is the word 0.\<close>

type_synonym entity_id = "128 word"

text \<open>The result of a fallible operation: \<open>Inl\<close> the error, \<open>Inr\<close> the value.\<close>

type_synonym ('e, 'a) result = "'e + 'a"

named_theorems wire_defs \<open>unfoldings of the little- and big-endian integer encodings\<close>
named_theorems byte_bounds \<open>range facts of masked bytes and decoded integers\<close>

section \<open>Results\<close>

definition is_ok :: "('e, 'a) result \<Rightarrow> bool" where
  "is_ok r = (case r of Inl _ \<Rightarrow> False | Inr _ \<Rightarrow> True)"

lemma is_ok_simps [simp]: "is_ok (Inr x)" "\<not> is_ok (Inl e)"
  by (simp_all add: is_ok_def)

lemma is_okE: "is_ok r \<Longrightarrow> (\<And>x. r = Inr x \<Longrightarrow> P) \<Longrightarrow> P"
  by (cases r) auto

definition result_bind :: "('e, 'a) result \<Rightarrow> ('a \<Rightarrow> ('e, 'b) result) \<Rightarrow> ('e, 'b) result" where
  "result_bind r f = (case r of Inl e \<Rightarrow> Inl e | Inr x \<Rightarrow> f x)"

lemma result_bind_simps [simp]: "result_bind (Inl e) f = Inl e" "result_bind (Inr x) f = f x"
  by (simp_all add: result_bind_def)

lemma result_bind_eq_Inr: "result_bind r f = Inr y \<longleftrightarrow> (\<exists>x. r = Inr x \<and> f x = Inr y)"
  by (cases r) auto

section \<open>Lists\<close>

text \<open>The Go slice expression \<open>xs[from:to]\<close> for bounds the code has checked.\<close>

definition slice :: "nat \<Rightarrow> nat \<Rightarrow> 'a list \<Rightarrow> 'a list" where
  "slice lo hi xs = take (hi - lo) (drop lo xs)"

lemma length_slice [simp]: "length (slice lo hi xs) = min (hi - lo) (length xs - lo)"
  by (simp add: slice_def)

lemma slice_append_drop: "lo \<le> hi \<Longrightarrow> slice lo hi xs @ drop hi xs = drop lo xs"
  by (simp add: slice_def) (metis append_take_drop_id drop_drop le_add_diff_inverse2)

lemma nth_drop_safe: "lo + i < length xs \<Longrightarrow> drop lo xs ! i = xs ! (lo + i)"
  by simp

lemma list_all_replicate [simp]: "list_all P (replicate n x) \<longleftrightarrow> n = 0 \<or> P x"
  by (induction n) auto

lemma take_append_exact [simp]: "length xs = n \<Longrightarrow> take n (xs @ ys) = xs"
  by simp

lemma drop_append_exact [simp]: "length xs = n \<Longrightarrow> drop n (xs @ ys) = ys"
  by simp

lemma drop_1_Cons [simp]: "drop 1 (x # xs) = xs"
  by (simp add: drop_Cons')

lemma find_prefix: "find P xs = Some x \<Longrightarrow> find P (xs @ ys) = Some x"
  by (induction xs) (auto split: if_splits)

text \<open>Cutting a list into consecutive blocks of \<open>n\<close> elements; a short tail is dropped.\<close>

function blocks :: "nat \<Rightarrow> 'a list \<Rightarrow> 'a list list" where
  "blocks n xs = (if n = 0 \<or> length xs < n then [] else take n xs # blocks n (drop n xs))"
  by pat_completeness auto
termination by (relation "measure (\<lambda>(n, xs). length xs)") auto

declare blocks.simps [simp del]

lemma blocks_short: "length xs < n \<Longrightarrow> blocks n xs = []"
  by (subst blocks.simps) simp

lemma blocks_step: "0 < n \<Longrightarrow> length x = n \<Longrightarrow> blocks n (x @ ys) = x # blocks n ys"
  by (subst blocks.simps) simp

lemma blocks_length: "b \<in> set (blocks n xs) \<Longrightarrow> length b = n"
proof (induction n xs rule: blocks.induct)
  case (1 n xs)
  then show ?case
    by (subst (asm) blocks.simps) (auto split: if_splits)
qed

lemma blocks_concat:
  assumes "0 < n" and "list_all (\<lambda>x. length x = n) xss"
  shows "blocks n (concat xss) = xss"
  using assms(2)
proof (induction xss)
  case Nil
  show ?case using assms(1) by (simp add: blocks_short)
next
  case (Cons x xss)
  then show ?case using assms(1) by (simp add: blocks_step)
qed

section \<open>Masked bytes\<close>

lemma bit_mult_2 [simp]: "bit (x * 2 :: 'a::len word) n \<longleftrightarrow> 0 < n \<and> n < LENGTH('a) \<and> bit x (n - 1)"
  using bit_double_iff [of x n] by (auto simp: mult.commute [of x] dest: bit_imp_le_length)

lemma unat_and_le: "unat (x AND y) \<le> unat (y :: 'a::len word)"
  by (rule word_and_le1 [THEN word_le_nat_alt [THEN iffD1]])

lemma unat_and_0F [byte_bounds]: "unat (x AND 15 :: byte) < 16"
  using unat_and_le [of x 15] by simp

lemma unat_and_1F [byte_bounds]: "unat (x AND 31 :: byte) < 32"
  using unat_and_le [of x 31] by simp

lemma unat_byte [byte_bounds]: "unat (x :: byte) < 256"
  using unsigned_less [of x, where 'a = nat] by simp

lemma word_byte_of_nat_unat: "(of_nat (unat (x :: byte)) :: byte) = x"
  by simp

text \<open>The bits of the masks that occur in the sources.\<close>

lemma bit_mask_01 [byte_bounds]: "bit (1 :: byte) i \<longleftrightarrow> i = 0"
  by (auto simp: bit_simps)

lemma bit_mask_0F [byte_bounds]: "bit (0x0f :: byte) i \<longleftrightarrow> i < 4"
proof -
  have eq: "(0x0f :: byte) = mask 4" by (simp add: mask_eq_exp_minus_1)
  show ?thesis unfolding eq by (auto simp: bit_simps)
qed

lemma bit_mask_1F [byte_bounds]: "bit (0x1f :: byte) i \<longleftrightarrow> i < 5"
proof -
  have eq: "(0x1f :: byte) = mask 5" by (simp add: mask_eq_exp_minus_1)
  show ?thesis unfolding eq by (auto simp: bit_simps)
qed

lemma bit_mask_F0 [byte_bounds]: "bit (0xf0 :: byte) i \<longleftrightarrow> 4 \<le> i \<and> i < 8"
proof -
  have eq: "(0xf0 :: byte) = push_bit 4 (mask 4)" by (simp add: mask_eq_exp_minus_1 push_bit_eq_mult)
  show ?thesis unfolding eq by (auto simp: bit_simps)
qed

lemma bit_mask_80 [byte_bounds]: "bit (0x80 :: byte) i \<longleftrightarrow> i = 7"
proof -
  have eq: "(0x80 :: byte) = push_bit 7 (mask 1)" by (simp add: mask_eq_exp_minus_1 push_bit_eq_mult)
  show ?thesis unfolding eq by (auto simp: bit_simps)
qed

lemma bit_mask_40 [byte_bounds]: "bit (0x40 :: byte) i \<longleftrightarrow> i = 6"
proof -
  have eq: "(0x40 :: byte) = push_bit 6 (mask 1)" by (simp add: mask_eq_exp_minus_1 push_bit_eq_mult)
  show ?thesis unfolding eq by (auto simp: bit_simps)
qed

lemma bit_mask_C1 [byte_bounds]: "bit (0xc1 :: byte) i \<longleftrightarrow> i = 0 \<or> i = 6 \<or> i = 7"
proof -
  have eq: "(0xc1 :: byte) = 1 OR push_bit 6 (mask 2)"
    by (simp add: mask_eq_exp_minus_1 push_bit_eq_mult)
  show ?thesis unfolding eq by (auto simp: bit_simps)
qed

text \<open>
  The 12-bit length fields of PSI sections: \<open>int(hi & 0x0f) << 8 | int(lo)\<close>, written in the
  sources with \<open>|\<close> or \<open>+\<close>; the operands have no common bit, so both give this number.
\<close>

definition len12 :: "byte \<Rightarrow> byte \<Rightarrow> nat" where
  "len12 hi lo = unat (hi AND 0x0f) * 256 + unat lo"

lemma len12_bound [byte_bounds]: "len12 hi lo < 4096"
  using unat_and_0F [of hi] unat_byte [of lo] by (simp add: len12_def)

text \<open>A 16-bit big-endian field \<open>uint16(hi) << 8 | uint16(lo)\<close>.\<close>

definition be16 :: "byte \<Rightarrow> byte \<Rightarrow> u16" where
  "be16 hi lo = push_bit 8 (ucast hi) OR ucast lo"

text \<open>A 13-bit packet identifier \<open>uint16(hi & 0x1f) << 8 | uint16(lo)\<close>.\<close>

definition pid13 :: "byte \<Rightarrow> byte \<Rightarrow> u16" where
  "pid13 hi lo = be16 (hi AND 0x1f) lo"

lemma unat_ucast_byte:
  assumes "8 \<le> LENGTH('a)"
  shows "unat (ucast (x :: byte) :: 'a::len word) = unat x"
proof -
  have "unat x < 2 ^ 8" using unat_byte [of x] by simp
  also have "(2::nat) ^ 8 \<le> 2 ^ LENGTH('a)" using assms by (rule power_increasing) simp
  finally show ?thesis by (simp add: unsigned_ucast_eq take_bit_nat_eq_self)
qed

lemma unat_be16: "unat (be16 hi lo) = unat hi * 256 + unat lo"
proof -
  have "be16 hi lo = push_bit 8 (ucast hi) + ucast lo"
    unfolding be16_def
    by (rule disjunctive_add [symmetric]) (auto simp: bit_simps dest: bit_imp_le_length)
  moreover have "unat (push_bit 8 (ucast hi :: u16)) = unat hi * 256"
    using unat_byte [of hi]
    by (simp add: push_bit_eq_mult unat_word_ariths unat_ucast_byte)
  ultimately show ?thesis
    using unat_byte [of hi] unat_byte [of lo]
    by (simp add: unat_word_ariths unat_ucast_byte)
qed

lemma unat_pid13: "unat (pid13 hi lo) = unat (hi AND 0x1f) * 256 + unat lo"
  by (simp add: pid13_def unat_be16)

lemma pid13_bound [byte_bounds]: "unat (pid13 hi lo) < 8192"
  using unat_and_1F [of hi] unat_byte [of lo] by (simp add: unat_pid13)

end
