(* ===== verification/TsPacket.thy ===== *)
theory TsPacket
  imports Prelude
begin

text \<open>
  \<open>internal/mpegts/mpegts.go\<close>, the packet level: the header and adaptation field of one 188-byte
  transport-stream packet (\<open>ParsePacket\<close>, \<open>PID\<close>), the forward difference of two 27 MHz program
  clocks (\<open>ProgramClockDelta\<close>), and the CRC-32 of PSI sections (\<open>CRC32\<close>, \<open>ValidCRC\<close>).  The
  lemmas give the ranges of the decoded fields, the modular meaning of the clock difference, and the
  fact that a section closed with its own CRC is accepted.
\<close>

section \<open>Constants and errors\<close>

definition packet_bytes :: nat where
  "packet_bytes = 188"

definition max_section_bytes :: nat where
  "max_section_bytes = 4 * 1024"

definition max_elementary_streams :: nat where
  "max_elementary_streams = 64"

definition max_sync_search_bytes :: nat where
  "max_sync_search_bytes = 64 * 1024"

definition sync_packet_count :: nat where
  "sync_packet_count = 5"

definition pcr_wrap_ticks :: u64 where
  "pcr_wrap_ticks = push_bit 33 1 * 300"

lemmas ts_consts = packet_bytes_def max_section_bytes_def max_elementary_streams_def
  max_sync_search_bytes_def sync_packet_count_def

datatype ts_error = ErrPacket | ErrPSI | ErrSync | ErrTruncated | ErrSingleProgram | ErrProgramClock

section \<open>Packets\<close>

record packet =
  pk_pid :: u16
  pk_payload_unit_start :: bool
  pk_continuity_counter :: byte
  pk_has_payload :: bool
  pk_payload :: bytes
  pk_random_access :: bool
  pk_discontinuity :: bool
  pk_has_program_clock :: bool
  pk_program_clock :: u64

text \<open>The 33-bit base and the 9-bit extension of a PCR field of six bytes.\<close>

definition pcr_base :: "bytes \<Rightarrow> u64" where
  "pcr_base v = push_bit 25 (ucast (v ! 0)) OR push_bit 17 (ucast (v ! 1)) OR push_bit 9 (ucast (v ! 2))
     OR push_bit 1 (ucast (v ! 3)) OR ucast (drop_bit 7 (v ! 4))"

definition pcr_extension :: "bytes \<Rightarrow> u64" where
  "pcr_extension v = push_bit 8 (ucast (v ! 4 AND 1)) OR ucast (v ! 5)"

text \<open>
  The flags of a non-empty adaptation field of the given length: discontinuity, random access and
  the optional program clock.
\<close>

definition parse_adaptation_flags :: "bytes \<Rightarrow> nat \<Rightarrow> packet \<Rightarrow> (ts_error, packet) result" where
  "parse_adaptation_flags raw len parsed =
    (let flags = raw ! 5;
         parsed = parsed\<lparr>pk_discontinuity := (flags AND 0x80 \<noteq> 0), pk_random_access := (flags AND 0x40 \<noteq> 0)\<rparr>
     in if flags AND 0x10 \<noteq> 0
        then if len < 7 then Inl ErrPacket
             else let v = slice 6 12 raw; extension = pcr_extension v
                  in if extension > 299 then Inl ErrPacket
                     else Inr (parsed\<lparr>pk_has_program_clock := True,
                                      pk_program_clock := pcr_base v * 300 + extension\<rparr>)
        else Inr parsed)"

text \<open>The adaptation field, present when bit 1 of the control is set; the offset of the payload comes with it.\<close>

definition parse_adaptation :: "bytes \<Rightarrow> byte \<Rightarrow> packet \<Rightarrow> (ts_error, nat \<times> packet) result" where
  "parse_adaptation raw control parsed =
    (if control AND 2 \<noteq> 0
     then let len = unat (raw ! 4)
          in if len > packet_bytes - 5 then Inl ErrPacket
             else if control = 2 \<and> len \<noteq> packet_bytes - 5 then Inl ErrPacket
             else if len > 0
                  then (case parse_adaptation_flags raw len parsed of
                          Inl e \<Rightarrow> Inl e | Inr parsed \<Rightarrow> Inr (5 + len, parsed))
                  else Inr (5 + len, parsed)
     else Inr (4, parsed))"

definition packet_header :: "bytes \<Rightarrow> byte \<Rightarrow> packet" where
  "packet_header raw control =
    \<lparr>pk_pid = pid13 (raw ! 1) (raw ! 2),
     pk_payload_unit_start = (raw ! 1 AND 0x40 \<noteq> 0),
     pk_continuity_counter = raw ! 3 AND 0x0f,
     pk_has_payload = (control AND 1 \<noteq> 0),
     pk_payload = [], pk_random_access = False, pk_discontinuity = False,
     pk_has_program_clock = False, pk_program_clock = 0\<rparr>"

definition parse_packet :: "bytes \<Rightarrow> (ts_error, packet) result" where
  "parse_packet raw =
    (if length raw \<noteq> packet_bytes \<or> raw ! 0 \<noteq> 0x47 \<or> raw ! 1 AND 0x80 \<noteq> 0 then Inl ErrPacket
     else let control = drop_bit 4 (raw ! 3) AND 0x03
          in if control = 0 then Inl ErrPacket
             else (case parse_adaptation raw control (packet_header raw control) of
                     Inl e \<Rightarrow> Inl e
                   | Inr (offset, parsed) \<Rightarrow>
                       if pk_has_payload parsed
                       then if offset \<ge> packet_bytes then Inl ErrPacket
                            else Inr (parsed\<lparr>pk_payload := drop offset raw\<rparr>)
                       else Inr parsed))"

text \<open>\<open>PID\<close> of an already validated packet.\<close>

definition PID :: "bytes \<Rightarrow> u16" where
  "PID raw = pid13 (raw ! 1) (raw ! 2)"

definition program_clock_delta :: "u64 \<Rightarrow> u64 \<Rightarrow> u64" where
  "program_clock_delta previous nxt =
    (if nxt \<ge> previous then nxt - previous else pcr_wrap_ticks - previous + nxt)"

section \<open>CRC-32\<close>

definition crc_shift :: "u32 \<Rightarrow> u32" where
  "crc_shift crc =
    (if crc AND 0x80000000 \<noteq> 0 then push_bit 1 crc XOR 0x04c11db7 else push_bit 1 crc)"

definition crc_byte :: "u32 \<Rightarrow> byte \<Rightarrow> u32" where
  "crc_byte crc value = (crc_shift ^^ 8) (crc XOR push_bit 24 (ucast value))"

definition crc32 :: "bytes \<Rightarrow> u32" where
  "crc32 data = foldl crc_byte 0xffffffff data"

definition valid_crc :: "bytes \<Rightarrow> bool" where
  "valid_crc sec \<longleftrightarrow> length sec \<ge> 4 \<and> crc32 sec = 0"

text \<open>The four CRC bytes in the order in which the code appends them to a section.\<close>

definition crc_bytes :: "u32 \<Rightarrow> bytes" where
  "crc_bytes crc = [ucast (drop_bit 24 crc), ucast (drop_bit 16 crc), ucast (drop_bit 8 crc), ucast crc]"

section \<open>Facts about packets\<close>

lemma unat_pcr_extension: "unat (pcr_extension v) = unat (v ! 4 AND 1) * 256 + unat (v ! 5)"
proof -
  have "pcr_extension v = push_bit 8 (ucast (v ! 4 AND 1)) + ucast (v ! 5)"
    unfolding pcr_extension_def
    by (rule disjunctive_add [symmetric]) (auto simp: bit_simps dest: bit_imp_le_length)
  moreover have "unat (push_bit 8 (ucast (v ! 4 AND 1)) :: u64) = unat (v ! 4 AND 1) * 256"
    using unat_byte [of "v ! 4 AND 1"]
    by (simp add: push_bit_eq_mult unat_word_ariths unat_ucast_byte)
  ultimately show ?thesis
    using unat_byte [of "v ! 4 AND 1"] unat_byte [of "v ! 5"]
    by (simp add: unat_word_ariths unat_ucast_byte)
qed

lemma pcr_base_bound: "unat (pcr_base v) < 2 ^ 33"
proof -
  have "\<not> bit (pcr_base v) n" if "33 \<le> n" for n
    using that unfolding pcr_base_def
    by (auto simp: bit_simps dest: bit_imp_le_length)
  then have "take_bit 33 (pcr_base v) = pcr_base v"
    by (intro bit_eqI) (auto simp: bit_simps not_less [symmetric])
  then have "unat (pcr_base v) = take_bit 33 (unat (pcr_base v))"
    by (metis unsigned_take_bit_eq)
  then show ?thesis by (metis take_bit_nat_less_exp)
qed

lemma unat_pcr_wrap: "unat pcr_wrap_ticks = 2 ^ 33 * 300"
  by (simp add: pcr_wrap_ticks_def)

lemma pcr_value_bound:
  assumes "\<not> pcr_extension v > 299"
  shows "unat (pcr_base v * 300 + pcr_extension v) < 2 ^ 33 * 300"
proof -
  have "unat (pcr_extension v) \<le> 299" using assms by (simp add: word_le_nat_alt not_less)
  moreover have "unat (pcr_base v) \<le> 2 ^ 33 - 1" using pcr_base_bound [of v] by simp
  ultimately have "unat (pcr_base v) * 300 + unat (pcr_extension v) \<le> (2 ^ 33 - 1) * 300 + 299"
    by (intro add_mono mult_right_mono) auto
  then show ?thesis by (simp add: unat_word_ariths)
qed

text \<open>
  The adaptation-field parser touches the flags and the clock only: \<open>header_kept p q\<close> says that
  \<open>q\<close> has the header fields and payload of \<open>p\<close> and, if it has a clock, a clock below the wrap.
\<close>

definition header_kept :: "packet \<Rightarrow> packet \<Rightarrow> bool" where
  "header_kept p q \<longleftrightarrow>
     pk_pid q = pk_pid p \<and> pk_payload_unit_start q = pk_payload_unit_start p \<and>
     pk_continuity_counter q = pk_continuity_counter p \<and> pk_has_payload q = pk_has_payload p \<and>
     pk_payload q = pk_payload p \<and>
     (pk_has_program_clock q \<longrightarrow> pk_has_program_clock p \<or> unat (pk_program_clock q) < 2 ^ 33 * 300)"

lemma parse_adaptation_flags_kept:
  "parse_adaptation_flags raw len p = Inr q \<Longrightarrow> header_kept p q"
  using pcr_value_bound [of "slice 6 12 raw"]
  by (simp add: parse_adaptation_flags_def header_kept_def Let_def split: if_splits) auto

lemma parse_adaptation_kept:
  assumes "parse_adaptation raw control p = Inr (offset, q)"
  shows "header_kept p q \<and> 4 \<le> offset"
proof -
  have "header_kept p p" by (simp add: header_kept_def)
  with assms show ?thesis
    by (auto simp: parse_adaptation_def Let_def split: if_splits sum.splits
        dest: parse_adaptation_flags_kept)
qed

lemma parse_packet_fields:
  assumes "parse_packet raw = Inr p"
  shows "length raw = 188" "raw ! 0 = 0x47" "raw ! 1 AND 0x80 = 0" "pk_pid p = PID raw"
    "pk_payload_unit_start p \<longleftrightarrow> raw ! 1 AND 0x40 \<noteq> 0"
    "pk_continuity_counter p = raw ! 3 AND 0x0f"
    "pk_has_payload p \<Longrightarrow> \<exists>offset\<ge>4. offset < 188 \<and> pk_payload p = drop offset raw"
    "\<not> pk_has_payload p \<Longrightarrow> pk_payload p = []"
    "pk_has_program_clock p \<Longrightarrow> unat (pk_program_clock p) < 2 ^ 33 * 300"
proof -
  have guard: "length raw = 188" "raw ! 0 = 0x47" "raw ! 1 AND 0x80 = 0"
    using assms by (auto simp: parse_packet_def ts_consts split: if_splits)
  define control where "control = drop_bit 4 (raw ! 3) AND (0x03 :: byte)"
  let ?h = "packet_header raw control"
  obtain offset q where q: "parse_adaptation raw control ?h = Inr (offset, q)"
    and p: "p = (if pk_has_payload q then q\<lparr>pk_payload := drop offset raw\<rparr> else q)"
    and off: "pk_has_payload q \<Longrightarrow> offset < 188"
    using assms guard
    by (auto simp: parse_packet_def Let_def ts_consts control_def [symmetric]
        split: if_splits sum.splits)
  have kept: "header_kept ?h q" "4 \<le> offset" using parse_adaptation_kept [OF q] by auto
  show "length raw = 188" "raw ! 0 = 0x47" "raw ! 1 AND 0x80 = 0" by (rule guard)+
  show "pk_pid p = PID raw" "pk_payload_unit_start p \<longleftrightarrow> raw ! 1 AND 0x40 \<noteq> 0"
    "pk_continuity_counter p = raw ! 3 AND 0x0f"
    "pk_has_program_clock p \<Longrightarrow> unat (pk_program_clock p) < 2 ^ 33 * 300"
    using kept by (auto simp: p header_kept_def packet_header_def PID_def)
  show "\<not> pk_has_payload p \<Longrightarrow> pk_payload p = []"
    using kept by (auto simp: p header_kept_def packet_header_def split: if_splits)
  show "pk_has_payload p \<Longrightarrow> \<exists>offset\<ge>4. offset < 188 \<and> pk_payload p = drop offset raw"
    using kept off by (auto simp: p split: if_splits)
qed

lemma parse_packet_payload_nonempty:
  "parse_packet raw = Inr p \<Longrightarrow> pk_has_payload p \<Longrightarrow> pk_payload p \<noteq> []"
  using parse_packet_fields(1,7) [of raw p] by auto

lemma PID_bound: "unat (PID raw) < 8192"
  by (simp add: PID_def pid13_bound)

section \<open>Facts about the CRC\<close>

lemma crc_shift_clear: "\<not> bit crc 31 \<Longrightarrow> crc_shift crc = push_bit 1 crc"
proof -
  assume "\<not> bit crc 31"
  moreover have "(crc AND 0x80000000 :: u32) \<noteq> 0 \<longleftrightarrow> bit crc 31"
  proof -
    have "(0x80000000 :: u32) = push_bit 31 1" by simp
    then show ?thesis
      by (metis and.commute and_exp_eq_0_iff_not_bit push_bit_of_1)
  qed
  ultimately show ?thesis by (simp add: crc_shift_def)
qed

lemma crc_shift_clear_power:
  "(\<forall>i\<ge>32 - n. \<not> bit crc i) \<Longrightarrow> n \<le> 32 \<Longrightarrow> (crc_shift ^^ n) crc = push_bit n crc"
proof (induction n arbitrary: crc)
  case 0
  then show ?case by simp
next
  case (Suc n)
  have "(crc_shift ^^ Suc n) crc = (crc_shift ^^ n) (crc_shift crc)"
    by (simp add: funpow_swap1)
  also have "crc_shift crc = push_bit 1 crc"
    using Suc.prems by (intro crc_shift_clear) simp
  also have "(crc_shift ^^ n) (push_bit 1 crc) = push_bit n (push_bit 1 crc)"
    using Suc.prems by (intro Suc.IH) (auto simp: bit_simps)
  also have "\<dots> = push_bit (Suc n) crc"
    by (simp add: Suc_eq_plus1)
  finally show ?case .
qed

lemma crc_byte_top: "crc_byte crc (ucast (drop_bit 24 crc)) = push_bit 8 crc"
proof -
  let ?c = "crc XOR push_bit 24 (ucast (ucast (drop_bit 24 crc) :: byte)) :: u32"
  have low: "?c = take_bit 24 crc"
    by (rule bit_eqI) (auto simp: bit_simps)
  have "(crc_shift ^^ 8) (take_bit 24 crc) = push_bit 8 (take_bit 24 crc)"
    by (rule crc_shift_clear_power) (auto simp: bit_simps)
  also have "\<dots> = push_bit 8 crc"
    by (rule bit_eqI) (auto simp: bit_simps)
  finally show ?thesis by (simp add: crc_byte_def low)
qed

text \<open>Feeding a CRC its own bytes, most significant first, leaves the register zero.\<close>

lemma crc_absorb: "foldl crc_byte crc (crc_bytes crc) = 0"
proof -
  have step: "crc_byte (push_bit n crc) (ucast (drop_bit (24 - n) crc)) = push_bit (n + 8) crc"
    if "n \<le> 24" for n
  proof -
    have "(ucast (drop_bit (24 - n) crc) :: byte) = ucast (drop_bit 24 (push_bit n crc))"
      using that by (intro bit_eqI) (auto simp: bit_simps)
    then show ?thesis using crc_byte_top [of "push_bit n crc"] by (simp add: add.commute)
  qed
  have "push_bit 32 crc = 0"
    by (rule bit_eqI) (auto simp: bit_simps)
  then show ?thesis
    using step [of 0] step [of 8] step [of 16] step [of 24]
    by (simp add: crc_bytes_def)
qed

lemma valid_crc_append: "valid_crc (data @ crc_bytes (crc32 data))"
  unfolding valid_crc_def
  by (simp add: crc32_def crc_absorb) (simp add: crc_bytes_def)

section \<open>Properties\<close>

text \<open>A packet that \<open>ParsePacket\<close> accepts is 188 bytes long and starts with the sync byte; its PID has
  13 bits, its counter 4 bits, its payload is a non-empty suffix of the packet behind the header (or
  absent), and its clock, when present, is below the 33-bit wrap.\<close>

theorem parse_packet_bounds:
  assumes "parse_packet raw = Inr p"
  shows "length raw = packet_bytes \<and> raw ! 0 = 0x47 \<and>
    unat (pk_pid p) < 8192 \<and> unat (pk_continuity_counter p) < 16 \<and>
    (if pk_has_payload p then \<exists>offset. 4 \<le> offset \<and> offset < packet_bytes \<and> pk_payload p = drop offset raw
     else pk_payload p = []) \<and>
    (pk_has_program_clock p \<longrightarrow> unat (pk_program_clock p) < unat pcr_wrap_ticks)"
  using parse_packet_fields [OF assms] PID_bound [of raw]
  by (auto simp: ts_consts unat_and_0F unat_pcr_wrap)

text \<open>A packet with an adaptation field that carries a clock.\<close>

lemma parse_packet_clock_example:
  "parse_packet (0x47 # 0x41 # 0 # 0x37 # 7 # 0x50 # 0 # 0 # 0 # 1 # 0x80 # 5 # replicate 176 9) =
   Inr \<lparr>pk_pid = 0x100, pk_payload_unit_start = True, pk_continuity_counter = 7, pk_has_payload = True,
        pk_payload = replicate 176 9, pk_random_access = True, pk_discontinuity = False,
        pk_has_program_clock = True, pk_program_clock = 905\<rparr>"
  by code_simp

theorem parse_packet_bounds_witness:
  "length (0x47 # 0x41 # 0 # 0x37 # 7 # 0x50 # 0 # 0 # 0 # 1 # 0x80 # 5 # replicate 176 (9 :: byte)) = packet_bytes"
  using parse_packet_bounds [OF parse_packet_clock_example] by blast

text \<open>For two clocks below the wrap, \<open>ProgramClockDelta\<close> is the forward distance modulo the wrap.\<close>

theorem program_clock_delta_mod:
  assumes "previous < pcr_wrap_ticks" "nxt < pcr_wrap_ticks"
  shows "int (unat (program_clock_delta previous nxt)) =
    (int (unat nxt) - int (unat previous)) mod int (unat pcr_wrap_ticks)"
proof -
  have bounds: "unat previous < 2576980377600" "unat nxt < 2576980377600" "unat pcr_wrap_ticks = 2576980377600"
    using assms by (simp_all add: word_less_nat_alt unat_pcr_wrap)
  show ?thesis
  proof (cases "nxt \<ge> previous")
    case True
    then have le: "unat previous \<le> unat nxt" by (simp add: word_le_nat_alt)
    then have "(int (unat nxt) - int (unat previous)) mod int (unat pcr_wrap_ticks) =
        int (unat nxt) - int (unat previous)"
      using bounds by (intro mod_pos_pos_trivial) linarith+
    then show ?thesis
      using le True by (simp add: program_clock_delta_def unat_sub word_le_nat_alt of_nat_diff)
  next
    case False
    then have less: "unat nxt < unat previous" by (simp add: word_le_nat_alt)
    have "unat (pcr_wrap_ticks - previous + nxt) = 2576980377600 - unat previous + unat nxt"
      using bounds less assms(1) by (simp add: unat_word_ariths(1) unat_sub word_le_nat_alt)
    moreover have "(int (unat nxt) - int (unat previous)) mod 2576980377600 =
        int (unat nxt) - int (unat previous) + 2576980377600"
    proof -
      have "(int (unat nxt) - int (unat previous) + 2576980377600) mod 2576980377600 =
          int (unat nxt) - int (unat previous) + 2576980377600"
        using bounds less by (intro mod_pos_pos_trivial) linarith+
      then show ?thesis by simp
    qed
    ultimately show ?thesis using False bounds less by (simp add: program_clock_delta_def of_nat_diff)
  qed
qed

theorem program_clock_delta_mod_witness:
  "int (unat (program_clock_delta (pcr_wrap_ticks - 1) 26)) = 27"
  using program_clock_delta_mod [of "pcr_wrap_ticks - 1" 26] by (simp add: pcr_wrap_ticks_def)

end
