(* ===== verification/PsiTables.thy ===== *)
theory PsiTables
  imports TsPacket
begin

text \<open>
  \<open>internal/mpegts/mpegts.go\<close> and \<open>sdt.go\<close>, the table level: \<open>ParsePAT\<close>, \<open>ParsePMT\<close>,
  \<open>ParseSDT\<close>, \<open>PacketizeSection\<close> and \<open>VersionTracker\<close>.  The loops of the parsers walk a
  section by offset; here they recurse on the bytes between the current offset and the end of the
  loop, which is the same walk.
\<close>

section \<open>Program association table\<close>

record pat =
  pat_transport_stream_id :: u16
  pat_program_number :: u16
  pat_pmt_pid :: u16
  pat_version :: byte

text \<open>The length fields of PSI sections and the shared header checks of the PAT and the PMT.\<close>

definition section_version :: "bytes \<Rightarrow> byte" where
  "section_version sec = drop_bit 1 (sec ! 5) AND 0x1f"

text \<open>One pass over the four-byte entries from offset 8 to the CRC.\<close>

fun pat_entries :: "bytes \<Rightarrow> pat \<Rightarrow> (ts_error, pat) result" where
  "pat_entries (a # b # c # d # rest) result =
    (let program = be16 a b
     in if program = 0 then pat_entries rest result
        else if pat_program_number result \<noteq> 0 then Inl ErrSingleProgram
        else pat_entries rest (result\<lparr>pat_program_number := program, pat_pmt_pid := pid13 c d\<rparr>))"
| "pat_entries _ result = Inr result"

definition parse_pat :: "bytes \<Rightarrow> (ts_error, pat) result" where
  "parse_pat sec =
    (if length sec < 16 \<or> sec ! 0 \<noteq> 0 \<or> sec ! 1 AND 0x80 = 0 \<or>
        3 + len12 (sec ! 1) (sec ! 2) \<noteq> length sec \<or>
        sec ! 5 AND 1 = 0 \<or> sec ! 6 \<noteq> 0 \<or> sec ! 7 \<noteq> 0 \<or> \<not> valid_crc sec \<or>
        (length sec - 12) mod 4 \<noteq> 0
     then Inl ErrPSI
     else (case pat_entries (slice 8 (length sec - 4) sec)
                  \<lparr>pat_transport_stream_id = be16 (sec ! 3) (sec ! 4), pat_program_number = 0,
                   pat_pmt_pid = 0, pat_version = section_version sec\<rparr> of
             Inl e \<Rightarrow> Inl e
           | Inr result \<Rightarrow>
               if pat_program_number result = 0 \<or> pat_pmt_pid result = 0 \<or> pat_pmt_pid result = 0x1fff
               then Inl ErrSingleProgram else Inr result))"

section \<open>Program map table\<close>

record elementary_stream =
  es_type :: byte
  es_pid :: u16
  es_descriptor :: bytes

record pmt =
  pmt_program_number :: u16
  pmt_pcr_pid :: u16
  pmt_version :: byte
  pmt_streams :: "elementary_stream list"

text \<open>
  The loop over the elementary-stream entries: \<open>rest\<close> is the part of the section from the current
  offset to the CRC, \<open>streams\<close> the entries accepted so far.
\<close>

function parse_streams :: "bytes \<Rightarrow> elementary_stream list \<Rightarrow> (ts_error, elementary_stream list) result" where
  "parse_streams rest streams =
    (if rest = [] then Inr streams
     else if length rest < 5 \<or> length streams \<ge> max_elementary_streams then Inl ErrPSI
     else let nxt = 5 + len12 (rest ! 3) (rest ! 4)
          in if nxt > length rest then Inl ErrPSI
             else let pid = pid13 (rest ! 1) (rest ! 2)
                  in if pid = 0 \<or> pid = 0x1fff then Inl ErrPSI
                     else parse_streams (drop nxt rest)
                            (streams @ [\<lparr>es_type = rest ! 0, es_pid = pid, es_descriptor = slice 5 nxt rest\<rparr>]))"
  by pat_completeness auto
termination by (relation "measure (\<lambda>(rest, streams). length rest)") auto

declare parse_streams.simps [simp del]

text \<open>The offset of the first elementary stream: the fixed part and the program descriptors.\<close>

definition streams_offset :: "bytes \<Rightarrow> nat" where
  "streams_offset sec = 12 + len12 (sec ! 10) (sec ! 11)"

definition parse_pmt :: "bytes \<Rightarrow> (ts_error, pmt) result" where
  "parse_pmt sec =
    (if length sec < 16 \<or> sec ! 0 \<noteq> 0x02 \<or> sec ! 1 AND 0x80 = 0 \<or>
        3 + len12 (sec ! 1) (sec ! 2) \<noteq> length sec \<or>
        sec ! 5 AND 1 = 0 \<or> sec ! 6 \<noteq> 0 \<or> sec ! 7 \<noteq> 0 \<or> \<not> valid_crc sec
     then Inl ErrPSI
     else let program = be16 (sec ! 3) (sec ! 4); pcr = pid13 (sec ! 8) (sec ! 9)
          in if program = 0 then Inl ErrPSI
             else if pcr = 0 \<or> pcr = 0x1fff then Inl ErrProgramClock
             else if streams_offset sec > length sec - 4 then Inl ErrPSI
             else (case parse_streams (slice (streams_offset sec) (length sec - 4) sec) [] of
                     Inl e \<Rightarrow> Inl e
                   | Inr streams \<Rightarrow> Inr \<lparr>pmt_program_number = program, pmt_pcr_pid = pcr,
                       pmt_version = section_version sec, pmt_streams = streams\<rparr>))"

section \<open>Service description table\<close>

definition max_sdt_section_bytes :: nat where
  "max_sdt_section_bytes = 1024"

record sdt =
  sdt_transport_stream_id :: u16
  sdt_original_network_id :: u16
  sdt_version :: byte
  sdt_current_next :: bool
  sdt_section_number :: byte
  sdt_last_section_number :: byte
  sdt_service_ids :: "u16 list"

text \<open>The descriptors of one service must tile its descriptor loop exactly.\<close>

function descriptors_tile :: "bytes \<Rightarrow> bool" where
  "descriptors_tile d =
    (if d = [] then True
     else if length d < 2 then False
     else let nxt = 2 + unat (d ! 1)
          in if nxt > length d then False else descriptors_tile (drop nxt d))"
  by pat_completeness auto
termination by (relation "measure length") auto

declare descriptors_tile.simps [simp del]

function parse_services :: "bytes \<Rightarrow> u16 list \<Rightarrow> (ts_error, u16 list) result" where
  "parse_services rest ids =
    (if rest = [] then Inr ids
     else if length rest < 5 then Inl ErrPSI
     else let service = be16 (rest ! 0) (rest ! 1)
          in if service \<in> set ids then Inl ErrPSI
             else let descriptor_end = 5 + len12 (rest ! 3) (rest ! 4)
                  in if descriptor_end > length rest then Inl ErrPSI
                     else if \<not> descriptors_tile (slice 5 descriptor_end rest) then Inl ErrPSI
                     else parse_services (drop descriptor_end rest) (ids @ [service]))"
  by pat_completeness auto
termination by (relation "measure (\<lambda>(rest, ids). length rest)") auto

declare parse_services.simps [simp del]

definition parse_sdt :: "bytes \<Rightarrow> (ts_error, sdt) result" where
  "parse_sdt sec =
    (if length sec < 15 \<or> length sec > max_sdt_section_bytes \<or> sec ! 0 \<noteq> 0x42 \<or>
        sec ! 1 AND 0x80 = 0 \<or> 3 + len12 (sec ! 1) (sec ! 2) \<noteq> length sec \<or>
        sec ! 6 > sec ! 7 \<or> \<not> valid_crc sec
     then Inl ErrPSI
     else (case parse_services (slice 11 (length sec - 4) sec) [] of
             Inl e \<Rightarrow> Inl e
           | Inr ids \<Rightarrow> Inr \<lparr>sdt_transport_stream_id = be16 (sec ! 3) (sec ! 4),
               sdt_original_network_id = be16 (sec ! 8) (sec ! 9),
               sdt_version = section_version sec, sdt_current_next = (sec ! 5 AND 1 \<noteq> 0),
               sdt_section_number = sec ! 6, sdt_last_section_number = sec ! 7,
               sdt_service_ids = ids\<rparr>))"

section \<open>Packetising a section\<close>

text \<open>
  One packet of a section: the four header bytes, a zero pointer field in the first packet, as much
  of the section as fits, and stuffing.
\<close>

definition section_packet :: "u16 \<Rightarrow> byte \<Rightarrow> bool \<Rightarrow> bytes \<Rightarrow> bytes" where
  "section_packet pid continuity first data =
    (let header = [0x47, (ucast (drop_bit 8 pid) AND 0x1f) OR (if first then 0x40 else 0), ucast pid,
                   0x10 OR (continuity AND 0x0f)] @ (if first then [0] else [])
     in header @ data @ replicate (packet_bytes - length header - length data) 0xff)"

function packetize :: "u16 \<Rightarrow> byte \<Rightarrow> bool \<Rightarrow> bytes \<Rightarrow> bytes list" where
  "packetize pid continuity first remaining =
    (if remaining = [] then []
     else let count = min (length remaining) (packet_bytes - (if first then 5 else 4))
          in section_packet pid continuity first (take count remaining)
             # packetize pid ((continuity + 1) AND 0x0f) False (drop count remaining))"
  by pat_completeness auto
termination
  by (relation "measure (\<lambda>(pid, continuity, first, remaining). length remaining)") (auto simp: ts_consts)

declare packetize.simps [simp del]

definition packetize_section :: "u16 \<Rightarrow> byte \<Rightarrow> bytes \<Rightarrow> (ts_error, bytes list) result" where
  "packetize_section pid continuity sec =
    (if pid > 0x1ffe \<or> length sec < 12 \<or> length sec > max_section_bytes then Inl ErrPSI
     else Inr (packetize pid continuity True sec))"

section \<open>Table versions\<close>

record version_tracker =
  vt_valid :: bool
  vt_version :: byte
  vt_section :: bytes

definition new_version_tracker :: version_tracker where
  "new_version_tracker = \<lparr>vt_valid = False, vt_version = 0, vt_section = []\<rparr>"

definition accept_version ::
  "version_tracker \<Rightarrow> byte \<Rightarrow> bytes \<Rightarrow> (ts_error, bool) result \<times> version_tracker" where
  "accept_version tracker version sec =
    (if version > 31 \<or> sec = [] then (Inl ErrPSI, tracker)
     else if vt_valid tracker \<and> vt_version tracker = version
          then if vt_section tracker \<noteq> sec then (Inl ErrPSI, tracker) else (Inr False, tracker)
     else (Inr True, \<lparr>vt_valid = True, vt_version = version, vt_section = sec\<rparr>))"

section \<open>The stream loop as a list of entries\<close>

text \<open>
  A raw entry is five bytes and a descriptor whose length it announces; \<open>stream_of\<close> reads one.
  The loop of \<open>parse_streams\<close> succeeds exactly on a concatenation of good entries.
\<close>

definition stream_of :: "bytes \<Rightarrow> elementary_stream" where
  "stream_of e = \<lparr>es_type = e ! 0, es_pid = pid13 (e ! 1) (e ! 2), es_descriptor = drop 5 e\<rparr>"

definition good_entry :: "bytes \<Rightarrow> bool" where
  "good_entry e \<longleftrightarrow> length e \<ge> 5 \<and> length e = 5 + len12 (e ! 3) (e ! 4) \<and>
     es_pid (stream_of e) \<noteq> 0 \<and> es_pid (stream_of e) \<noteq> 0x1fff"

lemma good_entry_append:
  assumes "good_entry e"
  shows "(e @ r) ! 0 = e ! 0" "(e @ r) ! 1 = e ! 1" "(e @ r) ! 2 = e ! 2"
    "(e @ r) ! 3 = e ! 3" "(e @ r) ! 4 = e ! 4" "slice 5 (length e) (e @ r) = drop 5 e"
  using assms by (auto simp: good_entry_def nth_append slice_def)

lemma good_entry_first:
  assumes "5 \<le> length rest" and "5 + len12 (rest ! 3) (rest ! 4) \<le> length rest"
    and "pid13 (rest ! 1) (rest ! 2) \<noteq> 0" and "pid13 (rest ! 1) (rest ! 2) \<noteq> 0x1fff"
  defines "e \<equiv> take (5 + len12 (rest ! 3) (rest ! 4)) rest"
  shows "good_entry e"
    "stream_of e = \<lparr>es_type = rest ! 0, es_pid = pid13 (rest ! 1) (rest ! 2),
       es_descriptor = slice 5 (5 + len12 (rest ! 3) (rest ! 4)) rest\<rparr>"
  using assms by (auto simp: good_entry_def stream_of_def e_def slice_def drop_take)

lemma parse_streams_sound:
  "parse_streams rest streams = Inr out \<Longrightarrow>
   \<exists>es. rest = concat es \<and> list_all good_entry es \<and> (es \<noteq> [] \<longrightarrow> length streams + length es \<le> 64) \<and>
        out = streams @ map stream_of es"
proof (induction rest streams rule: parse_streams.induct)
  case (1 rest streams)
  show ?case
  proof (cases "rest = []")
    case True
    with "1.prems" have "rest = concat []" "out = streams @ map stream_of []"
      by (auto simp: parse_streams.simps [of "[]"])
    then show ?thesis by (metis list.pred_inject(1))
  next
    case False
    define nxt where "nxt = 5 + len12 (rest ! 3) (rest ! 4)"
    define e where "e = take nxt rest"
    have ok: "5 \<le> length rest" "length streams < 64" "nxt \<le> length rest"
      "pid13 (rest ! 1) (rest ! 2) \<noteq> 0" "pid13 (rest ! 1) (rest ! 2) \<noteq> 0x1fff"
      using "1.prems" False
      by (auto simp: parse_streams.simps [of rest] ts_consts Let_def nxt_def split: if_splits)
    have e: "good_entry e" "stream_of e = \<lparr>es_type = rest ! 0, es_pid = pid13 (rest ! 1) (rest ! 2),
       es_descriptor = slice 5 nxt rest\<rparr>"
      using good_entry_first [of rest] ok by (simp_all add: e_def nxt_def)
    have rec: "parse_streams (drop nxt rest) (streams @ [stream_of e]) = Inr out"
      using "1.prems" False ok
      by (simp add: parse_streams.simps [of rest] ts_consts Let_def nxt_def [symmetric] e(2))
    from "1.IH" [OF False _ refl _ refl, folded nxt_def] ok False rec
    obtain es where es: "drop nxt rest = concat es" "list_all good_entry es"
      "es \<noteq> [] \<longrightarrow> length (streams @ [stream_of e]) + length es \<le> 64"
      "out = (streams @ [stream_of e]) @ map stream_of es"
      by (auto simp: ts_consts e(2))
    have "rest = concat (e # es)"
      using es(1) by (simp add: e_def) (metis append_take_drop_id)
    with es e(1) ok show ?thesis by (intro exI [of _ "e # es"]) auto
  qed
qed

lemma parse_streams_complete:
  "list_all good_entry es \<Longrightarrow> (es \<noteq> [] \<longrightarrow> length streams + length es \<le> 64) \<Longrightarrow>
   parse_streams (concat es) streams = Inr (streams @ map stream_of es)"
proof (induction es arbitrary: streams)
  case Nil
  then show ?case by (simp add: parse_streams.simps)
next
  case (Cons e es)
  have e: "good_entry e" "5 \<le> length e" "length e = 5 + len12 (e ! 3) (e ! 4)"
    using Cons.prems by (auto simp: good_entry_def)
  have "parse_streams (concat (e # es)) streams = parse_streams (concat es) (streams @ [stream_of e])"
    using Cons.prems e good_entry_append [OF e(1), of "concat es"]
    by (subst parse_streams.simps)
      (auto simp: ts_consts Let_def stream_of_def good_entry_def)
  also have "\<dots> = Inr ((streams @ [stream_of e]) @ map stream_of es)"
    using Cons.prems by (intro Cons.IH) auto
  finally show ?case by simp
qed

lemma parse_streams_iff:
  "parse_streams rest [] = Inr out \<longleftrightarrow>
   (\<exists>es. rest = concat es \<and> list_all good_entry es \<and> length es \<le> 64 \<and> out = map stream_of es)"
  using parse_streams_sound [of rest "[]" out] parse_streams_complete [of _ "[]"] by fastforce

text \<open>A successful \<open>parse_pmt\<close>, taken apart.\<close>

lemma parse_pmt_ok:
  assumes "parse_pmt sec = Inr t"
  obtains es where "16 \<le> length sec" "sec ! 0 = 2" "sec ! 1 AND 0x80 \<noteq> 0"
    "3 + len12 (sec ! 1) (sec ! 2) = length sec" "sec ! 5 AND 1 \<noteq> 0" "sec ! 6 = 0" "sec ! 7 = 0"
    "valid_crc sec" "be16 (sec ! 3) (sec ! 4) \<noteq> 0" "pid13 (sec ! 8) (sec ! 9) \<noteq> 0"
    "pid13 (sec ! 8) (sec ! 9) \<noteq> 0x1fff" "streams_offset sec \<le> length sec - 4"
    "slice (streams_offset sec) (length sec - 4) sec = concat es" "list_all good_entry es"
    "length es \<le> 64"
    "t = \<lparr>pmt_program_number = be16 (sec ! 3) (sec ! 4), pmt_pcr_pid = pid13 (sec ! 8) (sec ! 9),
          pmt_version = section_version sec, pmt_streams = map stream_of es\<rparr>"
  using assms
  by (auto simp: parse_pmt_def Let_def parse_streams_iff not_less split: if_splits sum.splits)

lemma parse_pmt_intro:
  assumes "16 \<le> length sec" "sec ! 0 = 2" "sec ! 1 AND 0x80 \<noteq> 0"
    "3 + len12 (sec ! 1) (sec ! 2) = length sec" "sec ! 5 AND 1 \<noteq> 0" "sec ! 6 = 0" "sec ! 7 = 0"
    "valid_crc sec" "be16 (sec ! 3) (sec ! 4) \<noteq> 0" "pid13 (sec ! 8) (sec ! 9) \<noteq> 0"
    "pid13 (sec ! 8) (sec ! 9) \<noteq> 0x1fff" "streams_offset sec \<le> length sec - 4"
    "slice (streams_offset sec) (length sec - 4) sec = concat es" "list_all good_entry es"
    "length es \<le> 64"
  shows "parse_pmt sec =
    Inr \<lparr>pmt_program_number = be16 (sec ! 3) (sec ! 4), pmt_pcr_pid = pid13 (sec ! 8) (sec ! 9),
         pmt_version = section_version sec, pmt_streams = map stream_of es\<rparr>"
  using assms parse_streams_complete [of es "[]"]
  by (simp add: parse_pmt_def Let_def)

section \<open>Properties of the association table\<close>

lemma pat_entries_pid:
  "pat_entries d r = Inr r' \<Longrightarrow> unat (pat_pmt_pid r) < 8192 \<Longrightarrow> unat (pat_pmt_pid r') < 8192"
  by (induction d r rule: pat_entries.induct) (auto simp: Let_def byte_bounds split: if_splits)

text \<open>The PMT PID of an accepted table can be packetised.\<close>

lemma parse_pat_pid:
  assumes "parse_pat sec = Inr t"
  shows "pat_pmt_pid t \<noteq> 0" "pat_pmt_pid t \<le> 0x1ffe"
proof -
  from assms obtain r where r: "pat_entries (slice 8 (length sec - 4) sec) r = Inr t" "pat_pmt_pid r = 0"
    and t: "pat_pmt_pid t \<noteq> 0" "pat_pmt_pid t \<noteq> 0x1fff"
    by (auto simp: parse_pat_def split: if_splits sum.splits)
  have "unat (pat_pmt_pid t) < 8192" using pat_entries_pid [OF r(1)] r(2) by simp
  moreover have "unat (pat_pmt_pid t) \<noteq> unat (0x1fff :: u16)" using t(2) by (metis unsigned_word_eqI)
  ultimately show "pat_pmt_pid t \<le> 0x1ffe" by (simp add: word_le_nat_alt)
qed (use assms in \<open>auto simp: parse_pat_def split: if_splits sum.splits\<close>)

section \<open>Properties of the service table\<close>

lemma parse_services_distinct: "parse_services rest ids = Inr out \<Longrightarrow> distinct ids \<Longrightarrow> distinct out"
proof (induction rest ids rule: parse_services.induct)
  case (1 rest ids)
  from "1.prems" "1.IH" show ?case
    by (subst (asm) parse_services.simps) (auto simp: Let_def split: if_splits)
qed

end
