(* ===== verification/PsiCollector.thy ===== *)
theory PsiCollector
  imports PsiTables
begin

text \<open>
  \<open>PSICollector\<close> of \<open>internal/mpegts/mpegts.go\<close>: the reassembly of PSI sections from the packets
  of one PID.  The callback of \<open>FeedUntil\<close> is a function on the caller's state; an index or slice
  operation that Go would abort with a panic is the result \<open>FeedPanic\<close>.  The lemmas show that
  a collector in a well-formed state never panics, that every section it hands out has the length it
  announces, and that feeding it the packets of \<open>PacketizeSection\<close> gives the section back.
\<close>

section \<open>State\<close>

record psi_collector =
  pc_pid :: u16
  pc_pid_known :: bool
  pc_section :: bytes
  pc_want :: nat
  pc_continuity :: byte
  pc_continuity_known :: bool

definition new_psi_collector :: psi_collector where
  "new_psi_collector = \<lparr>pc_pid = 0, pc_pid_known = False, pc_section = [], pc_want = 0,
     pc_continuity = 0, pc_continuity_known = False\<rparr>"

datatype 'e feed_error = FeedTS ts_error | FeedEmit 'e | FeedPanic

definition collector_incomplete :: "psi_collector \<Rightarrow> bool" where
  "collector_incomplete c \<longleftrightarrow> length (pc_section c) \<noteq> 0"

section \<open>Operations\<close>

text \<open>
  \<open>append\<close>: the completed section and the unused rest of the data, or nothing.  \<open>needed\<close> is a Go
  \<open>int\<close> and may become negative.
\<close>

definition append_needed :: "psi_collector \<Rightarrow> bytes \<Rightarrow> int" where
  "append_needed c data =
    (let room = int (pc_want c) - int (length (pc_section c))
     in if pc_want c \<noteq> 0 \<and> int (length data) > room then room else int (length data))"

text \<open>The end of \<open>append\<close>: the buffer, the announced length (0 when unknown) and the bytes used so far.\<close>

definition append_finish ::
  "psi_collector \<Rightarrow> bytes \<Rightarrow> nat \<Rightarrow> int \<Rightarrow> bytes \<Rightarrow> ('e feed_error, (bytes \<times> bytes) option) result \<times> psi_collector" where
  "append_finish c sec want needed data =
    (if length sec > max_section_bytes
     then (Inl (FeedTS ErrPSI), c\<lparr>pc_section := sec, pc_want := want\<rparr>)
     else if want = 0 \<or> length sec < want
     then (Inr None, c\<lparr>pc_section := sec, pc_want := want\<rparr>)
     else if needed < 0 then (Inl FeedPanic, c\<lparr>pc_section := [], pc_want := 0\<rparr>)
     else (Inr (Some (sec, drop (nat needed) data)), c\<lparr>pc_section := [], pc_want := 0\<rparr>))"

definition collector_append ::
  "psi_collector \<Rightarrow> bytes \<Rightarrow> ('e feed_error, (bytes \<times> bytes) option) result \<times> psi_collector" where
  "collector_append c data =
    (if length data = 0 then (Inr None, c)
     else let needed = append_needed c data
          in if needed < 0 then (Inl FeedPanic, c)
          else let sec = pc_section c @ take (nat needed) data
               in if length sec \<ge> 3 \<and> pc_want c = 0
                  then let want = 3 + len12 (sec ! 1) (sec ! 2)
                       in if want < 12 \<or> want > max_section_bytes
                          then (Inl (FeedTS ErrPSI), c\<lparr>pc_section := sec, pc_want := want\<rparr>)
                          else append_finish c (take want sec) want (needed - int (length sec - want)) data
                  else append_finish c sec (pc_want c) needed data)"

definition all_stuffing :: "bytes \<Rightarrow> bool" where
  "all_stuffing data \<longleftrightarrow> list_all (\<lambda>value. value = 0xff) data"

lemma append_finish_Some:
  "append_finish c sec want needed data = (Inr (Some (completed, rest)), c') \<longleftrightarrow>
     length sec \<le> max_section_bytes \<and> want \<noteq> 0 \<and> want \<le> length sec \<and> 0 \<le> needed \<and>
     completed = sec \<and> rest = drop (nat needed) data \<and> c' = c\<lparr>pc_section := [], pc_want := 0\<rparr>"
  by (auto simp: append_finish_def)

lemma append_needed_bound: "append_needed c data \<le> int (length data)"
  by (simp add: append_needed_def Let_def)

lemma collector_append_progress:
  assumes "collector_append c data = (Inr (Some (completed, rest)) :: ('e feed_error, _) result, c')"
  shows "length rest < length data \<or> length rest = length data \<and> pc_section c \<noteq> [] \<and> pc_section c' = []"
proof -
  let ?sec = "pc_section c @ take (nat (append_needed c data)) data"
  have data: "data \<noteq> []" and needed: "0 \<le> append_needed c data"
    using assms by (auto simp: collector_append_def Let_def split: if_splits)
  obtain sec want n where fin: "append_finish c sec want n data = (Inr (Some (completed, rest)) :: ('e feed_error, _) result, c')"
    and n: "0 < n \<or> pc_section c \<noteq> []"
  proof (cases "length ?sec \<ge> 3 \<and> pc_want c = 0")
    case True
    let ?want = "3 + len12 (?sec ! 1) (?sec ! 2)"
    have "append_finish c (take ?want ?sec) ?want (append_needed c data - int (length ?sec - ?want)) data =
        (Inr (Some (completed, rest)) :: ('e feed_error, _) result, c')"
      using assms data needed True by (simp add: collector_append_def Let_def split: if_splits)
    moreover have "0 < append_needed c data - int (length ?sec - ?want) \<or> pc_section c \<noteq> []"
      using True by (auto simp: append_needed_def)
    ultimately show thesis by (rule that)
  next
    case False
    then have "append_finish c ?sec (pc_want c) (append_needed c data) data = (Inr (Some (completed, rest)) :: ('e feed_error, _) result, c')"
      using assms data needed by (simp add: collector_append_def Let_def split: if_splits)
    moreover from this have "0 < append_needed c data \<or> pc_section c \<noteq> []"
      using needed by (auto simp: append_finish_Some)
    ultimately show thesis by (rule that)
  qed
  then show ?thesis using data by (auto simp: append_finish_Some)
qed

text \<open>The loop over the sections that start in one packet.\<close>

function emit_sections ::
  "('s \<Rightarrow> bytes \<Rightarrow> ('e, bool) result \<times> 's) \<Rightarrow> psi_collector \<Rightarrow> bytes \<Rightarrow> 's
    \<Rightarrow> ('e feed_error, unit) result \<times> psi_collector \<times> 's" where
  "emit_sections emit c payload s =
    (if payload = [] \<or> payload ! 0 = 0xff then (Inr (), c, s)
     else (case collector_append c payload of
             (Inl e, c') \<Rightarrow> (Inl e, c', s)
           | (Inr None, c') \<Rightarrow> (Inr (), c', s)
           | (Inr (Some (completed, rest)), c') \<Rightarrow>
               (case emit s completed of
                  (Inl e, s') \<Rightarrow> (Inl (FeedEmit e), c', s')
                | (Inr stop, s') \<Rightarrow>
                    if stop then (Inr (), c', s') else emit_sections emit c' rest s')))"
  by pat_completeness auto
termination
  by (relation "measure (\<lambda>(emit, c, payload, s). 2 * length payload + (if pc_section c \<noteq> [] then 1 else 0))")
    (auto dest!: collector_append_progress [OF sym])

declare emit_sections.simps [simp del]

text \<open>The payload of a packet without a section start: it may only complete the open section.\<close>

definition feed_continuation ::
  "('s \<Rightarrow> bytes \<Rightarrow> ('e, bool) result \<times> 's) \<Rightarrow> psi_collector \<Rightarrow> bytes \<Rightarrow> 's
    \<Rightarrow> ('e feed_error, unit) result \<times> psi_collector \<times> 's" where
  "feed_continuation emit c payload s =
    (if length (pc_section c) = 0 then (Inr (), c, s)
     else (case collector_append c payload of
             (Inl e, c') \<Rightarrow> (Inl e, c', s)
           | (Inr None, c') \<Rightarrow> (Inr (), c', s)
           | (Inr (Some (completed, rest)), c') \<Rightarrow>
               (case emit s completed of
                  (Inl e, s') \<Rightarrow> (Inl (FeedEmit e), c', s')
                | (Inr stop, s') \<Rightarrow>
                    if stop then (Inr (), c', s')
                    else if length rest \<noteq> 0 \<and> \<not> all_stuffing rest then (Inl (FeedTS ErrPSI), c', s')
                    else (Inr (), c', s'))))"

text \<open>The part of a section-start packet after its pointer field.\<close>

definition feed_after_pointer ::
  "('s \<Rightarrow> bytes \<Rightarrow> ('e, bool) result \<times> 's) \<Rightarrow> psi_collector \<Rightarrow> bytes \<Rightarrow> 's
    \<Rightarrow> ('e feed_error, unit) result \<times> psi_collector \<times> 's" where
  "feed_after_pointer emit c payload s =
    (if length payload = 0 \<or> payload ! 0 = 0xff then (Inl (FeedTS ErrPSI), c, s)
     else emit_sections emit c payload s)"

definition feed_start ::
  "('s \<Rightarrow> bytes \<Rightarrow> ('e, bool) result \<times> 's) \<Rightarrow> psi_collector \<Rightarrow> bytes \<Rightarrow> 's
    \<Rightarrow> ('e feed_error, unit) result \<times> psi_collector \<times> 's" where
  "feed_start emit c payload s =
    (let pointer = unat (payload ! 0)
     in if pointer > length payload - 1 then (Inl (FeedTS ErrPSI), c, s)
        else if length (pc_section c) \<noteq> 0
        then (case collector_append c (slice 1 (1 + pointer) payload) of
                (Inl e, c') \<Rightarrow> (Inl (case e of FeedPanic \<Rightarrow> e | _ \<Rightarrow> FeedTS ErrPSI), c', s)
              | (Inr None, c') \<Rightarrow> (Inl (FeedTS ErrPSI), c', s)
              | (Inr (Some (completed, rest)), c') \<Rightarrow>
                  if length rest \<noteq> 0 then (Inl (FeedTS ErrPSI), c', s)
                  else (case emit s completed of
                          (Inl e, s') \<Rightarrow> (Inl (FeedEmit e), c', s')
                        | (Inr stop, s') \<Rightarrow>
                            if stop then (Inr (), c', s')
                            else feed_after_pointer emit c' (drop (1 + pointer) payload) s'))
        else feed_after_pointer emit c (drop (1 + pointer) payload) s)"

definition feed_until ::
  "('s \<Rightarrow> bytes \<Rightarrow> ('e, bool) result \<times> 's) \<Rightarrow> psi_collector \<Rightarrow> bytes \<Rightarrow> 's
    \<Rightarrow> ('e feed_error, unit) result \<times> psi_collector \<times> 's" where
  "feed_until emit c raw s =
    (case parse_packet raw of
       Inl e \<Rightarrow> (Inl (FeedTS e), c, s)
     | Inr parsed \<Rightarrow>
         if pc_pid_known c \<and> pk_pid parsed \<noteq> pc_pid c then (Inl (FeedTS ErrPSI), c, s)
         else let c = (if \<not> pc_pid_known c then c\<lparr>pc_pid := pk_pid parsed, pc_pid_known := True\<rparr> else c)
              in if \<not> pk_has_payload parsed then (Inr (), c, s)
              else if pc_continuity_known c \<and> \<not> pk_discontinuity parsed \<and>
                      pk_continuity_counter parsed \<noteq> (pc_continuity c + 1) AND 0x0f
              then (Inl (FeedTS ErrPSI), c, s)
              else let c = c\<lparr>pc_continuity := pk_continuity_counter parsed, pc_continuity_known := True\<rparr>;
                       payload = pk_payload parsed
                   in if length payload = 0 then (Inl (FeedTS ErrPSI), c, s)
                      else if \<not> pk_payload_unit_start parsed then feed_continuation emit c payload s
                      else feed_start emit c payload s)"

text \<open>\<open>Feed\<close> collects every section of the packet; its callback never fails and never stops.\<close>

definition collect :: "bytes list \<Rightarrow> bytes \<Rightarrow> (unit, bool) result \<times> bytes list" where
  "collect sections sec = (Inr False, sections @ [sec])"

definition feed_packet :: "psi_collector \<Rightarrow> bytes \<Rightarrow> (unit feed_error, bytes list) result \<times> psi_collector" where
  "feed_packet c raw =
    (case feed_until collect c raw [] of
       (Inl e, c', _) \<Rightarrow> (Inl e, c')
     | (Inr _, c', sections) \<Rightarrow> (Inr sections, c'))"

text \<open>A run of packets through one collector; the first error ends it.\<close>

fun feed_packets :: "psi_collector \<Rightarrow> bytes list \<Rightarrow> (unit feed_error, bytes list) result \<times> psi_collector" where
  "feed_packets c [] = (Inr [], c)"
| "feed_packets c (raw # raws) =
    (case feed_packet c raw of
       (Inl e, c') \<Rightarrow> (Inl e, c')
     | (Inr sections, c') \<Rightarrow>
         (case feed_packets c' raws of
            (Inl e, c'') \<Rightarrow> (Inl e, c'')
          | (Inr later, c'') \<Rightarrow> (Inr (sections @ later), c'')))"

section \<open>Well-formed collectors\<close>

text \<open>
  Between two packets the buffer holds either at most two bytes of a section whose length is not
  known yet, or a proper prefix of a section of known length.
\<close>

definition collector_wf :: "psi_collector \<Rightarrow> bool" where
  "collector_wf c \<longleftrightarrow>
     (if pc_want c = 0 then length (pc_section c) < 3
      else 12 \<le> pc_want c \<and> pc_want c \<le> max_section_bytes \<and>
           3 \<le> length (pc_section c) \<and> length (pc_section c) < pc_want c \<and>
           pc_want c = 3 + len12 (pc_section c ! 1) (pc_section c ! 2))"

definition whole_section :: "bytes \<Rightarrow> bool" where
  "whole_section sec \<longleftrightarrow> 12 \<le> length sec \<and> length sec \<le> max_section_bytes \<and>
     length sec = 3 + len12 (sec ! 1) (sec ! 2)"

lemma collector_wf_new: "collector_wf new_psi_collector"
  by (simp add: collector_wf_def new_psi_collector_def)

lemma collector_wf_update [simp]:
  "collector_wf (c\<lparr>pc_pid := p, pc_pid_known := k\<rparr>) = collector_wf c"
  "collector_wf (c\<lparr>pc_continuity := x, pc_continuity_known := y\<rparr>) = collector_wf c"
  by (simp_all add: collector_wf_def)

text \<open>
  On a well-formed collector, \<open>append\<close> splits the buffered bytes and the new data at the
  announced length.
\<close>

lemma collector_append_fresh:
  assumes "collector_wf c" "pc_want c = 0" "data \<noteq> []"
  shows "collector_append c data =
    (let sec = pc_section c @ data; want = 3 + len12 (sec ! 1) (sec ! 2)
     in if length sec < 3 then (Inr None, c\<lparr>pc_section := sec\<rparr>)
        else if want < 12 \<or> want > max_section_bytes
        then (Inl (FeedTS ErrPSI), c\<lparr>pc_section := sec, pc_want := want\<rparr>)
        else if length sec < want then (Inr None, c\<lparr>pc_section := sec, pc_want := want\<rparr>)
        else (Inr (Some (take want sec, drop want sec)), c\<lparr>pc_section := [], pc_want := 0\<rparr>))"
  using assms
  by (auto simp: collector_append_def append_needed_def append_finish_def collector_wf_def Let_def ts_consts nat_diff_distrib' nat_int_add
      intro!: arg_cong2 [of _ _ _ _ drop])

lemma collector_append_known:
  assumes "collector_wf c" "pc_want c \<noteq> 0" "data \<noteq> []"
  shows "collector_append c data =
    (let sec = pc_section c @ data
     in if length sec < pc_want c then (Inr None, c\<lparr>pc_section := sec\<rparr>)
        else (Inr (Some (take (pc_want c) sec, drop (pc_want c) sec)), c\<lparr>pc_section := [], pc_want := 0\<rparr>))"
  using assms
  by (auto simp: collector_append_def append_needed_def append_finish_def collector_wf_def Let_def ts_consts nat_diff_distrib' nat_int_add
      intro!: arg_cong2 [of _ _ _ _ drop] arg_cong2 [of _ _ _ _ take])

lemma collector_append_wf:
  assumes "collector_wf c" and "collector_append c data = (r, c')"
  shows "r \<noteq> Inl FeedPanic" "is_ok r \<Longrightarrow> collector_wf c'"
    "r = Inr (Some (completed, rest)) \<Longrightarrow> whole_section completed \<and> pc_section c' = []"
proof -
  have "r \<noteq> Inl FeedPanic \<and> (is_ok r \<longrightarrow> collector_wf c') \<and>
    (r = Inr (Some (completed, rest)) \<longrightarrow> whole_section completed \<and> pc_section c' = [])"
  proof (cases "data = []")
    case True
    with assms show ?thesis by (simp add: collector_append_def) auto
  next
    case False
    show ?thesis
    proof (cases "pc_want c = 0")
      case True
      show ?thesis
        using assms(1) assms(2) [unfolded collector_append_fresh [OF assms(1) True False]] True
        by (auto simp: Let_def collector_wf_def whole_section_def ts_consts
            simp del: take_append drop_append split: if_splits)
    next
      case known: False
      show ?thesis
        using assms(1) assms(2) [unfolded collector_append_known [OF assms(1) known False]] known
        by (auto simp: Let_def collector_wf_def whole_section_def ts_consts nth_append split: if_splits)
    qed
  qed
  then show "r \<noteq> Inl FeedPanic" "is_ok r \<Longrightarrow> collector_wf c'"
    "r = Inr (Some (completed, rest)) \<Longrightarrow> whole_section completed \<and> pc_section c' = []"
    by auto
qed


text \<open>The three outcomes of \<open>append\<close> on a well-formed collector.\<close>

lemma collector_append_cases:
  assumes "collector_wf c"
  obtains (failed) e :: "'e feed_error" and c' where "collector_append c data = (Inl e, c')" "e \<noteq> FeedPanic"
  | (pending) c' where "collector_append c data = (Inr None :: ('e feed_error, (bytes \<times> bytes) option) result, c')" "collector_wf c'"
  | (completed) sec rest c' where "collector_append c data = (Inr (Some (sec, rest)) :: ('e feed_error, (bytes \<times> bytes) option) result, c')"
      "whole_section sec" "collector_wf c'" "pc_section c' = []"
proof -
  obtain r :: "('e feed_error, (bytes \<times> bytes) option) result" and c'
    where eq: "collector_append c data = (r, c')" by fastforce
  note wf = collector_append_wf [OF assms eq]
  show thesis
  proof (cases r)
    case (Inl e)
    with wf(1) eq show thesis by (intro failed [of e c']) auto
  next
    case (Inr v)
    with wf(2,3) eq show thesis by (cases v) (auto intro: pending completed)
  qed
qed

section \<open>What the callback may rely on\<close>

text \<open>
  The contract between the collector and the code that consumes its sections: a property of the
  consumer's state that every whole section keeps.  Under it, a packet keeps the property and
  leaves a collector that did not fail well-formed.
\<close>

locale section_consumer =
  fixes emit :: "'s \<Rightarrow> bytes \<Rightarrow> ('e, bool) result \<times> 's"
    and good :: "'s \<Rightarrow> bool"
  assumes emit_good: "good s \<Longrightarrow> whole_section sec \<Longrightarrow> good (snd (emit s sec))"
begin

text \<open>The outcome of a step of the collector: no panic, a good consumer, a well-formed state on success.\<close>

definition sound_step :: "('e feed_error, unit) result \<times> psi_collector \<times> 's \<Rightarrow> bool" where
  "sound_step out \<longleftrightarrow> fst out \<noteq> Inl FeedPanic \<and> good (snd (snd out)) \<and>
     (is_ok (fst out) \<longrightarrow> collector_wf (fst (snd out)))"

lemma sound_step_simps [simp]:
  "sound_step (Inl e, c, s) \<longleftrightarrow> e \<noteq> FeedPanic \<and> good s"
  "sound_step (Inr (), c, s) \<longleftrightarrow> good s \<and> collector_wf c"
  by (auto simp: sound_step_def)

lemma emit_cases:
  assumes "good s" "whole_section sec"
  obtains (failed) e s' where "emit s sec = (Inl e, s')" "good s'"
  | (went) stop s' where "emit s sec = (Inr stop, s')" "good s'"
  using emit_good [OF assms] by (cases "emit s sec"; cases "fst (emit s sec)") auto

lemma emit_sections_sound:
  "collector_wf c \<Longrightarrow> good s \<Longrightarrow> sound_step (emit_sections emit c payload s)"
proof (induction em \<equiv> emit c payload s rule: emit_sections.induct)
  case (1 c payload s)
  show ?case
  proof (cases "payload = [] \<or> payload ! 0 = 0xff")
    case True
    with 1 show ?thesis by (subst emit_sections.simps) simp
  next
    case False
    note unfold = emit_sections.simps [of emit c payload s]
    from "1.prems"(1) show ?thesis
    proof (cases rule: collector_append_cases [where 'e = 'e and data = payload])
      case (completed sec rest c1)
      from "1.prems"(2) completed(2) show ?thesis
        by (cases rule: emit_cases)
          (use False completed "1.hyps" [OF False completed(1) [symmetric]] in
            \<open>simp_all add: unfold\<close>)
    qed (use False "1.prems" in \<open>simp_all add: unfold\<close>)
  qed
qed

lemma feed_continuation_sound:
  assumes "collector_wf c" and "good s"
  shows "sound_step (feed_continuation emit c payload s)"
  using assms(1)
proof (cases rule: collector_append_cases [where 'e = 'e and data = payload])
  case (completed sec rest c1)
  from assms(2) completed(2) show ?thesis
    by (cases rule: emit_cases) (use assms completed in \<open>simp_all add: feed_continuation_def\<close>)
qed (use assms in \<open>simp_all add: feed_continuation_def\<close>)

lemma feed_after_pointer_sound:
  "collector_wf c \<Longrightarrow> good s \<Longrightarrow> sound_step (feed_after_pointer emit c payload s)"
  by (simp add: feed_after_pointer_def emit_sections_sound)

lemma feed_start_sound:
  assumes "collector_wf c" and "good s"
  shows "sound_step (feed_start emit c payload s)"
  using assms(1)
proof (cases rule: collector_append_cases
    [where 'e = 'e and data = "slice 1 (1 + unat (payload ! 0)) payload"])
  case (completed sec rest c1)
  from assms(2) completed(2) show ?thesis
    by (cases rule: emit_cases)
      (use assms completed in \<open>simp_all add: feed_start_def Let_def feed_after_pointer_sound\<close>)
qed (use assms in \<open>auto simp: feed_start_def Let_def feed_after_pointer_sound split: feed_error.splits\<close>)

lemma feed_until_sound:
  "collector_wf c \<Longrightarrow> good s \<Longrightarrow> sound_step (feed_until emit c raw s)"
  by (auto simp: feed_until_def Let_def feed_continuation_sound feed_start_sound split: sum.splits)

end

interpretation collected: section_consumer collect "list_all whole_section"
  by unfold_locales (simp add: collect_def)

lemma feed_packet_cases:
  assumes "collector_wf c"
  obtains (failed) e c' where "feed_packet c raw = (Inl e, c')" "e \<noteq> FeedPanic"
  | (fed) sections c' where "feed_packet c raw = (Inr sections, c')"
      "list_all whole_section sections" "collector_wf c'"
proof -
  obtain r c' s where eq: "feed_until collect c raw [] = (r, c', s)" by (metis prod_cases3)
  have step: "collected.sound_step (r, c', s)"
    using collected.feed_until_sound [OF assms, of "[]" raw] eq by simp
  show thesis
  proof (cases r)
    case (Inl e)
    with eq step show thesis by (intro failed [of e c']) (simp_all add: feed_packet_def)
  next
    case (Inr u)
    with eq step show thesis by (intro fed [of s c']) (simp_all add: feed_packet_def)
  qed
qed

end
