(* ===== verification/SectionTransport.thy ===== *)
theory SectionTransport
  imports PsiCollector
begin

text \<open>
  \<open>PacketizeSection\<close> and \<open>PSICollector\<close> of \<open>internal/mpegts/mpegts.go\<close> together: the packets cut
  from a section parse to the fields they were built from, and a fresh collector that is fed all
  of them returns exactly that section.
\<close>

section \<open>The packets of a section\<close>

definition section_header :: "u16 \<Rightarrow> byte \<Rightarrow> bool \<Rightarrow> bytes" where
  "section_header pid continuity first =
     [0x47, (ucast (drop_bit 8 pid) AND 0x1f) OR (if first then 0x40 else 0), ucast pid,
      0x10 OR (continuity AND 0x0f)]"

definition section_payload :: "bool \<Rightarrow> bytes \<Rightarrow> bytes" where
  "section_payload first data =
     (let body = (if first then [0] else []) @ data in body @ replicate (184 - length body) 0xff)"

definition section_room :: "bool \<Rightarrow> nat" where
  "section_room first = packet_bytes - (if first then 5 else 4)"

lemma section_packet_split:
  "section_packet pid continuity first data =
     section_header pid continuity first @ section_payload first data"
  by (simp add: section_packet_def section_header_def section_payload_def Let_def ts_consts)

lemma length_section_payload:
  "length data \<le> section_room first \<Longrightarrow> length (section_payload first data) = 184"
  by (auto simp: section_payload_def section_room_def Let_def ts_consts)

lemma bit_mask_10 [byte_bounds]: "bit (0x10 :: byte) i \<longleftrightarrow> i = 4"
proof -
  have eq: "(0x10 :: byte) = push_bit 4 (mask 1)" by (simp add: mask_eq_exp_minus_1 push_bit_eq_mult)
  show ?thesis unfolding eq by (auto simp: bit_simps)
qed

lemma bit_mask_03 [byte_bounds]: "bit (0x03 :: byte) i \<longleftrightarrow> i < 2"
proof -
  have eq: "(0x03 :: byte) = mask 2" by (simp add: mask_eq_exp_minus_1)
  show ?thesis unfolding eq by (auto simp: bit_simps)
qed

lemma section_control: "drop_bit 4 (0x10 OR (cc AND 0x0f)) AND 0x03 = (1 :: byte)"
  by (rule bit_eqI) (auto simp: bit_simps byte_bounds)

lemma section_counter: "(0x10 OR (cc AND 0x0f)) AND 0x0f = (cc AND 0x0f :: byte)"
  by (rule bit_eqI) (auto simp: bit_simps byte_bounds)

lemma section_error_bit: "((x AND 0x1f) OR (if first then 0x40 else 0)) AND 0x80 = (0 :: byte)"
  by (rule bit_eqI) (auto simp: bit_simps byte_bounds)

lemma section_start_bit: "((x AND 0x1f) OR (if first then 0x40 else 0)) AND 0x40 \<noteq> (0 :: byte) \<longleftrightarrow> first"
proof -
  have "((x AND 0x1f) OR (if first then 0x40 else 0)) AND 0x40 = (if first then 0x40 else 0 :: byte)"
    by (rule bit_eqI) (auto simp: bit_simps byte_bounds)
  then show ?thesis by auto
qed

lemma small_pid_bits:
  assumes "\<not> pid > (0x1ffe :: u16)" and "bit pid i"
  shows "i < 13"
proof -
  have "unat pid < 2 ^ 13" using assms(1) by (simp add: word_less_nat_alt)
  then have "take_bit 13 pid = pid" by (metis take_bit_nat_eq_self unsigned_take_bit_eq unsigned_word_eqI)
  then show ?thesis using assms(2) by (metis bit_take_bit_iff)
qed

lemma section_pid:
  assumes "\<not> pid > (0x1ffe :: u16)"
  shows "pid13 ((ucast (drop_bit 8 pid) AND 0x1f) OR (if first then 0x40 else 0)) (ucast pid) = pid"
  unfolding pid13_def be16_def
  by (rule bit_eqI)
    (auto simp: bit_simps byte_bounds dest: small_pid_bits [OF assms] bit_imp_le_length)

text \<open>A packet of a section, parsed.\<close>

lemma parse_section_packet:
  assumes "\<not> pid > 0x1ffe" and "length data \<le> section_room first"
  shows "parse_packet (section_packet pid cc first data) =
    Inr \<lparr>pk_pid = pid, pk_payload_unit_start = first, pk_continuity_counter = cc AND 0x0f,
         pk_has_payload = True, pk_payload = section_payload first data, pk_random_access = False,
         pk_discontinuity = False, pk_has_program_clock = False, pk_program_clock = 0\<rparr>"
proof -
  let ?raw = "section_packet pid cc first data"
  have at: "?raw ! 0 = 0x47" "?raw ! 1 = (ucast (drop_bit 8 pid) AND 0x1f) OR (if first then 0x40 else 0)"
    "?raw ! 2 = ucast pid" "?raw ! 3 = 0x10 OR (cc AND 0x0f)" "drop 4 ?raw = section_payload first data"
    by (simp_all add: section_packet_split section_header_def)
  have len: "length ?raw = packet_bytes"
    using length_section_payload [OF assms(2)]
    by (simp add: section_packet_split section_header_def ts_consts)
  have fields: "drop_bit 4 (?raw ! 3) AND 0x03 = 1" "?raw ! 3 AND 0x0f = cc AND 0x0f"
    "?raw ! 1 AND 0x80 = 0" "?raw ! 1 AND 0x40 \<noteq> 0 \<longleftrightarrow> first" "pid13 (?raw ! 1) (?raw ! 2) = pid"
    by (simp_all only: at section_control section_counter section_error_bit section_start_bit
        section_pid [OF assms(1)] not_False_eq_True)
  have no_adaptation: "parse_adaptation ?raw 1 p = Inr (4, p)" for p
    by (simp add: parse_adaptation_def)
  show ?thesis
    by (simp add: parse_packet_def len fields at(1,5) no_adaptation packet_header_def Let_def)
      (simp add: ts_consts)
qed

section \<open>Reassembly\<close>

lemma unat_and_mask_0F: "unat (x AND 0x0f :: byte) = unat x mod 16"
proof -
  have mask: "(0x0f :: byte) = mask 4" by (simp add: mask_eq_exp_minus_1)
  show ?thesis
    unfolding mask take_bit_eq_mask [symmetric] by (simp only: unsigned_take_bit_eq) (simp add: take_bit_eq_mod)
qed

lemma counter_step: "((cc AND 0x0f) + 1) AND 0x0f = ((cc + 1) AND 0x0f :: byte)"
proof (rule unsigned_word_eqI [where 'a = nat])
  have "(unat cc mod 16 + 1) mod 256 mod 16 = (unat cc + 1) mod 256 mod (16 :: nat)"
    by (simp add: mod_mod_cancel mod_simps)
  then show "unat ((cc AND 0x0f) + 1 AND 0x0f) = unat (cc + 1 AND 0x0f)"
    by (simp only: unat_and_mask_0F unat_word_ariths) simp
qed

lemma replicate_stuffing: "all_stuffing (replicate n 0xff)"
  by (simp add: all_stuffing_def)

text \<open>An idle collector takes the first packet of a section.\<close>

definition ready_for :: "u16 \<Rightarrow> byte \<Rightarrow> psi_collector \<Rightarrow> bool" where
  "ready_for pid cc c \<longleftrightarrow> (pc_pid_known c \<longrightarrow> pc_pid c = pid) \<and>
     (pc_continuity_known c \<longrightarrow> cc AND 0x0f = (pc_continuity c + 1) AND 0x0f)"

definition seen :: "u16 \<Rightarrow> byte \<Rightarrow> bytes \<Rightarrow> nat \<Rightarrow> psi_collector" where
  "seen pid cc sec want = \<lparr>pc_pid = pid, pc_pid_known = True, pc_section = sec, pc_want = want,
     pc_continuity = cc AND 0x0f, pc_continuity_known = True\<rparr>"

lemma seen_simps [simp]:
  "pc_section (seen pid cc p w) = p" "pc_want (seen pid cc p w) = w"
  "seen pid cc p w\<lparr>pc_section := q\<rparr> = seen pid cc q w"
  "seen pid cc p w\<lparr>pc_want := v\<rparr> = seen pid cc p v"
  "seen pid cc p w\<lparr>pc_section := q, pc_want := v\<rparr> = seen pid cc q v"
  by (simp_all add: seen_def)

lemma ready_for_seen: "ready_for pid ((cc + 1) AND 0x0f) (seen pid cc sec want)"
  by (simp add: ready_for_def seen_def counter_step)

lemma feed_until_section_packet:
  assumes "\<not> pid > 0x1ffe" "length data \<le> section_room first" "ready_for pid cc c"
  shows "feed_until emit c (section_packet pid cc first data) s =
    (if first then feed_start emit (seen pid cc (pc_section c) (pc_want c)) (section_payload first data) s
     else feed_continuation emit (seen pid cc (pc_section c) (pc_want c)) (section_payload first data) s)"
proof -
  have known: "(if \<not> pc_pid_known c then c\<lparr>pc_pid := pid, pc_pid_known := True\<rparr> else c)
      \<lparr>pc_continuity := cc AND 0x0f, pc_continuity_known := True\<rparr> = seen pid cc (pc_section c) (pc_want c)"
    using assms(3) by (cases c) (auto simp: ready_for_def seen_def)
  have "section_payload first data \<noteq> []" using length_section_payload [OF assms(2)] by auto
  then show ?thesis
    using assms(3) known
    by (auto simp: feed_until_def parse_section_packet [OF assms(1,2)] ready_for_def Let_def)
qed

lemma collect_whole_first:
  assumes "whole_section sec" "sec ! 0 \<noteq> 0xff" "length sec \<le> 183"
  shows "feed_start collect (seen pid cc [] 0) (section_payload True sec) [] =
    (Inr (), seen pid cc [] 0, [sec])"
proof -
  define stuff where "stuff = replicate (183 - length sec) (0xff :: byte)"
  have wf: "collector_wf (seen pid cc [] 0)" by (simp add: collector_wf_def)
  have nonempty: "sec @ stuff \<noteq> []" using assms(1) by (auto simp: whole_section_def)
  have front: "(sec @ stuff) ! i = sec ! i" if "i < 12" for i
    using assms(1) that by (auto simp: whole_section_def nth_append)
  have "collector_append (seen pid cc [] 0) (sec @ stuff) =
      (Inr (Some (sec, stuff)) :: (unit feed_error, _) result, seen pid cc [] 0)"
    using assms(1) collector_append_fresh [OF wf _ nonempty] front [of 1] front [of 2]
    by (simp add: whole_section_def Let_def)
  moreover have "emit_sections collect c stuff s = (Inr (), c, s)" for c s
    by (subst emit_sections.simps) (auto simp: stuff_def)
  moreover have "section_payload True sec = 0 # (sec @ stuff)"
    using assms(3) by (simp add: section_payload_def stuff_def Let_def)
  ultimately show ?thesis
    using nonempty front [of 0] assms(2)
    by (simp add: feed_start_def feed_after_pointer_def emit_sections.simps [of _ _ "sec @ stuff"]
        collect_def Let_def)
qed

text \<open>The first packet of a longer section opens it.\<close>

lemma collect_open:
  assumes "whole_section sec" "sec ! 0 \<noteq> 0xff" "183 < length sec"
  shows "feed_start collect (seen pid cc [] 0) (section_payload True (take 183 sec)) [] =
    (Inr (), seen pid cc (take 183 sec) (length sec), [])"
proof -
  have wf: "collector_wf (seen pid cc [] 0)" by (simp add: collector_wf_def)
  have nonempty: "take 183 sec \<noteq> []" using assms(3) by auto
  have "collector_append (seen pid cc [] 0) (take 183 sec) =
      (Inr None :: (unit feed_error, _) result, seen pid cc (take 183 sec) (length sec))"
    using assms(1,3) collector_append_fresh [OF wf _ nonempty]
    by (simp add: whole_section_def Let_def)
  moreover have "section_payload True (take 183 sec) = 0 # take 183 sec"
    using assms(3) by (simp add: section_payload_def Let_def)
  ultimately show ?thesis
    using nonempty assms(2)
    by (simp add: feed_start_def feed_after_pointer_def emit_sections.simps [of _ _ "take 183 sec"] Let_def)
qed

text \<open>A later packet extends the open section, or completes it.\<close>

lemma collect_more:
  assumes "whole_section (p @ data @ later)" "12 \<le> length p" "data \<noteq> []"
    and fits: "length data = 184 \<or> length data < 184 \<and> later = []"
  shows "feed_continuation collect (seen pid cc p (length (p @ data @ later))) (section_payload False data) [] =
    (if later = [] then (Inr (), seen pid cc [] 0, [p @ data])
     else (Inr (), seen pid cc (p @ data) (length (p @ data @ later)), []))"
proof -
  define stuff where "stuff = replicate (184 - length data) (0xff :: byte)"
  define want where "want = length (p @ data @ later)"
  have wf: "collector_wf (seen pid cc p want)"
    using assms(1,2) length_greater_0_conv [of data, THEN iffD2, OF assms(3)]
    by (auto simp: collector_wf_def whole_section_def want_def nth_append simp del: length_greater_0_conv)
  have "want \<noteq> 0" "data @ stuff \<noteq> []" "p \<noteq> []" using assms(2,3) by (auto simp: want_def)
  have append: "collector_append (seen pid cc p want) (data @ stuff) =
      (if later = [] then (Inr (Some (p @ data, stuff)) :: (unit feed_error, _) result, seen pid cc [] 0)
       else (Inr None, seen pid cc (p @ data) want))"
    using collector_append_known [OF wf _ \<open>data @ stuff \<noteq> []\<close>] \<open>want \<noteq> 0\<close> fits
    by (auto simp: want_def stuff_def Let_def)
  have "section_payload False data = data @ stuff"
    using fits by (auto simp: section_payload_def stuff_def Let_def)
  then show ?thesis
    using \<open>p \<noteq> []\<close> append by (auto simp: feed_continuation_def want_def collect_def stuff_def all_stuffing_def)
qed

lemma feed_packets_rest:
  "\<not> pid > 0x1ffe \<Longrightarrow> whole_section (p @ remaining) \<Longrightarrow> 12 \<le> length p \<Longrightarrow> remaining \<noteq> [] \<Longrightarrow>
   \<exists>last. feed_packets (seen pid cc p (length (p @ remaining)))
     (packetize pid ((cc + 1) AND 0x0f) False remaining) = (Inr [p @ remaining], seen pid last [] 0)"
proof (induction "length remaining" arbitrary: cc p remaining rule: less_induct)
  case less
  define data where "data = take 184 remaining"
  define later where "later = drop 184 remaining"
  define next_cc where "next_cc = (cc + 1) AND (0x0f :: byte)"
  have split: "remaining = data @ later" by (simp add: data_def later_def)
  have data: "data \<noteq> []" "length data = 184 \<or> length data < 184 \<and> later = []"
    "length data \<le> section_room False"
    using less.prems(4) by (auto simp: data_def later_def section_room_def ts_consts)
  have unfold: "packetize pid next_cc False remaining =
      section_packet pid next_cc False data # packetize pid ((next_cc + 1) AND 0x0f) False later"
    using less.prems(4)
    by (subst packetize.simps) (simp add: data_def later_def Let_def ts_consts min_def)
  have ready: "ready_for pid next_cc (seen pid cc p w)" for w
    unfolding next_cc_def by (rule ready_for_seen)
  have fed: "feed_packet (seen pid cc p (length (p @ remaining))) (section_packet pid next_cc False data) =
      (if later = [] then (Inr [p @ data], seen pid next_cc [] 0)
       else (Inr [], seen pid next_cc (p @ data) (length (p @ remaining))))"
    using feed_until_section_packet [OF less.prems(1) data(3) ready,
        of collect "length (p @ remaining)" "[]"]
      collect_more [OF _ less.prems(3) data(1,2), of pid next_cc] less.prems(2)
    by (simp add: feed_packet_def split)
  show ?case
  proof (cases "later = []")
    case True
    then show ?thesis
      using fed unfold by (auto simp: next_cc_def [symmetric] packetize.simps [of _ _ _ "[]"] split)
  next
    case False
    have "\<exists>last. feed_packets (seen pid next_cc (p @ data) (length ((p @ data) @ later)))
        (packetize pid ((next_cc + 1) AND 0x0f) False later) = (Inr [(p @ data) @ later], seen pid last [] 0)"
      using False less.prems split data(1) by (intro less.hyps) auto
    then show ?thesis
      using fed unfold False by (auto simp: next_cc_def [symmetric] split)
  qed
qed

lemma feed_packets_section:
  assumes "\<not> pid > 0x1ffe" "whole_section sec" "sec ! 0 \<noteq> 0xff"
    and idle: "ready_for pid cc c" "pc_section c = []" "pc_want c = 0"
  shows "\<exists>raws last. packetize_section pid cc sec = Inr raws \<and>
    feed_packets c raws = (Inr [sec], seen pid last [] 0)"
proof -
  define data where "data = take 183 sec"
  define later where "later = drop 183 sec"
  have sec: "12 \<le> length sec" "length sec \<le> max_section_bytes" "sec = data @ later"
    using assms(2) by (auto simp: whole_section_def data_def later_def)
  have raws: "packetize_section pid cc sec =
      Inr (section_packet pid cc True data # packetize pid ((cc + 1) AND 0x0f) False later)"
    using sec(1,2) assms(1)
    by (subst packetize_section_def, subst packetize.simps)
      (auto simp: data_def later_def Let_def ts_consts min_def)
  have room: "length data \<le> section_room True" by (simp add: data_def section_room_def ts_consts)
  note first = feed_until_section_packet [OF assms(1) room idle(1), of collect "[]"]
  show ?thesis
  proof (cases "length sec \<le> 183")
    case True
    then have "later = []" "data = sec" by (simp_all add: later_def data_def)
    then have "feed_packets c (section_packet pid cc True data # packetize pid ((cc + 1) AND 0x0f) False later) =
        (Inr [sec], seen pid cc [] 0)"
      using first collect_whole_first [OF assms(2,3) True, of pid cc] idle
      by (simp add: feed_packet_def packetize.simps)
    with raws show ?thesis by blast
  next
    case False
    have opened: "feed_packet c (section_packet pid cc True data) = (Inr [], seen pid cc data (length (data @ later)))"
      unfolding sec(3) [symmetric]
      using first collect_open [OF assms(2,3), of pid cc] idle False
      by (simp add: feed_packet_def data_def)
    have long: "12 \<le> length data" "later \<noteq> []" using False by (simp_all add: data_def later_def)
    obtain last where "feed_packets (seen pid cc data (length (data @ later)))
        (packetize pid ((cc + 1) AND 0x0f) False later) = (Inr [data @ later], seen pid last [] 0)"
      using feed_packets_rest [OF assms(1) assms(2) [unfolded sec(3)] long, of cc] by (elim exE)
    then have "feed_packets c (section_packet pid cc True data # packetize pid ((cc + 1) AND 0x0f) False later) =
        (Inr [sec], seen pid last [] 0)"
      using opened unfolding sec(3) [symmetric] by simp
    with raws show ?thesis by blast
  qed
qed

section \<open>Packets fed on after an error\<close>

text \<open>
  What \<open>Feed\<close> returns for each packet of a list when the caller ignores its errors.  Every caller
  in the repository stops at the first error instead, as \<open>feed_packets\<close> does.
\<close>

primrec feed_all :: "psi_collector \<Rightarrow> bytes list \<Rightarrow> (unit feed_error, bytes list) result list" where
  "feed_all c [] = []"
| "feed_all c (raw # raws) = (case feed_packet c raw of (r, c') \<Rightarrow> r # feed_all c' raws)"

definition psi_or_panic :: "'e feed_error \<Rightarrow> bool" where
  "psi_or_panic e \<longleftrightarrow> e = FeedTS ErrPSI \<or> e = FeedPanic"

lemma psi_or_panic_simps [simp]: "psi_or_panic (FeedTS ErrPSI)" "psi_or_panic FeedPanic"
  by (simp_all add: psi_or_panic_def)

lemma append_finish_error: "append_finish c sec want needed data = (Inl e, c') \<Longrightarrow> psi_or_panic e"
  by (auto simp: append_finish_def split: if_split_asm)

lemma append_error: "collector_append c data = (Inl e, c') \<Longrightarrow> psi_or_panic e"
  unfolding collector_append_def Let_def
  by (cases "length data = 0"; cases "append_needed c data < 0") (auto dest: append_finish_error split: if_split_asm)

lemma emit_sections_collect:
  "payload \<noteq> [] \<Longrightarrow> payload ! 0 \<noteq> 0xff \<Longrightarrow> emit_sections collect c payload s =
    (case collector_append c payload of
       (Inl e, c') \<Rightarrow> (Inl e, c', s)
     | (Inr None, c') \<Rightarrow> (Inr (), c', s)
     | (Inr (Some (completed, rest)), c') \<Rightarrow> emit_sections collect c' rest (s @ [completed]))"
  by (subst emit_sections.simps) (simp add: collect_def split: prod.split sum.split option.split)

lemma emit_sections_error: "fst (emit_sections collect c payload s) = Inl e \<Longrightarrow> psi_or_panic e"
proof (induction "collect :: bytes list \<Rightarrow> bytes \<Rightarrow> (unit, bool) result \<times> bytes list" c payload s rule: emit_sections.induct)
  case (1 c payload s)
  show ?case
  proof (cases "payload = [] \<or> payload ! 0 = 0xff")
    case True
    with "1.prems" show ?thesis by (subst (asm) emit_sections.simps) simp
  next
    case False
    then have unfold: "emit_sections collect c payload s =
      (case collector_append c payload of
         (Inl e, c') \<Rightarrow> (Inl e, c', s)
       | (Inr None, c') \<Rightarrow> (Inr (), c', s)
       | (Inr (Some (completed, rest)), c') \<Rightarrow> emit_sections collect c' rest (s @ [completed]))"
      by (intro emit_sections_collect) auto
    obtain r c' where append: "(collector_append c payload :: (unit feed_error, _) result \<times> _) = (r, c')" by fastforce
    show ?thesis
    proof (cases r)
      case (Inl e1)
      with "1.prems" append append_error [of c payload e1 c'] show ?thesis by (simp add: unfold)
    next
      case (Inr got)
      show ?thesis
      proof (cases got)
        case None
        with "1.prems" append Inr show ?thesis by (simp add: unfold)
      next
        case (Some pair)
        obtain sec rest where pair: "pair = (sec, rest)" by fastforce
        have "fst (emit_sections collect c' rest (s @ [sec])) = Inl e"
          using "1.prems" append Inr Some pair by (simp add: unfold)
        then show ?thesis
          using "1.hyps" [OF False append [unfolded Inr Some pair, symmetric] refl refl refl _ _ _, of "Inr False" "s @ [sec]" False]
          by (simp add: collect_def)
      qed
    qed
  qed
qed

lemma feed_after_pointer_error: "fst (feed_after_pointer collect c payload s) = Inl e \<Longrightarrow> psi_or_panic e"
  by (auto simp: feed_after_pointer_def dest: emit_sections_error split: if_split_asm)

lemma feed_continuation_error: "fst (feed_continuation collect c payload s) = Inl e \<Longrightarrow> psi_or_panic e"
  by (auto simp: feed_continuation_def collect_def dest: append_error
      split: if_split_asm prod.split_asm sum.split_asm option.split_asm)

lemma feed_start_error: "fst (feed_start collect c payload s) = Inl e \<Longrightarrow> psi_or_panic e"
  by (auto simp: feed_start_def Let_def collect_def dest: feed_after_pointer_error
      split: if_split_asm prod.split_asm sum.split_asm option.split_asm feed_error.split_asm)

text \<open>A packet that does not parse leaves the collector as it was; every other error is \<open>ErrPSI\<close>.\<close>

lemma feed_packet_error:
  assumes "collector_wf c" and fed: "feed_packet c raw = (Inl e, c')" and "e \<noteq> FeedTS ErrPSI"
  shows "c' = c"
proof (cases "parse_packet raw")
  case Inl
  with fed show ?thesis by (simp add: feed_packet_def feed_until_def)
next
  case (Inr parsed)
  have "e \<noteq> FeedPanic"
    using assms(1) fed by (cases rule: feed_packet_cases [where raw = raw]) auto
  moreover have "psi_or_panic e"
  proof -
    have "fst (feed_until collect c raw []) = Inl e"
      using fed by (auto simp: feed_packet_def split: prod.splits sum.splits)
    then show ?thesis
      using Inr by (auto simp: feed_until_def Let_def dest: feed_start_error feed_continuation_error split: if_split_asm)
  qed
  ultimately show ?thesis using assms(3) by (simp add: psi_or_panic_def)
qed

lemma feed_all_sound:
  "collector_wf c \<Longrightarrow> i < length raws \<Longrightarrow> (\<forall>j < i. feed_all c raws ! j \<noteq> Inl (FeedTS ErrPSI)) \<Longrightarrow>
   feed_all c raws ! i \<noteq> Inl FeedPanic \<and>
   (\<forall>sections. feed_all c raws ! i = Inr sections \<longrightarrow> list_all whole_section sections)"
proof (induction raws arbitrary: c i)
  case (Cons raw raws)
  obtain r c' where fed: "feed_packet c raw = (r, c')" by fastforce
  have first: "r \<noteq> Inl FeedPanic \<and> (\<forall>sections. r = Inr sections \<longrightarrow> list_all whole_section sections)"
    using Cons.prems(1) by (cases rule: feed_packet_cases [where raw = raw]) (use fed in auto)
  show ?case
  proof (cases i)
    case 0
    with first fed show ?thesis by simp
  next
    case (Suc k)
    have "r \<noteq> Inl (FeedTS ErrPSI)" using Cons.prems(3) Suc fed by (auto dest: spec [of _ 0])
    then have "collector_wf c'"
      using feed_packet_error [OF Cons.prems(1), of raw _ c'] fed Cons.prems(1)
      by (cases rule: feed_packet_cases [OF Cons.prems(1), of raw]) auto
    moreover have "\<forall>j < k. feed_all c' raws ! j \<noteq> Inl (FeedTS ErrPSI)"
    proof (intro allI impI)
      fix j assume "j < k"
      then show "feed_all c' raws ! j \<noteq> Inl (FeedTS ErrPSI)"
        using Cons.prems(3) Suc fed by (auto dest: spec [of _ "Suc j"])
    qed
    ultimately show ?thesis using Cons.IH [of c' k] Cons.prems(2) Suc fed by simp
  qed
qed simp

section \<open>Properties\<close>

text \<open>C2.
  For a PID up to 0x1ffe and a section whose length field is its length and whose first byte is not
  the stuffing byte, \<open>PacketizeSection\<close> succeeds, and feeding its packets in order to any idle
  collector that expects this PID and counter gives back exactly that section and leaves the
  collector idle.\<close>

theorem section_transport_roundtrip:
  assumes "pid \<le> 0x1ffe" "whole_section sec" "sec ! 0 \<noteq> 0xff"
    and "ready_for pid cc c" "\<not> collector_incomplete c" "pc_want c = 0"
  shows "\<exists>raws c'. packetize_section pid cc sec = Inr raws \<and>
    feed_packets c raws = (Inr [sec], c') \<and> \<not> collector_incomplete c'"
proof -
  have "\<not> pid > 0x1ffe" "pc_section c = []" using assms(1,5) by (auto simp: collector_incomplete_def)
  from feed_packets_section [OF this(1) assms(2,3,4) this(2) assms(6)] obtain raws last where
    "packetize_section pid cc sec = Inr raws" "feed_packets c raws = (Inr [sec], seen pid last [] 0)"
    by blast
  then show ?thesis by (auto simp: collector_incomplete_def)
qed

theorem section_transport_roundtrip_witness:
  "\<exists>raws c'. packetize_section 0x1f0 15 (2 # 0xb0 # 200 # replicate 200 7) = Inr raws \<and>
     feed_packets new_psi_collector raws = (Inr [2 # 0xb0 # 200 # replicate 200 7], c') \<and>
     \<not> collector_incomplete c'"
  by (rule section_transport_roundtrip)
    (simp_all add: whole_section_def ready_for_def new_psi_collector_def collector_incomplete_def
      len12_def ts_consts)

text \<open>C11.
  Whatever packets a fresh collector is fed, in any order, no packet runs into a slice panic unless
  an earlier one was refused with \<open>ErrPSI\<close>, and every section returned before that is 12 to
  4096 bytes long and exactly as long as its header says; packets refused because they do not parse
  do no harm. Stopping at \<open>ErrPSI\<close>, as every caller does, is necessary: after a refused section
  length the next packet can panic.\<close>

theorem collector_never_panics:
  "(\<forall>i < length raws. (\<forall>j < i. feed_all new_psi_collector raws ! j \<noteq> Inl (FeedTS ErrPSI)) \<longrightarrow>
      feed_all new_psi_collector raws ! i \<noteq> Inl FeedPanic \<and>
      (\<forall>sections. feed_all new_psi_collector raws ! i = Inr sections \<longrightarrow> list_all whole_section sections)) \<and>
   feed_all new_psi_collector
     [0x47 # 0x40 # 0 # 0x10 # 0 # 0 # 0xb0 # 1 # replicate 180 0, 0x47 # 0 # 0 # 0x11 # replicate 184 0] =
     [Inl (FeedTS ErrPSI), Inl FeedPanic]"
proof
  show "\<forall>i < length raws. (\<forall>j < i. feed_all new_psi_collector raws ! j \<noteq> Inl (FeedTS ErrPSI)) \<longrightarrow>
      feed_all new_psi_collector raws ! i \<noteq> Inl FeedPanic \<and>
      (\<forall>sections. feed_all new_psi_collector raws ! i = Inr sections \<longrightarrow> list_all whole_section sections)"
    using feed_all_sound [OF collector_wf_new] by blast
  show "feed_all new_psi_collector
     [0x47 # 0x40 # 0 # 0x10 # 0 # 0 # 0xb0 # 1 # replicate 180 0, 0x47 # 0 # 0 # 0x11 # replicate 184 0] =
     [Inl (FeedTS ErrPSI), Inl FeedPanic]"
    by code_simp
qed

theorem collector_never_panics_witness:
  "hd (feed_all new_psi_collector [0x47 # 0x40 # 0 # 0x10 # 0 # 0 # 0xb0 # 1 # replicate 180 0]) \<noteq> Inl FeedPanic"
  using collector_never_panics [of "[0x47 # 0x40 # 0 # 0x10 # 0 # 0 # 0xb0 # 1 # replicate 180 0]"]
  by (auto simp: hd_conv_nth dest: spec [of _ 0] split: prod.split)

end
