(* ===== verification/PmtRewrite.thy ===== *)
theory PmtRewrite
  imports PsiTables
begin

text \<open>
  \<open>rewritePMT\<close> of \<open>internal/app/recording/ts_filter.go\<close>: the program map table that the recorder
  writes when captions or data broadcasting are left out, and the set of packet identifiers it drops.
  The lemmas show that the rewritten section is again a valid table whose streams are exactly the
  kept ones.
\<close>

datatype filter_error = TSFormat "ts_error option"

text \<open>Private data (type 6) carries captions, type 0x0d data broadcasting.\<close>

definition drop_stream :: "bool \<Rightarrow> bool \<Rightarrow> byte \<Rightarrow> bool" where
  "drop_stream keep_captions keep_data type_value \<longleftrightarrow>
     type_value = 0x06 \<and> \<not> keep_captions \<or> type_value = 0x0d \<and> \<not> keep_data"

text \<open>
  The loop over the entries between the current offset and the CRC.  \<open>ParsePMT\<close> has accepted the
  section before, so the entry headers are present.
\<close>

function rewrite_entries :: "bool \<Rightarrow> bool \<Rightarrow> u16 \<Rightarrow> bytes \<Rightarrow> bytes \<Rightarrow> u16 set \<Rightarrow> bytes \<times> u16 set" where
  "rewrite_entries keep_captions keep_data pcr_pid rest result dropped =
    (if rest = [] then (result, dropped)
     else let nxt = 5 + len12 (rest ! 3) (rest ! 4); pid = pid13 (rest ! 1) (rest ! 2)
          in if drop_stream keep_captions keep_data (rest ! 0)
             then rewrite_entries keep_captions keep_data pcr_pid (drop nxt rest) result
                    (if pid \<noteq> pcr_pid then insert pid dropped else dropped)
             else rewrite_entries keep_captions keep_data pcr_pid (drop nxt rest)
                    (result @ take nxt rest) dropped)"
  by pat_completeness auto
termination by (relation "measure (\<lambda>(kc, kd, pcr, rest, result, dropped). length rest)") auto

declare rewrite_entries.simps [simp del]

text \<open>The section length and the version, incremented modulo 32, are patched before the CRC is appended.\<close>

definition patch_header :: "bytes \<Rightarrow> nat \<Rightarrow> bytes" where
  "patch_header result section_length =
    (let r = result[1 := (result ! 1 AND 0xf0) OR of_nat (section_length div 256),
                    2 := of_nat section_length];
         version = section_version r
     in r[5 := (r ! 5 AND 0xc1) OR push_bit 1 ((version + 1) AND 0x1f)])"

definition rewrite_pmt :: "bytes \<Rightarrow> bool \<Rightarrow> bool \<Rightarrow> (filter_error, bytes \<times> u16 set) result" where
  "rewrite_pmt sec keep_captions keep_data =
    (case parse_pmt sec of
       Inl e \<Rightarrow> Inl (TSFormat (Some e))
     | Inr parsed \<Rightarrow>
         let (result, dropped) = rewrite_entries keep_captions keep_data (pmt_pcr_pid parsed)
               (slice (streams_offset sec) (length sec - 4) sec) (take (streams_offset sec) sec) {};
             section_length = length result + 4 - 3
         in if section_length > 0x0fff then Inl (TSFormat None)
            else let r = patch_header result section_length
                 in Inr (r @ crc_bytes (crc32 r), dropped))"

section \<open>The loop keeps exactly the wanted entries\<close>

definition keep_entry :: "bool \<Rightarrow> bool \<Rightarrow> bytes \<Rightarrow> bool" where
  "keep_entry keep_captions keep_data e \<longleftrightarrow> \<not> drop_stream keep_captions keep_data (e ! 0)"

definition dropped_pids :: "bool \<Rightarrow> bool \<Rightarrow> pmt \<Rightarrow> u16 set" where
  "dropped_pids keep_captions keep_data t =
    es_pid ` {s \<in> set (pmt_streams t). drop_stream keep_captions keep_data (es_type s)} - {pmt_pcr_pid t}"

lemma rewrite_entries_concat:
  "list_all good_entry es \<Longrightarrow>
   rewrite_entries kc kd pcr (concat es) result dropped =
     (result @ concat (filter (keep_entry kc kd) es),
      dropped \<union> (es_pid ` stream_of ` {e \<in> set es. \<not> keep_entry kc kd e} - {pcr}))"
proof (induction es arbitrary: result dropped)
  case Nil
  then show ?case by (simp add: rewrite_entries.simps)
next
  case (Cons e es)
  have e: "good_entry e" "5 \<le> length e" "length e = 5 + len12 (e ! 3) (e ! 4)"
    using Cons.prems by (auto simp: good_entry_def)
  note at = good_entry_append [OF e(1), of "concat es"]
  have nonempty: "e \<noteq> []" using e(2) by auto
  note tail = e(3) [symmetric]
  show ?case
  proof (cases "keep_entry kc kd e")
    case True
    then have "rewrite_entries kc kd pcr (concat (e # es)) result dropped =
        rewrite_entries kc kd pcr (concat es) (result @ e) dropped"
      using nonempty by (subst rewrite_entries.simps) (simp add: at tail keep_entry_def Let_def)
    also have "\<dots> = (result @ concat (filter (keep_entry kc kd) (e # es)),
        dropped \<union> (es_pid ` stream_of ` {e \<in> set es. \<not> keep_entry kc kd e} - {pcr}))"
      using Cons True by simp
    also have "{x \<in> set es. \<not> keep_entry kc kd x} = {x \<in> set (e # es). \<not> keep_entry kc kd x}"
      using True by auto
    finally show ?thesis .
  next
    case False
    let ?d = "if pid13 (e ! 1) (e ! 2) \<noteq> pcr then insert (pid13 (e ! 1) (e ! 2)) dropped else dropped"
    have "rewrite_entries kc kd pcr (concat (e # es)) result dropped =
        rewrite_entries kc kd pcr (concat es) result ?d"
      using nonempty False by (subst rewrite_entries.simps) (simp add: at tail keep_entry_def Let_def)
    also have "\<dots> = (result @ concat (filter (keep_entry kc kd) (e # es)),
        ?d \<union> (es_pid ` stream_of ` {e \<in> set es. \<not> keep_entry kc kd e} - {pcr}))"
      using Cons False by simp
    also have "?d \<union> (es_pid ` stream_of ` {e \<in> set es. \<not> keep_entry kc kd e} - {pcr}) =
        dropped \<union> (es_pid ` stream_of ` {x \<in> set (e # es). \<not> keep_entry kc kd x} - {pcr})"
      using False by (auto simp: stream_of_def image_iff)
    finally show ?thesis .
  qed
qed

section \<open>The patched header\<close>

lemma length_patch_header [simp]: "length (patch_header r n) = length r"
  by (simp add: patch_header_def Let_def)

lemma patch_header_other:
  "i \<noteq> 1 \<Longrightarrow> i \<noteq> 2 \<Longrightarrow> i \<noteq> 5 \<Longrightarrow> patch_header r n ! i = r ! i"
  by (simp add: patch_header_def Let_def)

lemma nat_bits_below_4: "bit n i \<Longrightarrow> n < 16 \<Longrightarrow> i < 4" for n :: nat
proof -
  assume "bit n i" "n < 16"
  then have "bit (take_bit 4 n) i" by (simp add: take_bit_nat_eq_self)
  then show ?thesis by (simp add: bit_take_bit_iff)
qed

lemma unat_or_high_low:
  assumes "n < 16"
  shows "unat (((x AND 0xf0) OR of_nat n) AND 0x0f :: byte) = n"
proof -
  have "((x AND 0xf0) OR of_nat n) AND 0x0f = (of_nat n :: byte)"
    using assms by (intro bit_eqI) (auto simp: bit_simps byte_bounds dest: nat_bits_below_4)
  then show ?thesis using assms by (simp add: unat_of_nat)
qed

lemma and_80_or_high_low:
  assumes "n < 16"
  shows "((x AND 0xf0) OR of_nat n) AND 0x80 = (x AND 0x80 :: byte)"
  using assms by (intro bit_eqI) (auto simp: bit_simps byte_bounds dest: nat_bits_below_4)

lemma patch_header_1_2:
  assumes "5 < length r" and "n < 4096"
  shows "len12 (patch_header r n ! 1) (patch_header r n ! 2) = n"
    "patch_header r n ! 1 AND 0x80 = r ! 1 AND 0x80"
proof -
  have n: "n div 256 < 16" using assms(2) by simp
  have at: "patch_header r n ! 1 = (r ! 1 AND 0xf0) OR of_nat (n div 256)"
    "patch_header r n ! 2 = of_nat n"
    using assms(1) by (simp_all add: patch_header_def Let_def)
  show "len12 (patch_header r n ! 1) (patch_header r n ! 2) = n"
    unfolding len12_def at unat_or_high_low [OF n] by (simp add: unat_of_nat)
  show "patch_header r n ! 1 AND 0x80 = r ! 1 AND 0x80"
    unfolding at by (rule and_80_or_high_low [OF n])
qed

lemma patch_header_5:
  assumes "5 < length r"
  shows "patch_header r n ! 5 AND 1 = r ! 5 AND 1"
    "section_version (patch_header r n) = (section_version r + 1) AND 0x1f"
proof -
  have at: "patch_header r n ! 5 = (r ! 5 AND 0xc1) OR push_bit 1 ((section_version r + 1) AND 0x1f)"
    using assms by (simp add: patch_header_def section_version_def Let_def)
  show "patch_header r n ! 5 AND 1 = r ! 5 AND 1"
    unfolding at by (rule bit_eqI) (auto simp: bit_simps byte_bounds)
  show "section_version (patch_header r n) = (section_version r + 1) AND 0x1f"
    unfolding section_version_def [of "patch_header r n"] at
    by (rule bit_eqI) (auto simp: bit_simps byte_bounds)
qed

section \<open>The rewritten table\<close>

lemma length_concat_filter_le: "length (concat (filter P xss)) \<le> length (concat xss)"
  by (induction xss) auto

text \<open>
  Rewriting an accepted table always succeeds, and the result parses to the same table with the
  unwanted streams removed and the version incremented.
\<close>

definition kept_streams :: "bool \<Rightarrow> bool \<Rightarrow> elementary_stream list \<Rightarrow> elementary_stream list" where
  "kept_streams keep_captions keep_data streams =
     filter (\<lambda>s. \<not> drop_stream keep_captions keep_data (es_type s)) streams"

lemma map_stream_of_filter:
  "map stream_of (filter (keep_entry kc kd) es) = kept_streams kc kd (map stream_of es)"
  by (induction es) (auto simp: kept_streams_def keep_entry_def stream_of_def)

text \<open>
  A section rebuilt from the header of an accepted one and a list of good entries: patched header,
  entries, CRC.
\<close>

definition rebuilt_head :: "bytes \<Rightarrow> bytes list \<Rightarrow> bytes" where
  "rebuilt_head sec fs = take (streams_offset sec) sec @ concat fs"

definition rebuilt :: "bytes \<Rightarrow> bytes list \<Rightarrow> bytes" where
  "rebuilt sec fs = (let r0 = rebuilt_head sec fs; r = patch_header r0 (length r0 + 1)
                     in r @ crc_bytes (crc32 r))"

lemma rebuilt_head_facts:
  assumes "12 \<le> streams_offset sec" "streams_offset sec \<le> length sec"
  shows "length (rebuilt_head sec fs) = streams_offset sec + length (concat fs)"
    "i < streams_offset sec \<Longrightarrow> rebuilt_head sec fs ! i = sec ! i"
  using assms by (auto simp: rebuilt_head_def nth_append)

lemma drop_patch_header: "5 < k \<Longrightarrow> drop k (patch_header r n) = drop k r"
  by (simp add: patch_header_def Let_def)

lemma rebuilt_facts:
  assumes so: "12 \<le> streams_offset sec" "streams_offset sec \<le> length sec"
    and size: "length (rebuilt_head sec fs) + 1 < 4096"
  shows "length (rebuilt sec fs) = length (rebuilt_head sec fs) + 4"
    "i < 12 \<Longrightarrow> i \<noteq> 1 \<Longrightarrow> i \<noteq> 2 \<Longrightarrow> i \<noteq> 5 \<Longrightarrow> rebuilt sec fs ! i = sec ! i"
    "len12 (rebuilt sec fs ! 1) (rebuilt sec fs ! 2) = length (rebuilt_head sec fs) + 1"
    "rebuilt sec fs ! 1 AND 0x80 = sec ! 1 AND 0x80"
    "rebuilt sec fs ! 5 AND 1 = sec ! 5 AND 1"
    "section_version (rebuilt sec fs) = (section_version sec + 1) AND 0x1f"
    "slice (streams_offset sec) (length (rebuilt sec fs) - 4) (rebuilt sec fs) = concat fs"
    "valid_crc (rebuilt sec fs)"
proof -
  define r0 where "r0 = rebuilt_head sec fs"
  define n where "n = length r0 + 1"
  define r where "r = patch_header r0 n"
  have out: "rebuilt sec fs = r @ crc_bytes (crc32 r)"
    by (simp add: rebuilt_def r_def n_def r0_def Let_def)
  have len: "length r = length r0" "12 \<le> length r0" "5 < length r0" "n < 4096"
    using so size rebuilt_head_facts(1) [OF so, of fs] by (simp_all add: r_def r0_def n_def)
  have at: "rebuilt sec fs ! i = r ! i" if "i < 12" for i
    using len that by (simp add: out nth_append)
  have from_sec: "r0 ! i = sec ! i" if "i < 12" for i
    using that so rebuilt_head_facts(2) [OF so, of i fs] by (simp add: r0_def)
  show "length (rebuilt sec fs) = length (rebuilt_head sec fs) + 4"
    using len by (simp add: out crc_bytes_def r0_def)
  show "i < 12 \<Longrightarrow> i \<noteq> 1 \<Longrightarrow> i \<noteq> 2 \<Longrightarrow> i \<noteq> 5 \<Longrightarrow> rebuilt sec fs ! i = sec ! i"
    using at from_sec by (simp add: r_def patch_header_other)
  show "len12 (rebuilt sec fs ! 1) (rebuilt sec fs ! 2) = length (rebuilt_head sec fs) + 1"
    "rebuilt sec fs ! 1 AND 0x80 = sec ! 1 AND 0x80"
    using patch_header_1_2 [OF len(3,4)] at from_sec by (simp_all add: r_def n_def r0_def)
  show "rebuilt sec fs ! 5 AND 1 = sec ! 5 AND 1"
    "section_version (rebuilt sec fs) = (section_version sec + 1) AND 0x1f"
    using patch_header_5 [OF len(3)] at from_sec by (simp_all add: r_def section_version_def)
  have "drop (streams_offset sec) r = concat fs"
    using so by (simp add: r_def drop_patch_header r0_def rebuilt_head_def)
  then show "slice (streams_offset sec) (length (rebuilt sec fs) - 4) (rebuilt sec fs) = concat fs"
    using len rebuilt_head_facts(1) [OF so, of fs]
    by (simp add: out slice_def crc_bytes_def r0_def)
  show "valid_crc (rebuilt sec fs)" unfolding out by (rule valid_crc_append)
qed

lemma parse_pmt_rebuilt:
  assumes parsed: "parse_pmt sec = Inr t"
    and fs: "list_all good_entry fs" "length fs \<le> 64"
    and size: "streams_offset sec + length (concat fs) \<le> length sec - 4"
  shows "parse_pmt (rebuilt sec fs) = Inr (t\<lparr>pmt_version := (pmt_version t + 1) AND 0x1f,
                                             pmt_streams := map stream_of fs\<rparr>)"
    and "length (rebuilt_head sec fs) + 1 \<le> 0x0fff"
proof -
  from parsed obtain es where
    sec: "16 \<le> length sec" "sec ! 0 = 2" "sec ! 1 AND 0x80 \<noteq> 0"
      "3 + len12 (sec ! 1) (sec ! 2) = length sec" "sec ! 5 AND 1 \<noteq> 0" "sec ! 6 = 0" "sec ! 7 = 0"
      "be16 (sec ! 3) (sec ! 4) \<noteq> 0" "pid13 (sec ! 8) (sec ! 9) \<noteq> 0"
      "pid13 (sec ! 8) (sec ! 9) \<noteq> 0x1fff" "streams_offset sec \<le> length sec - 4"
    and t: "t = \<lparr>pmt_program_number = be16 (sec ! 3) (sec ! 4), pmt_pcr_pid = pid13 (sec ! 8) (sec ! 9),
          pmt_version = section_version sec, pmt_streams = map stream_of es\<rparr>"
    by (rule parse_pmt_ok)
  have so: "12 \<le> streams_offset sec" "streams_offset sec \<le> length sec"
    using sec(1,11) by (auto simp: streams_offset_def)
  note head = rebuilt_head_facts(1) [OF so, of fs]
  have small: "length (rebuilt_head sec fs) + 1 < 4096"
    using head size sec(1,4) len12_bound [of "sec ! 1" "sec ! 2"] by simp
  then show "length (rebuilt_head sec fs) + 1 \<le> 0x0fff" by simp
  note r = rebuilt_facts [OF so small]
  have same_offset: "streams_offset (rebuilt sec fs) = streams_offset sec"
    using r(2) [of 10] r(2) [of 11] by (simp add: streams_offset_def)
  have "parse_pmt (rebuilt sec fs) = Inr \<lparr>pmt_program_number = be16 (rebuilt sec fs ! 3) (rebuilt sec fs ! 4),
      pmt_pcr_pid = pid13 (rebuilt sec fs ! 8) (rebuilt sec fs ! 9),
      pmt_version = section_version (rebuilt sec fs), pmt_streams = map stream_of fs\<rparr>"
    by (rule parse_pmt_intro [OF _ _ _ _ _ _ _ _ _ _ _ _ _ fs])
      (use sec so head r in \<open>simp_all add: same_offset\<close>)
  then show "parse_pmt (rebuilt sec fs) = Inr (t\<lparr>pmt_version := (pmt_version t + 1) AND 0x1f,
                                             pmt_streams := map stream_of fs\<rparr>)"
    using r(2,6) by (simp add: t)
qed

lemma rewrite_pmt_rebuilds:
  assumes parsed: "parse_pmt sec = Inr t"
  obtains es where "pmt_streams t = map stream_of es"
    "rewrite_pmt sec kc kd = Inr (rebuilt sec (filter (keep_entry kc kd) es), dropped_pids kc kd t)"
    "parse_pmt (rebuilt sec (filter (keep_entry kc kd) es)) =
       Inr (t\<lparr>pmt_version := (pmt_version t + 1) AND 0x1f,
             pmt_streams := kept_streams kc kd (pmt_streams t)\<rparr>)"
    "length (rebuilt sec (filter (keep_entry kc kd) es)) \<le> length sec"
proof -
  from parsed obtain es where
    so: "16 \<le> length sec" "streams_offset sec \<le> length sec - 4"
    and body: "slice (streams_offset sec) (length sec - 4) sec = concat es" "list_all good_entry es"
      "length es \<le> 64"
    and t: "t = \<lparr>pmt_program_number = be16 (sec ! 3) (sec ! 4), pmt_pcr_pid = pid13 (sec ! 8) (sec ! 9),
          pmt_version = section_version sec, pmt_streams = map stream_of es\<rparr>"
    by (rule parse_pmt_ok)
  let ?fs = "filter (keep_entry kc kd) es"
  have "length (concat ?fs) \<le> length (slice (streams_offset sec) (length sec - 4) sec)"
    unfolding body(1) by (rule length_concat_filter_le)
  then have size: "streams_offset sec + length (concat ?fs) \<le> length sec - 4" using so by simp
  have fs: "list_all good_entry ?fs" "length ?fs \<le> 64"
    using body(2,3) by (auto simp: list_all_iff intro: le_trans [OF length_filter_le])
  note re = parse_pmt_rebuilt [OF parsed fs size]
  have "rewrite_entries kc kd (pmt_pcr_pid t) (slice (streams_offset sec) (length sec - 4) sec)
      (take (streams_offset sec) sec) {} = (rebuilt_head sec ?fs, dropped_pids kc kd t)"
    unfolding body(1) rewrite_entries_concat [OF body(2)] rebuilt_head_def
    by (auto simp: dropped_pids_def keep_entry_def t stream_of_def image_iff)
  then have "rewrite_pmt sec kc kd = Inr (rebuilt sec ?fs, dropped_pids kc kd t)"
    using parsed re(2) by (simp add: rewrite_pmt_def rebuilt_def Let_def) (simp only: Suc_eq_plus1 add.commute)
  moreover have "length (rebuilt sec ?fs) \<le> length sec"
    using size so re(2) by (simp add: rebuilt_def rebuilt_head_def crc_bytes_def Let_def)
  ultimately show thesis
    using re(1) by (intro that [of es]) (simp_all add: t map_stream_of_filter)
qed

section \<open>Properties\<close>

text \<open>C3.
  On every section that \<open>ParsePMT\<close> accepts, \<open>rewritePMT\<close> succeeds.  Its result is again accepted:
  the same program, clock PID and kept streams in the same order, with the version incremented
  modulo 32.  The dropped PIDs are those of the removed streams, never the clock PID.\<close>

theorem rewrite_pmt_correct:
  assumes "parse_pmt sec = Inr t"
  shows "\<exists>out. rewrite_pmt sec kc kd = Inr (out, dropped_pids kc kd t) \<and>
    parse_pmt out = Inr (t\<lparr>pmt_version := (pmt_version t + 1) AND 0x1f,
                           pmt_streams := kept_streams kc kd (pmt_streams t)\<rparr>) \<and>
    pmt_pcr_pid t \<notin> dropped_pids kc kd t"
  using assms by (rule rewrite_pmt_rebuilds [of sec t kc kd]) (auto simp: dropped_pids_def)

text \<open>A table with a video stream that carries the clock, and a caption stream.\<close>

definition example_pmt :: bytes where
  "example_pmt = (let base = [2, 0xb0, 23, 0, 101, 0xc1, 0, 0, 0xe1, 0, 0xf0, 0, 0x1b, 0xe1, 0, 0xf0, 0,
                              6, 0xe1, 0x30, 0xf0, 0]
                  in base @ crc_bytes (crc32 base))"

lemma parse_example_pmt:
  "parse_pmt example_pmt = Inr \<lparr>pmt_program_number = 101, pmt_pcr_pid = 0x100, pmt_version = 0,
     pmt_streams = [\<lparr>es_type = 0x1b, es_pid = 0x100, es_descriptor = []\<rparr>,
                    \<lparr>es_type = 6, es_pid = 0x130, es_descriptor = []\<rparr>]\<rparr>"
proof -
  define tail where "tail = crc_bytes (crc32 [2, 0xb0, 23, 0, 101, 0xc1, 0, 0, 0xe1, 0, 0xf0, 0, 0x1b, 0xe1, 0,
    0xf0, 0, 6, 0xe1, 0x30, 0xf0, 0])"
  have sec: "example_pmt = [2, 0xb0, 23, 0, 101, 0xc1, 0, 0, 0xe1, 0, 0xf0, 0, 0x1b, 0xe1, 0, 0xf0, 0,
                              6, 0xe1, 0x30, 0xf0, 0] @ tail"
    by (simp add: example_pmt_def tail_def)
  have crc: "valid_crc example_pmt" unfolding sec tail_def by (rule valid_crc_append)
  have len: "length tail = 4" by (simp add: tail_def crc_bytes_def)
  have offset: "streams_offset example_pmt = 12" by (simp add: sec streams_offset_def len12_def)
  have fields: "be16 0 101 = 101" "pid13 0xe1 0 = 0x100" "pid13 0xe1 0x30 = 0x130"
    "section_version (2 # 0xb0 # 23 # 0 # 101 # 0xc1 # r) = 0" for r
    by (simp_all add: be16_def pid13_def section_version_def drop_bit_eq_div)
  have flag: "(0xc1 AND 1 :: byte) = 1" by code_simp
  show ?thesis
    using len parse_pmt_intro [of example_pmt "[[0x1b, 0xe1, 0, 0xf0, 0], [6, 0xe1, 0x30, 0xf0, 0]]"] crc
    by (simp add: offset slice_def) (simp add: sec fields flag good_entry_def stream_of_def len12_def)
qed

theorem rewrite_pmt_correct_witness:
  "\<exists>out. rewrite_pmt example_pmt False True = Inr (out, {0x130}) \<and>
     parse_pmt out = Inr \<lparr>pmt_program_number = 101, pmt_pcr_pid = 0x100, pmt_version = 1,
       pmt_streams = [\<lparr>es_type = 0x1b, es_pid = 0x100, es_descriptor = []\<rparr>]\<rparr>"
proof -
  have "dropped_pids False True \<lparr>pmt_program_number = 101, pmt_pcr_pid = 0x100, pmt_version = 0,
     pmt_streams = [\<lparr>es_type = 0x1b, es_pid = 0x100, es_descriptor = []\<rparr>,
                    \<lparr>es_type = 6, es_pid = 0x130, es_descriptor = []\<rparr>]\<rparr> = {0x130}"
    by (auto simp: dropped_pids_def drop_stream_def image_iff
        intro!: exI [of _ "\<lparr>es_type = 6, es_pid = 0x130, es_descriptor = []\<rparr>"])
  then show ?thesis
    using rewrite_pmt_correct [OF parse_example_pmt, of False True]
    by (simp add: kept_streams_def drop_stream_def)
qed

end
