(* ===== verification/Packetizer.thy ===== *)
theory Packetizer
  imports TsPacket
begin

text \<open>
  \<open>Packetizer\<close> of \<open>internal/mpegts/mpegts.go\<close>: cutting a byte stream that arrives in arbitrary
  chunks into packets, after one search for five sync bytes 188 bytes apart.  The callback is a
  function on the caller's state that may fail.  The lemmas show that the cut does not depend on the
  chunks and that no byte after the synchronisation point is lost, changed or reordered.
\<close>

section \<open>State and operations\<close>

record packetizer =
  pz_buffer :: bytes
  pz_synced :: bool

definition new_packetizer :: packetizer where
  "new_packetizer = \<lparr>pz_buffer = [], pz_synced = False\<rparr>"

datatype 'e cut_error = CutTS ts_error | CutEmit 'e

definition sync_at :: "bytes \<Rightarrow> nat \<Rightarrow> bool" where
  "sync_at data position \<longleftrightarrow>
     list_all (\<lambda>index. data ! (position + index * packet_bytes) = 0x47) [0..<sync_packet_count]"

text \<open>\<open>findSync\<close>: the first position, at most the limit, whose five sync bytes are all present.\<close>

definition find_sync :: "bytes \<Rightarrow> nat option" where
  "find_sync data =
    (let last = min (int max_sync_search_bytes)
           (int (length data) - (int sync_packet_count - 1) * int packet_bytes - 1)
     in find (sync_at data) [0..<nat (last + 1)])"

function cut_packets ::
  "('s \<Rightarrow> bytes \<Rightarrow> 'e option \<times> 's) \<Rightarrow> bytes \<Rightarrow> 's \<Rightarrow> 'e cut_error option \<times> bytes \<times> 's" where
  "cut_packets emit buffer s =
    (if length buffer \<ge> packet_bytes
     then let pkt = take packet_bytes buffer
          in if pkt ! 0 \<noteq> 0x47 then (Some (CutTS ErrSync), buffer, s)
             else (case emit s pkt of
                     (Some e, s') \<Rightarrow> (Some (CutEmit e), buffer, s')
                   | (None, s') \<Rightarrow> cut_packets emit (drop packet_bytes buffer) s')
     else (None, buffer, s))"
  by pat_completeness auto
termination by (relation "measure (\<lambda>(emit, buffer, s). length buffer)") (auto simp: ts_consts)

declare cut_packets.simps [simp del]

definition feed_synced ::
  "('s \<Rightarrow> bytes \<Rightarrow> 'e option \<times> 's) \<Rightarrow> bytes \<Rightarrow> 's \<Rightarrow> 'e cut_error option \<times> packetizer \<times> 's" where
  "feed_synced emit buffer s =
    (case cut_packets emit buffer s of
       (r, rest, s') \<Rightarrow> (r, \<lparr>pz_buffer = rest, pz_synced = True\<rparr>, s'))"

definition feed_bytes ::
  "('s \<Rightarrow> bytes \<Rightarrow> 'e option \<times> 's) \<Rightarrow> packetizer \<Rightarrow> bytes \<Rightarrow> 's \<Rightarrow> 'e cut_error option \<times> packetizer \<times> 's" where
  "feed_bytes emit p data s =
    (let buffer = pz_buffer p @ data
     in if pz_synced p then feed_synced emit buffer s
        else (case find_sync buffer of
                Some position \<Rightarrow> feed_synced emit (drop position buffer) s
              | None \<Rightarrow>
                  if length buffer \<ge> max_sync_search_bytes + (sync_packet_count - 1) * packet_bytes + 1
                  then (Some (CutTS ErrSync), p\<lparr>pz_buffer := buffer\<rparr>, s)
                  else (None, p\<lparr>pz_buffer := buffer\<rparr>, s)))"

definition finish_bytes :: "packetizer \<Rightarrow> ts_error option" where
  "finish_bytes p =
    (if \<not> pz_synced p then Some ErrSync else if length (pz_buffer p) \<noteq> 0 then Some ErrTruncated else None)"

text \<open>A run of chunks; the caller stops at the first error.\<close>

fun feed_chunks ::
  "('s \<Rightarrow> bytes \<Rightarrow> 'e option \<times> 's) \<Rightarrow> packetizer \<Rightarrow> bytes list \<Rightarrow> 's \<Rightarrow> 'e cut_error option \<times> packetizer \<times> 's" where
  "feed_chunks emit p [] s = (None, p, s)"
| "feed_chunks emit p (chunk # chunks) s =
    (case feed_bytes emit p chunk s of
       (Some e, p', s') \<Rightarrow> (Some e, p', s')
     | (None, p', s') \<Rightarrow> feed_chunks emit p' chunks s')"

section \<open>Independence of the chunks\<close>

lemma cut_packets_append:
  "cut_packets emit (x @ y) s =
    (case cut_packets emit x s of
       (Some e, rest, s') \<Rightarrow> (Some e, rest @ y, s')
     | (None, rest, s') \<Rightarrow> cut_packets emit (rest @ y) s')"
proof (induction emit x s rule: cut_packets.induct)
  case (1 emit x s)
  show ?case
  proof (cases "length x \<ge> packet_bytes")
    case False
    then show ?thesis by (simp add: cut_packets.simps [of _ x])
  next
    case True
    note IH = "1.IH" [OF True refl]
    show ?thesis
    proof (cases "x ! 0 = 0x47")
      case False
      with True show ?thesis
        by (simp add: cut_packets.simps [of _ x] cut_packets.simps [of _ "x @ y"] ts_consts Let_def nth_append)
    next
      case sync: True
      obtain r s' where e: "emit s (take packet_bytes x) = (r, s')" by fastforce
      show ?thesis
        using True sync IH [OF _ e [symmetric]] e
        by (cases r)
          (simp_all add: cut_packets.simps [of _ x] cut_packets.simps [of _ "x @ y"] ts_consts Let_def nth_append)
    qed
  qed
qed

lemma sync_window:
  "nat (min (int max_sync_search_bytes) (int n - (int sync_packet_count - 1) * int packet_bytes - 1) + 1) =
   min (max_sync_search_bytes + 1) (n - 752)"
  by (auto simp: ts_consts min_def)

lemma find_sync_alt: "find_sync data = find (sync_at data) [0..<min 65537 (length data - 752)]"
  unfolding find_sync_def Let_def sync_window by (simp add: ts_consts)

lemma sync_at_append:
  assumes "position < length x - 752"
  shows "sync_at (x @ y) position = sync_at x position"
proof -
  have "(x @ y) ! (position + index * packet_bytes) = x ! (position + index * packet_bytes)"
    if "index \<in> set [0..<sync_packet_count]" for index
  proof -
    have "index \<le> 4" using that by (simp add: ts_consts)
    then have "index * packet_bytes \<le> 752" by (simp add: ts_consts)
    then have "position + index * packet_bytes < length x" using assms by linarith
    then show ?thesis by (simp add: nth_append)
  qed
  then show ?thesis unfolding sync_at_def by (intro list.pred_cong) auto
qed

lemma find_sync_append:
  "find_sync x = Some position \<Longrightarrow> find_sync (x @ y) = Some position"
  "find_sync x = None \<Longrightarrow> 65536 + 753 \<le> length x \<Longrightarrow> find_sync (x @ y) = None"
proof -
  define n where "n = min 65537 (length x - 752)"
  define m where "m = min 65537 (length (x @ y) - 752)"
  have "n \<le> m" by (auto simp: n_def m_def)
  then have split: "[0..<m] = [0..<n] @ [n..<m]" 
    using upt_add_eq_append [of 0 n "m - n"] by simp
  have same: "find (sync_at (x @ y)) [0..<n] = find (sync_at x) [0..<n]"
    by (rule find_cong [OF refl]) (auto simp: n_def sync_at_append)
  show "find_sync x = Some position \<Longrightarrow> find_sync (x @ y) = Some position"
    unfolding find_sync_alt n_def [symmetric] m_def [symmetric] split
    by (rule find_prefix) (simp only: same)
  show "find_sync (x @ y) = None" if "find_sync x = None" "65536 + 753 \<le> length x"
  proof -
    have "n = m" using that(2) by (simp add: n_def m_def)
    then show ?thesis
      using same that(1) unfolding find_sync_alt n_def [symmetric] m_def [symmetric] by simp
  qed
qed

lemma find_sync_bound: "find_sync x = Some position \<Longrightarrow> position \<le> 65536 \<and> position + 752 < length x"
  by (auto simp: find_sync_alt find_Some_iff)

lemma feed_synced_append:
  "feed_synced emit (x @ y) s =
    (case feed_synced emit x s of
       (Some e, p, s') \<Rightarrow> (Some e, p\<lparr>pz_buffer := pz_buffer p @ y\<rparr>, s')
     | (None, p, s') \<Rightarrow> feed_synced emit (pz_buffer p @ y) s')"
  by (auto simp: feed_synced_def cut_packets_append [of emit x y] split: prod.splits option.splits)

lemma feed_bytes_append:
  "feed_bytes emit p (x @ y) s =
    (case feed_bytes emit p x s of
       (Some e, p', s') \<Rightarrow> (Some e, p'\<lparr>pz_buffer := pz_buffer p' @ y\<rparr>, s')
     | (None, p', s') \<Rightarrow> feed_bytes emit p' y s')"
proof -
  have synced: "pz_synced p'" if "feed_synced emit z t = (r, p', s')" for z t r p' s'
    using that by (auto simp: feed_synced_def split: prod.splits)
  define buffer where "buffer = pz_buffer p @ x"
  have whole: "pz_buffer p @ x @ y = buffer @ y" by (simp add: buffer_def)
  show ?thesis
  proof (cases "pz_synced p")
    case True
    then show ?thesis
      by (auto simp: feed_bytes_def Let_def whole buffer_def [symmetric] feed_synced_append [of _ buffer]
          split: prod.splits option.splits dest: synced)
  next
    case False
    show ?thesis
    proof (cases "find_sync buffer")
      case (Some position)
      then have "drop position (buffer @ y) = drop position buffer @ y"
        using find_sync_bound [OF Some] by simp
      with False Some find_sync_append(1) [OF Some] show ?thesis
        by (auto simp: feed_bytes_def Let_def whole buffer_def [symmetric]
            feed_synced_append [of _ "drop position buffer"] split: prod.splits option.splits dest: synced)
    next
      case None
      show ?thesis
      proof (cases "65536 + 753 \<le> length buffer")
        case True
        with False None find_sync_append(2) [OF None True] show ?thesis
          by (simp add: feed_bytes_def Let_def whole buffer_def [symmetric] ts_consts)
      next
        case short: False
        with False None show ?thesis
          by (simp add: feed_bytes_def Let_def whole buffer_def [symmetric] ts_consts split: option.splits)
      qed
    qed
  qed
qed

lemma feed_chunks_concat:
  "chunks \<noteq> [] \<Longrightarrow> feed_chunks emit p chunks s = (r, p', s') \<Longrightarrow>
   \<exists>p''. feed_bytes emit p (concat chunks) s = (r, p'', s') \<and> (r = None \<longrightarrow> p'' = p')"
proof (induction chunks arbitrary: p s)
  case Nil
  then show ?case by simp
next
  case (Cons chunk chunks)
  obtain r1 p1 s1 where step: "feed_bytes emit p chunk s = (r1, p1, s1)" by (metis prod_cases3)
  show ?case
  proof (cases "r1 = None \<and> chunks \<noteq> []")
    case True
    with Cons.prems(2) step have "feed_chunks emit p1 chunks s1 = (r, p', s')" by simp
    with True step Cons.IH [of p1 s1] show ?thesis by (simp add: feed_bytes_append)
  next
    case False
    with Cons.prems(2) step have "r1 = r" "p1 = p'" "s1 = s'"
      by (cases r1; cases chunks; simp)+
    with step False show ?thesis by (cases r1) (auto simp: feed_bytes_append)
  qed
qed

lemma feed_bytes_new_empty: "feed_bytes emit new_packetizer [] s = (None, new_packetizer, s)"
  by (simp add: feed_bytes_def new_packetizer_def find_sync_alt ts_consts)

section \<open>Nothing is lost\<close>

definition record_packet :: "bytes list \<Rightarrow> bytes \<Rightarrow> unit option \<times> bytes list" where
  "record_packet raws raw = (None, raws @ [raw])"

definition framed :: "bytes \<Rightarrow> bool" where
  "framed raw \<longleftrightarrow> length raw = packet_bytes \<and> raw ! 0 = 0x47"

lemma cut_packets_record:
  "cut_packets record_packet x raws = (r, rest, raws') \<Longrightarrow>
   \<exists>new. raws' = raws @ new \<and> x = concat new @ rest \<and> list_all framed new \<and>
         (r = None \<longrightarrow> length rest < packet_bytes)"
proof (induction "length x" arbitrary: x raws rule: less_induct)
  case less
  note unfold = cut_packets.simps [of record_packet x raws]
  show ?case
  proof (cases "length x \<ge> packet_bytes \<and> x ! 0 = 0x47")
    case False
    with less.prems show ?thesis
      by (subst (asm) unfold) (auto simp: Let_def ts_consts split: if_splits)
  next
    case True
    then have "cut_packets record_packet (drop packet_bytes x) (raws @ [take packet_bytes x]) = (r, rest, raws')"
      using less.prems by (subst (asm) unfold) (simp add: record_packet_def Let_def ts_consts)
    moreover have "length (drop packet_bytes x) < length x" using True by (auto simp: ts_consts)
    ultimately obtain new where new: "raws' = (raws @ [take packet_bytes x]) @ new"
      "drop packet_bytes x = concat new @ rest" "list_all framed new" "r = None \<longrightarrow> length rest < packet_bytes"
      using less.hyps by blast
    have "x = concat (take packet_bytes x # new) @ rest"
      using new(2) append_take_drop_id [of packet_bytes x] by (metis append_assoc concat.simps(2))
    with new True show ?thesis
      by (intro exI [of _ "take packet_bytes x # new"]) (simp add: framed_def ts_consts)
  qed
qed

lemma sync_at_first: "sync_at data position \<Longrightarrow> data ! position = 0x47"
  by (simp add: sync_at_def ts_consts upt_rec)

lemma find_sync_found: "find_sync data = Some position \<Longrightarrow> sync_at data position"
  by (auto simp: find_sync_alt find_Some_iff)

lemma cut_packets_framed:
  "list_all framed new \<Longrightarrow> cut_packets record_packet (concat new) raws = (None, [], raws @ new)"
proof (induction new arbitrary: raws)
  case Nil
  then show ?case by (simp add: cut_packets.simps ts_consts)
next
  case (Cons raw new)
  then have raw: "length raw = 188" "raw ! 0 = 0x47" by (simp_all add: framed_def ts_consts)
  have "record_packet raws raw = (None, raws @ [raw])" by (simp add: record_packet_def)
  with Cons raw show ?case
    by (subst cut_packets.simps) (simp add: ts_consts Let_def)
qed

lemma sync_at_framed:
  assumes "list_all framed raws" "5 \<le> length raws"
  shows "sync_at (concat raws) 0"
proof -
  have head: "concat xs ! (index * 188) = 0x47" if "list_all framed xs" "index < length xs" for xs index
    using that
  proof (induction xs arbitrary: index)
    case (Cons x xs)
    then show ?case by (cases index) (auto simp: framed_def ts_consts nth_append)
  qed simp
  show ?thesis
    using head [OF assms(1)] assms(2) by (auto simp: sync_at_def ts_consts list_all_iff)
qed

lemma feed_bytes_new_packets:
  assumes "list_all framed raws" "5 \<le> length raws"
  shows "feed_bytes record_packet new_packetizer (concat raws) [] =
    (None, \<lparr>pz_buffer = [], pz_synced = True\<rparr>, raws)"
proof -
  have "length (concat raws) = length raws * 188"
    using assms(1) by (induction raws) (auto simp: framed_def ts_consts)
  then have "min 65537 (length (concat raws) - 752) \<noteq> 0" using assms(2) by simp
  then obtain n where "[0..<min 65537 (length (concat raws) - 752)] = 0 # [1..<n]"
    by (metis neq0_conv upt_rec Suc_eq_plus1 add_0)
  then have "find_sync (concat raws) = Some 0"
    using sync_at_framed [OF assms] by (simp add: find_sync_alt)
  then show ?thesis
    using cut_packets_framed [OF assms(1), of "[]"]
    by (simp add: feed_bytes_def new_packetizer_def feed_synced_def)
qed

section \<open>Properties\<close>

text \<open>Feeding a fresh packetizer a stream in any chunks gives the same error, the same callback history
  and, on success, the same final state as feeding it the whole stream at once.\<close>

theorem packetizer_chunk_invariance:
  "case feed_chunks emit new_packetizer chunks s of (r, p, s') \<Rightarrow>
     \<exists>p'. feed_bytes emit new_packetizer (concat chunks) s = (r, if r = None then p else p', s')"
proof (cases "chunks = []")
  case True
  then show ?thesis by (simp add: feed_bytes_new_empty)
next
  case False
  obtain r p s' where run: "feed_chunks emit new_packetizer chunks s = (r, p, s')" by (metis prod_cases3)
  from feed_chunks_concat [OF False run] obtain p'' where
    "feed_bytes emit new_packetizer (concat chunks) s = (r, p'', s')" "r = None \<longrightarrow> p'' = p" by blast
  then show ?thesis by (auto simp: run)
qed

text \<open>C10.
  A stream that is consumed and finished without error is, after at most 64 KiB before the first
  sync byte, exactly the concatenation of the packets handed to the callback, each of 188 bytes and
  starting with the sync byte, and there are at least five of them.\<close>

theorem packetizer_lossless:
  assumes "feed_chunks record_packet new_packetizer chunks [] = (None, p, raws)"
    and "finish_bytes p = None"
  shows "\<exists>position\<le>65536. drop position (concat chunks) = concat raws \<and>
    list_all framed raws \<and> 5 \<le> length raws"
proof -
  have "feed_bytes record_packet new_packetizer (concat chunks) [] = (None, p, raws)"
    using assms(1) feed_chunks_concat [of chunks record_packet new_packetizer "[]" None p raws]
    by (cases "chunks = []") (auto simp: feed_bytes_new_empty)
  moreover from assms(2) have fin: "pz_synced p" "pz_buffer p = []"
    by (auto simp: finish_bytes_def split: if_splits)
  ultimately obtain position where pos: "find_sync (concat chunks) = Some position"
    and "feed_synced record_packet (drop position (concat chunks)) [] = (None, p, raws)"
    by (auto simp: feed_bytes_def new_packetizer_def Let_def split: option.splits if_splits)
  then have "cut_packets record_packet (drop position (concat chunks)) [] = (None, [], raws)"
    using fin by (auto simp: feed_synced_def split: prod.splits)
  from cut_packets_record [OF this]
  have raws: "drop position (concat chunks) = concat raws" "list_all framed raws" by auto
  have "length (concat raws) = length raws * 188"
    using raws(2) by (induction raws) (auto simp: framed_def ts_consts)
  moreover have "752 < length (concat raws)"
    using find_sync_bound [OF pos] raws(1) by (metis length_drop less_diff_conv add.commute)
  ultimately have "5 \<le> length raws" by simp
  with raws find_sync_bound [OF pos] show ?thesis by blast
qed

theorem packetizer_lossless_witness:
  defines "raw \<equiv> 0x47 # replicate 187 (0 :: byte)"
  shows "\<exists>position\<le>65536. drop position (concat [concat (replicate 5 raw)]) = concat (replicate 5 raw) \<and>
    list_all framed (replicate 5 raw) \<and> 5 \<le> length (replicate 5 raw)"
proof (rule packetizer_lossless)
  have raw: "framed raw" by (simp add: framed_def raw_def ts_consts)
  show "feed_chunks record_packet new_packetizer [concat (replicate 5 raw)] [] =
      (None, \<lparr>pz_buffer = [], pz_synced = True\<rparr>, replicate 5 raw)"
    using raw by (simp add: feed_bytes_new_packets list_all_length)
qed (simp add: finish_bytes_def)

end
