(* ===== verification/Quality.thy ===== *)
theory Quality
  imports TsPacket "HOL-Library.Mapping"
begin

text \<open>
  \<open>internal/core/recording/quality.go\<close> and \<open>internal/app/recording/ts_quality.go\<close>: the bounded
  quality summary of a recording, its saturating counters, the lenient packet parser of the recorder,
  and the continuity tracker with its 64 observed PIDs.  The lemmas show that every counter stays
  within 32 bits, that the summary stays valid, and that the tracker never observes more than 64 PIDs.
\<close>

section \<open>Quality summary\<close>

datatype quality_status = QualityUnknown | QualityNoIssuesObserved | QualityDegraded

definition quality_status_string :: "quality_status \<Rightarrow> string" where
  "quality_status_string status =
    (case status of
       QualityUnknown \<Rightarrow> ''UNKNOWN''
     | QualityNoIssuesObserved \<Rightarrow> ''NO_ISSUES_OBSERVED''
     | QualityDegraded \<Rightarrow> ''DEGRADED'')"

definition parse_quality_status :: "string \<Rightarrow> (unit, quality_status) result" where
  "parse_quality_status value =
    (if value = ''UNKNOWN'' then Inr QualityUnknown
     else if value = ''NO_ISSUES_OBSERVED'' then Inr QualityNoIssuesObserved
     else if value = ''DEGRADED'' then Inr QualityDegraded
     else Inl ())"

record quality_summary =
  q_status :: quality_status
  q_selection_unverified :: bool
  q_observation_limited :: bool
  q_counters_saturated :: bool
  q_cc_gap :: int
  q_cc_duplicate :: int
  q_tei_packets :: int
  q_malformed_packet :: int
  q_psi_continuity :: int
  q_psi_crc :: int
  q_psi_structure :: int
  q_psi_limit :: int
  q_sync_loss :: int
  q_sync_recovered :: int
  q_sync_discarded_bytes :: int
  q_trailing_incomplete_bytes :: int
  q_unfinished_psi :: int
  q_fallback :: int
  q_reconnect :: int

definition zero_quality :: quality_summary where
  "zero_quality = \<lparr>q_status = QualityUnknown, q_selection_unverified = False, q_observation_limited = False,
     q_counters_saturated = False, q_cc_gap = 0, q_cc_duplicate = 0, q_tei_packets = 0,
     q_malformed_packet = 0, q_psi_continuity = 0, q_psi_crc = 0, q_psi_structure = 0, q_psi_limit = 0,
     q_sync_loss = 0, q_sync_recovered = 0, q_sync_discarded_bytes = 0, q_trailing_incomplete_bytes = 0,
     q_unfinished_psi = 0, q_fallback = 0, q_reconnect = 0\<rparr>"

text \<open>The counters that \<open>Validate\<close> bounds by 2147483647, in its order.\<close>

definition quality_counters :: "quality_summary \<Rightarrow> int list" where
  "quality_counters q = [q_cc_gap q, q_cc_duplicate q, q_tei_packets q, q_malformed_packet q,
     q_psi_continuity q, q_psi_crc q, q_psi_structure q, q_psi_limit q, q_sync_loss q, q_sync_recovered q,
     q_sync_discarded_bytes q, q_trailing_incomplete_bytes q, q_unfinished_psi q]"

definition quality_valid :: "quality_summary \<Rightarrow> bool" where
  "quality_valid q \<longleftrightarrow> \<not> (q_fallback q < 0 \<or> q_fallback q > 1 \<or> q_reconnect q < 0 \<or> q_reconnect q > 3) \<and>
     list_all (\<lambda>count. \<not> (count < 0 \<or> count > 2147483647)) (quality_counters q)"

section \<open>Saturating counters\<close>

text \<open>
  \<open>addQuality\<close> takes a pointer to one counter of the summary; here the counter is named, with its
  reader and writer.
\<close>

datatype quality_counter =
  CCGap | CCDuplicate | TEIPackets | MalformedPacket | PSIContinuity | PSICRC | PSIStructure | PSILimit
| SyncLoss | SyncRecovered | SyncDiscardedBytes | TrailingIncompleteBytes | UnfinishedPSI

fun get_counter :: "quality_counter \<Rightarrow> quality_summary \<Rightarrow> int" where
  "get_counter CCGap q = q_cc_gap q"
| "get_counter CCDuplicate q = q_cc_duplicate q"
| "get_counter TEIPackets q = q_tei_packets q"
| "get_counter MalformedPacket q = q_malformed_packet q"
| "get_counter PSIContinuity q = q_psi_continuity q"
| "get_counter PSICRC q = q_psi_crc q"
| "get_counter PSIStructure q = q_psi_structure q"
| "get_counter PSILimit q = q_psi_limit q"
| "get_counter SyncLoss q = q_sync_loss q"
| "get_counter SyncRecovered q = q_sync_recovered q"
| "get_counter SyncDiscardedBytes q = q_sync_discarded_bytes q"
| "get_counter TrailingIncompleteBytes q = q_trailing_incomplete_bytes q"
| "get_counter UnfinishedPSI q = q_unfinished_psi q"

fun put_counter :: "quality_counter \<Rightarrow> int \<Rightarrow> quality_summary \<Rightarrow> quality_summary" where
  "put_counter CCGap v q = q\<lparr>q_cc_gap := v\<rparr>"
| "put_counter CCDuplicate v q = q\<lparr>q_cc_duplicate := v\<rparr>"
| "put_counter TEIPackets v q = q\<lparr>q_tei_packets := v\<rparr>"
| "put_counter MalformedPacket v q = q\<lparr>q_malformed_packet := v\<rparr>"
| "put_counter PSIContinuity v q = q\<lparr>q_psi_continuity := v\<rparr>"
| "put_counter PSICRC v q = q\<lparr>q_psi_crc := v\<rparr>"
| "put_counter PSIStructure v q = q\<lparr>q_psi_structure := v\<rparr>"
| "put_counter PSILimit v q = q\<lparr>q_psi_limit := v\<rparr>"
| "put_counter SyncLoss v q = q\<lparr>q_sync_loss := v\<rparr>"
| "put_counter SyncRecovered v q = q\<lparr>q_sync_recovered := v\<rparr>"
| "put_counter SyncDiscardedBytes v q = q\<lparr>q_sync_discarded_bytes := v\<rparr>"
| "put_counter TrailingIncompleteBytes v q = q\<lparr>q_trailing_incomplete_bytes := v\<rparr>"
| "put_counter UnfinishedPSI v q = q\<lparr>q_unfinished_psi := v\<rparr>"

definition add_quality :: "quality_counter \<Rightarrow> int \<Rightarrow> quality_summary \<Rightarrow> quality_summary" where
  "add_quality counter count q =
    (if count \<le> 0 then q
     else let q = q\<lparr>q_status := QualityDegraded\<rparr>
          in if count \<ge> 2147483647 - get_counter counter q
             then put_counter counter 2147483647 q\<lparr>q_counters_saturated := True\<rparr>
             else put_counter counter (get_counter counter q + count) q)"

lemma get_put_counter [simp]:
  "get_counter c (put_counter d v q) = (if c = d then v else get_counter c q)"
  by (cases c; cases d) simp_all

lemma get_counter_other [simp]:
  "get_counter c (q\<lparr>q_status := s\<rparr>) = get_counter c q"
  "get_counter c (q\<lparr>q_counters_saturated := b\<rparr>) = get_counter c q"
  "get_counter c (q\<lparr>q_observation_limited := b\<rparr>) = get_counter c q"
  by (cases c, simp_all)+

lemma put_counter_fields [simp]:
  "q_status (put_counter c v q) = q_status q" "q_fallback (put_counter c v q) = q_fallback q"
  "q_reconnect (put_counter c v q) = q_reconnect q"
  "q_counters_saturated (put_counter c v q) = q_counters_saturated q"
  "q_selection_unverified (put_counter c v q) = q_selection_unverified q"
  "q_observation_limited (put_counter c v q) = q_observation_limited q"
  by (cases c, simp_all)+

lemma quality_counters_get:
  "set (quality_counters q) = range (\<lambda>c. get_counter c q)"
proof (rule set_eqI, rule iffI)
  fix x assume "x \<in> set (quality_counters q)"
  then show "x \<in> range (\<lambda>c. get_counter c q)"
    by (auto simp: quality_counters_def intro: range_eqI [where x = CCGap] range_eqI [where x = CCDuplicate]
        range_eqI [where x = TEIPackets] range_eqI [where x = MalformedPacket]
        range_eqI [where x = PSIContinuity] range_eqI [where x = PSICRC] range_eqI [where x = PSIStructure]
        range_eqI [where x = PSILimit] range_eqI [where x = SyncLoss] range_eqI [where x = SyncRecovered]
        range_eqI [where x = SyncDiscardedBytes] range_eqI [where x = TrailingIncompleteBytes]
        range_eqI [where x = UnfinishedPSI])
next
  fix x assume "x \<in> range (\<lambda>c. get_counter c q)"
  then obtain c where "x = get_counter c q" by blast
  then show "x \<in> set (quality_counters q)" by (cases c) (simp_all add: quality_counters_def)
qed

lemma quality_valid_iff:
  "quality_valid q \<longleftrightarrow> 0 \<le> q_fallback q \<and> q_fallback q \<le> 1 \<and> 0 \<le> q_reconnect q \<and> q_reconnect q \<le> 3 \<and>
     (\<forall>c. 0 \<le> get_counter c q \<and> get_counter c q \<le> 2147483647)"
  unfolding quality_valid_def list_all_iff quality_counters_get by (auto simp: not_less)

lemma add_quality_get:
  "get_counter c q \<le> 2147483647 \<Longrightarrow>
   get_counter c (add_quality d n q) =
     (if c = d then min 2147483647 (get_counter c q + max 0 n) else get_counter c q)"
  by (auto simp: add_quality_def Let_def min_def)

lemma add_quality_fields [simp]:
  "q_fallback (add_quality d n q) = q_fallback q" "q_reconnect (add_quality d n q) = q_reconnect q"
  "q_selection_unverified (add_quality d n q) = q_selection_unverified q"
  "q_observation_limited (add_quality d n q) = q_observation_limited q"
  by (simp_all add: add_quality_def Let_def)

lemma add_quality_status:
  "q_status (add_quality d n q) = (if n \<le> 0 then q_status q else QualityDegraded)"
  by (simp add: add_quality_def Let_def)

lemma add_quality_valid: "quality_valid q \<Longrightarrow> quality_valid (add_quality d n q)"
  unfolding quality_valid_iff by (auto simp: add_quality_get)

lemma quality_valid_flags [simp]:
  "quality_valid (q\<lparr>q_observation_limited := b\<rparr>) = quality_valid q"
  "quality_valid (q\<lparr>q_status := st\<rparr>) = quality_valid q"
  "quality_valid (q\<lparr>q_selection_unverified := b\<rparr>) = quality_valid q"
  by (simp_all add: quality_valid_def quality_counters_def)

section \<open>Lenient parsing\<close>

definition parse_recording_packet :: "bytes \<Rightarrow> (ts_error, packet) result \<times> bool" where
  "parse_recording_packet data =
    (let tei = (length data = 188 \<and> data ! 1 AND 0x80 \<noteq> 0)
     in if \<not> tei then (parse_packet data, False)
        else (parse_packet (data[1 := data ! 1 AND 0x7f]), True))"

section \<open>Continuity tracker\<close>

definition max_quality_pids :: nat where
  "max_quality_pids = 64"

record cc_observation =
  co_packet :: bytes
  co_cc :: byte
  co_known :: bool

definition zero_observation :: cc_observation where
  "zero_observation = \<lparr>co_packet = replicate 188 0, co_cc = 0, co_known = False\<rparr>"

text \<open>\<open>qt_pids\<close> is \<open>None\<close> for the nil map of a fresh tracker.\<close>

record quality_tracker =
  qt_pids :: "(u16, cc_observation) mapping option"
  qt_configured :: bool

definition new_quality_tracker :: quality_tracker where
  "new_quality_tracker = \<lparr>qt_pids = None, qt_configured = False\<rparr>"

definition observed :: "(u16, cc_observation) mapping \<Rightarrow> u16 \<Rightarrow> cc_observation" where
  "observed pids pid = (case Mapping.lookup pids pid of None \<Rightarrow> zero_observation | Some o' \<Rightarrow> o')"

definition tracked :: "quality_tracker \<Rightarrow> (u16, cc_observation) mapping" where
  "tracked tracker = (case qt_pids tracker of None \<Rightarrow> Mapping.empty | Some pids \<Rightarrow> pids)"

definition prioritize_pid ::
  "u16 \<Rightarrow> u16 \<Rightarrow> (u16, cc_observation) mapping \<times> quality_summary \<Rightarrow> (u16, cc_observation) mapping \<times> quality_summary" where
  "prioritize_pid pmt_pid pid st =
    (case st of (pids, q) \<Rightarrow>
       if Mapping.lookup pids pid \<noteq> None then (pids, q)
       else let (pids, q) =
                  (if Mapping.size pids = max_quality_pids
                   then let victim = Max (insert 0 {other \<in> Mapping.keys pids. other \<noteq> 0 \<and> other \<noteq> pmt_pid})
                        in (Mapping.delete victim pids, q\<lparr>q_observation_limited := True\<rparr>)
                   else (pids, q))
            in (Mapping.update pid zero_observation pids, q))"

definition prioritize :: "u16 \<Rightarrow> quality_tracker \<times> quality_summary \<Rightarrow> quality_tracker \<times> quality_summary" where
  "prioritize pmt_pid st =
    (case st of (tracker, q) \<Rightarrow>
       let (pids, q) = foldl (\<lambda>st pid. prioritize_pid pmt_pid pid st) (tracked tracker, q) [0, pmt_pid]
       in (tracker\<lparr>qt_pids := Some pids\<rparr>, q))"

definition reset_tracker :: "quality_tracker \<Rightarrow> quality_tracker" where
  "reset_tracker tracker =
    tracker\<lparr>qt_pids := map_option (Mapping.map_values (\<lambda>_ _. zero_observation)) (qt_pids tracker)\<rparr>"

definition configure_pid ::
  "u16 \<Rightarrow> (u16, cc_observation) mapping \<Rightarrow> (u16, cc_observation) mapping \<times> quality_summary \<Rightarrow> u16
    \<Rightarrow> (u16, cc_observation) mapping \<times> quality_summary" where
  "configure_pid pmt_pid old st pid =
    (case st of (selected, q) \<Rightarrow>
       if pid = 0 \<or> pid = pmt_pid then (selected, q)
       else if Mapping.size selected = max_quality_pids then (selected, q\<lparr>q_observation_limited := True\<rparr>)
       else (Mapping.update pid (observed old pid) selected, q))"

text \<open>The PIDs of a table, its clock first, sorted and without repetitions.\<close>

definition configure ::
  "u16 \<Rightarrow> u16 \<Rightarrow> u16 list \<Rightarrow> quality_tracker \<times> quality_summary \<Rightarrow> quality_tracker \<times> quality_summary" where
  "configure pmt_pid pcr_pid stream_pids st =
    (case st of (tracker, q) \<Rightarrow>
       let ids = remdups_adj (sort (pcr_pid # stream_pids));
           old = tracked tracker;
           selected = Mapping.update pmt_pid (observed old pmt_pid) (Mapping.update 0 (observed old 0) Mapping.empty);
           (selected, q) = foldl (configure_pid pmt_pid old) (selected, q) ids
       in (tracker\<lparr>qt_pids := Some selected, qt_configured := True\<rparr>, q))"

definition observe_counter :: "bytes \<Rightarrow> packet \<Rightarrow> cc_observation \<Rightarrow> quality_summary \<Rightarrow> quality_summary" where
  "observe_counter raw p previous q =
    (if co_known previous \<and> \<not> pk_discontinuity p
     then if pk_continuity_counter p = co_cc previous \<and> raw = co_packet previous
          then add_quality CCDuplicate 1 q
          else if pk_continuity_counter p \<noteq> (co_cc previous + 1) AND 0x0f then add_quality CCGap 1 q
          else q
     else q)"

definition observe ::
  "bytes \<Rightarrow> packet \<Rightarrow> quality_tracker \<times> quality_summary \<Rightarrow> quality_tracker \<times> quality_summary" where
  "observe raw p st =
    (case st of (tracker, q) \<Rightarrow>
       if pk_pid p = 0x1fff then (tracker, q)
       else let pids = (case qt_pids tracker of
                          None \<Rightarrow> Mapping.update 0 zero_observation Mapping.empty
                        | Some pids \<Rightarrow> pids);
                tracker = tracker\<lparr>qt_pids := Some pids\<rparr>
            in if Mapping.lookup pids (pk_pid p) = None \<and>
                  (Mapping.size pids = max_quality_pids \<or> qt_configured tracker)
               then (tracker, q\<lparr>q_observation_limited := True\<rparr>)
               else let previous = observed pids (pk_pid p);
                        previous = (if pk_discontinuity p then previous\<lparr>co_known := False\<rparr> else previous);
                        q = (if pk_has_payload p then observe_counter raw p previous q else q);
                        previous = (if pk_has_payload p
                                    then previous\<lparr>co_cc := pk_continuity_counter p, co_known := True\<rparr>
                                    else previous)
                    in (tracker\<lparr>qt_pids := Some (Mapping.update (pk_pid p) (previous\<lparr>co_packet := raw\<rparr>) pids)\<rparr>, q))"

section \<open>The tracker stays bounded\<close>

lemma mapping_size: "Mapping.size m = card (Mapping.keys m)" for m :: "('a::finite, 'b) mapping"
  by (simp add: Mapping.size_def)

lemma lookup_keys: "Mapping.lookup m k = None \<longleftrightarrow> k \<notin> Mapping.keys m"
  by (auto simp: keys_dom_lookup)

definition bounded_pids :: "(u16, cc_observation) mapping \<Rightarrow> bool" where
  "bounded_pids pids \<longleftrightarrow> card (Mapping.keys pids) \<le> max_quality_pids"

definition bounded_tracker :: "quality_tracker \<Rightarrow> bool" where
  "bounded_tracker tracker \<longleftrightarrow> (case qt_pids tracker of None \<Rightarrow> True | Some pids \<Rightarrow> bounded_pids pids)"

lemma bounded_tracker_new: "bounded_tracker new_quality_tracker"
  by (simp add: bounded_tracker_def new_quality_tracker_def)

lemma bounded_tracked: "bounded_tracker tracker \<Longrightarrow> bounded_pids (tracked tracker)"
  by (auto simp: bounded_tracker_def tracked_def bounded_pids_def split: option.splits)

text \<open>A full tracker always has a PID to give up that is neither 0 nor the PMT.\<close>

lemma victim_exists:
  fixes keys :: "u16 set"
  assumes "card keys = 64" and "pmt_pid \<notin> keys \<or> 0 \<notin> keys \<or> 2 < card keys"
  defines "victim \<equiv> Max (insert 0 {other \<in> keys. other \<noteq> 0 \<and> other \<noteq> pmt_pid})"
  shows "victim \<in> keys" "victim \<noteq> 0" "victim \<noteq> pmt_pid"
proof -
  let ?c = "{other \<in> keys. other \<noteq> 0 \<and> other \<noteq> pmt_pid}"
  have "?c \<noteq> {}"
  proof
    assume "?c = {}"
    then have "keys \<subseteq> {0, pmt_pid}" by auto
    then have "card keys \<le> card {0, pmt_pid}" by (intro card_mono) auto
    also have "\<dots> \<le> 2" by (simp add: card_insert_if)
    finally show False using assms(1) by simp
  qed
  then obtain x where x: "x \<in> ?c" by blast
  have "x \<le> victim" unfolding victim_def using x by (intro Max_ge) auto
  moreover have "0 < x" using x by (simp add: word_gt_0)
  ultimately have "victim \<noteq> 0" by auto
  moreover have "victim \<in> insert 0 ?c" unfolding victim_def by (rule Max_in) auto
  ultimately have "victim \<in> ?c" by blast
  then show "victim \<in> keys" "victim \<noteq> 0" "victim \<noteq> pmt_pid" by auto
qed

lemma prioritize_pid_bounded:
  assumes "bounded_pids pids" and "prioritize_pid pmt_pid pid (pids, q) = (pids', q')"
  shows "bounded_pids pids'" "pid \<in> Mapping.keys pids'"
    "Mapping.keys pids \<inter> {0, pmt_pid} \<subseteq> Mapping.keys pids'"
    "quality_valid q' = quality_valid q" "get_counter c q' = get_counter c q"
proof -
  define victim where "victim = Max (insert 0 {other \<in> Mapping.keys pids. other \<noteq> 0 \<and> other \<noteq> pmt_pid})"
  have victim: "victim \<in> Mapping.keys pids" "victim \<noteq> 0" "victim \<noteq> pmt_pid" if "card (Mapping.keys pids) = 64"
    using victim_exists [of "Mapping.keys pids" pmt_pid] that by (simp_all add: victim_def)
  have card_minus: "card (Mapping.keys pids - {victim}) = card (Mapping.keys pids) - 1"
    if "card (Mapping.keys pids) = 64"
    using victim(1) [OF that] by simp
  show "bounded_pids pids'" "pid \<in> Mapping.keys pids'"
    "Mapping.keys pids \<inter> {0, pmt_pid} \<subseteq> Mapping.keys pids'"
    "quality_valid q' = quality_valid q" "get_counter c q' = get_counter c q"
    using assms card_minus victim
    by (auto simp: prioritize_pid_def bounded_pids_def mapping_size max_quality_pids_def Let_def lookup_keys
        victim_def [symmetric] card_insert_if split: if_splits)
qed

lemma prioritize_bounded:
  assumes "bounded_tracker tracker" and "prioritize pmt_pid (tracker, q) = (tracker', q')"
  shows "bounded_tracker tracker'" "{0, pmt_pid} \<subseteq> Mapping.keys (tracked tracker')"
    "quality_valid q' = quality_valid q" "get_counter c q' = get_counter c q"
proof -
  obtain p1 q1 where 1: "prioritize_pid pmt_pid 0 (tracked tracker, q) = (p1, q1)" by fastforce
  obtain p2 q2 where 2: "prioritize_pid pmt_pid pmt_pid (p1, q1) = (p2, q2)" by fastforce
  note b1 = prioritize_pid_bounded [OF bounded_tracked [OF assms(1)] 1]
  note b2 = prioritize_pid_bounded [OF b1(1) 2]
  have res: "tracker' = tracker\<lparr>qt_pids := Some p2\<rparr>" "q' = q2"
    using assms(2) 1 2 by (auto simp: prioritize_def)
  show "bounded_tracker tracker'" using b2(1) by (simp add: res bounded_tracker_def)
  show "{0, pmt_pid} \<subseteq> Mapping.keys (tracked tracker')"
    using b1(2) b2(2,3) by (auto simp: res tracked_def)
  show "quality_valid q' = quality_valid q" using b1(4) b2(4) by (simp add: res)
  show "get_counter c q' = get_counter c q" using b1(5) [of c] b2(5) [of c] by (simp add: res)
qed

lemma configure_pid_bounded:
  assumes "configure_pid pmt_pid old (selected, q) pid = (selected', q')" and "bounded_pids selected"
  shows "bounded_pids selected' \<and> Mapping.keys selected \<subseteq> Mapping.keys selected' \<and>
    quality_valid q' = quality_valid q \<and> get_counter c q' = get_counter c q"
  using assms
  by (auto simp: configure_pid_def bounded_pids_def mapping_size max_quality_pids_def card_insert_if split: if_splits)

lemma configure_pids_bounded:
  "foldl (configure_pid pmt_pid old) (selected, q) ids = (selected', q') \<Longrightarrow> bounded_pids selected \<Longrightarrow>
   bounded_pids selected' \<and> Mapping.keys selected \<subseteq> Mapping.keys selected' \<and>
   quality_valid q' = quality_valid q \<and> get_counter c q' = get_counter c q"
proof (induction ids arbitrary: selected q)
  case (Cons pid ids)
  obtain s1 q1 where 1: "configure_pid pmt_pid old (selected, q) pid = (s1, q1)" by fastforce
  with Cons.prems configure_pid_bounded [OF 1 Cons.prems(2), of c] Cons.IH [of s1 q1] show ?case by auto
qed simp

lemma configure_bounded:
  assumes "configure pmt_pid pcr_pid pids (tracker, q) = (tracker', q')"
  shows "bounded_tracker tracker'" "qt_configured tracker'" "{0, pmt_pid} \<subseteq> Mapping.keys (tracked tracker')"
    "quality_valid q' = quality_valid q" "get_counter c q' = get_counter c q"
proof -
  define old where "old = tracked tracker"
  define start where "start = Mapping.update pmt_pid (observed old pmt_pid)
    (Mapping.update 0 (observed old 0) (Mapping.empty :: (u16, cc_observation) mapping))"
  obtain s1 q1 where 1: "foldl (configure_pid pmt_pid old) (start, q) (remdups_adj (sort (pcr_pid # pids))) = (s1, q1)"
    by fastforce
  have res: "tracker' = tracker\<lparr>qt_pids := Some s1, qt_configured := True\<rparr>" "q' = q1"
    using assms 1 by (auto simp: configure_def Let_def old_def [symmetric] start_def [symmetric])
  have "bounded_pids start"
    by (simp add: start_def bounded_pids_def max_quality_pids_def card_insert_if)
  note b = configure_pids_bounded [OF 1 this, of c]
  show "bounded_tracker tracker'" "qt_configured tracker'" "{0, pmt_pid} \<subseteq> Mapping.keys (tracked tracker')"
    "quality_valid q' = quality_valid q" "get_counter c q' = get_counter c q"
    using b by (auto simp: res bounded_tracker_def tracked_def start_def)
qed

lemma reset_tracker_bounded: "bounded_tracker (reset_tracker tracker) = bounded_tracker tracker"
  by (simp add: bounded_tracker_def reset_tracker_def bounded_pids_def split: option.splits)

lemma observe_counter_valid: "quality_valid q \<Longrightarrow> quality_valid (observe_counter raw p previous q)"
  by (simp add: observe_counter_def add_quality_valid)

lemma observe_bounded:
  assumes "bounded_tracker tracker" and "observe raw p (tracker, q) = (tracker', q')"
  shows "bounded_tracker tracker'" "quality_valid q \<Longrightarrow> quality_valid q'"
  using assms
  by (auto simp: observe_def bounded_tracker_def bounded_pids_def mapping_size max_quality_pids_def Let_def
      lookup_keys card_insert_if observe_counter_valid split: if_splits option.splits)

section \<open>What the counters count\<close>

text \<open>
  For a run of packets of one PID, each with a payload and without a discontinuity, two neighbours
  are a repetition when counter and bytes agree, and a gap when the second is neither a repetition
  nor the successor.
\<close>

definition repetition :: "bytes \<times> packet \<Rightarrow> bytes \<times> packet \<Rightarrow> bool" where
  "repetition x y \<longleftrightarrow> pk_continuity_counter (snd y) = pk_continuity_counter (snd x) \<and> fst y = fst x"

definition gap :: "bytes \<times> packet \<Rightarrow> bytes \<times> packet \<Rightarrow> bool" where
  "gap x y \<longleftrightarrow> \<not> repetition x y \<and>
     pk_continuity_counter (snd y) \<noteq> (pk_continuity_counter (snd x) + 1) AND 0x0f"

fun neighbours :: "('a \<Rightarrow> 'a \<Rightarrow> bool) \<Rightarrow> 'a list \<Rightarrow> int" where
  "neighbours P (x # y # zs) = (if P x y then 1 else 0) + neighbours P (y # zs)"
| "neighbours P _ = 0"

definition plain_packet :: "u16 \<Rightarrow> bytes \<times> packet \<Rightarrow> bool" where
  "plain_packet pid x \<longleftrightarrow> pk_pid (snd x) = pid \<and> pk_has_payload (snd x) \<and> \<not> pk_discontinuity (snd x)"

definition observe_all ::
  "(bytes \<times> packet) list \<Rightarrow> quality_tracker \<times> quality_summary \<Rightarrow> quality_tracker \<times> quality_summary" where
  "observe_all xs st = foldl (\<lambda>st x. observe (fst x) (snd x) st) st xs"

definition last_seen :: "u16 \<Rightarrow> bytes \<times> packet \<Rightarrow> quality_tracker \<Rightarrow> bool" where
  "last_seen pid x tracker \<longleftrightarrow> Mapping.lookup (tracked tracker) pid =
     Some \<lparr>co_packet = fst x, co_cc = pk_continuity_counter (snd x), co_known = True\<rparr>"

lemma neighbours_nonneg: "0 \<le> neighbours P xs"
  by (induction P xs rule: neighbours.induct) auto

lemma observe_next:
  assumes "last_seen pid x tracker" "plain_packet pid y" "pid \<noteq> 0x1fff"
    and "observe (fst y) (snd y) (tracker, q) = (tracker', q')"
  shows "last_seen pid y tracker'"
    "q' = (if repetition x y then add_quality CCDuplicate 1 q else if gap x y then add_quality CCGap 1 q else q)"
  using assms
  by (auto simp: observe_def last_seen_def tracked_def plain_packet_def observed_def observe_counter_def
      repetition_def gap_def Let_def lookup_update split: option.splits)

lemma observe_first:
  assumes "plain_packet pid y" "pid \<noteq> 0x1fff"
    and "observe (fst y) (snd y) (new_quality_tracker, q) = (tracker', q')"
  shows "last_seen pid y tracker'" "q' = q"
  using assms
  by (auto simp: observe_def last_seen_def tracked_def plain_packet_def observed_def observe_counter_def
      new_quality_tracker_def Let_def lookup_update' lookup_empty zero_observation_def
      mapping_size max_quality_pids_def split: option.splits if_splits)

lemma observe_run:
  "last_seen pid x tracker \<Longrightarrow> list_all (plain_packet pid) xs \<Longrightarrow> pid \<noteq> 0x1fff \<Longrightarrow> quality_valid q \<Longrightarrow>
   observe_all xs (tracker, q) = (tracker', q') \<Longrightarrow>
   q_cc_gap q' = min 2147483647 (q_cc_gap q + neighbours gap (x # xs)) \<and>
   q_cc_duplicate q' = min 2147483647 (q_cc_duplicate q + neighbours repetition (x # xs))"
proof (induction xs arbitrary: x tracker q)
  case Nil
  then show ?case by (auto simp: observe_all_def quality_valid_iff dest: spec [of _ CCGap] spec [of _ CCDuplicate])
next
  case (Cons y xs)
  obtain tr1 q1 where 1: "observe (fst y) (snd y) (tracker, q) = (tr1, q1)" by fastforce
  from Cons.prems have y: "plain_packet pid y" by simp
  note step = observe_next [OF Cons.prems(1) y Cons.prems(3) 1]
  have "quality_valid q1" using Cons.prems(4) by (simp add: step(2) add_quality_valid)
  moreover have "observe_all xs (tr1, q1) = (tracker', q')"
    using Cons.prems(5) 1 by (simp add: observe_all_def)
  ultimately have rest: "q_cc_gap q' = min 2147483647 (q_cc_gap q1 + neighbours gap (y # xs)) \<and>
      q_cc_duplicate q' = min 2147483647 (q_cc_duplicate q1 + neighbours repetition (y # xs))"
    using Cons.prems(2,3) step(1) by (intro Cons.IH) auto
  have bound: "get_counter CCGap q \<le> 2147483647" "get_counter CCDuplicate q \<le> 2147483647"
    using Cons.prems(4) by (auto simp only: quality_valid_iff)
  have "q_cc_gap q1 = min 2147483647 (q_cc_gap q + (if gap x y then 1 else 0))"
    "q_cc_duplicate q1 = min 2147483647 (q_cc_duplicate q + (if repetition x y then 1 else 0))"
    using add_quality_get [OF bound(1), of CCGap 1] add_quality_get [OF bound(1), of CCDuplicate 1]
      add_quality_get [OF bound(2), of CCGap 1] add_quality_get [OF bound(2), of CCDuplicate 1] bound
    by (auto simp: step(2) gap_def)
  then show ?case
    using rest neighbours_nonneg [of gap "y # xs"] neighbours_nonneg [of repetition "y # xs"]
    by (auto simp: min_def)
qed

section \<open>Properties\<close>

text \<open>Adding to a counter of a valid summary keeps it valid: the counter becomes the exact sum, cut at
  2147483647, a non-positive count changes nothing, and no other counter moves.\<close>

theorem add_quality_saturates:
  assumes "quality_valid q"
  shows "quality_valid (add_quality d n q) \<and>
    get_counter d (add_quality d n q) = min 2147483647 (get_counter d q + max 0 n) \<and>
    (\<forall>c. c \<noteq> d \<longrightarrow> get_counter c (add_quality d n q) = get_counter c q) \<and>
    (n \<le> 0 \<longrightarrow> add_quality d n q = q) \<and>
    (0 < n \<longrightarrow> q_status (add_quality d n q) = QualityDegraded)"
proof -
  have "get_counter c q \<le> 2147483647" for c using assms by (simp add: quality_valid_iff)
  then show ?thesis
    using assms by (auto simp: add_quality_get add_quality_valid add_quality_status) (simp add: add_quality_def)
qed

theorem add_quality_saturates_witness:
  "q_sync_loss (add_quality SyncLoss 3 (zero_quality\<lparr>q_sync_loss := 2147483646\<rparr>)) = 2147483647"
  using add_quality_saturates [of "zero_quality\<lparr>q_sync_loss := 2147483646\<rparr>" SyncLoss 3]
  by (simp add: quality_valid_def quality_counters_def zero_quality_def)

text \<open>C12.
  Observing a run of plain packets of one PID from a fresh tracker counts, up to saturation, exactly
  the neighbouring pairs that are gaps and exactly those that are repetitions.\<close>

theorem continuity_counts:
  assumes "list_all (plain_packet pid) xs" "pid \<noteq> 0x1fff" "quality_valid q"
    and "observe_all xs (new_quality_tracker, q) = (tracker', q')"
  shows "q_cc_gap q' = min 2147483647 (q_cc_gap q + neighbours gap xs) \<and>
    q_cc_duplicate q' = min 2147483647 (q_cc_duplicate q + neighbours repetition xs)"
proof (cases xs)
  case Nil
  have "get_counter CCGap q \<le> 2147483647" "get_counter CCDuplicate q \<le> 2147483647"
    using assms(3) by (auto simp only: quality_valid_iff)
  with Nil assms(4) show ?thesis by (simp add: observe_all_def)
next
  case (Cons y ys)
  obtain tr1 q1 where 1: "observe (fst y) (snd y) (new_quality_tracker, q) = (tr1, q1)" by fastforce
  have y: "plain_packet pid y" using assms(1) Cons by simp
  note first = observe_first [OF y assms(2) 1]
  have "observe_all ys (tr1, q) = (tracker', q')"
    using assms(4) 1 Cons first(2) by (simp add: observe_all_def)
  with observe_run [OF first(1) _ assms(2,3)] assms(1) Cons show ?thesis by simp
qed

definition plain_example :: "byte \<Rightarrow> bytes \<times> packet" where
  "plain_example cc = ([0x47, cc],
    \<lparr>pk_pid = 0x100, pk_payload_unit_start = False, pk_continuity_counter = cc, pk_has_payload = True,
     pk_payload = [], pk_random_access = False, pk_discontinuity = False, pk_has_program_clock = False,
     pk_program_clock = 0\<rparr>)"

theorem continuity_counts_witness:
  "q_cc_gap (snd (observe_all (map plain_example [14, 15, 0, 0, 2]) (new_quality_tracker, zero_quality))) = 1"
proof -
  obtain tr q where run: "observe_all (map plain_example [14, 15, 0, 0, 2]) (new_quality_tracker, zero_quality) = (tr, q)"
    by fastforce
  have "q_cc_gap q = 1"
    using continuity_counts [OF _ _ _ run, of "0x100"]
    by (simp add: plain_packet_def plain_example_def quality_valid_def quality_counters_def zero_quality_def
        gap_def repetition_def)
  with run show ?thesis by simp
qed

text \<open>Whatever the packets and tables, a bounded tracker keeps at most 64 PIDs and the summary stays
  valid; giving priority to a PMT or configuring from one always leaves PID 0 and the PMT observed.\<close>

theorem tracker_bounded:
  assumes "bounded_tracker tracker" "quality_valid q"
  shows "bounded_tracker (fst (observe raw p (tracker, q))) \<and> quality_valid (snd (observe raw p (tracker, q))) \<and>
    bounded_tracker (fst (prioritize pmt_pid (tracker, q))) \<and> quality_valid (snd (prioritize pmt_pid (tracker, q))) \<and>
    {0, pmt_pid} \<subseteq> Mapping.keys (tracked (fst (prioritize pmt_pid (tracker, q)))) \<and>
    bounded_tracker (fst (configure pmt_pid pcr_pid pids (tracker, q))) \<and>
    quality_valid (snd (configure pmt_pid pcr_pid pids (tracker, q))) \<and>
    {0, pmt_pid} \<subseteq> Mapping.keys (tracked (fst (configure pmt_pid pcr_pid pids (tracker, q))))"
proof -
  obtain t1 q1 t2 q2 t3 q3 where
    o': "observe raw p (tracker, q) = (t1, q1)" and pr: "prioritize pmt_pid (tracker, q) = (t2, q2)"
    and co: "configure pmt_pid pcr_pid pids (tracker, q) = (t3, q3)" by (meson surj_pair)
  show ?thesis
    using assms observe_bounded [OF assms(1) o'] prioritize_bounded(1-3) [OF assms(1) pr]
      configure_bounded(1,3,4) [OF co]
    by (simp add: o' pr co)
qed

theorem tracker_bounded_witness:
  "bounded_tracker (fst (configure 0x1f0 0x100 [0x110] (new_quality_tracker, zero_quality)))"
  using tracker_bounded [of new_quality_tracker zero_quality]
  by (simp add: bounded_tracker_new quality_valid_def quality_counters_def zero_quality_def)

end
