(* ===== verification/RecordingPsi.thy ===== *)
theory RecordingPsi
  imports PsiTables
begin

text \<open>
  \<open>internal/app/recording/ts_psi.go\<close>: the recorder's own section collector, which tolerates lost
  and repeated packets, is limited to 1,024 bytes per section and reports quality issues instead of
  failing, and \<open>pmtIssue\<close>, the structural check before \<open>ParsePMT\<close>.  The used part
  \<open>section[:used]\<close> of the fixed Go array is a list.  The lemmas show that the buffer never leaves its
  bounds, that every section handed out is whole and has a valid CRC, and that a table without issue
  whose header is accepted parses.
\<close>

section \<open>State\<close>

datatype psi_issue = PsiOK | PsiContinuity | PsiCRC | PsiStructure | PsiLimit

record recording_psi =
  rp_section :: bytes
  rp_want :: nat
  rp_previous :: bytes
  rp_cc :: byte
  rp_known :: bool
  rp_waiting :: bool

definition max_recording_section :: nat where
  "max_recording_section = 1024"

definition new_recording_psi :: recording_psi where
  "new_recording_psi = \<lparr>rp_section = [], rp_want = 0, rp_previous = replicate 188 0, rp_cc = 0,
     rp_known = False, rp_waiting = False\<rparr>"

definition psi_incomplete :: "recording_psi \<Rightarrow> bool" where
  "psi_incomplete psi \<longleftrightarrow> length (rp_section psi) \<noteq> 0"

text \<open>\<open>reset\<close> keeps nothing of the old state.\<close>

definition reset_psi :: recording_psi where
  "reset_psi = new_recording_psi\<lparr>rp_waiting := True\<rparr>"

definition psi_stuffing :: "bytes \<Rightarrow> bool" where
  "psi_stuffing data \<longleftrightarrow> list_all (\<lambda>b. b = 0xff) data"

section \<open>Operations\<close>

text \<open>
  \<open>append\<close>: the rest of the data, the completed section if any, and the issue.  The buffer is shorter
  than the current target whenever \<open>append\<close> runs (\<open>psi_wf\<close> below), so the subtraction is exact; the
  loop over a longer buffer, which Go would abort, stops here.
\<close>

definition psi_target :: "recording_psi \<Rightarrow> nat" where
  "psi_target psi = (if rp_want psi > 0 then rp_want psi else 3)"

definition psi_count :: "bytes \<Rightarrow> recording_psi \<Rightarrow> nat" where
  "psi_count data psi = min (length data) (psi_target psi - length (rp_section psi))"

definition psi_announced :: "bytes \<Rightarrow> nat" where
  "psi_announced sec = 3 + len12 (sec ! 1) (sec ! 2)"

text \<open>One pass of the loop copies up to the target; the third byte of a section gives its length.\<close>

definition psi_copy :: "bytes \<Rightarrow> recording_psi \<Rightarrow> recording_psi" where
  "psi_copy data psi =
    (let sec = rp_section psi @ take (psi_count data psi) data
     in psi\<lparr>rp_section := sec,
           rp_want := (if length sec = 3 \<and> rp_want psi = 0 then psi_announced sec else rp_want psi)\<rparr>)"

function psi_append :: "bytes \<Rightarrow> recording_psi \<Rightarrow> (bytes \<times> bytes option \<times> psi_issue) \<times> recording_psi" where
  "psi_append data psi =
    (if length data = 0 \<or> length (rp_section psi) \<ge> psi_target psi then (([], None, PsiOK), psi)
     else let psi' = psi_copy data psi;
              rest = drop (psi_count data psi) data;
              fresh = (length (rp_section psi') = 3 \<and> rp_want psi = 0)
          in if fresh \<and> rp_want psi' > max_recording_section then (([], None, PsiLimit), psi')
             else if fresh \<and> rp_want psi' < 12 then (([], None, PsiStructure), psi')
             else if rp_want psi' > 0 \<and> length (rp_section psi') = rp_want psi'
             then if \<not> valid_crc (rp_section psi') then (([], None, PsiCRC), psi')
                  else ((rest, Some (rp_section psi'), PsiOK), psi'\<lparr>rp_section := [], rp_want := 0\<rparr>)
             else psi_append rest psi')"
  by pat_completeness auto
termination by (relation "measure (\<lambda>(data, psi). length data)") (auto simp: psi_count_def min_def)

declare psi_append.simps [simp del]

text \<open>The outcome of a packet: the sections, whether it repeated the previous one, and the issue.\<close>

type_synonym psi_outcome = "bytes list \<times> bool \<times> psi_issue"

definition psi_fail :: "psi_issue \<Rightarrow> psi_outcome \<times> recording_psi" where
  "psi_fail issue = (([], False, issue), reset_psi)"

lemma psi_append_shorter:
  "psi_append data psi = ((rest, Some sec, issue), psi') \<Longrightarrow> length rest < length data"
proof (induction data psi rule: psi_append.induct)
  case (1 data psi)
  define later where "later = drop (psi_count data psi) data"
  have short: "\<not> (length data = 0 \<or> length (rp_section psi) \<ge> psi_target psi)"
    using "1.prems" by (subst (asm) psi_append.simps) (auto split: if_splits)
  then have "length later < length data" by (auto simp: later_def psi_count_def min_def)
  moreover have "rest = later \<or> length rest < length later"
    using "1.prems" short "1.IH" [OF short refl refl refl]
    by (subst (asm) psi_append.simps) (auto simp: Let_def later_def split: if_splits)
  ultimately show ?case by auto
qed

text \<open>The loop over the sections of one packet.\<close>

function psi_sections :: "bool \<Rightarrow> bytes list \<Rightarrow> bytes \<Rightarrow> recording_psi \<Rightarrow> psi_outcome \<times> recording_psi" where
  "psi_sections unit_start sections data psi =
    (if length data = 0 then ((sections, False, PsiOK), psi)
     else if length (rp_section psi) = 0 \<and> data ! 0 = 0xff
     then if \<not> psi_stuffing data then psi_fail PsiStructure else ((sections, False, PsiOK), psi)
     else (case psi_append data psi of
             ((rest, completed, issue), psi') \<Rightarrow>
               if issue \<noteq> PsiOK then psi_fail issue
               else (case completed of
                       None \<Rightarrow> ((sections, False, PsiOK), psi')
                     | Some sec \<Rightarrow>
                         if \<not> unit_start \<and> \<not> psi_stuffing rest then psi_fail PsiStructure
                         else psi_sections unit_start (sections @ [sec]) rest psi')))"
  by pat_completeness auto
termination
  by (relation "measure (\<lambda>(unit_start, sections, data, psi). length data)")
    (auto dest: psi_append_shorter [OF sym])

declare psi_sections.simps [simp del]

text \<open>A packet that starts a section: the pointer field, the end of the open section, then the new ones.\<close>

definition psi_start :: "bytes \<Rightarrow> recording_psi \<Rightarrow> psi_outcome \<times> recording_psi" where
  "psi_start data psi =
    (let pointer = unat (data ! 0)
     in if pointer > length data - 1 then psi_fail PsiStructure
        else let start = (\<lambda>sections psi. psi_sections True sections (drop (1 + pointer) data)
                            (psi\<lparr>rp_section := [], rp_want := 0, rp_waiting := False\<rparr>))
             in if length (rp_section psi) \<noteq> 0
                then (case psi_append (slice 1 (1 + pointer) data) psi of
                        ((rest, completed, issue), psi') \<Rightarrow>
                          if issue \<noteq> PsiOK then psi_fail issue
                          else (case completed of
                                  None \<Rightarrow> psi_fail PsiStructure
                                | Some sec \<Rightarrow>
                                    if \<not> psi_stuffing rest then psi_fail PsiStructure else start [sec] psi'))
                else start [] psi)"

definition psi_feed :: "bytes \<Rightarrow> packet \<Rightarrow> recording_psi \<Rightarrow> psi_outcome \<times> recording_psi" where
  "psi_feed raw p psi =
    (if \<not> pk_has_payload p
     then (([], False, PsiOK), if pk_discontinuity p then reset_psi else psi)
     else if rp_known psi \<and> \<not> pk_discontinuity p \<and>
             pk_continuity_counter p = rp_cc psi \<and> raw = rp_previous psi
     then (([], True, PsiOK), psi)
     else if rp_known psi \<and> \<not> pk_discontinuity p \<and>
             pk_continuity_counter p \<noteq> (rp_cc psi + 1) AND 15
     then psi_fail PsiContinuity
     else let psi = (if pk_discontinuity p then reset_psi else psi)
          in if rp_waiting psi \<and> \<not> pk_payload_unit_start p then (([], False, PsiOK), psi)
             else let psi = psi\<lparr>rp_known := True, rp_cc := pk_continuity_counter p, rp_previous := raw\<rparr>;
                      data = pk_payload p
                  in if pk_payload_unit_start p then psi_start data psi
                     else if length (rp_section psi) = 0 then (([], False, PsiOK), psi)
                     else psi_sections False [] data psi)"

text \<open>The structural check of a PMT before \<open>ParsePMT\<close>: the entries from an offset to the CRC.\<close>

function pmt_entries_issue :: "bytes \<Rightarrow> nat \<Rightarrow> psi_issue" where
  "pmt_entries_issue rest count =
    (if rest = [] then PsiOK
     else if length rest < 5 then PsiStructure
     else if count + 1 > 64 then PsiLimit
     else let nxt = 5 + len12 (rest ! 3) (rest ! 4)
          in if nxt > length rest then PsiStructure
             else pmt_entries_issue (drop nxt rest) (count + 1))"
  by pat_completeness auto
termination by (relation "measure (\<lambda>(rest, count). length rest)") auto

declare pmt_entries_issue.simps [simp del]

definition pmt_issue :: "bytes \<Rightarrow> psi_issue" where
  "pmt_issue sec =
    (if length sec < 16 \<or> sec ! 0 \<noteq> 2 then PsiStructure
     else if streams_offset sec > length sec - 4 then PsiStructure
     else pmt_entries_issue (slice (streams_offset sec) (length sec - 4) sec) 0)"

section \<open>Well-formed collectors\<close>

definition psi_wf :: "recording_psi \<Rightarrow> bool" where
  "psi_wf psi \<longleftrightarrow>
     (if rp_want psi = 0 then length (rp_section psi) < 3
      else 12 \<le> rp_want psi \<and> rp_want psi \<le> max_recording_section \<and> 3 \<le> length (rp_section psi) \<and>
           length (rp_section psi) < rp_want psi \<and> rp_want psi = psi_announced (rp_section psi))"

definition sound_section :: "bytes \<Rightarrow> bool" where
  "sound_section sec \<longleftrightarrow> 12 \<le> length sec \<and> length sec \<le> max_recording_section \<and>
     length sec = psi_announced sec \<and> valid_crc sec"

lemma psi_announced_prefix [simp]:
  "3 \<le> length sec \<Longrightarrow> psi_announced (sec @ more') = psi_announced sec"
  "3 \<le> n \<Longrightarrow> psi_announced (take n sec) = psi_announced sec"
  by (simp_all add: psi_announced_def nth_append)

lemma psi_wf_reset: "psi_wf reset_psi" "psi_wf new_recording_psi"
  by (simp_all add: psi_wf_def reset_psi_def new_recording_psi_def)

lemma psi_append_body:
  assumes "rp_want psi \<noteq> 0" "length (rp_section psi) < rp_want psi" "data \<noteq> []"
  defines "sec \<equiv> rp_section psi @ data"
  shows "psi_append data psi =
    (if length sec < rp_want psi then (([], None, PsiOK), psi\<lparr>rp_section := sec\<rparr>)
     else if \<not> valid_crc (take (rp_want psi) sec)
     then (([], None, PsiCRC), psi\<lparr>rp_section := take (rp_want psi) sec\<rparr>)
     else ((drop (rp_want psi) sec, Some (take (rp_want psi) sec), PsiOK), psi\<lparr>rp_section := [], rp_want := 0\<rparr>))"
proof -
  have go: "\<not> (length data = 0 \<or> length (rp_section psi) \<ge> psi_target psi)"
    using assms by (simp add: psi_target_def)
  have copy: "psi_copy data psi = psi\<lparr>rp_section := take (rp_want psi) sec\<rparr>"
    and rest: "drop (psi_count data psi) data = drop (rp_want psi) sec"
    using assms by (auto simp: psi_copy_def psi_count_def psi_target_def Let_def min_def)
  show ?thesis
  proof (cases "length sec < rp_want psi")
    case True
    then show ?thesis
      using go assms(1) by (subst psi_append.simps) (simp add: copy rest Let_def psi_append.simps [of "[]"])
  next
    case False
    then show ?thesis
      using go assms(1) by (subst psi_append.simps) (simp add: copy rest Let_def)
  qed
qed

text \<open>Filling the three header bytes of a fresh section.\<close>

lemma psi_append_header:
  assumes "rp_want psi = 0" "length (rp_section psi) < 3" "data \<noteq> []"
  defines "n \<equiv> 3 - length (rp_section psi)"
  defines "head \<equiv> rp_section psi @ take n data"
  shows "psi_append data psi =
    (if length data < n then (([], None, PsiOK), psi\<lparr>rp_section := rp_section psi @ data\<rparr>)
     else if psi_announced head > max_recording_section
     then (([], None, PsiLimit), psi\<lparr>rp_section := head, rp_want := psi_announced head\<rparr>)
     else if psi_announced head < 12
     then (([], None, PsiStructure), psi\<lparr>rp_section := head, rp_want := psi_announced head\<rparr>)
     else psi_append (drop n data) (psi\<lparr>rp_section := head, rp_want := psi_announced head\<rparr>))"
proof -
  have go: "\<not> (length data = 0 \<or> length (rp_section psi) \<ge> psi_target psi)"
    using assms by (simp add: psi_target_def)
  show ?thesis
  proof (cases "length data < n")
    case True
    then have "psi_copy data psi = psi\<lparr>rp_section := rp_section psi @ data\<rparr>"
      "drop (psi_count data psi) data = []" "length (rp_section psi @ data) \<noteq> 3"
      using assms(1) by (simp_all add: psi_copy_def psi_count_def psi_target_def Let_def min_def n_def)
    with True go assms(1) show ?thesis
      by (subst psi_append.simps) (simp add: Let_def psi_append.simps [of "[]"])
  next
    case False
    then have "psi_copy data psi = psi\<lparr>rp_section := head, rp_want := psi_announced head\<rparr>"
      "psi_count data psi = n" "length head = 3"
      using assms(1,2) by (simp_all add: psi_copy_def psi_count_def psi_target_def Let_def min_def n_def head_def)
    with False go assms(1) show ?thesis
      by (subst psi_append.simps) (simp add: Let_def psi_announced_def)
  qed
qed

definition good_append :: "(bytes \<times> bytes option \<times> psi_issue) \<times> recording_psi \<Rightarrow> bool" where
  "good_append out \<longleftrightarrow> (case out of ((rest, completed, issue), psi') \<Rightarrow>
     (completed \<noteq> None \<longrightarrow> issue = PsiOK) \<and> (issue = PsiOK \<longrightarrow> psi_wf psi') \<and>
     (\<forall>sec. completed = Some sec \<longrightarrow> sound_section sec \<and> rp_section psi' = []))"

lemma good_append_simps [simp]:
  "good_append ((rest, None, issue), psi') \<longleftrightarrow> (issue = PsiOK \<longrightarrow> psi_wf psi')"
  "good_append ((rest, Some sec, issue), psi') \<longleftrightarrow>
     issue = PsiOK \<and> psi_wf psi' \<and> sound_section sec \<and> rp_section psi' = []"
  by (auto simp: good_append_def)

lemma psi_append_good_body:
  assumes "psi_wf psi" "rp_want psi \<noteq> 0" "data \<noteq> []"
  shows "good_append (psi_append data psi)"
proof -
  have "length (rp_section psi) < rp_want psi" using assms by (simp add: psi_wf_def)
  from psi_append_body [OF assms(2) this assms(3)] show ?thesis
    using assms(1,2) by (auto simp: psi_wf_def sound_section_def simp del: take_append)
qed

lemma psi_append_good:
  assumes "psi_wf psi"
  shows "good_append (psi_append data psi)"
proof (cases "data = []")
  case True
  with assms show ?thesis by (simp add: psi_append.simps)
next
  case data: False
  show ?thesis
  proof (cases "rp_want psi = 0")
    case False
    with assms data show ?thesis by (intro psi_append_good_body)
  next
    case True
    then have short: "length (rp_section psi) < 3" using assms by (simp add: psi_wf_def)
    define n where "n = 3 - length (rp_section psi)"
    define psi1 where "psi1 = psi\<lparr>rp_section := rp_section psi @ take n data,
      rp_want := psi_announced (rp_section psi @ take n data)\<rparr>"
    have "good_append (psi_append (drop n data) psi1)"
      if "n \<le> length data" "12 \<le> rp_want psi1" "rp_want psi1 \<le> max_recording_section"
    proof -
      have wf: "psi_wf psi1" using that short by (simp add: psi_wf_def psi1_def n_def)
      show ?thesis
      proof (cases "drop n data = []")
        case True
        with wf show ?thesis by (simp add: psi_append.simps)
      next
        case False
        with wf that show ?thesis by (intro psi_append_good_body) auto
      qed
    qed
    moreover have "length data < n \<Longrightarrow> length (rp_section psi) + length data < 3" by (simp add: n_def)
    ultimately show ?thesis
      using psi_append_header [OF True short data, folded n_def] True
      by (simp add: psi1_def psi_wf_def)
  qed
qed

text \<open>A packet's outcome: on success a well-formed collector and sound sections; on an issue a reset.\<close>

definition good_feed :: "psi_outcome \<times> recording_psi \<Rightarrow> bool" where
  "good_feed out \<longleftrightarrow> (case out of ((sections, duplicate, issue), psi') \<Rightarrow>
     psi_wf psi' \<and> list_all sound_section sections \<and> (issue \<noteq> PsiOK \<longrightarrow> sections = [] \<and> psi' = reset_psi))"

lemma good_feed_simps [simp]:
  "good_feed ((sections, duplicate, PsiOK), psi') \<longleftrightarrow> psi_wf psi' \<and> list_all sound_section sections"
  "good_feed (psi_fail issue)"
  by (auto simp: good_feed_def psi_fail_def psi_wf_reset)

lemma psi_append_cases:
  assumes "psi_wf psi"
  obtains (issue) rest completed issue psi' where "psi_append data psi = ((rest, completed, issue), psi')" "issue \<noteq> PsiOK"
  | (pending) rest psi' where "psi_append data psi = ((rest, None, PsiOK), psi')" "psi_wf psi'"
  | (completed) rest sec psi' where "psi_append data psi = ((rest, Some sec, PsiOK), psi')"
      "psi_wf psi'" "sound_section sec" "rp_section psi' = []"
proof -
  obtain rest completed issue psi' where eq: "psi_append data psi = ((rest, completed, issue), psi')"
    by (metis prod_cases3 surj_pair)
  with psi_append_good [OF assms, of data] show thesis
    by (cases "issue = PsiOK"; cases completed) (auto intro: that)
qed

lemma psi_sections_good:
  "psi_wf psi \<Longrightarrow> list_all sound_section sections \<Longrightarrow> good_feed (psi_sections unit_start sections data psi)"
proof (induction unit_start sections data psi rule: psi_sections.induct)
  case (1 unit_start sections data psi)
  note unfold = psi_sections.simps [of unit_start sections data psi]
  show ?case
  proof (cases "length data = 0 \<or> length (rp_section psi) = 0 \<and> data ! 0 = 0xff")
    case True
    with "1.prems" show ?thesis by (subst unfold) auto
  next
    case False
    from "1.prems"(1) show ?thesis
    proof (cases rule: psi_append_cases [where data = data])
      case (completed rest sec psi')
      with False "1.prems" "1.IH" [OF _ _ completed(1) [symmetric] refl refl _ refl] show ?thesis
        by (subst unfold) simp
    qed (use False "1.prems" in \<open>simp_all add: unfold\<close>)
  qed
qed

lemma psi_wf_emptied [simp]: "psi_wf (psi\<lparr>rp_section := [], rp_want := 0, rp_waiting := w\<rparr>)"
  by (simp add: psi_wf_def)

lemma psi_start_good:
  assumes "psi_wf psi"
  shows "good_feed (psi_start data psi)"
  using assms
proof (cases rule: psi_append_cases [where data = "slice 1 (1 + unat (data ! 0)) data"])
  case (completed rest sec psi')
  then show ?thesis by (simp add: psi_start_def Let_def psi_sections_good)
qed (simp_all add: psi_start_def Let_def psi_sections_good)

lemma psi_wf_counters [simp]:
  "psi_wf (psi\<lparr>rp_known := k, rp_cc := c, rp_previous := raw\<rparr>) = psi_wf psi"
  by (simp add: psi_wf_def)

lemma psi_feed_good: "psi_wf psi \<Longrightarrow> good_feed (psi_feed raw p psi)"
  by (simp add: psi_feed_def Let_def psi_start_good psi_sections_good psi_wf_reset)

section \<open>The structural check agrees with the parser\<close>

lemma pmt_entries_issue_good:
  "list_all good_entry es \<Longrightarrow> count + length es \<le> 64 \<Longrightarrow> pmt_entries_issue (concat es) count = PsiOK"
proof (induction es arbitrary: count)
  case Nil
  then show ?case by (simp add: pmt_entries_issue.simps)
next
  case (Cons e es)
  have e: "good_entry e" "5 \<le> length e" "length e = 5 + len12 (e ! 3) (e ! 4)"
    using Cons.prems by (auto simp: good_entry_def)
  note at = good_entry_append [OF e(1), of "concat es"]
  have "pmt_entries_issue (concat (e # es)) count = pmt_entries_issue (concat es) (count + 1)"
    using Cons.prems e(2) by (subst pmt_entries_issue.simps) (auto simp: at e(3) [symmetric] Let_def)
  then show ?case using Cons by simp
qed

lemma pmt_issue_parsed: "parse_pmt sec = Inr t \<Longrightarrow> pmt_issue sec = PsiOK"
  by (erule parse_pmt_ok) (auto simp: pmt_issue_def pmt_entries_issue_good)

section \<open>Runs of packets\<close>

text \<open>The collector over a run of packets, as the filter uses it: all sections of all packets.\<close>

fun psi_run :: "(bytes \<times> packet) list \<Rightarrow> recording_psi \<Rightarrow> bytes list \<times> recording_psi" where
  "psi_run [] psi = ([], psi)"
| "psi_run ((raw, p) # xs) psi =
    (case psi_feed raw p psi of
       ((sections, duplicate, issue), psi') \<Rightarrow>
         (case psi_run xs psi' of (later, psi'') \<Rightarrow> (sections @ later, psi'')))"

lemma psi_run_good: "psi_wf psi \<Longrightarrow> list_all sound_section (fst (psi_run xs psi)) \<and> psi_wf (snd (psi_run xs psi))"
proof (induction xs psi rule: psi_run.induct)
  case (2 raw p xs psi)
  obtain sections duplicate issue psi' where eq: "psi_feed raw p psi = ((sections, duplicate, issue), psi')"
    by (metis prod_cases3 surj_pair)
  with psi_feed_good [OF "2.prems", of raw p] have "psi_wf psi'" "list_all sound_section sections"
    by (auto simp: good_feed_def)
  with "2.IH" [OF eq [symmetric] refl refl] eq show ?case by (auto split: prod.splits)
qed simp

section \<open>Properties\<close>

text \<open>On any packets in any order, the recorder's collector only hands out sections of 12 to 1,024
  bytes whose length field is their length and whose CRC is valid, and it never buffers more than
  1,023 bytes.\<close>

theorem psi_feed_sound:
  "(\<forall>sec \<in> set (fst (psi_run xs new_recording_psi)). 12 \<le> length sec \<and> length sec \<le> 1024 \<and>
      length sec = 3 + len12 (sec ! 1) (sec ! 2) \<and> valid_crc sec) \<and>
   length (rp_section (snd (psi_run xs new_recording_psi))) \<le> 1023"
proof -
  have "list_all sound_section (fst (psi_run xs new_recording_psi))" "psi_wf (snd (psi_run xs new_recording_psi))"
    using psi_run_good [OF psi_wf_reset(2)] by auto
  then show ?thesis
    by (auto simp: list_all_iff sound_section_def psi_announced_def max_recording_section_def psi_wf_def
        split: if_splits)
qed

theorem psi_feed_sound_witness:
  "length (rp_section (snd (psi_run
     [([], \<lparr>pk_pid = 0, pk_payload_unit_start = True, pk_continuity_counter = 3, pk_has_payload = True,
        pk_payload = [0, 0, 0xb0, 13, 9], pk_random_access = False, pk_discontinuity = False,
        pk_has_program_clock = False, pk_program_clock = 0\<rparr>)] new_recording_psi))) \<le> 1023"
  using psi_feed_sound by blast

text \<open>The structural check before \<open>ParsePMT\<close> never rejects a section that \<open>ParsePMT\<close> accepts.\<close>

theorem pmt_issue_accepts_parsed:
  assumes "pmt_issue sec \<noteq> PsiOK"
  shows "\<exists>e. parse_pmt sec = Inl e"
  using assms pmt_issue_parsed [of sec] by (cases "parse_pmt sec") auto

theorem pmt_issue_accepts_parsed_witness: "\<exists>e. parse_pmt [2, 0xb0, 13] = Inl e"
  by (rule pmt_issue_accepts_parsed) (simp add: pmt_issue_def)

end
