(* ===== verification/Framing.thy ===== *)
theory Framing
  imports Quality Packetizer "HOL-Library.Sublist"
begin

text \<open>
  \<open>tsFramer\<close> of \<open>internal/app/recording/ts_framing.go\<close>: cutting the received bytes into packets in
  a fixed 64 KiB buffer.  After a lost sync byte it searches for five parseable packets in a row.
  The window \<open>buffer[start:start+used]\<close> of the Go array is a list, so the moves of the window are
  \<open>drop\<close>s.  The owner of the framer is a state with an operation \<open>upd\<close> on its quality summary and
  the packet handler \<open>emit\<close>, which sees the framer's generation.  The lemmas show that the result does
  not depend on the chunks, that every byte is delivered, counted as discarded or still buffered, and
  that properties of the owner are kept.
\<close>

section \<open>State and operations\<close>

definition recording_sync_bytes :: nat where
  "recording_sync_bytes = 64 * 1024"

definition recovery_packet_bytes :: nat where
  "recovery_packet_bytes = 5 * 188"

lemmas framing_consts = recording_sync_bytes_def recovery_packet_bytes_def

record framer =
  fr_buffer :: bytes
  fr_lost :: bool
  fr_generation :: u64

definition new_framer :: framer where
  "new_framer = \<lparr>fr_buffer = [], fr_lost = False, fr_generation = 0\<rparr>"

definition discard :: "nat \<Rightarrow> framer \<Rightarrow> framer" where
  "discard count fr = fr\<lparr>fr_buffer := drop count (fr_buffer fr)\<rparr>"

text \<open>Five consecutive packets that the lenient parser accepts, the first with a sync byte.\<close>

definition recovery_at :: "bytes \<Rightarrow> nat \<Rightarrow> bool" where
  "recovery_at buffer offset \<longleftrightarrow> buffer ! offset = 0x47 \<and>
     list_all (\<lambda>i. is_ok (fst (parse_recording_packet (slice (offset + i * 188) (offset + (i + 1) * 188) buffer)))) [0..<5]"

definition find_recovery :: "bytes \<Rightarrow> nat option" where
  "find_recovery buffer = find (recovery_at buffer) [0..<length buffer - recovery_packet_bytes + 1]"

type_synonym ('s, 'e) packet_handler = "u64 \<Rightarrow> 's \<Rightarrow> bytes \<Rightarrow> (int \<times> 'e option) \<times> 's"
type_synonym 's quality_access = "(quality_summary \<Rightarrow> quality_summary) \<Rightarrow> 's \<Rightarrow> 's"

lemma find_recovery_bound:
  "find_recovery buffer = Some position \<Longrightarrow>
   recovery_packet_bytes \<le> length buffer \<Longrightarrow> position + 940 \<le> length buffer \<and> recovery_at buffer position"
  by (auto simp: find_recovery_def find_Some_iff framing_consts simp del: upt_Suc)

text \<open>The inner loop of \<open>Write\<close>, until no further packet can be decided.\<close>

function framer_drain ::
  "'s quality_access \<Rightarrow> ('s, 'e) packet_handler \<Rightarrow> framer \<Rightarrow> 's \<Rightarrow> int \<Rightarrow> (int \<times> 'e option) \<times> framer \<times> 's" where
  "framer_drain upd emit fr s written =
    (if \<not> fr_lost fr
     then if length (fr_buffer fr) < 188 then ((written, None), fr, s)
          else if fr_buffer fr ! 0 \<noteq> 0x47
          then framer_drain upd emit (fr\<lparr>fr_lost := True\<rparr>) (upd (add_quality SyncLoss 1) s) written
          else (case emit (fr_generation fr) s (take 188 (fr_buffer fr)) of
                  ((n, Some e), s') \<Rightarrow> ((written + n, Some e), fr\<lparr>fr_buffer := []\<rparr>, s')
                | ((n, None), s') \<Rightarrow> framer_drain upd emit (discard 188 fr) s' (written + n))
     else if length (fr_buffer fr) < recovery_packet_bytes then ((written, None), fr, s)
     else (case find_recovery (fr_buffer fr) of
             None \<Rightarrow>
               let count = length (fr_buffer fr) - (recovery_packet_bytes - 1)
               in ((written, None), discard count fr, upd (add_quality SyncDiscardedBytes (int count)) s)
           | Some position \<Rightarrow>
               framer_drain upd emit
                 ((discard position fr)\<lparr>fr_lost := False, fr_generation := fr_generation fr + 1\<rparr>)
                 (upd (add_quality SyncRecovered 1) (upd (add_quality SyncDiscardedBytes (int position)) s)) written))"
  by pat_completeness auto
termination
proof (relation "measures [\<lambda>(upd, emit, fr, s, written). length (fr_buffer fr),
    \<lambda>(upd, emit, fr, s, written). if fr_lost fr then 1 else if fr_buffer fr ! 0 = 0x47 then 0 else 2]",
    goal_cases)
  case (4 upd emit fr s written position)
  then have "position + 940 \<le> length (fr_buffer fr)" "recovery_at (fr_buffer fr) position"
    using find_recovery_bound [of "fr_buffer fr" position] by auto
  with 4 show ?case by (auto simp: discard_def recovery_at_def)
qed (auto simp: discard_def)

declare framer_drain.simps [simp del]

lemma framer_drain_short:
  "framer_drain upd emit fr s written = ((n, None), fr', s') \<Longrightarrow> length (fr_buffer fr') < 940"
proof (induction upd emit fr s written rule: framer_drain.induct)
  case (1 upd emit fr s written)
  from 1(4) 1(1-3) show ?case
    by (subst (asm) framer_drain.simps)
      (auto simp: Let_def discard_def framing_consts split: if_splits option.splits prod.splits)
qed

text \<open>The outer loop: as much data as the buffer has room for, then the inner loop.\<close>

function framer_write ::
  "'s quality_access \<Rightarrow> ('s, 'e) packet_handler \<Rightarrow> framer \<Rightarrow> bytes \<Rightarrow> 's \<Rightarrow> int \<Rightarrow> (int \<times> 'e option) \<times> framer \<times> 's" where
  "framer_write upd emit fr data s written =
    (if length data = 0 then ((written, None), fr, s)
     else let count = min (length data) (recording_sync_bytes - length (fr_buffer fr))
          in (case framer_drain upd emit (fr\<lparr>fr_buffer := fr_buffer fr @ take count data\<rparr>) s written of
                ((n, Some e), fr', s') \<Rightarrow> ((n, Some e), fr', s')
              | ((n, None), fr', s') \<Rightarrow> framer_write upd emit fr' (drop count data) s' n))"
  by pat_completeness auto
termination
  by (relation "measures [\<lambda>(upd, emit, fr, data, s, written). length data,
    \<lambda>(upd, emit, fr, data, s, written). if recording_sync_bytes \<le> length (fr_buffer fr) then 1 else 0]")
    (auto simp: min_def framing_consts dest!: framer_drain_short [OF sym])

declare framer_write.simps [simp del]

definition framer_finish :: "'s quality_access \<Rightarrow> framer \<Rightarrow> 's \<Rightarrow> framer \<times> 's" where
  "framer_finish upd fr s =
    (fr\<lparr>fr_buffer := []\<rparr>,
     upd (add_quality (if fr_lost fr then SyncDiscardedBytes else TrailingIncompleteBytes)
            (int (length (fr_buffer fr)))) s)"

section \<open>The search and more input\<close>

lemma slice_append: "hi \<le> length xs \<Longrightarrow> slice lo hi (xs @ ys) = slice lo hi xs"
  by (cases "lo \<le> hi") (auto simp: slice_def)

lemma slice_drop: "slice lo hi (drop d xs) = slice (d + lo) (d + hi) xs"
  by (simp add: slice_def add.commute)

lemma recovery_at_append:
  assumes "offset + 940 \<le> length b"
  shows "recovery_at (b @ y) offset = recovery_at b offset"
proof -
  have "slice (offset + i * 188) (offset + (i + 1) * 188) (b @ y) = slice (offset + i * 188) (offset + (i + 1) * 188) b"
    if "i \<in> set [0..<5]" for i
  proof (rule slice_append)
    have "(i + 1) * 188 \<le> 940" using that by auto
    then show "offset + (i + 1) * 188 \<le> length b" using assms by linarith
  qed
  moreover have "(b @ y) ! offset = b ! offset" using assms by (simp add: nth_append)
  ultimately show ?thesis
    unfolding recovery_at_def by (intro arg_cong2 [of _ _ _ _ "(\<and>)"] list.pred_cong) auto
qed

lemma recovery_at_drop:
  "d + o' \<le> length b \<Longrightarrow> recovery_at (drop d b) o' = recovery_at b (d + o')"
  unfolding recovery_at_def slice_drop by (simp add: add.assoc)

lemma find_map_option: "find P (map f xs) = map_option f (find (\<lambda>x. P (f x)) xs)"
  by (induction xs) auto

lemma find_upt_shift: "find P [d..<d + n] = map_option ((+) d) (find (\<lambda>o'. P (d + o')) [0..<n])"
proof -
  have "[d..<d + n] = map ((+) d) [0..<n]" by (rule nth_equalityI) auto
  then show ?thesis by (simp add: find_map_option)
qed

lemma find_append_None: "find P xs = None \<Longrightarrow> find P (xs @ ys) = find P ys"
  by (induction xs) (auto split: if_splits)

lemma find_recovery_append:
  assumes "940 \<le> length b"
  shows "find_recovery b = Some p \<Longrightarrow> find_recovery (b @ y) = Some p"
    "find_recovery b = None \<Longrightarrow> y \<noteq> [] \<Longrightarrow>
       find_recovery (b @ y) = map_option ((+) (length b - 939)) (find_recovery (drop (length b - 939) b @ y))"
proof -
  define d where "d = length b - 939"
  have n: "length b - recovery_packet_bytes + 1 = d" using assms by (simp add: d_def framing_consts)
  have m: "length (b @ y) - recovery_packet_bytes + 1 = d + length y"
    using assms by (simp add: d_def framing_consts)
  have split: "[0..<d + length y] = [0..<d] @ [d..<d + length y]" by (rule upt_add_eq_append) simp
  have same: "find (recovery_at (b @ y)) [0..<d] = find (recovery_at b) [0..<d]"
    by (rule find_cong [OF refl]) (auto simp: d_def intro!: recovery_at_append)
  show "find_recovery b = Some p \<Longrightarrow> find_recovery (b @ y) = Some p"
    unfolding find_recovery_def n m split using same by (simp add: find_prefix)
  show "find_recovery (b @ y) = map_option ((+) (length b - 939)) (find_recovery (drop (length b - 939) b @ y))"
    if "find_recovery b = None" "y \<noteq> []"
  proof -
    have k: "length (drop d b @ y) - recovery_packet_bytes + 1 = length y"
      using assms that(2) by (cases y) (simp_all add: d_def framing_consts)
    have "find_recovery (b @ y) = find (recovery_at (b @ y)) [d..<d + length y]"
      using that(1) same unfolding find_recovery_def n m split by (simp add: find_append_None)
    also have "\<dots> = map_option ((+) d) (find (\<lambda>o'. recovery_at (b @ y) (d + o')) [0..<length y])"
      by (rule find_upt_shift)
    also have "find (\<lambda>o'. recovery_at (b @ y) (d + o')) [0..<length y] = find_recovery (drop d b @ y)"
      unfolding find_recovery_def k
    proof (rule find_cong [OF refl])
      fix o' assume "o' \<in> set [0..<length y]"
      then have "d + o' \<le> length (b @ y)" by (simp add: d_def)
      from recovery_at_drop [OF this] show "recovery_at (b @ y) (d + o') = recovery_at (drop d b @ y) o'"
        by (simp add: d_def)
    qed
    finally show ?thesis by (simp add: d_def)
  qed
qed

section \<open>The owner of the framer\<close>

definition push :: "bytes \<Rightarrow> framer \<Rightarrow> framer" where
  "push y fr = fr\<lparr>fr_buffer := fr_buffer fr @ y\<rparr>"

lemma push_simps [simp]:
  "fr_buffer (push y fr) = fr_buffer fr @ y" "fr_lost (push y fr) = fr_lost fr"
  "fr_generation (push y fr) = fr_generation fr" "push z (push y fr) = push (y @ z) fr" "push [] fr = fr"
  by (simp_all add: push_def)

lemma push_drain_state:
  "(push y fr)\<lparr>fr_lost := l\<rparr> = push y (fr\<lparr>fr_lost := l\<rparr>)"
  "(push y fr)\<lparr>fr_generation := g\<rparr> = push y (fr\<lparr>fr_generation := g\<rparr>)"
  "n \<le> length (fr_buffer fr) \<Longrightarrow> discard n (push y fr) = push y (discard n fr)"
  "(push y fr)\<lparr>fr_buffer := b\<rparr> = fr\<lparr>fr_buffer := b\<rparr>"
  by (simp_all add: push_def discard_def)

text \<open>A framer that cannot decide a further packet.\<close>

definition settled :: "framer \<Rightarrow> bool" where
  "settled fr \<longleftrightarrow> length (fr_buffer fr) < (if fr_lost fr then 940 else 188)"

text \<open>
  What the framer needs of its owner: counting discarded bytes in two steps is counting their sum.
\<close>

locale packet_owner =
  fixes upd :: "'s quality_access"
    and emit :: "('s, 'e) packet_handler"
  assumes upd_fuse: "0 \<le> a \<Longrightarrow> 0 \<le> b \<Longrightarrow>
    upd (add_quality SyncDiscardedBytes b) (upd (add_quality SyncDiscardedBytes a) s) =
    upd (add_quality SyncDiscardedBytes (a + b)) s"
begin

lemma drain_stuck:
  "\<not> fr_lost fr \<Longrightarrow> length (fr_buffer fr) < 188 \<Longrightarrow> framer_drain upd emit fr s w = ((w, None), fr, s)"
  "fr_lost fr \<Longrightarrow> length (fr_buffer fr) < 940 \<Longrightarrow> framer_drain upd emit fr s w = ((w, None), fr, s)"
  by (subst framer_drain.simps, simp add: framing_consts)+

lemma drain_search:
  "fr_lost fr \<Longrightarrow> 940 \<le> length (fr_buffer fr) \<Longrightarrow> framer_drain upd emit fr s w =
   (case find_recovery (fr_buffer fr) of
      None \<Rightarrow> ((w, None), discard (length (fr_buffer fr) - 939) fr,
               upd (add_quality SyncDiscardedBytes (int (length (fr_buffer fr) - 939))) s)
    | Some position \<Rightarrow>
        framer_drain upd emit ((discard position fr)\<lparr>fr_lost := False, fr_generation := fr_generation fr + 1\<rparr>)
          (upd (add_quality SyncRecovered 1) (upd (add_quality SyncDiscardedBytes (int position)) s)) w)"
  by (subst framer_drain.simps) (simp add: framing_consts Let_def split: option.split)

lemma drain_search_more:
  assumes "fr_lost fr" "940 \<le> length (fr_buffer fr)" "find_recovery (fr_buffer fr) = None"
  defines "d \<equiv> length (fr_buffer fr) - 939"
  shows "framer_drain upd emit (push y fr) s w =
    framer_drain upd emit (push y (discard d fr)) (upd (add_quality SyncDiscardedBytes (int d)) s) w"
proof (cases "y = []")
  case True
  have "length (fr_buffer (discard d fr)) < 940" using assms(2) by (simp add: discard_def d_def)
  then show ?thesis
    using assms True by (simp add: drain_search drain_stuck(2) discard_def)
next
  case False
  have fuse: "upd (add_quality SyncDiscardedBytes (int n)) (upd (add_quality SyncDiscardedBytes (int m)) t) =
      upd (add_quality SyncDiscardedBytes (int (m + n))) t" for n m t
    using upd_fuse [of "int m" "int n" t] by simp
  let ?b = "fr_buffer fr"
  have search: "find_recovery (?b @ y) = map_option ((+) d) (find_recovery (drop d ?b @ y))"
    using find_recovery_append(2) [OF assms(2,3) False] by (simp add: d_def)
  have long: "940 \<le> length (?b @ y)" "940 \<le> length (drop d ?b @ y)"
    using assms(2) False by (cases y; simp add: d_def)+
  have buffers: "fr_buffer (push y fr) = ?b @ y" "fr_buffer (push y (discard d fr)) = drop d ?b @ y"
    "fr_lost (push y fr)" "fr_lost (push y (discard d fr))"
    "fr_generation (push y (discard d fr)) = fr_generation (push y fr)"
    using assms(1) by (simp_all add: discard_def)
  have step: "discard (d + n) (push y fr) = discard n (push y (discard d fr))" for n
    using assms(2) by (simp add: discard_def push_def d_def add.commute)
  have count: "length (?b @ y) - 939 = d + (length (drop d ?b @ y) - 939)"
    using assms(2) by (simp add: d_def)
  note left = drain_search [OF buffers(3), of s w, unfolded buffers(1,2), OF long(1)]
  note right = drain_search [OF buffers(4), of _ w, unfolded buffers(1,2,5), OF long(2)]
  show ?thesis
    unfolding left right search count step
    by (cases "find_recovery (drop d ?b @ y)") (simp_all only: option.map option.case fuse step)
qed

text \<open>Draining a buffer and then more bytes is draining them together.\<close>

lemma framer_drain_push:
  "framer_drain upd emit (push y fr) s w =
    (case framer_drain upd emit fr s w of
       ((n, Some e), fr', s') \<Rightarrow> ((n, Some e), fr', s')
     | ((n, None), fr', s') \<Rightarrow> framer_drain upd emit (push y fr') s' n)"
proof (induction up \<equiv> upd em \<equiv> emit fr s w rule: framer_drain.induct)
  case (1 fr s w)
  show ?case
  proof (cases "fr_lost fr")
    case True
    show ?thesis
    proof (cases "length (fr_buffer fr) < 940")
      case short: True
      with True show ?thesis by (simp add: drain_stuck(2))
    next
      case False
      then have long: "940 \<le> length (fr_buffer fr)" "recovery_packet_bytes \<le> length (fr_buffer fr)"
        by (simp_all add: framing_consts)
      show ?thesis
      proof (cases "find_recovery (fr_buffer fr)")
        case None
        with True long show ?thesis by (simp add: drain_search_more) (simp add: drain_search)
      next
        case (Some position)
        note bound = find_recovery_bound [OF Some long(2)]
        have IH: "framer_drain upd emit (push y ((discard position fr)\<lparr>fr_lost := False,
              fr_generation := fr_generation fr + 1\<rparr>)) t w =
            (case framer_drain upd emit ((discard position fr)\<lparr>fr_lost := False,
                fr_generation := fr_generation fr + 1\<rparr>) t w of
               ((n, Some e), fr', s') \<Rightarrow> ((n, Some e), fr', s')
             | ((n, None), fr', s') \<Rightarrow> framer_drain upd emit (push y fr') s' n)"
          if "t = upd (add_quality SyncRecovered 1) (upd (add_quality SyncDiscardedBytes (int position)) s)" for t
          using 1(3) [of position] True False Some that
          by (simp add: framing_consts split: prod.splits option.splits)
        have "discard position (push y fr) = push y (discard position fr)"
          using bound by (intro push_drain_state) simp
        then show ?thesis
          using True long find_recovery_append(1) [OF long(1) Some, of y] Some IH [OF refl]
          by (simp add: drain_search push_drain_state split: prod.splits option.splits)
      qed
    qed
  next
    case False
    note unfold = framer_drain.simps [of upd emit fr s w] framer_drain.simps [of upd emit "push y fr" s w]
    show ?thesis
    proof (cases "length (fr_buffer fr) < 188")
      case True
      with False show ?thesis by (simp add: drain_stuck(1))
    next
      case long: False
      then have head: "(fr_buffer fr @ y) ! 0 = fr_buffer fr ! 0" by (auto simp: nth_append)
      show ?thesis
      proof (cases "fr_buffer fr ! 0 = 0x47")
        case sync: False
        then show ?thesis
          using 1(1) False long head by (simp add: unfold push_drain_state)
      next
        case True
        obtain n e s' where em: "emit (fr_generation fr) s (take 188 (fr_buffer fr)) = ((n, e), s')"
          by (metis prod_cases3 surj_pair)
        have "discard 188 (push y fr) = push y (discard 188 fr)"
          using long by (intro push_drain_state) simp
        then show ?thesis
          using 1(2) [OF _ _ _ em [symmetric] refl] False long head True em
          by (cases e) (simp_all add: unfold push_drain_state)
      qed
    qed
  qed
qed

text \<open>\<open>Write\<close> is draining the buffer with all the data, whatever room the buffer has.\<close>

lemma framer_drain_settled: "settled fr \<Longrightarrow> framer_drain upd emit fr s w = ((w, None), fr, s)"
  by (cases "fr_lost fr") (simp_all add: settled_def drain_stuck)

lemma settled_framer_drain:
  "framer_drain upd emit fr s w = ((n, None), fr', s') \<Longrightarrow> settled fr'"
proof (induction up \<equiv> upd em \<equiv> emit fr s w rule: framer_drain.induct)
  case (1 fr s w)
  from 1(4) 1(1-3) show ?case
    by (subst (asm) framer_drain.simps)
      (auto simp: Let_def discard_def framing_consts settled_def split: if_splits option.splits prod.splits)
qed

lemma framer_write_drain:
  "settled fr \<Longrightarrow> framer_write upd emit fr data s w = framer_drain upd emit (push data fr) s w"
proof (induction up \<equiv> upd em \<equiv> emit fr data s w rule: framer_write.induct)
  case (1 fr data s w)
  show ?case
  proof (cases "length data = 0")
    case True
    with 1(2) show ?thesis by (subst framer_write.simps) (simp add: framer_drain_settled)
  next
    case False
    define count where "count = min (length data) (recording_sync_bytes - length (fr_buffer fr))"
    obtain n e fr' s' where drained: "framer_drain upd emit (push (take count data) fr) s w = ((n, e), fr', s')"
      by (metis prod_cases3 surj_pair)
    have "push data fr = push (drop count data) (push (take count data) fr)" by simp
    then have "framer_drain upd emit (push data fr) s w =
        (case e of Some e \<Rightarrow> ((n, Some e), fr', s')
         | None \<Rightarrow> framer_drain upd emit (push (drop count data) fr') s' n)"
      using framer_drain_push [of "drop count data" "push (take count data) fr" s w] drained
      by (cases e) simp_all
    moreover have "framer_write upd emit fr' (drop count data) s' n =
        framer_drain upd emit (push (drop count data) fr') s' n" if "e = None"
      using 1(1) [OF False count_def] drained settled_framer_drain [of _ s w n fr' s'] that
      by (simp add: push_def)
    ultimately show ?thesis
      using False drained
      by (subst framer_write.simps) (cases e; simp add: push_def Let_def count_def [symmetric])
  qed
qed

end

text \<open>Several calls of \<open>Write\<close>; the caller stops at the first error.\<close>

fun framer_writes ::
  "'s quality_access \<Rightarrow> ('s, 'e) packet_handler \<Rightarrow> framer \<Rightarrow> bytes list \<Rightarrow> 's \<Rightarrow> int \<Rightarrow> (int \<times> 'e option) \<times> framer \<times> 's" where
  "framer_writes upd emit fr [] s w = ((w, None), fr, s)"
| "framer_writes upd emit fr (chunk # chunks) s w =
    (case framer_write upd emit fr chunk s w of
       ((n, Some e), fr', s') \<Rightarrow> ((n, Some e), fr', s')
     | ((n, None), fr', s') \<Rightarrow> framer_writes upd emit fr' chunks s' n)"

context packet_owner
begin

lemma framer_writes_drain:
  "settled fr \<Longrightarrow> framer_writes upd emit fr chunks s w = framer_drain upd emit (push (concat chunks) fr) s w"
proof (induction chunks arbitrary: fr s w)
  case Nil
  then show ?case by (simp add: framer_drain_settled)
next
  case (Cons chunk chunks)
  obtain n e fr' s' where drained: "framer_drain upd emit (push chunk fr) s w = ((n, e), fr', s')"
    by (metis prod_cases3 surj_pair)
  have "framer_drain upd emit (push (concat (chunk # chunks)) fr) s w =
      (case e of Some e \<Rightarrow> ((n, Some e), fr', s')
       | None \<Rightarrow> framer_drain upd emit (push (concat chunks) fr') s' n)"
    using framer_drain_push [of "concat chunks" "push chunk fr" s w] drained by (cases e) simp_all
  moreover have "settled fr'" if "e = None"
    using settled_framer_drain drained that by blast
  ultimately show ?case
    using framer_write_drain [OF Cons.prems, of chunk s w] drained Cons.IH [of fr' s' n] by (cases e) simp_all
qed

end

text \<open>An owner that moreover keeps a property under counting and under its packet handler.\<close>

locale sound_packet_owner = packet_owner upd emit
  for upd :: "'s quality_access" and emit :: "('s, 'e) packet_handler" +
  fixes good :: "'s \<Rightarrow> bool"
  assumes upd_good: "good s \<Longrightarrow> good (upd (add_quality c n) s)"
    and emit_good: "good s \<Longrightarrow> framed raw \<Longrightarrow> good (snd (emit g s raw))"
begin

lemma framer_drain_good: "good s \<Longrightarrow> good (snd (snd (framer_drain upd emit fr s w)))"
proof (induction up \<equiv> upd em \<equiv> emit fr s w rule: framer_drain.induct)
  case (1 fr s w)
  have emit: "good s'" if "emit (fr_generation fr) s (take 188 (fr_buffer fr)) = (r, s')"
    "\<not> length (fr_buffer fr) < 188" "fr_buffer fr ! 0 = 0x47" for r s'
    using emit_good [OF 1(4), of "take 188 (fr_buffer fr)" "fr_generation fr"] that
    by (simp add: framed_def ts_consts)
  show ?case
    using 1 emit
    by (subst framer_drain.simps) (auto simp: Let_def upd_good split: option.splits prod.splits)
qed

lemma framer_writes_good:
  "settled fr \<Longrightarrow> good s \<Longrightarrow> good (snd (snd (framer_writes upd emit fr chunks s w)))"
  by (simp add: framer_writes_drain framer_drain_good)

lemma framer_finish_good: "good s \<Longrightarrow> good (snd (framer_finish upd fr s))"
  by (simp add: framer_finish_def upd_good)

end

text \<open>Whatever happens, the framer is left without a packet it could still decide.\<close>

lemma framer_drain_settles: "settled (fst (snd (framer_drain upd emit fr s w)))"
proof (induction upd emit fr s w rule: framer_drain.induct)
  case (1 upd emit fr s w)
  then show ?case
    by (subst framer_drain.simps)
      (auto simp: Let_def discard_def framing_consts settled_def split: option.splits prod.splits)
qed

text \<open>
  The framing does not look at its owner: two owners that never fail see the same packets and the
  same counts, so a relation between them that both operations keep holds at the end.
\<close>

lemma framer_drain_sim:
  assumes upd: "\<And>c k s t. R s t \<Longrightarrow> R (upd (add_quality c k) s) (upd' (add_quality c k) t)"
    and emit: "\<And>g s t raw. R s t \<Longrightarrow> framed raw \<Longrightarrow>
      \<exists>n s' m t'. emit g s raw = ((n, None), s') \<and> emit' g t raw = ((m, None), t') \<and> R s' t'"
  shows "R s t \<Longrightarrow> \<exists>n s' m t' fr'. framer_drain upd emit fr s w = ((n, None), fr', s') \<and>
    framer_drain upd' emit' fr t v = ((m, None), fr', t') \<and> R s' t'"
proof (induction up \<equiv> upd em \<equiv> emit fr s w arbitrary: t v rule: framer_drain.induct)
  case (1 fr s w)
  note unfold = framer_drain.simps [of _ _ fr]
  consider "\<not> fr_lost fr" "length (fr_buffer fr) < 188"
    | "\<not> fr_lost fr" "188 \<le> length (fr_buffer fr)" "fr_buffer fr ! 0 \<noteq> 0x47"
    | "\<not> fr_lost fr" "188 \<le> length (fr_buffer fr)" "fr_buffer fr ! 0 = 0x47"
    | "fr_lost fr" "length (fr_buffer fr) < recovery_packet_bytes"
    | "fr_lost fr" "recovery_packet_bytes \<le> length (fr_buffer fr)" by linarith
  then show ?case
  proof cases
    case 2
    from 1(1) [OF _ _ _ upd [OF 1(4)]] 2 show ?thesis by (simp add: unfold)
  next
    case 3
    then have "framed (take 188 (fr_buffer fr))" by (simp add: framed_def ts_consts)
    from emit [OF 1(4) this] obtain n s' m t' where
      e: "emit (fr_generation fr) s (take 188 (fr_buffer fr)) = ((n, None), s')"
         "emit' (fr_generation fr) t (take 188 (fr_buffer fr)) = ((m, None), t')" "R s' t'" by metis
    from 1(2) [OF _ _ _ e(1) [symmetric] refl refl e(3)] 3 e show ?thesis by (simp add: unfold)
  next
    case 5
    show ?thesis
    proof (cases "find_recovery (fr_buffer fr)")
      case None
      with 5 upd [OF 1(4)] show ?thesis by (simp add: unfold Let_def)
    next
      case (Some position)
      from 1(3) [OF _ _ Some upd [OF upd [OF 1(4)]]] 5 Some show ?thesis by (simp add: unfold)
    qed
  qed (use 1(4) in \<open>simp_all add: unfold\<close>)
qed

section \<open>Every byte is accounted for\<close>

text \<open>An owner that records the packets and accepts every one of them.\<close>

definition recorder_upd :: "(bytes list \<times> quality_summary) quality_access" where
  "recorder_upd f s = (fst s, f (snd s))"

definition recorder_emit :: "(bytes list \<times> quality_summary, unit) packet_handler" where
  "recorder_emit g s raw = ((int (length raw), None), fst s @ [raw], snd s)"

lemma add_quality_fuse:
  "0 \<le> a \<Longrightarrow> 0 \<le> b \<Longrightarrow> add_quality c b (add_quality c a q) = add_quality c (a + b) q"
  by (cases c) (auto simp: add_quality_def Let_def)

interpretation recorder: packet_owner recorder_upd recorder_emit
  by unfold_locales (simp add: recorder_upd_def add_quality_fuse)

definition accounted :: "bytes \<Rightarrow> quality_summary \<Rightarrow> bytes list \<Rightarrow> bytes \<Rightarrow> quality_summary \<Rightarrow> bool" where
  "accounted buffer q new buffer' q' \<longleftrightarrow>
     list_all framed new \<and> subseq (concat new @ buffer') buffer \<and> quality_valid q' \<and>
     int (length buffer) = 188 * int (length new) + (q_sync_discarded_bytes q' - q_sync_discarded_bytes q) +
       int (length buffer') \<and>
     q_trailing_incomplete_bytes q' = q_trailing_incomplete_bytes q"

lemma accounted_discard:
  assumes "quality_valid q" "count \<le> length buffer" "c \<noteq> SyncDiscardedBytes" "c \<noteq> TrailingIncompleteBytes"
    and "q_sync_discarded_bytes q + int (length buffer) \<le> 2147483647"
    and "accounted (drop count buffer) (add_quality c n (add_quality SyncDiscardedBytes (int count) q)) new buffer' q'"
  shows "accounted buffer q new buffer' q'"
proof -
  define q1 where "q1 = add_quality SyncDiscardedBytes (int count) q"
  have v: "quality_valid q1" using assms(1) by (simp add: q1_def add_quality_valid)
  have b: "get_counter d q1 \<le> 2147483647" "get_counter d q \<le> 2147483647" for d
    using v assms(1) by (simp_all add: quality_valid_iff)
  have "q_sync_discarded_bytes (add_quality c n q1) = q_sync_discarded_bytes q + int count"
    "q_trailing_incomplete_bytes (add_quality c n q1) = q_trailing_incomplete_bytes q"
    using add_quality_get [OF b(1), of SyncDiscardedBytes c n]
      add_quality_get [OF b(1), of TrailingIncompleteBytes c n]
      add_quality_get [OF b(2), of SyncDiscardedBytes SyncDiscardedBytes "int count"]
      add_quality_get [OF b(2), of TrailingIncompleteBytes SyncDiscardedBytes "int count"] assms(2-5)
    by (auto simp: q1_def)
  moreover have "subseq (drop count buffer) buffer" by (rule suffix_imp_subseq [OF suffix_drop])
  ultimately show ?thesis
    using assms(2,6) by (auto simp: accounted_def q1_def [symmetric] of_nat_diff intro: subseq_order.order_trans)
qed

lemma accounted_stop: "quality_valid q \<Longrightarrow> accounted buffer q [] buffer q"
  by (simp add: accounted_def)

lemma accounted_emit:
  assumes "accounted (drop 188 buffer) q new buffer' q'" "188 \<le> length buffer" "buffer ! 0 = 0x47"
  shows "accounted buffer q (take 188 buffer # new) buffer' q'"
proof -
  have "subseq (take 188 buffer @ (concat new @ buffer')) (take 188 buffer @ drop 188 buffer)"
    using assms(1) by (intro list_emb_append_mono) (auto simp: accounted_def)
  then show ?thesis
    using assms by (auto simp: accounted_def framed_def ts_consts of_nat_diff)
qed

definition accounts ::
  "framer \<Rightarrow> bytes list \<times> quality_summary \<Rightarrow> int
    \<Rightarrow> (int \<times> unit option) \<times> framer \<times> bytes list \<times> quality_summary \<Rightarrow> bool" where
  "accounts fr s w out \<longleftrightarrow> (case out of ((n, e), fr', s') \<Rightarrow>
     e = None \<and> (\<exists>new. fst s' = fst s @ new \<and> n = w + 188 * int (length new) \<and>
       accounted (fr_buffer fr) (snd s) new (fr_buffer fr') (snd s')))"

lemma accounts_stop: "quality_valid (snd s) \<Longrightarrow> accounts fr s w ((w, None), fr, s)"
  by (auto simp: accounts_def intro: accounted_stop)

lemma accounts_emit:
  assumes "accounts (discard 188 fr) (fst s @ [take 188 (fr_buffer fr)], snd s) (w + 188) out"
    and "188 \<le> length (fr_buffer fr)" "fr_buffer fr ! 0 = 0x47"
  shows "accounts fr s w out"
proof -
  obtain n e fr' s' where out: "out = ((n, e), fr', s')" by (metis prod_cases3 surj_pair)
  with assms(1) obtain new where "e = None" "fst s' = (fst s @ [take 188 (fr_buffer fr)]) @ new"
    "n = w + 188 + 188 * int (length new)"
    "accounted (drop 188 (fr_buffer fr)) (snd s) new (fr_buffer fr') (snd s')"
    by (auto simp: accounts_def discard_def)
  with accounted_emit [OF this(4) assms(2,3)] show ?thesis
    unfolding out accounts_def by (auto intro!: exI [of _ "take 188 (fr_buffer fr) # new"])
qed

lemma accounts_discard:
  assumes "quality_valid (snd s)" "count \<le> length (fr_buffer fr)"
    and "c \<noteq> SyncDiscardedBytes" "c \<noteq> TrailingIncompleteBytes"
    and "q_sync_discarded_bytes (snd s) + int (length (fr_buffer fr)) \<le> 2147483647"
    and "fr_buffer fr1 = drop count (fr_buffer fr)"
    and "s1 = (fst s, add_quality c k (add_quality SyncDiscardedBytes (int count) (snd s)))"
    and "accounts fr1 s1 w out"
  shows "accounts fr s w out"
  using assms(8) accounted_discard [OF assms(1,2,3,4,5)]
  by (auto simp: accounts_def assms(6,7) split: prod.splits)

lemma accounts_rest:
  assumes "quality_valid (snd s)" "count \<le> length (fr_buffer fr)"
    and "q_sync_discarded_bytes (snd s) + int (length (fr_buffer fr)) \<le> 2147483647"
  shows "accounts fr s w ((w, None), discard count fr, recorder_upd (add_quality SyncDiscardedBytes (int count)) s)"
proof (rule accounts_discard [OF assms(1,2) _ _ assms(3)])
  show "accounts (discard count fr) (recorder_upd (add_quality SyncDiscardedBytes (int count)) s) w
      ((w, None), discard count fr, recorder_upd (add_quality SyncDiscardedBytes (int count)) s)"
    using assms(1) by (intro accounts_stop) (simp add: recorder_upd_def add_quality_valid)
  show "recorder_upd (add_quality SyncDiscardedBytes (int count)) s =
      (fst s, add_quality SyncLoss 0 (add_quality SyncDiscardedBytes (int count) (snd s)))"
    by (simp add: recorder_upd_def add_quality_def [of SyncLoss 0])
qed (simp_all add: discard_def)

text \<open>The bound on the discarded bytes, as the loop needs it: nothing discarded yet can saturate.\<close>

definition roomy :: "framer \<Rightarrow> quality_summary \<Rightarrow> bool" where
  "roomy fr q \<longleftrightarrow> quality_valid q \<and> q_sync_discarded_bytes q + int (length (fr_buffer fr)) \<le> 2147483647"

lemma roomy_discard:
  assumes "roomy fr q" "count \<le> length (fr_buffer fr)" "c \<noteq> SyncDiscardedBytes"
    and "fr_buffer fr1 = drop count (fr_buffer fr)"
  shows "roomy fr1 (add_quality c k (add_quality SyncDiscardedBytes (int count) q))"
proof -
  define q1 where "q1 = add_quality SyncDiscardedBytes (int count) q"
  have v: "quality_valid q" "quality_valid q1" using assms(1) by (simp_all add: roomy_def q1_def add_quality_valid)
  then have b: "get_counter d q \<le> 2147483647" "get_counter d q1 \<le> 2147483647" for d
    by (simp_all add: quality_valid_iff)
  have "q_sync_discarded_bytes (add_quality c k q1) = q_sync_discarded_bytes q + int count"
    using add_quality_get [OF b(2), of SyncDiscardedBytes c k] assms(1,2,3)
      add_quality_get [OF b(1), of SyncDiscardedBytes SyncDiscardedBytes "int count"]
    by (auto simp: q1_def roomy_def)
  then show ?thesis
    using assms v by (simp add: roomy_def q1_def [symmetric] add_quality_valid of_nat_diff)
qed

lemma framer_drain_accounts:
  "roomy fr (snd s) \<Longrightarrow> accounts fr s w (framer_drain recorder_upd recorder_emit fr s w)"
proof (induction up \<equiv> "recorder_upd" em \<equiv> "recorder_emit" fr s w rule: framer_drain.induct)
  case (1 fr s w)
  let ?b = "fr_buffer fr"
  have room: "quality_valid (snd s)" "q_sync_discarded_bytes (snd s) + int (length ?b) \<le> 2147483647"
    using 1(4) by (simp_all add: roomy_def)
  note unfold = framer_drain.simps [of recorder_upd recorder_emit fr s w]
  note drop_step = accounts_discard [OF room(1) _ _ _ room(2)]
  show ?case
  proof (cases "fr_lost fr")
    case False
    consider "length ?b < 188" | "188 \<le> length ?b" "?b ! 0 = 0x47" | "188 \<le> length ?b" "?b ! 0 \<noteq> 0x47"
      by linarith
    then show ?thesis
    proof cases
      case 1
      with False room show ?thesis by (subst unfold) (simp add: accounts_stop)
    next
      case 2
      have em: "recorder_emit (fr_generation fr) s (take 188 ?b) = ((188, None), fst s @ [take 188 ?b], snd s)"
        using 2 by (simp add: recorder_emit_def)
      have "roomy (discard 188 fr) (snd s)" using room 2 by (simp add: roomy_def discard_def of_nat_diff)
      then have "accounts (discard 188 fr) (fst s @ [take 188 ?b], snd s) (w + 188)
          (framer_drain recorder_upd recorder_emit (discard 188 fr) (fst s @ [take 188 ?b], snd s) (w + 188))"
        using 1(2) [OF _ _ _ em [symmetric] refl refl] \<open>\<not> fr_lost fr\<close> 2 by simp
      from accounts_emit [OF this 2] show ?thesis
        using \<open>\<not> fr_lost fr\<close> 2 by (subst unfold) (simp add: em del: less_numeral_extra)
    next
      case 3
      have "roomy (fr\<lparr>fr_lost := True\<rparr>) (snd (recorder_upd (add_quality SyncLoss 1) s))"
        using roomy_discard [OF 1(4), of 0 SyncLoss _ 1]
        by (simp add: recorder_upd_def add_quality_def [of SyncDiscardedBytes 0])
      then have acc: "accounts (fr\<lparr>fr_lost := True\<rparr>) (recorder_upd (add_quality SyncLoss 1) s) w
          (framer_drain recorder_upd recorder_emit (fr\<lparr>fr_lost := True\<rparr>) (recorder_upd (add_quality SyncLoss 1) s) w)"
        using 1(1) False 3 by simp
      have "accounts fr s w
          (framer_drain recorder_upd recorder_emit (fr\<lparr>fr_lost := True\<rparr>) (recorder_upd (add_quality SyncLoss 1) s) w)"
        by (rule drop_step [OF _ _ _ _ _ acc, of 0 SyncLoss 1])
          (simp_all add: recorder_upd_def add_quality_def [of SyncDiscardedBytes 0])
      then show ?thesis using False 3 by (subst unfold) simp
    qed
  next
    case True
    show ?thesis
    proof (cases "length ?b < 940")
      case short: True
      with True room show ?thesis by (simp add: recorder.drain_stuck(2) accounts_stop)
    next
      case False
      then have long: "940 \<le> length ?b" "recovery_packet_bytes \<le> length ?b" by (simp_all add: framing_consts)
      show ?thesis
      proof (cases "find_recovery ?b")
        case None
        have "accounts fr s w ((w, None), discard (length ?b - 939) fr,
            recorder_upd (add_quality SyncDiscardedBytes (int (length ?b - 939))) s)"
          using room by (intro accounts_rest) auto
        with True long None show ?thesis by (simp add: recorder.drain_search)
      next
        case (Some position)
        note bound = find_recovery_bound [OF Some long(2)]
        have "roomy ((discard position fr)\<lparr>fr_lost := False, fr_generation := fr_generation fr + 1\<rparr>)
            (snd (recorder_upd (add_quality SyncRecovered 1)
              (recorder_upd (add_quality SyncDiscardedBytes (int position)) s)))"
          using roomy_discard [OF 1(4), of position SyncRecovered] bound
          by (simp add: recorder_upd_def discard_def)
        note acc = 1(3) [OF _ _ Some this]
        have "accounts fr s w (framer_drain recorder_upd recorder_emit
            ((discard position fr)\<lparr>fr_lost := False, fr_generation := fr_generation fr + 1\<rparr>)
            (recorder_upd (add_quality SyncRecovered 1)
              (recorder_upd (add_quality SyncDiscardedBytes (int position)) s)) w)"
          by (rule drop_step [OF _ _ _ _ _ acc, of position SyncRecovered 1])
            (use True False bound in \<open>simp_all add: recorder_upd_def discard_def framing_consts\<close>)
        with True long Some show ?thesis by (simp add: recorder.drain_search)
      qed
    qed
  qed
qed

lemma new_framer_buffer [simp]: "fr_buffer new_framer = []"
  by (simp add: new_framer_def)

lemma settled_new: "settled new_framer"
  by (simp add: settled_def new_framer_def)

section \<open>Properties\<close>

text \<open>C8.
  Writing a stream in any chunks has the same result, the same packets and the same quality summary
  as writing it at once, through losses of synchronisation and the limited buffer.\<close>

theorem framer_chunk_invariance:
  "framer_writes recorder_upd recorder_emit new_framer chunks s w =
   framer_write recorder_upd recorder_emit new_framer (concat chunks) s w"
  by (simp add: recorder.framer_writes_drain recorder.framer_write_drain settled_new)

text \<open>C9.
  As long as the byte counters cannot saturate, every received byte is in exactly one place: in a
  delivered packet, in the count of discarded bytes or, after \<open>Finish\<close>, in the count of trailing
  bytes.  The delivered packets are 188 bytes long, start with the sync byte, and their bytes are
  received bytes in received order.\<close>

theorem framer_accounting:
  assumes "quality_valid q"
    and "q_sync_discarded_bytes q + q_trailing_incomplete_bytes q + int (length (concat chunks)) \<le> 2147483647"
    and "framer_writes recorder_upd recorder_emit new_framer chunks ([], q) 0 = ((n, e), fr, (raws, q1))"
    and "framer_finish recorder_upd fr (raws, q1) = (fr2, (raws2, q2))"
  shows "e = None \<and> n = 188 * int (length raws) \<and> raws2 = raws \<and> list_all framed raws \<and>
    subseq (concat raws) (concat chunks) \<and>
    int (length (concat chunks)) = n + (q_sync_discarded_bytes q2 - q_sync_discarded_bytes q) +
      (q_trailing_incomplete_bytes q2 - q_trailing_incomplete_bytes q)"
proof -
  let ?fr = "push (concat chunks) new_framer"
  have buffer: "fr_buffer ?fr = concat chunks" by (simp add: new_framer_def)
  have "0 \<le> get_counter TrailingIncompleteBytes q" using assms(1) by (simp only: quality_valid_iff)
  then have "roomy ?fr q" using assms(1,2) by (simp add: roomy_def new_framer_def)
  with framer_drain_accounts [of ?fr "([], q)" 0] assms(3) have
    out: "e = None" "n = 188 * int (length raws)" "accounted (concat chunks) q raws (fr_buffer fr) q1"
    by (auto simp: recorder.framer_writes_drain settled_new accounts_def)
  then have acc: "list_all framed raws" "subseq (concat raws @ fr_buffer fr) (concat chunks)" "quality_valid q1"
    "int (length (concat chunks)) = n + (q_sync_discarded_bytes q1 - q_sync_discarded_bytes q) +
       int (length (fr_buffer fr))"
    "q_trailing_incomplete_bytes q1 = q_trailing_incomplete_bytes q"
    by (auto simp: accounted_def)
  have "subseq (concat raws) (concat raws @ fr_buffer fr)" by (rule prefix_imp_subseq) simp
  then have sub: "subseq (concat raws) (concat chunks)"
    using acc(2) by (rule subseq_order.order_trans)
  have b: "get_counter c q1 \<le> 2147483647" "0 \<le> get_counter c q" "0 \<le> get_counter c q1" for c
    using acc(3) assms(1) by (simp_all add: quality_valid_iff)
  have q2: "raws2 = raws" "q2 = add_quality (if fr_lost fr then SyncDiscardedBytes else TrailingIncompleteBytes)
      (int (length (fr_buffer fr))) q1"
    using assms(4) by (auto simp: framer_finish_def recorder_upd_def)
  have "q_sync_discarded_bytes q2 + q_trailing_incomplete_bytes q2 =
      q_sync_discarded_bytes q1 + q_trailing_incomplete_bytes q1 + int (length (fr_buffer fr))"
    using assms(2) acc(4,5) out(2) b(2) [of SyncDiscardedBytes] b(2) [of TrailingIncompleteBytes] b(3) [of SyncDiscardedBytes]
      add_quality_get [OF b(1), of SyncDiscardedBytes SyncDiscardedBytes "int (length (fr_buffer fr))"]
      add_quality_get [OF b(1), of TrailingIncompleteBytes SyncDiscardedBytes "int (length (fr_buffer fr))"]
      add_quality_get [OF b(1), of SyncDiscardedBytes TrailingIncompleteBytes "int (length (fr_buffer fr))"]
      add_quality_get [OF b(1), of TrailingIncompleteBytes TrailingIncompleteBytes "int (length (fr_buffer fr))"]
    by (cases "fr_lost fr") (simp_all add: q2)
  with out acc sub q2(1) show ?thesis by simp
qed

theorem framer_accounting_witness:
  "\<exists>n q2. framer_writes recorder_upd recorder_emit new_framer [[1, 2], [3]] ([], zero_quality) 0 =
      ((n, None), \<lparr>fr_buffer = [1, 2, 3], fr_lost = False, fr_generation = 0\<rparr>, ([], zero_quality)) \<and>
    framer_finish recorder_upd \<lparr>fr_buffer = [1, 2, 3], fr_lost = False, fr_generation = 0\<rparr> ([], zero_quality) =
      (new_framer, ([], q2)) \<and>
    3 = n + q_sync_discarded_bytes q2 + q_trailing_incomplete_bytes q2"
proof -
  have writes: "framer_writes recorder_upd recorder_emit new_framer [[1, 2], [3]] ([], zero_quality) 0 =
      ((0, None), \<lparr>fr_buffer = [1, 2, 3], fr_lost = False, fr_generation = 0\<rparr>, ([], zero_quality))"
    by (subst recorder.framer_writes_drain [OF settled_new])
      (simp add: recorder.framer_drain_settled settled_def push_def new_framer_def)
  obtain q2 where fin: "framer_finish recorder_upd \<lparr>fr_buffer = [1, 2, 3], fr_lost = False, fr_generation = 0\<rparr> ([], zero_quality) =
      (new_framer, ([], q2))"
    by (simp add: framer_finish_def recorder_upd_def new_framer_def)
  have "quality_valid zero_quality" by (simp add: quality_valid_def quality_counters_def zero_quality_def)
  from framer_accounting [OF this _ writes fin] have "3 = 0 + q_sync_discarded_bytes q2 + q_trailing_incomplete_bytes q2"
    by (simp add: zero_quality_def)
  with writes fin show ?thesis by blast
qed

end
