(* ===== verification/ComponentFilter.thy ===== *)
theory ComponentFilter
  imports Framing RecordingPsi PmtRewrite SectionTransport
begin

text \<open>
  \<open>tsComponentFilter\<close> of \<open>internal/app/recording/ts_filter.go\<close>: the stage between the received
  packets and the partial file.  It leaves out captions or data broadcasting according to the program
  map table, buffers packets while the table is not known or is being updated, and falls back to
  writing everything when the selection cannot be trusted.  The file is a parameter: its state and its
  \<open>Write\<close>, as \<open>PartialFile\<close> gives them to the filter.
\<close>

section \<open>State\<close>

definition max_psi_buffer :: nat where
  "max_psi_buffer = 1024 * 1024"

datatype 'x write_error = WriteCount | ShortWrite | FileError 'x | PacketizeError ts_error

type_synonym ('f, 'x) file_write = "'f \<Rightarrow> bytes \<Rightarrow> (int \<times> 'x option) \<times> 'f"

text \<open>
  The framer of the Go struct stands beside the rest of the filter (\<open>recording_filter\<close> below): the
  packet handler reads its generation and changes nothing of it.
\<close>

record 'f component_filter =
  cf_file :: 'f
  cf_keep_captions :: bool
  cf_keep_data :: bool
  cf_initialized :: bool
  cf_pmt_known :: bool
  cf_raw :: bool
  cf_finished :: bool
  cf_pmt_pid :: u16
  cf_pmt_continuity :: byte
  cf_dropped :: "u16 set"
  cf_generation :: u64
  cf_quality :: quality_summary
  cf_tracker :: quality_tracker
  cf_pat :: recording_psi
  cf_pmt :: recording_psi
  cf_discovery :: bytes
  cf_first_pmt :: int
  cf_pending :: bytes

definition new_component_filter :: "'f \<Rightarrow> bool \<Rightarrow> bool \<Rightarrow> quality_summary \<Rightarrow> 'f component_filter" where
  "new_component_filter file keep_captions keep_data initial =
    \<lparr>cf_file = file, cf_keep_captions = keep_captions, cf_keep_data = keep_data, cf_initialized = False,
     cf_pmt_known = False, cf_raw = q_selection_unverified initial, cf_finished = False, cf_pmt_pid = 0,
     cf_pmt_continuity = 0, cf_dropped = {}, cf_generation = 0, cf_quality = initial,
     cf_tracker = new_quality_tracker, cf_pat = new_recording_psi, cf_pmt = new_recording_psi,
     cf_discovery = [], cf_first_pmt = -1, cf_pending = []\<rparr>"

definition selection_required :: "'f component_filter \<Rightarrow> bool" where
  "selection_required flt \<longleftrightarrow> \<not> cf_keep_captions flt \<or> \<not> cf_keep_data flt"

definition modify_quality :: "(quality_summary \<Rightarrow> quality_summary) \<Rightarrow> 'f component_filter \<Rightarrow> 'f component_filter" where
  "modify_quality f flt = flt\<lparr>cf_quality := f (cf_quality flt)\<rparr>"

definition issue_quality :: "psi_issue \<Rightarrow> quality_summary \<Rightarrow> quality_summary" where
  "issue_quality issue q =
    (case issue of
       PsiOK \<Rightarrow> q
     | PsiContinuity \<Rightarrow> add_quality PSIContinuity 1 q
     | PsiCRC \<Rightarrow> add_quality PSICRC 1 q
     | PsiStructure \<Rightarrow> add_quality PSIStructure 1 q
     | PsiLimit \<Rightarrow> add_quality PSILimit 1 q)"

definition filter_issue :: "psi_issue \<Rightarrow> 'f component_filter \<Rightarrow> 'f component_filter" where
  "filter_issue issue flt = modify_quality (issue_quality issue) flt"

definition unfinished_psi :: "'f component_filter \<Rightarrow> 'f component_filter" where
  "unfinished_psi flt =
    (let flt = (if psi_incomplete (cf_pat flt) then modify_quality (add_quality UnfinishedPSI 1) flt else flt)
     in if psi_incomplete (cf_pmt flt) then modify_quality (add_quality UnfinishedPSI 1) flt else flt)"

definition filter_reset_psi :: "'f component_filter \<Rightarrow> 'f component_filter" where
  "filter_reset_psi flt =
    (unfinished_psi flt)\<lparr>cf_pat := reset_psi, cf_pmt := reset_psi, cf_tracker := reset_tracker (cf_tracker flt)\<rparr>"

section \<open>Writing\<close>

text \<open>An outcome of a write: the bytes written and the error, with the state after it.\<close>

type_synonym ('x, 's) written = "(int \<times> 'x write_error option) \<times> 's"

text \<open>A write followed by more work when it did not fail; the counts add up.\<close>

definition seq_write :: "('x, 's) written \<Rightarrow> ('s \<Rightarrow> ('x, 's) written) \<Rightarrow> ('x, 's) written" where
  "seq_write w k =
    (case w of
       ((n, Some e), s) \<Rightarrow> ((n, Some e), s)
     | ((n, None), s) \<Rightarrow> (case k s of ((m, e), s') \<Rightarrow> ((n + m, e), s')))"

definition no_write :: "'s \<Rightarrow> ('x, 's) written" where
  "no_write s = ((0, None), s)"

definition write_packet ::
  "('f, 'x) file_write \<Rightarrow> bytes \<Rightarrow> 'f component_filter \<Rightarrow> ('x, 'f component_filter) written" where
  "write_packet wr raw flt =
    (case wr (cf_file flt) raw of
       ((n, e), file) \<Rightarrow>
         let flt = flt\<lparr>cf_file := file\<rparr>
         in if n < 0 \<or> n > int (length raw) then ((0, Some WriteCount), flt)
            else (case e of
                    Some x \<Rightarrow> ((n, Some (FileError x)), flt)
                  | None \<Rightarrow> if n \<noteq> int (length raw) then ((n, Some ShortWrite), flt) else ((n, None), flt)))"

primrec write_packet_list ::
  "('f, 'x) file_write \<Rightarrow> bytes list \<Rightarrow> 'f component_filter \<Rightarrow> ('x, 'f component_filter) written" where
  "write_packet_list wr [] flt = no_write flt"
| "write_packet_list wr (raw # raws) flt = seq_write (write_packet wr raw flt) (write_packet_list wr raws)"

definition write_selected_with ::
  "('f, 'x) file_write \<Rightarrow> bytes \<Rightarrow> u16 set \<Rightarrow> 'f component_filter \<Rightarrow> ('x, 'f component_filter) written" where
  "write_selected_with wr raw dropped flt = (if PID raw \<in> dropped then no_write flt else write_packet wr raw flt)"

text \<open>The first fallback marks the recording; every fallback writes and clears both buffers.\<close>

definition mark_raw :: "'f component_filter \<Rightarrow> 'f component_filter" where
  "mark_raw flt =
    (if \<not> cf_raw flt
     then modify_quality (\<lambda>q. q\<lparr>q_selection_unverified := True, q_fallback := 1, q_status := QualityDegraded\<rparr>)
            (flt\<lparr>cf_raw := True\<rparr>)
     else flt)"

definition fallback :: "('f, 'x) file_write \<Rightarrow> 'f component_filter \<Rightarrow> ('x, 'f component_filter) written" where
  "fallback wr flt =
    (case write_packet_list wr (blocks 188 (cf_discovery flt) @ blocks 188 (cf_pending flt)) (mark_raw flt) of
       (r, flt') \<Rightarrow> (r, flt'\<lparr>cf_discovery := [], cf_pending := []\<rparr>))"

text \<open>
  The buffered packets are written again with the rewritten table in place of the old one, which
  starts at index \<open>first\<close>; before it, and if \<open>first\<close> is -1, nothing is inserted.
\<close>

primrec replay_from ::
  "('f, 'x) file_write \<Rightarrow> bytes list \<Rightarrow> nat \<Rightarrow> int \<Rightarrow> bytes list \<Rightarrow> u16 set \<Rightarrow> 'f component_filter
    \<Rightarrow> ('x, 'f component_filter) written" where
  "replay_from wr [] index first packets dropped flt = no_write flt"
| "replay_from wr (raw # raws) index first packets dropped flt =
    seq_write
      (if int index = first
       then seq_write (write_packet_list wr packets flt)
              (\<lambda>flt. no_write (flt\<lparr>cf_pmt_continuity := (cf_pmt_continuity flt + of_nat (length packets)) AND 15\<rparr>))
       else no_write flt)
      (\<lambda>flt. seq_write
        (if int index \<ge> first \<and> PID raw = cf_pmt_pid flt then no_write flt
         else write_selected_with wr raw dropped flt)
        (replay_from wr raws (index + 1) first packets dropped))"

definition replay ::
  "('f, 'x) file_write \<Rightarrow> bytes \<Rightarrow> int \<Rightarrow> bytes \<Rightarrow> u16 set \<Rightarrow> 'f component_filter \<Rightarrow> ('x, 'f component_filter) written" where
  "replay wr data first sec dropped flt =
    (case packetize_section (cf_pmt_pid flt) (cf_pmt_continuity flt) sec of
       Inl e \<Rightarrow> ((0, Some (PacketizeError e)), flt)
     | Inr packets \<Rightarrow> replay_from wr (blocks 188 data) 0 first packets dropped flt)"

section \<open>Tables\<close>

definition use_tracker ::
  "(quality_tracker \<times> quality_summary \<Rightarrow> quality_tracker \<times> quality_summary) \<Rightarrow> 'f component_filter \<Rightarrow> 'f component_filter" where
  "use_tracker f flt =
    (case f (cf_tracker flt, cf_quality flt) of
       (tracker, q) \<Rightarrow> flt\<lparr>cf_tracker := tracker, cf_quality := q\<rparr>)"

definition configure_pmt :: "pmt \<Rightarrow> 'f component_filter \<Rightarrow> 'f component_filter" where
  "configure_pmt t flt =
    use_tracker (configure (cf_pmt_pid flt) (pmt_pcr_pid t) (map es_pid (pmt_streams t))) flt"

definition feed_pat :: "bytes \<Rightarrow> packet \<Rightarrow> 'f component_filter \<Rightarrow> psi_outcome \<times> 'f component_filter" where
  "feed_pat raw p flt = (case psi_feed raw p (cf_pat flt) of (out, psi) \<Rightarrow> (out, flt\<lparr>cf_pat := psi\<rparr>))"

definition feed_pmt :: "bytes \<Rightarrow> packet \<Rightarrow> 'f component_filter \<Rightarrow> psi_outcome \<times> 'f component_filter" where
  "feed_pmt raw p flt = (case psi_feed raw p (cf_pmt flt) of (out, psi) \<Rightarrow> (out, flt\<lparr>cf_pmt := psi\<rparr>))"

text \<open>A section of the PAT: a changed PMT PID resets the PMT collector.\<close>

definition adopt_pat :: "bool \<Rightarrow> bytes \<Rightarrow> 'f component_filter \<Rightarrow> 'f component_filter" where
  "adopt_pat discovering sec flt =
    (case parse_pat sec of
       Inl e \<Rightarrow> filter_issue PsiStructure flt
     | Inr pat \<Rightarrow>
         let flt = (if \<not> cf_pmt_known flt \<or> cf_pmt_pid flt \<noteq> pat_pmt_pid pat
                    then (let flt = flt\<lparr>cf_pmt := reset_psi\<rparr>
                          in if discovering then flt\<lparr>cf_first_pmt := -1\<rparr> else flt)
                    else flt);
             flt = flt\<lparr>cf_pmt_pid := pat_pmt_pid pat, cf_pmt_known := True\<rparr>
         in use_tracker (prioritize (pat_pmt_pid pat)) flt)"

definition observe_pmt :: "bytes \<Rightarrow> 'f component_filter \<Rightarrow> 'f component_filter" where
  "observe_pmt sec flt =
    (if pmt_issue sec \<noteq> PsiOK then filter_issue (pmt_issue sec) flt
     else (case parse_pmt sec of
             Inl e \<Rightarrow> filter_issue PsiStructure flt
           | Inr t \<Rightarrow> configure_pmt t flt))"

definition observe_tables :: "bytes \<Rightarrow> packet \<Rightarrow> 'f component_filter \<Rightarrow> 'f component_filter" where
  "observe_tables raw p flt =
    (if pk_pid p = 0
     then (case feed_pat raw p flt of
             ((sections, duplicate, issue), flt) \<Rightarrow> fold (adopt_pat False) sections (filter_issue issue flt))
     else if cf_pmt_known flt \<and> pk_pid p = cf_pmt_pid flt
     then (case feed_pmt raw p flt of
             ((sections, duplicate, issue), flt) \<Rightarrow> fold observe_pmt sections (filter_issue issue flt))
     else flt)"

section \<open>Discovery of the table\<close>

text \<open>The table was accepted: the buffered packets are written, from here on selected.\<close>

definition start_selection ::
  "('f, 'x) file_write \<Rightarrow> bytes \<Rightarrow> pmt \<Rightarrow> bytes \<Rightarrow> u16 set \<Rightarrow> 'f component_filter \<Rightarrow> ('x, 'f component_filter) written" where
  "start_selection wr raw t rewritten dropped flt =
    (let flt = (configure_pmt t flt)\<lparr>cf_dropped := dropped, cf_initialized := True, cf_pmt_continuity := raw ! 3 AND 15\<rparr>;
         flt = (if cf_first_pmt flt \<ge> 0
                then flt\<lparr>cf_pmt_continuity := cf_discovery flt ! (nat (cf_first_pmt flt) * 188 + 3) AND 15\<rparr>
                else flt)
     in case replay wr (cf_discovery flt) (cf_first_pmt flt) rewritten dropped flt of
          (r, flt) \<Rightarrow> (r, flt\<lparr>cf_discovery := []\<rparr>))"

definition discover_section ::
  "('f, 'x) file_write \<Rightarrow> bytes \<Rightarrow> bytes \<Rightarrow> 'f component_filter \<Rightarrow> ('x, 'f component_filter) written" where
  "discover_section wr raw sec flt =
    (if pmt_issue sec \<noteq> PsiOK
     then (let flt = filter_issue (pmt_issue sec) flt
           in if pmt_issue sec = PsiLimit then fallback wr flt else no_write flt)
     else (case parse_pmt sec of
             Inl e \<Rightarrow> no_write (filter_issue PsiStructure flt)
           | Inr t \<Rightarrow>
               (case rewrite_pmt sec (cf_keep_captions flt) (cf_keep_data flt) of
                  Inl e \<Rightarrow> no_write (filter_issue PsiStructure flt)
                | Inr (rewritten, dropped) \<Rightarrow> start_selection wr raw t rewritten dropped flt)))"

text \<open>A packet of the PMT, collected: its issue, the index where its section starts, its sections.\<close>

definition discover_collected ::
  "('f, 'x) file_write \<Rightarrow> bytes \<Rightarrow> packet \<Rightarrow> psi_outcome \<Rightarrow> 'f component_filter \<Rightarrow> ('x, 'f component_filter) written" where
  "discover_collected wr raw p out flt =
    (case out of (sections, duplicate, issue) \<Rightarrow>
       if issue = PsiLimit then fallback wr flt
       else if issue \<noteq> PsiOK then no_write (flt\<lparr>cf_first_pmt := -1\<rparr>)
       else let flt = (if pk_payload_unit_start p \<and> \<not> duplicate
                       then flt\<lparr>cf_first_pmt := int (length (cf_discovery flt) div 188) - 1\<rparr> else flt)
            in if length sections = 0 then no_write flt
               else discover_section wr raw (last sections) flt)"

definition discover_pmt ::
  "('f, 'x) file_write \<Rightarrow> bytes \<Rightarrow> packet \<Rightarrow> 'f component_filter \<Rightarrow> ('x, 'f component_filter) written" where
  "discover_pmt wr raw p flt =
    (if \<not> cf_pmt_known flt \<or> pk_pid p \<noteq> cf_pmt_pid flt then no_write flt
     else (case feed_pmt raw p flt of
             (out, flt) \<Rightarrow> discover_collected wr raw p out (filter_issue (snd (snd out)) flt)))"

definition discover ::
  "('f, 'x) file_write \<Rightarrow> bytes \<Rightarrow> packet \<Rightarrow> 'f component_filter \<Rightarrow> ('x, 'f component_filter) written" where
  "discover wr raw p flt =
    (if pk_pid p = 0
     then (case feed_pat raw p flt of
             ((sections, duplicate, issue), flt) \<Rightarrow>
               let flt = filter_issue issue flt
               in if issue = PsiLimit then fallback wr flt
                  else discover_pmt wr raw p (fold (adopt_pat True) sections flt))
     else discover_pmt wr raw p flt)"

section \<open>Selection\<close>

text \<open>A fallback, and then the current packet as it is.\<close>

definition fallback_then_write ::
  "('f, 'x) file_write \<Rightarrow> bytes \<Rightarrow> 'f component_filter \<Rightarrow> ('x, 'f component_filter) written" where
  "fallback_then_write wr raw flt = seq_write (fallback wr flt) (write_packet wr raw)"

definition update_section ::
  "('f, 'x) file_write \<Rightarrow> bytes \<Rightarrow> 'f component_filter \<Rightarrow> ('x, 'f component_filter) written" where
  "update_section wr sec flt =
    (if pmt_issue sec \<noteq> PsiOK then fallback wr (filter_issue (pmt_issue sec) flt)
     else (case parse_pmt sec of
             Inl e \<Rightarrow> fallback wr (filter_issue PsiStructure flt)
           | Inr t \<Rightarrow>
               (case rewrite_pmt sec (cf_keep_captions flt) (cf_keep_data flt) of
                  Inl e \<Rightarrow> fallback wr (filter_issue PsiStructure flt)
                | Inr (rewritten, dropped) \<Rightarrow>
                    let flt = configure_pmt t flt
                    in case replay wr (cf_pending flt) 0 rewritten dropped flt of
                         (r, flt) \<Rightarrow> (r, flt\<lparr>cf_pending := [], cf_dropped := dropped\<rparr>))))"

definition update_pmt ::
  "('f, 'x) file_write \<Rightarrow> bytes \<Rightarrow> packet \<Rightarrow> 'f component_filter \<Rightarrow> ('x, 'f component_filter) written" where
  "update_pmt wr raw p flt =
    (case feed_pmt raw p flt of
       ((sections, duplicate, issue), flt) \<Rightarrow>
         let flt = filter_issue issue flt
         in if issue \<noteq> PsiOK then fallback wr flt
            else if length sections = 0 then no_write flt
            else update_section wr (last sections) flt)"

definition write_initialized ::
  "('f, 'x) file_write \<Rightarrow> bytes \<Rightarrow> packet \<Rightarrow> 'f component_filter \<Rightarrow> ('x, 'f component_filter) written" where
  "write_initialized wr raw p flt =
    (if length (cf_pending flt) = 0 \<and> pk_pid p \<noteq> cf_pmt_pid flt
     then write_selected_with wr raw (cf_dropped flt) flt
     else if length (cf_pending flt) = 0 \<and> \<not> pk_has_payload p
     then write_packet wr raw (snd (feed_pmt raw p flt))
     else if pk_pid p = cf_pmt_pid flt \<and> rp_known (cf_pmt flt) \<and>
             pk_continuity_counter p = rp_cc (cf_pmt flt) \<and> \<not> pk_discontinuity p \<and>
             raw = rp_previous (cf_pmt flt)
     then no_write flt
     else if length (cf_pending flt) = 0 \<and> \<not> pk_payload_unit_start p
     then fallback_then_write wr raw (filter_issue PsiStructure flt)
     else if length (cf_pending flt) + 188 > max_psi_buffer
     then fallback_then_write wr raw (filter_issue PsiLimit flt)
     else let flt = flt\<lparr>cf_pending := cf_pending flt @ raw\<rparr>
          in if pk_pid p \<noteq> cf_pmt_pid flt then no_write flt else update_pmt wr raw p flt)"

text \<open>During selection a PAT must keep naming the same PMT; the last section decides nothing alone.\<close>

fun check_pat :: "bytes list \<Rightarrow> bool \<Rightarrow> 'f component_filter \<Rightarrow> bool \<times> 'f component_filter" where
  "check_pat [] invalid flt = (invalid, flt)"
| "check_pat (sec # sections) invalid flt =
    (case parse_pat sec of
       Inl e \<Rightarrow> (True, filter_issue PsiStructure flt)
     | Inr pat \<Rightarrow> check_pat sections (invalid \<or> pat_pmt_pid pat \<noteq> cf_pmt_pid flt) flt)"

definition process_selected ::
  "('f, 'x) file_write \<Rightarrow> bytes \<Rightarrow> packet \<Rightarrow> 'f component_filter \<Rightarrow> ('x, 'f component_filter) written" where
  "process_selected wr raw p flt =
    (if pk_pid p = 0
     then (case feed_pat raw p flt of
             ((sections, duplicate, issue), flt) \<Rightarrow>
               (case check_pat sections (issue \<noteq> PsiOK) (filter_issue issue flt) of
                  (invalid, flt) \<Rightarrow>
                    if invalid then fallback_then_write wr raw flt else write_initialized wr raw p flt))
     else write_initialized wr raw p flt)"

section \<open>The packet handler\<close>

definition control_pid :: "u16 \<Rightarrow> 'f component_filter \<Rightarrow> bool" where
  "control_pid pid flt \<longleftrightarrow> pid = 0 \<or> cf_pmt_known flt \<and> pid = cf_pmt_pid flt"

definition reset_control :: "u16 \<Rightarrow> 'f component_filter \<Rightarrow> 'f component_filter" where
  "reset_control pid flt = (if pid = 0 then flt\<lparr>cf_pat := reset_psi\<rparr> else flt\<lparr>cf_pmt := reset_psi\<rparr>)"

definition process_malformed ::
  "('f, 'x) file_write \<Rightarrow> bytes \<Rightarrow> 'f component_filter \<Rightarrow> ('x, 'f component_filter) written" where
  "process_malformed wr raw flt =
    (let flt = modify_quality (add_quality MalformedPacket 1) flt; pid = PID raw
     in if control_pid pid flt
        then (let flt = reset_control pid flt
              in if cf_initialized flt \<and> selection_required flt \<and> \<not> cf_raw flt then fallback wr flt else no_write flt)
        else no_write flt)"

text \<open>Packets while everything is written as it comes.\<close>

definition process_raw ::
  "('f, 'x) file_write \<Rightarrow> bytes \<Rightarrow> bool \<Rightarrow> packet \<Rightarrow> 'f component_filter \<Rightarrow> ('x, 'f component_filter) written" where
  "process_raw wr raw tei p flt =
    write_packet wr raw
      (if tei \<and> control_pid (pk_pid p) flt then reset_control (pk_pid p) (filter_issue PsiStructure flt)
       else observe_tables raw p flt)"

definition process_discovery ::
  "('f, 'x) file_write \<Rightarrow> bytes \<Rightarrow> packet \<Rightarrow> 'f component_filter \<Rightarrow> ('x, 'f component_filter) written" where
  "process_discovery wr raw p flt =
    (if length (cf_discovery flt) + 188 > max_psi_buffer then fallback_then_write wr raw flt
     else discover wr raw p (flt\<lparr>cf_discovery := cf_discovery flt @ raw\<rparr>))"

definition process_parsed ::
  "('f, 'x) file_write \<Rightarrow> bytes \<Rightarrow> bool \<Rightarrow> packet \<Rightarrow> 'f component_filter \<Rightarrow> ('x, 'f component_filter) written" where
  "process_parsed wr raw tei p flt =
    (if cf_raw flt then process_raw wr raw tei p flt
     else if tei \<and> control_pid (pk_pid p) flt
     then (let flt = reset_control (pk_pid p) (filter_issue PsiStructure flt)
           in if selection_required flt
              then (if cf_initialized flt then fallback wr flt else no_write flt)
              else write_packet wr raw flt)
     else if \<not> selection_required flt then write_packet wr raw (observe_tables raw p flt)
     else if \<not> cf_initialized flt then process_discovery wr raw p flt
     else process_selected wr raw p flt)"

definition note_parsed :: "bytes \<Rightarrow> bool \<Rightarrow> packet \<Rightarrow> 'f component_filter \<Rightarrow> 'f component_filter" where
  "note_parsed raw tei p flt =
    (let flt = (if q_status (cf_quality flt) = QualityUnknown
                then modify_quality (\<lambda>q. q\<lparr>q_status := QualityNoIssuesObserved\<rparr>) flt else flt);
         flt = (if tei then modify_quality (add_quality TEIPackets 1) flt else flt)
     in use_tracker (observe raw p) flt)"

definition process_body ::
  "('f, 'x) file_write \<Rightarrow> bytes \<Rightarrow> 'f component_filter \<Rightarrow> ('x, 'f component_filter) written" where
  "process_body wr raw flt =
    (case parse_recording_packet raw of
       (Inl e, tei) \<Rightarrow> process_malformed wr raw flt
     | (Inr p, tei) \<Rightarrow> process_parsed wr raw tei p (note_parsed raw tei p flt))"

text \<open>A new generation of the framer means lost packets: open sections are dropped, an update is given up.\<close>

definition adopt_generation ::
  "('f, 'x) file_write \<Rightarrow> u64 \<Rightarrow> 'f component_filter \<Rightarrow> ('x, 'f component_filter) written" where
  "adopt_generation wr generation flt =
    (if cf_generation flt \<noteq> generation
     then (let flt = filter_reset_psi (flt\<lparr>cf_generation := generation\<rparr>)
           in if length (cf_pending flt) > 0 then fallback wr flt else no_write flt)
     else no_write flt)"

definition process_packet ::
  "('f, 'x) file_write \<Rightarrow> u64 \<Rightarrow> 'f component_filter \<Rightarrow> bytes \<Rightarrow> ('x, 'f component_filter) written" where
  "process_packet wr generation flt raw = seq_write (adopt_generation wr generation flt) (process_body wr raw)"

section \<open>The filter with its framer\<close>

record 'f recording_filter =
  rf_framer :: framer
  rf_filter :: "'f component_filter"

definition new_recording_filter :: "'f \<Rightarrow> bool \<Rightarrow> bool \<Rightarrow> quality_summary \<Rightarrow> 'f recording_filter" where
  "new_recording_filter file keep_captions keep_data initial =
    \<lparr>rf_framer = new_framer, rf_filter = new_component_filter file keep_captions keep_data initial\<rparr>"

definition filter_write ::
  "('f, 'x) file_write \<Rightarrow> bytes \<Rightarrow> 'f recording_filter \<Rightarrow> ('x, 'f recording_filter) written" where
  "filter_write wr data rf =
    (case framer_write modify_quality (process_packet wr) (rf_framer rf) data (rf_filter rf) 0 of
       (r, fr, flt) \<Rightarrow> (r, \<lparr>rf_framer = fr, rf_filter = flt\<rparr>))"

definition filter_finish ::
  "('f, 'x) file_write \<Rightarrow> bool \<Rightarrow> 'f recording_filter \<Rightarrow> ('x, 'f recording_filter) written" where
  "filter_finish wr allow_buffered_write rf =
    (if cf_finished (rf_filter rf) then no_write rf
     else (case framer_finish modify_quality (rf_framer rf) ((rf_filter rf)\<lparr>cf_finished := True\<rparr>) of
             (fr, flt) \<Rightarrow>
               let flt = unfinished_psi flt
               in if selection_required flt \<and> (\<not> cf_initialized flt \<or> length (cf_pending flt) > 0) \<and> allow_buffered_write
                  then (case fallback wr flt of (r, flt) \<Rightarrow> (r, \<lparr>rf_framer = fr, rf_filter = flt\<rparr>))
                  else no_write \<lparr>rf_framer = fr, rf_filter = flt\<lparr>cf_discovery := [], cf_pending := []\<rparr>\<rparr>))"

section \<open>What each operation touches\<close>

lemma seq_write_snd:
  "snd (seq_write w k) = (if snd (fst w) = None then snd (k (snd w)) else snd w)"
  by (auto simp: seq_write_def split: prod.splits option.splits)

lemma no_write_simps [simp]: "fst (no_write s) = (0, None)" "snd (no_write s) = s"
  by (simp_all add: no_write_def)

text \<open>Writing changes the file and, when a table is inserted, its counter; nothing else.\<close>

definition io_only :: "'f component_filter \<Rightarrow> 'f component_filter \<Rightarrow> bool" where
  "io_only flt flt' \<longleftrightarrow>
     flt' = flt\<lparr>cf_file := cf_file flt', cf_pmt_continuity := cf_pmt_continuity flt'\<rparr>"

lemma io_only_refl [simp]: "io_only flt flt"
  by (simp add: io_only_def)

lemma io_only_trans: "io_only a b \<Longrightarrow> io_only b c \<Longrightarrow> io_only a c"
  by (cases a; cases b; cases c) (simp add: io_only_def)

lemma io_only_update [simp]:
  "io_only flt (flt\<lparr>cf_file := f\<rparr>)" "io_only flt (flt\<lparr>cf_pmt_continuity := c\<rparr>)"
  by (simp_all add: io_only_def)

lemma io_only_seq: "io_only flt (snd w) \<Longrightarrow> (\<And>t. io_only t (snd (k t))) \<Longrightarrow> io_only flt (snd (seq_write w k))"
  by (auto simp: seq_write_snd intro: io_only_trans)

lemma write_packet_io [simp]: "io_only flt (snd (write_packet wr raw flt))"
  by (auto simp: write_packet_def Let_def split: prod.splits option.splits)

lemma write_packet_list_io [simp]: "io_only flt (snd (write_packet_list wr raws flt))"
  by (induction raws arbitrary: flt) (simp_all add: io_only_seq)

lemma write_selected_with_io [simp]: "io_only flt (snd (write_selected_with wr raw dropped flt))"
  by (simp add: write_selected_with_def)

lemma replay_from_io [simp]: "io_only flt (snd (replay_from wr raws index first packets dropped flt))"
proof (induction raws arbitrary: index flt)
  case (Cons raw raws)
  show ?case
    by (simp only: replay_from.simps) (intro io_only_seq; simp add: io_only_seq Cons.IH)
qed simp

lemma replay_io [simp]: "io_only flt (snd (replay wr data first sec dropped flt))"
  by (simp add: replay_def split: sum.split)

lemma io_only_fields:
  assumes "io_only flt flt'"
  shows "cf_quality flt' = cf_quality flt" "cf_tracker flt' = cf_tracker flt" "cf_pat flt' = cf_pat flt"
    "cf_pmt flt' = cf_pmt flt" "cf_discovery flt' = cf_discovery flt" "cf_pending flt' = cf_pending flt"
    "cf_raw flt' = cf_raw flt" "cf_initialized flt' = cf_initialized flt" "cf_first_pmt flt' = cf_first_pmt flt"
    "cf_keep_captions flt' = cf_keep_captions flt" "cf_keep_data flt' = cf_keep_data flt"
    "cf_pmt_known flt' = cf_pmt_known flt" "cf_pmt_pid flt' = cf_pmt_pid flt" "cf_dropped flt' = cf_dropped flt"
    "cf_generation flt' = cf_generation flt" "cf_finished flt' = cf_finished flt"
  using assms by (cases flt; cases flt'; simp add: io_only_def)+

section \<open>The invariant of the filter\<close>

definition packet_buffer :: "bytes \<Rightarrow> bool" where
  "packet_buffer data \<longleftrightarrow> (\<exists>raws. data = concat raws \<and> list_all framed raws) \<and> length data \<le> max_psi_buffer"

definition filter_ok :: "'f component_filter \<Rightarrow> bool" where
  "filter_ok flt \<longleftrightarrow>
     quality_valid (cf_quality flt) \<and> bounded_tracker (cf_tracker flt) \<and>
     psi_wf (cf_pat flt) \<and> psi_wf (cf_pmt flt) \<and> cf_pmt_pid flt \<le> 0x1ffe \<and>
     packet_buffer (cf_discovery flt) \<and> packet_buffer (cf_pending flt) \<and>
     (cf_raw flt \<longrightarrow> cf_discovery flt = [] \<and> cf_pending flt = [] \<and> q_selection_unverified (cf_quality flt)) \<and>
     (cf_initialized flt \<longrightarrow> cf_discovery flt = []) \<and> (cf_pending flt \<noteq> [] \<longrightarrow> cf_initialized flt) \<and>
     (\<not> cf_initialized flt \<and> \<not> cf_raw flt \<and> \<not> cf_finished flt \<longrightarrow> cf_first_pmt flt * 188 < int (length (cf_discovery flt)) \<or> cf_first_pmt flt < 0)"

lemma packet_buffer_Nil [simp]: "packet_buffer []"
  by (auto simp: packet_buffer_def intro!: exI [of _ "[]"])

lemma packet_buffer_append:
  assumes "packet_buffer data" "framed raw" "length data + 188 \<le> max_psi_buffer"
  shows "packet_buffer (data @ raw)"
proof -
  from assms(1) obtain raws where "data = concat raws" "list_all framed raws" by (auto simp: packet_buffer_def)
  with assms show ?thesis
    by (auto simp: packet_buffer_def framed_def ts_consts intro!: exI [of _ "raws @ [raw]"])
qed

lemma packet_buffer_blocks:
  assumes "packet_buffer data"
  shows "concat (blocks 188 data) = data" "list_all framed (blocks 188 data)"
proof -
  from assms obtain raws where raws: "data = concat raws" "list_all framed raws" by (auto simp: packet_buffer_def)
  then have "blocks 188 data = raws"
    by (auto simp: framed_def ts_consts list_all_iff intro!: blocks_concat)
  then show "concat (blocks 188 data) = data" "list_all framed (blocks 188 data)" using raws by simp_all
qed

lemma filter_ok_frame [simp]:
  "filter_ok (flt\<lparr>cf_file := f\<rparr>) = filter_ok flt"
  "filter_ok (flt\<lparr>cf_pmt_continuity := c\<rparr>) = filter_ok flt"
  "filter_ok (flt\<lparr>cf_generation := g\<rparr>) = filter_ok flt"
  "filter_ok (flt\<lparr>cf_dropped := d\<rparr>) = filter_ok flt"
  by (simp_all add: filter_ok_def)

lemma filter_ok_parts [simp]:
  "filter_ok flt \<Longrightarrow> filter_ok (flt\<lparr>cf_finished := True\<rparr>)"
  "filter_ok flt \<Longrightarrow> filter_ok (flt\<lparr>cf_first_pmt := -1\<rparr>)"
  "filter_ok flt \<Longrightarrow> p \<le> 0x1ffe \<Longrightarrow> filter_ok (flt\<lparr>cf_pmt_pid := p, cf_pmt_known := b\<rparr>)"
  "filter_ok flt \<Longrightarrow> bounded_tracker t \<Longrightarrow> filter_ok (flt\<lparr>cf_tracker := t\<rparr>)"
  by (simp_all add: filter_ok_def)

lemma filter_ok_psi [simp]:
  "filter_ok flt \<Longrightarrow> psi_wf psi \<Longrightarrow> filter_ok (flt\<lparr>cf_pat := psi\<rparr>)"
  "filter_ok flt \<Longrightarrow> psi_wf psi \<Longrightarrow> filter_ok (flt\<lparr>cf_pmt := psi\<rparr>)"
  by (simp_all add: filter_ok_def)

lemma io_only_ok: "io_only flt flt' \<Longrightarrow> filter_ok flt' = filter_ok flt"
  by (simp add: filter_ok_def io_only_fields)

lemmas write_ok [simp] = write_packet_io [THEN io_only_ok] write_packet_list_io [THEN io_only_ok]
  write_selected_with_io [THEN io_only_ok] replay_io [THEN io_only_ok]

lemma issue_quality_valid: "quality_valid q \<Longrightarrow> quality_valid (issue_quality issue q)"
  by (simp add: issue_quality_def add_quality_valid split: psi_issue.split)

lemma issue_quality_fields [simp]:
  "q_selection_unverified (issue_quality issue q) = q_selection_unverified q"
  by (simp add: issue_quality_def split: psi_issue.split)

lemma filter_issue_ok [simp]: "filter_ok flt \<Longrightarrow> filter_ok (filter_issue issue flt)"
  by (simp add: filter_ok_def filter_issue_def modify_quality_def issue_quality_valid)

lemma add_quality_ok [simp]: "filter_ok flt \<Longrightarrow> filter_ok (modify_quality (add_quality c n) flt)"
  by (simp add: filter_ok_def modify_quality_def add_quality_valid)

lemma seq_write_ok:
  "filter_ok (snd w) \<Longrightarrow> (\<And>t. t = snd w \<Longrightarrow> filter_ok t \<Longrightarrow> filter_ok (snd (k t))) \<Longrightarrow> filter_ok (snd (seq_write w k))"
  by (simp add: seq_write_snd)

lemma mark_raw_quality_valid: "quality_valid q \<Longrightarrow> quality_valid (q\<lparr>q_selection_unverified := True, q_fallback := 1\<rparr>)"
  by (simp add: quality_valid_def quality_counters_def)

lemma fallback_ok: "filter_ok flt \<Longrightarrow> filter_ok (snd (fallback wr flt))"
proof -
  assume ok: "filter_ok flt"
  let ?w = "write_packet_list wr (blocks 188 (cf_discovery flt) @ blocks 188 (cf_pending flt)) (mark_raw flt)"
  have "filter_ok ((snd ?w)\<lparr>cf_discovery := [], cf_pending := []\<rparr>)"
    using ok unfolding filter_ok_def mark_raw_def
    by (auto simp: io_only_fields [OF write_packet_list_io] modify_quality_def mark_raw_quality_valid)
  then show ?thesis by (simp add: fallback_def case_prod_beta)
qed

lemma fallback_then_write_ok: "filter_ok flt \<Longrightarrow> filter_ok (snd (fallback_then_write wr raw flt))"
  unfolding fallback_then_write_def by (rule seq_write_ok) (simp_all add: fallback_ok)

lemma use_tracker_ok:
  assumes "filter_ok flt" "\<And>t q. f (cf_tracker flt, cf_quality flt) = (t, q) \<Longrightarrow> bounded_tracker t \<and> quality_valid q \<and>
    (q_selection_unverified q = q_selection_unverified (cf_quality flt))"
  shows "filter_ok (use_tracker f flt)"
proof -
  obtain t q where "f (cf_tracker flt, cf_quality flt) = (t, q)" by fastforce
  with assms(2) [OF this] assms(1) show ?thesis by (simp add: use_tracker_def filter_ok_def)
qed

lemma prioritize_flag:
  "prioritize pmt_pid (tracker, q) = (t', q') \<Longrightarrow> q_selection_unverified q' = q_selection_unverified q"
  by (auto simp: prioritize_def prioritize_pid_def Let_def split: prod.splits if_splits)

lemma configure_pids_flag:
  "foldl (configure_pid pmt_pid old) (selected, q) ids = (s', q') \<Longrightarrow>
   q_selection_unverified q' = q_selection_unverified q"
proof (induction ids arbitrary: selected q)
  case (Cons pid ids)
  obtain s1 q1 where 1: "configure_pid pmt_pid old (selected, q) pid = (s1, q1)" by fastforce
  then have "q_selection_unverified q1 = q_selection_unverified q"
    by (auto simp: configure_pid_def split: if_splits)
  with Cons 1 show ?case by simp
qed simp

lemma configure_flag:
  "configure pmt_pid pcr pids (tracker, q) = (t', q') \<Longrightarrow> q_selection_unverified q' = q_selection_unverified q"
  by (auto simp: configure_def Let_def dest!: configure_pids_flag split: prod.splits)

lemma observe_flag:
  "observe raw p (tracker, q) = (t', q') \<Longrightarrow> q_selection_unverified q' = q_selection_unverified q"
  by (auto simp: observe_def observe_counter_def Let_def split: if_splits option.splits)

lemma filter_okD:
  "filter_ok flt \<Longrightarrow> bounded_tracker (cf_tracker flt)" "filter_ok flt \<Longrightarrow> quality_valid (cf_quality flt)"
  by (simp_all add: filter_ok_def)

lemma prioritize_ok: "filter_ok flt \<Longrightarrow> filter_ok (use_tracker (prioritize pmt_pid) flt)"
proof (rule use_tracker_ok)
  fix t q assume ok: "filter_ok flt" and eq: "prioritize pmt_pid (cf_tracker flt, cf_quality flt) = (t, q)"
  show "bounded_tracker t \<and> quality_valid q \<and> q_selection_unverified q = q_selection_unverified (cf_quality flt)"
    using prioritize_bounded(1,3) [OF filter_okD(1) [OF ok] eq] prioritize_flag [OF eq] filter_okD(2) [OF ok] by simp
qed

lemma configure_ok: "filter_ok flt \<Longrightarrow> filter_ok (use_tracker (configure pmt_pid pcr pids) flt)"
proof (rule use_tracker_ok)
  fix t q assume ok: "filter_ok flt" and eq: "configure pmt_pid pcr pids (cf_tracker flt, cf_quality flt) = (t, q)"
  show "bounded_tracker t \<and> quality_valid q \<and> q_selection_unverified q = q_selection_unverified (cf_quality flt)"
    using configure_bounded(1,4) [OF eq] configure_flag [OF eq] filter_okD(2) [OF ok] by simp
qed

lemma observe_ok: "filter_ok flt \<Longrightarrow> filter_ok (use_tracker (observe raw p) flt)"
proof (rule use_tracker_ok)
  fix t q assume ok: "filter_ok flt" and eq: "observe raw p (cf_tracker flt, cf_quality flt) = (t, q)"
  show "bounded_tracker t \<and> quality_valid q \<and> q_selection_unverified q = q_selection_unverified (cf_quality flt)"
    using observe_bounded [OF filter_okD(1) [OF ok] eq] observe_flag [OF eq] filter_okD(2) [OF ok] by simp
qed

lemma psi_feed_wf: "psi_wf psi \<Longrightarrow> psi_feed raw p psi = (out, psi') \<Longrightarrow> psi_wf psi'"
  using psi_feed_good [of psi raw p] by (auto simp: good_feed_def split: prod.splits)

lemma feed_ok:
  "filter_ok flt \<Longrightarrow> feed_pat raw p flt = (out, flt') \<Longrightarrow> filter_ok flt'"
  "filter_ok flt \<Longrightarrow> feed_pmt raw p flt = (out, flt') \<Longrightarrow> filter_ok flt'"
proof -
  assume ok: "filter_ok flt"
  then have "psi_wf (cf_pat flt)" "psi_wf (cf_pmt flt)" by (simp_all add: filter_ok_def)
  with ok show "feed_pat raw p flt = (out, flt') \<Longrightarrow> filter_ok flt'" "feed_pmt raw p flt = (out, flt') \<Longrightarrow> filter_ok flt'"
    by (auto simp: feed_pat_def feed_pmt_def dest: psi_feed_wf split: prod.splits)
qed

lemma adopt_pat_ok: "filter_ok flt \<Longrightarrow> filter_ok (adopt_pat discovering sec flt)"
  by (auto simp: adopt_pat_def Let_def psi_wf_reset parse_pat_pid split: sum.split intro!: prioritize_ok)

lemma observe_pmt_ok: "filter_ok flt \<Longrightarrow> filter_ok (observe_pmt sec flt)"
  by (simp add: observe_pmt_def configure_pmt_def configure_ok split: sum.split)

lemma fold_ok: "filter_ok flt \<Longrightarrow> (\<And>x t. filter_ok t \<Longrightarrow> filter_ok (f x t)) \<Longrightarrow> filter_ok (fold f xs flt)"
  by (induction xs arbitrary: flt) auto

lemma observe_tables_ok: "filter_ok flt \<Longrightarrow> filter_ok (observe_tables raw p flt)"
  by (auto simp: observe_tables_def adopt_pat_ok observe_pmt_ok fold_ok split: prod.split dest: feed_ok)

lemma reset_control_ok: "filter_ok flt \<Longrightarrow> filter_ok (reset_control pid flt)"
  by (simp add: reset_control_def psi_wf_reset)

lemma unfinished_psi_ok: "filter_ok flt \<Longrightarrow> filter_ok (unfinished_psi flt)"
  by (simp add: unfinished_psi_def Let_def)

lemma filter_reset_psi_ok: "filter_ok flt \<Longrightarrow> filter_ok (filter_reset_psi flt)"
proof -
  assume ok: "filter_ok flt"
  then have "bounded_tracker (reset_tracker (cf_tracker flt))" by (simp add: filter_ok_def reset_tracker_bounded)
  then show ?thesis
    using unfinished_psi_ok [OF ok] by (simp add: filter_reset_psi_def psi_wf_reset)
qed

lemma start_selection_ok:
  assumes "filter_ok flt"
  shows "filter_ok (snd (start_selection wr raw t rewritten dropped flt))"
proof -
  define flt1 where "flt1 = (configure_pmt t flt)\<lparr>cf_dropped := dropped, cf_initialized := True,
    cf_pmt_continuity := raw ! 3 AND 15\<rparr>"
  define flt2 where "flt2 = (if cf_first_pmt flt1 \<ge> 0
    then flt1\<lparr>cf_pmt_continuity := cf_discovery flt1 ! (nat (cf_first_pmt flt1) * 188 + 3) AND 15\<rparr> else flt1)"
  have "filter_ok (configure_pmt t flt)" unfolding configure_pmt_def using assms by (rule configure_ok)
  moreover have "cf_pending (configure_pmt t flt) = cf_pending flt"
    by (simp add: configure_pmt_def use_tracker_def split: prod.split)
  ultimately have "filter_ok (flt2\<lparr>cf_discovery := []\<rparr>)"
    by (auto simp: filter_ok_def flt2_def flt1_def)
  then have "filter_ok ((snd (replay wr (cf_discovery flt2) (cf_first_pmt flt2) rewritten dropped flt2))
      \<lparr>cf_discovery := []\<rparr>)"
    by (simp add: filter_ok_def io_only_fields [OF replay_io])
  then show ?thesis
    by (simp add: start_selection_def flt1_def [symmetric] flt2_def [symmetric] Let_def case_prod_beta)
qed

lemma discover_section_ok: "filter_ok flt \<Longrightarrow> filter_ok (snd (discover_section wr raw sec flt))"
  by (simp add: discover_section_def Let_def fallback_ok start_selection_ok split: sum.split)

lemma first_pmt_ok:
  assumes "filter_ok flt" "cf_discovery flt \<noteq> []"
  shows "filter_ok (flt\<lparr>cf_first_pmt := int (length (cf_discovery flt) div 188) - 1\<rparr>)"
proof -
  have "(int k - 1) * 188 < int n" if "k * 188 \<le> n" for k n :: nat using that by presburger
  from this [OF div_times_less_eq_dividend]
  have "(int (length (cf_discovery flt) div 188) - 1) * 188 < int (length (cf_discovery flt))" .
  with assms(1) show ?thesis by (simp add: filter_ok_def)
qed

lemma feed_discovery:
  "feed_pat raw p flt = (out, flt') \<Longrightarrow> cf_discovery flt' = cf_discovery flt"
  "feed_pmt raw p flt = (out, flt') \<Longrightarrow> cf_discovery flt' = cf_discovery flt"
  "cf_discovery (filter_issue issue flt) = cf_discovery flt"
  "cf_discovery (adopt_pat b sec flt) = cf_discovery flt"
  "cf_discovery (fold (adopt_pat b) sections flt) = cf_discovery flt"
proof -
  show adopt: "cf_discovery (adopt_pat b sec flt) = cf_discovery flt" for sec and flt :: "'a component_filter"
    by (simp add: adopt_pat_def filter_issue_def modify_quality_def use_tracker_def Let_def
        split: sum.split prod.split)
  show "cf_discovery (fold (adopt_pat b) sections flt) = cf_discovery flt"
    by (induction sections arbitrary: flt) (simp_all add: adopt)
qed (auto simp: feed_pat_def feed_pmt_def filter_issue_def modify_quality_def split: prod.splits)

lemma discover_collected_ok:
  "filter_ok flt \<Longrightarrow> cf_discovery flt \<noteq> [] \<Longrightarrow> filter_ok (snd (discover_collected wr raw p out flt))"
  by (simp add: discover_collected_def Let_def fallback_ok discover_section_ok first_pmt_ok split: prod.split)

lemma discover_pmt_ok:
  assumes "filter_ok flt" "cf_discovery flt \<noteq> []"
  shows "filter_ok (snd (discover_pmt wr raw p flt))"
proof -
  obtain out flt1 where fed: "feed_pmt raw p flt = (out, flt1)" by fastforce
  have "filter_ok flt1" "cf_discovery flt1 \<noteq> []"
    using assms feed_ok(2) [OF assms(1) fed] feed_discovery(2) [OF fed] by simp_all
  with assms show ?thesis by (simp add: discover_pmt_def fed discover_collected_ok feed_discovery)
qed

lemma discover_ok:
  assumes "filter_ok flt" "cf_discovery flt \<noteq> []"
  shows "filter_ok (snd (discover wr raw p flt))"
proof (cases "pk_pid p = 0")
  case False
  with assms show ?thesis by (simp add: discover_def discover_pmt_ok)
next
  case True
  obtain sections duplicate issue flt1 where fed: "feed_pat raw p flt = ((sections, duplicate, issue), flt1)"
    by (metis prod_cases3 surj_pair)
  have "filter_ok flt1" "cf_discovery flt1 \<noteq> []"
    using assms feed_ok(1) [OF assms(1) fed] feed_discovery(1) [OF fed] by simp_all
  then have "filter_ok (fold (adopt_pat True) sections (filter_issue issue flt1))"
    "cf_discovery (fold (adopt_pat True) sections (filter_issue issue flt1)) \<noteq> []"
    by (simp_all add: fold_ok adopt_pat_ok feed_discovery)
  with True \<open>filter_ok flt1\<close> show ?thesis
    by (simp add: discover_def fed Let_def fallback_ok discover_pmt_ok)
qed

lemma update_section_ok:
  assumes "filter_ok flt"
  shows "filter_ok (snd (update_section wr sec flt))"
proof -
  have "filter_ok ((snd (replay wr data first rewritten dropped (configure_pmt t flt)))
      \<lparr>cf_pending := [], cf_dropped := d\<rparr>)" for data first rewritten dropped t d
  proof -
    have "filter_ok (configure_pmt t flt)" unfolding configure_pmt_def using assms by (rule configure_ok)
    then show ?thesis by (simp add: filter_ok_def io_only_fields [OF replay_io])
  qed
  then show ?thesis
    using assms by (simp add: update_section_def Let_def fallback_ok case_prod_beta split: sum.split)
qed

lemma update_pmt_ok: "filter_ok flt \<Longrightarrow> filter_ok (snd (update_pmt wr raw p flt))"
  by (auto simp: update_pmt_def Let_def fallback_ok update_section_ok split: prod.split dest: feed_ok)

lemma write_initialized_ok:
  assumes "filter_ok flt" "framed raw" "cf_initialized flt" "\<not> cf_raw flt"
  shows "filter_ok (snd (write_initialized wr raw p flt))"
proof -
  obtain out flt1 where fed: "feed_pmt raw p flt = (out, flt1)" by fastforce
  have "filter_ok (flt\<lparr>cf_pending := cf_pending flt @ raw\<rparr>)" if "length (cf_pending flt) + 188 \<le> max_psi_buffer"
    using assms that packet_buffer_append [of "cf_pending flt" raw] by (simp add: filter_ok_def)
  then show ?thesis
    using assms(1) feed_ok(2) [OF assms(1) fed]
    by (simp add: write_initialized_def fed fallback_then_write_ok Let_def update_pmt_ok)
qed

lemma check_pat_ok:
  "check_pat sections invalid flt = (b, flt') \<Longrightarrow> filter_ok flt \<Longrightarrow>
   filter_ok flt' \<and> cf_initialized flt' = cf_initialized flt \<and> cf_raw flt' = cf_raw flt"
  by (induction sections invalid flt rule: check_pat.induct)
    (auto split: sum.splits, auto simp: filter_issue_def modify_quality_def)

lemma process_selected_ok:
  assumes "filter_ok flt" "framed raw" "cf_initialized flt" "\<not> cf_raw flt"
  shows "filter_ok (snd (process_selected wr raw p flt))"
proof (cases "pk_pid p = 0")
  case False
  with assms show ?thesis by (simp add: process_selected_def write_initialized_ok)
next
  case True
  obtain sections duplicate issue flt1 where fed: "feed_pat raw p flt = ((sections, duplicate, issue), flt1)"
    by (metis prod_cases3 surj_pair)
  obtain b flt2 where checked: "check_pat sections (issue \<noteq> PsiOK) (filter_issue issue flt1) = (b, flt2)" by fastforce
  have "cf_initialized flt1 = cf_initialized flt" "cf_raw flt1 = cf_raw flt"
    using fed by (auto simp: feed_pat_def split: prod.splits)
  then have "filter_ok flt2" "cf_initialized flt2" "\<not> cf_raw flt2"
    using check_pat_ok [OF checked filter_issue_ok [OF feed_ok(1) [OF assms(1) fed]]] assms(3,4)
    by (simp_all add: filter_issue_def modify_quality_def)
  with True assms(2) show ?thesis
    by (simp add: process_selected_def fed checked fallback_then_write_ok write_initialized_ok)
qed

lemma process_malformed_ok: "filter_ok flt \<Longrightarrow> filter_ok (snd (process_malformed wr raw flt))"
  by (simp add: process_malformed_def Let_def fallback_ok reset_control_ok)

lemma process_discovery_ok:
  assumes "filter_ok flt" "framed raw" "\<not> cf_initialized flt" "\<not> cf_raw flt"
  shows "filter_ok (snd (process_discovery wr raw p flt))"
proof -
  have "filter_ok (flt\<lparr>cf_discovery := cf_discovery flt @ raw\<rparr>)" "cf_discovery flt @ raw \<noteq> []"
    if "length (cf_discovery flt) + 188 \<le> max_psi_buffer"
    using assms that packet_buffer_append [of "cf_discovery flt" raw] by (auto simp: filter_ok_def framed_def ts_consts)
  then show ?thesis
    using assms(1) by (simp add: process_discovery_def fallback_then_write_ok discover_ok)
qed

lemma process_raw_ok: "filter_ok flt \<Longrightarrow> filter_ok (snd (process_raw wr raw tei p flt))"
  by (simp add: process_raw_def reset_control_ok observe_tables_ok)

lemma process_parsed_ok:
  "filter_ok flt \<Longrightarrow> framed raw \<Longrightarrow> filter_ok (snd (process_parsed wr raw tei p flt))"
  by (simp add: process_parsed_def process_raw_ok reset_control_ok fallback_ok observe_tables_ok
      process_discovery_ok process_selected_ok Let_def)

lemma note_parsed_ok: "filter_ok flt \<Longrightarrow> filter_ok (note_parsed raw tei p flt)"
proof -
  assume ok: "filter_ok flt"
  then have "filter_ok (modify_quality (\<lambda>q. q\<lparr>q_status := QualityNoIssuesObserved\<rparr>) flt)"
    by (simp add: filter_ok_def modify_quality_def)
  with ok show ?thesis by (simp add: note_parsed_def Let_def observe_ok)
qed

lemma process_body_ok: "filter_ok flt \<Longrightarrow> framed raw \<Longrightarrow> filter_ok (snd (process_body wr raw flt))"
  by (auto simp: process_body_def process_malformed_ok process_parsed_ok note_parsed_ok split: prod.split sum.split)

lemma adopt_generation_ok: "filter_ok flt \<Longrightarrow> filter_ok (snd (adopt_generation wr g flt))"
  by (simp add: adopt_generation_def Let_def filter_reset_psi_ok fallback_ok)

lemma process_packet_ok: "filter_ok flt \<Longrightarrow> framed raw \<Longrightarrow> filter_ok (snd (process_packet wr g flt raw))"
  unfolding process_packet_def by (rule seq_write_ok) (simp_all add: adopt_generation_ok process_body_ok)

text \<open>The framer runs inside the filter: its owner is the filter itself.\<close>

interpretation filtered: sound_packet_owner modify_quality "process_packet wr" filter_ok for wr
  by unfold_locales (simp_all add: modify_quality_def add_quality_fuse process_packet_ok
    add_quality_ok [unfolded modify_quality_def])

section \<open>A file that accepts everything\<close>

definition store_write :: "(bytes list, unit) file_write" where
  "store_write file raw = ((int (length raw), None), file @ [raw])"

lemma write_packet_store [simp]:
  "write_packet store_write raw flt = ((int (length raw), None), flt\<lparr>cf_file := cf_file flt @ [raw]\<rparr>)"
  by (simp add: write_packet_def store_write_def Let_def)

text \<open>Only the state after a write that did not fail matters here.\<close>

definition wrote :: "('x, 's) written \<Rightarrow> 's \<Rightarrow> bool" where
  "wrote w s \<longleftrightarrow> snd (fst w) = None \<and> snd w = s"

lemma wrote_seq: "wrote w s \<Longrightarrow> wrote (k s) t \<Longrightarrow> wrote (seq_write w k) t"
  by (auto simp: wrote_def seq_write_def split: prod.splits option.splits)

lemma wrote_no_write [simp]: "wrote (no_write s) t \<longleftrightarrow> t = s"
  by (auto simp: wrote_def)

lemma wrote_ok [simp]: "wrote ((n, None), s) t \<longleftrightarrow> t = s"
  by (auto simp: wrote_def)

lemma wrote_pair: "wrote w s \<longleftrightarrow> (\<exists>n. w = ((n, None), s))"
  by (cases w; cases "fst w") (auto simp: wrote_def)

lemma wrote_packet [simp]:
  "wrote (write_packet store_write raw flt) t \<longleftrightarrow> t = flt\<lparr>cf_file := cf_file flt @ [raw]\<rparr>"
  by (auto simp: wrote_def)

lemma wrote_packet_list:
  "wrote (write_packet_list store_write raws flt) (flt\<lparr>cf_file := cf_file flt @ raws\<rparr>)"
proof (induction raws arbitrary: flt)
  case (Cons raw raws)
  show ?case
    using Cons.IH [of "flt\<lparr>cf_file := cf_file flt @ [raw]\<rparr>"]
    by (auto intro!: wrote_seq [of _ "flt\<lparr>cf_file := cf_file flt @ [raw]\<rparr>"])
qed simp

lemma wrote_selected:
  "wrote (write_selected_with store_write raw dropped flt)
     (flt\<lparr>cf_file := cf_file flt @ (if PID raw \<in> dropped then [] else [raw])\<rparr>)"
  by (simp add: write_selected_with_def)

lemma mark_raw_file [simp]:
  "cf_file (mark_raw flt) = cf_file flt" "cf_discovery (mark_raw flt) = cf_discovery flt"
  "cf_pending (mark_raw flt) = cf_pending flt" "cf_raw (mark_raw flt)"
  by (simp_all add: mark_raw_def modify_quality_def)

lemma wrote_fallback:
  "wrote (fallback store_write flt)
     ((mark_raw flt)\<lparr>cf_file := cf_file flt @ blocks 188 (cf_discovery flt) @ blocks 188 (cf_pending flt),
                    cf_discovery := [], cf_pending := []\<rparr>)"
  using wrote_packet_list [of "blocks 188 (cf_discovery flt) @ blocks 188 (cf_pending flt)" "mark_raw flt"]
  by (auto simp: fallback_def wrote_pair)

section \<open>The replayed packets\<close>

text \<open>What \<open>replay\<close> writes: kept packets before the table, the new table, kept packets without the old one.\<close>

definition replayed :: "bytes list \<Rightarrow> nat \<Rightarrow> u16 \<Rightarrow> u16 set \<Rightarrow> bytes list \<Rightarrow> bytes list" where
  "replayed raws first pid dropped packets =
     filter (\<lambda>raw. PID raw \<notin> dropped) (take first raws) @ packets @
     filter (\<lambda>raw. PID raw \<noteq> pid \<and> PID raw \<notin> dropped) (drop first raws)"

lemma wrote_replay_step:
  assumes "wrote (if int index = first
       then seq_write (write_packet_list store_write packets flt)
              (\<lambda>flt. no_write (flt\<lparr>cf_pmt_continuity := (cf_pmt_continuity flt + of_nat (length packets)) AND 15\<rparr>))
       else no_write flt) mid"
    and "after = mid\<lparr>cf_file := cf_file mid @
      (if int index \<ge> first \<and> PID raw = cf_pmt_pid mid \<or> PID raw \<in> dropped then [] else [raw])\<rparr>"
    and "wrote (replay_from store_write raws (index + 1) first packets dropped after) t"
  shows "wrote (replay_from store_write (raw # raws) index first packets dropped flt) t"
proof -
  have "wrote (if int index \<ge> first \<and> PID raw = cf_pmt_pid mid then no_write mid
      else write_selected_with store_write raw dropped mid) after"
    using wrote_selected [of raw dropped mid] by (cases "PID raw \<in> dropped") (simp_all add: assms(2))
  then show ?thesis
    unfolding replay_from.simps 
    by (intro wrote_seq [OF assms(1)]) (rule wrote_seq, assumption, rule assms(3))
qed

lemma wrote_replay_after:
  assumes "first < int index"
  shows "wrote (replay_from store_write raws index first packets dropped flt)
    (flt\<lparr>cf_file := cf_file flt @ filter (\<lambda>raw. PID raw \<noteq> cf_pmt_pid flt \<and> PID raw \<notin> dropped) raws\<rparr>)"
  using assms
proof (induction raws arbitrary: index flt)
  case (Cons raw raws)
  define flt2 where "flt2 = flt\<lparr>cf_file := cf_file flt @ (if PID raw = cf_pmt_pid flt \<or> PID raw \<in> dropped then [] else [raw])\<rparr>"
  have "wrote (replay_from store_write raws (index + 1) first packets dropped flt2)
      (flt2\<lparr>cf_file := cf_file flt2 @ filter (\<lambda>raw. PID raw \<noteq> cf_pmt_pid flt2 \<and> PID raw \<notin> dropped) raws\<rparr>)"
    using Cons.prems by (intro Cons.IH) simp
  also have "flt2\<lparr>cf_file := cf_file flt2 @ filter (\<lambda>raw. PID raw \<noteq> cf_pmt_pid flt2 \<and> PID raw \<notin> dropped) raws\<rparr> =
      flt\<lparr>cf_file := cf_file flt @ filter (\<lambda>raw. PID raw \<noteq> cf_pmt_pid flt \<and> PID raw \<notin> dropped) (raw # raws)\<rparr>"
    by (simp add: flt2_def)
  finally show ?case
    using Cons.prems by (intro wrote_replay_step [where mid = flt and after = flt2]) (simp_all add: flt2_def)
qed simp

lemma wrote_replay_before:
  assumes "first < length raws"
  shows "\<exists>c. wrote (replay_from store_write raws index (int (index + first)) packets dropped flt)
    (flt\<lparr>cf_file := cf_file flt @ replayed raws first (cf_pmt_pid flt) dropped packets, cf_pmt_continuity := c\<rparr>)"
  using assms
proof (induction raws arbitrary: index first flt)
  case (Cons raw raws)
  show ?case
  proof (cases first)
    case 0
    define c where "c = (cf_pmt_continuity flt + of_nat (length packets)) AND 15"
    define flt1 where "flt1 = flt\<lparr>cf_file := cf_file flt @ packets, cf_pmt_continuity := c\<rparr>"
    define flt2 where "flt2 = flt1\<lparr>cf_file := cf_file flt1 @
      (if PID raw = cf_pmt_pid flt1 \<or> PID raw \<in> dropped then [] else [raw])\<rparr>"
    have table: "wrote (seq_write (write_packet_list store_write packets flt)
        (\<lambda>flt. no_write (flt\<lparr>cf_pmt_continuity := (cf_pmt_continuity flt + of_nat (length packets)) AND 15\<rparr>))) flt1"
      by (rule wrote_seq [OF wrote_packet_list]) (simp add: flt1_def c_def)
    have "wrote (replay_from store_write raws (index + 1) (int index) packets dropped flt2)
        (flt2\<lparr>cf_file := cf_file flt2 @ filter (\<lambda>raw. PID raw \<noteq> cf_pmt_pid flt2 \<and> PID raw \<notin> dropped) raws\<rparr>)"
      by (rule wrote_replay_after) simp
    from wrote_replay_step [OF _ _ this, where flt = flt and mid = flt1 and raw = raw] table
    have "wrote (replay_from store_write (raw # raws) index (int index) packets dropped flt)
        (flt2\<lparr>cf_file := cf_file flt2 @ filter (\<lambda>raw. PID raw \<noteq> cf_pmt_pid flt2 \<and> PID raw \<notin> dropped) raws\<rparr>)"
      by (simp add: flt2_def)
    moreover have "flt2\<lparr>cf_file := cf_file flt2 @ filter (\<lambda>raw. PID raw \<noteq> cf_pmt_pid flt2 \<and> PID raw \<notin> dropped) raws\<rparr> =
        flt\<lparr>cf_file := cf_file flt @ replayed (raw # raws) first (cf_pmt_pid flt) dropped packets, cf_pmt_continuity := c\<rparr>"
      using 0 by (simp add: flt2_def flt1_def replayed_def)
    ultimately show ?thesis using 0 by auto
  next
    case (Suc k)
    define flt1 where "flt1 = flt\<lparr>cf_file := cf_file flt @ (if PID raw \<in> dropped then [] else [raw])\<rparr>"
    obtain c where "wrote (replay_from store_write raws (index + 1) (int (index + 1 + k)) packets dropped flt1)
        (flt1\<lparr>cf_file := cf_file flt1 @ replayed raws k (cf_pmt_pid flt1) dropped packets, cf_pmt_continuity := c\<rparr>)"
      using Cons.prems Cons.IH [of k "index + 1" flt1] Suc by auto
    moreover have "flt1\<lparr>cf_file := cf_file flt1 @ replayed raws k (cf_pmt_pid flt1) dropped packets, cf_pmt_continuity := c\<rparr> =
        flt\<lparr>cf_file := cf_file flt @ replayed (raw # raws) first (cf_pmt_pid flt) dropped packets, cf_pmt_continuity := c\<rparr>"
      by (simp add: flt1_def replayed_def Suc)
    moreover have "int (index + 1 + k) = int (index + first)" using Suc by simp
    ultimately have "wrote (replay_from store_write (raw # raws) index (int (index + first)) packets dropped flt)
        (flt\<lparr>cf_file := cf_file flt @ replayed (raw # raws) first (cf_pmt_pid flt) dropped packets, cf_pmt_continuity := c\<rparr>)"
      using Suc by (intro wrote_replay_step [where mid = flt and after = flt1]) (simp_all add: flt1_def)
    then show ?thesis by blast
  qed
qed simp

section \<open>Runs of the filter\<close>

text \<open>Several calls of \<open>Write\<close>; the caller stops at the first error.\<close>

definition filter_after :: "('f, 'x) file_write \<Rightarrow> bytes list \<Rightarrow> 'f recording_filter \<Rightarrow> 'f recording_filter" where
  "filter_after wr chunks rf = fold (\<lambda>chunk rf. snd (filter_write wr chunk rf)) chunks rf"

definition recording_ok :: "'f recording_filter \<Rightarrow> bool" where
  "recording_ok rf \<longleftrightarrow> filter_ok (rf_filter rf) \<and> settled (rf_framer rf)"

lemma recording_ok_new:
  "quality_valid initial \<Longrightarrow> recording_ok (new_recording_filter file keep_captions keep_data initial)"
  by (simp add: recording_ok_def new_recording_filter_def settled_new filter_ok_def new_component_filter_def
      bounded_tracker_new psi_wf_reset)

lemma filter_write_drain:
  "settled (rf_framer rf) \<Longrightarrow> filter_write wr data rf =
    (case framer_drain modify_quality (process_packet wr) (push data (rf_framer rf)) (rf_filter rf) 0 of
       (r, fr, flt) \<Rightarrow> (r, \<lparr>rf_framer = fr, rf_filter = flt\<rparr>))"
  by (simp add: filter_write_def filtered.framer_write_drain)

lemma filter_write_ok: "recording_ok rf \<Longrightarrow> recording_ok (snd (filter_write wr data rf))"
  using filtered.framer_drain_good [of "rf_filter rf" wr "push data (rf_framer rf)" 0]
    framer_drain_settles [of modify_quality "process_packet wr" "push data (rf_framer rf)" "rf_filter rf" 0]
  by (simp add: recording_ok_def filter_write_drain case_prod_beta)

lemma filter_after_ok: "recording_ok rf \<Longrightarrow> recording_ok (filter_after wr chunks rf)"
  unfolding filter_after_def by (induction chunks arbitrary: rf) (simp_all add: filter_write_ok)

lemma filter_finish_ok: "recording_ok rf \<Longrightarrow> recording_ok (snd (filter_finish wr allow rf))"
proof -
  assume ok: "recording_ok rf"
  obtain fr flt0 where fin: "framer_finish modify_quality (rf_framer rf) ((rf_filter rf)\<lparr>cf_finished := True\<rparr>) = (fr, flt0)"
    by fastforce
  define flt where "flt = unfinished_psi flt0"
  have "filter_ok ((rf_filter rf)\<lparr>cf_finished := True\<rparr>)" using ok by (simp add: recording_ok_def)
  from filtered.framer_finish_good [OF this, of "rf_framer rf"] have "filter_ok flt0" by (simp add: fin)
  then have ok_flt: "filter_ok flt" by (simp add: flt_def unfinished_psi_ok)
  moreover have "cf_finished flt"
    using fin by (auto simp: flt_def framer_finish_def unfinished_psi_def modify_quality_def Let_def)
  ultimately have "filter_ok (flt\<lparr>cf_discovery := [], cf_pending := []\<rparr>)" by (simp add: filter_ok_def)
  moreover have "settled fr" using fin by (auto simp: framer_finish_def settled_def)
  ultimately show ?thesis
    using ok ok_flt
    by (simp add: filter_finish_def fin flt_def [symmetric] Let_def recording_ok_def fallback_ok case_prod_beta)
qed

section \<open>The bounds\<close>

definition filter_bounded :: "'f component_filter \<Rightarrow> bool" where
  "filter_bounded flt \<longleftrightarrow>
     quality_valid (cf_quality flt) \<and> card (Mapping.keys (tracked (cf_tracker flt))) \<le> 64 \<and>
     length (cf_discovery flt) \<le> 1048576 \<and> 188 dvd length (cf_discovery flt) \<and>
     length (cf_pending flt) \<le> 1048576 \<and> 188 dvd length (cf_pending flt) \<and>
     length (rp_section (cf_pat flt)) \<le> 1023 \<and> length (rp_section (cf_pmt flt)) \<le> 1023 \<and>
     (cf_raw flt \<longrightarrow> cf_discovery flt = [] \<and> cf_pending flt = [])"

lemma packet_buffer_size: "packet_buffer data \<Longrightarrow> length data \<le> 1048576 \<and> 188 dvd length data"
proof -
  assume buffer: "packet_buffer data"
  then obtain raws where "data = concat raws" "list_all framed raws" by (auto simp: packet_buffer_def)
  then have "length data = length raws * 188"
    by (induction raws arbitrary: data) (auto simp: framed_def ts_consts)
  with buffer show ?thesis by (simp add: packet_buffer_def max_psi_buffer_def)
qed

lemma psi_wf_size: "psi_wf psi \<Longrightarrow> length (rp_section psi) \<le> 1023"
  by (auto simp: psi_wf_def max_recording_section_def split: if_splits)

lemma filter_ok_bounded: "filter_ok flt \<Longrightarrow> filter_bounded flt"
  using bounded_tracked [of "cf_tracker flt"]
  by (auto simp: filter_ok_def filter_bounded_def packet_buffer_size psi_wf_size bounded_pids_def max_quality_pids_def)

section \<open>Properties\<close>

text \<open>C1.
  Between any two writes to the filter of a new recording with a valid initial summary, whatever
  bytes were received, however they were cut into writes and whatever errors the file returned,
  the summary is valid, at most 64 PIDs are observed, the packets held back before the selection
  starts and during a table update are whole and take at most 1 MiB each, a collected table section
  has at most 1023 bytes, and a filter that fell back to writing everything holds nothing back. The
  same holds after the filter is finished.\<close>

theorem filter_stays_bounded:
  assumes "quality_valid initial"
    and "rf = filter_after wr chunks (new_recording_filter file keep_captions keep_data initial)"
  shows "filter_bounded (rf_filter rf) \<and> filter_bounded (rf_filter (snd (filter_finish wr allow rf)))"
proof -
  have "recording_ok rf" unfolding assms(2) by (rule filter_after_ok [OF recording_ok_new [OF assms(1)]])
  with filter_finish_ok [OF this, of wr allow] show ?thesis
    by (simp add: recording_ok_def filter_ok_bounded)
qed

theorem filter_stays_bounded_witness:
  "filter_bounded (rf_filter (filter_after store_write [[0x47], [1, 2]]
     (new_recording_filter [] False True zero_quality)))"
proof -
  have "quality_valid zero_quality" by (simp add: quality_valid_def quality_counters_def zero_quality_def)
  from filter_stays_bounded [OF this refl, of store_write "[[0x47], [1, 2]]" "[]" False True] show ?thesis by blast
qed

end
