(* ===== verification/Wire.thy ===== *)
theory Wire
  imports Prelude
begin

text \<open>
  Integers and text on the wire: the little-endian encodings of \<open>encoding/binary\<close>, and the parts of
  \<open>unicode/utf8\<close> and \<open>unicode/utf16\<close> that \<open>internal/adapters/ctrlcmd/codec\<close> uses.  A Go string is its
  bytes; a rune is a natural number.  The lemmas show that each decoder inverts its encoder.
\<close>

section \<open>Little-endian integers\<close>

text \<open>\<open>binary.LittleEndian.PutUint\<close> into \<open>n\<close> bytes, and the matching reader.\<close>

definition le_put :: "nat \<Rightarrow> 'a::len word \<Rightarrow> bytes" where
  "le_put n w = map (\<lambda>i. ucast (drop_bit (8 * i) w)) [0..<n]"

fun le_get :: "bytes \<Rightarrow> 'a::len word" where
  "le_get [] = 0"
| "le_get (b # bs) = push_bit 8 (le_get bs) OR ucast b"

lemma length_le_put [simp]: "length (le_put n w) = n"
  by (simp add: le_put_def)

lemma bit_le_get:
  "bit (le_get bs :: 'a::len word) i \<longleftrightarrow>
   i < LENGTH('a) \<and> i div 8 < length bs \<and> bit (bs ! (i div 8)) (i mod 8)"
proof (induction bs arbitrary: i)
  case Nil
  then show ?case by simp
next
  case (Cons b bs)
  show ?case
  proof (cases "i < 8")
    case True
    then show ?thesis by (auto simp: bit_simps)
  next
    case False
    then have step: "i div 8 = Suc ((i - 8) div 8)" "(i - 8) mod 8 = i mod 8"
      by (simp_all add: le_div_geq le_mod_geq)
    have "\<not> bit b i" using False by (auto dest: bit_imp_le_length)
    then show ?thesis using False Cons.IH [of "i - 8"] by (auto simp: bit_simps step)
  qed
qed

lemma le_get_put:
  assumes "LENGTH('a) \<le> 8 * n"
  shows "le_get (le_put n (w :: 'a::len word)) = w"
proof (rule bit_word_eqI)
  fix i assume i: "i < LENGTH('a)"
  then have "i < 8 * n" using assms by simp
  then have "i div 8 < n" by (simp add: less_mult_imp_div_less mult.commute)
  then show "bit (le_get (le_put n w) :: 'a word) i = bit w i"
    using i by (simp add: bit_le_get le_put_def bit_simps mult.commute)
qed

lemma le_put_get:
  assumes "length bs = n" "8 * n \<le> LENGTH('a)"
  shows "le_put n (le_get bs :: 'a::len word) = bs"
proof (rule nth_equalityI)
  fix i assume "i < length (le_put n (le_get bs :: 'a word))"
  then have i: "i < n" by simp
  show "le_put n (le_get bs :: 'a word) ! i = bs ! i"
  proof (rule bit_word_eqI)
    fix k assume k: "k < LENGTH(8)"
    have "8 * i + k < 8 * n" using i k by simp
    then show "bit (le_put n (le_get bs :: 'a word) ! i) k = bit (bs ! i) k"
      using assms i k by (simp add: le_put_def bit_le_get bit_simps)
  qed
qed (simp add: assms)

section \<open>UTF-8\<close>

definition rune_error :: nat where
  "rune_error = 0xfffd"

definition continuation :: "nat \<Rightarrow> nat \<Rightarrow> byte \<Rightarrow> bool" where
  "continuation lo hi b \<longleftrightarrow> lo \<le> unat b \<and> unat b \<le> hi"

text \<open>The range of the second byte after a first byte of a multi-byte sequence.\<close>

definition second_range :: "nat \<Rightarrow> nat \<times> nat" where
  "second_range first =
     (if first = 0xe0 then (0xa0, 0xbf) else if first = 0xed then (0x80, 0x9f)
      else if first = 0xf0 then (0x90, 0xbf) else if first = 0xf4 then (0x80, 0x8f) else (0x80, 0xbf))"

text \<open>\<open>utf8.DecodeRuneInString\<close>: the first rune and its width in bytes.\<close>

fun decode_rune :: "bytes \<Rightarrow> nat \<times> nat" where
  "decode_rune [] = (rune_error, 0)"
| "decode_rune (b # bs) =
     (let first = unat b; (lo, hi) = second_range first in
      if first < 0x80 then (first, 1)
      else if 0xc2 \<le> first \<and> first \<le> 0xdf then
        (case bs of
           b1 # _ \<Rightarrow> if continuation lo hi b1 then ((first - 0xc0) * 64 + (unat b1 - 0x80), 2) else (rune_error, 1)
         | _ \<Rightarrow> (rune_error, 1))
      else if 0xe0 \<le> first \<and> first \<le> 0xef then
        (case bs of
           b1 # b2 # _ \<Rightarrow> if continuation lo hi b1 \<and> continuation 0x80 0xbf b2
             then ((first - 0xe0) * 4096 + (unat b1 - 0x80) * 64 + (unat b2 - 0x80), 3) else (rune_error, 1)
         | _ \<Rightarrow> (rune_error, 1))
      else if 0xf0 \<le> first \<and> first \<le> 0xf4 then
        (case bs of
           b1 # b2 # b3 # _ \<Rightarrow>
             if continuation lo hi b1 \<and> continuation 0x80 0xbf b2 \<and> continuation 0x80 0xbf b3
             then ((first - 0xf0) * 262144 + (unat b1 - 0x80) * 4096 + (unat b2 - 0x80) * 64 + (unat b3 - 0x80), 4)
             else (rune_error, 1)
         | _ \<Rightarrow> (rune_error, 1))
      else (rune_error, 1))"

text \<open>The encoding of one rune, as \<open>string(runes)\<close> writes it.\<close>

definition encode_rune :: "nat \<Rightarrow> bytes" where
  "encode_rune r =
     (let r = if r > 0x10ffff \<or> 0xd800 \<le> r \<and> r \<le> 0xdfff then rune_error else r in
      if r < 0x80 then [of_nat r]
      else if r < 0x800 then [of_nat (0xc0 + r div 64), of_nat (0x80 + r mod 64)]
      else if r < 0x10000 then
        [of_nat (0xe0 + r div 4096), of_nat (0x80 + r div 64 mod 64), of_nat (0x80 + r mod 64)]
      else [of_nat (0xf0 + r div 262144), of_nat (0x80 + r div 4096 mod 64),
            of_nat (0x80 + r div 64 mod 64), of_nat (0x80 + r mod 64)])"

definition encode_runes :: "nat list \<Rightarrow> bytes" where
  "encode_runes rs = concat (map encode_rune rs)"

lemma decode_rune_width: "bs \<noteq> [] \<Longrightarrow> 1 \<le> snd (decode_rune bs) \<and> snd (decode_rune bs) \<le> length bs"
  by (cases bs) (auto simp: Let_def split: list.splits prod.splits)

text \<open>The runes of a string, in order, as \<open>for _, r := range value\<close> visits them.\<close>

function runes :: "bytes \<Rightarrow> nat list" where
  "runes bs = (if bs = [] then [] else fst (decode_rune bs) # runes (drop (snd (decode_rune bs)) bs))"
  by pat_completeness auto
termination by (relation "measure length") (auto dest: decode_rune_width)

declare runes.simps [simp del]

text \<open>Decoding a rune without error and encoding it again gives the same bytes.\<close>

lemma of_nat_byte: "n = unat b \<Longrightarrow> (of_nat n :: byte) = b"
  by simp

lemma low_digit:
  assumes "c < (64 :: nat)"
  shows "(k * 64 + c) div 64 = k" "(k * 64 + c) mod 64 = c"
  using assms by simp_all

lemma base64_digits:
  assumes "b < 64" "c < (64 :: nat)"
  shows "(a * 4096 + b * 64 + c) div 4096 = a" "(a * 4096 + b * 64 + c) div 64 mod 64 = b"
    "(a * 4096 + b * 64 + c) mod 64 = c"
proof -
  have eq: "a * 4096 + b * 64 + c = (a * 64 + b) * 64 + c" by simp
  have "(a * 4096 + b * 64 + c) div 4096 = (a * 4096 + b * 64 + c) div 64 div 64" by (simp add: div_mult2_eq [symmetric])
  then show "(a * 4096 + b * 64 + c) div 4096 = a" unfolding eq by (simp only: low_digit assms)
  show "(a * 4096 + b * 64 + c) div 64 mod 64 = b" "(a * 4096 + b * 64 + c) mod 64 = c"
    unfolding eq by (simp_all only: low_digit assms)
qed

lemma base64_digits4:
  assumes "b < 64" "c < 64" "d < (64 :: nat)"
  shows "(a * 262144 + b * 4096 + c * 64 + d) div 262144 = a"
    "(a * 262144 + b * 4096 + c * 64 + d) div 4096 mod 64 = b"
    "(a * 262144 + b * 4096 + c * 64 + d) div 64 mod 64 = c"
    "(a * 262144 + b * 4096 + c * 64 + d) mod 64 = d"
proof -
  have eq: "a * 262144 + b * 4096 + c * 64 + d = (a * 4096 + b * 64 + c) * 64 + d" by simp
  let ?n = "a * 262144 + b * 4096 + c * 64 + d"
  have step: "?n div 262144 = ?n div 64 div 4096" "?n div 4096 = ?n div 64 div 64"
    by (simp_all add: div_mult2_eq [symmetric])
  have eq2: "a * 4096 + b * 64 + c = (a * 64 + b) * 64 + c" by simp
  show "?n div 262144 = a" unfolding step unfolding eq by (simp only: low_digit assms base64_digits)
  show "?n div 4096 mod 64 = b" unfolding step unfolding eq by (simp only: low_digit assms) (simp only: eq2 low_digit assms)
  show "?n div 64 mod 64 = c" "?n mod 64 = d"
    unfolding eq by (simp_all only: low_digit assms base64_digits)
qed

lemma tail_digit:
  assumes "continuation lo hi b" "0x80 \<le> lo" "hi \<le> 0xbf"
  obtains d where "unat b = 0x80 + d" "d < 64" "unat b - 0x80 = d" "lo \<le> 0x80 + d" "0x80 + d \<le> hi"
  using assms that [of "unat b - 0x80"] by (auto simp: continuation_def)

definition scalar :: "nat \<Rightarrow> bool" where
  "scalar r \<longleftrightarrow> r \<le> 0x10ffff \<and> \<not> (0xd800 \<le> r \<and> r \<le> 0xdfff)"

lemma encode_scalar:
  assumes "scalar r"
  shows "r < 0x80 \<Longrightarrow> encode_rune r = [of_nat r]"
    "0x80 \<le> r \<Longrightarrow> r < 0x800 \<Longrightarrow> encode_rune r = [of_nat (0xc0 + r div 64), of_nat (0x80 + r mod 64)]"
    "0x800 \<le> r \<Longrightarrow> r < 0x10000 \<Longrightarrow> encode_rune r =
       [of_nat (0xe0 + r div 4096), of_nat (0x80 + r div 64 mod 64), of_nat (0x80 + r mod 64)]"
    "0x10000 \<le> r \<Longrightarrow> encode_rune r = [of_nat (0xf0 + r div 262144), of_nat (0x80 + r div 4096 mod 64),
       of_nat (0x80 + r div 64 mod 64), of_nat (0x80 + r mod 64)]"
proof -
  have keep: "(if r > 0x10ffff \<or> 0xd800 \<le> r \<and> r \<le> 0xdfff then rune_error else r) = r"
    using assms by (auto simp: scalar_def)
  show "r < 0x80 \<Longrightarrow> encode_rune r = [of_nat r]"
    "0x80 \<le> r \<Longrightarrow> r < 0x800 \<Longrightarrow> encode_rune r = [of_nat (0xc0 + r div 64), of_nat (0x80 + r mod 64)]"
    "0x800 \<le> r \<Longrightarrow> r < 0x10000 \<Longrightarrow> encode_rune r =
       [of_nat (0xe0 + r div 4096), of_nat (0x80 + r div 64 mod 64), of_nat (0x80 + r mod 64)]"
    "0x10000 \<le> r \<Longrightarrow> encode_rune r = [of_nat (0xf0 + r div 262144), of_nat (0x80 + r div 4096 mod 64),
       of_nat (0x80 + r div 64 mod 64), of_nat (0x80 + r mod 64)]"
    unfolding encode_rune_def keep by simp_all
qed

lemma byte_offset: "unat b = k + n \<Longrightarrow> (of_nat (k + n) :: byte) = b"
  by (metis word_byte_of_nat_unat)

lemma decode_encode_2:
  assumes "0xc2 \<le> unat b" "unat b \<le> 0xdf" "continuation 0x80 0xbf b1"
  defines "r \<equiv> (unat b - 0xc0) * 64 + (unat b1 - 0x80)"
  shows "scalar r \<and> encode_rune r = [b, b1]"
proof -
  obtain a where b: "unat b = 0xc0 + a" "2 \<le> a" "a < 32"
    using assms(1,2) that [of "unat b - 0xc0"] by auto
  obtain d where d: "unat b1 = 0x80 + d" "d < 64" by (rule tail_digit [OF assms(3)]) simp_all
  have r: "r = a * 64 + d" by (simp add: r_def b d)
  have range: "0x80 \<le> r" "r < 0x800" "r div 64 = a" "r mod 64 = d" using b(2,3) d(2) by (simp_all add: r)
  then have "scalar r" by (simp add: scalar_def)
  then show ?thesis
    using encode_scalar(2) [of r] range byte_offset [OF b(1)] byte_offset [OF d(1)] by simp
qed

lemma decode_encode_3:
  assumes "0xe0 \<le> unat b" "unat b \<le> 0xef" "second_range (unat b) = (lo, hi)"
    and "continuation lo hi b1" "continuation 0x80 0xbf b2"
  defines "r \<equiv> (unat b - 0xe0) * 4096 + (unat b1 - 0x80) * 64 + (unat b2 - 0x80)"
  shows "scalar r \<and> encode_rune r = [b, b1, b2]"
proof -
  have bounds: "0x80 \<le> lo" "hi \<le> 0xbf" "unat b = 0xe0 \<longrightarrow> lo = 0xa0" "unat b = 0xed \<longrightarrow> hi = 0x9f"
    using assms(3) by (auto simp: second_range_def split: if_splits)
  obtain a where b: "unat b = 0xe0 + a" "a < 16" using assms(1,2) that [of "unat b - 0xe0"] by auto
  obtain d where d: "unat b1 = 0x80 + d" "d < 64" "lo \<le> 0x80 + d" "0x80 + d \<le> hi"
    by (rule tail_digit [OF assms(4) bounds(1,2)])
  obtain e where e: "unat b2 = 0x80 + e" "e < 64" by (rule tail_digit [OF assms(5)]) simp_all
  have r: "r = a * 4096 + d * 64 + e" by (simp add: r_def b d e)
  have first: "a = 0 \<longrightarrow> 0x20 \<le> d" "a = 0xd \<longrightarrow> d \<le> 0x1f" using bounds(3,4) b(1) d(3,4) by auto
  have low: "0x800 \<le> r" using first(1) by (cases "a = 0") (simp_all add: r)
  have high: "r < 0x10000" using b(2) d(2) e(2) by (simp add: r)
  have "r < 0xd800 \<or> 0xdfff < r"
    using first(2) d(2) e(2) by (cases "a \<le> 0xc"; cases "a = 0xd") (simp_all add: r)
  then have "scalar r" using high by (auto simp: scalar_def)
  then show ?thesis
    using encode_scalar(3) [OF _ low high] byte_offset [OF b(1)] byte_offset [OF d(1)] byte_offset [OF e(1)] d(2) e(2)
    by (simp add: r base64_digits)
qed

lemma decode_encode_4:
  assumes "0xf0 \<le> unat b" "unat b \<le> 0xf4" "second_range (unat b) = (lo, hi)"
    and "continuation lo hi b1" "continuation 0x80 0xbf b2" "continuation 0x80 0xbf b3"
  defines "r \<equiv> (unat b - 0xf0) * 262144 + (unat b1 - 0x80) * 4096 + (unat b2 - 0x80) * 64 + (unat b3 - 0x80)"
  shows "scalar r \<and> encode_rune r = [b, b1, b2, b3]"
proof -
  have bounds: "0x80 \<le> lo" "hi \<le> 0xbf" "unat b = 0xf0 \<longrightarrow> lo = 0x90" "unat b = 0xf4 \<longrightarrow> hi = 0x8f"
    using assms(3) by (auto simp: second_range_def split: if_splits)
  obtain a where b: "unat b = 0xf0 + a" "a \<le> 4" using assms(1,2) that [of "unat b - 0xf0"] by auto
  obtain d where d: "unat b1 = 0x80 + d" "d < 64" "lo \<le> 0x80 + d" "0x80 + d \<le> hi"
    by (rule tail_digit [OF assms(4) bounds(1,2)])
  obtain e where e: "unat b2 = 0x80 + e" "e < 64" by (rule tail_digit [OF assms(5)]) simp_all
  obtain f where f: "unat b3 = 0x80 + f" "f < 64" by (rule tail_digit [OF assms(6)]) simp_all
  have r: "r = a * 262144 + d * 4096 + e * 64 + f" by (simp add: r_def b d e f)
  have first: "a = 0 \<longrightarrow> 0x10 \<le> d" "a = 4 \<longrightarrow> d \<le> 0xf" using bounds(3,4) b(1) d(3,4) by auto
  have low: "0x10000 \<le> r" using first(1) by (cases "a = 0") (simp_all add: r)
  have "r \<le> 0x10ffff" using b(2) first(2) d(2) e(2) f(2) by (cases "a = 4") (simp_all add: r)
  then have "scalar r" using low by (auto simp: scalar_def)
  then show ?thesis
    using encode_scalar(4) [OF _ low] byte_offset [OF b(1)] byte_offset [OF d(1)] byte_offset [OF e(1)]
      byte_offset [OF f(1)] d(2) e(2) f(2)
    by (simp add: r base64_digits4)
qed

lemma decode_encode:
  assumes "decode_rune bs = (r, width)" "bs \<noteq> []" "\<not> (r = rune_error \<and> width = 1)"
  shows "scalar r \<and> encode_rune r = take width bs"
proof -
  obtain b tl where bs: "bs = b # tl" using assms(2) by (cases bs) auto
  obtain lo hi where range: "second_range (unat b) = (lo, hi)" by fastforce
  have ok: "decode_rune (b # tl) \<noteq> (rune_error, 1)" using assms(1,3) bs by auto
  consider "unat b < 0x80" | "0xc2 \<le> unat b" "unat b \<le> 0xdf" | "0xe0 \<le> unat b" "unat b \<le> 0xef"
    | "0xf0 \<le> unat b" "unat b \<le> 0xf4"
    using ok by (fastforce simp: range Let_def)
  then show ?thesis
  proof cases
    case 1
    then show ?thesis using assms(1) by (auto simp: bs range Let_def encode_scalar(1) scalar_def take_Cons')
  next
    case 2
    then have "lo = 0x80" "hi = 0xbf" using range by (auto simp: second_range_def)
    with 2 ok decode_encode_2 [OF 2] assms(1) show ?thesis
      by (cases tl) (auto simp: bs range Let_def split: if_splits)
  next
    case 3
    with ok decode_encode_3 [OF 3 range] assms(1) show ?thesis
      by (cases tl; cases "List.tl tl") (auto simp: bs range Let_def split: if_splits)
  next
    case 4
    with ok decode_encode_4 [OF 4 range] assms(1) show ?thesis
      by (cases tl; cases "List.tl tl"; cases "List.tl (List.tl tl)")
        (auto simp: bs range Let_def split: if_splits)
  qed
qed

text \<open>A string that decodes without error is the encoding of its runes.\<close>

definition valid_utf8 :: "bytes \<Rightarrow> bool" where
  "valid_utf8 bs \<longleftrightarrow> list_all scalar (runes bs) \<and> encode_runes (runes bs) = bs"

lemma runes_Nil [simp]: "runes [] = []"
  by (simp add: runes.simps)

lemma valid_utf8_step:
  assumes "decode_rune bs = (r, width)" "bs \<noteq> []" "\<not> (r = rune_error \<and> width = 1)"
    and "valid_utf8 (drop width bs)"
  shows "valid_utf8 bs"
  using decode_encode [OF assms(1-3)] assms(4)
  by (subst valid_utf8_def) (simp add: runes.simps [of bs] assms(1,2) encode_runes_def valid_utf8_def)

section \<open>UTF-16\<close>

definition high_surrogate :: "u16 \<Rightarrow> bool" where
  "high_surrogate u \<longleftrightarrow> 0xd800 \<le> u \<and> u \<le> 0xdbff"

definition low_surrogate :: "u16 \<Rightarrow> bool" where
  "low_surrogate u \<longleftrightarrow> 0xdc00 \<le> u \<and> u \<le> 0xdfff"

text \<open>The units of a rune, with \<open>utf16.EncodeRune\<close> above the basic plane.\<close>

definition rune_units :: "nat \<Rightarrow> u16 list" where
  "rune_units r =
     (if r \<le> 0xffff then [of_nat r]
      else [of_nat (0xd800 + (r - 0x10000) div 1024 mod 1024), of_nat (0xdc00 + (r - 0x10000) mod 1024)])"

text \<open>\<open>utf16.Decode\<close>: an unpaired surrogate becomes the replacement rune.\<close>

fun utf16_decode :: "u16 list \<Rightarrow> nat list" where
  "utf16_decode [] = []"
| "utf16_decode [u] = [if high_surrogate u \<or> low_surrogate u then rune_error else unat u]"
| "utf16_decode (u # v # us) =
     (if high_surrogate u \<and> low_surrogate v
      then ((unat u - 0xd800) * 1024 + (unat v - 0xdc00) + 0x10000) # utf16_decode us
      else (if high_surrogate u \<or> low_surrogate u then rune_error else unat u) # utf16_decode (v # us))"

lemma utf16_decode_plain:
  "\<not> high_surrogate u \<Longrightarrow> \<not> low_surrogate u \<Longrightarrow> utf16_decode (u # us) = unat u # utf16_decode us"
  by (cases us) auto

lemma unat_of_nat_16: "n < 65536 \<Longrightarrow> unat (of_nat n :: u16) = n"
  by (simp add: unat_of_nat take_bit_nat_eq_self)

lemma rune_units_basic:
  assumes "scalar r" "r \<le> 0xffff"
  shows "rune_units r = [of_nat r]" "unat (of_nat r :: u16) = r"
    "\<not> high_surrogate (of_nat r)" "\<not> low_surrogate (of_nat r)"
  using assms
  by (auto simp: rune_units_def high_surrogate_def low_surrogate_def word_le_nat_alt unat_of_nat_16 scalar_def)

lemma rune_units_pair:
  assumes "scalar r" "0xffff < r"
  obtains u v where "rune_units r = [u, v]" "high_surrogate u" "low_surrogate v"
    "(unat u - 0xd800) * 1024 + (unat v - 0xdc00) + 0x10000 = r"
proof -
  have "r \<le> 1114111" using assms(1) by (simp add: scalar_def)
  then have "r - 0x10000 < 1048576" by simp
  then have digit: "(r - 0x10000) div 1024 < 1024" by (simp add: less_mult_imp_div_less)
  have units: "unat (of_nat (0xd800 + (r - 0x10000) div 1024) :: u16) = 0xd800 + (r - 0x10000) div 1024"
    "unat (of_nat (0xdc00 + (r - 0x10000) mod 1024) :: u16) = 0xdc00 + (r - 0x10000) mod 1024"
    using digit by (auto simp del: of_nat_add intro!: unat_of_nat_16)
  show thesis
  proof (rule that)
    show "rune_units r = [of_nat (0xd800 + (r - 0x10000) div 1024), of_nat (0xdc00 + (r - 0x10000) mod 1024)]"
      using assms(2) digit by (simp add: rune_units_def)
  qed (use digit assms(2) in \<open>simp_all only: high_surrogate_def low_surrogate_def word_le_nat_alt units\<close>, auto)
qed

lemma utf16_decode_units:
  "list_all scalar rs \<Longrightarrow> utf16_decode (concat (map rune_units rs)) = rs"
proof (induction rs)
  case (Cons r rs)
  then show ?case
  proof (cases "r \<le> 0xffff")
    case True
    with Cons show ?thesis by (simp add: rune_units_basic utf16_decode_plain)
  next
    case False
    with Cons.prems obtain u v where "rune_units r = [u, v]" "high_surrogate u" "low_surrogate v"
        "(unat u - 0xd800) * 1024 + (unat v - 0xdc00) + 0x10000 = r"
      by (auto elim: rune_units_pair)
    with Cons show ?thesis by simp
  qed
qed simp

end
