(* ===== verification/CodecReader.thy ===== *)
theory CodecReader
  imports Wire
begin

text \<open>
  The CtrlCmd wire reader of \<open>internal/adapters/ctrlcmd/codec\<close>: the error categories and limits
  (\<open>error.go\<close>, \<open>limits.go\<close>), the request frame (\<open>frame.go\<close>) and the bounded reader with its
  strings, structures and vectors (\<open>reader.go\<close>).  A method of \<open>*Reader\<close> is a function from the
  reader to a result and the reader it leaves; the item budget that parent and child readers share
  by pointer is handed to the child and taken back from it.  A callback that may be \<open>nil\<close> is an option.
\<close>

section \<open>Errors\<close>

datatype category = Truncated | Malformed | OverLimit | Unsupported | Timeout | Saturated
  | PeerDisconnect | Internal

record codec_error =
  ce_category :: category
  ce_reason :: string
  ce_offset :: int
  ce_size :: int

definition failure :: "category \<Rightarrow> string \<Rightarrow> int \<Rightarrow> int \<Rightarrow> codec_error" where
  "failure category reason offset amount =
     (if length reason > 96
      then \<lparr>ce_category = Internal, ce_reason = ''reason-over-limit'', ce_offset = offset, ce_size = amount\<rparr>
      else \<lparr>ce_category = category, ce_reason = reason, ce_offset = offset, ce_size = amount\<rparr>)"

section \<open>Limits\<close>

record limits =
  lm_request_body :: int
  lm_response_body :: int
  lm_structure_extent :: int
  lm_string_extent :: int
  lm_vector_elements :: int
  lm_depth :: int
  lm_logical_items :: int

definition default_limits :: limits where
  "default_limits = \<lparr>lm_request_body = 1 * 1024 * 1024, lm_response_body = 256 * 1024 * 1024,
     lm_structure_extent = 16 * 1024 * 1024, lm_string_extent = 256 * 1024, lm_vector_elements = 65536,
     lm_depth = 12, lm_logical_items = 1048576\<rparr>"

definition limit_values :: "limits \<Rightarrow> int list" where
  "limit_values l = [lm_request_body l, lm_response_body l, lm_structure_extent l, lm_string_extent l,
     lm_vector_elements l, lm_depth l, lm_logical_items l]"

fun limits_of :: "int list \<Rightarrow> limits" where
  "limits_of [a, b, c, d, e, f, g] = \<lparr>lm_request_body = a, lm_response_body = b, lm_structure_extent = c,
     lm_string_extent = d, lm_vector_elements = e, lm_depth = f, lm_logical_items = g\<rparr>"
| "limits_of _ = default_limits"

fun normalize_values :: "(int \<times> int) list \<Rightarrow> (codec_error, int list) result" where
  "normalize_values [] = Inr []"
| "normalize_values ((given, hard) # rest) =
     (let v = (if given = 0 then hard else given) in
      if v < 1 \<or> v > hard then Inl (failure OverLimit ''effective-limit'' 0 v)
      else result_bind (normalize_values rest) (\<lambda>vs. Inr (v # vs)))"

definition normalized :: "limits \<Rightarrow> (codec_error, limits) result" where
  "normalized l =
     result_bind (normalize_values (zip (limit_values l) (limit_values default_limits))) (\<lambda>vs. Inr (limits_of vs))"

definition within_hard_limits :: "limits \<Rightarrow> bool" where
  "within_hard_limits l \<longleftrightarrow> list_all2 (\<lambda>v hard. 1 \<le> v \<and> v \<le> hard) (limit_values l) (limit_values default_limits)"

lemma normalize_values_within:
  "normalize_values (zip gs hs) = Inr vs \<Longrightarrow> length gs = length hs \<Longrightarrow>
   list_all2 (\<lambda>v hard. 1 \<le> v \<and> v \<le> hard) vs hs"
  by (induction gs hs arbitrary: vs rule: list_induct2')
    (auto simp: result_bind_eq_Inr Let_def split: if_splits)

lemma normalize_values_idem:
  "list_all2 (\<lambda>v hard. 1 \<le> v \<and> v \<le> hard) vs hs \<Longrightarrow> normalize_values (zip vs hs) = Inr vs"
  by (induction rule: list_all2_induct) (auto simp: Let_def)

lemma length_limit_values: "length (limit_values l) = 7"
  by (simp add: limit_values_def)

lemma limits_of_values: "limits_of (limit_values l) = l"
  by (cases l) (simp add: limit_values_def)

lemma limit_values_of: "length vs = 7 \<Longrightarrow> limit_values (limits_of vs) = vs"
  by (cases vs rule: limits_of.cases) (auto simp: limit_values_def)

lemma normalized_within:
  assumes "normalized l = Inr l'"
  shows "within_hard_limits l'"
proof -
  obtain vs where vs: "normalize_values (zip (limit_values l) (limit_values default_limits)) = Inr vs"
      "l' = limits_of vs"
    using assms by (auto simp: normalized_def result_bind_eq_Inr)
  have all: "list_all2 (\<lambda>v hard. 1 \<le> v \<and> v \<le> hard) vs (limit_values default_limits)"
    using normalize_values_within [OF vs(1)] by (simp add: length_limit_values)
  then have "length vs = 7" by (auto dest: list_all2_lengthD simp: length_limit_values)
  with all show ?thesis by (simp add: vs(2) within_hard_limits_def limit_values_of)
qed

lemma normalized_idem: "within_hard_limits l \<Longrightarrow> normalized l = Inr l"
  by (simp add: normalized_def within_hard_limits_def normalize_values_idem limits_of_values)

section \<open>Request frames\<close>

record frame =
  fr_code :: i32
  fr_body :: bytes

definition header_size :: nat where
  "header_size = 8"

definition parse_request_frame :: "bytes \<Rightarrow> limits \<Rightarrow> (codec_error, frame) result" where
  "parse_request_frame input given =
     result_bind (normalized given) (\<lambda>limits.
       if length input < header_size
       then Inl (failure Truncated ''outer-header'' (int (length input)) (int header_size))
       else
         let code = (le_get (slice 0 4 input) :: i32); declared = sint (le_get (slice 4 8 input) :: i32) in
         if declared < 0 then Inl (failure Malformed ''negative-body-length'' 4 declared)
         else if declared > lm_request_body limits then Inl (failure OverLimit ''request-body'' 4 declared)
         else if int (length input) - int header_size \<noteq> declared
         then Inl (failure (if int (length input) - int header_size < declared then Truncated else Malformed)
                ''body-length-mismatch'' (int header_size) declared)
         else Inr \<lparr>fr_code = code, fr_body = drop header_size input\<rparr>)"

section \<open>The reader\<close>

record reader =
  rd_data :: bytes
  rd_pos :: nat
  rd_depth :: int
  rd_limits :: limits
  rd_budget :: int

type_synonym 'a read = "reader \<Rightarrow> (codec_error, 'a) result \<times> reader"

definition new_reader :: "bytes \<Rightarrow> limits \<Rightarrow> (codec_error, reader) result" where
  "new_reader data given =
     result_bind (normalized given) (\<lambda>limits.
       Inr \<lparr>rd_data = data, rd_pos = 0, rd_depth = 0, rd_limits = limits, rd_budget = lm_logical_items limits\<rparr>)"

definition remaining :: "reader \<Rightarrow> int" where
  "remaining r = int (length (rd_data r)) - int (rd_pos r)"

text \<open>Sequencing with the early return of \<open>if err != nil\<close>.\<close>

definition read_return :: "'a \<Rightarrow> 'a read" where
  "read_return x r = (Inr x, r)"

definition read_fail :: "codec_error \<Rightarrow> 'a read" where
  "read_fail e r = (Inl e, r)"

definition read_bind :: "'a read \<Rightarrow> ('a \<Rightarrow> 'b read) \<Rightarrow> 'b read" where
  "read_bind m f r = (case m r of (Inl e, r') \<Rightarrow> (Inl e, r') | (Inr x, r') \<Rightarrow> f x r')"

definition consume_item :: "unit read" where
  "consume_item r =
     (if rd_budget r \<le> 0 then read_fail (failure OverLimit ''logical-item-budget'' (int (rd_pos r)) 0) r
      else (Inr (), r\<lparr>rd_budget := rd_budget r - 1\<rparr>))"

definition take_bytes :: "int \<Rightarrow> bytes read" where
  "take_bytes width r =
     (if width < 0 \<or> width > remaining r
      then read_fail (failure Truncated ''field-width'' (int (rd_pos r)) width) r
      else (Inr (slice (rd_pos r) (rd_pos r + nat width) (rd_data r)), r\<lparr>rd_pos := rd_pos r + nat width\<rparr>))"

definition read_int :: "int \<Rightarrow> 'a::len word read" where
  "read_int width = read_bind consume_item (\<lambda>_. read_bind (take_bytes width) (\<lambda>bs. read_return (le_get bs)))"

definition read_i32 :: "i32 read" where
  "read_i32 = read_int 4"

definition read_i64 :: "i64 read" where
  "read_i64 = read_int 8"

definition read_u8 :: "byte read" where
  "read_u8 = read_int 1"

definition read_u16 :: "u16 read" where
  "read_u16 = read_int 2"

definition read_u32 :: "u32 read" where
  "read_u32 = read_int 4"

section \<open>Strings\<close>

text \<open>The scan of the units of a string: no NUL and no unpaired surrogate.\<close>

fun check_units :: "u16 list \<Rightarrow> string option" where
  "check_units [] = None"
| "check_units (u # us) =
     (if u = 0 then Some ''embedded-nul''
      else if high_surrogate u then
        (case us of
           [] \<Rightarrow> Some ''unpaired-high-surrogate''
         | v # us' \<Rightarrow> if low_surrogate v then check_units us' else Some ''unpaired-high-surrogate'')
      else if low_surrogate u then Some ''unpaired-low-surrogate''
      else check_units us)"

definition string_units :: "bytes \<Rightarrow> u16 list" where
  "string_units data = map le_get (blocks 2 data)"

definition read_string :: "bytes read" where
  "read_string r0 =
     (let start = int (rd_pos r0) in
      read_bind read_i32 (\<lambda>extent r.
        if sint extent < 6 \<or> sint extent mod 2 \<noteq> 0
        then read_fail (failure Malformed ''string-extent'' start (sint extent)) r
        else if sint extent > lm_string_extent (rd_limits r)
        then read_fail (failure OverLimit ''string-extent'' start (sint extent)) r
        else read_bind (take_bytes (sint extent - 4)) (\<lambda>data.
          let units = string_units data in
          if last units \<noteq> 0
          then read_fail (failure Malformed ''missing-string-terminator'' start (sint extent))
          else case check_units (butlast units) of
            Some reason \<Rightarrow> read_fail (failure Malformed reason start (sint extent))
          | None \<Rightarrow> read_return (encode_runes (utf16_decode (butlast units)))) r) r0)"

section \<open>Structures and vectors\<close>

definition exact :: "unit read" where
  "exact r =
     (if rd_pos r \<noteq> length (rd_data r)
      then read_fail (failure Malformed ''trailing-bytes'' (int (rd_pos r)) (remaining r)) r
      else read_return () r)"

text \<open>Running a callback on the child reader of \<open>[start, start + extent)\<close>, positioned behind its header.\<close>

definition in_child :: "nat \<Rightarrow> nat \<Rightarrow> nat \<Rightarrow> 'a read \<Rightarrow> 'a read" where
  "in_child start extent header fn r =
     (let child = r\<lparr>rd_data := slice start (start + extent) (rd_data r), rd_pos := header, rd_depth := rd_depth r + 1\<rparr> in
      case read_bind fn (\<lambda>x. read_bind exact (\<lambda>_. read_return x)) child of
        (Inl e, c) \<Rightarrow> (Inl e, r\<lparr>rd_budget := rd_budget c\<rparr>)
      | (Inr x, c) \<Rightarrow> (Inr x, r\<lparr>rd_pos := start + extent, rd_budget := rd_budget c\<rparr>))"

definition read_structure :: "'a read option \<Rightarrow> 'a read" where
  "read_structure fn r0 =
     (case fn of
        None \<Rightarrow> read_fail (failure Internal ''nil-structure-reader'' (int (rd_pos r0)) 0) r0
      | Some fn \<Rightarrow>
          if rd_depth r0 \<ge> lm_depth (rd_limits r0)
          then read_fail (failure OverLimit ''structure-depth'' (int (rd_pos r0)) (rd_depth r0 + 1)) r0
          else
            let start = rd_pos r0 in
            read_bind read_i32 (\<lambda>extent r.
              if sint extent < 4 then read_fail (failure Malformed ''structure-extent'' (int start) (sint extent)) r
              else if sint extent > lm_structure_extent (rd_limits r)
              then read_fail (failure OverLimit ''structure-extent'' (int start) (sint extent)) r
              else if sint extent - 4 > remaining r
              then read_fail (failure Truncated ''structure-body'' (int (rd_pos r)) (sint extent - 4)) r
              else in_child start (nat (sint extent)) 4 fn r) r0)"

primrec read_items :: "(int \<Rightarrow> 'a read) \<Rightarrow> int \<Rightarrow> nat \<Rightarrow> 'a list read" where
  "read_items fn i 0 = read_return []"
| "read_items fn i (Suc n) =
     read_bind (fn i) (\<lambda>x. read_bind (read_items fn (i + 1) n) (\<lambda>xs. read_return (x # xs)))"

definition vector_maximum :: "int \<Rightarrow> limits \<Rightarrow> int" where
  "vector_maximum effective_max l =
     (if effective_max > 0 \<and> effective_max < lm_vector_elements l then effective_max else lm_vector_elements l)"

definition read_vector :: "int \<Rightarrow> int \<Rightarrow> (int \<Rightarrow> 'a read) option \<Rightarrow> 'a list read" where
  "read_vector minimum_bytes effective_max fn r0 =
     (case fn of
        None \<Rightarrow> read_fail (failure Internal ''nil-vector-reader'' (int (rd_pos r0)) 0) r0
      | Some fn \<Rightarrow>
          if rd_depth r0 \<ge> lm_depth (rd_limits r0)
          then read_fail (failure OverLimit ''vector-depth'' (int (rd_pos r0)) (rd_depth r0 + 1)) r0
          else
            let start = rd_pos r0 in
            read_bind read_i32 (\<lambda>extent. read_bind read_i32 (\<lambda>count r.
              if sint extent < 8 \<or> sint count < 0
              then read_fail (failure Malformed ''vector-header'' (int start) (sint extent)) r
              else if sint extent > lm_structure_extent (rd_limits r)
              then read_fail (failure OverLimit ''vector-extent'' (int start) (sint extent)) r
              else if sint count > vector_maximum effective_max (rd_limits r)
              then read_fail (failure OverLimit ''vector-count'' (int start + 4) (sint count)) r
              else if sint extent - 8 < 0 \<or> sint extent - 8 > remaining r
              then read_fail (failure Truncated ''vector-body'' (int (rd_pos r)) (sint extent - 8)) r
              else if minimum_bytes < 1 \<or>
                 (sint count > 0 \<and> minimum_bytes > (sint extent - 8) div sint count)
              then read_fail (failure Malformed ''vector-count-impossible'' (int start + 4) (sint count)) r
              else in_child start (nat (sint extent)) 8 (read_items fn 0 (nat (sint count))) r)) r0)"

end
