(* ===== verification/CodecWriter.thy ===== *)
theory CodecWriter
  imports CodecReader
begin

text \<open>
  The CtrlCmd wire writer of \<open>internal/adapters/ctrlcmd/codec/writer.go\<close>: integers, strings and the
  bounded response frame.  The destination is a parameter: a sink takes bytes and its state and
  returns the accepted count, an error and its new state.  The interface \<open>byte_sink\<close> states what
  \<open>io.Writer\<close> documents; the lemmas about the writer are proved against it, and both the buffer and
  the code's own \<open>boundedWriter\<close> provide it.
\<close>

section \<open>The writer\<close>

datatype 'e wire_error = CodecError codec_error | SinkError 'e

type_synonym ('e, 'd) sink = "bytes \<Rightarrow> 'd \<Rightarrow> int \<times> 'e wire_error option \<times> 'd"

record 'd writer =
  wr_dest :: 'd
  wr_written :: int
  wr_limits :: limits

type_synonym ('e, 'd) write_op = "'d writer \<Rightarrow> 'e wire_error option \<times> 'd writer"

definition new_writer :: "'d option \<Rightarrow> limits \<Rightarrow> (codec_error, 'd writer) result" where
  "new_writer destination given =
     (case destination of
        None \<Rightarrow> Inl (failure Internal ''nil-writer'' 0 0)
      | Some d \<Rightarrow> result_bind (normalized given) (\<lambda>limits.
          Inr \<lparr>wr_dest = d, wr_written = 0, wr_limits = limits\<rparr>))"

definition write_fail :: "codec_error \<Rightarrow> ('e, 'd) write_op" where
  "write_fail e w = (Some (CodecError e), w)"

definition write_then :: "('e, 'd) write_op \<Rightarrow> ('e, 'd) write_op \<Rightarrow> ('e, 'd) write_op" where
  "write_then m1 m2 w = (case m1 w of (Some e, w') \<Rightarrow> (Some e, w') | (None, w') \<Rightarrow> m2 w')"

text \<open>The loop of \<open>Writer.write\<close>: partial writes are continued, an error or no progress ends it.\<close>

function write_all :: "('e, 'd) sink \<Rightarrow> bytes \<Rightarrow> ('e, 'd) write_op" where
  "write_all sink data w =
     (if data = [] then (None, w)
      else case sink data (wr_dest w) of (n, err, d) \<Rightarrow>
        if n < 0 \<or> n > int (length data)
        then write_fail (failure Internal ''invalid-write-count'' (wr_written w) n) (w\<lparr>wr_dest := d\<rparr>)
        else
          let w' = w\<lparr>wr_dest := d, wr_written := wr_written w + n\<rparr>; rest = drop (nat n) data in
          (case err of
             Some e \<Rightarrow> (Some e, w')
           | None \<Rightarrow>
               if n = 0
               then write_fail (failure PeerDisconnect ''zero-progress-write'' (wr_written w') (int (length rest))) w'
               else write_all sink rest w'))"
  by pat_completeness auto
termination by (relation "measure (\<lambda>(sink, data, w). length data)") auto

declare write_all.simps [simp del]

definition write_i32 :: "('e, 'd) sink \<Rightarrow> i32 \<Rightarrow> ('e, 'd) write_op" where
  "write_i32 sink v = write_all sink (le_put 4 v)"

definition write_i64 :: "('e, 'd) sink \<Rightarrow> i64 \<Rightarrow> ('e, 'd) write_op" where
  "write_i64 sink v = write_all sink (le_put 8 v)"

definition write_u8 :: "('e, 'd) sink \<Rightarrow> byte \<Rightarrow> ('e, 'd) write_op" where
  "write_u8 sink v = write_all sink [v]"

definition write_u16 :: "('e, 'd) sink \<Rightarrow> u16 \<Rightarrow> ('e, 'd) write_op" where
  "write_u16 sink v = write_all sink (le_put 2 v)"

definition write_u32 :: "('e, 'd) sink \<Rightarrow> u32 \<Rightarrow> ('e, 'd) write_op" where
  "write_u32 sink v = write_all sink (le_put 4 v)"

definition write_bytes :: "('e, 'd) sink \<Rightarrow> bytes \<Rightarrow> ('e, 'd) write_op" where
  "write_bytes sink v = write_all sink v"

section \<open>Strings\<close>

text \<open>The scan of \<open>StringSize\<close> over a string of \<open>whole\<close> bytes: the units counted so far.\<close>

function count_units :: "int \<Rightarrow> nat \<Rightarrow> nat \<Rightarrow> int \<Rightarrow> bytes \<Rightarrow> (codec_error, int) result" where
  "count_units max_units whole offset count bs =
     (if bs = [] then Inr count
      else
        let r = fst (decode_rune bs); width = snd (decode_rune bs) in
        if r = rune_error \<and> width = 1
        then Inl (failure Malformed ''invalid-utf8-input'' (int offset) (int whole))
        else if r = 0 \<or> (0xd800 \<le> r \<and> r \<le> 0xdfff)
        then Inl (failure Malformed ''invalid-string-codepoint'' (int offset) (int r))
        else
          let count' = (if r \<le> 0xffff then count + 1 else count + 2) in
          if count' > max_units
          then Inl (failure OverLimit ''string-extent'' (int offset) (4 + (count' + 1) * 2))
          else count_units max_units whole (offset + width) count' (drop width bs))"
  by pat_completeness auto
termination by (relation "measure (\<lambda>(_, _, _, _, bs). length bs)") (auto dest: decode_rune_width)

declare count_units.simps [simp del]

definition string_size :: "bytes \<Rightarrow> limits \<Rightarrow> (codec_error, int) result" where
  "string_size v given =
     result_bind (normalized given) (\<lambda>limits.
     result_bind (count_units ((lm_string_extent limits - 6) div 2) (length v) 0 0 v) (\<lambda>count.
       let extent = 4 + (count + 1) * 2 in
       if extent > lm_string_extent limits \<or> extent > 2 ^ 31 - 1
       then Inl (failure OverLimit ''string-extent'' (int (length v)) extent)
       else Inr extent))"

primrec write_units :: "('e, 'd) sink \<Rightarrow> u16 list \<Rightarrow> ('e, 'd) write_op" where
  "write_units sink [] = (\<lambda>w. (None, w))"
| "write_units sink (u # us) = write_then (write_all sink (le_put 2 u)) (write_units sink us)"

definition write_string :: "('e, 'd) sink \<Rightarrow> bytes \<Rightarrow> ('e, 'd) write_op" where
  "write_string sink v w =
     (case string_size v (wr_limits w) of
        Inl e \<Rightarrow> write_fail e w
      | Inr extent \<Rightarrow>
          write_then (write_i32 sink (of_int extent))
            (write_then (write_units sink (concat (map rune_units (runes v)))) (write_u16 sink 0)) w)"

section \<open>Response frames\<close>

text \<open>\<open>boundedWriter\<close>: the inner destination with the bytes that may still be written.\<close>

definition bounded_write :: "('e, 'd) sink \<Rightarrow> ('e, 'd \<times> int) sink" where
  "bounded_write sink data st =
     (case st of (d, left) \<Rightarrow>
        if int (length data) > left
        then (0, Some (CodecError (failure Internal ''writer-size-overrun'' 0 (int (length data)))), (d, left))
        else case sink data d of (n, err, d') \<Rightarrow>
          if n < 0 \<or> n > int (length data)
          then (0, Some (CodecError (failure Internal ''invalid-write-count'' 0 n)), (d', left))
          else (n, err, (d', left - n)))"

definition write_body :: "('e, 'd) sink \<Rightarrow> 'd \<Rightarrow> int \<Rightarrow> limits \<Rightarrow> ('e, 'd \<times> int) write_op \<Rightarrow>
    'e wire_error option \<times> 'd" where
  "write_body sink d body_size limits body =
     (case new_writer (Some (d, body_size)) limits of
        Inl e \<Rightarrow> (Some (CodecError e), d)
      | Inr bw \<Rightarrow>
          (case body bw of
             (Some e, bw') \<Rightarrow> (Some e, fst (wr_dest bw'))
           | (None, bw') \<Rightarrow>
               if snd (wr_dest bw') \<noteq> 0
               then (Some (CodecError (failure Internal ''writer-size-underrun'' (wr_written bw') (snd (wr_dest bw')))),
                     fst (wr_dest bw'))
               else (None, fst (wr_dest bw'))))"

text \<open>A \<open>nil\<close> destination is \<open>None\<close>, and is returned as it was given.\<close>

definition write_frame :: "('e, 'd) sink \<Rightarrow> 'd option \<Rightarrow> i32 \<Rightarrow> int \<Rightarrow> limits \<Rightarrow>
    ('e, 'd \<times> int) write_op option \<Rightarrow> 'e wire_error option \<times> 'd option" where
  "write_frame sink destination code body_size given body =
     (case normalized given of
        Inl e \<Rightarrow> (Some (CodecError e), destination)
      | Inr limits \<Rightarrow>
          if body_size < 0 \<or> body_size > lm_response_body limits \<or> body_size > 2 ^ 31 - 1
          then (Some (CodecError (failure OverLimit ''response-body'' 0 body_size)), destination)
          else (case body of
            None \<Rightarrow> (Some (CodecError (failure Internal ''nil-frame-body'' 0 body_size)), destination)
          | Some body \<Rightarrow>
              (case new_writer destination limits of
                 Inl e \<Rightarrow> (Some (CodecError e), destination)
               | Inr header \<Rightarrow>
                   (case write_then (write_i32 sink code) (write_i32 sink (of_int body_size)) header of
                      (Some e, header') \<Rightarrow> (Some e, Some (wr_dest header'))
                    | (None, header') \<Rightarrow>
                        map_prod id Some (write_body sink (wr_dest header') body_size limits body)))))"

end
