(* ===== verification/CodecFrames.thy ===== *)
theory CodecFrames
  imports CodecWriter "HOL-Library.Sublist"
begin

text \<open>
  What the wire codec promises.  \<open>byte_sink\<close> is the contract of a destination, and under it every
  method of the writer appends a prefix of its encoding, the whole encoding when it succeeds.
  \<open>wire_codec\<close> is the contract between an encoding and its reader; vectors and structures of a codec
  are codecs again.  The properties put both together over whole frames.
\<close>

section \<open>Encodings\<close>

text \<open>What \<open>StringSize\<close> accepts: valid text without NUL, of the counted number of units.\<close>

definition text_units :: "bytes \<Rightarrow> u16 list" where
  "text_units v = concat (map rune_units (runes v))"

definition plain_text :: "bytes \<Rightarrow> bool" where
  "plain_text v \<longleftrightarrow> valid_utf8 v \<and> 0 \<notin> set (runes v)"

definition string_bytes :: "bytes \<Rightarrow> bytes" where
  "string_bytes v = le_put 4 (of_nat (4 + (length (text_units v) + 1) * 2) :: i32) @
     concat (map (le_put 2) (text_units v)) @ le_put 2 (0 :: u16)"

lemma length_string_bytes: "length (string_bytes v) = 4 + (length (text_units v) + 1) * 2"
  by (simp add: string_bytes_def length_concat o_def sum_list_triv)

lemma length_rune_units: "int (length (rune_units r)) = (if r \<le> 0xffff then 1 else 2)"
  by (simp add: rune_units_def)

lemma count_units_sound:
  "count_units m t off c bs = Inr n \<Longrightarrow> plain_text bs \<and> n = c + int (length (text_units bs))"
proof (induction m t off c bs arbitrary: n rule: count_units.induct)
  case (1 m t off c bs)
  show ?case
  proof (cases "bs = []")
    case True
    then show ?thesis using "1.prems"
      by (subst (asm) count_units.simps) (simp add: plain_text_def valid_utf8_def encode_runes_def text_units_def)
  next
    case False
    let ?r = "fst (decode_rune bs)" and ?w = "snd (decode_rune bs)"
    let ?c = "if ?r \<le> 0xffff then c + 1 else c + 2"
    from "1.prems" False have ok: "\<not> (?r = rune_error \<and> ?w = 1)" "?r \<noteq> 0"
        "count_units m t (off + ?w) ?c (drop ?w bs) = Inr n"
      by (auto simp: count_units.simps [of m t off c bs] Let_def split: if_splits)
    have "plain_text (drop ?w bs) \<and> n = ?c + int (length (text_units (drop ?w bs)))"
      using "1.IH" [OF False refl refl _ _ refl] "1.prems" False ok
      by (auto simp: count_units.simps [of m t off c bs] Let_def split: if_splits)
    moreover from calculation have "valid_utf8 bs"
      using valid_utf8_step [of bs ?r ?w] ok(1) False by (simp add: plain_text_def)
    ultimately show ?thesis
      using ok(2) False
      by (simp add: plain_text_def text_units_def runes.simps [of bs] length_rune_units del: runes.simps)
  qed
qed

lemma string_size_sound:
  assumes "string_size v l = Inr extent"
  shows "plain_text v \<and> extent = int (length (string_bytes v)) \<and>
    (\<forall>l'. normalized l = Inr l' \<longrightarrow> extent \<le> lm_string_extent l') \<and> extent < 2 ^ 31"
  using assms
  by (auto simp: string_size_def result_bind_eq_Inr Let_def length_string_bytes
      dest!: count_units_sound split: if_splits)

section \<open>Destinations\<close>

text \<open>
  \<open>io.Writer\<close>: the count is between 0 and the length, and those bytes have been appended.  The
  invariant is what the owner of the destination wants kept.
\<close>

locale byte_sink =
  fixes sink :: "('e, 'd) sink"
    and contents :: "'d \<Rightarrow> bytes"
    and legal :: "'d \<Rightarrow> bool"
  assumes accepts: "legal d \<Longrightarrow> sink data d = (n, err, d') \<Longrightarrow>
    0 \<le> n \<and> n \<le> int (length data) \<and> contents d' = contents d @ take (nat n) data \<and> legal d'"
begin

text \<open>The method \<open>m\<close> writes the bytes \<open>bs\<close>, or a prefix of them and reports an error.\<close>

definition progress :: "bytes \<Rightarrow> 'd writer \<Rightarrow> 'e wire_error option \<Rightarrow> 'd writer \<Rightarrow> bool" where
  "progress bs w e w' \<longleftrightarrow>
     (\<exists>k\<le>length bs. contents (wr_dest w') = contents (wr_dest w) @ take k bs \<and>
        wr_written w' = wr_written w + int k \<and> (e = None \<longrightarrow> k = length bs)) \<and>
     legal (wr_dest w') \<and> wr_limits w' = wr_limits w"

definition emits :: "('e, 'd) write_op \<Rightarrow> bytes \<Rightarrow> bool" where
  "emits m bs \<longleftrightarrow> (\<forall>w e w'. legal (wr_dest w) \<longrightarrow> m w = (e, w') \<longrightarrow> progress bs w e w')"

lemma emitsD: "emits m bs \<Longrightarrow> legal (wr_dest w) \<Longrightarrow> m w = (e, w') \<Longrightarrow> progress bs w e w'"
  by (simp add: emits_def)

lemma emitsI: "(\<And>w e w'. legal (wr_dest w) \<Longrightarrow> m w = (e, w') \<Longrightarrow> progress bs w e w') \<Longrightarrow> emits m bs"
  by (simp add: emits_def)

lemma progress_fail: "legal (wr_dest w) \<Longrightarrow> progress bs w (Some e) w"
  by (auto simp: progress_def intro: exI [of _ 0])

lemma progress_done: "progress bs w None w' \<Longrightarrow>
  contents (wr_dest w') = contents (wr_dest w) @ bs \<and> wr_written w' = wr_written w + int (length bs) \<and>
  legal (wr_dest w') \<and> wr_limits w' = wr_limits w"
  by (auto simp: progress_def)

lemma progress_more:
  assumes "progress as w None w'" "progress bs w' e w''"
  shows "progress (as @ bs) w e w''"
proof -
  obtain k where k: "k \<le> length bs" "contents (wr_dest w'') = contents (wr_dest w') @ take k bs"
      "wr_written w'' = wr_written w' + int k" "e = None \<longrightarrow> k = length bs"
    using assms(2) by (auto simp: progress_def)
  show ?thesis
    using progress_done [OF assms(1)] assms(2) k
    unfolding progress_def by (intro conjI exI [of _ "length as + k"]) (auto simp: progress_def)
qed

lemma progress_stop: "progress as w (Some e) w' \<Longrightarrow> progress (as @ bs) w (Some e) w'"
  by (auto simp: progress_def intro: exI)

lemma emits_then: "emits m as \<Longrightarrow> emits m' bs \<Longrightarrow> emits (write_then m m') (as @ bs)"
proof (rule emitsI)
  fix w e w'' assume m: "emits m as" "emits m' bs" "legal (wr_dest w)" "write_then m m' w = (e, w'')"
  obtain e1 w1 where run: "m w = (e1, w1)" by fastforce
  from emitsD [OF m(1,3) run] have p: "progress as w e1 w1" .
  show "progress (as @ bs) w e w''"
  proof (cases e1)
    case None
    then have "legal (wr_dest w1)" "m' w1 = (e, w'')" using p m(4) run by (auto simp: progress_def write_then_def)
    then show ?thesis using progress_more emitsD [OF m(2)] p None by blast
  next
    case (Some x)
    then show ?thesis using p m(4) run progress_stop by (auto simp: write_then_def)
  qed
qed

lemma emits_skip: "emits (\<lambda>w. (None, w)) []"
  by (rule emitsI) (auto simp: progress_def)

lemma write_all_progress: "legal (wr_dest w) \<Longrightarrow> write_all sink bs w = (e, w') \<Longrightarrow> progress bs w e w'"
proof (induction "length bs" arbitrary: bs w rule: less_induct)
  case less
  show ?case
  proof (cases "bs = []")
    case True
    then show ?thesis using less.prems by (subst (asm) write_all.simps) (auto simp: progress_def)
  next
    case False
    obtain n err d where run: "sink bs (wr_dest w) = (n, err, d)" by (metis prod_cases3)
    let ?w = "w\<lparr>wr_dest := d, wr_written := wr_written w + n\<rparr>"
    from accepts [OF less.prems(1) run] have n: "0 \<le> n" "n \<le> int (length bs)" "legal d"
        "contents d = contents (wr_dest w) @ take (nat n) bs" by auto
    then have front: "progress (take (nat n) bs) w x ?w" for x
      by (auto simp: progress_def intro: exI [of _ "nat n"])
    have joined: "take (nat n) bs @ drop (nat n) bs = bs" by simp
    note step = less.prems(2) [unfolded write_all.simps [of sink bs w]]
    show ?thesis
    proof (cases "err = None \<and> n \<noteq> 0")
      case True
      then have "write_all sink (drop (nat n) bs) ?w = (e, w')"
        using step False n by (simp add: run Let_def)
      moreover have "length (drop (nat n) bs) < length bs" using True n(1) False by simp
      ultimately have "progress (drop (nat n) bs) ?w e w'" using less.hyps n(3) by simp
      then show ?thesis using progress_more [OF front] joined by metis
    next
      case stop: False
      then obtain x where "e = Some x" "w' = ?w"
        using step False n by (auto simp: run Let_def write_fail_def split: option.splits)
      then show ?thesis using progress_stop [OF front, where bs = "drop (nat n) bs"] joined by simp
    qed
  qed
qed

lemma emits_all: "emits (write_all sink bs) bs"
  by (rule emitsI) (rule write_all_progress)

lemma emits_units: "emits (write_units sink us) (concat (map (le_put 2) us))"
  by (induction us) (auto intro: emits_skip emits_then emits_all)

lemma emits_string: "emits (write_string sink v) (string_bytes v)"
proof (rule emitsI)
  fix w e w' assume legal: "legal (wr_dest w)" and run: "write_string sink v w = (e, w')"
  show "progress (string_bytes v) w e w'"
  proof (cases "string_size v (wr_limits w)")
    case (Inl x)
    then show ?thesis using legal run by (auto simp: write_string_def write_fail_def intro: progress_fail)
  next
    case (Inr extent)
    have "emits (write_then (write_i32 sink (of_int extent)) (write_then (write_units sink (text_units v)) (write_u16 sink 0)))
      (le_put 4 (of_int extent :: i32) @ concat (map (le_put 2) (text_units v)) @ le_put 2 (0 :: u16))"
      unfolding write_i32_def write_u16_def by (intro emits_then emits_all emits_units)
    moreover have ext: "extent = int (4 + (length (text_units v) + 1) * 2)"
      using string_size_sound [OF Inr] length_string_bytes [of v] by simp
    have "le_put 4 (of_int extent :: i32) @ concat (map (le_put 2) (text_units v)) @ le_put 2 (0 :: u16) = string_bytes v"
      unfolding ext string_bytes_def of_int_of_nat_eq by (rule refl)
    ultimately show ?thesis
      using emitsD legal run Inr by (auto simp: write_string_def text_units_def)
  qed
qed

end

text \<open>The two destinations of the code: a buffer, and the bounded destination around another one.\<close>

definition buffer_write :: "('e, bytes) sink" where
  "buffer_write data d = (int (length data), None, d @ data)"

definition frame_open :: "bytes \<Rightarrow> int \<Rightarrow> ('d \<Rightarrow> bytes) \<Rightarrow> ('d \<Rightarrow> bool) \<Rightarrow> 'd \<times> int \<Rightarrow> bool" where
  "frame_open start body_size contents legal st \<longleftrightarrow>
     legal (fst st) \<and> 0 \<le> snd st \<and> int (length (contents (fst st))) + snd st = int (length start) + body_size"

interpretation buffer: byte_sink buffer_write "\<lambda>d. d" "\<lambda>_. True"
  by unfold_locales (auto simp: buffer_write_def)

text \<open>
  What a frame leaves in its destination: a prefix of the header and the body and never more than
  announced, and after success exactly the header and a body of the announced size.
\<close>

definition frame_header :: "i32 \<Rightarrow> int \<Rightarrow> bytes" where
  "frame_header code body_size = le_put 4 code @ le_put 4 (of_int body_size :: i32)"

definition framed_bytes :: "bytes \<Rightarrow> bytes \<Rightarrow> int \<Rightarrow> bytes \<Rightarrow> 'e wire_error option \<Rightarrow> bytes \<Rightarrow> bool" where
  "framed_bytes before header body_size bs e after \<longleftrightarrow>
     prefix before after \<and> prefix after (before @ header @ bs) \<and>
     int (length after) \<le> int (length before) + int (length header) + max 0 body_size \<and>
     (e = None \<longrightarrow> after = before @ header @ bs \<and> body_size = int (length bs))"

context byte_sink
begin

lemma bounded_sink:
  "byte_sink (bounded_write sink) (\<lambda>st. contents (fst st)) (frame_open start body_size contents legal)"
proof
  fix st data n err st'
  assume legal': "frame_open start body_size contents legal st" and run: "bounded_write sink data st = (n, err, st')"
  obtain d left where st: "st = (d, left)" by fastforce
  obtain m err1 d1 where inner: "sink data d = (m, err1, d1)" by (metis prod_cases3)
  have "legal d" using legal' by (simp add: st frame_open_def)
  from accepts [OF this inner]
  show "0 \<le> n \<and> n \<le> int (length data) \<and> contents (fst st') = contents (fst st) @ take (nat n) data \<and>
      frame_open start body_size contents legal st'"
    using legal' run by (auto simp: st inner bounded_write_def frame_open_def split: if_splits)
qed

lemma write_body_emits:
  assumes "legal d1" "contents d1 = contents d @ header" "0 \<le> body_size"
    and "byte_sink.emits (\<lambda>st. contents (fst st)) (frame_open (contents d @ header) body_size contents legal) body bs"
    and "write_body sink d1 body_size limits body = (e, d')"
  shows "framed_bytes (contents d) header body_size bs e (contents d')"
proof (cases "normalized limits")
  case (Inl x)
  then have "d' = d1" "e \<noteq> None" using assms(5) by (auto simp: write_body_def new_writer_def)
  then show ?thesis
    using assms(2,3) by (auto simp: framed_bytes_def)
next
  case (Inr l)
  let ?w = "\<lparr>wr_dest = (d1, body_size), wr_written = 0, wr_limits = l\<rparr>"
  obtain e1 w1 where run: "body ?w = (e1, w1)" by fastforce
  have "frame_open (contents d @ header) body_size contents legal (wr_dest ?w)"
    using assms(1-3) by (simp add: frame_open_def)
  from byte_sink.emitsD [OF bounded_sink assms(4) this run]
  obtain k where k: "k \<le> length bs" "contents (fst (wr_dest w1)) = contents d @ header @ take k bs"
      "e1 = None \<longrightarrow> k = length bs"
      "frame_open (contents d @ header) body_size contents legal (wr_dest w1)"
    using assms(2) by (auto simp: byte_sink.progress_def [OF bounded_sink])
  have d': "d' = fst (wr_dest w1)" and e: "e = None \<longrightarrow> e1 = None \<and> snd (wr_dest w1) = 0"
    using assms(5) Inr run by (auto simp: write_body_def new_writer_def split: option.splits if_splits)
  then show ?thesis
    using k e by (auto simp: framed_bytes_def d' frame_open_def take_is_prefix)
qed

lemma write_frame_emits:
  assumes "legal d"
    and "byte_sink.emits (\<lambda>st. contents (fst st))
      (frame_open (contents d @ frame_header code body_size) body_size contents legal) body bs"
    and "write_frame sink (Some d) code body_size given (Some body) = (e, Some d')"
  shows "framed_bytes (contents d) (frame_header code body_size) body_size bs e (contents d')"
proof -
  let ?h = "frame_header code body_size"
  have stopped: "framed_bytes (contents d) ?h body_size bs (Some x) (contents d)" for x
    by (auto simp: framed_bytes_def)
  consider (bad) x where "e = Some x" "d' = d"
    | (ok) l where "normalized given = Inr l" "0 \<le> body_size"
      "write_frame sink (Some d) code body_size given (Some body) =
       (case write_then (write_i32 sink code) (write_i32 sink (of_int body_size)) \<lparr>wr_dest = d, wr_written = 0, wr_limits = l\<rparr> of
          (Some e, header') \<Rightarrow> (Some e, Some (wr_dest header'))
        | (None, header') \<Rightarrow> map_prod id Some (write_body sink (wr_dest header') body_size l body))"
    using assms(3) normalized_idem [OF normalized_within]
    by (cases "normalized given") (auto simp: write_frame_def new_writer_def split: if_splits)
  then show ?thesis
  proof cases
    case bad
    then show ?thesis using stopped by simp
  next
    case ok
    let ?w = "\<lparr>wr_dest = d, wr_written = 0, wr_limits = l\<rparr>"
    obtain e1 w1 where run: "write_then (write_i32 sink code) (write_i32 sink (of_int body_size)) ?w = (e1, w1)"
      by fastforce
    have "emits (write_then (write_i32 sink code) (write_i32 sink (of_int body_size))) ?h"
      unfolding write_i32_def frame_header_def by (intro emits_then emits_all)
    from emitsD [OF this _ run] assms(1) have p: "progress ?h ?w e1 w1" by simp
    show ?thesis
    proof (cases e1)
      case None
      with p have "legal (wr_dest w1)" "contents (wr_dest w1) = contents d @ ?h" by (auto simp: progress_def)
      moreover have "write_body sink (wr_dest w1) body_size l body = (e, d')"
        using ok(3) assms(3) run None by (cases "write_body sink (wr_dest w1) body_size l body") simp
      ultimately show ?thesis using write_body_emits ok(2) assms(2) by blast
    next
      case (Some x)
      then have e: "e = Some x" "d' = wr_dest w1" using ok(3) assms(3) run by simp_all
      from p obtain k where k: "k \<le> length ?h" "contents d' = contents d @ take k ?h"
        by (auto simp: progress_def e)
      then show ?thesis
        using ok(2) by (auto simp: framed_bytes_def e intro: prefix_order.trans [OF take_is_prefix])
    qed
  qed
qed

end

interpretation framed: byte_sink "bounded_write buffer_write" "\<lambda>st. fst st"
  "frame_open start body_size (\<lambda>d. d) (\<lambda>_. True)" for start body_size
  by (rule buffer.bounded_sink)

end
