(* ===== verification/CodecRoundtrip.thy ===== *)
theory CodecRoundtrip
  imports CodecFrames
begin

text \<open>
  Reading back what was written.  \<open>wire_codec\<close> is the contract between an encoding and a method of
  the reader: at the encoding, with enough budget and inside the limits, the method returns the value
  and advances over exactly the encoding.  Integers and strings provide it, and a structure or a
  vector of a codec provides it again.
\<close>

section \<open>Positions\<close>

definition ahead :: "reader \<Rightarrow> bytes \<Rightarrow> bool" where
  "ahead r bs \<longleftrightarrow> (\<exists>pre rest. rd_data r = pre @ bs @ rest \<and> rd_pos r = length pre)"

definition advance :: "nat \<Rightarrow> int \<Rightarrow> reader \<Rightarrow> reader" where
  "advance n cost r = r\<lparr>rd_pos := rd_pos r + n, rd_budget := rd_budget r - cost\<rparr>"

lemma advance_simps [simp]:
  "rd_data (advance n c r) = rd_data r" "rd_pos (advance n c r) = rd_pos r + n"
  "rd_depth (advance n c r) = rd_depth r" "rd_limits (advance n c r) = rd_limits r"
  "rd_budget (advance n c r) = rd_budget r - c" "advance m d (advance n c r) = advance (n + m) (c + d) r"
  "advance 0 0 r = r"
  by (simp_all add: advance_def)

lemma aheadI: "rd_data r = pre @ bs @ rest \<Longrightarrow> rd_pos r = length pre \<Longrightarrow> ahead r bs"
  by (auto simp: ahead_def)

lemma ahead_first: "ahead r (as @ bs) \<Longrightarrow> ahead r as"
  unfolding ahead_def by (metis append_assoc)

lemma ahead_second: "ahead r (as @ bs) \<Longrightarrow> ahead (advance (length as) c r) bs"
proof -
  assume "ahead r (as @ bs)"
  then obtain pre rest where "rd_data r = pre @ (as @ bs) @ rest" "rd_pos r = length pre" by (auto simp: ahead_def)
  then show ?thesis by (intro aheadI [of _ "pre @ as" _ rest]) simp_all
qed

lemma ahead_remaining: "ahead r bs \<Longrightarrow> int (length bs) \<le> remaining r"
  by (auto simp: ahead_def remaining_def)

lemma ahead_slice: "ahead r bs \<Longrightarrow> slice (rd_pos r) (rd_pos r + length bs) (rd_data r) = bs"
  by (auto simp: ahead_def slice_def)

lemma take_bytes_ahead: "ahead r bs \<Longrightarrow> take_bytes (int (length bs)) r = (Inr bs, advance (length bs) 0 r)"
  using ahead_remaining [of r bs] ahead_slice [of r bs] by (simp add: take_bytes_def advance_def)

lemma read_bind_Inr: "m r = (Inr x, r') \<Longrightarrow> read_bind m f r = f x r'"
  by (simp add: read_bind_def)

lemma read_int_ahead:
  assumes "ahead r (le_put n (w :: 'a::len word))" "LENGTH('a) \<le> 8 * n" "1 \<le> rd_budget r"
  shows "read_int (int n) r = (Inr w, advance n 1 r)"
proof -
  have "consume_item r = (Inr (), advance 0 1 r)" using assms(3) by (simp add: consume_item_def advance_def)
  moreover have "ahead (advance 0 1 r) (le_put n w)" using ahead_second [of r "[]" "le_put n w" 1] assms(1) by simp
  from take_bytes_ahead [OF this] have "take_bytes (int n) (advance 0 1 r) = (Inr (le_put n w), advance n 1 r)" by simp
  ultimately show ?thesis
    by (simp add: read_int_def read_bind_def read_return_def le_get_put assms(2))
qed

section \<open>Codecs\<close>

locale wire_codec =
  fixes put :: "'a \<Rightarrow> bytes"
    and get :: "'a read"
    and cost :: "'a \<Rightarrow> int"
    and fits :: "limits \<Rightarrow> int \<Rightarrow> 'a \<Rightarrow> bool"
  assumes get_put: "ahead r (put x) \<Longrightarrow> fits (rd_limits r) (rd_depth r) x \<Longrightarrow> cost x \<le> rd_budget r \<Longrightarrow>
      get r = (Inr x, advance (length (put x)) (cost x) r)"
    and cost_positive: "0 \<le> cost x"
begin

lemma get_then: "ahead r (put x @ rest) \<Longrightarrow> fits (rd_limits r) (rd_depth r) x \<Longrightarrow> cost x \<le> rd_budget r \<Longrightarrow>
  read_bind get f r = f x (advance (length (put x)) (cost x) r)"
  by (rule read_bind_Inr, rule get_put) (auto dest: ahead_first)

text \<open>A run of values.\<close>

definition put_items :: "'a list \<Rightarrow> bytes" where
  "put_items xs = concat (map put xs)"

definition cost_items :: "'a list \<Rightarrow> int" where
  "cost_items xs = sum_list (map cost xs)"

lemma items_simps [simp]:
  "put_items [] = []" "put_items (x # xs) = put x @ put_items xs"
  "cost_items [] = 0" "cost_items (x # xs) = cost x + cost_items xs"
  by (simp_all add: put_items_def cost_items_def)

lemma cost_items_nonneg: "0 \<le> cost_items xs"
  by (induction xs) (auto simp: cost_positive add_nonneg_nonneg)

lemma read_items_put:
  "ahead r (put_items xs) \<Longrightarrow> list_all (fits (rd_limits r) (rd_depth r)) xs \<Longrightarrow> cost_items xs \<le> rd_budget r \<Longrightarrow>
   read_items (\<lambda>_. get) i (length xs) r = (Inr xs, advance (length (put_items xs)) (cost_items xs) r)"
proof (induction xs arbitrary: r i)
  case Nil
  then show ?case by (simp add: read_return_def)
next
  case (Cons x xs)
  let ?r = "advance (length (put x)) (cost x) r"
  have "cost x \<le> rd_budget r" using Cons.prems(3) cost_items_nonneg [of xs] by simp
  then have first: "get r = (Inr x, ?r)" using Cons.prems by (intro get_put) (auto dest: ahead_first)
  have "read_items (\<lambda>_. get) (i + 1) (length xs) ?r = (Inr xs, advance (length (put_items xs)) (cost_items xs) ?r)"
    using Cons.prems ahead_second by (intro Cons.IH) auto
  then show ?case by (simp add: read_bind_def first read_return_def)
qed

end

section \<open>Structures and vectors of a codec\<close>

lemma sint_of_nat: "n < 2 ^ 31 \<Longrightarrow> sint (of_nat n :: i32) = int n"
  by (simp add: signed_of_nat signed_take_bit_int_eq_self)

definition structure_put :: "bytes \<Rightarrow> bytes" where
  "structure_put body = le_put 4 (of_nat (4 + length body) :: i32) @ body"

definition vector_put :: "nat \<Rightarrow> bytes \<Rightarrow> bytes" where
  "vector_put count body =
     le_put 4 (of_nat (8 + length body) :: i32) @ le_put 4 (of_nat count :: i32) @ body"

lemma length_wrapped [simp]:
  "length (structure_put body) = 4 + length body" "length (vector_put count body) = 8 + length body"
  by (simp_all add: structure_put_def vector_put_def)

lemma read_i32_ahead:
  "ahead r (le_put 4 v @ rest) \<Longrightarrow> 1 \<le> rd_budget r \<Longrightarrow> read_i32 r = (Inr v, advance 4 1 r)"
  unfolding read_i32_def using read_int_ahead [of r 4 v] by (auto dest: ahead_first)

text \<open>The child reader of an encoding that starts at \<open>r\<close>, behind a header of \<open>h\<close> bytes.\<close>

lemma in_child_put:
  assumes "ahead r (header @ body)" "length header = h"
    and run: "\<And>c. ahead c body \<Longrightarrow> rd_limits c = rd_limits r \<Longrightarrow> rd_depth c = rd_depth r + 1 \<Longrightarrow>
      rd_budget c = rd_budget r - k \<Longrightarrow> fn c = (Inr x, advance (length body) cost c)"
  shows "in_child (rd_pos r) (h + length body) h fn (advance h k r) =
    (Inr x, advance (h + length body) (k + cost) r)"
proof -
  let ?c = "(advance h k r)\<lparr>rd_data := slice (rd_pos r) (rd_pos r + (h + length body)) (rd_data r),
      rd_pos := h, rd_depth := rd_depth r + 1\<rparr>"
  have data: "slice (rd_pos r) (rd_pos r + (h + length body)) (rd_data r) = header @ body"
    using ahead_slice [OF assms(1)] assms(2) by simp
  have "fn ?c = (Inr x, advance (length body) cost ?c)"
    by (rule run) (use assms(2) data in \<open>auto intro: aheadI [of _ header _ "[]"]\<close>)
  then show ?thesis
    using assms(2) data
    by (simp add: in_child_def Let_def read_bind_def exact_def read_return_def)
qed

context wire_codec
begin

definition structure_fits :: "limits \<Rightarrow> int \<Rightarrow> 'a \<Rightarrow> bool" where
  "structure_fits l d x \<longleftrightarrow> d < lm_depth l \<and> int (4 + length (put x)) \<le> lm_structure_extent l \<and>
     4 + length (put x) < 2 ^ 31 \<and> fits l (d + 1) x"

lemma structure_codec:
  "wire_codec (\<lambda>x. structure_put (put x)) (read_structure (Some get)) (\<lambda>x. 1 + cost x) structure_fits"
proof
  fix r x
  assume at: "ahead r (structure_put (put x))" and fit: "structure_fits (rd_limits r) (rd_depth r) x"
    and enough: "1 + cost x \<le> rd_budget r"
  note head = read_i32_ahead [OF at [unfolded structure_put_def]]
  have small: "sint (of_nat (4 + length (put x)) :: i32) = int (4 + length (put x))"
    using fit by (intro sint_of_nat) (simp add: structure_fits_def)
  have "in_child (rd_pos r) (4 + length (put x)) 4 get (advance 4 1 r) =
      (Inr x, advance (4 + length (put x)) (1 + cost x) r)"
    by (rule in_child_put [OF at [unfolded structure_put_def]])
      (use fit enough in \<open>auto simp: structure_fits_def intro!: get_put\<close>)
  moreover have "int (4 + length (put x)) \<le> remaining r" using ahead_remaining [OF at] by simp
  ultimately show "read_structure (Some get) r =
      (Inr x, advance (length (structure_put (put x))) (1 + cost x) r)"
    using fit enough cost_positive [of x] small
    by (simp add: read_structure_def Let_def read_bind_def head structure_fits_def remaining_def nat_plus_as_int
        del: of_nat_add)
next
  show "0 \<le> 1 + cost x" for x using cost_positive [of x] by simp
qed

definition vector_fits :: "int \<Rightarrow> int \<Rightarrow> limits \<Rightarrow> int \<Rightarrow> 'a list \<Rightarrow> bool" where
  "vector_fits minimum effective_max l d xs \<longleftrightarrow> d < lm_depth l \<and>
     int (8 + length (put_items xs)) \<le> lm_structure_extent l \<and> 8 + length (put_items xs) < 2 ^ 31 \<and>
     int (length xs) \<le> vector_maximum effective_max l \<and> length xs < 2 ^ 31 \<and> 1 \<le> minimum \<and>
     list_all (\<lambda>x. minimum \<le> int (length (put x)) \<and> fits l (d + 1) x) xs"

lemma length_items_minimum:
  "list_all (\<lambda>x. minimum \<le> int (length (put x)) \<and> fits l d x) xs \<Longrightarrow>
   minimum * int (length xs) \<le> int (length (put_items xs))"
  by (induction xs) (auto simp: algebra_simps)

lemma vector_codec:
  "wire_codec (\<lambda>xs. vector_put (length xs) (put_items xs)) (read_vector minimum effective_max (Some (\<lambda>_. get)))
     (\<lambda>xs. 2 + cost_items xs) (vector_fits minimum effective_max)"
proof
  fix r xs
  let ?bs = "put_items xs"
  assume "ahead r (vector_put (length xs) ?bs)" and fit: "vector_fits minimum effective_max (rd_limits r) (rd_depth r) xs"
    and enough: "2 + cost_items xs \<le> rd_budget r"
  then have at: "ahead r (le_put 4 (of_nat (8 + length ?bs) :: i32) @ le_put 4 (of_nat (length xs) :: i32) @ ?bs)"
    by (simp only: vector_put_def)
  note nonneg = cost_items_nonneg [of xs]
  have head: "read_i32 r = (Inr (of_nat (8 + length ?bs)), advance 4 1 r)"
    using nonneg enough by (intro read_i32_ahead [OF at]) simp
  have "ahead (advance 4 1 r) (le_put 4 (of_nat (length xs) :: i32) @ ?bs)"
    using ahead_second [OF at] by (metis length_le_put)
  from read_i32_ahead [OF this] nonneg enough
  have head2: "read_i32 (advance 4 1 r) = (Inr (of_nat (length xs)), advance 8 2 r)" by simp
  have small: "sint (of_nat (8 + length ?bs) :: i32) = int (8 + length ?bs)"
    "sint (of_nat (length xs) :: i32) = int (length xs)"
    using fit by (intro sint_of_nat, simp add: vector_fits_def)+
  have at8: "ahead r ((le_put 4 (of_nat (8 + length ?bs) :: i32) @ le_put 4 (of_nat (length xs) :: i32)) @ ?bs)"
    using at by simp
  have child: "in_child (rd_pos r) (8 + length ?bs) 8 (read_items (\<lambda>_. get) 0 (length xs)) (advance 8 2 r) =
      (Inr xs, advance (8 + length ?bs) (2 + cost_items xs) r)"
    by (rule in_child_put [OF at8])
      (use fit enough in \<open>auto simp: vector_fits_def list_all_iff intro!: read_items_put\<close>)
  have "int (8 + length ?bs) \<le> remaining r" using ahead_remaining [OF at] by simp
  moreover have "minimum \<le> int (length ?bs) div int (length xs)" if "xs \<noteq> []"
    using zdiv_mono1 [OF length_items_minimum [of minimum "rd_limits r" "rd_depth r + 1" xs], of "int (length xs)"]
      fit that
    by (simp add: vector_fits_def)
  ultimately show "read_vector minimum effective_max (Some (\<lambda>_. get)) r =
      (Inr xs, advance (length (vector_put (length xs) ?bs)) (2 + cost_items xs) r)"
    using fit child small head head2
    by (cases "xs = []")
      (simp_all add: read_vector_def Let_def read_bind_def vector_fits_def remaining_def nat_plus_as_int del: of_nat_add)
next
  show "0 \<le> 2 + cost_items xs" for xs using cost_items_nonneg [of xs] by simp
qed

end

section \<open>Integers and strings\<close>

lemma int_codec:
  "LENGTH('a) \<le> 8 * n \<Longrightarrow> wire_codec (le_put n) (read_int (int n) :: 'a::len word read) (\<lambda>_. 1) (\<lambda>_ _ _. True)"
  by unfold_locales (auto intro: read_int_ahead)

interpretation i32_codec: wire_codec "le_put 4" read_i32 "\<lambda>_. 1" "\<lambda>_ _ _. True"
  unfolding read_i32_def using int_codec [where n = 4 and 'a = 32] by simp

interpretation i64_codec: wire_codec "le_put 8" read_i64 "\<lambda>_. 1" "\<lambda>_ _ _. True"
  unfolding read_i64_def using int_codec [where n = 8 and 'a = 64] by simp

interpretation u8_codec: wire_codec "le_put 1" read_u8 "\<lambda>_. 1" "\<lambda>_ _ _. True"
  unfolding read_u8_def using int_codec [where n = 1 and 'a = 8] by simp

interpretation u16_codec: wire_codec "le_put 2" read_u16 "\<lambda>_. 1" "\<lambda>_ _ _. True"
  unfolding read_u16_def using int_codec [where n = 2 and 'a = 16] by simp

interpretation u32_codec: wire_codec "le_put 4" read_u32 "\<lambda>_. 1" "\<lambda>_ _ _. True"
  unfolding read_u32_def using int_codec [where n = 4 and 'a = 32] by simp

lemma check_units_text:
  "list_all scalar rs \<Longrightarrow> 0 \<notin> set rs \<Longrightarrow> check_units (concat (map rune_units rs)) = None"
proof (induction rs)
  case (Cons r rs)
  show ?case
  proof (cases "r \<le> 0xffff")
    case True
    then have "(of_nat r :: u16) \<noteq> 0" using Cons.prems rune_units_basic(2) [of r] by auto
    with True Cons show ?thesis by (simp add: rune_units_basic)
  next
    case False
    with Cons.prems obtain u v where "rune_units r = [u, v]" "high_surrogate u" "low_surrogate v"
      by (auto elim: rune_units_pair)
    moreover from this have "u \<noteq> 0" by (auto simp: high_surrogate_def)
    ultimately show ?thesis using Cons by simp
  qed
qed simp

lemma string_units_put: "string_units (concat (map (le_put 2) us)) = us"
  unfolding string_units_def by (subst blocks_concat) (auto simp: list_all_iff le_get_put o_def)

definition string_fits :: "limits \<Rightarrow> int \<Rightarrow> bytes \<Rightarrow> bool" where
  "string_fits l d v \<longleftrightarrow> plain_text v \<and> int (length (string_bytes v)) \<le> lm_string_extent l \<and>
     length (string_bytes v) < 2 ^ 31"

lemma read_string_put:
  assumes "ahead r (string_bytes v)" "string_fits (rd_limits r) d v" "1 \<le> rd_budget r"
  shows "read_string r = (Inr v, advance (length (string_bytes v)) 1 r)"
proof -
  define E where "E = 4 + (length (text_units v) + 1) * 2"
  let ?data = "concat (map (le_put 2) (text_units v @ [0]))"
  have at: "ahead r (le_put 4 (of_nat E :: i32) @ ?data)"
    using assms(1) by (simp only: string_bytes_def map_append concat_append E_def) simp
  have size: "E < 2 ^ 31" "int E \<le> lm_string_extent (rd_limits r)" "6 \<le> E" "int E mod 2 = 0"
      "length (string_bytes v) = E"
    using assms(2) by (simp_all only: string_fits_def length_string_bytes E_def) auto
  have len: "length ?data = E - 4"
    by (simp add: length_concat o_def sum_list_triv E_def)
  have small: "sint (of_nat E :: i32) = int E" using size(1) by (rule sint_of_nat)
  have head: "read_i32 r = (Inr (of_nat E), advance 4 1 r)"
    by (rule read_i32_ahead [OF at assms(3)])
  have "ahead (advance 4 1 r) ?data" using ahead_second [OF at] by (metis length_le_put)
  from take_bytes_ahead [OF this]
  have body: "take_bytes (int E - 4) (advance 4 1 r) = (Inr ?data, advance E 1 r)"
    unfolding len using size(3) by (simp add: of_nat_diff)
  have plain: "list_all scalar (runes v)" "0 \<notin> set (runes v)" "encode_runes (runes v) = v"
    using assms(2) by (simp_all add: string_fits_def plain_text_def valid_utf8_def)
  have "check_units (text_units v) = None" "encode_runes (utf16_decode (text_units v)) = v"
    using plain by (simp_all add: text_units_def check_units_text utf16_decode_units)
  then show ?thesis
    using size small
    by (simp add: read_string_def Let_def read_bind_def head body string_units_put read_return_def
        del: map_append concat_append)
qed

interpretation string_codec: wire_codec string_bytes read_string "\<lambda>_. 1" string_fits
  by unfold_locales (auto intro: read_string_put)

text \<open>Lists of texts, the vectors the reservation commands exchange, are a codec again.\<close>

interpretation string_list_codec: wire_codec
  "\<lambda>vs. vector_put (length vs) (string_codec.put_items vs)" "read_vector minimum effective_max (Some (\<lambda>_. read_string))"
  "\<lambda>vs. 2 + string_codec.cost_items vs" "string_codec.vector_fits minimum effective_max" for minimum effective_max
  by (rule string_codec.vector_codec)

section \<open>Whole messages\<close>

text \<open>A body as the calls that write it, and the calls of the same types that read it.\<close>

datatype wire_value = WI32 i32 | WI64 i64 | WU8 byte | WU16 u16 | WU32 u32 | WString bytes

fun write_value :: "('e, 'd) sink \<Rightarrow> wire_value \<Rightarrow> ('e, 'd) write_op" where
  "write_value sink (WI32 v) = write_i32 sink v"
| "write_value sink (WI64 v) = write_i64 sink v"
| "write_value sink (WU8 v) = write_u8 sink v"
| "write_value sink (WU16 v) = write_u16 sink v"
| "write_value sink (WU32 v) = write_u32 sink v"
| "write_value sink (WString v) = write_string sink v"

fun read_like :: "wire_value \<Rightarrow> wire_value read" where
  "read_like (WI32 _) = read_bind read_i32 (\<lambda>v. read_return (WI32 v))"
| "read_like (WI64 _) = read_bind read_i64 (\<lambda>v. read_return (WI64 v))"
| "read_like (WU8 _) = read_bind read_u8 (\<lambda>v. read_return (WU8 v))"
| "read_like (WU16 _) = read_bind read_u16 (\<lambda>v. read_return (WU16 v))"
| "read_like (WU32 _) = read_bind read_u32 (\<lambda>v. read_return (WU32 v))"
| "read_like (WString _) = read_bind read_string (\<lambda>v. read_return (WString v))"

primrec write_values :: "('e, 'd) sink \<Rightarrow> wire_value list \<Rightarrow> ('e, 'd) write_op" where
  "write_values sink [] = (\<lambda>w. (None, w))"
| "write_values sink (v # vs) = write_then (write_value sink v) (write_values sink vs)"

primrec read_values_like :: "wire_value list \<Rightarrow> wire_value list read" where
  "read_values_like [] = read_return []"
| "read_values_like (v # vs) =
     read_bind (read_like v) (\<lambda>x. read_bind (read_values_like vs) (\<lambda>xs. read_return (x # xs)))"

fun value_bytes :: "wire_value \<Rightarrow> bytes" where
  "value_bytes (WI32 v) = le_put 4 v"
| "value_bytes (WI64 v) = le_put 8 v"
| "value_bytes (WU8 v) = le_put 1 v"
| "value_bytes (WU16 v) = le_put 2 v"
| "value_bytes (WU32 v) = le_put 4 v"
| "value_bytes (WString v) = string_bytes v"

fun value_fits :: "limits \<Rightarrow> wire_value \<Rightarrow> bool" where
  "value_fits l (WString v) = string_fits l 0 v"
| "value_fits l _ = True"

lemma le_put_u8: "le_put 1 (v :: byte) = [v]"
  by (simp add: le_put_def One_nat_def)

lemma read_like_put:
  assumes "ahead r (value_bytes v)" "value_fits (rd_limits r) v" "1 \<le> rd_budget r"
  shows "read_like v r = (Inr v, advance (length (value_bytes v)) 1 r)"
  using assms
  by (cases v)
    (simp_all add: read_bind_def read_return_def i32_codec.get_put i64_codec.get_put u8_codec.get_put
      u16_codec.get_put u32_codec.get_put read_string_put del: One_nat_def)

lemma read_values_put:
  "ahead r (concat (map value_bytes vs)) \<Longrightarrow> list_all (value_fits (rd_limits r)) vs \<Longrightarrow>
   int (length vs) \<le> rd_budget r \<Longrightarrow>
   read_values_like vs r = (Inr vs, advance (length (concat (map value_bytes vs))) (int (length vs)) r)"
proof (induction vs arbitrary: r)
  case Nil
  then show ?case by (simp add: read_return_def)
next
  case (Cons v vs)
  let ?r = "advance (length (value_bytes v)) 1 r"
  have "read_like v r = (Inr v, ?r)" using Cons.prems by (intro read_like_put) (auto dest: ahead_first)
  moreover have "read_values_like vs ?r =
      (Inr vs, advance (length (concat (map value_bytes vs))) (int (length vs)) ?r)"
    using Cons.prems ahead_second by (intro Cons.IH) auto
  ultimately show ?case by (simp add: read_bind_def read_return_def)
qed

context byte_sink
begin

lemma emits_value: "emits (write_value sink v) (value_bytes v)"
  by (cases v)
    (auto simp: write_i32_def write_i64_def write_u8_def write_u16_def write_u32_def le_put_u8
      simp del: One_nat_def intro: emits_all emits_string)

lemma emits_values: "emits (write_values sink vs) (concat (map value_bytes vs))"
  by (induction vs) (auto intro: emits_skip emits_then emits_value)

lemma written_value_fits:
  assumes "write_value sink v w = (None, w')" "normalized (wr_limits w) = Inr l"
  shows "value_fits l v"
proof (cases v)
  case (WString str)
  then obtain extent where "string_size str (wr_limits w) = Inr extent"
    using assms(1) by (cases "string_size str (wr_limits w)") (auto simp: write_string_def write_fail_def)
  from string_size_sound [OF this] assms(2) show ?thesis
    by (auto simp: WString string_fits_def)
qed simp_all

lemma written_values_fit:
  "legal (wr_dest w) \<Longrightarrow> write_values sink vs w = (None, w') \<Longrightarrow> normalized (wr_limits w) = Inr l \<Longrightarrow>
   list_all (value_fits l) vs"
proof (induction vs arbitrary: w)
  case (Cons v vs)
  obtain w1 where first: "write_value sink v w = (None, w1)" and rest: "write_values sink vs w1 = (None, w')"
    using Cons.prems(2) by (auto simp: write_then_def split: prod.splits option.splits)
  have "legal (wr_dest w1)" "wr_limits w1 = wr_limits w"
    using emitsD [OF emits_value Cons.prems(1) first] by (auto simp: progress_def)
  then show ?case using Cons.IH rest written_value_fits [OF first] Cons.prems(3) by auto
qed simp

end

section \<open>Properties\<close>

lemma parse_frame_bytes:
  assumes "normalized limits = Inr l" "int (length body) \<le> lm_request_body l" "length body < 2 ^ 31"
  shows "parse_request_frame (frame_header code (int (length body)) @ body) limits =
    Inr \<lparr>fr_code = code, fr_body = body\<rparr>"
proof -
  have "slice 0 4 (frame_header code n @ body) = le_put 4 code"
    "slice 4 8 (frame_header code n @ body) = le_put 4 (of_int n :: i32)"
    "drop header_size (frame_header code n @ body) = body" for n
    by (simp_all add: slice_def frame_header_def header_size_def)
  moreover have "le_get (le_put 4 code) = code"
    "sint (le_get (le_put 4 (of_int (int (length body)) :: i32)) :: i32) = int (length body)"
    using assms(3) by (simp_all add: le_get_put sint_of_nat)
  moreover have "length (frame_header code n @ body) = 8 + length body" for n by (simp add: frame_header_def)
  ultimately show ?thesis
    using assms(1,2) by (simp add: parse_request_frame_def Let_def header_size_def del: of_int_of_nat_eq)
qed

lemma write_frame_ran:
  assumes "write_frame sink (Some d) code n given (Some body) = (None, out)"
  shows "\<exists>l d1 w'. normalized given = Inr l \<and> 0 \<le> n \<and> n \<le> 2 ^ 31 - 1 \<and>
    body \<lparr>wr_dest = (d1, n), wr_written = 0, wr_limits = l\<rparr> = (None, w')"
proof -
  obtain l where l: "normalized given = Inr l" "0 \<le> n" "n \<le> 2 ^ 31 - 1"
    using assms by (auto simp: write_frame_def split: sum.splits if_splits)
  note again = normalized_idem [OF normalized_within [OF l(1)]]
  obtain e1 w1 where run: "write_then (write_i32 sink code) (write_i32 sink (of_int n))
      \<lparr>wr_dest = d, wr_written = 0, wr_limits = l\<rparr> = (e1, w1)" by fastforce
  then have "fst (write_body sink (wr_dest w1) n l body) = None"
    using assms l again
    by (cases "write_body sink (wr_dest w1) n l body")
      (auto simp: write_frame_def new_writer_def split: option.splits if_splits)
  then have "fst (body \<lparr>wr_dest = (wr_dest w1, n), wr_written = 0, wr_limits = l\<rparr>) = None"
    by (auto simp: write_body_def new_writer_def again split: prod.splits option.splits if_splits)
  then show ?thesis using l by (metis prod.collapse)
qed

text \<open>C13.
  A body written by any calls of the writer, in a frame that \<open>WriteFrame\<close> completes, is read back
  exactly: \<open>ParseRequestFrame\<close> accepts the bytes, returns the code and the body, and a new reader
  over the body returns the same integers and strings in order and is then at its end, as long as
  the body and the number of items are inside the request limits.\<close>

theorem message_roundtrip:
  assumes "write_frame (buffer_write :: ('e, bytes) sink) (Some []) code n given
      (Some (write_values (bounded_write buffer_write) vs)) = (None, Some out)"
    and "normalized given = Inr l"
    and "int (length out) \<le> 8 + lm_request_body l" "int (length vs) \<le> lm_logical_items l"
  shows "\<exists>rd rd'. parse_request_frame out given = Inr \<lparr>fr_code = code, fr_body = drop 8 out\<rparr> \<and>
    new_reader (drop 8 out) given = Inr rd \<and> read_values_like vs rd = (Inr vs, rd') \<and>
    fst (exact rd') = Inr ()"
proof -
  let ?body = "concat (map value_bytes vs)"
  obtain d1 w' where ran: "0 \<le> n" "n \<le> 2 ^ 31 - 1"
      "write_values (bounded_write (buffer_write :: ('e, bytes) sink)) vs
        \<lparr>wr_dest = (d1, n), wr_written = 0, wr_limits = l\<rparr> = (None, w')"
    using write_frame_ran [OF assms(1)] assms(2) by auto
  have "framed_bytes [] (frame_header code n) n ?body (None :: 'e wire_error option) out"
    using buffer.write_frame_emits [OF _ framed.emits_values assms(1)] by simp
  then have out: "out = frame_header code n @ ?body" "n = int (length ?body)"
    by (simp_all add: framed_bytes_def)
  then have body: "drop 8 out = ?body" "length out = 8 + length ?body" by (simp_all add: frame_header_def)
  have "frame_open d1 n (\<lambda>d. d) (\<lambda>_. True) (d1, n)" using ran(1) by (simp add: frame_open_def)
  then have fits: "list_all (value_fits l) vs"
    using framed.written_values_fit [OF _ ran(3)] normalized_idem [OF normalized_within [OF assms(2)]] by simp
  have "parse_request_frame out given = Inr \<lparr>fr_code = code, fr_body = ?body\<rparr>"
    using parse_frame_bytes [OF assms(2), of ?body code] body out ran(2) assms(3) by simp
  moreover
  let ?rd = "\<lparr>rd_data = ?body, rd_pos = 0, rd_depth = 0, rd_limits = l, rd_budget = lm_logical_items l\<rparr>"
  have "read_values_like vs ?rd = (Inr vs, advance (length ?body) (int (length vs)) ?rd)"
    using assms(4) fits by (intro read_values_put) (auto intro: aheadI [of _ "[]" _ "[]"])
  ultimately show ?thesis
    using assms(2) by (auto simp: new_reader_def exact_def read_return_def body)
qed

text \<open>Two numbers, in a frame of 14 bytes.\<close>

theorem message_roundtrip_witness:
  "\<exists>out rd rd'. parse_request_frame out default_limits = Inr \<lparr>fr_code = 1, fr_body = drop 8 out\<rparr> \<and>
    new_reader (drop 8 out) default_limits = Inr rd \<and>
    read_values_like [WU32 7, WU16 258] rd = (Inr [WU32 7, WU16 258], rd') \<and> fst (exact rd') = Inr ()"
proof -
  have limits: "normalized default_limits = Inr default_limits"
    by (rule normalized_idem) (simp add: within_hard_limits_def limit_values_def default_limits_def)
  have out: "write_frame (buffer_write :: (unit, bytes) sink) (Some []) 1 6 default_limits
      (Some (write_values (bounded_write buffer_write) [WU32 7, WU16 258])) =
      (None, Some [1, 0, 0, 0, 6, 0, 0, 0, 7, 0, 0, 0, 2, 1])"
    by code_simp
  show ?thesis
    by (rule exI, rule message_roundtrip [OF out limits]) (simp_all add: default_limits_def)
qed

text \<open>Whatever a destination that behaves as \<open>io.Writer\<close> documents does, short and failing writes
  included, \<open>WriteFrame\<close> over calls of the writer leaves in it a prefix of the header and the body
  and never more bytes than announced; if it reports success, the whole header and body are there
  and the body has exactly the announced size.\<close>

theorem frame_exact:
  assumes "byte_sink sink contents legal" "legal d"
    and "write_frame sink (Some d) code n given (Some (write_values (bounded_write sink) vs)) = (e, Some d')"
  shows "framed_bytes (contents d) (frame_header code n) n (concat (map value_bytes vs)) e (contents d')"
  by (rule byte_sink.write_frame_emits [OF assms(1,2) _ assms(3)])
    (rule byte_sink.emits_values [OF byte_sink.bounded_sink [OF assms(1)]])

text \<open>A destination that takes one byte at a time and fails when it holds ten.\<close>

definition slow_write :: "(unit, bytes) sink" where
  "slow_write data d =
     (if length d < 10 then (min 1 (int (length data)), None, d @ take 1 data) else (0, Some (SinkError ()), d))"

theorem frame_exact_witness:
  "\<exists>e d'. write_frame slow_write (Some []) 1 4 default_limits
      (Some (write_values (bounded_write slow_write) [WU32 7])) = (e, Some d') \<and>
    framed_bytes [] (frame_header 1 4) 4 [7, 0, 0, 0] e d'"
proof -
  have sink: "byte_sink slow_write (\<lambda>d. d) (\<lambda>_. True)"
    by unfold_locales (auto simp: slow_write_def min_def One_nat_def Suc_le_eq split: if_splits)
  have run: "write_frame slow_write (Some []) 1 4 default_limits
      (Some (write_values (bounded_write slow_write) [WU32 7])) =
      (Some (SinkError ()), Some [1, 0, 0, 0, 4, 0, 0, 0, 7, 0])"
    by code_simp
  have "concat (map value_bytes [WU32 7]) = [7, 0, 0, 0]" by code_simp
  with frame_exact [OF sink _ run] show ?thesis using run by simp
qed

end
