(* ===== verification/LiveRelay.thy ===== *)
theory LiveRelay
  imports Prelude
begin

text \<open>
  The live sessions of \<open>internal/app/liverelay/manager.go\<close>.  The manager's two maps point to shared
  selections, so selections live in a store and the maps hold references.  Every critical section of
  the mutex is one function; what a call does after it unlocks, the cancellation of a replaced or
  closed selection, is left to a later step, so the function only returns that selection.  The
  resolver and the provider are parameters: their answers are part of the steps.  The lemmas show
  that the two maps stay inverse to each other and small.
\<close>

section \<open>State\<close>

type_synonym ref = nat

record 'target selection =
  sel_network_id :: i32
  sel_process_id :: i32
  sel_target :: 'target
  sel_timer :: bool
  sel_cancel :: bool
  sel_cancelled :: bool
  sel_streaming :: bool

text \<open>
  \<open>sel_timer\<close> says that the expiry timer has not been stopped, \<open>sel_cancel\<close> that a cancel function
  has been set and \<open>sel_cancelled\<close> that it has been called.
\<close>

record 'target manager =
  lm_store :: "ref \<Rightarrow> 'target selection option"
  lm_fresh :: ref
  lm_by_network :: "i32 \<Rightarrow> ref option"
  lm_by_process :: "i32 \<Rightarrow> ref option"
  lm_next :: i32

definition maximum_sessions :: nat where
  "maximum_sessions = 4"

definition new_manager :: "'target manager" where
  "new_manager = \<lparr>lm_store = Map.empty, lm_fresh = 0, lm_by_network = Map.empty, lm_by_process = Map.empty,
     lm_next = 1\<rparr>"

datatype live_error = SelectionInvalid | ServiceUnavailable | CapacityReached | ProcessIdUnavailable
  | ProcessInvalid | ProcessUnavailable | ProviderUnavailable | RelayInvalid | ProviderReadInvalid
  | ClientWriteFailed | ProviderReadFailed

definition update_selection :: "ref \<Rightarrow> ('target selection \<Rightarrow> 'target selection) \<Rightarrow> 'target manager \<Rightarrow> 'target manager" where
  "update_selection r f m = m\<lparr>lm_store := (lm_store m)(r := map_option f (lm_store m r))\<rparr>"

section \<open>Removing and cancelling\<close>

definition unmap :: "i32 \<Rightarrow> ref \<Rightarrow> (i32 \<Rightarrow> ref option) \<Rightarrow> i32 \<Rightarrow> ref option" where
  "unmap key r table = (if table key = Some r then table(key := None) else table)"

definition remove_locked :: "ref \<Rightarrow> 'target manager \<Rightarrow> 'target manager" where
  "remove_locked r m =
     (case lm_store m r of
        None \<Rightarrow> m
      | Some s \<Rightarrow>
          update_selection r (\<lambda>s. s\<lparr>sel_timer := False\<rparr>)
            (m\<lparr>lm_by_network := unmap (sel_network_id s) r (lm_by_network m),
               lm_by_process := unmap (sel_process_id s) r (lm_by_process m)\<rparr>))"

definition cancel_selection :: "ref option \<Rightarrow> 'target manager \<Rightarrow> 'target manager" where
  "cancel_selection previous m =
     (case previous of
        None \<Rightarrow> m
      | Some r \<Rightarrow> update_selection r (\<lambda>s. if sel_cancel s then s\<lparr>sel_cancelled := True\<rparr> else s) m)"

section \<open>Selecting a service\<close>

primrec next_process_id :: "nat \<Rightarrow> 'target manager \<Rightarrow> i32 option \<times> 'target manager" where
  "next_process_id 0 m = (None, m)"
| "next_process_id (Suc attempts) m =
     (let candidate = lm_next m;
          m' = m\<lparr>lm_next := (if sint (candidate + 1) \<le> 0 then 1 else candidate + 1)\<rparr> in
      if 0 < sint candidate \<and> lm_by_process m candidate = None then (Some candidate, m')
      else next_process_id attempts m')"

definition add_selection :: "i32 \<Rightarrow> i32 \<Rightarrow> 'target \<Rightarrow> 'target manager \<Rightarrow> 'target manager" where
  "add_selection network_id process_id target m =
     m\<lparr>lm_store := (lm_store m)(lm_fresh m \<mapsto> \<lparr>sel_network_id = network_id, sel_process_id = process_id,
         sel_target = target, sel_timer = True, sel_cancel = False, sel_cancelled = False, sel_streaming = False\<rparr>),
       lm_fresh := lm_fresh m + 1,
       lm_by_network := (lm_by_network m)(network_id \<mapsto> lm_fresh m),
       lm_by_process := (lm_by_process m)(process_id \<mapsto> lm_fresh m)\<rparr>"

text \<open>
  \<open>Select\<close> once the resolver has answered, up to the unlock: \<open>None\<close> is a service it does not know.
  The second component is the replaced selection, which the call cancels after the unlock.
\<close>

definition select_service :: "u16 \<Rightarrow> u16 \<Rightarrow> u16 \<Rightarrow> i32 \<Rightarrow> 'target option \<Rightarrow> 'target manager \<Rightarrow>
    (live_error, i32) result \<times> ref option \<times> 'target manager" where
  "select_service network stream service network_id resolved m =
     (if sint network_id \<le> 0 \<or> network = 0 \<or> stream = 0 \<or> service = 0 then (Inl SelectionInvalid, None, m)
      else case resolved of
        None \<Rightarrow> (Inl ServiceUnavailable, None, m)
      | Some target \<Rightarrow>
          let previous = lm_by_network m network_id in
          if previous = None \<and> card (dom (lm_by_network m)) \<ge> maximum_sessions then (Inl CapacityReached, None, m)
          else
            let m1 = (case previous of None \<Rightarrow> m | Some r \<Rightarrow> remove_locked r m) in
            case next_process_id (maximum_sessions + 1) m1 of
              (None, m2) \<Rightarrow> (Inl ProcessIdUnavailable, previous, m2)
            | (Some process_id, m2) \<Rightarrow>
                (Inr process_id, previous, add_selection network_id process_id target m2))"

definition expire_selection :: "ref \<Rightarrow> 'target manager \<Rightarrow> 'target manager" where
  "expire_selection r m =
     (case lm_store m r of
        None \<Rightarrow> m
      | Some s \<Rightarrow>
          if lm_by_process m (sel_process_id s) = Some r \<and> \<not> sel_streaming s then remove_locked r m else m)"

section \<open>Opening, closing, releasing\<close>

text \<open>\<open>Open\<close> up to the call of the provider, and from its answer on.\<close>

definition begin_open :: "i32 \<Rightarrow> 'target manager \<Rightarrow> (live_error, ref) result \<times> 'target manager" where
  "begin_open process_id m =
     (if sint process_id \<le> 0 then (Inl ProcessInvalid, m)
      else case lm_by_process m process_id of
        None \<Rightarrow> (Inl ProcessUnavailable, m)
      | Some r \<Rightarrow>
          (case lm_store m r of
             None \<Rightarrow> (Inl ProcessUnavailable, m)
           | Some s \<Rightarrow>
               if sel_streaming s then (Inl ProcessUnavailable, m)
               else (Inr r, update_selection r (\<lambda>s. s\<lparr>sel_streaming := True, sel_timer := False, sel_cancel := True\<rparr>) m)))"

definition release_selection :: "ref \<Rightarrow> 'target manager \<Rightarrow> 'target manager" where
  "release_selection r m = remove_locked r m"

definition open_active :: "i32 \<Rightarrow> ref \<Rightarrow> 'target manager \<Rightarrow> bool" where
  "open_active process_id r m \<longleftrightarrow>
     lm_by_process m process_id = Some r \<and> (case lm_store m r of None \<Rightarrow> False | Some s \<Rightarrow> sel_streaming s)"

text \<open>The locked part of \<open>Close\<close>: the selection it cancels after the unlock, and the manager.\<close>

definition close_network :: "i32 \<Rightarrow> 'target manager \<Rightarrow> ref option \<times> 'target manager" where
  "close_network network_id m =
     (if sint network_id \<le> 0 then (None, m)
      else let selected = lm_by_network m network_id in
        (selected, case selected of None \<Rightarrow> m | Some r \<Rightarrow> remove_locked r m))"

text \<open>
  The locked part of \<open>CloseAll\<close>, which visits the selections in the unspecified order of the map,
  given here as a list: the selections it cancels after the unlock, and the manager.
\<close>

definition close_all :: "ref list \<Rightarrow> 'target manager \<Rightarrow> ref list \<times> 'target manager" where
  "close_all refs m = (refs, fold remove_locked refs m)"

section \<open>The tables stay consistent\<close>

definition keys_of :: "'target manager \<Rightarrow> ref \<Rightarrow> (i32 \<times> i32) option" where
  "keys_of m r = map_option (\<lambda>s. (sel_network_id s, sel_process_id s)) (lm_store m r)"

definition manager_ok :: "'target manager \<Rightarrow> bool" where
  "manager_ok m \<longleftrightarrow>
     (\<forall>r\<ge>lm_fresh m. keys_of m r = None) \<and>
     (\<forall>n r. lm_by_network m n = Some r \<longrightarrow> (\<exists>p. keys_of m r = Some (n, p) \<and> lm_by_process m p = Some r)) \<and>
     (\<forall>p r. lm_by_process m p = Some r \<longrightarrow> (\<exists>n. keys_of m r = Some (n, p) \<and> lm_by_network m n = Some r)) \<and>
     finite (dom (lm_by_network m)) \<and> card (dom (lm_by_network m)) \<le> maximum_sessions \<and>
     (\<forall>p\<in>dom (lm_by_process m). 0 < sint p) \<and> 0 < sint (lm_next m)"

lemma manager_ok_new: "manager_ok new_manager"
  by (simp add: manager_ok_def new_manager_def keys_of_def)

lemma manager_okD:
  assumes "manager_ok m"
  shows "lm_fresh m \<le> r \<Longrightarrow> keys_of m r = None"
    "lm_by_network m n = Some r \<Longrightarrow> \<exists>p. keys_of m r = Some (n, p) \<and> lm_by_process m p = Some r"
    "lm_by_process m p = Some r \<Longrightarrow> \<exists>n. keys_of m r = Some (n, p) \<and> lm_by_network m n = Some r"
    "finite (dom (lm_by_network m))" "card (dom (lm_by_network m)) \<le> maximum_sessions"
    "lm_by_process m p = Some r \<Longrightarrow> 0 < sint p" "0 < sint (lm_next m)"
  using assms by (auto simp: manager_ok_def)

lemma manager_okI:
  assumes "\<And>r. lm_fresh m \<le> r \<Longrightarrow> keys_of m r = None"
    and "\<And>n r. lm_by_network m n = Some r \<Longrightarrow> \<exists>p. keys_of m r = Some (n, p) \<and> lm_by_process m p = Some r"
    and "\<And>p r. lm_by_process m p = Some r \<Longrightarrow> \<exists>n. keys_of m r = Some (n, p) \<and> lm_by_network m n = Some r"
    and "finite (dom (lm_by_network m))" "card (dom (lm_by_network m)) \<le> maximum_sessions"
    and "\<And>p r. lm_by_process m p = Some r \<Longrightarrow> 0 < sint p" "0 < sint (lm_next m)"
  shows "manager_ok m"
  using assms by (auto simp: manager_ok_def)

text \<open>The process table has as many entries as the network table.\<close>

lemma card_by_process:
  assumes "manager_ok m"
  shows "finite (dom (lm_by_process m)) \<and> card (dom (lm_by_process m)) = card (dom (lm_by_network m))"
proof -
  define f where "f n = snd (the (keys_of m (the (lm_by_network m n))))" for n
  have f: "lm_by_process m (f n) = Some r \<and> keys_of m r = Some (n, f n)" if "lm_by_network m n = Some r" for n r
    using manager_okD(2) [OF assms that] that by (auto simp: f_def)
  have "dom (lm_by_process m) = f ` dom (lm_by_network m)"
  proof (intro equalityI subsetI)
    fix p assume "p \<in> dom (lm_by_process m)"
    then obtain r n where "keys_of m r = Some (n, p)" "lm_by_network m n = Some r"
      using manager_okD(3) [OF assms] by blast
    then have "p = f n" by (simp add: f_def)
    then show "p \<in> f ` dom (lm_by_network m)" using \<open>lm_by_network m n = Some r\<close> by auto
  next
    fix p assume "p \<in> f ` dom (lm_by_network m)"
    then show "p \<in> dom (lm_by_process m)" using f by auto
  qed
  moreover have "inj_on f (dom (lm_by_network m))"
  proof (rule inj_onI)
    fix a b assume "a \<in> dom (lm_by_network m)" "b \<in> dom (lm_by_network m)" "f a = f b"
    then obtain ra rb where "lm_by_network m a = Some ra" "lm_by_network m b = Some rb" by auto
    with f [of a ra] f [of b rb] \<open>f a = f b\<close> show "a = b" by auto
  qed
  ultimately show ?thesis using manager_okD(4) [OF assms] by (simp add: card_image)
qed

lemma unmap_eq_Some: "unmap key r table k = Some q \<longleftrightarrow> table k = Some q \<and> \<not> (k = key \<and> q = r)"
  by (auto simp: unmap_def)

lemma dom_unmap: "dom (unmap key r table) \<subseteq> dom table"
  by (auto simp: unmap_def)

lemma update_selection_fields [simp]:
  "lm_by_network (update_selection r f m) = lm_by_network m" "lm_by_process (update_selection r f m) = lm_by_process m"
  "lm_next (update_selection r f m) = lm_next m" "lm_fresh (update_selection r f m) = lm_fresh m"
  "lm_store (update_selection r f m) q = (if q = r then map_option f (lm_store m r) else lm_store m q)"
  by (simp_all add: update_selection_def)

text \<open>Changing a selection without its identifiers.\<close>

definition keeps_keys :: "('target selection \<Rightarrow> 'target selection) \<Rightarrow> bool" where
  "keeps_keys f \<longleftrightarrow> (\<forall>s. sel_network_id (f s) = sel_network_id s \<and> sel_process_id (f s) = sel_process_id s)"

lemma keys_of_update: "keeps_keys f \<Longrightarrow> keys_of (update_selection r f m) q = keys_of m q"
  by (cases "lm_store m r") (auto simp: keys_of_def keeps_keys_def)

lemma manager_ok_update [simp]: "keeps_keys f \<Longrightarrow> manager_ok (update_selection r f m) = manager_ok m"
  by (simp add: manager_ok_def keys_of_update)

lemma manager_ok_cancel [simp]: "manager_ok (cancel_selection previous m) = manager_ok m"
  by (cases previous) (simp_all add: cancel_selection_def keeps_keys_def)

lemma keys_of_SomeD: "keys_of m r = Some (n, p) \<Longrightarrow> \<exists>s. lm_store m r = Some s \<and> sel_network_id s = n \<and> sel_process_id s = p"
  by (auto simp: keys_of_def)

lemma remove_locked_fields:
  assumes "lm_store m r = Some s"
  shows "lm_by_network (remove_locked r m) = unmap (sel_network_id s) r (lm_by_network m)"
    "lm_by_process (remove_locked r m) = unmap (sel_process_id s) r (lm_by_process m)"
    "keys_of (remove_locked r m) q = keys_of m q" "lm_next (remove_locked r m) = lm_next m"
    "lm_fresh (remove_locked r m) = lm_fresh m"
proof -
  have "keeps_keys (\<lambda>s. s\<lparr>sel_timer := False\<rparr>)" by (simp add: keeps_keys_def)
  note update = keys_of_update [OF this]
  have "keys_of (m\<lparr>lm_by_network := a, lm_by_process := b\<rparr>) q = keys_of m q" for a b q
    by (simp add: keys_of_def)
  then show "lm_by_network (remove_locked r m) = unmap (sel_network_id s) r (lm_by_network m)"
    "lm_by_process (remove_locked r m) = unmap (sel_process_id s) r (lm_by_process m)"
    "keys_of (remove_locked r m) q = keys_of m q" "lm_next (remove_locked r m) = lm_next m"
    "lm_fresh (remove_locked r m) = lm_fresh m"
    by (simp_all add: remove_locked_def assms update)
qed

lemma remove_locked_ok:
  assumes "manager_ok m"
  shows "manager_ok (remove_locked r m)"
proof (cases "lm_store m r")
  case None
  then show ?thesis using assms by (simp add: remove_locked_def)
next
  case (Some s)
  then have keys: "keys_of m r = Some (sel_network_id s, sel_process_id s)" by (simp add: keys_of_def)
  note fields = remove_locked_fields [OF Some]
  have "card (dom (lm_by_network (remove_locked r m))) \<le> card (dom (lm_by_network m))"
    unfolding fields by (intro card_mono manager_okD(4) [OF assms] dom_unmap)
  then have small: "card (dom (lm_by_network (remove_locked r m))) \<le> maximum_sessions"
    using manager_okD(5) [OF assms] by simp
  have fin: "finite (dom (lm_by_network (remove_locked r m)))"
    unfolding fields using finite_subset [OF dom_unmap manager_okD(4) [OF assms]] .
  show ?thesis
  proof (rule manager_okI)
    fix n q assume "lm_by_network (remove_locked r m) n = Some q"
    then have q: "lm_by_network m n = Some q" "\<not> (n = sel_network_id s \<and> q = r)"
      by (auto simp: fields unmap_eq_Some)
    from manager_okD(2) [OF assms q(1)] obtain p where p: "keys_of m q = Some (n, p)" "lm_by_process m p = Some q" by blast
    with q(2) keys have "lm_by_process (remove_locked r m) p = Some q" by (auto simp: fields unmap_eq_Some)
    with p(1) show "\<exists>p. keys_of (remove_locked r m) q = Some (n, p) \<and> lm_by_process (remove_locked r m) p = Some q"
      by (auto simp: fields(3))
  next
    fix p q assume "lm_by_process (remove_locked r m) p = Some q"
    then have q: "lm_by_process m p = Some q" "\<not> (p = sel_process_id s \<and> q = r)"
      by (auto simp: fields unmap_eq_Some)
    from manager_okD(3) [OF assms q(1)] obtain n where n: "keys_of m q = Some (n, p)" "lm_by_network m n = Some q" by blast
    with q(2) keys have "lm_by_network (remove_locked r m) n = Some q" by (auto simp: fields unmap_eq_Some)
    with n(1) show "\<exists>n. keys_of (remove_locked r m) q = Some (n, p) \<and> lm_by_network (remove_locked r m) n = Some q"
      by (auto simp: fields(3))
  next
    show "0 < sint p" if "lm_by_process (remove_locked r m) p = Some q" for p q
      using that manager_okD(6) [OF assms] by (auto simp: fields unmap_eq_Some)
  qed (use fin small manager_okD(1,7) [OF assms] in \<open>auto simp: fields(3-5)\<close>)
qed

section \<open>A free process identifier is always found\<close>

text \<open>The identifiers tried in turn are consecutive in the cycle of the positive 32-bit integers.\<close>

definition next_id :: "i32 \<Rightarrow> i32" where
  "next_id c = (if sint (c + 1) \<le> 0 then 1 else c + 1)"

lemma sint_next_id:
  assumes "0 < sint (c :: i32)"
  shows "sint (next_id c) = sint c mod 2147483647 + 1"
proof -
  have bound: "sint c \<le> 2147483647" using sint_lt [of c] by simp
  have plus: "sint (c + 1) = signed_take_bit 31 (sint c + 1)" by (simp add: sint_word_ariths)
  show ?thesis
  proof (cases "sint c = 2147483647")
    case True
    have "signed_take_bit 31 (2147483647 + 1 :: int) = - 2147483648" by code_simp
    then have "sint (c + 1) = - 2147483648" unfolding plus True by simp
    then show ?thesis by (simp add: next_id_def True)
  next
    case False
    then have "sint (c + 1) = sint c + 1"
      unfolding plus using bound assms by (intro signed_take_bit_int_eq_self) simp_all
    then show ?thesis using assms bound False by (simp add: next_id_def)
  qed
qed

lemma sint_next_ids:
  assumes "0 < sint (c :: i32)"
  shows "sint ((next_id ^^ k) c) = (sint c - 1 + int k) mod 2147483647 + 1"
proof (induction k)
  case 0
  have "sint c \<le> 2147483647" using sint_lt [of c] by simp
  then show ?case using assms by simp
next
  case (Suc k)
  have "0 < sint ((next_id ^^ k) c)" unfolding Suc by (simp add: pos_mod_sign add_nonneg_pos)
  from sint_next_id [OF this] have "sint ((next_id ^^ Suc k) c) = sint ((next_id ^^ k) c) mod 2147483647 + 1" by simp
  also have "\<dots> = (sint c - 1 + int k + 1) mod 2147483647 + 1" unfolding Suc by (simp add: mod_simps)
  finally show ?case by (simp add: algebra_simps)
qed

lemma next_ids_distinct:
  assumes "0 < sint (c :: i32)" "i < j" "j < 2147483647"
  shows "(next_id ^^ i) c \<noteq> (next_id ^^ j) c"
proof
  assume "(next_id ^^ i) c = (next_id ^^ j) c"
  then have "(sint c - 1 + int i) mod 2147483647 = (sint c - 1 + int j) mod 2147483647"
    using sint_next_ids [OF assms(1), of i] sint_next_ids [OF assms(1), of j] by simp
  then have "2147483647 dvd (int j - int i)" by (metis mod_eq_dvd_iff add_diff_cancel_left dvd_diff_commute)
  then show False using zdvd_imp_le [of 2147483647 "int j - int i"] assms(2,3) by simp
qed

lemma next_process_id_step:
  "next_process_id (Suc k) m =
     (if 0 < sint (lm_next m) \<and> lm_by_process m (lm_next m) = None
      then (Some (lm_next m), m\<lparr>lm_next := next_id (lm_next m)\<rparr>)
      else next_process_id k (m\<lparr>lm_next := next_id (lm_next m)\<rparr>))"
  by (simp add: Let_def next_id_def)

lemma next_process_id_None:
  "0 < sint (lm_next m) \<Longrightarrow> fst (next_process_id k m) = None \<Longrightarrow>
   (\<lambda>i. (next_id ^^ i) (lm_next m)) ` {..<k} \<subseteq> dom (lm_by_process m)"
proof (induction k arbitrary: m)
  case (Suc k)
  let ?m = "m\<lparr>lm_next := next_id (lm_next m)\<rparr>"
  have pos: "0 < sint (next_id (lm_next m))" using sint_next_id [OF Suc.prems(1)] by (simp add: add_nonneg_pos)
  have used: "lm_next m \<in> dom (lm_by_process m)" "fst (next_process_id k ?m) = None"
    using Suc.prems by (auto simp: next_process_id_step simp del: next_process_id.simps split: if_splits)
  from Suc.IH [of ?m] pos used(2)
  have "(\<lambda>i. (next_id ^^ i) (next_id (lm_next m))) ` {..<k} \<subseteq> dom (lm_by_process m)" by simp
  then have rest: "(next_id ^^ Suc i) (lm_next m) \<in> dom (lm_by_process m)" if "i < k" for i
    using that by (auto simp: funpow_swap1 image_subset_iff)
  show ?case
  proof (rule image_subsetI)
    fix i assume "i \<in> {..<Suc k}"
    then show "(next_id ^^ i) (lm_next m) \<in> dom (lm_by_process m)"
      using used(1) rest by (cases i) (auto simp del: funpow.simps simp: funpow_0)
  qed
qed simp

lemma next_process_id_Some:
  "0 < sint (lm_next m) \<Longrightarrow> next_process_id k m = (Some p, m') \<Longrightarrow>
   0 < sint p \<and> lm_by_process m p = None \<and> (\<exists>c. 0 < sint c \<and> m' = m\<lparr>lm_next := c\<rparr>)"
proof (induction k arbitrary: m)
  case (Suc k)
  have pos: "0 < sint (next_id (lm_next m))" using sint_next_id [OF Suc.prems(1)] by (simp add: add_nonneg_pos)
  show ?case
  proof (cases "lm_by_process m (lm_next m) = None")
    case True
    then show ?thesis using Suc.prems pos by (auto simp: next_process_id_step simp del: next_process_id.simps)
  next
    case False
    then have "next_process_id k (m\<lparr>lm_next := next_id (lm_next m)\<rparr>) = (Some p, m')"
      using Suc.prems by (auto simp: next_process_id_step simp del: next_process_id.simps)
    from Suc.IH [OF _ this] pos show ?thesis by auto
  qed
qed simp

lemma process_id_found:
  assumes "manager_ok m"
  shows "\<exists>p m'. next_process_id (maximum_sessions + 1) m = (Some p, m')"
proof (cases "next_process_id (maximum_sessions + 1) m")
  case (Pair found m')
  show ?thesis
  proof (cases found)
    case None
    let ?ids = "(\<lambda>i. (next_id ^^ i) (lm_next m)) ` {..<5}"
    have pos: "0 < sint (lm_next m)" by (rule manager_okD(7) [OF assms])
    have "?ids \<subseteq> dom (lm_by_process m)"
      using next_process_id_None [OF pos, of 5] Pair None by (simp add: maximum_sessions_def)
    moreover have "inj_on (\<lambda>i. (next_id ^^ i) (lm_next m)) {..<5}"
      using next_ids_distinct [OF pos] by (intro linorder_inj_onI) auto
    then have "card ?ids = 5" by (simp add: card_image)
    ultimately have "5 \<le> card (dom (lm_by_process m))" using card_by_process [OF assms] card_mono by metis
    then show ?thesis using card_by_process [OF assms] manager_okD(5) [OF assms] by (simp add: maximum_sessions_def)
  qed (use Pair in auto)
qed

section \<open>Every operation keeps the tables\<close>

lemma unmapped_after_remove:
  assumes "manager_ok m" "lm_by_network m n = Some r"
  shows "lm_by_network (remove_locked r m) n = None"
    "dom (lm_by_network (remove_locked r m)) = dom (lm_by_network m) - {n}"
proof -
  from manager_okD(2) [OF assms] obtain s where s: "lm_store m r = Some s" "sel_network_id s = n"
    using keys_of_SomeD by blast
  then show "lm_by_network (remove_locked r m) n = None"
    "dom (lm_by_network (remove_locked r m)) = dom (lm_by_network m) - {n}"
    using assms(2) by (auto simp: remove_locked_fields [OF s(1)] unmap_def)
qed

lemma add_selection_ok:
  assumes "manager_ok m" "lm_by_network m n = None" "lm_by_process m p = None" "0 < sint p"
    and "card (dom (lm_by_network m)) < maximum_sessions"
  shows "manager_ok (add_selection n p target m)"
proof -
  let ?m = "add_selection n p target m"
  have keys: "keys_of ?m q = (if q = lm_fresh m then Some (n, p) else keys_of m q)" for q
    by (simp add: keys_of_def add_selection_def)
  have tables: "lm_by_network ?m = (lm_by_network m)(n \<mapsto> lm_fresh m)"
    "lm_by_process ?m = (lm_by_process m)(p \<mapsto> lm_fresh m)" "lm_fresh ?m = lm_fresh m + 1" "lm_next ?m = lm_next m"
    by (simp_all add: add_selection_def)
  have old: "q \<noteq> lm_fresh m" if "keys_of m q = Some x" for q x
    using manager_okD(1) [OF assms(1), of q] that by auto
  show ?thesis
  proof (rule manager_okI)
    fix n' q assume "lm_by_network ?m n' = Some q"
    then consider "n' = n" "q = lm_fresh m" | "n' \<noteq> n" "lm_by_network m n' = Some q"
      by (auto simp: tables split: if_splits)
    then show "\<exists>p'. keys_of ?m q = Some (n', p') \<and> lm_by_process ?m p' = Some q"
    proof cases
      case 1
      then show ?thesis by (simp add: keys tables)
    next
      case 2
      from manager_okD(2) [OF assms(1) 2(2)] obtain p' where "keys_of m q = Some (n', p')" "lm_by_process m p' = Some q"
        by blast
      with assms(3) old show ?thesis by (auto simp: keys tables)
    qed
  next
    fix p' q assume "lm_by_process ?m p' = Some q"
    then consider "p' = p" "q = lm_fresh m" | "p' \<noteq> p" "lm_by_process m p' = Some q"
      by (auto simp: tables split: if_splits)
    then show "\<exists>n'. keys_of ?m q = Some (n', p') \<and> lm_by_network ?m n' = Some q"
    proof cases
      case 1
      then show ?thesis by (simp add: keys tables)
    next
      case 2
      from manager_okD(3) [OF assms(1) 2(2)] obtain n' where "keys_of m q = Some (n', p')" "lm_by_network m n' = Some q"
        by blast
      with assms(2) old show ?thesis by (auto simp: keys tables)
    qed
  next
    show "card (dom (lm_by_network ?m)) \<le> maximum_sessions"
      using assms(2,5) manager_okD(4) [OF assms(1)] by (simp add: tables card_insert_if domIff)
  qed (use assms manager_okD [OF assms(1)] in \<open>auto simp: keys tables split: if_splits\<close>)
qed

lemma manager_ok_next: "manager_ok m \<Longrightarrow> 0 < sint c \<Longrightarrow> manager_ok (m\<lparr>lm_next := c\<rparr>)"
  by (auto simp: manager_ok_def keys_of_def)

text \<open>What \<open>Select\<close> does once it is past its guards.\<close>

lemma select_service_cases:
  assumes "manager_ok m"
  obtains (refused) e where "select_service network stream service n resolved m = (Inl e, None, m)" "e \<noteq> ProcessIdUnavailable"
  | (selected) m1 p c target where
      "m1 = (case lm_by_network m n of None \<Rightarrow> m | Some r \<Rightarrow> remove_locked r m)\<lparr>lm_next := c\<rparr>"
      "manager_ok m1" "lm_by_network m1 n = None" "lm_by_process m1 p = None" "0 < sint p"
      "card (dom (lm_by_network m1)) < maximum_sessions"
      "select_service network stream service n resolved m = (Inr p, lm_by_network m n, add_selection n p target m1)"
proof -
  let ?m1 = "case lm_by_network m n of None \<Rightarrow> m | Some r \<Rightarrow> remove_locked r m"
  consider e where "select_service network stream service n resolved m = (Inl e, None, m)" "e \<noteq> ProcessIdUnavailable"
    | target where "\<not> (lm_by_network m n = None \<and> card (dom (lm_by_network m)) \<ge> maximum_sessions)"
      "select_service network stream service n resolved m =
       (case next_process_id (maximum_sessions + 1) ?m1 of
          (None, m2) \<Rightarrow> (Inl ProcessIdUnavailable, lm_by_network m n, m2)
        | (Some p, m2) \<Rightarrow> (Inr p, lm_by_network m n, add_selection n p target m2))"
  proof (cases "resolved = None \<or> sint n \<le> 0 \<or> network = 0 \<or> stream = 0 \<or> service = 0")
    case True
    then have "\<exists>e. select_service network stream service n resolved m = (Inl e, None, m) \<and> e \<noteq> ProcessIdUnavailable"
      by (auto simp: select_service_def split: option.splits)
    then show ?thesis using that(1) by blast
  next
    case False
    then obtain target where "resolved = Some target" by auto
    with False that show ?thesis
      by (cases "lm_by_network m n = None \<and> card (dom (lm_by_network m)) \<ge> maximum_sessions")
        (simp_all add: select_service_def Let_def)
  qed
  then show ?thesis
  proof cases
    case 1
    then show ?thesis by (rule refused)
  next
    case 2
    have ok: "manager_ok ?m1" using assms by (auto simp: remove_locked_ok split: option.split)
    have gone: "lm_by_network ?m1 n = None"
      using unmapped_after_remove(1) [OF assms] by (auto split: option.split)
    have room: "card (dom (lm_by_network ?m1)) < maximum_sessions"
    proof (cases "lm_by_network m n")
      case None
      then show ?thesis using 2(1) by simp
    next
      case (Some r)
      then have "card (dom (lm_by_network m) - {n}) < card (dom (lm_by_network m))"
        by (intro psubset_card_mono manager_okD(4) [OF assms]) auto
      then show ?thesis using unmapped_after_remove(2) [OF assms Some] manager_okD(5) [OF assms] Some by simp
    qed
    obtain p m2 where found: "next_process_id (maximum_sessions + 1) ?m1 = (Some p, m2)"
      using process_id_found [OF ok] by blast
    from next_process_id_Some [OF manager_okD(7) [OF ok] found] obtain c where
      p: "0 < sint p" "lm_by_process ?m1 p = None" "0 < sint c" "m2 = ?m1\<lparr>lm_next := c\<rparr>" by blast
    show ?thesis
      by (rule selected [of m2 c p target]) (use p gone room manager_ok_next [OF ok p(3)] 2(2) found in simp_all)
  qed
qed

lemma select_service_ok: "manager_ok m \<Longrightarrow> manager_ok (snd (snd (select_service network stream service n resolved m)))"
  by (rule select_service_cases [of m network stream service n resolved]) (auto intro: add_selection_ok)

lemma expire_selection_ok: "manager_ok m \<Longrightarrow> manager_ok (expire_selection r m)"
  by (auto simp: expire_selection_def remove_locked_ok split: option.split)

lemma begin_open_ok: "manager_ok m \<Longrightarrow> manager_ok (snd (begin_open p m))"
  by (auto simp: begin_open_def keeps_keys_def split: option.split)

lemma close_network_ok: "manager_ok m \<Longrightarrow> manager_ok (snd (close_network n m))"
  by (auto simp: close_network_def Let_def remove_locked_ok split: option.split)

lemma close_all_ok: "manager_ok m \<Longrightarrow> manager_ok (snd (close_all refs m))"
  unfolding close_all_def by (induction refs arbitrary: m) (auto intro: remove_locked_ok)

end
