(* ===== verification/LiveSessions.thy ===== *)
theory LiveSessions
  imports LiveRelay
begin

text \<open>
  The live sessions as a transition system over \<open>internal/app/liverelay/manager.go\<close>: requests, expired
  timers, provider answers and closed relays in any order.  Each critical section of the mutex, each
  call of the provider or of a lease and each call of a cancel function is a step of its own, so the
  calls of several clients interleave between them as in the program.  In every reachable state no
  session slot, no provider lease and no cancellation is lost.  The relay's copy loop follows.
\<close>

section \<open>Steps\<close>

text \<open>
  Where the one \<open>Open\<close> of a selection, or the relay it returned, has got to: the provider is being
  called; it refused (then the context is cancelled and the selection released); it granted a lease,
  and the selection has not been looked up again; the selection was gone (then the lease is given
  back and the context cancelled); the relay is handed out; its \<open>Close\<close> has cancelled the context,
  then also given the lease back, and the selection is still to be released.
\<close>

datatype open_phase = Waiting i32 | Refused | RefusedCancelled | Granted i32 | Late | LateReturned
  | Relaying | Closing | Releasing

text \<open>
  Beside the manager: the calls of \<open>Open\<close> and the open relays by their selection, the leases the
  provider has granted and not got back, and the selections that some call has taken out of the
  tables and will cancel after its unlock.
\<close>

record 'target sessions =
  se_manager :: "'target manager"
  se_phase :: "ref \<Rightarrow> open_phase option"
  se_leases :: "ref set"
  se_cancels :: "ref list"

definition new_sessions :: "'target sessions" where
  "new_sessions = \<lparr>se_manager = new_manager, se_phase = Map.empty, se_leases = {}, se_cancels = []\<rparr>"

definition to_phase :: "ref \<Rightarrow> open_phase option \<Rightarrow> 'target sessions \<Rightarrow> 'target sessions" where
  "to_phase r ph st = st\<lparr>se_phase := (se_phase st)(r := ph)\<rparr>"

definition cancelling :: "ref option \<Rightarrow> ref list \<Rightarrow> ref list" where
  "cancelling previous refs = (case previous of None \<Rightarrow> refs | Some r \<Rightarrow> r # refs)"

inductive live_step :: "'target sessions \<Rightarrow> 'target sessions \<Rightarrow> bool" where
  Select: "select_service network stream service n resolved (se_manager st) = (res, previous, m) \<Longrightarrow>
    live_step st (st\<lparr>se_manager := m, se_cancels := cancelling previous (se_cancels st)\<rparr>)"
| CloseNetwork: "close_network n (se_manager st) = (selected, m) \<Longrightarrow>
    live_step st (st\<lparr>se_manager := m, se_cancels := cancelling selected (se_cancels st)\<rparr>)"
| CloseAll: "distinct refs \<Longrightarrow> set refs = ran (lm_by_network (se_manager st)) \<Longrightarrow>
    close_all refs (se_manager st) = (selected, m) \<Longrightarrow>
    live_step st (st\<lparr>se_manager := m, se_cancels := selected @ se_cancels st\<rparr>)"
| Cancel: "r \<in> set (se_cancels st) \<Longrightarrow>
    live_step st (st\<lparr>se_manager := cancel_selection (Some r) (se_manager st), se_cancels := remove1 r (se_cancels st)\<rparr>)"
| Expire: "live_step st (st\<lparr>se_manager := expire_selection r (se_manager st)\<rparr>)"
| OpenBegin: "begin_open p (se_manager st) = (Inr r, m) \<Longrightarrow>
    live_step st (to_phase r (Some (Waiting p)) (st\<lparr>se_manager := m\<rparr>))"
| OpenRefused: "se_phase st r = Some (Waiting p) \<Longrightarrow> live_step st (to_phase r (Some Refused) st)"
| RefusedCancel: "se_phase st r = Some Refused \<Longrightarrow>
    live_step st (to_phase r (Some RefusedCancelled) (st\<lparr>se_manager := cancel_selection (Some r) (se_manager st)\<rparr>))"
| RefusedRelease: "se_phase st r = Some RefusedCancelled \<Longrightarrow>
    live_step st (to_phase r None (st\<lparr>se_manager := release_selection r (se_manager st)\<rparr>))"
| OpenGranted: "se_phase st r = Some (Waiting p) \<Longrightarrow>
    live_step st (to_phase r (Some (Granted p)) (st\<lparr>se_leases := insert r (se_leases st)\<rparr>))"
| CheckActive: "se_phase st r = Some (Granted p) \<Longrightarrow> open_active p r (se_manager st) \<Longrightarrow>
    live_step st (to_phase r (Some Relaying) st)"
| CheckLate: "se_phase st r = Some (Granted p) \<Longrightarrow> \<not> open_active p r (se_manager st) \<Longrightarrow>
    live_step st (to_phase r (Some Late) st)"
| LateReturn: "se_phase st r = Some Late \<Longrightarrow>
    live_step st (to_phase r (Some LateReturned) (st\<lparr>se_leases := se_leases st - {r}\<rparr>))"
| LateCancel: "se_phase st r = Some LateReturned \<Longrightarrow>
    live_step st (to_phase r None (st\<lparr>se_manager := cancel_selection (Some r) (se_manager st)\<rparr>))"
| RelayCancel: "se_phase st r = Some Relaying \<Longrightarrow>
    live_step st (to_phase r (Some Closing) (st\<lparr>se_manager := cancel_selection (Some r) (se_manager st)\<rparr>))"
| RelayReturn: "se_phase st r = Some Closing \<Longrightarrow>
    live_step st (to_phase r (Some Releasing) (st\<lparr>se_leases := se_leases st - {r}\<rparr>))"
| RelayRelease: "se_phase st r = Some Releasing \<Longrightarrow>
    live_step st (to_phase r None (st\<lparr>se_manager := release_selection r (se_manager st)\<rparr>))"

inductive live_reachable :: "'target sessions \<Rightarrow> bool" where
  Start: "live_reachable new_sessions"
| Next: "live_reachable st \<Longrightarrow> live_step st st' \<Longrightarrow> live_reachable st'"

section \<open>Slots\<close>

definition mapped :: "'target manager \<Rightarrow> ref \<Rightarrow> bool" where
  "mapped m r \<longleftrightarrow> (\<exists>p. lm_by_process m p = Some r)"

definition was_cancelled :: "'target manager \<Rightarrow> ref \<Rightarrow> bool" where
  "was_cancelled m r \<longleftrightarrow> (\<exists>s. lm_store m r = Some s \<and> sel_cancelled s)"

text \<open>
  A busy selection streams and is in the tables, or has been cancelled, or some call is about to
  cancel it (it is in \<open>pending\<close>); a selection in the tables that is not busy waits for its timer; one
  that was opened and is not busy has been cancelled; one about to be cancelled has left the tables.
\<close>

definition slot_ok :: "ref set \<Rightarrow> ref set \<Rightarrow> 'target manager \<Rightarrow> ref \<Rightarrow> bool" where
  "slot_ok bs pending m r \<longleftrightarrow>
     (r \<in> bs \<longrightarrow> (\<exists>s. lm_store m r = Some s \<and> sel_streaming s \<and> sel_cancel s \<and>
        (mapped m r \<or> sel_cancelled s \<or> r \<in> pending))) \<and>
     (r \<notin> bs \<longrightarrow> (\<forall>s. lm_store m r = Some s \<longrightarrow>
        (sel_streaming s \<longrightarrow> sel_cancelled s) \<and> (mapped m r \<longrightarrow> \<not> sel_streaming s \<and> sel_timer s))) \<and>
     (r \<in> pending \<longrightarrow> \<not> mapped m r \<and> lm_store m r \<noteq> None)"

definition slots_ok :: "ref set \<Rightarrow> ref set \<Rightarrow> 'target manager \<Rightarrow> bool" where
  "slots_ok bs pending m \<longleftrightarrow> manager_ok m \<and> (\<forall>r. slot_ok bs pending m r)"

lemma mapped_stored: "manager_ok m \<Longrightarrow> mapped m r \<Longrightarrow> \<exists>s. lm_store m r = Some s"
  using manager_okD(3) keys_of_SomeD by (fastforce simp: mapped_def)

lemma mapped_update [simp]: "mapped (update_selection q f m) r = mapped m r"
  by (simp add: mapped_def)

lemma remove_locked_store [simp]:
  "lm_store (remove_locked q m) r =
     (if r = q then map_option (\<lambda>s. s\<lparr>sel_timer := False\<rparr>) (lm_store m q) else lm_store m r)"
  by (auto simp: remove_locked_def update_selection_def split: option.split)

lemma mapped_remove:
  assumes "manager_ok m"
  shows "mapped (remove_locked q m) r \<longleftrightarrow> mapped m r \<and> r \<noteq> q"
proof (cases "lm_store m q")
  case None
  then show ?thesis using mapped_stored [OF assms, of q] by (auto simp: remove_locked_def)
next
  case (Some s)
  have "p = sel_process_id s" if "lm_by_process m p = Some q" for p
    using manager_okD(3) [OF assms that] Some by (auto simp: keys_of_def)
  then show ?thesis by (auto simp: mapped_def remove_locked_fields [OF Some] unmap_eq_Some)
qed

lemma slots_okI: "manager_ok m \<Longrightarrow> (\<And>r. slot_ok bs pending m r) \<Longrightarrow> slots_ok bs pending m"
  by (simp add: slots_ok_def)

lemma slots_okD: "slots_ok bs pending m \<Longrightarrow> manager_ok m" "slots_ok bs pending m \<Longrightarrow> slot_ok bs pending m r"
  by (simp_all add: slots_ok_def)

lemma stored_slot: "slots_ok bs pending m \<Longrightarrow> r \<in> bs \<or> r \<in> pending \<or> mapped m r \<Longrightarrow> \<exists>s. lm_store m r = Some s"
  using slots_okD(2) [of bs pending m r] mapped_stored [OF slots_okD(1), of bs pending m r]
  by (auto simp: slot_ok_def)

text \<open>A selection taken out of the tables by a call that will cancel it.\<close>

lemma remove_slots:
  assumes "slots_ok bs pending m" "lm_store m q \<noteq> None"
  shows "slots_ok bs (insert q pending) (remove_locked q m)"
proof (rule slots_okI)
  note ok = slots_okD [OF assms(1)]
  show "manager_ok (remove_locked q m)" by (rule remove_locked_ok [OF ok(1)])
  fix r
  show "slot_ok bs (insert q pending) (remove_locked q m) r"
    using ok(2) [of r] assms(2) by (cases "r = q") (auto simp: slot_ok_def mapped_remove [OF ok(1)])
qed

text \<open>A cancelled selection taken out of the tables need not stay busy.\<close>

lemma release_slots:
  assumes "slots_ok bs pending m" "was_cancelled m q"
  shows "slots_ok (bs - {q}) pending (release_selection q m)"
  unfolding release_selection_def
proof (rule slots_okI)
  note ok = slots_okD [OF assms(1)]
  show "manager_ok (remove_locked q m)" by (rule remove_locked_ok [OF ok(1)])
  fix r
  show "slot_ok (bs - {q}) pending (remove_locked q m) r"
    using ok(2) [of r] assms(2)
    by (cases "r = q") (auto simp: slot_ok_def mapped_remove [OF ok(1)] was_cancelled_def)
qed

lemma cancel_selection_store [simp]:
  "lm_store (cancel_selection (Some q) m) r =
     (if r = q then map_option (\<lambda>s. if sel_cancel s then s\<lparr>sel_cancelled := True\<rparr> else s) (lm_store m q)
      else lm_store m r)"
  "mapped (cancel_selection previous m) r = mapped m r"
  by (simp_all add: cancel_selection_def mapped_def split: option.split)

lemma cancel_slots:
  assumes "slots_ok bs pending m" "pending - {q} \<subseteq> pending'" "pending' \<subseteq> pending"
  shows "slots_ok bs pending' (cancel_selection (Some q) m)"
proof (rule slots_okI)
  note ok = slots_okD [OF assms(1)]
  show "manager_ok (cancel_selection (Some q) m)" using ok(1) by simp
  fix r
  show "slot_ok bs pending' (cancel_selection (Some q) m) r"
    using ok(2) [of r] assms(2,3) by (cases "r = q") (auto simp: slot_ok_def)
qed

lemma cancel_busy:
  assumes "slots_ok bs pending m" "q \<in> bs"
  shows "was_cancelled (cancel_selection (Some q) m) q"
  using slots_okD(2) [OF assms(1), of q] assms(2) by (auto simp: slot_ok_def was_cancelled_def)

text \<open>A cancelled selection that has left the tables need not stay busy either.\<close>

lemma unbusy_slots:
  assumes "slots_ok bs pending m" "\<not> mapped m q" "was_cancelled m q"
  shows "slots_ok (bs - {q}) pending m"
proof (rule slots_okI)
  note ok = slots_okD [OF assms(1)]
  show "manager_ok m" by (rule ok(1))
  fix r
  show "slot_ok (bs - {q}) pending m r"
    using ok(2) [of r] assms(2,3) by (cases "r = q") (auto simp: slot_ok_def was_cancelled_def)
qed

lemma expire_slots:
  assumes "slots_ok bs pending m"
  shows "slots_ok bs pending (expire_selection q m)"
proof (cases "\<exists>s. lm_store m q = Some s \<and> lm_by_process m (sel_process_id s) = Some q \<and> \<not> sel_streaming s")
  case True
  note ok = slots_okD [OF assms]
  from True have "q \<notin> bs" "\<exists>s. lm_store m q = Some s \<and> \<not> sel_streaming s"
    using ok(2) [of q] by (auto simp: slot_ok_def)
  moreover have "expire_selection q m = remove_locked q m" using True by (auto simp: expire_selection_def)
  moreover have "slot_ok bs pending (remove_locked q m) r" for r
    using ok(2) [of r] calculation(1,2) by (cases "r = q") (auto simp: slot_ok_def mapped_remove [OF ok(1)])
  ultimately show ?thesis using remove_locked_ok [OF ok(1), of q] by (simp add: slots_ok_def)
next
  case False
  then have "expire_selection q m = m" by (auto simp: expire_selection_def split: option.split)
  then show ?thesis using assms by simp
qed

lemma begin_open_cases:
  assumes "begin_open p m = (Inr q, m')"
  obtains s where "lm_by_process m p = Some q" "lm_store m q = Some s" "\<not> sel_streaming s"
    "m' = update_selection q (\<lambda>s. s\<lparr>sel_streaming := True, sel_timer := False, sel_cancel := True\<rparr>) m"
  using assms by (auto simp: begin_open_def split: option.splits if_splits)

lemma begin_open_slots:
  assumes "slots_ok bs pending m" "begin_open p m = (Inr q, m')"
  shows "slots_ok (insert q bs) pending m' \<and> q \<notin> bs"
  using assms(2)
proof (cases rule: begin_open_cases)
  case (1 s)
  have new: "q \<notin> bs" using slots_okD(2) [OF assms(1), of q] 1 by (auto simp: slot_ok_def)
  have "mapped m q" using 1(1) by (auto simp: mapped_def)
  then have "slot_ok (insert q bs) pending m' r" for r
    using slots_okD(2) [OF assms(1), of r] 1 by (cases "r = q") (auto simp: slot_ok_def)
  then show ?thesis using slots_okD(1) [OF assms(1)] new by (auto simp: slots_ok_def 1 keeps_keys_def)
qed

lemma fresh_unused:
  assumes "slots_ok bs pending m"
  shows "lm_store m (lm_fresh m) = None" "lm_fresh m \<notin> bs" "lm_fresh m \<notin> pending"
    "lm_by_network m n \<noteq> Some (lm_fresh m)"
proof -
  have none: "keys_of m (lm_fresh m) = None" using manager_okD(1) slots_okD(1) [OF assms] by blast
  then show stored: "lm_store m (lm_fresh m) = None" by (simp add: keys_of_def)
  then show "lm_fresh m \<notin> bs" "lm_fresh m \<notin> pending" using stored_slot [OF assms, of "lm_fresh m"] by auto
  show "lm_by_network m n \<noteq> Some (lm_fresh m)"
    using manager_okD(2) [OF slots_okD(1) [OF assms]] none by fastforce
qed

lemma mapped_add:
  "lm_by_process m p = None \<Longrightarrow> mapped (add_selection n p target m) r \<longleftrightarrow> mapped m r \<or> r = lm_fresh m"
  by (auto simp: mapped_def add_selection_def) (metis option.distinct(1))

lemma add_selection_slots:
  assumes "slots_ok bs pending m" "manager_ok (add_selection n p target m)" "lm_by_process m p = None"
  shows "slots_ok bs pending (add_selection n p target m)"
proof (rule slots_okI)
  show "manager_ok (add_selection n p target m)" by (rule assms(2))
  fix r
  show "slot_ok bs pending (add_selection n p target m) r"
    using slots_okD(2) [OF assms(1), of r] fresh_unused(2,3) [OF assms(1)] mapped_add [OF assms(3), of n target r]
    by (cases "r = lm_fresh m") (auto simp: slot_ok_def add_selection_def)
qed

lemma next_id_slots: "slots_ok bs pending m \<Longrightarrow> manager_ok (m\<lparr>lm_next := c\<rparr>) \<Longrightarrow> slots_ok bs pending (m\<lparr>lm_next := c\<rparr>)"
  by (auto simp: slots_ok_def slot_ok_def mapped_def)

lemma select_slots:
  assumes "slots_ok bs (set refs) m" "select_service network stream service n resolved m = (res, previous, m')"
  shows "slots_ok bs (set (cancelling previous refs)) m'"
proof (rule select_service_cases [OF slots_okD(1) [OF assms(1)], of network stream service n resolved])
  fix e assume "select_service network stream service n resolved m = (Inl e, None, m)"
  then show ?thesis using assms by (simp add: cancelling_def)
next
  fix m1 p c target
  assume m1: "m1 = (case lm_by_network m n of None \<Rightarrow> m | Some r \<Rightarrow> remove_locked r m)\<lparr>lm_next := c\<rparr>"
    and ok: "manager_ok m1" "lm_by_network m1 n = None" "lm_by_process m1 p = None" "0 < sint p"
      "card (dom (lm_by_network m1)) < maximum_sessions"
    and run: "select_service network stream service n resolved m = (Inr p, lm_by_network m n, add_selection n p target m1)"
  have "slots_ok bs (set (cancelling (lm_by_network m n) refs)) m1"
  proof (cases "lm_by_network m n")
    case None
    then show ?thesis using assms(1) ok(1) by (simp add: m1 next_id_slots cancelling_def)
  next
    case (Some r)
    have "lm_store m r \<noteq> None" using manager_okD(2) [OF slots_okD(1) [OF assms(1)] Some] keys_of_SomeD by fastforce
    then show ?thesis using remove_slots [OF assms(1), of r] ok(1) Some by (simp add: m1 next_id_slots cancelling_def)
  qed
  from add_selection_slots [OF this add_selection_ok [OF ok(1-5)] ok(3)] show ?thesis using run assms(2) by simp
qed

lemma close_network_slots:
  assumes "slots_ok bs (set refs) m" "close_network n m = (selected, m')"
  shows "slots_ok bs (set (cancelling selected refs)) m'"
proof (cases "sint n \<le> 0 \<or> lm_by_network m n = None")
  case True
  then show ?thesis using assms by (auto simp: close_network_def cancelling_def Let_def split: if_splits)
next
  case False
  then obtain r where r: "lm_by_network m n = Some r" by blast
  have "lm_store m r \<noteq> None" using manager_okD(2) [OF slots_okD(1) [OF assms(1)] r] keys_of_SomeD by fastforce
  moreover have "selected = Some r" "m' = remove_locked r m" using assms(2) r False by (auto simp: close_network_def Let_def)
  ultimately show ?thesis using remove_slots [OF assms(1), of r] by (simp add: cancelling_def)
qed

lemma fold_remove_slots:
  "slots_ok bs pending m \<Longrightarrow> list_all (\<lambda>r. lm_store m r \<noteq> None) refs \<Longrightarrow> slots_ok bs (set refs \<union> pending) (fold remove_locked refs m)"
proof (induction refs arbitrary: m pending)
  case (Cons r refs)
  have "list_all (\<lambda>q. lm_store (remove_locked r m) q \<noteq> None) refs"
    using Cons.prems(2) by (auto simp: list_all_iff)
  from Cons.IH [OF remove_slots [OF Cons.prems(1)] this] Cons.prems(2) show ?case by simp
qed simp

lemma close_all_slots:
  assumes "slots_ok bs (set cs) m" "set refs = ran (lm_by_network m)" "close_all refs m = (selected, m')"
  shows "slots_ok bs (set (selected @ cs)) m'"
proof -
  have "list_all (\<lambda>r. lm_store m r \<noteq> None) refs"
    using assms(2) manager_okD(2) [OF slots_okD(1) [OF assms(1)]] keys_of_SomeD
    by (fastforce simp: list_all_iff ran_def)
  from fold_remove_slots [OF assms(1) this] show ?thesis using assms(3) by (auto simp: close_all_def)
qed

section \<open>How a selection changes\<close>

text \<open>A selection keeps its identifiers, stays cancelled and never comes back into the tables.\<close>

definition evolves :: "'target manager \<Rightarrow> 'target manager \<Rightarrow> bool" where
  "evolves m m' \<longleftrightarrow> (\<forall>r s. lm_store m r = Some s \<longrightarrow>
     (\<exists>s'. lm_store m' r = Some s' \<and> sel_network_id s' = sel_network_id s \<and> sel_process_id s' = sel_process_id s \<and>
        (sel_cancelled s \<longrightarrow> sel_cancelled s')) \<and> (mapped m' r \<longrightarrow> mapped m r))"

lemma evolves_refl [simp]: "evolves m m"
  by (simp add: evolves_def)

lemma evolves_trans: "evolves a b \<Longrightarrow> evolves b c \<Longrightarrow> evolves a c"
  by (fastforce simp: evolves_def)

lemma evolves_remove: "manager_ok m \<Longrightarrow> evolves m (remove_locked q m)"
  by (auto simp: evolves_def mapped_remove)

lemma evolves_cancel: "evolves m (cancel_selection (Some q) m)"
  by (auto simp: evolves_def)

lemma evolves_expire: "manager_ok m \<Longrightarrow> evolves m (expire_selection q m)"
  by (auto simp: expire_selection_def evolves_remove split: option.split)

lemma evolves_begin: "begin_open p m = (Inr q, m') \<Longrightarrow> evolves m m'"
  by (erule begin_open_cases) (auto simp: evolves_def)

lemma evolves_fold: "manager_ok m \<Longrightarrow> evolves m (fold remove_locked refs m)"
proof (induction refs arbitrary: m)
  case (Cons r refs)
  from evolves_trans [OF evolves_remove [OF Cons.prems] Cons.IH [OF remove_locked_ok [OF Cons.prems]]] show ?case
    by simp
qed simp

lemma evolves_close: "manager_ok m \<Longrightarrow> close_network n m = (selected, m') \<Longrightarrow> evolves m m'"
  by (auto simp: close_network_def Let_def evolves_remove split: if_splits option.splits)

lemma evolves_select:
  assumes "slots_ok bs pending m" "select_service network stream service n resolved m = (res, previous, m')"
  shows "evolves m m'"
proof (rule select_service_cases [OF slots_okD(1) [OF assms(1)], of network stream service n resolved])
  fix e assume "select_service network stream service n resolved m = (Inl e, None, m)"
  then show ?thesis using assms(2) by simp
next
  fix m1 p c target
  assume m1: "m1 = (case lm_by_network m n of None \<Rightarrow> m | Some r \<Rightarrow> remove_locked r m)\<lparr>lm_next := c\<rparr>"
    and free: "lm_by_process m1 p = None"
    and run: "select_service network stream service n resolved m = (Inr p, lm_by_network m n, add_selection n p target m1)"
  let ?m0 = "case lm_by_network m n of None \<Rightarrow> m | Some r \<Rightarrow> remove_locked r m"
  have m0: "evolves m ?m0" by (simp add: evolves_remove [OF slots_okD(1) [OF assms(1)]] split: option.split)
  have "lm_fresh (remove_locked r m) = lm_fresh m" for r
    by (cases "lm_store m r") (simp_all add: remove_locked_fields(5), simp add: remove_locked_def)
  then have fresh: "lm_fresh ?m0 = lm_fresh m" by (simp split: option.split)
  have "lm_store ?m0 (lm_fresh m) = None"
    using fresh_unused(1) [OF assms(1)] by (simp split: option.split)
  then have "evolves ?m0 (add_selection n p target m1)"
    using free mapped_add [OF free, of n target] fresh by (auto simp: evolves_def add_selection_def m1 mapped_def)
  with m0 show ?thesis using run assms(2) evolves_trans by fastforce
qed

section \<open>Reachable states\<close>

text \<open>What is known of a selection while a call is in one of its phases.\<close>

primrec phase_ok :: "'target manager \<Rightarrow> ref \<Rightarrow> open_phase \<Rightarrow> bool" where
  "phase_ok m r (Waiting p) \<longleftrightarrow> (\<exists>n. keys_of m r = Some (n, p))"
| "phase_ok m r (Granted p) \<longleftrightarrow> (\<exists>n. keys_of m r = Some (n, p))"
| "phase_ok m r Refused \<longleftrightarrow> True"
| "phase_ok m r RefusedCancelled \<longleftrightarrow> was_cancelled m r"
| "phase_ok m r Late \<longleftrightarrow> \<not> mapped m r"
| "phase_ok m r LateReturned \<longleftrightarrow> \<not> mapped m r"
| "phase_ok m r Relaying \<longleftrightarrow> True"
| "phase_ok m r Closing \<longleftrightarrow> was_cancelled m r"
| "phase_ok m r Releasing \<longleftrightarrow> was_cancelled m r"

primrec holds_lease :: "open_phase \<Rightarrow> bool" where
  "holds_lease (Waiting p) \<longleftrightarrow> False"
| "holds_lease (Granted p) \<longleftrightarrow> True"
| "holds_lease Refused \<longleftrightarrow> False"
| "holds_lease RefusedCancelled \<longleftrightarrow> False"
| "holds_lease Late \<longleftrightarrow> True"
| "holds_lease LateReturned \<longleftrightarrow> False"
| "holds_lease Relaying \<longleftrightarrow> True"
| "holds_lease Closing \<longleftrightarrow> True"
| "holds_lease Releasing \<longleftrightarrow> False"

definition sessions_ok :: "'target sessions \<Rightarrow> bool" where
  "sessions_ok st \<longleftrightarrow>
     slots_ok (dom (se_phase st)) (set (se_cancels st)) (se_manager st) \<and>
     (\<forall>r ph. se_phase st r = Some ph \<longrightarrow> phase_ok (se_manager st) r ph) \<and>
     (\<forall>r. r \<in> se_leases st \<longleftrightarrow> (\<exists>ph. se_phase st r = Some ph \<and> holds_lease ph))"

lemma sessions_okD:
  assumes "sessions_ok st"
  shows "slots_ok (dom (se_phase st)) (set (se_cancels st)) (se_manager st)"
    "se_phase st r = Some ph \<Longrightarrow> phase_ok (se_manager st) r ph"
    "r \<in> se_leases st \<longleftrightarrow> (\<exists>ph. se_phase st r = Some ph \<and> holds_lease ph)"
    "manager_ok (se_manager st)"
  using assms by (auto simp: sessions_ok_def slots_ok_def)

lemma sessions_ok_new: "sessions_ok new_sessions"
  by (simp add: sessions_ok_def new_sessions_def slots_ok_def slot_ok_def mapped_def manager_ok_new)
    (simp add: new_manager_def)

lemma phase_evolves:
  assumes "evolves m m'" "lm_store m r \<noteq> None" "phase_ok m r ph"
  shows "phase_ok m' r ph"
  using assms by (cases ph) (force simp: evolves_def keys_of_def was_cancelled_def)+

text \<open>A step of the manager alone, and a step that moves one call to another phase.\<close>

lemma manager_step_ok:
  assumes ok: "sessions_ok st" and "evolves (se_manager st) m'" and "slots_ok (dom (se_phase st)) (set cs) m'"
  shows "sessions_ok (st\<lparr>se_manager := m', se_cancels := cs\<rparr>)"
proof -
  have "lm_store (se_manager st) r \<noteq> None" if "se_phase st r = Some ph" for r ph
    using stored_slot [OF sessions_okD(1) [OF ok], of r] that by auto
  then show ?thesis
    using sessions_okD(2,3) [OF ok] phase_evolves [OF assms(2)] assms(3) by (simp add: sessions_ok_def)
qed

lemma phase_step_ok:
  assumes ok: "sessions_ok st" and "evolves (se_manager st) m'"
    and "slots_ok (dom ((se_phase st)(r := ph))) (set (se_cancels st)) m'"
    and "\<And>x. ph = Some x \<Longrightarrow> phase_ok m' r x"
    and "leases = (if \<exists>x. ph = Some x \<and> holds_lease x then insert r (se_leases st) else se_leases st - {r})"
  shows "sessions_ok (to_phase r ph (st\<lparr>se_manager := m', se_leases := leases\<rparr>))"
proof -
  have stored: "lm_store (se_manager st) q \<noteq> None" if "se_phase st q = Some x" for q x
    using stored_slot [OF sessions_okD(1) [OF ok], of q] that by auto
  have "phase_ok m' q x" if "((se_phase st)(r := ph)) q = Some x" for q x
    using that assms(4) phase_evolves [OF assms(2) stored] sessions_okD(2) [OF ok] by (auto split: if_splits)
  moreover have "q \<in> leases \<longleftrightarrow> (\<exists>x. ((se_phase st)(r := ph)) q = Some x \<and> holds_lease x)" for q
    using sessions_okD(3) [OF ok, of q] assms(5) by (cases "q = r") auto
  ultimately show ?thesis using assms(3) by (simp add: sessions_ok_def to_phase_def)
qed

lemma dom_in_phase [simp]: "se_phase st r = Some ph \<Longrightarrow> insert r (dom (se_phase st)) = dom (se_phase st)"
  by auto

lemma begin_open_keys:
  assumes "manager_ok m" "begin_open p m = (Inr q, m')"
  shows "\<exists>n. keys_of m' q = Some (n, p)"
  using assms(2)
proof (cases rule: begin_open_cases)
  case (1 s)
  then show ?thesis
    using manager_okD(3) [OF assms(1) 1(1)] by (auto simp: keys_of_update keeps_keys_def)
qed

text \<open>The cancel function called by \<open>Open\<close> or by the relay itself.\<close>

lemma own_cancel:
  assumes "sessions_ok st" "se_phase st r = Some ph"
  shows "slots_ok (dom (se_phase st)) (set (se_cancels st)) (cancel_selection (Some r) (se_manager st))"
    "was_cancelled (cancel_selection (Some r) (se_manager st)) r"
proof -
  note ok = sessions_okD(1) [OF assms(1)]
  show "slots_ok (dom (se_phase st)) (set (se_cancels st)) (cancel_selection (Some r) (se_manager st))"
    by (rule cancel_slots [OF ok Diff_subset order_refl])
  show "was_cancelled (cancel_selection (Some r) (se_manager st)) r"
    by (rule cancel_busy [OF ok]) (use assms(2) in auto)
qed

lemma own_step:
  assumes "sessions_ok st" "se_phase st r = Some ph" "phase_ok (cancel_selection (Some r) (se_manager st)) r ph'"
    and "holds_lease ph' = holds_lease ph"
  shows "sessions_ok (to_phase r (Some ph') (st\<lparr>se_manager := cancel_selection (Some r) (se_manager st)\<rparr>))"
proof -
  have "se_leases st = (if \<exists>x. Some ph' = Some x \<and> holds_lease x then insert r (se_leases st) else se_leases st - {r})"
    using sessions_okD(3) [OF assms(1), of r] assms(2,4) by (simp add: insert_absorb)
  from phase_step_ok [OF assms(1) evolves_cancel _ _ this] own_cancel(1) [OF assms(1,2)] assms(2,3)
  show ?thesis by simp
qed

lemma live_step_ok: "live_step st st' \<Longrightarrow> sessions_ok st \<Longrightarrow> sessions_ok st'"
proof (induction rule: live_step.induct)
  case (Select network stream service n resolved st res previous m)
  note slots = sessions_okD(1) [OF Select.prems]
  show ?case
    by (rule manager_step_ok [OF Select.prems evolves_select [OF slots Select.hyps] select_slots [OF slots Select.hyps]])
next
  case (CloseNetwork n st selected m)
  note ok = sessions_okD(1,4) [OF CloseNetwork.prems]
  show ?case
    by (rule manager_step_ok [OF CloseNetwork.prems evolves_close [OF ok(2) CloseNetwork.hyps]
        close_network_slots [OF ok(1) CloseNetwork.hyps]])
next
  case (CloseAll refs st selected m)
  note ok = sessions_okD(1,4) [OF CloseAll.prems]
  have "evolves (se_manager st) m" using CloseAll.hyps(3) evolves_fold [OF ok(2)] by (auto simp: close_all_def)
  then show ?case by (rule manager_step_ok [OF CloseAll.prems _ close_all_slots [OF ok(1) CloseAll.hyps(2,3)]])
next
  case (Cancel r st)
  show ?case
  proof (rule manager_step_ok [OF Cancel.prems evolves_cancel cancel_slots [OF sessions_okD(1) [OF Cancel.prems]]])
    show "set (se_cancels st) - {r} \<subseteq> set (remove1 r (se_cancels st))" by (auto intro: in_set_remove1 [THEN iffD2])
    show "set (remove1 r (se_cancels st)) \<subseteq> set (se_cancels st)" by (rule set_remove1_subset)
  qed
next
  case (Expire st r)
  from manager_step_ok [OF Expire.prems evolves_expire [OF sessions_okD(4) [OF Expire.prems]]
      expire_slots [OF sessions_okD(1) [OF Expire.prems]]]
  show ?case by simp
next
  case (OpenBegin p st r m)
  note slots = begin_open_slots [OF sessions_okD(1) [OF OpenBegin.prems] OpenBegin.hyps]
  have "\<exists>n. keys_of m r = Some (n, p)" by (rule begin_open_keys [OF sessions_okD(4) [OF OpenBegin.prems] OpenBegin.hyps])
  moreover have "r \<notin> se_leases st" using slots sessions_okD(3) [OF OpenBegin.prems, of r] by auto
  ultimately show ?case
    using phase_step_ok [OF OpenBegin.prems evolves_begin [OF OpenBegin.hyps], where r = r and ph = "Some (Waiting p)" and leases = "se_leases st"] slots
    by simp
next
  case (OpenRefused st r p)
  note ok = sessions_okD(1) [OF OpenRefused.prems] sessions_okD(3) [OF OpenRefused.prems, of r]
  show ?case
    using phase_step_ok [OF OpenRefused.prems evolves_refl, where r = r and ph = "Some Refused" and leases = "se_leases st"] ok OpenRefused.hyps
    by simp
next
  case (RefusedCancel st r)
  show ?case
    by (rule own_step [OF RefusedCancel.prems RefusedCancel.hyps])
      (simp_all add: own_cancel(2) [OF RefusedCancel.prems RefusedCancel.hyps])
next
  case (RefusedRelease st r)
  note ok = sessions_okD(1,4) [OF RefusedRelease.prems] sessions_okD(2,3) [OF RefusedRelease.prems, of r]
  show ?case
    using phase_step_ok [OF RefusedRelease.prems, where r = r and ph = None and m' = "release_selection r (se_manager st)" and leases = "se_leases st"]
      release_slots [OF ok(1), of r] evolves_remove [OF ok(2), of r] ok RefusedRelease.hyps
    by (simp add: release_selection_def)
next
  case (OpenGranted st r p)
  note ok = sessions_okD(1) [OF OpenGranted.prems] sessions_okD(2) [OF OpenGranted.prems OpenGranted.hyps]
  show ?case
    using phase_step_ok [OF OpenGranted.prems evolves_refl, where r = r and ph = "Some (Granted p)" and leases = "insert r (se_leases st)"] ok OpenGranted.hyps
    by simp
next
  case (CheckActive st r p)
  note ok = sessions_okD(1) [OF CheckActive.prems] sessions_okD(3) [OF CheckActive.prems, of r]
  show ?case
    using phase_step_ok [OF CheckActive.prems evolves_refl, where r = r and ph = "Some Relaying" and leases = "se_leases st"] ok CheckActive.hyps
    by (simp add: insert_absorb)
next
  case (CheckLate st r p)
  note ok = sessions_okD(1,4) [OF CheckLate.prems] sessions_okD(3) [OF CheckLate.prems, of r]
  obtain n where keys: "keys_of (se_manager st) r = Some (n, p)"
    using sessions_okD(2) [OF CheckLate.prems CheckLate.hyps(1)] by auto
  obtain s where "lm_store (se_manager st) r = Some s" "sel_streaming s"
    using slots_okD(2) [OF ok(1), of r] CheckLate.hyps(1) by (auto simp: slot_ok_def)
  then have "\<not> mapped (se_manager st) r"
    using CheckLate.hyps(2) manager_okD(3) [OF ok(2)] keys by (fastforce simp: mapped_def open_active_def)
  then show ?case
    using phase_step_ok [OF CheckLate.prems evolves_refl, where r = r and ph = "Some Late" and leases = "se_leases st"] ok CheckLate.hyps
    by (simp add: insert_absorb)
next
  case (LateReturn st r)
  note ok = sessions_okD(1) [OF LateReturn.prems] sessions_okD(2) [OF LateReturn.prems LateReturn.hyps]
  show ?case
    using phase_step_ok [OF LateReturn.prems evolves_refl, where r = r and ph = "Some LateReturned" and leases = "se_leases st - {r}"] ok LateReturn.hyps
    by simp
next
  case (LateCancel st r)
  note ok = sessions_okD(1) [OF LateCancel.prems] sessions_okD(2) [OF LateCancel.prems LateCancel.hyps]
    sessions_okD(3) [OF LateCancel.prems, of r]
  let ?m = "cancel_selection (Some r) (se_manager st)"
  have "slots_ok (dom (se_phase st) - {r}) (set (se_cancels st)) ?m"
    by (rule unbusy_slots [OF own_cancel(1) [OF LateCancel.prems LateCancel.hyps]
          _ own_cancel(2) [OF LateCancel.prems LateCancel.hyps]])
      (use ok(2) in simp)
  then show ?case
    using phase_step_ok [OF LateCancel.prems evolves_cancel, where r = r and ph = None and leases = "se_leases st", of r] ok LateCancel.hyps by simp
next
  case (RelayCancel st r)
  show ?case
    by (rule own_step [OF RelayCancel.prems RelayCancel.hyps])
      (simp_all add: own_cancel(2) [OF RelayCancel.prems RelayCancel.hyps])
next
  case (RelayReturn st r)
  note ok = sessions_okD(1) [OF RelayReturn.prems] sessions_okD(2) [OF RelayReturn.prems RelayReturn.hyps]
  show ?case
    using phase_step_ok [OF RelayReturn.prems evolves_refl, where r = r and ph = "Some Releasing" and leases = "se_leases st - {r}"] ok RelayReturn.hyps
    by simp
next
  case (RelayRelease st r)
  note ok = sessions_okD(1,4) [OF RelayRelease.prems] sessions_okD(2,3) [OF RelayRelease.prems, of r]
  show ?case
    using phase_step_ok [OF RelayRelease.prems, where r = r and ph = None and m' = "release_selection r (se_manager st)" and leases = "se_leases st"]
      release_slots [OF ok(1), of r] evolves_remove [OF ok(2), of r] ok RelayRelease.hyps
    by (simp add: release_selection_def)
qed

lemma live_reachable_ok: "live_reachable st \<Longrightarrow> sessions_ok st"
  by (induction rule: live_reachable.induct) (auto intro: sessions_ok_new live_step_ok)

text \<open>C14.
  In every reachable state of the live sessions, between any two steps of concurrent calls, at most
  four network identifiers are in use; each process identifier belongs to exactly the selection its
  network identifier belongs to; a slot is held by a selection whose expiry timer runs or by an
  \<open>Open\<close> in progress or a relay not fully closed, so no slot is lost; such a selection that was closed
  or replaced has been cancelled or its cancellation is pending; a selection whose \<open>Open\<close> failed or
  whose relay is closed has left the tables, has been cancelled and keeps no lease; and the provider's
  leases out are exactly those of the calls that were granted one and have not checked or not
  returned it and of the relays not closed. When no call is under way these are the open relays.\<close>

theorem live_slots_accounted:
  assumes "live_reachable st"
  shows "card (dom (lm_by_network (se_manager st))) \<le> maximum_sessions \<and>
    (\<forall>n r. lm_by_network (se_manager st) n = Some r \<longleftrightarrow>
       (\<exists>p. keys_of (se_manager st) r = Some (n, p) \<and> lm_by_process (se_manager st) p = Some r)) \<and>
    (\<forall>p r. lm_by_process (se_manager st) p = Some r \<longrightarrow> 0 < sint p \<and>
       (r \<in> dom (se_phase st) \<or>
        (\<exists>s. lm_store (se_manager st) r = Some s \<and> \<not> sel_streaming s \<and> sel_timer s))) \<and>
    (\<forall>r \<in> dom (se_phase st). \<exists>s. lm_store (se_manager st) r = Some s \<and> sel_streaming s \<and>
       (mapped (se_manager st) r \<or> sel_cancelled s \<or> r \<in> set (se_cancels st))) \<and>
    (\<forall>r s. lm_store (se_manager st) r = Some s \<and> sel_streaming s \<and> r \<notin> dom (se_phase st) \<longrightarrow>
       sel_cancelled s \<and> \<not> mapped (se_manager st) r \<and> r \<notin> se_leases st) \<and>
    (\<forall>r. r \<in> se_leases st \<longleftrightarrow> (\<exists>ph. se_phase st r = Some ph \<and> holds_lease ph)) \<and>
    (ran (se_phase st) \<subseteq> {Relaying} \<longrightarrow> se_leases st = dom (se_phase st))"
proof -
  let ?m = "se_manager st"
  have ok: "sessions_ok st" by (rule live_reachable_ok [OF assms])
  note m = sessions_okD(4) [OF ok] and slot = slots_okD(2) [OF sessions_okD(1) [OF ok]]
  have tables: "\<forall>n r. lm_by_network ?m n = Some r \<longleftrightarrow>
      (\<exists>p. keys_of ?m r = Some (n, p) \<and> lm_by_process ?m p = Some r)"
    using manager_okD(2,3) [OF m] by fastforce
  have held: "\<forall>p r. lm_by_process ?m p = Some r \<longrightarrow> 0 < sint p \<and>
      (r \<in> dom (se_phase st) \<or> (\<exists>s. lm_store ?m r = Some s \<and> \<not> sel_streaming s \<and> sel_timer s))"
  proof (intro allI impI)
    fix p r assume p: "lm_by_process ?m p = Some r"
    then have "mapped ?m r" by (auto simp: mapped_def)
    with slot [of r] mapped_stored [OF m this] manager_okD(6) [OF m p]
    show "0 < sint p \<and> (r \<in> dom (se_phase st) \<or> (\<exists>s. lm_store ?m r = Some s \<and> \<not> sel_streaming s \<and> sel_timer s))"
      unfolding slot_ok_def by blast
  qed
  have busy: "\<forall>r \<in> dom (se_phase st). \<exists>s. lm_store ?m r = Some s \<and> sel_streaming s \<and>
      (mapped ?m r \<or> sel_cancelled s \<or> r \<in> set (se_cancels st))"
    using slot unfolding slot_ok_def by blast
  have leases: "\<forall>r. r \<in> se_leases st \<longleftrightarrow> (\<exists>ph. se_phase st r = Some ph \<and> holds_lease ph)"
    using sessions_okD(3) [OF ok] by blast
  then have ended: "\<forall>r s. lm_store ?m r = Some s \<and> sel_streaming s \<and> r \<notin> dom (se_phase st) \<longrightarrow>
      sel_cancelled s \<and> \<not> mapped ?m r \<and> r \<notin> se_leases st"
    using slot unfolding slot_ok_def by fastforce
  have "se_leases st = dom (se_phase st)" if "ran (se_phase st) \<subseteq> {Relaying}"
  proof (rule set_eqI)
    fix r show "r \<in> se_leases st \<longleftrightarrow> r \<in> dom (se_phase st)"
      using leases that by (cases "se_phase st r") (auto dest: ranI)
  qed
  with manager_okD(5) [OF m] tables held busy leases ended show ?thesis by blast
qed

text \<open>\<open>Select\<close> never runs out of process identifiers: in a reachable state it refuses a request only for
  an invalid request, an unknown service or four other sessions, and otherwise returns a positive
  identifier that no other session uses.\<close>

theorem process_id_always_free:
  assumes "live_reachable st"
  shows "case select_service network stream service n resolved (se_manager st) of
    (Inr p, previous, m) \<Rightarrow> 0 < sint p \<and> lm_by_process m p = Some (lm_fresh (se_manager st)) \<and>
      lm_by_network m n = Some (lm_fresh (se_manager st))
  | (Inl e, previous, m) \<Rightarrow> e \<in> {SelectionInvalid, ServiceUnavailable, CapacityReached} \<and> m = se_manager st"
proof -
  let ?m = "se_manager st"
  have m: "manager_ok ?m" by (rule sessions_okD(4) [OF live_reachable_ok [OF assms]])
  show ?thesis
  proof (rule select_service_cases [OF m, of network stream service n resolved])
    fix e assume e: "select_service network stream service n resolved ?m = (Inl e, None, ?m)" "e \<noteq> ProcessIdUnavailable"
    then have "e \<in> {SelectionInvalid, ServiceUnavailable, CapacityReached}"
      by (auto simp: select_service_def Let_def split: if_splits option.splits prod.splits)
    then show ?thesis by (simp add: e)
  next
    fix m1 p c target
    assume m1: "m1 = (case lm_by_network ?m n of None \<Rightarrow> ?m | Some r \<Rightarrow> remove_locked r ?m)\<lparr>lm_next := c\<rparr>"
      and p: "0 < sint p"
      and run: "select_service network stream service n resolved ?m =
        (Inr p, lm_by_network ?m n, add_selection n p target m1)"
    have "lm_fresh (remove_locked r ?m) = lm_fresh ?m" for r
      by (cases "lm_store ?m r") (simp_all add: remove_locked_fields(5), simp add: remove_locked_def)
    then have "lm_fresh m1 = lm_fresh ?m" by (simp add: m1 split: option.split)
    then show ?thesis using p by (simp add: run) (simp add: add_selection_def)
  qed
qed

text \<open>
  One session is selected, opened and granted; while its relay is open another request replaces it,
  so that its cancellation is pending.
\<close>

definition example_selected :: "nat manager" where
  "example_selected = add_selection 7 1 5 (new_manager\<lparr>lm_next := 2\<rparr>)"

definition example_opened :: "nat sessions" where
  "example_opened = \<lparr>se_manager = update_selection 0
     (\<lambda>s. s\<lparr>sel_streaming := True, sel_timer := False, sel_cancel := True\<rparr>) example_selected,
     se_phase = [0 \<mapsto> Relaying], se_leases = {0}, se_cancels = []\<rparr>"

definition example_closed :: "nat sessions" where
  "example_closed = example_opened\<lparr>se_manager := remove_locked 0 (se_manager example_opened), se_cancels := [0]\<rparr>"

lemma example_opened_reachable: "live_reachable example_opened"
proof -
  let ?s1 = "new_sessions\<lparr>se_manager := example_selected\<rparr>"
  let ?s2 = "example_opened\<lparr>se_phase := [0 \<mapsto> Waiting 1], se_leases := {}\<rparr>"
  let ?s3 = "example_opened\<lparr>se_phase := [0 \<mapsto> Granted 1]\<rparr>"
  have "select_service 1 1 1 7 (Some 5) (new_manager :: nat manager) = (Inr 1, None, example_selected)"
    by (simp add: select_service_def new_manager_def Let_def maximum_sessions_def next_process_id_step
        numeral_eq_Suc next_id_def example_selected_def del: next_process_id.simps)
  then have "live_step (new_sessions :: nat sessions) ?s1"
    using live_step.Select [of 1 1 1 7 "Some (5 :: nat)" new_sessions] by (simp add: new_sessions_def cancelling_def)
  then have "live_reachable ?s1" by (rule live_reachable.Next [OF live_reachable.Start])
  moreover have "live_step ?s1 ?s2"
    using live_step.OpenBegin [of 1 ?s1 0 "se_manager example_opened"]
    by (simp add: begin_open_def example_selected_def add_selection_def new_manager_def new_sessions_def
        example_opened_def to_phase_def)
  ultimately have "live_reachable ?s2" by (rule live_reachable.Next)
  moreover have "live_step ?s2 ?s3"
    using live_step.OpenGranted [of ?s2 0 1] by (simp add: example_opened_def to_phase_def)
  ultimately have "live_reachable ?s3" by (rule live_reachable.Next)
  moreover have "live_step ?s3 example_opened"
    using live_step.CheckActive [of ?s3 0 1]
    by (simp add: example_opened_def open_active_def example_selected_def add_selection_def new_manager_def to_phase_def)
  ultimately show ?thesis by (rule live_reachable.Next)
qed

lemma example_closed_reachable: "live_reachable example_closed"
proof -
  have "close_network 7 (se_manager example_opened) = (Some 0, remove_locked 0 (se_manager example_opened))"
    by (simp add: close_network_def example_opened_def example_selected_def add_selection_def Let_def new_manager_def)
  from live_step.CloseNetwork [OF this] have "live_step example_opened example_closed"
    by (simp add: example_closed_def cancelling_def example_opened_def)
  with example_opened_reachable show ?thesis by (rule live_reachable.Next)
qed

theorem live_slots_accounted_witness:
  "card (dom (lm_by_network (se_manager example_closed))) \<le> 4 \<and> se_leases example_closed = {0}"
  using live_slots_accounted [OF example_closed_reachable]
  by (simp add: maximum_sessions_def example_closed_def example_opened_def)

theorem process_id_always_free_witness:
  "\<exists>p previous m. select_service 1 1 2 8 (Some 6) (se_manager example_opened) = (Inr p, previous, m) \<and> 0 < sint p"
proof -
  have "fst (select_service 1 1 2 8 (Some 6) (se_manager example_opened)) = Inr 2"
    by (simp add: select_service_def example_opened_def example_selected_def add_selection_def new_manager_def
        Let_def maximum_sessions_def next_process_id_step next_id_def numeral_eq_Suc del: next_process_id.simps)
  then show ?thesis
    using process_id_always_free [OF example_opened_reachable, where network = 1 and stream = 1 and service = 2 and n = 8
      and resolved = "Some 6"]
    by (auto split: prod.splits)
qed

section \<open>Copying a stream\<close>

text \<open>
  \<open>writeAll\<close> and the loop of \<open>Copy\<close>.  The destination takes bytes and its state and gives the count,
  whether it failed, and its new state; the answers of the lease's \<open>Read\<close> come as a list: the count
  it claims, the bytes in the buffer, whether the stream is done and whether it failed.  When the
  list is used up the loop waits for the next answer, which is \<open>None\<close>.
\<close>

type_synonym 'd destination = "bytes \<Rightarrow> 'd \<Rightarrow> int \<times> bool \<times> 'd"

datatype relay_write_error = InvalidWriteCount | DestinationError | NoProgress

function relay_write_all :: "'d destination \<Rightarrow> bytes \<Rightarrow> 'd \<Rightarrow> relay_write_error option \<times> 'd" where
  "relay_write_all dest data d =
     (if data = [] then (None, d)
      else case dest data d of (n, failed, d') \<Rightarrow>
        if n < 0 \<or> n > int (length data) then (Some InvalidWriteCount, d')
        else if failed then (Some DestinationError, d')
        else if n = 0 then (Some NoProgress, d')
        else relay_write_all dest (drop (nat n) data) d')"
  by pat_completeness auto
termination by (relation "measure (\<lambda>(dest, data, d). length data)") auto

declare relay_write_all.simps [simp del]

record lease_read =
  lr_count :: int
  lr_bytes :: bytes
  lr_done :: bool
  lr_failed :: bool

fun relay_copy :: "'d destination \<Rightarrow> int \<Rightarrow> lease_read list \<Rightarrow> 'd \<Rightarrow> live_error option option \<times> 'd" where
  "relay_copy dest chunk [] d = (None, d)"
| "relay_copy dest chunk (a # rest) d =
     (if lr_count a < 0 \<or> lr_count a > chunk \<or> lr_count a = 0 \<and> \<not> lr_failed a \<and> \<not> lr_done a
      then (Some (Some ProviderReadInvalid), d)
      else
        (case (if lr_count a > 0 then relay_write_all dest (take (nat (lr_count a)) (lr_bytes a)) d else (None, d)) of
           (Some e, d') \<Rightarrow> (Some (Some ClientWriteFailed), d')
         | (None, d') \<Rightarrow>
             if lr_failed a then (Some (Some ProviderReadFailed), d')
             else if lr_done a then (Some None, d')
             else relay_copy dest chunk rest d'))"

text \<open>The bytes the answers deliver.\<close>

definition delivered :: "lease_read list \<Rightarrow> bytes" where
  "delivered as = concat (map (\<lambda>a. take (nat (lr_count a)) (lr_bytes a)) as)"

text \<open>A destination in the sense of \<open>io.Writer\<close>: what it counts, it has appended.\<close>

definition appends :: "'d destination \<Rightarrow> ('d \<Rightarrow> bytes) \<Rightarrow> bool" where
  "appends dest contents \<longleftrightarrow> (\<forall>data d. case dest data d of (n, failed, d') \<Rightarrow>
     0 \<le> n \<and> n \<le> int (length data) \<and> contents d' = contents d @ take (nat n) data)"

lemma relay_write_all_prefix:
  assumes "appends dest contents"
  shows "case relay_write_all dest data d of (e, d') \<Rightarrow>
    (\<exists>k. contents d' = contents d @ take k data) \<and> (e = None \<longrightarrow> contents d' = contents d @ data)"
proof (induction "length data" arbitrary: data d rule: less_induct)
  case less
  show ?case
  proof (cases "data = []")
    case True
    then show ?thesis by (simp add: relay_write_all.simps)
  next
    case False
    obtain n failed d1 where run: "dest data d = (n, failed, d1)" by (metis prod_cases3)
    have n: "0 \<le> n" "n \<le> int (length data)" "contents d1 = contents d @ take (nat n) data"
      using assms run unfolding appends_def by (metis (mono_tags, lifting) case_prod_conv)+
    show ?thesis
    proof (cases "failed \<or> n = 0")
      case True
      then show ?thesis using n run False by (subst relay_write_all.simps) auto
    next
      case go: False
      obtain e d' where rest: "relay_write_all dest (drop (nat n) data) d1 = (e, d')" by fastforce
      have "length (drop (nat n) data) < length data" using go n(1) False by simp
      from less.hyps [OF this, of d1] rest
      have tail: "(\<exists>k. contents d' = contents d1 @ take k (drop (nat n) data)) \<and>
        (e = None \<longrightarrow> contents d' = contents d1 @ drop (nat n) data)" by simp
      then obtain k where
        k: "contents d' = contents d1 @ take k (drop (nat n) data)" "e = None \<longrightarrow> contents d' = contents d1 @ drop (nat n) data"
        by blast
      have "contents d' = contents d @ take (nat n + k) data" using k(1) n(3) by (simp add: take_add)
      moreover have "relay_write_all dest data d = (e, d')"
        using go n(1,2) run False rest by (subst relay_write_all.simps) simp
      ultimately show ?thesis using k(2) n(3) by auto
    qed
  qed
qed

text \<open>Whatever the provider answers and the client accepts, the relay hands the client a prefix of the
  delivered bytes, in order and unchanged; when it ends without error it has handed over all the
  bytes of the answers up to the one that ended the stream.\<close>

theorem relay_copies_in_order:
  assumes "appends dest contents"
  shows "case relay_copy dest chunk answers d of (r, d') \<Rightarrow>
    (\<exists>k. contents d' = contents d @ take k (delivered answers)) \<and>
    (r = Some None \<longrightarrow> (\<exists>as a bs. answers = as @ a # bs \<and> lr_done a \<and> list_all (\<lambda>x. \<not> lr_done x) as \<and>
       contents d' = contents d @ delivered (as @ [a])))"
proof (induction answers arbitrary: d)
  case Nil
  show ?case by (simp add: delivered_def)
next
  case (Cons a rest)
  let ?data = "take (nat (lr_count a)) (lr_bytes a)"
  have more: "delivered (a # xs) = ?data @ delivered xs" for xs by (simp add: delivered_def)
  obtain e d1 where run: "(if lr_count a > 0 then relay_write_all dest ?data d else (None, d)) = (e, d1)" by fastforce
  have "(\<exists>k. contents d1 = contents d @ take k ?data) \<and> (e = None \<longrightarrow> contents d1 = contents d @ ?data)"
  proof (cases "lr_count a > 0")
    case True
    then show ?thesis using relay_write_all_prefix [OF assms, where data = ?data and d = d] run by simp
  next
    case False
    then show ?thesis using run by (auto intro: exI [of _ 0])
  qed
  then obtain k where
    k: "contents d1 = contents d @ take k ?data" "e = None \<longrightarrow> contents d1 = contents d @ ?data" by blast
  have early: "\<exists>k. contents d1 = contents d @ take k (delivered (a # rest))"
  proof (cases "k \<le> length ?data")
    case True
    then show ?thesis using k(1) by (intro exI [of _ k]) (simp add: more)
  next
    case False
    then have "take k ?data = ?data" by (intro take_all) (auto simp: not_le min_def)
    with k(1) have "contents d1 = contents d @ ?data" by (simp only:)
    then show ?thesis by (intro exI [of _ "length ?data"]) (simp only: more take_append_exact)
  qed
  consider (bad) "lr_count a < 0 \<or> lr_count a > chunk \<or> lr_count a = 0 \<and> \<not> lr_failed a \<and> \<not> lr_done a"
    | (stop) x where "relay_copy dest chunk (a # rest) d = (Some (Some x), d1)"
    | (last) "e = None" "lr_done a" "relay_copy dest chunk (a # rest) d = (Some None, d1)"
    | (go) "e = None" "\<not> lr_done a" "relay_copy dest chunk (a # rest) d = relay_copy dest chunk rest d1"
  proof (cases "lr_count a < 0 \<or> lr_count a > chunk \<or> lr_count a = 0 \<and> \<not> lr_failed a \<and> \<not> lr_done a")
    case True
    then show ?thesis by (rule that(1))
  next
    case False
    then have "relay_copy dest chunk (a # rest) d =
        (case e of Some e \<Rightarrow> (Some (Some ClientWriteFailed), d1)
         | None \<Rightarrow> if lr_failed a then (Some (Some ProviderReadFailed), d1)
             else if lr_done a then (Some None, d1) else relay_copy dest chunk rest d1)"
      by (simp only: relay_copy.simps if_False run) (cases e, simp_all)
    with that(2-4) show ?thesis by (cases e; cases "lr_failed a"; cases "lr_done a") simp_all
  qed
  then show ?case
  proof cases
    case bad
    then show ?thesis by (auto intro: exI [of _ 0])
  next
    case stop
    then show ?thesis using early by simp
  next
    case last
    have "\<exists>as b bs. a # rest = as @ b # bs \<and> lr_done b \<and> list_all (\<lambda>x. \<not> lr_done x) as \<and>
       contents d1 = contents d @ delivered (as @ [b])"
      using k(2) last by (intro exI [of _ "[]"] exI [of _ a] exI [of _ rest]) (simp add: delivered_def)
    then show ?thesis using early last by simp
  next
    case go
    obtain r d2 where rest: "relay_copy dest chunk rest d1 = (r, d2)" by fastforce
    have ih: "(\<exists>j. contents d2 = contents d1 @ take j (delivered rest)) \<and>
      (r = Some None \<longrightarrow> (\<exists>as b bs. rest = as @ b # bs \<and> lr_done b \<and> list_all (\<lambda>x. \<not> lr_done x) as \<and>
        contents d2 = contents d1 @ delivered (as @ [b])))"
      using Cons.IH [of d1] unfolding rest case_prod_conv .
    then obtain j where j: "contents d2 = contents d1 @ take j (delivered rest)" by blast
    note ends = conjunct2 [OF ih]
    have at: "contents d1 = contents d @ ?data" using k(2) go by simp
    have "\<exists>i. contents d2 = contents d @ take i (delivered (a # rest))"
    proof (intro exI)
      have cut: "take (length xs + i) (xs @ ys) = xs @ take i ys" for xs ys :: bytes and i by simp
      show "contents d2 = contents d @ take (length ?data + j) (delivered (a # rest))"
        unfolding more cut using j at by (simp only: append_assoc)
    qed
    moreover have "r = Some None \<longrightarrow> (\<exists>as b bs. a # rest = as @ b # bs \<and> lr_done b \<and>
        list_all (\<lambda>x. \<not> lr_done x) as \<and> contents d2 = contents d @ delivered (as @ [b]))"
    proof
      assume "r = Some None"
      with ends obtain as b bs where "rest = as @ b # bs" "lr_done b" "list_all (\<lambda>x. \<not> lr_done x) as"
        "contents d2 = contents d1 @ delivered (as @ [b])" by blast
      then show "\<exists>as b bs. a # rest = as @ b # bs \<and> lr_done b \<and> list_all (\<lambda>x. \<not> lr_done x) as \<and>
          contents d2 = contents d @ delivered (as @ [b])"
        using go(2) at by (intro exI [of _ "a # as"] exI [of _ b] exI [of _ bs]) (simp add: more)
    qed
    ultimately show ?thesis using go rest by simp
  qed
qed

definition one_byte :: "bytes destination" where
  "one_byte data d = (min 1 (int (length data)), False, d @ take 1 data)"

theorem relay_copies_in_order_witness:
  "\<exists>d. relay_copy one_byte 16 [\<lparr>lr_count = 2, lr_bytes = [1, 2, 3], lr_done = True, lr_failed = False\<rparr>] [] =
    (Some None, d) \<and> d = [1, 2]"
proof -
  have "appends one_byte (\<lambda>d. d)"
    by (auto simp: appends_def one_byte_def min_def One_nat_def Suc_le_eq)
  from relay_copies_in_order [OF this, where chunk = 16 and d = "[]"
      and answers = "[\<lparr>lr_count = 2, lr_bytes = [1, 2, 3], lr_done = True, lr_failed = False\<rparr>]"]
  show ?thesis by (simp add: relay_write_all.simps one_byte_def delivered_def take_Cons')
qed

end
