(* ===== verification/Calendar.thy ===== *)
theory Calendar
  imports Prelude
begin

text \<open>
  Instants and civil dates as the package \<open>time\<close> has them.  An instant is its distance from the Unix
  epoch in nanoseconds together with whether its location is \<open>time.UTC\<close>; a duration is an integer of
  nanoseconds.  Dates are proleptic Gregorian.  The lemmas show that the conversions between day
  numbers and dates invert each other and that the fields are in their ranges.
\<close>

section \<open>Instants and durations\<close>

record instant =
  t_nanos :: int
  t_utc :: bool

abbreviation millisecond :: int where "millisecond \<equiv> 1000000"
abbreviation second :: int where "second \<equiv> 1000000000"
abbreviation minute :: int where "minute \<equiv> 60000000000"
abbreviation hour :: int where "hour \<equiv> 3600000000000"
abbreviation day :: int where "day \<equiv> 86400000000000"

text \<open>The zero time, the first of January of the year 1.\<close>

definition zero_nanos :: int where
  "zero_nanos = - 62135596800000000000"

definition is_zero_time :: "instant \<Rightarrow> bool" where
  "is_zero_time t \<longleftrightarrow> t_nanos t = zero_nanos"

definition unix_milli :: "instant \<Rightarrow> int" where
  "unix_milli t = t_nanos t div millisecond"

definition add_duration :: "instant \<Rightarrow> int \<Rightarrow> instant" where
  "add_duration t d = t\<lparr>t_nanos := t_nanos t + d\<rparr>"

definition sub_time :: "instant \<Rightarrow> instant \<Rightarrow> int" where
  "sub_time a b = t_nanos a - t_nanos b"

definition after_time :: "instant \<Rightarrow> instant \<Rightarrow> bool" where
  "after_time a b \<longleftrightarrow> t_nanos b < t_nanos a"

definition before_time :: "instant \<Rightarrow> instant \<Rightarrow> bool" where
  "before_time a b \<longleftrightarrow> t_nanos a < t_nanos b"

definition in_utc :: "instant \<Rightarrow> instant" where
  "in_utc t = t\<lparr>t_utc := True\<rparr>"

section \<open>Days and dates\<close>

text \<open>The days before the first of March of year \<open>y\<close>, counted from the first of March of year 0.\<close>

definition year_start :: "int \<Rightarrow> int" where
  "year_start y = 365 * y + y div 4 - y div 100 + y div 400"

definition march_year :: "int \<Rightarrow> int" where
  "march_year z = (let y = 400 * z div 146097 in if year_start (y + 1) \<le> z then y + 1 else y)"

text \<open>The date of a day number since 1970-01-01, and back; the day of the month may run over.\<close>

definition march_date :: "int \<Rightarrow> int \<Rightarrow> int \<times> int \<times> int" where
  "march_date y doy =
     (let mp = (5 * doy + 2) div 153; m = (if mp < 10 then mp + 3 else mp - 9)
      in (if m \<le> 2 then y + 1 else y, m, doy - (153 * mp + 2) div 5 + 1))"

definition civil_date :: "int \<Rightarrow> int \<times> int \<times> int" where
  "civil_date days =
     (let y = march_year (days + 719468) in march_date y (days + 719468 - year_start y))"

definition day_number :: "int \<Rightarrow> int \<Rightarrow> int \<Rightarrow> int" where
  "day_number y m d =
     (let yy = (if m \<le> 2 then y - 1 else y); mp = (if m \<le> 2 then m + 9 else m - 3)
      in year_start yy + (153 * mp + 2) div 5 + d - 1 - 719468)"

lemma div_bounds: "0 < (n :: int) \<Longrightarrow> n * (y div n) \<le> y \<and> y < n * (y div n) + n"
  using pos_mod_sign [of n y] pos_mod_bound [of n y] mult_div_mod_eq [of n y] by linarith

lemma year_start_upper: "400 * year_start y \<le> 146097 * y + 396"
  using div_bounds [of 4 y] div_bounds [of 100 y] div_bounds [of 400 y]
  unfolding year_start_def by simp

lemma year_start_lower: "146097 * y - 699 \<le> 400 * year_start y"
  using div_bounds [of 4 y] div_bounds [of 100 y] div_bounds [of 400 y]
  unfolding year_start_def by simp

lemma div_step:
  "(a + 1) div 4 = a div 4 \<or> (a + 1) div 4 = a div 4 + (1 :: int)"
  "(a + 1) div 25 = a div 25 \<or> (a + 1) div 25 = a div 25 + (1 :: int)"
  using div_bounds [of 4 a] div_bounds [of 4 "a + 1"] div_bounds [of 25 a] div_bounds [of 25 "a + 1"] by auto

lemma year_start_step: "year_start (y + 1) - year_start y \<in> {365, 366}"
proof -
  have nested: "x div 100 = x div 4 div 25" "x div 400 = x div 4 div 25 div 4" for x :: int
    by (simp_all add: zdiv_zmult2_eq [symmetric])
  consider "(y + 1) div 4 = y div 4" | "(y + 1) div 4 = y div 4 + 1" using div_step(1) [of y] by auto
  then show ?thesis
  proof cases
    case 1
    then show ?thesis by (simp add: year_start_def nested)
  next
    case 2
    consider "(y div 4 + 1) div 25 = y div 4 div 25" | "(y div 4 + 1) div 25 = y div 4 div 25 + 1"
      using div_step(2) [of "y div 4"] by auto
    then show ?thesis
    proof cases
      case 1
      then show ?thesis by (simp add: year_start_def nested 2)
    next
      case b: 2
      then show ?thesis using div_step(1) [of "y div 4 div 25"] by (auto simp: year_start_def nested 2)
    qed
  qed
qed

lemma march_year_bounds: "year_start (march_year z) \<le> z \<and> z < year_start (march_year z + 1)"
proof -
  define y where "y = 400 * z div 146097"
  have "146097 * y \<le> 400 * z" "400 * z < 146097 * y + 146097"
    using div_bounds [of 146097 "400 * z"] by (simp_all add: y_def)
  then have "year_start y \<le> z" "z < year_start (y + 1 + 1)"
    using year_start_upper [of y] year_start_lower [of "y + 1 + 1"] by simp_all
  then show ?thesis by (simp add: march_year_def Let_def y_def [symmetric])
qed

lemma month_split:
  fixes doy :: int
  assumes "0 \<le> doy" "doy \<le> 365" "mp = (5 * doy + 2) div 153" "q = (153 * mp + 2) div 5"
  shows "0 \<le> mp \<and> mp \<le> 11 \<and> 0 \<le> doy - q \<and> doy - q \<le> 30"
  using assms(1,2) div_bounds [of 153 "5 * doy + 2"] div_bounds [of 5 "153 * mp + 2"]
  unfolding assms(3) [symmetric] assms(4) [symmetric] by linarith

lemma march_date_fields:
  assumes "march_date y0 doy = (y, m, d)" "0 \<le> doy" "doy \<le> 365"
  shows "1 \<le> m \<and> m \<le> 12 \<and> 1 \<le> d \<and> d \<le> 31 \<and> day_number y m d = year_start y0 + doy - 719468"
proof -
  define mp where "mp = (5 * doy + 2) div 153"
  define q where "q = (153 * mp + 2) div 5"
  from month_split [OF assms(2,3) mp_def q_def]
  have split: "0 \<le> mp" "mp \<le> 11" "0 \<le> doy - q" "doy - q \<le> 30" by simp_all
  have fields: "m = (if mp < 10 then mp + 3 else mp - 9)" "y = (if m \<le> 2 then y0 + 1 else y0)" "d = doy - q + 1"
    using assms(1) by (auto simp: march_date_def Let_def mp_def q_def)
  have "(if m \<le> 2 then m + 9 else m - 3) = mp" "(if m \<le> 2 then y - 1 else y) = y0"
    using split(1,2) by (auto simp: fields(1,2))
  then have "day_number y m d = year_start y0 + q + d - 1 - 719468"
    by (simp only: day_number_def Let_def q_def)
  then show ?thesis using split by (auto simp: fields(1,3))
qed

lemma civil_date_fields:
  assumes "civil_date days = (y, m, d)"
  shows "1 \<le> m \<and> m \<le> 12 \<and> 1 \<le> d \<and> d \<le> 31 \<and> day_number y m d = days"
proof -
  define z where "z = days + 719468"
  have "march_date (march_year z) (z - year_start (march_year z)) = (y, m, d)"
    using assms by (simp only: civil_date_def Let_def z_def)
  moreover have "0 \<le> z - year_start (march_year z)" "z - year_start (march_year z) \<le> 365"
    using march_year_bounds [of z] year_start_step [of "march_year z"] by auto
  ultimately show ?thesis using march_date_fields by (simp add: z_def)
qed

text \<open>The fields of an instant in a zone that is \<open>offset\<close> ahead of UTC; Sunday is 0.\<close>

definition local_days :: "int \<Rightarrow> instant \<Rightarrow> int" where
  "local_days offset t = (t_nanos t + offset) div day"

definition local_clock :: "int \<Rightarrow> instant \<Rightarrow> int" where
  "local_clock offset t = (t_nanos t + offset) mod day"

definition weekday_of :: "int \<Rightarrow> int" where
  "weekday_of days = (days + 4) mod 7"

definition japan_offset :: int where
  "japan_offset = 9 * hour"

end
