(* ===== verification/CodecTime.thy ===== *)
theory CodecTime
  imports CodecRoundtrip Calendar
begin

text \<open>
  \<open>SystemTime\<close> of the CtrlCmd codec (\<open>reader.go\<close>, \<open>writer.go\<close>): an instant as the eight 16-bit fields of
  its date and clock in Japan standard time.  Writing and reading back truncates to milliseconds, and
  what the reader accepts is exactly what the writer produces.
\<close>

section \<open>Definitions\<close>

text \<open>Year, month, weekday, day, hour, minute, second and millisecond of an instant.\<close>

definition system_fields :: "instant \<Rightarrow> int list" where
  "system_fields t =
     (let days = local_days japan_offset t; clock = local_clock japan_offset t in
      case civil_date days of (y, m, d) \<Rightarrow>
        [y, m, weekday_of days, d, clock div hour, clock div minute mod 60, clock div second mod 60,
         clock div millisecond mod 1000])"

text \<open>\<open>time.Date\<close> in Japan standard time.\<close>

definition japan_date :: "int \<Rightarrow> int \<Rightarrow> int \<Rightarrow> int \<Rightarrow> int \<Rightarrow> int \<Rightarrow> int \<Rightarrow> instant" where
  "japan_date y m d h mi s nanos =
     \<lparr>t_nanos = day_number y m d * day + h * hour + mi * minute + s * second + nanos - japan_offset, t_utc = False\<rparr>"

definition decode_system_time :: "int \<Rightarrow> int list \<Rightarrow> (codec_error, instant) result" where
  "decode_system_time start f =
     (if f ! 0 < 1 \<or> f ! 1 < 1 \<or> f ! 1 > 12 \<or> f ! 2 > 6 \<or> f ! 3 < 1 \<or> f ! 4 > 23 \<or> f ! 5 > 59 \<or> f ! 6 > 59 \<or> f ! 7 > 999
      then Inl (failure Malformed ''system-time-field'' start 16)
      else
        let t = japan_date (f ! 0) (f ! 1) (f ! 3) (f ! 4) (f ! 5) (f ! 6) (f ! 7 * millisecond);
            days = local_days japan_offset t in
        case civil_date days of (y, m, d) \<Rightarrow>
          if y \<noteq> f ! 0 \<or> m \<noteq> f ! 1 \<or> d \<noteq> f ! 3 \<or> weekday_of days \<noteq> f ! 2
          then Inl (failure Malformed ''system-time-calendar'' start 16)
          else Inr (in_utc t))"

definition read_system_time :: "instant read" where
  "read_system_time r0 =
     read_bind (read_items (\<lambda>_. read_u16) 0 8) (\<lambda>fields r.
       case decode_system_time (int (rd_pos r0)) (map uint fields) of
         Inl e \<Rightarrow> read_fail e r
       | Inr t \<Rightarrow> read_return t r) r0"

primrec write_fields :: "('e, 'd) sink \<Rightarrow> int list \<Rightarrow> ('e, 'd) write_op" where
  "write_fields sink [] = (\<lambda>w. (None, w))"
| "write_fields sink (f # fs) = write_then (write_u16 sink (of_int f)) (write_fields sink fs)"

definition write_system_time :: "('e, 'd) sink \<Rightarrow> instant \<Rightarrow> ('e, 'd) write_op" where
  "write_system_time sink t w =
     (if is_zero_time t then write_fail (failure Malformed ''zero-system-time'' (wr_written w) 0) w
      else
        let year = hd (system_fields t) in
        if year < 1 \<or> year > 65535
        then write_fail (failure OverLimit ''system-time-year'' (wr_written w) year) w
        else write_fields sink (system_fields t) w)"

section \<open>Fields of an instant\<close>

lemma clock_fields:
  fixes clock :: int
  assumes "0 \<le> clock" "clock < day"
  shows "0 \<le> clock div hour" "clock div hour \<le> 23" "clock div minute mod 60 \<le> 59"
    "clock div hour * hour + clock div minute mod 60 * minute + clock div second mod 60 * second +
     clock div millisecond mod 1000 * millisecond = clock - clock mod millisecond"
proof -
  show "0 \<le> clock div hour" using assms(1) by simp
  show "clock div hour \<le> 23" using assms(2) div_bounds [of hour clock] by simp
  show "clock div minute mod 60 \<le> 59" using pos_mod_bound [of 60 "clock div minute"] by simp
  have nested: "clock div second = clock div millisecond div 1000" "clock div minute = clock div millisecond div 1000 div 60"
    "clock div hour = clock div millisecond div 1000 div 60 div 60"
    by (simp_all add: zdiv_zmult2_eq [symmetric])
  define a where "a = clock div millisecond"
  define b where "b = a div 1000"
  define c where "c = b div 60"
  have split: "a = b * 1000 + a mod 1000" "b = c * 60 + b mod 60" "c = c div 60 * 60 + c mod 60"
    "clock = a * millisecond + clock mod millisecond"
    by (simp_all add: a_def b_def c_def)
  show "clock div hour * hour + clock div minute mod 60 * minute + clock div second mod 60 * second +
     clock div millisecond mod 1000 * millisecond = clock - clock mod millisecond"
    unfolding nested a_def [symmetric] b_def [symmetric] c_def [symmetric] using split by linarith
qed

lemma system_fields_facts:
  assumes "system_fields t = f"
  shows "length f = 8" "civil_date (local_days japan_offset t) = (f ! 0, f ! 1, f ! 3)"
    "1 \<le> f ! 1 \<and> f ! 1 \<le> 12 \<and> 1 \<le> f ! 3 \<and> f ! 3 \<le> 31"
    "f ! 2 = weekday_of (local_days japan_offset t)" "0 \<le> f ! 2 \<and> f ! 2 \<le> 6"
    "0 \<le> f ! 4 \<and> f ! 4 \<le> 23" "0 \<le> f ! 5 \<and> f ! 5 \<le> 59" "0 \<le> f ! 6 \<and> f ! 6 \<le> 59" "0 \<le> f ! 7 \<and> f ! 7 \<le> 999"
    "t_nanos (japan_date (f ! 0) (f ! 1) (f ! 3) (f ! 4) (f ! 5) (f ! 6) (f ! 7 * millisecond)) =
      t_nanos t - t_nanos t mod millisecond"
proof -
  obtain y m d where date: "civil_date (local_days japan_offset t) = (y, m, d)" by (metis prod_cases3)
  let ?clock = "local_clock japan_offset t"
  have clock: "0 \<le> ?clock" "?clock < day" by (simp_all add: local_clock_def)
  have f: "f = [y, m, weekday_of (local_days japan_offset t), d, ?clock div hour, ?clock div minute mod 60,
      ?clock div second mod 60, ?clock div millisecond mod 1000]"
    using assms by (simp add: system_fields_def date Let_def)
  have nth: "f ! 0 = y" "f ! 1 = m" "f ! 2 = weekday_of (local_days japan_offset t)" "f ! 3 = d"
    "f ! 4 = ?clock div hour" "f ! 5 = ?clock div minute mod 60" "f ! 6 = ?clock div second mod 60"
    "f ! 7 = ?clock div millisecond mod 1000"
    unfolding f by (simp_all add: numeral_eq_Suc One_nat_def)
  note civil = civil_date_fields [OF date]
  show "length f = 8" by (simp add: f)
  show "civil_date (local_days japan_offset t) = (f ! 0, f ! 1, f ! 3)" by (simp only: nth date)
  show "1 \<le> f ! 1 \<and> f ! 1 \<le> 12 \<and> 1 \<le> f ! 3 \<and> f ! 3 \<le> 31" using civil by (simp only: nth)
  show "f ! 2 = weekday_of (local_days japan_offset t)" by (simp only: nth)
  show "0 \<le> f ! 2 \<and> f ! 2 \<le> 6"
    using pos_mod_bound [of 7 "local_days japan_offset t + 4"] by (simp add: nth weekday_of_def)
  show "0 \<le> f ! 4 \<and> f ! 4 \<le> 23" using clock_fields(1,2) [OF clock] by (simp only: nth)
  show "0 \<le> f ! 5 \<and> f ! 5 \<le> 59" using clock_fields(3) [OF clock] by (simp only: nth) simp
  show "0 \<le> f ! 6 \<and> f ! 6 \<le> 59" using pos_mod_bound [of 60 "?clock div second"] by (simp only: nth) simp
  show "0 \<le> f ! 7 \<and> f ! 7 \<le> 999" using pos_mod_bound [of 1000 "?clock div millisecond"] by (simp only: nth) simp
  have "day_number y m d * day + ?clock = t_nanos t + japan_offset"
    using civil by (simp add: local_days_def local_clock_def)
  moreover have "?clock mod millisecond = t_nanos t mod millisecond"
    using mod_mult_self1 [of "t_nanos t" 32400000 millisecond]
    by (simp add: local_clock_def japan_offset_def mod_mod_cancel)
  ultimately show "t_nanos (japan_date (f ! 0) (f ! 1) (f ! 3) (f ! 4) (f ! 5) (f ! 6) (f ! 7 * millisecond)) =
      t_nanos t - t_nanos t mod millisecond"
    using clock_fields(4) [OF clock] by (simp only: japan_date_def nth instant.select_convs)
qed

lemma truncated_days:
  assumes "t_nanos t' = t_nanos t - t_nanos t mod millisecond"
  shows "local_days japan_offset t' = local_days japan_offset t"
proof -
  have "(t_nanos t' + japan_offset) div millisecond = (t_nanos t + japan_offset) div millisecond"
    unfolding assms minus_mod_eq_mult_div by (simp add: japan_offset_def div_add)
  then have "(t_nanos t' + japan_offset) div millisecond div 86400000 =
      (t_nanos t + japan_offset) div millisecond div 86400000" by simp
  then show ?thesis by (simp add: local_days_def zdiv_zmult2_eq [symmetric])
qed

text \<open>The reader accepts the fields of every instant from the year 1 on and truncates to milliseconds.\<close>

lemma decode_system_fields:
  assumes "1 \<le> hd (system_fields t)"
  shows "decode_system_time start (system_fields t) =
    Inr \<lparr>t_nanos = t_nanos t - t_nanos t mod millisecond, t_utc = True\<rparr>"
proof -
  let ?f = "system_fields t"
  let ?t = "japan_date (?f ! 0) (?f ! 1) (?f ! 3) (?f ! 4) (?f ! 5) (?f ! 6) (?f ! 7 * millisecond)"
  note facts = system_fields_facts [OF refl, of t]
  have first: "hd ?f = ?f ! 0" using facts(1) by (cases ?f) simp_all
  have same: "local_days japan_offset ?t = local_days japan_offset t" by (rule truncated_days [OF facts(10)])
  have "\<not> (?f ! 0 < 1 \<or> ?f ! 1 < 1 \<or> ?f ! 1 > 12 \<or> ?f ! 2 > 6 \<or> ?f ! 3 < 1 \<or> ?f ! 4 > 23 \<or> ?f ! 5 > 59 \<or>
      ?f ! 6 > 59 \<or> ?f ! 7 > 999)"
    using facts(3-9) assms by (auto simp: first)
  then have "decode_system_time start ?f = Inr (in_utc ?t)"
    using facts(2,4) by (simp only: decode_system_time_def if_False Let_def same) simp
  then show ?thesis using facts(10) by (simp add: in_utc_def)
qed

definition time_bytes :: "instant \<Rightarrow> bytes" where
  "time_bytes t = u16_codec.put_items (map of_int (system_fields t))"

definition time_fits :: "limits \<Rightarrow> int \<Rightarrow> instant \<Rightarrow> bool" where
  "time_fits l d t \<longleftrightarrow> 1 \<le> hd (system_fields t) \<and> hd (system_fields t) \<le> 65535 \<and> t_utc t \<and>
     t_nanos t mod millisecond = 0"

lemma uint_small: "0 \<le> n \<Longrightarrow> n \<le> 65535 \<Longrightarrow> uint (of_int n :: u16) = n"
  by (simp add: uint_word_of_int)

lemma uint_system_fields:
  assumes "1 \<le> hd (system_fields t)" "hd (system_fields t) \<le> 65535"
  shows "map uint (map of_int (system_fields t) :: u16 list) = system_fields t"
proof -
  let ?f = "system_fields t"
  note facts = system_fields_facts [OF refl, of t]
  have first: "hd ?f = ?f ! 0" using facts(1) by (cases ?f) simp_all
  have "uint (of_int (?f ! i) :: u16) = ?f ! i" if "i < 8" for i
  proof -
    have "i \<in> {0, 1, 2, 3, 4, 5, 6, 7}" using that by auto
    then show ?thesis using facts(3-9) assms unfolding first by (elim insertE emptyE) (auto intro!: uint_small)
  qed
  then show ?thesis using facts(1) by (intro nth_equalityI) auto
qed

lemma read_system_time_put:
  assumes "ahead r (time_bytes t)" "1 \<le> hd (system_fields t)" "hd (system_fields t) \<le> 65535" "8 \<le> rd_budget r"
  shows "read_system_time r =
    (Inr \<lparr>t_nanos = t_nanos t - t_nanos t mod millisecond, t_utc = True\<rparr>, advance (length (time_bytes t)) 8 r)"
proof -
  let ?fs = "map of_int (system_fields t) :: u16 list"
  have len: "length ?fs = 8" by (simp add: system_fields_facts(1) [OF refl])
  have "sum_list (map (\<lambda>_. 1) fs) = int (length fs)" for fs :: "u16 list" by (induction fs) simp_all
  from this [of ?fs] len have cost: "u16_codec.cost_items ?fs = 8" by (simp add: u16_codec.cost_items_def)
  have "read_items (\<lambda>_. read_u16) 0 (length ?fs) r = (Inr ?fs, advance (length (time_bytes t)) 8 r)"
    using assms(1,4) u16_codec.read_items_put [of r ?fs 0] cost by (simp add: time_bytes_def list_all_iff)
  then show ?thesis
    using decode_system_fields [OF assms(2)] uint_system_fields [OF assms(2,3)] len
    by (simp add: read_system_time_def read_bind_def read_return_def)
qed

interpretation time_codec: wire_codec time_bytes read_system_time "\<lambda>_. 8" time_fits
proof
  fix r t assume "ahead r (time_bytes t)" "time_fits (rd_limits r) (rd_depth r) t" "8 \<le> rd_budget r"
  then show "read_system_time r = (Inr t, advance (length (time_bytes t)) 8 r)"
    by (subst read_system_time_put) (auto simp: time_fits_def)
qed simp

section \<open>Writing\<close>

context byte_sink
begin

lemma emits_fields: "emits (write_fields sink fs) (u16_codec.put_items (map of_int fs))"
  by (induction fs) (auto simp: write_u16_def intro: emits_skip emits_then emits_all)

lemma emits_system_time: "emits (write_system_time sink t) (time_bytes t)"
  using emits_fields [of "system_fields t"]
  by (auto simp: emits_def write_system_time_def write_fail_def time_bytes_def Let_def progress_fail split: if_splits)

end

lemma write_system_time_year:
  "write_system_time sink t w = (None, w') \<Longrightarrow> 1 \<le> hd (system_fields t) \<and> hd (system_fields t) \<le> 65535"
  by (auto simp: write_system_time_def write_fail_def Let_def split: if_splits)

text \<open>C15.
  An instant that \<open>SystemTime\<close> of the writer accepts is read back by \<open>SystemTime\<close> of the reader as the
  same instant in UTC, truncated to milliseconds, from exactly the bytes that were written.\<close>

theorem system_time_roundtrip:
  assumes "write_system_time (buffer_write :: ('e, bytes) sink) t w = (None, w')"
    and "new_reader (drop (length (wr_dest w)) (wr_dest w')) given = Inr r" "8 \<le> rd_budget r"
  shows "\<exists>r'. read_system_time r = (Inr \<lparr>t_nanos = t_nanos t div millisecond * millisecond, t_utc = True\<rparr>, r') \<and>
    fst (exact r') = Inr ()"
proof -
  have "wr_dest w' = wr_dest w @ time_bytes t"
    using buffer.progress_done [OF buffer.emitsD [OF buffer.emits_system_time _ assms(1)]] by simp
  then have r: "rd_data r = time_bytes t" "rd_pos r = 0"
    using assms(2) by (auto simp: new_reader_def result_bind_eq_Inr)
  then have "ahead r (time_bytes t)" by (intro aheadI [of _ "[]" _ "[]"]) simp_all
  note read = read_system_time_put [OF this _ _ assms(3)]
  have "t_nanos t - t_nanos t mod millisecond = t_nanos t div millisecond * millisecond"
    by (simp add: minus_mod_eq_div_mult)
  with read write_system_time_year [OF assms(1)] r show ?thesis by (simp add: exact_def read_return_def)
qed

theorem system_time_roundtrip_witness:
  "\<exists>data r r'. new_reader data default_limits = Inr r \<and>
    read_system_time r = (Inr \<lparr>t_nanos = 1700000000123000000, t_utc = True\<rparr>, r') \<and> fst (exact r') = Inr ()"
proof -
  let ?t = "\<lparr>t_nanos = 1700000000123456789, t_utc = True\<rparr>"
  let ?w = "\<lparr>wr_dest = [], wr_written = 0, wr_limits = default_limits\<rparr>"
  obtain e w' where run: "write_system_time (buffer_write :: (unit, bytes) sink) ?t ?w = (e, w')" by fastforce
  have "fst (write_system_time (buffer_write :: (unit, bytes) sink) ?t ?w) = None" by code_simp
  then have ran: "write_system_time (buffer_write :: (unit, bytes) sink) ?t ?w = (None, w')" using run by simp
  have limits: "normalized default_limits = Inr default_limits"
    by (rule normalized_idem) (simp add: within_hard_limits_def limit_values_def default_limits_def)
  then obtain r where r: "new_reader (wr_dest w') default_limits = Inr r" "rd_budget r = 1048576"
    by (simp add: new_reader_def default_limits_def)
  show ?thesis using system_time_roundtrip [OF ran, of default_limits r] r by auto
qed

end
