(* ===== verification/GoText.thy ===== *)
theory GoText
  imports Wire
begin

text \<open>
  The parts of \<open>strings\<close>, \<open>strconv\<close>, \<open>fmt\<close>, \<open>path\<close> and \<open>unicode/utf8\<close> that the recording core uses on
  file names, over byte strings.  The lemmas characterise clean relative paths.
\<close>

section \<open>Literals, searching, splitting\<close>

definition ascii :: "string \<Rightarrow> bytes" where
  "ascii = map of_char"

definition byte_of :: "char \<Rightarrow> byte" where
  "byte_of = of_char"

text \<open>\<open>strings.IndexByte\<close>.\<close>

primrec index_byte :: "byte \<Rightarrow> bytes \<Rightarrow> nat option" where
  "index_byte c [] = None"
| "index_byte c (b # bs) = (if b = c then Some 0 else map_option Suc (index_byte c bs))"

lemma index_byte_bound: "index_byte c bs = Some i \<Longrightarrow> i < length bs"
  by (induction bs arbitrary: i) (auto split: if_splits)

text \<open>\<open>strings.Split\<close> by a one-byte separator, and \<open>strings.Join\<close>.\<close>

primrec split_byte :: "byte \<Rightarrow> bytes \<Rightarrow> bytes list" where
  "split_byte c [] = [[]]"
| "split_byte c (b # bs) =
     (if b = c then [] # split_byte c bs
      else (case split_byte c bs of [] \<Rightarrow> [[b]] | part # parts \<Rightarrow> (b # part) # parts))"

fun join_byte :: "byte \<Rightarrow> bytes list \<Rightarrow> bytes" where
  "join_byte c [] = []"
| "join_byte c [part] = part"
| "join_byte c (part # parts) = part @ c # join_byte c parts"

lemma split_byte_nonempty [simp]: "split_byte c bs \<noteq> []"
  by (induction bs) (auto split: list.split)

lemma split_byte_free: "part \<in> set (split_byte c bs) \<Longrightarrow> c \<notin> set part"
  by (induction bs arbitrary: part) (auto split: list.splits if_splits)

lemma split_byte_plain: "c \<notin> set bs \<Longrightarrow> split_byte c bs = [bs]"
  by (induction bs) auto

lemma split_byte_append: "c \<notin> set bs \<Longrightarrow> split_byte c (bs @ c # rest) = bs # split_byte c rest"
  by (induction bs) auto

lemma split_join: "parts \<noteq> [] \<Longrightarrow> \<forall>part\<in>set parts. c \<notin> set part \<Longrightarrow> split_byte c (join_byte c parts) = parts"
  by (induction c parts rule: join_byte.induct) (auto simp: split_byte_plain split_byte_append)

section \<open>Unicode\<close>

text \<open>\<open>utf8.ValidString\<close>.\<close>

function valid_string :: "bytes \<Rightarrow> bool" where
  "valid_string bs =
     (if bs = [] then True
      else if decode_rune bs = (rune_error, 1) then False
      else valid_string (drop (snd (decode_rune bs)) bs))"
  by pat_completeness auto
termination by (relation "measure length") (auto dest: decode_rune_width)

declare valid_string.simps [simp del]

lemma valid_string_Nil [simp]: "valid_string []"
  by (simp add: valid_string.simps)

lemma valid_string_utf8: "valid_string bs \<Longrightarrow> valid_utf8 bs"
proof (induction bs rule: valid_string.induct)
  case (1 bs)
  show ?case
  proof (cases "bs = []")
    case True
    then show ?thesis by (simp add: valid_utf8_def encode_runes_def)
  next
    case False
    obtain r width where r: "decode_rune bs = (r, width)" by fastforce
    then have ok: "\<not> (r = rune_error \<and> width = 1)" "valid_string (drop width bs)"
      using "1.prems" False by (auto simp: valid_string.simps [of bs] split: if_splits)
    have "valid_utf8 (drop width bs)" using "1.IH" False ok r by auto
    then show ?thesis by (rule valid_utf8_step [OF r False ok(1)])
  qed
qed

text \<open>The control characters the code looks for, and white space as \<open>unicode.IsSpace\<close> has it.\<close>

definition control_rune :: "nat \<Rightarrow> bool" where
  "control_rune r \<longleftrightarrow> r < 0x20 \<or> r = 0x7f"

definition space_rune :: "nat \<Rightarrow> bool" where
  "space_rune r \<longleftrightarrow> r \<in> {0x09, 0x0a, 0x0b, 0x0c, 0x0d, 0x20, 0x85, 0xa0, 0x1680, 0x2028, 0x2029, 0x202f, 0x205f, 0x3000}
     \<or> 0x2000 \<le> r \<and> r \<le> 0x200a"

text \<open>\<open>strings.TrimSpace\<close> on valid text, \<open>strings.TrimRight\<close> by one ASCII byte.\<close>

definition trim_space :: "bytes \<Rightarrow> bytes" where
  "trim_space v = encode_runes (rev (dropWhile space_rune (rev (dropWhile space_rune (runes v)))))"

definition trim_right :: "byte \<Rightarrow> bytes \<Rightarrow> bytes" where
  "trim_right c v = rev (dropWhile (\<lambda>b. b = c) (rev v))"

section \<open>Numbers\<close>

text \<open>\<open>strconv.FormatUint\<close> and the formats \<open>%0nd\<close> and \<open>%04X\<close> of numbers that are not negative.\<close>

definition digit :: "nat \<Rightarrow> byte" where
  "digit d = (if d < 10 then of_nat (48 + d) else of_nat (55 + d))"

function numerals :: "nat \<Rightarrow> nat \<Rightarrow> bytes" where
  "numerals base n = (if base < 2 \<or> n < base then [digit n] else numerals base (n div base) @ [digit (n mod base)])"
  by pat_completeness auto
termination by (relation "measure snd") auto

declare numerals.simps [simp del]

definition decimal :: "nat \<Rightarrow> bytes" where
  "decimal = numerals 10"

definition zero_pad :: "nat \<Rightarrow> bytes \<Rightarrow> bytes" where
  "zero_pad width v = replicate (width - length v) 48 @ v"

definition hexadecimal :: "nat \<Rightarrow> bytes" where
  "hexadecimal n = zero_pad 4 (numerals 16 n)"

section \<open>Slash-separated paths\<close>

definition slash :: byte where
  "slash = 0x2f"

definition clean_step :: "bool \<Rightarrow> bytes list \<Rightarrow> bytes \<Rightarrow> bytes list" where
  "clean_step rooted out part =
     (if part = [] \<or> part = ascii ''.'' then out
      else if part = ascii ''..'' then
        (if out \<noteq> [] \<and> last out \<noteq> ascii ''..'' then butlast out
         else if rooted then out else out @ [ascii ''..''])
      else out @ [part])"

text \<open>\<open>path.Clean\<close>, \<open>path.Dir\<close>, \<open>path.Base\<close> and \<open>path.Ext\<close>.\<close>

definition path_clean :: "bytes \<Rightarrow> bytes" where
  "path_clean p =
     (if p = [] then ascii ''.''
      else
        let rooted = (hd p = slash); out = foldl (clean_step rooted) [] (split_byte slash p) in
        if rooted then slash # join_byte slash out
        else if out = [] then ascii ''.'' else join_byte slash out)"

definition split_last :: "bytes \<Rightarrow> bytes \<times> bytes" where
  "split_last p = (let file = rev (takeWhile (\<lambda>b. b \<noteq> slash) (rev p)) in (take (length p - length file) p, file))"

definition path_dir :: "bytes \<Rightarrow> bytes" where
  "path_dir p = path_clean (fst (split_last p))"

definition path_base :: "bytes \<Rightarrow> bytes" where
  "path_base p =
     (if p = [] then ascii ''.''
      else let base = snd (split_last (trim_right slash p)) in if base = [] then [slash] else base)"

definition path_ext :: "bytes \<Rightarrow> bytes" where
  "path_ext p =
     (let file = snd (split_last p); tail = rev (takeWhile (\<lambda>b. b \<noteq> 0x2e) (rev file)) in
      if length tail = length file then [] else 0x2e # tail)"

text \<open>\<open>strings.EqualFold(v, ".ts")\<close>; the long s folds to s.\<close>

definition folds_to_ts :: "bytes \<Rightarrow> bool" where
  "folds_to_ts v \<longleftrightarrow> v \<in> {ascii ''.ts'', ascii ''.tS'', ascii ''.Ts'', ascii ''.TS'',
     ascii ''.t'' @ encode_rune 0x17f, ascii ''.T'' @ encode_rune 0x17f}"

section \<open>Clean relative paths\<close>

definition plain_part :: "bytes \<Rightarrow> bool" where
  "plain_part part \<longleftrightarrow> part \<noteq> [] \<and> part \<noteq> ascii ''.'' \<and> part \<noteq> ascii ''..''"

text \<open>What cleaning a relative path leaves: parents first, then plain parts.\<close>

definition clean_parts :: "bytes list \<Rightarrow> bool" where
  "clean_parts parts \<longleftrightarrow> (\<exists>n rest. parts = replicate n (ascii ''..'') @ rest \<and> list_all plain_part rest)"

lemma ascii_dots [simp]: "ascii ''.'' = [0x2e]" "ascii ''..'' = [0x2e, 0x2e]"
  by (simp_all add: ascii_def)

lemma clean_step_parts:
  assumes "clean_parts out"
  shows "clean_parts (clean_step False out part)"
proof -
  obtain n rest where out: "out = replicate n [0x2e, 0x2e] @ rest" "list_all plain_part rest"
    using assms by (auto simp: clean_parts_def)
  consider "part = [] \<or> part = [0x2e]" | "part = [0x2e, 0x2e]" | "plain_part part"
    by (auto simp: plain_part_def)
  then show ?thesis
  proof cases
    case 1
    then show ?thesis using assms by (auto simp: clean_step_def)
  next
    case 2
    show ?thesis
    proof (cases rest rule: rev_cases)
      case Nil
      then have "clean_step False out part = replicate (Suc n) [0x2e, 0x2e]"
        using out 2 by (cases n) (simp_all add: clean_step_def replicate_append_same)
      then show ?thesis unfolding clean_parts_def by (intro exI [of _ "Suc n"] exI [of _ "[]"]) simp
    next
      case (snoc init x)
      then have "clean_step False out part = replicate n [0x2e, 0x2e] @ init"
        using out 2 by (simp add: clean_step_def plain_part_def butlast_append)
      then show ?thesis using out(2) snoc unfolding clean_parts_def by (intro exI [of _ n] exI [of _ init]) simp
    qed
  next
    case 3
    then have "clean_step False out part = replicate n [0x2e, 0x2e] @ (rest @ [part])"
      using out by (simp add: clean_step_def plain_part_def)
    then show ?thesis using out(2) 3 unfolding clean_parts_def by (intro exI [of _ n] exI [of _ "rest @ [part]"]) simp
  qed
qed

lemma foldl_clean_parts: "clean_parts out \<Longrightarrow> clean_parts (foldl (clean_step False) out parts)"
  by (induction parts arbitrary: out) (auto intro: clean_step_parts)

lemma set_clean_step: "set (clean_step r out part) \<subseteq> insert (ascii ''..'') (insert part (set out))"
  by (auto simp: clean_step_def dest: in_set_butlastD)

lemma set_foldl_clean: "set (foldl (clean_step r) out parts) \<subseteq> insert (ascii ''..'') (set parts \<union> set out)"
proof (induction parts arbitrary: out)
  case (Cons part parts)
  show ?case using Cons.IH [of "clean_step r out part"] set_clean_step [of r out part] by auto
qed auto

text \<open>A path that is clean, relative and does not begin with a parent has only plain parts.\<close>

lemma clean_relative_parts:
  assumes "p \<noteq> []" "hd p \<noteq> slash" "path_clean p = p" "p \<noteq> ascii ''.''" "p \<noteq> ascii ''..''"
    and "take 3 p \<noteq> ascii ''../''"
  shows "list_all plain_part (split_byte slash p)"
proof -
  define out where "out = foldl (clean_step False) [] (split_byte slash p)"
  have "out \<noteq> []" "p = join_byte slash out"
    using assms(1-4) by (auto simp: path_clean_def Let_def out_def split: if_splits)
  moreover have "slash \<notin> set part" if "part \<in> set out" for part
    using that set_foldl_clean [of False "[]" "split_byte slash p"] split_byte_free [of part slash p]
    by (auto simp: out_def slash_def)
  ultimately have parts: "split_byte slash p = out" using split_join [of out slash] by auto
  have "clean_parts []" by (simp add: clean_parts_def)
  then obtain n rest where out: "out = replicate n [0x2e, 0x2e] @ rest" "list_all plain_part rest"
    using foldl_clean_parts [of "[]" "split_byte slash p"] by (auto simp: clean_parts_def out_def)
  have "n = 0"
  proof (rule ccontr)
    assume "n \<noteq> 0"
    then obtain m where "n = Suc m" by (cases n) auto
    then have p: "p = join_byte slash ([0x2e, 0x2e] # (replicate m [0x2e, 0x2e] @ rest))"
      using out(1) \<open>p = join_byte slash out\<close> by simp
    show False
    proof (cases "replicate m [0x2e, 0x2e] @ rest")
      case Nil
      then show False using p assms(5) by simp
    next
      case (Cons x xs)
      then have "take 3 p = [0x2e, 0x2e, slash]" using p by (simp add: numeral_3_eq_3)
      then show False using assms(6) by (simp add: ascii_def slash_def)
    qed
  qed
  then show ?thesis using parts out by simp
qed

text \<open>Such a path is also left alone by cleaning, so the two descriptions agree.\<close>

lemma join_split: "join_byte c (split_byte c bs) = bs"
proof (induction bs)
  case (Cons b bs)
  then show ?case
    by (cases "split_byte c bs") (auto, metis append_Cons join_byte.simps(2) join_byte.simps(3) list.exhaust)
qed simp

lemma split_byte_snoc: "c \<notin> set name \<Longrightarrow> split_byte c (dir @ c # name) = split_byte c dir @ [name]"
  by (induction dir) (auto simp: split_byte_plain split: list.split)

lemma foldl_plain: "list_all plain_part parts \<Longrightarrow> foldl (clean_step r) out parts = out @ parts"
  by (induction parts arbitrary: out) (auto simp: clean_step_def plain_part_def)

lemma plain_relative:
  assumes "list_all plain_part (split_byte slash p)"
  shows "p \<noteq> []" "hd p \<noteq> slash" "p \<noteq> [0x2e]" "p \<noteq> [0x2e, 0x2e]" "take 3 p \<noteq> [0x2e, 0x2e, slash]" "last p \<noteq> slash"
proof -
  show p: "p \<noteq> []" using assms by (auto simp: plain_part_def)
  then obtain b bs where bs: "p = b # bs" by (cases p) auto
  show "hd p \<noteq> slash" using assms by (auto simp: bs plain_part_def split: if_splits)
  show "p \<noteq> [0x2e]" "p \<noteq> [0x2e, 0x2e]" using assms by (auto simp: plain_part_def slash_def)
  show "take 3 p \<noteq> [0x2e, 0x2e, slash]"
  proof
    assume "take 3 p = [0x2e, 0x2e, slash]"
    then have "p = [0x2e, 0x2e] @ slash # drop 3 p" using append_take_drop_id [of 3 p] by simp
    then have "split_byte slash p = [0x2e, 0x2e] # split_byte slash (drop 3 p)"
      using split_byte_append [of slash "[0x2e, 0x2e]" "drop 3 p"] by (simp add: slash_def)
    then show False using assms by (simp add: plain_part_def)
  qed
  show "last p \<noteq> slash"
  proof
    assume "last p = slash"
    then have "p = butlast p @ slash # []" using p append_butlast_last_id [of p] by simp
    then have "split_byte slash p = split_byte slash (butlast p) @ [[]]"
      using split_byte_snoc [of slash "[]" "butlast p"] by simp
    then show False using assms by (simp add: plain_part_def)
  qed
qed

lemma clean_plain: "list_all plain_part (split_byte slash p) \<Longrightarrow> path_clean p = p"
  using plain_relative [of p] by (auto simp: path_clean_def foldl_plain Let_def join_split)

lemma clean_dir_slash:
  assumes "list_all plain_part (split_byte slash d)"
  shows "path_clean (d @ [slash]) = d"
proof -
  have "split_byte slash (d @ [slash]) = split_byte slash d @ [[]]"
    using split_byte_snoc [of slash "[]" d] by simp
  then show ?thesis using plain_relative [OF assms]
    by (auto simp: path_clean_def foldl_plain [OF assms] clean_step_def Let_def join_split)
qed

lemma split_last_join: "slash \<notin> set name \<Longrightarrow> split_last (d @ slash # name) = (d @ [slash], name)"
  by (simp add: split_last_def Let_def takeWhile_append)

lemma path_dir_join: "slash \<notin> set name \<Longrightarrow> list_all plain_part (split_byte slash d) \<Longrightarrow> path_dir (d @ slash # name) = d"
  by (simp add: path_dir_def split_last_join clean_dir_slash)

lemma path_base_join:
  assumes "slash \<notin> set name" "name \<noteq> []"
  shows "path_base (d @ slash # name) = name"
proof -
  have "last name \<noteq> slash" using assms last_in_set by metis
  then have "dropWhile (\<lambda>b. b = slash) (rev name @ slash # rev d) = rev name @ slash # rev d"
    using assms(2) by (subst dropWhile_eq_self_iff) (simp add: hd_append hd_rev)
  then have "trim_right slash (d @ slash # name) = d @ slash # name"
    by (simp add: trim_right_def)
  then show ?thesis using assms by (simp add: path_base_def split_last_join Let_def)
qed

text \<open>Digits.\<close>

lemma decimal_digits: "b \<in> set (decimal n) \<Longrightarrow> 48 \<le> b \<and> b \<le> 57"
proof -
  have digit: "48 \<le> digit d \<and> digit d \<le> 57" if "d < 10" for d
  proof -
    have "unat (of_nat (48 + d) :: byte) = 48 + d" using that by (subst unat_of_nat) (simp add: take_bit_nat_eq_self)
    then show ?thesis using that by (simp add: digit_def word_le_nat_alt)
  qed
  have "\<forall>b\<in>set (numerals 10 n). 48 \<le> b \<and> b \<le> 57"
  proof (induction n rule: less_induct)
    case (less n)
    show ?case
    proof (cases "n < 10")
      case True
      then show ?thesis by (subst numerals.simps) (simp add: digit)
    next
      case False
      then show ?thesis using less [of "n div 10"] digit [of "n mod 10"] by (subst numerals.simps) auto
    qed
  qed
  then show "b \<in> set (decimal n) \<Longrightarrow> 48 \<le> b \<and> b \<le> 57" by (simp add: decimal_def)
qed

lemma numerals_nonempty [simp]: "numerals base n \<noteq> []"
  by (subst numerals.simps) simp

lemma decimal_nonempty [simp]: "decimal n \<noteq> []"
  by (simp add: decimal_def)

lemma zero_pad_set: "set (zero_pad w v) \<subseteq> insert 48 (set v)"
  by (auto simp: zero_pad_def)

lemma zero_pad_nonempty [simp]: "v \<noteq> [] \<Longrightarrow> zero_pad w v \<noteq> []"
  by (simp add: zero_pad_def)

lemma length_zero_pad [simp]: "length (zero_pad w v) = max w (length v)"
  by (simp add: zero_pad_def max_def)

lemma decimal_length: "n < 10 ^ k \<Longrightarrow> 0 < k \<Longrightarrow> length (decimal n) \<le> k"
proof (induction k arbitrary: n)
  case (Suc k)
  show ?case
  proof (cases "n < 10")
    case True
    then show ?thesis unfolding decimal_def by (subst numerals.simps) simp
  next
    case False
    then have "0 < k" using Suc.prems(1) by (cases k) auto
    moreover have "n div 10 < 10 ^ k" using Suc.prems(1) by auto
    ultimately have "length (decimal (n div 10)) \<le> k" using Suc.IH by simp
    then show ?thesis unfolding decimal_def using False by (subst numerals.simps) simp
  qed
qed simp

text \<open>Evaluation of the text functions on concrete strings.\<close>

lemma runes_Cons:
  "runes (b # bs) = fst (decode_rune (b # bs)) # runes (drop (snd (decode_rune (b # bs))) (b # bs))"
  by (subst runes.simps) simp

lemma valid_string_Cons:
  "valid_string (b # bs) \<longleftrightarrow>
     decode_rune (b # bs) \<noteq> (rune_error, 1) \<and> valid_string (drop (snd (decode_rune (b # bs))) (b # bs))"
  by (subst valid_string.simps) simp

lemmas text_eval = ascii_def of_char_def runes_Cons valid_string_Cons rune_error_def control_rune_def trim_space_def
  trim_right_def space_rune_def encode_runes_def encode_rune_def path_ext_def split_last_def Let_def folds_to_ts_def

end
