(* ===== verification/EntityId.thy ===== *)
theory EntityId
  imports GoText
begin

text \<open>
  \<open>internal/core/catalogmodel/model.go\<close>: the 16-byte identifiers of programs, reservations and recordings,
  drawn from a random source with the version and variant bits of a version 4 UUID, and their canonical
  lower-case text.  The text and the identifier determine each other.
\<close>

datatype id_error = NilRandomSource | ShortRandomRead | InvalidCanonicalId | NotVersion4

text \<open>The array of an identifier, first byte first.\<close>

definition id_bytes :: "entity_id \<Rightarrow> bytes" where
  "id_bytes ident = rev (le_put 16 ident)"

definition id_of_bytes :: "bytes \<Rightarrow> entity_id" where
  "id_of_bytes bs = le_get (rev bs)"

text \<open>The source is absent, or \<open>io.ReadFull\<close> obtains some bytes from it.\<close>

definition new_id_from :: "bytes option \<Rightarrow> (id_error, entity_id) result" where
  "new_id_from source =
     (case source of
        None \<Rightarrow> Inl NilRandomSource
      | Some bs \<Rightarrow>
          if length bs < 16 then Inl ShortRandomRead
          else
            let raw = take 16 bs;
                marked = raw[6 := (raw ! 6 AND 0x0f) OR 0x40, 8 := (raw ! 8 AND 0x3f) OR 0x80]
            in Inr (id_of_bytes marked))"

section \<open>Hexadecimal text\<close>

definition hex_digit :: "byte \<Rightarrow> byte" where
  "hex_digit d = (if d < 10 then 48 + d else 87 + d)"

definition hex_value :: "byte \<Rightarrow> byte option" where
  "hex_value c =
     (if 48 \<le> c \<and> c \<le> 57 then Some (c - 48)
      else if 97 \<le> c \<and> c \<le> 102 then Some (c - 87)
      else if 65 \<le> c \<and> c \<le> 70 then Some (c - 55)
      else None)"

definition hex_encode :: "bytes \<Rightarrow> bytes" where
  "hex_encode bs = concat (map (\<lambda>b. [hex_digit (drop_bit 4 b), hex_digit (b AND 0x0f)]) bs)"

fun hex_decode :: "bytes \<Rightarrow> bytes option" where
  "hex_decode [] = Some []"
| "hex_decode [_] = None"
| "hex_decode (a # b # rest) =
     (case (hex_value a, hex_value b, hex_decode rest) of
        (Some hi, Some lo, Some bs) \<Rightarrow> Some ((push_bit 4 hi OR lo) # bs)
      | _ \<Rightarrow> None)"

definition upper_byte :: "byte \<Rightarrow> bool" where
  "upper_byte b \<longleftrightarrow> 65 \<le> b \<and> b \<le> 90"

section \<open>Canonical identifiers\<close>

definition dash :: byte where
  "dash = 0x2d"

definition version4 :: "entity_id \<Rightarrow> bool" where
  "version4 ident \<longleftrightarrow> drop_bit 4 (id_bytes ident ! 6) = 4 \<and> drop_bit 6 (id_bytes ident ! 8) = 2"

definition string_id :: "entity_id \<Rightarrow> bytes" where
  "string_id ident =
     (let bs = id_bytes ident in
      hex_encode (slice 0 4 bs) @ dash # hex_encode (slice 4 6 bs) @ dash # hex_encode (slice 6 8 bs)
      @ dash # hex_encode (slice 8 10 bs) @ dash # hex_encode (slice 10 16 bs))"

text \<open>Text outside ASCII that \<open>strings.ToLower\<close> leaves alone is refused by the decoding, with the same error.\<close>

definition parse_id :: "bytes \<Rightarrow> (id_error, entity_id) result" where
  "parse_id v =
     (if length v \<noteq> 36 \<or> v ! 8 \<noteq> dash \<or> v ! 13 \<noteq> dash \<or> v ! 18 \<noteq> dash \<or> v ! 23 \<noteq> dash
         \<or> list_ex upper_byte v
      then Inl InvalidCanonicalId
      else
        case hex_decode (slice 0 8 v @ slice 9 13 v @ slice 14 18 v @ slice 19 23 v @ slice 24 36 v) of
          None \<Rightarrow> Inl InvalidCanonicalId
        | Some decoded \<Rightarrow>
            if length decoded \<noteq> 16 then Inl InvalidCanonicalId
            else if version4 (id_of_bytes decoded) then Inr (id_of_bytes decoded)
            else Inl NotVersion4)"

section \<open>Lemmas\<close>

lemma length_id_bytes [simp]: "length (id_bytes ident) = 16"
  by (simp add: id_bytes_def)

lemma id_of_id_bytes [simp]: "id_of_bytes (id_bytes ident) = ident"
  by (simp add: id_of_bytes_def id_bytes_def le_get_put)

lemma id_bytes_of [simp]: "length bs = 16 \<Longrightarrow> id_bytes (id_of_bytes bs) = bs"
  using le_put_get [of "rev bs" 16, where 'a = 128] by (simp add: id_bytes_def id_of_bytes_def)

lemma nibble_cases:
  assumes "(d :: byte) < 16"
  obtains "d = 0" | "d = 1" | "d = 2" | "d = 3" | "d = 4" | "d = 5" | "d = 6" | "d = 7"
    | "d = 8" | "d = 9" | "d = 10" | "d = 11" | "d = 12" | "d = 13" | "d = 14" | "d = 15"
proof -
  have "unat d \<in> {0..<16}" using assms by (simp add: word_less_nat_alt)
  then have "unat d \<in> {0, 1, 2, 3, 4, 5, 6, 7, 8, 9, 10, 11, 12, 13, 14, 15}"
    unfolding insert_iff atLeastLessThan_iff empty_iff by presburger
  then show thesis using that by (auto simp: word_unat_eq_iff)
qed

lemma hex_value_digit: "d < 16 \<Longrightarrow> hex_value (hex_digit d) = Some d"
  by (erule nibble_cases) (simp_all add: hex_value_def hex_digit_def)

lemma hex_digit_lower: "d < 16 \<Longrightarrow> \<not> upper_byte (hex_digit d)"
  by (erule nibble_cases) (simp_all add: upper_byte_def hex_digit_def)

lemma hex_digit_value:
  assumes "hex_value c = Some d"
  shows "d < 16" and "\<not> upper_byte c \<Longrightarrow> hex_digit d = c"
  using assms by (auto simp: hex_value_def hex_digit_def upper_byte_def split: if_splits) unat_arith+

lemma nibbles:
  "drop_bit 4 (b :: byte) < 16" "b AND 0x0f < 16" "push_bit 4 (drop_bit 4 b) OR (b AND 0x0f) = b"
proof -
  have "unat b < 256" by (rule unat_byte)
  then show "drop_bit 4 b < 16" by (simp add: word_less_nat_alt drop_bit_eq_div unat_div)
  show "b AND 0x0f < 16" using unat_and_0F [of b] by (simp add: word_less_nat_alt)
  show "push_bit 4 (drop_bit 4 b) OR (b AND 0x0f) = b"
    by (rule bit_eqI) (auto simp: bit_simps bit_mask_0F)
qed

lemma nibble_bits: "(d :: byte) < 16 \<Longrightarrow> bit d i \<Longrightarrow> i < 4"
proof -
  assume "d < 16" "bit d i"
  then have "take_bit 4 (unat d) = unat d" "bit (unat d) i"
    by (simp_all add: word_less_nat_alt take_bit_nat_eq_self bit_unsigned_iff)
  then show "i < 4" by (metis bit_take_bit_iff)
qed

lemma join_nibbles:
  assumes "hi < 16" "lo < 16"
  shows "drop_bit 4 (push_bit 4 hi OR lo :: byte) = hi" "(push_bit 4 hi OR lo) AND 0x0f = (lo :: byte)"
  by (auto intro!: bit_eqI simp: bit_simps bit_mask_0F
      dest: nibble_bits [OF assms(1)] nibble_bits [OF assms(2)])

lemma length_hex_encode [simp]: "length (hex_encode bs) = 2 * length bs"
  by (induction bs) (simp_all add: hex_encode_def)

lemma hex_encode_simps [simp]:
  "hex_encode [] = []"
  "hex_encode (b # bs) = hex_digit (drop_bit 4 b) # hex_digit (b AND 0x0f) # hex_encode bs"
  by (simp_all add: hex_encode_def)

lemma hex_decode_encode: "hex_decode (hex_encode bs) = Some bs"
  by (induction bs) (simp_all add: hex_value_digit nibbles)

lemma hex_encode_lower: "\<not> list_ex upper_byte (hex_encode bs)"
  by (induction bs) (simp_all add: hex_digit_lower nibbles)

lemma hex_encode_decode: "hex_decode v = Some bs \<Longrightarrow> \<not> list_ex upper_byte v \<Longrightarrow> hex_encode bs = v"
proof (induction v arbitrary: bs rule: hex_decode.induct)
  case (3 a b rest)
  from 3(2) obtain hi lo tail where *: "hex_value a = Some hi" "hex_value b = Some lo" "hex_decode rest = Some tail"
    "bs = (push_bit 4 hi OR lo) # tail"
    by (auto split: option.splits)
  have d: "hi < 16" "lo < 16" using *(1,2) by (simp_all add: hex_digit_value(1))
  show ?case
    using 3 *(4) join_nibbles [OF d] hex_digit_value(2) [OF *(1)] hex_digit_value(2) [OF *(2)] *(3)
    by (simp del: drop_bit_or)
qed auto

lemma hex_encode_append: "hex_encode (as @ bs) = hex_encode as @ hex_encode bs"
  by (simp add: hex_encode_def)

lemma double_pred: "0 < n \<Longrightarrow> 2 * n - 2 = 2 * (n - 1 :: nat)"
  by simp

lemma hex_encode_take: "take (2 * n) (hex_encode bs) = hex_encode (take n bs)"
  by (induction bs arbitrary: n) (auto simp: take_Cons' drop_Cons' dest: double_pred)

lemma hex_encode_drop: "drop (2 * n) (hex_encode bs) = hex_encode (drop n bs)"
  by (induction bs arbitrary: n) (auto simp: take_Cons' drop_Cons' dest: double_pred)

lemma hex_encode_slice: "hex_encode (slice lo hi bs) = slice (2 * lo) (2 * hi) (hex_encode bs)"
  by (simp add: slice_def flip: hex_encode_take hex_encode_drop diff_mult_distrib2)

text \<open>The five groups of the text.\<close>

definition grouped :: "bytes \<Rightarrow> bytes" where
  "grouped h = slice 0 8 h @ dash # slice 8 12 h @ dash # slice 12 16 h @ dash # slice 16 20 h @ dash # slice 20 32 h"

definition groups :: "bytes \<Rightarrow> bytes" where
  "groups v = slice 0 8 v @ slice 9 13 v @ slice 14 18 v @ slice 19 23 v @ slice 24 36 v"

lemma string_id_grouped: "string_id ident = grouped (hex_encode (id_bytes ident))"
  by (simp add: string_id_def grouped_def hex_encode_slice Let_def)

lemma slice_join: "lo \<le> mid \<Longrightarrow> mid \<le> hi \<Longrightarrow> slice lo mid xs @ slice mid hi xs = slice lo hi xs"
proof -
  assume le: "lo \<le> mid" "mid \<le> hi"
  then have "hi - lo = (mid - lo) + (hi - mid)" "mid = lo + (mid - lo)" by simp_all
  then show ?thesis unfolding slice_def by (metis add.commute drop_drop take_add)
qed

lemma groups_grouped: "length h = 32 \<Longrightarrow> groups (grouped h) = h"
proof -
  assume h: "length h = 32"
  have "groups (grouped h) = slice 0 8 h @ slice 8 12 h @ slice 12 16 h @ slice 16 20 h @ slice 20 32 h"
    using h by (simp add: groups_def grouped_def slice_def drop_Cons' take_Cons')
  also have "\<dots> = slice 0 32 h"
    using slice_join [of 0 8 32 h] slice_join [of 8 12 32 h] slice_join [of 12 16 32 h] slice_join [of 16 20 32 h]
    by simp
  finally show ?thesis using h by (simp add: slice_def)
qed

lemma grouped_shape:
  assumes "length h = 32"
  shows "length (grouped h) = 36" "grouped h ! 8 = dash" "grouped h ! 13 = dash" "grouped h ! 18 = dash"
    "grouped h ! 23 = dash"
  using assms by (simp_all add: grouped_def nth_append nth_Cons')

lemma grouped_groups:
  assumes "length v = 36" "v ! 8 = dash" "v ! 13 = dash" "v ! 18 = dash" "v ! 23 = dash"
  shows "grouped (groups v) = v"
proof (rule nth_equalityI)
  show len: "length (grouped (groups v)) = length v" using assms by (simp add: grouped_def groups_def)
  fix i assume "i < length (grouped (groups v))"
  then have "i < 36" using len assms by simp
  then have edge: "i \<le> 13 \<Longrightarrow> 4 \<le> i - 9 \<Longrightarrow> i = 13" "i \<le> 18 \<Longrightarrow> 4 \<le> i - 14 \<Longrightarrow> i = 18"
    "i \<le> 23 \<Longrightarrow> 4 \<le> i - 19 \<Longrightarrow> i = 23" by arith+
  show "grouped (groups v) ! i = v ! i"
    using assms edge \<open>i < 36\<close> by (auto simp: grouped_def groups_def slice_def nth_append nth_Cons' not_less)
qed

lemma list_ex_slice: "list_ex P (slice lo hi xs) \<Longrightarrow> list_ex P xs"
  by (auto simp: slice_def list_ex_iff dest!: in_set_takeD in_set_dropD)

lemma parse_id_groups:
  "parse_id v =
     (if length v \<noteq> 36 \<or> v ! 8 \<noteq> dash \<or> v ! 13 \<noteq> dash \<or> v ! 18 \<noteq> dash \<or> v ! 23 \<noteq> dash
         \<or> list_ex upper_byte v
      then Inl InvalidCanonicalId
      else
        case hex_decode (groups v) of
          None \<Rightarrow> Inl InvalidCanonicalId
        | Some decoded \<Rightarrow>
            if length decoded \<noteq> 16 then Inl InvalidCanonicalId
            else if version4 (id_of_bytes decoded) then Inr (id_of_bytes decoded)
            else Inl NotVersion4)"
  unfolding parse_id_def groups_def by (rule refl)

lemma grouped_lower: "\<not> list_ex upper_byte h \<Longrightarrow> \<not> list_ex upper_byte (grouped h)"
  by (auto simp: grouped_def dash_def upper_byte_def dest: list_ex_slice)

lemma groups_lower: "\<not> list_ex upper_byte v \<Longrightarrow> \<not> list_ex upper_byte (groups v)"
  by (auto simp: groups_def dest: list_ex_slice)

text \<open>(round trip): parsing accepts a text as an identifier exactly when the identifier
  carries the version 4 marks and the text is its canonical form; so printing and parsing invert each other and
  no other text names an identifier.
\<close>

theorem parse_id_canonical: "parse_id v = Inr ident \<longleftrightarrow> v = string_id ident \<and> version4 ident"
proof
  assume "parse_id v = Inr ident"
  then obtain decoded where shape: "length v = 36" "v ! 8 = dash" "v ! 13 = dash" "v ! 18 = dash" "v ! 23 = dash"
    and lower: "\<not> list_ex upper_byte v" and decoded: "hex_decode (groups v) = Some decoded" "length decoded = 16"
    "version4 (id_of_bytes decoded)" "ident = id_of_bytes decoded"
    by (auto simp: parse_id_groups split: if_splits option.splits)
  have "hex_encode decoded = groups v" by (rule hex_encode_decode [OF decoded(1) groups_lower [OF lower]])
  then show "v = string_id ident \<and> version4 ident"
    using decoded grouped_groups [OF shape] by (simp add: string_id_grouped)
next
  assume v: "v = string_id ident \<and> version4 ident"
  define h where "h = hex_encode (id_bytes ident)"
  have h: "length h = 32" "\<not> list_ex upper_byte h" "hex_decode h = Some (id_bytes ident)"
    by (simp_all add: h_def hex_encode_lower hex_decode_encode)
  have "v = grouped h" using v by (simp add: string_id_grouped h_def)
  then show "parse_id v = Inr ident"
    using v h(3) grouped_shape [OF h(1)] grouped_lower [OF h(2)]
    by (simp add: parse_id_groups groups_grouped [OF h(1)])
qed

text \<open>What the generator returns is of version 4.\<close>

lemma version4_marks: "drop_bit 4 ((b AND 0x0f) OR 0x40 :: byte) = 4" "drop_bit 6 ((b AND 0x3f) OR 0x80 :: byte) = 2"
proof -
  have masks: "(0x3f :: byte) = mask 6" "(4 :: byte) = push_bit 2 (mask 1)" "(2 :: byte) = push_bit 1 (mask 1)"
    by (simp_all add: mask_eq_exp_minus_1 push_bit_eq_mult)
  have bits: "bit (4 :: byte) i \<longleftrightarrow> i = 2" "bit (2 :: byte) i \<longleftrightarrow> i = 1" for i
    unfolding masks by (auto simp: bit_simps)
  show "drop_bit 4 ((b AND 0x0f) OR 0x40 :: byte) = 4"
    by (rule bit_eqI) (simp only: bit_drop_bit_eq comp_def bit_or_iff bit_and_iff bits bit_mask_0F bit_mask_40, auto)
  show "drop_bit 6 ((b AND 0x3f) OR 0x80 :: byte) = 2"
    by (rule bit_eqI) (simp only: bit_drop_bit_eq comp_def bit_or_iff bit_and_iff bits masks(1) bit_mask_iff bit_mask_80, auto)
qed

lemma new_id_version4: "new_id_from source = Inr ident \<Longrightarrow> version4 ident"
  by (auto simp: new_id_from_def Let_def version4_def version4_marks simp del: drop_bit_or split: option.splits if_splits)

end
