(* ===== verification/RecordingTypes.thy ===== *)
theory RecordingTypes
  imports EntityId Quality Calendar
begin

text \<open>
  \<open>internal/core/recording/model.go\<close>, \<open>output.go\<close>, \<open>components.go\<close> and \<open>post_recording.go\<close>: what a
  reservation holds and when the code accepts one.  Every check is a definition with the conditions of its
  \<open>Validate\<close>; a check with a single error is a predicate, one with several returns the error.
\<close>

section \<open>Text and paths\<close>

definition backslash :: byte where
  "backslash = 0x5c"

definition colon :: byte where
  "colon = 0x3a"

definition valid_text :: "bytes \<Rightarrow> nat \<Rightarrow> nat \<Rightarrow> bool" where
  "valid_text value lo hi \<longleftrightarrow> valid_string value \<and> lo \<le> length value \<and> length value \<le> hi"

definition contains_control :: "bytes \<Rightarrow> bool" where
  "contains_control value \<longleftrightarrow> list_ex control_rune (runes value)"

definition valid_relative_path :: "bytes \<Rightarrow> bool" where
  "valid_relative_path value \<longleftrightarrow>
     value \<noteq> [] \<and> length value \<le> 512 \<and> hd value \<noteq> slash \<and> backslash \<notin> set value \<and>
     path_clean value = value \<and> value \<noteq> ascii ''.'' \<and> value \<noteq> ascii ''..'' \<and> take 3 value \<noteq> ascii ''../''"

record file_plan =
  partial_path :: bytes
  final_path :: bytes

definition file_plan_valid :: "file_plan \<Rightarrow> bool" where
  "file_plan_valid plan \<longleftrightarrow>
     valid_relative_path (partial_path plan) \<and> valid_relative_path (final_path plan) \<and>
     partial_path plan \<noteq> final_path plan \<and> path_dir (partial_path plan) = path_dir (final_path plan)"

section \<open>Components and the work after a recording\<close>

type_synonym component_mode = byte

abbreviation component_default :: component_mode where "component_default \<equiv> 0"
abbreviation component_neither :: component_mode where "component_neither \<equiv> 1"
abbreviation component_captions_only :: component_mode where "component_captions_only \<equiv> 2"
abbreviation component_data_only :: component_mode where "component_data_only \<equiv> 3"
abbreviation component_both :: component_mode where "component_both \<equiv> 4"

record recording_components =
  rc_captions :: bool
  rc_data :: bool

definition component_mode_valid :: "component_mode \<Rightarrow> bool" where
  "component_mode_valid mode \<longleftrightarrow> component_default \<le> mode \<and> mode \<le> component_both"

definition effective_components :: "component_mode \<Rightarrow> recording_components" where
  "effective_components mode =
     (if mode = component_neither then \<lparr>rc_captions = False, rc_data = False\<rparr>
      else if mode = component_captions_only then \<lparr>rc_captions = True, rc_data = False\<rparr>
      else if mode = component_data_only then \<lparr>rc_captions = False, rc_data = True\<rparr>
      else if mode = component_both then \<lparr>rc_captions = True, rc_data = True\<rparr>
      else \<lparr>rc_captions = True, rc_data = False\<rparr>)"

definition explicit_component_mode :: "bool \<Rightarrow> bool \<Rightarrow> component_mode" where
  "explicit_component_mode captions data =
     (if captions \<and> data then component_both
      else if captions then component_captions_only
      else if data then component_data_only
      else component_neither)"

type_synonym post_recording_mode = byte

abbreviation post_recording_standby :: post_recording_mode where "post_recording_standby \<equiv> 2"
abbreviation post_recording_shutdown :: post_recording_mode where "post_recording_shutdown \<equiv> 6"

definition post_recording_mode_valid :: "post_recording_mode \<Rightarrow> bool" where
  "post_recording_mode_valid mode \<longleftrightarrow> mode \<le> post_recording_shutdown"

definition changes_power :: "post_recording_mode \<Rightarrow> bool" where
  "changes_power mode \<longleftrightarrow> post_recording_standby \<le> mode \<and> mode \<le> post_recording_shutdown"

record post_recording_settings =
  pr_mode :: post_recording_mode
  pr_script :: bytes

definition unicode_control :: "nat \<Rightarrow> bool" where
  "unicode_control r \<longleftrightarrow> r < 0x20 \<or> 0x7f \<le> r \<and> r \<le> 0x9f"

definition post_recording_valid :: "post_recording_settings \<Rightarrow> bool" where
  "post_recording_valid settings \<longleftrightarrow>
     post_recording_mode_valid (pr_mode settings) \<and> valid_string (pr_script settings) \<and>
     length (pr_script settings) \<le> 1024 \<and>
     \<not> list_ex (\<lambda>r. r = 0 \<or> unicode_control r) (runes (pr_script settings))"

section \<open>Output settings\<close>

record output_settings =
  o_folder :: bytes
  o_template :: bytes

record one_seg_output =
  os_locator :: bytes
  os_output :: output_settings

definition valid_output_folder :: "bytes \<Rightarrow> bool" where
  "valid_output_folder value \<longleftrightarrow>
     valid_string value \<and> value \<noteq> [] \<and> length value \<le> 256 \<and> hd value \<noteq> slash \<and> last value \<noteq> slash \<and>
     backslash \<notin> set value \<and> colon \<notin> set value \<and> path_clean value = value \<and>
     list_all (\<lambda>part. part \<noteq> [] \<and> part \<noteq> ascii ''.'' \<and> part \<noteq> ascii ''..'' \<and> \<not> contains_control part)
       (split_byte slash value)"

definition supported_macros :: "string list" where
  "supported_macros =
     [''Title'', ''Title2'', ''ServiceName'',
      ''SDYYYY'', ''SDYY'', ''SDMM'', ''SDM'', ''SDDD'', ''SDD'', ''SDW'',
      ''STHH'', ''STH'', ''STMM'', ''STM'', ''STSS'', ''STS'',
      ''EDYYYY'', ''EDYY'', ''EDMM'', ''EDM'', ''EDDD'', ''EDD'', ''EDW'',
      ''ETHH'', ''ETH'', ''ETMM'', ''ETM'', ''ETSS'', ''ETS'',
      ''DUHH'', ''DUH'', ''DUMM'', ''DUM'', ''DUSS'', ''DUS'',
      ''ONID10'', ''TSID10'', ''SID10'', ''EID10'', ''ONID16'', ''TSID16'', ''SID16'', ''EID16'',
      ''ReserveID'']"

definition supported_output_macro :: "bytes \<Rightarrow> bool" where
  "supported_output_macro name \<longleftrightarrow> name \<in> set (map ascii supported_macros)"

definition dollar :: byte where
  "dollar = 0x24"

text \<open>The loop over a template; the argument is what is left of it.\<close>

function template_macros_ok :: "bytes \<Rightarrow> bool" where
  "template_macros_ok rest =
     (case index_byte dollar rest of
        None \<Rightarrow> True
      | Some start \<Rightarrow>
          case index_byte dollar (drop (start + 1) rest) of
            None \<Rightarrow> False
          | Some end \<Rightarrow>
              if supported_output_macro (slice (start + 1) (start + 1 + end) rest)
              then template_macros_ok (drop (start + 1 + end + 1) rest)
              else False)"
  by pat_completeness auto
termination by (relation "measure length") (auto dest: index_byte_bound)

declare template_macros_ok.simps [simp del]

definition valid_output_template :: "bytes \<Rightarrow> bool" where
  "valid_output_template value \<longleftrightarrow>
     valid_string value \<and> value \<noteq> [] \<and> length value \<le> 512 \<and> slash \<notin> set value \<and> backslash \<notin> set value \<and>
     \<not> contains_control value \<and> template_macros_ok value"

definition output_settings_valid :: "output_settings \<Rightarrow> bool" where
  "output_settings_valid settings \<longleftrightarrow>
     \<not> (o_folder settings \<noteq> [] \<and> \<not> valid_output_folder (o_folder settings)) \<and>
     \<not> (o_template settings \<noteq> [] \<and> \<not> valid_output_template (o_template settings))"

text \<open>\<open>strconv.ParseUint(v, 10, 63)\<close>.\<close>

definition parse_uint63 :: "bytes \<Rightarrow> nat option" where
  "parse_uint63 v =
     (if v = [] \<or> \<not> list_all (\<lambda>b. 48 \<le> b \<and> b \<le> 57) v then None
      else
        let n = foldl (\<lambda>acc b. 10 * acc + (unat b - 48)) 0 v in if n < 2 ^ 63 then Some n else None)"

definition one_seg_output_valid :: "one_seg_output \<Rightarrow> bool" where
  "one_seg_output_valid out \<longleftrightarrow>
     valid_text (os_locator out) 1 256 \<and>
     (case parse_uint63 (os_locator out) of
        None \<Rightarrow> False
      | Some n \<Rightarrow> n \<noteq> 0 \<and> decimal n = os_locator out) \<and>
     output_settings_valid (os_output out)"

section \<open>Reservations\<close>

record margins =
  m_start :: int
  m_end :: int

record reservation_request =
  rq_network_id :: u16
  rq_transport_stream_id :: u16
  rq_service_id :: u16
  rq_event_id :: u16
  rq_start :: instant
  rq_duration :: int
  rq_priority :: byte
  rq_requested_follow :: bool
  rq_disabled :: bool
  rq_margins :: "margins option"
  rq_output :: output_settings
  rq_one_seg_output :: "output_settings option"
  rq_components :: component_mode
  rq_post_recording :: post_recording_settings

definition effective_margins :: "margins option \<Rightarrow> margins" where
  "effective_margins m = (case m of None \<Rightarrow> \<lparr>m_start = 5 * second, m_end = 2 * second\<rparr> | Some x \<Rightarrow> x)"

definition recording_time_valid :: "instant \<Rightarrow> int \<Rightarrow> margins option \<Rightarrow> bool" where
  "recording_time_valid start duration m \<longleftrightarrow>
     (let eff = effective_margins m;
          planned_start = add_duration start (- m_start eff);
          planned_end = add_duration (add_duration start duration) (m_end eff)
      in \<not> (m_start eff < - hour \<or> m_start eff > hour \<or> m_end eff < - hour \<or> m_end eff > hour \<or>
            m_start eff mod second \<noteq> 0 \<or> m_end eff mod second \<noteq> 0) \<and>
         \<not> (unix_milli planned_start < 0 \<or> \<not> after_time planned_end planned_start \<or>
            sub_time planned_end planned_start > 24 * hour))"

text \<open>A set instant in UTC that is not before the epoch, which most checks ask for.\<close>

definition utc_instant :: "instant \<Rightarrow> bool" where
  "utc_instant t \<longleftrightarrow> \<not> (is_zero_time t \<or> \<not> t_utc t \<or> unix_milli t < 0)"

definition program_time_valid :: "instant \<Rightarrow> int \<Rightarrow> bool" where
  "program_time_valid start duration \<longleftrightarrow>
     utc_instant start \<and> \<not> (duration < second \<or> duration > 24 * hour \<or> duration mod second \<noteq> 0)"

definition reservation_request_valid :: "reservation_request \<Rightarrow> bool" where
  "reservation_request_valid r \<longleftrightarrow>
     program_time_valid (rq_start r) (rq_duration r) \<and> \<not> (rq_priority r < 1 \<or> rq_priority r > 5) \<and>
     recording_time_valid (rq_start r) (rq_duration r) (rq_margins r) \<and> output_settings_valid (rq_output r) \<and>
     (case rq_one_seg_output r of None \<Rightarrow> True | Some out \<Rightarrow> output_settings_valid out) \<and>
     component_mode_valid (rq_components r) \<and> post_recording_valid (rq_post_recording r)"

record reservation_change =
  ch_number :: int
  ch_request :: reservation_request
  ch_resolved_one_seg :: "one_seg_output option"

definition reservation_change_valid :: "reservation_change \<Rightarrow> bool" where
  "reservation_change_valid c \<longleftrightarrow>
     1 \<le> ch_number c \<and> reservation_request_valid (ch_request c) \<and>
     (case ch_resolved_one_seg c of None \<Rightarrow> True | Some out \<Rightarrow> one_seg_output_valid out)"

definition resolve_one_seg_output :: "reservation_request \<Rightarrow> bytes \<Rightarrow> (unit, one_seg_output option) result" where
  "resolve_one_seg_output r locator =
     (case rq_one_seg_output r of
        None \<Rightarrow> Inr None
      | Some out \<Rightarrow>
          let result = \<lparr>os_locator = locator, os_output = out\<rparr> in
          if one_seg_output_valid result then Inr (Some result) else Inl ())"

datatype reservation_state = ReservationActive | ReservationFinished | OtherReservationState string

record program_snapshot =
  p_instance_id :: entity_id
  p_revision_id :: entity_id
  p_backend_id :: entity_id
  p_locator :: bytes
  p_tuning_target :: bytes
  p_network_id :: u16
  p_transport_stream_id :: u16
  p_service_id :: u16
  p_event_id :: u16
  p_title :: bytes
  p_station_name :: bytes
  p_start :: instant
  p_duration :: int

record reservation =
  r_id :: entity_id
  r_number :: int
  r_version :: int
  r_state :: reservation_state
  r_program :: program_snapshot
  r_priority :: byte
  r_requested_follow :: bool
  r_effective_follow :: bool
  r_disabled :: bool
  r_margins :: "margins option"
  r_output :: output_settings
  r_one_seg_output :: "one_seg_output option"
  r_components :: component_mode
  r_post_recording :: post_recording_settings
  r_created_at :: instant
  r_updated_at :: instant
  r_finished_at :: "instant option"

definition planned_start :: "reservation \<Rightarrow> instant" where
  "planned_start r = add_duration (p_start (r_program r)) (- m_start (effective_margins (r_margins r)))"

definition planned_end :: "reservation \<Rightarrow> instant" where
  "planned_end r =
     add_duration (add_duration (p_start (r_program r)) (p_duration (r_program r)))
       (m_end (effective_margins (r_margins r)))"

datatype reservation_error =
  InvalidReservationState | InvalidReservationId | InvalidReservationText | InvalidReservationTime
  | InvalidReservationTimestamp

definition reservation_new_state_ok :: "reservation \<Rightarrow> bool" where
  "reservation_new_state_ok r \<longleftrightarrow>
     \<not> (r_version r \<noteq> 1 \<or> r_state r \<noteq> ReservationActive \<or> r_number r \<noteq> 0 \<or> r_priority r < 1 \<or>
        r_priority r > 5 \<or> r_effective_follow r \<or> r_finished_at r \<noteq> None)"

definition program_text_ok :: "program_snapshot \<Rightarrow> bool" where
  "program_text_ok p \<longleftrightarrow>
     valid_text (p_locator p) 1 256 \<and> valid_text (p_tuning_target p) 1 256 \<and>
     valid_text (p_title p) 0 4096 \<and> valid_text (p_station_name p) 0 4096"

definition reservation_time_ok :: "reservation \<Rightarrow> bool" where
  "reservation_time_ok r \<longleftrightarrow>
     program_time_valid (p_start (r_program r)) (p_duration (r_program r)) \<and>
     recording_time_valid (p_start (r_program r)) (p_duration (r_program r)) (r_margins r) \<and>
     output_settings_valid (r_output r) \<and>
     (case r_one_seg_output r of None \<Rightarrow> True | Some out \<Rightarrow> one_seg_output_valid out) \<and>
     component_mode_valid (r_components r) \<and> post_recording_valid (r_post_recording r)"

definition validate_new :: "reservation \<Rightarrow> (reservation_error, unit) result" where
  "validate_new r =
     (let p = r_program r in
      if \<not> reservation_new_state_ok r then Inl InvalidReservationState
      else if r_id r = 0 \<or> p_instance_id p = 0 \<or> p_revision_id p = 0 \<or> p_backend_id p = 0
      then Inl InvalidReservationId
      else if \<not> program_text_ok p then Inl InvalidReservationText
      else if \<not> reservation_time_ok r then Inl InvalidReservationTime
      else if is_zero_time (r_created_at r) \<or> \<not> t_utc (r_created_at r) \<or> r_updated_at r \<noteq> r_created_at r \<or>
              unix_milli (r_created_at r) < 0
      then Inl InvalidReservationTimestamp
      else Inr ())"

record follow_target =
  ft_instance_id :: entity_id
  ft_revision_id :: entity_id
  ft_start :: instant
  ft_duration :: int

record follow_request =
  fw_reservation_id :: entity_id
  fw_expected_version :: int
  fw_expected_revision_id :: entity_id
  fw_target_revision_id :: entity_id
  fw_now :: instant
  fw_extension_only :: bool

definition follow_request_valid :: "follow_request \<Rightarrow> bool" where
  "follow_request_valid r \<longleftrightarrow>
     \<not> (fw_reservation_id r = 0 \<or> fw_expected_revision_id r = 0 \<or> fw_target_revision_id r = 0 \<or>
        fw_expected_revision_id r = fw_target_revision_id r \<or> fw_expected_version r < 1) \<and>
     utc_instant (fw_now r)"

end
