(* ===== verification/FilePlans.thy ===== *)
theory FilePlans
  imports RecordingTypes
begin

text \<open>
  \<open>internal/core/recording/output.go\<close> and the plan constructors of \<open>model.go\<close>: from the output settings of
  a reservation to the relative paths of its partial and final files.
\<close>

datatype output_error =
  InvalidPlanSource | InvalidPlan | MissingReservationNumber | InvalidExpansionSource | InvalidOutputTemplate
  | UnsupportedMacro | EmptyOutputName | InvalidOutputName | InvalidOneSegSource | InvalidOneSegExtension
  | InvalidScheduledSettings | InvalidScheduledPath

section \<open>Formats\<close>

definition format_int :: "int \<Rightarrow> bytes" where
  "format_int n = (if n < 0 then 0x2d # decimal (nat (- n)) else decimal (nat n))"

text \<open>The format \<open>%0wd\<close>; the sign takes a place.\<close>

definition format_padded :: "nat \<Rightarrow> int \<Rightarrow> bytes" where
  "format_padded width n =
     (if n < 0 then 0x2d # zero_pad (width - 1) (decimal (nat (- n))) else zero_pad width (decimal (nat n)))"

definition go_rem :: "int \<Rightarrow> int \<Rightarrow> int" where
  "go_rem a b = sgn a * (\<bar>a\<bar> mod \<bar>b\<bar>)"

definition partial_suffix :: bytes where
  "partial_suffix = ascii ''.partial''"

text \<open>The folder of the year and month of a start in UTC.\<close>

definition month_directory :: "instant \<Rightarrow> bytes" where
  "month_directory start =
     (case civil_date (local_days 0 start) of (y, m, d) \<Rightarrow> format_padded 4 y @ slash # format_padded 2 m)"

definition plan_of :: "bytes \<Rightarrow> bytes \<Rightarrow> file_plan" where
  "plan_of directory name =
     \<lparr>partial_path = directory @ slash # name @ partial_suffix, final_path = directory @ slash # name\<rparr>"

definition new_file_plan :: "instant \<Rightarrow> entity_id \<Rightarrow> (output_error, file_plan) result" where
  "new_file_plan start attempt =
     (if is_zero_time start \<or> \<not> t_utc start \<or> unix_milli start < 0 \<or>
         fst (civil_date (local_days 0 start)) > 9999 \<or> attempt = 0
      then Inl InvalidPlanSource
      else
        let plan = plan_of (month_directory start) (string_id attempt @ ascii ''.ts'') in
        if file_plan_valid plan then Inr plan else Inl InvalidPlan)"

section \<open>Macro values\<close>

function without_square_brackets :: "bytes \<Rightarrow> bytes" where
  "without_square_brackets rest =
     (case index_byte 0x5b rest of
        None \<Rightarrow> rest
      | Some start \<Rightarrow>
          case index_byte 0x5d (drop (start + 1) rest) of
            None \<Rightarrow> rest
          | Some end \<Rightarrow> take start rest @ without_square_brackets (drop (start + 1 + end + 1) rest))"
  by pat_completeness auto
termination by (relation "measure length") (auto dest: index_byte_bound)

declare without_square_brackets.simps [simp del]

definition forbidden_runes :: "nat set" where
  "forbidden_runes = {0x2f, 0x5c, 0x3c, 0x3e, 0x3a, 0x22, 0x7c, 0x3f, 0x2a}"

definition sanitize_rune :: "nat \<Rightarrow> nat list" where
  "sanitize_rune r =
     (if r = 0x0d \<or> r = 0x0a then []
      else if r < 0x20 \<or> r = 0x7f \<or> r \<in> forbidden_runes then [0x5f]
      else [r])"

definition sanitize_output_value :: "bytes \<Rightarrow> bytes" where
  "sanitize_output_value value = encode_runes (concat (map sanitize_rune (runes value)))"

definition weekday_names :: "bytes list" where
  "weekday_names = map encode_rune [0x65e5, 0x6708, 0x706b, 0x6c34, 0x6728, 0x91d1, 0x571f]"

definition time_macro_value :: "bytes \<Rightarrow> instant \<Rightarrow> bytes option" where
  "time_macro_value name t =
     (let days = local_days japan_offset t; clock = local_clock japan_offset t in
      case civil_date days of (year, month, mday) \<Rightarrow>
      if name = ascii ''DYYYY'' then Some (format_padded 4 year)
      else if name = ascii ''DYY'' then Some (format_padded 2 (go_rem year 100))
      else if name = ascii ''DMM'' then Some (format_padded 2 month)
      else if name = ascii ''DM'' then Some (format_int month)
      else if name = ascii ''DDD'' then Some (format_padded 2 mday)
      else if name = ascii ''DD'' then Some (format_int mday)
      else if name = ascii ''DW'' then Some (weekday_names ! nat (weekday_of days))
      else if name = ascii ''THH'' then Some (format_padded 2 (clock div hour))
      else if name = ascii ''TH'' then Some (format_int (clock div hour))
      else if name = ascii ''TMM'' then Some (format_padded 2 (clock div minute mod 60))
      else if name = ascii ''TM'' then Some (format_int (clock div minute mod 60))
      else if name = ascii ''TSS'' then Some (format_padded 2 (clock div second mod 60))
      else if name = ascii ''TS'' then Some (format_int (clock div second mod 60))
      else None)"

definition output_macro_value :: "bytes \<Rightarrow> reservation \<Rightarrow> bytes option" where
  "output_macro_value name r =
     (let p = r_program r; finish = add_duration (p_start p) (p_duration p) in
      if name = ascii ''Title'' then Some (sanitize_output_value (p_title p))
      else if name = ascii ''Title2'' then Some (sanitize_output_value (without_square_brackets (p_title p)))
      else if name = ascii ''ServiceName'' then Some (sanitize_output_value (p_station_name p))
      else if name = ascii ''ONID10'' then Some (decimal (unat (p_network_id p)))
      else if name = ascii ''TSID10'' then Some (decimal (unat (p_transport_stream_id p)))
      else if name = ascii ''SID10'' then Some (decimal (unat (p_service_id p)))
      else if name = ascii ''EID10'' then Some (decimal (unat (p_event_id p)))
      else if name = ascii ''ONID16'' then Some (hexadecimal (unat (p_network_id p)))
      else if name = ascii ''TSID16'' then Some (hexadecimal (unat (p_transport_stream_id p)))
      else if name = ascii ''SID16'' then Some (hexadecimal (unat (p_service_id p)))
      else if name = ascii ''EID16'' then Some (hexadecimal (unat (p_event_id p)))
      else if name = ascii ''ReserveID'' then Some (format_int (r_number r))
      else if name = ascii ''DUHH'' then Some (format_padded 2 (p_duration p div hour))
      else if name = ascii ''DUH'' then Some (format_int (p_duration p div hour))
      else if name = ascii ''DUMM'' then Some (format_padded 2 (p_duration p div minute mod 60))
      else if name = ascii ''DUM'' then Some (format_int (p_duration p div minute mod 60))
      else if name = ascii ''DUSS'' then Some (format_padded 2 (p_duration p div second mod 60))
      else if name = ascii ''DUS'' then Some (format_int (p_duration p div second mod 60))
      else if name \<noteq> [] \<and> hd name = byte_of CHR ''S'' then time_macro_value (tl name) (p_start p)
      else if name \<noteq> [] \<and> hd name = byte_of CHR ''E'' then time_macro_value (tl name) finish
      else None)"

section \<open>Names\<close>

text \<open>The loop of \<open>expandOutputName\<close>; the argument is what is left of the template.\<close>

function expand_macros :: "bytes \<Rightarrow> reservation \<Rightarrow> (output_error, bytes) result" where
  "expand_macros rest r =
     (case index_byte dollar rest of
        None \<Rightarrow> Inr rest
      | Some start \<Rightarrow>
          case index_byte dollar (drop (start + 1) rest) of
            None \<Rightarrow> Inl InvalidOutputTemplate
          | Some end \<Rightarrow>
              case output_macro_value (slice (start + 1) (start + 1 + end) rest) r of
                None \<Rightarrow> Inl UnsupportedMacro
              | Some value \<Rightarrow>
                  case expand_macros (drop (start + 1 + end + 1) rest) r of
                    Inl e \<Rightarrow> Inl e
                  | Inr tail \<Rightarrow> Inr (take start rest @ value @ tail))"
  by pat_completeness auto
termination by (relation "measure (length \<circ> fst)") (auto dest: index_byte_bound)

declare expand_macros.simps [simp del]

definition valid_output_name :: "bytes \<Rightarrow> bool" where
  "valid_output_name value \<longleftrightarrow>
     valid_string value \<and> 1 \<le> length value \<and> length value \<le> 240 \<and> value \<noteq> ascii ''.'' \<and> value \<noteq> ascii ''..'' \<and>
     slash \<notin> set value \<and> backslash \<notin> set value \<and> \<not> contains_control value"

definition expand_output_name :: "reservation \<Rightarrow> (output_error, bytes) result" where
  "expand_output_name r =
     (let p = r_program r in
      if \<not> output_settings_valid (r_output r) \<or> r_number r < 1 \<or> is_zero_time (p_start p) \<or> \<not> t_utc (p_start p) \<or>
         p_duration p < second \<or> p_duration p > 24 * hour \<or> p_duration p mod second \<noteq> 0
      then Inl InvalidExpansionSource
      else
        case expand_macros (o_template (r_output r)) r of
          Inl e \<Rightarrow> Inl e
        | Inr text \<Rightarrow>
            let name = trim_right 0x2e (trim_space text) in
            if name = [] \<or> name = ascii ''.'' \<or> name = ascii ''..'' then Inl EmptyOutputName
            else
              let full = (if folds_to_ts (path_ext name) then name else name @ ascii ''.ts'') in
              if valid_output_name full then Inr full else Inl InvalidOutputName)"

definition output_directory :: "reservation \<Rightarrow> bytes" where
  "output_directory r =
     (if o_folder (r_output r) = [] then month_directory (p_start (r_program r)) else o_folder (r_output r))"

section \<open>Plans\<close>

definition new_reservation_file_plan :: "reservation \<Rightarrow> entity_id \<Rightarrow> (output_error, file_plan) result" where
  "new_reservation_file_plan r attempt =
     (if attempt = 0 \<or> \<not> output_settings_valid (r_output r) \<or> is_zero_time (p_start (r_program r)) \<or>
         \<not> t_utc (p_start (r_program r))
      then Inl InvalidPlanSource
      else
        let name =
              (if o_template (r_output r) = [] then Inr (string_id attempt @ ascii ''.ts'')
               else if r_number r < 1 then Inl MissingReservationNumber
               else expand_output_name r) in
        case name of
          Inl e \<Rightarrow> Inl e
        | Inr nm \<Rightarrow>
            let plan = plan_of (output_directory r) nm in
            if file_plan_valid plan then Inr plan else Inl InvalidPlan)"

definition one_seg_suffix :: bytes where
  "one_seg_suffix = ascii ''.oneseg''"

definition new_one_seg_file_plan :: "reservation \<Rightarrow> entity_id \<Rightarrow> (output_error, file_plan) result" where
  "new_one_seg_file_plan r attempt =
     (case r_one_seg_output r of
        None \<Rightarrow> Inl InvalidOneSegSource
      | Some out \<Rightarrow>
          if \<not> one_seg_output_valid out then Inl InvalidOneSegSource
          else
            let settings = (if os_output out = \<lparr>o_folder = [], o_template = []\<rparr> then r_output r else os_output out) in
            case new_reservation_file_plan (r\<lparr>r_output := settings\<rparr>) attempt of
              Inl e \<Rightarrow> Inl e
            | Inr plan \<Rightarrow>
                let name = path_base (final_path plan);
                    stem = take (length name - 3) name; ext = drop (length name - 3) name in
                if length name < 3 \<or> \<not> folds_to_ts ext then Inl InvalidOneSegExtension
                else
                  let name' = stem @ one_seg_suffix @ ext;
                      final = path_dir (final_path plan) @ slash # name';
                      plan' = \<lparr>partial_path = final @ partial_suffix, final_path = final\<rparr> in
                  if \<not> valid_output_name name' then Inl InvalidOutputName
                  else if file_plan_valid plan' then Inr plan' else Inl InvalidPlan)"

definition scheduled_output_path :: "reservation \<Rightarrow> (output_error, bytes option) result" where
  "scheduled_output_path r =
     (if \<not> output_settings_valid (r_output r) then Inl InvalidScheduledSettings
      else if o_template (r_output r) = [] then Inr None
      else if r_number r < 1 then Inl MissingReservationNumber
      else
        case expand_output_name r of
          Inl e \<Rightarrow> Inl e
        | Inr name \<Rightarrow>
            let value = output_directory r @ slash # name in
            if valid_relative_path value then Inr (Some value) else Inl InvalidScheduledPath)"

section \<open>Macros\<close>

definition time_macros :: "string list" where
  "time_macros = [''DYYYY'', ''DYY'', ''DMM'', ''DM'', ''DDD'', ''DD'', ''DW'', ''THH'', ''TH'', ''TMM'', ''TM'',
     ''TSS'', ''TS'']"

lemma ascii_eval: "ascii (c # cs) = byte_of c # ascii cs" "ascii [] = []"
  by (simp_all add: ascii_def byte_of_def)

lemma time_macro_defined: "time_macro_value name t \<noteq> None \<longleftrightarrow> name \<in> set (map ascii time_macros)"
  unfolding time_macro_value_def time_macros_def Let_def
  by (cases "civil_date (local_days japan_offset t)") simp

definition plain_macros :: "string list" where
  "plain_macros = [''Title'', ''Title2'', ''ServiceName'', ''ONID10'', ''TSID10'', ''SID10'', ''EID10'', ''ONID16'',
     ''TSID16'', ''SID16'', ''EID16'', ''ReserveID'', ''DUHH'', ''DUH'', ''DUMM'', ''DUM'', ''DUSS'', ''DUS'']"

lemma output_macro_defined:
  "output_macro_value name r \<noteq> None \<longleftrightarrow>
     name \<in> set (map ascii plain_macros) \<or>
     name \<noteq> [] \<and> (hd name = byte_of CHR ''S'' \<or> hd name = byte_of CHR ''E'') \<and> tl name \<in> set (map ascii time_macros)"
  unfolding output_macro_value_def Let_def plain_macros_def
  by (simp del: not_None_eq add: time_macro_defined split: if_split)

lemma supported_macro_iff: "supported_output_macro name \<longleftrightarrow> output_macro_value name r \<noteq> None"
proof -
  have "set supported_macros =
     set plain_macros \<union> (\<lambda>m. CHR ''S'' # m) ` set time_macros \<union> (\<lambda>m. CHR ''E'' # m) ` set time_macros"
    unfolding supported_macros_def plain_macros_def time_macros_def by auto
  then have "supported_output_macro name \<longleftrightarrow>
     name \<in> ascii ` (set plain_macros \<union> (\<lambda>m. CHR ''S'' # m) ` set time_macros \<union> (\<lambda>m. CHR ''E'' # m) ` set time_macros)"
    by (simp add: supported_output_macro_def)
  also have "\<dots> \<longleftrightarrow> name \<in> ascii ` set plain_macros \<or>
     (\<exists>m\<in>ascii ` set time_macros. name = byte_of CHR ''S'' # m \<or> name = byte_of CHR ''E'' # m)"
    by (auto simp: image_Un image_image ascii_eval)
  also have "\<dots> \<longleftrightarrow> output_macro_value name r \<noteq> None"
    unfolding output_macro_defined by (cases name) auto
  finally show ?thesis .
qed

text \<open>The check of a template accepts it exactly when its expansion succeeds
  for every reservation: all macros are paired and each supported name has a value.
\<close>

theorem template_expansion_total: "template_macros_ok template \<longleftrightarrow> is_ok (expand_macros template r)"
proof (induction template rule: template_macros_ok.induct)
  case (1 rest)
  show ?case
  proof (cases "index_byte dollar rest")
    case None
    then show ?thesis by (subst template_macros_ok.simps, subst expand_macros.simps) simp
  next
    case start: (Some start)
    show ?thesis
    proof (cases "index_byte dollar (drop (start + 1) rest)")
      case None
      then show ?thesis using start by (subst template_macros_ok.simps, subst expand_macros.simps) simp
    next
      case (Some finish)
      define name where "name = slice (start + 1) (start + 1 + finish) rest"
      define tail where "tail = drop (start + 1 + finish + 1) rest"
      have "template_macros_ok tail = is_ok (expand_macros tail r)" if "supported_output_macro name"
        using 1 [OF start Some] that by (simp add: name_def tail_def)
      moreover have "template_macros_ok rest \<longleftrightarrow> supported_output_macro name \<and> template_macros_ok tail"
        by (subst template_macros_ok.simps) (simp only: start Some option.case name_def tail_def if_bool_eq_conj, blast)
      moreover have "is_ok (expand_macros rest r) \<longleftrightarrow> output_macro_value name r \<noteq> None \<and> is_ok (expand_macros tail r)"
        by (subst expand_macros.simps)
         (simp only: start Some option.case name_def [symmetric] tail_def [symmetric], auto split: option.split sum.split)
      ultimately show ?thesis using supported_macro_iff by blast
    qed
  qed
qed

section \<open>Plans stay below the root\<close>

lemma relative_path_iff:
  "valid_relative_path p \<longleftrightarrow> list_all plain_part (split_byte slash p) \<and> length p \<le> 512 \<and> backslash \<notin> set p"
proof
  assume valid: "valid_relative_path p"
  then have "list_all plain_part (split_byte slash p)"
    by (intro clean_relative_parts) (simp_all add: valid_relative_path_def)
  then show "list_all plain_part (split_byte slash p) \<and> length p \<le> 512 \<and> backslash \<notin> set p"
    using valid by (simp add: valid_relative_path_def)
next
  assume plain: "list_all plain_part (split_byte slash p) \<and> length p \<le> 512 \<and> backslash \<notin> set p"
  have "ascii ''../'' = [0x2e, 0x2e, slash]" by (simp add: ascii_def slash_def)
  then show "valid_relative_path p"
    using plain plain_relative [of p] clean_plain [of p] by (simp add: valid_relative_path_def)
qed

definition plain_dir :: "bytes \<Rightarrow> bool" where
  "plain_dir d \<longleftrightarrow> list_all plain_part (split_byte slash d) \<and> backslash \<notin> set d"

definition plain_name :: "bytes \<Rightarrow> bool" where
  "plain_name n \<longleftrightarrow> plain_part n \<and> slash \<notin> set n \<and> backslash \<notin> set n"

lemma partial_suffix_bytes: "slash \<notin> set partial_suffix" "backslash \<notin> set partial_suffix" "length partial_suffix = 8"
  by (simp_all add: partial_suffix_def slash_def backslash_def ascii_eval byte_of_def)

lemma plain_name_suffix: "plain_name n \<Longrightarrow> plain_name (n @ partial_suffix)"
  using partial_suffix_bytes by (auto simp: plain_name_def plain_part_def append_eq_Cons_conv)

lemma relative_join:
  assumes "plain_dir d" "plain_name n" "length d + length n < 512"
  shows "valid_relative_path (d @ slash # n)"
  using assms by (simp add: relative_path_iff split_byte_snoc plain_dir_def plain_name_def) (simp add: slash_def backslash_def)

lemma relative_join_iff:
  assumes "slash \<notin> set n"
  shows "valid_relative_path (d @ slash # n) \<longleftrightarrow> plain_dir d \<and> plain_name n \<and> length d + length n < 512"
  using assms by (auto simp: relative_path_iff split_byte_snoc plain_dir_def plain_name_def) (auto simp: slash_def backslash_def)

lemma plan_of_valid:
  assumes "plain_dir d" "plain_name n" "length d + length n < 504"
  shows "file_plan_valid (plan_of d n)"
proof -
  have n': "plain_name (n @ partial_suffix)" by (rule plain_name_suffix [OF assms(2)])
  have "path_dir (d @ slash # n) = d" "path_dir (d @ slash # n @ partial_suffix) = d"
    using assms n' by (simp_all add: path_dir_join plain_dir_def plain_name_def)
  then show ?thesis
    using relative_join [OF assms(1,2)] relative_join [OF assms(1) n'] assms(3) partial_suffix_bytes(3)
    by (auto simp: file_plan_valid_def plan_of_def)
qed

text \<open>What every plan looks like.\<close>

definition confined :: "file_plan \<Rightarrow> bool" where
  "confined plan \<longleftrightarrow>
     list_all plain_part (split_byte slash (final_path plan)) \<and>
     list_all plain_part (split_byte slash (partial_path plan)) \<and>
     butlast (split_byte slash (partial_path plan)) = butlast (split_byte slash (final_path plan)) \<and>
     partial_path plan = final_path plan @ partial_suffix \<and>
     length (partial_path plan) \<le> 512 \<and> backslash \<notin> set (partial_path plan)"

lemma split_byte_suffix:
  "c \<notin> set s \<Longrightarrow> split_byte c (p @ s) = butlast (split_byte c p) @ [last (split_byte c p) @ s]"
proof (induction p)
  case Nil
  then show ?case by (simp add: split_byte_plain)
next
  case (Cons b p)
  then show ?case by (cases "split_byte c p") auto
qed

lemma valid_confined:
  assumes "file_plan_valid plan" "partial_path plan = final_path plan @ partial_suffix"
  shows "confined plan"
  using assms partial_suffix_bytes
  by (auto simp: confined_def file_plan_valid_def relative_path_iff split_byte_suffix simp del: append_assoc)

lemma plan_of_suffix: "partial_path (plan_of d n) = final_path (plan_of d n) @ partial_suffix"
  by (simp add: plan_of_def)

lemma reservation_plan_cases:
  assumes "new_reservation_file_plan r attempt = Inr plan"
  obtains name where "plan = plan_of (output_directory r) name" "file_plan_valid plan"
    "o_template (r_output r) = [] \<longrightarrow> name = string_id attempt @ ascii ''.ts''"
    "o_template (r_output r) \<noteq> [] \<longrightarrow> expand_output_name r = Inr name"
  using assms by (auto simp: new_reservation_file_plan_def Let_def split: if_splits sum.splits)

lemma reservation_plan_shape:
  "new_reservation_file_plan r attempt = Inr plan \<Longrightarrow>
     file_plan_valid plan \<and> partial_path plan = final_path plan @ partial_suffix"
  by (erule reservation_plan_cases) (simp add: plan_of_suffix)

lemma file_plan_shape:
  "new_file_plan start attempt = Inr plan \<Longrightarrow>
     file_plan_valid plan \<and> partial_path plan = final_path plan @ partial_suffix"
  by (auto simp: new_file_plan_def Let_def plan_of_suffix split: if_splits)

lemma one_seg_plan_cases:
  assumes "new_one_seg_file_plan r attempt = Inr plan"
  obtains out source name where "r_one_seg_output r = Some out" "one_seg_output_valid out"
    "new_reservation_file_plan (r\<lparr>r_output := if os_output out = \<lparr>o_folder = [], o_template = []\<rparr> then r_output r
       else os_output out\<rparr>) attempt = Inr source"
    "name = path_base (final_path source)" "3 \<le> length name" "folds_to_ts (drop (length name - 3) name)"
    "final_path plan = path_dir (final_path source) @ slash # take (length name - 3) name @ one_seg_suffix
       @ drop (length name - 3) name"
    "partial_path plan = final_path plan @ partial_suffix" "file_plan_valid plan"
  using assms
  by (cases "r_one_seg_output r")
    (auto simp: new_one_seg_file_plan_def Let_def simp del: append_assoc split: sum.splits if_split_asm)

lemma one_seg_plan_shape:
  "new_one_seg_file_plan r attempt = Inr plan \<Longrightarrow>
     file_plan_valid plan \<and> partial_path plan = final_path plan @ partial_suffix"
  by (erule one_seg_plan_cases) simp

text \<open>C19. (safety): every plan the code makes for a reservation, main or one-seg, has paths whose
  components are proper names: no absolute path, no parent reference and no backslash, so a plan never leaves the
  recording root; both files lie in the same directory and the partial name is the final one with its suffix.
\<close>

theorem plans_confined:
  assumes "new_reservation_file_plan r attempt = Inr plan \<or> new_one_seg_file_plan r attempt = Inr plan \<or>
    new_file_plan start attempt = Inr plan"
  shows "confined plan"
  using assms reservation_plan_shape one_seg_plan_shape file_plan_shape by (metis valid_confined)

section \<open>Plans exist\<close>

lemma string_id_bytes: "b \<in> set (string_id i) \<Longrightarrow> b = dash \<or> 48 \<le> b \<and> b \<le> 57 \<or> 97 \<le> b \<and> b \<le> 102"
proof -
  have digit: "48 \<le> hex_digit d \<and> hex_digit d \<le> 57 \<or> 97 \<le> hex_digit d \<and> hex_digit d \<le> 102" if "d < 16" for d
    using that by (rule nibble_cases) (simp_all add: hex_digit_def)
  have "48 \<le> c \<and> c \<le> 57 \<or> 97 \<le> c \<and> c \<le> 102" if "c \<in> set (hex_encode bs)" for c bs
    using that digit nibbles by (auto simp: hex_encode_def)
  then show "b \<in> set (string_id i) \<Longrightarrow> b = dash \<or> 48 \<le> b \<and> b \<le> 57 \<or> 97 \<le> b \<and> b \<le> 102"
    by (auto simp: string_id_def Let_def)
qed

lemma length_string_id [simp]: "length (string_id i) = 36"
  by (simp add: string_id_grouped grouped_shape(1))

lemma id_name_plain: "plain_name (string_id i @ ascii ''.ts'')"
proof -
  have "slash \<notin> set (string_id i)" "backslash \<notin> set (string_id i)"
    by (auto simp: slash_def backslash_def dash_def dest!: string_id_bytes)
  then show ?thesis
    using length_string_id [of i]
    by (auto simp: plain_name_def plain_part_def slash_def backslash_def ascii_eval byte_of_def append_eq_Cons_conv simp del: length_string_id)
qed

lemma format_padded_bytes: "b \<in> set (format_padded w n) \<Longrightarrow> b = 0x2d \<or> 48 \<le> b \<and> b \<le> 57"
  using zero_pad_set by (fastforce simp: format_padded_def split: if_splits dest: decimal_digits)

lemma format_padded_plain: "plain_name (format_padded w n)"
proof -
  have "slash \<notin> set (format_padded w n)" "backslash \<notin> set (format_padded w n)" "0x2e \<notin> set (format_padded w n)"
    by (auto simp: slash_def backslash_def dest!: format_padded_bytes)
  moreover have "format_padded w n \<noteq> []" by (simp add: format_padded_def)
  ultimately show ?thesis by (auto simp: plain_name_def plain_part_def)
qed

lemma month_directory_plain: "plain_dir (month_directory start)"
proof -
  obtain y m d where date: "civil_date (local_days 0 start) = (y, m, d)" by (metis prod_cases3)
  show ?thesis
    using format_padded_plain [of 4 y] format_padded_plain [of 2 m]
    by (auto simp: month_directory_def date plain_dir_def plain_name_def split_byte_snoc split_byte_plain)
      (auto simp: slash_def backslash_def)
qed

lemma month_directory_length:
  assumes "0 \<le> fst (civil_date (local_days 0 start))" "fst (civil_date (local_days 0 start)) \<le> 9999"
  shows "length (month_directory start) = 7"
proof -
  obtain y m d where date: "civil_date (local_days 0 start) = (y, m, d)" by (metis prod_cases3)
  then have "0 \<le> m" "m \<le> 12" "0 \<le> y" "y \<le> 9999" using civil_date_fields [of "local_days 0 start" y m d] assms by auto
  then show ?thesis
    using decimal_length [of "nat y" 4] decimal_length [of "nat m" 2]
    by (simp add: month_directory_def date format_padded_def)
qed

lemma output_folder_plain: "valid_output_folder folder \<Longrightarrow> plain_dir folder \<and> length folder \<le> 256"
  by (auto simp: valid_output_folder_def plain_dir_def list_all_iff plain_part_def byte_of_def)

definition year_printable :: "reservation \<Rightarrow> bool" where
  "year_printable r \<longleftrightarrow>
     o_folder (r_output r) \<noteq> [] \<or> fst (civil_date (local_days 0 (p_start (r_program r)))) \<in> {0..9999}"

lemma output_directory_plain:
  assumes "output_settings_valid (r_output r)"
  shows "plain_dir (output_directory r)"
  using assms month_directory_plain output_folder_plain
  by (auto simp: output_directory_def output_settings_valid_def)

lemma output_directory_length:
  assumes "output_settings_valid (r_output r)" "year_printable r"
  shows "length (output_directory r) \<le> 256"
  using assms month_directory_length [of "p_start (r_program r)"] output_folder_plain
  by (auto simp: output_directory_def output_settings_valid_def year_printable_def)

lemma output_name_plain: "valid_output_name n \<Longrightarrow> plain_name n \<and> length n \<le> 240"
  by (auto simp: valid_output_name_def plain_name_def plain_part_def)

lemma default_plan:
  assumes "attempt \<noteq> 0" "output_settings_valid (r_output r)" "o_template (r_output r) = []"
    "\<not> is_zero_time (p_start (r_program r))" "t_utc (p_start (r_program r))" "year_printable r"
  shows "new_reservation_file_plan r attempt =
    Inr (plan_of (output_directory r) (string_id attempt @ ascii ''.ts''))"
proof -
  have "file_plan_valid (plan_of (output_directory r) (string_id attempt @ ascii ''.ts''))"
    using output_directory_length [OF assms(2,6)]
    by (intro plan_of_valid output_directory_plain [OF assms(2)] id_name_plain) (simp add: ascii_eval)
  then show ?thesis using assms by (simp add: new_reservation_file_plan_def)
qed

text \<open>A reservation with valid output settings and no file name template always gets
  a plan, the one named by the recording's identifier below its folder or the month of its start.
\<close>

theorem default_plan_exists:
  assumes "attempt \<noteq> 0" "output_settings_valid (r_output r)" "o_template (r_output r) = []"
    "\<not> is_zero_time (p_start (r_program r))" "t_utc (p_start (r_program r))" "year_printable r"
  shows "new_reservation_file_plan r attempt =
    Inr (plan_of (output_directory r) (string_id attempt @ ascii ''.ts''))"
  by (rule default_plan [OF assms])

lemma expanded_name:
  assumes "expand_output_name r = Inr name"
  shows "valid_output_name name" "output_settings_valid (r_output r)" "1 \<le> r_number r"
    "\<not> is_zero_time (p_start (r_program r))" "t_utc (p_start (r_program r))"
  using assms by (auto simp: expand_output_name_def Let_def split: if_splits sum.splits)

lemma expanded_plan_valid:
  assumes "expand_output_name r = Inr name" "year_printable r"
  shows "file_plan_valid (plan_of (output_directory r) name)" "valid_relative_path (output_directory r @ slash # name)"
proof -
  note name = expanded_name [OF assms(1)]
  have bounds: "plain_dir (output_directory r)" "length (output_directory r) \<le> 256" "plain_name name" "length name \<le> 240"
    using output_directory_plain output_directory_length output_name_plain name assms(2) by auto
  then show "file_plan_valid (plan_of (output_directory r) name)" "valid_relative_path (output_directory r @ slash # name)"
    by (intro plan_of_valid relative_join; simp)+
qed

text \<open>For a reservation with a template, the path announced before the
  recording is exactly the final path of the plan the recording will use, whatever its identifier.
\<close>

theorem scheduled_path_is_recorded:
  assumes "attempt \<noteq> 0" "o_template (r_output r) \<noteq> []" "year_printable r"
  shows "scheduled_output_path r = Inr (Some path) \<longleftrightarrow>
    new_reservation_file_plan r attempt = Inr \<lparr>partial_path = path @ partial_suffix, final_path = path\<rparr>"
proof (cases "expand_output_name r")
  case (Inl e)
  then show ?thesis using assms by (simp add: scheduled_output_path_def new_reservation_file_plan_def)
next
  case (Inr name)
  from expanded_name [OF Inr] have "output_settings_valid (r_output r)" "\<not> r_number r < 1"
    "\<not> is_zero_time (p_start (r_program r))" "t_utc (p_start (r_program r))" by simp_all
  then have "new_reservation_file_plan r attempt = Inr (plan_of (output_directory r) name)"
    "scheduled_output_path r = Inr (Some (output_directory r @ slash # name))"
    using expanded_plan_valid [OF Inr assms(3)] assms Inr
    by (simp_all add: scheduled_output_path_def new_reservation_file_plan_def Let_def)
  then show ?thesis by (auto simp: plan_of_def)
qed

section \<open>Main and one-seg plans of a reservation\<close>

lemma plan_parts:
  assumes "file_plan_valid (plan_of d n)" "slash \<notin> set n"
  shows "path_dir (final_path (plan_of d n)) = d" "path_base (final_path (plan_of d n)) = n"
proof -
  have "plain_dir d" "plain_name n"
    using assms relative_join_iff [OF assms(2)] by (auto simp: file_plan_valid_def plan_of_def)
  then show "path_dir (final_path (plan_of d n)) = d" "path_base (final_path (plan_of d n)) = n"
    using assms(2) by (auto simp: plan_of_def path_dir_join path_base_join plain_dir_def plain_name_def plain_part_def)
qed

lemma plan_name_free:
  assumes "new_reservation_file_plan r attempt = Inr plan"
  obtains name where "plan = plan_of (output_directory r) name" "file_plan_valid plan" "slash \<notin> set name"
proof -
  obtain name where name: "plan = plan_of (output_directory r) name" "file_plan_valid plan"
    "o_template (r_output r) = [] \<longrightarrow> name = string_id attempt @ ascii ''.ts''"
    "o_template (r_output r) \<noteq> [] \<longrightarrow> expand_output_name r = Inr name"
    using assms by (rule reservation_plan_cases)
  moreover have "slash \<notin> set name"
    using name(3,4) id_name_plain [of attempt] expanded_name(1) [of r name] output_name_plain
    by (auto simp: plain_name_def)
  ultimately show thesis using that by blast
qed

text \<open>When the one-seg recording inherits the output settings of the main one, or has the
  same, the four files of the two plans have four different names, so no recording overwrites the other.
\<close>

theorem one_seg_plan_apart:
  assumes "new_reservation_file_plan r attempt = Inr main" "new_one_seg_file_plan r attempt = Inr one_seg"
    and "r_one_seg_output r = Some out" "os_output out = \<lparr>o_folder = [], o_template = []\<rparr> \<or> os_output out = r_output r"
  shows "distinct [partial_path main, final_path main, partial_path one_seg, final_path one_seg]"
proof -
  obtain name where main: "main = plan_of (output_directory r) name" "file_plan_valid main" "slash \<notin> set name"
    using assms(1) by (rule plan_name_free)
  obtain out' source name' where one: "r_one_seg_output r = Some out'"
    "new_reservation_file_plan (r\<lparr>r_output := if os_output out' = \<lparr>o_folder = [], o_template = []\<rparr> then r_output r
       else os_output out'\<rparr>) attempt = Inr source"
    "name' = path_base (final_path source)" "3 \<le> length name'"
    "final_path one_seg = path_dir (final_path source) @ slash # take (length name' - 3) name' @ one_seg_suffix
       @ drop (length name' - 3) name'" "partial_path one_seg = final_path one_seg @ partial_suffix"
    by (rule one_seg_plan_cases [OF assms(2)])
  have "(if os_output out' = \<lparr>o_folder = [], o_template = []\<rparr> then r_output r else os_output out') = r_output r"
    using one(1) assms(3,4) by auto
  moreover have "r\<lparr>r_output := r_output r\<rparr> = r" by simp
  ultimately have source: "new_reservation_file_plan r attempt = Inr source" using one(2) by simp
  have "source = main" "name' = name"
    using source one(3) assms(1) main plan_parts(2) [of "output_directory r" name] by auto
  then have "length (final_path one_seg) = length (final_path main) + 7"
    using one(4,5) main plan_parts(1) [of "output_directory r" name] by (simp add: plan_of_def one_seg_suffix_def ascii_eval)
  moreover have "length (partial_path one_seg) = length (final_path one_seg) + 8"
    "length (partial_path main) = length (final_path main) + 8"
    using one(6) main(1) by (simp_all add: plan_of_def partial_suffix_bytes)
  ultimately have "distinct (map length [partial_path main, final_path main, partial_path one_seg, final_path one_seg])"
    by simp
  then show ?thesis using distinct_map by blast
qed

definition sample_program :: program_snapshot where
  "sample_program = \<lparr>p_instance_id = 1, p_revision_id = 2, p_backend_id = 3, p_locator = [49], p_tuning_target = [50],
     p_network_id = 4, p_transport_stream_id = 5, p_service_id = 6, p_event_id = 7, p_title = [65, 0x2f, 66],
     p_station_name = [67], p_start = \<lparr>t_nanos = 1600000000 * second, t_utc = True\<rparr>, p_duration = 30 * minute\<rparr>"

definition sample_reservation :: reservation where
  "sample_reservation = \<lparr>r_id = 9, r_number = 1, r_version = 1, r_state = ReservationActive, r_program = sample_program,
     r_priority = 3, r_requested_follow = False, r_effective_follow = False, r_disabled = False, r_margins = None,
     r_output = \<lparr>o_folder = [], o_template = []\<rparr>, r_one_seg_output = None, r_components = 0,
     r_post_recording = \<lparr>pr_mode = 0, pr_script = []\<rparr>, r_created_at = \<lparr>t_nanos = second, t_utc = True\<rparr>,
     r_updated_at = \<lparr>t_nanos = second, t_utc = True\<rparr>, r_finished_at = None\<rparr>"

text \<open>The settings with the template \<open>$Title$\<close> and the folder \<open>A\<close>, and a one-seg output that inherits them.\<close>

definition titled_reservation :: reservation where
  "titled_reservation = sample_reservation\<lparr>r_output := \<lparr>o_folder = [65], o_template = ascii ''$Title$''\<rparr>,
     r_one_seg_output := Some \<lparr>os_locator = [49], os_output = \<lparr>o_folder = [], o_template = []\<rparr>\<rparr>\<rparr>"

lemma sample_start: "p_start (r_program sample_reservation) = \<lparr>t_nanos = 1600000000 * second, t_utc = True\<rparr>"
  by (simp add: sample_reservation_def sample_program_def)

lemma sample_year: "year_printable sample_reservation"
proof -
  have "fst (civil_date (local_days 0 \<lparr>t_nanos = 1600000000 * second, t_utc = True\<rparr>)) = 2020" by code_simp
  then show ?thesis by (simp add: year_printable_def sample_start)
qed

lemma sample_plan:
  "new_reservation_file_plan sample_reservation 1 =
     Inr (plan_of (output_directory sample_reservation) (string_id 1 @ ascii ''.ts''))"
  using sample_year
  by (intro default_plan) (simp_all add: sample_reservation_def sample_program_def output_settings_valid_def
      is_zero_time_def zero_nanos_def)

lemma titled_template: "output_settings_valid (r_output titled_reservation)"
proof -
  have "template_macros_ok (ascii ''$Title$'')" by code_simp
  moreover have "path_clean [65] = [65]" by code_simp
  ultimately show ?thesis
    by (simp add: titled_reservation_def output_settings_valid_def valid_output_folder_def valid_output_template_def
        contains_control_def slash_def backslash_def colon_def text_eval)
qed

lemma titled_macros: "expand_macros (ascii ''$Title$'') titled_reservation = Inr (ascii ''A_B'')"
proof -
  have tail: "expand_macros [] r = Inr []" for r by (subst expand_macros.simps) simp
  show ?thesis
    by (subst expand_macros.simps)
      (simp add: tail dollar_def slice_def output_macro_value_def sanitize_output_value_def sanitize_rune_def
        forbidden_runes_def titled_reservation_def sample_reservation_def sample_program_def text_eval)
qed

lemma titled_name: "expand_output_name titled_reservation = Inr (ascii ''A_B.ts'')"
proof -
  have "valid_output_name (ascii ''A_B.ts'')"
    by (simp add: valid_output_name_def contains_control_def slash_def backslash_def text_eval)
  moreover have "folds_to_ts (path_ext (ascii ''A_B'')) = False" "trim_right 0x2e (trim_space (ascii ''A_B'')) = ascii ''A_B''"
    by (simp_all add: slash_def text_eval)
  moreover have "ascii ''A_B'' @ ascii ''.ts'' = ascii ''A_B.ts''" "ascii ''A_B'' \<noteq> []" "ascii ''A_B'' \<noteq> ascii ''.''"
    "ascii ''A_B'' \<noteq> ascii ''..''" by (simp_all add: ascii_def of_char_def)
  moreover have "o_template (r_output titled_reservation) = ascii ''$Title$''" "r_number titled_reservation = 1"
    "r_program titled_reservation = sample_program"
    by (simp_all add: titled_reservation_def sample_reservation_def)
  ultimately show ?thesis
    by (simp add: expand_output_name_def titled_template titled_macros sample_program_def is_zero_time_def zero_nanos_def
        del: ascii_dots)
qed

lemma titled_plan:
  "new_reservation_file_plan titled_reservation 1 = Inr (plan_of [65] (ascii ''A_B.ts''))"
proof -
  have folder: "output_directory titled_reservation = [65]" "year_printable titled_reservation"
    by (simp_all add: output_directory_def titled_reservation_def year_printable_def)
  have "o_template (r_output titled_reservation) \<noteq> []" "r_number titled_reservation = 1"
    by (simp_all add: titled_reservation_def sample_reservation_def ascii_def)
  then show ?thesis
    using expanded_plan_valid [OF titled_name folder(2)] expanded_name [OF titled_name]
    by (simp add: new_reservation_file_plan_def titled_name folder(1))
qed

lemma titled_one_seg_plan:
  "\<exists>one_seg. new_one_seg_file_plan titled_reservation 1 = Inr one_seg"
proof -
  define out where "out = \<lparr>os_locator = [49], os_output = \<lparr>o_folder = [], o_template = []\<rparr>\<rparr>"
  have seg: "r_one_seg_output titled_reservation = Some out" by (simp add: titled_reservation_def out_def)
  have "decimal 1 = [49]" by code_simp
  then have "one_seg_output_valid out"
    by (simp add: out_def one_seg_output_valid_def valid_text_def parse_uint63_def output_settings_valid_def text_eval)
  moreover have "valid_output_name (ascii ''A_B.oneseg.ts'')"
    by (simp add: valid_output_name_def contains_control_def slash_def backslash_def text_eval)
  moreover have "path_base ([65] @ slash # ascii ''A_B.ts'') = ascii ''A_B.ts''" "path_dir ([65] @ slash # ascii ''A_B.ts'') = [65]"
    by (intro path_base_join path_dir_join; simp add: ascii_def slash_def of_char_def plain_part_def)+
  moreover have "take 3 (ascii ''A_B.ts'') = ascii ''A_B''" "drop 3 (ascii ''A_B.ts'') = ascii ''.ts''"
    "length (ascii ''A_B.ts'') = 6" "ascii ''A_B'' @ one_seg_suffix @ ascii ''.ts'' = ascii ''A_B.oneseg.ts''"
    "folds_to_ts (ascii ''.ts'')"
    by (simp_all add: ascii_def folds_to_ts_def one_seg_suffix_def)
  moreover have "file_plan_valid (plan_of [65] (ascii ''A_B.oneseg.ts''))"
    by (intro plan_of_valid) (simp_all add: plain_dir_def plain_name_def plain_part_def slash_def backslash_def text_eval)
  moreover have "titled_reservation\<lparr>r_output := r_output titled_reservation\<rparr> = titled_reservation" by simp
  ultimately show ?thesis
    using titled_plan seg by (simp add: new_one_seg_file_plan_def plan_of_def out_def Let_def append_Cons [of slash] del: append.simps)
qed

theorem plans_confined_witness:
  "confined (plan_of (output_directory sample_reservation) (string_id 1 @ ascii ''.ts''))"
  by (rule plans_confined [OF disjI1 [OF sample_plan]])

theorem default_plan_exists_witness:
  "new_reservation_file_plan sample_reservation 1 =
     Inr (plan_of (output_directory sample_reservation) (string_id 1 @ ascii ''.ts''))"
  using sample_year
  by (intro default_plan_exists) (simp_all add: sample_reservation_def sample_program_def output_settings_valid_def
      is_zero_time_def zero_nanos_def)

theorem scheduled_path_is_recorded_witness:
  "scheduled_output_path titled_reservation = Inr (Some ([65] @ slash # ascii ''A_B.ts''))"
  using titled_plan
  by (subst scheduled_path_is_recorded [where attempt = 1])
    (simp_all add: titled_reservation_def year_printable_def ascii_def plan_of_def)

theorem one_seg_plan_apart_witness:
  "\<exists>(main :: file_plan) (one_seg :: file_plan). distinct [partial_path main, final_path main, partial_path one_seg, final_path one_seg]"
proof -
  obtain one_seg where "new_one_seg_file_plan titled_reservation 1 = Inr one_seg" using titled_one_seg_plan by blast
  then have "distinct [partial_path (plan_of [65] (ascii ''A_B.ts'')), final_path (plan_of [65] (ascii ''A_B.ts'')),
    partial_path one_seg, final_path one_seg]"
    by (rule one_seg_plan_apart [OF titled_plan, where out = "\<lparr>os_locator = [49], os_output = \<lparr>o_folder = [], o_template = []\<rparr>\<rparr>"])
      (simp_all add: titled_reservation_def)
  then show ?thesis by blast
qed

end
