(* ===== verification/RecordingResults.thy ===== *)
theory RecordingResults
  imports FilePlans
begin

text \<open>
  \<open>internal/core/recording/model.go\<close>: the states of a recording, its results, and the checks on what is stored
  when it is claimed, finalized and finished.
\<close>

section \<open>States, reasons and availability\<close>

datatype attempt_state =
  AttemptClaimed | AttemptStarting | AttemptRecording | AttemptFinalizing | AttemptSucceeded | AttemptPartial
  | AttemptFailed | AttemptCancelled | AttemptMissed | OtherAttemptState string

datatype segment_state = SegmentPlanned | SegmentWriting | SegmentPartial | SegmentFinalized | OtherSegmentState string

datatype availability =
  AvailabilityPlanned | AvailabilityPartial | AvailabilityFinal | AvailabilityMissing | AvailabilityMismatched
  | OtherAvailability string

datatype terminal_reason =
  ReasonCompleted | ReasonCompletedAfterReconnect | ReasonLateStartExpired | ReasonRecordingSlotUnavailable
  | ReasonStreamNotFound | ReasonStreamUnavailable | ReasonStreamTimeout | ReasonStreamEndedEarly
  | ReasonStreamCancelled | ReasonStreamReconnectExhausted | ReasonStreamFormatInvalid | ReasonFileCreateFailed
  | ReasonFileWriteFailed | ReasonFileSyncFailed | ReasonFinalNameConflict | ReasonFinalPublicationFailed
  | ReasonFinalDatabaseFailed | ReasonProcessInterrupted | ReasonProcessShutdown | ReasonUserRequestedStop
  | ReasonFileMissing | ReasonFileIntegrityMismatch | OtherReason string

text \<open>The other constructors hold the strings that are no constant of the code; the empty one is the unset reason.\<close>

abbreviation no_reason :: terminal_reason where "no_reason \<equiv> OtherReason []"

primrec valid_reason :: "terminal_reason \<Rightarrow> bool" where
  "valid_reason ReasonCompleted = True"
| "valid_reason ReasonCompletedAfterReconnect = True"
| "valid_reason ReasonLateStartExpired = True"
| "valid_reason ReasonRecordingSlotUnavailable = True"
| "valid_reason ReasonStreamNotFound = True"
| "valid_reason ReasonStreamUnavailable = True"
| "valid_reason ReasonStreamTimeout = True"
| "valid_reason ReasonStreamEndedEarly = True"
| "valid_reason ReasonStreamCancelled = True"
| "valid_reason ReasonStreamReconnectExhausted = True"
| "valid_reason ReasonStreamFormatInvalid = True"
| "valid_reason ReasonFileCreateFailed = True"
| "valid_reason ReasonFileWriteFailed = True"
| "valid_reason ReasonFileSyncFailed = True"
| "valid_reason ReasonFinalNameConflict = True"
| "valid_reason ReasonFinalPublicationFailed = True"
| "valid_reason ReasonFinalDatabaseFailed = True"
| "valid_reason ReasonProcessInterrupted = True"
| "valid_reason ReasonProcessShutdown = True"
| "valid_reason ReasonUserRequestedStop = True"
| "valid_reason ReasonFileMissing = True"
| "valid_reason ReasonFileIntegrityMismatch = True"
| "valid_reason (OtherReason _) = False"

definition successful_reason :: "terminal_reason \<Rightarrow> bool" where
  "successful_reason reason \<longleftrightarrow> reason = ReasonCompleted \<or> reason = ReasonCompletedAfterReconnect"

definition communication_partial_reason :: "terminal_reason \<Rightarrow> bool" where
  "communication_partial_reason reason \<longleftrightarrow>
     reason = ReasonStreamEndedEarly \<or> reason = ReasonStreamTimeout \<or> reason = ReasonStreamReconnectExhausted"

definition terminal_attempt_state :: "attempt_state \<Rightarrow> bool" where
  "terminal_attempt_state state \<longleftrightarrow>
     state \<in> {AttemptSucceeded, AttemptPartial, AttemptFailed, AttemptCancelled, AttemptMissed}"

section \<open>Claims\<close>

record claim_request =
  cl_reservation_id :: entity_id
  cl_reservation_version :: int
  cl_attempt_id :: entity_id
  cl_segment_id :: entity_id
  cl_owner_id :: entity_id
  cl_owner_generation :: int
  cl_now :: instant
  cl_plan :: file_plan
  cl_one_seg_segment_id :: entity_id
  cl_one_seg_plan :: "file_plan option"

datatype claim_error = InvalidClaim | InvalidOneSegClaim

definition validate_claim :: "claim_request \<Rightarrow> (claim_error, unit) result" where
  "validate_claim r =
     (if cl_reservation_id r = 0 \<or> cl_reservation_version r < 1 \<or> cl_attempt_id r = 0 \<or> cl_segment_id r = 0 \<or>
         cl_owner_id r = 0 \<or> cl_owner_generation r < 1 \<or> \<not> utc_instant (cl_now r) \<or> \<not> file_plan_valid (cl_plan r)
      then Inl InvalidClaim
      else
        case cl_one_seg_plan r of
          None \<Rightarrow> if cl_one_seg_segment_id r \<noteq> 0 then Inl InvalidOneSegClaim else Inr ()
        | Some plan \<Rightarrow>
            if cl_one_seg_segment_id r = 0 \<or> cl_one_seg_segment_id r = cl_segment_id r \<or> \<not> file_plan_valid plan \<or>
               partial_path plan = partial_path (cl_plan r) \<or> partial_path plan = final_path (cl_plan r) \<or>
               final_path plan = partial_path (cl_plan r) \<or> final_path plan = final_path (cl_plan r)
            then Inl InvalidOneSegClaim else Inr ())"

section \<open>Results\<close>

record one_seg_result =
  s_quality :: quality_summary
  s_byte_count :: int
  s_availability :: availability
  s_reason :: terminal_reason
  s_file_synced :: bool
  s_publish :: bool

datatype result_error =
  InvalidFinalize | InvalidPlannedResult | InvalidOneSegFinalization
  | InvalidOneSegByteCount | InvalidPublishableOneSeg | MissingOneSegReason | InvalidOneSegAvailability
  | MissingOneSegHasBytes
  | InvalidFinish | InvalidOneSegFinish | InvalidSuccessfulFinish | InvalidStoppedFinish
  | InvalidCommunicationFinish | InvalidPartialFinish | InvalidUnsuccessfulFinish | InvalidEmptyFinish
  | FinishStateNotTerminal

definition validate_one_seg_result :: "one_seg_result \<Rightarrow> (result_error, unit) result" where
  "validate_one_seg_result s =
     (if \<not> quality_valid (s_quality s) \<or> s_byte_count s < 0 then Inl InvalidOneSegByteCount
      else if s_publish s then
        (if s_byte_count s < 188 \<or> s_availability s \<noteq> AvailabilityPartial \<or> \<not> s_file_synced s \<or>
            \<not> successful_reason (s_reason s) \<and> s_reason s \<noteq> ReasonUserRequestedStop \<and>
              (\<not> communication_partial_reason (s_reason s) \<or> s_byte_count s mod 188 \<noteq> 0)
         then Inl InvalidPublishableOneSeg else Inr ())
      else if \<not> valid_reason (s_reason s) then Inl MissingOneSegReason
      else if s_availability s \<notin> {AvailabilityPartial, AvailabilityMissing, AvailabilityMismatched}
      then Inl InvalidOneSegAvailability
      else if s_availability s = AvailabilityMissing \<and> s_byte_count s \<noteq> 0 then Inl MissingOneSegHasBytes
      else Inr ())"

definition one_seg_ok :: "one_seg_result option \<Rightarrow> bool" where
  "one_seg_ok s = (case s of None \<Rightarrow> True | Some x \<Rightarrow> is_ok (validate_one_seg_result x))"

record finalize_request =
  fz_quality :: quality_summary
  fz_attempt_id :: entity_id
  fz_token :: entity_id
  fz_byte_count :: int
  fz_state :: attempt_state
  fz_reason :: terminal_reason
  fz_now :: instant
  fz_one_seg :: "one_seg_result option"

definition validate_finalize :: "finalize_request \<Rightarrow> (result_error, unit) result" where
  "validate_finalize r =
     (if \<not> quality_valid (fz_quality r) \<or> fz_attempt_id r = 0 \<or> fz_token r = 0 \<or> fz_byte_count r < 188 \<or>
         \<not> utc_instant (fz_now r)
      then Inl InvalidFinalize
      else if (fz_state r \<noteq> AttemptSucceeded \<or> \<not> successful_reason (fz_reason r)) \<and>
              (fz_state r \<noteq> AttemptPartial \<or>
               fz_reason r \<noteq> ReasonUserRequestedStop \<and>
               (\<not> communication_partial_reason (fz_reason r) \<or> fz_byte_count r mod 188 \<noteq> 0))
      then Inl InvalidPlannedResult
      else if \<not> one_seg_ok (fz_one_seg r) then Inl InvalidOneSegFinalization
      else Inr ())"

record finish_request =
  fn_quality :: quality_summary
  fn_attempt_id :: entity_id
  fn_state :: attempt_state
  fn_reason :: terminal_reason
  fn_byte_count :: int
  fn_availability :: availability
  fn_recovered :: bool
  fn_now :: instant
  fn_one_seg :: "one_seg_result option"

text \<open>The switch of \<open>FinishRequest.Validate\<close> over the final state.\<close>

definition finish_combination :: "finish_request \<Rightarrow> (result_error, unit) result" where
  "finish_combination r =
     (if fn_state r = AttemptSucceeded then
        (if \<not> successful_reason (fn_reason r) \<or> fn_byte_count r < 188 \<or> fn_availability r \<noteq> AvailabilityFinal
         then Inl InvalidSuccessfulFinish else Inr ())
      else if fn_state r = AttemptPartial then
        (if fn_reason r = ReasonUserRequestedStop then
           (if fn_byte_count r < 188 \<or> fn_availability r \<noteq> AvailabilityFinal then Inl InvalidStoppedFinish else Inr ())
         else if fn_availability r = AvailabilityFinal \<and> communication_partial_reason (fn_reason r) then
           (if fn_byte_count r < 188 \<or> fn_byte_count r mod 188 \<noteq> 0 then Inl InvalidCommunicationFinish else Inr ())
         else if successful_reason (fn_reason r) \<or> fn_byte_count r < 188 \<or> fn_availability r \<noteq> AvailabilityPartial
         then Inl InvalidPartialFinish else Inr ())
      else if fn_state r \<in> {AttemptFailed, AttemptCancelled} then
        (if successful_reason (fn_reason r) \<or>
            fn_availability r \<noteq> AvailabilityPartial \<and> fn_availability r \<noteq> AvailabilityMissing \<and>
            fn_availability r \<noteq> AvailabilityMismatched
         then Inl InvalidUnsuccessfulFinish else Inr ())
      else if fn_state r = AttemptMissed then
        (if successful_reason (fn_reason r) \<or> fn_byte_count r \<noteq> 0 \<or> fn_availability r \<noteq> AvailabilityMissing
         then Inl InvalidEmptyFinish else Inr ())
      else Inl FinishStateNotTerminal)"

definition validate_finish :: "finish_request \<Rightarrow> (result_error, unit) result" where
  "validate_finish r =
     (if \<not> quality_valid (fn_quality r) \<or> fn_attempt_id r = 0 \<or> \<not> valid_reason (fn_reason r) \<or> fn_byte_count r < 0 \<or>
         \<not> utc_instant (fn_now r)
      then Inl InvalidFinish
      else if \<not> one_seg_ok (fn_one_seg r) then Inl InvalidOneSegFinish
      else finish_combination r)"

section \<open>History\<close>

record history_item =
  h_quality :: quality_summary
  h_token :: entity_id
  h_planned_state :: attempt_state
  h_planned_reason :: terminal_reason
  h_number :: int
  h_state :: attempt_state
  h_reason :: terminal_reason
  h_title :: bytes
  h_station_name :: bytes
  h_network_id :: u16
  h_transport_stream_id :: u16
  h_service_id :: u16
  h_event_id :: u16
  h_planned_start :: instant
  h_planned_end :: instant
  h_actual_start :: "instant option"
  h_actual_end :: "instant option"
  h_byte_count :: int
  h_plan :: file_plan
  h_segment_state :: segment_state
  h_availability :: availability
  h_file_synced :: bool
  h_final_published :: bool
  h_directory_synced :: bool

datatype history_error =
  InvalidHistory | IncompleteHistoryTime | InvalidActualTime | InvalidHistorySegment | InvalidHistoryAvailability

text \<open>The two switches that end \<open>HistoryItem.Validate\<close>.\<close>

definition history_switches :: "history_item \<Rightarrow> (history_error, unit) result" where
  "history_switches h =
     (if h_segment_state h \<notin> {SegmentPlanned, SegmentWriting, SegmentPartial, SegmentFinalized}
      then Inl InvalidHistorySegment
      else if h_availability h \<notin> {AvailabilityPlanned, AvailabilityPartial, AvailabilityFinal, AvailabilityMissing,
          AvailabilityMismatched}
      then Inl InvalidHistoryAvailability
      else Inr ())"

definition validate_history :: "history_item \<Rightarrow> (history_error, unit) result" where
  "validate_history h =
     (if \<not> quality_valid (h_quality h) \<or> h_number h < 1 \<or> \<not> terminal_attempt_state (h_state h) \<or>
         \<not> valid_reason (h_reason h) \<or> \<not> valid_text (h_title h) 0 4096 \<or> \<not> valid_text (h_station_name h) 0 4096 \<or>
         h_byte_count h < 0 \<or> is_zero_time (h_planned_start h) \<or> \<not> t_utc (h_planned_start h) \<or>
         \<not> t_utc (h_planned_end h) \<or> \<not> after_time (h_planned_end h) (h_planned_start h) \<or>
         sub_time (h_planned_end h) (h_planned_start h) > 24 * hour \<or> \<not> file_plan_valid (h_plan h)
      then Inl InvalidHistory
      else
        case (h_actual_start h, h_actual_end h) of
          (Some began, Some ended) \<Rightarrow>
            if \<not> t_utc began \<or> \<not> t_utc ended \<or> before_time ended began \<or> sub_time ended began > 24 * hour
            then Inl InvalidActualTime
            else history_switches h
        | (None, None) \<Rightarrow> history_switches h
        | _ \<Rightarrow> Inl IncompleteHistoryTime)"

definition playable :: "history_item \<Rightarrow> bool" where
  "playable h \<longleftrightarrow>
     (let completed = (h_state h = AttemptSucceeded \<and> successful_reason (h_reason h));
          user_stopped = (h_state h = AttemptPartial \<and> h_reason h = ReasonUserRequestedStop);
          communication = (h_state h = AttemptPartial \<and> communication_partial_reason (h_reason h) \<and>
            h_byte_count h mod 188 = 0 \<and> h_token h \<noteq> 0 \<and> h_planned_state h = h_state h \<and>
            h_planned_reason h = h_reason h)
      in is_ok (validate_history h) \<and> (completed \<or> user_stopped \<or> communication) \<and>
         (case (h_actual_start h, h_actual_end h) of
            (Some began, Some ended) \<Rightarrow> sub_time ended began \<ge> second
          | _ \<Rightarrow> False) \<and>
         h_byte_count h \<ge> 188 \<and> h_segment_state h = SegmentFinalized \<and> h_availability h = AvailabilityFinal \<and>
         h_file_synced h \<and> h_final_published h \<and> h_directory_synced h)"

section \<open>Facts that recovery compares\<close>

record file_fact =
  ff_exists :: bool
  ff_regular :: bool
  ff_size :: int

record file_observation =
  ob_partial :: file_fact
  ob_final :: file_fact
  ob_same_file :: bool
  ob_unsafe :: bool

record attempt =
  at_id :: entity_id
  at_reservation_id :: entity_id
  at_state :: attempt_state
  at_planned_start :: instant
  at_planned_end :: instant
  at_byte_count :: int
  at_plan :: file_plan
  at_one_seg_plan :: "file_plan option"

record recovery_segment =
  sg_quality :: quality_summary
  sg_plan :: file_plan
  sg_byte_count :: int
  sg_state :: segment_state
  sg_file_synced :: bool
  sg_final_published :: bool
  sg_directory_synced :: bool
  sg_availability :: availability
  sg_integrity_reason :: terminal_reason

record recovery_item =
  i_attempt :: attempt
  i_quality :: quality_summary
  i_token :: entity_id
  i_planned_state :: attempt_state
  i_planned_reason :: terminal_reason
  i_file_synced :: bool
  i_final_published :: bool
  i_directory_synced :: bool
  i_availability :: availability
  i_segment_state :: segment_state
  i_integrity_reason :: terminal_reason
  i_recovered :: bool
  i_one_seg :: "recovery_segment option"

section \<open>Lemmas\<close>

lemma reason_disjoint:
  "successful_reason x \<Longrightarrow> valid_reason x" "communication_partial_reason x \<Longrightarrow> valid_reason x"
  "communication_partial_reason x \<Longrightarrow> \<not> successful_reason x" "\<not> successful_reason ReasonUserRequestedStop"
  by (auto simp: successful_reason_def communication_partial_reason_def)

text \<open>The request that ends a recording whose finalization began with \<open>fz\<close> and whose final file is in place.\<close>

definition finish_of :: "finalize_request \<Rightarrow> bool \<Rightarrow> instant \<Rightarrow> finish_request" where
  "finish_of fz recovered now =
     \<lparr>fn_quality = fz_quality fz, fn_attempt_id = fz_attempt_id fz, fn_state = fz_state fz, fn_reason = fz_reason fz,
      fn_byte_count = fz_byte_count fz, fn_availability = AvailabilityFinal, fn_recovered = recovered, fn_now = now,
      fn_one_seg = None\<rparr>"

lemma finalize_result_cases:
  assumes "validate_finalize fz = Inr ()"
  shows "quality_valid (fz_quality fz)" "fz_attempt_id fz \<noteq> 0" "188 \<le> fz_byte_count fz"
    "fz_state fz = AttemptSucceeded \<and> successful_reason (fz_reason fz) \<or>
     fz_state fz = AttemptPartial \<and> (fz_reason fz = ReasonUserRequestedStop \<or>
       communication_partial_reason (fz_reason fz) \<and> fz_byte_count fz mod 188 = 0)"
  using assms by (auto simp: validate_finalize_def split: if_splits)

text \<open>The result a recording announces when it begins to finalize is one it can finish
  with: once its final file is available, finishing with the same state, reason and byte count is accepted, whenever
  that happens.
\<close>

theorem finalize_can_finish:
  assumes "validate_finalize fz = Inr ()" "utc_instant now"
  shows "validate_finish (finish_of fz recovered now) = Inr ()"
  using finalize_result_cases [OF assms(1)] assms(2)
  by (auto simp: validate_finish_def finish_of_def one_seg_ok_def finish_combination_def reason_disjoint)

definition sample_finalize :: finalize_request where
  "sample_finalize = \<lparr>fz_quality = zero_quality, fz_attempt_id = 1, fz_token = 2, fz_byte_count = 376,
     fz_state = AttemptPartial, fz_reason = ReasonStreamTimeout, fz_now = \<lparr>t_nanos = second, t_utc = True\<rparr>,
     fz_one_seg = None\<rparr>"

lemma sample_instant: "utc_instant \<lparr>t_nanos = second, t_utc = True\<rparr>"
  by (simp add: utc_instant_def is_zero_time_def zero_nanos_def unix_milli_def)

lemma zero_quality_valid: "quality_valid zero_quality"
  by (simp add: zero_quality_def quality_valid_def quality_counters_def)

theorem finalize_can_finish_witness:
  "validate_finish (finish_of sample_finalize True \<lparr>t_nanos = second, t_utc = True\<rparr>) = Inr ()"
  by (rule finalize_can_finish)
    (simp_all add: sample_finalize_def validate_finalize_def zero_quality_valid sample_instant communication_partial_reason_def
      one_seg_ok_def)

section \<open>The span of a recording\<close>

text \<open>A new reservation that validates is planned to run for a positive whole number of
  seconds, at most 24 hours, and starts no earlier than the epoch, whatever margins were chosen.
\<close>

theorem planned_span_bounded:
  assumes "validate_new r = Inr ()"
  shows "second \<le> sub_time (planned_end r) (planned_start r) \<and> sub_time (planned_end r) (planned_start r) \<le> 24 * hour \<and>
    sub_time (planned_end r) (planned_start r) mod second = 0 \<and> 0 \<le> t_nanos (planned_start r)"
proof -
  define eff where "eff = effective_margins (r_margins r)"
  define p where "p = r_program r"
  have ok: "reservation_time_ok r" 
  proof (rule ccontr)
    assume "\<not> reservation_time_ok r"
    then have "validate_new r \<noteq> Inr ()" by (simp add: validate_new_def Let_def)
    then show False using assms by simp
  qed
  then have program: "program_time_valid (p_start p) (p_duration p)"
    and recording: "recording_time_valid (p_start p) (p_duration p) (r_margins r)"
    by (simp_all add: reservation_time_ok_def p_def)
  have planned: "planned_start r = add_duration (p_start p) (- m_start eff)"
    "planned_end r = add_duration (add_duration (p_start p) (p_duration p)) (m_end eff)"
    by (simp_all add: planned_start_def planned_end_def eff_def p_def)
  have "p_duration p mod second = 0" using program unfolding program_time_valid_def by blast
  moreover have "m_start eff mod second = 0" "m_end eff mod second = 0" "\<not> unix_milli (planned_start r) < 0"
    "after_time (planned_end r) (planned_start r)" "\<not> sub_time (planned_end r) (planned_start r) > 24 * hour"
    using recording unfolding recording_time_valid_def Let_def planned eff_def [symmetric] by blast+
  ultimately have times: "p_duration p mod second = 0" "m_start eff mod second = 0" "m_end eff mod second = 0"
    "\<not> unix_milli (planned_start r) < 0" "after_time (planned_end r) (planned_start r)"
    "sub_time (planned_end r) (planned_start r) \<le> 24 * hour"
    by simp_all
  have span: "sub_time (planned_end r) (planned_start r) = p_duration p + m_end eff + m_start eff"
    by (simp add: sub_time_def planned_start_def planned_end_def add_duration_def eff_def p_def)
  have whole: "sub_time (planned_end r) (planned_start r) mod second = 0"
    using times(1-3) unfolding span mod_eq_0_iff_dvd by (intro dvd_add)
  moreover have "0 < sub_time (planned_end r) (planned_start r)"
    using times(5) by (simp add: after_time_def sub_time_def)
  ultimately have "second \<le> sub_time (planned_end r) (planned_start r)"
    using zdvd_imp_le [of second] unfolding mod_eq_0_iff_dvd by blast
  moreover have "0 \<le> t_nanos (planned_start r)"
    using times(4) by (simp add: unix_milli_def not_less pos_imp_zdiv_nonneg_iff)
  ultimately show ?thesis using whole times(6) by simp
qed

theorem planned_span_bounded_witness:
  "second \<le> sub_time (planned_end (sample_reservation\<lparr>r_number := 0\<rparr>)) (planned_start (sample_reservation\<lparr>r_number := 0\<rparr>))"
proof -
  have "program_text_ok sample_program"
    by (simp add: program_text_ok_def valid_text_def sample_program_def text_eval)
  moreover have "reservation_time_ok (sample_reservation\<lparr>r_number := 0\<rparr>)"
    by (simp add: reservation_time_ok_def sample_reservation_def sample_program_def program_time_valid_def utc_instant_def
        is_zero_time_def zero_nanos_def unix_milli_def recording_time_valid_def effective_margins_def add_duration_def
        after_time_def sub_time_def output_settings_valid_def component_mode_valid_def post_recording_valid_def
        post_recording_mode_valid_def)
  ultimately have "validate_new (sample_reservation\<lparr>r_number := 0\<rparr>) = Inr ()"
    by (simp add: validate_new_def reservation_new_state_ok_def sample_reservation_def sample_program_def Let_def
        is_zero_time_def zero_nanos_def unix_milli_def)
  from planned_span_bounded [OF this] show ?thesis by simp
qed

end
