(* ===== verification/Effects.thy ===== *)
theory Effects
  imports Prelude
begin

text \<open>
  Code that calls its environment: a state-passing action that fails or returns a value, its sequencing, and
  triples over it.  A triple says what holds of the state when the action returns and, separately, when it fails,
  so that facts about everything an action did, on every path, can be proved by going through its text.
\<close>

type_synonym ('s, 'e, 'a) act = "'s \<Rightarrow> ('e, 'a) result \<times> 's"

definition act_return :: "'a \<Rightarrow> ('s, 'e, 'a) act" where
  "act_return x s = (Inr x, s)"

definition act_fail :: "'e \<Rightarrow> ('s, 'e, 'a) act" where
  "act_fail e s = (Inl e, s)"

definition act_bind :: "('s, 'e, 'a) act \<Rightarrow> ('a \<Rightarrow> ('s, 'e, 'b) act) \<Rightarrow> ('s, 'e, 'b) act" where
  "act_bind m f s = (case m s of (Inl e, s') \<Rightarrow> (Inl e, s') | (Inr x, s') \<Rightarrow> f x s')"

definition act_seq :: "('s, 'e, unit) act \<Rightarrow> ('s, 'e, 'b) act \<Rightarrow> ('s, 'e, 'b) act" where
  "act_seq m k = act_bind m (\<lambda>_. k)"

text \<open>Reading and changing the state of the environment; \<open>act_when\<close> runs an action under a condition.\<close>

definition act_get :: "('s \<Rightarrow> 'a) \<Rightarrow> ('s, 'e, 'a) act" where
  "act_get f s = (Inr (f s), s)"

definition act_modify :: "('s \<Rightarrow> 's) \<Rightarrow> ('s, 'e, unit) act" where
  "act_modify f s = (Inr (), f s)"

definition act_when :: "bool \<Rightarrow> ('s, 'e, unit) act \<Rightarrow> ('s, 'e, unit) act" where
  "act_when c m = (if c then m else act_return ())"

definition act_require :: "bool \<Rightarrow> 'e \<Rightarrow> ('s, 'e, unit) act" where
  "act_require c e = (if c then act_return () else act_fail e)"

primrec act_each :: "('a \<Rightarrow> ('s, 'e, unit) act) \<Rightarrow> 'a list \<Rightarrow> ('s, 'e, unit) act" where
  "act_each f [] = act_return ()"
| "act_each f (x # xs) = act_seq (f x) (act_each f xs)"

section \<open>Triples\<close>

definition outcomes ::
    "('s \<Rightarrow> bool) \<Rightarrow> ('s, 'e, 'a) act \<Rightarrow> ('a \<Rightarrow> 's \<Rightarrow> bool) \<Rightarrow> ('e \<Rightarrow> 's \<Rightarrow> bool) \<Rightarrow> bool" where
  "outcomes P m Q E \<longleftrightarrow> (\<forall>s. P s \<longrightarrow> (case m s of (Inl e, s') \<Rightarrow> E e s' | (Inr x, s') \<Rightarrow> Q x s'))"

text \<open>The triple that asks the same of every failure.\<close>

abbreviation triple :: "('s \<Rightarrow> bool) \<Rightarrow> ('s, 'e, 'a) act \<Rightarrow> ('a \<Rightarrow> 's \<Rightarrow> bool) \<Rightarrow> ('s \<Rightarrow> bool) \<Rightarrow> bool" where
  "triple P m Q E \<equiv> outcomes P m Q (\<lambda>_. E)"

lemmas triple_def = outcomes_def

named_theorems triple_rules \<open>the rules of triples, for \<open>intro\<close>\<close>

lemma tripleI:
  assumes "\<And>s e s'. P s \<Longrightarrow> m s = (Inl e, s') \<Longrightarrow> E e s'" "\<And>s x s'. P s \<Longrightarrow> m s = (Inr x, s') \<Longrightarrow> Q x s'"
  shows "outcomes P m Q E"
  using assms by (auto simp: triple_def split: prod.split sum.split)

lemma tripleD:
  assumes "outcomes P m Q E" "P s"
  shows "m s = (Inl e, s') \<Longrightarrow> E e s'" "m s = (Inr x, s') \<Longrightarrow> Q x s'"
  using assms by (auto simp: triple_def dest!: spec [of _ s])

lemma triple_bind [triple_rules]:
  assumes "outcomes P m B E" "\<And>x. outcomes (B x) (f x) Q E"
  shows "outcomes P (act_bind m f) Q E"
proof (unfold triple_def, intro allI impI)
  fix s assume "P s"
  then have first: "case m s of (Inl e, s') \<Rightarrow> E e s' | (Inr x, s') \<Rightarrow> B x s'" using assms(1) by (simp add: triple_def)
  obtain r s1 where m: "m s = (r, s1)" by fastforce
  show "case act_bind m f s of (Inl e, s') \<Rightarrow> E e s' | (Inr x, s') \<Rightarrow> Q x s'"
  proof (cases r)
    case (Inl e)
    then show ?thesis using first by (simp add: act_bind_def m)
  next
    case (Inr x)
    then have "B x s1" using first by (simp add: m)
    then show ?thesis using assms(2) [of x] Inr by (simp add: act_bind_def m triple_def)
  qed
qed

lemma triple_seq [triple_rules]:
  assumes "outcomes P m (\<lambda>_. B) E" "outcomes B k Q E"
  shows "outcomes P (act_seq m k) Q E"
  unfolding act_seq_def using assms by (intro triple_bind)

lemma triple_return [triple_rules]: "outcomes (Q x) (act_return x) Q E"
  by (simp add: triple_def act_return_def)

lemma triple_fail [triple_rules]: "outcomes (E e) (act_fail e) Q E"
  by (simp add: triple_def act_fail_def)

lemma triple_pre:
  assumes "outcomes P' m Q E" "\<And>s. P s \<Longrightarrow> P' s"
  shows "outcomes P m Q E"
  using assms by (auto simp: triple_def)

lemma triple_post:
  assumes "outcomes P m Q' E" "\<And>x s. Q' x s \<Longrightarrow> Q x s"
  shows "outcomes P m Q E"
  using assms by (fastforce simp: triple_def split: prod.split sum.split)

lemma triple_failure:
  assumes "outcomes P m Q E'" "\<And>e s. E' e s \<Longrightarrow> E e s"
  shows "outcomes P m Q E"
  using assms by (fastforce simp: outcomes_def split: prod.split sum.split)

lemma triple_if [triple_rules]:
  assumes "c \<Longrightarrow> outcomes P m Q E" "\<not> c \<Longrightarrow> outcomes P k Q E"
  shows "outcomes P (if c then m else k) Q E"
  using assms by simp

lemma triple_option [triple_rules]:
  assumes "x = None \<Longrightarrow> outcomes P m Q E" "\<And>y. x = Some y \<Longrightarrow> outcomes P (f y) Q E"
  shows "outcomes P (case x of None \<Rightarrow> m | Some y \<Rightarrow> f y) Q E"
  using assms by (cases x) simp_all

lemma triple_each:
  assumes "\<And>x. x \<in> set xs \<Longrightarrow> outcomes P (f x) (\<lambda>_. P) E"
  shows "outcomes P (act_each f xs) (\<lambda>_. P) E"
  using assms by (induction xs) (auto intro!: triple_seq triple_return)

text \<open>An invariant that holds on every path, with the success of a condition remembered.\<close>

lemma triple_when [triple_rules]:
  assumes "c \<Longrightarrow> outcomes P m (\<lambda>_. Q) E" "\<not> c \<Longrightarrow> \<forall>s. P s \<longrightarrow> Q s"
  shows "outcomes P (act_when c m) (\<lambda>_. Q) E"
  using assms by (auto simp: act_when_def triple_def act_return_def)

lemma triple_require [triple_rules]:
  assumes "c \<Longrightarrow> \<forall>s. P s \<longrightarrow> Q s" "\<not> c \<Longrightarrow> \<forall>s. P s \<longrightarrow> E e s"
  shows "outcomes P (act_require c e) (\<lambda>_. Q) E"
  using assms by (auto simp: act_require_def triple_def act_return_def act_fail_def)

lemma triple_pure:
  assumes "\<And>s. P s \<Longrightarrow> C" "C \<Longrightarrow> outcomes P m Q E"
  shows "outcomes P m Q E"
  using assms by (auto simp: triple_def)

lemma triple_invariant:
  assumes "triple I m (\<lambda>_. I) I" "I s"
  shows "I (snd (m s))"
  using assms by (cases "m s"; cases "fst (m s)") (auto simp: triple_def)

end
