(* ===== verification/Recovery.thy ===== *)
theory Recovery
  imports RecordingResults Effects
begin

text \<open>
  \<open>internal/app/recording/recovery.go\<close>: at start the stored state of every open or published recording is compared
  with its files, and the recording is finished, or its publication completed, or its availability corrected.  The
  store, the files and the clock are parameters: a record of functions on a world.  Everything recovery asks of them
  is also written to a log, together with the answer, so that the order of its steps can be stated.
  \<open>validateRecoveryValues\<close> and \<open>validateRecoverySegment\<close> of the store say which items recovery is given.
\<close>

section \<open>What the store hands over\<close>

text \<open>\<open>internal/adapters/sqlite/recording_recovery_repository.go\<close>; the integers of the row stand beside the item.\<close>

definition flag_values :: "int \<Rightarrow> bool" where
  "flag_values n \<longleftrightarrow> n = 0 \<or> n = 1"

definition finalization_plan_ok :: "recovery_item \<Rightarrow> int \<Rightarrow> bool" where
  "finalization_plan_ok item byte_count \<longleftrightarrow>
     (let state = at_state (i_attempt item); planned = i_planned_state item; reason = i_planned_reason item;
          normal = (planned = AttemptSucceeded \<and> (reason = ReasonCompleted \<or> reason = ReasonCompletedAfterReconnect));
          stopped = (planned = AttemptPartial \<and> reason = ReasonUserRequestedStop);
          communication = (planned = AttemptPartial \<and> communication_partial_reason reason \<and> byte_count mod 188 = 0)
      in \<not> (\<not> normal \<and> \<not> stopped \<and> \<not> communication) \<and>
         \<not> (state = AttemptSucceeded \<and> \<not> normal \<or> state = AttemptPartial \<and> \<not> stopped \<and> \<not> communication))"

definition recovery_values_ok ::
    "recovery_item \<Rightarrow> int \<Rightarrow> int \<Rightarrow> int \<Rightarrow> int \<Rightarrow> int \<Rightarrow> int \<Rightarrow> int \<Rightarrow> int \<Rightarrow> nat \<Rightarrow> bool" where
  "recovery_values_ok item start_ms end_ms byte_count main_byte_count recovered synced published directory token_bytes \<longleftrightarrow>
     (let state = at_state (i_attempt item);
          final = (state = AttemptFinalizing \<or> state = AttemptSucceeded \<or> state = AttemptPartial);
          settled = (state = AttemptSucceeded \<or> state = AttemptPartial)
      in \<not> (start_ms < 0 \<or> end_ms \<le> start_ms \<or> byte_count < 0 \<or> main_byte_count < 0 \<or> byte_count \<noteq> main_byte_count \<or>
            \<not> file_plan_valid (at_plan (i_attempt item)) \<or> \<not> quality_valid (i_quality item) \<or>
            \<not> flag_values recovered \<or> \<not> flag_values synced \<or> \<not> flag_values published \<or> \<not> flag_values directory) \<and>
         state \<in> {AttemptClaimed, AttemptStarting, AttemptRecording, AttemptFinalizing, AttemptSucceeded, AttemptPartial} \<and>
         i_availability item \<in> {AvailabilityPlanned, AvailabilityPartial, AvailabilityFinal, AvailabilityMissing,
           AvailabilityMismatched} \<and>
         i_segment_state item \<in> {SegmentPlanned, SegmentWriting, SegmentPartial, SegmentFinalized} \<and>
         \<not> (final \<and> (synced \<noteq> 1 \<or> token_bytes \<noteq> 16 \<or> byte_count < 188)) \<and>
         \<not> (directory = 1 \<and> published \<noteq> 1 \<or> published = 1 \<and> synced \<noteq> 1) \<and>
         \<not> (settled \<and> (published \<noteq> 1 \<or> directory \<noteq> 1)) \<and>
         \<not> (state = AttemptFinalizing \<and>
            \<not> (i_segment_state item = SegmentPartial \<and> i_availability item = AvailabilityPartial) \<and>
            \<not> (i_segment_state item = SegmentFinalized \<and> i_availability item = AvailabilityFinal \<and> synced = 1 \<and>
               published = 1 \<and> directory = 1 \<and> i_integrity_reason item = no_reason)) \<and>
         \<not> (settled \<and> i_availability item \<noteq> AvailabilityFinal \<and> i_availability item \<noteq> AvailabilityMissing \<and>
            i_availability item \<noteq> AvailabilityMismatched) \<and>
         \<not> (\<not> final \<and> (token_bytes \<noteq> 0 \<or> synced \<noteq> 0 \<or> published \<noteq> 0 \<or> directory \<noteq> 0)) \<and>
         (final \<longrightarrow> finalization_plan_ok item byte_count))"

definition recovery_segment_ok :: "recovery_segment \<Rightarrow> int \<Rightarrow> int \<Rightarrow> int \<Rightarrow> bool" where
  "recovery_segment_ok g synced published directory \<longleftrightarrow>
     \<not> (\<not> quality_valid (sg_quality g) \<or> \<not> file_plan_valid (sg_plan g) \<or> sg_byte_count g < 0 \<or>
        \<not> flag_values synced \<or> \<not> flag_values published \<or> \<not> flag_values directory) \<and>
     sg_state g \<in> {SegmentPlanned, SegmentWriting, SegmentPartial, SegmentFinalized} \<and>
     sg_availability g \<in> {AvailabilityPlanned, AvailabilityPartial, AvailabilityFinal, AvailabilityMissing,
       AvailabilityMismatched} \<and>
     \<not> (directory = 1 \<and> published \<noteq> 1 \<or> published = 1 \<and> synced \<noteq> 1) \<and>
     \<not> (sg_availability g = AvailabilityFinal \<and> (sg_state g \<noteq> SegmentFinalized \<or> synced \<noteq> 1 \<or> published \<noteq> 1 \<or>
        directory \<noteq> 1 \<or> sg_integrity_reason g \<noteq> no_reason)) \<and>
     \<not> (sg_availability g = AvailabilityPlanned \<and> sg_state g \<noteq> SegmentPlanned \<and> sg_state g \<noteq> SegmentWriting) \<and>
     (let candidate = (sg_availability g = AvailabilityPartial \<and> sg_state g = SegmentPartial \<and> synced = 1 \<and>
            sg_integrity_reason g = no_reason)
      in \<not> (sg_availability g \<noteq> AvailabilityPlanned \<and> sg_availability g \<noteq> AvailabilityFinal \<and> \<not> candidate \<and>
            \<not> valid_reason (sg_integrity_reason g)))"

section \<open>The decisions\<close>

definition invalid_fact :: "file_fact \<Rightarrow> bool" where
  "invalid_fact f \<longleftrightarrow> ff_exists f \<and> (\<not> ff_regular f \<or> ff_size f < 0)"

definition unusable :: "file_observation \<Rightarrow> bool" where
  "unusable ob \<longleftrightarrow> ob_unsafe ob \<or> invalid_fact (ob_partial ob) \<or> invalid_fact (ob_final ob)"

definition interrupted_quality :: "quality_summary \<Rightarrow> quality_summary" where
  "interrupted_quality q = (if q_status q \<noteq> QualityDegraded then q\<lparr>q_status := QualityUnknown\<rparr> else q)"

abbreviation unset_time :: instant where
  "unset_time \<equiv> \<lparr>t_nanos = zero_nanos, t_utc = True\<rparr>"

definition interrupted_main_result :: "recovery_item \<Rightarrow> file_observation \<Rightarrow> finish_request" where
  "interrupted_main_result item ob =
     (let finish = \<lparr>fn_quality = interrupted_quality (i_quality item), fn_attempt_id = at_id (i_attempt item),
            fn_state = AttemptFailed, fn_reason = ReasonProcessInterrupted, fn_byte_count = 0,
            fn_availability = AvailabilityMissing, fn_recovered = True, fn_now = unset_time, fn_one_seg = None\<rparr>
      in
        if unusable ob \<or> ff_exists (ob_final ob) then
          finish\<lparr>fn_reason := ReasonFileIntegrityMismatch, fn_byte_count := at_byte_count (i_attempt item),
            fn_availability := AvailabilityMismatched\<rparr>
        else if ff_exists (ob_partial ob) then
          finish\<lparr>fn_byte_count := ff_size (ob_partial ob), fn_availability := AvailabilityPartial,
            fn_state := (if ff_size (ob_partial ob) \<ge> 188 then AttemptPartial else AttemptFailed)\<rparr>
        else finish)"

definition one_seg_interrupted_result ::
    "recovery_segment \<Rightarrow> file_observation \<Rightarrow> terminal_reason \<Rightarrow> one_seg_result" where
  "one_seg_interrupted_result g ob reason =
     (let result = \<lparr>s_quality = sg_quality g, s_byte_count = 0, s_availability = AvailabilityMissing, s_reason = reason,
            s_file_synced = False, s_publish = False\<rparr>
      in
        if unusable ob \<or> ff_exists (ob_final ob) then
          result\<lparr>s_byte_count := sg_byte_count g, s_availability := AvailabilityMismatched,
            s_reason := ReasonFileIntegrityMismatch\<rparr>
        else if ff_exists (ob_partial ob) then
          result\<lparr>s_byte_count := ff_size (ob_partial ob), s_availability := AvailabilityPartial\<rparr>
        else if sg_availability g = AvailabilityMismatched then
          result\<lparr>s_availability := AvailabilityMismatched, s_reason := ReasonFileIntegrityMismatch\<rparr>
        else result)"

definition finalization_failure :: "recovery_item \<Rightarrow> terminal_reason \<Rightarrow> availability \<Rightarrow> finish_request" where
  "finalization_failure item reason avail =
     \<lparr>fn_quality = i_quality item, fn_attempt_id = at_id (i_attempt item), fn_state = AttemptFailed, fn_reason = reason,
      fn_byte_count = at_byte_count (i_attempt item), fn_availability = avail, fn_recovered = True,
      fn_now = unset_time, fn_one_seg = None\<rparr>"

definition one_seg_mismatch :: "int \<Rightarrow> quality_summary \<Rightarrow> one_seg_result" where
  "one_seg_mismatch n q =
     \<lparr>s_quality = q, s_byte_count = n, s_availability = AvailabilityMismatched, s_reason = ReasonFileIntegrityMismatch,
      s_file_synced = False, s_publish = False\<rparr>"

definition one_seg_missing :: "quality_summary \<Rightarrow> one_seg_result" where
  "one_seg_missing q =
     \<lparr>s_quality = q, s_byte_count = 0, s_availability = AvailabilityMissing, s_reason = ReasonFileMissing,
      s_file_synced = False, s_publish = False\<rparr>"

definition one_seg_left_partial :: "recovery_segment \<Rightarrow> terminal_reason \<Rightarrow> one_seg_result" where
  "one_seg_left_partial g reason =
     \<lparr>s_quality = sg_quality g, s_byte_count = sg_byte_count g, s_availability = AvailabilityPartial, s_reason = reason,
      s_file_synced = sg_file_synced g, s_publish = False\<rparr>"

definition completed_availability :: "int \<Rightarrow> file_observation \<Rightarrow> availability \<times> terminal_reason" where
  "completed_availability n ob =
     (if unusable ob then (AvailabilityMismatched, ReasonFileIntegrityMismatch)
      else if \<not> ff_exists (ob_final ob) then
        (if ff_exists (ob_partial ob) then (AvailabilityMismatched, ReasonFileIntegrityMismatch)
         else (AvailabilityMissing, ReasonFileMissing))
      else if ff_size (ob_final ob) \<noteq> n \<or> ff_exists (ob_partial ob)
      then (AvailabilityMismatched, ReasonFileIntegrityMismatch)
      else (AvailabilityFinal, no_reason))"

definition settled_one_seg_availability :: "recovery_segment \<Rightarrow> file_observation \<Rightarrow> availability \<times> terminal_reason" where
  "settled_one_seg_availability g ob =
     (if sg_state g = SegmentFinalized \<or> sg_availability g = AvailabilityFinal
      then completed_availability (sg_byte_count g) ob
      else if sg_availability g = AvailabilityMismatched then (AvailabilityMismatched, ReasonFileIntegrityMismatch)
      else if unusable ob \<or> ff_exists (ob_final ob) \<or>
              ff_exists (ob_partial ob) \<and> ff_size (ob_partial ob) \<noteq> sg_byte_count g
      then (AvailabilityMismatched, ReasonFileIntegrityMismatch)
      else if ff_exists (ob_partial ob) then (AvailabilityPartial, sg_integrity_reason g)
      else if sg_availability g = AvailabilityMissing \<and> valid_reason (sg_integrity_reason g)
      then (AvailabilityMissing, sg_integrity_reason g)
      else (AvailabilityMissing, ReasonFileMissing))"

section \<open>The environment\<close>

datatype recovery_call =
  SyncDirectory file_plan
  | RemovePartial file_plan
  | MarkFinalPublished entity_id instant
  | MarkDirectorySynced entity_id instant
  | MarkOneSegFinalPublished entity_id instant
  | MarkOneSegDirectorySynced entity_id instant
  | SetOneSegOutcome entity_id one_seg_result instant
  | FinishAttempt finish_request
  | SetRecordingAvailability entity_id availability terminal_reason instant
  | SetOneSegAvailability entity_id availability terminal_reason instant

text \<open>
  The answer to a link is nothing when it succeeded, otherwise whether the error is \<open>ErrUnsupported\<close> and whether it
  is \<open>ErrFinalExists\<close>.
\<close>

record 'w recovery_env =
  re_page :: "nat \<Rightarrow> entity_id \<Rightarrow> 'w \<Rightarrow> recovery_item list option \<times> 'w"
  re_inspect :: "file_plan \<Rightarrow> 'w \<Rightarrow> file_observation option \<times> 'w"
  re_link :: "file_plan \<Rightarrow> 'w \<Rightarrow> (bool \<times> bool) option \<times> 'w"
  re_call :: "recovery_call \<Rightarrow> 'w \<Rightarrow> bool \<times> 'w"
  re_now :: "'w \<Rightarrow> instant \<times> 'w"

datatype recovery_event =
  Inspected file_plan "file_observation option"
  | Linked file_plan bool
  | Called recovery_call bool

record 'w recovery_run =
  rr_world :: 'w
  rr_log :: "recovery_event list"

datatype recovery_error =
  ReadRecoveryPage | InspectRecoveryFile | InspectOneSegFile | FinishInterrupted | FinishInvalidFinalization
  | FinishRecoveredPublication | ResumeFinalPublication | RecordPublication | SyncPublication | RemovePartialName
  | SyncPartialRemoval | RecordDirectorySync | RecordOneSegPublication | RecordOneSegDirectorySync | SaveOneSegOutcome
  | UpdateAvailability | UpdateOneSegAvailability

type_synonym ('w, 'a) recover = "('w recovery_run, recovery_error, 'a) act"

definition do_now :: "'w recovery_env \<Rightarrow> ('w, instant) recover" where
  "do_now env s = (case re_now env (rr_world s) of (t, w) \<Rightarrow> (Inr (in_utc t), s\<lparr>rr_world := w\<rparr>))"

definition do_call :: "'w recovery_env \<Rightarrow> recovery_call \<Rightarrow> ('w, bool) recover" where
  "do_call env c s =
     (case re_call env c (rr_world s) of
        (good, w) \<Rightarrow> (Inr good, s\<lparr>rr_world := w, rr_log := rr_log s @ [Called c good]\<rparr>))"

definition must_call :: "'w recovery_env \<Rightarrow> recovery_call \<Rightarrow> recovery_error \<Rightarrow> ('w, unit) recover" where
  "must_call env c e = act_bind (do_call env c) (\<lambda>good. act_require good e)"

definition do_link :: "'w recovery_env \<Rightarrow> file_plan \<Rightarrow> ('w, (bool \<times> bool) option) recover" where
  "do_link env plan s =
     (case re_link env plan (rr_world s) of
        (answer, w) \<Rightarrow> (Inr answer, s\<lparr>rr_world := w, rr_log := rr_log s @ [Linked plan (answer = None)]\<rparr>))"

definition do_inspect :: "'w recovery_env \<Rightarrow> file_plan \<Rightarrow> recovery_error \<Rightarrow> ('w, file_observation) recover" where
  "do_inspect env plan e s =
     (case re_inspect env plan (rr_world s) of
        (answer, w) \<Rightarrow>
          (case answer of None \<Rightarrow> Inl e | Some ob \<Rightarrow> Inr ob,
           s\<lparr>rr_world := w, rr_log := rr_log s @ [Inspected plan answer]\<rparr>))"

definition do_page :: "'w recovery_env \<Rightarrow> nat \<Rightarrow> entity_id \<Rightarrow> ('w, recovery_item list) recover" where
  "do_page env limit after s =
     (case re_page env limit after (rr_world s) of
        (answer, w) \<Rightarrow>
          (case answer of None \<Rightarrow> Inl ReadRecoveryPage | Some items \<Rightarrow> Inr items, s\<lparr>rr_world := w\<rparr>))"

text \<open>A store call stamped with the time it is made at.\<close>

definition call_now :: "'w recovery_env \<Rightarrow> (instant \<Rightarrow> recovery_call) \<Rightarrow> recovery_error \<Rightarrow> ('w, unit) recover" where
  "call_now env c e = act_bind (do_now env) (\<lambda>t. must_call env (c t) e)"

section \<open>Recovery of the main recording\<close>

definition inspect_one_seg :: "'w recovery_env \<Rightarrow> recovery_item \<Rightarrow> ('w, file_observation option) recover" where
  "inspect_one_seg env item =
     (case i_one_seg item of
        None \<Rightarrow> act_return None
      | Some g \<Rightarrow> act_bind (do_inspect env (sg_plan g) InspectOneSegFile) (\<lambda>ob. act_return (Some ob)))"

definition finish_interrupted ::
    "'w recovery_env \<Rightarrow> recovery_item \<Rightarrow> file_observation \<Rightarrow> file_observation option \<Rightarrow> ('w, unit) recover" where
  "finish_interrupted env item ob one_seg_ob =
     act_bind (do_now env) (\<lambda>t.
       let finish = (interrupted_main_result item ob)\<lparr>fn_now := t\<rparr>;
           finish' =
             (case (i_one_seg item, one_seg_ob) of
                (Some g, Some gob) \<Rightarrow>
                  finish\<lparr>fn_one_seg := Some (one_seg_interrupted_result
                    (g\<lparr>sg_quality := interrupted_quality (sg_quality g)\<rparr>) gob ReasonProcessInterrupted)\<rparr>
              | _ \<Rightarrow> finish)
       in must_call env (FinishAttempt finish') FinishInterrupted)"

definition complete_main_publication :: "'w recovery_env \<Rightarrow> recovery_item \<Rightarrow> bool \<Rightarrow> ('w, unit) recover" where
  "complete_main_publication env item remove =
     (let plan = at_plan (i_attempt item) in
      act_seq (must_call env (SyncDirectory plan) SyncPublication)
        (act_seq
          (act_when remove
            (act_seq (must_call env (RemovePartial plan) RemovePartialName)
              (must_call env (SyncDirectory plan) SyncPartialRemoval)))
          (act_when (\<not> i_directory_synced item)
            (call_now env (MarkDirectorySynced (at_id (i_attempt item))) RecordDirectorySync))))"

definition recover_main_finalization ::
    "'w recovery_env \<Rightarrow> recovery_item \<Rightarrow> file_observation \<Rightarrow> ('w, finish_request option) recover" where
  "recover_main_finalization env item ob =
     (let plan = at_plan (i_attempt item); n = at_byte_count (i_attempt item); ident = at_id (i_attempt item);
          failed = (\<lambda>reason avail. act_return (Some (finalization_failure item reason avail)));
          mismatch = failed ReasonFileIntegrityMismatch AvailabilityMismatched;
          mark = call_now env (MarkFinalPublished ident) RecordPublication;
          complete = (\<lambda>remove. act_seq (complete_main_publication env item remove) (act_return None));
          has_partial = ff_exists (ob_partial ob); has_final = ff_exists (ob_final ob);
          partial_matches = (has_partial \<and> ff_size (ob_partial ob) = n);
          final_matches = (has_final \<and> ff_size (ob_final ob) = n)
      in
        if i_token item = 0 \<or> n < 188 \<or> \<not> i_file_synced item then mismatch
        else if unusable ob then mismatch
        else if has_partial \<and> \<not> partial_matches \<or> has_final \<and> \<not> final_matches then mismatch
        else if partial_matches \<and> \<not> has_final \<and> \<not> i_final_published item \<and> \<not> i_directory_synced item then
          act_bind (do_link env plan) (\<lambda>answer.
            case answer of
              Some (unsupported, _) \<Rightarrow>
                if unsupported then failed ReasonFinalPublicationFailed AvailabilityPartial
                else act_fail ResumeFinalPublication
            | None \<Rightarrow> act_seq mark (complete True))
        else if partial_matches \<and> final_matches \<and> ob_same_file ob \<and> \<not> i_directory_synced item then
          act_seq (act_when (\<not> i_final_published item) mark) (complete True)
        else if \<not> has_partial \<and> final_matches then
          (if \<not> i_final_published item then
             (if i_directory_synced item \<or> i_segment_state item \<noteq> SegmentPartial \<or>
                 i_availability item \<noteq> AvailabilityPartial \<or> i_integrity_reason item \<noteq> no_reason
              then mismatch
              else act_seq mark (complete False))
           else complete False)
        else if \<not> has_partial \<and> \<not> has_final then failed ReasonFileMissing AvailabilityMissing
        else mismatch)"

section \<open>Recovery of the one-seg recording\<close>

definition save_one_seg_outcome :: "'w recovery_env \<Rightarrow> entity_id \<Rightarrow> one_seg_result \<Rightarrow> ('w, unit) recover" where
  "save_one_seg_outcome env ident result = call_now env (SetOneSegOutcome ident result) SaveOneSegOutcome"

definition save_publication_failure ::
    "'w recovery_env \<Rightarrow> entity_id \<Rightarrow> recovery_segment \<Rightarrow> bool \<Rightarrow> ('w, unit) recover" where
  "save_publication_failure env ident g final_exists =
     save_one_seg_outcome env ident
       (if final_exists
        then (one_seg_left_partial g ReasonFinalPublicationFailed)
          \<lparr>s_availability := AvailabilityMismatched, s_reason := ReasonFinalNameConflict\<rparr>
        else one_seg_left_partial g ReasonFinalPublicationFailed)"

text \<open>
  The steps that two functions share: sync the directory, remove the partial name, sync again; a failure of a step
  ends with the segment left partial for the reason of that step.
\<close>

definition remove_one_seg_partial ::
    "'w recovery_env \<Rightarrow> entity_id \<Rightarrow> recovery_segment \<Rightarrow> ('w, unit) recover \<Rightarrow> ('w, unit) recover" where
  "remove_one_seg_partial env ident g next_step =
     act_bind (do_call env (RemovePartial (sg_plan g))) (\<lambda>removed.
       if \<not> removed then save_one_seg_outcome env ident (one_seg_left_partial g ReasonFinalPublicationFailed)
       else
         act_bind (do_call env (SyncDirectory (sg_plan g))) (\<lambda>synced.
           if \<not> synced then save_one_seg_outcome env ident (one_seg_left_partial g ReasonFileSyncFailed)
           else next_step))"

definition complete_one_seg_publication ::
    "'w recovery_env \<Rightarrow> entity_id \<Rightarrow> recovery_segment \<Rightarrow> bool \<Rightarrow> ('w, unit) recover" where
  "complete_one_seg_publication env ident g remove =
     (let finish = act_when (\<not> sg_directory_synced g)
            (call_now env (MarkOneSegDirectorySynced ident) RecordOneSegDirectorySync)
      in
      act_bind (do_call env (SyncDirectory (sg_plan g))) (\<lambda>synced.
        if \<not> synced then save_one_seg_outcome env ident (one_seg_left_partial g ReasonFileSyncFailed)
        else if remove then remove_one_seg_partial env ident g finish
        else finish))"

definition recover_finalized_one_seg ::
    "'w recovery_env \<Rightarrow> entity_id \<Rightarrow> recovery_segment \<Rightarrow> file_observation \<Rightarrow> ('w, unit) recover" where
  "recover_finalized_one_seg env ident g ob =
     (if unusable ob \<or> ff_exists (ob_final ob) \<and> ff_size (ob_final ob) \<noteq> sg_byte_count g
      then save_one_seg_outcome env ident (one_seg_mismatch (sg_byte_count g) (sg_quality g))
      else if \<not> ff_exists (ob_final ob) then save_one_seg_outcome env ident (one_seg_missing (sg_quality g))
      else if ff_exists (ob_partial ob) then
        (if ff_size (ob_partial ob) \<noteq> sg_byte_count g \<or> \<not> ob_same_file ob
         then save_one_seg_outcome env ident (one_seg_mismatch (sg_byte_count g) (sg_quality g))
         else
           act_bind (do_call env (SyncDirectory (sg_plan g))) (\<lambda>synced.
             if \<not> synced then save_one_seg_outcome env ident (one_seg_left_partial g ReasonFileSyncFailed)
             else remove_one_seg_partial env ident g (act_return ())))
      else act_return ())"

definition reconcile_settled_one_seg ::
    "'w recovery_env \<Rightarrow> entity_id \<Rightarrow> recovery_segment \<Rightarrow> file_observation \<Rightarrow> bool \<Rightarrow> ('w, unit) recover" where
  "reconcile_settled_one_seg env ident g ob terminal =
     (case settled_one_seg_availability g ob of
        (avail, reason) \<Rightarrow>
          if sg_availability g = avail \<and> sg_integrity_reason g = reason then act_return ()
          else if terminal then call_now env (SetOneSegAvailability ident avail reason) UpdateOneSegAvailability
          else
            save_one_seg_outcome env ident
              \<lparr>s_quality = sg_quality g, s_byte_count = (if avail = AvailabilityMissing then 0 else sg_byte_count g),
               s_availability = avail, s_reason = reason, s_file_synced = sg_file_synced g, s_publish = False\<rparr>)"

definition recover_one_seg_finalization ::
    "'w recovery_env \<Rightarrow> entity_id \<Rightarrow> recovery_segment \<Rightarrow> file_observation \<Rightarrow> ('w, unit) recover" where
  "recover_one_seg_finalization env ident g ob =
     (let n = sg_byte_count g; save = save_one_seg_outcome env ident;
          mark = call_now env (MarkOneSegFinalPublished ident) RecordOneSegPublication;
          complete = complete_one_seg_publication env ident g;
          has_partial = ff_exists (ob_partial ob); has_final = ff_exists (ob_final ob);
          partial_matches = (has_partial \<and> ff_size (ob_partial ob) = n);
          final_matches = (has_final \<and> ff_size (ob_final ob) = n)
      in
        if sg_state g = SegmentFinalized \<and> sg_availability g = AvailabilityFinal
        then recover_finalized_one_seg env ident g ob
        else if valid_reason (sg_integrity_reason g) then reconcile_settled_one_seg env ident g ob False
        else if sg_state g \<noteq> SegmentPartial \<or> sg_availability g \<noteq> AvailabilityPartial \<or> \<not> sg_file_synced g \<or> n < 188
        then save (one_seg_interrupted_result g ob ReasonProcessInterrupted)
        else if unusable ob then save (one_seg_mismatch n (sg_quality g))
        else if has_partial \<and> \<not> partial_matches \<or> has_final \<and> \<not> final_matches
        then save (one_seg_mismatch n (sg_quality g))
        else if partial_matches \<and> \<not> has_final \<and> \<not> sg_final_published g \<and> \<not> sg_directory_synced g then
          act_bind (do_link env (sg_plan g)) (\<lambda>answer.
            case answer of
              Some (_, final_exists) \<Rightarrow> save_publication_failure env ident g final_exists
            | None \<Rightarrow> act_seq mark (complete True))
        else if partial_matches \<and> final_matches \<and> ob_same_file ob \<and> \<not> sg_directory_synced g then
          act_seq (act_when (\<not> sg_final_published g) mark) (complete True)
        else if \<not> has_partial \<and> final_matches \<and> (sg_final_published g \<or> \<not> sg_directory_synced g) then
          act_seq (act_when (\<not> sg_final_published g) mark) (complete False)
        else if \<not> has_partial \<and> \<not> has_final then save (one_seg_missing (sg_quality g))
        else save (one_seg_mismatch n (sg_quality g)))"

section \<open>One item, and the run\<close>

definition recover_finalizing :: "'w recovery_env \<Rightarrow> recovery_item \<Rightarrow> file_observation \<Rightarrow> ('w, unit) recover" where
  "recover_finalizing env item ob =
     act_bind (recover_main_finalization env item ob) (\<lambda>failure.
     act_bind (inspect_one_seg env item) (\<lambda>one_seg_ob.
       case failure of
         Some failed \<Rightarrow>
           act_bind (do_now env) (\<lambda>t.
             let failed' = failed\<lparr>fn_now := t\<rparr>;
                 failed'' =
                   (case (i_one_seg item, one_seg_ob) of
                      (Some g, Some gob) \<Rightarrow>
                        failed'\<lparr>fn_one_seg := Some (one_seg_interrupted_result g gob (fn_reason failed))\<rparr>
                    | _ \<Rightarrow> failed')
             in must_call env (FinishAttempt failed'') FinishInvalidFinalization)
       | None \<Rightarrow>
           act_seq
             (case (i_one_seg item, one_seg_ob) of
                (Some g, Some gob) \<Rightarrow> recover_one_seg_finalization env (at_id (i_attempt item)) g gob
              | _ \<Rightarrow> act_return ())
             (act_bind (do_now env) (\<lambda>t.
               must_call env
                 (FinishAttempt \<lparr>fn_quality = i_quality item, fn_attempt_id = at_id (i_attempt item),
                    fn_state = i_planned_state item, fn_reason = i_planned_reason item,
                    fn_byte_count = at_byte_count (i_attempt item), fn_availability = AvailabilityFinal,
                    fn_recovered = True, fn_now = t, fn_one_seg = None\<rparr>)
                 FinishRecoveredPublication))))"

definition reconcile_success :: "'w recovery_env \<Rightarrow> recovery_item \<Rightarrow> file_observation \<Rightarrow> ('w, unit) recover" where
  "reconcile_success env item ob =
     (case completed_availability (at_byte_count (i_attempt item)) ob of
        (avail, reason) \<Rightarrow>
          act_seq
            (act_when (i_availability item \<noteq> avail \<or> i_integrity_reason item \<noteq> reason)
              (call_now env (SetRecordingAvailability (at_id (i_attempt item)) avail reason) UpdateAvailability))
            (act_bind (inspect_one_seg env item) (\<lambda>one_seg_ob.
              case (i_one_seg item, one_seg_ob) of
                (Some g, Some gob) \<Rightarrow> reconcile_settled_one_seg env (at_id (i_attempt item)) g gob True
              | _ \<Rightarrow> act_return ())))"

definition recover_item :: "'w recovery_env \<Rightarrow> recovery_item \<Rightarrow> ('w, unit) recover" where
  "recover_item env item =
     act_bind (do_inspect env (at_plan (i_attempt item)) InspectRecoveryFile) (\<lambda>ob.
       if at_state (i_attempt item) = AttemptSucceeded \<or> at_state (i_attempt item) = AttemptPartial
       then reconcile_success env item ob
       else if at_state (i_attempt item) = AttemptFinalizing then recover_finalizing env item ob
       else act_bind (inspect_one_seg env item) (\<lambda>one_seg_ob. finish_interrupted env item ob one_seg_ob))"

text \<open>The pages of \<open>Run\<close>; the fuel bounds their number, and running out of it is the value \<open>False\<close>.\<close>

definition max_recovery_page :: nat where
  "max_recovery_page = 100"

primrec recover_pages :: "nat \<Rightarrow> 'w recovery_env \<Rightarrow> entity_id \<Rightarrow> ('w, bool) recover" where
  "recover_pages 0 env after = act_return False"
| "recover_pages (Suc fuel) env after =
     act_bind (do_page env max_recovery_page after) (\<lambda>items.
       act_seq (act_each (recover_item env) items)
         (if length items < max_recovery_page then act_return True
          else recover_pages fuel env (at_id (i_attempt (last items)))))"

section \<open>What the store accepts\<close>

text \<open>The checks of the store's methods on their arguments.\<close>

definition availability_accepted :: "availability \<Rightarrow> terminal_reason \<Rightarrow> bool" where
  "availability_accepted avail reason =
     (case avail of
        AvailabilityFinal \<Rightarrow> reason = no_reason
      | AvailabilityMissing \<Rightarrow> reason = ReasonFileMissing
      | AvailabilityMismatched \<Rightarrow> reason = ReasonFileIntegrityMismatch
      | _ \<Rightarrow> False)"

definition one_seg_availability_accepted :: "availability \<Rightarrow> terminal_reason \<Rightarrow> bool" where
  "one_seg_availability_accepted avail reason =
     (case avail of
        AvailabilityFinal \<Rightarrow> reason = no_reason
      | AvailabilityPartial \<Rightarrow> valid_reason reason
      | AvailabilityMissing \<Rightarrow> reason = ReasonFileMissing
      | AvailabilityMismatched \<Rightarrow> reason = ReasonFileIntegrityMismatch
      | _ \<Rightarrow> False)"

fun call_accepted :: "recovery_call \<Rightarrow> bool" where
  "call_accepted (SyncDirectory _) = True"
| "call_accepted (RemovePartial _) = True"
| "call_accepted (MarkFinalPublished ident t) = (ident \<noteq> 0 \<and> utc_instant t)"
| "call_accepted (MarkDirectorySynced ident t) = (ident \<noteq> 0 \<and> utc_instant t)"
| "call_accepted (MarkOneSegFinalPublished ident t) = (ident \<noteq> 0 \<and> utc_instant t)"
| "call_accepted (MarkOneSegDirectorySynced ident t) = (ident \<noteq> 0 \<and> utc_instant t)"
| "call_accepted (SetOneSegOutcome ident result t) =
     (ident \<noteq> 0 \<and> utc_instant t \<and> is_ok (validate_one_seg_result result) \<and> \<not> s_publish result)"
| "call_accepted (FinishAttempt r) = is_ok (validate_finish r)"
| "call_accepted (SetRecordingAvailability ident avail reason t) =
     (ident \<noteq> 0 \<and> utc_instant t \<and> availability_accepted avail reason)"
| "call_accepted (SetOneSegAvailability ident avail reason t) =
     (ident \<noteq> 0 \<and> utc_instant t \<and> one_seg_availability_accepted avail reason)"

definition flag_int :: "bool \<Rightarrow> int" where
  "flag_int b = (if b then 1 else 0)"

text \<open>
  An item as the store returns it: it passed the checks, and its one-seg segment is in a state the store's own
  operations leave behind (a finalized segment is available until the whole recording is settled, and a settled
  recording has no segment that is merely planned).
\<close>

definition stored_item :: "recovery_item \<Rightarrow> bool" where
  "stored_item item \<longleftrightarrow>
     at_id (i_attempt item) \<noteq> 0 \<and>
     (let state = at_state (i_attempt item); settled = (state = AttemptSucceeded \<or> state = AttemptPartial) in
      (\<exists>start_ms end_ms.
         recovery_values_ok item start_ms end_ms (at_byte_count (i_attempt item)) (at_byte_count (i_attempt item))
           (flag_int (i_recovered item)) (flag_int (i_file_synced item)) (flag_int (i_final_published item))
           (flag_int (i_directory_synced item)) (if i_token item = 0 then 0 else 16)) \<and>
      (case i_one_seg item of
         None \<Rightarrow> True
       | Some g \<Rightarrow>
           recovery_segment_ok g (flag_int (sg_file_synced g)) (flag_int (sg_final_published g))
             (flag_int (sg_directory_synced g)) \<and>
           (sg_state g = SegmentFinalized \<longrightarrow> sg_availability g = AvailabilityFinal \<or> settled) \<and>
           (settled \<longrightarrow> sg_availability g \<noteq> AvailabilityPlanned)))"

definition clock_ok :: "'w recovery_env \<Rightarrow> bool" where
  "clock_ok env \<longleftrightarrow> (\<forall>w. utc_instant (in_utc (fst (re_now env w))))"

primrec event_accepted :: "recovery_event \<Rightarrow> bool" where
  "event_accepted (Inspected _ _) = True"
| "event_accepted (Linked _ _) = True"
| "event_accepted (Called c _) = call_accepted c"

definition accepted_log :: "'w recovery_run \<Rightarrow> bool" where
  "accepted_log s \<longleftrightarrow> list_all event_accepted (rr_log s)"

lemma accepted_now: "clock_ok env \<Longrightarrow> triple accepted_log (do_now env) (\<lambda>t s. accepted_log s \<and> utc_instant t) accepted_log"
  by (rule tripleI) (auto simp: do_now_def accepted_log_def clock_ok_def split_beta)

lemma accepted_call: "call_accepted c \<Longrightarrow> triple accepted_log (do_call env c) (\<lambda>_. accepted_log) accepted_log"
  by (rule tripleI) (auto simp: do_call_def accepted_log_def split: prod.splits)

lemma accepted_link: "triple accepted_log (do_link env plan) (\<lambda>_. accepted_log) accepted_log"
  by (rule tripleI) (auto simp: do_link_def accepted_log_def split: prod.splits)

lemma accepted_inspect: "triple accepted_log (do_inspect env plan e) (\<lambda>_. accepted_log) accepted_log"
  by (rule tripleI) (auto simp: do_inspect_def accepted_log_def split: prod.splits option.splits)

lemma accepted_must: "call_accepted c \<Longrightarrow> triple accepted_log (must_call env c e) (\<lambda>_. accepted_log) accepted_log"
  unfolding must_call_def by (rule triple_bind [OF accepted_call triple_require]) auto

lemma triple_conj_pure:
  assumes "C \<Longrightarrow> triple P m Q E"
  shows "triple (\<lambda>s. P s \<and> C) m Q E"
  using assms by (auto simp: triple_def)

lemma accepted_call_now:
  assumes "clock_ok env" "\<And>t. utc_instant t \<Longrightarrow> call_accepted (c t)"
  shows "triple accepted_log (call_now env c e) (\<lambda>_. accepted_log) accepted_log"
  unfolding call_now_def
  by (rule triple_bind [OF accepted_now [OF assms(1)]], rule triple_conj_pure, rule accepted_must, rule assms(2))

lemma accepted_return: "triple accepted_log (act_return x) (\<lambda>_. accepted_log) accepted_log"
  by (rule triple_return)

lemma accepted_fail: "triple accepted_log (act_fail e) (\<lambda>_. accepted_log) accepted_log"
  by (rule triple_fail)

lemma accepted_when:
  "(c \<Longrightarrow> triple accepted_log m (\<lambda>_. accepted_log) accepted_log) \<Longrightarrow>
     triple accepted_log (act_when c m) (\<lambda>_. accepted_log) accepted_log"
  by (rule triple_when) auto

lemmas accepted_bind = triple_bind [where P = accepted_log and B = "\<lambda>_. accepted_log" and E = "\<lambda>_. accepted_log"]
lemmas accepted_seq = triple_seq [where P = accepted_log and B = accepted_log and E = "\<lambda>_. accepted_log"]
lemmas accepted_if = triple_if [where P = accepted_log and E = "\<lambda>_. accepted_log"]
lemmas accepted_option = triple_option [where P = accepted_log and E = "\<lambda>_. accepted_log"]

lemmas accepted_rules = accepted_bind accepted_seq accepted_if accepted_option accepted_when accepted_return
  accepted_fail accepted_call accepted_must accepted_link accepted_inspect

text \<open>Results for a segment with a valid quality and a byte count that is not negative.\<close>

definition sane_segment :: "recovery_segment \<Rightarrow> bool" where
  "sane_segment g \<longleftrightarrow> quality_valid (sg_quality g) \<and> 0 \<le> sg_byte_count g"

lemma interrupted_quality_valid [simp]: "quality_valid (interrupted_quality q) = quality_valid q"
  by (simp add: interrupted_quality_def quality_valid_def quality_counters_def)

lemma usable_sizes: "\<not> unusable ob \<Longrightarrow> ff_exists (ob_partial ob) \<Longrightarrow> 0 \<le> ff_size (ob_partial ob)"
  by (auto simp: unusable_def invalid_fact_def)

lemma outcome_results_ok:
  assumes "sane_segment g"
  shows "valid_reason reason \<Longrightarrow> is_ok (validate_one_seg_result (one_seg_interrupted_result g ob reason))"
    "valid_reason reason \<Longrightarrow> is_ok (validate_one_seg_result (one_seg_left_partial g reason))"
    "is_ok (validate_one_seg_result (one_seg_mismatch (sg_byte_count g) (sg_quality g)))"
    "is_ok (validate_one_seg_result (one_seg_missing (sg_quality g)))"
  using assms usable_sizes [of ob]
  by (auto simp: validate_one_seg_result_def one_seg_interrupted_result_def one_seg_left_partial_def one_seg_mismatch_def
      one_seg_missing_def sane_segment_def Let_def)

lemma outcome_results_kept:
  "\<not> s_publish (one_seg_interrupted_result g ob reason)" "\<not> s_publish (one_seg_left_partial g reason)"
  "\<not> s_publish (one_seg_mismatch n q)" "\<not> s_publish (one_seg_missing q)"
  by (simp_all add: one_seg_interrupted_result_def one_seg_left_partial_def one_seg_mismatch_def one_seg_missing_def Let_def)

lemma accepted_save:
  assumes "clock_ok env" "ident \<noteq> 0" "is_ok (validate_one_seg_result r)" "\<not> s_publish r"
  shows "triple accepted_log (save_one_seg_outcome env ident r) (\<lambda>_. accepted_log) accepted_log"
  unfolding save_one_seg_outcome_def using assms by (intro accepted_call_now) simp_all

lemma accepted_save_outcome:
  assumes "clock_ok env" "ident \<noteq> 0" "sane_segment g"
  shows "valid_reason reason \<Longrightarrow>
      triple accepted_log (save_one_seg_outcome env ident (one_seg_interrupted_result g ob reason)) (\<lambda>_. accepted_log) accepted_log"
    "valid_reason reason \<Longrightarrow>
      triple accepted_log (save_one_seg_outcome env ident (one_seg_left_partial g reason)) (\<lambda>_. accepted_log) accepted_log"
    "triple accepted_log (save_one_seg_outcome env ident (one_seg_mismatch (sg_byte_count g) (sg_quality g))) (\<lambda>_. accepted_log) accepted_log"
    "triple accepted_log (save_one_seg_outcome env ident (one_seg_missing (sg_quality g))) (\<lambda>_. accepted_log) accepted_log"
  using outcome_results_ok [OF assms(3)] by (intro accepted_save assms outcome_results_kept; simp)+

lemma accepted_remove_one_seg:
  assumes "clock_ok env" "ident \<noteq> 0" "sane_segment g" "triple accepted_log k (\<lambda>_. accepted_log) accepted_log"
  shows "triple accepted_log (remove_one_seg_partial env ident g k) (\<lambda>_. accepted_log) accepted_log"
  unfolding remove_one_seg_partial_def
  by (intro accepted_rules accepted_save_outcome assms) simp_all

lemma accepted_mark_one_seg:
  assumes "clock_ok env" "ident \<noteq> 0"
  shows "triple accepted_log (call_now env (MarkOneSegDirectorySynced ident) e) (\<lambda>_. accepted_log) accepted_log"
    "triple accepted_log (call_now env (MarkOneSegFinalPublished ident) e) (\<lambda>_. accepted_log) accepted_log"
    "triple accepted_log (call_now env (MarkDirectorySynced ident) e) (\<lambda>_. accepted_log) accepted_log"
    "triple accepted_log (call_now env (MarkFinalPublished ident) e) (\<lambda>_. accepted_log) accepted_log"
  using assms by (intro accepted_call_now; simp)+

lemma accepted_complete_one_seg:
  assumes "clock_ok env" "ident \<noteq> 0" "sane_segment g"
  shows "triple accepted_log (complete_one_seg_publication env ident g remove) (\<lambda>_. accepted_log) accepted_log"
  unfolding complete_one_seg_publication_def Let_def
  by (intro accepted_rules accepted_save_outcome accepted_remove_one_seg accepted_mark_one_seg assms) simp_all

lemma accepted_recover_finalized:
  assumes "clock_ok env" "ident \<noteq> 0" "sane_segment g"
  shows "triple accepted_log (recover_finalized_one_seg env ident g ob) (\<lambda>_. accepted_log) accepted_log"
  unfolding recover_finalized_one_seg_def
  by (intro accepted_rules accepted_save_outcome accepted_remove_one_seg assms) simp_all

lemma completed_accepted:
  "completed_availability n ob = (avail, reason) \<Longrightarrow>
     availability_accepted avail reason \<and> one_seg_availability_accepted avail reason"
  by (auto simp: completed_availability_def availability_accepted_def one_seg_availability_accepted_def split: if_splits)

lemma settled_accepted:
  assumes "recovery_segment_ok g f p d" "sg_availability g \<noteq> AvailabilityPlanned"
    and "settled_one_seg_availability g ob = (avail, reason)"
    and "\<not> (sg_availability g = avail \<and> sg_integrity_reason g = reason)"
  shows "one_seg_availability_accepted avail reason"
proof (cases "sg_state g = SegmentFinalized \<or> sg_availability g = AvailabilityFinal")
  case True
  then show ?thesis using assms(3) completed_accepted by (simp add: settled_one_seg_availability_def)
next
  case False
  have "sg_availability g = AvailabilityMissing \<Longrightarrow> valid_reason (sg_integrity_reason g)"
    using assms(1) by (auto simp: recovery_segment_ok_def Let_def)
  then show ?thesis using assms False
    by (auto simp: settled_one_seg_availability_def one_seg_availability_accepted_def recovery_segment_ok_def
        split: if_splits)
qed

lemma unsettled_result_ok:
  assumes "sane_segment g" "valid_reason (sg_integrity_reason g)" "sg_state g \<noteq> SegmentFinalized"
    and "sg_availability g \<noteq> AvailabilityFinal" "settled_one_seg_availability g ob = (avail, reason)"
  shows "is_ok (validate_one_seg_result
    \<lparr>s_quality = sg_quality g, s_byte_count = (if avail = AvailabilityMissing then 0 else sg_byte_count g),
     s_availability = avail, s_reason = reason, s_file_synced = sg_file_synced g, s_publish = False\<rparr>)"
  using assms
  by (auto simp: settled_one_seg_availability_def validate_one_seg_result_def sane_segment_def split: if_splits)

lemma accepted_settled:
  assumes "clock_ok env" "ident \<noteq> 0" "recovery_segment_ok g f p d" "sg_availability g \<noteq> AvailabilityPlanned"
  shows "triple accepted_log (reconcile_settled_one_seg env ident g ob True) (\<lambda>_. accepted_log) accepted_log"
proof -
  obtain avail reason where settled: "settled_one_seg_availability g ob = (avail, reason)" by fastforce
  show ?thesis unfolding reconcile_settled_one_seg_def settled prod.case
    using assms(1,2) settled_accepted [OF assms(3,4) settled]
    by (intro accepted_if accepted_return accepted_call_now) simp_all
qed

lemma accepted_unsettled:
  assumes "clock_ok env" "ident \<noteq> 0" "sane_segment g" "valid_reason (sg_integrity_reason g)"
    and "sg_state g \<noteq> SegmentFinalized" "sg_availability g \<noteq> AvailabilityFinal"
  shows "triple accepted_log (reconcile_settled_one_seg env ident g ob False) (\<lambda>_. accepted_log) accepted_log"
proof -
  obtain avail reason where settled: "settled_one_seg_availability g ob = (avail, reason)" by fastforce
  show ?thesis unfolding reconcile_settled_one_seg_def settled prod.case
    using unsettled_result_ok [OF assms(3-6) settled]
    by (intro accepted_if accepted_return accepted_save assms) simp_all
qed

lemma accepted_publication_failure:
  assumes "clock_ok env" "ident \<noteq> 0" "sane_segment g"
  shows "triple accepted_log (save_publication_failure env ident g exists) (\<lambda>_. accepted_log) accepted_log"
  unfolding save_publication_failure_def using assms
  by (intro accepted_save)
    (auto simp: one_seg_left_partial_def validate_one_seg_result_def sane_segment_def)

lemma accepted_recover_one_seg:
  assumes "clock_ok env" "ident \<noteq> 0" "recovery_segment_ok g f p d"
    and "sg_state g = SegmentFinalized \<longrightarrow> sg_availability g = AvailabilityFinal"
  shows "triple accepted_log (recover_one_seg_finalization env ident g ob) (\<lambda>_. accepted_log) accepted_log"
proof -
  have sane: "sane_segment g" using assms(3) by (auto simp: recovery_segment_ok_def sane_segment_def)
  have unsettled: "triple accepted_log (reconcile_settled_one_seg env ident g ob False) (\<lambda>_. accepted_log) accepted_log"
    if "valid_reason (sg_integrity_reason g)" "\<not> (sg_state g = SegmentFinalized \<and> sg_availability g = AvailabilityFinal)"
    using that assms(3,4) by (intro accepted_unsettled assms(1,2) sane) (auto simp: recovery_segment_ok_def)
  show ?thesis
    unfolding recover_one_seg_finalization_def Let_def
    by (intro accepted_if accepted_bind accepted_seq accepted_link accepted_option accepted_when accepted_mark_one_seg
        accepted_save_outcome accepted_complete_one_seg accepted_recover_finalized unsettled assms(1,2) sane)
      (auto intro: accepted_publication_failure [OF assms(1,2) sane] split: prod.split)
qed

section \<open>Finish requests\<close>

definition failure_of :: "recovery_item \<Rightarrow> finish_request option \<Rightarrow> bool" where
  "failure_of item x \<longleftrightarrow>
     (\<forall>f. x = Some f \<longrightarrow> (\<exists>reason avail. f = finalization_failure item reason avail \<and> valid_reason reason \<and>
        \<not> successful_reason reason \<and> avail \<in> {AvailabilityPartial, AvailabilityMissing, AvailabilityMismatched}))"

lemma accepted_result: "C x \<Longrightarrow> triple accepted_log (act_return x) (\<lambda>x s. accepted_log s \<and> C x) accepted_log"
  by (simp add: triple_def act_return_def)

lemma accepted_failed: "triple accepted_log (act_fail e) (\<lambda>x s. accepted_log s \<and> C x) accepted_log"
  by (simp add: triple_def act_fail_def)

lemma failure_ofI:
  "valid_reason reason \<Longrightarrow> \<not> successful_reason reason \<Longrightarrow>
     avail \<in> {AvailabilityPartial, AvailabilityMissing, AvailabilityMismatched} \<Longrightarrow>
     failure_of item (Some (finalization_failure item reason avail))"
  unfolding failure_of_def by blast

lemma failure_of_simps:
  "failure_of item None"
  "failure_of item (Some (finalization_failure item ReasonFileIntegrityMismatch AvailabilityMismatched))"
  "failure_of item (Some (finalization_failure item ReasonFinalPublicationFailed AvailabilityPartial))"
  "failure_of item (Some (finalization_failure item ReasonFileMissing AvailabilityMissing))"
  by (simp add: failure_of_def) (rule failure_ofI; simp add: successful_reason_def)+

lemma accepted_main:
  assumes "clock_ok env" "at_id (i_attempt item) \<noteq> 0"
  shows "triple accepted_log (recover_main_finalization env item ob) (\<lambda>x s. accepted_log s \<and> failure_of item x) accepted_log"
proof -
  have complete: "triple accepted_log (complete_main_publication env item remove) (\<lambda>_. accepted_log) accepted_log" for remove
    unfolding complete_main_publication_def Let_def
    by (intro accepted_rules accepted_mark_one_seg assms) simp_all
  show ?thesis
    unfolding recover_main_finalization_def Let_def
    by (intro accepted_if accepted_bind accepted_seq accepted_link accepted_option accepted_when accepted_mark_one_seg
        complete accepted_result accepted_failed failure_of_simps assms)
      (auto split: prod.split intro!: accepted_if accepted_result accepted_failed failure_of_simps)
qed

lemma failure_finish_ok:
  assumes "quality_valid (i_quality item)" "0 \<le> at_byte_count (i_attempt item)" "at_id (i_attempt item) \<noteq> 0" "utc_instant t"
    and "failure_of item (Some f)" "one_seg_ok seg"
  shows "is_ok (validate_finish (f\<lparr>fn_now := t, fn_one_seg := seg\<rparr>))" "valid_reason (fn_reason f)"
proof -
  obtain reason avail where f: "f = finalization_failure item reason avail" "valid_reason reason"
    "\<not> successful_reason reason" "avail \<in> {AvailabilityPartial, AvailabilityMissing, AvailabilityMismatched}"
    using assms(5) unfolding failure_of_def by blast
  then have "finish_combination (f\<lparr>fn_now := t, fn_one_seg := seg\<rparr>) = Inr ()"
    by (auto simp: finish_combination_def finalization_failure_def)
  moreover have "fn_quality f = i_quality item" "fn_attempt_id f = at_id (i_attempt item)" "fn_reason f = reason"
    "fn_byte_count f = at_byte_count (i_attempt item)"
    by (simp_all add: f(1) finalization_failure_def)
  ultimately show "is_ok (validate_finish (f\<lparr>fn_now := t, fn_one_seg := seg\<rparr>))" "valid_reason (fn_reason f)"
    using assms f(2) by (simp_all add: validate_finish_def)
qed

lemma interrupted_finish_ok:
  assumes "quality_valid (i_quality item)" "0 \<le> at_byte_count (i_attempt item)" "at_id (i_attempt item) \<noteq> 0" "utc_instant t"
    and "one_seg_ok seg"
  shows "is_ok (validate_finish ((interrupted_main_result item ob)\<lparr>fn_now := t, fn_one_seg := seg\<rparr>))"
proof -
  have "\<not> successful_reason ReasonProcessInterrupted" "\<not> successful_reason ReasonFileIntegrityMismatch"
    "\<not> communication_partial_reason ReasonProcessInterrupted"
    by (simp_all add: successful_reason_def communication_partial_reason_def)
  note reasons = this
  define r where "r = (interrupted_main_result item ob)\<lparr>fn_now := t, fn_one_seg := seg\<rparr>"
  have "quality_valid (fn_quality r)" "fn_attempt_id r \<noteq> 0" "valid_reason (fn_reason r)" "0 \<le> fn_byte_count r"
    "fn_now r = t" "fn_one_seg r = seg"
    using assms usable_sizes [of ob] by (simp_all add: r_def interrupted_main_result_def Let_def)
  moreover have "finish_combination r = Inr ()"
    using reasons by (simp add: r_def interrupted_main_result_def Let_def finish_combination_def)
  ultimately show ?thesis using assms(4,5) by (simp add: validate_finish_def r_def)
qed

lemma accepted_inspect_one_seg:
  "triple accepted_log (inspect_one_seg env item) (\<lambda>_. accepted_log) accepted_log"
  unfolding inspect_one_seg_def by (intro accepted_rules)

lemma stored_item_facts:
  assumes "stored_item item"
  shows "at_id (i_attempt item) \<noteq> 0" "quality_valid (i_quality item)" "0 \<le> at_byte_count (i_attempt item)"
    "i_one_seg item = Some g \<Longrightarrow> sane_segment g"
proof -
  obtain start_ms end_ms where stored:
    "recovery_values_ok item start_ms end_ms (at_byte_count (i_attempt item)) (at_byte_count (i_attempt item))
      (flag_int (i_recovered item)) (flag_int (i_file_synced item)) (flag_int (i_final_published item))
      (flag_int (i_directory_synced item)) (if i_token item = 0 then 0 else 16)"
    using assms unfolding stored_item_def Let_def by blast
  show "at_id (i_attempt item) \<noteq> 0" using assms by (simp add: stored_item_def)
  show "quality_valid (i_quality item)" "0 \<le> at_byte_count (i_attempt item)"
    using stored unfolding recovery_values_ok_def Let_def by (blast, linarith)
  show "i_one_seg item = Some g \<Longrightarrow> sane_segment g"
    using assms unfolding stored_item_def Let_def recovery_segment_ok_def sane_segment_def by simp
qed

lemma stored_item_segment:
  assumes "stored_item item" "i_one_seg item = Some g"
  obtains f p d where "recovery_segment_ok g f p d"
    "sg_state g = SegmentFinalized \<longrightarrow> sg_availability g = AvailabilityFinal \<or>
       at_state (i_attempt item) = AttemptSucceeded \<or> at_state (i_attempt item) = AttemptPartial"
    "at_state (i_attempt item) = AttemptSucceeded \<or> at_state (i_attempt item) = AttemptPartial \<longrightarrow>
       sg_availability g \<noteq> AvailabilityPlanned"
  using assms by (auto simp: stored_item_def Let_def)

lemma accepted_timed:
  assumes "clock_ok env" "\<And>t. utc_instant t \<Longrightarrow> triple accepted_log (f t) (\<lambda>_. accepted_log) accepted_log"
  shows "triple accepted_log (act_bind (do_now env) f) (\<lambda>_. accepted_log) accepted_log"
  by (rule triple_bind [OF accepted_now [OF assms(1)]], rule triple_conj_pure, rule assms(2))

lemma accepted_finish_interrupted:
  assumes "clock_ok env" "stored_item item"
  shows "triple accepted_log (finish_interrupted env item ob gob) (\<lambda>_. accepted_log) accepted_log"
proof -
  note facts = stored_item_facts [OF assms(2)]
  have plain: "is_ok (validate_finish ((interrupted_main_result item ob)\<lparr>fn_now := t\<rparr>))" if "utc_instant t" for t
  proof -
    have "fn_one_seg (interrupted_main_result item ob) = None" by (simp add: interrupted_main_result_def Let_def)
    then have "(interrupted_main_result item ob)\<lparr>fn_now := t\<rparr> = (interrupted_main_result item ob)\<lparr>fn_now := t, fn_one_seg := None\<rparr>"
      by simp
    then show ?thesis using interrupted_finish_ok [OF facts(2,3,1) that, of None ob] by (simp add: one_seg_ok_def)
  qed
  have "is_ok (validate_finish ((interrupted_main_result item ob)\<lparr>fn_now := t, fn_one_seg := Some
      (one_seg_interrupted_result (g\<lparr>sg_quality := interrupted_quality (sg_quality g)\<rparr>) gob ReasonProcessInterrupted)\<rparr>))"
    if "utc_instant t" "i_one_seg item = Some g" for t g gob
  proof (rule interrupted_finish_ok [OF facts(2,3,1) that(1)])
    have "sane_segment (g\<lparr>sg_quality := interrupted_quality (sg_quality g)\<rparr>)"
      using facts(4) [OF that(2)] by (simp add: sane_segment_def)
    then show "one_seg_ok (Some (one_seg_interrupted_result (g\<lparr>sg_quality := interrupted_quality (sg_quality g)\<rparr>) gob ReasonProcessInterrupted))"
      using outcome_results_ok(1) by (simp add: one_seg_ok_def)
  qed
  with plain show ?thesis
    unfolding finish_interrupted_def Let_def
    by (intro accepted_timed assms accepted_must) (auto split: option.split)
qed

lemma accepted_failure_finish:
  assumes "clock_ok env" "stored_item item" "failure_of item (Some failed)"
  shows "triple accepted_log
    (act_bind (do_now env) (\<lambda>t.
       let failed' = failed\<lparr>fn_now := t\<rparr>;
           failed'' =
             (case (i_one_seg item, gob) of
                (Some g, Some gob) \<Rightarrow>
                  failed'\<lparr>fn_one_seg := Some (one_seg_interrupted_result g gob (fn_reason failed))\<rparr>
              | _ \<Rightarrow> failed')
       in must_call env (FinishAttempt failed'') FinishInvalidFinalization)) (\<lambda>_. accepted_log) accepted_log"
proof -
  note facts = stored_item_facts [OF assms(2)]
  have none: "fn_one_seg failed = None" using assms(3) by (auto simp: failure_of_def finalization_failure_def)
  have plain: "is_ok (validate_finish (failed\<lparr>fn_now := t\<rparr>))" if "utc_instant t" for t
  proof -
    have "failed\<lparr>fn_now := t\<rparr> = failed\<lparr>fn_now := t, fn_one_seg := None\<rparr>" using none by simp
    then show ?thesis using failure_finish_ok(1) [OF facts(2,3,1) that assms(3), of None] by (simp add: one_seg_ok_def)
  qed
  have reason: "valid_reason (fn_reason failed)" using assms(3) by (auto simp: failure_of_def finalization_failure_def)
  have "is_ok (validate_finish (failed\<lparr>fn_now := t, fn_one_seg := Some (one_seg_interrupted_result g gob (fn_reason failed))\<rparr>))"
    if "utc_instant t" "i_one_seg item = Some g" for t g gob
    using outcome_results_ok(1) [OF facts(4) [OF that(2)] reason]
    by (intro failure_finish_ok(1) [OF facts(2,3,1) that(1) assms(3)]) (simp add: one_seg_ok_def)
  with plain show ?thesis
    unfolding Let_def by (intro accepted_timed assms accepted_must) (auto split: option.split)
qed

lemma planned_finish_ok:
  assumes "stored_item item" "at_state (i_attempt item) = AttemptFinalizing" "utc_instant t"
  shows "is_ok (validate_finish \<lparr>fn_quality = i_quality item, fn_attempt_id = at_id (i_attempt item),
    fn_state = i_planned_state item, fn_reason = i_planned_reason item, fn_byte_count = at_byte_count (i_attempt item),
    fn_availability = AvailabilityFinal, fn_recovered = True, fn_now = t, fn_one_seg = None\<rparr>)"
proof -
  obtain start_ms end_ms where stored:
    "recovery_values_ok item start_ms end_ms (at_byte_count (i_attempt item)) (at_byte_count (i_attempt item))
      (flag_int (i_recovered item)) (flag_int (i_file_synced item)) (flag_int (i_final_published item))
      (flag_int (i_directory_synced item)) (if i_token item = 0 then 0 else 16)"
    using assms(1) by (auto simp: stored_item_def Let_def)
  then have "188 \<le> at_byte_count (i_attempt item)" "finalization_plan_ok item (at_byte_count (i_attempt item))"
    using assms(2) unfolding recovery_values_ok_def Let_def by (linarith, blast)
  then consider "i_planned_state item = AttemptSucceeded" "successful_reason (i_planned_reason item)"
    | "i_planned_state item = AttemptPartial" "i_planned_reason item = ReasonUserRequestedStop"
    | "i_planned_state item = AttemptPartial" "communication_partial_reason (i_planned_reason item)"
      "at_byte_count (i_attempt item) mod 188 = 0"
    unfolding finalization_plan_ok_def Let_def successful_reason_def by blast
  then show ?thesis
    using stored_item_facts [OF assms(1)] assms(3) \<open>188 \<le> at_byte_count (i_attempt item)\<close>
    by cases (auto simp: validate_finish_def finish_combination_def one_seg_ok_def reason_disjoint)
qed

lemma accepted_finalizing:
  assumes "clock_ok env" "stored_item item" "at_state (i_attempt item) = AttemptFinalizing"
  shows "triple accepted_log (recover_finalizing env item ob) (\<lambda>_. accepted_log) accepted_log"
proof -
  note facts = stored_item_facts [OF assms(2)]
  have segment: "triple accepted_log
    (case (i_one_seg item, gob) of
       (Some g, Some gob) \<Rightarrow> recover_one_seg_finalization env (at_id (i_attempt item)) g gob
     | _ \<Rightarrow> act_return ()) (\<lambda>_. accepted_log) accepted_log" for gob
  proof (cases "i_one_seg item")
    case None
    then show ?thesis by (simp add: accepted_return)
  next
    case (Some g)
    then obtain f p d where "recovery_segment_ok g f p d" "sg_state g = SegmentFinalized \<longrightarrow> sg_availability g = AvailabilityFinal"
      using stored_item_segment [OF assms(2)] assms(3) by (metis attempt_state.distinct)
    then show ?thesis using Some accepted_recover_one_seg [OF assms(1) facts(1)]
      by (auto simp: accepted_return split: option.split)
  qed
  have finish: "triple accepted_log (act_bind (do_now env) (\<lambda>t.
      must_call env (FinishAttempt \<lparr>fn_quality = i_quality item, fn_attempt_id = at_id (i_attempt item),
        fn_state = i_planned_state item, fn_reason = i_planned_reason item, fn_byte_count = at_byte_count (i_attempt item),
        fn_availability = AvailabilityFinal, fn_recovered = True, fn_now = t, fn_one_seg = None\<rparr>)
      FinishRecoveredPublication)) (\<lambda>_. accepted_log) accepted_log"
    using planned_finish_ok [OF assms(2,3)] by (intro accepted_timed assms accepted_must) simp
  have body: "triple accepted_log (act_bind (inspect_one_seg env item) (\<lambda>gob. case failure of
      Some failed \<Rightarrow> rest failed gob | None \<Rightarrow> act_seq (one gob) last)) (\<lambda>_. accepted_log) accepted_log"
    if "failure_of item failure" "\<And>failed gob. failure_of item (Some failed) \<Longrightarrow> triple accepted_log (rest failed gob) (\<lambda>_. accepted_log) accepted_log"
      "\<And>gob. triple accepted_log (one gob) (\<lambda>_. accepted_log) accepted_log" "triple accepted_log last (\<lambda>_. accepted_log) accepted_log"
    for failure rest one last
    using that by (cases failure) (auto intro!: accepted_bind accepted_inspect_one_seg accepted_seq)
  show ?thesis
    unfolding recover_finalizing_def
    by (rule triple_bind [OF accepted_main [OF assms(1) facts(1)]], rule triple_conj_pure, rule body)
      (assumption, rule accepted_failure_finish [OF assms(1,2)], assumption, rule segment, rule finish)
qed

lemma accepted_reconcile:
  assumes "clock_ok env" "stored_item item" "at_state (i_attempt item) = AttemptSucceeded \<or> at_state (i_attempt item) = AttemptPartial"
  shows "triple accepted_log (reconcile_success env item ob) (\<lambda>_. accepted_log) accepted_log"
proof -
  note facts = stored_item_facts [OF assms(2)]
  obtain avail reason where completed: "completed_availability (at_byte_count (i_attempt item)) ob = (avail, reason)" by fastforce
  have segment: "triple accepted_log
    (case (i_one_seg item, gob) of
       (Some g, Some gob) \<Rightarrow> reconcile_settled_one_seg env (at_id (i_attempt item)) g gob True
     | _ \<Rightarrow> act_return ()) (\<lambda>_. accepted_log) accepted_log" for gob
  proof (cases "i_one_seg item")
    case None
    then show ?thesis by (simp add: accepted_return)
  next
    case (Some g)
    then obtain f p d where "recovery_segment_ok g f p d" "sg_availability g \<noteq> AvailabilityPlanned"
      using stored_item_segment [OF assms(2)] assms(3) by metis
    then show ?thesis using Some accepted_settled [OF assms(1) facts(1)]
      by (auto simp: accepted_return split: option.split)
  qed
  show ?thesis
    unfolding reconcile_success_def completed prod.case
    using completed_accepted [OF completed] facts(1)
    by (intro accepted_seq accepted_when accepted_call_now accepted_bind accepted_inspect_one_seg segment [unfolded prod.case] assms) simp_all
qed

text \<open>C16. (safety): recovery of any item the store hands over, whatever the files look like and
  whatever fails on the way, asks the store only for changes it accepts: every finish request and one-seg outcome is
  valid and every availability comes with its fixed reason.
\<close>

theorem recovery_requests_accepted:
  assumes "stored_item item" "clock_ok env"
  shows "list_all event_accepted (rr_log (snd (recover_item env item \<lparr>rr_world = w, rr_log = []\<rparr>)))"
proof -
  have "triple accepted_log (recover_item env item) (\<lambda>_. accepted_log) accepted_log"
    unfolding recover_item_def
    by (intro accepted_bind accepted_inspect accepted_if accepted_reconcile accepted_finalizing accepted_inspect_one_seg
        accepted_finish_interrupted assms) simp_all
  moreover have "accepted_log \<lparr>rr_world = w, rr_log = []\<rparr>" by (simp add: accepted_log_def)
  ultimately show ?thesis unfolding accepted_log_def [symmetric] by (rule triple_invariant)
qed

end
