(* ===== verification/RecoveryOrder.thy ===== *)
theory RecoveryOrder
  imports Recovery
begin

text \<open>
  In which order recovery works on the files: a partial name goes only after the final one was seen or made and the
  directory was synchronised, nothing is linked over an existing file, and the pages of the run come to an end.
\<close>

section \<open>The order of the log\<close>

definition published_before :: "file_plan \<Rightarrow> recovery_event set \<Rightarrow> bool" where
  "published_before plan seen \<longleftrightarrow>
     Linked plan True \<in> seen \<or>
     (\<exists>ob. Inspected plan (Some ob) \<in> seen \<and> ff_exists (ob_partial ob) \<and> ff_exists (ob_final ob) \<and> ob_same_file ob \<and>
        ff_size (ob_partial ob) = ff_size (ob_final ob))"

definition free_final :: "file_plan \<Rightarrow> recovery_event set \<Rightarrow> bool" where
  "free_final plan seen \<longleftrightarrow>
     (\<exists>ob. Inspected plan (Some ob) \<in> seen \<and> \<not> unusable ob \<and> ff_exists (ob_partial ob) \<and> 188 \<le> ff_size (ob_partial ob) \<and>
        \<not> ff_exists (ob_final ob))"

definition synced_last :: "recovery_event list \<Rightarrow> file_plan \<Rightarrow> bool" where
  "synced_last log plan \<longleftrightarrow> log \<noteq> [] \<and> last log = Called (SyncDirectory plan) True"

fun event_ordered :: "recovery_item \<Rightarrow> recovery_event list \<Rightarrow> recovery_event \<Rightarrow> bool" where
  "event_ordered item log (Linked plan _) = free_final plan (set log)"
| "event_ordered item log (Called (RemovePartial plan) _) = (published_before plan (set log) \<and> synced_last log plan)"
| "event_ordered item log (Called (MarkDirectorySynced ident _) _) =
    (ident = at_id (i_attempt item) \<and> synced_last log (at_plan (i_attempt item)))"
| "event_ordered item log (Called (MarkOneSegDirectorySynced ident _) _) =
    (ident = at_id (i_attempt item) \<and> (\<exists>g. i_one_seg item = Some g \<and> synced_last log (sg_plan g)))"
| "event_ordered item log _ = True"

definition ordered_log :: "recovery_item \<Rightarrow> recovery_event list \<Rightarrow> bool" where
  "ordered_log item log \<longleftrightarrow> (\<forall>i<length log. event_ordered item (take i log) (log ! i))"

lemma ordered_snoc: "ordered_log item (log @ [e]) \<longleftrightarrow> ordered_log item log \<and> event_ordered item log e"
  by (auto simp: ordered_log_def nth_append less_Suc_eq)

text \<open>The assertions: the log is in order and knows the events \<open>seen\<close>; and, further, it ends with an event.\<close>

definition in_order :: "recovery_item \<Rightarrow> recovery_event set \<Rightarrow> 'w recovery_run \<Rightarrow> bool" where
  "in_order item seen s \<longleftrightarrow> ordered_log item (rr_log s) \<and> seen \<subseteq> set (rr_log s)"

definition just_did :: "recovery_item \<Rightarrow> recovery_event set \<Rightarrow> recovery_event \<Rightarrow> 'w recovery_run \<Rightarrow> bool" where
  "just_did item seen e s \<longleftrightarrow> in_order item seen s \<and> rr_log s \<noteq> [] \<and> last (rr_log s) = e"

lemma published_mono: "published_before plan seen \<Longrightarrow> seen \<subseteq> seen' \<Longrightarrow> published_before plan seen'"
  by (auto simp: published_before_def)

lemma free_mono: "free_final plan seen \<Longrightarrow> seen \<subseteq> seen' \<Longrightarrow> free_final plan seen'"
  by (auto simp: free_final_def)

fun needs_order :: "recovery_call \<Rightarrow> bool" where
  "needs_order (RemovePartial _) = True"
| "needs_order (MarkDirectorySynced _ _) = True"
| "needs_order (MarkOneSegDirectorySynced _ _) = True"
| "needs_order _ = False"

lemma order_free: "\<not> needs_order c \<Longrightarrow> event_ordered item log (Called c good)"
  by (cases c) simp_all

lemma just_call:
  assumes "\<And>s good. P s \<Longrightarrow> in_order item seen s \<and> event_ordered item (rr_log s) (Called c good)"
  shows "triple P (do_call env c) (\<lambda>good. just_did item seen (Called c good)) E"
proof (rule tripleI)
  fix s good s' assume "P s" "do_call env c s = (Inr good, s')"
  then show "just_did item seen (Called c good) s'"
    using assms [of s good] by (auto simp: do_call_def just_did_def in_order_def ordered_snoc split: prod.splits)
qed (simp add: do_call_def split: prod.splits)

lemma call_free: "\<not> needs_order c \<Longrightarrow> triple (in_order item seen) (do_call env c) (\<lambda>good. just_did item seen (Called c good)) E"
  by (rule just_call) (simp add: order_free)

lemma call_remove:
  "published_before plan seen \<Longrightarrow>
     triple (just_did item seen (Called (SyncDirectory plan) True)) (do_call env (RemovePartial plan))
       (\<lambda>good. just_did item seen (Called (RemovePartial plan) good)) E"
  by (rule just_call) (auto simp: just_did_def in_order_def synced_last_def elim: published_mono)

lemma just_did_weaken: "just_did item seen e s \<Longrightarrow> in_order item seen s"
  by (simp add: just_did_def)

lemma just_require:
  "triple (just_did item seen (Called c good)) (act_require good e) (\<lambda>_. just_did item seen (Called c True)) (in_order item seen)"
  by (rule triple_require) (auto simp: just_did_weaken)

lemma must_free: "\<not> needs_order c \<Longrightarrow> triple (in_order item seen) (must_call env c e) (\<lambda>_. just_did item seen (Called c True)) (in_order item seen)"
  unfolding must_call_def by (rule triple_bind [OF call_free just_require])

lemma must_remove:
  "published_before plan seen \<Longrightarrow>
     triple (just_did item seen (Called (SyncDirectory plan) True)) (must_call env (RemovePartial plan) e)
       (\<lambda>_. just_did item seen (Called (RemovePartial plan) True)) (in_order item seen)"
  unfolding must_call_def by (rule triple_bind [OF call_remove just_require])

lemma now_keeps: "triple (just_did item seen e) (do_now env) (\<lambda>_. just_did item seen e) E"
  "triple (in_order item seen) (do_now env) (\<lambda>_. in_order item seen) E"
  by (auto intro!: tripleI simp: do_now_def just_did_def in_order_def split: prod.splits)

lemma forget: "triple (in_order item seen) m Q E \<Longrightarrow> triple (just_did item seen e) m Q E"
  by (erule triple_pre) (rule just_did_weaken)

lemma forget_after: "triple P m (\<lambda>_. just_did item seen e) E \<Longrightarrow> triple P m (\<lambda>_. in_order item seen) E"
  by (erule triple_post) (rule just_did_weaken)

lemma now_free:
  assumes "\<And>t. \<not> needs_order (c t)"
  shows "triple (in_order item seen) (call_now env c e) (\<lambda>_. in_order item seen) (in_order item seen)"
  unfolding call_now_def by (rule triple_bind [OF now_keeps(2)], rule forget_after, rule must_free, rule assms)

text \<open>What is recorded as synchronised right after the directory of \<open>plan\<close> was.\<close>

lemma now_synced:
  assumes "\<And>log t good. synced_last log plan \<Longrightarrow> event_ordered item log (Called (c t) good)"
  shows "triple (just_did item seen (Called (SyncDirectory plan) True)) (call_now env c e) (\<lambda>_. in_order item seen) (in_order item seen)"
proof -
  have "triple (just_did item seen (Called (SyncDirectory plan) True)) (do_call env (c t)) (\<lambda>good. just_did item seen (Called (c t) good)) (in_order item seen)" for t
    by (rule just_call) (auto simp: assms just_did_def synced_last_def)
  then show ?thesis
    unfolding call_now_def must_call_def
    by (intro triple_bind [OF now_keeps(1)] forget_after [OF triple_bind [OF _ just_require]])
qed

lemma link_seen:
  "free_final plan seen \<Longrightarrow>
     triple (in_order item seen) (do_link env plan)
       (\<lambda>answer. in_order item (if answer = None then insert (Linked plan True) seen else seen)) E"
  by (rule tripleI) (auto simp: do_link_def in_order_def ordered_snoc elim: free_mono split: prod.splits if_splits)

lemma inspect_seen:
  "triple (in_order item seen) (do_inspect env plan e) (\<lambda>ob. in_order item (insert (Inspected plan (Some ob)) seen)) (in_order item seen)"
  by (rule tripleI) (auto simp: do_inspect_def in_order_def ordered_snoc split: prod.splits option.splits)

lemma ordered_return: "triple (in_order item seen) (act_return x) (\<lambda>_. in_order item seen) E"
  "triple (just_did item seen e) (act_return x) (\<lambda>_. in_order item seen) E"
  by (auto simp: triple_def act_return_def just_did_weaken)

section \<open>Recovery keeps the order\<close>

lemma complete_main_order:
  assumes "remove \<Longrightarrow> published_before (at_plan (i_attempt item)) seen"
  shows "triple (in_order item seen) (complete_main_publication env item remove) (\<lambda>_. in_order item seen) (in_order item seen)"
proof -
  let ?plan = "at_plan (i_attempt item)"
  let ?P = "just_did item seen (Called (SyncDirectory ?plan) True)"
  have removal: "triple ?P (act_when remove (act_seq (must_call env (RemovePartial ?plan) e) (must_call env (SyncDirectory ?plan) f)))
    (\<lambda>_. ?P) (in_order item seen)" for e f
    by (intro triple_when triple_seq [OF must_remove] forget must_free) (simp_all add: assms)
  have mark: "triple ?P (act_when b (call_now env (MarkDirectorySynced (at_id (i_attempt item))) e)) (\<lambda>_. in_order item seen) (in_order item seen)" for b e
    by (intro triple_when now_synced) (auto simp: just_did_weaken)
  show ?thesis
    unfolding complete_main_publication_def Let_def
    by (rule triple_seq [OF must_free triple_seq [OF removal mark]]) simp
qed

lemma complete_returning:
  assumes "triple (in_order item seen) m (\<lambda>_. in_order item seen) (in_order item seen)"
  shows "triple (in_order item seen) (act_seq m (act_return x)) (\<lambda>_. in_order item seen) (in_order item seen)"
  by (rule triple_seq [OF assms]) (rule ordered_return)

lemma fewer:
  assumes "triple P m (\<lambda>_. in_order item seen') (in_order item seen')" "seen1 \<subseteq> seen'" "seen2 \<subseteq> seen'"
  shows "triple P m (\<lambda>_. in_order item seen1) (in_order item seen2)"
proof (rule tripleI)
  fix s r s' assume "P s" "m s = (Inl r, s')"
  then have "in_order item seen' s'" by (rule tripleD(1) [OF assms(1)])
  then show "in_order item seen2 s'" using assms(3) by (auto simp: in_order_def)
next
  fix s r s' assume "P s" "m s = (Inr r, s')"
  then have "in_order item seen' s'" by (rule tripleD(2) [OF assms(1)])
  then show "in_order item seen1 s'" using assms(2) by (auto simp: in_order_def)
qed

lemma when_mark:
  assumes "\<And>t. \<not> needs_order (c t)"
  shows "triple (in_order item seen) (act_when b (call_now env c e)) (\<lambda>_. in_order item seen) (in_order item seen)"
  by (rule triple_when) (rule now_free, rule assms, simp)

lemma main_order:
  assumes "Inspected (at_plan (i_attempt item)) (Some ob) \<in> seen"
  shows "triple (in_order item seen) (recover_main_finalization env item ob) (\<lambda>_. in_order item seen) (in_order item seen)"
proof -
  let ?plan = "at_plan (i_attempt item)"
  have link: "triple (in_order item seen) (act_bind (do_link env ?plan) (\<lambda>answer.
      case answer of
        Some (unsupported, final_exists) \<Rightarrow> if unsupported then act_return x else act_fail e
      | None \<Rightarrow> act_seq (call_now env (MarkFinalPublished i) f) (act_seq (complete_main_publication env item True) (act_return y))))
    (\<lambda>_. in_order item seen) (in_order item seen)"
    if "free_final ?plan seen" for x y e f i
  proof (rule triple_bind [OF link_seen [OF that]])
    fix answer
    have published: "published_before ?plan (insert (Linked ?plan True) seen)" by (simp add: published_before_def)
    have good: "triple (in_order item (insert (Linked ?plan True) seen))
      (act_seq (call_now env (MarkFinalPublished i) f) (act_seq (complete_main_publication env item True) (act_return y)))
      (\<lambda>_. in_order item seen) (in_order item seen)"
      by (rule fewer [where seen' = "insert (Linked ?plan True) seen"], rule triple_seq [OF now_free], simp,
          rule complete_returning, rule complete_main_order, rule published) auto
    show "triple (in_order item (if answer = None then insert (Linked ?plan True) seen else seen))
      (case answer of
         Some (unsupported, final_exists) \<Rightarrow> if unsupported then act_return x else act_fail e
       | None \<Rightarrow> act_seq (call_now env (MarkFinalPublished i) f) (act_seq (complete_main_publication env item True) (act_return y)))
      (\<lambda>_. in_order item seen) (in_order item seen)"
      using good by (cases answer; cases "the answer") (simp_all add: ordered_return triple_fail [of "\<lambda>_. in_order item seen"])
  qed
  have same: "triple (in_order item seen) (act_seq (act_when b (call_now env (MarkFinalPublished i) f))
      (act_seq (complete_main_publication env item remove) (act_return y))) (\<lambda>_. in_order item seen) (in_order item seen)"
    if "remove \<Longrightarrow> published_before ?plan seen" for b i f y remove
    by (intro triple_seq [OF when_mark] complete_returning complete_main_order that) simp_all
  have moved: "triple (in_order item seen) (act_seq (call_now env (MarkFinalPublished i) f)
      (act_seq (complete_main_publication env item False) (act_return y))) (\<lambda>_. in_order item seen) (in_order item seen)" for i f y
    by (intro triple_seq [OF now_free] complete_returning complete_main_order) simp_all
  have kept: "triple (in_order item seen) (act_seq (complete_main_publication env item False) (act_return y))
      (\<lambda>_. in_order item seen) (in_order item seen)" for y
    by (intro complete_returning complete_main_order) simp
  show ?thesis
    unfolding recover_main_finalization_def Let_def
    by (intro triple_if ordered_return link same moved kept)
      (use assms in \<open>auto simp: free_final_def published_before_def\<close>)
qed

lemma save_order: "triple (in_order item seen) (save_one_seg_outcome env i r) (\<lambda>_. in_order item seen) (in_order item seen)"
  unfolding save_one_seg_outcome_def by (rule now_free) simp

lemma after_sync:
  assumes "triple (just_did item seen (Called (SyncDirectory plan) True)) k (\<lambda>_. in_order item seen) (in_order item seen)"
  shows "triple (in_order item seen) (act_bind (do_call env (SyncDirectory plan)) (\<lambda>synced.
    if \<not> synced then save_one_seg_outcome env i r else k)) (\<lambda>_. in_order item seen) (in_order item seen)"
proof (rule triple_bind [OF call_free])
  fix synced
  show "triple (just_did item seen (Called (SyncDirectory plan) synced)) (if \<not> synced then save_one_seg_outcome env i r else k)
    (\<lambda>_. in_order item seen) (in_order item seen)"
    using assms by (auto intro: forget save_order)
qed simp

lemma remove_one_seg_order:
  assumes "published_before (sg_plan g) seen"
    and "triple (just_did item seen (Called (SyncDirectory (sg_plan g)) True)) k (\<lambda>_. in_order item seen) (in_order item seen)"
  shows "triple (just_did item seen (Called (SyncDirectory (sg_plan g)) True)) (remove_one_seg_partial env i g k)
    (\<lambda>_. in_order item seen) (in_order item seen)"
  unfolding remove_one_seg_partial_def
  by (rule triple_bind [OF call_remove [OF assms(1)]]) (intro forget triple_if save_order after_sync assms(2))

lemma complete_one_seg_order:
  assumes own: "i = at_id (i_attempt item)" "i_one_seg item = Some g"
    and "remove \<Longrightarrow> published_before (sg_plan g) seen"
  shows "triple (in_order item seen) (complete_one_seg_publication env i g remove) (\<lambda>_. in_order item seen) (in_order item seen)"
proof -
  have mark: "triple (just_did item seen (Called (SyncDirectory (sg_plan g)) True))
    (act_when b (call_now env (MarkOneSegDirectorySynced i) e)) (\<lambda>_. in_order item seen) (in_order item seen)" for b e
    by (intro triple_when now_synced) (auto simp: just_did_weaken own)
  show ?thesis
    unfolding complete_one_seg_publication_def Let_def
    by (intro after_sync triple_if remove_one_seg_order mark assms(3))
qed

lemma one_seg_order:
  assumes "Inspected (sg_plan g) (Some ob) \<in> seen"
    and own: "i = at_id (i_attempt item)" "i_one_seg item = Some g"
  shows "triple (in_order item seen) (recover_one_seg_finalization env i g ob) (\<lambda>_. in_order item seen) (in_order item seen)"
proof -
  have settled: "triple (in_order item seen) (reconcile_settled_one_seg env i g ob False) (\<lambda>_. in_order item seen) (in_order item seen)"
    by (auto simp: reconcile_settled_one_seg_def intro!: ordered_return save_order split: prod.split)
  have finalized: "triple (in_order item seen) (recover_finalized_one_seg env i g ob) (\<lambda>_. in_order item seen) (in_order item seen)"
    unfolding recover_finalized_one_seg_def
    by (intro triple_if save_order after_sync remove_one_seg_order ordered_return)
      (use assms in \<open>auto simp: published_before_def\<close>)
  have link: "triple (in_order item seen) (act_bind (do_link env (sg_plan g)) (\<lambda>answer.
      case answer of
        Some (unsupported, final_exists) \<Rightarrow> save_publication_failure env i g final_exists
      | None \<Rightarrow> act_seq (call_now env (MarkOneSegFinalPublished i) f) (complete_one_seg_publication env i g True)))
    (\<lambda>_. in_order item seen) (in_order item seen)"
    if "free_final (sg_plan g) seen" for f
  proof (rule triple_bind [OF link_seen [OF that]])
    fix answer
    have published: "published_before (sg_plan g) (insert (Linked (sg_plan g) True) seen)" by (simp add: published_before_def)
    have good: "triple (in_order item (insert (Linked (sg_plan g) True) seen))
      (act_seq (call_now env (MarkOneSegFinalPublished i) f) (complete_one_seg_publication env i g True))
      (\<lambda>_. in_order item seen) (in_order item seen)"
      by (rule fewer [where seen' = "insert (Linked (sg_plan g) True) seen"], rule triple_seq [OF now_free], simp,
          rule complete_one_seg_order [OF own], rule published) auto
    show "triple (in_order item (if answer = None then insert (Linked (sg_plan g) True) seen else seen))
      (case answer of
         Some (unsupported, final_exists) \<Rightarrow> save_publication_failure env i g final_exists
       | None \<Rightarrow> act_seq (call_now env (MarkOneSegFinalPublished i) f) (complete_one_seg_publication env i g True))
      (\<lambda>_. in_order item seen) (in_order item seen)"
      using good by (cases answer; cases "the answer") (simp_all add: save_publication_failure_def save_order)
  qed
  have same: "triple (in_order item seen) (act_seq (act_when b (call_now env (MarkOneSegFinalPublished i) f))
      (complete_one_seg_publication env i g remove)) (\<lambda>_. in_order item seen) (in_order item seen)"
    if "remove \<Longrightarrow> published_before (sg_plan g) seen" for b f remove
    by (intro triple_seq [OF when_mark] complete_one_seg_order [OF own] that) simp_all
  show ?thesis
    unfolding recover_one_seg_finalization_def Let_def
    by (intro triple_if finalized settled save_order link same)
      (use assms in \<open>auto simp: free_final_def published_before_def\<close>)
qed

lemma forget_seen: "triple (in_order item seen) m Q E \<Longrightarrow> triple (in_order item (insert e seen)) m Q E"
  by (erule triple_pre) (simp add: in_order_def)

lemma inspect_one_seg_seen:
  "triple (in_order item seen) (inspect_one_seg env item)
     (\<lambda>gob. in_order item (case (i_one_seg item, gob) of (Some g, Some ob) \<Rightarrow> insert (Inspected (sg_plan g) (Some ob)) seen | _ \<Rightarrow> seen))
     (in_order item seen)"
proof (cases "i_one_seg item")
  case None
  then show ?thesis by (simp add: inspect_one_seg_def ordered_return)
next
  case (Some g)
  show ?thesis
    unfolding inspect_one_seg_def Some option.case
    by (rule triple_bind [OF inspect_seen]) (simp add: triple_def act_return_def)
qed

lemma timed_must:
  assumes "\<And>t. \<not> needs_order (c t)"
  shows "triple (in_order item seen) (act_bind (do_now env) (\<lambda>t. must_call env (c t) e)) (\<lambda>_. in_order item seen) (in_order item seen)"
  by (rule triple_bind [OF now_keeps(2)], rule forget_after, rule must_free, rule assms)

lemma finalizing_order:
  assumes "Inspected (at_plan (i_attempt item)) (Some ob) \<in> seen"
  shows "triple (in_order item seen) (recover_finalizing env item ob) (\<lambda>_. in_order item {}) (in_order item {})"
proof -
  show ?thesis
    unfolding recover_finalizing_def
  proof (rule triple_bind [where B = "\<lambda>_. in_order item seen"])
    show "triple (in_order item seen) (recover_main_finalization env item ob) (\<lambda>_. in_order item seen) (in_order item {})"
      by (rule fewer [OF main_order [OF assms]]) auto
  next
    fix failure
    show "triple (in_order item seen)
      (act_bind (inspect_one_seg env item) (\<lambda>one_seg_ob. case failure of
         Some failed \<Rightarrow>
           act_bind (do_now env) (\<lambda>t.
             let failed' = failed\<lparr>fn_now := t\<rparr>;
                 failed'' =
                   (case (i_one_seg item, one_seg_ob) of
                      (Some g, Some gob) \<Rightarrow>
                        failed'\<lparr>fn_one_seg := Some (one_seg_interrupted_result g gob (fn_reason failed))\<rparr>
                    | _ \<Rightarrow> failed')
             in must_call env (FinishAttempt failed'') FinishInvalidFinalization)
       | None \<Rightarrow>
           act_seq
             (case (i_one_seg item, one_seg_ob) of
                (Some g, Some gob) \<Rightarrow> recover_one_seg_finalization env (at_id (i_attempt item)) g gob
              | _ \<Rightarrow> act_return ())
             (act_bind (do_now env) (\<lambda>t.
               must_call env
                 (FinishAttempt \<lparr>fn_quality = i_quality item, fn_attempt_id = at_id (i_attempt item),
                    fn_state = i_planned_state item, fn_reason = i_planned_reason item,
                    fn_byte_count = at_byte_count (i_attempt item), fn_availability = AvailabilityFinal,
                    fn_recovered = True, fn_now = t, fn_one_seg = None\<rparr>)
                 FinishRecoveredPublication))))
      (\<lambda>_. in_order item {}) (in_order item {})" (is "triple _ (act_bind _ ?rest) _ _")
    proof (rule fewer [where seen' = seen], rule triple_bind [OF inspect_one_seg_seen])
      fix gob
      let ?seen = "case (i_one_seg item, gob) of (Some g, Some ob) \<Rightarrow> insert (Inspected (sg_plan g) (Some ob)) seen | _ \<Rightarrow> seen"
      have one: "triple (in_order item ?seen)
        (case (i_one_seg item, gob) of
           (Some g, Some gob) \<Rightarrow> recover_one_seg_finalization env (at_id (i_attempt item)) g gob
         | _ \<Rightarrow> act_return ()) (\<lambda>_. in_order item ?seen) (in_order item ?seen)"
        by (auto intro!: one_seg_order ordered_return split: option.split)
      show "triple (in_order item ?seen) (?rest gob) (\<lambda>_. in_order item seen) (in_order item seen)"
        by (rule fewer [where seen' = ?seen], cases failure)
          (simp_all only: option.case Let_def, rule triple_seq [OF one timed_must], simp, rule timed_must, simp, auto split: option.split)
    qed auto
  qed
qed

lemma interrupted_order: "triple (in_order item seen) (finish_interrupted env item ob gob) (\<lambda>_. in_order item seen) (in_order item seen)"
  unfolding finish_interrupted_def Let_def by (rule timed_must) simp

lemma reconcile_order: "triple (in_order item seen) (reconcile_success env item ob) (\<lambda>_. in_order item seen) (in_order item seen)"
proof -
  have settled: "triple (in_order item seen') (reconcile_settled_one_seg env i g gob True) (\<lambda>_. in_order item seen') (in_order item seen')" for seen' i g gob
    by (auto simp: reconcile_settled_one_seg_def intro!: ordered_return now_free split: prod.split)
  obtain avail reason where completed: "completed_availability (at_byte_count (i_attempt item)) ob = (avail, reason)" by fastforce
  show ?thesis
    unfolding reconcile_success_def completed prod.case
  proof (rule triple_seq [OF when_mark], simp, rule triple_bind [OF inspect_one_seg_seen])
    fix gob
    show "triple (in_order item (case (i_one_seg item, gob) of (Some g, Some ob) \<Rightarrow> insert (Inspected (sg_plan g) (Some ob)) seen | _ \<Rightarrow> seen))
      (case i_one_seg item of None \<Rightarrow> act_return ()
       | Some g \<Rightarrow> case gob of None \<Rightarrow> act_return ()
         | Some gob \<Rightarrow> reconcile_settled_one_seg env (at_id (i_attempt item)) g gob True)
      (\<lambda>_. in_order item seen) (in_order item seen)"
      by (auto intro!: ordered_return forget_seen settled split: option.split)
  qed
qed

text \<open>C17. (safety): in whatever state a recording and its files are found, and whatever fails during recovery,
  the steps come in a safe order: a final name is linked only where the file system was seen to have a useful
  partial file and no final one; a partial name is removed only after its final one was linked or seen to be the same
  file of the same size, and right after its directory was synchronised; and the main directory of the recording is
  recorded as synchronised, under the recording's own identifier, only right after the directory of the main plan
  was, its one-seg directory only right after that of the one-seg plan.
\<close>

theorem recovery_order: "ordered_log item (rr_log (snd (recover_item env item \<lparr>rr_world = w, rr_log = []\<rparr>)))"
proof -
  have "triple (in_order item {}) (recover_item env item) (\<lambda>_. in_order item {}) (in_order item {})"
    unfolding recover_item_def
  proof (rule triple_bind [OF inspect_seen])
    fix ob
    let ?seen = "{Inspected (at_plan (i_attempt item)) (Some ob)}"
    have interrupted: "triple (in_order item ?seen) (act_bind (inspect_one_seg env item) (finish_interrupted env item ob))
      (\<lambda>_. in_order item {}) (in_order item {})"
    proof (rule fewer [where seen' = ?seen], rule triple_bind [OF inspect_one_seg_seen])
      fix gob
      show "triple (in_order item (case (i_one_seg item, gob) of (Some g, Some ob) \<Rightarrow> insert (Inspected (sg_plan g) (Some ob)) ?seen | _ \<Rightarrow> ?seen))
        (finish_interrupted env item ob gob) (\<lambda>_. in_order item ?seen) (in_order item ?seen)"
        by (auto intro!: interrupted_order forget_seen [of _ ?seen] split: option.split)
    qed auto
    show "triple (in_order item (insert (Inspected (at_plan (i_attempt item)) (Some ob)) {}))
      (if at_state (i_attempt item) = AttemptSucceeded \<or> at_state (i_attempt item) = AttemptPartial
       then reconcile_success env item ob
       else if at_state (i_attempt item) = AttemptFinalizing then recover_finalizing env item ob
       else act_bind (inspect_one_seg env item) (\<lambda>one_seg_ob. finish_interrupted env item ob one_seg_ob))
      (\<lambda>_. in_order item {}) (in_order item {})"
      by (intro triple_if finalizing_order interrupted fewer [OF reconcile_order]) simp_all
  qed
  moreover have "in_order item {} \<lparr>rr_world = w, rr_log = []\<rparr>" by (simp add: in_order_def ordered_log_def)
  ultimately have "in_order item {} (snd (recover_item env item \<lparr>rr_world = w, rr_log = []\<rparr>))" by (rule triple_invariant)
  then show ?thesis by (simp add: in_order_def)
qed

section \<open>The run comes to an end\<close>

text \<open>
  What the query of the recovery repository promises for the page after an identifier: at most as many
  items as asked for, in order of their identifiers, all after that one.  Which items there are, and in
  which state, may change from page to page (recovery itself takes items out of the query's states); their
  identifiers come from the finite set of the recordings there are.
\<close>

definition page_ok :: "entity_id set \<Rightarrow> nat \<Rightarrow> entity_id \<Rightarrow> recovery_item list \<Rightarrow> bool" where
  "page_ok ids limit after items \<longleftrightarrow>
     length items \<le> limit \<and> sorted_wrt (<) (map (at_id \<circ> i_attempt) items) \<and>
     list_all (\<lambda>item. after < at_id (i_attempt item) \<and> at_id (i_attempt item) \<in> ids) items"

definition paged_store :: "'w recovery_env \<Rightarrow> entity_id set \<Rightarrow> bool" where
  "paged_store env ids \<longleftrightarrow> finite ids \<and>
     (\<forall>limit after w items. fst (re_page env limit after w) = Some items \<longrightarrow> page_ok ids limit after items)"

text \<open>A full page leaves a hundred identifiers behind.\<close>

lemma full_page_progress:
  assumes "finite ids" "page_ok ids limit after page" "length page = limit" "page \<noteq> []"
  shows "card {i \<in> ids. at_id (i_attempt (last page)) < i} + limit \<le> card {i \<in> ids. after < i}"
proof -
  let ?key = "at_id \<circ> i_attempt" and ?top = "at_id (i_attempt (last page))"
  have sorted: "sorted_wrt (<) (map ?key page)" using assms(2) by (simp add: page_ok_def)
  then have "distinct (map ?key page)" by (simp add: strict_sorted_iff)
  then have page: "card (?key ` set page) = limit" using assms(3) by (metis distinct_card length_map set_map)
  have below: "\<not> ?top < ?key x" if "x \<in> set page" for x
  proof -
    have split: "page = butlast page @ [last page]" using assms(4) by simp
    with sorted have "sorted_wrt (<) (map ?key (butlast page @ [last page]))" by metis
    then have "x \<in> set (butlast page) \<Longrightarrow> ?key x < ?top" by (simp add: sorted_wrt_append)
    moreover have "x \<in> set (butlast page) \<or> x = last page" using that split
      by (metis Un_iff empty_iff empty_set list.simps(15) insert_iff set_append)
    ultimately show ?thesis by auto
  qed
  have "after < ?top" using assms(2,4) by (auto simp: page_ok_def list_all_iff)
  then have "{i \<in> ids. ?top < i} \<union> ?key ` set page \<subseteq> {i \<in> ids. after < i}"
    using assms(2) by (auto simp: page_ok_def list_all_iff)
  then have "card ({i \<in> ids. ?top < i} \<union> ?key ` set page) \<le> card {i \<in> ids. after < i}"
    using assms(1) by (intro card_mono) auto
  moreover have "{i \<in> ids. ?top < i} \<inter> ?key ` set page = {}" using below by auto
  ultimately show ?thesis using assms(1) page by (simp add: card_Un_disjoint)
qed

lemma recover_pages_enough:
  assumes "paged_store env ids" "card {i \<in> ids. after < i} < 100 * fuel"
  shows "fst (recover_pages fuel env after s) \<noteq> Inr False"
  using assms(2)
proof (induction fuel arbitrary: after s)
  case (Suc fuel)
  obtain answer w where read: "re_page env 100 after (rr_world s) = (answer, w)" by fastforce
  show ?case
  proof (cases answer)
    case None
    then show ?thesis using read by (simp add: act_bind_def do_page_def max_recovery_page_def)
  next
    case (Some page)
    then have ok: "page_ok ids 100 after page" using assms(1) read by (simp add: paged_store_def) (metis fst_conv)
    have page: "do_page env max_recovery_page after s = (Inr page, s\<lparr>rr_world := w\<rparr>)"
      using read Some by (simp add: do_page_def max_recovery_page_def)
    obtain r s' where each: "act_each (recover_item env) page (s\<lparr>rr_world := w\<rparr>) = (r, s')" by fastforce
    show ?thesis
    proof (cases "is_ok r \<and> 100 \<le> length page")
      case True
      then have full: "length page = 100" "page \<noteq> []" using ok by (auto simp: page_ok_def)
      then have "card {i \<in> ids. at_id (i_attempt (last page)) < i} < 100 * fuel"
        using full_page_progress [OF _ ok full] assms(1) Suc.prems by (simp add: paged_store_def)
      from Suc.IH [OF this, of s'] show ?thesis
        using True full each page by (cases r) (auto simp: act_bind_def act_seq_def max_recovery_page_def)
    next
      case False
      then show ?thesis
        using each page by (cases r) (auto simp: act_bind_def act_seq_def max_recovery_page_def act_return_def)
    qed
  qed
qed simp

text \<open>C18. (termination): over a store whose pages are as the recovery query makes them (at most as many
  items as asked for, in order of their identifiers, all after the given one), a run needs at most one page more than the
  hundreds of the recordings there are and never asks for pages without end, whichever items the query finds in each page
  while recovery changes their states, and whatever fails.
\<close>

theorem recovery_terminates:
  assumes "paged_store env ids"
  shows "fst (recover_pages (card ids div 100 + 1) env 0 s) \<noteq> Inr False"
proof (rule recover_pages_enough [OF assms])
  have "card {i \<in> ids. 0 < i} \<le> card ids" using assms by (intro card_mono) (auto simp: paged_store_def)
  also have "card ids < 100 * (card ids div 100 + 1)" using div_mult_mod_eq [of "card ids" 100] by simp
  finally show "card {i \<in> ids. 0 < i} < 100 * (card ids div 100 + 1)" .
qed

section \<open>An interrupted recording\<close>

definition sample_item :: recovery_item where
  "sample_item =
     \<lparr>i_attempt = \<lparr>at_id = 7, at_reservation_id = 8, at_state = AttemptRecording, at_planned_start = \<lparr>t_nanos = 0, t_utc = True\<rparr>,
        at_planned_end = \<lparr>t_nanos = hour, t_utc = True\<rparr>, at_byte_count = 0, at_plan = plan_of [65] [66], at_one_seg_plan = None\<rparr>,
      i_quality = zero_quality, i_token = 0, i_planned_state = OtherAttemptState [], i_planned_reason = no_reason,
      i_file_synced = False, i_final_published = False, i_directory_synced = False, i_availability = AvailabilityPlanned,
      i_segment_state = SegmentWriting, i_integrity_reason = no_reason, i_recovered = False, i_one_seg = None\<rparr>"

text \<open>The world says whether the attempt has been finished; a finished attempt is not in the pages any more.\<close>

definition sample_env :: "bool recovery_env" where
  "sample_env =
     \<lparr>re_page = (\<lambda>limit after finished. (Some (if finished \<or> \<not> after < 7 then [] else take limit [sample_item]), finished)),
      re_inspect = (\<lambda>plan w. (Some \<lparr>ob_partial = \<lparr>ff_exists = True, ff_regular = True, ff_size = 376\<rparr>,
        ob_final = \<lparr>ff_exists = False, ff_regular = False, ff_size = 0\<rparr>, ob_same_file = False, ob_unsafe = False\<rparr>, w)),
      re_link = (\<lambda>plan w. (None, w)),
      re_call = (\<lambda>c finished. (True, case c of FinishAttempt _ \<Rightarrow> True | _ \<Rightarrow> finished)),
      re_now = (\<lambda>w. (\<lparr>t_nanos = second, t_utc = True\<rparr>, w))\<rparr>"

lemma sample_plan_valid: "file_plan_valid (plan_of [65] [66])"
  by (rule plan_of_valid) (simp_all add: plain_dir_def plain_name_def plain_part_def slash_def backslash_def)

lemma sample_item_stored: "stored_item sample_item"
proof -
  have "recovery_values_ok sample_item 0 1 0 0 0 0 0 0 0"
    unfolding recovery_values_ok_def Let_def
    by (simp add: sample_item_def sample_plan_valid flag_values_def zero_quality_def quality_valid_def quality_counters_def)
  then show ?thesis
    unfolding stored_item_def Let_def by (auto simp: sample_item_def flag_int_def)
qed

lemma sample_clock: "clock_ok sample_env"
  by (simp add: clock_ok_def sample_env_def utc_instant_def in_utc_def is_zero_time_def zero_nanos_def unix_milli_def)

theorem recovery_requests_accepted_witness:
  "list_all event_accepted (rr_log (snd (recover_item sample_env sample_item \<lparr>rr_world = False, rr_log = []\<rparr>)))"
  by (rule recovery_requests_accepted [OF sample_item_stored sample_clock])

lemma sample_paged: "paged_store sample_env {7}"
  unfolding paged_store_def
proof (intro conjI allI impI)
  fix limit after w items
  assume "fst (re_page sample_env limit after w) = Some items"
  then have "items = [] \<or> after < 7 \<and> items = take limit [sample_item]" by (auto simp: sample_env_def split: if_splits)
  then show "page_ok {7} limit after items" by (cases limit) (auto simp: page_ok_def sample_item_def)
qed simp

theorem recovery_terminates_witness:
  "fst (recover_pages 1 sample_env 0 \<lparr>rr_world = False, rr_log = []\<rparr>) \<noteq> Inr False"
  using recovery_terminates [OF sample_paged, of "\<lparr>rr_world = False, rr_log = []\<rparr>"] by simp

end
