(* ===== verification/FilterFile.thy ===== *)
theory FilterFile
  imports ComponentFilter
begin

text \<open>
  What the filter does to its file, whatever the packets are: it only writes to it, so that a property that every
  write keeps is kept by every operation; and the count of written bytes is never negative.
\<close>

definition written_ok :: "('f \<Rightarrow> bool) \<Rightarrow> ('x, 'f component_filter) written \<Rightarrow> bool" where
  "written_ok J w \<longleftrightarrow> J (cf_file (snd w)) \<and> 0 \<le> fst (fst w)"

lemma written_ok_none [simp]: "written_ok J (no_write flt) \<longleftrightarrow> J (cf_file flt)"
  by (simp add: written_ok_def)

lemma written_ok_seq:
  assumes "written_ok J w" "\<And>t. J (cf_file t) \<Longrightarrow> written_ok J (k t)"
  shows "written_ok J (seq_write w k)"
  using assms by (fastforce simp: written_ok_def seq_write_def split: prod.splits option.splits)

lemma written_ok_case:
  assumes "written_ok J w" "\<And>r t. cf_file (f t) = cf_file t"
  shows "written_ok J (case w of (r, t) \<Rightarrow> (r, f t))"
  using assms by (auto simp: written_ok_def split: prod.splits)

section \<open>Operations that leave the file alone\<close>

lemma same_file [simp]:
  "cf_file (modify_quality f flt) = cf_file flt" "cf_file (filter_issue issue flt) = cf_file flt"
  "cf_file (unfinished_psi flt) = cf_file flt" "cf_file (filter_reset_psi flt) = cf_file flt"
  "cf_file (use_tracker g flt) = cf_file flt" "cf_file (configure_pmt t flt) = cf_file flt"
  "cf_file (reset_control pid flt) = cf_file flt"
  by (simp_all add: modify_quality_def filter_issue_def unfinished_psi_def filter_reset_psi_def use_tracker_def
      configure_pmt_def reset_control_def Let_def split: prod.splits)

lemma same_file_feed [simp]:
  "cf_file (snd (feed_pat raw p flt)) = cf_file flt" "cf_file (snd (feed_pmt raw p flt)) = cf_file flt"
  by (simp_all add: feed_pat_def feed_pmt_def split: prod.splits)

lemma same_file_fed:
  "feed_pat raw p flt = (out, t) \<Longrightarrow> cf_file t = cf_file flt" "feed_pmt raw p flt = (out, t) \<Longrightarrow> cf_file t = cf_file flt"
  using same_file_feed [of raw p flt] by simp_all

lemma same_file_tables [simp]:
  "cf_file (adopt_pat discovering sec flt) = cf_file flt" "cf_file (observe_pmt sec flt) = cf_file flt"
  "cf_file (note_parsed raw tei p flt) = cf_file flt"
  by (simp_all add: adopt_pat_def observe_pmt_def note_parsed_def Let_def split: sum.splits)

lemma same_file_fold:
  assumes "\<And>x t. cf_file (f x t) = cf_file t"
  shows "cf_file (fold f xs flt) = cf_file flt"
  by (induction xs arbitrary: flt) (simp_all add: assms)

lemma same_file_folds [simp]:
  "cf_file (fold (adopt_pat discovering) sections flt) = cf_file flt"
  "cf_file (fold observe_pmt sections flt) = cf_file flt"
  by (simp_all add: same_file_fold)

lemma same_file_observe_tables [simp]: "cf_file (observe_tables raw p flt) = cf_file flt"
  by (auto simp: observe_tables_def same_file_fed split: prod.splits)

lemma same_file_check_pat [simp]: "cf_file (snd (check_pat sections invalid flt)) = cf_file flt"
  by (induction sections invalid flt rule: check_pat.induct) (simp_all split: sum.splits)

section \<open>Operations that write\<close>

locale file_keeper =
  fixes wr :: "('f, 'x) file_write" and J :: "'f \<Rightarrow> bool"
  assumes wr_keeps: "J file \<Longrightarrow> J (snd (wr file raw))"
begin

lemma write_packet_keeps: "J (cf_file flt) \<Longrightarrow> written_ok J (write_packet wr raw flt)"
  using wr_keeps [of "cf_file flt" raw]
  by (auto simp: write_packet_def written_ok_def Let_def split: prod.splits option.splits)

lemma write_packet_list_keeps: "J (cf_file flt) \<Longrightarrow> written_ok J (write_packet_list wr raws flt)"
  by (induction raws arbitrary: flt) (simp_all add: written_ok_seq write_packet_keeps)

lemma fallback_keeps: "J (cf_file flt) \<Longrightarrow> written_ok J (fallback wr flt)"
  by (simp add: fallback_def written_ok_case write_packet_list_keeps)

lemma fallback_then_write_keeps: "J (cf_file flt) \<Longrightarrow> written_ok J (fallback_then_write wr raw flt)"
  by (simp add: fallback_then_write_def written_ok_seq fallback_keeps write_packet_keeps)

lemma write_selected_keeps: "J (cf_file flt) \<Longrightarrow> written_ok J (write_selected_with wr raw dropped flt)"
  by (simp add: write_selected_with_def write_packet_keeps)

lemma replay_from_keeps: "J (cf_file flt) \<Longrightarrow> written_ok J (replay_from wr raws index first packets dropped flt)"
proof (induction raws arbitrary: index flt)
  case (Cons raw raws)
  show ?case
    unfolding replay_from.simps
  proof (intro written_ok_seq)
    show "written_ok J (if int index = first
       then seq_write (write_packet_list wr packets flt)
              (\<lambda>flt. no_write (flt\<lparr>cf_pmt_continuity := (cf_pmt_continuity flt + of_nat (length packets)) AND 15\<rparr>))
       else no_write flt)"
      using Cons.prems by (auto intro!: written_ok_seq write_packet_list_keeps)
    show "written_ok J (if int index \<ge> first \<and> PID raw = cf_pmt_pid t then no_write t
         else write_selected_with wr raw dropped t)" if "J (cf_file t)" for t
      using that by (simp add: write_selected_keeps)
  qed (rule Cons.IH)
qed simp

lemma replay_keeps: "J (cf_file flt) \<Longrightarrow> written_ok J (replay wr data first sec dropped flt)"
  by (auto simp: replay_def written_ok_def [of J "((0, Some (PacketizeError e)), flt)" for e] replay_from_keeps
      split: sum.split)

lemma start_selection_keeps: "J (cf_file flt) \<Longrightarrow> written_ok J (start_selection wr raw t rewritten dropped flt)"
  by (auto simp: start_selection_def Let_def intro!: written_ok_case replay_keeps)

lemma discover_section_keeps: "J (cf_file flt) \<Longrightarrow> written_ok J (discover_section wr raw sec flt)"
  by (auto simp: discover_section_def Let_def fallback_keeps start_selection_keeps split: sum.split)

lemma discover_collected_keeps: "J (cf_file flt) \<Longrightarrow> written_ok J (discover_collected wr raw p out flt)"
  by (auto simp: discover_collected_def Let_def fallback_keeps discover_section_keeps split: prod.split)

lemma discover_pmt_keeps: "J (cf_file flt) \<Longrightarrow> written_ok J (discover_pmt wr raw p flt)"
  by (auto simp: discover_pmt_def same_file_fed discover_collected_keeps split: prod.split)

lemma discover_keeps: "J (cf_file flt) \<Longrightarrow> written_ok J (discover wr raw p flt)"
  by (auto simp: discover_def same_file_fed Let_def discover_pmt_keeps fallback_keeps split: prod.split)

lemma update_section_keeps: "J (cf_file flt) \<Longrightarrow> written_ok J (update_section wr sec flt)"
  by (auto simp: update_section_def Let_def fallback_keeps intro!: written_ok_case replay_keeps split: sum.split)

lemma update_pmt_keeps: "J (cf_file flt) \<Longrightarrow> written_ok J (update_pmt wr raw p flt)"
  by (auto simp: update_pmt_def same_file_fed Let_def fallback_keeps update_section_keeps split: prod.split)

lemma write_initialized_keeps: "J (cf_file flt) \<Longrightarrow> written_ok J (write_initialized wr raw p flt)"
  by (auto simp: write_initialized_def Let_def write_selected_keeps write_packet_keeps fallback_then_write_keeps
      update_pmt_keeps)

lemma process_selected_keeps: "J (cf_file flt) \<Longrightarrow> written_ok J (process_selected wr raw p flt)"
proof -
  assume J: "J (cf_file flt)"
  obtain sections duplicate issue flt1 where fed: "feed_pat raw p flt = ((sections, duplicate, issue), flt1)"
    by (metis surj_pair)
  then have "J (cf_file flt1)" using J by (simp add: same_file_fed)
  moreover obtain invalid flt2 where "check_pat sections (issue \<noteq> PsiOK) (filter_issue issue flt1) = (invalid, flt2)"
    by fastforce
  moreover from this have "cf_file flt2 = cf_file flt1"
    using same_file_check_pat [of sections "issue \<noteq> PsiOK" "filter_issue issue flt1"] by simp
  ultimately show ?thesis
    using J by (simp add: process_selected_def fed fallback_then_write_keeps write_initialized_keeps)
qed

lemma process_parsed_keeps: "J (cf_file flt) \<Longrightarrow> written_ok J (process_parsed wr raw tei p flt)"
  by (auto simp: process_parsed_def process_raw_def process_discovery_def Let_def write_packet_keeps fallback_keeps
      fallback_then_write_keeps discover_keeps process_selected_keeps)

lemma process_body_keeps: "J (cf_file flt) \<Longrightarrow> written_ok J (process_body wr raw flt)"
  by (auto simp: process_body_def process_malformed_def Let_def fallback_keeps process_parsed_keeps
      split: prod.split sum.split)

lemma process_packet_keeps: "J (cf_file flt) \<Longrightarrow> written_ok J (process_packet wr g flt raw)"
  by (auto simp: process_packet_def adopt_generation_def Let_def fallback_keeps process_body_keeps
      intro!: written_ok_seq)

end

text \<open>The framer hands every packet to an owner that keeps the property.\<close>

sublocale file_keeper \<subseteq> kept: sound_packet_owner modify_quality "process_packet wr" "\<lambda>flt. J (cf_file flt)"
  using process_packet_keeps filtered.packet_owner_axioms
  by (auto simp: sound_packet_owner_def sound_packet_owner_axioms_def written_ok_def)

context file_keeper
begin

lemma framer_drain_counts:
  "J (cf_file s) \<Longrightarrow> w \<le> fst (fst (framer_drain modify_quality (process_packet wr) fr s w))"
proof (induction up \<equiv> "modify_quality :: 'f component_filter quality_access" em \<equiv> "process_packet wr" fr s w
    rule: framer_drain.induct)
  case (1 fr s w)
  have emit: "J (cf_file s') \<and> 0 \<le> n" if "process_packet wr (fr_generation fr) s raw = ((n, e), s')" for raw n e s'
    using process_packet_keeps [OF 1(4), of "fr_generation fr" raw] that by (simp add: written_ok_def)
  have more: "w \<le> fst (fst (framer_drain modify_quality (process_packet wr) (discard 188 fr) s' (w + n)))"
    if "\<not> fr_lost fr" "\<not> length (fr_buffer fr) < 188" "fr_buffer fr ! 0 = 0x47"
      "process_packet wr (fr_generation fr) s (take 188 (fr_buffer fr)) = ((n, None), s')" for n s'
    using 1(2) [OF that(1,2) _ that(4) [symmetric] refl refl] emit [OF that(4)] that(3) by force
  show ?case
    using 1(1,3,4) emit more
    by (subst framer_drain.simps) (auto simp: Let_def split: option.split prod.split)
qed

lemma filter_write_keeps:
  assumes "recording_ok rf" "J (cf_file (rf_filter rf))" "filter_write wr data rf = ((n, e), rf')"
  shows "J (cf_file (rf_filter rf'))" "0 \<le> n"
  using assms kept.framer_drain_good [of "rf_filter rf" "push data (rf_framer rf)" 0]
    framer_drain_counts [of "rf_filter rf" 0 "push data (rf_framer rf)"]
  by (auto simp: filter_write_drain recording_ok_def case_prod_beta)

lemma filter_finish_keeps:
  assumes "J (cf_file (rf_filter rf))" "filter_finish wr allow rf = ((n, e), rf')"
  shows "J (cf_file (rf_filter rf'))" "0 \<le> n"
proof -
  obtain fr flt where fin: "framer_finish modify_quality (rf_framer rf) ((rf_filter rf)\<lparr>cf_finished := True\<rparr>) = (fr, flt)"
    by fastforce
  have flt: "J (cf_file flt)"
    using kept.framer_finish_good [of "(rf_filter rf)\<lparr>cf_finished := True\<rparr>" "rf_framer rf"] assms(1) by (simp add: fin)
  then have "written_ok J (fallback wr (unfinished_psi flt))" by (simp add: fallback_keeps)
  then have "J (cf_file (rf_filter rf')) \<and> 0 \<le> n"
    using assms flt
    by (auto simp: filter_finish_def fin no_write_def written_ok_def Let_def split: if_splits prod.splits)
  then show "J (cf_file (rf_filter rf'))" "0 \<le> n" by auto
qed

end

end
