(* ===== verification/Executor.thy ===== *)
theory Executor
  imports ComponentFilter FilePlans RecordingResults Effects
begin

text \<open>
  \<open>internal/app/recording/executor.go\<close>: one recording, from the claim of the reservation to the published file.  The
  store, the files, the stream provider, the clock and the contexts of the Go struct are the fields of a record of
  functions over an unknown state; the executor is an action over that state.  A file is named by its plan and a
  lease by the correlation id it was opened with.
\<close>

section \<open>The provider\<close>

datatype provider_reason =
  ProviderUnavailable | ProviderRejected | ProviderNotFound | ProviderNoTuner | ProviderTimeout | ProviderEarlyEOF
  | ProviderMalformed | ProviderOverLimit | ProviderCancelled | ProviderInternal | OtherProviderReason string

text \<open>An error whose chain holds a \<open>provider.Failure\<close>, and any other error.\<close>

datatype stream_error = ProviderFailure provider_reason | OtherStreamError

datatype terminal_kind =
  TerminalActive | TerminalCleanEnd | TerminalEarlyEOF | TerminalTimeout | TerminalRejected | TerminalCancelled
  | TerminalPeer | OtherTerminal string

record terminal =
  tm_done :: bool
  tm_reason :: terminal_kind

definition is_reason :: "stream_error option \<Rightarrow> provider_reason \<Rightarrow> bool" where
  "is_reason err reason \<longleftrightarrow> err = Some (ProviderFailure reason)"

definition max_stream_chunk :: nat where
  "max_stream_chunk = 188 * 1024"

definition new_tuning_target :: "bytes \<Rightarrow> (provider_reason, bytes) result" where
  "new_tuning_target v =
     (if v = [] then Inl ProviderMalformed else if length v > 256 then Inl ProviderOverLimit else Inr v)"

definition stream_failure_reason :: "stream_error option \<Rightarrow> terminal_reason" where
  "stream_failure_reason err =
     (if is_reason err ProviderNotFound then ReasonStreamNotFound
      else if is_reason err ProviderTimeout then ReasonStreamTimeout
      else if is_reason err ProviderCancelled then ReasonStreamCancelled
      else ReasonStreamUnavailable)"

definition stream_terminal_reason :: "stream_error option \<Rightarrow> terminal \<Rightarrow> terminal_reason" where
  "stream_terminal_reason err terminal =
     (case tm_reason terminal of
        TerminalTimeout \<Rightarrow> ReasonStreamTimeout
      | TerminalCancelled \<Rightarrow> ReasonStreamCancelled
      | TerminalEarlyEOF \<Rightarrow> ReasonStreamEndedEarly
      | TerminalCleanEnd \<Rightarrow> ReasonStreamEndedEarly
      | _ \<Rightarrow> stream_failure_reason err)"

definition retryable_stream_failure :: "stream_error option \<Rightarrow> terminal \<Rightarrow> bool" where
  "retryable_stream_failure err terminal =
     (if is_reason err ProviderUnavailable \<or> is_reason err ProviderTimeout \<or> is_reason err ProviderEarlyEOF then True
      else case tm_reason terminal of
             TerminalCleanEnd \<Rightarrow> True
           | TerminalEarlyEOF \<Rightarrow> True
           | TerminalTimeout \<Rightarrow> True
           | TerminalPeer \<Rightarrow> True
           | _ \<Rightarrow> False)"

definition stream_correlation_id :: "entity_id \<Rightarrow> nat \<Rightarrow> bytes" where
  "stream_correlation_id attempt_id connection =
     (if connection = 0 then string_id attempt_id
      else string_id attempt_id @ ascii ''-reconnect-'' @ decimal connection)"

section \<open>The environment\<close>

text \<open>
  The context of the caller, the context of the stream with its deadline (of the main stream or of the one-seg
  stream), and a context without cancellation.
\<close>

datatype exec_context = ParentContext | StreamContext bool | Detached

datatype context_state = ContextLive | ContextCancelled | ContextDeadline

text \<open>The calls that answer only whether they succeeded.\<close>

datatype exec_call =
  StartAttempt exec_context entity_id instant
  | CreatePartialFile file_plan
  | SyncFile file_plan
  | CloseFile file_plan
  | SyncFolder file_plan
  | RemovePartialFile file_plan
  | CancelLease bytes
  | CloseLease bytes
  | StartedOneSeg exec_context entity_id instant
  | PublishedFinal exec_context entity_id instant
  | SyncedFolder exec_context entity_id instant
  | PublishedOneSeg exec_context entity_id instant
  | SyncedOneSeg exec_context entity_id instant
  | OneSegOutcome exec_context entity_id one_seg_result instant
  | Finish exec_context finish_request

text \<open>The store calls that answer with the planned end.\<close>

datatype exec_timed =
  RecordingStarted exec_context entity_id instant
  | RecordingProgress exec_context entity_id int instant quality_summary
  | OneSegProgress exec_context entity_id int instant quality_summary

datatype finalize_answer = Finalization finalize_request | FinalizationUnavailable | FinalizationError

datatype phase = PhaseStart | PhaseContinue | PhaseFallback | PhaseReconnect | PhaseConnectionEnd | PhaseFinal

record post_request =
  po_script :: bytes
  po_number :: int
  po_path :: bytes
  po_state :: attempt_state
  po_reason :: terminal_reason

text \<open>
  A failed link answers, as in the recovery, whether the error is \<open>ErrUnsupported\<close> and whether it is
  \<open>ErrFinalExists\<close>.  Function fields that may be nil are optional.
\<close>

record 's executor =
  ex_owner :: entity_id
  ex_generation :: int
  ex_extension_only :: bool
  ex_now :: "'s \<Rightarrow> instant \<times> 's"
  ex_context :: "exec_context \<Rightarrow> 's \<Rightarrow> context_state \<times> 's"
  ex_new_id :: "'s \<Rightarrow> entity_id option \<times> 's"
  ex_wait :: "exec_context \<Rightarrow> int \<Rightarrow> 's \<Rightarrow> bool \<times> 's"
  ex_claim :: "exec_context \<Rightarrow> claim_request \<Rightarrow> 's \<Rightarrow> attempt option \<times> 's"
  ex_stop_requested :: "exec_context \<Rightarrow> entity_id \<Rightarrow> 's \<Rightarrow> bool option \<times> 's"
  ex_call :: "exec_call \<Rightarrow> 's \<Rightarrow> bool \<times> 's"
  ex_timed :: "exec_timed \<Rightarrow> 's \<Rightarrow> instant option \<times> 's"
  ex_finalize :: "exec_context \<Rightarrow> finalize_request \<Rightarrow> 's \<Rightarrow> finalize_answer \<times> 's"
  ex_write :: "file_plan \<Rightarrow> ('s, unit) file_write"
  ex_link :: "file_plan \<Rightarrow> 's \<Rightarrow> (bool \<times> bool) option \<times> 's"
  ex_open :: "exec_context \<Rightarrow> bytes \<Rightarrow> bytes \<Rightarrow> 's \<Rightarrow> stream_error option \<times> 's"
  ex_read :: "bytes \<Rightarrow> exec_context \<Rightarrow> nat \<Rightarrow> 's \<Rightarrow> (int \<times> bytes \<times> terminal \<times> stream_error option) \<times> 's"
  ex_final_path :: "(file_plan \<Rightarrow> 's \<Rightarrow> bytes option \<times> 's) option"
  ex_post :: "(exec_context \<Rightarrow> post_request \<Rightarrow> 's \<Rightarrow> bytes \<times> 's) option"
  ex_observe_post :: "(bytes \<Rightarrow> 's \<Rightarrow> 's) option"
  ex_observe :: "(nat \<Rightarrow> phase \<Rightarrow> quality_summary \<Rightarrow> 's \<Rightarrow> 's) option"

text \<open>What a recording ended with, and the errors of the package; \<open>PublicationStopped\<close> carries the result beside it.\<close>

record exec_result =
  xr_state :: attempt_state
  xr_reason :: terminal_reason
  xr_post_recording :: post_recording_mode

datatype exec_error =
  InvalidMissedReason | FinishMissed | InvalidExecutor | InvalidExecutorClock | AttemptIdFailed | SegmentIdFailed
  | OneSegIdFailed | PlanFailed output_error | ClaimFailed | InvalidClaimedAttempt | PersistStarting
  | ReadInitialStop | ReadStopBeforeConnection | ReadStopBeforeStream | PersistRecordingStart
  | ReadStopAfterCancellation | PersistCommunicationProgress | PersistFinalProgress | PersistStoppedProgress
  | PersistUnsuccessfulFinish | FinalizationTokenFailed | PersistFinalizationStart | InvalidFinalizationResult
  | PersistUnsupportedPublication | PublicationStopped exec_result | OutOfFuel

type_synonym ('s, 'a) exec = "('s, exec_error, 'a) act"

text \<open>An operation of the environment as an action; \<open>executor.now()\<close> converts to UTC.\<close>

definition perform :: "('s \<Rightarrow> 'a \<times> 's) \<Rightarrow> ('s, 'a) exec" where
  "perform f s = (case f s of (x, s') \<Rightarrow> (Inr x, s'))"

definition now :: "'s executor \<Rightarrow> ('s, instant) exec" where
  "now ex = act_bind (perform (ex_now ex)) (\<lambda>t. act_return (in_utc t))"

definition call :: "'s executor \<Rightarrow> exec_call \<Rightarrow> ('s, bool) exec" where
  "call ex c = perform (ex_call ex c)"

definition must :: "'s executor \<Rightarrow> exec_call \<Rightarrow> exec_error \<Rightarrow> ('s, unit) exec" where
  "must ex c e = act_bind (call ex c) (\<lambda>good. act_require good e)"

definition ignoring :: "'s executor \<Rightarrow> exec_call \<Rightarrow> ('s, unit) exec" where
  "ignoring ex c = act_bind (call ex c) (\<lambda>_. act_return ())"

text \<open>A call that is given the time of the call.\<close>

definition must_now :: "'s executor \<Rightarrow> (instant \<Rightarrow> exec_call) \<Rightarrow> exec_error \<Rightarrow> ('s, unit) exec" where
  "must_now ex c e = act_bind (now ex) (\<lambda>t. must ex (c t) e)"

definition live :: "'s executor \<Rightarrow> exec_context \<Rightarrow> ('s, context_state) exec" where
  "live ex ctx = (if ctx = Detached then act_return ContextLive else perform (ex_context ex ctx))"

definition stop_requested :: "'s executor \<Rightarrow> entity_id \<Rightarrow> ('s, bool option) exec" where
  "stop_requested ex attempt_id = perform (ex_stop_requested ex Detached attempt_id)"

section \<open>Observation of the quality\<close>

record observation =
  on_ordinal :: nat
  on_last_time :: instant
  on_last_quality :: quality_summary

text \<open>\<open>emit\<close>: the phases of a running copy are held back until the quality changed and 30 seconds have passed.\<close>

definition throttled :: "phase \<Rightarrow> bool" where
  "throttled phase \<longleftrightarrow> phase \<in> {PhaseContinue, PhaseFallback, PhaseReconnect}"

definition emit_at :: "'s executor \<Rightarrow> phase \<Rightarrow> quality_summary \<Rightarrow> instant \<Rightarrow> observation \<Rightarrow> ('s, observation) exec" where
  "emit_at ex phase q t obs =
     (case ex_observe ex of
        None \<Rightarrow> act_return obs
      | Some notify \<Rightarrow>
          if throttled phase \<and> (q = on_last_quality obs \<or> sub_time t (on_last_time obs) < 30 * second)
          then act_return obs
          else
            let obs' = (if throttled phase then obs\<lparr>on_last_time := t, on_last_quality := q\<rparr> else obs)
            in act_bind (perform (\<lambda>s. ((), notify (on_ordinal obs) phase q s))) (\<lambda>_. act_return obs'))"

definition emit :: "'s executor \<Rightarrow> phase \<Rightarrow> quality_summary \<Rightarrow> observation \<Rightarrow> ('s, observation) exec" where
  "emit ex phase q obs = act_bind (now ex) (\<lambda>t. emit_at ex phase q t obs)"

section \<open>Ending without a completed file\<close>

definition minimum_useful_ts :: int where "minimum_useful_ts = 188"

definition result_of :: "attempt_state \<Rightarrow> terminal_reason \<Rightarrow> exec_result" where
  "result_of state reason = \<lparr>xr_state = state, xr_reason = reason, xr_post_recording = 0\<rparr>"

definition count_state :: "int \<Rightarrow> terminal_reason \<Rightarrow> attempt_state" where
  "count_state byte_count reason =
     (if reason = ReasonUserRequestedStop then AttemptCancelled
      else if reason = ReasonProcessShutdown then AttemptCancelled
      else if byte_count \<ge> minimum_useful_ts then AttemptPartial
      else AttemptFailed)"

definition finish_by_count ::
    "'s executor \<Rightarrow> exec_context \<Rightarrow> entity_id \<Rightarrow> int \<Rightarrow> terminal_reason \<Rightarrow> bool \<Rightarrow> quality_summary
      \<Rightarrow> ('s, exec_result) exec" where
  "finish_by_count ex ctx attempt_id byte_count reason file_exists q =
     act_bind (now ex) (\<lambda>t.
       let finish = \<lparr>fn_quality = q, fn_attempt_id = attempt_id, fn_state = count_state byte_count reason,
             fn_reason = reason, fn_byte_count = byte_count,
             fn_availability = (if file_exists then AvailabilityPartial else AvailabilityMissing),
             fn_recovered = False, fn_now = t, fn_one_seg = None\<rparr>
       in act_seq (must ex (Finish ctx finish) PersistUnsuccessfulFinish)
            (act_return (result_of (fn_state finish) reason)))"

definition finish_without_file :: "'s executor \<Rightarrow> entity_id \<Rightarrow> terminal_reason \<Rightarrow> ('s, exec_result) exec" where
  "finish_without_file ex attempt_id reason = finish_by_count ex Detached attempt_id 0 reason False zero_quality"

definition finish_partial_after_close ::
    "'s executor \<Rightarrow> file_plan \<Rightarrow> entity_id \<Rightarrow> int \<Rightarrow> terminal_reason \<Rightarrow> quality_summary \<Rightarrow> ('s, exec_result) exec" where
  "finish_partial_after_close ex file attempt_id byte_count reason q =
     act_bind (call ex (CloseFile file)) (\<lambda>closed.
       finish_by_count ex Detached attempt_id byte_count (if closed then reason else ReasonFileSyncFailed) True q)"

definition finish_before_recording ::
    "'s executor \<Rightarrow> file_plan \<Rightarrow> entity_id \<Rightarrow> terminal_reason \<Rightarrow> quality_summary \<Rightarrow> ('s, exec_result) exec" where
  "finish_before_recording ex file attempt_id reason q =
     act_bind (call ex (SyncFile file)) (\<lambda>synced.
       finish_partial_after_close ex file attempt_id 0 (if synced then reason else ReasonFileSyncFailed) q)"

section \<open>The copy of one connection\<close>

record stream_copy =
  cr_byte_count :: int
  cr_actual_start :: instant
  cr_last_progress :: instant
  cr_planned_end :: instant
  cr_maximum_end :: instant
  cr_reason :: terminal_reason
  cr_reached_end :: bool
  cr_retryable :: bool
  cr_quality :: quality_summary
  cr_observation :: observation

abbreviation max_int64 :: int where "max_int64 \<equiv> 2 ^ 63 - 1"

text \<open>The reason of a cancelled context; \<open>None\<close> is the error of reading the stop request.\<close>

definition cancel_reason :: "'s executor \<Rightarrow> entity_id \<Rightarrow> ('s, terminal_reason option) exec" where
  "cancel_reason ex attempt_id =
     act_bind (stop_requested ex attempt_id) (\<lambda>answer.
       act_return (case answer of
           None \<Rightarrow> None
         | Some requested \<Rightarrow> Some (if requested then ReasonUserRequestedStop else ReasonProcessShutdown)))"

definition note_cancel :: "'s executor \<Rightarrow> entity_id \<Rightarrow> stream_copy \<Rightarrow> ('s, stream_copy) exec" where
  "note_cancel ex attempt_id cr =
     act_bind (cancel_reason ex attempt_id) (\<lambda>answer.
       act_return (cr\<lparr>cr_reason := (case answer of None \<Rightarrow> ReasonProcessInterrupted | Some reason \<Rightarrow> reason)\<rparr>))"

definition end_copy :: "'s executor \<Rightarrow> entity_id \<Rightarrow> stream_copy \<Rightarrow> ('s, stream_copy) exec" where
  "end_copy ex attempt_id cr =
     act_bind (stop_requested ex attempt_id) (\<lambda>answer.
       act_return (case answer of
           None \<Rightarrow> cr\<lparr>cr_reason := ReasonProcessInterrupted\<rparr>
         | Some stop \<Rightarrow>
             if stop then cr\<lparr>cr_reason := ReasonUserRequestedStop\<rparr>
             else cr\<lparr>cr_reason := ReasonCompleted, cr_reached_end := True\<rparr>))"

text \<open>The planned end that the store answers with has to lie in the recording and may not be taken back.\<close>

definition planned_end_ok :: "'s executor \<Rightarrow> attempt \<Rightarrow> stream_copy \<Rightarrow> instant option \<Rightarrow> bool" where
  "planned_end_ok ex at cr answer \<longleftrightarrow>
     (case answer of
        None \<Rightarrow> False
      | Some t \<Rightarrow>
          \<not> is_zero_time t \<and> t_utc t \<and> after_time t (at_planned_start at) \<and> \<not> after_time t (cr_maximum_end cr) \<and>
          \<not> (ex_extension_only ex \<and> before_time t (cr_planned_end cr)))"

text \<open>The filter works on the state: it is given the current one and leaves the next one in its file.\<close>

definition with_file :: "'s \<Rightarrow> 's recording_filter \<Rightarrow> 's recording_filter" where
  "with_file s rf = rf\<lparr>rf_filter := (rf_filter rf)\<lparr>cf_file := s\<rparr>\<rparr>"

definition filter_quality :: "'s recording_filter \<Rightarrow> quality_summary" where
  "filter_quality rf = cf_quality (rf_filter rf)"

definition run_filter ::
    "('s recording_filter \<Rightarrow> (unit, 's recording_filter) written) \<Rightarrow> 's recording_filter
      \<Rightarrow> ('s, int \<times> bool \<times> 's recording_filter) exec" where
  "run_filter f rf s =
     (case f (with_file s rf) of
        ((n, e), rf') \<Rightarrow> (Inr (n, e \<noteq> None, rf'), cf_file (rf_filter rf')))"

text \<open>One turn of the loop ends the copy or goes on; a turn is a sequence of parts.\<close>

datatype 's turn = CopyEnded stream_copy "'s recording_filter" | CopyGoesOn stream_copy "'s recording_filter"

definition turn_then ::
    "('s, 's turn) exec \<Rightarrow> (stream_copy \<Rightarrow> 's recording_filter \<Rightarrow> ('s, 's turn) exec) \<Rightarrow> ('s, 's turn) exec" where
  "turn_then m k =
     act_bind m (\<lambda>t. case t of CopyEnded cr rf \<Rightarrow> act_return (CopyEnded cr rf) | CopyGoesOn cr rf \<Rightarrow> k cr rf)"

definition ended :: "('s, stream_copy) exec \<Rightarrow> 's recording_filter \<Rightarrow> ('s, 's turn) exec" where
  "ended m rf = act_bind m (\<lambda>cr. act_return (CopyEnded cr rf))"

text \<open>The checks before a read.\<close>

definition before_read ::
    "'s executor \<Rightarrow> exec_context \<Rightarrow> exec_context \<Rightarrow> entity_id \<Rightarrow> stream_copy \<Rightarrow> 's recording_filter \<Rightarrow> ('s, 's turn) exec" where
  "before_read ex parent ctx attempt_id cr rf =
     act_bind (live ex parent) (\<lambda>c.
       if c \<noteq> ContextLive then ended (note_cancel ex attempt_id cr) rf
       else act_bind (now ex) (\<lambda>t.
         if \<not> before_time t (cr_planned_end cr) then ended (end_copy ex attempt_id cr) rf
         else act_bind (live ex ctx) (\<lambda>c.
           if c \<noteq> ContextLive
           then act_return (CopyEnded
                  (cr\<lparr>cr_reason := (if c = ContextDeadline then ReasonStreamTimeout else ReasonStreamCancelled)\<rparr>) rf)
           else act_return (CopyGoesOn cr rf))))"

text \<open>What was read goes through the filter.\<close>

definition copy_chunk ::
    "'s executor \<Rightarrow> file_plan \<Rightarrow> bytes \<Rightarrow> stream_copy \<Rightarrow> 's recording_filter \<Rightarrow> ('s, 's turn) exec" where
  "copy_chunk ex file data cr rf =
     act_bind (run_filter (filter_write (ex_write ex file) data) rf) (\<lambda>(written, failed, rf).
       let phase = (if \<not> q_selection_unverified (cr_quality cr) \<and> q_selection_unverified (filter_quality rf)
                    then PhaseFallback else PhaseContinue);
           cr = cr\<lparr>cr_quality := filter_quality rf\<rparr>
       in act_bind (emit ex phase (cr_quality cr) (cr_observation cr)) (\<lambda>obs.
            let cr = cr\<lparr>cr_observation := obs\<rparr>
            in if cr_byte_count cr > max_int64 - written
               then act_return (CopyEnded (cr\<lparr>cr_reason := ReasonFileWriteFailed\<rparr>) rf)
               else let cr = cr\<lparr>cr_byte_count := cr_byte_count cr + written\<rparr>
                    in act_return (if failed then CopyEnded (cr\<lparr>cr_reason := ReasonFileWriteFailed\<rparr>) rf
                                   else CopyGoesOn cr rf)))"

text \<open>Every five seconds the progress is stored, the planned end is read back and the stop request is looked at.\<close>

definition copy_progress ::
    "'s executor \<Rightarrow> attempt \<Rightarrow> bool \<Rightarrow> instant \<Rightarrow> stream_copy \<Rightarrow> 's recording_filter \<Rightarrow> ('s, 's turn) exec" where
  "copy_progress ex at one_seg t cr rf =
     (if sub_time t (cr_last_progress cr) < 5 * second then act_return (CopyGoesOn cr rf)
      else
        act_bind (perform (ex_timed ex
            (if one_seg then OneSegProgress Detached (at_id at) (cr_byte_count cr) t (cr_quality cr)
             else RecordingProgress Detached (at_id at) (cr_byte_count cr) t (cr_quality cr)))) (\<lambda>answer.
          if \<not> planned_end_ok ex at cr answer
          then act_return (CopyEnded (cr\<lparr>cr_reason := ReasonProcessInterrupted\<rparr>) rf)
          else
            let cr = cr\<lparr>cr_planned_end := the answer, cr_last_progress := t\<rparr>
            in act_bind (stop_requested ex (at_id at)) (\<lambda>stop.
                 act_return (case stop of
                     None \<Rightarrow> CopyEnded (cr\<lparr>cr_reason := ReasonProcessInterrupted\<rparr>) rf
                   | Some requested \<Rightarrow>
                       if requested then CopyEnded (cr\<lparr>cr_reason := ReasonUserRequestedStop\<rparr>) rf
                       else CopyGoesOn cr rf))))"

text \<open>What ends a turn after the read: cancellation, the planned end, the end of the stream, an empty read.\<close>

definition after_read ::
    "'s executor \<Rightarrow> exec_context \<Rightarrow> entity_id \<Rightarrow> instant \<Rightarrow> int \<Rightarrow> terminal \<Rightarrow> stream_error option \<Rightarrow> stream_copy
      \<Rightarrow> 's recording_filter \<Rightarrow> ('s, 's turn) exec" where
  "after_read ex parent attempt_id t count terminal err cr rf =
     act_bind (live ex parent) (\<lambda>c.
       if c \<noteq> ContextLive then ended (note_cancel ex attempt_id cr) rf
       else if \<not> before_time t (cr_planned_end cr) then ended (end_copy ex attempt_id cr) rf
       else if err \<noteq> None \<or> tm_done terminal
       then act_return (CopyEnded (cr\<lparr>cr_reason := stream_terminal_reason err terminal,
              cr_retryable := retryable_stream_failure err terminal\<rparr>) rf)
       else if count = 0
       then act_return (CopyEnded (cr\<lparr>cr_reason := ReasonStreamUnavailable, cr_retryable := True\<rparr>) rf)
       else act_return (CopyGoesOn cr rf))"

definition copy_turn ::
    "'s executor \<Rightarrow> exec_context \<Rightarrow> exec_context \<Rightarrow> bytes \<Rightarrow> file_plan \<Rightarrow> attempt \<Rightarrow> bool \<Rightarrow> stream_copy \<Rightarrow> 's recording_filter
      \<Rightarrow> ('s, 's turn) exec" where
  "copy_turn ex parent ctx lease file at one_seg cr rf =
     turn_then (before_read ex parent ctx (at_id at) cr rf) (\<lambda>cr rf.
       act_bind (perform (ex_read ex lease ctx max_stream_chunk)) (\<lambda>(count, data, terminal, err).
         if count < 0 \<or> count > int max_stream_chunk
         then act_return (CopyEnded (cr\<lparr>cr_reason := ReasonStreamUnavailable\<rparr>) rf)
         else
           turn_then (if count > 0 then copy_chunk ex file (take (nat count) data) cr rf
                      else act_return (CopyGoesOn cr rf)) (\<lambda>cr rf.
             act_bind (now ex) (\<lambda>t.
               turn_then (copy_progress ex at one_seg t cr rf) (\<lambda>cr rf.
                 after_read ex parent (at_id at) t count terminal err cr rf)))))"

text \<open>The loop; it may run as long as the clock stands still, so its turns are counted.\<close>

primrec copy_loop ::
    "nat \<Rightarrow> 's executor \<Rightarrow> exec_context \<Rightarrow> exec_context \<Rightarrow> bytes \<Rightarrow> file_plan \<Rightarrow> attempt \<Rightarrow> bool \<Rightarrow> stream_copy
      \<Rightarrow> 's recording_filter \<Rightarrow> ('s, stream_copy \<times> 's recording_filter) exec" where
  "copy_loop 0 ex parent ctx lease file at one_seg cr rf = act_fail OutOfFuel"
| "copy_loop (Suc fuel) ex parent ctx lease file at one_seg cr rf =
     act_bind (copy_turn ex parent ctx lease file at one_seg cr rf) (\<lambda>t.
       case t of
         CopyEnded cr rf \<Rightarrow> act_return (cr, rf)
       | CopyGoesOn cr rf \<Rightarrow> copy_loop fuel ex parent ctx lease file at one_seg cr rf)"

text \<open>The deferred end of a copy: a cancelled caller decides the reason, and the filter is finished.\<close>

definition allow_buffered :: "stream_copy \<Rightarrow> bool \<Rightarrow> bool" where
  "allow_buffered cr parent_live \<longleftrightarrow>
     cr_reached_end cr \<or> cr_reason cr = ReasonUserRequestedStop \<or>
     parent_live \<and> (cr_reason cr = ReasonStreamEndedEarly \<or> cr_reason cr = ReasonStreamTimeout \<or>
       cr_reason cr = ReasonStreamUnavailable)"

definition degrade :: "quality_summary \<Rightarrow> quality_summary" where
  "degrade q = q\<lparr>q_status := QualityDegraded\<rparr>"

definition settle_copy :: "int \<Rightarrow> bool \<Rightarrow> quality_summary \<Rightarrow> stream_copy \<Rightarrow> stream_copy" where
  "settle_copy written failed q cr =
     (let cr = cr\<lparr>cr_quality :=
                (if communication_partial_reason (cr_reason cr) \<or> cr_reason cr = ReasonStreamUnavailable
                 then degrade q else q)\<rparr>;
          over = cr_byte_count cr > max_int64 - written;
          cr = (if over then cr else cr\<lparr>cr_byte_count := cr_byte_count cr + written\<rparr>)
      in if failed \<or> over
         then cr\<lparr>cr_reason := ReasonFileWriteFailed, cr_retryable := False, cr_reached_end := False\<rparr>
         else cr)"

definition finish_copy ::
    "'s executor \<Rightarrow> exec_context \<Rightarrow> file_plan \<Rightarrow> entity_id \<Rightarrow> stream_copy \<Rightarrow> 's recording_filter \<Rightarrow> ('s, stream_copy) exec" where
  "finish_copy ex parent file attempt_id cr rf =
     act_bind (live ex parent) (\<lambda>c.
       act_bind (if c = ContextLive then act_return cr
                 else act_bind (note_cancel ex attempt_id cr) (\<lambda>cr.
                        act_return (cr\<lparr>cr_reached_end := False, cr_retryable := False\<rparr>))) (\<lambda>cr.
         act_bind (if cr_reached_end cr \<or> cr_reason cr = ReasonUserRequestedStop then act_return ContextLive
                   else live ex parent) (\<lambda>c.
           act_bind (run_filter (filter_finish (ex_write ex file) (allow_buffered cr (c = ContextLive))) rf)
             (\<lambda>(written, failed, rf). act_return (settle_copy written failed (filter_quality rf) cr)))))"

definition copy ::
    "nat \<Rightarrow> 's executor \<Rightarrow> exec_context \<Rightarrow> exec_context \<Rightarrow> bytes \<Rightarrow> file_plan \<Rightarrow> attempt \<Rightarrow> component_mode \<Rightarrow> stream_copy \<Rightarrow> bool
      \<Rightarrow> ('s, stream_copy) exec" where
  "copy fuel ex parent ctx lease file at mode cr one_seg =
     (let cr = cr\<lparr>cr_reached_end := False, cr_retryable := False\<rparr>; kept = effective_components mode
      in act_bind (act_get (\<lambda>s. new_recording_filter s (rc_captions kept) (rc_data kept) (cr_quality cr))) (\<lambda>rf.
           act_bind (copy_loop fuel ex parent ctx lease file at one_seg cr rf) (\<lambda>(cr, rf).
             finish_copy ex parent file (at_id at) cr rf)))"

section \<open>Publication\<close>

text \<open>
  A cancelled caller stops the publication unless the user asked for the stop: then the recording is published as a
  partial one.  The continuation is given the state and the reason to publish with.
\<close>

definition unless_cancelled ::
    "'s executor \<Rightarrow> exec_context \<Rightarrow> entity_id \<Rightarrow> int \<Rightarrow> quality_summary \<Rightarrow> attempt_state \<times> terminal_reason
      \<Rightarrow> (attempt_state \<times> terminal_reason \<Rightarrow> ('s, exec_result) exec) \<Rightarrow> ('s, exec_result) exec" where
  "unless_cancelled ex ctx attempt_id byte_count q planned k =
     act_bind (live ex ctx) (\<lambda>c.
       if c = ContextLive then k planned
       else act_bind (cancel_reason ex attempt_id) (\<lambda>answer.
         case answer of
           None \<Rightarrow> act_fail ReadStopAfterCancellation
         | Some reason \<Rightarrow>
             if reason \<noteq> ReasonUserRequestedStop then finish_by_count ex Detached attempt_id byte_count reason True q
             else k (AttemptPartial, reason)))"

definition stopped_at :: "terminal_reason \<Rightarrow> exec_error" where
  "stopped_at reason = PublicationStopped (result_of AttemptFinalizing reason)"

text \<open>The steps after the link: each one is durable before the next.\<close>

definition complete_publication ::
    "'s executor \<Rightarrow> exec_context \<Rightarrow> attempt \<Rightarrow> int \<Rightarrow> attempt_state \<Rightarrow> terminal_reason \<Rightarrow> quality_summary
      \<Rightarrow> ('s, exec_result) exec" where
  "complete_publication ex ctx at byte_count state reason q =
     act_seq (must_now ex (PublishedFinal ctx (at_id at)) (stopped_at ReasonFinalDatabaseFailed))
       (act_seq (must ex (SyncFolder (at_plan at)) (stopped_at ReasonFileSyncFailed))
         (act_seq (must ex (RemovePartialFile (at_plan at)) (stopped_at ReasonFinalPublicationFailed))
           (act_seq (must ex (SyncFolder (at_plan at)) (stopped_at ReasonFileSyncFailed))
             (act_seq (must_now ex (SyncedFolder ctx (at_id at)) (stopped_at ReasonFinalDatabaseFailed))
               (act_bind (now ex) (\<lambda>t.
                 let finish = \<lparr>fn_quality = q, fn_attempt_id = at_id at, fn_state = state, fn_reason = reason,
                       fn_byte_count = byte_count, fn_availability = AvailabilityFinal, fn_recovered = False, fn_now = t,
                       fn_one_seg = None\<rparr>
                 in act_seq (must ex (Finish ctx finish) (stopped_at ReasonFinalDatabaseFailed))
                      (act_return (result_of state reason))))))))"

text \<open>The link of the final name to the closed partial file.\<close>

definition link_and_complete ::
    "'s executor \<Rightarrow> attempt \<Rightarrow> int \<Rightarrow> finalize_request \<Rightarrow> quality_summary \<Rightarrow> ('s, exec_result) exec" where
  "link_and_complete ex at byte_count fz q =
     act_bind (perform (ex_link ex (at_plan at))) (\<lambda>answer.
       case answer of
         None \<Rightarrow> complete_publication ex Detached at byte_count (fz_state fz) (fz_reason fz) q
       | Some (unsupported, exists) \<Rightarrow>
           if unsupported then
             act_bind (now ex) (\<lambda>t.
               let finish = \<lparr>fn_quality = q, fn_attempt_id = at_id at, fn_state = AttemptFailed,
                     fn_reason = ReasonFinalPublicationFailed, fn_byte_count = byte_count,
                     fn_availability = AvailabilityPartial, fn_recovered = False, fn_now = t, fn_one_seg = None\<rparr>
               in act_seq (must ex (Finish Detached finish) PersistUnsupportedPublication)
                    (act_return (result_of AttemptFailed ReasonFinalPublicationFailed)))
           else if exists then act_fail (stopped_at ReasonFinalNameConflict)
           else act_fail (stopped_at ReasonFinalPublicationFailed))"

text \<open>The answer of the store has to be about the request.\<close>

definition answer_ok :: "finalize_request \<Rightarrow> finalize_request \<Rightarrow> bool" where
  "answer_ok request fz \<longleftrightarrow>
     is_ok (validate_finalize fz) \<and> fz_attempt_id fz = fz_attempt_id request \<and> fz_token fz = fz_token request \<and>
     fz_byte_count fz = fz_byte_count request"

definition take_answer ::
    "'s executor \<Rightarrow> attempt \<Rightarrow> int \<Rightarrow> quality_summary \<Rightarrow> finalize_request \<Rightarrow> finalize_answer \<Rightarrow> ('s, exec_result) exec" where
  "take_answer ex at byte_count q request answer =
     (case answer of
        Finalization fz \<Rightarrow>
          if answer_ok request fz then link_and_complete ex at byte_count fz q else act_fail InvalidFinalizationResult
      | _ \<Rightarrow> act_fail PersistFinalizationStart)"

text \<open>The finalization, asked for again as a user stop when it was refused because the caller was cancelled.\<close>

definition begin_finalization ::
    "'s executor \<Rightarrow> exec_context \<Rightarrow> attempt \<Rightarrow> int \<Rightarrow> entity_id \<Rightarrow> quality_summary \<Rightarrow> attempt_state \<times> terminal_reason
      \<Rightarrow> ('s, exec_result) exec" where
  "begin_finalization ex ctx at byte_count token q planned =
     act_bind (now ex) (\<lambda>t.
       let request = \<lparr>fz_quality = q, fz_attempt_id = at_id at, fz_token = token, fz_byte_count = byte_count,
             fz_state = fst planned, fz_reason = snd planned, fz_now = t, fz_one_seg = None\<rparr>
       in act_bind (perform (ex_finalize ex
              (if snd planned = ReasonUserRequestedStop then Detached else ctx) request)) (\<lambda>answer.
            if answer \<noteq> FinalizationUnavailable then take_answer ex at byte_count q request answer
            else act_bind (live ex ctx) (\<lambda>c.
              if c = ContextLive then take_answer ex at byte_count q request answer
              else act_bind (cancel_reason ex (at_id at)) (\<lambda>cancelled.
                case cancelled of
                  None \<Rightarrow> act_fail ReadStopAfterCancellation
                | Some reason \<Rightarrow>
                    if reason \<noteq> ReasonUserRequestedStop
                    then finish_by_count ex Detached (at_id at) byte_count reason True q
                    else
                      let request = request\<lparr>fz_state := AttemptPartial, fz_reason := ReasonUserRequestedStop\<rparr>
                      in act_bind (perform (ex_finalize ex Detached request)) (take_answer ex at byte_count q request)))))"

definition publish_final ::
    "'s executor \<Rightarrow> exec_context \<Rightarrow> attempt \<Rightarrow> int \<Rightarrow> attempt_state \<Rightarrow> terminal_reason \<Rightarrow> quality_summary
      \<Rightarrow> ('s, exec_result) exec" where
  "publish_final ex ctx at byte_count state reason q =
     unless_cancelled ex ctx (at_id at) byte_count q (state, reason) (\<lambda>planned.
       act_bind (perform (ex_new_id ex)) (\<lambda>answer.
         case answer of
           None \<Rightarrow> act_fail FinalizationTokenFailed
         | Some token \<Rightarrow>
             unless_cancelled ex ctx (at_id at) byte_count q planned
               (begin_finalization ex ctx at byte_count token q)))"

text \<open>The script after a recording; an empty reason is success.\<close>

definition run_post_script ::
    "'s executor \<Rightarrow> exec_context \<Rightarrow> reservation \<Rightarrow> attempt \<Rightarrow> exec_result \<Rightarrow> ('s, bytes) exec" where
  "run_post_script ex ctx r at result =
     (let invalid = ascii ''post-recording-script-invalid'' in
      case (ex_final_path ex, ex_post ex) of
        (Some path_of, Some post) \<Rightarrow>
          act_bind (perform (path_of (at_plan at))) (\<lambda>answer.
            case answer of
              None \<Rightarrow> act_return invalid
            | Some path \<Rightarrow>
                perform (post (if xr_state result = AttemptPartial then Detached else ctx)
                  \<lparr>po_script = pr_script (r_post_recording r), po_number = r_number r, po_path = path,
                   po_state = xr_state result, po_reason = xr_reason result\<rparr>))
      | _ \<Rightarrow> act_return invalid)"

definition observe_post :: "'s executor \<Rightarrow> bytes \<Rightarrow> ('s, unit) exec" where
  "observe_post ex reason =
     (case ex_observe_post ex of
        None \<Rightarrow> act_return ()
      | Some notify \<Rightarrow> if reason = [] then act_return () else perform (\<lambda>s. ((), notify reason s)))"

definition publish_and_post_process ::
    "'s executor \<Rightarrow> exec_context \<Rightarrow> reservation \<Rightarrow> attempt \<Rightarrow> int \<Rightarrow> attempt_state \<Rightarrow> terminal_reason \<Rightarrow> quality_summary
      \<Rightarrow> ('s, exec_result) exec" where
  "publish_and_post_process ex ctx r at byte_count state reason q =
     act_bind (publish_final ex ctx at byte_count state reason q) (\<lambda>result.
       if xr_state result \<noteq> AttemptSucceeded \<and>
          (xr_state result \<noteq> AttemptPartial \<or> xr_reason result \<noteq> ReasonUserRequestedStop)
       then act_return result
       else
         act_seq
           (act_when (pr_script (r_post_recording r) \<noteq> [])
             (act_bind (run_post_script ex ctx r at result) (observe_post ex)))
           (act_return (if changes_power (pr_mode (r_post_recording r))
                        then result\<lparr>xr_post_recording := pr_mode (r_post_recording r)\<rparr> else result)))"

section \<open>Ending with an open file\<close>

definition store_progress ::
    "'s executor \<Rightarrow> entity_id \<Rightarrow> int \<Rightarrow> quality_summary \<Rightarrow> ('s, bool) exec" where
  "store_progress ex attempt_id byte_count q =
     act_bind (now ex) (\<lambda>t.
       act_bind (perform (ex_timed ex (RecordingProgress Detached attempt_id byte_count t q))) (\<lambda>answer.
         act_return (answer \<noteq> None)))"

text \<open>The file is given up: flushed and closed whatever they answer, and the error is returned.\<close>

definition abandon :: "'s executor \<Rightarrow> file_plan \<Rightarrow> exec_error \<Rightarrow> ('s, 'a) exec" where
  "abandon ex file e = act_seq (ignoring ex (CloseFile file)) (act_fail e)"

definition finish_partial ::
    "'s executor \<Rightarrow> file_plan \<Rightarrow> entity_id \<Rightarrow> int \<Rightarrow> terminal_reason \<Rightarrow> quality_summary \<Rightarrow> ('s, exec_result) exec" where
  "finish_partial ex file attempt_id byte_count reason q =
     act_bind (store_progress ex attempt_id byte_count q) (\<lambda>stored.
       if \<not> stored then act_seq (ignoring ex (SyncFile file)) (abandon ex file PersistFinalProgress)
       else act_bind (call ex (SyncFile file)) (\<lambda>synced.
         finish_partial_after_close ex file attempt_id byte_count
           (if synced then reason else ReasonFileSyncFailed) q))"

text \<open>Flush and close, each of which may turn the recording into a failed one.\<close>

definition when_durable ::
    "'s executor \<Rightarrow> exec_context \<Rightarrow> file_plan \<Rightarrow> entity_id \<Rightarrow> int \<Rightarrow> quality_summary \<Rightarrow> ('s, exec_result) exec \<Rightarrow> ('s, exec_result) exec" where
  "when_durable ex ctx file attempt_id byte_count q k =
     act_bind (call ex (SyncFile file)) (\<lambda>synced.
       if \<not> synced then finish_partial_after_close ex file attempt_id byte_count ReasonFileSyncFailed q
       else act_bind (call ex (CloseFile file)) (\<lambda>closed.
         if \<not> closed then finish_by_count ex ctx attempt_id byte_count ReasonFileSyncFailed True q else k))"

definition finish_user_stop ::
    "'s executor \<Rightarrow> reservation \<Rightarrow> attempt \<Rightarrow> int \<Rightarrow> quality_summary \<Rightarrow> ('s, exec_result) exec" where
  "finish_user_stop ex r at byte_count q =
     act_bind (store_progress ex (at_id at) byte_count q) (\<lambda>stored.
       if \<not> stored then act_seq (ignoring ex (SyncFile (at_plan at))) (abandon ex (at_plan at) PersistStoppedProgress)
       else when_durable ex Detached (at_plan at) (at_id at) byte_count q
         (if byte_count < minimum_useful_ts
          then finish_by_count ex Detached (at_id at) byte_count ReasonUserRequestedStop True q
          else publish_and_post_process ex Detached r at byte_count AttemptPartial ReasonUserRequestedStop q))"

definition finish_communication_partial ::
    "'s executor \<Rightarrow> exec_context \<Rightarrow> attempt \<Rightarrow> stream_copy \<Rightarrow> ('s, exec_result) exec" where
  "finish_communication_partial ex ctx at cr =
     (let q = degrade (cr_quality cr); n = cr_byte_count cr;
          give_up = finish_partial ex (at_plan at) (at_id at) n (cr_reason cr) q
      in if n < minimum_useful_ts \<or> n mod 188 \<noteq> 0 \<or> is_zero_time (cr_actual_start cr) then give_up
         else act_bind (now ex) (\<lambda>t.
           if sub_time t (cr_actual_start cr) < second then give_up
           else act_bind (store_progress ex (at_id at) n q) (\<lambda>stored.
             if \<not> stored then abandon ex (at_plan at) PersistCommunicationProgress
             else when_durable ex Detached (at_plan at) (at_id at) n q
               (publish_final ex ctx at n AttemptPartial (cr_reason cr) q))))"

definition finish_stream_failure ::
    "'s executor \<Rightarrow> file_plan \<Rightarrow> entity_id \<Rightarrow> int \<Rightarrow> terminal_reason \<Rightarrow> bool \<Rightarrow> quality_summary \<Rightarrow> ('s, exec_result) exec" where
  "finish_stream_failure ex file attempt_id byte_count reason started q =
     (if \<not> started then finish_before_recording ex file attempt_id reason q
      else finish_partial ex file attempt_id byte_count reason q)"

definition finish_copy_failure ::
    "'s executor \<Rightarrow> exec_context \<Rightarrow> reservation \<Rightarrow> attempt \<Rightarrow> stream_copy \<Rightarrow> bool \<Rightarrow> ('s, exec_result) exec" where
  "finish_copy_failure ex ctx r at cr started =
     (if started \<and> cr_reason cr = ReasonUserRequestedStop
      then finish_user_stop ex r at (cr_byte_count cr) (cr_quality cr)
      else if started \<and> communication_partial_reason (cr_reason cr) then finish_communication_partial ex ctx at cr
      else finish_stream_failure ex (at_plan at) (at_id at) (cr_byte_count cr) (cr_reason cr) started (cr_quality cr))"

section \<open>The connections of a recording\<close>

text \<open>How the connections ended; the copy they left stands beside it.\<close>

datatype connections_end =
  Abandoned exec_error
  | CopyFailed bool
  | StoppedBefore terminal_reason
  | UserStopped
  | CutShort terminal_reason
  | ReachedPlannedEnd bool

record connection_state =
  cn_copy :: stream_copy
  cn_started :: bool
  cn_reconnected :: bool

definition planned_reconnect :: "'s executor \<Rightarrow> exec_context \<Rightarrow> instant \<Rightarrow> int option \<Rightarrow> bool \<Rightarrow> ('s, bool) exec" where
  "planned_reconnect ex ctx until delay retryable =
     (case delay of
        None \<Rightarrow> act_return False
      | Some d \<Rightarrow>
          if \<not> retryable then act_return False
          else act_bind (live ex ctx) (\<lambda>c.
            if c \<noteq> ContextLive then act_return False
            else act_bind (now ex) (\<lambda>t.
              if sub_time until t < 60 * second then act_return False else perform (ex_wait ex ctx d))))"

text \<open>Another connection, or the end.\<close>

type_synonym connection_outcome = "(connections_end \<times> stream_copy) + connection_state"

definition ends :: "connections_end \<Rightarrow> stream_copy \<Rightarrow> ('s, connection_outcome) exec" where
  "ends e cr = act_return (Inl (e, cr))"

text \<open>The reason of a cancelled caller is put in the copy; without it the recording is abandoned.\<close>

definition with_cancel_reason ::
    "'s executor \<Rightarrow> entity_id \<Rightarrow> stream_copy \<Rightarrow> (stream_copy \<Rightarrow> ('s, connection_outcome) exec) \<Rightarrow> ('s, connection_outcome) exec" where
  "with_cancel_reason ex attempt_id cr k =
     act_bind (cancel_reason ex attempt_id) (\<lambda>answer.
       case answer of
         None \<Rightarrow> ends (Abandoned ReadStopAfterCancellation) cr
       | Some reason \<Rightarrow> k (cr\<lparr>cr_reason := reason\<rparr>))"

text \<open>
  After a connection that failed or ended early: another one, or the end.  A cancelled caller decides the reason; the
  continuation says how the recording ends then.
\<close>

definition after_failure ::
    "'s executor \<Rightarrow> attempt \<Rightarrow> int option \<Rightarrow> connection_state \<Rightarrow> (stream_copy \<Rightarrow> ('s, connection_outcome) exec)
      \<Rightarrow> ('s, connection_outcome) exec" where
  "after_failure ex at delay cn cancelled =
     (let cr = cn_copy cn in
      act_bind (planned_reconnect ex (StreamContext False) (cr_planned_end cr) delay (cr_retryable cr)) (\<lambda>again.
        if again then act_return (Inr cn)
        else act_bind (live ex ParentContext) (\<lambda>c.
          act_bind (if c = ContextLive \<and> cr_retryable cr then now ex else act_return (cr_last_progress cr)) (\<lambda>t.
            if c = ContextLive \<and> cr_retryable cr \<and> \<not> before_time t (cr_planned_end cr)
            then act_bind (end_copy ex (at_id at) cr) (\<lambda>cr.
              if cr_reached_end cr then ends (ReachedPlannedEnd (cn_reconnected cn)) cr
              else ends (CopyFailed (cn_started cn)) cr)
            else act_bind (live ex ParentContext) (\<lambda>c.
              if c \<noteq> ContextLive then with_cancel_reason ex (at_id at) cr cancelled
              else ends (CopyFailed (cn_started cn))
                (if cr_retryable cr \<and> delay = None then cr\<lparr>cr_reason := ReasonStreamReconnectExhausted\<rparr> else cr))))))"

text \<open>The stream did not open.\<close>

definition open_failed ::
    "'s executor \<Rightarrow> attempt \<Rightarrow> int option \<Rightarrow> connection_state \<Rightarrow> stream_error \<Rightarrow> ('s, connection_outcome) exec" where
  "open_failed ex at delay cn err =
     (let cr = (cn_copy cn)\<lparr>cr_quality := degrade (cr_quality (cn_copy cn))\<rparr> in
      act_bind (emit ex PhaseConnectionEnd (cr_quality cr) (cr_observation cr)) (\<lambda>obs.
        let cr = cr\<lparr>cr_observation := obs, cr_reason := stream_failure_reason (Some err)\<rparr>;
            go_on = (\<lambda>cr. after_failure ex at delay
              (cn\<lparr>cn_copy := cr\<lparr>cr_retryable :=
                retryable_stream_failure (Some err) \<lparr>tm_done = False, tm_reason = OtherTerminal []\<rparr>\<rparr>\<rparr>)
              (ends (CopyFailed (cn_started cn))))
        in act_bind (live ex ParentContext) (\<lambda>c.
             if c \<noteq> ContextLive then with_cancel_reason ex (at_id at) cr go_on else go_on cr)))"

definition release_lease :: "'s executor \<Rightarrow> bytes \<Rightarrow> ('s, unit) exec" where
  "release_lease ex lease = act_seq (ignoring ex (CancelLease lease)) (ignoring ex (CloseLease lease))"

text \<open>The first stream that opens starts the recording, unless a stop was asked for.\<close>

definition start_recording ::
    "'s executor \<Rightarrow> attempt \<Rightarrow> bytes \<Rightarrow> connection_state \<Rightarrow> ('s, connection_outcome) exec" where
  "start_recording ex at lease cn =
     (let cr = cn_copy cn in
      if cn_started cn then act_return (Inr cn)
      else act_bind (stop_requested ex (at_id at)) (\<lambda>stop.
        case stop of
          None \<Rightarrow> act_seq (release_lease ex lease) (ends (Abandoned ReadStopBeforeStream) cr)
        | Some True \<Rightarrow> act_seq (release_lease ex lease) (ends (StoppedBefore ReasonUserRequestedStop) cr)
        | Some False \<Rightarrow>
            act_bind (now ex) (\<lambda>t.
              let cr = cr\<lparr>cr_actual_start := t\<rparr>
              in act_bind (perform (ex_timed ex (RecordingStarted ParentContext (at_id at) t))) (\<lambda>answer.
                   if \<not> planned_end_ok ex at cr answer
                   then act_seq (release_lease ex lease) (ends (Abandoned PersistRecordingStart) cr)
                   else act_return (Inr (cn\<lparr>cn_copy := cr\<lparr>cr_planned_end := the answer\<rparr>, cn_started := True\<rparr>))))))"

definition run_stream ::
    "nat \<Rightarrow> 's executor \<Rightarrow> reservation \<Rightarrow> attempt \<Rightarrow> bytes \<Rightarrow> int option \<Rightarrow> connection_state \<Rightarrow> ('s, connection_outcome) exec" where
  "run_stream fuel ex r at lease delay cn =
     act_bind (copy fuel ex ParentContext (StreamContext False) lease (at_plan at) at (r_components r) (cn_copy cn) False)
       (\<lambda>cr. act_seq (release_lease ex lease)
         (act_bind (emit ex PhaseConnectionEnd (cr_quality cr) (cr_observation cr)) (\<lambda>obs.
           let cr = cr\<lparr>cr_observation := obs\<rparr>;
               cancelled = (\<lambda>other cr. ends (if cr_reason cr = ReasonUserRequestedStop then UserStopped else other) cr)
           in if cr_reason cr = ReasonUserRequestedStop then ends UserStopped cr
              else if cr_reached_end cr then ends (ReachedPlannedEnd (cn_reconnected cn)) cr
              else act_bind (live ex ParentContext) (\<lambda>c.
                if c \<noteq> ContextLive
                then with_cancel_reason ex (at_id at) cr (\<lambda>cr. cancelled (CutShort (cr_reason cr)) cr)
                else after_failure ex at delay (cn\<lparr>cn_copy := cr\<rparr>)
                       (cancelled (CopyFailed (cn_started cn)))))))"

definition open_stream ::
    "nat \<Rightarrow> 's executor \<Rightarrow> reservation \<Rightarrow> attempt \<Rightarrow> bytes \<Rightarrow> nat \<Rightarrow> int option \<Rightarrow> connection_state
      \<Rightarrow> ('s, connection_outcome) exec" where
  "open_stream fuel ex r at target connection delay cn =
     (let lease = stream_correlation_id (at_id at) connection in
      act_bind (perform (ex_open ex (StreamContext False) target lease)) (\<lambda>answer.
        case answer of
          Some err \<Rightarrow> open_failed ex at delay cn err
        | None \<Rightarrow>
            act_bind (start_recording ex at lease cn) (\<lambda>outcome.
              case outcome of
                Inl e \<Rightarrow> act_return (Inl e)
              | Inr cn \<Rightarrow> run_stream fuel ex r at lease delay cn)))"

text \<open>The checks before a connection, and the count of the reconnections in the quality.\<close>

definition note_reconnect :: "'s executor \<Rightarrow> nat \<Rightarrow> connection_state \<Rightarrow> ('s, connection_state) exec" where
  "note_reconnect ex connection cn =
     (if connection = 0 then act_return cn
      else
        let cr = cn_copy cn; q = degrade ((cr_quality cr)\<lparr>q_reconnect := int connection\<rparr>)
        in act_bind (emit ex PhaseReconnect q (cr_observation cr)) (\<lambda>obs.
             act_return (cn\<lparr>cn_copy := cr\<lparr>cr_quality := q, cr_observation := obs\<rparr>, cn_reconnected := True\<rparr>)))"

definition run_connection ::
    "nat \<Rightarrow> 's executor \<Rightarrow> reservation \<Rightarrow> attempt \<Rightarrow> bytes \<Rightarrow> nat \<Rightarrow> int option \<Rightarrow> connection_state
      \<Rightarrow> ('s, connection_outcome) exec" where
  "run_connection fuel ex r at target connection delay cn =
     (let cr = cn_copy cn; failed = ends (CopyFailed (cn_started cn)) in
      act_bind (live ex ParentContext) (\<lambda>c.
        if c \<noteq> ContextLive then with_cancel_reason ex (at_id at) cr failed
        else act_bind (stop_requested ex (at_id at)) (\<lambda>stop.
          case stop of
            None \<Rightarrow> ends (Abandoned ReadStopBeforeConnection) cr
          | Some True \<Rightarrow> failed (cr\<lparr>cr_reason := ReasonUserRequestedStop\<rparr>)
          | Some False \<Rightarrow>
              act_bind (now ex) (\<lambda>t.
                if \<not> before_time t (cr_planned_end cr)
                then ends (ReachedPlannedEnd (cn_reconnected cn)) (cr\<lparr>cr_reached_end := True\<rparr>)
                else act_bind (if connection = 0 then act_return t else now ex) (\<lambda>t.
                  if connection \<noteq> 0 \<and> sub_time (cr_planned_end cr) t < 60 * second then failed cr
                  else act_bind (note_reconnect ex connection cn)
                         (open_stream fuel ex r at target connection delay))))))"

text \<open>A connection without delay left is the last one; it never asks for another.\<close>

primrec run_connections ::
    "int list \<Rightarrow> nat \<Rightarrow> 's executor \<Rightarrow> reservation \<Rightarrow> attempt \<Rightarrow> bytes \<Rightarrow> nat \<Rightarrow> connection_state
      \<Rightarrow> ('s, connections_end \<times> stream_copy) exec" where
  "run_connections [] fuel ex r at target connection cn =
     act_bind (run_connection fuel ex r at target connection None cn) (\<lambda>outcome.
       case outcome of Inl e \<Rightarrow> act_return e | Inr cn \<Rightarrow> act_fail OutOfFuel)"
| "run_connections (d # delays) fuel ex r at target connection cn =
     act_bind (run_connection fuel ex r at target connection (Some d) cn) (\<lambda>outcome.
       case outcome of
         Inl e \<Rightarrow> act_return e
       | Inr cn \<Rightarrow> run_connections delays fuel ex r at target (connection + 1) cn)"

definition reconnect_delays :: "int list" where
  "reconnect_delays = [second, 2 * second, 4 * second]"

section \<open>Execution of a claimed recording\<close>

text \<open>The recording reached its planned end.\<close>

definition finish_reached_end ::
    "'s executor \<Rightarrow> exec_context \<Rightarrow> reservation \<Rightarrow> attempt \<Rightarrow> bool \<Rightarrow> stream_copy \<Rightarrow> ('s, exec_result) exec" where
  "finish_reached_end ex ctx r at reconnected cr =
     (let n = cr_byte_count cr; q = cr_quality cr in
      when_durable ex ctx (at_plan at) (at_id at) n q
        (if n < minimum_useful_ts then finish_by_count ex ctx (at_id at) n ReasonStreamEndedEarly True q
         else publish_and_post_process ex ctx r at n AttemptSucceeded
           (if reconnected then ReasonCompletedAfterReconnect else ReasonCompleted) q))"

definition finish_connections ::
    "'s executor \<Rightarrow> reservation \<Rightarrow> attempt \<Rightarrow> connections_end \<Rightarrow> stream_copy \<Rightarrow> ('s, exec_result) exec" where
  "finish_connections ex r at e cr =
     (case e of
        Abandoned err \<Rightarrow> abandon ex (at_plan at) err
      | CopyFailed started \<Rightarrow> finish_copy_failure ex ParentContext r at cr started
      | StoppedBefore reason \<Rightarrow> finish_before_recording ex (at_plan at) (at_id at) reason (cr_quality cr)
      | UserStopped \<Rightarrow> finish_user_stop ex r at (cr_byte_count cr) (cr_quality cr)
      | CutShort reason \<Rightarrow> finish_partial ex (at_plan at) (at_id at) (cr_byte_count cr) reason (cr_quality cr)
      | ReachedPlannedEnd reconnected \<Rightarrow> finish_reached_end ex ParentContext r at reconnected cr)"

text \<open>An action and then another one, whatever the first gave; its outcome is kept.\<close>

definition ensuring :: "('s, 'a) exec \<Rightarrow> ('s, 'b) exec \<Rightarrow> ('s, 'a) exec" where
  "ensuring m k s = (case m s of (x, s') \<Rightarrow> (x, snd (k s')))"

definition maximum_end :: "attempt \<Rightarrow> instant" where
  "maximum_end at =
     (let limit = add_duration (at_planned_start at) (24 * hour)
      in if after_time (at_planned_end at) limit then at_planned_end at else limit)"

definition new_stream_copy :: "nat \<Rightarrow> instant \<Rightarrow> instant \<Rightarrow> instant \<Rightarrow> instant \<Rightarrow> stream_copy" where
  "new_stream_copy ordinal t planned latest noted =
     \<lparr>cr_byte_count = 0, cr_actual_start = \<lparr>t_nanos = zero_nanos, t_utc = True\<rparr>, cr_last_progress = t,
      cr_planned_end = planned, cr_maximum_end = latest, cr_reason = no_reason, cr_reached_end = False,
      cr_retryable = False, cr_quality = zero_quality,
      cr_observation = \<lparr>on_ordinal = ordinal, on_last_time = noted, on_last_quality = zero_quality\<rparr>\<rparr>"

definition record_streams :: "nat \<Rightarrow> 's executor \<Rightarrow> reservation \<Rightarrow> attempt \<Rightarrow> bytes \<Rightarrow> ('s, exec_result) exec" where
  "record_streams fuel ex r at target =
     act_bind (now ex) (\<lambda>t.
       act_bind (now ex) (\<lambda>noted.
         let cr = new_stream_copy 0 t (at_planned_end at) (maximum_end at) noted
         in act_bind (emit ex PhaseStart (cr_quality cr) (cr_observation cr)) (\<lambda>obs.
              act_bind (run_connections reconnect_delays fuel ex r at target 0
                  \<lparr>cn_copy = cr\<lparr>cr_observation := obs\<rparr>, cn_started = False, cn_reconnected = False\<rparr>) (\<lambda>(e, cr).
                ensuring (finish_connections ex r at e cr) (emit ex PhaseFinal (cr_quality cr) (cr_observation cr))))))"

definition validate_executor :: "'s executor \<Rightarrow> reservation \<Rightarrow> ('s, unit) exec" where
  "validate_executor ex r =
     (if ex_owner ex = 0 \<or> ex_generation ex < 1 \<or> r_id r = 0 \<or> r_state r \<noteq> ReservationActive then act_fail InvalidExecutor
      else act_bind (now ex) (\<lambda>t. act_require (utc_instant t) InvalidExecutorClock))"

definition claimed_ok :: "reservation \<Rightarrow> attempt \<Rightarrow> bool" where
  "claimed_ok r at \<longleftrightarrow>
     \<not> (at_id at = 0 \<or> at_reservation_id at \<noteq> r_id r \<or> at_state at \<noteq> AttemptClaimed \<or>
        is_zero_time (at_planned_start at) \<or> is_zero_time (at_planned_end at) \<or>
        \<not> t_utc (at_planned_start at) \<or> \<not> t_utc (at_planned_end at) \<or>
        \<not> after_time (at_planned_end at) (at_planned_start at) \<or> \<not> file_plan_valid (at_plan at) \<or>
        (at_one_seg_plan at = None) \<noteq> (r_one_seg_output r = None) \<or>
        (case at_one_seg_plan at of
           None \<Rightarrow> False
         | Some plan \<Rightarrow> \<not> file_plan_valid plan \<or>
             partial_path plan = partial_path (at_plan at) \<or> partial_path plan = final_path (at_plan at) \<or>
             final_path plan = partial_path (at_plan at) \<or> final_path plan = final_path (at_plan at)))"

definition validate_claimed :: "'s executor \<Rightarrow> reservation \<Rightarrow> attempt \<Rightarrow> ('s, unit) exec" where
  "validate_claimed ex r at =
     act_seq (validate_executor ex r) (act_require (claimed_ok r at) InvalidClaimedAttempt)"

definition execute_claimed :: "nat \<Rightarrow> 's executor \<Rightarrow> reservation \<Rightarrow> attempt \<Rightarrow> ('s, exec_result) exec" where
  "execute_claimed fuel ex r at =
     act_seq (validate_claimed ex r at)
       (act_seq (must_now ex (StartAttempt ParentContext (at_id at)) PersistStarting)
         (act_bind (stop_requested ex (at_id at)) (\<lambda>stop.
           case stop of
             None \<Rightarrow> act_fail ReadInitialStop
           | Some True \<Rightarrow> finish_without_file ex (at_id at) ReasonUserRequestedStop
           | Some False \<Rightarrow>
               act_bind (call ex (CreatePartialFile (at_plan at))) (\<lambda>created.
                 if \<not> created then finish_without_file ex (at_id at) ReasonFileCreateFailed
                 else case new_tuning_target (p_locator (r_program r)) of
                   Inl e \<Rightarrow> finish_before_recording ex (at_plan at) (at_id at) ReasonStreamNotFound zero_quality
                 | Inr target \<Rightarrow> record_streams fuel ex r at target))))"

section \<open>Claims\<close>

definition claim_plans ::
    "'s executor \<Rightarrow> reservation \<Rightarrow> claim_request \<Rightarrow> ('s, claim_request) exec" where
  "claim_plans ex r claim =
     (if r_one_seg_output r = None then act_return claim
      else act_bind (perform (ex_new_id ex)) (\<lambda>answer.
        case answer of
          None \<Rightarrow> act_fail OneSegIdFailed
        | Some ident \<Rightarrow>
            case new_one_seg_file_plan r (cl_attempt_id claim) of
              Inl e \<Rightarrow> act_fail (PlanFailed e)
            | Inr plan \<Rightarrow> act_return (claim\<lparr>cl_one_seg_segment_id := ident, cl_one_seg_plan := Some plan\<rparr>)))"

definition claim_recording :: "'s executor \<Rightarrow> reservation \<Rightarrow> ('s, attempt) exec" where
  "claim_recording ex r =
     act_seq (validate_executor ex r)
       (act_bind (perform (ex_new_id ex)) (\<lambda>answer. case answer of
          None \<Rightarrow> act_fail AttemptIdFailed
        | Some attempt_id \<Rightarrow>
            act_bind (perform (ex_new_id ex)) (\<lambda>answer. case answer of
              None \<Rightarrow> act_fail SegmentIdFailed
            | Some segment_id \<Rightarrow>
                (case new_reservation_file_plan r attempt_id of
                   Inl e \<Rightarrow> act_fail (PlanFailed e)
                 | Inr plan \<Rightarrow>
                     act_bind (now ex) (\<lambda>t.
                       act_bind (claim_plans ex r
                         \<lparr>cl_reservation_id = r_id r, cl_reservation_version = r_version r, cl_attempt_id = attempt_id,
                          cl_segment_id = segment_id, cl_owner_id = ex_owner ex, cl_owner_generation = ex_generation ex,
                          cl_now = t, cl_plan = plan, cl_one_seg_segment_id = 0, cl_one_seg_plan = None\<rparr>) (\<lambda>claim.
                         act_bind (perform (ex_claim ex ParentContext claim)) (\<lambda>answer. case answer of
                           None \<Rightarrow> act_fail ClaimFailed
                         | Some at \<Rightarrow> act_return at)))))))"

definition miss :: "'s executor \<Rightarrow> reservation \<Rightarrow> terminal_reason \<Rightarrow> ('s, exec_result) exec" where
  "miss ex r reason =
     (if reason \<noteq> ReasonLateStartExpired \<and> reason \<noteq> ReasonRecordingSlotUnavailable then act_fail InvalidMissedReason
      else act_bind (claim_recording ex r) (\<lambda>at.
        act_bind (now ex) (\<lambda>t.
          let finish = \<lparr>fn_quality = zero_quality, fn_attempt_id = at_id at, fn_state = AttemptMissed, fn_reason = reason,
                fn_byte_count = 0, fn_availability = AvailabilityMissing, fn_recovered = False, fn_now = t,
                fn_one_seg = map_option (\<lambda>_. \<lparr>s_quality = zero_quality, s_byte_count = 0,
                  s_availability = AvailabilityMissing, s_reason = reason, s_file_synced = False, s_publish = False\<rparr>)
                  (at_one_seg_plan at)\<rparr>
          in act_seq (must ex (Finish ParentContext finish) FinishMissed) (act_return (result_of AttemptMissed reason)))))"

end
