(* ===== verification/ExecutorProtocol.thy ===== *)
theory ExecutorProtocol
  imports Executor FilterFile
begin

text \<open>
  What an execution may do to its environment, in which order: an automaton over the events of one recording.  It is
  the specification that the executor is proved against; its state says how far the recording has come, what is
  open, and whether what was written is on the disk.
\<close>

section \<open>Events\<close>

datatype exec_event =
  EvCall exec_call bool
  | EvTimed exec_timed
  | EvFinalize finalize_request finalize_answer
  | EvLink file_plan bool
  | EvOpen bytes bool
  | EvRead bytes
  | EvWrite file_plan

text \<open>An environment that keeps a log of the events of the one it stands for.\<close>

record 's run =
  run_state :: 's
  run_log :: "exec_event list"

definition on_run :: "('s \<Rightarrow> 'a \<times> 's) \<Rightarrow> 's run \<Rightarrow> 'a \<times> 's run" where
  "on_run f r = (case f (run_state r) of (x, s) \<Rightarrow> (x, r\<lparr>run_state := s\<rparr>))"

definition logging :: "('s \<Rightarrow> 'a \<times> 's) \<Rightarrow> ('a \<Rightarrow> exec_event) \<Rightarrow> 's run \<Rightarrow> 'a \<times> 's run" where
  "logging f e r = (case f (run_state r) of (x, s) \<Rightarrow> (x, r\<lparr>run_state := s, run_log := run_log r @ [e x]\<rparr>))"

definition mute :: "('s \<Rightarrow> 's) \<Rightarrow> 's run \<Rightarrow> 's run" where
  "mute f r = r\<lparr>run_state := f (run_state r)\<rparr>"

definition recorded :: "'s executor \<Rightarrow> 's run executor" where
  "recorded ex =
     \<lparr>ex_owner = ex_owner ex, ex_generation = ex_generation ex, ex_extension_only = ex_extension_only ex,
      ex_now = on_run (ex_now ex), ex_context = (\<lambda>ctx. on_run (ex_context ex ctx)), ex_new_id = on_run (ex_new_id ex),
      ex_wait = (\<lambda>ctx d. on_run (ex_wait ex ctx d)), ex_claim = (\<lambda>ctx c. on_run (ex_claim ex ctx c)),
      ex_stop_requested = (\<lambda>ctx i. on_run (ex_stop_requested ex ctx i)),
      ex_call = (\<lambda>c. logging (ex_call ex c) (EvCall c)),
      ex_timed = (\<lambda>c. logging (ex_timed ex c) (\<lambda>_. EvTimed c)),
      ex_finalize = (\<lambda>ctx fz. logging (ex_finalize ex ctx fz) (EvFinalize fz)),
      ex_write = (\<lambda>file r raw. logging (\<lambda>s. ex_write ex file s raw) (\<lambda>_. EvWrite file) r),
      ex_link = (\<lambda>file. logging (ex_link ex file) (\<lambda>answer. EvLink file (answer = None))),
      ex_open = (\<lambda>ctx target lease. logging (ex_open ex ctx target lease) (\<lambda>answer. EvOpen lease (answer = None))),
      ex_read = (\<lambda>lease ctx n. logging (ex_read ex lease ctx n) (\<lambda>_. EvRead lease)),
      ex_final_path = map_option (\<lambda>f plan. on_run (f plan)) (ex_final_path ex),
      ex_post = map_option (\<lambda>f ctx req. on_run (f ctx req)) (ex_post ex),
      ex_observe_post = map_option (\<lambda>f reason. mute (f reason)) (ex_observe_post ex),
      ex_observe = map_option (\<lambda>f ordinal phase q. mute (f ordinal phase q)) (ex_observe ex)\<rparr>"

section \<open>The automaton\<close>

datatype stage =
  BeforeStart | Running | Finalizing | LinkedFinal | MarkedFinal | SyncedFinal | RemovedPartial | ResyncedFinal
  | MarkedSynced | Over

datatype file_phase = NoFile | OpenFile | ClosedFile

text \<open>\<open>pt_durable\<close>: everything written was flushed, and the file closed, without an error.\<close>

record protocol =
  pt_stage :: stage
  pt_file :: file_phase
  pt_durable :: bool
  pt_lease :: "bytes option"
  pt_opens :: nat
  pt_reads :: nat
  pt_answer :: "finalize_request option"

definition initial_protocol :: protocol where
  "initial_protocol = \<lparr>pt_stage = BeforeStart, pt_file = NoFile, pt_durable = False, pt_lease = None, pt_opens = 0,
     pt_reads = 0, pt_answer = None\<rparr>"

definition released :: "protocol \<Rightarrow> bool" where
  "released p \<longleftrightarrow> pt_file p \<noteq> OpenFile \<and> pt_lease p = None"

definition guarded :: "bool \<Rightarrow> bool \<Rightarrow> protocol \<Rightarrow> protocol \<Rightarrow> protocol option" where
  "guarded c good p p' = (if c then Some (if good then p' else p) else None)"

text \<open>A move from one stage to the next; a failed one stays where it was.\<close>

definition move_stage :: "stage \<Rightarrow> stage \<Rightarrow> bool \<Rightarrow> bool \<Rightarrow> protocol \<Rightarrow> protocol option" where
  "move_stage a b c good p = guarded (c \<and> pt_stage p = a) good p (p\<lparr>pt_stage := b\<rparr>)"

text \<open>A recording is finished as published only with what the store answered at its finalization.\<close>

definition finish_allowed :: "protocol \<Rightarrow> finish_request \<Rightarrow> bool" where
  "finish_allowed p req \<longleftrightarrow>
     released p \<and>
     (if fn_availability req = AvailabilityFinal
      then pt_stage p = MarkedSynced \<and>
        (\<exists>fz. pt_answer p = Some fz \<and> fn_state req = fz_state fz \<and> fn_reason req = fz_reason fz \<and>
          fn_byte_count req = fz_byte_count fz)
      else pt_stage p = Running \<or> pt_stage p = Finalizing)"

fun call_step :: "attempt \<Rightarrow> protocol \<Rightarrow> exec_call \<Rightarrow> bool \<Rightarrow> protocol option" where
  "call_step at p (StartAttempt ctx i t) good = move_stage BeforeStart Running (i = at_id at) good p"
| "call_step at p (CreatePartialFile plan) good =
     (if plan \<noteq> at_plan at then Some p
      else guarded (pt_stage p = Running \<and> pt_file p = NoFile) good p (p\<lparr>pt_file := OpenFile\<rparr>))"
| "call_step at p (SyncFile plan) good =
     (if plan \<noteq> at_plan at then Some p
      else guarded (pt_file p = OpenFile) True p (p\<lparr>pt_durable := good\<rparr>))"
| "call_step at p (CloseFile plan) good =
     (if plan \<noteq> at_plan at then Some p
      else guarded (pt_file p = OpenFile \<and> pt_lease p = None) True p
        (p\<lparr>pt_file := ClosedFile, pt_durable := pt_durable p \<and> good\<rparr>))"
| "call_step at p (CancelLease l) good = guarded (pt_lease p = Some l) good p p"
| "call_step at p (CloseLease l) good = guarded (pt_lease p = Some l) True p (p\<lparr>pt_lease := None\<rparr>)"
| "call_step at p (SyncFolder plan) good =
     (if plan \<noteq> at_plan at then Some p
      else if pt_stage p = MarkedFinal then move_stage MarkedFinal SyncedFinal True good p
      else move_stage RemovedPartial ResyncedFinal True good p)"
| "call_step at p (RemovePartialFile plan) good =
     (if plan \<noteq> at_plan at then Some p else move_stage SyncedFinal RemovedPartial True good p)"
| "call_step at p (PublishedFinal ctx i t) good = move_stage LinkedFinal MarkedFinal (i = at_id at) good p"
| "call_step at p (SyncedFolder ctx i t) good = move_stage ResyncedFinal MarkedSynced (i = at_id at) good p"
| "call_step at p (Finish ctx req) good =
     guarded (fn_attempt_id req = at_id at \<and> finish_allowed p req) good p (p\<lparr>pt_stage := Over\<rparr>)"
| "call_step at p (StartedOneSeg ctx i t) good = Some p"
| "call_step at p (PublishedOneSeg ctx i t) good = Some p"
| "call_step at p (SyncedOneSeg ctx i t) good = Some p"
| "call_step at p (OneSegOutcome ctx i result t) good = Some p"

fun event_step :: "attempt \<Rightarrow> protocol \<Rightarrow> exec_event \<Rightarrow> protocol option" where
  "event_step at p (EvCall c good) = call_step at p c good"
| "event_step at p (EvTimed (RecordingStarted ctx i t)) =
     guarded (i = at_id at \<and> pt_stage p = Running \<and> pt_lease p \<noteq> None) True p p"
| "event_step at p (EvTimed (RecordingProgress ctx i n t q)) =
     guarded (i = at_id at \<and> pt_stage p = Running \<and> pt_file p = OpenFile) True p p"
| "event_step at p (EvTimed (OneSegProgress ctx i n t q)) = Some p"
| "event_step at p (EvFinalize request answer) =
     (if fz_attempt_id request = at_id at \<and> pt_stage p = Running \<and> pt_file p = ClosedFile \<and> pt_durable p \<and>
         pt_lease p = None
      then Some (case answer of
          Finalization fz \<Rightarrow>
            if answer_ok request fz then p\<lparr>pt_stage := Finalizing, pt_answer := Some fz\<rparr> else p
        | _ \<Rightarrow> p)
      else None)"
| "event_step at p (EvLink plan good) =
     (if plan \<noteq> at_plan at then Some p else move_stage Finalizing LinkedFinal True good p)"
| "event_step at p (EvOpen lease good) =
     (if pt_stage p = Running \<and> pt_file p = OpenFile \<and> pt_lease p = None \<and> pt_opens p < 4
      then Some (p\<lparr>pt_opens := pt_opens p + 1, pt_lease := (if good then Some lease else None)\<rparr>)
      else None)"
| "event_step at p (EvRead lease) = guarded (pt_lease p = Some lease) True p (p\<lparr>pt_reads := pt_reads p + 1\<rparr>)"
| "event_step at p (EvWrite plan) =
     (if plan \<noteq> at_plan at then Some p
      else guarded (pt_file p = OpenFile \<and> pt_lease p \<noteq> None) True p (p\<lparr>pt_durable := False\<rparr>))"

text \<open>Whether the store accepts what it is given; a strict automaton asks for it.\<close>

fun request_accepted :: "exec_event \<Rightarrow> bool" where
  "request_accepted (EvCall (Finish ctx req) good) = is_ok (validate_finish req)"
| "request_accepted (EvCall (OneSegOutcome ctx i result t) good) = is_ok (validate_one_seg_result result)"
| "request_accepted (EvFinalize req answer) = is_ok (validate_finalize req)"
| "request_accepted _ = True"

definition protocol_step :: "bool \<Rightarrow> attempt \<Rightarrow> protocol \<Rightarrow> exec_event \<Rightarrow> protocol option" where
  "protocol_step strict at p e = (if strict \<and> \<not> request_accepted e then None else event_step at p e)"

definition replay_log :: "bool \<Rightarrow> attempt \<Rightarrow> exec_event list \<Rightarrow> protocol option" where
  "replay_log strict at log =
     foldl (\<lambda>reached e. Option.bind reached (\<lambda>p. protocol_step strict at p e)) (Some initial_protocol) log"

lemma replay_log_simps [simp]:
  "replay_log strict at [] = Some initial_protocol"
  "replay_log strict at (log @ [e]) = Option.bind (replay_log strict at log) (\<lambda>p. protocol_step strict at p e)"
  by (simp_all add: replay_log_def)

section \<open>Environments that follow the automaton\<close>

text \<open>
  \<open>I p s\<close>: the state \<open>s\<close> is at \<open>p\<close>.  Every operation moves the state as the automaton moves; a strict one relies
  on a clock that is set, after the epoch, and on fresh identifiers that are not zero.  Where a bound is given, the
  clock has passed the latest end of the recording after that many reads.
\<close>

definition quiet :: "('p \<Rightarrow> 's \<Rightarrow> bool) \<Rightarrow> ('s \<Rightarrow> 'a \<times> 's) \<Rightarrow> bool" where
  "quiet I f \<longleftrightarrow> (\<forall>p s. I p s \<longrightarrow> I p (snd (f s)))"

definition moves :: "bool \<Rightarrow> attempt \<Rightarrow> (protocol \<Rightarrow> 's \<Rightarrow> bool) \<Rightarrow> ('a \<Rightarrow> exec_event) \<Rightarrow> ('s \<Rightarrow> 'a \<times> 's) \<Rightarrow> bool" where
  "moves strict at I e f \<longleftrightarrow>
     (\<forall>p s p'. I p s \<longrightarrow> protocol_step strict at p (e (fst (f s))) = Some p' \<longrightarrow> I p' (snd (f s)))"

text \<open>A property of the automaton as an assertion of the state.\<close>

definition reaching :: "(protocol \<Rightarrow> 's \<Rightarrow> bool) \<Rightarrow> (protocol \<Rightarrow> bool) \<Rightarrow> 's \<Rightarrow> bool" where
  "reaching I \<Phi> s \<longleftrightarrow> (\<exists>p. I p s \<and> \<Phi> p)"

lemma quietD: "quiet I f \<Longrightarrow> I p s \<Longrightarrow> f s = (x, s') \<Longrightarrow> I p s'"
  by (metis quiet_def snd_conv)

locale protocol_environment =
  fixes ex :: "'s executor" and strict :: bool and at :: attempt and bound :: "nat option"
    and I :: "protocol \<Rightarrow> 's \<Rightarrow> bool"
  assumes quiet_now: "quiet I (ex_now ex)"
    and quiet_context: "quiet I (ex_context ex ctx)"
    and quiet_id: "quiet I (ex_new_id ex)"
    and quiet_wait: "quiet I (ex_wait ex ctx d)"
    and quiet_stop: "quiet I (ex_stop_requested ex ctx i)"
    and quiet_path: "ex_final_path ex = Some path \<Longrightarrow> quiet I (path plan)"
    and quiet_post: "ex_post ex = Some post \<Longrightarrow> quiet I (post ctx req)"
    and quiet_observe_post: "ex_observe_post ex = Some notify \<Longrightarrow> quiet I (\<lambda>s. ((), notify reason s))"
    and quiet_observe: "ex_observe ex = Some watch \<Longrightarrow> quiet I (\<lambda>s. ((), watch ordinal phase q s))"
    and moves_call: "moves strict at I (EvCall c) (ex_call ex c)"
    and moves_timed: "moves strict at I (\<lambda>_. EvTimed m) (ex_timed ex m)"
    and moves_finalize: "moves strict at I (EvFinalize fz) (ex_finalize ex ctx fz)"
    and moves_write: "moves strict at I (\<lambda>_. EvWrite plan) (\<lambda>s. ex_write ex plan s raw)"
    and moves_link: "moves strict at I (\<lambda>answer. EvLink plan (answer = None)) (ex_link ex plan)"
    and moves_open: "moves strict at I (\<lambda>answer. EvOpen lease (answer = None)) (ex_open ex ctx target lease)"
    and moves_read: "moves strict at I (\<lambda>_. EvRead lease) (ex_read ex lease ctx n)"
    and clock: "strict \<Longrightarrow> utc_instant (in_utc (fst (ex_now ex s)))"
    and runs_out: "bound = Some n \<Longrightarrow> I p s \<Longrightarrow> n \<le> pt_reads p \<Longrightarrow>
      \<not> before_time (in_utc (fst (ex_now ex s))) (maximum_end at)"
    and fresh: "strict \<Longrightarrow> fst (ex_new_id ex s) \<noteq> Some 0"
begin

lemma quiet_perform:
  assumes "quiet I f"
  shows "outcomes (reaching I \<Phi>) (perform f) (\<lambda>_. reaching I \<Phi>) E"
  using assms by (fastforce simp: outcomes_def perform_def reaching_def quiet_def split: prod.split)

lemma moves_perform:
  assumes "moves strict at I e f" "\<And>p x. \<Phi> p \<Longrightarrow> \<exists>p'. protocol_step strict at p (e x) = Some p' \<and> \<Psi> x p'"
  shows "outcomes (reaching I \<Phi>) (perform f) (\<lambda>x. reaching I (\<Psi> x)) E"
  unfolding outcomes_def
proof (intro allI impI)
  fix s assume "reaching I \<Phi> s"
  then obtain p where p: "I p s" "\<Phi> p" by (auto simp: reaching_def)
  obtain x s' where f: "f s = (x, s')" by fastforce
  from assms(2) [OF p(2), of x] obtain p' where "protocol_step strict at p (e x) = Some p'" "\<Psi> x p'" by blast
  with assms(1) p(1) f have "reaching I (\<Psi> x) s'" by (force simp: moves_def reaching_def)
  then show "case perform f s of (Inl e, s') \<Rightarrow> E e s' | (Inr x, s') \<Rightarrow> reaching I (\<Psi> x) s'"
    by (simp add: perform_def f)
qed

lemma weaken:
  assumes "outcomes (reaching I \<Phi>') m Q E" "\<And>p. \<Phi> p \<Longrightarrow> \<Phi>' p"
  shows "outcomes (reaching I \<Phi>) m Q E"
  by (rule triple_pre [OF assms(1)]) (use assms(2) in \<open>auto simp: reaching_def\<close>)

lemma now_rule: "outcomes (reaching I \<Phi>) (now ex) (\<lambda>t s. reaching I \<Phi> s \<and> (strict \<longrightarrow> utc_instant t)) E"
  unfolding outcomes_def
proof (intro allI impI)
  fix s assume "reaching I \<Phi> s"
  moreover obtain t s' where "ex_now ex s = (t, s')" by fastforce
  ultimately show "case now ex s of (Inl e, s') \<Rightarrow> E e s' | (Inr t, s') \<Rightarrow> reaching I \<Phi> s' \<and> (strict \<longrightarrow> utc_instant t)"
    using clock [of s]
    by (auto simp: now_def perform_def act_bind_def act_return_def reaching_def dest: quietD [OF quiet_now])
qed

lemma id_rule: "outcomes (reaching I \<Phi>) (perform (ex_new_id ex)) (\<lambda>i s. reaching I \<Phi> s \<and> (strict \<longrightarrow> i \<noteq> Some 0)) E"
  unfolding outcomes_def
proof (intro allI impI)
  fix s assume "reaching I \<Phi> s"
  moreover obtain i s' where "ex_new_id ex s = (i, s')" by fastforce
  ultimately show "case perform (ex_new_id ex) s of (Inl e, s') \<Rightarrow> E e s'
      | (Inr i, s') \<Rightarrow> reaching I \<Phi> s' \<and> (strict \<longrightarrow> i \<noteq> Some 0)"
    using fresh [of s] by (auto simp: perform_def reaching_def dest: quietD [OF quiet_id])
qed

lemmas call_rule = moves_perform [OF moves_call, folded call_def]

lemma live_rule: "outcomes (reaching I \<Phi>) (live ex ctx) (\<lambda>_. reaching I \<Phi>) E"
  by (auto simp: live_def intro: quiet_perform quiet_context triple_return)

lemma stop_rule: "outcomes (reaching I \<Phi>) (stop_requested ex i) (\<lambda>_. reaching I \<Phi>) E"
  unfolding stop_requested_def by (rule quiet_perform [OF quiet_stop])

lemma must_rule:
  assumes "\<And>p. \<Phi> p \<Longrightarrow> \<exists>p'. protocol_step strict at p (EvCall c True) = Some p' \<and> \<Psi> p'"
    "\<And>p. \<Phi> p \<Longrightarrow> \<exists>p'. protocol_step strict at p (EvCall c False) = Some p' \<and> (\<forall>s. I p' s \<longrightarrow> E e s)"
  shows "outcomes (reaching I \<Phi>) (must ex c e) (\<lambda>_. reaching I \<Psi>) E"
  unfolding must_def
proof (rule triple_bind)
  show "outcomes (reaching I \<Phi>) (call ex c) (\<lambda>good. reaching I (\<lambda>p. if good then \<Psi> p else \<forall>s. I p s \<longrightarrow> E e s)) E"
    by (rule call_rule) (metis assms)
  show "outcomes (reaching I (\<lambda>p. if good then \<Psi> p else \<forall>s. I p s \<longrightarrow> E e s)) (act_require good e) (\<lambda>_. reaching I \<Psi>) E" for good
    by (rule triple_require) (auto simp: reaching_def)
qed

lemma ignoring_rule:
  assumes "\<And>p good. \<Phi> p \<Longrightarrow> \<exists>p'. protocol_step strict at p (EvCall c good) = Some p' \<and> \<Psi> p'"
  shows "outcomes (reaching I \<Phi>) (ignoring ex c) (\<lambda>_. reaching I \<Psi>) E"
  unfolding ignoring_def by (rule triple_bind [OF call_rule]) (rule assms, assumption, rule triple_return)

end

text \<open>
  The log of a recorded environment leads the automaton to the state it is at.  A budget measures the time left: no
  operation adds to it, every read takes from it, and without any the clock is past an instant.
\<close>

definition spends :: "('s \<Rightarrow> nat) \<Rightarrow> ('s \<Rightarrow> 'a \<times> 's) \<Rightarrow> bool" where
  "spends left f \<longleftrightarrow> (\<forall>s. left (snd (f s)) \<le> left s)"

definition time_passes :: "'s executor \<Rightarrow> instant \<Rightarrow> ('s \<Rightarrow> nat) \<Rightarrow> bool" where
  "time_passes ex latest left \<longleftrightarrow>
     spends left (ex_now ex) \<and> (\<forall>ctx. spends left (ex_context ex ctx)) \<and> spends left (ex_new_id ex) \<and>
     (\<forall>ctx d. spends left (ex_wait ex ctx d)) \<and> (\<forall>ctx i. spends left (ex_stop_requested ex ctx i)) \<and>
     (\<forall>c. spends left (ex_call ex c)) \<and> (\<forall>m. spends left (ex_timed ex m)) \<and>
     (\<forall>ctx fz. spends left (ex_finalize ex ctx fz)) \<and> (\<forall>plan raw. spends left (\<lambda>s. ex_write ex plan s raw)) \<and>
     (\<forall>plan. spends left (ex_link ex plan)) \<and> (\<forall>ctx target lease. spends left (ex_open ex ctx target lease)) \<and>
     (\<forall>path plan. ex_final_path ex = Some path \<longrightarrow> spends left (path plan)) \<and>
     (\<forall>post ctx req. ex_post ex = Some post \<longrightarrow> spends left (post ctx req)) \<and>
     (\<forall>notify reason. ex_observe_post ex = Some notify \<longrightarrow> spends left (\<lambda>s. ((), notify reason s))) \<and>
     (\<forall>watch ordinal phase q. ex_observe ex = Some watch \<longrightarrow> spends left (\<lambda>s. ((), watch ordinal phase q s))) \<and>
     (\<forall>lease ctx n s. left (snd (ex_read ex lease ctx n s)) \<le> left s - 1) \<and>
     (\<forall>s. left s = 0 \<longrightarrow> \<not> before_time (in_utc (fst (ex_now ex s))) latest)"

definition at_protocol :: "bool \<Rightarrow> attempt \<Rightarrow> (('s \<Rightarrow> nat) \<times> nat) option \<Rightarrow> protocol \<Rightarrow> 's run \<Rightarrow> bool" where
  "at_protocol strict at budget p r \<longleftrightarrow>
     replay_log strict at (run_log r) = Some p \<and>
     (case budget of None \<Rightarrow> True | Some (left, n) \<Rightarrow> left (run_state r) \<le> n - pt_reads p)"

definition affordable :: "(('s \<Rightarrow> nat) \<times> nat) option \<Rightarrow> ('s \<Rightarrow> 'a \<times> 's) \<Rightarrow> bool" where
  "affordable budget f \<longleftrightarrow> (case budget of None \<Rightarrow> True | Some (left, n) \<Rightarrow> spends left f)"

lemma affordableD: "affordable (Some (left, n)) f \<Longrightarrow> left s \<le> m \<Longrightarrow> left (snd (f s)) \<le> m"
  by (auto simp: affordable_def spends_def intro: order_trans)

lemma quiet_on_run: "affordable budget f \<Longrightarrow> quiet (at_protocol strict at budget) (on_run f)"
  by (auto simp: quiet_def at_protocol_def on_run_def case_prod_beta affordableD split: option.splits)

lemma quiet_mute: "affordable budget (\<lambda>s. ((), f s)) \<Longrightarrow> quiet (at_protocol strict at budget) (\<lambda>r. ((), mute f r))"
  using affordableD [of _ _ "\<lambda>s. ((), f s)"]
  by (auto simp: quiet_def at_protocol_def mute_def split: option.splits)

text \<open>Only a read is counted.\<close>

lemma call_reads: "call_step at p c good = Some p' \<Longrightarrow> pt_reads p' = pt_reads p"
  by (cases "(at, p, c, good)" rule: call_step.cases) (auto simp: guarded_def move_stage_def split: if_splits)

lemma event_reads:
  assumes "event_step at p e = Some p'" "\<And>l. e \<noteq> EvRead l"
  shows "pt_reads p' = pt_reads p"
  using assms
  by (cases "(at, p, e)" rule: event_step.cases)
    (auto simp: guarded_def move_stage_def dest: call_reads split: if_splits finalize_answer.splits)

lemma moves_logging:
  assumes "affordable budget f" "\<And>x l. e x \<noteq> EvRead l"
  shows "moves strict at (at_protocol strict at budget) e (logging f e)"
  unfolding moves_def
proof (intro allI impI)
  fix p p' and r :: "'a run"
  assume at: "at_protocol strict at budget p r"
    and step: "protocol_step strict at p (e (fst (logging f e r))) = Some p'"
  obtain x s where f: "f (run_state r) = (x, s)" by fastforce
  have "pt_reads p' = pt_reads p"
    using step assms(2) by (auto simp: protocol_step_def intro: event_reads split: if_splits)
  moreover have "left s \<le> left (run_state r)" if "budget = Some (left, n)" for left n
    using assms(1) that f by (auto simp: affordable_def spends_def dest!: spec [of _ "run_state r"])
  ultimately show "at_protocol strict at budget p' (snd (logging f e r))"
    using at step by (auto simp: at_protocol_def logging_def f split: option.splits intro: order_trans)
qed

lemma moves_reading:
  assumes "\<And>left n s. budget = Some (left, n) \<Longrightarrow> left (snd (f s)) \<le> left s - 1"
  shows "moves strict at (at_protocol strict at budget) (\<lambda>_. EvRead lease) (logging f (\<lambda>_. EvRead lease))"
  unfolding moves_def
proof (intro allI impI)
  fix p p' and r :: "'a run"
  assume at: "at_protocol strict at budget p r"
    and step: "protocol_step strict at p (EvRead lease) = Some p'"
  obtain x s where f: "f (run_state r) = (x, s)" by fastforce
  have "pt_reads p' = pt_reads p + 1"
    using step by (auto simp: protocol_step_def guarded_def split: if_splits)
  moreover have "left s \<le> left (run_state r) - 1" if "budget = Some (left, n)" for left n
    using assms [OF that, of "run_state r"] f by simp
  ultimately show "at_protocol strict at budget p' (snd (logging f (\<lambda>_. EvRead lease) r))"
    using at step by (fastforce simp: at_protocol_def logging_def f split: option.splits)
qed

definition sound_sources :: "'s executor \<Rightarrow> bool" where
  "sound_sources ex \<longleftrightarrow>
     (\<forall>s. utc_instant (in_utc (fst (ex_now ex s)))) \<and> (\<forall>s. fst (ex_new_id ex s) \<noteq> Some 0)"

lemma recorded_follows:
  assumes "strict \<Longrightarrow> sound_sources ex"
    "\<And>left n. budget = Some (left, n) \<Longrightarrow> time_passes ex (maximum_end at) left"
  shows "protocol_environment (recorded ex) strict at (map_option snd budget) (at_protocol strict at budget)"
proof
  show "utc_instant (in_utc (fst (ex_now (recorded ex) s)))" if strict for s
    using assms(1) that by (simp add: recorded_def on_run_def sound_sources_def case_prod_beta)
  show "fst (ex_new_id (recorded ex) s) \<noteq> Some 0" if strict for s
    using assms(1) that by (simp add: recorded_def on_run_def sound_sources_def case_prod_beta)
  show "\<not> before_time (in_utc (fst (ex_now (recorded ex) s))) (maximum_end at)"
    if "map_option snd budget = Some n" "at_protocol strict at budget p s" "n \<le> pt_reads p" for n p s
    using that assms(2)
    by (auto simp: recorded_def on_run_def time_passes_def at_protocol_def case_prod_beta)
  have spent: "time_passes ex (maximum_end at) left" if "budget = Some (left, n)" for left n
    using assms(2) that .
  show "moves strict at (at_protocol strict at budget) (\<lambda>_. EvRead lease) (ex_read (recorded ex) lease ctx n)" for lease ctx n
    using spent by (auto simp: recorded_def time_passes_def intro!: moves_reading)
qed (use assms(2) in \<open>auto simp: recorded_def affordable_def time_passes_def split: option.split
      intro!: quiet_on_run quiet_mute moves_logging\<close>)

end
