(* ===== verification/ExecutorRuns.thy ===== *)
theory ExecutorRuns
  imports ExecutorProtocol
begin

text \<open>
  The executor follows its protocol: a triple for every operation of \<open>Executor\<close>, over the assertions that say where
  the automaton is.  They are proved once, for every environment that moves as the automaton does.
\<close>

section \<open>Where the automaton is\<close>

definition writing :: "nat \<Rightarrow> protocol \<Rightarrow> bool" where
  "writing k p \<longleftrightarrow> pt_stage p = Running \<and> pt_file p = OpenFile \<and> pt_lease p = None \<and> pt_opens p \<le> k"

definition leased :: "bytes \<Rightarrow> nat \<Rightarrow> protocol \<Rightarrow> bool" where
  "leased l k p \<longleftrightarrow> pt_stage p = Running \<and> pt_file p = OpenFile \<and> pt_lease p = Some l \<and> pt_opens p \<le> k"

definition sealed :: "protocol \<Rightarrow> bool" where
  "sealed p \<longleftrightarrow> pt_stage p = Running \<and> pt_file p = ClosedFile \<and> pt_lease p = None \<and> pt_durable p"

definition shut :: "protocol \<Rightarrow> bool" where
  "shut p \<longleftrightarrow> (pt_stage p = Running \<or> pt_stage p = Finalizing) \<and> released p"

definition published :: "stage \<Rightarrow> finalize_request \<Rightarrow> protocol \<Rightarrow> bool" where
  "published st fz p \<longleftrightarrow> pt_stage p = st \<and> released p \<and> pt_answer p = Some fz"

definition concluded :: "protocol \<Rightarrow> bool" where
  "concluded p \<longleftrightarrow> pt_stage p = Over \<and> released p"

lemmas phase_defs = writing_def leased_def sealed_def shut_def published_def concluded_def released_def
lemmas step_defs = protocol_step_def guarded_def move_stage_def finish_allowed_def

text \<open>Every failure but the exhausted count of turns leaves nothing open; with enough turns there is no other.\<close>

definition failed_well :: "(protocol \<Rightarrow> 's \<Rightarrow> bool) \<Rightarrow> bool \<Rightarrow> exec_error \<Rightarrow> 's \<Rightarrow> bool" where
  "failed_well I lim e s \<longleftrightarrow> reaching I (\<lambda>p. e \<noteq> OutOfFuel \<longrightarrow> released p) s \<and> (lim \<longrightarrow> e \<noteq> OutOfFuel)"

lemma failed_wellI: "I p s \<Longrightarrow> released p \<Longrightarrow> e \<noteq> OutOfFuel \<Longrightarrow> failed_well I lim e s"
  by (auto simp: failed_well_def reaching_def)

lemma failed_well_fail:
  "(\<And>p. \<Phi> p \<Longrightarrow> released p) \<Longrightarrow> e \<noteq> OutOfFuel \<Longrightarrow> outcomes (reaching I \<Phi>) (act_fail e) Q (failed_well I lim)"
  by (auto simp: outcomes_def act_fail_def failed_well_def reaching_def)

lemma stopped_at_fuel [simp]: "stopped_at reason \<noteq> OutOfFuel"
  by (simp add: stopped_at_def)

section \<open>What a recording can be finished with\<close>

definition unsuccessful :: "int \<Rightarrow> terminal_reason \<Rightarrow> quality_summary \<Rightarrow> bool" where
  "unsuccessful n reason q \<longleftrightarrow> 0 \<le> n \<and> valid_reason reason \<and> \<not> successful_reason reason \<and> quality_valid q"

lemma reason_facts [simp]:
  "valid_reason ReasonFileSyncFailed" "\<not> successful_reason ReasonFileSyncFailed"
  "valid_reason ReasonUserRequestedStop" "\<not> successful_reason ReasonUserRequestedStop"
  "valid_reason ReasonProcessShutdown" "\<not> successful_reason ReasonProcessShutdown"
  "valid_reason ReasonStreamEndedEarly" "\<not> successful_reason ReasonStreamEndedEarly"
  "valid_reason ReasonFileCreateFailed" "\<not> successful_reason ReasonFileCreateFailed"
  "valid_reason ReasonStreamNotFound" "\<not> successful_reason ReasonStreamNotFound"
  "valid_reason ReasonStreamTimeout" "\<not> successful_reason ReasonStreamTimeout"
  "valid_reason ReasonStreamCancelled" "\<not> successful_reason ReasonStreamCancelled"
  "valid_reason ReasonStreamUnavailable" "\<not> successful_reason ReasonStreamUnavailable"
  "valid_reason ReasonProcessInterrupted" "\<not> successful_reason ReasonProcessInterrupted"
  "valid_reason ReasonFileWriteFailed" "\<not> successful_reason ReasonFileWriteFailed"
  "valid_reason ReasonStreamReconnectExhausted" "\<not> successful_reason ReasonStreamReconnectExhausted"
  "valid_reason ReasonFinalPublicationFailed" "\<not> successful_reason ReasonFinalPublicationFailed"
  by (simp_all add: successful_reason_def)

lemma unsuccessful_reason:
  "unsuccessful n reason q \<Longrightarrow> valid_reason reason' \<Longrightarrow> \<not> successful_reason reason' \<Longrightarrow> unsuccessful n reason' q"
  by (simp add: unsuccessful_def)

lemma unsuccessful_if: "unsuccessful n reason q \<Longrightarrow> unsuccessful n (if b then reason else ReasonFileSyncFailed) q"
  by (simp add: unsuccessful_def)

lemma count_finish_ok:
  assumes "unsuccessful n reason q" "188 \<le> n \<Longrightarrow> file_exists" "i \<noteq> 0" "utc_instant t"
  shows "validate_finish \<lparr>fn_quality = q, fn_attempt_id = i, fn_state = count_state n reason, fn_reason = reason,
    fn_byte_count = n, fn_availability = (if file_exists then AvailabilityPartial else AvailabilityMissing),
    fn_recovered = False, fn_now = t, fn_one_seg = None\<rparr> = Inr ()"
  using assms
  by (auto simp: validate_finish_def finish_combination_def count_state_def unsuccessful_def one_seg_ok_def
      minimum_useful_ts_def)

text \<open>What a finalization may ask for.\<close>

definition publishable :: "int \<Rightarrow> attempt_state \<times> terminal_reason \<Rightarrow> quality_summary \<Rightarrow> bool" where
  "publishable n planned q \<longleftrightarrow>
     188 \<le> n \<and> quality_valid q \<and>
     (fst planned = AttemptSucceeded \<and> successful_reason (snd planned) \<or>
      fst planned = AttemptPartial \<and>
        (snd planned = ReasonUserRequestedStop \<or> communication_partial_reason (snd planned) \<and> n mod 188 = 0))"

text \<open>Where the answer of the store leaves the recording.\<close>

definition answered :: "finalize_request \<Rightarrow> finalize_answer \<Rightarrow> protocol \<Rightarrow> bool" where
  "answered req answer p \<longleftrightarrow>
     (case answer of
        Finalization fz \<Rightarrow> if answer_ok req fz then published Finalizing fz p else sealed p
      | _ \<Rightarrow> sealed p)"

lemma is_ok_unit: "is_ok x \<longleftrightarrow> x = Inr ()"
  by (cases x) (simp_all add: is_ok_def)

locale claimed_environment = protocol_environment ex strict at bound I
  for ex :: "'s executor" and strict :: bool and at :: attempt and bound :: "nat option" and I :: "protocol \<Rightarrow> 's \<Rightarrow> bool" +
  assumes claimed: "strict \<Longrightarrow> at_id at \<noteq> 0"
begin

section \<open>Rules for one operation and the rest\<close>

lemma now_bind:
  assumes "\<And>t. (strict \<Longrightarrow> utc_instant t) \<Longrightarrow> outcomes (reaching I \<Phi>) (f t) Q E"
  shows "outcomes (reaching I \<Phi>) (act_bind (now ex) f) Q E"
  by (rule triple_bind [OF now_rule]) (use assms in \<open>auto intro: triple_pure triple_pre\<close>)

lemma id_bind:
  assumes "\<And>i. (strict \<Longrightarrow> i \<noteq> Some 0) \<Longrightarrow> outcomes (reaching I \<Phi>) (f i) Q E"
  shows "outcomes (reaching I \<Phi>) (act_bind (perform (ex_new_id ex)) f) Q E"
  by (rule triple_bind [OF id_rule]) (use assms in \<open>auto intro: triple_pure triple_pre\<close>)

lemmas live_bind = triple_bind [OF live_rule]
lemmas stop_bind = triple_bind [OF stop_rule]
lemmas call_bind = triple_bind [OF call_rule]
lemmas must_seq = triple_seq [OF must_rule]
lemmas ignoring_seq = triple_seq [OF ignoring_rule]

lemma must_now_seq:
  assumes "\<And>t p. \<Phi> p \<Longrightarrow> \<exists>p'. protocol_step strict at p (EvCall (c t) True) = Some p' \<and> \<Psi> p'"
    "\<And>t p. \<Phi> p \<Longrightarrow> \<exists>p'. protocol_step strict at p (EvCall (c t) False) = Some p' \<and> (\<forall>s. I p' s \<longrightarrow> E e s)"
    "outcomes (reaching I \<Psi>) k Q E"
  shows "outcomes (reaching I \<Phi>) (act_seq (must_now ex c e) k) Q E"
  by (rule triple_seq [OF _ assms(3)]) (auto simp: must_now_def intro!: now_bind must_rule assms(1,2))

lemma finish_step:
  assumes "finish_allowed p req" "fn_attempt_id req = at_id at"
    "strict \<Longrightarrow> validate_finish req = Inr ()"
  shows "\<exists>p'. protocol_step strict at p (EvCall (Finish ctx req) good) = Some p' \<and>
    (if good then concluded p' else p' = p)"
  using assms by (auto simp: step_defs is_ok_def phase_defs split: if_splits)

lemma finish_seq:
  assumes "e \<noteq> OutOfFuel" "\<And>p. \<Phi> p \<Longrightarrow> finish_allowed p req" "fn_attempt_id req = at_id at"
    "strict \<Longrightarrow> validate_finish req = Inr ()"
  shows "outcomes (reaching I \<Phi>) (act_seq (must ex (Finish ctx req) e) (act_return x))
    (\<lambda>_. reaching I concluded) (failed_well I lim)"
proof (rule must_seq)
  fix p assume p: "\<Phi> p"
  show "\<exists>p'. protocol_step strict at p (EvCall (Finish ctx req) True) = Some p' \<and> concluded p'"
    using finish_step [OF assms(2) [OF p] assms(3,4), of ctx True] by auto
  have "released p" using assms(2) [OF p] by (simp add: finish_allowed_def)
  then show "\<exists>p'. protocol_step strict at p (EvCall (Finish ctx req) False) = Some p' \<and>
      (\<forall>s. I p' s \<longrightarrow> failed_well I lim e s)"
    using finish_step [OF assms(2) [OF p] assms(3,4), of ctx False] by (auto intro: failed_wellI [OF _ _ assms(1)])
qed (rule triple_return)

section \<open>Ending without publication\<close>

lemma finish_by_count_rule:
  assumes "unsuccessful n reason q" "188 \<le> n \<Longrightarrow> file_exists"
  shows "outcomes (reaching I shut) (finish_by_count ex ctx (at_id at) n reason file_exists q)
    (\<lambda>_. reaching I concluded) (failed_well I lim)"
  unfolding finish_by_count_def Let_def
  by (rule now_bind, rule finish_seq)
    (use assms claimed in \<open>auto simp: count_finish_ok finish_allowed_def shut_def\<close>)

lemma finish_partial_after_close_rule:
  assumes "unsuccessful n reason q"
  shows "outcomes (reaching I (writing k)) (finish_partial_after_close ex (at_plan at) (at_id at) n reason q)
    (\<lambda>_. reaching I concluded) (failed_well I lim)"
  unfolding finish_partial_after_close_def
  by (rule call_bind [where \<Psi> = "\<lambda>_. shut"], force simp: step_defs phase_defs,
      rule finish_by_count_rule [OF unsuccessful_if [OF assms]], simp)

lemma sync_step: "writing k p \<Longrightarrow> \<exists>p'. protocol_step strict at p (EvCall (SyncFile (at_plan at)) good) = Some p' \<and>
    writing k p' \<and> pt_durable p' = good"
  by (auto simp: step_defs phase_defs)

lemma finish_before_recording_rule:
  assumes "valid_reason reason" "\<not> successful_reason reason" "quality_valid q"
  shows "outcomes (reaching I (writing k)) (finish_before_recording ex (at_plan at) (at_id at) reason q)
    (\<lambda>_. reaching I concluded) (failed_well I lim)"
  unfolding finish_before_recording_def
  by (rule call_bind [where \<Psi> = "\<lambda>_. writing k"])
    (use assms sync_step in \<open>auto simp: unsuccessful_def intro!: finish_partial_after_close_rule\<close>, blast)

section \<open>Publication\<close>

text \<open>From one stage of the publication to the next; a failed step leaves the recording to the recovery.\<close>

lemma publish_step:
  assumes "request_accepted (EvCall c good)"
    "\<And>p. pt_stage p = a \<Longrightarrow> call_step at p c good = Some (if good then p\<lparr>pt_stage := b\<rparr> else p)" "published a fz p"
  shows "\<exists>p'. protocol_step strict at p (EvCall c good) = Some p' \<and> published (if good then b else a) fz p'"
  using assms by (auto simp: protocol_step_def published_def released_def)

lemma publish_seq:
  assumes "e \<noteq> OutOfFuel" "\<And>good. request_accepted (EvCall c good)"
    "\<And>p good. pt_stage p = a \<Longrightarrow> call_step at p c good = Some (if good then p\<lparr>pt_stage := b\<rparr> else p)"
    "outcomes (reaching I (published b fz)) k Q (failed_well I lim)"
  shows "outcomes (reaching I (published a fz)) (act_seq (must ex c e) k) Q (failed_well I lim)"
proof (rule must_seq [OF _ _ assms(4)])
  fix p assume p: "published a fz p"
  show "\<exists>p'. protocol_step strict at p (EvCall c True) = Some p' \<and> published b fz p'"
    using publish_step [OF assms(2,3) p, of True] by simp
  show "\<exists>p'. protocol_step strict at p (EvCall c False) = Some p' \<and> (\<forall>s. I p' s \<longrightarrow> failed_well I lim e s)"
    using publish_step [OF assms(2,3) p, of False] by (auto simp: published_def intro: failed_wellI [OF _ _ assms(1)])
qed

lemma publish_now_seq:
  assumes "e \<noteq> OutOfFuel" "\<And>t good. request_accepted (EvCall (c t) good)"
    "\<And>t p good. pt_stage p = a \<Longrightarrow> call_step at p (c t) good = Some (if good then p\<lparr>pt_stage := b\<rparr> else p)"
    "outcomes (reaching I (published b fz)) k Q (failed_well I lim)"
  shows "outcomes (reaching I (published a fz)) (act_seq (must_now ex c e) k) Q (failed_well I lim)"
proof (rule must_now_seq [OF _ _ assms(4)])
  fix t p assume p: "published a fz p"
  show "\<exists>p'. protocol_step strict at p (EvCall (c t) True) = Some p' \<and> published b fz p'"
    using publish_step [OF assms(2,3) p, of t True] by simp
  show "\<exists>p'. protocol_step strict at p (EvCall (c t) False) = Some p' \<and> (\<forall>s. I p' s \<longrightarrow> failed_well I lim e s)"
    using publish_step [OF assms(2,3) p, of t False] by (auto simp: published_def intro: failed_wellI [OF _ _ assms(1)])
qed

lemma complete_publication_rule:
  assumes "validate_finalize fz = Inr ()" "fz_byte_count fz = n" "quality_valid q"
  shows "outcomes (reaching I (published LinkedFinal fz))
    (complete_publication ex ctx at n (fz_state fz) (fz_reason fz) q) (\<lambda>_. reaching I concluded) (failed_well I lim)"
proof -
  have finish: "outcomes (reaching I (published MarkedSynced fz))
      (act_seq (must ex (Finish ctx req) e) (act_return x)) (\<lambda>_. reaching I concluded) (failed_well I lim)"
    if "e \<noteq> OutOfFuel" "req = (finish_of fz False t)\<lparr>fn_quality := q, fn_attempt_id := at_id at\<rparr>" "strict \<Longrightarrow> utc_instant t" for req t e x
  proof (rule finish_seq)
    show "strict \<Longrightarrow> validate_finish req = Inr ()"
      using finalize_result_cases [OF assms(1)] that claimed assms(3)
      by (auto simp: validate_finish_def finish_combination_def finish_of_def one_seg_ok_def
          successful_reason_def communication_partial_reason_def)
  qed (auto simp: that(1,2) finish_allowed_def published_def finish_of_def)
  show ?thesis
    unfolding complete_publication_def Let_def
    by (intro publish_now_seq [where b = MarkedFinal] publish_seq [where b = SyncedFinal]
        publish_seq [where b = RemovedPartial] publish_seq [where b = ResyncedFinal]
        publish_now_seq [where b = MarkedSynced] now_bind finish)
      (simp_all add: move_stage_def guarded_def assms(2) finish_of_def)
qed

lemma link_and_complete_rule:
  assumes "validate_finalize fz = Inr ()" "fz_byte_count fz = n" "quality_valid q"
  shows "outcomes (reaching I (published Finalizing fz)) (link_and_complete ex at n fz q)
    (\<lambda>_. reaching I concluded) (failed_well I lim)"
  unfolding link_and_complete_def
proof (rule triple_bind [OF moves_perform [OF moves_link,
      where \<Psi> = "\<lambda>answer. published (if answer = None then LinkedFinal else Finalizing) fz"]])
  fix answer :: "(bool \<times> bool) option"
  have "0 \<le> n" using finalize_result_cases(3) [OF assms(1)] assms(2) by simp
  then have finish: "outcomes (reaching I (published Finalizing fz))
      (act_seq (must ex (Finish Detached req) e) (act_return x)) (\<lambda>_. reaching I concluded) (failed_well I lim)"
    if "e \<noteq> OutOfFuel" "req = \<lparr>fn_quality = q, fn_attempt_id = at_id at, fn_state = AttemptFailed,
       fn_reason = ReasonFinalPublicationFailed, fn_byte_count = n,
       fn_availability = AvailabilityPartial, fn_recovered = False, fn_now = t, fn_one_seg = None\<rparr>"
      "strict \<Longrightarrow> utc_instant t" for req t e x
    using claimed assms(3)
    by (intro finish_seq)
      (auto simp: that finish_allowed_def published_def validate_finish_def finish_combination_def one_seg_ok_def)
  show "outcomes (reaching I (published (if answer = None then LinkedFinal else Finalizing) fz))
    (case answer of
       None \<Rightarrow> complete_publication ex Detached at n (fz_state fz) (fz_reason fz) q
     | Some (unsupported, exists) \<Rightarrow>
         if unsupported then
           act_bind (now ex) (\<lambda>t.
             let finish = \<lparr>fn_quality = q, fn_attempt_id = at_id at, fn_state = AttemptFailed,
                   fn_reason = ReasonFinalPublicationFailed, fn_byte_count = n,
                   fn_availability = AvailabilityPartial, fn_recovered = False, fn_now = t, fn_one_seg = None\<rparr>
             in act_seq (must ex (Finish Detached finish) PersistUnsupportedPublication)
                  (act_return (result_of AttemptFailed ReasonFinalPublicationFailed)))
         else if exists then act_fail (stopped_at ReasonFinalNameConflict)
         else act_fail (stopped_at ReasonFinalPublicationFailed))
    (\<lambda>_. reaching I concluded) (failed_well I lim)"
  proof (cases answer)
    case None
    then show ?thesis using complete_publication_rule [OF assms] by simp
  next
    case (Some kind)
    have fail: "outcomes (reaching I (published Finalizing fz)) (act_fail e) (\<lambda>_. reaching I concluded) (failed_well I lim)"
      if "e \<noteq> OutOfFuel" for e
      by (rule failed_well_fail [OF _ that]) (simp add: published_def)
    show ?thesis
      using Some by (cases kind) (auto simp: Let_def intro!: fail now_bind finish)
  qed
qed (auto simp: step_defs phase_defs)

lemma finalize_bind:
  assumes "fz_attempt_id req = at_id at" "strict \<Longrightarrow> validate_finalize req = Inr ()"
    "\<And>answer. outcomes (reaching I (answered req answer)) (f answer) Q E"
  shows "outcomes (reaching I sealed) (act_bind (perform (ex_finalize ex ctx req)) f) Q E"
proof (rule triple_bind [OF moves_perform [OF moves_finalize] assms(3)])
  fix p answer assume "sealed p"
  then show "\<exists>p'. protocol_step strict at p (EvFinalize req answer) = Some p' \<and> answered req answer p'"
    using assms(1,2)
    by (auto simp: step_defs is_ok_def answered_def sealed_def published_def released_def split: finalize_answer.split)
qed

lemma sealed_shut: "sealed p \<Longrightarrow> shut p"
  by (auto simp: phase_defs)

lemma sealed_fail: "e \<noteq> OutOfFuel \<Longrightarrow> outcomes (reaching I sealed) (act_fail e) Q (failed_well I lim)"
  by (rule failed_well_fail) (simp add: phase_defs)

lemma take_answer_rule:
  assumes "quality_valid q" "fz_byte_count req = n"
  shows "outcomes (reaching I (answered req answer)) (take_answer ex at n q req answer)
    (\<lambda>_. reaching I concluded) (failed_well I lim)"
proof (cases answer)
  case (Finalization fz)
  show ?thesis
  proof (cases "answer_ok req fz")
    case True
    then have "validate_finalize fz = Inr ()" "fz_byte_count fz = n" using assms(2) by (auto simp: answer_ok_def is_ok_unit)
    from link_and_complete_rule [OF this assms(1)] show ?thesis
      using True by (simp add: Finalization take_answer_def answered_def [abs_def])
  next
    case False
    then show ?thesis by (simp add: Finalization take_answer_def answered_def [abs_def] sealed_fail)
  qed
qed (simp_all add: take_answer_def answered_def [abs_def] sealed_fail)

lemma sealed_count:
  assumes "188 \<le> n" "quality_valid q" "valid_reason reason" "\<not> successful_reason reason"
  shows "outcomes (reaching I sealed) (finish_by_count ex ctx (at_id at) n reason True q)
    (\<lambda>_. reaching I concluded) (failed_well I lim)"
  by (rule weaken [OF finish_by_count_rule sealed_shut]) (use assms in \<open>simp_all add: unsuccessful_def\<close>)

lemma cancel_bind:
  assumes "outcomes (reaching I \<Phi>) (f None) Q E"
    "\<And>reason. reason = ReasonUserRequestedStop \<or> reason = ReasonProcessShutdown \<Longrightarrow> outcomes (reaching I \<Phi>) (f (Some reason)) Q E"
  shows "outcomes (reaching I \<Phi>) (act_bind (cancel_reason ex i) f) Q E"
proof -
  let ?B = "\<lambda>answer s. reaching I \<Phi> s \<and> (answer = None \<or> answer = Some ReasonUserRequestedStop \<or> answer = Some ReasonProcessShutdown)"
  have "outcomes (reaching I \<Phi>) (cancel_reason ex i) ?B E"
    unfolding cancel_reason_def
    by (rule stop_bind) (auto simp: outcomes_def act_return_def split: option.split)
  then show ?thesis
    by (rule triple_bind) (use assms in \<open>auto intro: triple_pure triple_pre\<close>)
qed

lemma unless_cancelled_rule:
  assumes "188 \<le> n" "quality_valid q" "outcomes (reaching I sealed) (k planned) (\<lambda>_. reaching I concluded) (failed_well I lim)"
    "outcomes (reaching I sealed) (k (AttemptPartial, ReasonUserRequestedStop)) (\<lambda>_. reaching I concluded) (failed_well I lim)"
  shows "outcomes (reaching I sealed) (unless_cancelled ex ctx (at_id at) n q planned k)
    (\<lambda>_. reaching I concluded) (failed_well I lim)"
  unfolding unless_cancelled_def
  by (rule live_bind, rule triple_if, rule assms(3), rule cancel_bind)
    (use assms(1,2,4) in \<open>auto intro: sealed_fail sealed_count\<close>)

lemma begin_finalization_rule:
  assumes "publishable n planned q" "strict \<Longrightarrow> token \<noteq> 0"
  shows "outcomes (reaching I sealed) (begin_finalization ex ctx at n token q planned)
    (\<lambda>_. reaching I concluded) (failed_well I lim)"
proof -
  have q: "quality_valid q" and n: "188 \<le> n" using assms(1) by (simp_all add: publishable_def)
  have ok: "validate_finalize \<lparr>fz_quality = q, fz_attempt_id = at_id at, fz_token = token, fz_byte_count = n,
      fz_state = fst pl, fz_reason = snd pl, fz_now = t, fz_one_seg = None\<rparr> = Inr ()"
    if "publishable n pl q" "utc_instant t" strict for pl t
    using that assms(2) claimed by (auto simp: validate_finalize_def publishable_def one_seg_ok_def)
  have stop: "publishable n (AttemptPartial, ReasonUserRequestedStop) q" using assms(1) by (simp add: publishable_def)
  have again: "outcomes (reaching I sealed) (act_bind (live ex ctx) (\<lambda>c.
      if c = ContextLive then take_answer ex at n q req FinalizationUnavailable
      else act_bind (cancel_reason ex (at_id at)) (\<lambda>cancelled.
        case cancelled of
          None \<Rightarrow> act_fail ReadStopAfterCancellation
        | Some reason \<Rightarrow>
            if reason \<noteq> ReasonUserRequestedStop then finish_by_count ex Detached (at_id at) n reason True q
            else act_bind (perform (ex_finalize ex Detached req')) (take_answer ex at n q req'))))
      (\<lambda>_. reaching I concluded) (failed_well I lim)"
    if req': "req' = \<lparr>fz_quality = q, fz_attempt_id = at_id at, fz_token = token, fz_byte_count = n,
      fz_state = AttemptPartial, fz_reason = ReasonUserRequestedStop, fz_now = t, fz_one_seg = None\<rparr>"
      "strict \<Longrightarrow> utc_instant t" for req req' t
  proof -
    have second: "outcomes (reaching I sealed) (act_bind (perform (ex_finalize ex Detached req')) (take_answer ex at n q req'))
        (\<lambda>_. reaching I concluded) (failed_well I lim)"
      using ok [OF stop, of t] that by (intro finalize_bind take_answer_rule [OF q]) simp_all
    show ?thesis
      by (rule live_bind, rule triple_if, simp add: take_answer_def sealed_fail, rule cancel_bind)
        (use n q second in \<open>auto intro: sealed_fail sealed_count\<close>)
  qed
  show ?thesis
    unfolding begin_finalization_def Let_def
  proof (rule now_bind, rule finalize_bind)
    fix t and answer :: finalize_answer assume t: "strict \<Longrightarrow> utc_instant t"
    let ?req = "\<lparr>fz_quality = q, fz_attempt_id = at_id at, fz_token = token, fz_byte_count = n,
      fz_state = fst planned, fz_reason = snd planned, fz_now = t, fz_one_seg = None\<rparr>"
    let ?req' = "?req\<lparr>fz_state := AttemptPartial, fz_reason := ReasonUserRequestedStop\<rparr>"
    show "outcomes (reaching I (answered ?req answer))
      (if answer \<noteq> FinalizationUnavailable then take_answer ex at n q ?req answer
       else act_bind (live ex ctx) (\<lambda>c.
         if c = ContextLive then take_answer ex at n q ?req answer
         else act_bind (cancel_reason ex (at_id at)) (\<lambda>cancelled.
           case cancelled of
             None \<Rightarrow> act_fail ReadStopAfterCancellation
           | Some reason \<Rightarrow>
               if reason \<noteq> ReasonUserRequestedStop then finish_by_count ex Detached (at_id at) n reason True q
               else act_bind (perform (ex_finalize ex Detached ?req')) (take_answer ex at n q ?req'))))
      (\<lambda>_. reaching I concluded) (failed_well I lim)"
    proof (cases "answer = FinalizationUnavailable")
      case True
      show ?thesis unfolding True using again [of ?req' t ?req] t by (simp add: answered_def [abs_def])
    next
      case False
      then show ?thesis by (simp add: take_answer_rule [OF q])
    qed
  qed (use ok [OF assms(1)] in simp_all)
qed

lemma stop_publishable: "publishable n planned q \<Longrightarrow> publishable n (AttemptPartial, ReasonUserRequestedStop) q"
  by (simp add: publishable_def)

lemma token_rule:
  assumes "publishable n planned q"
  shows "outcomes (reaching I sealed) (act_bind (perform (ex_new_id ex)) (\<lambda>answer.
      case answer of
        None \<Rightarrow> act_fail FinalizationTokenFailed
      | Some token \<Rightarrow> unless_cancelled ex ctx (at_id at) n q planned (begin_finalization ex ctx at n token q)))
      (\<lambda>_. reaching I concluded) (failed_well I lim)"
proof (rule id_bind, rule triple_option, rule sealed_fail, simp)
  fix answer :: "entity_id option" and token :: entity_id
  assume "strict \<Longrightarrow> answer \<noteq> Some 0" "answer = Some token"
  then have "strict \<Longrightarrow> token \<noteq> 0" by auto
  moreover have "188 \<le> n" "quality_valid q" using assms by (simp_all add: publishable_def)
  ultimately show "outcomes (reaching I sealed)
      (unless_cancelled ex ctx (at_id at) n q planned (begin_finalization ex ctx at n token q))
      (\<lambda>_. reaching I concluded) (failed_well I lim)"
    using assms stop_publishable [OF assms] by (intro unless_cancelled_rule begin_finalization_rule) simp_all
qed

lemma publish_final_rule:
  assumes "publishable n (state, reason) q"
  shows "outcomes (reaching I sealed) (publish_final ex ctx at n state reason q)
    (\<lambda>_. reaching I concluded) (failed_well I lim)"
  unfolding publish_final_def
  by (rule unless_cancelled_rule [OF _ _ token_rule [OF assms] token_rule [OF stop_publishable [OF assms]]])
    (use assms in \<open>simp_all add: publishable_def\<close>)

lemma post_script_rule: "outcomes (reaching I \<Phi>) (run_post_script ex ctx r at result) (\<lambda>_. reaching I \<Phi>) E"
  unfolding run_post_script_def Let_def
  by (cases "ex_final_path ex"; cases "ex_post ex")
    (auto intro!: triple_return triple_bind quiet_perform quiet_path quiet_post split: option.split)

lemma observe_post_rule: "outcomes (reaching I \<Phi>) (observe_post ex reason) (\<lambda>_. reaching I \<Phi>) E"
  unfolding observe_post_def
  by (auto intro: triple_return quiet_perform quiet_observe_post split: option.split)

lemma publish_and_post_process_rule:
  assumes "publishable n (state, reason) q"
  shows "outcomes (reaching I sealed) (publish_and_post_process ex ctx r at n state reason q)
    (\<lambda>_. reaching I concluded) (failed_well I lim)"
  unfolding publish_and_post_process_def
  by (rule triple_bind [OF publish_final_rule [OF assms]])
    (auto intro!: triple_return triple_seq triple_when triple_bind post_script_rule observe_post_rule)

section \<open>Ending with an open file\<close>

lemma timed_bind:
  assumes "\<And>p. \<Phi> p \<Longrightarrow> event_step at p (EvTimed m) = Some p" "\<And>answer. outcomes (reaching I \<Phi>) (f answer) Q E"
  shows "outcomes (reaching I \<Phi>) (act_bind (perform (ex_timed ex m)) f) Q E"
  by (rule triple_bind [OF moves_perform [OF moves_timed, where \<Psi> = "\<lambda>_. \<Phi>"] assms(2)])
    (auto simp: protocol_step_def assms(1))

lemma progress_bind:
  assumes "\<And>stored. outcomes (reaching I (writing k)) (f stored) Q E"
  shows "outcomes (reaching I (writing k)) (act_bind (store_progress ex (at_id at) n q) f) Q E"
proof (rule triple_bind [OF _ assms])
  show "outcomes (reaching I (writing k)) (store_progress ex (at_id at) n q) (\<lambda>_. reaching I (writing k)) E"
    unfolding store_progress_def
    by (rule now_bind, rule timed_bind) (auto simp: step_defs phase_defs intro: triple_return)
qed

lemma sync_seq:
  assumes "outcomes (reaching I (writing k)) m Q E"
  shows "outcomes (reaching I (writing k)) (act_seq (ignoring ex (SyncFile (at_plan at))) m) Q E"
  by (rule ignoring_seq [OF _ assms]) (force simp: step_defs phase_defs)

lemma abandon_rule: "e \<noteq> OutOfFuel \<Longrightarrow> outcomes (reaching I (writing k)) (abandon ex (at_plan at) e) Q (failed_well I lim)"
  unfolding abandon_def
  by (rule ignoring_seq [where \<Psi> = released]) (force simp: step_defs phase_defs, rule failed_well_fail)

lemma finish_partial_rule:
  assumes "unsuccessful n reason q"
  shows "outcomes (reaching I (writing k)) (finish_partial ex (at_plan at) (at_id at) n reason q)
    (\<lambda>_. reaching I concluded) (failed_well I lim)"
  unfolding finish_partial_def
proof (rule progress_bind, rule triple_if, rule sync_seq, rule abandon_rule, simp)
  show "outcomes (reaching I (writing k)) (act_bind (call ex (SyncFile (at_plan at))) (\<lambda>synced.
      finish_partial_after_close ex (at_plan at) (at_id at) n (if synced then reason else ReasonFileSyncFailed) q))
    (\<lambda>_. reaching I concluded) (failed_well I lim)"
    by (rule call_bind [where \<Psi> = "\<lambda>_. writing k"], force simp: step_defs phase_defs,
        rule finish_partial_after_close_rule, rule unsuccessful_if [OF assms])
qed

lemma when_durable_rule:
  assumes "0 \<le> n" "quality_valid q" "outcomes (reaching I sealed) m (\<lambda>_. reaching I concluded) (failed_well I lim)"
  shows "outcomes (reaching I (writing k)) (when_durable ex ctx (at_plan at) (at_id at) n q m)
    (\<lambda>_. reaching I concluded) (failed_well I lim)"
proof -
  have failed: "unsuccessful n ReasonFileSyncFailed q" using assms(1,2) by (simp add: unsuccessful_def)
  have closing: "outcomes (reaching I (\<lambda>p. writing k p \<and> pt_durable p)) (act_bind (call ex (CloseFile (at_plan at))) (\<lambda>closed.
      if \<not> closed then finish_by_count ex ctx (at_id at) n ReasonFileSyncFailed True q else m))
      (\<lambda>_. reaching I concluded) (failed_well I lim)"
  proof (rule call_bind [where \<Psi> = "\<lambda>closed. if closed then sealed else shut"])
    show "outcomes (reaching I (if closed then sealed else shut))
        (if \<not> closed then finish_by_count ex ctx (at_id at) n ReasonFileSyncFailed True q else m)
        (\<lambda>_. reaching I concluded) (failed_well I lim)" for closed
      by (cases closed) (simp_all add: assms(3) finish_by_count_rule [OF failed])
  qed (auto simp: step_defs phase_defs)
  show ?thesis
    unfolding when_durable_def
  proof (rule call_bind [where \<Psi> = "\<lambda>synced p. writing k p \<and> pt_durable p = synced"])
    show "outcomes (reaching I (\<lambda>p. writing k p \<and> pt_durable p = synced))
        (if \<not> synced then finish_partial_after_close ex (at_plan at) (at_id at) n ReasonFileSyncFailed q
         else act_bind (call ex (CloseFile (at_plan at))) (\<lambda>closed.
           if \<not> closed then finish_by_count ex ctx (at_id at) n ReasonFileSyncFailed True q else m))
        (\<lambda>_. reaching I concluded) (failed_well I lim)" for synced
      using closing by (cases synced) (auto intro: weaken [OF finish_partial_after_close_rule [OF failed]])
  qed (rule sync_step)
qed

lemma finish_user_stop_rule:
  assumes "0 \<le> n" "quality_valid q"
  shows "outcomes (reaching I (writing k)) (finish_user_stop ex r at n q) (\<lambda>_. reaching I concluded) (failed_well I lim)"
  unfolding finish_user_stop_def
proof (rule progress_bind, rule triple_if, rule sync_seq, rule abandon_rule, simp, rule when_durable_rule [OF assms], rule triple_if)
  show "outcomes (reaching I sealed) (finish_by_count ex Detached (at_id at) n ReasonUserRequestedStop True q)
      (\<lambda>_. reaching I concluded) (failed_well I lim)"
    by (rule weaken [OF finish_by_count_rule sealed_shut]) (use assms in \<open>simp_all add: unsuccessful_def\<close>)
  assume "\<not> n < minimum_useful_ts"
  then show "outcomes (reaching I sealed)
      (publish_and_post_process ex Detached r at n AttemptPartial ReasonUserRequestedStop q)
      (\<lambda>_. reaching I concluded) (failed_well I lim)"
    using assms(2) by (intro publish_and_post_process_rule) (simp add: publishable_def minimum_useful_ts_def)
qed

end

end
