(* ===== verification/ExecutorCopy.thy ===== *)
theory ExecutorCopy
  imports ExecutorRuns
begin

text \<open>The copy of a connection follows the protocol, and what it leaves can be finished.\<close>

section \<open>What a copy leaves\<close>

definition sound_copy :: "attempt \<Rightarrow> stream_copy \<Rightarrow> bool" where
  "sound_copy at cr \<longleftrightarrow> 0 \<le> cr_byte_count cr \<and> quality_valid (cr_quality cr) \<and>
     cr_maximum_end cr = maximum_end at \<and> \<not> after_time (cr_planned_end cr) (maximum_end at)"

definition failure_known :: "stream_copy \<Rightarrow> bool" where
  "failure_known cr \<longleftrightarrow> valid_reason (cr_reason cr) \<and> \<not> successful_reason (cr_reason cr)"

definition ended_copy :: "attempt \<Rightarrow> stream_copy \<Rightarrow> bool" where
  "ended_copy at cr \<longleftrightarrow> sound_copy at cr \<and> (cr_reached_end cr \<or> failure_known cr)"

text \<open>A turn that ends does so with a copy that can be finished.\<close>

definition turn_ok :: "attempt \<Rightarrow> 's turn \<Rightarrow> bool" where
  "turn_ok at t \<longleftrightarrow>
     (case t of
        CopyEnded cr rf \<Rightarrow> ended_copy at cr \<and> recording_ok rf
      | CopyGoesOn cr rf \<Rightarrow> sound_copy at cr \<and> recording_ok rf)"

lemma degrade_valid [simp]: "quality_valid (degrade q) = quality_valid q"
  by (simp add: degrade_def quality_valid_def quality_counters_def)

lemma stream_reasons [simp]:
  "valid_reason (stream_failure_reason err)" "\<not> successful_reason (stream_failure_reason err)"
  "valid_reason (stream_terminal_reason err terminal)" "\<not> successful_reason (stream_terminal_reason err terminal)"
  by (simp_all add: stream_failure_reason_def stream_terminal_reason_def split: terminal_kind.split)

lemma recording_ok_file [simp]: "recording_ok (with_file s rf) = recording_ok rf"
  by (simp add: recording_ok_def with_file_def filter_ok_def)

lemma recording_ok_quality: "recording_ok rf \<Longrightarrow> quality_valid (filter_quality rf)"
  by (simp add: recording_ok_def filter_ok_def filter_quality_def)

lemma settle_copy_ended:
  assumes "ended_copy at cr" "0 \<le> n" "quality_valid q"
  shows "ended_copy at (settle_copy n failed q cr)"
  using assms by (auto simp: settle_copy_def ended_copy_def sound_copy_def failure_known_def Let_def)

text \<open>At a lease, after so many reads; \<open>within\<close>: not as many as the clock allows.\<close>

definition reading :: "bytes \<Rightarrow> nat \<Rightarrow> nat \<Rightarrow> protocol \<Rightarrow> bool" where
  "reading l k j p \<longleftrightarrow> leased l k p \<and> j \<le> pt_reads p"

definition within :: "nat option \<Rightarrow> nat \<Rightarrow> bool" where
  "within bound j \<longleftrightarrow> (\<forall>n. bound = Some n \<longrightarrow> j < n)"

lemma planned_end_within:
  "planned_end_ok ex a cr answer \<Longrightarrow> cr_maximum_end cr = latest \<Longrightarrow> \<not> after_time (the answer) latest"
  by (auto simp: planned_end_ok_def split: option.splits)

section \<open>The filter on the state\<close>

sublocale claimed_environment \<subseteq> writer: file_keeper "ex_write ex (at_plan at)" "reaching I (reading l k j)" for l k j
proof
  fix d raw assume "reaching I (reading l k j) d"
  then obtain p where p: "I p d" "reading l k j p" by (auto simp: reaching_def)
  then have "protocol_step strict at p (EvWrite (at_plan at)) = Some (p\<lparr>pt_durable := False\<rparr>)"
    by (simp add: step_defs phase_defs reading_def)
  with moves_write p(1) have "I (p\<lparr>pt_durable := False\<rparr>) (snd (ex_write ex (at_plan at) d raw))"
    by (fastforce simp: moves_def)
  with p(2) show "reaching I (reading l k j) (snd (ex_write ex (at_plan at) d raw))"
    by (auto simp: reaching_def reading_def leased_def)
qed

context claimed_environment
begin

text \<open>A run of the filter: the state is kept at the lease, the count is not negative, the filter stays sound.\<close>

abbreviation filtered_well :: "bytes \<Rightarrow> nat \<Rightarrow> nat \<Rightarrow> int \<times> bool \<times> 's recording_filter \<Rightarrow> 's \<Rightarrow> bool" where
  "filtered_well l k j \<equiv> \<lambda>(n, failed, rf) s. reaching I (reading l k j) s \<and> 0 \<le> n \<and> recording_ok rf"

lemma filter_write_rule:
  assumes "recording_ok rf"
  shows "outcomes (reaching I (reading l k j)) (run_filter (filter_write (ex_write ex (at_plan at)) data) rf)
    (filtered_well l k j) E"
proof (rule tripleI)
  fix s r s'
  assume at: "reaching I (reading l k j) s"
    and run: "run_filter (filter_write (ex_write ex (at_plan at)) data) rf s = (Inr r, s')"
  obtain n e rf' where w: "filter_write (ex_write ex (at_plan at)) data (with_file s rf) = ((n, e), rf')"
    by (metis surj_pair)
  have "cf_file (rf_filter (with_file s rf)) = s" by (simp add: with_file_def)
  then show "filtered_well l k j r s'"
    using run w writer.filter_write_keeps [OF _ _ w] assms at
      filter_write_ok [of "with_file s rf" "ex_write ex (at_plan at)" data]
    by (auto simp: run_filter_def)
qed (simp add: run_filter_def split: prod.splits)

lemma filter_finish_rule:
  assumes "recording_ok rf"
  shows "outcomes (reaching I (reading l k j)) (run_filter (filter_finish (ex_write ex (at_plan at)) allow) rf)
    (filtered_well l k j) E"
proof (rule tripleI)
  fix s r s'
  assume at: "reaching I (reading l k j) s"
    and run: "run_filter (filter_finish (ex_write ex (at_plan at)) allow) rf s = (Inr r, s')"
  obtain n e rf' where w: "filter_finish (ex_write ex (at_plan at)) allow (with_file s rf) = ((n, e), rf')"
    by (metis surj_pair)
  have "cf_file (rf_filter (with_file s rf)) = s" by (simp add: with_file_def)
  then show "filtered_well l k j r s'"
    using run w writer.filter_finish_keeps [OF _ w] assms at
      filter_finish_ok [of "with_file s rf" "ex_write ex (at_plan at)" allow]
    by (auto simp: run_filter_def)
qed (simp add: run_filter_def split: prod.splits)

lemma filtered_bind:
  assumes "outcomes P m (filtered_well l k j) E"
    "\<And>n failed rf. 0 \<le> n \<Longrightarrow> recording_ok rf \<Longrightarrow> outcomes (reaching I (reading l k j)) (f (n, failed, rf)) Q E"
  shows "outcomes P (act_bind m f) Q E"
proof (rule triple_bind [OF assms(1)])
  fix w :: "int \<times> bool \<times> 's recording_filter"
  obtain n failed rf where w: "w = (n, failed, rf)" by (metis surj_pair)
  show "outcomes (filtered_well l k j w) (f w) Q E"
    using assms(2) [of n rf failed] by (auto simp: w outcomes_def)
qed

section \<open>Parts of a turn\<close>

abbreviation turned :: "bytes \<Rightarrow> nat \<Rightarrow> nat \<Rightarrow> 's turn \<Rightarrow> 's \<Rightarrow> bool" where
  "turned l k j \<equiv> \<lambda>t s. reaching I (reading l k j) s \<and> turn_ok at t"

lemma turn_return: "turn_ok at t \<Longrightarrow> outcomes (reaching I (reading l k j)) (act_return t) (turned l k j) E"
  by (simp add: outcomes_def act_return_def)

lemma emit_bind:
  assumes "\<And>obs. outcomes (reaching I \<Phi>) (f obs) Q E"
  shows "outcomes (reaching I \<Phi>) (act_bind (emit ex phase q obs) f) Q E"
proof (rule triple_bind [OF _ assms])
  show "outcomes (reaching I \<Phi>) (emit ex phase q obs) (\<lambda>_. reaching I \<Phi>) E"
    unfolding emit_def emit_at_def Let_def
    by (rule now_bind)
      (auto intro!: triple_return triple_bind [OF quiet_perform [OF quiet_observe]] split: option.split)
qed

lemma turn_then_rule:
  assumes "outcomes P m (turned l k j) E"
    "\<And>cr rf. sound_copy at cr \<Longrightarrow> recording_ok rf \<Longrightarrow> outcomes (reaching I (reading l k j)) (g cr rf) (turned l k j) E"
  shows "outcomes P (turn_then m g) (turned l k j) E"
  unfolding turn_then_def
proof (rule triple_bind [OF assms(1)], rule triple_pure)
  fix t :: "'s turn"
  assume t: "turn_ok at t"
  have "outcomes (reaching I (reading l k j)) (case t of CopyEnded cr rf \<Rightarrow> act_return (CopyEnded cr rf) | CopyGoesOn cr rf \<Rightarrow> g cr rf)
    (turned l k j) E"
  proof (cases t)
    case (CopyEnded cr rf)
    with t show ?thesis by (simp add: turn_return)
  next
    case (CopyGoesOn cr rf)
    with t assms(2) [of cr rf] show ?thesis by (simp add: turn_ok_def)
  qed
  then show "outcomes (turned l k j t)
    (case t of CopyEnded cr rf \<Rightarrow> act_return (CopyEnded cr rf) | CopyGoesOn cr rf \<Rightarrow> g cr rf) (turned l k j) E"
    by (rule triple_pre) simp
qed simp

lemma ended_rule:
  assumes "outcomes (reaching I (reading l k j)) m (\<lambda>cr s. reaching I (reading l k j) s \<and> ended_copy at cr) E" "recording_ok rf"
  shows "outcomes (reaching I (reading l k j)) (ended m rf) (turned l k j) E"
  unfolding ended_def
  by (rule triple_bind [OF assms(1)]) (use assms(2) in \<open>auto simp: outcomes_def act_return_def turn_ok_def\<close>)

lemma note_cancel_rule:
  assumes "sound_copy at cr"
  shows "outcomes (reaching I \<Phi>) (note_cancel ex i cr)
    (\<lambda>cr' s. reaching I \<Phi> s \<and> sound_copy at cr' \<and> failure_known cr') E"
  unfolding note_cancel_def
  by (rule cancel_bind)
    (use assms in \<open>auto simp: outcomes_def act_return_def sound_copy_def failure_known_def\<close>)

lemma end_copy_rule:
  assumes "sound_copy at cr"
  shows "outcomes (reaching I \<Phi>) (end_copy ex i cr) (\<lambda>cr' s. reaching I \<Phi> s \<and> ended_copy at cr') E"
  unfolding end_copy_def
  by (rule stop_bind)
    (use assms in \<open>auto simp: outcomes_def act_return_def ended_copy_def sound_copy_def failure_known_def split: option.split\<close>)

lemma triple_conj_ended:
  assumes "outcomes P (ended m rf) Q E"
  shows "outcomes P (ended m rf) (\<lambda>t s. Q t s \<and> (\<exists>cr. t = CopyEnded cr rf)) E"
  using assms by (auto simp: outcomes_def ended_def act_bind_def act_return_def split: prod.splits sum.splits)

lemma cancelled_rule:
  assumes "sound_copy at cr" "recording_ok rf"
  shows "outcomes (reaching I (reading l k j)) (ended (note_cancel ex i cr) rf) (turned l k j) E"
  by (rule ended_rule [OF triple_post [OF note_cancel_rule [OF assms(1)]] assms(2)]) (simp add: ended_copy_def)

lemma reached_rule:
  assumes "sound_copy at cr" "recording_ok rf"
  shows "outcomes (reaching I (reading l k j)) (ended (end_copy ex i cr) rf) (turned l k j) E"
  by (rule ended_rule [OF end_copy_rule [OF assms(1)] assms(2)])

lemma stopped_turn [simp]:
  "turn_ok at (CopyEnded (cr\<lparr>cr_reason := reason\<rparr>) rf) \<longleftrightarrow>
     sound_copy at cr \<and> (cr_reached_end cr \<or> valid_reason reason \<and> \<not> successful_reason reason) \<and> recording_ok rf"
  "turn_ok at (CopyEnded (cr\<lparr>cr_reason := reason, cr_retryable := b\<rparr>) rf) \<longleftrightarrow>
     sound_copy at cr \<and> (cr_reached_end cr \<or> valid_reason reason \<and> \<not> successful_reason reason) \<and> recording_ok rf"
  "turn_ok at (CopyGoesOn cr rf) \<longleftrightarrow> sound_copy at cr \<and> recording_ok rf"
  by (auto simp: turn_ok_def ended_copy_def sound_copy_def failure_known_def)

text \<open>A turn that goes on found the clock before the latest end, hence not all reads done.\<close>

abbreviation in_time :: "bytes \<Rightarrow> nat \<Rightarrow> nat \<Rightarrow> 's turn \<Rightarrow> 's \<Rightarrow> bool" where
  "in_time l k j \<equiv> \<lambda>t s. turned l k j t s \<and> ((\<exists>cr rf. t = CopyGoesOn cr rf) \<longrightarrow> within bound j)"

lemma clock_bind:
  assumes "\<And>t. (before_time t (maximum_end at) \<Longrightarrow> within bound j) \<Longrightarrow> outcomes (reaching I (reading l k j)) (f t) Q E"
  shows "outcomes (reaching I (reading l k j)) (act_bind (now ex) f) Q E"
proof (rule triple_bind)
  show "outcomes (reaching I (reading l k j)) (now ex)
    (\<lambda>t s. reaching I (reading l k j) s \<and> (before_time t (maximum_end at) \<longrightarrow> within bound j)) E"
    unfolding outcomes_def
  proof (intro allI impI)
    fix s assume "reaching I (reading l k j) s"
    then obtain p where p: "I p s" "reading l k j p" by (auto simp: reaching_def)
    obtain t s' where t: "ex_now ex s = (t, s')" by fastforce
    have "within bound j" if "before_time (in_utc t) (maximum_end at)"
      using runs_out [OF _ p(1)] p(2) that t by (force simp: within_def reading_def)
    moreover have "I p s'" using quietD [OF quiet_now p(1) t] .
    ultimately show "case now ex s of (Inl e, s') \<Rightarrow> E e s'
      | (Inr t, s') \<Rightarrow> reaching I (reading l k j) s' \<and> (before_time t (maximum_end at) \<longrightarrow> within bound j)"
      using p(2) by (auto simp: now_def perform_def act_bind_def act_return_def t reaching_def)
  qed
  show "outcomes (\<lambda>s. reaching I (reading l k j) s \<and> (before_time t (maximum_end at) \<longrightarrow> within bound j)) (f t) Q E" for t
    using assms [of t] by (auto simp: outcomes_def)
qed

lemma before_read_rule:
  assumes "sound_copy at cr" "recording_ok rf"
  shows "outcomes (reaching I (reading l k j)) (before_read ex parent ctx i cr rf) (in_time l k j) E"
proof -
  have ends: "outcomes (reaching I (reading l k j)) (ended m rf) (in_time l k j) E"
    if "outcomes (reaching I (reading l k j)) (ended m rf) (turned l k j) E" for m
    by (rule triple_post, rule triple_conj_ended [OF that]) auto
  show ?thesis
    unfolding before_read_def
    by (rule live_bind, rule triple_if, rule ends, rule cancelled_rule [OF assms], rule clock_bind, rule triple_if,
        rule ends, rule reached_rule [OF assms], rule live_bind)
      (use assms in \<open>auto simp: outcomes_def act_return_def sound_copy_def before_time_def after_time_def\<close>)
qed

lemma copy_chunk_rule:
  assumes "sound_copy at cr" "recording_ok rf"
  shows "outcomes (reaching I (reading l k j)) (copy_chunk ex (at_plan at) data cr rf) (turned l k j) E"
  unfolding copy_chunk_def Let_def
  by (rule filtered_bind [OF filter_write_rule [OF assms(2)]], unfold prod.case, rule emit_bind)
    (use assms in \<open>auto intro!: turn_return simp: sound_copy_def recording_ok_quality\<close>)

lemma copy_progress_rule:
  assumes "sound_copy at cr" "recording_ok rf" "at_id a = at_id at"
  shows "outcomes (reaching I (reading l k j)) (copy_progress ex a one_seg t cr rf) (turned l k j) E"
  unfolding copy_progress_def Let_def
proof (rule triple_if)
  show "outcomes (reaching I (reading l k j)) (act_return (CopyGoesOn cr rf)) (turned l k j) E"
    using assms by (simp add: turn_return)
  show "outcomes (reaching I (reading l k j))
    (act_bind (perform (ex_timed ex
        (if one_seg then OneSegProgress Detached (at_id a) (cr_byte_count cr) t (cr_quality cr)
         else RecordingProgress Detached (at_id a) (cr_byte_count cr) t (cr_quality cr))))
      (\<lambda>answer.
        if \<not> planned_end_ok ex a cr answer then act_return (CopyEnded (cr\<lparr>cr_reason := ReasonProcessInterrupted\<rparr>) rf)
        else act_bind (stop_requested ex (at_id a))
          (\<lambda>stop. act_return
            (case stop of
               None \<Rightarrow> CopyEnded (cr\<lparr>cr_planned_end := the answer, cr_last_progress := t, cr_reason := ReasonProcessInterrupted\<rparr>) rf
             | Some requested \<Rightarrow>
                 if requested
                 then CopyEnded (cr\<lparr>cr_planned_end := the answer, cr_last_progress := t, cr_reason := ReasonUserRequestedStop\<rparr>) rf
                 else CopyGoesOn (cr\<lparr>cr_planned_end := the answer, cr_last_progress := t\<rparr>) rf))))
    (turned l k j) E"
    by (rule timed_bind, use assms(3) in \<open>simp add: step_defs phase_defs reading_def\<close>, rule triple_if,
        use assms in \<open>simp add: turn_return\<close>, rule stop_bind)
      (use assms in \<open>auto intro!: turn_return simp: sound_copy_def planned_end_within split: option.split\<close>)
qed

lemma after_read_rule:
  assumes "sound_copy at cr" "recording_ok rf"
  shows "outcomes (reaching I (reading l k j)) (after_read ex parent i t n terminal err cr rf) (turned l k j) E"
  unfolding after_read_def
  by (rule live_bind, rule triple_if, rule cancelled_rule [OF assms], rule triple_if, rule reached_rule [OF assms])
    (use assms in \<open>auto intro!: turn_return\<close>)

lemma read_bind:
  assumes "\<And>answer. outcomes (reaching I (reading l k (j + 1))) (f answer) Q E"
  shows "outcomes (reaching I (reading l k j)) (act_bind (perform (ex_read ex l ctx n)) f) Q E"
  by (rule triple_bind [OF moves_perform [OF moves_read, where \<Psi> = "\<lambda>_. reading l k (j + 1)"] assms])
    (auto simp: step_defs phase_defs reading_def)

text \<open>A turn that goes on has read once more.\<close>

abbreviation stepped :: "bytes \<Rightarrow> nat \<Rightarrow> nat \<Rightarrow> 's turn \<Rightarrow> 's \<Rightarrow> bool" where
  "stepped l k j \<equiv> \<lambda>t s. turn_ok at t \<and>
     (case t of
        CopyEnded cr rf \<Rightarrow> reaching I (reading l k j) s
      | CopyGoesOn cr rf \<Rightarrow> reaching I (reading l k (j + 1)) s \<and> within bound j)"

lemma reading_less: "reaching I (reading l k (Suc j)) s \<Longrightarrow> reaching I (reading l k j) s"
  by (auto simp: reaching_def reading_def)

lemma rest_of_turn:
  assumes "sound_copy at cr" "recording_ok rf" "at_id a = at_id at"
  shows "outcomes (reaching I (reading l k j))
    (act_bind (perform (ex_read ex l ctx max_stream_chunk)) (\<lambda>(n, data, terminal, err).
       if n < 0 \<or> n > int max_stream_chunk then act_return (CopyEnded (cr\<lparr>cr_reason := ReasonStreamUnavailable\<rparr>) rf)
       else turn_then (if n > 0 then copy_chunk ex (at_plan at) (take (nat n) data) cr rf
                       else act_return (CopyGoesOn cr rf)) (\<lambda>cr rf.
         act_bind (now ex) (\<lambda>t.
           turn_then (copy_progress ex a one_seg t cr rf) (\<lambda>cr rf.
             after_read ex parent (at_id a) t n terminal err cr rf)))))
    (turned l k (j + 1)) E"
proof (rule read_bind)
  fix answer :: "int \<times> bytes \<times> terminal \<times> stream_error option"
  obtain n data terminal err where answer: "answer = (n, data, terminal, err)" by (metis surj_pair)
  have chunk: "outcomes (reaching I (reading l k (j + 1))) (if n > 0 then copy_chunk ex (at_plan at) (take (nat n) data) cr rf
      else act_return (CopyGoesOn cr rf)) (turned l k (j + 1)) E"
    using assms by (auto intro: copy_chunk_rule turn_return)
  show "outcomes (reaching I (reading l k (j + 1)))
    (case answer of (n, data, terminal, err) \<Rightarrow>
       if n < 0 \<or> n > int max_stream_chunk then act_return (CopyEnded (cr\<lparr>cr_reason := ReasonStreamUnavailable\<rparr>) rf)
       else turn_then (if n > 0 then copy_chunk ex (at_plan at) (take (nat n) data) cr rf
                       else act_return (CopyGoesOn cr rf)) (\<lambda>cr rf.
         act_bind (now ex) (\<lambda>t.
           turn_then (copy_progress ex a one_seg t cr rf) (\<lambda>cr rf.
             after_read ex parent (at_id a) t n terminal err cr rf))))
    (turned l k (j + 1)) E"
    unfolding answer prod.case
    by (rule triple_if, use assms in \<open>simp add: turn_return\<close>, rule turn_then_rule [OF chunk], rule now_bind,
        rule turn_then_rule [OF copy_progress_rule], assumption, assumption, rule assms(3), rule after_read_rule)
qed

lemma copy_turn_rule:
  assumes "sound_copy at cr" "recording_ok rf" "at_id a = at_id at"
  shows "outcomes (reaching I (reading l k j)) (copy_turn ex parent ctx l (at_plan at) a one_seg cr rf) (stepped l k j) E"
  unfolding copy_turn_def
  unfolding turn_then_def [of "before_read ex parent ctx (at_id a) cr rf"]
proof (rule triple_bind [OF before_read_rule [OF assms(1,2)]])
  fix t :: "'s turn"
  show "outcomes (in_time l k j t) (case t of CopyEnded cr rf \<Rightarrow> act_return (CopyEnded cr rf)
      | CopyGoesOn cr rf \<Rightarrow>
          act_bind (perform (ex_read ex l ctx max_stream_chunk)) (\<lambda>(n, data, terminal, err).
            if n < 0 \<or> n > int max_stream_chunk then act_return (CopyEnded (cr\<lparr>cr_reason := ReasonStreamUnavailable\<rparr>) rf)
            else turn_then (if n > 0 then copy_chunk ex (at_plan at) (take (nat n) data) cr rf
                            else act_return (CopyGoesOn cr rf)) (\<lambda>cr rf.
              act_bind (now ex) (\<lambda>t.
                turn_then (copy_progress ex a one_seg t cr rf) (\<lambda>cr rf.
                  after_read ex parent (at_id a) t n terminal err cr rf)))))
    (stepped l k j) E"
  proof (cases t)
    case (CopyEnded cr rf)
    then show ?thesis by (auto simp: outcomes_def act_return_def)
  next
    case (CopyGoesOn cr rf)
    show ?thesis
      unfolding CopyGoesOn turn.case
    proof (rule triple_pure [where C = "sound_copy at cr \<and> recording_ok rf \<and> within bound j"])
      assume ok: "sound_copy at cr \<and> recording_ok rf \<and> within bound j"
      show "outcomes (in_time l k j (CopyGoesOn cr rf))
        (act_bind (perform (ex_read ex l ctx max_stream_chunk)) (\<lambda>(n, data, terminal, err).
            if n < 0 \<or> n > int max_stream_chunk then act_return (CopyEnded (cr\<lparr>cr_reason := ReasonStreamUnavailable\<rparr>) rf)
            else turn_then (if n > 0 then copy_chunk ex (at_plan at) (take (nat n) data) cr rf
                            else act_return (CopyGoesOn cr rf)) (\<lambda>cr rf.
              act_bind (now ex) (\<lambda>t.
                turn_then (copy_progress ex a one_seg t cr rf) (\<lambda>cr rf.
                  after_read ex parent (at_id a) t n terminal err cr rf)))))
        (stepped l k j) E"
        by (rule triple_pre [where P' = "reaching I (reading l k j)"], rule triple_post, rule rest_of_turn [OF _ _ assms(3)])
          (use ok in \<open>auto split: turn.split intro: reading_less\<close>)
    qed auto
  qed
qed

abbreviation copied :: "bytes \<Rightarrow> nat \<Rightarrow> stream_copy \<times> 's recording_filter \<Rightarrow> 's \<Rightarrow> bool" where
  "copied l k \<equiv> \<lambda>(cr, rf) s. reaching I (reading l k 0) s \<and> ended_copy at cr \<and> recording_ok rf"

text \<open>With more turns than reads that the clock allows, the loop ends.\<close>

lemma copy_loop_rule:
  assumes "sound_copy at cr" "recording_ok rf" "at_id a = at_id at" "lim \<Longrightarrow> bound = Some n \<and> n - j < fuel"
  shows "outcomes (reaching I (reading l k j)) (copy_loop fuel ex parent ctx l (at_plan at) a one_seg cr rf)
    (copied l k) (failed_well I lim)"
  using assms(1,2,4)
proof (induction fuel arbitrary: j cr rf)
  case 0
  then have "\<not> lim" by auto
  then show ?case by (auto simp: outcomes_def act_fail_def failed_well_def reaching_def)
next
  case (Suc fuel)
  show ?case
    unfolding copy_loop.simps
  proof (rule triple_bind [OF copy_turn_rule [OF Suc.prems(1,2) assms(3)]])
    fix t :: "'s turn"
    show "outcomes (stepped l k j t) (case t of CopyEnded cr rf \<Rightarrow> act_return (cr, rf)
        | CopyGoesOn cr rf \<Rightarrow> copy_loop fuel ex parent ctx l (at_plan at) a one_seg cr rf) (copied l k) (failed_well I lim)"
    proof (cases t)
      case (CopyEnded cr rf)
      then show ?thesis by (auto simp: outcomes_def act_return_def turn_ok_def reaching_def reading_def)
    next
      case (CopyGoesOn cr rf)
      have "outcomes (reaching I (reading l k (j + 1))) (copy_loop fuel ex parent ctx l (at_plan at) a one_seg cr rf)
          (copied l k) (failed_well I lim)" if "sound_copy at cr" "recording_ok rf" "within bound j"
        using that Suc.prems(3) by (intro Suc.IH) (auto simp: within_def)
      then show ?thesis
        unfolding CopyGoesOn by (auto simp: outcomes_def turn_ok_def)
    qed
  qed
qed

text \<open>A returned copy with the fact about it.\<close>

lemma fact_bind:
  assumes "outcomes P m (\<lambda>x s. reaching I \<Phi> s \<and> C x) E" "\<And>x. C x \<Longrightarrow> outcomes (reaching I \<Phi>) (f x) Q E"
  shows "outcomes P (act_bind m f) Q E"
proof (rule triple_bind [OF assms(1)])
  show "outcomes (\<lambda>s. reaching I \<Phi> s \<and> C x) (f x) Q E" for x
    using assms(2) [of x] by (auto simp: outcomes_def)
qed

lemma fact_return: "C x \<Longrightarrow> outcomes (reaching I \<Phi>) (act_return x) (\<lambda>x s. reaching I \<Phi> s \<and> C x) E"
  by (simp add: outcomes_def act_return_def)

lemma finish_copy_rule:
  assumes "ended_copy at cr" "recording_ok rf"
  shows "outcomes (reaching I (reading l k j)) (finish_copy ex parent (at_plan at) i cr rf)
    (\<lambda>cr s. reaching I (reading l k j) s \<and> ended_copy at cr) E"
proof -
  have sound: "sound_copy at cr" using assms(1) by (simp add: ended_copy_def)
  have settle: "outcomes (reaching I (reading l k j))
      (act_bind (run_filter (filter_finish (ex_write ex (at_plan at)) allow) rf)
        (\<lambda>(written, failed, rf). act_return (settle_copy written failed (filter_quality rf) cr')))
      (\<lambda>cr s. reaching I (reading l k j) s \<and> ended_copy at cr) E" if "ended_copy at cr'" for cr' allow
    by (rule filtered_bind [OF filter_finish_rule [OF assms(2)]], unfold prod.case, rule fact_return)
      (use that in \<open>simp add: settle_copy_ended recording_ok_quality\<close>)
  have reason: "outcomes (reaching I (reading l k j))
      (if c = ContextLive then act_return cr
       else act_bind (note_cancel ex i cr) (\<lambda>cr. act_return (cr\<lparr>cr_reached_end := False, cr_retryable := False\<rparr>)))
      (\<lambda>cr s. reaching I (reading l k j) s \<and> ended_copy at cr) E" for c
  proof (cases "c = ContextLive")
    case True
    then show ?thesis using assms(1) by (simp add: fact_return)
  next
    case False
    have "outcomes (reaching I (reading l k j))
        (act_bind (note_cancel ex i cr) (\<lambda>cr. act_return (cr\<lparr>cr_reached_end := False, cr_retryable := False\<rparr>)))
        (\<lambda>cr s. reaching I (reading l k j) s \<and> ended_copy at cr) E"
      by (rule fact_bind [OF note_cancel_rule [OF sound]], rule fact_return)
        (simp add: ended_copy_def sound_copy_def failure_known_def)
    then show ?thesis using False by simp
  qed
  show ?thesis
    unfolding finish_copy_def
    by (rule live_bind, rule fact_bind [OF reason], rule triple_bind [where B = "\<lambda>_. reaching I (reading l k j)"])
      (auto intro: triple_return live_rule settle)
qed

lemma copy_rule:
  assumes "sound_copy at cr" "at_id a = at_id at" "lim \<Longrightarrow> \<exists>n. bound = Some n \<and> n < fuel"
  shows "outcomes (reaching I (leased l k)) (copy fuel ex parent ctx l (at_plan at) a mode cr one_seg)
    (\<lambda>cr s. reaching I (leased l k) s \<and> ended_copy at cr) (failed_well I lim)"
proof -
  have leased: "reading l k 0 = leased l k" by (auto simp: reading_def)
  obtain n where n: "lim \<Longrightarrow> bound = Some n \<and> n - 0 < fuel" using assms(3) by auto
  have q: "quality_valid (cr_quality cr)" using assms(1) by (simp add: sound_copy_def)
  have new: "outcomes (reaching I (reading l k 0))
      (act_get (\<lambda>s. new_recording_filter s captions data (cr_quality (cr\<lparr>cr_reached_end := False, cr_retryable := False\<rparr>))))
      (\<lambda>rf s. reaching I (reading l k 0) s \<and> recording_ok rf) (failed_well I lim)" for captions data
    using q by (simp add: outcomes_def act_get_def recording_ok_new)
  have ends: "outcomes (copied l k x) (case x of (cr, rf) \<Rightarrow> finish_copy ex parent (at_plan at) (at_id a) cr rf)
      (\<lambda>cr s. reaching I (reading l k 0) s \<and> ended_copy at cr) E" for x E
    using finish_copy_rule [of "fst x" "snd x" l k 0 parent "at_id a" E] by (cases x) (auto simp: outcomes_def)
  show ?thesis
    unfolding copy_def Let_def leased [symmetric]
    by (rule fact_bind [OF new], rule triple_bind [OF copy_loop_rule [OF _ _ assms(2) n] ends])
      (use assms in \<open>simp_all add: sound_copy_def\<close>)
qed

end

end
