(* ===== verification/ExecutorConnections.thy ===== *)
theory ExecutorConnections
  imports ExecutorCopy
begin

text \<open>The connections of a recording, and the execution of a claimed one, follow the protocol.\<close>

section \<open>What connections leave\<close>

definition connection_ok :: "attempt \<Rightarrow> nat \<Rightarrow> connection_state \<Rightarrow> bool" where
  "connection_ok at k cn \<longleftrightarrow> sound_copy at (cn_copy cn) \<and> (0 < k \<longrightarrow> failure_known (cn_copy cn))"

definition end_ok :: "attempt \<Rightarrow> connections_end \<times> stream_copy \<Rightarrow> bool" where
  "end_ok at x \<longleftrightarrow>
     sound_copy at (snd x) \<and>
     (case fst x of
        Abandoned e \<Rightarrow> e \<noteq> OutOfFuel
      | CopyFailed started \<Rightarrow> failure_known (snd x)
      | StoppedBefore reason \<Rightarrow> valid_reason reason \<and> \<not> successful_reason reason
      | CutShort reason \<Rightarrow> valid_reason reason \<and> \<not> successful_reason reason
      | _ \<Rightarrow> True)"

definition outcome_ok :: "attempt \<Rightarrow> int option \<Rightarrow> nat \<Rightarrow> connection_outcome \<Rightarrow> bool" where
  "outcome_ok at delay k outcome \<longleftrightarrow>
     (case outcome of Inl x \<Rightarrow> end_ok at x | Inr cn \<Rightarrow> delay \<noteq> None \<and> connection_ok at k cn)"

lemma sound_copy_fields [simp]:
  "sound_copy at (cr\<lparr>cr_observation := obs\<rparr>) = sound_copy at cr" "sound_copy at (cr\<lparr>cr_reason := reason\<rparr>) = sound_copy at cr"
  "sound_copy at (cr\<lparr>cr_retryable := b\<rparr>) = sound_copy at cr" "sound_copy at (cr\<lparr>cr_reached_end := b\<rparr>) = sound_copy at cr"
  "sound_copy at (cr\<lparr>cr_actual_start := t\<rparr>) = sound_copy at cr"
  "sound_copy at (cr\<lparr>cr_planned_end := t\<rparr>) \<longleftrightarrow>
     0 \<le> cr_byte_count cr \<and> quality_valid (cr_quality cr) \<and> cr_maximum_end cr = maximum_end at \<and>
     \<not> after_time t (maximum_end at)"
  by (simp_all add: sound_copy_def)

lemma failure_known_fields [simp]:
  "failure_known (cr\<lparr>cr_observation := obs\<rparr>) = failure_known cr"
  "failure_known (cr\<lparr>cr_retryable := b\<rparr>) = failure_known cr"
  "failure_known (cr\<lparr>cr_reason := reason\<rparr>) \<longleftrightarrow> valid_reason reason \<and> \<not> successful_reason reason"
  by (simp_all add: failure_known_def)

lemma failure_unsuccessful: "sound_copy at cr \<Longrightarrow> failure_known cr \<Longrightarrow> unsuccessful (cr_byte_count cr) (cr_reason cr) (cr_quality cr)"
  by (simp add: sound_copy_def failure_known_def unsuccessful_def)

text \<open>The recording is started with the lease kept, or ended with it released.\<close>

definition started_ok :: "attempt \<Rightarrow> bytes \<Rightarrow> nat \<Rightarrow> connection_outcome \<Rightarrow> protocol \<Rightarrow> bool" where
  "started_ok at l k outcome p \<longleftrightarrow>
     (case outcome of Inl x \<Rightarrow> writing k p \<and> end_ok at x | Inr cn \<Rightarrow> leased l k p \<and> sound_copy at (cn_copy cn))"

context claimed_environment
begin

section \<open>Ends\<close>

abbreviation met :: "int option \<Rightarrow> nat \<Rightarrow> connection_outcome \<Rightarrow> 's \<Rightarrow> bool" where
  "met delay k \<equiv> \<lambda>outcome s. reaching I (writing k) s \<and> outcome_ok at delay k outcome"

lemma ends_rule: "end_ok at (e, cr) \<Longrightarrow> outcomes (reaching I (writing k)) (ends e cr) (met delay k) E"
  by (simp add: outcomes_def ends_def act_return_def outcome_ok_def)

lemma again_rule: "delay \<noteq> None \<Longrightarrow> connection_ok at k cn \<Longrightarrow> outcomes (reaching I (writing k)) (act_return (Inr cn)) (met delay k) E"
  by (simp add: outcomes_def act_return_def outcome_ok_def)

lemma with_cancel_reason_rule:
  assumes "sound_copy at cr"
    "\<And>cr. sound_copy at cr \<Longrightarrow> failure_known cr \<Longrightarrow> outcomes (reaching I (writing k)) (f cr) (met delay k) E"
  shows "outcomes (reaching I (writing k)) (with_cancel_reason ex i cr f) (met delay k) E"
  unfolding with_cancel_reason_def
  by (rule cancel_bind) (use assms in \<open>auto intro!: ends_rule simp: end_ok_def failure_known_def\<close>)

lemma reconnect_bind:
  assumes "\<And>again. (again \<Longrightarrow> delay \<noteq> None) \<Longrightarrow> outcomes (reaching I \<Phi>) (f again) Q E"
  shows "outcomes (reaching I \<Phi>) (act_bind (planned_reconnect ex ctx until delay retryable) f) Q E"
proof (cases delay)
  case None
  with assms [of False] show ?thesis
    by (auto simp: planned_reconnect_def outcomes_def act_bind_def act_return_def)
next
  case (Some d)
  show ?thesis
  proof (rule triple_bind)
    show "outcomes (reaching I \<Phi>) (planned_reconnect ex ctx until delay retryable) (\<lambda>_. reaching I \<Phi>) E"
      unfolding planned_reconnect_def
      by (auto intro!: triple_return live_bind now_bind quiet_perform quiet_wait split: option.split)
  qed (use assms Some in auto)
qed

lemma after_failure_rule:
  assumes "sound_copy at (cn_copy cn)" "failure_known (cn_copy cn)"
    "\<And>cr. sound_copy at cr \<Longrightarrow> failure_known cr \<Longrightarrow> outcomes (reaching I (writing k)) (f cr) (met delay k) E"
  shows "outcomes (reaching I (writing k)) (after_failure ex at delay cn f) (met delay k) E"
proof -
  let ?cr = "cn_copy cn"
  have reached: "outcomes (reaching I (writing k)) (act_bind (end_copy ex (at_id at) ?cr) (\<lambda>cr.
      if cr_reached_end cr then ends (ReachedPlannedEnd (cn_reconnected cn)) cr else ends (CopyFailed (cn_started cn)) cr))
      (met delay k) E"
    by (rule fact_bind [OF end_copy_rule [OF assms(1)]]) (auto intro!: ends_rule simp: end_ok_def ended_copy_def)
  have cancelled: "outcomes (reaching I (writing k)) (act_bind (live ex ParentContext) (\<lambda>c.
      if c \<noteq> ContextLive then with_cancel_reason ex (at_id at) ?cr f
      else ends (CopyFailed (cn_started cn))
        (if cr_retryable ?cr \<and> delay = None then ?cr\<lparr>cr_reason := ReasonStreamReconnectExhausted\<rparr> else ?cr)))
      (met delay k) E"
    by (rule live_bind, rule triple_if, rule with_cancel_reason_rule [OF assms(1,3)])
      (use assms(1,2) in \<open>auto intro!: ends_rule simp: end_ok_def\<close>)
  show ?thesis
    unfolding after_failure_def Let_def
  proof (rule reconnect_bind, rule triple_if, rule again_rule, simp, use assms(1,2) in \<open>simp add: connection_ok_def\<close>, rule live_bind,
      rule triple_bind)
    show "outcomes (reaching I (writing k)) (if c = ContextLive \<and> cr_retryable ?cr then now ex else act_return (cr_last_progress ?cr))
        (\<lambda>_. reaching I (writing k)) E" for c
      by (auto intro: triple_return triple_post [OF now_rule])
    show "outcomes (reaching I (writing k))
        (if c = ContextLive \<and> cr_retryable ?cr \<and> \<not> before_time t (cr_planned_end ?cr)
         then act_bind (end_copy ex (at_id at) ?cr) (\<lambda>cr.
           if cr_reached_end cr then ends (ReachedPlannedEnd (cn_reconnected cn)) cr
           else ends (CopyFailed (cn_started cn)) cr)
         else act_bind (live ex ParentContext) (\<lambda>c.
           if c \<noteq> ContextLive then with_cancel_reason ex (at_id at) ?cr f
           else ends (CopyFailed (cn_started cn))
             (if cr_retryable ?cr \<and> delay = None then ?cr\<lparr>cr_reason := ReasonStreamReconnectExhausted\<rparr> else ?cr)))
        (met delay k) E" for c t
      using reached cancelled by simp
  qed
qed

lemma open_failed_rule:
  assumes "sound_copy at (cn_copy cn)"
  shows "outcomes (reaching I (writing k)) (open_failed ex at delay cn err) (met delay k) E"
proof -
  have go_on: "outcomes (reaching I (writing k)) (after_failure ex at delay (cn\<lparr>cn_copy := cr\<lparr>cr_retryable := b\<rparr>\<rparr>)
      (ends (CopyFailed (cn_started cn)))) (met delay k) E" if "sound_copy at cr" "failure_known cr" for cr b
    using that by (auto intro!: after_failure_rule ends_rule simp: end_ok_def)
  have sound: "sound_copy at ((cn_copy cn)\<lparr>cr_quality := degrade (cr_quality (cn_copy cn))\<rparr>)"
    using assms by (simp add: sound_copy_def)
  show ?thesis
    unfolding open_failed_def Let_def
    by (rule emit_bind, rule live_bind, rule triple_if, rule with_cancel_reason_rule)
      (use sound in \<open>auto intro!: go_on\<close>)
qed

section \<open>An open stream\<close>

lemma release_rule:
  assumes "outcomes (reaching I (writing k)) m Q E"
  shows "outcomes (reaching I (leased l k)) (act_seq (release_lease ex l) m) Q E"
proof (rule triple_seq [OF _ assms])
  show "outcomes (reaching I (leased l k)) (release_lease ex l) (\<lambda>_. reaching I (writing k)) E"
    unfolding release_lease_def
    by (rule triple_seq [OF ignoring_rule [where \<Psi> = "leased l k"] ignoring_rule]) (force simp: step_defs phase_defs)+
qed

lemma started_end: "end_ok at (e, cr) \<Longrightarrow> outcomes (reaching I (writing k)) (ends e cr) (\<lambda>o'. reaching I (started_ok at l k o')) E"
  by (auto simp: outcomes_def ends_def act_return_def started_ok_def reaching_def)

lemma started_return: "sound_copy at (cn_copy cn) \<Longrightarrow>
    outcomes (reaching I (leased l k)) (act_return (Inr cn)) (\<lambda>o'. reaching I (started_ok at l k o')) E"
  by (auto simp: outcomes_def act_return_def started_ok_def reaching_def)

lemma start_recording_rule:
  assumes "sound_copy at (cn_copy cn)"
  shows "outcomes (reaching I (leased l k)) (start_recording ex at l cn) (\<lambda>o'. reaching I (started_ok at l k o')) E"
proof -
  let ?cr = "cn_copy cn"
  have start: "outcomes (reaching I (leased l k))
      (act_bind (perform (ex_timed ex (RecordingStarted ParentContext (at_id at) t))) (\<lambda>answer.
        if \<not> planned_end_ok ex at (?cr\<lparr>cr_actual_start := t\<rparr>) answer
        then act_seq (release_lease ex l) (ends (Abandoned PersistRecordingStart) (?cr\<lparr>cr_actual_start := t\<rparr>))
        else act_return (Inr (cn\<lparr>cn_copy := ?cr\<lparr>cr_actual_start := t, cr_planned_end := the answer\<rparr>, cn_started := True\<rparr>))))
      (\<lambda>o'. reaching I (started_ok at l k o')) E" for t
    by (rule timed_bind, simp add: step_defs phase_defs, rule triple_if, rule release_rule, rule started_end)
      (use assms in \<open>auto intro!: started_return simp: end_ok_def sound_copy_def planned_end_within\<close>)
  show ?thesis
    unfolding start_recording_def Let_def
  proof (rule triple_if, rule started_return [OF assms], rule stop_bind)
    fix stop :: "bool option"
    show "outcomes (reaching I (leased l k))
      (case stop of
         None \<Rightarrow> act_seq (release_lease ex l) (ends (Abandoned ReadStopBeforeStream) ?cr)
       | Some True \<Rightarrow> act_seq (release_lease ex l) (ends (StoppedBefore ReasonUserRequestedStop) ?cr)
       | Some False \<Rightarrow>
           act_bind (now ex) (\<lambda>t.
             act_bind (perform (ex_timed ex (RecordingStarted ParentContext (at_id at) t))) (\<lambda>answer.
               if \<not> planned_end_ok ex at (?cr\<lparr>cr_actual_start := t\<rparr>) answer
               then act_seq (release_lease ex l) (ends (Abandoned PersistRecordingStart) (?cr\<lparr>cr_actual_start := t\<rparr>))
               else act_return (Inr (cn\<lparr>cn_copy := ?cr\<lparr>cr_actual_start := t, cr_planned_end := the answer\<rparr>, cn_started := True\<rparr>)))))
      (\<lambda>o'. reaching I (started_ok at l k o')) E"
      using assms start
      by (auto intro!: release_rule started_end now_bind simp: end_ok_def split: option.split bool.split)
  qed
qed

lemma run_stream_rule:
  assumes "sound_copy at (cn_copy cn)" "lim \<Longrightarrow> \<exists>n. bound = Some n \<and> n < fuel"
  shows "outcomes (reaching I (leased l k)) (run_stream fuel ex r at l delay cn) (met delay k) (failed_well I lim)"
proof -
  have cancelled: "outcomes (reaching I (writing k)) (ends (if cr_reason cr = ReasonUserRequestedStop then UserStopped else e) cr)
      (met delay k) E" if "end_ok at (e, cr)" for e cr E
    using that by (auto intro!: ends_rule simp: end_ok_def)
  have after: "outcomes (reaching I (writing k))
      (if cr_reason cr = ReasonUserRequestedStop then ends UserStopped cr
       else if cr_reached_end cr then ends (ReachedPlannedEnd (cn_reconnected cn)) cr
       else act_bind (live ex ParentContext) (\<lambda>c.
         if c \<noteq> ContextLive
         then with_cancel_reason ex (at_id at) cr (\<lambda>cr. ends
           (if cr_reason cr = ReasonUserRequestedStop then UserStopped else CutShort (cr_reason cr)) cr)
         else after_failure ex at delay (cn\<lparr>cn_copy := cr\<rparr>) (\<lambda>cr. ends
           (if cr_reason cr = ReasonUserRequestedStop then UserStopped else CopyFailed (cn_started cn)) cr)))
      (met delay k) (failed_well I lim)" if "ended_copy at cr" for cr
  proof (rule triple_if, rule ends_rule)
    show "end_ok at (UserStopped, cr)" using that by (simp add: end_ok_def ended_copy_def)
    have known: "sound_copy at cr" "\<not> cr_reached_end cr \<Longrightarrow> failure_known cr" using that by (auto simp: ended_copy_def)
    show "outcomes (reaching I (writing k))
      (if cr_reached_end cr then ends (ReachedPlannedEnd (cn_reconnected cn)) cr
       else act_bind (live ex ParentContext) (\<lambda>c.
         if c \<noteq> ContextLive
         then with_cancel_reason ex (at_id at) cr (\<lambda>cr. ends
           (if cr_reason cr = ReasonUserRequestedStop then UserStopped else CutShort (cr_reason cr)) cr)
         else after_failure ex at delay (cn\<lparr>cn_copy := cr\<rparr>) (\<lambda>cr. ends
           (if cr_reason cr = ReasonUserRequestedStop then UserStopped else CopyFailed (cn_started cn)) cr)))
      (met delay k) (failed_well I lim)"
      by (rule triple_if, rule ends_rule, use known in \<open>simp add: end_ok_def\<close>, rule live_bind, rule triple_if,
          rule with_cancel_reason_rule [OF known(1)], rule cancelled, simp add: end_ok_def failure_known_def,
          rule after_failure_rule, use known in \<open>simp_all add: cancelled end_ok_def\<close>)
  qed
  show ?thesis
    unfolding run_stream_def Let_def
    by (rule fact_bind [OF copy_rule [OF assms(1) refl assms(2)]], assumption, rule release_rule, rule emit_bind, rule after)
      (simp add: ended_copy_def)
qed

lemma open_bind:
  assumes "k < 4" "\<And>err. outcomes (reaching I (writing (k + 1))) (f (Some err)) Q E"
    "outcomes (reaching I (leased l (k + 1))) (f None) Q E"
  shows "outcomes (reaching I (writing k)) (act_bind (perform (ex_open ex ctx target l)) f) Q E"
proof (rule triple_bind [OF moves_perform [OF moves_open,
      where \<Psi> = "\<lambda>answer. if answer = None then leased l (k + 1) else writing (k + 1)"]])
  show "outcomes (reaching I (if answer = None then leased l (k + 1) else writing (k + 1))) (f answer) Q E" for answer
    using assms(2,3) by (cases answer) simp_all
qed (use assms(1) in \<open>auto simp: step_defs phase_defs\<close>)

lemma open_stream_rule:
  assumes "k < 4" "sound_copy at (cn_copy cn)" "lim \<Longrightarrow> \<exists>n. bound = Some n \<and> n < fuel"
  shows "outcomes (reaching I (writing k)) (open_stream fuel ex r at target c delay cn) (met delay (k + 1)) (failed_well I lim)"
  unfolding open_stream_def Let_def
proof (rule open_bind [OF assms(1)])
  show "outcomes (reaching I (writing (k + 1)))
    (case Some err of None \<Rightarrow> m | Some err \<Rightarrow> open_failed ex at delay cn err) (met delay (k + 1)) (failed_well I lim)" for err m
    by (simp add: open_failed_rule [OF assms(2)])
  let ?l = "stream_correlation_id (at_id at) c"
  show "outcomes (reaching I (leased ?l (k + 1)))
    (case None of
       None \<Rightarrow> act_bind (start_recording ex at ?l cn) (\<lambda>outcome.
         case outcome of Inl e \<Rightarrow> act_return (Inl e) | Inr cn \<Rightarrow> run_stream fuel ex r at ?l delay cn)
     | Some err \<Rightarrow> open_failed ex at delay cn err) (met delay (k + 1)) (failed_well I lim)"
    unfolding option.case
  proof (rule triple_bind [OF start_recording_rule [OF assms(2)]])
    fix outcome
    show "outcomes (reaching I (started_ok at ?l (k + 1) outcome))
      (case outcome of Inl e \<Rightarrow> act_return (Inl e) | Inr cn \<Rightarrow> run_stream fuel ex r at ?l delay cn)
      (met delay (k + 1)) (failed_well I lim)"
    proof (cases outcome)
      case (Inl x)
      then show ?thesis by (auto simp: outcomes_def act_return_def started_ok_def reaching_def outcome_ok_def)
    next
      case (Inr cn')
      have "outcomes (\<lambda>s. reaching I (leased ?l (k + 1)) s \<and> sound_copy at (cn_copy cn'))
        (run_stream fuel ex r at ?l delay cn') (met delay (k + 1)) (failed_well I lim)"
        using run_stream_rule [of cn' lim fuel ?l "k + 1" r delay] assms(3) by (auto simp: outcomes_def)
      then show ?thesis
        unfolding Inr sum.case by (rule triple_pre) (auto simp: started_ok_def reaching_def)
    qed
  qed
qed

section \<open>All connections\<close>

lemma note_reconnect_rule:
  assumes "connection_ok at k cn" "k < 4"
  shows "outcomes (reaching I \<Phi>) (note_reconnect ex k cn) (\<lambda>cn s. reaching I \<Phi> s \<and> sound_copy at (cn_copy cn)) E"
  unfolding note_reconnect_def Let_def
proof (rule triple_if)
  show "outcomes (reaching I \<Phi>) (act_return cn) (\<lambda>cn s. reaching I \<Phi> s \<and> sound_copy at (cn_copy cn)) E"
    using assms(1) by (simp add: fact_return connection_ok_def)
  have q: "quality_valid (degrade ((cr_quality (cn_copy cn))\<lparr>q_reconnect := int k\<rparr>))" if "quality_valid (cr_quality (cn_copy cn))"
    using that assms(2) by (auto simp: quality_valid_def quality_counters_def degrade_def)
  show "outcomes (reaching I \<Phi>)
    (act_bind
      (emit ex PhaseReconnect (degrade ((cr_quality (cn_copy cn))\<lparr>q_reconnect := int k\<rparr>)) (cr_observation (cn_copy cn)))
      (\<lambda>obs. act_return (cn\<lparr>cn_copy := (cn_copy cn)
        \<lparr>cr_quality := degrade ((cr_quality (cn_copy cn))\<lparr>q_reconnect := int k\<rparr>), cr_observation := obs\<rparr>,
        cn_reconnected := True\<rparr>)))
    (\<lambda>cn s. reaching I \<Phi> s \<and> sound_copy at (cn_copy cn)) E"
    by (rule emit_bind, rule fact_return) (use assms(1) q in \<open>auto simp: connection_ok_def sound_copy_def\<close>)
qed

lemma writing_more: "writing k p \<Longrightarrow> writing (k + 1) p"
  by (simp add: writing_def)

lemma run_connection_rule:
  assumes "connection_ok at k cn" "k < 4" "lim \<Longrightarrow> \<exists>n. bound = Some n \<and> n < fuel"
  shows "outcomes (reaching I (writing k)) (run_connection fuel ex r at target k delay cn) (met delay (k + 1)) (failed_well I lim)"
proof -
  let ?cr = "cn_copy cn" and ?Q = "met delay (k + 1)" and ?E = "failed_well I lim :: exec_error \<Rightarrow> 's \<Rightarrow> bool"
  have sound: "sound_copy at ?cr" using assms(1) by (simp add: connection_ok_def)
  have early: "outcomes (reaching I (writing k)) (ends e cr) ?Q ?E" if "end_ok at (e, cr)" for e cr
    by (rule weaken [OF ends_rule [OF that] writing_more])
  have cancelled: "outcomes (reaching I (writing k)) (with_cancel_reason ex (at_id at) ?cr (ends (CopyFailed (cn_started cn)))) ?Q ?E"
    by (rule weaken [OF with_cancel_reason_rule [OF sound] writing_more]) (auto intro!: ends_rule simp: end_ok_def)
  have opened: "outcomes (reaching I (writing k)) (act_bind (note_reconnect ex k cn) (open_stream fuel ex r at target k delay)) ?Q ?E"
    by (rule fact_bind [OF note_reconnect_rule [OF assms(1,2)]]) (rule open_stream_rule [OF assms(2) _ assms(3)])
  have timed: "outcomes (reaching I (writing k))
      (if \<not> before_time t (cr_planned_end ?cr)
       then ends (ReachedPlannedEnd (cn_reconnected cn)) (?cr\<lparr>cr_reached_end := True\<rparr>)
       else act_bind (if k = 0 then act_return t else now ex) (\<lambda>t.
         if k \<noteq> 0 \<and> sub_time (cr_planned_end ?cr) t < 60 * second then ends (CopyFailed (cn_started cn)) ?cr
         else act_bind (note_reconnect ex k cn) (open_stream fuel ex r at target k delay))) ?Q ?E" for t
  proof (rule triple_if, rule early, use sound in \<open>simp add: end_ok_def\<close>, rule triple_bind)
    show "outcomes (reaching I (writing k)) (if k = 0 then act_return t else now ex) (\<lambda>_. reaching I (writing k)) ?E"
      by (auto intro: triple_return triple_post [OF now_rule])
    show "outcomes (reaching I (writing k))
      (if k \<noteq> 0 \<and> sub_time (cr_planned_end ?cr) t < 60 * second then ends (CopyFailed (cn_started cn)) ?cr
       else act_bind (note_reconnect ex k cn) (open_stream fuel ex r at target k delay)) ?Q ?E" for t
      using assms(1) by (intro triple_if early opened) (simp add: end_ok_def connection_ok_def)
  qed
  show ?thesis
    unfolding run_connection_def Let_def
  proof (rule live_bind, rule triple_if, rule cancelled, rule stop_bind)
    fix stop :: "bool option"
    show "outcomes (reaching I (writing k))
      (case stop of
         None \<Rightarrow> ends (Abandoned ReadStopBeforeConnection) ?cr
       | Some True \<Rightarrow> ends (CopyFailed (cn_started cn)) (?cr\<lparr>cr_reason := ReasonUserRequestedStop\<rparr>)
       | Some False \<Rightarrow>
           act_bind (now ex) (\<lambda>t.
             if \<not> before_time t (cr_planned_end ?cr)
             then ends (ReachedPlannedEnd (cn_reconnected cn)) (?cr\<lparr>cr_reached_end := True\<rparr>)
             else act_bind (if k = 0 then act_return t else now ex) (\<lambda>t.
               if k \<noteq> 0 \<and> sub_time (cr_planned_end ?cr) t < 60 * second then ends (CopyFailed (cn_started cn)) ?cr
               else act_bind (note_reconnect ex k cn) (open_stream fuel ex r at target k delay)))) ?Q ?E"
    proof (cases stop)
      case None
      show ?thesis unfolding None option.case by (rule early) (use sound in \<open>simp add: end_ok_def\<close>)
    next
      case (Some b)
      show ?thesis
      proof (cases b)
        case True
        then have b: "b = True" by simp
        show ?thesis
          unfolding Some b option.case bool.case by (rule early) (use sound in \<open>simp add: end_ok_def\<close>)
      next
        case False
        then have b: "b = False" by simp
        show ?thesis unfolding Some b option.case bool.case by (rule now_bind) (rule timed)
      qed
    qed
  qed
qed

lemma run_connections_rule:
  assumes "connection_ok at k cn" "k + length delays < 4" "lim \<Longrightarrow> \<exists>n. bound = Some n \<and> n < fuel"
  shows "outcomes (reaching I (writing k)) (run_connections delays fuel ex r at target k cn)
    (\<lambda>x s. reaching I (writing 4) s \<and> end_ok at x) (failed_well I lim)"
  using assms(1,2)
proof (induction delays arbitrary: k cn)
  case Nil
  show ?case
    unfolding run_connections.simps
  proof (rule fact_bind [OF run_connection_rule])
    fix outcome assume "outcome_ok at None (k + 1) outcome"
    moreover have "outcomes (reaching I (writing (k + 1))) (act_return x) (\<lambda>x s. reaching I (writing 4) s \<and> end_ok at x) (failed_well I lim)"
      if "end_ok at x" for x
      by (rule weaken [OF fact_return [of "end_ok at", OF that]]) (use Nil in \<open>simp add: writing_def\<close>)
    ultimately show "outcomes (reaching I (writing (k + 1)))
      (case outcome of Inl e \<Rightarrow> act_return e | Inr cn \<Rightarrow> act_fail OutOfFuel)
      (\<lambda>x s. reaching I (writing 4) s \<and> end_ok at x) (failed_well I lim)"
      by (cases outcome) (auto simp: outcome_ok_def outcomes_def act_fail_def failed_well_def)
  qed (use Nil assms(3) in simp_all)
next
  case (Cons d delays)
  show ?case
    unfolding run_connections.simps
  proof (rule fact_bind [OF run_connection_rule])
    fix outcome assume "outcome_ok at (Some d) (k + 1) outcome"
    moreover have "outcomes (reaching I (writing (k + 1))) (act_return x) (\<lambda>x s. reaching I (writing 4) s \<and> end_ok at x) (failed_well I lim)"
      if "end_ok at x" for x
      by (rule weaken [OF fact_return [of "end_ok at", OF that]]) (use Cons.prems in \<open>simp add: writing_def\<close>)
    moreover have "outcomes (reaching I (writing (k + 1))) (run_connections delays fuel ex r at target (k + 1) cn)
      (\<lambda>x s. reaching I (writing 4) s \<and> end_ok at x) (failed_well I lim)" if "connection_ok at (k + 1) cn" for cn
      using that Cons.prems by (intro Cons.IH) simp_all
    ultimately show "outcomes (reaching I (writing (k + 1)))
      (case outcome of Inl e \<Rightarrow> act_return e | Inr cn \<Rightarrow> run_connections delays fuel ex r at target (k + 1) cn)
      (\<lambda>x s. reaching I (writing 4) s \<and> end_ok at x) (failed_well I lim)"
      by (cases outcome) (auto simp: outcome_ok_def)
  qed (use Cons.prems assms(3) in simp_all)
qed

section \<open>The end of a recording\<close>

lemma finish_communication_partial_rule:
  assumes "sound_copy at cr" "communication_partial_reason (cr_reason cr)"
  shows "outcomes (reaching I (writing k)) (finish_communication_partial ex ctx at cr)
    (\<lambda>_. reaching I concluded) (failed_well I lim)"
proof -
  have "failure_known cr"
    using assms(2) by (auto simp: failure_known_def communication_partial_reason_def)
  then have give_up: "outcomes (reaching I (writing k))
      (finish_partial ex (at_plan at) (at_id at) (cr_byte_count cr) (cr_reason cr) (degrade (cr_quality cr)))
      (\<lambda>_. reaching I concluded) (failed_well I lim)"
    using assms(1) by (intro finish_partial_rule) (simp add: unsuccessful_def sound_copy_def failure_known_def)
  have publish: "outcomes (reaching I (writing k))
      (when_durable ex Detached (at_plan at) (at_id at) (cr_byte_count cr) (degrade (cr_quality cr))
        (publish_final ex ctx at (cr_byte_count cr) AttemptPartial (cr_reason cr) (degrade (cr_quality cr))))
      (\<lambda>_. reaching I concluded) (failed_well I lim)"
    if "\<not> cr_byte_count cr < minimum_useful_ts" "cr_byte_count cr mod 188 = 0"
    using assms that
    by (intro when_durable_rule publish_final_rule) (auto simp: sound_copy_def publishable_def minimum_useful_ts_def)
  show ?thesis
    unfolding finish_communication_partial_def Let_def
    by (rule triple_if, rule give_up, rule now_bind, rule triple_if, rule give_up, rule progress_bind, rule triple_if,
        rule abandon_rule, simp, rule publish) auto
qed

lemma finish_copy_failure_rule:
  assumes "sound_copy at cr" "failure_known cr"
  shows "outcomes (reaching I (writing k)) (finish_copy_failure ex ctx r at cr started)
    (\<lambda>_. reaching I concluded) (failed_well I lim)"
  unfolding finish_copy_failure_def finish_stream_failure_def
  by (intro triple_if finish_user_stop_rule finish_communication_partial_rule finish_before_recording_rule
      finish_partial_rule failure_unsuccessful [OF assms])
    (use assms in \<open>simp_all add: sound_copy_def failure_known_def\<close>)

lemma finish_reached_end_rule:
  assumes "sound_copy at cr"
  shows "outcomes (reaching I (writing k)) (finish_reached_end ex ctx r at reconnected cr)
    (\<lambda>_. reaching I concluded) (failed_well I lim)"
  unfolding finish_reached_end_def Let_def
proof (rule when_durable_rule, use assms in \<open>simp add: sound_copy_def\<close>, use assms in \<open>simp add: sound_copy_def\<close>, rule triple_if)
  show "outcomes (reaching I sealed) (finish_by_count ex ctx (at_id at) (cr_byte_count cr) ReasonStreamEndedEarly True (cr_quality cr))
    (\<lambda>_. reaching I concluded) (failed_well I lim)"
    by (rule weaken [OF finish_by_count_rule sealed_shut]) (use assms in \<open>simp_all add: unsuccessful_def sound_copy_def\<close>)
  assume "\<not> cr_byte_count cr < minimum_useful_ts"
  then show "outcomes (reaching I sealed)
    (publish_and_post_process ex ctx r at (cr_byte_count cr) AttemptSucceeded
      (if reconnected then ReasonCompletedAfterReconnect else ReasonCompleted) (cr_quality cr))
    (\<lambda>_. reaching I concluded) (failed_well I lim)"
    using assms by (intro publish_and_post_process_rule)
      (auto simp: publishable_def minimum_useful_ts_def sound_copy_def successful_reason_def)
qed

lemma finish_connections_rule:
  assumes "end_ok at (e, cr)"
  shows "outcomes (reaching I (writing k)) (finish_connections ex r at e cr) (\<lambda>_. reaching I concluded) (failed_well I lim)"
  using assms
  by (cases e)
    (auto simp: finish_connections_def end_ok_def sound_copy_def unsuccessful_def
      intro!: abandon_rule finish_copy_failure_rule finish_before_recording_rule finish_user_stop_rule finish_partial_rule
        finish_reached_end_rule)

lemma ensuring_rule:
  assumes "outcomes P m (\<lambda>_. reaching I \<Phi>) (failed_well I lim)"
    "\<And>\<Phi>. outcomes (reaching I \<Phi>) m' (\<lambda>_. reaching I \<Phi>) (\<lambda>_ _. False)"
  shows "outcomes P (ensuring m m') (\<lambda>_. reaching I \<Phi>) (failed_well I lim)"
proof -
  have kept: "reaching I \<Phi> (snd (m' s))" if "reaching I \<Phi> s" for \<Phi> s
    using assms(2) [of \<Phi>] that by (cases "m' s"; cases "fst (m' s)") (auto simp: outcomes_def dest!: spec [of _ s])
  show ?thesis
    using assms(1) kept
    by (fastforce simp: outcomes_def ensuring_def failed_well_def split: prod.splits sum.splits)
qed

lemma record_streams_rule:
  assumes "lim \<Longrightarrow> \<exists>n. bound = Some n \<and> n < fuel"
  shows "outcomes (reaching I (writing 0)) (record_streams fuel ex r at target) (\<lambda>_. reaching I concluded) (failed_well I lim)"
  unfolding record_streams_def Let_def
proof (rule now_bind, rule now_bind, rule emit_bind, rule fact_bind [OF run_connections_rule])
  fix t noted obs
  show "connection_ok at 0 \<lparr>cn_copy = (new_stream_copy 0 t (at_planned_end at) (maximum_end at) noted)\<lparr>cr_observation := obs\<rparr>,
      cn_started = False, cn_reconnected = False\<rparr>"
    by (simp add: connection_ok_def sound_copy_def new_stream_copy_def zero_quality_valid maximum_end_def after_time_def Let_def)
  show "0 + length reconnect_delays < 4" by (simp add: reconnect_delays_def)
  show "lim \<Longrightarrow> \<exists>n. bound = Some n \<and> n < fuel" by (rule assms)
  fix x assume x: "end_ok at x"
  have watch: "outcomes (reaching I \<Phi>) (emit ex PhaseFinal q obs) (\<lambda>_. reaching I \<Phi>) E" for \<Phi> q obs E
    using emit_bind [of \<Phi> act_return "\<lambda>_. reaching I \<Phi>" E PhaseFinal q obs]
    by (auto simp: outcomes_def act_return_def act_bind_def split: prod.splits sum.splits)
  show "outcomes (reaching I (writing 4))
    (case x of (e, cr) \<Rightarrow> ensuring (finish_connections ex r at e cr) (emit ex PhaseFinal (cr_quality cr) (cr_observation cr)))
    (\<lambda>_. reaching I concluded) (failed_well I lim)"
    using x by (cases x) (auto intro!: ensuring_rule finish_connections_rule watch)
qed

end

end
