(* ===== verification/ExecutorSpec.thy ===== *)
theory ExecutorSpec
  imports ExecutorConnections "HOL-Library.Sublist" "HOL-Library.AList_Mapping"
begin

text \<open>
  The execution of a claimed recording against its protocol: what it does and in which order, that the store is never
  given a request it refuses, and that it ends.
\<close>

section \<open>The execution follows the protocol\<close>

context protocol_environment
begin

lemma validate_executor_rule:
  "outcomes (reaching I \<Phi>) (validate_executor ex r) (\<lambda>_. reaching I \<Phi>)
    (\<lambda>e s. reaching I \<Phi> s \<and> e \<noteq> OutOfFuel)"
  unfolding validate_executor_def
proof (rule triple_if)
  show "outcomes (reaching I \<Phi>) (act_fail InvalidExecutor) (\<lambda>_. reaching I \<Phi>) (\<lambda>e s. reaching I \<Phi> s \<and> e \<noteq> OutOfFuel)"
    by (simp add: outcomes_def act_fail_def)
  show "outcomes (reaching I \<Phi>) (act_bind (now ex) (\<lambda>t. act_require (utc_instant t) InvalidExecutorClock)) (\<lambda>_. reaching I \<Phi>)
    (\<lambda>e s. reaching I \<Phi> s \<and> e \<noteq> OutOfFuel)"
    by (rule triple_bind [OF now_rule]) (auto intro: triple_require)
qed

end

context claimed_environment
begin

lemma execute_rule:
  assumes "lim \<Longrightarrow> \<exists>n. bound = Some n \<and> n < fuel"
  shows "outcomes (reaching I (\<lambda>p. p = initial_protocol)) (execute_claimed fuel ex r at)
    (\<lambda>_. reaching I concluded) (failed_well I lim)"
proof -
  let ?start = "\<lambda>p. p = initial_protocol"
  let ?running = "\<lambda>p. p = initial_protocol\<lparr>pt_stage := Running\<rparr>"
  have failed: "failed_well I lim e s" if "reaching I ?start s" "e \<noteq> OutOfFuel" for e s
    using that by (auto simp: reaching_def failed_well_def initial_protocol_def released_def)
  have valid: "outcomes (reaching I ?start) (validate_claimed ex r at) (\<lambda>_. reaching I ?start) (failed_well I lim)"
    unfolding validate_claimed_def
  proof (rule triple_seq)
    show "outcomes (reaching I ?start) (validate_executor ex r) (\<lambda>_. reaching I ?start) (failed_well I lim)"
      by (rule triple_failure [OF validate_executor_rule]) (simp add: failed)
    show "outcomes (reaching I ?start) (act_require (claimed_ok r at) InvalidClaimedAttempt) (\<lambda>_. reaching I ?start) (failed_well I lim)"
      by (rule triple_require) (simp_all add: failed)
  qed
  have no_file: "outcomes (reaching I ?running) (finish_without_file ex (at_id at) reason)
      (\<lambda>_. reaching I concluded) (failed_well I lim)" if "valid_reason reason" "\<not> successful_reason reason" for reason
    unfolding finish_without_file_def
    by (rule weaken [OF finish_by_count_rule])
      (use that in \<open>auto simp: unsuccessful_def zero_quality_valid shut_def released_def initial_protocol_def\<close>)
  have create: "outcomes (reaching I ?running)
      (act_bind (call ex (CreatePartialFile (at_plan at))) (\<lambda>created.
         if \<not> created then finish_without_file ex (at_id at) ReasonFileCreateFailed
         else case new_tuning_target (p_locator (r_program r)) of
           Inl e \<Rightarrow> finish_before_recording ex (at_plan at) (at_id at) ReasonStreamNotFound zero_quality
         | Inr target \<Rightarrow> record_streams fuel ex r at target))
      (\<lambda>_. reaching I concluded) (failed_well I lim)"
  proof (rule call_bind [where \<Psi> = "\<lambda>created. if created then writing 0 else ?running"])
    show "outcomes (reaching I (if created then writing 0 else ?running))
      (if \<not> created then finish_without_file ex (at_id at) ReasonFileCreateFailed
         else case new_tuning_target (p_locator (r_program r)) of
           Inl e \<Rightarrow> finish_before_recording ex (at_plan at) (at_id at) ReasonStreamNotFound zero_quality
         | Inr target \<Rightarrow> record_streams fuel ex r at target)
      (\<lambda>_. reaching I concluded) (failed_well I lim)" for created
      using record_streams_rule [OF assms]
      by (cases created) (auto intro!: no_file finish_before_recording_rule simp: zero_quality_valid split: sum.split)
  qed (auto simp: step_defs phase_defs initial_protocol_def)
  show ?thesis
    unfolding execute_claimed_def
  proof (rule triple_seq [OF valid], rule must_now_seq [OF _ _ stop_bind])
    fix t p
    assume p: "p = initial_protocol"
    show "\<exists>p'. protocol_step strict at p (EvCall (StartAttempt ParentContext (at_id at) t) True) = Some p' \<and> ?running p'"
      using p by (simp add: step_defs initial_protocol_def)
    show "\<exists>p'. protocol_step strict at p (EvCall (StartAttempt ParentContext (at_id at) t) False) = Some p' \<and>
        (\<forall>s. I p' s \<longrightarrow> failed_well I lim PersistStarting s)"
      using p failed by (auto simp: step_defs initial_protocol_def reaching_def)
  next
    fix stop :: "bool option"
    have "outcomes (reaching I ?running) (act_fail ReadInitialStop) (\<lambda>_. reaching I concluded) (failed_well I lim)"
      by (rule failed_well_fail) (simp_all add: initial_protocol_def released_def)
    then show "outcomes (reaching I ?running)
      (case stop of
         None \<Rightarrow> act_fail ReadInitialStop
       | Some True \<Rightarrow> finish_without_file ex (at_id at) ReasonUserRequestedStop
       | Some False \<Rightarrow>
           act_bind (call ex (CreatePartialFile (at_plan at))) (\<lambda>created.
             if \<not> created then finish_without_file ex (at_id at) ReasonFileCreateFailed
             else case new_tuning_target (p_locator (r_program r)) of
               Inl e \<Rightarrow> finish_before_recording ex (at_plan at) (at_id at) ReasonStreamNotFound zero_quality
             | Inr target \<Rightarrow> record_streams fuel ex r at target))
      (\<lambda>_. reaching I concluded) (failed_well I lim)"
      using create by (auto intro!: no_file split: option.split bool.split)
  qed
qed

end


text \<open>A run from the beginning of the log.\<close>

definition start_run :: "'s \<Rightarrow> 's run" where
  "start_run s = \<lparr>run_state = s, run_log = []\<rparr>"

definition execution :: "nat \<Rightarrow> 's executor \<Rightarrow> reservation \<Rightarrow> attempt \<Rightarrow> 's \<Rightarrow> (exec_error, exec_result) result \<times> 's run" where
  "execution fuel ex r at s = execute_claimed fuel (recorded ex) r at (start_run s)"

interpretation logged: claimed_environment "recorded ex" False at None "at_protocol False at None" for ex at
  using recorded_follows [of False ex None at] by (simp add: claimed_environment_def claimed_environment_axioms_def)

lemma start_reaches:
  "(\<And>left n. budget = Some (left, n) \<Longrightarrow> left s \<le> n) \<Longrightarrow>
   reaching (at_protocol strict at budget) (\<lambda>p. p = initial_protocol) (start_run s)"
  by (auto simp: reaching_def at_protocol_def start_run_def initial_protocol_def split: option.split)

lemma reaching_log:
  "reaching (at_protocol strict at budget) \<Phi> w \<Longrightarrow> \<exists>p. replay_log strict at (run_log w) = Some p \<and> \<Phi> p"
  by (auto simp: reaching_def at_protocol_def)

lemma environment_run:
  assumes "claimed_environment (recorded ex) strict at (map_option snd budget) (at_protocol strict at budget)"
    and "\<And>left n. budget = Some (left, n) \<Longrightarrow> left s \<le> n"
    and "lim \<Longrightarrow> \<exists>left n. budget = Some (left, n) \<and> n < fuel"
    and run: "execution fuel ex r at s = (outcome, w)"
  shows "\<exists>p. replay_log strict at (run_log w) = Some p \<and>
    (case outcome of Inl e \<Rightarrow> (e = OutOfFuel \<or> released p) \<and> (lim \<longrightarrow> e \<noteq> OutOfFuel) | Inr result \<Rightarrow> concluded p)"
proof -
  have "outcomes (reaching (at_protocol strict at budget) (\<lambda>p. p = initial_protocol)) (execute_claimed fuel (recorded ex) r at)
      (\<lambda>_. reaching (at_protocol strict at budget) concluded) (failed_well (at_protocol strict at budget) lim)"
    by (rule claimed_environment.execute_rule [OF assms(1)]) (use assms(3) in auto)
  moreover have "reaching (at_protocol strict at budget) (\<lambda>p. p = initial_protocol) (start_run s)"
    by (rule start_reaches) (rule assms(2))
  ultimately have "case outcome of
      Inl e \<Rightarrow> failed_well (at_protocol strict at budget) lim e w
    | Inr result \<Rightarrow> reaching (at_protocol strict at budget) concluded w"
    using run by (fastforce simp: outcomes_def execution_def split: sum.splits)
  then show ?thesis
    by (cases outcome) (auto simp: failed_well_def dest!: reaching_log)
qed

text \<open>C4. (refinement): whatever the store, the files, the provider, the clock and the contexts
  answer, an execution does only what the protocol allows, in its order: one file, at most four streams, one at a
  time, writes only while one is leased; then flush, close, finalization, link, and each step of the publication after
  the one before it was stored; one finish at the end.  Every way out, the error ones too, leaves no file open and no
  stream leased, and a result is returned only after the finish was stored.  Only the exhausted count of turns is
  excepted.\<close>

theorem execution_follows_protocol:
  "case execution fuel ex r at s of (outcome, w) \<Rightarrow>
     \<exists>p. replay_log False at (run_log w) = Some p \<and>
       (case outcome of Inl e \<Rightarrow> e = OutOfFuel \<or> released p | Inr result \<Rightarrow> pt_stage p = Over \<and> released p)"
proof -
  obtain outcome w where run: "execution fuel ex r at s = (outcome, w)" by fastforce
  from environment_run [where budget = None and lim = False, simplified, OF logged.claimed_environment_axioms run]
  show ?thesis by (auto simp: run concluded_def split: sum.splits)
qed

section \<open>The requests to the store\<close>

lemma unclaimed_log: "at_id at = 0 \<Longrightarrow> run_log (snd (execution fuel ex r at s)) = []"
  by (auto simp: execution_def execute_claimed_def validate_claimed_def validate_executor_def claimed_ok_def act_seq_def
      act_bind_def act_fail_def act_require_def act_return_def now_def perform_def recorded_def on_run_def start_run_def
      split: prod.split if_splits)

lemma replay_accepts: "replay_log True at log \<noteq> None \<Longrightarrow> list_all request_accepted log"
  by (induction log rule: rev_induct)
    (auto simp: protocol_step_def split: if_splits Option.bind_splits)

text \<open>C6. (safety): with a clock that is set and identifiers that are not zero, every request to
  finalize or to finish that an execution gives to the store is one that the store's own validation accepts, also the
  ones on the error paths and those made from what the store answered before.\<close>

theorem execution_requests_accepted:
  assumes "sound_sources ex"
  shows "list_all request_accepted (run_log (snd (execution fuel ex r at s)))"
proof (cases "at_id at = 0")
  case False
  let ?I = "at_protocol True at None"
  have "claimed_environment (recorded ex) True at None ?I"
    using recorded_follows [of True ex None at] assms False
    by (simp add: claimed_environment_def claimed_environment_axioms_def)
  then have "replay_log True at (run_log (snd (execution fuel ex r at s))) \<noteq> None"
    using environment_run [where budget = None and lim = False and strict = True and ex = ex and at = at]
    by (cases "execution fuel ex r at s") fastforce
  then show ?thesis by (rule replay_accepts)
qed (simp add: unclaimed_log)


section \<open>The order of a publication\<close>

text \<open>The steps that make a file final; each has to be stored before the next.\<close>

datatype milestone =
  FileSynced | FileClosed | FinalizationStored | FinalLinked | FinalMarked | FolderSynced | PartialRemoved | FolderMarked

fun milestones :: "attempt \<Rightarrow> exec_event \<Rightarrow> milestone list" where
  "milestones at (EvCall (SyncFile plan) True) = (if plan = at_plan at then [FileSynced] else [])"
| "milestones at (EvCall (CloseFile plan) True) = (if plan = at_plan at then [FileClosed] else [])"
| "milestones at (EvFinalize request (Finalization fz)) = (if answer_ok request fz then [FinalizationStored] else [])"
| "milestones at (EvLink plan True) = (if plan = at_plan at then [FinalLinked] else [])"
| "milestones at (EvCall (PublishedFinal ctx i t) True) = [FinalMarked]"
| "milestones at (EvCall (SyncFolder plan) True) = (if plan = at_plan at then [FolderSynced] else [])"
| "milestones at (EvCall (RemovePartialFile plan) True) = (if plan = at_plan at then [PartialRemoved] else [])"
| "milestones at (EvCall (SyncedFolder ctx i t) True) = [FolderMarked]"
| "milestones at _ = []"

definition publication_order :: "milestone list" where
  "publication_order =
     [FileSynced, FileClosed, FinalizationStored, FinalLinked, FinalMarked, FolderSynced, PartialRemoved, FolderSynced,
      FolderMarked]"

fun stage_rank :: "stage \<Rightarrow> nat" where
  "stage_rank Finalizing = 3"
| "stage_rank LinkedFinal = 4"
| "stage_rank MarkedFinal = 5"
| "stage_rank SyncedFinal = 6"
| "stage_rank RemovedPartial = 7"
| "stage_rank ResyncedFinal = 8"
| "stage_rank MarkedSynced = 9"
| "stage_rank _ = 0"

definition passed :: "protocol \<Rightarrow> nat" where
  "passed p =
     (if stage_rank (pt_stage p) > 0 then stage_rank (pt_stage p)
      else if pt_stage p = Running \<and> pt_durable p then (if pt_file p = ClosedFile then 2 else 1) else 0)"

text \<open>What the file says before the start, and before there is one.\<close>

definition file_told :: "protocol \<Rightarrow> bool" where
  "file_told p \<longleftrightarrow> (pt_durable p \<longrightarrow> pt_file p \<noteq> NoFile) \<and> (pt_stage p = BeforeStart \<longrightarrow> pt_file p = NoFile)"

definition passes :: "protocol \<Rightarrow> milestone list \<Rightarrow> protocol \<Rightarrow> bool" where
  "passes p ms p' \<longleftrightarrow> passed p' \<le> passed p \<or> passed p' = passed p + 1 \<and> ms = [publication_order ! passed p]"

lemma passes_self [simp]: "passes p ms p"
  by (simp add: passes_def)

lemma passed_by_stage: "stage_rank (pt_stage p) > 0 \<Longrightarrow> passed p = stage_rank (pt_stage p)"
  by (simp add: passed_def)

lemma move_stage_told:
  "move_stage a b c good p = Some p' \<Longrightarrow> file_told p \<Longrightarrow> b \<noteq> BeforeStart \<Longrightarrow> file_told p'"
  by (auto simp: move_stage_def guarded_def file_told_def split: if_splits)

lemma move_stage_passes:
  assumes "move_stage a b c good p = Some p'" "stage_rank a > 0" "stage_rank b = stage_rank a + 1"
    "good \<Longrightarrow> ms = [publication_order ! stage_rank a]"
  shows "passes p ms p'"
  using assms by (auto simp: move_stage_def guarded_def passes_def passed_by_stage split: if_splits)

lemma call_passes:
  assumes "call_step at p c good = Some p'" "file_told p"
  shows "passes p (milestones at (EvCall c good)) p' \<and> file_told p'"
  using assms
proof (cases "(at, p, c, good)" rule: call_step.cases)
  case (1 at p ctx i t good)
  then show ?thesis using assms by (auto simp: move_stage_def guarded_def passes_def passed_def file_told_def split: if_splits)
next
  case (2 at p plan good)
  then show ?thesis using assms by (auto simp: guarded_def passes_def passed_def file_told_def split: if_splits)
next
  case (3 at p plan good)
  then show ?thesis using assms
    by (cases good) (auto simp: guarded_def passes_def passed_def file_told_def publication_order_def split: if_splits)
next
  case (4 at p plan good)
  then show ?thesis using assms
    by (cases good) (auto simp: guarded_def passes_def passed_def file_told_def publication_order_def split: if_splits)
next
  case (7 at p plan good)
  then show ?thesis using assms
    by (cases good) (auto simp: publication_order_def split: if_splits elim!: move_stage_passes move_stage_told)
next
  case (8 at p plan good)
  then show ?thesis using assms
    by (cases good) (auto simp: publication_order_def split: if_splits elim!: move_stage_passes move_stage_told)
next
  case (9 at p ctx i t good)
  then show ?thesis using assms
    by (cases good) (auto simp: publication_order_def elim!: move_stage_passes move_stage_told)
next
  case (10 at p ctx i t good)
  then show ?thesis using assms
    by (cases good) (auto simp: publication_order_def elim!: move_stage_passes move_stage_told)
qed (auto simp: guarded_def passes_def passed_def file_told_def split: if_splits)

lemma step_passes:
  assumes "protocol_step False at p e = Some p'" "file_told p"
  shows "passes p (milestones at e) p' \<and> file_told p'"
proof -
  have step: "event_step at p e = Some p'" using assms(1) by (simp add: protocol_step_def)
  show ?thesis
  proof (cases "(at, p, e)" rule: event_step.cases)
    case (1 at p c good)
    then show ?thesis using step assms(2) call_passes by auto
  next
    case (5 at p request answer)
    then show ?thesis using step assms(2)
      by (auto simp: passes_def passed_def file_told_def publication_order_def split: if_splits finalize_answer.splits)
  next
    case (6 at p plan good)
    then show ?thesis using step assms(2)
      by (cases good) (auto simp: publication_order_def split: if_splits elim!: move_stage_passes move_stage_told)
  qed (use step assms(2) in \<open>auto simp: guarded_def passes_def passed_def file_told_def split: if_splits\<close>)
qed

lemma subseq_take_le: "m \<le> n \<Longrightarrow> subseq (take m xs) (take n xs)"
  by (metis min_def take_take take_is_prefix prefix_imp_sublist sublist_imp_subseq)

lemma subseq_snoc_nth:
  assumes "subseq (take n xs) ys" "n < length xs"
  shows "subseq (take (n + 1) xs) (ys @ [xs ! n])"
  using assms by (simp add: take_Suc_conv_app_nth list_emb_append_mono)

lemma milestones_passed:
  assumes "replay_log False at log = Some p"
  shows "file_told p \<and> subseq (take (passed p) publication_order) (concat (map (milestones at) log))"
  using assms
proof (induction log arbitrary: p rule: rev_induct)
  case Nil
  then show ?case by (auto simp: file_told_def passed_def initial_protocol_def)
next
  case (snoc e log)
  from snoc.prems obtain q where q: "replay_log False at log = Some q" "protocol_step False at q e = Some p"
    by (auto split: Option.bind_splits)
  from snoc.IH [OF q(1)] have told: "file_told q"
    and before: "subseq (take (passed q) publication_order) (concat (map (milestones at) log))" by simp_all
  from step_passes [OF q(2) told] have "passes q (milestones at e) p" "file_told p" by simp_all
  moreover have "subseq (take (passed p) publication_order) (concat (map (milestones at) log) @ milestones at e)"
    if "passed p \<le> passed q"
    using subseq_order.trans [OF subseq_take_le [OF that] before] by (rule list_emb_prefix)
  moreover have "subseq (take (passed p) publication_order) (concat (map (milestones at) log) @ milestones at e)"
    if "passed p = passed q + 1" "milestones at e = [publication_order ! passed q]"
  proof (cases "passed q < length publication_order")
    case True
    from subseq_snoc_nth [OF before this] that show ?thesis by simp
  next
    case False
    with that(1) before show ?thesis by (simp add: list_emb_prefix)
  qed
  ultimately show ?case by (auto simp: passes_def)
qed

text \<open>Whether a recording is finished as a final one only after all the steps, each stored, in their order.\<close>

definition finals_in_order :: "attempt \<Rightarrow> exec_event list \<Rightarrow> bool" where
  "finals_in_order at log \<longleftrightarrow>
     list_all (\<lambda>i. case log ! i of
         EvCall (Finish ctx req) good \<Rightarrow>
           fn_availability req = AvailabilityFinal \<longrightarrow>
             subseq publication_order (concat (map (milestones at) (take i log)))
       | _ \<Rightarrow> True) [0..<length log]"

lemma finals_in_order_snoc:
  "finals_in_order at (log @ [e]) \<longleftrightarrow>
     finals_in_order at log \<and>
     (\<forall>ctx req good. e = EvCall (Finish ctx req) good \<longrightarrow> fn_availability req = AvailabilityFinal \<longrightarrow>
       subseq publication_order (concat (map (milestones at) log)))"
  by (auto simp: finals_in_order_def list_all_iff nth_append split: exec_event.split exec_call.split)

lemma replay_finals: "replay_log False at log = Some p \<Longrightarrow> finals_in_order at log"
proof (induction log arbitrary: p rule: rev_induct)
  case (snoc e log)
  from snoc.prems obtain q where q: "replay_log False at log = Some q" "protocol_step False at q e = Some p"
    by (auto split: Option.bind_splits)
  have "subseq publication_order (concat (map (milestones at) log))"
    if "e = EvCall (Finish ctx req) good" "fn_availability req = AvailabilityFinal" for ctx req good
  proof -
    have "pt_stage q = MarkedSynced"
      using that q(2) by (auto simp: step_defs split: if_splits)
    then have "passed q = length publication_order" by (simp add: passed_def publication_order_def)
    with milestones_passed [OF q(1)] show ?thesis by simp
  qed
  with snoc.IH [OF q(1)] show ?case by (simp add: finals_in_order_snoc)
qed (simp add: finals_in_order_def)

text \<open>C5. (safety): a recording is finished with its final file only after, in this order and each with
  success: the flush and the close of the partial file, the finalization in the store, the link of the final name, its
  mark in the store, the flush of the folder, the removal of the partial name, the flush of the folder, and its mark
  in the store.\<close>

theorem publication_in_order:
  "finals_in_order at (run_log (snd (execution fuel ex r at s)))"
proof -
  obtain outcome w where run: "execution fuel ex r at s = (outcome, w)" by fastforce
  from environment_run [where budget = None and lim = False, simplified, OF logged.claimed_environment_axioms run]
  show ?thesis by (auto simp: run intro: replay_finals)
qed

section \<open>The end of an execution\<close>

text \<open>C7. (termination): where every read takes from the time that is left, and without time left the
  clock has passed the latest end of the recording (a day after its planned start, or its planned end), an execution
  ends by itself after at most one turn of a copy for every read that the time allows, however the stream goes on and
  the store moves the planned end.\<close>

theorem execution_terminates:
  assumes "time_passes ex (maximum_end at) left" "left s < fuel"
  shows "fst (execution fuel ex r at s) \<noteq> Inl OutOfFuel"
proof (cases "at_id at = 0")
  case True
  then show ?thesis
    by (auto simp: execution_def execute_claimed_def validate_claimed_def validate_executor_def claimed_ok_def act_seq_def
        act_bind_def act_fail_def act_require_def act_return_def now_def perform_def split: prod.split sum.split if_splits)
next
  case False
  obtain outcome w where run: "execution fuel ex r at s = (outcome, w)" by fastforce
  have "claimed_environment (recorded ex) False at (map_option snd (Some (left, left s))) (at_protocol False at (Some (left, left s)))"
    using recorded_follows [of False ex "Some (left, left s)" at] assms False
    by (simp add: claimed_environment_def claimed_environment_axioms_def)
  from environment_run [OF this _ _ run, where lim = True] assms(2) show ?thesis
    by (auto simp: run split: sum.splits)
qed

section \<open>A recording of a day and an hour\<close>

definition sample_claim :: attempt where
  "sample_claim = \<lparr>at_id = 1, at_reservation_id = 9, at_state = AttemptClaimed,
     at_planned_start = \<lparr>t_nanos = 1600000000 * second, t_utc = True\<rparr>,
     at_planned_end = \<lparr>t_nanos = 1600090000 * second, t_utc = True\<rparr>, at_byte_count = 0,
     at_plan = plan_of [65] [66], at_one_seg_plan = None\<rparr>"

text \<open>The state is the number of seconds left; a read takes one and gives a null packet, the other answers are good.\<close>

definition sample_executor :: "nat executor" where
  "sample_executor =
     \<lparr>ex_owner = 5, ex_generation = 1, ex_extension_only = False,
      ex_now = (\<lambda>n. (\<lparr>t_nanos = (1600090000 - int (min n 1000)) * second, t_utc = True\<rparr>, n)),
      ex_context = (\<lambda>ctx n. (ContextLive, n)), ex_new_id = (\<lambda>n. (Some 6, n)), ex_wait = (\<lambda>ctx d n. (True, n)),
      ex_claim = (\<lambda>ctx c n. (Some sample_claim, n)), ex_stop_requested = (\<lambda>ctx i n. (Some False, n)),
      ex_call = (\<lambda>c n. (True, n)), ex_timed = (\<lambda>m n. (Some (at_planned_end sample_claim), n)),
      ex_finalize = (\<lambda>ctx fz n. (Finalization fz, n)), ex_write = (\<lambda>plan n raw. ((int (length raw), None), n)),
      ex_link = (\<lambda>plan n. (None, n)), ex_open = (\<lambda>ctx target lease n. (None, n)),
      ex_read = (\<lambda>lease ctx size n. ((188, 0x47 # 0x1f # 0xff # 0x10 # replicate 184 0xff,
        \<lparr>tm_done = False, tm_reason = TerminalActive\<rparr>, None), n - 1)),
      ex_final_path = None, ex_post = None, ex_observe_post = None, ex_observe = None\<rparr>"

lemma sample_sources: "sound_sources sample_executor"
  by (auto simp: sound_sources_def sample_executor_def utc_instant_def in_utc_def is_zero_time_def zero_nanos_def
      unix_milli_def min_def)

lemma sample_time: "time_passes sample_executor (maximum_end sample_claim) (\<lambda>n. n)"
  by (simp add: time_passes_def spends_def sample_executor_def sample_claim_def maximum_end_def add_duration_def
      after_time_def before_time_def in_utc_def)

theorem execution_requests_accepted_witness:
  "list_all request_accepted (run_log (snd (execution 10 sample_executor sample_reservation sample_claim 8)))"
  by (rule execution_requests_accepted [OF sample_sources])

theorem execution_terminates_witness:
  "fst (execution 10 sample_executor sample_reservation sample_claim 8) \<noteq> Inl OutOfFuel"
  using execution_terminates [OF sample_time, of 8 10] by simp

end
