(* ===== verification/Utf8Scan.thy ===== *)
theory Utf8Scan
  imports GoText "HOL-Library.Sublist"
begin

text \<open>
  Encoded text taken apart again: decoding inverts encoding, and the bytes of one encoded text inside another stand
  where its characters stand.
\<close>

section \<open>Decoding what was encoded\<close>

text \<open>The bytes of an encoded character, with their digits.\<close>

lemma byte_of_number: "n < 256 \<Longrightarrow> \<exists>b :: byte. of_nat n = b \<and> unat b = n"
  by (simp add: unat_of_nat)

lemma encode_two:
  assumes "scalar r" "0x80 \<le> r" "r < 0x800"
  obtains b0 b1 a d where "encode_rune r = [b0, b1]" "unat b0 = 0xc0 + a" "unat b1 = 0x80 + d" "r = a * 64 + d"
    "2 \<le> a" "a < 32" "d < 64"
proof -
  define a d where "a = r div 64" "d = r mod 64"
  have range: "r = a * 64 + d" "2 \<le> a" "a < 32" "d < 64" using assms(2,3) by (auto simp: a_d_def)
  then obtain b0 b1 :: byte where b: "of_nat (0xc0 + a) = b0" "unat b0 = 0xc0 + a" "of_nat (0x80 + d) = b1" "unat b1 = 0x80 + d"
    using byte_of_number [of "0xc0 + a"] byte_of_number [of "0x80 + d"] by auto
  have "encode_rune r = [b0, b1]" using encode_scalar(2) [OF assms] unfolding a_d_def [symmetric] b .
  then show thesis using b(2,4) range by (rule that)
qed

lemma digits_compose:
  assumes "r = x * 64 + (e :: nat)" "x = y * 64 + d"
  shows "r = y * 4096 + d * 64 + e" "y = a * 64 + c \<Longrightarrow> r = a * 262144 + c * 4096 + d * 64 + e"
  using assms by simp_all

lemma encode_three:
  assumes "scalar r" "0x800 \<le> r" "r < 0x10000"
  obtains b0 b1 b2 a d e where "encode_rune r = [b0, b1, b2]" "unat b0 = 0xe0 + a" "unat b1 = 0x80 + d" "unat b2 = 0x80 + e"
    "r = a * 4096 + d * 64 + e" "a < 16" "d < 64" "e < 64"
proof -
  define a d e where "a = r div 4096" "d = r div 64 mod 64" "e = r mod 64"
  have "r div 4096 = r div 64 div 64" by (simp add: div_mult2_eq [symmetric])
  then have "r = a * 4096 + d * 64 + e"
    unfolding a_d_e_def by (simp only:) (rule digits_compose; rule div_mult_mod_eq [symmetric])
  then have range: "r = a * 4096 + d * 64 + e" "a < 16" "d < 64" "e < 64" using assms(3) by (auto simp: a_d_e_def)
  then obtain b0 b1 b2 :: byte where b: "of_nat (0xe0 + a) = b0" "unat b0 = 0xe0 + a" "of_nat (0x80 + d) = b1"
    "unat b1 = 0x80 + d" "of_nat (0x80 + e) = b2" "unat b2 = 0x80 + e"
    using byte_of_number [of "0xe0 + a"] byte_of_number [of "0x80 + d"] byte_of_number [of "0x80 + e"] by auto
  have "encode_rune r = [b0, b1, b2]" using encode_scalar(3) [OF assms] unfolding a_d_e_def [symmetric] b .
  then show thesis using b(2,4,6) range by (rule that)
qed

lemma encode_four:
  assumes "scalar r" "0x10000 \<le> r"
  obtains b0 b1 b2 b3 a d e f where "encode_rune r = [b0, b1, b2, b3]" "unat b0 = 0xf0 + a" "unat b1 = 0x80 + d"
    "unat b2 = 0x80 + e" "unat b3 = 0x80 + f" "r = a * 262144 + d * 4096 + e * 64 + f" "a \<le> 4" "d < 64" "e < 64" "f < 64"
proof -
  define a d e f where "a = r div 262144" "d = r div 4096 mod 64" "e = r div 64 mod 64" "f = r mod 64"
  have split: "r div 4096 = r div 64 div 64" "r div 262144 = r div 64 div 64 div 64" by (simp_all add: div_mult2_eq [symmetric])
  have eq: "r = a * 262144 + d * 4096 + e * 64 + f"
    unfolding a_d_e_f_def split by (rule digits_compose(2); rule div_mult_mod_eq [symmetric])
  have "r \<le> 0x10ffff" using assms(1) by (simp add: scalar_def)
  then have "r div 262144 \<le> 0x10ffff div 262144" by (rule div_le_mono)
  then have range: "a \<le> 4" "d < 64" "e < 64" "f < 64" by (simp_all add: a_d_e_f_def)
  then obtain b0 b1 b2 b3 :: byte where b: "of_nat (0xf0 + a) = b0" "unat b0 = 0xf0 + a" "of_nat (0x80 + d) = b1"
    "unat b1 = 0x80 + d" "of_nat (0x80 + e) = b2" "unat b2 = 0x80 + e" "of_nat (0x80 + f) = b3" "unat b3 = 0x80 + f"
    using byte_of_number [of "0xf0 + a"] byte_of_number [of "0x80 + d"] byte_of_number [of "0x80 + e"]
      byte_of_number [of "0x80 + f"] by auto
  have "encode_rune r = [b0, b1, b2, b3]" using encode_scalar(4) [OF assms] unfolding a_d_e_f_def [symmetric] b .
  then show thesis using b(2,4,6,8) eq range by (rule that)
qed

lemma encode_one:
  assumes "scalar r" "r < 0x80"
  obtains b where "encode_rune r = [b]" "unat b = r"
  using encode_scalar(1) [OF assms] byte_of_number [of r] assms(2) that by auto

lemma decode_encode_rune:
  assumes "scalar r"
  shows "decode_rune (encode_rune r @ bs) = (r, length (encode_rune r))"
proof -
  consider "r < 0x80" | "0x80 \<le> r" "r < 0x800" | "0x800 \<le> r" "r < 0x10000" | "0x10000 \<le> r" by linarith
  then show ?thesis
  proof cases
    case 1
    then obtain b where "encode_rune r = [b]" "unat b = r" by (rule encode_one [OF assms])
    with 1 show ?thesis by (simp add: Let_def split: prod.split)
  next
    case 2
    then obtain b0 b1 a d where b: "encode_rune r = [b0, b1]" "unat b0 = 0xc0 + a" "unat b1 = 0x80 + d"
      and r: "r = a * 64 + d" "2 \<le> a" "a < 32" "d < 64" by (rule encode_two [OF assms])
    then show ?thesis unfolding b(1) by (simp add: Let_def b(2,3) second_range_def continuation_def)
  next
    case 3
    then obtain b0 b1 b2 a d e where b: "encode_rune r = [b0, b1, b2]" "unat b0 = 0xe0 + a" "unat b1 = 0x80 + d" "unat b2 = 0x80 + e"
      and r: "r = a * 4096 + d * 64 + e" "a < 16" "d < 64" "e < 64" by (rule encode_three [OF assms])
    have low: "a = 0 \<longrightarrow> 0x20 \<le> d" using 3(1) r by auto
    have high: "a = 0xd \<longrightarrow> d \<le> 0x1f" using assms r by (auto simp: scalar_def)
    obtain lo hi where second: "second_range (unat b0) = (lo, hi)" by fastforce
    have "continuation lo hi b1" "continuation 0x80 0xbf b2"
      using second low high r(2,3,4) by (auto simp: second_range_def continuation_def b(2-4) split: if_splits)
    then show ?thesis unfolding b(1) using second r by (simp add: Let_def b(2-4))
  next
    case 4
    then obtain b0 b1 b2 b3 a d e f where b: "encode_rune r = [b0, b1, b2, b3]" "unat b0 = 0xf0 + a" "unat b1 = 0x80 + d"
      "unat b2 = 0x80 + e" "unat b3 = 0x80 + f"
      and r: "r = a * 262144 + d * 4096 + e * 64 + f" "a \<le> 4" "d < 64" "e < 64" "f < 64" by (rule encode_four [OF assms])
    have low: "a = 0 \<longrightarrow> 0x10 \<le> d" using 4 r by auto
    have high: "a = 4 \<longrightarrow> d \<le> 0xf" using assms r by (auto simp: scalar_def)
    obtain lo hi where second: "second_range (unat b0) = (lo, hi)" by fastforce
    have "continuation lo hi b1" "continuation 0x80 0xbf b2" "continuation 0x80 0xbf b3"
      using second low high r(2,3,4,5) by (auto simp: second_range_def continuation_def b(2-5) split: if_splits)
    then show ?thesis unfolding b(1) using second r by (simp add: Let_def b(2-5))
  qed
qed

lemma encode_rune_nonempty [simp]: "encode_rune r \<noteq> []"
  by (simp add: encode_rune_def Let_def)

lemma encode_runes_simps [simp]:
  "encode_runes [] = []" "encode_runes (r # rs) = encode_rune r @ encode_runes rs"
  "encode_runes (rs @ ss) = encode_runes rs @ encode_runes ss"
  by (simp_all add: encode_runes_def)

lemma encode_runes_Nil_iff [simp]: "encode_runes rs = [] \<longleftrightarrow> rs = []"
  by (cases rs) simp_all

lemma runes_step: "scalar r \<Longrightarrow> runes (encode_rune r @ bs) = r # runes bs"
  by (subst runes.simps) (simp add: decode_encode_rune)

lemma runes_encode: "list_all scalar rs \<Longrightarrow> runes (encode_runes rs @ bs) = rs @ runes bs"
  by (induction rs) (simp_all add: runes_step)

lemma runes_encode_runes [simp]: "list_all scalar rs \<Longrightarrow> runes (encode_runes rs) = rs"
  using runes_encode [of rs "[]"] by simp

lemma decode_scalar: "scalar (fst (decode_rune bs))"
proof (cases "bs = [] \<or> decode_rune bs = (rune_error, 1)")
  case True
  then show ?thesis by (auto simp: scalar_def rune_error_def)
next
  case False
  then show ?thesis using decode_encode [of bs] by (cases "decode_rune bs") auto
qed

lemma runes_scalar: "list_all scalar (runes bs)"
proof (induction bs rule: runes.induct)
  case (1 bs)
  then show ?case by (cases "bs = []") (simp_all add: runes.simps [of bs] decode_scalar)
qed

section \<open>One text inside another\<close>

definition lead_byte :: "byte \<Rightarrow> bool" where
  "lead_byte b \<longleftrightarrow> \<not> (0x80 \<le> unat b \<and> unat b \<le> 0xbf)"

lemma encode_lead:
  assumes "scalar r"
  obtains b tl where "encode_rune r = b # tl" "lead_byte b" "list_all (\<lambda>c. \<not> lead_byte c) tl"
proof -
  consider "r < 0x80" | "0x80 \<le> r" "r < 0x800" | "0x800 \<le> r" "r < 0x10000" | "0x10000 \<le> r" by linarith
  then show thesis
  proof cases
    case 1
    then show thesis by (rule encode_one [OF assms]) (use 1 in \<open>auto intro: that simp: lead_byte_def\<close>)
  next
    case 2
    then show thesis by (rule encode_two [OF assms]) (auto intro: that simp: lead_byte_def)
  next
    case 3
    then show thesis by (rule encode_three [OF assms]) (auto intro: that simp: lead_byte_def)
  next
    case 4
    then show thesis by (rule encode_four [OF assms]) (auto intro: that simp: lead_byte_def)
  qed
qed

lemma encode_prefix:
  assumes "list_all scalar ts" "list_all scalar ps" "encode_runes ts = encode_runes ps @ y"
  shows "\<exists>zs. ts = ps @ zs \<and> y = encode_runes zs"
  using assms
proof (induction ps arbitrary: ts)
  case (Cons p ps)
  from Cons.prems obtain t ts' where ts: "ts = t # ts'" by (cases ts) auto
  have same: "encode_rune t @ encode_runes ts' = encode_rune p @ (encode_runes ps @ y)" using Cons.prems(3) by (simp add: ts)
  have "scalar t" "scalar p" using Cons.prems by (simp_all add: ts)
  then have "(t, length (encode_rune t)) = (p, length (encode_rune p))"
    using decode_encode_rune [of t "encode_runes ts'"] decode_encode_rune [of p "encode_runes ps @ y"] same by simp
  then have "t = p" by simp
  with Cons.IH [of ts'] Cons.prems show ?case by (auto simp: ts)
qed simp

lemma encode_inside:
  assumes "list_all scalar ts" "list_all scalar ps" "ps \<noteq> []" "encode_runes ts = x @ encode_runes ps @ y"
  shows "\<exists>as cs. ts = as @ ps @ cs \<and> x = encode_runes as \<and> y = encode_runes cs"
  using assms(1,4)
proof (induction ts arbitrary: x)
  case Nil
  then show ?case using assms(3) by auto
next
  case (Cons t ts)
  show ?case
  proof (cases "x = []")
    case True
    with encode_prefix [OF Cons.prems(1) assms(2)] Cons.prems(2) show ?thesis by fastforce
  next
    case False
    obtain b tl where t: "encode_rune t = b # tl" "list_all (\<lambda>c. \<not> lead_byte c) tl"
      using Cons.prems(1) by (auto elim: encode_lead)
    obtain q qs where p: "encode_runes ps = q # qs" "lead_byte q"
      using assms(2,3) by (cases ps) (auto elim: encode_lead)
    have "encode_rune t @ encode_runes ts = x @ (encode_runes ps @ y)" using Cons.prems(2) by simp
    then obtain us where "encode_rune t = x @ us \<and> us @ encode_runes ts = encode_runes ps @ y \<or>
        encode_rune t @ us = x \<and> encode_runes ts = us @ encode_runes ps @ y"
      unfolding append_eq_append_conv2 by blast
    then consider (outside) us where "x = encode_rune t @ us" "encode_runes ts = us @ encode_runes ps @ y"
      | (within) us where "encode_rune t = x @ us" "us \<noteq> []" "us @ encode_runes ts = encode_runes ps @ y"
      by (cases "us = []") auto
    then show ?thesis
    proof cases
      case outside
      with Cons.IH [of us] Cons.prems(1) obtain as cs where "ts = as @ ps @ cs" "us = encode_runes as" "y = encode_runes cs" by auto
      with outside(1) show ?thesis by (intro exI [of _ "t # as"] exI [of _ cs]) simp
    next
      case within
      then have "hd us = q" using p(1) by (cases us) auto
      moreover have "hd us \<in> set tl" using within(1,2) False t(1) by (cases x; cases us) auto
      ultimately show ?thesis using t(2) p(2) by (auto simp: list_all_iff)
    qed
  qed
qed

end
