(* ===== verification/FuzzyText.thy ===== *)
theory FuzzyText
  imports Utf8Scan
begin

text \<open>
  \<open>internal/core/autoreservation/fuzzy.go\<close> and the text functions of the matcher beside it: the normalisation of kana
  and width, and the search for a keyword within a quarter of its length in edits.  The search is compared with its
  specification: some part of the target can be edited to the keyword in so many steps.
\<close>

section \<open>Texts\<close>

text \<open>\<open>strings.Contains\<close> and \<open>strings.Fields\<close>.\<close>

fun contains_text :: "bytes \<Rightarrow> bytes \<Rightarrow> bool" where
  "contains_text t word \<longleftrightarrow> take (length word) t = word \<or> (case t of [] \<Rightarrow> False | _ # t' \<Rightarrow> contains_text t' word)"

declare contains_text.simps [simp del]

function text_fields_from :: "bytes \<Rightarrow> bytes \<Rightarrow> bytes list" where
  "text_fields_from word v =
     (if v = [] then (if word = [] then [] else [word])
      else
        let width = snd (decode_rune v); rest = drop width v in
        if space_rune (fst (decode_rune v)) then (if word = [] then [] else [word]) @ text_fields_from [] rest
        else text_fields_from (word @ take width v) rest)"
  by pat_completeness auto
termination by (relation "measure (\<lambda>(_, v). length v)") (auto dest: decode_rune_width)

declare text_fields_from.simps [simp del]

definition text_fields :: "bytes \<Rightarrow> bytes list" where
  "text_fields v = text_fields_from [] v"

section \<open>Normalisation\<close>

definition halfwidth_katakana :: "nat list" where
  "halfwidth_katakana =
     [0x3002, 0x300c, 0x300d, 0x3001, 0x30fb, 0x30f2, 0x30a1, 0x30a3, 0x30a5, 0x30a7, 0x30a9, 0x30e3, 0x30e5, 0x30e7, 0x30c3,
      0x30fc, 0x30a2, 0x30a4, 0x30a6, 0x30a8, 0x30aa, 0x30ab, 0x30ad, 0x30af, 0x30b1, 0x30b3, 0x30b5, 0x30b7, 0x30b9, 0x30bb,
      0x30bd, 0x30bf, 0x30c1, 0x30c4, 0x30c6, 0x30c8, 0x30ca, 0x30cb, 0x30cc, 0x30cd, 0x30ce, 0x30cf, 0x30d2, 0x30d5, 0x30d8,
      0x30db, 0x30de, 0x30df, 0x30e0, 0x30e1, 0x30e2, 0x30e4, 0x30e6, 0x30e8, 0x30e9, 0x30ea, 0x30eb, 0x30ec, 0x30ed, 0x30ef,
      0x30f3]"

text \<open>The kana with a sound mark for a kana before the mark; 0 when there is none.\<close>

definition composed_kana :: "bool \<Rightarrow> nat \<Rightarrow> nat" where
  "composed_kana voiced r =
     (if voiced then
        (if r = 0x30a6 then 0x30f4 else if r = 0x30ef then 0x30f7 else if r = 0x30f0 then 0x30f8
         else if r = 0x30f1 then 0x30f9 else if r = 0x30f2 then 0x30fa
         else if r \<in> {0x30ab, 0x30ad, 0x30af, 0x30b1, 0x30b3, 0x30b5, 0x30b7, 0x30b9, 0x30bb, 0x30bd, 0x30bf, 0x30c1,
                      0x30c4, 0x30c6, 0x30c8, 0x30cf, 0x30d2, 0x30d5, 0x30d8, 0x30db} then r + 1 else 0)
      else if r \<in> {0x30cf, 0x30d2, 0x30d5, 0x30d8, 0x30db} then r + 2 else 0)"

definition compose_kana :: "nat list \<Rightarrow> bool \<Rightarrow> nat list option" where
  "compose_kana value voiced =
     (if value = [] then None
      else let composed = composed_kana voiced (last value) in
        if composed = 0 then None else Some (butlast value @ [composed]))"

definition lower_ascii :: "bool \<Rightarrow> nat \<Rightarrow> nat" where
  "lower_ascii case_sensitive r = (if \<not> case_sensitive \<and> 0x41 \<le> r \<and> r \<le> 0x5a then r + 0x20 else r)"

text \<open>A character that is not a sound mark.\<close>

definition plain_character :: "nat \<Rightarrow> nat" where
  "plain_character r =
     (if 0xff01 \<le> r \<and> r \<le> 0xff5e then r - 0xfee0
      else if r = 0x3000 then 0x20
      else if 0x3041 \<le> r \<and> r \<le> 0x3096 then r + 0x60
      else if 0xff61 \<le> r \<and> r \<le> 0xff9d then halfwidth_katakana ! (r - 0xff61)
      else if space_rune r then 0x20
      else r)"

definition voiced_mark :: "nat \<Rightarrow> bool" where
  "voiced_mark r \<longleftrightarrow> r = 0xff9e \<or> r = 0x3099 \<or> r = 0x309b"

definition half_voiced_mark :: "nat \<Rightarrow> bool" where
  "half_voiced_mark r \<longleftrightarrow> r = 0xff9f \<or> r = 0x309a \<or> r = 0x309c"

definition normalize_step :: "bool \<Rightarrow> nat list \<Rightarrow> nat \<Rightarrow> nat list" where
  "normalize_step case_sensitive result r =
     (if voiced_mark r then (case compose_kana result True of Some result' \<Rightarrow> result' | None \<Rightarrow> result @ [0x3099])
      else if half_voiced_mark r then (case compose_kana result False of Some result' \<Rightarrow> result' | None \<Rightarrow> result @ [0x309a])
      else result @ [lower_ascii case_sensitive (plain_character r)])"

definition normalize_runes :: "bool \<Rightarrow> nat list \<Rightarrow> nat list" where
  "normalize_runes case_sensitive rs = foldl (normalize_step case_sensitive) [] rs"

definition normalize_fuzzy_text :: "bytes \<Rightarrow> bool \<Rightarrow> bytes" where
  "normalize_fuzzy_text v case_sensitive = encode_runes (normalize_runes case_sensitive (runes v))"

section \<open>The search\<close>

text \<open>The next row of the table, from the row before; \<open>left\<close> is the cell last written.\<close>

fun fuzzy_cells :: "nat \<Rightarrow> nat list \<Rightarrow> nat list \<Rightarrow> nat \<Rightarrow> nat list" where
  "fuzzy_cells r (expected # pattern) (upper # upper' # previous) left =
     (let cost = (if r \<noteq> expected then 1 else 0);
          cell = min (min (upper' + 1) (left + 1)) (upper + cost)
      in cell # fuzzy_cells r pattern (upper' # previous) cell)"
| "fuzzy_cells r pattern previous left = []"

definition fuzzy_row :: "nat \<Rightarrow> nat list \<Rightarrow> nat list \<Rightarrow> nat list" where
  "fuzzy_row r pattern previous = 0 # fuzzy_cells r pattern previous 0"

fun fuzzy_rows :: "nat list \<Rightarrow> nat \<Rightarrow> nat list \<Rightarrow> nat list \<Rightarrow> bool" where
  "fuzzy_rows pattern threshold previous [] = False"
| "fuzzy_rows pattern threshold previous (r # target) =
     (let current = fuzzy_row r pattern previous in
      if current ! length pattern \<le> threshold then True else fuzzy_rows pattern threshold current target)"

definition fuzzy_contains :: "bytes \<Rightarrow> bytes \<Rightarrow> bool" where
  "fuzzy_contains target keyword =
     (let pattern = runes keyword; threshold = length pattern div 4 in
      if pattern = [] then True
      else if contains_text target keyword then True
      else if threshold = 0 then False
      else fuzzy_rows pattern threshold [0..<length pattern + 1] (runes target))"

section \<open>Edits\<close>

text \<open>\<open>edits n xs ys\<close>: \<open>n\<close> characters replaced, dropped or put in turn \<open>xs\<close> into \<open>ys\<close>.\<close>

inductive edits :: "nat \<Rightarrow> 'a list \<Rightarrow> 'a list \<Rightarrow> bool" where
  edits_end: "edits 0 [] []"
| edits_keep: "edits n xs ys \<Longrightarrow> edits n (x # xs) (x # ys)"
| edits_replace: "edits n xs ys \<Longrightarrow> edits (Suc n) (x # xs) (y # ys)"
| edits_drop: "edits n xs ys \<Longrightarrow> edits (Suc n) (x # xs) ys"
| edits_put: "edits n xs ys \<Longrightarrow> edits (Suc n) xs (y # ys)"

lemma edits_same: "edits 0 xs xs"
  by (induction xs) (auto intro: edits.intros)

lemma edits_all_put: "edits (length ys) [] ys"
  by (induction ys) (auto intro: edits.intros)

lemma edits_join: "edits m as bs \<Longrightarrow> edits n xs ys \<Longrightarrow> edits (m + n) (as @ xs) (bs @ ys)"
  by (induction m as bs rule: edits.induct) (auto intro: edits.intros)

lemma edits_rev: "edits n xs ys \<Longrightarrow> edits n (rev xs) (rev ys)"
proof (induction n xs ys rule: edits.induct)
  case (edits_keep n xs ys x)
  from edits_join [OF edits_keep.IH edits_same [of "[x]"]] show ?case by simp
next
  case (edits_replace n xs ys x y)
  from edits_join [OF edits_replace.IH, of 1 "[x]" "[y]"] show ?case by (simp add: edits.intros)
next
  case (edits_drop n xs ys x)
  from edits_join [OF edits_drop.IH, of 1 "[x]" "[]"] show ?case by (simp add: edits.intros)
next
  case (edits_put n xs ys y)
  from edits_join [OF edits_put.IH, of 1 "[]" "[y]"] show ?case by (simp add: edits.intros)
qed (simp add: edits.intros)

lemma edits_rev_iff: "edits n (rev xs) (rev ys) \<longleftrightarrow> edits n xs ys"
  using edits_rev [of n xs ys] edits_rev [of n "rev xs" "rev ys"] by auto

inductive_cases edits_from_Nil: "edits n [] ys"
inductive_cases edits_to_Cons: "edits n xs (y # ys)"

lemma edits_zero: "edits 0 xs ys \<longleftrightarrow> xs = ys"
proof
  show "xs = ys" if "edits 0 xs ys"
    using that by (induction "0 :: nat" xs ys rule: edits.induct) simp_all
qed (simp add: edits_same)

section \<open>The table\<close>

text \<open>
  The least number of edits that turn some last part of what was read into a first part of the pattern; both lists are
  reversed.
\<close>

fun least_edits :: "'a list \<Rightarrow> 'a list \<Rightarrow> nat" where
  "least_edits ts [] = 0"
| "least_edits [] (p # ps) = length ps + 1"
| "least_edits (t # ts) (p # ps) =
     min (min (least_edits ts (p # ps) + 1) (least_edits (t # ts) ps + 1)) (least_edits ts ps + (if t \<noteq> p then 1 else 0))"

lemma least_edits_le_length: "least_edits ts ps \<le> length ps"
  by (induction ts ps rule: least_edits.induct) auto

lemma edits_length: "edits n xs ys \<Longrightarrow> length ys \<le> n + length xs"
  by (induction n xs ys rule: edits.induct) auto

lemma least_edits_least: "edits n xs ps \<Longrightarrow> least_edits (xs @ ts) ps \<le> n"
proof (induction n xs ps rule: edits.induct)
  case edits_end
  then show ?case by simp
next
  case (edits_drop n xs ys x)
  then show ?case by (cases ys) auto
next
  case (edits_put n xs ys y)
  then show ?case by (cases "xs @ ts") (auto dest: edits_length)
qed auto

lemma least_edits_reached: "\<exists>xs zs. ts = xs @ zs \<and> edits (least_edits ts ps) xs ps"
proof (induction ts ps rule: least_edits.induct)
  case (1 ts)
  then show ?case by (auto intro: edits.intros)
next
  case (2 p ps)
  then show ?case using edits_all_put [of "p # ps"] by auto
next
  case (3 t ts p ps)
  consider (drop) "least_edits (t # ts) (p # ps) = least_edits ts (p # ps) + 1"
    | (put) "least_edits (t # ts) (p # ps) = least_edits (t # ts) ps + 1"
    | (both) "least_edits (t # ts) (p # ps) = least_edits ts ps + (if t \<noteq> p then 1 else 0)"
    unfolding least_edits.simps min_def by presburger
  then show ?case
  proof cases
    case drop
    from 3(1) obtain xs zs where xs: "ts = xs @ zs" "edits (least_edits ts (p # ps)) xs (p # ps)" by blast
    have "edits (least_edits (t # ts) (p # ps)) (t # xs) (p # ps)"
      unfolding drop Suc_eq_plus1 [symmetric] by (rule edits.edits_drop [OF xs(2)])
    with xs(1) show ?thesis by (metis append_Cons)
  next
    case put
    from 3(2) obtain xs zs where xs: "t # ts = xs @ zs" "edits (least_edits (t # ts) ps) xs ps" by blast
    have "edits (least_edits (t # ts) (p # ps)) xs (p # ps)"
      unfolding put Suc_eq_plus1 [symmetric] by (rule edits.edits_put [OF xs(2)])
    with xs(1) show ?thesis by blast
  next
    case both
    from 3(3) obtain xs zs where xs: "ts = xs @ zs" "edits (least_edits ts ps) xs ps" by blast
    have "edits (least_edits ts ps + (if t \<noteq> p then 1 else 0)) (t # xs) (p # ps)"
      using xs(2) by (simp add: edits.edits_keep edits.edits_replace)
    then have "edits (least_edits (t # ts) (p # ps)) (t # xs) (p # ps)" unfolding both .
    with xs(1) show ?thesis by (metis append_Cons)
  qed
qed


text \<open>The cells of a row are the least numbers of edits for the first parts of the pattern.\<close>

primrec edit_cells :: "nat list \<Rightarrow> nat list \<Rightarrow> nat list \<Rightarrow> nat list" where
  "edit_cells ts qs [] = []"
| "edit_cells ts qs (p # ps) = least_edits ts (p # qs) # edit_cells ts (p # qs) ps"

definition edit_row :: "nat list \<Rightarrow> nat list \<Rightarrow> nat list" where
  "edit_row ts pattern = 0 # edit_cells ts [] pattern"

lemma edit_cells_start: "edit_cells [] qs ps = [length qs + 1..<length qs + 1 + length ps]"
  by (induction ps arbitrary: qs) (simp_all add: upt_conv_Cons del: upt_Suc)

lemma edit_row_start: "edit_row [] pattern = [0..<length pattern + 1]"
  by (simp add: edit_row_def edit_cells_start upt_conv_Cons del: upt_Suc)

lemma fuzzy_cells_edits:
  "fuzzy_cells r ps (least_edits ts qs # edit_cells ts qs ps) (least_edits (r # ts) qs) = edit_cells (r # ts) qs ps"
proof (induction ps arbitrary: qs)
  case (Cons p ps)
  from Cons.IH [of "p # qs"] show ?case by (simp add: Let_def ac_simps)
qed simp

lemma fuzzy_row_edits: "fuzzy_row r pattern (edit_row ts pattern) = edit_row (r # ts) pattern"
  using fuzzy_cells_edits [of r pattern ts "[]"] by (simp add: fuzzy_row_def edit_row_def)

lemma edit_cells_last: "(least_edits ts qs # edit_cells ts qs ps) ! length ps = least_edits ts (rev ps @ qs)"
  by (induction ps arbitrary: qs) simp_all

lemma edit_row_last: "edit_row ts pattern ! length pattern = least_edits ts (rev pattern)"
  using edit_cells_last [of ts "[]" pattern] by (simp add: edit_row_def)

lemma fuzzy_rows_edits:
  "fuzzy_rows pattern threshold (edit_row ts pattern) target \<longleftrightarrow>
     (\<exists>read rest. target = read @ rest \<and> read \<noteq> [] \<and> least_edits (rev read @ ts) (rev pattern) \<le> threshold)"
proof (induction target arbitrary: ts)
  case (Cons r target)
  have split: "(\<exists>read rest. r # target = read @ rest \<and> read \<noteq> [] \<and> P (rev read @ ts)) \<longleftrightarrow>
      P (r # ts) \<or> (\<exists>read rest. target = read @ rest \<and> read \<noteq> [] \<and> P (rev read @ r # ts))" (is "?L \<longleftrightarrow> ?R") for P
  proof
    assume ?L
    then obtain read rest where "target = read @ rest" "P (rev read @ r # ts)"
      by (auto simp: Cons_eq_append_conv)
    then show ?R by (cases "read = []") auto
  next
    have "\<exists>rest. r # target = (r # read) @ rest \<and> P (rev (r # read) @ ts)"
      if "target = read @ rest" "P (rev read @ r # ts)" for read rest
      using that by simp
    then show ?L if ?R using that by (metis append_Nil list.distinct(1) rev.simps(1))
  qed
  show ?case
    unfolding split [where P = "\<lambda>ts. least_edits ts (rev pattern) \<le> threshold"]
    by (simp add: Let_def fuzzy_row_edits edit_row_last Cons.IH)
qed simp

text \<open>What the rows find is a part of the target that so many edits turn into the pattern.\<close>

lemma fuzzy_rows_correct:
  assumes "threshold < length pattern"
  shows "fuzzy_rows pattern threshold [0..<length pattern + 1] target \<longleftrightarrow>
    (\<exists>front part rest n. target = front @ part @ rest \<and> edits n part pattern \<and> n \<le> threshold)"
proof
  assume "fuzzy_rows pattern threshold [0..<length pattern + 1] target"
  then obtain read rest where read: "target = read @ rest" "least_edits (rev read) (rev pattern) \<le> threshold"
    using fuzzy_rows_edits [of pattern threshold "[]" target] by (auto simp: edit_row_start)
  from least_edits_reached [of "rev read" "rev pattern"] obtain xs zs
    where "rev read = xs @ zs" "edits (least_edits (rev read) (rev pattern)) xs (rev pattern)" by blast
  then have "target = rev zs @ rev xs @ rest" "edits (least_edits (rev read) (rev pattern)) (rev xs) pattern"
    using read(1) edits_rev [of _ xs "rev pattern"] by (simp_all add: rev_eq_append_conv)
  with read(2) show "\<exists>front part rest n. target = front @ part @ rest \<and> edits n part pattern \<and> n \<le> threshold" by blast
next
  assume "\<exists>front part rest n. target = front @ part @ rest \<and> edits n part pattern \<and> n \<le> threshold"
  then obtain front part rest n where part: "target = front @ part @ rest" "edits n part pattern" "n \<le> threshold" by blast
  have "part \<noteq> []" using part(2,3) assms edits_length [OF part(2)] by auto
  moreover have "least_edits (rev (front @ part)) (rev pattern) \<le> threshold"
    using least_edits_least [OF edits_rev [OF part(2)], of "rev front"] part(3) by simp
  ultimately have "\<exists>read rest. target = read @ rest \<and> read \<noteq> [] \<and> least_edits (rev read @ []) (rev pattern) \<le> threshold"
    using part(1) by (metis append.assoc append_Nil2 append_is_Nil_conv)
  then show "fuzzy_rows pattern threshold [0..<length pattern + 1] target"
    using fuzzy_rows_edits [of pattern threshold "[]" target] by (simp only: edit_row_start)
qed


section \<open>The search against the edits\<close>

lemma contains_text_iff: "contains_text t word \<longleftrightarrow> (\<exists>x y. t = x @ word @ y)"
proof (induction t)
  case Nil
  then show ?case by (auto simp: contains_text.simps)
next
  case (Cons b t)
  have "take (length word) (b # t) = word \<longleftrightarrow> (\<exists>y. b # t = word @ y)"
    by (metis append_take_drop_id append_eq_conv_conj)
  then have "contains_text (b # t) word \<longleftrightarrow> (\<exists>y. b # t = word @ y) \<or> (\<exists>x y. t = x @ word @ y)"
    by (subst contains_text.simps) (simp add: Cons)
  also have "\<dots> \<longleftrightarrow> (\<exists>x y. b # t = x @ word @ y)"
    by (metis append_Nil append_Cons list.inject neq_Nil_conv)
  finally show ?case .
qed

lemma contains_encoded:
  assumes "list_all scalar ts" "list_all scalar ps" "ps \<noteq> []"
  shows "contains_text (encode_runes ts) (encode_runes ps) \<longleftrightarrow> (\<exists>front rest. ts = front @ ps @ rest)"
proof
  assume "contains_text (encode_runes ts) (encode_runes ps)"
  then obtain x y where "encode_runes ts = x @ encode_runes ps @ y" by (auto simp: contains_text_iff)
  from encode_inside [OF assms this] show "\<exists>front rest. ts = front @ ps @ rest" by blast
next
  assume "\<exists>front rest. ts = front @ ps @ rest"
  then obtain front rest where "encode_runes ts = encode_runes front @ encode_runes ps @ encode_runes rest" by auto
  then show "contains_text (encode_runes ts) (encode_runes ps)" unfolding contains_text_iff by blast
qed

definition near_part :: "nat list \<Rightarrow> nat list \<Rightarrow> bool" where
  "near_part ts ps \<longleftrightarrow> (\<exists>front part rest n. ts = front @ part @ rest \<and> edits n part ps \<and> n \<le> length ps div 4)"

lemma near_part_exact: "ts = front @ ps @ rest \<Longrightarrow> near_part ts ps"
  unfolding near_part_def using edits_same by blast

lemma fuzzy_contains_encoded:
  assumes "list_all scalar ts" "list_all scalar ps"
  shows "fuzzy_contains (encode_runes ts) (encode_runes ps) \<longleftrightarrow> near_part ts ps"
proof (cases "ps = []")
  case True
  then show ?thesis using near_part_exact [of ts "[]" "[]" ts] by (simp add: fuzzy_contains_def)
next
  case nonempty: False
  note exact = contains_encoded [OF assms nonempty]
  show ?thesis
  proof (cases "length ps div 4 = 0")
    case True
    then have "near_part ts ps \<longleftrightarrow> (\<exists>front rest. ts = front @ ps @ rest)"
      by (auto simp: near_part_def edits_zero)
    with True nonempty exact assms show ?thesis by (simp add: fuzzy_contains_def)
  next
    case False
    then have "fuzzy_rows ps (length ps div 4) [0..<length ps + 1] ts \<longleftrightarrow> near_part ts ps"
      unfolding near_part_def by (intro fuzzy_rows_correct) auto
    with False nonempty exact assms near_part_exact show ?thesis
      by (auto simp: fuzzy_contains_def Let_def simp del: upt_Suc)
  qed
qed

section \<open>Normalised text\<close>

lemma halfwidth_scalar: "list_all scalar halfwidth_katakana"
  by (simp add: halfwidth_katakana_def scalar_def)

lemma length_halfwidth: "length halfwidth_katakana = 61"
  by (simp add: halfwidth_katakana_def)

lemma plain_character_scalar: "scalar r \<Longrightarrow> scalar (plain_character r)"
proof -
  have "scalar (halfwidth_katakana ! (r - 0xff61))" if "0xff61 \<le> r" "r \<le> 0xff9d"
    using halfwidth_scalar that by (simp add: list_all_length length_halfwidth)
  then show "scalar r \<Longrightarrow> scalar (plain_character r)" by (auto simp: plain_character_def scalar_def)
qed

lemma lower_ascii_scalar: "scalar r \<Longrightarrow> scalar (lower_ascii cs r)"
  by (auto simp: lower_ascii_def scalar_def)

lemma composed_kana_scalar: "scalar (composed_kana voiced r)"
  by (auto simp: composed_kana_def scalar_def)

lemma compose_kana_scalar:
  "compose_kana value voiced = Some value' \<Longrightarrow> list_all scalar value \<Longrightarrow> list_all scalar value'"
proof -
  assume value': "compose_kana value voiced = Some value'" and scalar: "list_all scalar value"
  have "list_all scalar (butlast value)"
    using scalar by (metis append_butlast_last_id butlast.simps(1) list_all_append)
  then show "list_all scalar value'"
    using value' by (auto simp: compose_kana_def Let_def composed_kana_scalar split: if_splits)
qed

lemma normalize_step_scalar: "list_all scalar result \<Longrightarrow> scalar r \<Longrightarrow> list_all scalar (normalize_step cs result r)"
  by (auto simp: normalize_step_def lower_ascii_scalar plain_character_scalar split: option.split
      dest: compose_kana_scalar) (simp_all add: scalar_def)

lemma normalize_runes_scalar: "list_all scalar rs \<Longrightarrow> list_all scalar (normalize_runes cs rs)"
proof -
  have "list_all scalar (foldl (normalize_step cs) result rs)" if "list_all scalar rs" "list_all scalar result" for result
    using that by (induction rs arbitrary: result) (simp_all add: normalize_step_scalar)
  then show "list_all scalar rs \<Longrightarrow> list_all scalar (normalize_runes cs rs)" by (simp add: normalize_runes_def)
qed

text \<open>The words of a text: its longest parts without white space.\<close>

fun words_from :: "nat list \<Rightarrow> nat list \<Rightarrow> nat list list" where
  "words_from word [] = (if word = [] then [] else [word])"
| "words_from word (r # rs) =
     (if space_rune r then (if word = [] then [] else [word]) @ words_from [] rs else words_from (word @ [r]) rs)"

lemma text_fields_encoded:
  "list_all scalar rs \<Longrightarrow> text_fields_from (encode_runes word) (encode_runes rs) = map encode_runes (words_from word rs)"
proof (induction rs arbitrary: word)
  case Nil
  then show ?case by (simp add: text_fields_from.simps)
next
  case (Cons r rs)
  then have decode: "decode_rune (encode_runes (r # rs)) = (r, length (encode_rune r))" by (simp add: decode_encode_rune)
  show ?case
    using Cons.IH [of "[]"] Cons.IH [of "word @ [r]"] Cons.prems
    by (subst text_fields_from.simps, unfold decode) (simp add: Let_def)
qed

lemma words_scalar: "list_all scalar word \<Longrightarrow> list_all scalar rs \<Longrightarrow> list_all (list_all scalar) (words_from word rs)"
  by (induction word rs rule: words_from.induct) simp_all

text \<open>C25. (equivalence): the fuzzy search finds every word of the keyword exactly when, for each word of
  the normalised keyword, some part of the normalised target becomes the word by replacing, dropping and putting in
  characters, in at most a quarter as many steps as the word has characters.  The table of two rows, the early return,
  the shortcut by bytes and the threshold of zero change nothing, for any bytes given as texts.\<close>

theorem fuzzy_search_correct:
  "list_all (fuzzy_contains (normalize_fuzzy_text target case_sensitive)) (text_fields (normalize_fuzzy_text keyword case_sensitive)) \<longleftrightarrow>
   list_all (near_part (normalize_runes case_sensitive (runes target)))
     (words_from [] (normalize_runes case_sensitive (runes keyword)))"
proof -
  let ?ts = "normalize_runes case_sensitive (runes target)" and ?ps = "normalize_runes case_sensitive (runes keyword)"
  have scalar: "list_all scalar ?ts" "list_all scalar ?ps" by (simp_all add: normalize_runes_scalar runes_scalar)
  then have words: "list_all (list_all scalar) (words_from [] ?ps)" by (simp add: words_scalar)
  have "list_all (\<lambda>ps. fuzzy_contains (encode_runes ?ts) (encode_runes ps)) ws = list_all (near_part ?ts) ws"
    if "list_all (list_all scalar) ws" for ws
    using that by (induction ws) (simp_all add: fuzzy_contains_encoded scalar(1))
  with words show ?thesis
    using text_fields_encoded [OF scalar(2), of "[]"]
    by (simp add: normalize_fuzzy_text_def text_fields_def list.pred_map comp_def)
qed

end
