(* ===== verification/ProgramMatcher.thy ===== *)
theory ProgramMatcher
  imports FuzzyText RecordingTypes
begin

text \<open>
  \<open>internal/core/autoreservation\<close>, \<open>model.go\<close> and \<open>matcher.go\<close>, with the program data of
  \<open>internal/core/catalogmodel\<close> that they read: the conditions of an automatic reservation, their validation, and the
  matcher.  The regular expressions and the lower case of Unicode are functions given to the matcher.
\<close>

section \<open>Programs\<close>

datatype free_access = FreeUnknown | FreeNo | FreeYes

datatype validation = ValidationValid | ValidationProvisional | ValidationInvalid

record extended_item =
  ei_heading :: bytes
  ei_body :: bytes

record genre =
  ge_level1 :: byte
  ge_level2 :: byte
  ge_user1 :: byte
  ge_user2 :: byte

record video =
  vi_stream_content :: byte
  vi_component_type :: byte

record audio =
  au_component_type :: byte
  au_component_tag :: byte
  au_main :: bool
  au_sampling_rate :: u32
  au_languages :: "bytes list"

record program_metadata =
  md_extended :: "extended_item list"
  md_genres :: "genre list"
  md_video :: "video option"
  md_audios :: "audio list"

record revision_material =
  mt_start :: "int option"
  mt_duration :: "int option"
  mt_title :: "bytes option"
  mt_description :: "bytes option"
  mt_free_access :: free_access
  mt_validation :: validation
  mt_metadata :: program_metadata

section \<open>Conditions\<close>

definition max_rules :: nat where "max_rules = 128"
definition max_programs_per_run :: nat where "max_programs_per_run = 32768"
definition max_comparisons_per_run :: nat where "max_comparisons_per_run = 4194304"
definition max_reservations_per_run :: nat where "max_reservations_per_run = 256"

record content_range =
  ct_content :: u16
  ct_user :: u16

record date_range =
  dr_start_day :: byte
  dr_end_day :: byte
  dr_start_hour :: u16
  dr_end_hour :: u16
  dr_start_minute :: u16
  dr_end_minute :: u16

record service_range =
  sv_network_id :: u16
  sv_transport_stream_id :: u16
  sv_service_id :: u16

record search_condition =
  sc_enabled :: bool
  sc_case_sensitive :: bool
  sc_regex :: bool
  sc_title_only :: bool
  sc_fuzzy :: bool
  sc_keyword :: bytes
  sc_exclude :: bytes
  sc_contents :: "content_range list"
  sc_dates :: "date_range list"
  sc_services :: "service_range list"
  sc_video :: "u16 list"
  sc_audio :: "u16 list"
  sc_exclude_contents :: bool
  sc_exclude_dates :: bool
  sc_free_access :: byte
  sc_check_recorded_title :: bool
  sc_check_recorded_all_services :: bool
  sc_check_recorded_days :: u16
  sc_minimum_minutes :: u16
  sc_maximum_minutes :: u16

record folder =
  fo_path :: bytes
  fo_writer :: bytes
  fo_name :: bytes

record recording_settings =
  rs_mode :: byte
  rs_priority :: byte
  rs_suspend :: byte
  rs_partial_mode :: byte
  rs_follow :: bool
  rs_exact :: bool
  rs_reboot :: bool
  rs_continue :: bool
  rs_service_mode :: u32
  rs_tuner_id :: u32
  rs_batch :: bytes
  rs_folders :: "folder list"
  rs_partial_folders :: "folder list"
  rs_start_margin :: "int option"
  rs_end_margin :: "int option"

record rule =
  ru_id :: entity_id
  ru_number :: int
  ru_version :: int
  ru_search :: search_condition
  ru_recording :: recording_settings
  ru_reservation_count :: int
  ru_created :: int
  ru_updated :: int

datatype rule_error =
  InvalidNewRule | InvalidStoredRule | InvalidRuleNumber | InvalidSearchCondition | InvalidDateRange
  | InvalidRecordingSettings | InvalidRecordingMargins | InvalidRecordingFolder

definition valid_rule_text :: "bytes \<Rightarrow> bool" where
  "valid_rule_text v \<longleftrightarrow> valid_string v \<and> length v \<le> 4096"

definition date_range_valid :: "date_range \<Rightarrow> bool" where
  "date_range_valid d \<longleftrightarrow>
     \<not> (dr_start_day d > 6 \<or> dr_end_day d > 6 \<or> dr_start_hour d > 23 \<or> dr_end_hour d > 23 \<or>
        dr_start_minute d > 59 \<or> dr_end_minute d > 59)"

definition margins_in_hour :: "recording_settings \<Rightarrow> bool" where
  "margins_in_hour settings \<longleftrightarrow>
     (case rs_start_margin settings of
        None \<Rightarrow> True
      | Some start \<Rightarrow>
          \<not> (start < -3600 \<or> start > 3600 \<or> the (rs_end_margin settings) < -3600 \<or> the (rs_end_margin settings) > 3600))"

definition validate_values :: "search_condition \<Rightarrow> recording_settings \<Rightarrow> (rule_error, unit) result" where
  "validate_values search settings =
     (if \<not> valid_rule_text (sc_keyword search) \<or> \<not> valid_rule_text (sc_exclude search) \<or>
         length (sc_services search) > 4096 \<or> length (sc_contents search) > 256 \<or> length (sc_dates search) > 64 \<or>
         length (sc_video search) > 256 \<or> length (sc_audio search) > 256 \<or> sc_free_access search > 2 \<or>
         sc_check_recorded_days search > 9999 \<or>
         sc_minimum_minutes search > 0 \<and> sc_maximum_minutes search > 0 \<and> sc_minimum_minutes search > sc_maximum_minutes search
      then Inl InvalidSearchCondition
      else if \<not> list_all date_range_valid (sc_dates search) then Inl InvalidDateRange
      else if rs_mode settings > 9 \<or> rs_priority settings < 1 \<or> rs_priority settings > 5 \<or> rs_suspend settings > 4 \<or>
        \<not> valid_rule_text (rs_batch settings) \<or> length (rs_folders settings) > 16 \<or>
        length (rs_partial_folders settings) > 16 \<or> (rs_start_margin settings = None) \<noteq> (rs_end_margin settings = None)
      then Inl InvalidRecordingSettings
      else if \<not> margins_in_hour settings then Inl InvalidRecordingMargins
      else if \<not> list_all (\<lambda>f. valid_rule_text (fo_path f) \<and> valid_rule_text (fo_writer f) \<and> valid_rule_text (fo_name f))
        (rs_folders settings @ rs_partial_folders settings)
      then Inl InvalidRecordingFolder
      else Inr ())"

definition validate_new_rule :: "rule \<Rightarrow> (rule_error, unit) result" where
  "validate_new_rule r =
     (if ru_id r = 0 \<or> ru_number r \<noteq> 0 \<or> ru_version r \<noteq> 1 \<or> ru_reservation_count r \<noteq> 0 \<or> ru_created r < 0 \<or>
         ru_updated r \<noteq> ru_created r
      then Inl InvalidNewRule else validate_values (ru_search r) (ru_recording r))"

definition validate_stored_rule :: "rule \<Rightarrow> (rule_error, unit) result" where
  "validate_stored_rule r =
     (if ru_id r = 0 \<or> ru_number r < 1 \<or> ru_version r < 1 \<or> ru_reservation_count r < 0 \<or> ru_created r < 0 \<or>
         ru_updated r < ru_created r
      then Inl InvalidStoredRule else validate_values (ru_search r) (ru_recording r))"

definition validate_change :: "int \<Rightarrow> search_condition \<Rightarrow> recording_settings \<Rightarrow> (rule_error, unit) result" where
  "validate_change number search settings =
     (if number < 1 then Inl InvalidRuleNumber else validate_values search settings)"

section \<open>The matcher\<close>

text \<open>The functions of the libraries: \<open>regexp.Compile\<close> with \<open>MatchString\<close>, and \<open>strings.ToLower\<close>.\<close>

record text_library =
  tl_compile :: "bytes \<Rightarrow> (bytes \<Rightarrow> bool) option"
  tl_lower :: "bytes \<Rightarrow> bytes"

record program_matcher =
  pm_search :: search_condition
  pm_keyword :: "(bytes \<Rightarrow> bool) option"
  pm_exclude :: "(bytes \<Rightarrow> bool) option"

definition compile_pattern :: "text_library \<Rightarrow> bytes \<Rightarrow> bool \<Rightarrow> (unit, (bytes \<Rightarrow> bool) option) result" where
  "compile_pattern lib v case_sensitive =
     (if v = [] then Inr None
      else
        case tl_compile lib (if case_sensitive then v else ascii ''(?i:'' @ v @ ascii '')'') of
          None \<Rightarrow> Inl ()
        | Some re \<Rightarrow> Inr (Some re))"

definition prepare_program_matcher :: "text_library \<Rightarrow> search_condition \<Rightarrow> (unit, program_matcher) result" where
  "prepare_program_matcher lib search =
     (let matcher = \<lparr>pm_search = search, pm_keyword = None, pm_exclude = None\<rparr> in
      if \<not> sc_regex search then Inr matcher
      else
        case compile_pattern lib (sc_keyword search) (sc_case_sensitive search) of
          Inl e \<Rightarrow> Inl ()
        | Inr keyword \<Rightarrow>
            case compile_pattern lib (sc_exclude search) (sc_case_sensitive search) of
              Inl e \<Rightarrow> Inl ()
            | Inr exclude \<Rightarrow> Inr (matcher\<lparr>pm_keyword := keyword, pm_exclude := exclude\<rparr>))"

definition newline :: byte where
  "newline = 0x0a"

definition search_target :: "search_condition \<Rightarrow> revision_material \<Rightarrow> bytes" where
  "search_target search material =
     (case mt_title material of None \<Rightarrow> [] | Some title \<Rightarrow> title) @
     (if sc_title_only search then []
      else
        (case mt_description material of None \<Rightarrow> [] | Some d \<Rightarrow> newline # d) @
        concat (map (\<lambda>item. newline # ei_heading item @ newline # ei_body item) (md_extended (mt_metadata material))))"

definition matches_text :: "text_library \<Rightarrow> program_matcher \<Rightarrow> revision_material \<Rightarrow> bool" where
  "matches_text lib m material =
     (let search = pm_search m; keyword = sc_keyword search; exclude = sc_exclude search; cs = sc_case_sensitive search in
      if keyword = [] \<and> exclude = [] then True
      else
        let target = search_target search material; lower = (if cs then (\<lambda>v. v) else tl_lower lib) in
        if sc_regex search then
          (case pm_keyword m of None \<Rightarrow> True | Some re \<Rightarrow> re target) \<and> (case pm_exclude m of None \<Rightarrow> True | Some re \<Rightarrow> \<not> re target)
        else if sc_fuzzy search then
          list_all (fuzzy_contains (normalize_fuzzy_text target cs)) (text_fields (normalize_fuzzy_text keyword cs)) \<and>
          list_all (\<lambda>word. \<not> contains_text (lower target) word) (text_fields (lower exclude))
        else
          list_all (contains_text (lower target)) (text_fields (lower keyword)) \<and>
          list_all (\<lambda>word. \<not> contains_text (lower target) word) (text_fields (lower exclude)))"

text \<open>One content condition: no genre at all, or a genre of its two levels, with the user levels of an extension.\<close>

definition low_byte :: "u16 \<Rightarrow> byte" where "low_byte v = ucast v"
definition high_byte :: "u16 \<Rightarrow> byte" where "high_byte v = ucast (drop_bit 8 v)"

definition matches_content :: "content_range \<Rightarrow> program_metadata \<Rightarrow> bool" where
  "matches_content condition metadata =
     (let level1 = low_byte (ct_content condition); level2 = high_byte (ct_content condition);
          user1 = low_byte (ct_user condition); user2 = high_byte (ct_user condition) in
      if level1 = 0xff \<and> level2 = 0xff then md_genres metadata = []
      else
        list_ex (\<lambda>genre.
          \<not> (ge_level1 genre \<noteq> level1 \<or> level2 \<noteq> 0xff \<and> ge_level2 genre \<noteq> level2) \<and>
          \<not> (level1 = 0x0e \<and> (ge_user1 genre \<noteq> user1 \<or> ge_user2 genre \<noteq> user2))) (md_genres metadata))"

definition matches_contents :: "program_matcher \<Rightarrow> program_metadata \<Rightarrow> bool" where
  "matches_contents m metadata =
     (let contents = sc_contents (pm_search m) in
      if contents = [] then True
      else list_ex (\<lambda>condition. matches_content condition metadata) contents \<noteq> sc_exclude_contents (pm_search m))"

definition contains_component :: "u16 list \<Rightarrow> byte \<Rightarrow> byte \<Rightarrow> bool" where
  "contains_component conditions stream_content component_type \<longleftrightarrow>
     list_ex (\<lambda>condition. condition = push_bit 8 (ucast stream_content) OR ucast component_type) conditions"

definition matches_components :: "program_matcher \<Rightarrow> program_metadata \<Rightarrow> bool" where
  "matches_components m metadata =
     (let search = pm_search m in
      if sc_video search \<noteq> [] \<and>
         (case md_video metadata of
            None \<Rightarrow> True
          | Some v \<Rightarrow> \<not> contains_component (sc_video search) (vi_stream_content v) (vi_component_type v))
      then False
      else if sc_audio search \<noteq> []
      then list_ex (\<lambda>a. contains_component (sc_audio search) 2 (au_component_type a)) (md_audios metadata)
      else True)"

text \<open>The minute of the week in Japan, and the range of a condition from its start up to its end.\<close>

definition from_milli :: "int \<Rightarrow> instant" where
  "from_milli ms = \<lparr>t_nanos = ms * millisecond, t_utc = False\<rparr>"

definition week_minute :: "instant \<Rightarrow> int" where
  "week_minute t =
     weekday_of (local_days japan_offset t) * 24 * 60 + local_clock japan_offset t div hour * 60 +
     local_clock japan_offset t div minute mod 60"

definition range_from :: "date_range \<Rightarrow> int" where
  "range_from d = uint (dr_start_day d) * 24 * 60 + uint (dr_start_hour d) * 60 + uint (dr_start_minute d)"

definition range_to :: "date_range \<Rightarrow> int" where
  "range_to d = uint (dr_end_day d) * 24 * 60 + uint (dr_end_hour d) * 60 + uint (dr_end_minute d)"

definition in_date_range :: "int \<Rightarrow> date_range \<Rightarrow> bool" where
  "in_date_range m d =
     (let start = range_from d; stop = range_to d in
      start = stop \<or> start < stop \<and> m \<ge> start \<and> m < stop \<or> start > stop \<and> (m \<ge> start \<or> m < stop))"

definition matches_date :: "program_matcher \<Rightarrow> revision_material \<Rightarrow> bool" where
  "matches_date m material =
     (let dates = sc_dates (pm_search m) in
      if dates = [] then True
      else
        case mt_start material of
          None \<Rightarrow> False
        | Some ms \<Rightarrow>
            if ms < 0 then False
            else list_ex (in_date_range (week_minute (from_milli ms))) dates \<noteq> sc_exclude_dates (pm_search m))"

definition matches_duration :: "program_matcher \<Rightarrow> revision_material \<Rightarrow> bool" where
  "matches_duration m material =
     (let least = sc_minimum_minutes (pm_search m); most = sc_maximum_minutes (pm_search m) in
      if least = 0 \<and> most = 0 then True
      else
        case mt_duration material of
          None \<Rightarrow> False
        | Some ms \<Rightarrow>
            if ms < 0 then False
            else (least = 0 \<or> ms div 60000 \<ge> uint least) \<and> (most = 0 \<or> ms div 60000 \<le> uint most))"

definition matches_free_access :: "program_matcher \<Rightarrow> revision_material \<Rightarrow> bool" where
  "matches_free_access m material =
     (if sc_free_access (pm_search m) = 0 then True
      else if sc_free_access (pm_search m) = 1 then mt_free_access material = FreeYes
      else if sc_free_access (pm_search m) = 2 then mt_free_access material = FreeNo
      else False)"

definition matches_program :: "text_library \<Rightarrow> program_matcher \<Rightarrow> revision_material \<Rightarrow> bool" where
  "matches_program lib m material \<longleftrightarrow>
     sc_enabled (pm_search m) \<and> matches_text lib m material \<and> matches_date m material \<and> matches_duration m material \<and>
     matches_free_access m material \<and> matches_contents m (mt_metadata material) \<and> matches_components m (mt_metadata material)"

section \<open>Dates of a week\<close>

lemma range_bounds:
  assumes "date_range_valid d"
  shows "0 \<le> range_from d \<and> range_from d < 10080" "0 \<le> range_to d \<and> range_to d < 10080"
  using assms by (auto simp: date_range_valid_def range_from_def range_to_def word_le_def word_less_def not_less)

lemma in_range_cyclic:
  assumes "0 \<le> a" "a < n" "0 \<le> b" "b < n" "0 \<le> m" "m < (n :: int)"
  shows "(a = b \<or> a < b \<and> m \<ge> a \<and> m < b \<or> a > b \<and> (m \<ge> a \<or> m < b)) \<longleftrightarrow> a = b \<or> (m - a) mod n < (b - a) mod n"
proof -
  have "x mod n = (if x < 0 then x + n else x)" if "- n < x" "x < n" for x
    using that mod_pos_pos_trivial [of "x + n" n] mod_pos_pos_trivial [of x n] by auto
  then have "(m - a) mod n = (if m < a then m - a + n else m - a)" "(b - a) mod n = (if b < a then b - a + n else b - a)"
    using assms by auto
  then show ?thesis using assms by auto
qed

lemma div_of_mod:
  assumes "0 < b" "0 < (c :: int)"
  shows "n mod (b * c) div b = n div b mod c"
  using assms by (simp add: zmod_zmult2_eq)

text \<open>With the quotients by a minute.\<close>

lemma week_minute_total:
  assumes "minutes_in = (t_nanos t + japan_offset) div minute"
  shows "week_minute t = (minutes_in + 4 * 1440) mod 10080"
proof -
  define n where "n = t_nanos t + japan_offset"
  have minutes_in: "minutes_in = n div minute" using assms by (simp add: n_def)
  have days: "n div day = minutes_in div 1440" unfolding minutes_in by (simp add: zdiv_zmult2_eq [symmetric])
  have hours: "n mod day div hour = minutes_in div 60 mod 24"
  proof -
    have "n mod day div hour = n div hour mod 24" using div_of_mod [of hour 24 n] by simp
    moreover have "n div hour = minutes_in div 60" unfolding minutes_in by (simp add: zdiv_zmult2_eq [symmetric])
    ultimately show ?thesis by simp
  qed
  have minutes: "n mod day div minute mod 60 = minutes_in mod 60"
  proof -
    have "n mod day div minute = minutes_in mod 1440" using div_of_mod [of minute 1440 n] by (simp add: minutes_in)
    then show ?thesis by (simp add: mod_mod_cancel)
  qed
  have rest: "minutes_in div 60 mod 24 * 60 + minutes_in mod 60 = minutes_in mod 1440"
    using zmod_zmult2_eq [of 24 minutes_in 60] by simp
  have "(minutes_in + 5760) mod 10080 = 1440 * ((minutes_in + 5760) div 1440 mod 7) + (minutes_in + 5760) mod 1440"
    using zmod_zmult2_eq [of 7 "minutes_in + 5760" 1440] by simp
  moreover have "(minutes_in + 5760) div 1440 = minutes_in div 1440 + 4" "(minutes_in + 5760) mod 1440 = minutes_in mod 1440"
    using mod_mult_self2 [of minutes_in 1440 4] by simp_all
  ultimately show ?thesis
    using rest days hours minutes
    by (simp add: week_minute_def local_days_def local_clock_def weekday_of_def n_def [symmetric])
qed

lemma week_minute_milli: "week_minute (from_milli ms) = (ms div 60000 + 6300) mod 10080"
proof -
  have "(t_nanos (from_milli ms) + japan_offset) = (ms + 540 * 60000) * millisecond"
    by (simp add: from_milli_def japan_offset_def)
  also have "\<dots> div minute = (ms + 540 * 60000) div 60000" by simp
  also have "\<dots> = ms div 60000 + 540" by simp
  finally show ?thesis by (simp add: week_minute_total [OF refl] ac_simps)
qed

text \<open>A program is found by its date exactly when the minute of its start lies in one of
  the ranges of the week, taken around the end of the week (a range that ends where it starts is the whole week), or in
  none of them when the ranges are excluded.  The minutes count from Sunday midnight in Japan.\<close>

theorem dates_are_cyclic:
  assumes "list_all date_range_valid (sc_dates (pm_search m))" "sc_dates (pm_search m) \<noteq> []"
    and "mt_start material = Some ms" "0 \<le> ms"
  shows "matches_date m material \<longleftrightarrow>
    (list_ex (\<lambda>d. range_from d = range_to d \<or>
       (ms div 60000 + 6300 - range_from d) mod 10080 < (range_to d - range_from d) mod 10080) (sc_dates (pm_search m)))
    \<noteq> sc_exclude_dates (pm_search m)"
proof -
  have "in_date_range (week_minute (from_milli ms)) d \<longleftrightarrow> range_from d = range_to d \<or>
      (ms div 60000 + 6300 - range_from d) mod 10080 < (range_to d - range_from d) mod 10080" if "date_range_valid d" for d
  proof -
    have "in_date_range (week_minute (from_milli ms)) d \<longleftrightarrow> range_from d = range_to d \<or>
        ((ms div 60000 + 6300) mod 10080 - range_from d) mod 10080 < (range_to d - range_from d) mod 10080"
      unfolding in_date_range_def Let_def week_minute_milli
      by (rule in_range_cyclic) (use range_bounds [OF that] in auto)
    then show ?thesis by (simp add: mod_diff_left_eq)
  qed
  then have "list_ex (in_date_range (week_minute (from_milli ms))) ds = list_ex (\<lambda>d. range_from d = range_to d \<or>
       (ms div 60000 + 6300 - range_from d) mod 10080 < (range_to d - range_from d) mod 10080) ds"
    if "list_all date_range_valid ds" for ds
    using that by (induction ds) simp_all
  with assms show ?thesis by (simp add: matches_date_def Let_def)
qed

text \<open>From Friday 23:30 to Monday 1:00, for a program on Sunday 2023-11-05 at 12:00 in Japan.\<close>

definition weekend :: program_matcher where
  "weekend = \<lparr>pm_search = \<lparr>sc_enabled = True, sc_case_sensitive = True, sc_regex = False, sc_title_only = True, sc_fuzzy = False,
     sc_keyword = [], sc_exclude = [], sc_contents = [],
     sc_dates = [\<lparr>dr_start_day = 5, dr_end_day = 1, dr_start_hour = 23, dr_end_hour = 1, dr_start_minute = 30, dr_end_minute = 0\<rparr>],
     sc_services = [], sc_video = [], sc_audio = [], sc_exclude_contents = False, sc_exclude_dates = False,
     sc_free_access = 0, sc_check_recorded_title = False, sc_check_recorded_all_services = False,
     sc_check_recorded_days = 0, sc_minimum_minutes = 0, sc_maximum_minutes = 0\<rparr>, pm_keyword = None, pm_exclude = None\<rparr>"

definition sunday_noon :: revision_material where
  "sunday_noon = \<lparr>mt_start = Some 1699153200000, mt_duration = Some 1800000, mt_title = None, mt_description = None,
     mt_free_access = FreeUnknown, mt_validation = ValidationValid,
     mt_metadata = \<lparr>md_extended = [], md_genres = [], md_video = None, md_audios = []\<rparr>\<rparr>"

theorem dates_are_cyclic_witness: "matches_date weekend sunday_noon"
  by (subst dates_are_cyclic [of weekend sunday_noon 1699153200000])
    (simp_all add: weekend_def sunday_noon_def date_range_valid_def range_from_def range_to_def)

end
