(* ===== verification/AutoReservation.thy ===== *)
theory AutoReservation
  imports ProgramMatcher RecordingResults Effects
begin

text \<open>
  \<open>internal/app/autoreservation\<close>: \<open>rules.go\<close>, \<open>recorded_titles.go\<close> and \<open>evaluator.go\<close>.  The evaluator goes through
  the programs of the coming eight days and reserves each one by the first rule that finds it.  The store, the
  catalog and the clock are functions over an unknown state; the counts of a run are kept beside it, since a run that
  fails returns them too.
\<close>

section \<open>The settings of a rule\<close>

abbreviation post_recording_nothing :: post_recording_mode where "post_recording_nothing \<equiv> 1"
abbreviation post_recording_standby_reboot :: post_recording_mode where "post_recording_standby_reboot \<equiv> 3"
abbreviation post_recording_suspend :: post_recording_mode where "post_recording_suspend \<equiv> 4"
abbreviation post_recording_suspend_reboot :: post_recording_mode where "post_recording_suspend_reboot \<equiv> 5"

definition automatic_post_recording_mode :: "byte \<Rightarrow> bool \<Rightarrow> post_recording_mode option" where
  "automatic_post_recording_mode suspend reboot =
     (if suspend = 0 \<and> \<not> reboot then Some 0
      else if suspend = 4 \<and> \<not> reboot then Some post_recording_nothing
      else if suspend = 1 \<and> \<not> reboot then Some post_recording_standby
      else if suspend = 1 \<and> reboot then Some post_recording_standby_reboot
      else if suspend = 2 \<and> \<not> reboot then Some post_recording_suspend
      else if suspend = 2 \<and> reboot then Some post_recording_suspend_reboot
      else if suspend = 3 \<and> \<not> reboot then Some post_recording_shutdown
      else None)"

definition automatic_component_mode :: "u32 \<Rightarrow> component_mode option" where
  "automatic_component_mode v =
     (if v AND NOT 0x31 \<noteq> 0 then None
      else if v AND 0x01 = 0 then Some component_default
      else Some (explicit_component_mode (v AND 0x10 \<noteq> 0) (v AND 0x20 \<noteq> 0)))"

definition macro_plugin :: bytes where
  "macro_plugin = ascii ''RecName_Macro.dll''"

definition default_writer :: bytes where
  "default_writer = ascii ''Write_Default.dll''"

text \<open>The template after the name of the plugin, which stands alone or before a question mark.\<close>

definition plugin_template :: "bytes \<Rightarrow> bytes option" where
  "plugin_template name =
     (let prefix = macro_plugin @ ascii ''?'' in
      if name = macro_plugin then Some []
      else if take (length prefix) name = prefix \<and> length name > length macro_plugin + 1 then Some (drop (length prefix) name)
      else None)"

definition folder_output :: "folder \<Rightarrow> bytes \<Rightarrow> output_settings option" where
  "folder_output folder template =
     (let out = \<lparr>o_folder = fo_path folder, o_template = template\<rparr> in
      if output_settings_valid out then Some out else None)"

definition automatic_output_settings :: "recording_settings \<Rightarrow> output_settings option" where
  "automatic_output_settings settings =
     (case rs_folders settings of
        [] \<Rightarrow> Some \<lparr>o_folder = [], o_template = []\<rparr>
      | [folder] \<Rightarrow>
          if fo_writer folder \<noteq> default_writer then None
          else Option.bind (plugin_template (fo_name folder)) (folder_output folder)
      | _ \<Rightarrow> None)"

definition automatic_one_seg_folder :: "folder \<Rightarrow> output_settings option" where
  "automatic_one_seg_folder folder =
     (if fo_writer folder \<noteq> [] \<and> fo_writer folder \<noteq> default_writer then None
      else Option.bind (if fo_name folder = [] then Some [] else plugin_template (fo_name folder)) (folder_output folder))"

text \<open>\<open>None\<close>: not supported; otherwise the settings of the one-seg file, if there is to be one.\<close>

definition automatic_one_seg_output_settings :: "recording_settings \<Rightarrow> output_settings option option" where
  "automatic_one_seg_output_settings settings =
     (if rs_partial_mode settings > 1 then None
      else
        Option.bind
          (case rs_partial_folders settings of
             [] \<Rightarrow> Some \<lparr>o_folder = [], o_template = []\<rparr>
           | [folder] \<Rightarrow> automatic_one_seg_folder folder
           | _ \<Rightarrow> None)
          (\<lambda>out. if rs_partial_mode settings = 0
             then (if out = \<lparr>o_folder = [], o_template = []\<rparr> then Some None else None)
             else Some (Some out)))"

definition match_service :: "service_range list \<Rightarrow> reservation_request \<Rightarrow> bool" where
  "match_service services request \<longleftrightarrow>
     services = [] \<or>
     list_ex (\<lambda>sv. sv_network_id sv = rq_network_id request \<and>
       sv_transport_stream_id sv = rq_transport_stream_id request \<and> sv_service_id sv = rq_service_id request) services"

section \<open>Programs of the catalog\<close>

datatype classification = SameContent | VerifiedSuccessor | Ambiguous | NewInstance | InvalidProgram

record current_program =
  cp_instance_id :: entity_id
  cp_revision_id :: entity_id
  cp_service_locator :: bytes
  cp_event_locator :: bytes
  cp_raw_event_id :: "int option"
  cp_revision_number :: int
  cp_hash :: bytes
  cp_material :: revision_material
  cp_classification :: classification

type_synonym program_cursor = "bytes \<times> bytes"

definition max_query_page :: nat where "max_query_page = 256"
definition max_program_operation :: nat where "max_program_operation = 262144"
definition max_history_page :: nat where "max_history_page = 256"
definition max_history_items :: nat where "max_history_items = 16384"

text \<open>\<open>strings.Compare\<close> is negative.\<close>

fun text_less :: "bytes \<Rightarrow> bytes \<Rightarrow> bool" where
  "text_less v [] = False"
| "text_less [] (b # bs) = True"
| "text_less (a # as) (b # bs) \<longleftrightarrow> a < b \<or> a = b \<and> text_less as bs"

definition cursor_less :: "program_cursor \<Rightarrow> program_cursor \<Rightarrow> bool" where
  "cursor_less l r \<longleftrightarrow> text_less (fst l) (fst r) \<or> fst l = fst r \<and> text_less (snd l) (snd r)"

definition program_in_window :: "current_program \<Rightarrow> instant \<Rightarrow> instant \<Rightarrow> bool" where
  "program_in_window program start stop \<longleftrightarrow>
     (case (mt_start (cp_material program), mt_duration (cp_material program), mt_title (cp_material program)) of
        (Some ms, Some duration, Some title) \<Rightarrow>
          mt_validation (cp_material program) = ValidationValid \<and> ms \<ge> unix_milli start \<and> ms < unix_milli stop \<and>
          duration \<ge> 1000 \<and> duration \<le> (24 * hour) div millisecond
      | _ \<Rightarrow> False)"

section \<open>The environment of a run\<close>

datatype create_answer = ReservationCreated | ReservationDuplicate | ReservationRefused

record 's evaluator =
  av_text :: text_library
  av_now :: "'s \<Rightarrow> instant \<times> 's"
  av_live :: "'s \<Rightarrow> bool \<times> 's"
  av_new_id :: "'s \<Rightarrow> entity_id option \<times> 's"
  av_rules :: "nat \<Rightarrow> int \<Rightarrow> 's \<Rightarrow> rule list option \<times> 's"
  av_history :: "nat \<Rightarrow> int \<Rightarrow> 's \<Rightarrow> history_item list option \<times> 's"
  av_create :: "int \<Rightarrow> reservation \<Rightarrow> 's \<Rightarrow> create_answer \<times> 's"
  av_disable :: "entity_id \<Rightarrow> instant \<Rightarrow> 's \<Rightarrow> bool option \<times> 's"
  av_programs :: "nat \<Rightarrow> program_cursor \<Rightarrow> 's \<Rightarrow> current_program list option \<times> 's"
  av_request :: "current_program \<Rightarrow> byte \<Rightarrow> bool \<Rightarrow> 's \<Rightarrow> reservation_request option \<times> 's"
  av_find :: "reservation_request \<Rightarrow> 's \<Rightarrow> program_snapshot option \<times> 's"
  av_one_seg :: "program_snapshot \<Rightarrow> 's \<Rightarrow> bytes option \<times> 's"
  av_script :: "(bytes \<Rightarrow> 's \<Rightarrow> bool \<times> 's) option"
  av_changed :: "('s \<Rightarrow> 's) option"

text \<open>The counts of a run.\<close>

record tally =
  ta_rules :: nat
  ta_programs :: nat
  ta_comparisons :: nat
  ta_matched :: nat
  ta_created :: nat
  ta_duplicates :: nat
  ta_recorded_title_matches :: nat
  ta_unavailable_rules :: nat
  ta_forced_tuner_unavailable_rules :: nat
  ta_one_seg_unavailable_rules :: nat
  ta_one_seg_unresolved_programs :: nat
  ta_limit_reached :: bool

definition empty_tally :: tally where
  "empty_tally = \<lparr>ta_rules = 0, ta_programs = 0, ta_comparisons = 0, ta_matched = 0, ta_created = 0, ta_duplicates = 0,
     ta_recorded_title_matches = 0, ta_unavailable_rules = 0, ta_forced_tuner_unavailable_rules = 0,
     ta_one_seg_unavailable_rules = 0, ta_one_seg_unresolved_programs = 0, ta_limit_reached = False\<rparr>"

datatype evaluation_error =
  EvaluationClockInvalid | RulesUnreadable | RuleOrderInvalid | EvaluationCancelled | HistoryUnreadable
  | HistoryOrderInvalid | HistoryLimitExceeded | ProgramsUnreadable | ProgramOrderInvalid | ProgramLimitExceeded
  | EvaluationLimitExceeded | EvaluationIdFailed | DisableFailed | CreateFailed | PagesWithoutEnd

record 's evaluation =
  ev_world :: 's
  ev_tally :: tally

type_synonym ('s, 'a) evaluating = "('s evaluation, evaluation_error, 'a) act"

definition ask :: "('s \<Rightarrow> 'a \<times> 's) \<Rightarrow> ('s, 'a) evaluating" where
  "ask f e = (case f (ev_world e) of (x, s) \<Rightarrow> (Inr x, e\<lparr>ev_world := s\<rparr>))"

definition count_up :: "(tally \<Rightarrow> tally) \<Rightarrow> ('s, unit) evaluating" where
  "count_up f = act_modify (\<lambda>e. e\<lparr>ev_tally := f (ev_tally e)\<rparr>)"

definition notify_change :: "'s evaluator \<Rightarrow> ('s, unit) evaluating" where
  "notify_change av = (case av_changed av of None \<Rightarrow> act_return () | Some f \<Rightarrow> ask (\<lambda>s. ((), f s)))"

section \<open>Reading in pages\<close>

text \<open>The rules of one page: their numbers rise, there are at most 128 of them, and each is valid.\<close>

fun take_rules :: "rule list \<Rightarrow> int \<Rightarrow> rule list \<Rightarrow> (rule list \<times> int) option" where
  "take_rules [] after result = Some (result, after)"
| "take_rules (r # page) after result =
     (if ru_number r \<le> after \<or> length result = max_rules \<or> \<not> is_ok (validate_stored_rule r) then None
      else take_rules page (ru_number r) (result @ [r]))"

primrec read_rules_from :: "nat \<Rightarrow> 's evaluator \<Rightarrow> int \<Rightarrow> rule list \<Rightarrow> ('s, rule list) evaluating" where
  "read_rules_from 0 av after result = act_fail PagesWithoutEnd"
| "read_rules_from (Suc fuel) av after result =
     act_bind (ask (av_rules av 128 after)) (\<lambda>answer.
       case answer of
         None \<Rightarrow> act_fail RulesUnreadable
       | Some page \<Rightarrow>
           if length page > 128 then act_fail RulesUnreadable
           else
             case take_rules page after result of
               None \<Rightarrow> act_fail RuleOrderInvalid
             | Some (result, after) \<Rightarrow>
                 if length page < 128 then act_return result else read_rules_from fuel av after result)"

definition read_rules :: "'s evaluator \<Rightarrow> ('s, rule list) evaluating" where
  "read_rules av = read_rules_from 2 av 0 []"

text \<open>
  All programs in the order of the catalog, for a visitor that keeps a value; \<open>seen\<close> counts them over all pages.
\<close>

primrec visit_programs ::
    "('a \<Rightarrow> current_program \<Rightarrow> ('s, 'a) evaluating) \<Rightarrow> current_program list \<Rightarrow> program_cursor \<Rightarrow> nat \<Rightarrow> 'a
      \<Rightarrow> ('s, program_cursor \<times> nat \<times> 'a) evaluating" where
  "visit_programs visit [] cursor seen x = act_return (cursor, seen, x)"
| "visit_programs visit (p # page) cursor seen x =
     (let following = (cp_service_locator p, cp_event_locator p) in
      if \<not> cursor_less cursor following \<or> seen = max_program_operation then act_fail ProgramOrderInvalid
      else act_bind (visit x p) (\<lambda>x. visit_programs visit page following (seen + 1) x))"

primrec each_program_from ::
    "nat \<Rightarrow> 's evaluator \<Rightarrow> ('a \<Rightarrow> current_program \<Rightarrow> ('s, 'a) evaluating) \<Rightarrow> program_cursor \<Rightarrow> nat \<Rightarrow> 'a
      \<Rightarrow> ('s, 'a) evaluating" where
  "each_program_from 0 av visit cursor seen x = act_fail PagesWithoutEnd"
| "each_program_from (Suc fuel) av visit cursor seen x =
     act_bind (ask (av_live av)) (\<lambda>live.
       if \<not> live then act_fail EvaluationCancelled
       else act_bind (ask (av_programs av max_query_page cursor)) (\<lambda>answer.
         case answer of
           None \<Rightarrow> act_fail ProgramsUnreadable
         | Some page \<Rightarrow>
             if length page > max_query_page then act_fail ProgramsUnreadable
             else act_bind (visit_programs visit page cursor seen x) (\<lambda>(cursor, seen, x).
               if length page < max_query_page then act_return x
               else each_program_from fuel av visit cursor seen x)))"

text \<open>A full page has 256 programs, and there are at most 262144.\<close>

definition program_pages :: nat where
  "program_pages = max_program_operation div max_query_page + 2"

definition for_each_program ::
    "'s evaluator \<Rightarrow> ('a \<Rightarrow> current_program \<Rightarrow> ('s, 'a) evaluating) \<Rightarrow> 'a \<Rightarrow> ('s, 'a) evaluating" where
  "for_each_program av visit x = each_program_from program_pages av visit ([], []) 0 x"

definition count_programs :: "'s evaluator \<Rightarrow> instant \<Rightarrow> instant \<Rightarrow> ('s, nat) evaluating" where
  "count_programs av start stop =
     for_each_program av (\<lambda>count program.
       if program_in_window program start stop
       then (if count + 1 > max_programs_per_run then act_fail ProgramLimitExceeded else act_return (count + 1))
       else act_return count) 0"

section \<open>Titles already recorded\<close>

record title_index =
  ix_all_services :: "bytes \<rightharpoonup> int"
  ix_same_service :: "(bytes \<times> u16 \<times> u16 \<times> u16) \<rightharpoonup> int"

definition empty_index :: title_index where
  "empty_index = \<lparr>ix_all_services = (\<lambda>_. None), ix_same_service = (\<lambda>_. None)\<rparr>"

definition keep_latest :: "'k \<Rightarrow> int \<Rightarrow> ('k \<rightharpoonup> int) \<Rightarrow> ('k \<rightharpoonup> int)" where
  "keep_latest k start m = (case m k of Some current \<Rightarrow> if start > current then m(k \<mapsto> start) else m | None \<Rightarrow> m(k \<mapsto> start))"

definition index_item :: "history_item \<Rightarrow> title_index \<Rightarrow> title_index" where
  "index_item item index =
     (if h_title item = [] then index
      else
        let start = unix_milli (h_planned_start item) in
        \<lparr>ix_all_services = keep_latest (h_title item) start (ix_all_services index),
         ix_same_service = keep_latest (h_title item, h_network_id item, h_transport_stream_id item, h_service_id item) start
           (ix_same_service index)\<rparr>)"

fun take_history ::
    "history_item list \<Rightarrow> int \<Rightarrow> nat \<Rightarrow> title_index \<Rightarrow> (evaluation_error, int \<times> nat \<times> title_index) result" where
  "take_history [] previous count index = Inr (previous, count, index)"
| "take_history (item # page) previous count index =
     (if \<not> is_ok (validate_history item) \<or> previous \<noteq> 0 \<and> h_number item \<ge> previous then Inl HistoryOrderInvalid
      else if count + 1 > max_history_items then Inl HistoryLimitExceeded
      else take_history page (h_number item) (count + 1) (index_item item index))"

primrec load_history :: "nat \<Rightarrow> 's evaluator \<Rightarrow> int \<Rightarrow> nat \<Rightarrow> title_index \<Rightarrow> ('s, title_index) evaluating" where
  "load_history 0 av before count index = act_fail PagesWithoutEnd"
| "load_history (Suc fuel) av before count index =
     act_bind (ask (av_live av)) (\<lambda>live.
       if \<not> live then act_fail EvaluationCancelled
       else act_bind (ask (av_history av max_history_page before)) (\<lambda>answer.
         case answer of
           None \<Rightarrow> act_fail HistoryUnreadable
         | Some page \<Rightarrow>
             if length page > max_history_page then act_fail HistoryUnreadable
             else
               case take_history page before count index of
                 Inl e \<Rightarrow> act_fail e
               | Inr (before, count, index) \<Rightarrow>
                   if length page < max_history_page then act_return index else load_history fuel av before count index))"

definition history_pages :: nat where
  "history_pages = max_history_items div max_history_page + 2"

text \<open>Whether a title was recorded in the days before; without history nothing was.\<close>

definition title_recorded :: "title_index \<Rightarrow> search_condition \<Rightarrow> reservation_request \<Rightarrow> current_program \<Rightarrow> bool" where
  "title_recorded index search request program \<longleftrightarrow>
     sc_check_recorded_title search \<and> sc_check_recorded_days search \<noteq> 0 \<and>
     (case mt_title (cp_material program) of
        None \<Rightarrow> False
      | Some title \<Rightarrow>
          title \<noteq> [] \<and>
          (let lower = unix_milli (add_duration (rq_start request) (- (uint (sc_check_recorded_days search) * 24 * hour)));
               found = (if sc_check_recorded_all_services search then ix_all_services index title
                        else ix_same_service index
                          (title, rq_network_id request, rq_transport_stream_id request, rq_service_id request))
           in case found of None \<Rightarrow> False | Some start \<Rightarrow> start > lower))"

section \<open>Rules made ready\<close>

record prepared_rule =
  pu_rule :: rule
  pu_matcher :: "program_matcher option"
  pu_skip :: bool
  pu_unavailable :: bool
  pu_forced_tuner :: bool
  pu_one_seg :: "output_settings option"
  pu_one_seg_unavailable :: bool
  pu_post :: post_recording_settings

definition fresh_rule :: "rule \<Rightarrow> prepared_rule" where
  "fresh_rule r = \<lparr>pu_rule = r, pu_matcher = None, pu_skip = False, pu_unavailable = False, pu_forced_tuner = False,
     pu_one_seg = None, pu_one_seg_unavailable = False, pu_post = \<lparr>pr_mode = 0, pr_script = []\<rparr>\<rparr>"

definition script_allowed :: "'s evaluator \<Rightarrow> bytes \<Rightarrow> ('s, bool) evaluating" where
  "script_allowed av script =
     (if script = [] then act_return True
      else case av_script av of None \<Rightarrow> act_return False | Some check \<Rightarrow> ask (check script))"

text \<open>The rest of the checks, once the action after the recording is known.\<close>

definition finish_prepared :: "'s evaluator \<Rightarrow> prepared_rule \<Rightarrow> ('s, prepared_rule) evaluating" where
  "finish_prepared av p =
     (let settings = ru_recording (pu_rule p); unavailable = act_return (p\<lparr>pu_unavailable := True\<rparr>) in
      if \<not> post_recording_valid (pu_post p) then unavailable
      else act_bind (script_allowed av (pr_script (pu_post p))) (\<lambda>allowed.
        if \<not> allowed then unavailable
        else if automatic_output_settings settings = None then unavailable
        else if automatic_component_mode (rs_service_mode settings) = None then unavailable
        else if \<not> margins_in_hour settings then unavailable
        else
          case prepare_program_matcher (av_text av) (ru_search (pu_rule p)) of
            Inl e \<Rightarrow> unavailable
          | Inr m \<Rightarrow> act_return (p\<lparr>pu_matcher := Some m\<rparr>)))"

definition prepare_rule :: "'s evaluator \<Rightarrow> rule \<Rightarrow> ('s, prepared_rule) evaluating" where
  "prepare_rule av r =
     (let p = fresh_rule r; settings = ru_recording r in
      if \<not> sc_enabled (ru_search r) then act_return (p\<lparr>pu_skip := True\<rparr>)
      else if rs_tuner_id settings \<noteq> 0 then act_return (p\<lparr>pu_unavailable := True, pu_forced_tuner := True\<rparr>)
      else if rs_mode settings \<noteq> 1 \<and> rs_mode settings \<noteq> 5 \<or> rs_exact settings \<or> rs_continue settings
      then act_return (p\<lparr>pu_unavailable := True\<rparr>)
      else
        case automatic_one_seg_output_settings settings of
          None \<Rightarrow> act_return (p\<lparr>pu_unavailable := True, pu_one_seg_unavailable := True\<rparr>)
        | Some one_seg \<Rightarrow>
            let p = p\<lparr>pu_one_seg := one_seg\<rparr> in
            case automatic_post_recording_mode (rs_suspend settings) (rs_reboot settings) of
              None \<Rightarrow> act_return (p\<lparr>pu_unavailable := True\<rparr>)
            | Some mode \<Rightarrow> finish_prepared av (p\<lparr>pu_post := \<lparr>pr_mode = mode, pr_script = rs_batch settings\<rparr>\<rparr>))"

text \<open>The counts of the rules that cannot be used.\<close>

definition tally_prepared :: "prepared_rule \<Rightarrow> tally \<Rightarrow> tally" where
  "tally_prepared p t =
     (if \<not> pu_unavailable p then t
      else t\<lparr>ta_unavailable_rules := ta_unavailable_rules t + 1,
             ta_forced_tuner_unavailable_rules := ta_forced_tuner_unavailable_rules t + (if pu_forced_tuner p then 1 else 0),
             ta_one_seg_unavailable_rules := ta_one_seg_unavailable_rules t + (if pu_one_seg_unavailable p then 1 else 0)\<rparr>)"

primrec prepare_rules :: "'s evaluator \<Rightarrow> rule list \<Rightarrow> ('s, prepared_rule list) evaluating" where
  "prepare_rules av [] = act_return []"
| "prepare_rules av (r # rules) =
     act_bind (prepare_rule av r) (\<lambda>p.
       act_seq (count_up (tally_prepared p))
         (act_bind (prepare_rules av rules) (\<lambda>ps. act_return (p # ps))))"

definition needs_titles :: "prepared_rule \<Rightarrow> bool" where
  "needs_titles p \<longleftrightarrow>
     \<not> pu_skip p \<and> \<not> pu_unavailable p \<and> sc_check_recorded_title (ru_search (pu_rule p)) \<and>
     sc_check_recorded_days (ru_search (pu_rule p)) > 0"

definition load_title_index :: "'s evaluator \<Rightarrow> prepared_rule list \<Rightarrow> ('s, title_index) evaluating" where
  "load_title_index av rules =
     (if \<not> list_ex needs_titles rules then act_return empty_index else load_history history_pages av 0 0 empty_index)"

section \<open>One program\<close>

definition rule_margins :: "recording_settings \<Rightarrow> margins option \<Rightarrow> margins option" where
  "rule_margins settings m =
     (case rs_start_margin settings of
        None \<Rightarrow> m
      | Some start \<Rightarrow> Some \<lparr>m_start = start * second, m_end = the (rs_end_margin settings) * second\<rparr>)"

text \<open>The request of a rule for a program it finds; \<open>None\<close>: the next rule is tried.\<close>

definition candidate_request ::
    "'s evaluator \<Rightarrow> prepared_rule \<Rightarrow> current_program \<Rightarrow> ('s, reservation_request option) evaluating" where
  "candidate_request av c program =
     (let settings = ru_recording (pu_rule c) in
      act_bind (ask (av_request av program (rs_priority settings) (rs_follow settings))) (\<lambda>answer.
        act_return (
          case (answer, automatic_output_settings settings, automatic_component_mode (rs_service_mode settings)) of
            (Some request, Some out, Some components) \<Rightarrow>
              let request = request\<lparr>rq_disabled := rs_mode settings = 5, rq_output := out, rq_one_seg_output := pu_one_seg c,
                    rq_post_recording := pu_post c, rq_components := components,
                    rq_margins := rule_margins settings (rq_margins request)\<rparr>
              in if \<not> reservation_request_valid request \<or> \<not> match_service (sc_services (ru_search (pu_rule c))) request
                 then None else Some request
          | _ \<Rightarrow> None)))"

text \<open>The program as it is stored; on the left whether the one-seg output was the failure.\<close>

definition resolve_program ::
    "'s evaluator \<Rightarrow> reservation_request \<Rightarrow> ('s, bool + (program_snapshot \<times> one_seg_output option)) evaluating" where
  "resolve_program av request =
     act_bind (ask (av_find av request)) (\<lambda>answer.
       case answer of
         None \<Rightarrow> act_return (Inl False)
       | Some snapshot \<Rightarrow>
           if rq_one_seg_output request = None then act_return (Inr (snapshot, None))
           else act_bind (ask (av_one_seg av snapshot)) (\<lambda>answer.
             case answer of
               None \<Rightarrow> act_return (Inl True)
             | Some locator \<Rightarrow>
                 act_return (case resolve_one_seg_output request locator of
                   Inl e \<Rightarrow> Inl True
                 | Inr one_seg \<Rightarrow> Inr (snapshot, one_seg))))"

definition automatic_reservation ::
    "entity_id \<Rightarrow> instant \<Rightarrow> reservation_request \<Rightarrow> program_snapshot \<Rightarrow> one_seg_output option \<Rightarrow> reservation" where
  "automatic_reservation ident t request snapshot one_seg =
     \<lparr>r_id = ident, r_number = 0, r_version = 1, r_state = ReservationActive, r_program = snapshot,
      r_priority = rq_priority request, r_requested_follow = rq_requested_follow request, r_effective_follow = False,
      r_disabled = rq_disabled request, r_margins = rq_margins request, r_output = rq_output request,
      r_one_seg_output = one_seg, r_components = rq_components request, r_post_recording = rq_post_recording request,
      r_created_at = t, r_updated_at = t, r_finished_at = None\<rparr>"

text \<open>What follows the answer of the store; a duplicate of a program recorded before is disabled.\<close>

definition disable_recorded :: "'s evaluator \<Rightarrow> instant \<Rightarrow> program_snapshot \<Rightarrow> ('s, unit) evaluating" where
  "disable_recorded av t snapshot =
     act_bind (ask (av_disable av (p_instance_id snapshot) t)) (\<lambda>answer.
       case answer of
         None \<Rightarrow> act_fail DisableFailed
       | Some changed \<Rightarrow> act_when changed (notify_change av))"

definition settle_creation ::
    "'s evaluator \<Rightarrow> instant \<Rightarrow> bool \<Rightarrow> program_snapshot \<Rightarrow> create_answer \<Rightarrow> ('s, unit) evaluating" where
  "settle_creation av t recorded snapshot answer =
     (case answer of
        ReservationCreated \<Rightarrow> act_seq (count_up (\<lambda>t. t\<lparr>ta_created := ta_created t + 1\<rparr>)) (notify_change av)
      | ReservationDuplicate \<Rightarrow>
          act_seq (count_up (\<lambda>t. t\<lparr>ta_duplicates := ta_duplicates t + 1\<rparr>))
            (act_when recorded (disable_recorded av t snapshot))
      | ReservationRefused \<Rightarrow> act_fail CreateFailed)"

definition create_automatic ::
    "'s evaluator \<Rightarrow> instant \<Rightarrow> prepared_rule \<Rightarrow> bool \<Rightarrow> reservation_request \<Rightarrow> program_snapshot \<Rightarrow> one_seg_output option
      \<Rightarrow> ('s, unit) evaluating" where
  "create_automatic av t c recorded request snapshot one_seg =
     act_bind (ask (av_new_id av)) (\<lambda>answer.
       case answer of
         None \<Rightarrow> act_fail EvaluationIdFailed
       | Some ident \<Rightarrow>
           act_bind (ask (av_create av (ru_number (pu_rule c)) (automatic_reservation ident t request snapshot one_seg)))
             (settle_creation av t recorded snapshot))"

definition candidate_matches :: "'s evaluator \<Rightarrow> prepared_rule \<Rightarrow> current_program \<Rightarrow> bool" where
  "candidate_matches av c program \<longleftrightarrow>
     \<not> pu_skip c \<and> \<not> pu_unavailable c \<and>
     (case pu_matcher c of None \<Rightarrow> False | Some m \<Rightarrow> matches_program (av_text av) m (cp_material program))"

text \<open>A program that a rule found is reserved, or the next rules are tried when it cannot be resolved.\<close>

definition reserve_resolved ::
    "'s evaluator \<Rightarrow> instant \<Rightarrow> prepared_rule \<Rightarrow> bool \<Rightarrow> reservation_request \<Rightarrow> ('s, unit) evaluating \<Rightarrow> ('s, unit) evaluating" where
  "reserve_resolved av t c recorded request next_rules =
     act_bind (resolve_program av request) (\<lambda>resolved.
       case resolved of
         Inr (snapshot, one_seg) \<Rightarrow> create_automatic av t c recorded request snapshot one_seg
       | Inl one_seg_failed \<Rightarrow>
           act_bind (ask (av_live av)) (\<lambda>live.
             if \<not> live then act_fail EvaluationCancelled
             else act_seq (act_when one_seg_failed (count_up (\<lambda>t.
                      t\<lparr>ta_one_seg_unresolved_programs := ta_one_seg_unresolved_programs t + 1\<rparr>)))
                    next_rules))"

definition reserve_matched ::
    "'s evaluator \<Rightarrow> instant \<Rightarrow> title_index \<Rightarrow> current_program \<Rightarrow> prepared_rule \<Rightarrow> reservation_request
      \<Rightarrow> ('s, unit) evaluating \<Rightarrow> ('s, unit) evaluating" where
  "reserve_matched av t index program c request next_rules =
     (let recorded = title_recorded index (ru_search (pu_rule c)) request program in
      act_seq (count_up (\<lambda>t. t\<lparr>ta_recorded_title_matches := ta_recorded_title_matches t + (if recorded then 1 else 0),
          ta_matched := ta_matched t + 1\<rparr>))
        (act_bind (act_get (\<lambda>e. ta_created (ev_tally e) = max_reservations_per_run)) (\<lambda>full.
           if full then count_up (\<lambda>t. t\<lparr>ta_limit_reached := True\<rparr>)
           else reserve_resolved av t c recorded (if recorded then request\<lparr>rq_disabled := True\<rparr> else request) next_rules)))"

text \<open>The rules in their order, up to the first that reserves the program.\<close>

primrec reserve_program ::
    "'s evaluator \<Rightarrow> instant \<Rightarrow> title_index \<Rightarrow> current_program \<Rightarrow> prepared_rule list \<Rightarrow> ('s, unit) evaluating" where
  "reserve_program av t index program [] = act_return ()"
| "reserve_program av t index program (c # candidates) =
     act_seq (count_up (\<lambda>t. t\<lparr>ta_comparisons := ta_comparisons t + 1\<rparr>))
       (if \<not> candidate_matches av c program then reserve_program av t index program candidates
        else act_bind (candidate_request av c program) (\<lambda>answer.
          case answer of
            None \<Rightarrow> reserve_program av t index program candidates
          | Some request \<Rightarrow>
              reserve_matched av t index program c request (reserve_program av t index program candidates)))"

section \<open>A run\<close>

definition evaluation_window :: int where
  "evaluation_window = 8 * 24 * hour"

definition evaluate_rules :: "'s evaluator \<Rightarrow> instant \<Rightarrow> rule list \<Rightarrow> ('s, unit) evaluating" where
  "evaluate_rules av t rules =
     (let stop = add_duration t evaluation_window in
      act_bind (prepare_rules av rules) (\<lambda>prepared.
        act_bind (load_title_index av prepared) (\<lambda>index.
          act_bind (count_programs av t stop) (\<lambda>programs.
            act_seq (count_up (\<lambda>t. t\<lparr>ta_programs := programs\<rparr>))
              (if programs > max_programs_per_run \<or> rules \<noteq> [] \<and> programs > max_comparisons_per_run div length rules
               then act_fail EvaluationLimitExceeded
               else for_each_program av (\<lambda>_ program.
                 if \<not> program_in_window program t stop then act_return ()
                 else reserve_program av t index program prepared) ())))))"

definition run_evaluation :: "'s evaluator \<Rightarrow> ('s, unit) evaluating" where
  "run_evaluation av =
     act_bind (ask (av_now av)) (\<lambda>t.
       let t = in_utc t in
       if is_zero_time t \<or> unix_milli t < 0 then act_fail EvaluationClockInvalid
       else act_bind (read_rules av) (\<lambda>rules.
         act_seq (count_up (\<lambda>t. t\<lparr>ta_rules := length rules\<rparr>))
           (if rules = [] then act_return () else evaluate_rules av t rules)))"

section \<open>Operations on rules\<close>

datatype rule_service_error =
  InvalidAdd | InvalidList | InvalidChange | InvalidDelete | RuleClockInvalid | RuleIdFailed | RuleStoreError

record 's rule_service =
  rv_now :: "'s \<Rightarrow> instant \<times> 's"
  rv_new_id :: "'s \<Rightarrow> entity_id option \<times> 's"
  rv_create :: "rule \<Rightarrow> 's \<Rightarrow> rule option \<times> 's"
  rv_list :: "int \<Rightarrow> int \<Rightarrow> 's \<Rightarrow> rule list option \<times> 's"
  rv_update :: "int \<Rightarrow> search_condition \<Rightarrow> recording_settings \<Rightarrow> int \<Rightarrow> 's \<Rightarrow> bool \<times> 's"
  rv_delete :: "int \<Rightarrow> 's \<Rightarrow> bool \<times> 's"

definition from_service :: "('s \<Rightarrow> 'a \<times> 's) \<Rightarrow> ('s, rule_service_error, 'a) act" where
  "from_service f s = (case f s of (x, s') \<Rightarrow> (Inr x, s'))"

definition required :: "'e \<Rightarrow> 'a option \<Rightarrow> ('s, 'e, 'a) act" where
  "required e x = (case x of None \<Rightarrow> act_fail e | Some y \<Rightarrow> act_return y)"

definition rule_now :: "'s rule_service \<Rightarrow> ('s, rule_service_error, instant) act" where
  "rule_now rv =
     act_bind (from_service (rv_now rv)) (\<lambda>t.
       let t = in_utc t in if is_zero_time t \<or> unix_milli t < 0 then act_fail RuleClockInvalid else act_return t)"

definition add_rule ::
    "'s rule_service \<Rightarrow> search_condition \<Rightarrow> recording_settings \<Rightarrow> ('s, rule_service_error, rule) act" where
  "add_rule rv search settings =
     act_seq (act_require (is_ok (validate_change 1 search settings)) InvalidAdd)
       (act_bind (rule_now rv) (\<lambda>t.
         act_bind (from_service (rv_new_id rv)) (\<lambda>answer.
           act_bind (required RuleIdFailed answer) (\<lambda>ident.
             act_bind (from_service (rv_create rv
                 \<lparr>ru_id = ident, ru_number = 0, ru_version = 1, ru_search = search, ru_recording = settings,
                  ru_reservation_count = 0, ru_created = unix_milli t, ru_updated = unix_milli t\<rparr>))
               (required RuleStoreError)))))"

definition list_rules :: "'s rule_service \<Rightarrow> int \<Rightarrow> int \<Rightarrow> ('s, rule_service_error, rule list) act" where
  "list_rules rv limit after = act_bind (from_service (rv_list rv limit after)) (required RuleStoreError)"

definition change_rule ::
    "'s rule_service \<Rightarrow> int \<Rightarrow> search_condition \<Rightarrow> recording_settings \<Rightarrow> ('s, rule_service_error, unit) act" where
  "change_rule rv number search settings =
     act_seq (act_require (is_ok (validate_change number search settings)) InvalidChange)
       (act_bind (rule_now rv) (\<lambda>t.
         act_bind (from_service (rv_update rv number search settings (unix_milli t)))
           (\<lambda>good. act_require good RuleStoreError)))"

definition delete_rule :: "'s rule_service \<Rightarrow> int \<Rightarrow> ('s, rule_service_error, unit) act" where
  "delete_rule rv number =
     act_seq (act_require (number \<ge> 1) InvalidDelete)
       (act_bind (from_service (rv_delete rv number)) (\<lambda>good. act_require good RuleStoreError))"

end
