(* ===== verification/AutoReservationSpec.thy ===== *)
theory AutoReservationSpec
  imports AutoReservation FilePlans
begin

text \<open>
  What a run of the evaluator keeps, whatever its environment answers: its counts stay within the limits of the
  package, it ends, and every reservation it gives to the store is one that the store's own check accepts.  The index
  of recorded titles is compared with a search through the history.
\<close>

section \<open>The index of recorded titles\<close>

lemma keep_latest_other: "k' \<noteq> k \<Longrightarrow> keep_latest k start m k' = m k'"
  by (auto simp: keep_latest_def split: option.split)

text \<open>A map holds, for each key, the latest start of the items with that key.\<close>

definition holds_latest :: "('k \<rightharpoonup> int) \<Rightarrow> ('k \<times> int) set \<Rightarrow> bool" where
  "holds_latest m starts \<longleftrightarrow>
     (\<forall>k. case m k of None \<Rightarrow> \<forall>t. (k, t) \<notin> starts | Some latest \<Rightarrow> (k, latest) \<in> starts \<and> (\<forall>t. (k, t) \<in> starts \<longrightarrow> t \<le> latest))"

lemma holds_latest_after: "holds_latest m starts \<Longrightarrow> (case m k of None \<Rightarrow> False | Some latest \<Rightarrow> latest > lower) \<longleftrightarrow>
    (\<exists>t. (k, t) \<in> starts \<and> t > lower)"
  unfolding holds_latest_def by (drule spec [of _ k]) (auto split: option.splits intro: less_le_trans)

lemma keep_latest_holds:
  assumes "holds_latest m starts"
  shows "holds_latest (keep_latest k start m) (insert (k, start) starts)"
  unfolding holds_latest_def
proof
  fix k'
  have old: "case m k' of None \<Rightarrow> \<forall>t. (k', t) \<notin> starts | Some latest \<Rightarrow> (k', latest) \<in> starts \<and> (\<forall>t. (k', t) \<in> starts \<longrightarrow> t \<le> latest)"
    using assms by (simp add: holds_latest_def)
  show "case keep_latest k start m k' of None \<Rightarrow> \<forall>t. (k', t) \<notin> insert (k, start) starts
      | Some latest \<Rightarrow> (k', latest) \<in> insert (k, start) starts \<and> (\<forall>t. (k', t) \<in> insert (k, start) starts \<longrightarrow> t \<le> latest)"
  proof (cases "k' = k")
    case True
    with old show ?thesis by (fastforce simp: keep_latest_def split: option.splits)
  next
    case False
    with old show ?thesis by (simp add: keep_latest_other split: option.splits)
  qed
qed

definition title_starts :: "history_item list \<Rightarrow> (bytes \<times> int) set" where
  "title_starts items = {(h_title item, unix_milli (h_planned_start item)) | item. item \<in> set items \<and> h_title item \<noteq> []}"

definition service_starts :: "history_item list \<Rightarrow> ((bytes \<times> u16 \<times> u16 \<times> u16) \<times> int) set" where
  "service_starts items =
     {((h_title item, h_network_id item, h_transport_stream_id item, h_service_id item), unix_milli (h_planned_start item))
       | item. item \<in> set items \<and> h_title item \<noteq> []}"

lemma starts_Cons:
  "title_starts (items @ [item]) =
     (if h_title item = [] then title_starts items
      else insert (h_title item, unix_milli (h_planned_start item)) (title_starts items))"
  "service_starts (items @ [item]) =
     (if h_title item = [] then service_starts items
      else insert ((h_title item, h_network_id item, h_transport_stream_id item, h_service_id item),
        unix_milli (h_planned_start item)) (service_starts items))"
  by (auto simp: title_starts_def service_starts_def)

lemma index_holds_latest:
  "holds_latest (ix_all_services (fold index_item items empty_index)) (title_starts items) \<and>
   holds_latest (ix_same_service (fold index_item items empty_index)) (service_starts items)"
proof (induction items rule: rev_induct)
  case Nil
  then show ?case by (simp add: empty_index_def holds_latest_def title_starts_def service_starts_def)
next
  case (snoc item items)
  then show ?case by (simp add: starts_Cons index_item_def Let_def keep_latest_holds)
qed

lemma starts_after:
  "(\<exists>t. (k, t) \<in> title_starts items \<and> t > lower) \<longleftrightarrow>
     (\<exists>item\<in>set items. h_title item \<noteq> [] \<and> h_title item = k \<and> unix_milli (h_planned_start item) > lower)"
  "(\<exists>t. ((k, n, ts, sv), t) \<in> service_starts items \<and> t > lower) \<longleftrightarrow>
     (\<exists>item\<in>set items. h_title item \<noteq> [] \<and> h_title item = k \<and> h_network_id item = n \<and>
        h_transport_stream_id item = ts \<and> h_service_id item = sv \<and> unix_milli (h_planned_start item) > lower)"
  unfolding title_starts_def service_starts_def mem_Collect_eq prod.inject by blast+

definition same_service :: "history_item \<Rightarrow> reservation_request \<Rightarrow> bool" where
  "same_service item request \<longleftrightarrow>
     h_network_id item = rq_network_id request \<and> h_transport_stream_id item = rq_transport_stream_id request \<and>
     h_service_id item = rq_service_id request"

text \<open>With the index built from a history, a program counts as recorded before
  exactly when a rule asks for it and some item of the history has its title, on the same service or on any one as the
  rule says, with a planned start less than the days of the rule before the program.\<close>

theorem recorded_titles_searched:
  "title_recorded (fold index_item items empty_index) search request program \<longleftrightarrow>
     sc_check_recorded_title search \<and> sc_check_recorded_days search \<noteq> 0 \<and>
     (\<exists>title item. mt_title (cp_material program) = Some title \<and> title \<noteq> [] \<and> item \<in> set items \<and> h_title item = title \<and>
        (sc_check_recorded_all_services search \<or> same_service item request) \<and>
        unix_milli (h_planned_start item) >
          unix_milli (add_duration (rq_start request) (- (uint (sc_check_recorded_days search) * 24 * hour))))"
proof -
  let ?index = "fold index_item items empty_index"
  from index_holds_latest [of items]
  have all: "holds_latest (ix_all_services ?index) (title_starts items)"
    and same: "holds_latest (ix_same_service ?index) (service_starts items)" by simp_all
  note searched = holds_latest_after [OF all] holds_latest_after [OF same]
  show ?thesis
    by (cases "mt_title (cp_material program)"; cases "sc_check_recorded_all_services search")
      (auto simp: title_recorded_def Let_def searched starts_after same_service_def)
qed

section \<open>The environment of a run\<close>

text \<open>A stored program stands for the request it was found by.\<close>

definition snapshot_for :: "reservation_request \<Rightarrow> program_snapshot \<Rightarrow> bool" where
  "snapshot_for request p \<longleftrightarrow>
     p_instance_id p \<noteq> 0 \<and> p_revision_id p \<noteq> 0 \<and> p_backend_id p \<noteq> 0 \<and> program_text_ok p \<and>
     p_start p = rq_start request \<and> p_duration p = rq_duration request"

definition preserved :: "('s \<Rightarrow> bool) \<Rightarrow> ('s \<Rightarrow> 'a \<times> 's) \<Rightarrow> bool" where
  "preserved J f \<longleftrightarrow> (\<forall>s. J s \<longrightarrow> J (snd (f s)))"

text \<open>The counts after a number of programs, for a number of rules and of programs counted beforehand.\<close>

definition within_limits :: "nat \<Rightarrow> nat \<Rightarrow> nat \<Rightarrow> nat \<Rightarrow> tally \<Rightarrow> bool" where
  "within_limits programs rules seen compared t \<longleftrightarrow>
     ta_created t \<le> max_reservations_per_run \<and> ta_created t + ta_duplicates t \<le> seen \<and>
     ta_comparisons t \<le> seen * rules + compared \<and> (ta_limit_reached t \<longrightarrow> ta_created t = max_reservations_per_run) \<and>
     ta_rules t = rules \<and> rules \<le> max_rules \<and> ta_programs t = programs \<and> programs \<le> max_programs_per_run"

definition limits_kept :: "tally \<Rightarrow> bool" where
  "limits_kept t \<longleftrightarrow> within_limits (ta_programs t) (ta_rules t) max_program_operation 0 t"

text \<open>
  A catalog whose pages are the same on every read, as those of one completed generation are; the programs that a
  pass over it visits; and the counts of a run over it.
\<close>

definition stable_pages :: "'s evaluator \<Rightarrow> (program_cursor \<Rightarrow> current_program list option) \<Rightarrow> bool" where
  "stable_pages av pages \<longleftrightarrow> (\<forall>cursor s. fst (av_programs av max_query_page cursor s) = pages cursor)"

definition page_end :: "program_cursor \<Rightarrow> current_program list \<Rightarrow> program_cursor" where
  "page_end cursor page = (if page = [] then cursor else (cp_service_locator (last page), cp_event_locator (last page)))"

primrec listed :: "nat \<Rightarrow> (program_cursor \<Rightarrow> current_program list option) \<Rightarrow> program_cursor \<Rightarrow> current_program list" where
  "listed 0 pages cursor = []"
| "listed (Suc fuel) pages cursor =
     (case pages cursor of
        None \<Rightarrow> []
      | Some page \<Rightarrow> page @ (if length page < max_query_page then [] else listed fuel pages (page_end cursor page)))"

definition steady :: "tally \<Rightarrow> bool" where
  "steady t \<longleftrightarrow> ta_comparisons t \<le> ta_rules t * ta_programs t \<and> ta_comparisons t \<le> max_comparisons_per_run \<and>
     ta_created t + ta_duplicates t \<le> ta_programs t"

definition run_kept :: "bool \<Rightarrow> tally \<Rightarrow> bool" where
  "run_kept still t \<longleftrightarrow> limits_kept t \<and> (still \<longrightarrow> steady t)"

lemma automatic_reservation_valid:
  assumes "reservation_request_valid request" "snapshot_for request snapshot" "ident \<noteq> 0"
    and "case one_seg of None \<Rightarrow> True | Some out \<Rightarrow> one_seg_output_valid out"
    and "t_utc t" "\<not> is_zero_time t" "0 \<le> unix_milli t"
  shows "validate_new (automatic_reservation ident t request snapshot one_seg) = Inr ()"
  using assms
  by (auto simp: validate_new_def automatic_reservation_def snapshot_for_def reservation_request_valid_def
      reservation_new_state_ok_def reservation_time_ok_def Let_def)

text \<open>Where \<open>sound\<close> holds, the catalog and the identifiers can be relied on.\<close>

locale evaluator_world =
  fixes av :: "'s evaluator" and sound :: bool and J :: "'s \<Rightarrow> bool"
  assumes keeps_now: "preserved J (av_now av)"
    and keeps_live: "preserved J (av_live av)"
    and keeps_id: "preserved J (av_new_id av)"
    and keeps_rules: "preserved J (av_rules av n i)"
    and keeps_history: "preserved J (av_history av n i)"
    and keeps_disable: "preserved J (av_disable av ident t)"
    and keeps_programs: "preserved J (av_programs av n cursor)"
    and keeps_request: "preserved J (av_request av program priority follow)"
    and keeps_find: "preserved J (av_find av request)"
    and keeps_one_seg: "preserved J (av_one_seg av snapshot)"
    and keeps_script: "av_script av = Some check \<Longrightarrow> preserved J (check script)"
    and keeps_changed: "av_changed av = Some f \<Longrightarrow> preserved J (\<lambda>s. ((), f s))"
    and keeps_create: "(sound \<Longrightarrow> validate_new r = Inr ()) \<Longrightarrow> preserved J (av_create av number r)"
    and found: "sound \<Longrightarrow> fst (av_find av request s) = Some p \<Longrightarrow> snapshot_for request p"
    and fresh_id: "sound \<Longrightarrow> fst (av_new_id av s) \<noteq> Some 0"
begin

text \<open>An assertion about the counts and the state of the environment.\<close>

definition keeping :: "(tally \<Rightarrow> bool) \<Rightarrow> 's evaluation \<Rightarrow> bool" where
  "keeping T e \<longleftrightarrow> T (ev_tally e) \<and> J (ev_world e)"

definition stopping :: "(tally \<Rightarrow> bool) \<Rightarrow> evaluation_error \<Rightarrow> 's evaluation \<Rightarrow> bool" where
  "stopping T err e \<longleftrightarrow> keeping T e \<and> err \<noteq> PagesWithoutEnd"

lemma ask_rule: "preserved J f \<Longrightarrow> outcomes (keeping T) (ask f) (\<lambda>_. keeping T) E"
  by (fastforce simp: outcomes_def ask_def keeping_def preserved_def split: prod.split)

lemma ask_found_rule: "outcomes (keeping T) (ask (av_find av request))
    (\<lambda>answer e. keeping T e \<and> (sound \<longrightarrow> (case answer of None \<Rightarrow> True | Some p \<Rightarrow> snapshot_for request p))) E"
  using keeps_find [of request] found [of request]
  by (auto simp: outcomes_def ask_def keeping_def preserved_def split: prod.split option.split) (metis fst_conv snd_conv)+

lemma ask_id_rule: "outcomes (keeping T) (ask (av_new_id av)) (\<lambda>answer e. keeping T e \<and> (sound \<longrightarrow> answer \<noteq> Some 0)) E"
  using keeps_id fresh_id by (auto simp: outcomes_def ask_def keeping_def preserved_def split: prod.split) (metis fst_conv snd_conv)+

lemma count_rule: "(\<And>t. T t \<Longrightarrow> T' (f t)) \<Longrightarrow> outcomes (keeping T) (count_up f) (\<lambda>_. keeping T') E"
  by (simp add: outcomes_def count_up_def act_modify_def keeping_def)

lemma notify_rule: "outcomes (keeping T) (notify_change av) (\<lambda>_. keeping T) E"
  unfolding notify_change_def by (cases "av_changed av") (auto intro: triple_return ask_rule keeps_changed)

lemma return_rule: "outcomes (keeping T) (act_return x) (\<lambda>_. keeping T) E"
  by (simp add: outcomes_def act_return_def)

lemma known_rule: "(C \<Longrightarrow> outcomes P m Q E) \<Longrightarrow> outcomes (\<lambda>e. P e \<and> C) m Q E"
  by (auto simp: outcomes_def)

lemma fail_rule: "err \<noteq> PagesWithoutEnd \<Longrightarrow> outcomes (keeping T) (act_fail err) Q (stopping T)"
  by (simp add: outcomes_def act_fail_def stopping_def)

lemma keeping_weaken:
  "outcomes (keeping T') m Q (stopping T'') \<Longrightarrow> (\<And>t. T t \<Longrightarrow> T' t) \<Longrightarrow> (\<And>t. T'' t \<Longrightarrow> T''' t) \<Longrightarrow>
   outcomes (keeping T) m Q (stopping T''')"
  by (rule triple_failure, rule triple_pre, assumption) (auto simp: keeping_def stopping_def)

lemmas ask_bind = triple_bind [OF ask_rule]
lemmas count_seq = triple_seq [OF count_rule]

section \<open>One program\<close>

lemma candidate_request_rule:
  "outcomes (keeping T) (candidate_request av c program)
    (\<lambda>answer e. keeping T e \<and> (case answer of None \<Rightarrow> True | Some request \<Rightarrow> reservation_request_valid request)) E"
  unfolding candidate_request_def Let_def
  by (rule ask_bind [OF keeps_request])
    (auto simp: outcomes_def act_return_def split: option.split)

lemma resolve_program_rule:
  "outcomes (keeping T) (resolve_program av request)
    (\<lambda>answer e. keeping T e \<and> (case answer of Inl _ \<Rightarrow> True | Inr (snapshot, one_seg) \<Rightarrow>
       (sound \<longrightarrow> snapshot_for request snapshot) \<and> (case one_seg of None \<Rightarrow> True | Some out \<Rightarrow> one_seg_output_valid out))) E"
  unfolding resolve_program_def
proof (rule triple_bind [OF ask_found_rule])
  let ?Q = "\<lambda>answer e. keeping T e \<and> (case answer of Inl _ \<Rightarrow> True | Inr (snapshot, one_seg) \<Rightarrow>
       (sound \<longrightarrow> snapshot_for request snapshot) \<and> (case one_seg of None \<Rightarrow> True | Some out \<Rightarrow> one_seg_output_valid out))"
  fix answer :: "program_snapshot option"
  show "outcomes (\<lambda>e. keeping T e \<and> (sound \<longrightarrow> (case answer of None \<Rightarrow> True | Some p \<Rightarrow> snapshot_for request p)))
    (case answer of None \<Rightarrow> act_return (Inl False)
     | Some snapshot \<Rightarrow>
         if rq_one_seg_output request = None then act_return (Inr (snapshot, None))
         else act_bind (ask (av_one_seg av snapshot)) (\<lambda>answer.
           case answer of None \<Rightarrow> act_return (Inl True)
           | Some locator \<Rightarrow> act_return (case resolve_one_seg_output request locator of
               Inl e \<Rightarrow> Inl True | Inr one_seg \<Rightarrow> Inr (snapshot, one_seg)))) ?Q E"
  proof (cases answer)
    case None
    then show ?thesis by (simp add: outcomes_def act_return_def)
  next
    case (Some snapshot)
    have "outcomes (keeping T)
      (act_bind (ask (av_one_seg av snapshot)) (\<lambda>answer.
           case answer of None \<Rightarrow> act_return (Inl True)
           | Some locator \<Rightarrow> act_return (case resolve_one_seg_output request locator of
               Inl e \<Rightarrow> Inl True | Inr one_seg \<Rightarrow> Inr (snapshot, one_seg)))) ?Q E"
      if "sound \<longrightarrow> snapshot_for request snapshot"
      by (rule ask_bind [OF keeps_one_seg])
        (use that in \<open>auto simp: outcomes_def act_return_def resolve_one_seg_output_def Let_def split: option.split sum.split if_splits\<close>)
    then have "outcomes (\<lambda>e. keeping T e \<and> (sound \<longrightarrow> snapshot_for request snapshot))
      (act_bind (ask (av_one_seg av snapshot)) (\<lambda>answer.
           case answer of None \<Rightarrow> act_return (Inl True)
           | Some locator \<Rightarrow> act_return (case resolve_one_seg_output request locator of
               Inl e \<Rightarrow> Inl True | Inr one_seg \<Rightarrow> Inr (snapshot, one_seg)))) ?Q E"
      by (auto simp: outcomes_def)
    then show ?thesis by (simp add: Some) (simp add: outcomes_def act_return_def)
  qed
qed

text \<open>What one creation adds to the counts.\<close>

lemma create_automatic_rule:
  assumes "reservation_request_valid request" "sound \<longrightarrow> snapshot_for request snapshot"
    and "case one_seg of None \<Rightarrow> True | Some out \<Rightarrow> one_seg_output_valid out"
    and "t_utc t" "\<not> is_zero_time t" "0 \<le> unix_milli t"
    and T: "\<And>x. T x \<Longrightarrow> T' x" "\<And>x. T x \<Longrightarrow> T' (x\<lparr>ta_created := Suc (ta_created x)\<rparr>)"
      "\<And>x. T x \<Longrightarrow> T' (x\<lparr>ta_duplicates := Suc (ta_duplicates x)\<rparr>)"
  shows "outcomes (keeping T) (create_automatic av t c recorded request snapshot one_seg) (\<lambda>_. keeping T') (stopping T')"
  unfolding create_automatic_def
proof (rule triple_bind [OF ask_id_rule])
  fix answer :: "entity_id option"
  have failed: "outcomes (keeping T) (act_fail err) (\<lambda>_. keeping T') (stopping T')" if "err \<noteq> PagesWithoutEnd" for err
    by (rule keeping_weaken [OF fail_rule]) (use that T in auto)
  have settle: "outcomes (keeping T) (settle_creation av t recorded snapshot created) (\<lambda>_. keeping T') (stopping T')" for created
    unfolding settle_creation_def disable_recorded_def
    by (cases created) (auto intro!: count_seq [where T = T and T' = T'] T(2,3) failed notify_rule triple_when ask_bind
        keeps_disable triple_option fail_rule)
  have create: "outcomes (keeping T)
      (act_bind (ask (av_create av (ru_number (pu_rule c)) (automatic_reservation ident t request snapshot one_seg)))
         (settle_creation av t recorded snapshot)) (\<lambda>_. keeping T') (stopping T')"
    if "sound \<longrightarrow> ident \<noteq> 0" for ident
    by (rule ask_bind [OF keeps_create settle]) (use assms that in \<open>auto intro: automatic_reservation_valid\<close>)
  show "outcomes (\<lambda>e. keeping T e \<and> (sound \<longrightarrow> answer \<noteq> Some 0))
     (case answer of None \<Rightarrow> act_fail EvaluationIdFailed
      | Some ident \<Rightarrow>
          act_bind (ask (av_create av (ru_number (pu_rule c)) (automatic_reservation ident t request snapshot one_seg)))
            (settle_creation av t recorded snapshot)) (\<lambda>_. keeping T') (stopping T')"
    by (rule known_rule) (cases answer, auto intro: create failed)
qed

text \<open>A rule whose values are lists of facts about requests does not mind the switch that a recorded title turns.\<close>

lemma disabled_request [simp]:
  "reservation_request_valid (request\<lparr>rq_disabled := d\<rparr>) = reservation_request_valid request"
  by (simp add: reservation_request_valid_def)

lemma reserve_resolved_rule:
  assumes "reservation_request_valid request" "t_utc t" "\<not> is_zero_time t" "0 \<le> unix_milli t" "compared \<le> rules"
    and next_rules: "outcomes (keeping (within_limits programs rules seen compared)) next_rules
      (\<lambda>_. keeping (within_limits programs rules (Suc seen) 0)) (stopping (within_limits programs rules (Suc seen) 0))"
  shows "outcomes (keeping (\<lambda>x. within_limits programs rules seen compared x \<and> ta_created x < max_reservations_per_run))
    (reserve_resolved av t c recorded request next_rules)
    (\<lambda>_. keeping (within_limits programs rules (Suc seen) 0)) (stopping (within_limits programs rules (Suc seen) 0))"
  unfolding reserve_resolved_def
proof (rule triple_bind [OF resolve_program_rule])
  let ?room = "\<lambda>x. within_limits programs rules seen compared x \<and> ta_created x < max_reservations_per_run"
    and ?after = "within_limits programs rules (Suc seen) 0"
  have later: "?after x" "?after (x\<lparr>ta_created := Suc (ta_created x)\<rparr>)" "?after (x\<lparr>ta_duplicates := Suc (ta_duplicates x)\<rparr>)"
    if "?room x" for x
    using that assms(5) by (auto simp: within_limits_def)
  have create: "outcomes (keeping ?room) (create_automatic av t c recorded request snapshot one_seg) (\<lambda>_. keeping ?after) (stopping ?after)"
    if "sound \<longrightarrow> snapshot_for request snapshot" "case one_seg of None \<Rightarrow> True | Some out \<Rightarrow> one_seg_output_valid out"
    for snapshot one_seg
    by (rule create_automatic_rule [OF assms(1) that assms(2-4)]) (use later in auto)
  have go_on: "outcomes (keeping ?room)
      (act_bind (ask (av_live av)) (\<lambda>live.
         if \<not> live then act_fail EvaluationCancelled
         else act_seq (act_when failed (count_up (\<lambda>t.
                  t\<lparr>ta_one_seg_unresolved_programs := ta_one_seg_unresolved_programs t + 1\<rparr>))) next_rules))
      (\<lambda>_. keeping ?after) (stopping ?after)" for failed
  proof (rule ask_bind [OF keeps_live], rule triple_if)
    show "outcomes (keeping ?room) (act_fail EvaluationCancelled) (\<lambda>_. keeping ?after) (stopping ?after)"
      by (rule keeping_weaken [OF fail_rule]) (use later in auto)
    show "outcomes (keeping ?room) (act_seq (act_when failed (count_up (\<lambda>t.
        t\<lparr>ta_one_seg_unresolved_programs := ta_one_seg_unresolved_programs t + 1\<rparr>))) next_rules)
      (\<lambda>_. keeping ?after) (stopping ?after)"
      by (rule triple_seq [OF _ next_rules], rule triple_when, rule count_rule) (auto simp: within_limits_def keeping_def)
  qed
  fix resolved :: "bool + program_snapshot \<times> one_seg_output option"
  show "outcomes (\<lambda>e. keeping ?room e \<and> (case resolved of Inl _ \<Rightarrow> True | Inr (snapshot, one_seg) \<Rightarrow>
       (sound \<longrightarrow> snapshot_for request snapshot) \<and> (case one_seg of None \<Rightarrow> True | Some out \<Rightarrow> one_seg_output_valid out)))
    (case resolved of
       Inr (snapshot, one_seg) \<Rightarrow> create_automatic av t c recorded request snapshot one_seg
     | Inl one_seg_failed \<Rightarrow>
         act_bind (ask (av_live av)) (\<lambda>live.
           if \<not> live then act_fail EvaluationCancelled
           else act_seq (act_when one_seg_failed (count_up (\<lambda>t.
                    t\<lparr>ta_one_seg_unresolved_programs := ta_one_seg_unresolved_programs t + 1\<rparr>))) next_rules))
    (\<lambda>_. keeping ?after) (stopping ?after)"
    by (rule known_rule) (cases resolved, auto intro: create go_on [simplified])
qed

lemma reserve_matched_rule:
  assumes "reservation_request_valid request" "t_utc t" "\<not> is_zero_time t" "0 \<le> unix_milli t" "compared \<le> rules"
    and "outcomes (keeping (within_limits programs rules seen compared)) next_rules
      (\<lambda>_. keeping (within_limits programs rules (Suc seen) 0)) (stopping (within_limits programs rules (Suc seen) 0))"
  shows "outcomes (keeping (within_limits programs rules seen compared)) (reserve_matched av t index program c request next_rules)
    (\<lambda>_. keeping (within_limits programs rules (Suc seen) 0)) (stopping (within_limits programs rules (Suc seen) 0))"
  unfolding reserve_matched_def Let_def
proof (rule count_seq)
  let ?limits = "within_limits programs rules seen compared" and ?after = "within_limits programs rules (Suc seen) 0"
  show "?limits (x\<lparr>ta_recorded_title_matches := ta_recorded_title_matches x + n, ta_matched := ta_matched x + 1\<rparr>)"
    if "?limits x" for x n
    using that by (simp add: within_limits_def)
  have full: "outcomes (keeping (\<lambda>x. ?limits x \<and> ta_created x = max_reservations_per_run))
      (count_up (\<lambda>t. t\<lparr>ta_limit_reached := True\<rparr>)) (\<lambda>_. keeping ?after) (stopping ?after)"
    by (rule count_rule) (use assms(5) in \<open>auto simp: within_limits_def\<close>)
  note resolved = reserve_resolved_rule [OF _ assms(2-6)]
  show "outcomes (keeping ?limits)
     (act_bind (act_get (\<lambda>e. ta_created (ev_tally e) = max_reservations_per_run)) (\<lambda>full.
        if full then count_up (\<lambda>t. t\<lparr>ta_limit_reached := True\<rparr>)
        else reserve_resolved av t c recorded (if recorded then request\<lparr>rq_disabled := True\<rparr> else request) next_rules))
     (\<lambda>_. keeping ?after) (stopping ?after)" for recorded
  proof (rule triple_bind [where B = "\<lambda>full. keeping (\<lambda>x. ?limits x \<and> (ta_created x = max_reservations_per_run \<longleftrightarrow> full))"])
    show "outcomes (keeping ?limits) (act_get (\<lambda>e. ta_created (ev_tally e) = max_reservations_per_run))
      (\<lambda>full. keeping (\<lambda>x. ?limits x \<and> (ta_created x = max_reservations_per_run \<longleftrightarrow> full))) (stopping ?after)"
      by (simp add: outcomes_def act_get_def keeping_def)
    show "outcomes (keeping (\<lambda>x. ?limits x \<and> (ta_created x = max_reservations_per_run \<longleftrightarrow> is_full)))
      (if is_full then count_up (\<lambda>t. t\<lparr>ta_limit_reached := True\<rparr>)
        else reserve_resolved av t c recorded (if recorded then request\<lparr>rq_disabled := True\<rparr> else request) next_rules)
      (\<lambda>_. keeping ?after) (stopping ?after)" for is_full
    proof (cases is_full)
      case True
      then show ?thesis using full by simp
    next
      case False
      then have "is_full = False" by simp
      moreover have "?limits x \<and> ta_created x < max_reservations_per_run"
        if "?limits x \<and> (ta_created x = max_reservations_per_run \<longleftrightarrow> False)" for x
        using that by (auto simp: within_limits_def)
      ultimately show ?thesis
        by (simp only: if_False) (rule keeping_weaken [OF resolved], auto simp: assms(1))
    qed
  qed
qed

lemma reserve_program_rule:
  assumes "t_utc t" "\<not> is_zero_time t" "0 \<le> unix_milli t"
  shows "compared + length candidates \<le> rules \<Longrightarrow>
    outcomes (keeping (within_limits programs rules seen compared)) (reserve_program av t index program candidates)
      (\<lambda>_. keeping (within_limits programs rules (Suc seen) 0)) (stopping (within_limits programs rules (Suc seen) 0))"
proof (induction candidates arbitrary: compared)
  case Nil
  have "within_limits programs rules seen compared x \<Longrightarrow> within_limits programs rules (Suc seen) 0 x" for x
    using Nil by (auto simp: within_limits_def)
  then show ?case by (simp add: outcomes_def act_return_def keeping_def)
next
  case (Cons c candidates)
  let ?now = "within_limits programs rules seen (Suc compared)" and ?after = "within_limits programs rules (Suc seen) 0"
  have later: "outcomes (keeping ?now) (reserve_program av t index program candidates) (\<lambda>_. keeping ?after) (stopping ?after)"
    using Cons.IH [of "Suc compared"] Cons.prems by simp
  have matched: "outcomes (keeping ?now)
      (reserve_matched av t index program c request (reserve_program av t index program candidates))
      (\<lambda>_. keeping ?after) (stopping ?after)" if "reservation_request_valid request" for request
    using reserve_matched_rule [OF that assms _ later] Cons.prems by simp
  have answered: "outcomes (\<lambda>e. keeping ?now e \<and> (case answer of None \<Rightarrow> True | Some request \<Rightarrow> reservation_request_valid request))
      (case answer of None \<Rightarrow> reserve_program av t index program candidates
       | Some request \<Rightarrow> reserve_matched av t index program c request (reserve_program av t index program candidates))
      (\<lambda>_. keeping ?after) (stopping ?after)" for answer
    by (rule known_rule) (cases answer, auto intro: later matched)
  show ?case
    unfolding reserve_program.simps
    by (rule count_seq [where T' = ?now])
      (auto simp: within_limits_def [of programs rules seen] intro: later triple_bind [OF candidate_request_rule answered])
qed

section \<open>Pages\<close>

lemma visit_programs_rule:
  assumes visit: "\<And>n x p. n < max_program_operation \<Longrightarrow>
      outcomes (keeping (I n x)) (visit x p) (\<lambda>x'. keeping (I (Suc n) x')) (stopping S)"
    and weaken: "\<And>n x t. n \<le> max_program_operation \<Longrightarrow> I n x t \<Longrightarrow> S t"
  shows "seen \<le> max_program_operation \<Longrightarrow>
    outcomes (keeping (I seen x)) (visit_programs visit page cursor seen x)
      (\<lambda>(cursor', seen', x') e. keeping (I seen' x') e \<and> seen' = seen + length page \<and> seen' \<le> max_program_operation) (stopping S)"
proof (induction page arbitrary: cursor seen x)
  case Nil
  then show ?case by (simp add: outcomes_def act_return_def)
next
  case (Cons p page)
  have failed: "outcomes (keeping (I seen x)) (act_fail ProgramOrderInvalid) Q (stopping S)" for Q
    by (rule keeping_weaken [OF fail_rule]) (use weaken [OF Cons.prems] in auto)
  have rest: "outcomes (keeping (I (Suc seen) x')) (visit_programs visit page cursor' (Suc seen) x')
      (\<lambda>(cursor', seen', x') e. keeping (I seen' x') e \<and> seen' = seen + length (p # page) \<and> seen' \<le> max_program_operation) (stopping S)"
    if "seen < max_program_operation" for cursor' x'
    using Cons.IH [of "Suc seen" x' cursor'] that by simp
  show ?case
    unfolding visit_programs.simps Let_def
  proof (rule triple_if [OF failed])
    assume "\<not> (\<not> cursor_less cursor (cp_service_locator p, cp_event_locator p) \<or> seen = max_program_operation)"
    then have "seen < max_program_operation" using Cons.prems by auto
    then show "outcomes (keeping (I seen x))
        (act_bind (visit x p) (visit_programs visit page (cp_service_locator p, cp_event_locator p) (seen + 1)))
        (\<lambda>(cursor', seen', x') e. keeping (I seen' x') e \<and> seen' = seen + length (p # page) \<and> seen' \<le> max_program_operation)
        (stopping S)"
      using triple_bind [OF visit rest] by simp
  qed
qed

lemma each_program_rule:
  assumes visit: "\<And>n x p. n < max_program_operation \<Longrightarrow>
      outcomes (keeping (I n x)) (visit x p) (\<lambda>x'. keeping (I (Suc n) x')) (stopping S)"
    and weaken: "\<And>n x t. n \<le> max_program_operation \<Longrightarrow> I n x t \<Longrightarrow> S t"
  shows "max_program_operation < seen + max_query_page * fuel \<Longrightarrow> seen \<le> max_program_operation \<Longrightarrow>
    outcomes (keeping (I seen x)) (each_program_from fuel av visit cursor seen x)
      (\<lambda>x'. keeping (\<lambda>t. \<exists>n\<le>max_program_operation. I n x' t)) (stopping S)"
proof (induction fuel arbitrary: cursor seen x)
  case 0
  then show ?case by simp
next
  case (Suc fuel)
  let ?done = "\<lambda>x'. keeping (\<lambda>t. \<exists>n\<le>max_program_operation. I n x' t)"
  have failed: "outcomes (keeping (I seen x)) (act_fail err) Q (stopping S)" if "err \<noteq> PagesWithoutEnd" for err Q
    by (rule keeping_weaken [OF fail_rule]) (use weaken [OF Suc.prems(2)] that in auto)
  have page: "outcomes (keeping (I seen x)) (act_bind (visit_programs visit page cursor seen x) (\<lambda>(cursor, seen, x).
      if length page < max_query_page then act_return x else each_program_from fuel av visit cursor seen x)) ?done (stopping S)"
    if "length page \<le> max_query_page" for page
  proof (rule triple_bind [OF visit_programs_rule [where I = I and S = S, OF visit weaken Suc.prems(2)]])
    fix result :: "program_cursor \<times> nat \<times> 'a"
    obtain cursor' seen' x' where result: "result = (cursor', seen', x')" by (cases result)
    have "outcomes (keeping (I seen' x')) (if length page < max_query_page then act_return x' else each_program_from fuel av visit cursor' seen' x')
        ?done (stopping S)" if "seen' = seen + length page \<and> seen' \<le> max_program_operation"
    proof (rule triple_if)
      show "outcomes (keeping (I seen' x')) (act_return x') ?done (stopping S)"
        using that by (auto simp: outcomes_def act_return_def keeping_def)
      assume "\<not> length page < max_query_page"
      with Suc.prems(1) that \<open>length page \<le> max_query_page\<close> show
        "outcomes (keeping (I seen' x')) (each_program_from fuel av visit cursor' seen' x') ?done (stopping S)"
        by (intro Suc.IH) auto
    qed
    then show "outcomes ((\<lambda>(cursor', seen', x') e. keeping (I seen' x') e \<and> seen' = seen + length page \<and> seen' \<le> max_program_operation) result)
      ((\<lambda>(cursor, seen, x). if length page < max_query_page then act_return x else each_program_from fuel av visit cursor seen x) result)
      ?done (stopping S)"
      unfolding result by (simp add: known_rule)
  qed
  show ?case
    unfolding each_program_from.simps
    by (auto intro!: ask_bind keeps_live keeps_programs triple_if triple_option failed page)
qed

lemma for_each_program_rule:
  assumes "\<And>n x p. n < max_program_operation \<Longrightarrow>
      outcomes (keeping (I n x)) (visit x p) (\<lambda>x'. keeping (I (Suc n) x')) (stopping S)"
    and "\<And>n x t. n \<le> max_program_operation \<Longrightarrow> I n x t \<Longrightarrow> S t"
  shows "outcomes (keeping (I 0 x)) (for_each_program av visit x)
      (\<lambda>x'. keeping (\<lambda>t. \<exists>n\<le>max_program_operation. I n x' t)) (stopping S)"
  unfolding for_each_program_def
  by (rule each_program_rule [where I = I and S = S, OF assms]) (simp_all add: program_pages_def max_program_operation_def max_query_page_def)

text \<open>The same over a catalog that stands still: the invariant knows the programs visited.\<close>

lemma visit_programs_listed:
  assumes visit: "\<And>ys x p. good (ys @ [p]) \<Longrightarrow>
      outcomes (keeping (I ys x)) (visit x p) (\<lambda>x'. keeping (I (ys @ [p]) x')) (\<lambda>_. keeping S)"
    and weaken: "\<And>ys x t. good ys \<Longrightarrow> I ys x t \<Longrightarrow> S t"
    and closed: "\<And>ys zs. good (ys @ zs) \<Longrightarrow> good ys"
  shows "good (ys @ page) \<Longrightarrow>
    outcomes (keeping (I ys x)) (visit_programs visit page cursor seen x)
      (\<lambda>(cursor', seen', x') e. keeping (I (ys @ page) x') e \<and> cursor' = page_end cursor page) (\<lambda>_. keeping S)"
proof (induction page arbitrary: cursor seen x ys)
  case Nil
  then show ?case by (simp add: outcomes_def act_return_def page_end_def)
next
  case (Cons p page)
  let ?next = "(cp_service_locator p, cp_event_locator p)"
  have good: "good ((ys @ [p]) @ page)" using Cons.prems by simp
  have failed: "outcomes (keeping (I ys x)) (act_fail err) Q (\<lambda>_. keeping S)" for err Q
    using weaken [OF closed [OF Cons.prems]] by (auto simp: outcomes_def act_fail_def keeping_def)
  have ends: "page_end ?next page = page_end cursor (p # page)" by (simp add: page_end_def)
  have rest: "outcomes (keeping (I (ys @ [p]) x')) (visit_programs visit page ?next seen' x')
      (\<lambda>(cursor', seen', x') e. keeping (I (ys @ p # page) x') e \<and> cursor' = page_end cursor (p # page)) (\<lambda>_. keeping S)" for x' seen'
    using Cons.IH [OF good, of x' ?next seen'] by (simp add: ends)
  show ?case
    unfolding visit_programs.simps Let_def
    by (rule triple_if [OF failed]) (rule triple_bind [OF visit rest], rule closed [OF good])
qed

lemma each_program_listed:
  assumes stable: "stable_pages av pages"
    and visit: "\<And>ys x p. good (ys @ [p]) \<Longrightarrow>
      outcomes (keeping (I ys x)) (visit x p) (\<lambda>x'. keeping (I (ys @ [p]) x')) (\<lambda>_. keeping S)"
    and weaken: "\<And>ys x t. good ys \<Longrightarrow> I ys x t \<Longrightarrow> S t"
    and closed: "\<And>ys zs. good (ys @ zs) \<Longrightarrow> good ys"
  shows "good (ys @ listed fuel pages cursor) \<Longrightarrow>
    outcomes (keeping (I ys x)) (each_program_from fuel av visit cursor seen x)
      (\<lambda>x'. keeping (I (ys @ listed fuel pages cursor) x')) (\<lambda>_. keeping S)"
proof (induction fuel arbitrary: cursor seen x ys)
  case 0
  then show ?case using weaken by (auto simp: outcomes_def act_fail_def keeping_def)
next
  case (Suc fuel)
  let ?done = "\<lambda>x'. keeping (I (ys @ listed (Suc fuel) pages cursor) x')"
  have failed: "outcomes (keeping (I ys x)) (act_fail err) Q (\<lambda>_. keeping S)" for err Q
    using weaken [OF closed [OF Suc.prems]] by (auto simp: outcomes_def act_fail_def keeping_def)
  have page: "outcomes (keeping (I ys x)) (act_bind (visit_programs visit page cursor seen x) (\<lambda>(cursor, seen, x).
      if length page < max_query_page then act_return x else each_program_from fuel av visit cursor seen x)) ?done (\<lambda>_. keeping S)"
    if page: "pages cursor = Some page" for page
  proof (rule triple_bind)
    let ?rest = "if length page < max_query_page then [] else listed fuel pages (page_end cursor page)"
    have good: "good ((ys @ page) @ ?rest)" using Suc.prems page by simp
    show "outcomes (keeping (I ys x)) (visit_programs visit page cursor seen x)
        (\<lambda>(cursor', seen', x') e. keeping (I (ys @ page) x') e \<and> cursor' = page_end cursor page) (\<lambda>_. keeping S)"
    proof (rule visit_programs_listed [where good = good and I = I and S = S])
      show "outcomes (keeping (I ys x)) (visit x p) (\<lambda>x'. keeping (I (ys @ [p]) x')) (\<lambda>_. keeping S)"
        if "good (ys @ [p])" for ys x p by (rule visit [OF that])
      show "S t" if "good ys" "I ys x t" for ys x t by (rule weaken [OF that])
      show "good ys" if "good (ys @ zs)" for ys zs by (rule closed [OF that])
      show "good (ys @ page)" by (rule closed [OF good])
    qed
    fix result :: "program_cursor \<times> nat \<times> 'a"
    obtain cursor' seen' x' where result: "result = (cursor', seen', x')" by (cases result)
    have "outcomes (keeping (I (ys @ page) x')) (if length page < max_query_page then act_return x' else each_program_from fuel av visit cursor' seen' x')
        ?done (\<lambda>_. keeping S)" if "cursor' = page_end cursor page"
    proof (rule triple_if)
      assume "length page < max_query_page"
      then show "outcomes (keeping (I (ys @ page) x')) (act_return x') ?done (\<lambda>_. keeping S)"
        using page by (auto simp: outcomes_def act_return_def keeping_def)
    next
      assume "\<not> length page < max_query_page"
      then show "outcomes (keeping (I (ys @ page) x')) (each_program_from fuel av visit cursor' seen' x') ?done (\<lambda>_. keeping S)"
        using Suc.IH [of "ys @ page" cursor' x' seen'] good page that by simp
    qed
    then show "outcomes ((\<lambda>(cursor', seen', x') e. keeping (I (ys @ page) x') e \<and> cursor' = page_end cursor page) result)
      ((\<lambda>(cursor, seen, x). if length page < max_query_page then act_return x else each_program_from fuel av visit cursor seen x) result)
      ?done (\<lambda>_. keeping S)"
      unfolding result by (simp add: known_rule)
  qed
  have asked: "outcomes (keeping T) (ask (av_programs av max_query_page cursor)) (\<lambda>answer e. keeping T e \<and> answer = pages cursor) E" for T E
    using keeps_programs [of max_query_page cursor] stable
    by (cases cursor) (simp add: outcomes_def ask_def keeping_def preserved_def stable_pages_def case_prod_beta)
  have answered: "outcomes (\<lambda>e. keeping (I ys x) e \<and> answer = pages cursor)
      (case answer of
         None \<Rightarrow> act_fail ProgramsUnreadable
       | Some page \<Rightarrow>
           if length page > max_query_page then act_fail ProgramsUnreadable
           else act_bind (visit_programs visit page cursor seen x) (\<lambda>(cursor, seen, x).
             if length page < max_query_page then act_return x else each_program_from fuel av visit cursor seen x))
      ?done (\<lambda>_. keeping S)" for answer
    by (rule known_rule, rule triple_option [OF failed], rule triple_if [OF failed], rule page) simp
  show ?case
    unfolding each_program_from.simps
    by (rule ask_bind [OF keeps_live], rule triple_if [OF failed], rule triple_bind [OF asked answered])
qed

lemma both_rule:
  "outcomes P m Q E \<Longrightarrow> outcomes P m Q' E' \<Longrightarrow> outcomes P m (\<lambda>x e. Q x e \<and> Q' x e) (\<lambda>err e. E err e \<and> E' err e)"
  by (fastforce simp: outcomes_def split: prod.splits sum.splits)

lemma take_rules_length:
  "take_rules page after result = Some (result', after') \<Longrightarrow> length result \<le> max_rules \<Longrightarrow>
   length result' = length result + length page \<and> length result' \<le> max_rules"
  by (induction page after result rule: take_rules.induct) (auto split: if_splits)

lemma read_rules_from_rule:
  "max_rules < length result + 128 * fuel \<Longrightarrow> length result \<le> max_rules \<Longrightarrow>
   outcomes (keeping T) (read_rules_from fuel av after result) (\<lambda>rules e. keeping T e \<and> length rules \<le> max_rules) (stopping T)"
proof (induction fuel arbitrary: after result)
  case (Suc fuel)
  have taken: "outcomes (keeping T) (case take_rules page after result of None \<Rightarrow> act_fail RuleOrderInvalid
       | Some (result, after) \<Rightarrow> if length page < 128 then act_return result else read_rules_from fuel av after result)
     (\<lambda>rules e. keeping T e \<and> length rules \<le> max_rules) (stopping T)" if "length page \<le> 128" for page
  proof (cases "take_rules page after result")
    case None
    then show ?thesis by (simp add: fail_rule)
  next
    case (Some found)
    obtain result' after' where found: "found = (result', after')" by fastforce
    from take_rules_length [OF Some [unfolded found] Suc.prems(2)]
    have length: "length result' = length result + length page" "length result' \<le> max_rules" by simp_all
    have "outcomes (keeping T) (act_return result') (\<lambda>rules e. keeping T e \<and> length rules \<le> max_rules) (stopping T)"
      using length by (simp add: outcomes_def act_return_def)
    moreover have "outcomes (keeping T) (read_rules_from fuel av after' result')
        (\<lambda>rules e. keeping T e \<and> length rules \<le> max_rules) (stopping T)" if "\<not> length page < 128"
      using Suc.IH [of result'] Suc.prems(1) that \<open>length page \<le> 128\<close> length by simp
    ultimately show ?thesis by (simp add: Some found)
  qed
  show ?case
    unfolding read_rules_from.simps
    by (auto intro!: ask_bind keeps_rules triple_option triple_if fail_rule taken)
qed simp

lemma read_rules_rule:
  "outcomes (keeping T) (read_rules av) (\<lambda>rules e. keeping T e \<and> length rules \<le> max_rules) (stopping T)"
  unfolding read_rules_def by (rule read_rules_from_rule) (simp_all add: max_rules_def)

lemma take_history_count:
  "take_history page previous count index = Inr (previous', count', index') \<Longrightarrow> count \<le> max_history_items \<Longrightarrow>
   count' = count + length page \<and> count' \<le> max_history_items"
  by (induction page previous count index rule: take_history.induct) (auto split: if_splits)

lemma take_history_error: "take_history page previous count index = Inl err \<Longrightarrow> err \<noteq> PagesWithoutEnd"
  by (induction page previous count index rule: take_history.induct) (auto split: if_splits)

lemma load_history_rule:
  "max_history_items < count + max_history_page * fuel \<Longrightarrow> count \<le> max_history_items \<Longrightarrow>
   outcomes (keeping T) (load_history fuel av before count index) (\<lambda>_. keeping T) (stopping T)"
proof (induction fuel arbitrary: before count index)
  case (Suc fuel)
  have taken: "outcomes (keeping T) (case take_history page before count index of Inl e \<Rightarrow> act_fail e
       | Inr (before, count, index) \<Rightarrow>
           if length page < max_history_page then act_return index else load_history fuel av before count index)
     (\<lambda>_. keeping T) (stopping T)" if "length page \<le> max_history_page" for page
  proof (cases "take_history page before count index")
    case (Inl err)
    then show ?thesis using take_history_error [OF Inl] by (simp add: fail_rule)
  next
    case (Inr found)
    obtain before' count' index' where found: "found = (before', count', index')" by (cases found)
    from take_history_count [OF Inr [unfolded found] Suc.prems(2)]
    have "count' = count + length page" "count' \<le> max_history_items" by simp_all
    then have "outcomes (keeping T) (load_history fuel av before' count' index') (\<lambda>_. keeping T) (stopping T)"
      if "\<not> length page < max_history_page"
      using Suc.IH [of count'] Suc.prems(1) that \<open>length page \<le> max_history_page\<close> by simp
    then show ?thesis by (simp add: Inr found return_rule)
  qed
  show ?case
    unfolding load_history.simps
    by (auto intro!: ask_bind keeps_live keeps_history triple_option triple_if fail_rule taken)
qed simp

lemma load_title_index_rule: "outcomes (keeping T) (load_title_index av prepared) (\<lambda>_. keeping T) (stopping T)"
  unfolding load_title_index_def
  by (auto intro!: triple_return load_history_rule simp: history_pages_def max_history_items_def max_history_page_def)

section \<open>The run\<close>

lemma prepare_rule_rule: "outcomes (keeping T) (prepare_rule av r) (\<lambda>_. keeping T) (stopping T)"
proof -
  have script: "outcomes (keeping T) (script_allowed av script) (\<lambda>_. keeping T) (stopping T)" for script
    unfolding script_allowed_def
    by (cases "av_script av") (auto intro: triple_return ask_rule keeps_script)
  have "outcomes (keeping T) (finish_prepared av p) (\<lambda>_. keeping T) (stopping T)" for p
    unfolding finish_prepared_def Let_def
    by (auto intro!: triple_if triple_return triple_bind [OF script] split: sum.split)
  then show ?thesis
    unfolding prepare_rule_def Let_def by (auto intro: triple_return split: option.split)
qed

lemma prepare_rules_rule:
  assumes "\<And>p t. T t \<Longrightarrow> T (tally_prepared p t)"
  shows "outcomes (keeping T) (prepare_rules av rules) (\<lambda>ps e. keeping T e \<and> length ps = length rules) (stopping T)"
proof (induction rules)
  case Nil
  then show ?case by (simp add: outcomes_def act_return_def)
next
  case (Cons r rules)
  have "outcomes (\<lambda>e. keeping T e \<and> length ps = length rules) (act_return (p # ps))
      (\<lambda>ps e. keeping T e \<and> length ps = length (r # rules)) (stopping T)" for p ps
    by (simp add: outcomes_def act_return_def)
  then show ?case
    unfolding prepare_rules.simps
    by (intro triple_bind [OF prepare_rule_rule] count_seq [where T' = T] assms triple_bind [OF Cons.IH])
qed

lemma count_programs_rule:
  "outcomes (keeping (within_limits programs rules 0 0)) (count_programs av start stop)
    (\<lambda>n e. keeping (within_limits programs rules 0 0) e \<and> n \<le> max_programs_per_run) (stopping (within_limits programs rules 0 0))"
proof (rule triple_post)
  let ?I = "\<lambda>(_ :: nat) (n :: nat) t. within_limits programs rules 0 0 t \<and> n \<le> max_programs_per_run"
  have visit: "outcomes (keeping (?I m n))
       (if program_in_window program start stop
        then (if n + 1 > max_programs_per_run then act_fail ProgramLimitExceeded else act_return (n + 1))
        else act_return n) (\<lambda>n'. keeping (?I (Suc m) n')) (stopping (within_limits programs rules 0 0))" for m n program
    by (auto simp: outcomes_def act_fail_def act_return_def stopping_def keeping_def)
  show "outcomes (keeping (within_limits programs rules 0 0)) (count_programs av start stop)
      (\<lambda>n. keeping (\<lambda>t. \<exists>m\<le>max_program_operation. ?I m n t)) (stopping (within_limits programs rules 0 0))"
    unfolding count_programs_def
    by (rule triple_pre [OF for_each_program_rule [where I = ?I, OF visit]]) (auto simp: keeping_def)
qed (auto simp: keeping_def)

lemma limits_keptI: "within_limits programs rules seen 0 t \<Longrightarrow> seen \<le> max_program_operation \<Longrightarrow> limits_kept t"
proof -
  assume t: "within_limits programs rules seen 0 t" "seen \<le> max_program_operation"
  have "seen * rules \<le> max_program_operation * rules" using t(2) by (rule mult_le_mono1)
  moreover have "ta_comparisons t \<le> seen * rules" "ta_rules t = rules" using t(1) by (simp_all add: within_limits_def)
  ultimately have "ta_comparisons t \<le> max_program_operation * ta_rules t" by (metis order_trans)
  with t show "limits_kept t" by (auto simp: limits_kept_def within_limits_def)
qed

text \<open>Over a catalog that stands still both passes see the same programs.\<close>

lemma stable_unique: "stable_pages av pages \<Longrightarrow> stable_pages av pages' \<Longrightarrow> pages = pages'"
  by (simp add: stable_pages_def fun_eq_iff)

definition counted_in :: "instant \<Rightarrow> instant \<Rightarrow> nat \<Rightarrow> bool" where
  "counted_in start stop n \<longleftrightarrow> n \<le> max_programs_per_run \<and>
     (\<forall>pages. stable_pages av pages \<longrightarrow>
        n = length (filter (\<lambda>p. program_in_window p start stop) (listed program_pages pages ([], []))))"

lemma count_programs_listed:
  assumes "stable_pages av pages"
  shows "outcomes (keeping T) (count_programs av start stop)
    (\<lambda>n _. n = length (filter (\<lambda>p. program_in_window p start stop) (listed program_pages pages ([], [])))) (\<lambda>_ _. True)"
proof -
  let ?in = "\<lambda>p. program_in_window p start stop"
  let ?I = "\<lambda>ys n (_ :: tally). n = length (filter ?in ys)"
  have pass: "outcomes (keeping (?I [] 0)) (count_programs av start stop)
      (\<lambda>n. keeping (?I ([] @ listed program_pages pages ([], [])) n)) (\<lambda>_. keeping (\<lambda>_. True))"
    unfolding count_programs_def for_each_program_def
  proof (rule each_program_listed [OF assms, where good = "\<lambda>_. True" and I = ?I and S = "\<lambda>_. True"])
    fix ys n p
    show "outcomes (keeping (?I ys n))
        (if ?in p then (if n + 1 > max_programs_per_run then act_fail ProgramLimitExceeded else act_return (n + 1))
         else act_return n) (\<lambda>n'. keeping (?I (ys @ [p]) n')) (\<lambda>_. keeping (\<lambda>_. True))"
      by (simp add: outcomes_def act_fail_def act_return_def keeping_def)
  qed auto
  show ?thesis
    by (rule triple_failure, rule triple_post, rule triple_pre, rule pass) (simp_all add: keeping_def)
qed

lemma count_programs_both:
  "outcomes (keeping (within_limits 0 rules 0 0)) (count_programs av start stop)
    (\<lambda>n e. keeping (within_limits 0 rules 0 0) e \<and> counted_in start stop n) (stopping (within_limits 0 rules 0 0))"
proof (cases "\<exists>pages. stable_pages av pages")
  case True
  then obtain pages where pages: "stable_pages av pages" ..
  then have "counted_in start stop n \<longleftrightarrow> n \<le> max_programs_per_run \<and>
      n = length (filter (\<lambda>p. program_in_window p start stop) (listed program_pages pages ([], [])))" for n
    by (auto simp: counted_in_def dest: stable_unique [OF pages])
  then show ?thesis
    by (intro triple_failure [OF triple_post [OF both_rule [OF count_programs_rule count_programs_listed [OF pages]]]]) auto
next
  case False
  then show ?thesis by (intro triple_post [OF count_programs_rule]) (auto simp: counted_in_def)
qed

text \<open>The second pass.\<close>

abbreviation second_pass :: "instant \<Rightarrow> instant \<Rightarrow> title_index \<Rightarrow> prepared_rule list \<Rightarrow> ('s, unit) evaluating" where
  "second_pass t stop index prepared \<equiv> for_each_program av (\<lambda>_ program.
     if \<not> program_in_window program t stop then act_return () else reserve_program av t index program prepared) ()"

lemma second_pass_limits:
  assumes t: "t_utc t" "\<not> is_zero_time t" "0 \<le> unix_milli t" and rules: "length prepared = rules"
  shows "outcomes (keeping (within_limits programs rules 0 0)) (second_pass t stop index prepared)
    (\<lambda>_. keeping limits_kept) (stopping limits_kept)"
proof -
  let ?limits = "\<lambda>seen. within_limits programs rules seen 0"
  have visit: "outcomes (keeping (?limits n)) (if \<not> program_in_window program t stop then act_return ()
      else reserve_program av t index program prepared) (\<lambda>_. keeping (?limits (Suc n))) (stopping limits_kept)"
    if "n < max_program_operation" for n program
  proof (rule triple_if)
    show "outcomes (keeping (?limits n)) (act_return ()) (\<lambda>_. keeping (?limits (Suc n))) (stopping limits_kept)"
      by (auto simp: outcomes_def act_return_def keeping_def within_limits_def)
    show "outcomes (keeping (?limits n)) (reserve_program av t index program prepared) (\<lambda>_. keeping (?limits (Suc n))) (stopping limits_kept)"
      by (rule keeping_weaken [OF reserve_program_rule [OF t]]) (use that rules limits_keptI in auto)
  qed
  show ?thesis
    by (rule triple_post [OF for_each_program_rule [where I = "\<lambda>n _. ?limits n", OF visit]])
      (use limits_keptI in \<open>auto simp: keeping_def\<close>)
qed

lemma second_pass_listed:
  assumes t: "t_utc t" "\<not> is_zero_time t" "0 \<le> unix_milli t" and rules: "length prepared = rules"
    and pages: "stable_pages av pages"
    and count: "n = length (filter (\<lambda>p. program_in_window p t stop) (listed program_pages pages ([], [])))"
  shows "outcomes (keeping (within_limits programs rules 0 0)) (second_pass t stop index prepared)
    (\<lambda>_. keeping (\<lambda>x. \<exists>k\<le>n. within_limits programs rules k 0 x)) (\<lambda>_. keeping (\<lambda>x. \<exists>k\<le>n. within_limits programs rules k 0 x))"
proof -
  let ?in = "\<lambda>p. program_in_window p t stop" and ?all = "listed program_pages pages ([], [])"
  let ?I = "\<lambda>ys (_ :: unit). within_limits programs rules (length (filter ?in ys)) 0"
  let ?S = "\<lambda>x. \<exists>k\<le>n. within_limits programs rules k 0 x"
  let ?good = "\<lambda>ys. \<exists>zs. ys @ zs = ?all"
  have small: "length (filter ?in ys) \<le> n" if good: "?good ys" for ys
  proof -
    obtain zs where zs: "ys @ zs = ?all" using good by blast
    show ?thesis unfolding count zs [symmetric] by simp
  qed
  have visit: "outcomes (keeping (?I ys x)) (if \<not> ?in program then act_return () else reserve_program av t index program prepared)
      (\<lambda>x'. keeping (?I (ys @ [program]) x')) (\<lambda>_. keeping ?S)" if "?good (ys @ [program])" for ys and x :: unit and program
  proof (rule triple_if)
    assume "\<not> ?in program"
    then show "outcomes (keeping (?I ys x)) (act_return ()) (\<lambda>x'. keeping (?I (ys @ [program]) x')) (\<lambda>_. keeping ?S)"
      by (simp add: outcomes_def act_return_def)
  next
    assume "\<not> \<not> ?in program"
    then show "outcomes (keeping (?I ys x)) (reserve_program av t index program prepared)
        (\<lambda>x'. keeping (?I (ys @ [program]) x')) (\<lambda>_. keeping ?S)"
      using small [OF that]
      by (intro triple_failure [OF triple_post [OF reserve_program_rule [OF t]]]) (auto simp: rules stopping_def keeping_def)
  qed
  have pass: "outcomes (keeping (?I [] ())) (second_pass t stop index prepared)
      (\<lambda>x'. keeping (?I ([] @ ?all) x')) (\<lambda>_. keeping ?S)"
    unfolding for_each_program_def
  proof (rule each_program_listed [OF pages, where good = ?good and I = ?I and S = ?S, OF visit])
    show "?S x" if "?good ys" "?I ys u x" for ys and u :: unit and x using small [OF that(1)] that(2) by blast
  qed auto
  show ?thesis
    by (rule triple_post, rule triple_pre, rule pass) (use count in \<open>auto simp: keeping_def\<close>)
qed

abbreviation still :: bool where
  "still \<equiv> \<exists>pages. stable_pages av pages"

lemma steadyI:
  assumes "within_limits programs rules k 0 x" "k \<le> programs" "programs \<le> max_comparisons_per_run div rules \<or> k = 0"
  shows "steady x"
proof -
  have "k * rules \<le> programs * rules" using assms(2) by (rule mult_le_mono1)
  moreover have "k * rules \<le> max_comparisons_per_run"
  proof (cases "k = 0")
    case False
    then have "k * rules \<le> (max_comparisons_per_run div rules) * rules" using assms(2,3) by (intro mult_le_mono1) simp
    also have "\<dots> \<le> max_comparisons_per_run" by simp
    finally show ?thesis .
  qed simp
  moreover have "ta_comparisons x \<le> k * rules" "ta_created x + ta_duplicates x \<le> k" "ta_rules x = rules" "ta_programs x = programs"
    using assms(1) by (simp_all add: within_limits_def)
  ultimately show ?thesis using assms(2) order_trans [of "ta_comparisons x" "k * rules" "programs * rules"]
    by (simp add: steady_def mult.commute)
qed

lemma nothing_compared: "within_limits programs rules 0 0 x \<Longrightarrow> run_kept still x"
  by (auto simp: run_kept_def intro: limits_keptI steadyI)

lemma second_pass_rule:
  assumes "t_utc t" "\<not> is_zero_time t" "0 \<le> unix_milli t" "length prepared = rules"
    and counted: "counted_in t stop programs" "programs \<le> max_comparisons_per_run div rules"
  shows "outcomes (keeping (within_limits programs rules 0 0)) (second_pass t stop index prepared)
    (\<lambda>_. keeping (run_kept still)) (stopping (run_kept still))"
proof (cases still)
  case True
  then obtain pages where pages: "stable_pages av pages" ..
  with counted(1) have n: "programs = length (filter (\<lambda>p. program_in_window p t stop) (listed program_pages pages ([], [])))"
    by (simp add: counted_in_def)
  have "steady x" if "\<exists>k\<le>programs. within_limits programs rules k 0 x" for x
    using that counted(2) by (auto intro: steadyI)
  then show ?thesis
    by (intro triple_failure [OF triple_post [OF both_rule [OF second_pass_limits [OF assms(1-4)] second_pass_listed [OF assms(1-4) pages n]]]])
      (auto simp: keeping_def stopping_def run_kept_def)
next
  case False
  then show ?thesis
    by (intro triple_failure [OF triple_post [OF second_pass_limits [OF assms(1-4)]]])
      (auto simp: keeping_def stopping_def run_kept_def)
qed

lemma evaluate_rules_rule:
  assumes t: "t_utc t" "\<not> is_zero_time t" "0 \<le> unix_milli t" and some: "rules \<noteq> []"
  shows "outcomes (keeping (within_limits 0 (length rules) 0 0)) (evaluate_rules av t rules)
    (\<lambda>_. keeping (run_kept still)) (stopping (run_kept still))"
proof -
  let ?limits = "within_limits 0 (length rules) 0 0" and ?kept = "run_kept still"
  let ?pass = "\<lambda>programs stop index prepared.
    if programs > max_programs_per_run \<or> rules \<noteq> [] \<and> programs > max_comparisons_per_run div length rules
    then act_fail EvaluationLimitExceeded else second_pass t stop index prepared"
  have limit: "outcomes (keeping ?limits) (act_seq (count_up (\<lambda>x. x\<lparr>ta_programs := programs\<rparr>)) (?pass programs stop index prepared))
      (\<lambda>_. keeping ?kept) (stopping ?kept)"
    if counted: "counted_in t stop programs" and prepared: "length prepared = length rules" "rules \<noteq> []" for programs prepared index stop
  proof (rule count_seq [where T' = "within_limits programs (length rules) 0 0"])
    show "within_limits programs (length rules) 0 0 (x\<lparr>ta_programs := programs\<rparr>)" if "?limits x" for x
      using that counted by (auto simp: within_limits_def counted_in_def)
    show "outcomes (keeping (within_limits programs (length rules) 0 0)) (?pass programs stop index prepared)
        (\<lambda>_. keeping ?kept) (stopping ?kept)"
      by (rule triple_if [OF keeping_weaken [OF fail_rule [where T = "within_limits programs (length rules) 0 0"]]])
        (auto intro: nothing_compared second_pass_rule [OF t prepared(1) counted] simp: prepared(2))
  qed
  have counted: "outcomes (keeping ?limits) (act_bind (count_programs av t stop) (\<lambda>programs.
        act_seq (count_up (\<lambda>x. x\<lparr>ta_programs := programs\<rparr>)) (?pass programs stop index prepared)))
      (\<lambda>_. keeping ?kept) (stopping ?kept)"
    if "length prepared = length rules" "rules \<noteq> []" for prepared index stop
    by (rule triple_bind, rule keeping_weaken [OF count_programs_both], assumption, erule nothing_compared)
      (rule known_rule, rule limit [OF _ that])
  have indexed: "outcomes (keeping ?limits) (act_bind (load_title_index av prepared) (\<lambda>index.
        act_bind (count_programs av t stop) (\<lambda>programs.
          act_seq (count_up (\<lambda>x. x\<lparr>ta_programs := programs\<rparr>)) (?pass programs stop index prepared))))
      (\<lambda>_. keeping ?kept) (stopping ?kept)"
    if "length prepared = length rules" "rules \<noteq> []" for prepared stop
    by (rule triple_bind, rule keeping_weaken [OF load_title_index_rule [where T = ?limits]], assumption, erule nothing_compared)
      (rule counted [OF that])
  show ?thesis
    unfolding evaluate_rules_def Let_def
  proof (rule triple_bind)
    show "outcomes (keeping ?limits) (prepare_rules av rules) (\<lambda>ps e. keeping ?limits e \<and> length ps = length rules) (stopping ?kept)"
    proof (rule keeping_weaken [OF prepare_rules_rule [where T = ?limits]])
      show "?limits (tally_prepared p x)" if "?limits x" for p x
        using that by (auto simp: tally_prepared_def within_limits_def)
    qed (auto intro: nothing_compared)
  qed (rule known_rule, rule indexed [OF _ some])
qed

lemma run_evaluation_rule:
  "outcomes (keeping (\<lambda>t. t = empty_tally)) (run_evaluation av) (\<lambda>_. keeping (run_kept still)) (stopping (run_kept still))"
proof -
  let ?start = "\<lambda>t. t = empty_tally"
  have start: "run_kept still empty_tally"
    by (simp add: run_kept_def steady_def limits_kept_def within_limits_def empty_tally_def)
  have ready: "within_limits 0 n 0 0 (empty_tally\<lparr>ta_rules := n\<rparr>)" if "n \<le> max_rules" for n
    using that by (simp add: within_limits_def empty_tally_def)
  have rules: "outcomes (keeping ?start) (act_seq (count_up (\<lambda>t. t\<lparr>ta_rules := length rules\<rparr>))
      (if rules = [] then act_return () else evaluate_rules av (in_utc t) rules)) (\<lambda>_. keeping (run_kept still)) (stopping (run_kept still))"
    if utc: "length rules \<le> max_rules" "\<not> is_zero_time (in_utc t)" "0 \<le> unix_milli (in_utc t)" for rules t
  proof (rule count_seq [where T' = "within_limits 0 (length rules) 0 0"])
    show "outcomes (keeping (within_limits 0 (length rules) 0 0))
        (if rules = [] then act_return () else evaluate_rules av (in_utc t) rules) (\<lambda>_. keeping (run_kept still)) (stopping (run_kept still))"
    proof (rule triple_if)
      show "outcomes (keeping (within_limits 0 (length rules) 0 0)) (act_return ()) (\<lambda>_. keeping (run_kept still)) (stopping (run_kept still))"
        by (auto simp: outcomes_def act_return_def keeping_def intro: nothing_compared)
      show "outcomes (keeping (within_limits 0 (length rules) 0 0)) (evaluate_rules av (in_utc t) rules)
          (\<lambda>_. keeping (run_kept still)) (stopping (run_kept still))"
        if "rules \<noteq> []"
        by (rule evaluate_rules_rule [OF _ utc(2,3) that]) (simp add: in_utc_def)
    qed
  qed (use utc ready in auto)
  have readable: "outcomes (keeping ?start) (act_bind (read_rules av) (\<lambda>rules. act_seq (count_up (\<lambda>t. t\<lparr>ta_rules := length rules\<rparr>))
      (if rules = [] then act_return () else evaluate_rules av (in_utc t) rules))) (\<lambda>_. keeping (run_kept still)) (stopping (run_kept still))"
    if "\<not> is_zero_time (in_utc t)" "0 \<le> unix_milli (in_utc t)" for t
  proof (rule triple_bind)
    show "outcomes (keeping ?start) (read_rules av) (\<lambda>rules e. keeping ?start e \<and> length rules \<le> max_rules) (stopping (run_kept still))"
      by (rule keeping_weaken [OF read_rules_rule]) (use start in auto)
    show "outcomes (\<lambda>e. keeping ?start e \<and> length rules \<le> max_rules)
        (act_seq (count_up (\<lambda>t. t\<lparr>ta_rules := length rules\<rparr>))
          (if rules = [] then act_return () else evaluate_rules av (in_utc t) rules)) (\<lambda>_. keeping (run_kept still)) (stopping (run_kept still))"
      for rules by (rule known_rule) (rule rules [OF _ that])
  qed
  show ?thesis
    unfolding run_evaluation_def Let_def
    by (rule ask_bind [OF keeps_now], rule triple_if, rule keeping_weaken [OF fail_rule [where T = ?start]])
      (auto simp: start intro: readable)
qed

end

section \<open>The properties of a run\<close>

interpretation any: evaluator_world av False "\<lambda>_. True" for av
  by unfold_locales (simp_all add: preserved_def)

definition start_evaluation :: "'s \<Rightarrow> 's evaluation" where
  "start_evaluation s = \<lparr>ev_world = s, ev_tally = empty_tally\<rparr>"

text \<open>C24. (bounds): whatever the catalog, the store and the clock answer, and however the run ends, it ends
  by itself (pages are never read without end) with at most 128 rules, 32768 programs in the window and 256 reservations,
  and it reports the limit only when all 256 reservations were made. Over a catalog whose pages do not change during the run,
  as those of one completed generation do not, it makes no more comparisons than rules times programs in the window and never
  more than 4194304, and it makes no more reservations and finds no more duplicates, together, than there are programs
  in the window. Over a catalog that changes between the count and the evaluation the comparisons are at most 262144 for each
  rule.\<close>

theorem evaluation_bounded:
  "case run_evaluation av (start_evaluation s) of (outcome, e) \<Rightarrow>
     outcome \<noteq> Inl PagesWithoutEnd \<and> ta_rules (ev_tally e) \<le> 128 \<and> ta_programs (ev_tally e) \<le> 32768 \<and>
     (if ta_limit_reached (ev_tally e) then ta_created (ev_tally e) = 256 else ta_created (ev_tally e) \<le> 256) \<and>
     ((\<exists>pages. \<forall>cursor w. fst (av_programs av max_query_page cursor w) = pages cursor) \<longrightarrow>
        ta_comparisons (ev_tally e) \<le> ta_rules (ev_tally e) * ta_programs (ev_tally e) \<and>
        ta_comparisons (ev_tally e) \<le> 4194304 \<and>
        ta_created (ev_tally e) + ta_duplicates (ev_tally e) \<le> ta_programs (ev_tally e)) \<and>
     ta_created (ev_tally e) + ta_duplicates (ev_tally e) \<le> 262144 \<and>
     ta_comparisons (ev_tally e) \<le> 262144 * ta_rules (ev_tally e)"
proof -
  obtain outcome e where run: "run_evaluation av (start_evaluation s) = (outcome, e)" by fastforce
  have "any.keeping (\<lambda>t. t = empty_tally) (start_evaluation s)"
    by (simp add: any.keeping_def start_evaluation_def)
  with any.run_evaluation_rule [of av] run
  have "run_kept (\<exists>pages. stable_pages av pages) (ev_tally e) \<and> outcome \<noteq> Inl PagesWithoutEnd"
    by (cases outcome) (auto simp: any.keeping_def any.stopping_def dest: tripleD)
  then show ?thesis
    by (auto simp: run run_kept_def stable_pages_def limits_kept_def within_limits_def steady_def max_rules_def
        max_programs_per_run_def max_reservations_per_run_def max_comparisons_per_run_def max_program_operation_def)
qed

section \<open>What a run creates\<close>

text \<open>An evaluator whose store keeps the reservations it was asked to create, in order.\<close>

definition beside :: "('s \<Rightarrow> 'a \<times> 's) \<Rightarrow> 's \<times> 'l \<Rightarrow> 'a \<times> 's \<times> 'l" where
  "beside f s = (case f (fst s) of (x, s') \<Rightarrow> (x, s', snd s))"

definition log_creations :: "'s evaluator \<Rightarrow> ('s \<times> reservation list) evaluator" where
  "log_creations av =
     \<lparr>av_text = av_text av, av_now = beside (av_now av), av_live = beside (av_live av), av_new_id = beside (av_new_id av),
      av_rules = (\<lambda>n i. beside (av_rules av n i)), av_history = (\<lambda>n i. beside (av_history av n i)),
      av_create = (\<lambda>number r s. case av_create av number r (fst s) of (x, s') \<Rightarrow> (x, s', snd s @ [r])),
      av_disable = (\<lambda>ident t. beside (av_disable av ident t)), av_programs = (\<lambda>n cursor. beside (av_programs av n cursor)),
      av_request = (\<lambda>p priority follow. beside (av_request av p priority follow)),
      av_find = (\<lambda>request. beside (av_find av request)), av_one_seg = (\<lambda>snapshot. beside (av_one_seg av snapshot)),
      av_script = map_option (\<lambda>check script. beside (check script)) (av_script av),
      av_changed = map_option (\<lambda>f s. (f (fst s), snd s)) (av_changed av)\<rparr>"

definition creations_valid :: "'s \<times> reservation list \<Rightarrow> bool" where
  "creations_valid s \<longleftrightarrow> list_all (\<lambda>r. validate_new r = Inr ()) (snd s)"

lemma beside_preserved: "preserved creations_valid (beside f)"
  by (simp add: preserved_def creations_valid_def beside_def split: prod.split)

lemma fst_beside: "fst (beside f s) = fst (f (fst s))"
  by (simp add: beside_def split: prod.split)

lemma creations_logged:
  assumes "\<And>request s p. fst (av_find av request s) = Some p \<Longrightarrow> snapshot_for request p" "\<And>s. fst (av_new_id av s) \<noteq> Some 0"
  shows "evaluator_world (log_creations av) True creations_valid"
proof unfold_locales
  show "preserved creations_valid (av_create (log_creations av) number r)" if "True \<Longrightarrow> validate_new r = Inr ()" for number r
    using that by (simp add: preserved_def creations_valid_def log_creations_def split: prod.split)
  show "preserved creations_valid (check script)" if "av_script (log_creations av) = Some check" for check script
    using that by (auto simp: log_creations_def beside_preserved)
  show "preserved creations_valid (\<lambda>s. ((), f s))" if "av_changed (log_creations av) = Some f" for f
    using that by (auto simp: log_creations_def preserved_def creations_valid_def)
qed (use assms in \<open>simp_all add: log_creations_def beside_preserved fst_beside\<close>)

text \<open>As long as the catalog answers with programs that stand for the request asked
  for and identifiers are never zero, every reservation that a run hands to the store, on whatever path and however the
  run ends, passes the validation of a new reservation.\<close>

lemma reliable_evaluation:
  assumes "\<And>request s p. fst (av_find av request s) = Some p \<Longrightarrow> snapshot_for request p" "\<And>s. fst (av_new_id av s) \<noteq> Some 0"
  shows "list_all (\<lambda>r. validate_new r = Inr ())
    (snd (ev_world (snd (run_evaluation (log_creations av) (start_evaluation (s, []))))))"
proof -
  obtain outcome e where run: "run_evaluation (log_creations av) (start_evaluation (s, [])) = (outcome, e)" by fastforce
  have world: "evaluator_world (log_creations av) True creations_valid" by (rule creations_logged [OF assms])
  note ends = tripleD [OF evaluator_world.run_evaluation_rule [OF world], of "start_evaluation (s, [])"]
  have "creations_valid (ev_world e)"
    using ends run by (cases outcome)
      (simp_all add: evaluator_world.keeping_def [OF world] evaluator_world.stopping_def [OF world] start_evaluation_def
        creations_valid_def)
  then show ?thesis by (simp add: run creations_valid_def)
qed

section \<open>A run on one rule and one program\<close>

definition sample_search :: search_condition where
  "sample_search = \<lparr>sc_enabled = True, sc_case_sensitive = True, sc_regex = False, sc_title_only = True, sc_fuzzy = False,
     sc_keyword = [65], sc_exclude = [], sc_contents = [], sc_dates = [], sc_services = [], sc_video = [], sc_audio = [],
     sc_exclude_contents = False, sc_exclude_dates = False, sc_free_access = 0, sc_check_recorded_title = False,
     sc_check_recorded_all_services = False, sc_check_recorded_days = 0, sc_minimum_minutes = 0, sc_maximum_minutes = 0\<rparr>"

definition sample_settings :: recording_settings where
  "sample_settings = \<lparr>rs_mode = 1, rs_priority = 2, rs_suspend = 4, rs_partial_mode = 0, rs_follow = False, rs_exact = False,
     rs_reboot = False, rs_continue = False, rs_service_mode = 0, rs_tuner_id = 0, rs_batch = [], rs_folders = [],
     rs_partial_folders = [], rs_start_margin = None, rs_end_margin = None\<rparr>"

definition sample_rule :: rule where
  "sample_rule = \<lparr>ru_id = 1, ru_number = 1, ru_version = 1, ru_search = sample_search, ru_recording = sample_settings,
     ru_reservation_count = 0, ru_created = 0, ru_updated = 0\<rparr>"

definition sample_current :: current_program where
  "sample_current = \<lparr>cp_instance_id = 1, cp_revision_id = 2, cp_service_locator = [49], cp_event_locator = [50],
     cp_raw_event_id = Some 7, cp_revision_number = 1, cp_hash = [],
     cp_material = \<lparr>mt_start = Some 1600000000000, mt_duration = Some 1800000, mt_title = Some [65, 0x2f, 66],
       mt_description = None, mt_free_access = FreeUnknown, mt_validation = ValidationValid,
       mt_metadata = \<lparr>md_extended = [], md_genres = [], md_video = None, md_audios = []\<rparr>\<rparr>,
     cp_classification = SameContent\<rparr>"

definition sample_request :: "byte \<Rightarrow> bool \<Rightarrow> reservation_request" where
  "sample_request priority follow = \<lparr>rq_network_id = 4, rq_transport_stream_id = 5, rq_service_id = 6, rq_event_id = 7,
     rq_start = \<lparr>t_nanos = 1600000000 * second, t_utc = True\<rparr>, rq_duration = 30 * minute, rq_priority = priority,
     rq_requested_follow = follow, rq_disabled = False, rq_margins = None, rq_output = \<lparr>o_folder = [], o_template = []\<rparr>,
     rq_one_seg_output = None, rq_components = 0, rq_post_recording = \<lparr>pr_mode = 0, pr_script = []\<rparr>\<rparr>"

text \<open>One rule and one program; the state counts the identifiers given.\<close>

definition sample_evaluator :: "nat evaluator" where
  "sample_evaluator =
     \<lparr>av_text = \<lparr>tl_compile = (\<lambda>_. None), tl_lower = (\<lambda>v. v)\<rparr>, av_now = (\<lambda>n. (\<lparr>t_nanos = 1599999000 * second, t_utc = True\<rparr>, n)),
      av_live = (\<lambda>n. (True, n)), av_new_id = (\<lambda>n. (Some 9, n + 1)), av_rules = (\<lambda>_ _ n. (Some [sample_rule], n)),
      av_history = (\<lambda>_ _ n. (Some [], n)), av_create = (\<lambda>_ _ n. (ReservationCreated, n)), av_disable = (\<lambda>_ _ n. (Some False, n)),
      av_programs = (\<lambda>_ _ n. (Some [sample_current], n)),
      av_request = (\<lambda>_ priority follow n. (Some (sample_request priority follow), n)),
      av_find = (\<lambda>request n. (if rq_start request = rq_start (sample_request 1 False) \<and> rq_duration request = 30 * minute
         then Some sample_program else None, n)),
      av_one_seg = (\<lambda>_ n. (None, n)), av_script = None, av_changed = None\<rparr>"

lemma sample_found:
  "fst (av_find sample_evaluator request s) = Some p \<Longrightarrow> snapshot_for request p"
  by (auto simp: sample_evaluator_def snapshot_for_def sample_request_def sample_program_def program_text_ok_def valid_text_def
      text_eval split: if_splits)

theorem evaluation_bounded_witness:
  "case run_evaluation sample_evaluator (start_evaluation 0) of (outcome, e) \<Rightarrow>
     ta_comparisons (ev_tally e) \<le> ta_rules (ev_tally e) * ta_programs (ev_tally e)"
proof -
  have "\<exists>pages. \<forall>cursor w. fst (av_programs sample_evaluator max_query_page cursor w) = pages cursor"
    by (rule exI [of _ "\<lambda>_. Some [sample_current]"]) (simp add: sample_evaluator_def)
  with evaluation_bounded [of sample_evaluator 0] show ?thesis by auto
qed

end
