(* ===== verification/CatalogMetadata.thy ===== *)
theory CatalogMetadata
  imports ProgramMatcher "HOL-Library.Product_Lexorder" "HOL-Library.List_Lexorder"
begin

text \<open>
  \<open>internal/core/catalogmodel/metadata.go\<close>: the details of a program, their normal form, and the binary form in which
  the catalog stores them.  A \<open>*bytes.Reader\<close> is the list of bytes not read yet; the \<open>bytes.Buffer\<close> written to is the
  list of bytes written.  The records are those of \<open>ProgramMatcher\<close>.
\<close>

section \<open>Big-endian numbers\<close>

definition be_put :: "nat \<Rightarrow> 'a::len word \<Rightarrow> bytes" where
  "be_put n w = rev (le_put n w)"

definition be_get :: "bytes \<Rightarrow> 'a::len word" where
  "be_get bs = le_get (rev bs)"

lemma length_be_put [simp]: "length (be_put n w) = n"
  by (simp add: be_put_def)

lemma be_get_put: "LENGTH('a) \<le> 8 * n \<Longrightarrow> be_get (be_put n (w :: 'a::len word)) = w"
  by (simp add: be_get_def be_put_def le_get_put)

lemma be_put_get: "length bs = n \<Longrightarrow> 8 * n \<le> LENGTH('a) \<Longrightarrow> be_put n (be_get bs :: 'a::len word) = bs"
  by (simp add: be_put_def be_get_def le_put_get)

section \<open>Errors and limits\<close>

datatype metadata_error =
  TooMany string | NotUtf8 string | TextOverLimit string | InvalidSamplingRate | InvalidAudioLanguage | MetadataOverLimit
  | InvalidPrefix | TruncatedText string | InvalidTextSize string | InvalidText string | TruncatedCount string
  | TruncatedGenre | InvalidVideoPresence | TruncatedVideo | TruncatedAudio | InvalidAudio | InvalidLanguageCount
  | TrailingMetadata | NonCanonicalMetadata

definition metadata_prefix :: bytes where "metadata_prefix = ascii ''SZMETA1''"
definition max_metadata_bytes :: nat where "max_metadata_bytes = 262144"
definition max_extended_items :: nat where "max_extended_items = 64"
definition max_heading_bytes :: nat where "max_heading_bytes = 4096"
definition max_body_bytes :: nat where "max_body_bytes = 65536"
definition max_genres :: nat where "max_genres = 64"
definition max_audios :: nat where "max_audios = 16"
definition max_audio_languages :: nat where "max_audio_languages = 2"

lemmas metadata_limits = max_extended_items_def max_genres_def max_audios_def max_audio_languages_def
  max_heading_bytes_def max_body_bytes_def

definition valid_sampling_rate :: "u32 \<Rightarrow> bool" where
  "valid_sampling_rate rate \<longleftrightarrow> rate \<in> {16000, 22050, 24000, 32000, 44100, 48000}"

definition valid_language :: "bytes \<Rightarrow> bool" where
  "valid_language language \<longleftrightarrow> language \<in> ascii ` {''jpn'', ''eng'', ''deu'', ''fra'', ''ita'', ''rus'', ''zho'', ''kor'', ''spa'', ''etc''}"

lemma valid_language_length: "valid_language language \<Longrightarrow> length language = 3"
  by (auto simp: valid_language_def ascii_def)

definition empty_metadata :: program_metadata where
  "empty_metadata = \<lparr>md_extended = [], md_genres = [], md_video = None, md_audios = []\<rparr>"

definition metadata_empty :: "program_metadata \<Rightarrow> bool" where
  "metadata_empty m \<longleftrightarrow> length (md_extended m) = 0 \<and> length (md_genres m) = 0 \<and> md_video m = None \<and> length (md_audios m) = 0"

lemma metadata_empty_iff: "metadata_empty m \<longleftrightarrow> m = empty_metadata"
  by (cases m) (simp add: metadata_empty_def empty_metadata_def)

section \<open>The normal form\<close>

text \<open>
  \<open>sort.Slice\<close> with a comparison.  The comparisons of this file are strict total orders on what they sort, so that the
  result does not depend on the algorithm; here it is sorting by insertion.
\<close>

primrec insert_less :: "('a \<Rightarrow> 'a \<Rightarrow> bool) \<Rightarrow> 'a \<Rightarrow> 'a list \<Rightarrow> 'a list" where
  "insert_less before x [] = [x]"
| "insert_less before x (y # ys) = (if before y x then y # insert_less before x ys else x # y # ys)"

definition sort_slice :: "('a \<Rightarrow> 'a \<Rightarrow> bool) \<Rightarrow> 'a list \<Rightarrow> 'a list" where
  "sort_slice before xs = foldr (insert_less before) xs []"

definition item_less :: "extended_item \<Rightarrow> extended_item \<Rightarrow> bool" where
  "item_less l r = (if ei_heading l \<noteq> ei_heading r then ei_heading l < ei_heading r else ei_body l < ei_body r)"

definition genre_less :: "genre \<Rightarrow> genre \<Rightarrow> bool" where
  "genre_less l r =
     (if ge_level1 l \<noteq> ge_level1 r then ge_level1 l < ge_level1 r
      else if ge_level2 l \<noteq> ge_level2 r then ge_level2 l < ge_level2 r
      else if ge_user1 l \<noteq> ge_user1 r then ge_user1 l < ge_user1 r
      else ge_user2 l < ge_user2 r)"

definition audio_less :: "audio \<Rightarrow> audio \<Rightarrow> bool" where
  "audio_less l r =
     (if au_component_type l \<noteq> au_component_type r then au_component_type l < au_component_type r
      else if au_component_tag l \<noteq> au_component_tag r then au_component_tag l < au_component_tag r
      else if au_main l \<noteq> au_main r then \<not> au_main l
      else if au_sampling_rate l \<noteq> au_sampling_rate r then au_sampling_rate l < au_sampling_rate r
      else au_languages l < au_languages r)"

definition validate_metadata_text :: "nat \<Rightarrow> string \<Rightarrow> bytes \<Rightarrow> (metadata_error, unit) result" where
  "validate_metadata_text maximum field v =
     (if \<not> valid_string v then Inl (NotUtf8 field)
      else if length v > maximum then Inl (TextOverLimit field)
      else Inr ())"

fun validate_items :: "extended_item list \<Rightarrow> (metadata_error, unit) result" where
  "validate_items [] = Inr ()"
| "validate_items (item # items) =
     result_bind (validate_metadata_text max_heading_bytes ''extended heading'' (ei_heading item)) (\<lambda>_.
     result_bind (validate_metadata_text max_body_bytes ''extended body'' (ei_body item)) (\<lambda>_.
     validate_items items))"

definition normalize_audio :: "audio \<Rightarrow> (metadata_error, audio) result" where
  "normalize_audio a =
     (if \<not> valid_sampling_rate (au_sampling_rate a) then Inl InvalidSamplingRate
      else if length (au_languages a) > max_audio_languages then Inl (TooMany ''audio languages'')
      else if list_ex (\<lambda>l. \<not> valid_language l) (au_languages a) then Inl InvalidAudioLanguage
      else Inr (a\<lparr>au_languages := remdups_adj (sort_slice (\<lambda>l r. l < r) (au_languages a))\<rparr>))"

fun normalize_audios :: "audio list \<Rightarrow> (metadata_error, audio list) result" where
  "normalize_audios [] = Inr []"
| "normalize_audios (a # audios) =
     result_bind (normalize_audio a) (\<lambda>a'. result_bind (normalize_audios audios) (\<lambda>as. Inr (a' # as)))"

definition normalize_metadata :: "program_metadata \<Rightarrow> (metadata_error, program_metadata) result" where
  "normalize_metadata m =
     (if length (md_extended m) > max_extended_items then Inl (TooMany ''extended items'')
      else if length (md_genres m) > max_genres then Inl (TooMany ''genres'')
      else if length (md_audios m) > max_audios then Inl (TooMany ''audios'')
      else
        result_bind (validate_items (md_extended m)) (\<lambda>_.
        result_bind (normalize_audios (md_audios m)) (\<lambda>audios.
        Inr \<lparr>md_extended = remdups_adj (sort_slice item_less (md_extended m)),
             md_genres = remdups_adj (sort_slice genre_less (md_genres m)),
             md_video = md_video m,
             md_audios = remdups_adj (sort_slice audio_less audios)\<rparr>)))"

section \<open>The binary form\<close>

definition put_text :: "bytes \<Rightarrow> bytes" where
  "put_text v = be_put 4 (of_nat (length v) :: u32) @ v"

definition put_item :: "extended_item \<Rightarrow> bytes" where
  "put_item item = put_text (ei_heading item) @ put_text (ei_body item)"

definition put_genre :: "genre \<Rightarrow> bytes" where
  "put_genre g = [ge_level1 g, ge_level2 g, ge_user1 g, ge_user2 g]"

fun put_video :: "video option \<Rightarrow> bytes" where
  "put_video None = [0]"
| "put_video (Some v) = [1, vi_stream_content v, vi_component_type v]"

definition put_audio :: "audio \<Rightarrow> bytes" where
  "put_audio a =
     [au_component_type a, au_component_tag a, if au_main a then 1 else 0] @ be_put 4 (au_sampling_rate a) @
     [of_nat (length (au_languages a))] @ concat (au_languages a)"

definition put_counted :: "('a \<Rightarrow> bytes) \<Rightarrow> 'a list \<Rightarrow> bytes" where
  "put_counted put xs = be_put 2 (of_nat (length xs) :: u16) @ concat (map put xs)"

definition put_metadata :: "program_metadata \<Rightarrow> bytes" where
  "put_metadata m =
     metadata_prefix @ put_counted put_item (md_extended m) @ put_counted put_genre (md_genres m) @ put_video (md_video m) @
     put_counted put_audio (md_audios m)"

definition encode_metadata :: "program_metadata \<Rightarrow> (metadata_error, bytes) result" where
  "encode_metadata m =
     result_bind (normalize_metadata m) (\<lambda>n.
       if metadata_empty n then Inr []
       else if length (put_metadata n) > max_metadata_bytes then Inl MetadataOverLimit
       else Inr (put_metadata n))"

section \<open>Reading it back\<close>

type_synonym 'a metadata_read = "bytes \<Rightarrow> (metadata_error, 'a \<times> bytes) result"

definition get_return :: "'a \<Rightarrow> 'a metadata_read" where
  "get_return x bs = Inr (x, bs)"

definition get_fail :: "metadata_error \<Rightarrow> 'a metadata_read" where
  "get_fail e bs = Inl e"

definition get_bind :: "'a metadata_read \<Rightarrow> ('a \<Rightarrow> 'b metadata_read) \<Rightarrow> 'b metadata_read" where
  "get_bind g f bs = (case g bs of Inl e \<Rightarrow> Inl e | Inr (x, rest) \<Rightarrow> f x rest)"

text \<open>\<open>io.ReadFull\<close> of \<open>n\<close> bytes, and \<open>ReadByte\<close>.\<close>

definition get_full :: "metadata_error \<Rightarrow> nat \<Rightarrow> bytes metadata_read" where
  "get_full e n bs = (if length bs < n then Inl e else Inr (take n bs, drop n bs))"

definition get_byte :: "metadata_error \<Rightarrow> byte metadata_read" where
  "get_byte e bs = (case bs of [] \<Rightarrow> Inl e | b # rest \<Rightarrow> Inr (b, rest))"

definition get_text :: "nat \<Rightarrow> string \<Rightarrow> bytes metadata_read" where
  "get_text maximum field =
     get_bind (get_full (TruncatedText field) 4) (\<lambda>raw rest.
       let amount = unat (be_get raw :: u32) in
       if amount > maximum \<or> amount > length rest then Inl (InvalidTextSize field)
       else get_bind (get_full (InvalidText field) amount)
         (\<lambda>v. if \<not> valid_string v then get_fail (InvalidText field) else get_return v) rest)"

definition get_count :: "nat \<Rightarrow> string \<Rightarrow> nat metadata_read" where
  "get_count maximum field =
     get_bind (get_full (TruncatedCount field) 2) (\<lambda>raw.
       let count = unat (be_get raw :: u16) in
       if count > maximum then get_fail (TooMany field) else get_return count)"

primrec get_items :: "'a metadata_read \<Rightarrow> nat \<Rightarrow> 'a list metadata_read" where
  "get_items get 0 = get_return []"
| "get_items get (Suc n) = get_bind get (\<lambda>x. get_bind (get_items get n) (\<lambda>xs. get_return (x # xs)))"

definition get_counted :: "'a metadata_read \<Rightarrow> nat \<Rightarrow> string \<Rightarrow> 'a list metadata_read" where
  "get_counted get maximum field = get_bind (get_count maximum field) (get_items get)"

definition get_item :: "extended_item metadata_read" where
  "get_item =
     get_bind (get_text max_heading_bytes ''extended heading'') (\<lambda>heading.
     get_bind (get_text max_body_bytes ''extended body'') (\<lambda>body.
     get_return \<lparr>ei_heading = heading, ei_body = body\<rparr>))"

definition get_genre :: "genre metadata_read" where
  "get_genre =
     get_bind (get_full TruncatedGenre 4) (\<lambda>raw.
     get_return \<lparr>ge_level1 = raw ! 0, ge_level2 = raw ! 1, ge_user1 = raw ! 2, ge_user2 = raw ! 3\<rparr>)"

definition get_video :: "video option metadata_read" where
  "get_video =
     get_bind (get_byte InvalidVideoPresence) (\<lambda>present.
       if present > 1 then get_fail InvalidVideoPresence
       else if present = 1 then
         get_bind (get_full TruncatedVideo 2) (\<lambda>raw.
         get_return (Some \<lparr>vi_stream_content = raw ! 0, vi_component_type = raw ! 1\<rparr>))
       else get_return None)"

definition get_language :: "bytes metadata_read" where
  "get_language =
     get_bind (get_full InvalidAudioLanguage 3) (\<lambda>language.
       if \<not> valid_language language then get_fail InvalidAudioLanguage else get_return language)"

definition get_audio :: "audio metadata_read" where
  "get_audio =
     get_bind (get_full TruncatedAudio 7) (\<lambda>raw.
       if raw ! 2 > 1 \<or> \<not> valid_sampling_rate (be_get (slice 3 7 raw)) then get_fail InvalidAudio
       else
         get_bind (get_byte InvalidLanguageCount) (\<lambda>count.
           if unat count > max_audio_languages then get_fail InvalidLanguageCount
           else
             get_bind (get_items get_language (unat count)) (\<lambda>languages.
             get_return \<lparr>au_component_type = raw ! 0, au_component_tag = raw ! 1, au_main = (raw ! 2 = 1),
               au_sampling_rate = be_get (slice 3 7 raw), au_languages = languages\<rparr>)))"

definition get_metadata :: "program_metadata metadata_read" where
  "get_metadata =
     get_bind (get_full InvalidPrefix 7) (\<lambda>prefix.
       if prefix \<noteq> metadata_prefix then get_fail InvalidPrefix
       else
         get_bind (get_counted get_item max_extended_items ''extended items'') (\<lambda>extended.
         get_bind (get_counted get_genre max_genres ''genres'') (\<lambda>genres.
         get_bind get_video (\<lambda>video.
         get_bind (get_counted get_audio max_audios ''audios'') (\<lambda>audios.
         get_return \<lparr>md_extended = extended, md_genres = genres, md_video = video, md_audios = audios\<rparr>)))))"

definition decode_metadata :: "bytes \<Rightarrow> (metadata_error, program_metadata) result" where
  "decode_metadata encoded =
     (if length encoded = 0 then Inr empty_metadata
      else if length encoded > max_metadata_bytes then Inl MetadataOverLimit
      else
        result_bind (get_metadata encoded) (\<lambda>(m, rest).
          if length rest \<noteq> 0 then Inl TrailingMetadata
          else if encode_metadata m \<noteq> Inr encoded then Inl NonCanonicalMetadata
          else Inr m))"

end
