(* ===== verification/CatalogMetadataSpec.thy ===== *)
theory CatalogMetadataSpec
  imports CatalogMetadata
begin

text \<open>
  The binary form of \<open>metadata.go\<close> is canonical.  A codec is a writer and a reader that are inverse to each other on the
  values it accepts; each part of the format is one, and lists of a codec with their count are a codec again.
\<close>

section \<open>Codecs\<close>

text \<open>Writers whose output cannot be confused with that of another value, whatever follows.\<close>

locale prefix_code =
  fixes put :: "'a \<Rightarrow> bytes" and wf :: "'a \<Rightarrow> bool"
  assumes put_cancel: "wf x \<Longrightarrow> wf y \<Longrightarrow> put x @ r = put y @ s \<Longrightarrow> x = y \<and> r = s"
begin

lemma put_inject: "wf x \<Longrightarrow> wf y \<Longrightarrow> put x = put y \<longleftrightarrow> x = y"
  using put_cancel [of x y "[]" "[]"] by auto

end

locale byte_codec =
  fixes put :: "'a \<Rightarrow> bytes" and get :: "'a metadata_read" and wf :: "'a \<Rightarrow> bool"
  assumes get_put: "wf x \<Longrightarrow> get (put x @ rest) = Inr (x, rest)"
    and put_get: "get bs = Inr (x, rest) \<Longrightarrow> wf x \<and> bs = put x @ rest"
begin

lemma get_iff: "get bs = Inr (x, rest) \<longleftrightarrow> wf x \<and> bs = put x @ rest"
  using get_put put_get by blast

lemma get_items_iff: "get_items get n bs = Inr (xs, rest) \<longleftrightarrow> length xs = n \<and> list_all wf xs \<and> bs = concat (map put xs) @ rest"
proof (induction n arbitrary: bs xs)
  case 0
  then show ?case by (auto simp: get_return_def)
next
  case (Suc n)
  have "get_items get (Suc n) bs = Inr (xs, rest) \<longleftrightarrow>
      (\<exists>y mid ys. get bs = Inr (y, mid) \<and> get_items get n mid = Inr (ys, rest) \<and> xs = y # ys)"
    by (auto simp: get_bind_def get_return_def split: sum.splits prod.splits)
  also have "\<dots> \<longleftrightarrow> (\<exists>y mid ys. (wf y \<and> bs = put y @ mid) \<and> (length ys = n \<and> list_all wf ys \<and> mid = concat (map put ys) @ rest) \<and> xs = y # ys)"
    by (simp only: Suc.IH get_iff)
  also have "\<dots> \<longleftrightarrow> length xs = Suc n \<and> list_all wf xs \<and> bs = concat (map put xs) @ rest"
    by (cases xs) auto
  finally show ?case .
qed

end

sublocale byte_codec \<subseteq> prefix_code put wf
proof
  fix x y r s
  assume wf: "wf x" "wf y" and eq: "put x @ r = put y @ s"
  have "get (put x @ r) = Inr (y, s)" unfolding eq by (rule get_put [OF wf(2)])
  then show "x = y \<and> r = s" by (simp add: get_put [OF wf(1)])
qed

section \<open>Numbers, texts and counts\<close>

lemma get_full_iff: "get_full e n bs = Inr (raw, rest) \<longleftrightarrow> length raw = n \<and> bs = raw @ rest"
proof -
  have "length (take n bs) = n \<and> bs = take n bs @ drop n bs" if "\<not> length bs < n" using that by simp
  then show ?thesis by (auto simp: get_full_def)
qed

lemma get_byte_iff: "get_byte e bs = Inr (b, rest) \<longleftrightarrow> bs = b # rest"
  by (auto simp: get_byte_def split: list.splits)

lemma get_bind_iff: "get_bind g f bs = Inr (y, rest) \<longleftrightarrow> (\<exists>x mid. g bs = Inr (x, mid) \<and> f x mid = Inr (y, rest))"
  by (auto simp: get_bind_def split: sum.splits prod.splits)

lemma get_unless_iff: "(if c then get_fail e else g) bs = Inr r \<longleftrightarrow> \<not> c \<and> g bs = Inr r"
  by (simp add: get_fail_def)

lemma unless_iff: "(if c then Inl e else r) = Inr x \<longleftrightarrow> \<not> c \<and> r = Inr x"
  by simp

lemmas get_iffs = get_unless_iff unless_iff get_bind_iff get_full_iff get_byte_iff get_return_def get_fail_def

lemma unat_be_get16: "length raw = 2 \<Longrightarrow> unat (be_get raw :: u16) = n \<longleftrightarrow> n < 65536 \<and> raw = be_put 2 (of_nat n :: u16)"
proof -
  assume raw: "length raw = 2"
  have "unat (be_get raw :: u16) < 65536" using unsigned_less [of "be_get raw :: u16", where 'a = nat] by simp
  moreover have "be_put 2 (be_get raw :: u16) = raw" using raw by (intro be_put_get) simp_all
  moreover have "(be_get (be_put 2 (of_nat n :: u16)) :: u16) = of_nat n" by (rule be_get_put) simp
  ultimately show ?thesis by (auto simp: unat_of_nat_16)
qed

lemma unat_be_get32: "length raw = 4 \<Longrightarrow> unat (be_get raw :: u32) = n \<longleftrightarrow> n < 4294967296 \<and> raw = be_put 4 (of_nat n :: u32)"
proof -
  assume raw: "length raw = 4"
  have "unat (be_get raw :: u32) < 4294967296" using unsigned_less [of "be_get raw :: u32", where 'a = nat] by simp
  moreover have "be_put 4 (be_get raw :: u32) = raw" using raw by (intro be_put_get) simp_all
  moreover have "(be_get (be_put 4 (of_nat n :: u32)) :: u32) = of_nat n" by (rule be_get_put) simp
  moreover have "n < 4294967296 \<Longrightarrow> unat (of_nat n :: u32) = n" by (simp add: unat_of_nat take_bit_nat_eq_self)
  ultimately show ?thesis by auto
qed

definition text_within :: "nat \<Rightarrow> bytes \<Rightarrow> bool" where
  "text_within maximum v \<longleftrightarrow> valid_string v \<and> length v \<le> maximum"

lemma get_text_iff:
  assumes "maximum < 4294967296"
  shows "get_text maximum field bs = Inr (v, rest) \<longleftrightarrow> text_within maximum v \<and> bs = put_text v @ rest"
proof -
  have "get_text maximum field bs = Inr (v, rest) \<longleftrightarrow>
      (\<exists>raw. length raw = 4 \<and> bs = raw @ v @ rest \<and> unat (be_get raw :: u32) = length v \<and> length v \<le> maximum \<and> valid_string v)"
    by (simp add: get_text_def get_iffs Let_def) auto
  also have "\<dots> \<longleftrightarrow> text_within maximum v \<and> bs = put_text v @ rest"
    using assms by (auto simp: text_within_def put_text_def unat_be_get32 cong: conj_cong)
  finally show ?thesis .
qed

lemma get_count_iff:
  assumes "maximum < 65536"
  shows "get_count maximum field bs = Inr (n, rest) \<longleftrightarrow> n \<le> maximum \<and> bs = be_put 2 (of_nat n :: u16) @ rest"
proof -
  have count: "length raw = 2 \<and> unat (be_get raw :: u16) = n \<and> n \<le> maximum \<longleftrightarrow> n \<le> maximum \<and> raw = be_put 2 (of_nat n :: u16)" for raw
    using assms unat_be_get16 [of raw n] by auto
  have "get_count maximum field bs = Inr (n, rest) \<longleftrightarrow>
      (\<exists>raw. bs = raw @ rest \<and> (length raw = 2 \<and> unat (be_get raw :: u16) = n \<and> n \<le> maximum))" (is "_ \<longleftrightarrow> (\<exists>raw. ?read raw)")
  proof
    assume "\<exists>raw. ?read raw"
    then show "get_count maximum field bs = Inr (n, rest)"
      by (auto simp: get_count_def get_bind_def get_full_def Let_def get_return_def)
  qed (auto simp: get_count_def get_iffs Let_def)
  then show ?thesis unfolding count by auto
qed

context byte_codec begin

lemma get_counted_iff:
  assumes "maximum < 65536"
  shows "get_counted get maximum field bs = Inr (xs, rest) \<longleftrightarrow>
    length xs \<le> maximum \<and> list_all wf xs \<and> bs = put_counted put xs @ rest"
  by (auto simp: get_counted_def get_bind_iff get_count_iff [OF assms] get_items_iff put_counted_def)

lemma counted_codec:
  assumes "maximum < 65536"
  shows "byte_codec (put_counted put) (get_counted get maximum field) (\<lambda>xs. length xs \<le> maximum \<and> list_all wf xs)"
  by unfold_locales (auto simp: get_counted_iff [OF assms])

end

section \<open>The parts\<close>

definition wf_item :: "extended_item \<Rightarrow> bool" where
  "wf_item item \<longleftrightarrow> text_within max_heading_bytes (ei_heading item) \<and> text_within max_body_bytes (ei_body item)"

definition wf_audio :: "audio \<Rightarrow> bool" where
  "wf_audio a \<longleftrightarrow> valid_sampling_rate (au_sampling_rate a) \<and> length (au_languages a) \<le> max_audio_languages \<and>
     list_all valid_language (au_languages a)"

definition wf_metadata :: "program_metadata \<Rightarrow> bool" where
  "wf_metadata m \<longleftrightarrow>
     (length (md_extended m) \<le> max_extended_items \<and> list_all wf_item (md_extended m)) \<and>
     (length (md_genres m) \<le> max_genres \<and> list_all (\<lambda>_. True) (md_genres m)) \<and>
     (length (md_audios m) \<le> max_audios \<and> list_all wf_audio (md_audios m))"

lemma get_item_iff: "get_item bs = Inr (item, rest) \<longleftrightarrow> wf_item item \<and> bs = put_item item @ rest"
proof -
  have "get_item bs = Inr (item, rest) \<longleftrightarrow>
      (\<exists>heading body. item = \<lparr>ei_heading = heading, ei_body = body\<rparr> \<and> text_within max_heading_bytes heading \<and>
        text_within max_body_bytes body \<and> bs = put_text heading @ put_text body @ rest)"
    by (auto simp: get_item_def get_bind_iff get_text_iff max_heading_bytes_def max_body_bytes_def get_return_def)
  then show ?thesis by (cases item) (auto simp: wf_item_def put_item_def)
qed

lemma length_4: "length raw = 4 \<longleftrightarrow> (\<exists>a b c d. raw = [a, b, c, d])"
  by (auto simp: numeral_eq_Suc length_Suc_conv)

lemma get_genre_iff: "get_genre bs = Inr (g, rest) \<longleftrightarrow> bs = put_genre g @ rest"
  by (cases g) (auto simp: get_genre_def get_iffs length_4 put_genre_def)

lemma get_video_iff: "get_video bs = Inr (v, rest) \<longleftrightarrow> bs = put_video v @ rest"
proof -
  have two: "length raw = 2 \<longleftrightarrow> (\<exists>a b. raw = [a, b])" for raw :: bytes
    by (auto simp: numeral_eq_Suc length_Suc_conv)
  have small: "present > 1 \<or> present = 1 \<or> present = 0" for present :: byte
    by unat_arith
  show ?thesis
  proof (cases bs)
    case Nil
    then show ?thesis by (cases v) (simp_all add: get_video_def get_bind_def get_byte_def)
  next
    case (Cons present raw)
    consider "present > 1" | "present = 1" | "present = 0" using small by blast
    then show ?thesis
      by cases (cases v; auto simp: Cons get_video_def get_bind_iff get_byte_iff get_full_iff get_return_def get_fail_def two)+
  qed
qed

lemma get_language_iff: "get_language bs = Inr (l, rest) \<longleftrightarrow> valid_language l \<and> bs = l @ rest"
  by (auto simp: get_language_def get_iffs dest: valid_language_length)

interpretation item_codec: byte_codec put_item get_item wf_item
  by unfold_locales (simp_all add: get_item_iff)

interpretation genre_codec: byte_codec put_genre get_genre "\<lambda>_. True"
  by unfold_locales (simp_all add: get_genre_iff)

interpretation language_codec: byte_codec "\<lambda>l. l" get_language valid_language
  by unfold_locales (simp_all add: get_language_iff)

lemma length_7: "length raw = 7 \<longleftrightarrow> (\<exists>a b c rate. raw = a # b # c # rate \<and> length rate = 4)"
  by (auto simp: numeral_eq_Suc length_Suc_conv)

lemma byte_flag: "b \<le> 1 \<Longrightarrow> b \<noteq> 1 \<Longrightarrow> b = (0 :: byte)"
  by unat_arith

lemma get_audio_iff: "get_audio bs = Inr (a, rest) \<longleftrightarrow> wf_audio a \<and> bs = put_audio a @ rest"
proof -
  have "get_audio bs = Inr (a, rest) \<longleftrightarrow>
    (\<exists>kind tag main rate n languages. length rate = 4 \<and> bs = kind # tag # main # rate @ n # concat languages @ rest \<and>
       \<not> main > 1 \<and> valid_sampling_rate (be_get rate) \<and> unat n \<le> max_audio_languages \<and>
       length languages = unat n \<and> list_all valid_language languages \<and>
       a = \<lparr>au_component_type = kind, au_component_tag = tag, au_main = (main = 1), au_sampling_rate = be_get rate,
         au_languages = languages\<rparr>)"
    unfolding get_audio_def get_bind_iff get_full_iff get_byte_iff get_unless_iff language_codec.get_items_iff length_7
    by (fastforce simp: get_return_def slice_def)
  also have "\<dots> \<longleftrightarrow> wf_audio a \<and> bs = put_audio a @ rest" (is "?parts \<longleftrightarrow> ?whole")
  proof
    assume ?parts
    then show ?whole by (auto simp: wf_audio_def put_audio_def be_put_get not_less byte_flag)
  next
    assume ?whole
    moreover from this have "length (au_languages a) < 256" by (simp add: wf_audio_def max_audio_languages_def)
    then have "unat (of_nat (length (au_languages a)) :: byte) = length (au_languages a)"
      by (simp add: unat_of_nat take_bit_nat_eq_self)
    ultimately show ?parts
      by (intro exI [of _ "au_component_type a"] exI [of _ "au_component_tag a"] exI [of _ "if au_main a then 1 else 0"]
          exI [of _ "be_put 4 (au_sampling_rate a)"] exI [of _ "of_nat (length (au_languages a))"] exI [of _ "au_languages a"])
        (simp add: wf_audio_def put_audio_def be_get_put)
  qed
  finally show ?thesis .
qed

interpretation audio_codec: byte_codec put_audio get_audio wf_audio
  by unfold_locales (simp_all add: get_audio_iff)

lemmas counted_iffs = item_codec.get_counted_iff genre_codec.get_counted_iff audio_codec.get_counted_iff

lemma get_metadata_iff: "get_metadata bs = Inr (m, rest) \<longleftrightarrow> wf_metadata m \<and> bs = put_metadata m @ rest"
proof -
  have prefix: "length metadata_prefix = 7" by (simp add: metadata_prefix_def ascii_def)
  show ?thesis
    unfolding get_metadata_def get_bind_iff get_full_iff get_unless_iff
    by (cases m) (auto simp: get_bind_iff counted_iffs metadata_limits get_video_iff get_return_def wf_metadata_def
        put_metadata_def prefix)
qed

text \<open>The whole record is a codec, so that what is written determines the record.\<close>

interpretation metadata_codec: byte_codec put_metadata get_metadata wf_metadata
  by unfold_locales (simp_all add: get_metadata_iff)

section \<open>The normal form\<close>

lemma insert_less_key: "(\<And>x y. before x y \<longleftrightarrow> key x < key y) \<Longrightarrow> insert_less before x ys = insort_key key x ys"
  by (induction ys) (auto simp: not_le)

text \<open>Sorting by a comparison that compares a key is sorting by that key, whatever the algorithm.\<close>

lemma sort_slice_key: "(\<And>x y. before x y \<longleftrightarrow> key x < key y) \<Longrightarrow> sort_slice before xs = sort_key key xs"
  unfolding sort_slice_def sort_key_def by (induction xs) (simp_all add: insert_less_key)

definition item_key :: "extended_item \<Rightarrow> bytes \<times> bytes" where
  "item_key item = (ei_heading item, ei_body item)"

definition genre_key :: "genre \<Rightarrow> byte \<times> byte \<times> byte \<times> byte" where
  "genre_key g = (ge_level1 g, ge_level2 g, ge_user1 g, ge_user2 g)"

definition audio_key :: "audio \<Rightarrow> byte \<times> byte \<times> bool \<times> u32 \<times> bytes list" where
  "audio_key a = (au_component_type a, au_component_tag a, au_main a, au_sampling_rate a, au_languages a)"

lemma sort_items: "sort_slice item_less = sort_key item_key"
  by (rule ext, rule sort_slice_key) (auto simp: item_less_def item_key_def less_prod_def)

lemma sort_genres: "sort_slice genre_less = sort_key genre_key"
  by (rule ext, rule sort_slice_key) (auto simp: genre_less_def genre_key_def less_prod_def)

lemma sort_audios: "sort_slice audio_less = sort_key audio_key"
  by (rule ext, rule sort_slice_key) (auto simp: audio_less_def audio_key_def less_prod_def)

lemma sort_languages: "sort_slice (\<lambda>l r. l < r) = sort_key (\<lambda>l :: bytes. l)"
  by (rule ext, rule sort_slice_key) simp

lemma inj_keys: "inj item_key" "inj genre_key" "inj audio_key"
  by (auto intro!: injI simp: item_key_def genre_key_def audio_key_def)

lemma sorted_remdups_adj: "sorted (map key xs) \<Longrightarrow> sorted (map key (remdups_adj xs))"
  by (induction xs rule: remdups_adj.induct) auto

text \<open>Sorted without neighbours that are equal is strictly sorted, and then both steps change nothing.\<close>

definition in_order :: "('a \<Rightarrow> 'b::linorder) \<Rightarrow> 'a list \<Rightarrow> bool" where
  "in_order key xs \<longleftrightarrow> sorted (map key xs) \<and> remdups_adj xs = xs"

lemma remdups_adj_twice: "remdups_adj (remdups_adj xs) = remdups_adj xs"
  using distinct_adj_remdups_adj [of xs] by (simp add: distinct_adj_altdef)

lemma normalized_in_order: "in_order key (remdups_adj (sort_key key xs))"
  by (simp add: in_order_def sorted_remdups_adj remdups_adj_twice)

lemma in_order_unchanged: "in_order key xs \<Longrightarrow> remdups_adj (sort_key key xs) = xs"
  by (simp add: in_order_def sort_key_id_if_sorted)

definition canonical_audio :: "audio \<Rightarrow> audio" where
  "canonical_audio a = a\<lparr>au_languages := remdups_adj (sort_key (\<lambda>l. l) (au_languages a))\<rparr>"

definition canonical :: "program_metadata \<Rightarrow> program_metadata" where
  "canonical m =
     \<lparr>md_extended = remdups_adj (sort_key item_key (md_extended m)),
      md_genres = remdups_adj (sort_key genre_key (md_genres m)),
      md_video = md_video m,
      md_audios = remdups_adj (sort_key audio_key (map canonical_audio (md_audios m)))\<rparr>"

lemma validate_text_ok: "validate_metadata_text maximum field v = Inr () \<longleftrightarrow> text_within maximum v"
  by (simp add: validate_metadata_text_def text_within_def not_less)

lemma validate_items_ok: "validate_items items = Inr () \<longleftrightarrow> list_all wf_item items"
proof (induction items)
  case (Cons item items)
  then show ?case by (auto simp: result_bind_eq_Inr validate_text_ok wf_item_def)
qed simp

lemma normalize_audio_ok: "normalize_audio a = Inr a' \<longleftrightarrow> wf_audio a \<and> a' = canonical_audio a"
  by (auto simp: normalize_audio_def wf_audio_def canonical_audio_def sort_languages not_less list_ex_iff list_all_iff)

lemma normalize_audios_ok: "normalize_audios as = Inr as' \<longleftrightarrow> list_all wf_audio as \<and> as' = map canonical_audio as"
  by (induction as arbitrary: as') (auto simp: result_bind_eq_Inr normalize_audio_ok)

lemma normalize_ok: "normalize_metadata m = Inr n \<longleftrightarrow> wf_metadata m \<and> n = canonical m"
  by (auto simp: normalize_metadata_def wf_metadata_def canonical_def result_bind_eq_Inr validate_items_ok normalize_audios_ok
      sort_items sort_genres sort_audios not_less list.pred_True)

lemma set_remdups_adj_sort [simp]: "set (remdups_adj (sort_key key xs)) = set xs"
  by simp

lemma length_remdups_adj_sort: "length (remdups_adj (sort_key key xs)) \<le> length xs"
  using remdups_adj_length [of "sort_key key xs"] by simp

lemma wf_canonical_audio: "wf_audio a \<Longrightarrow> wf_audio (canonical_audio a)"
  using length_remdups_adj_sort [of "\<lambda>l. l" "au_languages a"]
  by (auto simp: wf_audio_def canonical_audio_def list_all_iff)

lemma canonical_audio_twice: "canonical_audio (canonical_audio a) = canonical_audio a"
  by (simp add: canonical_audio_def in_order_unchanged [OF normalized_in_order])

lemma wf_canonical:
  assumes "wf_metadata m"
  shows "wf_metadata (canonical m)"
  using assms wf_canonical_audio length_remdups_adj_sort [of item_key "md_extended m"]
    length_remdups_adj_sort [of genre_key "md_genres m"]
    length_remdups_adj_sort [of audio_key "map canonical_audio (md_audios m)"]
  by (auto simp: wf_metadata_def canonical_def list_all_iff)

lemma canonical_twice: "canonical (canonical m) = canonical m"
proof -
  have same: "map canonical_audio (remdups_adj (sort_key audio_key (map canonical_audio as))) =
      remdups_adj (sort_key audio_key (map canonical_audio as))" for as
    by (rule map_idI) (auto simp: canonical_audio_twice)
  show ?thesis by (simp add: canonical_def same in_order_unchanged [OF normalized_in_order])
qed

text \<open>The normal form keeps what was given: the same items, genres and audio components, each once.\<close>

lemma normalize_set:
  assumes "normalize_metadata m = Inr n"
  shows "set (md_extended n) = set (md_extended m)" "set (md_genres n) = set (md_genres m)" "md_video n = md_video m"
    "set (md_audios n) = canonical_audio ` set (md_audios m)"
  using assms by (simp_all add: normalize_ok canonical_def)

section \<open>The stored form\<close>

lemma put_metadata_nonempty: "put_metadata m \<noteq> []"
  by (simp add: put_metadata_def metadata_prefix_def ascii_def)

lemma encode_ok:
  "encode_metadata m = Inr encoded \<longleftrightarrow>
   wf_metadata m \<and> length encoded \<le> max_metadata_bytes \<and>
   encoded = (if canonical m = empty_metadata then [] else put_metadata (canonical m))"
  by (auto simp: encode_metadata_def result_bind_eq_Inr normalize_ok metadata_empty_iff not_less)

lemma decode_ok:
  "decode_metadata encoded = Inr m \<longleftrightarrow>
   (if encoded = [] then m = empty_metadata
    else length encoded \<le> max_metadata_bytes \<and> wf_metadata m \<and> encoded = put_metadata m \<and> encode_metadata m = Inr encoded)"
  by (auto simp: decode_metadata_def result_bind_eq_Inr get_metadata_iff not_less split: prod.splits)

lemma canonical_empty: "canonical empty_metadata = empty_metadata" "wf_metadata empty_metadata"
  by (simp_all add: canonical_def empty_metadata_def wf_metadata_def)

text \<open>C39. (roundtrip): what the encoder stores for the details of a program reads back as their
normal form, and a byte string decodes to the details m exactly when m is in normal form and is encoded as that byte string.
So no two byte strings stand for the same details, and nothing that the encoder would not write (another order, a repeated
entry, bytes behind the end, a value out of bounds) is accepted.
\<close>

theorem stored_metadata_canonical:
  "(case encode_metadata given of Inl e \<Rightarrow> True | Inr stored \<Rightarrow> decode_metadata stored = normalize_metadata given) \<and>
   (decode_metadata encoded = Inr m \<longleftrightarrow> encode_metadata m = Inr encoded \<and> normalize_metadata m = Inr m)"
proof
  have "decode_metadata stored = normalize_metadata given" if "encode_metadata given = Inr stored" for stored
  proof -
    from that [unfolded encode_ok] have given: "wf_metadata given" "length stored \<le> max_metadata_bytes"
      "stored = (if canonical given = empty_metadata then [] else put_metadata (canonical given))"
      by blast+
    have "decode_metadata stored = Inr (canonical given)"
      using given by (auto simp: decode_ok encode_ok canonical_twice wf_canonical put_metadata_nonempty split: if_splits)
    also have "\<dots> = normalize_metadata given" using given(1) normalize_ok [of given "canonical given"] by simp
    finally show ?thesis .
  qed
  then show "case encode_metadata given of Inl e \<Rightarrow> True | Inr stored \<Rightarrow> decode_metadata stored = normalize_metadata given"
    by (simp split: sum.split)
  show "decode_metadata encoded = Inr m \<longleftrightarrow> encode_metadata m = Inr encoded \<and> normalize_metadata m = Inr m"
  proof (cases "encoded = []")
    case True
    have "canonical m = m \<Longrightarrow> canonical m = empty_metadata \<longleftrightarrow> m = empty_metadata" by simp
    then show ?thesis using True put_metadata_nonempty put_metadata_nonempty [symmetric]
      by (auto simp: decode_ok encode_ok normalize_ok canonical_empty)
  next
    case False
    then show ?thesis
      by (auto simp: decode_ok encode_ok normalize_ok wf_canonical metadata_codec.put_inject split: if_splits)
  qed
qed

end
