(* ===== verification/CatalogRevision.thy ===== *)
theory CatalogRevision
  imports CatalogMetadataSpec
begin

text \<open>
  \<open>internal/core/catalogmodel\<close>, \<open>revision.go\<close> and \<open>continuity.go\<close>: the bytes over which the identity of a revision is
  hashed, and the test that one observation of a Mirakurun program succeeds another.  SHA-256 is a function given to the
  model; \<open>int64\<close> values are integers, written out with their wrap-around where the code subtracts them.
\<close>

section \<open>Revisions\<close>

datatype revision_error =
  DurationNotPositive | RevisionNotUtf8 string | RevisionTextOverLimit string nat | RevisionMetadata metadata_error
  | RevisionNeedsMetadata

definition revision_prefix :: bytes where "revision_prefix = ascii ''SZCATREV1''"
definition revision_v2_prefix :: bytes where "revision_v2_prefix = ascii ''SZCATREV2''"
definition max_title_bytes :: nat where "max_title_bytes = 4096"
definition max_description_bytes :: nat where "max_description_bytes = 65536"

text \<open>
  The bytes of the two enumerations; their Go values outside the enumeration, which the encoder refuses, are not values
  of the datatypes.
\<close>

fun free_access_byte :: "free_access \<Rightarrow> byte" where
  "free_access_byte FreeUnknown = 0"
| "free_access_byte FreeNo = 1"
| "free_access_byte FreeYes = 2"

fun validation_byte :: "validation \<Rightarrow> byte" where
  "validation_byte ValidationValid = 1"
| "validation_byte ValidationProvisional = 2"
| "validation_byte ValidationInvalid = 3"

fun put_optional_int :: "int option \<Rightarrow> bytes" where
  "put_optional_int None = [0]"
| "put_optional_int (Some v) = 1 # be_put 8 (word_of_int v :: u64)"

fun put_optional_text :: "nat \<Rightarrow> string \<Rightarrow> bytes option \<Rightarrow> (revision_error, bytes) result" where
  "put_optional_text maximum field None = Inr [0]"
| "put_optional_text maximum field (Some v) =
     (if \<not> valid_string v then Inl (RevisionNotUtf8 field)
      else if length v > maximum then Inl (RevisionTextOverLimit field maximum)
      else Inr (1 # be_put 4 (of_nat (length v) :: u32) @ v))"

definition encode_revision_v1 :: "revision_material \<Rightarrow> (revision_error, bytes) result" where
  "encode_revision_v1 m =
     (if (case mt_duration m of Some d \<Rightarrow> d \<le> 0 | None \<Rightarrow> False) then Inl DurationNotPositive
      else
        result_bind (put_optional_text max_title_bytes ''title'' (mt_title m)) (\<lambda>title.
        result_bind (put_optional_text max_description_bytes ''description'' (mt_description m)) (\<lambda>description.
        Inr (revision_prefix @ put_optional_int (mt_start m) @ put_optional_int (mt_duration m) @ title @ description @
          [free_access_byte (mt_free_access m), validation_byte (mt_validation m)]))))"

definition hash_revision_v1 :: "(bytes \<Rightarrow> bytes) \<Rightarrow> revision_material \<Rightarrow> (revision_error, bytes) result" where
  "hash_revision_v1 sha m = result_bind (encode_revision_v1 m) (\<lambda>encoded. Inr (sha encoded))"

definition encode_revision_v2 :: "revision_material \<Rightarrow> (revision_error, bytes) result" where
  "encode_revision_v2 m =
     result_bind (encode_revision_v1 m) (\<lambda>base.
       case encode_metadata (mt_metadata m) of
         Inl e \<Rightarrow> Inl (RevisionMetadata e)
       | Inr metadata \<Rightarrow>
           if length metadata = 0 then Inl RevisionNeedsMetadata
           else Inr (revision_v2_prefix @ be_put 4 (of_nat (length base) :: u32) @ base @
             be_put 4 (of_nat (length metadata) :: u32) @ metadata))"

definition hash_revision :: "(bytes \<Rightarrow> bytes) \<Rightarrow> revision_material \<Rightarrow> (revision_error, bytes) result" where
  "hash_revision sha m =
     (if metadata_empty (mt_metadata m) then hash_revision_v1 sha m
      else result_bind (encode_revision_v2 m) (\<lambda>encoded. Inr (sha encoded)))"

section \<open>Continuity\<close>

definition wrap_int64 :: "int \<Rightarrow> int" where
  "wrap_int64 v = sint (word_of_int v :: i64)"

definition int64_value :: "int \<Rightarrow> bool" where
  "int64_value v \<longleftrightarrow> -(2 ^ 63) \<le> v \<and> v < 2 ^ 63"

definition observation_horizon :: int where "observation_horizon = 36 * 60 * 60 * 1000"
definition maximum_shift :: int where "maximum_shift = 6 * 60 * 60 * 1000"
definition minimum_follow_duration :: int where "minimum_follow_duration = 60 * 1000"
definition maximum_follow_duration :: int where "maximum_follow_duration = 12 * 60 * 60 * 1000"

definition accepted_follow_duration :: "int \<Rightarrow> bool" where
  "accepted_follow_duration v \<longleftrightarrow> v \<ge> minimum_follow_duration \<and> v \<le> maximum_follow_duration \<and> v mod 1000 = 0"

definition absolute_difference :: "int \<Rightarrow> int \<Rightarrow> int" where
  "absolute_difference l r = (if l \<ge> r then wrap_int64 (l - r) else wrap_int64 (r - l))"

definition mirakurun_successor ::
    "revision_material \<Rightarrow> int option \<Rightarrow> int \<Rightarrow> revision_material \<Rightarrow> int option \<Rightarrow> int \<Rightarrow> bool" where
  "mirakurun_successor previous previous_event previous_seen now now_event now_seen =
     (case (previous_event, now_event, mt_start previous, mt_start now, mt_duration previous, mt_duration now) of
        (Some pe, Some ne, Some old_start, Some new_start, Some old_duration, Some new_duration) \<Rightarrow>
          \<not> (pe \<noteq> ne \<or> mt_validation previous = ValidationInvalid \<or> mt_validation now = ValidationInvalid \<or>
             previous_seen < 0 \<or> now_seen < previous_seen \<or> wrap_int64 (now_seen - previous_seen) > observation_horizon) \<and>
          \<not> (old_start < 0 \<or> new_start < 0 \<or> \<not> accepted_follow_duration old_duration \<or> \<not> accepted_follow_duration new_duration) \<and>
          absolute_difference old_start new_start \<le> maximum_shift \<and>
          absolute_difference old_duration new_duration \<le> maximum_shift
      | _ \<Rightarrow> False)"

section \<open>Encodings of different contents differ\<close>

lemma wrap_int64_id: "int64_value v \<Longrightarrow> wrap_int64 v = v"
  by (simp add: wrap_int64_def int64_value_def signed_of_int signed_take_bit_int_eq_self)

definition int64_option :: "int option \<Rightarrow> bool" where
  "int64_option v = (case v of None \<Rightarrow> True | Some v \<Rightarrow> int64_value v)"

text \<open>Behind a byte that says whether there is a value, a code of values is a code of optional values.\<close>

context prefix_code begin

lemma option_code:
  assumes none: "p None = [0]" and some: "\<And>v. p (Some v) = 1 # put v" and wf_some: "\<And>v. w (Some v) = wf v"
  shows "prefix_code p w"
proof
  fix x y r s
  assume "w x" "w y" "p x @ r = p y @ s"
  then show "x = y \<and> r = s"
    by (cases x; cases y) (auto simp: none some wf_some dest: put_cancel)
qed

end

interpretation int64_code: prefix_code "\<lambda>v. be_put 8 (word_of_int v :: u64)" int64_value
proof
  fix v w r s
  assume wf: "int64_value v" "int64_value w" and "be_put 8 (word_of_int v :: u64) @ r = be_put 8 (word_of_int w :: u64) @ s"
  then have same: "be_put 8 (word_of_int v :: u64) = be_put 8 (word_of_int w :: u64)" "r = s" by simp_all
  then have "(be_get (be_put 8 (word_of_int v :: u64)) :: u64) = be_get (be_put 8 (word_of_int w :: u64))" by simp
  then have "(word_of_int v :: u64) = word_of_int w" by (simp add: be_get_put)
  then have "wrap_int64 v = wrap_int64 w" by (simp add: wrap_int64_def)
  then show "v = w \<and> r = s" using wf same by (simp add: wrap_int64_id)
qed

interpretation optional_int: prefix_code put_optional_int int64_option
  by (rule int64_code.option_code) (simp_all add: int64_option_def)

text \<open>What an optional text is written as, when it is written.\<close>

fun text_bytes :: "bytes option \<Rightarrow> bytes" where
  "text_bytes None = [0]"
| "text_bytes (Some v) = 1 # put_text v"

definition text_option :: "nat \<Rightarrow> bytes option \<Rightarrow> bool" where
  "text_option maximum v = (case v of None \<Rightarrow> True | Some v \<Rightarrow> text_within maximum v)"

lemma put_optional_text_ok:
  "put_optional_text maximum field v = Inr encoded \<longleftrightarrow> text_option maximum v \<and> encoded = text_bytes v"
  by (cases v) (auto simp: text_option_def text_within_def put_text_def not_less)

interpretation heading_codec: byte_codec put_text "get_text max_heading_bytes ''extended heading''" "text_within max_heading_bytes"
  by unfold_locales (simp_all add: get_text_iff max_heading_bytes_def)

interpretation body_codec: byte_codec put_text "get_text max_body_bytes ''extended body''" "text_within max_body_bytes"
  by unfold_locales (simp_all add: get_text_iff max_body_bytes_def)

interpretation optional_title: prefix_code text_bytes "text_option max_title_bytes"
  by (rule heading_codec.option_code) (simp_all add: text_option_def max_title_bytes_def max_heading_bytes_def)

interpretation optional_description: prefix_code text_bytes "text_option max_description_bytes"
  by (rule body_codec.option_code) (simp_all add: text_option_def max_description_bytes_def max_body_bytes_def)

definition base_bytes :: "revision_material \<Rightarrow> bytes" where
  "base_bytes m =
     revision_prefix @ put_optional_int (mt_start m) @ put_optional_int (mt_duration m) @ text_bytes (mt_title m) @
     text_bytes (mt_description m) @ [free_access_byte (mt_free_access m), validation_byte (mt_validation m)]"

definition int64_material :: "revision_material \<Rightarrow> bool" where
  "int64_material m \<longleftrightarrow> int64_option (mt_start m) \<and> int64_option (mt_duration m)"

definition wf_material :: "revision_material \<Rightarrow> bool" where
  "wf_material m \<longleftrightarrow> int64_material m \<and> text_option max_title_bytes (mt_title m) \<and> text_option max_description_bytes (mt_description m)"

text \<open>Two materials that agree in everything but the form of their details.\<close>

definition same_basics :: "revision_material \<Rightarrow> revision_material \<Rightarrow> bool" where
  "same_basics a b \<longleftrightarrow>
     mt_start a = mt_start b \<and> mt_duration a = mt_duration b \<and> mt_title a = mt_title b \<and>
     mt_description a = mt_description b \<and> mt_free_access a = mt_free_access b \<and> mt_validation a = mt_validation b"

lemma enumeration_bytes:
  "free_access_byte a = free_access_byte b \<longleftrightarrow> a = b" "validation_byte v = validation_byte w \<longleftrightarrow> v = w"
  by (cases a; cases b; simp) (cases v; cases w; simp)

lemma base_cancel:
  assumes "wf_material a" "wf_material b" "base_bytes a @ r = base_bytes b @ s"
  shows "same_basics a b \<and> r = s"
proof -
  from assms have wf: "int64_option (mt_start a)" "int64_option (mt_start b)" "int64_option (mt_duration a)"
      "int64_option (mt_duration b)" "text_option max_title_bytes (mt_title a)" "text_option max_title_bytes (mt_title b)"
      "text_option max_description_bytes (mt_description a)" "text_option max_description_bytes (mt_description b)"
    by (simp_all add: wf_material_def int64_material_def)
  from assms(3) have "put_optional_int (mt_start a) @ put_optional_int (mt_duration a) @ text_bytes (mt_title a) @
      text_bytes (mt_description a) @ [free_access_byte (mt_free_access a), validation_byte (mt_validation a)] @ r =
    put_optional_int (mt_start b) @ put_optional_int (mt_duration b) @ text_bytes (mt_title b) @
      text_bytes (mt_description b) @ [free_access_byte (mt_free_access b), validation_byte (mt_validation b)] @ s"
    by (simp add: base_bytes_def)
  from optional_int.put_cancel [OF wf(1,2) this] have start: "mt_start a = mt_start b" and
    "put_optional_int (mt_duration a) @ text_bytes (mt_title a) @
      text_bytes (mt_description a) @ [free_access_byte (mt_free_access a), validation_byte (mt_validation a)] @ r =
     put_optional_int (mt_duration b) @ text_bytes (mt_title b) @
      text_bytes (mt_description b) @ [free_access_byte (mt_free_access b), validation_byte (mt_validation b)] @ s" by blast+
  from optional_int.put_cancel [OF wf(3,4) this(2)] have duration: "mt_duration a = mt_duration b" and
    "text_bytes (mt_title a) @
      text_bytes (mt_description a) @ [free_access_byte (mt_free_access a), validation_byte (mt_validation a)] @ r =
     text_bytes (mt_title b) @
      text_bytes (mt_description b) @ [free_access_byte (mt_free_access b), validation_byte (mt_validation b)] @ s" by blast+
  from optional_title.put_cancel [OF wf(5,6) this(2)] have title: "mt_title a = mt_title b" and
    "text_bytes (mt_description a) @ [free_access_byte (mt_free_access a), validation_byte (mt_validation a)] @ r =
     text_bytes (mt_description b) @ [free_access_byte (mt_free_access b), validation_byte (mt_validation b)] @ s" by blast+
  from optional_description.put_cancel [OF wf(7,8) this(2)] show ?thesis
    by (simp add: same_basics_def start duration title enumeration_bytes)
qed

section \<open>What a hash stands for\<close>

definition revision_encoding :: "revision_material \<Rightarrow> (revision_error, bytes) result" where
  "revision_encoding m = (if metadata_empty (mt_metadata m) then encode_revision_v1 m else encode_revision_v2 m)"

lemma hash_revision_encoding: "hash_revision sha m = result_bind (revision_encoding m) (\<lambda>encoded. Inr (sha encoded))"
  by (simp add: hash_revision_def hash_revision_v1_def revision_encoding_def)

lemma encode_v1_ok:
  assumes "encode_revision_v1 m = Inr encoded"
  shows "text_option max_title_bytes (mt_title m)" "text_option max_description_bytes (mt_description m)" "encoded = base_bytes m"
  using assms
  by (auto simp: encode_revision_v1_def result_bind_eq_Inr put_optional_text_ok base_bytes_def split: if_splits option.splits)

lemma encode_v2_ok:
  assumes "encode_revision_v2 m = Inr encoded"
  obtains metadata where "encode_revision_v1 m = Inr (base_bytes m)" "encode_metadata (mt_metadata m) = Inr metadata" "metadata \<noteq> []"
    "encoded = revision_v2_prefix @ be_put 4 (of_nat (length (base_bytes m)) :: u32) @ base_bytes m @
      be_put 4 (of_nat (length metadata) :: u32) @ metadata"
proof -
  obtain base metadata where found: "encode_revision_v1 m = Inr base" "encode_metadata (mt_metadata m) = Inr metadata" "metadata \<noteq> []"
    "encoded = revision_v2_prefix @ be_put 4 (of_nat (length base) :: u32) @ base @
      be_put 4 (of_nat (length metadata) :: u32) @ metadata"
    using assms by (cases "encode_metadata (mt_metadata m)") (auto simp: encode_revision_v2_def result_bind_eq_Inr split: if_splits)
  have "base = base_bytes m" using encode_v1_ok(3) found(1) .
  then show thesis using that found by simp
qed

lemma encoding_wf:
  assumes "revision_encoding m = Inr encoded" "int64_material m"
  shows "wf_material m"
proof -
  obtain base where "encode_revision_v1 m = Inr base"
    using assms(1) by (auto simp: revision_encoding_def split: if_splits elim: encode_v2_ok)
  then show ?thesis using assms(2) encode_v1_ok by (simp add: wf_material_def)
qed

lemma encode_metadata_normal:
  assumes "encode_metadata a = Inr encoded" "encode_metadata b = Inr encoded" "encoded \<noteq> []"
  shows "normalize_metadata a = normalize_metadata b"
proof -
  have "put_metadata (canonical a) = put_metadata (canonical b)" "wf_metadata a" "wf_metadata b"
    using assms by (auto simp: encode_ok split: if_splits)
  then have "canonical a = canonical b" by (simp add: metadata_codec.put_inject wf_canonical)
  then have "normalize_metadata a = Inr (canonical a)" "normalize_metadata b = Inr (canonical a)"
    using \<open>wf_metadata a\<close> \<open>wf_metadata b\<close> by (simp_all add: normalize_ok)
  then show ?thesis by simp
qed

lemma prefixes_differ: "revision_prefix @ r \<noteq> revision_v2_prefix @ s"
  by (simp add: revision_prefix_def revision_v2_prefix_def ascii_def)

lemma base_not_v2: "base_bytes m \<noteq> revision_v2_prefix @ s"
  unfolding base_bytes_def by (rule prefixes_differ)

definition same_revision :: "revision_material \<Rightarrow> revision_material \<Rightarrow> bool" where
  "same_revision a b \<longleftrightarrow> same_basics a b \<and> normalize_metadata (mt_metadata a) = normalize_metadata (mt_metadata b)"

lemma encoding_determines:
  assumes "revision_encoding a = Inr encoded" "revision_encoding b = Inr encoded" "int64_material a" "int64_material b"
  shows "same_revision a b"
proof -
  note wf = encoding_wf [OF assms(1,3)] encoding_wf [OF assms(2,4)]
  have v1: "encoded = base_bytes m" if "revision_encoding m = Inr encoded" "metadata_empty (mt_metadata m)" for m
    using that encode_v1_ok(3) by (simp add: revision_encoding_def)
  have v2: "\<exists>metadata. encode_metadata (mt_metadata m) = Inr metadata \<and> metadata \<noteq> [] \<and>
      encoded = revision_v2_prefix @ be_put 4 (of_nat (length (base_bytes m)) :: u32) @ base_bytes m @
        be_put 4 (of_nat (length metadata) :: u32) @ metadata"
    if "revision_encoding m = Inr encoded" "\<not> metadata_empty (mt_metadata m)" for m
    using that by (auto simp: revision_encoding_def elim: encode_v2_ok)
  consider (plain) "metadata_empty (mt_metadata a)" "metadata_empty (mt_metadata b)"
    | (detailed) "\<not> metadata_empty (mt_metadata a)" "\<not> metadata_empty (mt_metadata b)"
    using v1 [OF assms(1)] v1 [OF assms(2)] v2 [OF assms(1)] v2 [OF assms(2)] base_not_v2 by metis
  then show ?thesis
  proof cases
    case plain
    then have "base_bytes a @ [] = base_bytes b @ []" using v1 assms(1,2) by simp
    from base_cancel [OF wf this] plain show ?thesis by (simp add: same_revision_def metadata_empty_iff)
  next
    case detailed
    obtain d where d: "encode_metadata (mt_metadata a) = Inr d" "d \<noteq> []"
        "encoded = revision_v2_prefix @ be_put 4 (of_nat (length (base_bytes a)) :: u32) @ base_bytes a @
          be_put 4 (of_nat (length d) :: u32) @ d"
      using v2 [OF assms(1) detailed(1)] by blast
    obtain e where e: "encode_metadata (mt_metadata b) = Inr e"
        "encoded = revision_v2_prefix @ be_put 4 (of_nat (length (base_bytes b)) :: u32) @ base_bytes b @
          be_put 4 (of_nat (length e) :: u32) @ e"
      using v2 [OF assms(2) detailed(2)] by blast
    have "base_bytes a @ be_put 4 (of_nat (length d) :: u32) @ d = base_bytes b @ be_put 4 (of_nat (length e) :: u32) @ e"
      using d(3) unfolding e(2) by simp
    from base_cancel [OF wf this] have "same_basics a b" "d = e" by simp_all
    then show ?thesis using encode_metadata_normal [OF d(1)] d(2) e(1) by (simp add: same_revision_def)
  qed
qed

lemma encoding_determined:
  assumes "revision_encoding a = Inr x" "revision_encoding b = Inr y" "same_revision a b"
  shows "x = y"
proof -
  have basics: "base_bytes a = base_bytes b" using assms(3) by (simp add: same_revision_def same_basics_def base_bytes_def)
  have details: "encode_metadata (mt_metadata a) = encode_metadata (mt_metadata b)"
    using assms(3) by (simp add: same_revision_def encode_metadata_def)
  have empty: "encode_metadata empty_metadata = Inr []"
    by (simp add: encode_ok canonical_empty)
  have v1: "z = base_bytes m" if "revision_encoding m = Inr z" "metadata_empty (mt_metadata m)" for m z
    using that encode_v1_ok(3) by (simp add: revision_encoding_def)
  have v2: "encode_revision_v2 m = Inr z" if "revision_encoding m = Inr z" "\<not> metadata_empty (mt_metadata m)" for m z
    using that by (simp add: revision_encoding_def)
  have both: "metadata_empty (mt_metadata a) \<longleftrightarrow> metadata_empty (mt_metadata b)"
  proof (rule ccontr)
    assume "\<not> ?thesis"
    then consider "metadata_empty (mt_metadata a)" "\<not> metadata_empty (mt_metadata b)"
      | "\<not> metadata_empty (mt_metadata a)" "metadata_empty (mt_metadata b)" by blast
    then show False
    proof cases
      case 1
      from v2 [OF assms(2) 1(2)] obtain d where "encode_metadata (mt_metadata b) = Inr d" "d \<noteq> []" by (rule encode_v2_ok)
      with 1(1) details empty show False by (simp add: metadata_empty_iff)
    next
      case 2
      from v2 [OF assms(1) 2(1)] obtain d where "encode_metadata (mt_metadata a) = Inr d" "d \<noteq> []" by (rule encode_v2_ok)
      with 2(2) details empty show False by (simp add: metadata_empty_iff)
    qed
  qed
  show ?thesis
  proof (cases "metadata_empty (mt_metadata a)")
    case True
    then show ?thesis using both v1 [OF assms(1)] v1 [OF assms(2)] basics by simp
  next
    case False
    then have "\<not> metadata_empty (mt_metadata b)" using both by simp
    from v2 [OF assms(2) this] obtain e where e: "encode_metadata (mt_metadata b) = Inr e"
      "y = revision_v2_prefix @ be_put 4 (of_nat (length (base_bytes b)) :: u32) @ base_bytes b @
        be_put 4 (of_nat (length e) :: u32) @ e" by (rule encode_v2_ok)
    from v2 [OF assms(1) False] obtain d where d: "encode_metadata (mt_metadata a) = Inr d"
      "x = revision_v2_prefix @ be_put 4 (of_nat (length (base_bytes a)) :: u32) @ base_bytes a @
        be_put 4 (of_nat (length d) :: u32) @ d" by (rule encode_v2_ok)
    have "d = e" using d(1) e(1) details by simp
    then show ?thesis using d(2) e(2) basics by simp
  qed
qed

text \<open>C40. (equivalence): unless SHA-256 collides on the two encodings, the hashes of two revisions are equal
exactly when the revisions agree in start, duration, title, description, access and validation and their details have the
same normal form.  An unknown text and a known empty one are told apart, and so are revisions with and without details;
the order and repetition of details make no difference.
\<close>

theorem revision_hash_identity:
  assumes "int64_material a" "int64_material b" "hash_revision sha a = Inr h" "hash_revision sha b = Inr h'"
    and "\<And>x y. revision_encoding a = Inr x \<Longrightarrow> revision_encoding b = Inr y \<Longrightarrow> sha x = sha y \<Longrightarrow> x = y"
  shows "h = h' \<longleftrightarrow> same_basics a b \<and> normalize_metadata (mt_metadata a) = normalize_metadata (mt_metadata b)"
proof -
  obtain x where x: "revision_encoding a = Inr x" "h = sha x"
    using assms(3) by (auto simp: hash_revision_encoding result_bind_eq_Inr)
  obtain y where y: "revision_encoding b = Inr y" "h' = sha y"
    using assms(4) by (auto simp: hash_revision_encoding result_bind_eq_Inr)
  have "h = h' \<longleftrightarrow> x = y" using assms(5) [OF x(1) y(1)] x(2) y(2) by auto
  also have "\<dots> \<longleftrightarrow> same_revision a b"
    using encoding_determines encoding_determined x(1) y(1) assms(1,2) by blast
  finally show ?thesis by (simp add: same_revision_def)
qed

definition sample_revision :: "genre list \<Rightarrow> revision_material" where
  "sample_revision genres = \<lparr>mt_start = Some 1785628800000, mt_duration = Some 1800000, mt_title = None,
     mt_description = Some [], mt_free_access = FreeYes, mt_validation = ValidationValid,
     mt_metadata = \<lparr>md_extended = [], md_genres = genres, md_video = None, md_audios = []\<rparr>\<rparr>"

definition sample_genre :: "byte \<Rightarrow> genre" where
  "sample_genre level = \<lparr>ge_level1 = level, ge_level2 = 2, ge_user1 = 0, ge_user2 = 0\<rparr>"

lemma sample_genres_normal:
  "normalize_metadata (mt_metadata (sample_revision [sample_genre 5, sample_genre 1, sample_genre 5])) =
   Inr (mt_metadata (sample_revision [sample_genre 1, sample_genre 5]))"
  "normalize_metadata (mt_metadata (sample_revision [sample_genre 1, sample_genre 5])) =
   Inr (mt_metadata (sample_revision [sample_genre 1, sample_genre 5]))"
  by code_simp+

lemma sample_accepted:
  assumes "genres \<noteq> []"
    and "normalize_metadata (mt_metadata (sample_revision genres)) = Inr (mt_metadata (sample_revision [sample_genre 1, sample_genre 5]))"
  shows "is_ok (revision_encoding (sample_revision genres))"
proof -
  have "encode_revision_v1 (sample_revision genres) = Inr (base_bytes (sample_revision genres))"
    by (simp add: encode_revision_v1_def sample_revision_def base_bytes_def put_text_def max_description_bytes_def)
  moreover have "encode_metadata (mt_metadata (sample_revision genres)) =
      Inr (put_metadata (mt_metadata (sample_revision [sample_genre 1, sample_genre 5])))"
    by (simp add: encode_metadata_def assms(2))
      (simp add: sample_revision_def metadata_empty_def put_metadata_def put_counted_def put_genre_def metadata_prefix_def
        ascii_def max_metadata_bytes_def)
  moreover have "\<not> metadata_empty (mt_metadata (sample_revision genres))"
    using assms(1) by (simp add: sample_revision_def metadata_empty_def)
  ultimately show ?thesis
    by (simp add: revision_encoding_def encode_revision_v2_def put_metadata_nonempty)
qed

text \<open>The identity, which has no collisions, in the place of SHA-256.\<close>

theorem revision_hash_identity_witness:
  "hash_revision (\<lambda>x. x) (sample_revision [sample_genre 5, sample_genre 1, sample_genre 5]) =
   hash_revision (\<lambda>x. x) (sample_revision [sample_genre 1, sample_genre 5])"
proof -
  let ?a = "sample_revision [sample_genre 5, sample_genre 1, sample_genre 5]"
  let ?b = "sample_revision [sample_genre 1, sample_genre 5]"
  obtain x y where x: "revision_encoding ?a = Inr x" and y: "revision_encoding ?b = Inr y"
    using sample_accepted [OF _ sample_genres_normal(1)] sample_accepted [OF _ sample_genres_normal(2)] by (auto elim!: is_okE)
  have "int64_material (sample_revision genres)" for genres
    by (simp add: int64_material_def sample_revision_def int64_option_def int64_value_def)
  moreover have "same_basics ?a ?b" by (simp add: same_basics_def sample_revision_def)
  ultimately have "x = y"
    using revision_hash_identity [of ?a ?b "\<lambda>x. x" x y] x y sample_genres_normal by (simp add: hash_revision_encoding)
  then show ?thesis by (simp add: hash_revision_encoding x y)
qed

section \<open>Successors\<close>

text \<open>
  For \<open>int64\<close> values no subtraction of the test wraps: what it computes is the difference, and it does not depend on the
  direction in which a start or a duration moved.
\<close>

lemma successor_exact:
  assumes "int64_value previous_seen" "int64_value now_seen" "int64_material previous" "int64_material now"
  shows "mirakurun_successor previous previous_event previous_seen now now_event now_seen \<longleftrightarrow>
    (\<exists>event start start' duration duration'.
      previous_event = Some event \<and> now_event = Some event \<and>
      mt_start previous = Some start \<and> mt_start now = Some start' \<and> 0 \<le> start \<and> 0 \<le> start' \<and>
      \<bar>start - start'\<bar> \<le> maximum_shift \<and>
      mt_duration previous = Some duration \<and> mt_duration now = Some duration' \<and>
      accepted_follow_duration duration \<and> accepted_follow_duration duration' \<and> \<bar>duration - duration'\<bar> \<le> maximum_shift \<and>
      mt_validation previous \<noteq> ValidationInvalid \<and> mt_validation now \<noteq> ValidationInvalid \<and>
      0 \<le> previous_seen \<and> previous_seen \<le> now_seen \<and> now_seen - previous_seen \<le> observation_horizon)"
proof -
  have difference: "absolute_difference l r = \<bar>l - r\<bar>"
    if "0 \<le> l" "0 \<le> r" "int64_value l" "int64_value r" for l r
    using that by (auto simp: absolute_difference_def wrap_int64_id int64_value_def)
  have elapsed: "wrap_int64 (now_seen - previous_seen) = now_seen - previous_seen" if "0 \<le> previous_seen" "previous_seen \<le> now_seen"
    using that assms by (intro wrap_int64_id) (auto simp: int64_value_def)
  have positive: "0 \<le> v" if "accepted_follow_duration v" for v
    using that by (simp add: accepted_follow_duration_def minimum_follow_duration_def)
  show ?thesis
    using assms
    by (auto simp: mirakurun_successor_def int64_material_def int64_option_def difference elapsed positive not_less
        split: option.splits)
qed

end
