(* ===== verification/ChannelList.thy ===== *)
theory ChannelList
  imports GoText CodecReader "HOL-Library.Product_Lexorder" "HOL-Library.List_Lexorder"
begin

text \<open>
  \<open>internal/adapters/ctrlcmd/channel/projection.go\<close>: the channels of a snapshot, their validation and their canonical
  order.  The context is asked before every service; \<open>live n\<close> is its answer the \<open>n\<close>-th time.
\<close>

abbreviation max_services :: nat where "max_services \<equiv> 4096"
abbreviation max_snapshot_key :: nat where "max_snapshot_key \<equiv> 128"
abbreviation max_provider_locator :: nat where "max_provider_locator \<equiv> 256"
abbreviation max_name_bytes :: nat where "max_name_bytes \<equiv> 4096"

record channel_service =
  cs_locator :: bytes
  cs_provider_name :: bytes
  cs_service_name :: bytes
  cs_network_name :: bytes
  cs_stream_name :: bytes
  cs_network_id :: u16
  cs_stream_id :: u16
  cs_service_id :: u16
  cs_type :: byte
  cs_remote_key :: byte
  cs_partial :: bool
  cs_epg :: bool
  cs_search :: bool
  cs_verified :: bool
  cs_selected :: bool

record channel_snapshot =
  cl_key :: bytes
  cl_services :: "channel_service list"

definition channel_failure :: "category \<Rightarrow> string \<Rightarrow> int \<Rightarrow> codec_error" where
  "channel_failure category reason count = failure category reason 0 count"

text \<open>The four bytes that a name must not hold, each looked for in turn.\<close>

definition forbidden_bytes :: bytes where
  "forbidden_bytes = [0, 9, 13, 10]"

fun name_control :: "bytes \<Rightarrow> bytes \<Rightarrow> (codec_error, unit) result" where
  "name_control [] name = Inr ()"
| "name_control (b # forbidden) name =
     (case List.find (\<lambda>i. name ! i = b) [0..<length name] of
        Some i \<Rightarrow> Inl (channel_failure Malformed ''service-name-control'' (int i))
      | None \<Rightarrow> name_control forbidden name)"

definition validate_name :: "bytes \<times> bool \<Rightarrow> (codec_error, unit) result" where
  "validate_name entry =
     (case entry of (name, required) \<Rightarrow>
        if \<not> valid_string name \<or> length name > max_name_bytes \<or> required \<and> length name = 0
        then Inl (channel_failure Malformed ''service-name-field'' (int (length name)))
        else name_control forbidden_bytes name)"

fun validate_names :: "(bytes \<times> bool) list \<Rightarrow> (codec_error, unit) result" where
  "validate_names [] = Inr ()"
| "validate_names (entry # entries) =
     (case validate_name entry of Inl e \<Rightarrow> Inl e | Inr u \<Rightarrow> validate_names entries)"

definition validate_service :: "channel_service \<Rightarrow> (codec_error, unit) result" where
  "validate_service s =
     (if \<not> valid_string (cs_locator s) \<or> length (cs_locator s) < 1 \<or> length (cs_locator s) > max_provider_locator
      then Inl (channel_failure Malformed ''provider-locator'' (int (length (cs_locator s))))
      else validate_names [(cs_provider_name s, False), (cs_service_name s, True), (cs_network_name s, False), (cs_stream_name s, False)])"

type_synonym service_identity = "u16 \<times> u16 \<times> u16"

definition identity_of :: "channel_service \<Rightarrow> service_identity" where
  "identity_of s = (cs_network_id s, cs_stream_id s, cs_service_id s)"

text \<open>The order of the lists: the three identifiers and the locator.\<close>

definition service_key :: "channel_service \<Rightarrow> u16 \<times> u16 \<times> u16 \<times> bytes" where
  "service_key s = (cs_network_id s, cs_stream_id s, cs_service_id s, cs_locator s)"

definition sort_services :: "channel_service list \<Rightarrow> channel_service list" where
  "sort_services = sort_key service_key"

fun validate_services ::
    "(nat \<Rightarrow> bool) \<Rightarrow> nat \<Rightarrow> channel_service list \<Rightarrow> channel_service list \<Rightarrow> (codec_error, channel_service list) result" where
  "validate_services live n [] kept = Inr kept"
| "validate_services live n (s # services) kept =
     (if \<not> live n then Inl (channel_failure Timeout ''request-context-ended'' 0)
      else if \<not> cs_verified s then validate_services live (Suc n) services kept
      else
        case validate_service s of
          Inl e \<Rightarrow> Inl e
        | Inr u \<Rightarrow>
            if \<not> cs_selected s then validate_services live (Suc n) services kept
            else if identity_of s \<in> set (map identity_of kept)
            then Inl (channel_failure Malformed ''duplicate-service-identity'' 0)
            else validate_services live (Suc n) services (kept @ [s]))"

definition validate_snapshot :: "(nat \<Rightarrow> bool) \<Rightarrow> channel_snapshot \<Rightarrow> (codec_error, channel_service list) result" where
  "validate_snapshot live snapshot =
     (if \<not> valid_string (cl_key snapshot) \<or> length (cl_key snapshot) < 1 \<or> length (cl_key snapshot) > max_snapshot_key
      then Inl (channel_failure Malformed ''snapshot-key'' (int (length (cl_key snapshot))))
      else if length (cl_services snapshot) > max_services
      then Inl (channel_failure OverLimit ''snapshot-service-count'' (int (length (cl_services snapshot))))
      else result_bind (validate_services live 0 (cl_services snapshot) []) (\<lambda>services. Inr (sort_services services)))"

section \<open>What a validated list is\<close>

definition clean_name :: "bytes \<Rightarrow> bool" where
  "clean_name name \<longleftrightarrow> valid_string name \<and> length name \<le> max_name_bytes \<and> list_all (\<lambda>b. b \<notin> set name) forbidden_bytes"

definition clean_service :: "channel_service \<Rightarrow> bool" where
  "clean_service s \<longleftrightarrow>
     valid_string (cs_locator s) \<and> cs_locator s \<noteq> [] \<and> length (cs_locator s) \<le> max_provider_locator \<and>
     list_all clean_name [cs_provider_name s, cs_service_name s, cs_network_name s, cs_stream_name s] \<and> cs_service_name s \<noteq> []"

definition well_formed_services :: "channel_service list \<Rightarrow> bool" where
  "well_formed_services services \<longleftrightarrow>
     length services \<le> max_services \<and> list_all (\<lambda>s. cs_verified s \<and> cs_selected s \<and> clean_service s) services \<and>
     distinct (map identity_of services) \<and> sorted (map service_key services)"

lemma name_control_ok: "name_control forbidden name = Inr () \<longleftrightarrow> list_all (\<lambda>b. b \<notin> set name) forbidden"
proof (induction forbidden)
  case (Cons b forbidden)
  have "List.find (\<lambda>i. name ! i = b) [0..<length name] = None \<longleftrightarrow> b \<notin> set name"
    by (auto simp: find_None_iff in_set_conv_nth)
  with Cons show ?case by (auto split: option.splits)
qed simp

lemma validate_name_ok: "validate_name (name, required) = Inr () \<longleftrightarrow> clean_name name \<and> (required \<longrightarrow> name \<noteq> [])"
  by (auto simp: validate_name_def clean_name_def name_control_ok)

lemma validate_names_ok: "validate_names entries = Inr () \<longleftrightarrow> list_all (\<lambda>entry. validate_name entry = Inr ()) entries"
  by (induction entries) (auto split: sum.splits)

lemma validate_service_ok: "validate_service s = Inr () \<longleftrightarrow> clean_service s"
  by (auto simp: validate_service_def validate_names_ok validate_name_ok clean_service_def Suc_le_eq simp del: validate_names.simps)

text \<open>The services kept are the verified and selected ones, in their order.\<close>

lemma validate_services_ok:
  "validate_services live n services kept = Inr result \<Longrightarrow>
   result = kept @ filter (\<lambda>s. cs_verified s \<and> cs_selected s) services \<and>
   list_all (\<lambda>s. cs_verified s \<longrightarrow> clean_service s) services"
  by (induction live n services kept rule: validate_services.induct)
    (auto simp: validate_service_ok [symmetric] split: if_splits sum.splits)

lemma validate_services_distinct:
  "validate_services live n services kept = Inr result \<Longrightarrow> distinct (map identity_of kept) \<Longrightarrow> distinct (map identity_of result)"
  by (induction live n services kept rule: validate_services.induct) (auto split: if_splits sum.splits)

lemma sort_services_set [simp]: "set (sort_services services) = set services" "length (sort_services services) = length services"
  by (simp_all add: sort_services_def)

lemma sort_services_sorted: "sorted (map service_key (sort_services services))"
  by (simp add: sort_services_def)

lemma sort_services_distinct: "distinct (map identity_of services) \<Longrightarrow> distinct (map identity_of (sort_services services))"
  unfolding sort_services_def distinct_map by simp

lemma validate_snapshot_ok:
  assumes "validate_snapshot live snapshot = Inr services"
  shows "services = sort_services (filter (\<lambda>s. cs_verified s \<and> cs_selected s) (cl_services snapshot)) \<and> well_formed_services services"
proof -
  from assms obtain kept where kept: "validate_services live 0 (cl_services snapshot) [] = Inr kept" "services = sort_services kept"
    and bound: "length (cl_services snapshot) \<le> max_services"
    by (auto simp: validate_snapshot_def result_bind_eq_Inr split: if_splits)
  note found = validate_services_ok [OF kept(1)] validate_services_distinct [OF kept(1)]
  have "length kept \<le> length (cl_services snapshot)" using found by simp
  then have "length kept \<le> max_services" using bound by simp
  with kept(2) found show ?thesis
    by (auto simp: well_formed_services_def list_all_iff sort_services_sorted sort_services_distinct)
qed

end
