(* ===== verification/ChannelHandler.thy ===== *)
theory ChannelHandler
  imports ChannelList CodecFrames
begin

text \<open>
  \<open>internal/adapters/ctrlcmd/channel\<close>: the requests 1060 (the file \<open>ChSet5.txt\<close>) and 1021 (the service list), answered
  from one snapshot.  The context is asked before every service of every pass and before every write; \<open>live n\<close> is its
  answer the \<open>n\<close>-th time, so the destination carries the number of questions.
\<close>

section \<open>The context\<close>

definition context_ended :: codec_error where
  "context_ended = channel_failure Timeout ''request-context-ended'' 0"

definition context_writer :: "(nat \<Rightarrow> bool) \<Rightarrow> ('e, 'd) sink \<Rightarrow> ('e, 'd \<times> nat) sink" where
  "context_writer live sink data st =
     (case st of (d, n) \<Rightarrow>
        if \<not> live n then (0, Some (CodecError context_ended), (d, Suc n))
        else
          case sink data d of (count, err, d') \<Rightarrow>
            (count, map_option (\<lambda>_. CodecError (channel_failure PeerDisconnect ''response-write-failed'' count)) err, (d', Suc n)))"

definition ask_context :: "(nat \<Rightarrow> bool) \<Rightarrow> ('e, ('d \<times> nat) \<times> int) write_op" where
  "ask_context live w =
     (case wr_dest w of ((d, n), left) \<Rightarrow>
        (if live n then None else Some (CodecError context_ended), w\<lparr>wr_dest := ((d, Suc n), left)\<rparr>))"

section \<open>Sizes\<close>

fun decimal_size :: "nat \<Rightarrow> int" where
  "decimal_size v = (if 10 \<le> v then decimal_size (v div 10) + 1 else 1)"

declare decimal_size.simps [simp del]

definition checked_size :: "int \<Rightarrow> int \<Rightarrow> int \<Rightarrow> string \<Rightarrow> (codec_error, int) result" where
  "checked_size so_far addition limit reason =
     (if so_far < 0 \<or> addition < 0 \<or> limit < 0 \<or> so_far > limit \<or> addition > limit - so_far
      then Inl (channel_failure OverLimit reason limit)
      else Inr (so_far + addition))"

definition bool_uint :: "bool \<Rightarrow> nat" where
  "bool_uint b = (if b then 1 else 0)"

definition row_size :: "channel_service \<Rightarrow> int" where
  "row_size s =
     int (length (cs_service_name s) + length (cs_network_name s) + 10) + decimal_size (unat (cs_network_id s)) +
     decimal_size (unat (cs_stream_id s)) + decimal_size (unat (cs_service_id s)) + decimal_size (unat (cs_type s)) + 3 +
     decimal_size (unat (cs_remote_key s))"

fun file_body_size :: "(nat \<Rightarrow> bool) \<Rightarrow> nat \<Rightarrow> int \<Rightarrow> int \<Rightarrow> channel_service list \<Rightarrow> (codec_error, int) result" where
  "file_body_size live n limit amount [] = Inr amount"
| "file_body_size live n limit amount (s # services) =
     (if \<not> live n then Inl context_ended
      else result_bind (checked_size amount (row_size s) limit ''file-response-body'') (\<lambda>amount.
        file_body_size live (Suc n) limit amount services))"

definition service_names :: "channel_service \<Rightarrow> bytes list" where
  "service_names s = [cs_provider_name s, cs_service_name s, cs_network_name s, cs_stream_name s]"

fun checked_names :: "limits \<Rightarrow> int \<Rightarrow> int \<Rightarrow> bytes list \<Rightarrow> (codec_error, int) result" where
  "checked_names given limit amount [] = Inr amount"
| "checked_names given limit amount (name # names) =
     result_bind (string_size name given) (\<lambda>extent.
     result_bind (checked_size amount extent limit ''service-structure'') (\<lambda>amount. checked_names given limit amount names))"

fun service_sizes :: "(nat \<Rightarrow> bool) \<Rightarrow> nat \<Rightarrow> limits \<Rightarrow> int \<Rightarrow> int \<Rightarrow> channel_service list \<Rightarrow> (codec_error, int) result" where
  "service_sizes live n given limit amount [] = Inr amount"
| "service_sizes live n given limit amount (s # services) =
     (if \<not> live n then Inl context_ended
      else result_bind (checked_names given limit 13 (service_names s)) (\<lambda>extent.
        result_bind (checked_size amount extent limit ''service-response-body'') (\<lambda>amount.
          service_sizes live (Suc n) given limit amount services)))"

definition service_body_size :: "(nat \<Rightarrow> bool) \<Rightarrow> nat \<Rightarrow> limits \<Rightarrow> channel_service list \<Rightarrow> (codec_error, int) result" where
  "service_body_size live n given services =
     (let structure = (if lm_structure_extent given = 0 then lm_structure_extent default_limits else lm_structure_extent given);
          limit = (if structure < lm_response_body given then structure else lm_response_body given)
      in service_sizes live n given limit 8 services)"

fun sum_names :: "limits \<Rightarrow> int \<Rightarrow> bytes list \<Rightarrow> (codec_error, int) result" where
  "sum_names given amount [] = Inr amount"
| "sum_names given amount (name # names) =
     result_bind (string_size name given) (\<lambda>extent. sum_names given (amount + extent) names)"

definition service_structure_size :: "channel_service \<Rightarrow> limits \<Rightarrow> (codec_error, int) result" where
  "service_structure_size s given =
     (case validate_service s of Inl e \<Rightarrow> Inl e | Inr u \<Rightarrow> sum_names given 13 (service_names s))"

section \<open>Writing\<close>

definition row_values :: "channel_service \<Rightarrow> nat list" where
  "row_values s = [unat (cs_network_id s), unat (cs_stream_id s), unat (cs_service_id s), unat (cs_type s),
     bool_uint (cs_partial s), bool_uint (cs_epg s), bool_uint (cs_search s), unat (cs_remote_key s)]"

primrec write_numbers :: "('e, 'd) sink \<Rightarrow> nat list \<Rightarrow> ('e, 'd) write_op" where
  "write_numbers sink [] = (\<lambda>w. (None, w))"
| "write_numbers sink (v # vs) =
     write_then (write_bytes sink [9]) (write_then (write_bytes sink (decimal v)) (write_numbers sink vs))"

definition write_file_row :: "('e, 'd) sink \<Rightarrow> channel_service \<Rightarrow> ('e, 'd) write_op" where
  "write_file_row sink s =
     write_then (write_bytes sink (cs_service_name s))
       (write_then (write_bytes sink [9])
         (write_then (write_bytes sink (cs_network_name s))
           (write_then (write_numbers sink (row_values s)) (write_bytes sink [10]))))"

primrec write_strings :: "('e, 'd) sink \<Rightarrow> bytes list \<Rightarrow> ('e, 'd) write_op" where
  "write_strings sink [] = (\<lambda>w. (None, w))"
| "write_strings sink (v # vs) = write_then (write_string sink v) (write_strings sink vs)"

definition write_service :: "('e, 'd) sink \<Rightarrow> limits \<Rightarrow> channel_service \<Rightarrow> ('e, 'd) write_op" where
  "write_service sink given s w =
     (case sum_names given 13 (service_names s) of
        Inl e \<Rightarrow> write_fail e w
      | Inr extent \<Rightarrow>
          write_then (write_i32 sink (of_int extent))
            (write_then (write_u16 sink (cs_network_id s))
              (write_then (write_u16 sink (cs_stream_id s))
                (write_then (write_u16 sink (cs_service_id s))
                  (write_then (write_u8 sink (cs_type s))
                    (write_then (write_u8 sink (of_nat (bool_uint (cs_partial s))))
                      (write_then (write_strings sink (service_names s)) (write_u8 sink (cs_remote_key s)))))))) w)"

definition write_service_structure :: "('e, 'd) sink \<Rightarrow> 'd writer option \<Rightarrow> channel_service \<Rightarrow> limits
    \<Rightarrow> 'e wire_error option \<times> 'd writer option" where
  "write_service_structure sink writer s given =
     (case writer of
        None \<Rightarrow> (Some (CodecError (channel_failure Internal ''nil-service-writer'' 0)), None)
      | Some w \<Rightarrow>
          (case service_structure_size s given of
             Inl e \<Rightarrow> (Some (CodecError e), Some w)
           | Inr extent \<Rightarrow> map_prod id Some (write_service sink given s w)))"

text \<open>The loop over the services, which asks the context before each.\<close>

primrec write_each :: "('e, 'd) write_op \<Rightarrow> ('a \<Rightarrow> ('e, 'd) write_op) \<Rightarrow> 'a list \<Rightarrow> ('e, 'd) write_op" where
  "write_each ask put [] = (\<lambda>w. (None, w))"
| "write_each ask put (x # xs) = write_then ask (write_then (put x) (write_each ask put xs))"

definition write_response ::
    "(nat \<Rightarrow> bool) \<Rightarrow> nat \<Rightarrow> ('e, 'd) sink \<Rightarrow> 'd \<Rightarrow> i32 \<Rightarrow> int \<Rightarrow> limits \<Rightarrow> ('e, ('d \<times> nat) \<times> int) write_op
      \<Rightarrow> 'e wire_error option \<times> 'd option" where
  "write_response live n sink d code body_size given body =
     map_prod id (map_option fst) (write_frame (context_writer live sink) (Some (d, n)) code body_size given (Some body))"

definition write_file :: "(nat \<Rightarrow> bool) \<Rightarrow> nat \<Rightarrow> ('e, 'd) sink \<Rightarrow> 'd \<Rightarrow> channel_service list \<Rightarrow> limits
    \<Rightarrow> 'e wire_error option \<times> 'd option" where
  "write_file live n sink d services given =
     (case file_body_size live n (lm_response_body given) 0 services of
        Inl e \<Rightarrow> (Some (CodecError e), Some d)
      | Inr amount \<Rightarrow>
          write_response live (n + length services) sink d 1 amount given
            (write_each (ask_context live) (write_file_row (bounded_write (context_writer live sink))) services))"

definition write_service_vector :: "(nat \<Rightarrow> bool) \<Rightarrow> nat \<Rightarrow> ('e, 'd) sink \<Rightarrow> 'd \<Rightarrow> channel_service list \<Rightarrow> limits
    \<Rightarrow> 'e wire_error option \<times> 'd option" where
  "write_service_vector live n sink d services given =
     (case service_body_size live n given services of
        Inl e \<Rightarrow> (Some (CodecError e), Some d)
      | Inr amount \<Rightarrow>
          let target = bounded_write (context_writer live sink) in
          write_response live (n + length services) sink d 1 amount given
            (write_then (write_i32 target (of_int amount))
              (write_then (write_i32 target (of_nat (length services)))
                (write_each (ask_context live) (write_service target given) services))))"

section \<open>The handler\<close>

definition command_file_copy :: i32 where "command_file_copy = 1060"
definition command_enum_service :: i32 where "command_enum_service = 1021"
definition result_unsupported :: i32 where "result_unsupported = 203"
definition channel_file_name :: bytes where "channel_file_name = ascii ''ChSet5.txt''"
definition max_file_body :: int where "max_file_body = 8 * 1024 * 1024"
definition max_service_body :: int where "max_service_body = 16 * 1024 * 1024"

definition command_limits :: "limits \<Rightarrow> int \<Rightarrow> limits" where
  "command_limits given cap =
     (let limits = (if lm_response_body given = 0 \<or> lm_response_body given > cap then given\<lparr>lm_response_body := cap\<rparr> else given)
      in if lm_vector_elements limits = 0 \<or> lm_vector_elements limits > int max_services
         then limits\<lparr>lm_vector_elements := int max_services\<rparr> else limits)"

text \<open>The services of the source: \<open>None\<close> is no source, \<open>Some None\<close> one that fails; and the questions asked so far.\<close>

definition project :: "(nat \<Rightarrow> bool) \<Rightarrow> channel_snapshot option option \<Rightarrow> (codec_error, channel_service list \<times> nat) result" where
  "project live source =
     (if \<not> live 0 then Inl context_ended
      else
        case source of
          None \<Rightarrow> Inl (channel_failure Internal ''missing-channel-source'' 0)
        | Some None \<Rightarrow> Inl (if \<not> live 1 then context_ended else channel_failure Internal ''channel-source-failed'' 0)
        | Some (Some snapshot) \<Rightarrow>
            result_bind (validate_snapshot (\<lambda>n. live (Suc n)) snapshot) (\<lambda>services.
              Inr (services, Suc (length (cl_services snapshot)))))"

datatype request_kind = AnswerFile | AnswerOtherFile | AnswerServices

definition classify_request :: "limits \<Rightarrow> frame \<Rightarrow> (codec_error, request_kind) result" where
  "classify_request given frame =
     (if fr_code frame = command_file_copy then
        if length (fr_body frame) \<noteq> 26
        then Inl (channel_failure Malformed ''file-request-body-size'' (int (length (fr_body frame))))
        else
          result_bind (new_reader (fr_body frame) given) (\<lambda>r.
            case read_string r of
              (Inl e, r') \<Rightarrow> Inl e
            | (Inr requested, r') \<Rightarrow>
                case fst (exact r') of
                  Inl e \<Rightarrow> Inl e
                | Inr u \<Rightarrow> Inr (if requested \<noteq> channel_file_name then AnswerOtherFile else AnswerFile))
      else if fr_code frame = command_enum_service then
        if fr_body frame \<noteq> []
        then Inl (channel_failure Malformed ''enum-request-body-size'' (int (length (fr_body frame))))
        else Inr AnswerServices
      else Inl (channel_failure Unsupported ''command-out-of-profile'' (sint (fr_code frame))))"

definition handle_channel ::
    "(nat \<Rightarrow> bool) option \<Rightarrow> channel_snapshot option option \<Rightarrow> limits \<Rightarrow> bytes \<Rightarrow> ('e, 'd) sink \<Rightarrow> 'd option
      \<Rightarrow> 'e wire_error option \<times> 'd option" where
  "handle_channel ctx source given request sink destination =
     (case parse_request_frame request given of
        Inl e \<Rightarrow> (Some (CodecError e), destination)
      | Inr frame \<Rightarrow>
          (case ctx of
             None \<Rightarrow> (Some (CodecError (channel_failure Internal ''nil-context'' 0)), destination)
           | Some live \<Rightarrow>
               (case classify_request given frame of
                  Inl e \<Rightarrow> (Some (CodecError e), destination)
                | Inr kind \<Rightarrow>
                    (case destination of
                       None \<Rightarrow> (Some (CodecError (channel_failure Internal ''nil-response-writer'' 0)), None)
                     | Some d \<Rightarrow>
                         if kind = AnswerOtherFile
                         then write_response live 0 sink d result_unsupported 0 (command_limits given max_file_body) (\<lambda>w. (None, w))
                         else
                           case project live source of
                             Inl e \<Rightarrow> (Some (CodecError e), Some d)
                           | Inr (services, n) \<Rightarrow>
                               if kind = AnswerFile then write_file live n sink d services (command_limits given max_file_body)
                               else write_service_vector live n sink d services (command_limits given max_service_body)))))"

end
