(* ===== verification/ChannelHandlerSpec.thy ===== *)
theory ChannelHandlerSpec
  imports ChannelHandler CodecRoundtrip
begin

text \<open>
  What the answers about channels are: the lines of \<open>ChSet5.txt\<close> and the structures of the service list, in the order of
  the snapshot, behind a header that announces their exact size.
\<close>

section \<open>The text and the structures\<close>

definition numbers_text :: "nat list \<Rightarrow> bytes" where
  "numbers_text vs = concat (map (\<lambda>v. 9 # decimal v) vs)"

definition file_row :: "channel_service \<Rightarrow> bytes" where
  "file_row s = cs_service_name s @ 9 # cs_network_name s @ numbers_text (row_values s) @ [10]"

definition service_struct :: "channel_service \<Rightarrow> bytes" where
  "service_struct s = structure_put (le_put 2 (cs_network_id s) @ le_put 2 (cs_stream_id s) @ le_put 2 (cs_service_id s) @
     [cs_type s, of_nat (bool_uint (cs_partial s))] @ concat (map string_bytes (service_names s)) @ [cs_remote_key s])"

definition answer_body :: "request_kind \<Rightarrow> channel_service list \<Rightarrow> bytes" where
  "answer_body kind services =
     (case kind of
        AnswerFile \<Rightarrow> concat (map file_row services)
      | AnswerOtherFile \<Rightarrow> []
      | AnswerServices \<Rightarrow> vector_put (length services) (concat (map service_struct services)))"

definition answer_code :: "request_kind \<Rightarrow> i32" where
  "answer_code kind = (if kind = AnswerOtherFile then result_unsupported else 1)"

lemma length_decimal: "int (length (decimal v)) = decimal_size v"
proof (induction v rule: decimal_size.induct)
  case (1 v)
  show ?case
  proof (cases "10 \<le> v")
    case True
    then have "decimal v = decimal (v div 10) @ [digit (v mod 10)]"
      unfolding decimal_def by (subst numerals.simps) simp
    with 1 [OF True] True show ?thesis by (simp add: decimal_size.simps [of v])
  qed (simp add: decimal_def numerals.simps [of 10 v] decimal_size.simps [of v])
qed

lemma decimal_bool: "decimal_size (bool_uint b) = 1"
  by (simp add: bool_uint_def decimal_size.simps)

lemma length_file_row: "int (length (file_row s)) = row_size s"
  by (simp add: file_row_def numbers_text_def row_values_def row_size_def length_decimal decimal_bool)

lemma checked_size_ok: "checked_size so_far addition limit reason = Inr result \<Longrightarrow> result = so_far + addition \<and> result \<le> limit"
  by (auto simp: checked_size_def split: if_splits)

lemma file_body_size_ok:
  "file_body_size live n limit amount services = Inr result \<Longrightarrow> result = amount + int (length (concat (map file_row services)))"
  by (induction live n limit amount services rule: file_body_size.induct)
    (fastforce simp: result_bind_eq_Inr length_file_row split: if_splits dest!: checked_size_ok)+

lemma checked_names_ok:
  "checked_names given limit amount names = Inr result \<Longrightarrow> result = amount + int (length (concat (map string_bytes names)))"
  by (induction given limit amount names rule: checked_names.induct)
    (fastforce simp: result_bind_eq_Inr dest!: checked_size_ok string_size_sound)+

lemma sum_names_ok:
  "sum_names given amount names = Inr result \<Longrightarrow> result = amount + int (length (concat (map string_bytes names)))"
  by (induction given amount names rule: sum_names.induct) (fastforce simp: result_bind_eq_Inr dest!: string_size_sound)+

lemma length_service_struct: "length (service_struct s) = 13 + length (concat (map string_bytes (service_names s)))"
  by (simp add: service_struct_def)

lemma service_sizes_ok:
  "service_sizes live n given limit amount services = Inr result \<Longrightarrow>
   result = amount + int (length (concat (map service_struct services)))"
  by (induction live n given limit amount services rule: service_sizes.induct)
    (fastforce simp: result_bind_eq_Inr length_service_struct split: if_splits dest!: checked_size_ok checked_names_ok)+

section \<open>What is written\<close>

context byte_sink
begin

lemma emits_numbers: "emits (write_numbers sink vs) (numbers_text vs)"
proof (induction vs)
  case (Cons v vs)
  have "emits (write_numbers sink (v # vs)) ([9] @ decimal v @ numbers_text vs)"
    unfolding write_numbers.simps write_bytes_def by (intro emits_then emits_all Cons)
  then show ?case by (simp add: numbers_text_def)
qed (simp add: numbers_text_def emits_skip)

lemma emits_file_row: "emits (write_file_row sink s) (file_row s)"
proof -
  have "emits (write_file_row sink s) (cs_service_name s @ [9] @ cs_network_name s @ numbers_text (row_values s) @ [10])"
    unfolding write_file_row_def write_bytes_def by (intro emits_then emits_all emits_numbers)
  then show ?thesis by (simp add: file_row_def)
qed

lemma emits_strings: "emits (write_strings sink vs) (concat (map string_bytes vs))"
  by (induction vs) (auto intro: emits_skip emits_then emits_string)

lemma emits_service: "emits (write_service sink given s) (service_struct s)"
proof (cases "sum_names given 13 (service_names s)")
  case (Inl e)
  then show ?thesis by (intro emitsI) (auto simp: write_service_def write_fail_def intro: progress_fail)
next
  case (Inr extent)
  let ?strings = "concat (map string_bytes (service_names s))"
  have extent: "extent = int (13 + length ?strings)" using sum_names_ok [OF Inr] by simp
  have "emits (write_service sink given s) (le_put 4 (of_int extent :: i32) @ le_put 2 (cs_network_id s) @ le_put 2 (cs_stream_id s) @
      le_put 2 (cs_service_id s) @ [cs_type s] @ [of_nat (bool_uint (cs_partial s))] @ ?strings @ [cs_remote_key s])"
    unfolding write_service_def Inr sum.case write_i32_def write_u16_def write_u8_def
    by (intro emits_then [unfolded write_then_def] emits_then emits_all emits_strings)
  then show ?thesis unfolding extent of_int_of_nat_eq by (simp add: service_struct_def structure_put_def)
qed

lemma emits_each:
  assumes "emits ask []" "\<And>x. emits (put x) (text_of x)"
  shows "emits (write_each ask put xs) (concat (map text_of xs))"
proof (induction xs)
  case (Cons x xs)
  have "emits (write_each ask put (x # xs)) ([] @ text_of x @ concat (map text_of xs))"
    unfolding write_each.simps by (intro emits_then assms Cons)
  then show ?case by simp
qed (simp add: emits_skip)

lemma context_sink: "byte_sink (context_writer live sink) (\<lambda>st. contents (fst st)) (\<lambda>st. legal (fst st))"
  by unfold_locales (auto simp: context_writer_def split: prod.splits if_splits dest: accepts)

lemma emits_ask:
  "byte_sink.emits (\<lambda>st. contents (fst (fst st))) (frame_open start amount (\<lambda>st. contents (fst st)) (\<lambda>st. legal (fst st)))
     (ask_context live :: ('e, ('d \<times> nat) \<times> int) write_op) []"
  by (rule byte_sink.emitsI [OF byte_sink.bounded_sink [OF context_sink]])
    (auto simp: byte_sink.progress_def [OF byte_sink.bounded_sink [OF context_sink]] ask_context_def frame_open_def split: prod.splits)

lemma bounded_context:
  "byte_sink (bounded_write (context_writer live sink)) (\<lambda>st. contents (fst (fst st)))
     (frame_open start amount (\<lambda>st. contents (fst st)) (\<lambda>st. legal (fst st)))"
  by (rule byte_sink.bounded_sink [OF context_sink])

text \<open>A response whose body is written as announced.\<close>

lemma write_response_emits:
  assumes "legal d"
    and "byte_sink.emits (\<lambda>st. contents (fst (fst st)))
      (frame_open (contents d @ frame_header code amount) amount (\<lambda>st. contents (fst st)) (\<lambda>st. legal (fst st))) body bs"
    and "write_response live n sink d code amount given body = (e, Some d')"
  shows "framed_bytes (contents d) (frame_header code amount) amount bs e (contents d')"
proof -
  from assms(3) obtain st where "write_frame (context_writer live sink) (Some (d, n)) code amount given (Some body) = (e, Some st)"
    and "d' = fst st"
    by (cases "write_frame (context_writer live sink) (Some (d, n)) code amount given (Some body)") (auto simp: write_response_def)
  with byte_sink.write_frame_emits [OF context_sink, of "(d, n)"] assms(1,2) show ?thesis by simp
qed

lemma write_file_emits:
  assumes "legal d" "write_file live n sink d services given = (e, Some d')"
  shows "contents d' = contents d \<and> e \<noteq> None \<or>
    framed_bytes (contents d) (frame_header 1 (int (length (concat (map file_row services)))))
      (int (length (concat (map file_row services)))) (concat (map file_row services)) e (contents d')"
proof (cases "file_body_size live n (lm_response_body given) 0 services")
  case (Inl x)
  with assms show ?thesis by (auto simp: write_file_def)
next
  case (Inr amount)
  have "write_response live (n + length services) sink d 1 amount given
      (write_each (ask_context live) (write_file_row (bounded_write (context_writer live sink))) services) = (e, Some d')"
    using assms(2) by (simp add: write_file_def Inr)
  note written = write_response_emits [OF assms(1) byte_sink.emits_each [OF bounded_context emits_ask
      byte_sink.emits_file_row [OF bounded_context]] this]
  from file_body_size_ok [OF Inr] have "amount = int (length (concat (map file_row services)))" by simp
  with written show ?thesis by simp
qed

lemma write_service_vector_emits:
  assumes "legal d" "write_service_vector live n sink d services given = (e, Some d')"
  shows "contents d' = contents d \<and> e \<noteq> None \<or>
    framed_bytes (contents d) (frame_header 1 (int (length (vector_put (length services) (concat (map service_struct services))))))
      (int (length (vector_put (length services) (concat (map service_struct services)))))
      (vector_put (length services) (concat (map service_struct services))) e (contents d')"
proof (cases "service_body_size live n given services")
  case (Inl x)
  with assms show ?thesis by (auto simp: write_service_vector_def)
next
  case (Inr amount)
  let ?structs = "concat (map service_struct services)" and ?target = "bounded_write (context_writer live sink)"
  have amount: "amount = int (8 + length ?structs)"
    using service_sizes_ok [of live n given _ 8 services amount] Inr by (simp add: service_body_size_def Let_def)
  have run: "write_response live (n + length services) sink d 1 amount given
      (write_then (write_i32 ?target (of_int amount)) (write_then (write_i32 ?target (of_nat (length services)))
        (write_each (ask_context live) (write_service ?target given) services))) = (e, Some d')"
    using assms(2) by (simp add: write_service_vector_def Inr Let_def)
  have bytes: "le_put 4 (of_int amount :: i32) @ le_put 4 (of_nat (length services) :: i32) @ ?structs =
      vector_put (length services) ?structs"
    unfolding amount of_int_of_nat_eq by (simp add: vector_put_def)
  note written = write_response_emits [OF assms(1) _ run, of "le_put 4 (of_int amount :: i32) @ le_put 4 (of_nat (length services) :: i32) @ ?structs"]
  have "framed_bytes (contents d) (frame_header 1 amount) amount (vector_put (length services) ?structs) e (contents d')"
    unfolding bytes [symmetric] by (rule written, unfold write_i32_def, intro byte_sink.emits_then [OF bounded_context]
      byte_sink.emits_all [OF bounded_context] byte_sink.emits_each [OF bounded_context] emits_ask byte_sink.emits_service [OF bounded_context])
  then show ?thesis by (simp add: amount)
qed

end

lemma project_ok:
  "project live source = Inr (services, n) \<Longrightarrow>
   \<exists>snapshot. source = Some (Some snapshot) \<and> well_formed_services services \<and>
     services = sort_services (filter (\<lambda>s. cs_verified s \<and> cs_selected s) (cl_services snapshot))"
  by (auto simp: project_def result_bind_eq_Inr dest: validate_snapshot_ok split: if_splits option.splits)

text \<open>What the answer to a request is: its code, its body, and the services it lists.\<close>

definition answers :: "limits \<Rightarrow> bytes \<Rightarrow> channel_snapshot option option \<Rightarrow> i32 \<Rightarrow> bytes \<Rightarrow> bool" where
  "answers given request source code body \<longleftrightarrow>
     (\<exists>frame kind services. parse_request_frame request given = Inr frame \<and> classify_request given frame = Inr kind \<and>
        code = answer_code kind \<and> body = answer_body kind services \<and>
        (kind = AnswerOtherFile \<or>
         (\<exists>snapshot. source = Some (Some snapshot) \<and> well_formed_services services \<and>
            services = sort_services (filter (\<lambda>s. cs_verified s \<and> cs_selected s) (cl_services snapshot)))))"

text \<open>C30. (safety): whatever the destination and the context do, what a request about channels leaves in
  the destination is nothing, or a prefix of one frame: its header announces the exact size of its body, and the body is
  the text or the vector of the verified and selected services of the source in their order, or empty with the code 203 when
  another file was asked for.  When the handler reports success the whole frame is there.\<close>

theorem channel_answer_exact:
  assumes "byte_sink sink contents legal" "legal d"
    and "handle_channel ctx source given request sink (Some d) = (e, Some d')"
  shows "contents d' = contents d \<and> e \<noteq> None \<or>
    (\<exists>code body. answers given request source code body \<and>
       framed_bytes (contents d) (frame_header code (int (length body))) (int (length body)) body e (contents d'))"
proof -
  note sink = assms(1,2)
  consider (bad) x where "e = Some x" "d' = d"
    | (run) live frame kind where "parse_request_frame request given = Inr frame" "classify_request given frame = Inr kind"
      "(if kind = AnswerOtherFile
        then write_response live 0 sink d result_unsupported 0 (command_limits given max_file_body) (\<lambda>w. (None, w))
        else case project live source of
               Inl e \<Rightarrow> (Some (CodecError e), Some d)
             | Inr (services, n) \<Rightarrow>
                 if kind = AnswerFile then write_file live n sink d services (command_limits given max_file_body)
                 else write_service_vector live n sink d services (command_limits given max_service_body)) = (e, Some d')"
    using assms(3) by (auto simp: handle_channel_def split: sum.splits option.splits if_splits)
  then show ?thesis
  proof cases
    case bad
    then show ?thesis by simp
  next
    case run
    show ?thesis
    proof (cases "kind = AnswerOtherFile")
      case True
      from byte_sink.write_response_emits [OF sink byte_sink.emits_skip [OF byte_sink.bounded_context [OF assms(1)]]] run(3) True
      have "framed_bytes (contents d) (frame_header result_unsupported 0) 0 [] e (contents d')" by auto
      moreover have "answers given request source result_unsupported []"
        unfolding answers_def using run(1,2) True by (auto simp: answer_code_def answer_body_def)
      ultimately show ?thesis by (intro disjI2 exI [of _ result_unsupported] exI [of _ "[]"]) simp
    next
      case other: False
      show ?thesis
      proof (cases "project live source")
        case (Inl x)
        with run(3) other show ?thesis by auto
      next
        case (Inr found)
        obtain services n where found: "found = (services, n)" by fastforce
        have answered: "answers given request source 1 (answer_body kind services)"
          unfolding answers_def using run(1,2) other project_ok [OF Inr [unfolded found]] by (auto simp: answer_code_def)
        show ?thesis
        proof (cases kind)
          case AnswerFile
          with run(3) Inr found have "write_file live n sink d services (command_limits given max_file_body) = (e, Some d')" by simp
          from byte_sink.write_file_emits [OF sink this] answered AnswerFile show ?thesis by (auto simp: answer_body_def)
        next
          case AnswerOtherFile
          with other show ?thesis by simp
        next
          case AnswerServices
          with run(3) Inr found have "write_service_vector live n sink d services (command_limits given max_service_body) = (e, Some d')"
            by simp
          from byte_sink.write_service_vector_emits [OF sink this] answered AnswerServices show ?thesis
            by (fastforce simp: answer_body_def)
        qed
      qed
    qed
  qed
qed

section \<open>A buffer and a live context\<close>

text \<open>With limits \<open>l\<close>, a method writes \<open>bs\<close> and succeeds as long as there is room.\<close>

definition delivers :: "limits \<Rightarrow> (unit, (bytes \<times> nat) \<times> int) write_op \<Rightarrow> bytes \<Rightarrow> bool" where
  "delivers l m bs \<longleftrightarrow>
     (\<forall>d n left written. int (length bs) \<le> left \<longrightarrow>
        (\<exists>n'. m \<lparr>wr_dest = ((d, n), left), wr_written = written, wr_limits = l\<rparr> =
           (None, \<lparr>wr_dest = ((d @ bs, n'), left - int (length bs)), wr_written = written + int (length bs), wr_limits = l\<rparr>)))"

abbreviation live_target :: "(unit, (bytes \<times> nat) \<times> int) sink" where
  "live_target \<equiv> bounded_write (context_writer (\<lambda>_. True) buffer_write)"

lemma deliversD:
  "delivers l m bs \<Longrightarrow> int (length bs) \<le> left \<Longrightarrow>
   \<exists>n'. m \<lparr>wr_dest = ((d, n), left), wr_written = written, wr_limits = l\<rparr> =
     (None, \<lparr>wr_dest = ((d @ bs, n'), left - int (length bs)), wr_written = written + int (length bs), wr_limits = l\<rparr>)"
  by (simp add: delivers_def)

lemma delivers_skip: "delivers l (\<lambda>w. (None, w)) []"
  by (simp add: delivers_def)

lemma delivers_then:
  assumes "delivers l m as" "delivers l m' bs"
  shows "delivers l (write_then m m') (as @ bs)"
  unfolding delivers_def
proof (intro allI impI)
  fix d n left written
  assume room: "int (length (as @ bs)) \<le> left"
  from deliversD [OF assms(1), of left d n written] room obtain n1 where
    "m \<lparr>wr_dest = ((d, n), left), wr_written = written, wr_limits = l\<rparr> =
      (None, \<lparr>wr_dest = ((d @ as, n1), left - int (length as)), wr_written = written + int (length as), wr_limits = l\<rparr>)"
    by auto
  moreover from deliversD [OF assms(2), of "left - int (length as)" "d @ as" n1 "written + int (length as)"] room obtain n2 where
    "m' \<lparr>wr_dest = ((d @ as, n1), left - int (length as)), wr_written = written + int (length as), wr_limits = l\<rparr> =
      (None, \<lparr>wr_dest = (((d @ as) @ bs, n2), left - int (length as) - int (length bs)),
        wr_written = written + int (length as) + int (length bs), wr_limits = l\<rparr>)"
    by auto
  ultimately show "\<exists>n'. write_then m m' \<lparr>wr_dest = ((d, n), left), wr_written = written, wr_limits = l\<rparr> =
      (None, \<lparr>wr_dest = ((d @ as @ bs, n'), left - int (length (as @ bs))), wr_written = written + int (length (as @ bs)), wr_limits = l\<rparr>)"
    by (simp add: write_then_def algebra_simps)
qed

lemma delivers_all: "delivers l (write_all live_target bs) bs"
proof (cases "bs = []")
  case False
  then show ?thesis
    by (auto simp: delivers_def write_all.simps [of _ bs] write_all.simps [of _ "[]"] bounded_write_def context_writer_def buffer_write_def)
qed (simp add: delivers_def write_all.simps)

lemma delivers_ask: "delivers l (ask_context (\<lambda>_. True)) []"
  by (simp add: delivers_def ask_context_def)

lemma delivers_each:
  assumes "\<And>x. x \<in> set xs \<Longrightarrow> delivers l (put x) (text_of x)"
  shows "delivers l (write_each (ask_context (\<lambda>_. True)) put xs) (concat (map text_of xs))"
  using assms
proof (induction xs)
  case (Cons x xs)
  have "delivers l (write_each (ask_context (\<lambda>_. True)) put (x # xs)) ([] @ text_of x @ concat (map text_of xs))"
    unfolding write_each.simps by (intro delivers_then delivers_ask Cons) (simp_all add: Cons)
  then show ?case by simp
qed (simp add: delivers_skip)

lemma delivers_numbers: "delivers l (write_numbers live_target vs) (numbers_text vs)"
proof (induction vs)
  case (Cons v vs)
  have "delivers l (write_numbers live_target (v # vs)) ([9] @ decimal v @ numbers_text vs)"
    unfolding write_numbers.simps write_bytes_def by (intro delivers_then delivers_all Cons)
  then show ?case by (simp add: numbers_text_def)
qed (simp add: numbers_text_def delivers_skip)

lemma delivers_file_row: "delivers l (write_file_row live_target s) (file_row s)"
proof -
  have "delivers l (write_file_row live_target s) (cs_service_name s @ [9] @ cs_network_name s @ numbers_text (row_values s) @ [10])"
    unfolding write_file_row_def write_bytes_def by (intro delivers_then delivers_all delivers_numbers)
  then show ?thesis by (simp add: file_row_def)
qed

lemma le_put_some: "le_put 4 (v :: i32) \<noteq> []"
  by (simp flip: length_0_conv)

lemma delivers_response:
  assumes "delivers l body bs" "normalized given = Inr l" "int (length bs) \<le> lm_response_body l" "length bs < 2 ^ 31"
  shows "write_response (\<lambda>_. True) n (buffer_write :: (unit, bytes) sink) d code (int (length bs)) given body =
    (None, Some (d @ frame_header code (int (length bs)) @ bs))"
proof -
  have l: "normalized l = Inr l" using assms(2) by (rule normalized_idem [OF normalized_within])
  have header: "write_then (write_i32 (context_writer (\<lambda>_. True) (buffer_write :: (unit, bytes) sink)) code)
      (write_i32 (context_writer (\<lambda>_. True) buffer_write) (of_int (int (length bs))))
      \<lparr>wr_dest = (d, n), wr_written = 0, wr_limits = l\<rparr> =
      (None, \<lparr>wr_dest = (d @ frame_header code (int (length bs)), n + 2), wr_written = 8, wr_limits = l\<rparr>)"
    by (simp add: le_put_some write_then_def write_i32_def write_all.simps context_writer_def buffer_write_def frame_header_def)
  from deliversD [OF assms(1), of "int (length bs)" "d @ frame_header code (int (length bs))" "n + 2" 0] obtain n' where
    "body \<lparr>wr_dest = ((d @ frame_header code (int (length bs)), n + 2), int (length bs)), wr_written = 0, wr_limits = l\<rparr> =
      (None, \<lparr>wr_dest = (((d @ frame_header code (int (length bs))) @ bs, n'), 0), wr_written = int (length bs), wr_limits = l\<rparr>)"
    by auto
  then show ?thesis
    using assms(2-4) l header
    by (simp add: write_response_def write_frame_def write_body_def new_writer_def)
qed

section \<open>A request for the file\<close>

definition sample_file_service :: channel_service where
  "sample_file_service = \<lparr>cs_locator = [49], cs_provider_name = [], cs_service_name = [67], cs_network_name = [78], cs_stream_name = [],
     cs_network_id = 4, cs_stream_id = 5, cs_service_id = 6, cs_type = 1, cs_remote_key = 12, cs_partial = False, cs_epg = True,
     cs_search = True, cs_verified = True, cs_selected = True\<rparr>"

definition sample_channels :: channel_snapshot where
  "sample_channels = \<lparr>cl_key = [118], cl_services = [sample_file_service]\<rparr>"

lemma sample_projected: "project (\<lambda>_. True) (Some (Some sample_channels)) = Inr ([sample_file_service], 2)"
proof -
  have "clean_service sample_file_service"
    by (simp add: clean_service_def clean_name_def sample_file_service_def forbidden_bytes_def text_eval)
  then have "validate_service sample_file_service = Inr ()" by (simp add: validate_service_ok)
  moreover have "cs_verified sample_file_service" "cs_selected sample_file_service" by (simp_all add: sample_file_service_def)
  ultimately show ?thesis
    by (simp add: project_def sample_channels_def validate_snapshot_def sort_services_def text_eval)
qed

lemma normalize_values_of:
  "length gs = length hs \<Longrightarrow>
   normalize_values (zip gs hs) = Inr vs \<longleftrightarrow>
     list_all (\<lambda>(g, h). 1 \<le> (if g = 0 then h else g) \<and> (if g = 0 then h else g) \<le> h) (zip gs hs) \<and>
     vs = map (\<lambda>(g, h). if g = 0 then h else g) (zip gs hs)"
  by (induction gs hs arbitrary: vs rule: list_induct2) (auto simp: Let_def result_bind_eq_Inr)

lemma command_limits_normalized:
  assumes "normalized given = Inr l" "1 \<le> cap" "cap \<le> 8 * 1024 * 1024"
  shows "\<exists>l'. normalized (command_limits given cap) = Inr l' \<and> lm_response_body l' = lm_response_body (command_limits given cap) \<and>
    1 \<le> lm_response_body l' \<and> lm_response_body l' \<le> cap"
proof -
  have good: "list_all (\<lambda>(g, h). 1 \<le> (if g = 0 then h else g) \<and> (if g = 0 then h else g) \<le> h)
      (zip (limit_values given) (limit_values default_limits))"
    using assms(1) by (auto simp: normalized_def result_bind_eq_Inr normalize_values_of length_limit_values)
  have "list_all (\<lambda>(g, h). 1 \<le> (if g = 0 then h else g) \<and> (if g = 0 then h else g) \<le> h)
      (zip (limit_values (command_limits given cap)) (limit_values default_limits))"
    using good assms(2,3) by (simp add: command_limits_def limit_values_def default_limits_def Let_def split: if_splits)
  moreover have "1 \<le> lm_response_body (command_limits given cap)" "lm_response_body (command_limits given cap) \<le> cap"
    using good assms(2) by (auto simp: command_limits_def limit_values_def default_limits_def Let_def split: if_splits)
  ultimately show ?thesis
    by (simp add: normalized_def result_bind_eq_Inr normalize_values_of length_limit_values)
      (auto simp: limit_values_def default_limits_def)
qed

lemma decimal_size_pos: "0 \<le> decimal_size v"
  by (simp flip: length_decimal)

lemma file_body_size_live:
  "0 \<le> amount \<Longrightarrow> amount \<le> limit \<Longrightarrow>
   file_body_size (\<lambda>_. True) n limit amount services =
     (if amount + int (length (concat (map file_row services))) \<le> limit
      then Inr (amount + int (length (concat (map file_row services))))
      else Inl (channel_failure OverLimit ''file-response-body'' limit))"
proof (induction services arbitrary: n amount)
  case (Cons s services)
  show ?case
  proof (cases "amount + row_size s \<le> limit")
    case True
    have "0 \<le> row_size s" by (simp flip: length_file_row)
    with True Cons.prems Cons.IH [of "amount + row_size s"] show ?thesis
      by (auto simp: checked_size_def length_file_row)
  next
    case False
    have "0 \<le> row_size s" by (simp flip: length_file_row)
    with False Cons.prems show ?thesis by (auto simp: checked_size_def length_file_row)
  qed
qed simp

lemma file_answered:
  assumes "parse_request_frame request given = Inr frame" "classify_request given frame = Inr AnswerFile"
    and "validate_snapshot (\<lambda>_. True) snapshot = Inr services"
  shows "handle_channel (Some (\<lambda>_. True)) (Some (Some snapshot)) given request (buffer_write :: (unit, bytes) sink) (Some d) =
    (let body = concat (map file_row services); limit = lm_response_body (command_limits given max_file_body) in
     if int (length body) \<le> limit then (None, Some (d @ frame_header 1 (int (length body)) @ body))
     else (Some (CodecError (channel_failure OverLimit ''file-response-body'' limit)), Some d))"
proof -
  let ?limits = "command_limits given max_file_body" and ?body = "concat (map file_row services)"
  from assms(1) obtain l where "normalized given = Inr l" by (auto simp: parse_request_frame_def result_bind_eq_Inr)
  from command_limits_normalized [OF this, of max_file_body] obtain l' where l': "normalized ?limits = Inr l'"
      "lm_response_body l' = lm_response_body ?limits" "1 \<le> lm_response_body l'" "lm_response_body l' \<le> max_file_body"
    by (auto simp: max_file_body_def)
  have sizes: "file_body_size (\<lambda>_. True) n (lm_response_body ?limits) 0 services =
      (if int (length ?body) \<le> lm_response_body ?limits then Inr (int (length ?body))
       else Inl (channel_failure OverLimit ''file-response-body'' (lm_response_body ?limits)))" for n
    using file_body_size_live [of 0 "lm_response_body ?limits" n services] l'(2,3) by simp
  have sent: "write_response (\<lambda>_. True) n (buffer_write :: (unit, bytes) sink) d 1 (int (length ?body)) ?limits
      (write_each (ask_context (\<lambda>_. True)) (write_file_row live_target) services) =
      (None, Some (d @ frame_header 1 (int (length ?body)) @ ?body))"
    if "int (length ?body) \<le> lm_response_body ?limits" for n
    by (rule delivers_response [OF delivers_each [OF delivers_file_row] l'(1)])
      (use that l'(2,4) in \<open>simp_all add: max_file_body_def\<close>)
  show ?thesis
    using assms sizes sent by (simp add: handle_channel_def project_def write_file_def Let_def)
qed

text \<open>With a context that stays alive and a buffer, the request for \<open>ChSet5.txt\<close> is answered in
  full: the header and one line per service of the validated snapshot, each line the service name, the network name and the
  eight numbers in decimal behind tabs; or, when the text passes the limit, by an error and no byte.\<close>

theorem channel_file_sent:
  assumes "parse_request_frame request given = Inr frame" "classify_request given frame = Inr AnswerFile"
    and "validate_snapshot (\<lambda>_. True) snapshot = Inr services"
  shows "handle_channel (Some (\<lambda>_. True)) (Some (Some snapshot)) given request (buffer_write :: (unit, bytes) sink) (Some d) =
    (let body = concat (map (\<lambda>s. cs_service_name s @ 9 # cs_network_name s @
           concat (map (\<lambda>v. 9 # decimal v)
             [unat (cs_network_id s), unat (cs_stream_id s), unat (cs_service_id s), unat (cs_type s), bool_uint (cs_partial s),
              bool_uint (cs_epg s), bool_uint (cs_search s), unat (cs_remote_key s)]) @ [10]) services);
         limit = lm_response_body (command_limits given max_file_body) in
     if int (length body) \<le> limit then (None, Some (d @ frame_header 1 (int (length body)) @ body))
     else (Some (CodecError (channel_failure OverLimit ''file-response-body'' limit)), Some d))"
  using file_answered [OF assms, of d] unfolding file_row_def numbers_text_def row_values_def .

definition sample_file_request :: bytes where
  "sample_file_request = frame_header command_file_copy 26 @ string_bytes channel_file_name"

lemma file_name_text: "plain_text channel_file_name" "length (string_bytes channel_file_name) = 26"
proof -
  have units: "runes channel_file_name = [67, 104, 83, 101, 116, 53, 46, 116, 120, 116]"
    by (simp add: channel_file_name_def text_eval)
  have "valid_string channel_file_name" by (simp add: channel_file_name_def text_eval)
  then show "plain_text channel_file_name" using valid_string_utf8 units by (simp add: plain_text_def)
  show "length (string_bytes channel_file_name) = 26"
    by (simp add: length_string_bytes text_units_def units rune_units_def)
qed

lemma default_normalized: "normalized default_limits = Inr default_limits"
  by (rule normalized_idem) (simp add: within_hard_limits_def limit_values_def default_limits_def)

lemma sample_file_frame:
  "parse_request_frame sample_file_request default_limits = Inr \<lparr>fr_code = command_file_copy, fr_body = string_bytes channel_file_name\<rparr>"
  using parse_frame_bytes [OF default_normalized, of "string_bytes channel_file_name" command_file_copy]
  by (simp add: sample_file_request_def file_name_text default_limits_def)

lemma sample_file_kind:
  "classify_request default_limits \<lparr>fr_code = command_file_copy, fr_body = string_bytes channel_file_name\<rparr> = Inr AnswerFile"
proof -
  define r where "r = \<lparr>rd_data = string_bytes channel_file_name, rd_pos = 0, rd_depth = 0, rd_limits = default_limits,
      rd_budget = lm_logical_items default_limits\<rparr>"
  have "new_reader (string_bytes channel_file_name) default_limits = Inr r"
    by (simp add: new_reader_def default_normalized r_def)
  moreover have "read_string r = (Inr channel_file_name, advance (length (string_bytes channel_file_name)) 1 r)"
    by (rule read_string_put [where d = 0])
      (auto simp: ahead_def r_def string_fits_def file_name_text default_limits_def)
  moreover have "fst (exact (advance (length (string_bytes channel_file_name)) 1 r)) = Inr ()"
    by (simp add: exact_def read_return_def r_def)
  ultimately show ?thesis
    by (simp add: classify_request_def file_name_text)
qed

lemma sample_validated: "validate_snapshot (\<lambda>_. True) sample_channels = Inr [sample_file_service]"
  using sample_projected by (auto simp: project_def result_bind_eq_Inr sample_channels_def)

theorem channel_file_sent_witness:
  "handle_channel (Some (\<lambda>_. True)) (Some (Some sample_channels)) default_limits sample_file_request
     (buffer_write :: (unit, bytes) sink) (Some []) =
   (None, Some (frame_header 1 21 @ [67, 9, 78, 9, 52, 9, 53, 9, 54, 9, 49, 9, 48, 9, 49, 9, 49, 9, 49, 50, 10]))"
  using channel_file_sent [OF sample_file_frame sample_file_kind sample_validated, of "[]"]
  by (simp add: sample_file_service_def Let_def decimal_def numerals.simps digit_def bool_uint_def command_limits_def max_file_body_def
      default_limits_def)

theorem channel_answer_exact_witness:
  "\<exists>out code body. handle_channel (Some (\<lambda>_. True)) (Some (Some sample_channels)) default_limits sample_file_request
      (buffer_write :: (unit, bytes) sink) (Some []) = (None, Some out) \<and>
    answers default_limits sample_file_request (Some (Some sample_channels)) code body \<and>
    out = frame_header code (int (length body)) @ body"
proof -
  obtain out where run: "handle_channel (Some (\<lambda>_. True)) (Some (Some sample_channels)) default_limits sample_file_request
      (buffer_write :: (unit, bytes) sink) (Some []) = (None, Some out)"
    using file_answered [OF sample_file_frame sample_file_kind sample_validated, of "[]"]
    by (simp add: file_row_def numbers_text_def row_values_def sample_file_service_def Let_def decimal_def numerals.simps bool_uint_def
        command_limits_def max_file_body_def default_limits_def)
  from channel_answer_exact [OF buffer.byte_sink_axioms _ run] run show ?thesis by (auto simp: framed_bytes_def)
qed

end
