(* ===== verification/RuntimeSnapshot.thy ===== *)
theory RuntimeSnapshot
  imports ChannelList AutoReservation
begin

text \<open>
  \<open>internal/adapters/ctrlcmd/runtime\<close>: \<open>config.go\<close> from the decoded JSON on, \<open>snapshot.go\<close> and \<open>holder.go\<close>.  A snapshot
  joins the channel map of the operator with one completed generation of the catalog; programs are looked up through it
  for reservations.  The catalog is a record of functions over an unknown state, SHA-256 and the JSON decoder are
  parameters.
\<close>

datatype snapshot_error =
  ChannelSnapshotFailed | ChannelMapFieldMissing | ChannelMapFieldInvalid | ChannelMapCount | ChannelBackendUnavailable
  | ChannelCatalogUnavailable | ChannelCatalogOverLimit | ChannelServiceDuplicate | ChannelServiceOrphan
  | ChannelServiceMismatch

section \<open>The channel map\<close>

record configured_service =
  cg_locator :: bytes
  cg_network_id :: u16
  cg_service_id :: u16
  cg_stream_id :: u16
  cg_provider_name :: bytes
  cg_network_name :: bytes
  cg_stream_name :: bytes
  cg_remote_key :: byte
  cg_partial :: bool
  cg_epg :: bool
  cg_search :: bool

record channel_map =
  cm_format :: bytes
  cm_backend_id :: bytes
  cm_services :: "configured_service list"
  cm_hash :: bytes

text \<open>The decoded JSON, in which every field may be missing.\<close>

record raw_service =
  rw_locator :: "bytes option"
  rw_network_id :: "u16 option"
  rw_service_id :: "u16 option"
  rw_stream_id :: "u16 option"
  rw_provider_name :: "bytes option"
  rw_network_name :: "bytes option"
  rw_stream_name :: "bytes option"
  rw_remote_key :: "byte option"
  rw_partial :: "bool option"
  rw_epg :: "bool option"
  rw_search :: "bool option"

record raw_channel_map =
  rw_format :: "bytes option"
  rw_backend_id :: "bytes option"
  rw_services :: "raw_service list option"

definition channel_map_format :: bytes where
  "channel_map_format = ascii ''sazanami-channel-map-v1''"

definition configured_of :: "raw_service \<Rightarrow> configured_service option" where
  "configured_of raw =
     (if rw_locator raw = None \<or> rw_network_id raw = None \<or> rw_service_id raw = None \<or> rw_stream_id raw = None \<or>
         rw_provider_name raw = None \<or> rw_network_name raw = None \<or> rw_stream_name raw = None \<or> rw_remote_key raw = None \<or>
         rw_partial raw = None \<or> rw_epg raw = None \<or> rw_search raw = None
      then None
      else Some \<lparr>cg_locator = the (rw_locator raw), cg_network_id = the (rw_network_id raw),
        cg_service_id = the (rw_service_id raw), cg_stream_id = the (rw_stream_id raw),
        cg_provider_name = the (rw_provider_name raw), cg_network_name = the (rw_network_name raw),
        cg_stream_name = the (rw_stream_name raw), cg_remote_key = the (rw_remote_key raw), cg_partial = the (rw_partial raw),
        cg_epg = the (rw_epg raw), cg_search = the (rw_search raw)\<rparr>)"

definition accept_channel_map :: "bytes \<Rightarrow> raw_channel_map \<Rightarrow> (snapshot_error, channel_map) result" where
  "accept_channel_map hash raw =
     (case (rw_format raw, rw_backend_id raw, rw_services raw) of
        (Some format, Some backend, Some services) \<Rightarrow>
          if format \<noteq> channel_map_format then Inl ChannelMapFieldInvalid
          else if length services < 1 \<or> length services > max_services then Inl ChannelMapCount
          else if list_ex (\<lambda>s. configured_of s = None) services then Inl ChannelMapFieldMissing
          else Inr \<lparr>cm_format = format, cm_backend_id = backend, cm_services = map (\<lambda>s. the (configured_of s)) services,
            cm_hash = hash\<rparr>
      | _ \<Rightarrow> Inl ChannelMapFieldMissing)"

section \<open>The catalog\<close>

record current_backend =
  bk_id :: entity_id
  bk_kind :: bytes
  bk_reported_version :: "bytes option"
  bk_last_seen :: int

record current_service =
  ks_id :: entity_id
  ks_locator :: bytes
  ks_display_name :: bytes
  ks_network_id :: "int option"
  ks_transport_id :: "int option"
  ks_service_id :: "int option"
  ks_broadcast_kind :: "bytes option"
  ks_validation :: validation

datatype generation_state = GenerationRunning | GenerationCompleted

record 's catalog_reader =
  ca_backends :: "nat \<Rightarrow> entity_id \<Rightarrow> 's \<Rightarrow> current_backend list option \<times> 's"
  ca_latest :: "entity_id \<Rightarrow> 's \<Rightarrow> entity_id option \<times> 's"
  ca_services :: "entity_id \<Rightarrow> entity_id \<Rightarrow> generation_state \<Rightarrow> nat \<Rightarrow> entity_id \<Rightarrow> 's \<Rightarrow> current_service list option \<times> 's"
  ca_programs :: "entity_id \<Rightarrow> entity_id \<Rightarrow> nat \<Rightarrow> program_cursor \<Rightarrow> 's \<Rightarrow> current_program list option \<times> 's"
  ca_service_programs :: "entity_id \<Rightarrow> entity_id \<Rightarrow> bytes \<Rightarrow> nat \<Rightarrow> bytes \<Rightarrow> 's \<Rightarrow> current_program list option \<times> 's"
  ca_matching :: "entity_id \<Rightarrow> entity_id \<Rightarrow> bytes \<Rightarrow> int \<Rightarrow> int \<Rightarrow> int \<Rightarrow> 's \<Rightarrow> current_program list option \<times> 's"
  ca_has_programs :: bool

text \<open>How many identifiers are left after one; the pages end because it falls.\<close>

definition ids_left :: "entity_id \<Rightarrow> nat" where
  "ids_left i = 2 ^ 128 - unat i"

lemma ids_left_less: "previous \<le> after \<Longrightarrow> after \<noteq> previous \<Longrightarrow> ids_left after < ids_left previous"
proof -
  assume "previous \<le> after" "after \<noteq> previous"
  then have "unat previous < unat after" by (simp add: word_less_nat_alt [symmetric])
  moreover have "unat after < 2 ^ LENGTH(128)" by (rule unsigned_less)
  ultimately show ?thesis by (simp add: ids_left_def)
qed

text \<open>A page of backends in order: the one looked for, or the last identifier; \<open>None\<close> when the order is broken.\<close>

fun scan_backends :: "entity_id \<Rightarrow> entity_id \<Rightarrow> current_backend list \<Rightarrow> (current_backend option \<times> entity_id) option" where
  "scan_backends target previous [] = Some (None, previous)"
| "scan_backends target previous (b # page) =
     (if bk_id b \<le> previous then None
      else if bk_id b = target then Some (Some b, bk_id b)
      else scan_backends target (bk_id b) page)"

lemma scan_backends_later:
  "scan_backends target previous page = Some (found, after) \<Longrightarrow> previous \<le> after"
  by (induction page arbitrary: previous) (fastforce split: if_splits)+

function find_backend :: "'s catalog_reader \<Rightarrow> entity_id \<Rightarrow> entity_id \<Rightarrow> 's \<Rightarrow> (snapshot_error, current_backend) result \<times> 's" where
  "find_backend rd target after s =
     (case ca_backends rd 16 after s of
        (None, s') \<Rightarrow> (Inl ChannelCatalogUnavailable, s')
      | (Some page, s') \<Rightarrow>
          if length page > 16 then (Inl ChannelCatalogUnavailable, s')
          else
            case scan_backends target after page of
              None \<Rightarrow> (Inl ChannelCatalogUnavailable, s')
            | Some (Some b, _) \<Rightarrow> (Inr b, s')
            | Some (None, following) \<Rightarrow>
                if length page < 16 then (Inl ChannelBackendUnavailable, s')
                else if following = after then (Inl ChannelCatalogUnavailable, s')
                else find_backend rd target following s')"
  by pat_completeness auto
termination
  by (relation "measure (\<lambda>(rd, target, after, s). ids_left after)")
    (auto intro!: ids_left_less dest: scan_backends_later)

declare find_backend.simps [simp del]

definition catalog_page_size :: nat where "catalog_page_size = 256"

text \<open>The services of one page, added to those read before.\<close>

fun take_services :: "entity_id \<Rightarrow> current_service list \<Rightarrow> current_service list \<Rightarrow> (snapshot_error, entity_id \<times> current_service list) result" where
  "take_services previous [] kept = Inr (previous, kept)"
| "take_services previous (k # page) kept =
     (if ks_id k \<le> previous then Inl ChannelCatalogUnavailable
      else if length kept = max_services then Inl ChannelCatalogOverLimit
      else if ks_locator k \<in> set (map ks_locator kept) then Inl ChannelServiceDuplicate
      else take_services (ks_id k) page (kept @ [k]))"

lemma take_services_later:
  "take_services previous page kept = Inr (after, kept') \<Longrightarrow> previous \<le> after"
  by (induction page arbitrary: previous kept) (fastforce split: if_splits)+

function read_catalog ::
    "'s catalog_reader \<Rightarrow> entity_id \<Rightarrow> entity_id \<Rightarrow> generation_state \<Rightarrow> entity_id \<Rightarrow> current_service list \<Rightarrow> 's
      \<Rightarrow> (snapshot_error, current_service list) result \<times> 's" where
  "read_catalog rd backend generation state after kept s =
     (case ca_services rd backend generation state catalog_page_size after s of
        (None, s') \<Rightarrow> (Inl ChannelCatalogUnavailable, s')
      | (Some page, s') \<Rightarrow>
          if length page > catalog_page_size then (Inl ChannelCatalogUnavailable, s')
          else
            case take_services after page kept of
              Inl e \<Rightarrow> (Inl e, s')
            | Inr (following, kept') \<Rightarrow>
                if length page < catalog_page_size then (Inr kept', s')
                else if following = after then (Inl ChannelCatalogUnavailable, s')
                else read_catalog rd backend generation state following kept' s')"
  by pat_completeness auto
termination
  by (relation "measure (\<lambda>(rd, backend, generation, state, after, kept, s). ids_left after)")
    (auto intro!: ids_left_less dest: take_services_later)

declare read_catalog.simps [simp del]

section \<open>Matching\<close>

definition digits :: "bytes \<Rightarrow> bool" where
  "digits v \<longleftrightarrow> v \<noteq> [] \<and> list_all (\<lambda>b. 0x30 \<le> b \<and> b \<le> 0x39) v"

definition digits_value :: "bytes \<Rightarrow> nat" where
  "digits_value v = foldl (\<lambda>n b. n * 10 + (unat b - 0x30)) 0 v"

definition parse_service_type :: "bytes option \<Rightarrow> (snapshot_error, byte) result" where
  "parse_service_type v =
     (case v of
        None \<Rightarrow> Inl ChannelServiceMismatch
      | Some v \<Rightarrow>
          if \<not> digits v then Inl ChannelServiceMismatch
          else if digits_value v > 255 then Inl ChannelServiceMismatch
          else Inr (of_nat (digits_value v)))"

definition id_matches :: "int option \<Rightarrow> u16 \<Rightarrow> bool" where
  "id_matches stored v \<longleftrightarrow> (case stored of None \<Rightarrow> False | Some n \<Rightarrow> 0 \<le> n \<and> n \<le> 65535 \<and> (of_int n :: u16) = v)"

definition joined_service :: "configured_service \<Rightarrow> current_service \<Rightarrow> byte \<Rightarrow> channel_service" where
  "joined_service g k kind =
     \<lparr>cs_locator = cg_locator g, cs_provider_name = cg_provider_name g, cs_service_name = ks_display_name k,
      cs_network_name = cg_network_name g, cs_stream_name = cg_stream_name g, cs_network_id = cg_network_id g,
      cs_stream_id = cg_stream_id g, cs_service_id = cg_service_id g, cs_type = kind, cs_remote_key = cg_remote_key g,
      cs_partial = cg_partial g, cs_epg = cg_epg g, cs_search = cg_search g, cs_verified = True, cs_selected = True\<rparr>"

fun match_services ::
    "configured_service list \<Rightarrow> current_service list \<Rightarrow> bytes list \<Rightarrow> channel_service list
      \<Rightarrow> (snapshot_error, channel_service list) result" where
  "match_services [] catalog locators joined = Inr joined"
| "match_services (g # configured) catalog locators joined =
     (if cg_locator g \<in> set locators then Inl ChannelServiceDuplicate
      else
        case List.find (\<lambda>k. ks_locator k = cg_locator g) (rev catalog) of
          None \<Rightarrow> Inl ChannelServiceOrphan
        | Some k \<Rightarrow>
            if \<not> id_matches (ks_network_id k) (cg_network_id g) \<or> \<not> id_matches (ks_service_id k) (cg_service_id g) \<or>
               ks_validation k = ValidationInvalid
            then Inl ChannelServiceMismatch
            else
              case parse_service_type (ks_broadcast_kind k) of
                Inl e \<Rightarrow> Inl e
              | Inr kind \<Rightarrow>
                  if (cg_network_id g, cg_stream_id g, cg_service_id g) \<in> set (map identity_of joined)
                  then Inl ChannelServiceDuplicate
                  else match_services configured catalog (cg_locator g # locators) (joined @ [joined_service g k kind]))"

section \<open>The snapshot\<close>

definition length_prefixed :: "bytes \<Rightarrow> bytes" where
  "length_prefixed v = le_put 4 (of_nat (length v) :: u32) @ v"

definition flag_byte :: "bool \<Rightarrow> byte" where
  "flag_byte b = (if b then 1 else 0)"

definition service_digest :: "channel_service \<Rightarrow> bytes" where
  "service_digest s =
     concat (map length_prefixed [cs_locator s, cs_provider_name s, cs_service_name s, cs_network_name s, cs_stream_name s]) @
     le_put 2 (cs_network_id s) @ le_put 2 (cs_stream_id s) @ le_put 2 (cs_service_id s) @
     [cs_type s, cs_remote_key s, flag_byte (cs_partial s), flag_byte (cs_epg s), flag_byte (cs_search s)]"

definition snapshot_key :: "(bytes \<Rightarrow> bytes) \<Rightarrow> bytes \<Rightarrow> channel_service list \<Rightarrow> bytes" where
  "snapshot_key sha hash services = ascii ''v1:'' @ hex_encode (sha (hash @ concat (map service_digest services)))"

record snapshot =
  sn_value :: channel_snapshot
  sn_backend :: entity_id
  sn_generation :: entity_id
  sn_programs :: bool

definition assemble_snapshot ::
    "(nat \<Rightarrow> bool) \<Rightarrow> (bytes \<Rightarrow> bytes) \<Rightarrow> channel_map \<Rightarrow> current_service list \<Rightarrow> entity_id \<Rightarrow> entity_id \<Rightarrow> bool
      \<Rightarrow> (snapshot_error, snapshot) result" where
  "assemble_snapshot live sha m catalog backend generation programs =
     result_bind (match_services (cm_services m) catalog [] []) (\<lambda>joined.
       let services = sort_services joined; key = snapshot_key sha (cm_hash m) services in
       case validate_snapshot live \<lparr>cl_key = key, cl_services = services\<rparr> of
         Inl e \<Rightarrow> Inl ChannelSnapshotFailed
       | Inr verified \<Rightarrow>
           if length verified \<noteq> length services then Inl ChannelSnapshotFailed
           else Inr \<lparr>sn_value = \<lparr>cl_key = key, cl_services = verified\<rparr>, sn_backend = backend, sn_generation = generation,
             sn_programs = programs\<rparr>)"

definition assemble_generation ::
    "(nat \<Rightarrow> bool) \<Rightarrow> (bytes \<Rightarrow> bytes) \<Rightarrow> channel_map \<Rightarrow> entity_id \<Rightarrow> entity_id \<Rightarrow> generation_state \<Rightarrow> 's catalog_reader \<Rightarrow> 's
      \<Rightarrow> (snapshot_error, snapshot) result \<times> 's" where
  "assemble_generation live sha m backend generation state rd s =
     (case read_catalog rd backend generation state 0 [] s of
        (Inl e, s') \<Rightarrow> (Inl e, s')
      | (Inr catalog, s') \<Rightarrow> (assemble_snapshot live sha m catalog backend generation (ca_has_programs rd), s'))"

definition build_snapshot ::
    "(nat \<Rightarrow> bool) \<Rightarrow> (bytes \<Rightarrow> bytes) \<Rightarrow> (snapshot_error, channel_map) result \<Rightarrow> 's catalog_reader \<Rightarrow> 's
      \<Rightarrow> (snapshot_error, snapshot) result \<times> 's" where
  "build_snapshot live sha loaded rd s =
     (case loaded of
        Inl e \<Rightarrow> (Inl e, s)
      | Inr m \<Rightarrow>
          case parse_id (cm_backend_id m) of
            Inl e \<Rightarrow> (Inl ChannelMapFieldInvalid, s)
          | Inr backend \<Rightarrow>
              case find_backend rd backend 0 s of
                (Inl e, s') \<Rightarrow> (Inl e, s')
              | (Inr b, s') \<Rightarrow>
                  if bk_kind b \<noteq> ascii ''MIRAKURUN'' then (Inl ChannelBackendUnavailable, s')
                  else
                    case ca_latest rd backend s' of
                      (None, s') \<Rightarrow> (Inl ChannelCatalogUnavailable, s')
                    | (Some generation, s') \<Rightarrow> assemble_generation live sha m backend generation GenerationCompleted rd s')"

definition build_candidate_snapshot ::
    "(nat \<Rightarrow> bool) \<Rightarrow> (bytes \<Rightarrow> bytes) \<Rightarrow> (snapshot_error, channel_map) result \<Rightarrow> entity_id \<Rightarrow> entity_id \<Rightarrow> 's catalog_reader \<Rightarrow> 's
      \<Rightarrow> (snapshot_error, snapshot) result \<times> 's" where
  "build_candidate_snapshot live sha loaded backend generation rd s =
     (case loaded of
        Inl e \<Rightarrow> (Inl e, s)
      | Inr m \<Rightarrow>
          case parse_id (cm_backend_id m) of
            Inl e \<Rightarrow> (Inl ChannelMapFieldInvalid, s)
          | Inr configured \<Rightarrow>
              if configured \<noteq> backend then (Inl ChannelBackendUnavailable, s)
              else assemble_generation live sha m backend generation GenerationRunning rd s)"

section \<open>Looking programs up\<close>

definition canonical_service_locator :: "bytes \<Rightarrow> bool" where
  "canonical_service_locator v \<longleftrightarrow>
     digits v \<and> digits_value v < 2 ^ 63 \<and> digits_value v > 0 \<and> decimal (digits_value v) = v"

text \<open>The only element of a list; none and several are the same.\<close>

definition the_only :: "'a list \<Rightarrow> 'a option" where
  "the_only xs = (case xs of [x] \<Rightarrow> Some x | _ \<Rightarrow> None)"

abbreviation services_of :: "snapshot \<Rightarrow> channel_service list" where
  "services_of sn \<equiv> cl_services (sn_value sn)"

text \<open>\<open>Duration.Milliseconds\<close> rounds towards zero; the durations here are positive.\<close>

definition milliseconds :: "int \<Rightarrow> int" where
  "milliseconds d = (if d < 0 then - ((- d) div millisecond) else d div millisecond)"

definition program_row_matches :: "reservation_request \<Rightarrow> bytes \<Rightarrow> current_program \<Rightarrow> bool" where
  "program_row_matches request locator p \<longleftrightarrow>
     cp_service_locator p = locator \<and> cp_raw_event_id p = Some (uint (rq_event_id request)) \<and>
     mt_start (cp_material p) = Some (unix_milli (rq_start request)) \<and>
     mt_duration (cp_material p) = Some (milliseconds (rq_duration request)) \<and>
     mt_validation (cp_material p) = ValidationValid"

definition program_snapshot_of :: "snapshot \<Rightarrow> reservation_request \<Rightarrow> channel_service \<Rightarrow> current_program \<Rightarrow> program_snapshot" where
  "program_snapshot_of sn request v p =
     \<lparr>p_instance_id = cp_instance_id p, p_revision_id = cp_revision_id p, p_backend_id = sn_backend sn,
      p_locator = cs_locator v, p_tuning_target = cs_locator v, p_network_id = cs_network_id v,
      p_transport_stream_id = cs_stream_id v, p_service_id = cs_service_id v, p_event_id = rq_event_id request,
      p_title = (case mt_title (cp_material p) of None \<Rightarrow> [] | Some title \<Rightarrow> title), p_station_name = cs_service_name v,
      p_start = rq_start request, p_duration = rq_duration request\<rparr>"

definition requested_service :: "snapshot \<Rightarrow> reservation_request \<Rightarrow> channel_service option" where
  "requested_service sn request =
     the_only (filter (\<lambda>v. identity_of v = (rq_network_id request, rq_transport_stream_id request, rq_service_id request)) (services_of sn))"

definition find_program :: "'s catalog_reader \<Rightarrow> snapshot \<Rightarrow> reservation_request \<Rightarrow> 's \<Rightarrow> program_snapshot option \<times> 's" where
  "find_program rd sn request s =
     (if \<not> sn_programs sn \<or> \<not> reservation_request_valid request then (None, s)
      else
        case requested_service sn request of
          None \<Rightarrow> (None, s)
        | Some v \<Rightarrow>
            if \<not> canonical_service_locator (cs_locator v) then (None, s)
            else
              case ca_matching rd (sn_backend sn) (sn_generation sn) (cs_locator v) (uint (rq_event_id request))
                  (unix_milli (rq_start request)) (milliseconds (rq_duration request)) s of
                (None, s') \<Rightarrow> (None, s')
              | (Some programs, s') \<Rightarrow>
                  (case the_only programs of
                     None \<Rightarrow> None
                   | Some p \<Rightarrow> if program_row_matches request (cs_locator v) p then Some (program_snapshot_of sn request v p) else None,
                   s'))"

definition one_seg_candidate :: "program_snapshot \<Rightarrow> channel_service \<Rightarrow> bool" where
  "one_seg_candidate p v \<longleftrightarrow>
     \<not> (cs_network_id v \<noteq> p_network_id p \<or> cs_stream_id v \<noteq> p_transport_stream_id p \<or> cs_service_id v = p_service_id p \<or>
        \<not> cs_partial v \<or> \<not> cs_verified v \<or> \<not> cs_selected v \<or> \<not> canonical_service_locator (cs_locator v))"

text \<open>The locator of the services that fit: a second one fails, none is the empty locator.\<close>

fun sole_locator :: "(channel_service \<Rightarrow> bool) \<Rightarrow> bytes \<Rightarrow> channel_service list \<Rightarrow> bytes option" where
  "sole_locator fits locator [] = Some locator"
| "sole_locator fits locator (v # services) =
     (if \<not> fits v then sole_locator fits locator services
      else if locator \<noteq> [] then None
      else sole_locator fits (cs_locator v) services)"

definition resolve_one_seg :: "bool \<Rightarrow> snapshot \<Rightarrow> program_snapshot \<Rightarrow> bytes option" where
  "resolve_one_seg live sn p =
     (if \<not> live then None
      else
        case sole_locator (one_seg_candidate p) [] (services_of sn) of
          None \<Rightarrow> None
        | Some locator \<Rightarrow> if locator = [] then None else Some locator)"

definition resolve_one_seg_reservation ::
    "'s catalog_reader \<Rightarrow> bool \<Rightarrow> snapshot \<Rightarrow> reservation_request \<Rightarrow> 's \<Rightarrow> (program_snapshot \<times> bytes) option \<times> 's" where
  "resolve_one_seg_reservation rd live sn request s =
     (case find_program rd sn request s of
        (None, s') \<Rightarrow> (None, s')
      | (Some p, s') \<Rightarrow> (map_option (\<lambda>locator. (p, locator)) (resolve_one_seg live sn p), s'))"

definition bounded_target :: "bytes \<Rightarrow> bytes option" where
  "bounded_target v = (if v = [] \<or> length v > 256 then None else Some v)"

text \<open>What the other parts read from a snapshot; \<open>live\<close> is the context at each question.\<close>

definition current_channels :: "bool \<Rightarrow> snapshot \<Rightarrow> channel_snapshot option" where
  "current_channels live sn = (if live then Some (sn_value sn) else None)"

record logo_service =
  lg_locator :: bytes
  lg_network_id :: u16
  lg_service_id :: u16

fun collect_logos :: "(nat \<Rightarrow> bool) \<Rightarrow> nat \<Rightarrow> channel_service list \<Rightarrow> logo_service list option" where
  "collect_logos live n [] = Some []"
| "collect_logos live n (v # services) =
     (if \<not> live n then None
      else map_option ((#) \<lparr>lg_locator = cs_locator v, lg_network_id = cs_network_id v, lg_service_id = cs_service_id v\<rparr>)
        (collect_logos live (Suc n) services))"

definition current_logos :: "(nat \<Rightarrow> bool) \<Rightarrow> snapshot \<Rightarrow> logo_service list option" where
  "current_logos live sn = (if \<not> live 0 then None else collect_logos live 1 (services_of sn))"

definition channel_count :: "snapshot \<Rightarrow> nat" where
  "channel_count sn = length (services_of sn)"

text \<open>The live service and the logo of a service.\<close>

definition resolve_live_service :: "bool \<Rightarrow> snapshot \<Rightarrow> service_identity \<Rightarrow> bytes option" where
  "resolve_live_service live sn ident =
     (if \<not> live then None
      else Option.bind (sole_locator (\<lambda>v. identity_of v = ident) [] (services_of sn)) bounded_target)"

definition resolve_logo_service :: "bool \<Rightarrow> snapshot \<Rightarrow> u16 \<Rightarrow> u16 \<Rightarrow> bytes option" where
  "resolve_logo_service live sn network service =
     (if \<not> live then None
      else
        case sole_locator (\<lambda>v. cs_network_id v = network \<and> cs_service_id v = service) [] (services_of sn) of
          None \<Rightarrow> None
        | Some locator \<Rightarrow> if canonical_service_locator locator then bounded_target locator else None)"

definition programs_by_service ::
    "'s catalog_reader \<Rightarrow> snapshot \<Rightarrow> nat \<Rightarrow> program_cursor \<Rightarrow> 's \<Rightarrow> current_program list option \<times> 's" where
  "programs_by_service rd sn limit cursor s =
     (if \<not> sn_programs sn then (None, s) else ca_programs rd (sn_backend sn) (sn_generation sn) limit cursor s)"

definition programs_for_service ::
    "'s catalog_reader \<Rightarrow> snapshot \<Rightarrow> bytes \<Rightarrow> nat \<Rightarrow> bytes \<Rightarrow> 's \<Rightarrow> current_program list option \<times> 's" where
  "programs_for_service rd sn locator limit after s =
     (if \<not> sn_programs sn then (None, s)
      else ca_service_programs rd (sn_backend sn) (sn_generation sn) locator limit after s)"

definition reservation_request_for_program :: "snapshot \<Rightarrow> current_program \<Rightarrow> byte \<Rightarrow> bool \<Rightarrow> reservation_request option" where
  "reservation_request_for_program sn p priority follow =
     (case (cp_raw_event_id p, mt_start (cp_material p), mt_duration (cp_material p)) of
        (Some event, Some start, Some duration) \<Rightarrow>
          if event < 0 \<or> event > 65535 \<or> start < 0 \<or> duration < 1000 \<or> duration > (24 * hour) div millisecond \<or>
             duration mod 1000 \<noteq> 0 \<or> mt_validation (cp_material p) \<noteq> ValidationValid
          then None
          else
            case the_only (filter (\<lambda>v. cs_locator v = cp_service_locator p) (services_of sn)) of
              None \<Rightarrow> None
            | Some v \<Rightarrow>
                let request = \<lparr>rq_network_id = cs_network_id v, rq_transport_stream_id = cs_stream_id v,
                  rq_service_id = cs_service_id v, rq_event_id = of_int event, rq_start = in_utc (from_milli start),
                  rq_duration = duration * millisecond, rq_priority = priority, rq_requested_follow = follow,
                  rq_disabled = False, rq_margins = None, rq_output = \<lparr>o_folder = [], o_template = []\<rparr>,
                  rq_one_seg_output = None, rq_components = component_default,
                  rq_post_recording = \<lparr>pr_mode = 0, pr_script = []\<rparr>\<rparr>
                in if reservation_request_valid request then Some request else None
      | _ \<Rightarrow> None)"

end
