(* ===== verification/RuntimeSnapshotSpec.thy ===== *)
theory RuntimeSnapshotSpec
  imports RuntimeSnapshot AutoReservationSpec
begin

text \<open>
  What a snapshot promises: its channels are well formed, a program it lists leads to a request that finds the same
  program, and what it answers to a request stands for that request, so that every reservation made through it is valid.
\<close>

section \<open>Built snapshots\<close>

definition snapshot_ok :: "snapshot \<Rightarrow> bool" where
  "snapshot_ok sn \<longleftrightarrow> well_formed_services (services_of sn) \<and> sn_backend sn \<noteq> 0"

lemma scan_finds:
  "scan_backends target previous page = Some (Some b, after) \<Longrightarrow> bk_id b = target \<and> previous < bk_id b"
  by (induction page arbitrary: previous) (fastforce split: if_splits)+

lemma find_backend_finds:
  "fst (find_backend rd target after s) = Inr b \<Longrightarrow> bk_id b = target \<and> after < target"
proof (induction rd target after s rule: find_backend.induct)
  case (1 rd target after s)
  obtain answer s' where asked: "ca_backends rd 16 after s = (answer, s')" by fastforce
  show ?case
  proof (cases answer)
    case None
    with 1(2) asked show ?thesis by (simp add: find_backend.simps)
  next
    case (Some page)
    have small: "length page \<le> 16" using 1(2) asked Some by (auto simp: find_backend.simps split: if_splits)
    obtain found following where scan: "scan_backends target after page = Some (found, following)"
      using 1(2) asked Some small by (auto simp: find_backend.simps split: option.splits if_splits)
    show ?thesis
    proof (cases found)
      case None
      with 1(2) asked Some small scan have more: "length page = 16" "following \<noteq> after"
        by (auto simp: find_backend.simps split: if_splits)
      with 1(2) asked Some small scan None have "fst (find_backend rd target following s') = Inr b"
        by (simp add: find_backend.simps [of rd target after])
      with 1(1) [of "Some page" s' page] asked Some small scan None more
      have "bk_id b = target \<and> following < target" by auto
      then show ?thesis using scan_backends_later [of target after page found following] scan by auto
    next
      case (Some b')
      with 1(2) asked \<open>answer = Some page\<close> small scan have "b' = b" by (simp add: find_backend.simps)
      with scan Some scan_finds show ?thesis by blast
    qed
  qed
qed

lemma assembled_ok:
  assumes "assemble_snapshot live sha m catalog backend generation programs = Inr sn"
  shows "well_formed_services (services_of sn) \<and> sn_backend sn = backend \<and> sn_generation sn = generation \<and> sn_programs sn = programs"
proof -
  from assms obtain joined where joined: "match_services (cm_services m) catalog [] [] = Inr joined"
    by (auto simp: assemble_snapshot_def result_bind_eq_Inr)
  let ?built = "\<lparr>cl_key = snapshot_key sha (cm_hash m) (sort_services joined), cl_services = sort_services joined\<rparr>"
  show ?thesis
  proof (cases "validate_snapshot live ?built")
    case (Inl e)
    with assms joined show ?thesis by (simp add: assemble_snapshot_def Let_def)
  next
    case (Inr verified)
    with assms joined have "sn = \<lparr>sn_value = ?built\<lparr>cl_services := verified\<rparr>, sn_backend = backend, sn_generation = generation,
        sn_programs = programs\<rparr>"
      by (auto simp: assemble_snapshot_def Let_def split: if_splits)
    with conjunct2 [OF validate_snapshot_ok [OF Inr]] show ?thesis by simp
  qed
qed

lemma generation_ok:
  "fst (assemble_generation live sha m backend generation state rd s) = Inr sn \<Longrightarrow>
   well_formed_services (services_of sn) \<and> sn_backend sn = backend \<and> sn_generation sn = generation \<and> sn_programs sn = ca_has_programs rd"
  by (auto simp: assemble_generation_def dest: assembled_ok split: prod.splits sum.splits)

lemma built_ok:
  assumes "fst (build_snapshot live sha loaded rd s) = Inr sn"
  shows "snapshot_ok sn"
proof -
  from assms obtain m backend b generation s' s'' where
    found: "fst (find_backend rd backend 0 s) = Inr b"
    and built: "fst (assemble_generation live sha m backend generation GenerationCompleted rd s'') = Inr sn"
    by (auto simp: build_snapshot_def split: sum.splits prod.splits option.splits if_splits) (metis fst_conv)+
  from find_backend_finds [OF found] have "backend \<noteq> 0" by auto
  with generation_ok [OF built] show ?thesis by (simp add: snapshot_ok_def)
qed

section \<open>Programs and requests\<close>

text \<open>A stored program: identifiers and a title that the catalog accepted.\<close>

definition stored_program :: "current_program \<Rightarrow> bool" where
  "stored_program p \<longleftrightarrow>
     cp_instance_id p \<noteq> 0 \<and> cp_revision_id p \<noteq> 0 \<and>
     (case mt_title (cp_material p) of None \<Rightarrow> True | Some title \<Rightarrow> valid_string title \<and> length title \<le> 4096)"

definition stores_programs :: "'s catalog_reader \<Rightarrow> bool" where
  "stores_programs rd \<longleftrightarrow>
     (\<forall>backend generation locator event start duration s programs.
        fst (ca_matching rd backend generation locator event start duration s) = Some programs \<longrightarrow> list_all stored_program programs)"

lemma the_only_Some: "the_only xs = Some x \<longleftrightarrow> xs = [x]"
  by (auto simp: the_only_def split: list.splits)

lemma found_service:
  assumes "requested_service sn request = Some v"
  shows "v \<in> set (services_of sn)"
    "identity_of v = (rq_network_id request, rq_transport_stream_id request, rq_service_id request)"
proof -
  have "v \<in> set (filter (\<lambda>v. identity_of v = (rq_network_id request, rq_transport_stream_id request, rq_service_id request)) (services_of sn))"
    using assms by (simp add: requested_service_def the_only_Some)
  then show "v \<in> set (services_of sn)"
    "identity_of v = (rq_network_id request, rq_transport_stream_id request, rq_service_id request)" by simp_all
qed

lemma find_program_cases:
  assumes "fst (find_program rd sn request s) = Some p"
  obtains v row programs where "requested_service sn request = Some v" "canonical_service_locator (cs_locator v)"
    "fst (ca_matching rd (sn_backend sn) (sn_generation sn) (cs_locator v) (uint (rq_event_id request))
      (unix_milli (rq_start request)) (milliseconds (rq_duration request)) s) = Some programs"
    "programs = [row]" "program_row_matches request (cs_locator v) row" "p = program_snapshot_of sn request v row"
  using assms
  by (auto simp: find_program_def the_only_Some split: if_splits option.splits prod.splits)

lemma find_program_stands:
  assumes "snapshot_ok sn" "stores_programs rd" "fst (find_program rd sn request s) = Some p"
  shows "snapshot_for request p"
proof -
  obtain v row programs where v: "requested_service sn request = Some v"
    and asked: "fst (ca_matching rd (sn_backend sn) (sn_generation sn) (cs_locator v) (uint (rq_event_id request))
      (unix_milli (rq_start request)) (milliseconds (rq_duration request)) s) = Some programs"
    and row: "programs = [row]" and p: "p = program_snapshot_of sn request v row"
    by (rule find_program_cases [OF assms(3)])
  from assms(2) asked have "list_all stored_program programs" unfolding stores_programs_def by blast
  with row have "stored_program row" by simp
  moreover from found_service(1) [OF v] assms(1) have "clean_service v"
    by (auto simp: snapshot_ok_def well_formed_services_def list_all_iff)
  ultimately show ?thesis
    using assms(1)
    by (auto simp: snapshot_for_def p program_snapshot_of_def stored_program_def program_text_ok_def valid_text_def clean_service_def
        clean_name_def snapshot_ok_def Suc_le_eq split: option.splits)
qed

text \<open>C23. (type): a snapshot that is built, from the configuration and the catalog, whatever they hold,
  lists at most 4096 channels, in their order, no two with the same identifiers, each with a locator of 1 to 256 bytes, a
  service name and names of at most 4096 bytes of UTF-8 without the bytes that end a field or a line, and it belongs to
  a backend with an identifier.\<close>

theorem snapshots_well_formed:
  "case fst (build_snapshot live sha loaded rd s) of
     Inl e \<Rightarrow> True
   | Inr sn \<Rightarrow> well_formed_services (services_of sn) \<and> sn_backend sn \<noteq> 0"
  by (cases "fst (build_snapshot live sha loaded rd s)") (auto dest: built_ok simp: snapshot_ok_def)

lemma requested_only:
  assumes "distinct (map identity_of services)" "v \<in> set services"
  shows "the_only (filter (\<lambda>w. identity_of w = identity_of v) services) = Some v"
proof -
  have "filter (\<lambda>w. identity_of w = identity_of v) services = [v]"
    using assms
  proof (induction services)
    case (Cons w services)
    then show ?case
    proof (cases "w = v")
      case True
      with Cons.prems have "filter (\<lambda>w. identity_of w = identity_of v) services = []"
        by (auto simp: filter_empty_conv image_iff)
      with True show ?thesis by simp
    next
      case False
      with Cons show ?thesis by (auto simp: image_iff)
    qed
  qed simp
  then show ?thesis by (simp add: the_only_def)
qed

lemma milli_of_instant: "unix_milli (in_utc (from_milli ms)) = ms"
  by (simp add: unix_milli_def in_utc_def from_milli_def)

text \<open>C22. (roundtrip): take the request made for a program that the snapshot lists, while the catalog
  answers the lookup of its service, event, start and duration with this one program. If the locator of its service is a
  canonical decimal number, the request finds the program again: the program found has its
  instance and revision, its event and times, and the identifiers of the channel it is on. With any other locator, which a
  channel map may hold and for which the request is made all the same, the lookup finds nothing.\<close>

theorem listed_program_found:
  assumes "well_formed_services (services_of sn)" "sn_programs sn"
    and "reservation_request_for_program sn row priority follow = Some request"
    and "fst (ca_matching rd (sn_backend sn) (sn_generation sn) (cp_service_locator row) (the (cp_raw_event_id row))
      (the (mt_start (cp_material row))) (the (mt_duration (cp_material row))) s) = Some [row]"
  shows "if canonical_service_locator (cp_service_locator row)
    then \<exists>p. fst (find_program rd sn request s) = Some p \<and> p_instance_id p = cp_instance_id row \<and>
      p_revision_id p = cp_revision_id row \<and> p_locator p = cp_service_locator row \<and>
      Some (uint (p_event_id p)) = cp_raw_event_id row \<and> Some (unix_milli (p_start p)) = mt_start (cp_material row) \<and>
      Some (p_duration p div millisecond) = mt_duration (cp_material row) \<and>
      (\<exists>v\<in>set (services_of sn). identity_of v = (p_network_id p, p_transport_stream_id p, p_service_id p) \<and>
        cs_locator v = cp_service_locator row \<and> cs_service_name v = p_station_name p)
    else fst (find_program rd sn request s) = None"
proof -
  from assms(3) obtain event start duration v where row: "cp_raw_event_id row = Some event" "mt_start (cp_material row) = Some start"
    "mt_duration (cp_material row) = Some duration" "mt_validation (cp_material row) = ValidationValid"
    and bounds: "0 \<le> event" "event \<le> 65535" "1000 \<le> duration"
    and v: "the_only (filter (\<lambda>v. cs_locator v = cp_service_locator row) (services_of sn)) = Some v"
    and valid: "reservation_request_valid request"
    and request: "rq_network_id request = cs_network_id v" "rq_transport_stream_id request = cs_stream_id v"
      "rq_service_id request = cs_service_id v" "rq_event_id request = of_int event" "rq_start request = in_utc (from_milli start)"
      "rq_duration request = duration * millisecond"
    by (auto simp: reservation_request_for_program_def Let_def split: option.splits if_splits)
  from v have "v \<in> set (filter (\<lambda>v. cs_locator v = cp_service_locator row) (services_of sn))" by (simp add: the_only_Some)
  then have member: "v \<in> set (services_of sn)" "cs_locator v = cp_service_locator row" by simp_all
  have requested: "requested_service sn request = Some v"
    using requested_only [of "services_of sn" v] member(1) assms(1)
    by (simp add: requested_service_def request identity_of_def well_formed_services_def)
  have event: "uint (rq_event_id request) = event"
    using bounds by (simp add: request unsigned_of_int take_bit_eq_mod)
  have times: "unix_milli (rq_start request) = start" "milliseconds (rq_duration request) = duration"
    using bounds by (simp_all add: request milli_of_instant milliseconds_def)
  from assms(4) obtain s' where lookup: "ca_matching rd (sn_backend sn) (sn_generation sn) (cp_service_locator row) event start duration s =
      (Some [row], s')" by (metis prod.collapse row(1,2,3) option.sel)
  show ?thesis
  proof (cases "canonical_service_locator (cp_service_locator row)")
    case True
    then have "fst (find_program rd sn request s) = Some (program_snapshot_of sn request v row)"
      using assms(2) valid requested lookup
      by (simp add: find_program_def member(2) event times row program_row_matches_def the_only_def)
    then show ?thesis
      using True member event times by (auto simp: program_snapshot_of_def row request identity_of_def intro!: bexI [of _ v])
  next
    case False
    then have "fst (find_program rd sn request s) = None"
      using assms(2) valid requested by (simp add: find_program_def member(2))
    with False show ?thesis by simp
  qed
qed

section \<open>Automatic reservations through a snapshot\<close>

definition snapshot_evaluator :: "'s catalog_reader \<Rightarrow> snapshot \<Rightarrow> 's evaluator \<Rightarrow> 's evaluator" where
  "snapshot_evaluator rd sn av =
     av\<lparr>av_programs := programs_by_service rd sn,
       av_request := (\<lambda>p priority follow s. (reservation_request_for_program sn p priority follow, s)),
       av_find := find_program rd sn,
       av_one_seg := (\<lambda>p s. case av_live av s of (live, s') \<Rightarrow> (resolve_one_seg live sn p, s'))\<rparr>"

text \<open>C21. (safety): a run of the automatic reservations over the catalog that \<open>BuildSnapshot\<close> made,
  with a catalog that stores programs under identifiers and accepted titles, hands to the store only reservations that
  pass the validation of a new reservation, on whatever path and however the run ends.\<close>

theorem evaluation_creates_valid:
  assumes "fst (build_snapshot live sha loaded rd s') = Inr sn" "stores_programs rd" "\<And>s. fst (av_new_id av s) \<noteq> Some 0"
  shows "list_all (\<lambda>r. validate_new r = Inr ())
    (snd (ev_world (snd (run_evaluation (log_creations (snapshot_evaluator rd sn av)) (start_evaluation (s, []))))))"
proof (rule reliable_evaluation)
  show "snapshot_for request p" if "fst (av_find (snapshot_evaluator rd sn av) request s) = Some p" for request s p
    using find_program_stands [OF built_ok [OF assms(1)] assms(2)] that by (simp add: snapshot_evaluator_def)
  show "fst (av_new_id (snapshot_evaluator rd sn av) s) \<noteq> Some 0" for s
    using assms(3) by (simp add: snapshot_evaluator_def)
qed

section \<open>One channel with one program\<close>

definition sample_stored_service :: current_service where
  "sample_stored_service = \<lparr>ks_id = 8, ks_locator = [49], ks_display_name = [67], ks_network_id = Some 4, ks_transport_id = Some 5,
     ks_service_id = Some 6, ks_broadcast_kind = Some [49], ks_validation = ValidationValid\<rparr>"

definition sample_map :: channel_map where
  "sample_map = \<lparr>cm_format = channel_map_format, cm_backend_id = string_id 0x40008000000000000003,
     cm_services = [\<lparr>cg_locator = [49], cg_network_id = 4, cg_service_id = 6, cg_stream_id = 5, cg_provider_name = [],
       cg_network_name = [78], cg_stream_name = [], cg_remote_key = 1, cg_partial = False, cg_epg = True, cg_search = True\<rparr>],
     cm_hash = replicate 32 0\<rparr>"

definition sample_reader :: "nat catalog_reader" where
  "sample_reader =
     \<lparr>ca_backends = (\<lambda>_ _ n. (Some [\<lparr>bk_id = 0x40008000000000000003, bk_kind = ascii ''MIRAKURUN'', bk_reported_version = None, bk_last_seen = 0\<rparr>], n)),
      ca_latest = (\<lambda>_ n. (Some 5, n)), ca_services = (\<lambda>_ _ _ _ _ n. (Some [sample_stored_service], n)),
      ca_programs = (\<lambda>_ _ _ _ n. (Some [sample_current], n)), ca_service_programs = (\<lambda>_ _ _ _ _ n. (Some [sample_current], n)),
      ca_matching = (\<lambda>_ _ _ _ _ _ n. (Some [sample_current], n)),
      ca_has_programs = True\<rparr>"

definition sample_channel :: channel_service where
  "sample_channel = joined_service (hd (cm_services sample_map)) sample_stored_service 1"

definition sample_snapshot :: snapshot where
  "sample_snapshot = \<lparr>sn_value = \<lparr>cl_key = snapshot_key (\<lambda>_. replicate 32 0) (replicate 32 0) [sample_channel],
     cl_services = [sample_channel]\<rparr>, sn_backend = 0x40008000000000000003, sn_generation = 5, sn_programs = True\<rparr>"

lemma plain_valid_string: "list_all (\<lambda>b. b < 0x80) v \<Longrightarrow> valid_string v"
  by (induction v) (simp_all add: valid_string_Cons Let_def word_less_nat_alt split_beta rune_error_def)

lemma hex_digit_plain: "d < 16 \<Longrightarrow> hex_digit d < 0x80"
  by (erule nibble_cases) (simp_all add: hex_digit_def)

lemma hex_encode_valid: "list_all (\<lambda>b. b < 0x80) (hex_encode bs)"
  by (induction bs) (simp_all add: hex_digit_plain nibbles)

lemma snapshot_key_valid: "valid_string (snapshot_key sha hash services)"
  by (rule plain_valid_string) (simp add: snapshot_key_def hex_encode_valid ascii_def of_char_def)

lemma sample_channel_clean: "validate_service sample_channel = Inr ()"
  by (simp add: validate_service_ok clean_service_def clean_name_def sample_channel_def joined_service_def sample_map_def
      sample_stored_service_def forbidden_bytes_def text_eval)

lemma sample_joined: "match_services (cm_services sample_map) [sample_stored_service] [] [] = Inr [sample_channel]"
  by code_simp

lemma sample_flags: "cs_verified sample_channel" "cs_selected sample_channel"
  by (simp_all add: sample_channel_def joined_service_def)

lemma sample_built:
  "fst (build_snapshot (\<lambda>_. True) (\<lambda>_. replicate 32 0) (Inr sample_map) sample_reader 0) = Inr sample_snapshot"
proof -
  have backend: "parse_id (cm_backend_id sample_map) = Inr 0x40008000000000000003" by code_simp
  have key: "length (snapshot_key (\<lambda>_. replicate 32 0) hash services) = 67" for hash services
    by (simp add: snapshot_key_def ascii_def)
  then have "snapshot_key (\<lambda>_. replicate 32 0) hash services \<noteq> []" for hash services
    by (metis list.size(3) zero_neq_numeral)
  note key = key this
  have found: "find_backend sample_reader 0x40008000000000000003 0 0 =
      (Inr (hd (the (fst (ca_backends sample_reader 16 0 0)))), 0)"
    by (simp add: find_backend.simps sample_reader_def)
  have catalog: "read_catalog sample_reader 0x40008000000000000003 5 GenerationCompleted 0 [] 0 = (Inr [sample_stored_service], 0)"
    by (simp add: read_catalog.simps sample_reader_def catalog_page_size_def sample_stored_service_def)
  have assembled: "assemble_snapshot (\<lambda>_. True) (\<lambda>_. replicate 32 0) sample_map [sample_stored_service] 0x40008000000000000003 5 True =
      Inr sample_snapshot"
    by (simp add: assemble_snapshot_def Let_def sample_joined sort_services_def validate_snapshot_def snapshot_key_valid key
        sample_channel_clean sample_flags sample_snapshot_def) (simp add: sample_map_def)
  have reads: "bk_kind (hd (the (fst (ca_backends sample_reader 16 0 0)))) = ascii ''MIRAKURUN''"
    "ca_latest sample_reader 0x40008000000000000003 0 = (Some 5, 0)" "ca_has_programs sample_reader"
    by (simp_all add: sample_reader_def)
  show ?thesis
    by (simp add: build_snapshot_def backend found reads assemble_generation_def catalog assembled)
qed

lemma sample_stores: "stores_programs sample_reader"
  by (simp add: stores_programs_def sample_reader_def stored_program_def sample_current_def text_eval)

lemma sample_requested: "reservation_request_for_program sample_snapshot sample_current 2 False \<noteq> None"
  by (simp add: reservation_request_for_program_def sample_current_def sample_snapshot_def sample_channel_def joined_service_def
      sample_map_def the_only_def reservation_request_valid_def Let_def in_utc_def from_milli_def program_time_valid_def utc_instant_def
      is_zero_time_def zero_nanos_def unix_milli_def recording_time_valid_def effective_margins_def add_duration_def
      after_time_def sub_time_def output_settings_valid_def component_mode_valid_def post_recording_valid_def
      post_recording_mode_valid_def)

theorem evaluation_creates_valid_witness:
  "list_all (\<lambda>r. validate_new r = Inr ()) (snd (ev_world (snd (run_evaluation
    (log_creations (snapshot_evaluator sample_reader sample_snapshot sample_evaluator)) (start_evaluation (0, []))))))"
  by (rule evaluation_creates_valid [OF sample_built sample_stores]) (simp add: sample_evaluator_def)

theorem listed_program_found_witness:
  "\<exists>request p. reservation_request_for_program sample_snapshot sample_current 2 False = Some request \<and>
    fst (find_program sample_reader sample_snapshot request 0) = Some p \<and> p_instance_id p = cp_instance_id sample_current"
proof -
  have formed: "well_formed_services (services_of sample_snapshot)" using built_ok [OF sample_built] by (simp add: snapshot_ok_def)
  obtain request where request: "reservation_request_for_program sample_snapshot sample_current 2 False = Some request"
    using sample_requested by blast
  have "canonical_service_locator (cp_service_locator sample_current)"
    by (simp add: canonical_service_locator_def digits_def digits_value_def decimal_def numerals.simps digit_def sample_current_def)
  then show ?thesis
    using listed_program_found [OF formed _ request, of sample_reader 0] request
    by (fastforce simp: sample_snapshot_def sample_reader_def)
qed

end
