(* ===== verification/CodecLogic.thy ===== *)
theory CodecLogic
  imports ChannelHandlerSpec CodecTime
begin

text \<open>
  What the handlers of the CtrlCmd requests share.  A handler writes a structure field by field, behind a size computed
  before, and reads it field by field.  Three small logics put the fields together: \<open>emits\<close> (which bytes are written),
  \<open>completes\<close> (writing to a buffer does not fail) and \<open>reads\<close> (a text is read back as a value).
\<close>

section \<open>Writing field by field\<close>

definition lift_result :: "(codec_error, 'a) result \<Rightarrow> 'a read" where
  "lift_result res r = (res, r)"

primrec write_in_turn :: "('e, 'd) write_op list \<Rightarrow> ('e, 'd) write_op" where
  "write_in_turn [] = (\<lambda>w. (None, w))"
| "write_in_turn (m # ms) = write_then m (write_in_turn ms)"

definition write_sized :: "(codec_error, 'a) result \<Rightarrow> ('a \<Rightarrow> ('e, 'd) write_op) \<Rightarrow> ('e, 'd) write_op" where
  "write_sized measured put w = (case measured of Inl e \<Rightarrow> write_fail e w | Inr amount \<Rightarrow> put amount w)"

definition bool_byte :: "bool \<Rightarrow> byte" where
  "bool_byte b = (if b then 1 else 0)"

section \<open>Answers beside a world\<close>

text \<open>The destination together with the world of the operations.\<close>

definition beside_world :: "('e, 'd) sink \<Rightarrow> ('e, 'd \<times> 's) sink" where
  "beside_world sink data st = (case st of (d, s) \<Rightarrow> (case sink data d of (count, err, d') \<Rightarrow> (count, err, (d', s))))"

text \<open>What every handler leaves: an error or none, the destination and the world.\<close>

type_synonym ('e, 'd, 's) handled = "'e wire_error option \<times> ('d \<times> 's) option"

definition answer_with ::
    "(nat \<Rightarrow> bool) \<Rightarrow> nat \<Rightarrow> ('e, 'd) sink \<Rightarrow> 'd \<times> 's \<Rightarrow> i32 \<Rightarrow> int \<Rightarrow> limits
      \<Rightarrow> ('e, (('d \<times> 's) \<times> nat) \<times> int) write_op \<Rightarrow> ('e, 'd, 's) handled" where
  "answer_with live n sink st code amount given body = write_response live n (beside_world sink) st code amount given body"

text \<open>The destination inside a frame: bounded, asking the context, beside the world.\<close>

abbreviation frame_target :: "(nat \<Rightarrow> bool) \<Rightarrow> ('e, 'd) sink \<Rightarrow> ('e, (('d \<times> 's) \<times> nat) \<times> int) sink" where
  "frame_target live sink \<equiv> bounded_write (context_writer live (beside_world sink))"

lemma beside_sink:
  assumes "byte_sink sink contents legal"
  shows "byte_sink (beside_world sink) (\<lambda>st. contents (fst st)) (\<lambda>st. legal (fst st))"
  by unfold_locales (auto simp: beside_world_def split: prod.splits dest: byte_sink.accepts [OF assms])

section \<open>The bytes written\<close>

lemma string_size_length: "string_size v given = Inr n \<Longrightarrow> n = int (length (string_bytes v))"
  using string_size_sound by blast

context byte_sink
begin

lemma emits_in_turn: "list_all2 emits ms bss \<Longrightarrow> emits (write_in_turn ms) (concat bss)"
  by (induction rule: list_all2_induct) (auto intro: emits_skip emits_then)

lemma emits_sized: "(\<And>x. measured = Inr x \<Longrightarrow> emits (put x) bs) \<Longrightarrow> emits (write_sized measured put) bs"
  by (cases measured) (auto simp: emits_def write_sized_def write_fail_def intro: progress_fail)

lemma emits_as: "emits m as \<Longrightarrow> as = bs \<Longrightarrow> emits m bs"
  by simp

lemma emits_u8: "emits (write_u8 sink v) [v]"
  unfolding write_u8_def by (rule emits_all)

lemma emits_u16: "emits (write_u16 sink v) (le_put 2 v)"
  unfolding write_u16_def by (rule emits_all)

lemma emits_u32: "emits (write_u32 sink v) (le_put 4 v)"
  unfolding write_u32_def by (rule emits_all)

lemma emits_i32: "emits (write_i32 sink v) (le_put 4 v)"
  unfolding write_i32_def by (rule emits_all)

lemmas emits_basic = emits_u8 emits_u16 emits_u32 emits_i32 emits_string emits_system_time emits_strings

end

section \<open>Readers of a known text\<close>

text \<open>Within the limits \<open>l\<close> and at depth \<open>d\<close>, the method \<open>m\<close> reads the text \<open>bs\<close>, with \<open>c\<close> items, as \<open>x\<close>.\<close>

definition reads :: "limits \<Rightarrow> int \<Rightarrow> 'a read \<Rightarrow> bytes \<Rightarrow> int \<Rightarrow> 'a \<Rightarrow> bool" where
  "reads l d m bs c x \<longleftrightarrow> 0 \<le> c \<and>
     (\<forall>r. ahead r bs \<longrightarrow> rd_limits r = l \<longrightarrow> rd_depth r = d \<longrightarrow> c \<le> rd_budget r \<longrightarrow> m r = (Inr x, advance (length bs) c r))"

lemma readsD:
  "reads l d m bs c x \<Longrightarrow> ahead r bs \<Longrightarrow> rd_limits r = l \<Longrightarrow> rd_depth r = d \<Longrightarrow> c \<le> rd_budget r \<Longrightarrow>
   m r = (Inr x, advance (length bs) c r)"
  by (simp add: reads_def)

lemma reads_cost: "reads l d m bs c x \<Longrightarrow> 0 \<le> c"
  by (simp add: reads_def)

lemma reads_return: "reads l d (read_return x) [] 0 x"
  by (simp add: reads_def read_return_def)

lemma reads_bind:
  assumes "reads l d m as c x" "reads l d (f x) bs k y"
  shows "reads l d (read_bind m f) (as @ bs) (c + k) y"
  unfolding reads_def
proof (intro conjI allI impI)
  show "0 \<le> c + k" using assms reads_cost by (metis add_nonneg_nonneg)
  fix r assume r: "ahead r (as @ bs)" "rd_limits r = l" "rd_depth r = d" "c + k \<le> rd_budget r"
  have "m r = (Inr x, advance (length as) c r)"
    using assms(1) r reads_cost [OF assms(2)] by (intro readsD [OF assms(1)]) (auto dest: ahead_first)
  moreover have "f x (advance (length as) c r) = (Inr y, advance (length bs) k (advance (length as) c r))"
    using r ahead_second [OF r(1)] by (intro readsD [OF assms(2)]) auto
  ultimately show "read_bind m f r = (Inr y, advance (length (as @ bs)) (c + k) r)" by (simp add: read_bind_def)
qed

context wire_codec begin

lemma reads_get: "fits l d x \<Longrightarrow> reads l d get (put x) (cost x) x"
  using get_put cost_positive by (simp add: reads_def)

end

text \<open>A reader of one text is a codec, so that a structure or a vector of it is read as well.\<close>

lemma reads_codec: "reads l d m bs c x \<Longrightarrow> wire_codec (\<lambda>_. bs) m (\<lambda>_. c) (\<lambda>l' d' y. l' = l \<and> d' = d \<and> y = x)"
  by unfold_locales (auto simp: reads_def)

lemma reads_structure:
  assumes "reads l (d + 1) m body c x" "d < lm_depth l" "int (4 + length body) \<le> lm_structure_extent l" "4 + length body < 2 ^ 31"
  shows "reads l d (read_structure (Some m)) (structure_put body) (1 + c) x"
  using wire_codec.reads_get [OF wire_codec.structure_codec [OF reads_codec [OF assms(1)]], of l d x] assms(2-)
  by (simp add: wire_codec.structure_fits_def [OF reads_codec [OF assms(1)]])

lemma reads_vector_one:
  assumes item: "reads l (d + 1) m body c x" and "d < lm_depth l" "int (8 + length body) \<le> lm_structure_extent l" "8 + length body < 2 ^ 31"
    and "1 \<le> minimum" "minimum \<le> int (length body)" "1 \<le> vector_maximum bound l"
  shows "reads l d (read_vector minimum bound (Some (\<lambda>_. m))) (vector_put 1 body) (2 + c) [x]"
proof -
  note codec = reads_codec [OF item]
  have "wire_codec.vector_fits (\<lambda>_. body) (\<lambda>l' d' y. l' = l \<and> d' = d + 1 \<and> y = x) minimum bound l d [x]"
    using assms(2-) by (simp add: wire_codec.vector_fits_def [OF codec] wire_codec.put_items_def [OF codec])
  from wire_codec.reads_get [OF wire_codec.vector_codec [OF codec] this]
  show ?thesis by (simp add: wire_codec.put_items_def [OF codec] wire_codec.cost_items_def [OF codec])
qed

lemma reads_vector_none:
  fixes m :: "'a read"
  assumes "d < lm_depth l" "8 \<le> lm_structure_extent l" "1 \<le> minimum" "0 \<le> vector_maximum bound l"
  shows "reads l d (read_vector minimum bound (Some (\<lambda>_. m))) (vector_put 0 []) 2 []"
proof -
  have codec: "wire_codec (\<lambda>_ :: 'a. []) m (\<lambda>_. 0) (\<lambda>_ _ _. False)" by unfold_locales simp_all
  have "wire_codec.vector_fits (\<lambda>_ :: 'a. []) (\<lambda>_ _ _. False) minimum bound l d []"
    unfolding wire_codec.vector_fits_def [OF codec] wire_codec.put_items_def [OF codec] using assms by simp
  from wire_codec.reads_get [OF wire_codec.vector_codec [OF codec] this]
  show ?thesis by (simp add: wire_codec.put_items_def [OF codec] wire_codec.cost_items_def [OF codec])
qed

text \<open>A vector of items of the same cost.\<close>

definition items_vector :: "('a \<Rightarrow> bytes) \<Rightarrow> 'a list \<Rightarrow> bytes" where
  "items_vector put xs = vector_put (length xs) (concat (map put xs))"

lemma reads_vector:
  assumes items: "\<And>x. x \<in> set xs \<Longrightarrow> reads l (d + 1) m (put x) c x" "\<And>x. x \<in> set xs \<Longrightarrow> minimum \<le> int (length (put x))"
    and "0 \<le> c" "d < lm_depth l" "int (length (items_vector put xs)) \<le> lm_structure_extent l" "length (items_vector put xs) < 2 ^ 31"
    and "1 \<le> minimum" "int (length xs) \<le> vector_maximum bound l"
  shows "reads l d (read_vector minimum bound (Some (\<lambda>_. m))) (items_vector put xs) (2 + int (length xs) * c) xs"
proof -
  have codec: "wire_codec put m (\<lambda>_. c) (\<lambda>l' d' x. l' = l \<and> d' = d + 1 \<and> x \<in> set xs)"
    by unfold_locales (use items(1) assms(3) in \<open>auto simp: reads_def\<close>)
  have "length ys \<le> length (concat (map put ys))" if "set ys \<subseteq> set xs" for ys
    using that
  proof (induction ys)
    case (Cons y ys)
    then have "1 \<le> length (put y)" using items(2) [of y] assms(7) by auto
    with Cons show ?case by auto
  qed simp
  from this [of xs] have "length xs \<le> length (concat (map put xs))" by simp
  then have "length xs < 2 ^ 31" using assms(6) by (simp add: items_vector_def)
  then have "wire_codec.vector_fits put (\<lambda>l' d' x. l' = l \<and> d' = d + 1 \<and> x \<in> set xs) minimum bound l d xs"
    using assms items(2) by (simp add: wire_codec.vector_fits_def [OF codec] wire_codec.put_items_def [OF codec] items_vector_def list_all_iff)
  from wire_codec.reads_get [OF wire_codec.vector_codec [OF codec] this]
  show ?thesis
    by (simp add: wire_codec.put_items_def [OF codec] wire_codec.cost_items_def [OF codec] items_vector_def sum_list_triv)
qed

lemma reads_u8: "reads l d read_u8 [v] 1 v"
  using u8_codec.reads_get [of l d v] unfolding le_put_u8 by simp

lemma reads_lift: "reads l d (lift_result (Inr x)) [] 0 x"
  by (simp add: reads_def lift_result_def)

lemmas reads_basic = reads_u8 u16_codec.reads_get [OF TrueI] u32_codec.reads_get [OF TrueI] i32_codec.reads_get [OF TrueI]
  string_codec.reads_get time_codec.reads_get reads_return reads_lift

section \<open>Writing to a buffer\<close>

text \<open>A method that does not fail when the destination is a buffer.\<close>

definition completes :: "limits \<Rightarrow> (unit, bytes) write_op \<Rightarrow> bool" where
  "completes l m \<longleftrightarrow> (\<forall>w. wr_limits w = l \<longrightarrow> (\<exists>w'. m w = (None, w') \<and> wr_limits w' = l))"

lemma completesD: "completes l m \<Longrightarrow> wr_limits w = l \<Longrightarrow> \<exists>w'. m w = (None, w')"
  by (auto simp: completes_def)

lemma completes_skip: "completes l (\<lambda>w. (None, w))"
  by (simp add: completes_def)

lemma completes_then: "completes l m1 \<Longrightarrow> completes l m2 \<Longrightarrow> completes l (write_then m1 m2)"
  unfolding completes_def write_then_def by fastforce

lemma completes_in_turn: "list_all (completes l) ms \<Longrightarrow> completes l (write_in_turn ms)"
  by (induction ms) (auto intro: completes_skip completes_then)

lemma completes_sized: "measured = Inr x \<Longrightarrow> completes l (put x) \<Longrightarrow> completes l (write_sized measured put)"
  by (simp add: completes_def write_sized_def)

lemma completes_all: "completes l (write_all buffer_write data)"
  unfolding completes_def
proof (intro allI impI)
  fix w :: "bytes writer" assume "wr_limits w = l"
  then show "\<exists>w'. write_all (buffer_write :: (unit, bytes) sink) data w = (None, w') \<and> wr_limits w' = l"
    by (cases "data = []")
      (simp_all add: write_all.simps [of _ data] write_all.simps [of _ "[]"] buffer_write_def Let_def)
qed

lemma completes_numbers:
  "completes l (write_u8 buffer_write a)" "completes l (write_u16 buffer_write b)" "completes l (write_u32 buffer_write c)"
  "completes l (write_i32 buffer_write e)"
  by (simp_all add: write_u8_def write_u16_def write_u32_def write_i32_def completes_all)

lemma string_size_again: "normalized given = Inr l \<Longrightarrow> string_size v l = string_size v given"
  using normalized_idem [OF normalized_within] by (simp add: string_size_def)

lemma completes_string:
  assumes "normalized given = Inr l" "string_size v given = Inr n"
  shows "completes l (write_string buffer_write v)"
proof -
  have "completes l (write_units buffer_write us)" for us by (induction us) (simp_all add: completes_skip completes_then completes_all)
  note all = completes_then [OF completes_numbers(4) completes_then [OF this completes_numbers(2)]]
  show ?thesis
    using all assms(2) string_size_again [OF assms(1)] unfolding completes_def by (simp add: write_string_def)
qed

lemma completes_strings:
  assumes "normalized given = Inr l"
  shows "sum_names given amount vs = Inr n \<Longrightarrow> completes l (write_strings buffer_write vs)"
  by (induction vs arbitrary: amount)
    (auto simp: result_bind_eq_Inr completes_skip intro: completes_then completes_string [OF assms])

lemma completes_time:
  assumes "\<not> is_zero_time t" "time_fits l 0 t"
  shows "completes l (write_system_time buffer_write t)"
proof -
  have "completes l (write_fields buffer_write fs)" for fs by (induction fs) (simp_all add: completes_skip completes_then completes_numbers)
  then show ?thesis using assms unfolding completes_def by (simp add: write_system_time_def time_fits_def Let_def)
qed

section \<open>Texts that have been measured\<close>

lemma string_fits_depth: "string_fits l d = string_fits l 0"
  by (intro ext) (simp add: string_fits_def)

lemma string_size_fits:
  "normalized given = Inr l \<Longrightarrow> string_size v given = Inr n \<Longrightarrow> string_fits l 0 v"
  using string_size_sound [of v given n] by (auto simp: string_fits_def)

lemma sum_names_fit:
  "normalized given = Inr l \<Longrightarrow> sum_names given amount names = Inr n \<Longrightarrow> list_all (string_fits l 0) names"
  by (induction given amount names rule: sum_names.induct) (auto simp: result_bind_eq_Inr string_size_fits)

lemma normalized_bounds:
  assumes "normalized given = Inr l"
  shows "1 \<le> lm_vector_elements l" "lm_structure_extent l \<le> 16777216"
  using normalized_within [OF assms] by (simp_all add: within_hard_limits_def limit_values_def default_limits_def)

end
