(* ===== verification/ReservationHandler.thy ===== *)
theory ReservationHandler
  imports CodecLogic FilePlans
begin

text \<open>
  \<open>internal/adapters/ctrlcmd/reservation/handler.go\<close>: the requests 2011, 2013, 2015, 1014, 1087 and 1081 about
  reservations.  The operations behind the handler are functions on a world; the world travels in the state of the
  destination, because the list is read a second time while it is written.  The context is asked before every page and
  before every write; \<open>live n\<close> is its answer the \<open>n\<close>-th time.
\<close>

section \<open>Reading a reservation\<close>

definition reservation_failure :: "category \<Rightarrow> string \<Rightarrow> int \<Rightarrow> codec_error" where
  "reservation_failure category reason amount =
     \<lparr>ce_category = category, ce_reason = reason, ce_offset = 0, ce_size = amount\<rparr>"

definition out_of_profile :: codec_error where
  "out_of_profile = reservation_failure Unsupported ''recording-setting-out-of-profile'' 0"

definition version_number :: u16 where "version_number = 5"

definition plugin_name :: bytes where "plugin_name = ascii ''RecName_Macro.dll''"
definition writer_name :: bytes where "writer_name = ascii ''Write_Default.dll''"
definition question_mark :: byte where "question_mark = 0x3f"

definition empty_output :: output_settings where
  "empty_output = \<lparr>o_folder = [], o_template = []\<rparr>"

fun decode_post_recording_mode :: "byte \<Rightarrow> bool \<Rightarrow> post_recording_mode option" where
  "decode_post_recording_mode suspend reboot =
     (if suspend = 0 \<and> \<not> reboot then Some 0
      else if suspend = 4 \<and> \<not> reboot then Some 1
      else if suspend = 1 \<and> \<not> reboot then Some 2
      else if suspend = 1 \<and> reboot then Some 3
      else if suspend = 2 \<and> \<not> reboot then Some 4
      else if suspend = 2 \<and> reboot then Some 5
      else if suspend = 3 \<and> \<not> reboot then Some 6
      else None)"

fun encode_post_recording_mode :: "post_recording_mode \<Rightarrow> (byte \<times> bool) option" where
  "encode_post_recording_mode mode =
     (if mode = 0 then Some (0, False)
      else if mode = 1 then Some (4, False)
      else if mode = 2 then Some (1, False)
      else if mode = 3 then Some (1, True)
      else if mode = 4 then Some (2, False)
      else if mode = 5 then Some (2, True)
      else if mode = 6 then Some (3, False)
      else None)"

definition component_mode_from_wire :: "u32 \<Rightarrow> (codec_error, component_mode) result" where
  "component_mode_from_wire v =
     (if v AND NOT 0x31 \<noteq> 0 then Inl out_of_profile
      else if v AND 0x01 = 0 then Inr component_default
      else Inr (explicit_component_mode (v AND 0x10 \<noteq> 0) (v AND 0x20 \<noteq> 0)))"

definition component_mode_to_wire :: "component_mode \<Rightarrow> (codec_error, u32) result" where
  "component_mode_to_wire mode =
     (if mode = component_default then Inr 0
      else if mode = component_neither then Inr 0x01
      else if mode = component_captions_only then Inr 0x11
      else if mode = component_data_only then Inr 0x21
      else if mode = component_both then Inr 0x31
      else Inl (reservation_failure Internal ''invalid-stored-reservation-components'' 0))"

text \<open>The template in the name of a plugin; \<open>bare\<close> says that an empty name is the plugin, too.\<close>

definition template_of_plugin :: "bool \<Rightarrow> bytes \<Rightarrow> bytes option" where
  "template_of_plugin bare name =
     (if bare \<and> name = [] \<or> name = plugin_name then Some []
      else if take (length plugin_name + 1) name = plugin_name @ [question_mark] \<and> length name > length plugin_name + 1
      then Some (drop (length plugin_name + 1) name)
      else None)"

text \<open>One folder of the two vectors; the vector of the one-seg output also accepts empty names.\<close>

definition read_folder :: "bool \<Rightarrow> output_settings read" where
  "read_folder bare =
     read_bind read_string (\<lambda>path.
     read_bind read_string (\<lambda>writer.
     read_bind read_string (\<lambda>name.
     read_bind read_string (\<lambda>reserved.
       case template_of_plugin bare name of
         None \<Rightarrow> read_fail out_of_profile
       | Some template \<Rightarrow>
           let found = \<lparr>o_folder = path, o_template = template\<rparr> in
           if \<not> (bare \<and> writer = []) \<and> writer \<noteq> writer_name \<or> reserved \<noteq> [] \<or> \<not> output_settings_valid found
           then read_fail out_of_profile
           else read_return found))))"

definition read_output_folders :: "output_settings read" where
  "read_output_folders =
     read_bind (read_vector 4 1 (Some (\<lambda>_. read_structure (Some (read_folder False))))) (\<lambda>found.
       read_return (case found of [] \<Rightarrow> empty_output | settings # _ \<Rightarrow> settings))"

definition read_one_seg_folders :: "(output_settings \<times> nat) read" where
  "read_one_seg_folders =
     read_bind (read_vector 4 1 (Some (\<lambda>_. read_structure (Some (read_folder True))))) (\<lambda>found.
       read_return (case found of
         [] \<Rightarrow> (empty_output, 0)
       | settings # _ \<Rightarrow> (settings, if length found = 1 \<and> settings = empty_output then 0 else length found)))"

record decoded_settings =
  ds_priority :: byte
  ds_follow :: bool
  ds_disabled :: bool
  ds_margins :: "margins option"
  ds_output :: output_settings
  ds_one_seg_output :: "output_settings option"
  ds_components :: component_mode
  ds_post_recording :: post_recording_settings

text \<open>The checks at the end of the structure of the settings.\<close>

definition accept_settings ::
    "byte \<Rightarrow> byte \<Rightarrow> byte \<Rightarrow> component_mode \<Rightarrow> byte \<Rightarrow> bytes \<Rightarrow> output_settings \<Rightarrow> byte \<Rightarrow> byte \<Rightarrow> byte \<Rightarrow> i32 \<Rightarrow> i32
      \<Rightarrow> byte \<Rightarrow> byte \<Rightarrow> u32 \<Rightarrow> output_settings \<times> nat \<Rightarrow> (codec_error, decoded_settings) result" where
  "accept_settings recording_mode priority follow components exact_mode batch output suspend reboot use_margins start_margin
     end_margin continued partial tuner one_seg =
     (case decode_post_recording_mode suspend (reboot \<noteq> 0) of
        None \<Rightarrow> Inl out_of_profile
      | Some mode \<Rightarrow>
          let post = \<lparr>pr_mode = mode, pr_script = batch\<rparr> in
          if \<not> post_recording_valid post then Inl out_of_profile
          else if (recording_mode \<noteq> 1 \<and> recording_mode \<noteq> 5) \<or> priority < 1 \<or> priority > 5 \<or> follow > 1 \<or> exact_mode \<noteq> 0 \<or>
                  use_margins > 1 \<or> continued \<noteq> 0 \<or> partial > 1 \<or> tuner \<noteq> 0 \<or> partial = 0 \<and> snd one_seg \<noteq> 0
          then Inl out_of_profile
          else if use_margins = 1 \<and> (sint start_margin < -3600 \<or> sint start_margin > 3600 \<or> sint end_margin < -3600 \<or> sint end_margin > 3600)
          then Inl out_of_profile
          else Inr
            \<lparr>ds_priority = priority, ds_follow = (follow = 1), ds_disabled = (recording_mode = 5),
             ds_margins = (if use_margins = 1
               then Some \<lparr>m_start = sint start_margin * second, m_end = sint end_margin * second\<rparr> else None),
             ds_output = output, ds_one_seg_output = (if partial = 1 then Some (fst one_seg) else None),
             ds_components = components, ds_post_recording = post\<rparr>)"

definition read_settings_fields :: "decoded_settings read" where
  "read_settings_fields =
     read_bind read_u8 (\<lambda>recording_mode.
     read_bind read_u8 (\<lambda>priority.
     read_bind read_u8 (\<lambda>follow.
     read_bind read_u32 (\<lambda>service_mode.
     read_bind (lift_result (component_mode_from_wire service_mode)) (\<lambda>components.
     read_bind read_u8 (\<lambda>exact_mode.
     read_bind read_string (\<lambda>batch.
     read_bind read_output_folders (\<lambda>output.
     read_bind read_u8 (\<lambda>suspend.
     read_bind read_u8 (\<lambda>reboot.
     read_bind read_u8 (\<lambda>use_margins.
     read_bind read_i32 (\<lambda>start_margin.
     read_bind read_i32 (\<lambda>end_margin.
     read_bind read_u8 (\<lambda>continued.
     read_bind read_u8 (\<lambda>partial.
     read_bind read_u32 (\<lambda>tuner.
     read_bind read_one_seg_folders (\<lambda>one_seg.
       lift_result (accept_settings recording_mode priority follow components exact_mode batch output suspend reboot
         use_margins start_margin end_margin continued partial tuner one_seg))))))))))))))))))"

definition read_settings :: "decoded_settings read" where
  "read_settings = read_structure (Some read_settings_fields)"

text \<open>The number of the reservation and the request, out of the fields of the structure.\<close>

definition accept_reservation ::
    "bool \<Rightarrow> instant \<Rightarrow> u32 \<Rightarrow> u16 \<Rightarrow> u16 \<Rightarrow> u16 \<Rightarrow> u16 \<Rightarrow> i32 \<Rightarrow> byte \<Rightarrow> byte \<Rightarrow> bytes \<Rightarrow> instant \<Rightarrow> decoded_settings \<Rightarrow> i32 \<Rightarrow> bytes list
      \<Rightarrow> i32 \<Rightarrow> (codec_error, int \<times> reservation_request) result" where
  "accept_reservation require_number start duration network transport service event number unknown overlap unused epg_start
     settings trailing_one file_names trailing_two =
     (if (\<not> require_number \<and> sint number \<noteq> 0) \<or> (require_number \<and> sint number < 1) \<or> unknown \<noteq> 0 \<or> overlap \<noteq> 0 \<or> unused \<noteq> [] \<or>
         t_nanos epg_start \<noteq> t_nanos start \<or> trailing_one \<noteq> 0 \<or> (\<not> require_number \<and> length file_names \<noteq> 0) \<or>
         trailing_two \<noteq> 0 \<or> duration < 1 \<or> duration > 86400
      then Inl (reservation_failure Malformed ''reservation-server-field'' 0)
      else Inr (sint number,
        \<lparr>rq_network_id = network, rq_transport_stream_id = transport, rq_service_id = service, rq_event_id = event,
         rq_start = start, rq_duration = uint duration * second, rq_priority = ds_priority settings,
         rq_requested_follow = ds_follow settings, rq_disabled = ds_disabled settings, rq_margins = ds_margins settings,
         rq_output = ds_output settings, rq_one_seg_output = ds_one_seg_output settings,
         rq_components = ds_components settings, rq_post_recording = ds_post_recording settings\<rparr>))"

definition read_reservation :: "bool \<Rightarrow> (int \<times> reservation_request) read" where
  "read_reservation require_number =
     read_bind read_string (\<lambda>_.
     read_bind read_system_time (\<lambda>start.
     read_bind read_u32 (\<lambda>duration.
     read_bind read_string (\<lambda>_.
     read_bind read_u16 (\<lambda>network.
     read_bind read_u16 (\<lambda>transport.
     read_bind read_u16 (\<lambda>service.
     read_bind read_u16 (\<lambda>event.
     read_bind read_string (\<lambda>_.
     read_bind read_i32 (\<lambda>number.
     read_bind read_u8 (\<lambda>unknown.
     read_bind read_u8 (\<lambda>overlap.
     read_bind read_string (\<lambda>unused.
     read_bind read_system_time (\<lambda>epg_start.
     read_bind read_settings (\<lambda>settings.
     read_bind read_i32 (\<lambda>trailing_one.
     read_bind (read_vector 6 1 (Some (\<lambda>_. read_string))) (\<lambda>file_names.
     read_bind read_i32 (\<lambda>trailing_two.
       lift_result (accept_reservation require_number start duration network transport service event number unknown overlap
         unused epg_start settings trailing_one file_names trailing_two)))))))))))))))))))"

text \<open>Both callers drop the error of a request that cannot be decoded, so \<open>None\<close> stands for every one.\<close>

definition decode_reservation_request :: "bytes \<Rightarrow> limits \<Rightarrow> bool \<Rightarrow> reservation_change option" where
  "decode_reservation_request body given require_number =
     (case new_reader body given of
        Inl e \<Rightarrow> None
      | Inr r \<Rightarrow>
          (case read_bind read_u16 (\<lambda>version.
                  if version \<noteq> version_number then read_fail (reservation_failure Malformed ''reservation-version'' (uint version))
                  else
                    read_bind (read_vector 4 1 (Some (\<lambda>_. read_structure (Some (read_reservation require_number))))) (\<lambda>found.
                      if length found \<noteq> 1
                      then read_fail (reservation_failure Malformed ''reservation-vector'' (int (length found)))
                      else read_bind exact (\<lambda>_. read_return (hd found)))) r of
             (Inl e, _) \<Rightarrow> None
           | (Inr (number, request), _) \<Rightarrow>
               let change = \<lparr>ch_number = number, ch_request = request, ch_resolved_one_seg = None\<rparr> in
               if \<not> reservation_request_valid request \<or> require_number \<and> \<not> reservation_change_valid change \<or>
                  \<not> require_number \<and> number \<noteq> 0
               then None else Some change))"

definition decode_one_number :: "bytes \<Rightarrow> limits \<Rightarrow> bool \<Rightarrow> int option" where
  "decode_one_number body given vector =
     (case new_reader body given of
        Inl e \<Rightarrow> None
      | Inr r \<Rightarrow>
          let reading =
            (if vector then
               read_bind (read_vector 4 1 (Some (\<lambda>_. read_i32))) (\<lambda>found.
                 if length found \<noteq> 1 \<or> length body \<noteq> 12
                 then read_fail (reservation_failure Malformed ''reservation-id-vector'' (int (length found)))
                 else read_return (hd found))
             else if length body \<noteq> 4
             then read_fail (reservation_failure Malformed ''reservation-id-body'' (int (length body)))
             else read_i32)
          in
          (case reading r of
             (Inl e, _) \<Rightarrow> None
           | (Inr number, r') \<Rightarrow>
               if sint number < 1 \<or> fst (exact r') \<noteq> Inr () then None else Some (sint number)))"

section \<open>Sizes\<close>

definition whole_seconds :: "int \<Rightarrow> int" where
  "whole_seconds d = (if d < 0 then - ((- d) div second) else d div second)"

definition macro_name :: "output_settings \<Rightarrow> bytes" where
  "macro_name settings = (if o_template settings \<noteq> [] then plugin_name @ question_mark # o_template settings else plugin_name)"

definition folder_values :: "output_settings \<Rightarrow> bytes list" where
  "folder_values settings = [o_folder settings, writer_name, macro_name settings, []]"

text \<open>Fields of a structure, and the sum of their string sizes on top of \<open>amount\<close>.\<close>

definition reservation_folders_size :: "reservation \<Rightarrow> limits \<Rightarrow> (codec_error, int) result" where
  "reservation_folders_size r given =
     (if r_output r = empty_output then Inr 8
      else if \<not> output_settings_valid (r_output r)
      then Inl (reservation_failure Internal ''invalid-stored-reservation-output'' (r_number r))
      else sum_names given 12 (folder_values (r_output r)))"

definition one_seg_folders_size :: "reservation \<Rightarrow> limits \<Rightarrow> (codec_error, int) result" where
  "one_seg_folders_size r given =
     (case r_one_seg_output r of
        None \<Rightarrow> Inr 8
      | Some out \<Rightarrow>
          if os_output out = empty_output then Inr 8
          else if \<not> one_seg_output_valid out
          then Inl (reservation_failure Internal ''invalid-stored-one-seg-output'' (r_number r))
          else sum_names given 12 (folder_values (os_output out)))"

definition reservation_file_names_size :: "reservation \<Rightarrow> limits \<Rightarrow> (codec_error, int) result" where
  "reservation_file_names_size r given =
     (case scheduled_output_path r of
        Inl e \<Rightarrow> Inl (reservation_failure Internal ''invalid-stored-reservation-output'' (r_number r))
      | Inr None \<Rightarrow> Inr 8
      | Inr (Some v) \<Rightarrow> result_bind (string_size v given) (\<lambda>extent. Inr (8 + extent)))"

definition max_effective_duration :: int where "max_effective_duration = 24 * hour"

definition validate_stored_reservation :: "reservation \<Rightarrow> (codec_error, unit) result" where
  "validate_stored_reservation r =
     (if r_number r < 1 \<or> r_version r < 1 \<or> r_state r \<noteq> ReservationActive \<or> r_effective_follow r \<noteq> r_requested_follow r \<or>
         r_priority r < 1 \<or> r_priority r > 5 \<or> is_zero_time (p_start (r_program r)) \<or> \<not> t_utc (p_start (r_program r)) \<or>
         p_duration (r_program r) < second \<or> p_duration (r_program r) > 24 * hour \<or> p_duration (r_program r) mod second \<noteq> 0 \<or>
         \<not> after_time (planned_end r) (planned_start r) \<or>
         sub_time (planned_end r) (planned_start r) > max_effective_duration \<or> \<not> output_settings_valid (r_output r) \<or>
         (case r_one_seg_output r of None \<Rightarrow> False | Some out \<Rightarrow> \<not> one_seg_output_valid out)
      then Inl (reservation_failure Internal ''invalid-stored-reservation'' (r_number r))
      else Inr ())"

definition minimum_reserve_size :: int where "minimum_reserve_size = 133"

definition reservation_size :: "reservation \<Rightarrow> limits \<Rightarrow> (codec_error, int) result" where
  "reservation_size r given =
     result_bind (validate_stored_reservation r) (\<lambda>_.
     result_bind (string_size (p_title (r_program r)) given) (\<lambda>title.
     result_bind (string_size (p_station_name (r_program r)) given) (\<lambda>station.
     result_bind (reservation_folders_size r given) (\<lambda>folders.
     result_bind (one_seg_folders_size r given) (\<lambda>one_seg_folders.
     result_bind (reservation_file_names_size r given) (\<lambda>files.
     result_bind (string_size (pr_script (r_post_recording r)) given) (\<lambda>post_script.
     result_bind (string_size [] given) (\<lambda>empty_script.
       Inr (minimum_reserve_size + title + station + folders - 8 + one_seg_folders - 8 + files - 8 + post_script - empty_script)))))))))"

definition add_reservation_size :: "int \<Rightarrow> int \<Rightarrow> int \<Rightarrow> (codec_error, int) result" where
  "add_reservation_size so_far addition limit =
     (if so_far < 0 \<or> addition < 0 \<or> so_far > limit \<or> addition > limit - so_far
      then Inl (reservation_failure OverLimit ''reservation-response-body'' so_far)
      else Inr (so_far + addition))"

section \<open>Writing a reservation\<close>

text \<open>A vector of no or one folder, of the size computed before.\<close>

definition write_folder_vector :: "('e, 'd) sink \<Rightarrow> output_settings option \<Rightarrow> int \<Rightarrow> ('e, 'd) write_op" where
  "write_folder_vector sink settings amount =
     (case settings of
        None \<Rightarrow> write_in_turn [write_i32 sink (of_int amount), write_i32 sink 0]
      | Some out \<Rightarrow>
          write_in_turn
            [write_i32 sink (of_int amount), write_i32 sink 1, write_i32 sink (of_int (amount - 8)),
             write_strings sink (folder_values out)])"

definition write_reservation_folders :: "('e, 'd) sink \<Rightarrow> reservation \<Rightarrow> limits \<Rightarrow> ('e, 'd) write_op" where
  "write_reservation_folders sink r given =
     write_sized (reservation_folders_size r given)
       (write_folder_vector sink (if r_output r = empty_output then None else Some (r_output r)))"

definition write_one_seg_folders :: "('e, 'd) sink \<Rightarrow> reservation \<Rightarrow> limits \<Rightarrow> ('e, 'd) write_op" where
  "write_one_seg_folders sink r given =
     write_sized (one_seg_folders_size r given)
       (write_folder_vector sink
         (case r_one_seg_output r of
            None \<Rightarrow> None
          | Some out \<Rightarrow> if os_output out = empty_output then None else Some (os_output out)))"

text \<open>The error of \<open>ScheduledOutputPath\<close> itself is not a codec error, but the size fails first.\<close>

definition write_reservation_file_names :: "('e, 'd) sink \<Rightarrow> reservation \<Rightarrow> limits \<Rightarrow> ('e, 'd) write_op" where
  "write_reservation_file_names sink r given =
     write_sized (reservation_file_names_size r given) (\<lambda>amount.
       case scheduled_output_path r of
         Inr (Some v) \<Rightarrow> write_in_turn [write_i32 sink (of_int amount), write_i32 sink 1, write_string sink v]
       | _ \<Rightarrow> write_in_turn [write_i32 sink (of_int amount), write_i32 sink 0])"

definition settings_size :: "reservation \<Rightarrow> limits \<Rightarrow> (codec_error, int) result" where
  "settings_size r given =
     result_bind (reservation_folders_size r given) (\<lambda>folders.
     result_bind (one_seg_folders_size r given) (\<lambda>one_seg_folders.
     result_bind (string_size (pr_script (r_post_recording r)) given) (\<lambda>post_script.
     result_bind (string_size [] given) (\<lambda>empty_script.
       Inr (35 + folders + one_seg_folders + post_script - empty_script)))))"

definition write_settings :: "('e, 'd) sink \<Rightarrow> reservation \<Rightarrow> limits \<Rightarrow> ('e, 'd) write_op" where
  "write_settings sink r given =
     write_sized (settings_size r given) (\<lambda>amount.
       write_in_turn
         [write_i32 sink (of_int amount),
          write_u8 sink (if r_disabled r then 5 else 1), write_u8 sink (r_priority r), write_u8 sink (bool_byte (r_effective_follow r)),
          write_sized (case component_mode_to_wire (r_components r) of
              Inl e \<Rightarrow> Inl (reservation_failure Internal ''invalid-stored-reservation-components'' (r_number r))
            | Inr v \<Rightarrow> Inr v) (write_u32 sink),
          write_u8 sink 0,
          write_string sink (pr_script (r_post_recording r)),
          write_reservation_folders sink r given,
          write_sized (case encode_post_recording_mode (pr_mode (r_post_recording r)) of
              None \<Rightarrow> Inl (reservation_failure Internal ''invalid-stored-post-recording-settings'' (r_number r))
            | Some mode \<Rightarrow> Inr mode)
            (\<lambda>(suspend, reboot). write_in_turn [write_u8 sink suspend, write_u8 sink (bool_byte reboot)]),
          write_u8 sink (bool_byte (r_margins r \<noteq> None)),
          write_i32 sink (of_int (whole_seconds (case r_margins r of None \<Rightarrow> 0 | Some m \<Rightarrow> m_start m))),
          write_i32 sink (of_int (whole_seconds (case r_margins r of None \<Rightarrow> 0 | Some m \<Rightarrow> m_end m))),
          write_u8 sink 0,
          write_u8 sink (bool_byte (r_one_seg_output r \<noteq> None)),
          write_u32 sink 0,
          write_one_seg_folders sink r given])"

definition write_reservation :: "('e, 'd) sink \<Rightarrow> limits \<Rightarrow> reservation \<Rightarrow> ('e, 'd) write_op" where
  "write_reservation sink given r =
     write_sized (reservation_size r given) (\<lambda>amount.
       write_in_turn
         [write_i32 sink (of_int amount),
          write_string sink (p_title (r_program r)),
          write_system_time sink (p_start (r_program r)),
          write_u32 sink (of_int (whole_seconds (p_duration (r_program r)))),
          write_string sink (p_station_name (r_program r)),
          write_u16 sink (p_network_id (r_program r)), write_u16 sink (p_transport_stream_id (r_program r)),
          write_u16 sink (p_service_id (r_program r)), write_u16 sink (p_event_id (r_program r)),
          write_string sink [],
          write_i32 sink (of_int (r_number r)),
          write_u8 sink 0, write_u8 sink 0,
          write_string sink [],
          write_system_time sink (p_start (r_program r)),
          write_settings sink r given,
          write_i32 sink 0,
          write_reservation_file_names sink r given,
          write_i32 sink 0])"

section \<open>Going through the reservations\<close>

record 's operations =
  op_add :: "reservation_request \<Rightarrow> 's \<Rightarrow> bool \<times> 's"
  op_active :: "nat \<Rightarrow> int \<Rightarrow> 's \<Rightarrow> (reservation list \<times> bool) \<times> 's"
  op_change :: "reservation_change \<Rightarrow> 's \<Rightarrow> bool \<times> 's"
  op_delete :: "int \<Rightarrow> 's \<Rightarrow> bool \<times> 's"
  op_recording :: "int \<Rightarrow> 's \<Rightarrow> (bool \<times> bool) \<times> 's"

definition list_page_size :: nat where "list_page_size = 256"
definition max_listed_reservations :: nat where "max_listed_reservations = 16384"
definition list_response_cap :: int where "list_response_cap = 64 * 1024 * 1024"

text \<open>The number of a reservation as the \<open>int32\<close> it is in the code.\<close>

definition number32 :: "reservation \<Rightarrow> int" where
  "number32 r = sint (of_int (r_number r) :: i32)"

fun visit_page ::
    "(codec_error \<Rightarrow> 'err) \<Rightarrow> (reservation \<Rightarrow> 'x \<Rightarrow> 'err option \<times> 'x) \<Rightarrow> int \<Rightarrow> reservation list \<Rightarrow> 'x \<Rightarrow> ('err, int) result \<times> 'x" where
  "visit_page raise visit after [] x = (Inr after, x)"
| "visit_page raise visit after (r # page) x =
     (if number32 r \<le> after then (Inl (raise (reservation_failure Internal ''reservation-source-order'' (number32 r))), x)
      else
        case visit r x of
          (Some e, x') \<Rightarrow> (Inl e, x')
        | (None, x') \<Rightarrow> visit_page raise visit (number32 r) page x')"

lemma number32_below: "number32 r < 2 ^ 31"
  using sint_lt [of "of_int (r_number r) :: i32"] by (simp add: number32_def)

lemma visit_page_after:
  "visit_page raise visit after page x = (Inr after', x') \<Longrightarrow> (page = [] \<longrightarrow> after' = after) \<and>
    (page \<noteq> [] \<longrightarrow> after < after' \<and> after' < 2 ^ 31)"
proof (induction page arbitrary: after x)
  case (Cons r page)
  from Cons.prems obtain x1 where later: "after < number32 r" "visit_page raise visit (number32 r) page x1 = (Inr after', x')"
    by (auto split: if_splits prod.splits option.splits)
  from Cons.IH [OF later(2)] later(1) number32_below [of r] show ?case by auto
qed simp

text \<open>\<open>ask\<close> is the question to the context, \<open>fetch\<close> the one to the operations.\<close>

function for_each_reservation ::
    "(codec_error \<Rightarrow> 'err) \<Rightarrow> ('x \<Rightarrow> bool \<times> 'x) \<Rightarrow> (int \<Rightarrow> 'x \<Rightarrow> (reservation list \<times> bool) \<times> 'x)
      \<Rightarrow> (reservation \<Rightarrow> 'x \<Rightarrow> 'err option \<times> 'x) \<Rightarrow> int \<Rightarrow> 'x \<Rightarrow> 'err option \<times> 'x" where
  "for_each_reservation raise ask fetch visit after x =
     (case ask x of
        (False, x1) \<Rightarrow> (Some (raise context_ended), x1)
      | (True, x1) \<Rightarrow>
          (case fetch after x1 of
             ((page, ok), x2) \<Rightarrow>
               if \<not> ok \<or> length page > list_page_size
               then (Some (raise (reservation_failure Internal ''reservation-source-failed'' (int (length page)))), x2)
               else
                 case visit_page raise visit after page x2 of
                   (Inl e, x3) \<Rightarrow> (Some e, x3)
                 | (Inr after', x3) \<Rightarrow>
                     if length page < list_page_size then (None, x3)
                     else for_each_reservation raise ask fetch visit after' x3))"
  by pat_completeness auto
termination
  by (relation "measure (\<lambda>(raise, ask, fetch, visit, after, x). nat (2 ^ 31 - after))")
    (auto dest!: visit_page_after [OF sym] simp: list_page_size_def)

declare for_each_reservation.simps [simp del]

section \<open>The list\<close>

text \<open>The pass that measures: the number of reservations, their size, the world and the questions asked.\<close>

definition measure_visit :: "limits \<Rightarrow> reservation \<Rightarrow> nat \<times> int \<times> 's \<times> nat \<Rightarrow> codec_error option \<times> nat \<times> int \<times> 's \<times> nat" where
  "measure_visit given r x =
     (case x of (count, amount, s, n) \<Rightarrow>
        if count + 1 > max_listed_reservations
        then (Some (reservation_failure OverLimit ''reservation-count'' (int (count + 1))), (count + 1, amount, s, n))
        else
          case reservation_size r given of
            Inl e \<Rightarrow> (Some e, (count + 1, amount, s, n))
          | Inr extent \<Rightarrow>
              (case add_reservation_size amount extent (lm_response_body given - 10) of
                 Inl e \<Rightarrow> (Some e, (count + 1, 0, s, n))
               | Inr amount' \<Rightarrow> (None, (count + 1, amount', s, n))))"

definition measure_reservations ::
    "(nat \<Rightarrow> bool) \<Rightarrow> 's operations \<Rightarrow> limits \<Rightarrow> 's \<Rightarrow> nat \<Rightarrow> (codec_error, nat \<times> int) result \<times> 's \<times> nat" where
  "measure_reservations live ops given s n =
     (case for_each_reservation (\<lambda>e. e)
         (\<lambda>(count, amount, s, n). (live n, (count, amount, s, Suc n)))
         (\<lambda>after (count, amount, s, n). case op_active ops list_page_size after s of (answer, s') \<Rightarrow> (answer, (count, amount, s', n)))
         (measure_visit given) 0 (0, 0, s, n) of
        (Some e, (count, amount, s', n')) \<Rightarrow> (Inl e, s', n')
      | (None, (count, amount, s', n')) \<Rightarrow> (Inr (count, amount), s', n'))"

definition write_visit :: "('e, 'd) sink \<Rightarrow> limits \<Rightarrow> reservation \<Rightarrow> 'd writer \<times> nat \<Rightarrow> 'e wire_error option \<times> 'd writer \<times> nat" where
  "write_visit sink given r x =
     (case x of (w, written) \<Rightarrow>
        (case write_reservation sink given r w of
           (Some e, w') \<Rightarrow> (Some e, (w', written))
         | (None, w') \<Rightarrow> (None, (w', written + 1))))"

definition ask_writer :: "(nat \<Rightarrow> bool) \<Rightarrow> (('d \<times> nat) \<times> int) writer \<times> nat \<Rightarrow> bool \<times> (('d \<times> nat) \<times> int) writer \<times> nat" where
  "ask_writer live x =
     (case x of (w, written) \<Rightarrow>
        (case wr_dest w of ((d, n), left) \<Rightarrow> (live n, (w\<lparr>wr_dest := ((d, Suc n), left)\<rparr>, written))))"

definition fetch_writer :: "'s operations \<Rightarrow> int \<Rightarrow> ((('d \<times> 's) \<times> nat) \<times> int) writer \<times> nat
    \<Rightarrow> (reservation list \<times> bool) \<times> ((('d \<times> 's) \<times> nat) \<times> int) writer \<times> nat" where
  "fetch_writer ops after x =
     (case x of (w, written) \<Rightarrow>
        (case wr_dest w of (((d, s), n), left) \<Rightarrow>
           (case op_active ops list_page_size after s of
              (answer, s') \<Rightarrow> (answer, (w\<lparr>wr_dest := (((d, s'), n), left)\<rparr>, written)))))"

definition write_reservations ::
    "(nat \<Rightarrow> bool) \<Rightarrow> 's operations \<Rightarrow> ('e, (('d \<times> 's) \<times> nat) \<times> int) sink \<Rightarrow> limits \<Rightarrow> nat
      \<Rightarrow> ('e, (('d \<times> 's) \<times> nat) \<times> int) write_op" where
  "write_reservations live ops sink given expected w =
     (case for_each_reservation CodecError (ask_writer live) (fetch_writer ops) (write_visit sink given) 0 (w, 0) of
        (Some e, (w', written)) \<Rightarrow> (Some e, w')
      | (None, (w', written)) \<Rightarrow>
          if written \<noteq> expected
          then write_fail (reservation_failure Internal ''reservation-generation-changed'' (int written)) w'
          else (None, w'))"

definition result_success :: i32 where "result_success = 1"
definition result_failure :: i32 where "result_failure = 0"

definition answer_failure :: "(nat \<Rightarrow> bool) \<Rightarrow> ('e, 'd) sink \<Rightarrow> 'd \<times> 's \<Rightarrow> limits \<Rightarrow> ('e, 'd, 's) handled" where
  "answer_failure live sink st given = answer_with live 0 sink st result_failure 0 given (\<lambda>w. (None, w))"

definition answer_empty_success :: "(nat \<Rightarrow> bool) \<Rightarrow> ('e, 'd) sink \<Rightarrow> 'd \<times> 's \<Rightarrow> limits \<Rightarrow> ('e, 'd, 's) handled" where
  "answer_empty_success live sink st given = answer_with live 0 sink st result_success 0 given (\<lambda>w. (None, w))"

definition answer_mutation_success :: "(nat \<Rightarrow> bool) \<Rightarrow> ('e, 'd) sink \<Rightarrow> 'd \<times> 's \<Rightarrow> limits \<Rightarrow> ('e, 'd, 's) handled" where
  "answer_mutation_success live sink st given =
     answer_with live 0 sink st result_success 4 given (write_i32 (frame_target live sink) result_success)"

definition list_limits :: "limits \<Rightarrow> limits" where
  "list_limits given =
     (if lm_response_body given = 0 \<or> lm_response_body given > list_response_cap
      then given\<lparr>lm_response_body := list_response_cap\<rparr> else given)"

definition handle_list ::
    "(nat \<Rightarrow> bool) \<Rightarrow> 's operations \<Rightarrow> limits \<Rightarrow> bytes \<Rightarrow> ('e, 'd) sink \<Rightarrow> 'd \<times> 's \<Rightarrow> ('e, 'd, 's) handled" where
  "handle_list live ops given body sink st =
     (if length body \<noteq> 2 then answer_failure live sink st given
      else
        case new_reader body given of
          Inl e \<Rightarrow> (Some (CodecError e), Some st)
        | Inr r \<Rightarrow>
            if (case read_bind read_u16 (\<lambda>version. read_bind exact (\<lambda>_. read_return version)) r of
                  (Inl e, _) \<Rightarrow> True | (Inr version, _) \<Rightarrow> version \<noteq> version_number)
            then answer_failure live sink st given
            else
              (case measure_reservations live ops (list_limits given) (snd st) 0 of
                 (Inl e, s', n') \<Rightarrow> (Some (CodecError e), Some (fst st, s'))
               | (Inr (count, amount), s', n') \<Rightarrow>
                   answer_with live n' sink (fst st, s') result_success (2 + 8 + amount) (list_limits given)
                     (write_in_turn
                       [write_u16 (frame_target live sink) version_number,
                        write_i32 (frame_target live sink) (of_int (8 + amount)),
                        write_i32 (frame_target live sink) (of_nat count),
                        write_reservations live ops (frame_target live sink) (list_limits given) count])))"

section \<open>The other requests\<close>

definition valid_script :: "(bytes \<Rightarrow> 's \<Rightarrow> bool \<times> 's) option \<Rightarrow> bytes \<Rightarrow> 's \<Rightarrow> bool \<times> 's" where
  "valid_script validator script s =
     (if script = [] then (True, s) else case validator of None \<Rightarrow> (False, s) | Some validate \<Rightarrow> validate script s)"

text \<open>\<open>add\<close> and \<open>change\<close>: decode, check the script, and ask the operations.\<close>

definition handle_mutation ::
    "(nat \<Rightarrow> bool) \<Rightarrow> (reservation_change \<Rightarrow> 's \<Rightarrow> bool \<times> 's) \<Rightarrow> (bytes \<Rightarrow> 's \<Rightarrow> bool \<times> 's) option \<Rightarrow> limits \<Rightarrow> bool \<Rightarrow> bytes
      \<Rightarrow> ('e, 'd) sink \<Rightarrow> 'd \<times> 's \<Rightarrow> ('e, 'd, 's) handled" where
  "handle_mutation live operation validator given require_number body sink st =
     (case decode_reservation_request body given require_number of
        None \<Rightarrow> answer_failure live sink st given
      | Some change \<Rightarrow>
          (case valid_script validator (pr_script (rq_post_recording (ch_request change))) (snd st) of
             (False, s1) \<Rightarrow> answer_failure live sink (fst st, s1) given
           | (True, s1) \<Rightarrow>
               (case operation change s1 of
                  (False, s2) \<Rightarrow> answer_failure live sink (fst st, s2) given
                | (True, s2) \<Rightarrow> answer_mutation_success live sink (fst st, s2) given)))"

definition handle_add ::
    "(nat \<Rightarrow> bool) \<Rightarrow> 's operations \<Rightarrow> (bytes \<Rightarrow> 's \<Rightarrow> bool \<times> 's) option \<Rightarrow> limits \<Rightarrow> bytes \<Rightarrow> ('e, 'd) sink \<Rightarrow> 'd \<times> 's
      \<Rightarrow> ('e, 'd, 's) handled" where
  "handle_add live ops validator given =
     handle_mutation live (\<lambda>change. op_add ops (ch_request change)) validator given False"

definition handle_change ::
    "(nat \<Rightarrow> bool) \<Rightarrow> 's operations \<Rightarrow> (bytes \<Rightarrow> 's \<Rightarrow> bool \<times> 's) option \<Rightarrow> limits \<Rightarrow> bytes \<Rightarrow> ('e, 'd) sink \<Rightarrow> 'd \<times> 's
      \<Rightarrow> ('e, 'd, 's) handled" where
  "handle_change live ops validator given = handle_mutation live (op_change ops) validator given True"

definition handle_delete ::
    "(nat \<Rightarrow> bool) \<Rightarrow> 's operations \<Rightarrow> limits \<Rightarrow> bytes \<Rightarrow> ('e, 'd) sink \<Rightarrow> 'd \<times> 's \<Rightarrow> ('e, 'd, 's) handled" where
  "handle_delete live ops given body sink st =
     (case decode_one_number body given True of
        None \<Rightarrow> answer_failure live sink st given
      | Some number \<Rightarrow>
          (case op_delete ops number (snd st) of
             (False, s1) \<Rightarrow> answer_failure live sink (fst st, s1) given
           | (True, s1) \<Rightarrow> answer_mutation_success live sink (fst st, s1) given))"

definition recording_path :: bytes where "recording_path = ascii ''sazanami-recording.ts''"

definition handle_recording_open ::
    "(nat \<Rightarrow> bool) \<Rightarrow> 's operations \<Rightarrow> limits \<Rightarrow> bytes \<Rightarrow> ('e, 'd) sink \<Rightarrow> 'd \<times> 's \<Rightarrow> ('e, 'd, 's) handled" where
  "handle_recording_open live ops given body sink st =
     (case decode_one_number body given False of
        None \<Rightarrow> answer_failure live sink st given
      | Some number \<Rightarrow>
          (case op_recording ops number (snd st) of
             ((active, ok), s1) \<Rightarrow>
               if \<not> ok \<or> \<not> active then answer_failure live sink (fst st, s1) given
               else
                 case string_size recording_path given of
                   Inl e \<Rightarrow> (Some (CodecError e), Some (fst st, s1))
                 | Inr extent \<Rightarrow>
                     answer_with live 0 sink (fst st, s1) result_success (8 + extent) given
                       (write_in_turn
                         [write_i32 (frame_target live sink) (of_int (8 + extent)),
                          write_i32 (frame_target live sink) (of_int number),
                          write_string (frame_target live sink) recording_path])))"

definition handle_recording_close ::
    "(nat \<Rightarrow> bool) \<Rightarrow> limits \<Rightarrow> bytes \<Rightarrow> ('e, 'd) sink \<Rightarrow> 'd \<times> 's \<Rightarrow> ('e, 'd, 's) handled" where
  "handle_recording_close live given body sink st =
     (case decode_one_number body given False of
        None \<Rightarrow> answer_failure live sink st given
      | Some number \<Rightarrow> answer_empty_success live sink st given)"

definition command_list :: i32 where "command_list = 2011"
definition command_add :: i32 where "command_add = 2013"
definition command_change :: i32 where "command_change = 2015"
definition command_delete :: i32 where "command_delete = 1014"
definition command_recording_open :: i32 where "command_recording_open = 1087"
definition command_recording_close :: i32 where "command_recording_close = 1081"

text \<open>A missing context, destination or operation is \<open>None\<close>; the world is returned beside the destination.\<close>

definition handle_reservation ::
    "(nat \<Rightarrow> bool) option \<Rightarrow> 's operations option \<Rightarrow> (bytes \<Rightarrow> 's \<Rightarrow> bool \<times> 's) option \<Rightarrow> limits \<Rightarrow> bytes \<Rightarrow> ('e, 'd) sink
      \<Rightarrow> 'd option \<Rightarrow> 's \<Rightarrow> 'e wire_error option \<times> ('d \<times> 's) option" where
  "handle_reservation ctx operations validator given request sink destination s =
     (let untouched = map_option (\<lambda>d. (d, s)) destination in
      case parse_request_frame request given of
        Inl e \<Rightarrow> (Some (CodecError e), untouched)
      | Inr frame \<Rightarrow>
          (case (ctx, destination, operations) of
             (Some live, Some d, Some ops) \<Rightarrow>
               if fr_code frame = command_list then handle_list live ops given (fr_body frame) sink (d, s)
               else if fr_code frame = command_add then handle_add live ops validator given (fr_body frame) sink (d, s)
               else if fr_code frame = command_change then handle_change live ops validator given (fr_body frame) sink (d, s)
               else if fr_code frame = command_delete then handle_delete live ops given (fr_body frame) sink (d, s)
               else if fr_code frame = command_recording_open then handle_recording_open live ops given (fr_body frame) sink (d, s)
               else if fr_code frame = command_recording_close then handle_recording_close live given (fr_body frame) sink (d, s)
               else (Some (CodecError (reservation_failure Unsupported ''command-out-of-profile'' (sint (fr_code frame)))), untouched)
           | _ \<Rightarrow> (Some (CodecError (reservation_failure Internal ''missing-reservation-dependency'' 0)), untouched)))"

end
