(* ===== verification/ReservationHandlerSpec.thy ===== *)
theory ReservationHandlerSpec
  imports ReservationHandler
begin

text \<open>
  What the handler of reservations writes, for every destination, context and source of reservations; and that a
  reservation it lists is read back by the request that changes it.
\<close>

section \<open>The bytes of a reservation\<close>

definition folder_struct :: "output_settings \<Rightarrow> bytes" where
  "folder_struct settings = structure_put (concat (map string_bytes (folder_values settings)))"

definition folder_vector :: "output_settings option \<Rightarrow> bytes" where
  "folder_vector settings =
     (case settings of None \<Rightarrow> vector_put 0 [] | Some out \<Rightarrow> vector_put 1 (folder_struct out))"

definition main_folder :: "reservation \<Rightarrow> output_settings option" where
  "main_folder r = (if r_output r = empty_output then None else Some (r_output r))"

definition one_seg_folder :: "reservation \<Rightarrow> output_settings option" where
  "one_seg_folder r =
     (case r_one_seg_output r of
        None \<Rightarrow> None
      | Some out \<Rightarrow> if os_output out = empty_output then None else Some (os_output out))"

definition planned_names :: "reservation \<Rightarrow> bytes list" where
  "planned_names r = (case scheduled_output_path r of Inr (Some v) \<Rightarrow> [v] | _ \<Rightarrow> [])"

definition file_names_vector :: "reservation \<Rightarrow> bytes" where
  "file_names_vector r = vector_put (length (planned_names r)) (concat (map string_bytes (planned_names r)))"

definition component_bits :: "reservation \<Rightarrow> u32" where
  "component_bits r = (case component_mode_to_wire (r_components r) of Inl e \<Rightarrow> 0 | Inr v \<Rightarrow> v)"

definition post_bytes :: "reservation \<Rightarrow> bytes" where
  "post_bytes r =
     (case encode_post_recording_mode (pr_mode (r_post_recording r)) of
        None \<Rightarrow> [0, 0] | Some (suspend, reboot) \<Rightarrow> [suspend, bool_byte reboot])"

definition margin_start :: "reservation \<Rightarrow> i32" where
  "margin_start r = of_int (whole_seconds (case r_margins r of None \<Rightarrow> 0 | Some m \<Rightarrow> m_start m))"

definition margin_end :: "reservation \<Rightarrow> i32" where
  "margin_end r = of_int (whole_seconds (case r_margins r of None \<Rightarrow> 0 | Some m \<Rightarrow> m_end m))"

definition settings_parts :: "reservation \<Rightarrow> bytes list" where
  "settings_parts r =
     [[if r_disabled r then 5 else 1], [r_priority r], [bool_byte (r_effective_follow r)], le_put 4 (component_bits r), [0],
      string_bytes (pr_script (r_post_recording r)), folder_vector (main_folder r), post_bytes r,
      [bool_byte (r_margins r \<noteq> None)], le_put 4 (margin_start r), le_put 4 (margin_end r), [0],
      [bool_byte (r_one_seg_output r \<noteq> None)], le_put 4 (0 :: u32), folder_vector (one_seg_folder r)]"

definition settings_struct :: "reservation \<Rightarrow> bytes" where
  "settings_struct r = structure_put (concat (settings_parts r))"

definition reservation_parts :: "reservation \<Rightarrow> bytes list" where
  "reservation_parts r =
     (let p = r_program r in
      [string_bytes (p_title p), time_bytes (p_start p), le_put 4 (of_int (whole_seconds (p_duration p)) :: u32),
       string_bytes (p_station_name p), le_put 2 (p_network_id p), le_put 2 (p_transport_stream_id p), le_put 2 (p_service_id p),
       le_put 2 (p_event_id p), string_bytes [], le_put 4 (of_int (r_number r) :: i32), [0], [0], string_bytes [], time_bytes (p_start p),
       settings_struct r, le_put 4 (0 :: i32), file_names_vector r, le_put 4 (0 :: i32)])"

definition reservation_struct :: "reservation \<Rightarrow> bytes" where
  "reservation_struct r = structure_put (concat (reservation_parts r))"

section \<open>The sizes announced are the sizes written\<close>

lemma length_time_bytes: "length (time_bytes t) = 16"
proof -
  have "length (u16_codec.put_items us) = 2 * length us" for us :: "u16 list" by (induction us) simp_all
  then show ?thesis by (simp add: time_bytes_def system_fields_facts(1) [OF refl])
qed

lemma length_empty_string: "length (string_bytes []) = 6"
  by (simp add: length_string_bytes text_units_def)

lemma length_post_bytes: "length (post_bytes r) = 2"
  by (simp add: post_bytes_def split: option.split prod.split)

lemma folders_size_ok:
  "reservation_folders_size r given = Inr n \<Longrightarrow> n = int (length (folder_vector (main_folder r)))"
  by (auto simp: reservation_folders_size_def folder_vector_def main_folder_def folder_struct_def dest!: sum_names_ok split: if_splits)

lemma one_seg_size_ok:
  "one_seg_folders_size r given = Inr n \<Longrightarrow> n = int (length (folder_vector (one_seg_folder r)))"
  by (auto simp: one_seg_folders_size_def folder_vector_def one_seg_folder_def folder_struct_def dest!: sum_names_ok
      split: if_splits option.splits)

lemma file_names_size_ok:
  "reservation_file_names_size r given = Inr n \<Longrightarrow> n = int (length (file_names_vector r))"
  by (auto simp: reservation_file_names_size_def file_names_vector_def planned_names_def result_bind_eq_Inr
      dest!: string_size_length split: sum.splits option.splits)

lemma settings_size_ok:
  assumes "settings_size r given = Inr n"
  shows "n = int (length (settings_struct r))"
  using assms
  by (auto simp: settings_size_def settings_struct_def settings_parts_def result_bind_eq_Inr length_empty_string length_post_bytes
      dest!: folders_size_ok one_seg_size_ok string_size_length)

lemma reservation_size_ok:
  assumes "reservation_size r given = Inr n"
  shows "n = int (length (reservation_struct r))"
  using assms
  by (auto simp: reservation_size_def reservation_struct_def reservation_parts_def settings_struct_def settings_parts_def
      result_bind_eq_Inr length_empty_string length_post_bytes length_time_bytes minimum_reserve_size_def Let_def
      dest!: folders_size_ok one_seg_size_ok file_names_size_ok string_size_length)

section \<open>Writing\<close>

context byte_sink
begin

lemma emits_folder_vector:
  assumes "amount = int (length (folder_vector settings))"
  shows "emits (write_folder_vector sink settings amount) (folder_vector settings)"
proof (cases settings)
  case None
  have "emits (write_folder_vector sink settings amount) (concat [le_put 4 (of_int amount :: i32), le_put 4 (0 :: i32)])"
    unfolding write_folder_vector_def None option.case by (rule emits_in_turn) (simp add: emits_basic)
  then show ?thesis using assms by (simp add: None folder_vector_def vector_put_def)
next
  case (Some out)
  let ?fields = "concat (map string_bytes (folder_values out))"
  have amount: "amount = int (12 + length ?fields)" using assms by (simp add: Some folder_vector_def folder_struct_def)
  have "emits (write_folder_vector sink settings amount)
      (concat [le_put 4 (of_int amount :: i32), le_put 4 (1 :: i32), le_put 4 (of_int (amount - 8) :: i32), ?fields])"
    unfolding write_folder_vector_def Some option.case by (rule emits_in_turn) (simp add: emits_basic)
  moreover have "amount - 8 = int (4 + length ?fields)" using amount by simp
  ultimately show ?thesis
    unfolding amount by (simp add: Some folder_vector_def folder_struct_def vector_put_def structure_put_def del: of_nat_add)
qed

lemma emits_folders: "emits (write_reservation_folders sink r given) (folder_vector (main_folder r))"
  unfolding write_reservation_folders_def
  by (rule emits_sized) (auto simp: main_folder_def [symmetric] intro: emits_folder_vector folders_size_ok)

lemma emits_one_seg_folders: "emits (write_one_seg_folders sink r given) (folder_vector (one_seg_folder r))"
  unfolding write_one_seg_folders_def
  by (rule emits_sized) (auto simp: one_seg_folder_def [symmetric] intro: emits_folder_vector one_seg_size_ok)

lemma emits_file_names: "emits (write_reservation_file_names sink r given) (file_names_vector r)"
  unfolding write_reservation_file_names_def
proof (rule emits_sized)
  fix amount assume size: "reservation_file_names_size r given = Inr amount"
  note amount = file_names_size_ok [OF size]
  show "emits (case scheduled_output_path r of
         Inr (Some v) \<Rightarrow> write_in_turn [write_i32 sink (of_int amount), write_i32 sink 1, write_string sink v]
       | _ \<Rightarrow> write_in_turn [write_i32 sink (of_int amount), write_i32 sink 0]) (file_names_vector r)"
  proof (cases "scheduled_output_path r")
    case (Inl e)
    with size show ?thesis by (simp add: reservation_file_names_size_def)
  next
    case (Inr planned)
    have none: "emits (write_in_turn [write_i32 sink (of_int amount), write_i32 sink 0])
        (concat [le_put 4 (of_int amount :: i32), le_put 4 (0 :: i32)])"
      by (rule emits_in_turn) (simp add: emits_basic)
    have one: "emits (write_in_turn [write_i32 sink (of_int amount), write_i32 sink 1, write_string sink v])
        (concat [le_put 4 (of_int amount :: i32), le_put 4 (1 :: i32), string_bytes v])" for v
      by (rule emits_in_turn) (simp add: emits_basic)
    show ?thesis
      using none one Inr amount
      by (cases planned) (simp_all add: file_names_vector_def planned_names_def vector_put_def)
  qed
qed

lemma emits_settings: "emits (write_settings sink r given) (settings_struct r)"
  unfolding write_settings_def
proof (rule emits_sized)
  fix amount assume size: "settings_size r given = Inr amount"
  have components: "emits (write_sized (case component_mode_to_wire (r_components r) of
        Inl e \<Rightarrow> Inl (reservation_failure Internal ''invalid-stored-reservation-components'' (r_number r))
      | Inr v \<Rightarrow> Inr v) (write_u32 sink)) (le_put 4 (component_bits r))"
    by (rule emits_sized) (auto simp: component_bits_def emits_basic split: sum.splits)
  have post: "emits (write_sized (case encode_post_recording_mode (pr_mode (r_post_recording r)) of
        None \<Rightarrow> Inl (reservation_failure Internal ''invalid-stored-post-recording-settings'' (r_number r))
      | Some mode \<Rightarrow> Inr mode) (\<lambda>(suspend, reboot). write_in_turn [write_u8 sink suspend, write_u8 sink (bool_byte reboot)]))
      (post_bytes r)"
  proof (rule emits_sized)
    fix mode
    assume "(case encode_post_recording_mode (pr_mode (r_post_recording r)) of
        None \<Rightarrow> Inl (reservation_failure Internal ''invalid-stored-post-recording-settings'' (r_number r))
      | Some mode \<Rightarrow> Inr mode) = Inr mode"
    then have "encode_post_recording_mode (pr_mode (r_post_recording r)) = Some mode"
      by (simp split: option.splits del: encode_post_recording_mode.simps)
    moreover have "emits (write_in_turn [write_u8 sink a, write_u8 sink b]) (concat [[a], [b]])" for a b
      by (rule emits_in_turn) (simp add: emits_basic)
    ultimately show "emits ((\<lambda>(suspend, reboot). write_in_turn [write_u8 sink suspend, write_u8 sink (bool_byte reboot)]) mode) (post_bytes r)"
      by (simp add: post_bytes_def split: prod.split del: encode_post_recording_mode.simps write_in_turn.simps)
  qed
  have "settings_struct r = concat (le_put 4 (of_int amount :: i32) # settings_parts r)"
    using settings_size_ok [OF size] by (simp add: settings_struct_def structure_put_def)
  then show "emits (write_in_turn
         [write_i32 sink (of_int amount),
          write_u8 sink (if r_disabled r then 5 else 1), write_u8 sink (r_priority r), write_u8 sink (bool_byte (r_effective_follow r)),
          write_sized (case component_mode_to_wire (r_components r) of
              Inl e \<Rightarrow> Inl (reservation_failure Internal ''invalid-stored-reservation-components'' (r_number r))
            | Inr v \<Rightarrow> Inr v) (write_u32 sink),
          write_u8 sink 0,
          write_string sink (pr_script (r_post_recording r)),
          write_reservation_folders sink r given,
          write_sized (case encode_post_recording_mode (pr_mode (r_post_recording r)) of
              None \<Rightarrow> Inl (reservation_failure Internal ''invalid-stored-post-recording-settings'' (r_number r))
            | Some mode \<Rightarrow> Inr mode)
            (\<lambda>(suspend, reboot). write_in_turn [write_u8 sink suspend, write_u8 sink (bool_byte reboot)]),
          write_u8 sink (bool_byte (r_margins r \<noteq> None)),
          write_i32 sink (of_int (whole_seconds (case r_margins r of None \<Rightarrow> 0 | Some m \<Rightarrow> m_start m))),
          write_i32 sink (of_int (whole_seconds (case r_margins r of None \<Rightarrow> 0 | Some m \<Rightarrow> m_end m))),
          write_u8 sink 0,
          write_u8 sink (bool_byte (r_one_seg_output r \<noteq> None)),
          write_u32 sink 0,
          write_one_seg_folders sink r given]) (settings_struct r)"
    by (simp only:, intro emits_in_turn)
      (simp only: settings_parts_def margin_start_def margin_end_def list_all2_Cons list_all2_Nil emits_basic emits_folders
        emits_one_seg_folders components post simp_thms)
qed

lemma emits_reservation: "emits (write_reservation sink given r) (reservation_struct r)"
  unfolding write_reservation_def
proof (rule emits_sized)
  fix amount assume "reservation_size r given = Inr amount"
  then have "amount = int (4 + length (concat (reservation_parts r)))"
    using reservation_size_ok by (simp only: reservation_struct_def length_wrapped)
  then have bytes: "reservation_struct r = concat (le_put 4 (of_int amount :: i32) # reservation_parts r)"
    by (simp add: reservation_struct_def structure_put_def)
  show "emits (write_in_turn
         [write_i32 sink (of_int amount),
          write_string sink (p_title (r_program r)),
          write_system_time sink (p_start (r_program r)),
          write_u32 sink (of_int (whole_seconds (p_duration (r_program r)))),
          write_string sink (p_station_name (r_program r)),
          write_u16 sink (p_network_id (r_program r)), write_u16 sink (p_transport_stream_id (r_program r)),
          write_u16 sink (p_service_id (r_program r)), write_u16 sink (p_event_id (r_program r)),
          write_string sink [],
          write_i32 sink (of_int (r_number r)),
          write_u8 sink 0, write_u8 sink 0,
          write_string sink [],
          write_system_time sink (p_start (r_program r)),
          write_settings sink r given,
          write_i32 sink 0,
          write_reservation_file_names sink r given,
          write_i32 sink 0]) (reservation_struct r)"
    unfolding bytes
    by (intro emits_in_turn)
      (simp only: reservation_parts_def Let_def list_all2_Cons list_all2_Nil emits_basic emits_settings emits_file_names simp_thms)
qed

end

section \<open>Writing the list\<close>

text \<open>A change of the destination that its contents do not show.\<close>

context byte_sink
begin

definition unseen :: "'d writer \<Rightarrow> 'd writer \<Rightarrow> bool" where
  "unseen w w' \<longleftrightarrow> contents (wr_dest w') = contents (wr_dest w) \<and> wr_written w' = wr_written w \<and>
     wr_limits w' = wr_limits w \<and> (legal (wr_dest w) \<longrightarrow> legal (wr_dest w'))"

definition wrote :: "bytes \<Rightarrow> 'd writer \<Rightarrow> 'd writer \<Rightarrow> bool" where
  "wrote bs w w' \<longleftrightarrow> contents (wr_dest w') = contents (wr_dest w) @ bs \<and> wr_written w' = wr_written w + int (length bs) \<and>
     legal (wr_dest w') \<and> wr_limits w' = wr_limits w"

lemma progress_wrote: "progress bs w None w' \<longleftrightarrow> wrote bs w w'"
  by (auto simp: progress_def wrote_def)

lemma wrote_failed: "wrote bs w w' \<Longrightarrow> progress bs w (Some e) w'"
  by (auto simp: progress_def wrote_def)

text \<open>The reservations in \<open>shown\<close> have been written, in the order of their numbers and up to the number \<open>after\<close>.\<close>

definition listed :: "int \<Rightarrow> 'd writer \<Rightarrow> 'd writer \<Rightarrow> nat \<Rightarrow> reservation list \<Rightarrow> bool" where
  "listed after w0 w written shown \<longleftrightarrow>
     wrote (concat (map reservation_struct shown)) w0 w \<and> written = length shown \<and>
     sorted_wrt (<) (map number32 shown) \<and> (\<forall>r\<in>set shown. number32 r \<le> after \<and> validate_stored_reservation r = Inr ())"

lemma wrote_unseen: "wrote bs w0 w \<Longrightarrow> unseen w w' \<Longrightarrow> wrote bs w0 w'"
  by (auto simp: wrote_def unseen_def)

lemma listed_unseen: "listed after w0 w written shown \<Longrightarrow> unseen w w' \<Longrightarrow> listed after w0 w' written shown"
  by (auto simp: listed_def intro: wrote_unseen)

lemma written_validated:
  assumes "write_reservation sink given r w = (None, w')"
  shows "validate_stored_reservation r = Inr ()"
  using assms
  by (cases "reservation_size r given") (auto simp: write_reservation_def write_sized_def write_fail_def reservation_size_def result_bind_eq_Inr)

lemma visit_page_writes:
  "listed after w0 w written shown \<Longrightarrow> visit_page CodecError (write_visit sink given) after page (w, written) = (res, (w', written')) \<Longrightarrow>
   (case res of
      Inl e \<Rightarrow> \<exists>rs. progress (concat (map reservation_struct rs)) w0 (Some e) w'
    | Inr after' \<Rightarrow> listed after' w0 w' written' (shown @ page))"
proof (induction page arbitrary: after w written shown)
  case Nil
  then show ?case by auto
next
  case (Cons r page)
  from Cons.prems(1) have shown: "progress (concat (map reservation_struct shown)) w0 None w" by (simp add: listed_def progress_wrote)
  then have legal: "legal (wr_dest w)" by (simp add: progress_def)
  show ?case
  proof (cases "number32 r \<le> after")
    case True
    have "progress (concat (map reservation_struct shown)) w0 (Some x) w" for x
      using shown by (auto simp: progress_def)
    with True Cons.prems(2) show ?thesis by (auto intro!: exI [of _ shown])
  next
    case later: False
    obtain e1 w1 where run: "write_reservation sink given r w = (e1, w1)" by fastforce
    note step = emitsD [OF emits_reservation legal run]
    show ?thesis
    proof (cases e1)
      case None
      have "listed (number32 r) w0 w1 (written + 1) (shown @ [r])"
        using Cons.prems(1) later progress_more [OF shown, of "reservation_struct r" None w1] step None written_validated [of given r w w1] run
        by (fastforce simp: listed_def sorted_wrt_append progress_wrote)
      moreover have "visit_page CodecError (write_visit sink given) (number32 r) page (w1, written + 1) = (res, (w', written'))"
        using Cons.prems(2) later run None unfolding visit_page.simps by (simp add: write_visit_def [of sink given r])
      ultimately show ?thesis using Cons.IH [of "number32 r" w1 "written + 1" "shown @ [r]"] by (simp cong: sum.case_cong)
    next
      case (Some x)
      then have "progress (concat (map reservation_struct (shown @ [r]))) w0 (Some x) w1"
        using progress_more [OF shown, of "reservation_struct r" "Some x" w1] step by simp
      then have "\<exists>rs. progress (concat (map reservation_struct rs)) w0 (Some x) w1" by (rule exI)
      moreover have "res = Inl x" "w' = w1" using Some Cons.prems(2) later run by (auto simp: write_visit_def)
      ultimately show ?thesis by simp
    qed
  qed
qed

lemma for_each_writes:
  assumes "\<And>x b x'. ask x = (b, x') \<Longrightarrow> unseen (fst x) (fst x') \<and> snd x' = snd x"
    and "\<And>k x a x'. fetch k x = (a, x') \<Longrightarrow> unseen (fst x) (fst x') \<and> snd x' = snd x"
  shows "for_each_reservation CodecError ask fetch (write_visit sink given) after x = (e, x') \<Longrightarrow>
    listed after w0 (fst x) (snd x) shown \<Longrightarrow>
    \<exists>rs. progress (concat (map reservation_struct rs)) w0 e (fst x') \<and> (e = None \<longrightarrow> (\<exists>k. listed k w0 (fst x') (snd x') rs))"
proof (induction "nat (2 ^ 31 - after)" arbitrary: after x shown rule: less_induct)
  case less
  have failed: "\<exists>rs. progress (concat (map reservation_struct rs)) w0 (Some y) w" if "listed k w0 w n done" for k w n "done" y
    using that by (intro exI [of _ "done"]) (auto simp: listed_def intro: wrote_failed)
  obtain live x1 where asked: "ask x = (live, x1)" by (cases "ask x")
  have l1: "listed after w0 (fst x1) (snd x1) shown" using assms(1) [OF asked] listed_unseen [OF less.prems(2)] by simp
  obtain page ok x2 where fetched: "fetch after x1 = ((page, ok), x2)" by (metis surj_pair)
  have l2: "listed after w0 (fst x2) (snd x2) shown" using assms(2) [OF fetched] listed_unseen [OF l1] by simp
  obtain res x3 where visited: "visit_page CodecError (write_visit sink given) after page x2 = (res, x3)" by (cases "visit_page CodecError (write_visit sink given) after page x2")
  have visit: "case res of Inl e \<Rightarrow> \<exists>rs. progress (concat (map reservation_struct rs)) w0 (Some e) (fst x3)
      | Inr k \<Rightarrow> listed k w0 (fst x3) (snd x3) (shown @ page)"
    by (rule visit_page_writes [OF l2, of given page res "fst x3" "snd x3"]) (use visited in simp)
  note unfolded = less.prems(1) [unfolded for_each_reservation.simps [of _ ask fetch _ after x] asked fetched visited prod.case]
  show ?case
  proof (cases "live \<and> ok \<and> length page \<le> list_page_size")
    case False
    then consider "e = Some (CodecError context_ended)" "x' = x1"
      | y where "e = Some (CodecError y)" "x' = x2"
      using unfolded fetched by (cases live) (auto split: if_splits)
    then show ?thesis using failed [OF l1] failed [OF l2] by cases auto
  next
    case True
    show ?thesis
    proof (cases res)
      case (Inl y)
      then show ?thesis using unfolded True visit fetched visited by auto
    next
      case (Inr k)
      with visit have l3: "listed k w0 (fst x3) (snd x3) (shown @ page)" by simp
      show ?thesis
      proof (cases "length page < list_page_size")
        case True
        then have "e = None" "x' = x3" using unfolded \<open>live \<and> ok \<and> _\<close> Inr fetched visited by auto
        moreover have "progress (concat (map reservation_struct (shown @ page))) w0 None (fst x3)"
          using l3 by (simp add: listed_def progress_wrote)
        ultimately show ?thesis using l3 by blast
      next
        case full: False
        then have "page \<noteq> []" by (auto simp: list_page_size_def)
        with visit_page_after [of CodecError "write_visit sink given" after page x2 k x3] visited Inr
        have "nat (2 ^ 31 - k) < nat (2 ^ 31 - after)" by auto
        moreover have "for_each_reservation CodecError ask fetch (write_visit sink given) k x3 = (e, x')"
          using unfolded True full Inr fetched visited by auto
        ultimately show ?thesis using less.hyps l3 by blast
      qed
    qed
  qed
qed

end

section \<open>A frame whose body depends on the run\<close>

text \<open>A method whose every run writes one of the texts of \<open>S\<close>, and one of those of \<open>T\<close> when it succeeds.\<close>

context byte_sink
begin

definition emits_one_of :: "('e, 'd) write_op \<Rightarrow> bytes set \<Rightarrow> bytes set \<Rightarrow> bool" where
  "emits_one_of m S T \<longleftrightarrow>
     (\<forall>w e w'. legal (wr_dest w) \<longrightarrow> m w = (e, w') \<longrightarrow> (\<exists>bs\<in>S. progress bs w e w' \<and> (e = None \<longrightarrow> bs \<in> T)))"

lemma emits_one_ofD:
  "emits_one_of m S T \<Longrightarrow> legal (wr_dest w) \<Longrightarrow> m w = (e, w') \<Longrightarrow> \<exists>bs\<in>S. progress bs w e w' \<and> (e = None \<longrightarrow> bs \<in> T)"
  unfolding emits_one_of_def by blast

lemma emits_one_of_then:
  assumes "emits m as" "emits_one_of m' S T" "S \<noteq> {}"
  shows "emits_one_of (write_then m m') ((@) as ` S) ((@) as ` T)"
proof (unfold emits_one_of_def, intro allI impI)
  fix w e w'' assume legal: "legal (wr_dest w)" and run: "write_then m m' w = (e, w'')"
  obtain e1 w1 where first: "m w = (e1, w1)" by fastforce
  from emitsD [OF assms(1) legal first] have p: "progress as w e1 w1" .
  show "\<exists>bs\<in>(@) as ` S. progress bs w e w'' \<and> (e = None \<longrightarrow> bs \<in> (@) as ` T)"
  proof (cases e1)
    case None
    then have "legal (wr_dest w1)" "m' w1 = (e, w'')" using p run first by (auto simp: progress_def write_then_def)
    then obtain bs where "bs \<in> S" "progress bs w1 e w''" "e = None \<longrightarrow> bs \<in> T" using emits_one_ofD [OF assms(2)] by blast
    then show ?thesis using progress_more [of as w w1] p None by auto
  next
    case (Some x)
    obtain bs where "bs \<in> S" using assms(3) by blast
    then show ?thesis using p run first Some progress_stop [of as w x w1 bs] by (auto simp: write_then_def)
  qed
qed

text \<open>One run of it is a run of a method that writes one text, so a frame around it is a frame around that text.\<close>

lemma emits_one_of_run:
  assumes "emits_one_of m S T" "S \<noteq> {}" "legal (wr_dest w)"
  obtains bs m' where "bs \<in> S" "m' w = m w" "emits m' bs" "fst (m w) = None \<longrightarrow> bs \<in> T"
proof -
  obtain e w' where run: "m w = (e, w')" by fastforce
  then obtain bs where bs: "bs \<in> S" "progress bs w e w'" "e = None \<longrightarrow> bs \<in> T" using emits_one_ofD [OF assms(1,3)] by blast
  have "emits (\<lambda>w1. if w1 = w then m w else write_all sink bs w1) bs"
    using bs(2) run by (intro emitsI) (auto dest: write_all_progress split: if_splits)
  then show thesis using that [of bs "\<lambda>w1. if w1 = w then m w else write_all sink bs w1"] bs run by simp
qed

end

text \<open>A frame runs its body at most once, at the beginning of an open frame.\<close>

lemma write_frame_once:
  assumes "write_frame sink (Some d) code n given (Some body) = (e, out)"
  obtains (never) "\<And>body'. write_frame sink (Some d) code n given (Some body') = (e, out)" "e \<noteq> None"
  | (once) l w1 where "write_then (write_i32 sink code) (write_i32 sink (of_int n)) \<lparr>wr_dest = d, wr_written = 0, wr_limits = l\<rparr> = (None, w1)"
    "0 \<le> n"
    "\<And>body'. body' \<lparr>wr_dest = (wr_dest w1, n), wr_written = 0, wr_limits = l\<rparr> = body \<lparr>wr_dest = (wr_dest w1, n), wr_written = 0, wr_limits = l\<rparr> \<Longrightarrow>
      write_frame sink (Some d) code n given (Some body') = (e, out)"
    "e = None \<Longrightarrow> fst (body \<lparr>wr_dest = (wr_dest w1, n), wr_written = 0, wr_limits = l\<rparr>) = None"
proof (cases "normalized given")
  case (Inl x)
  show thesis by (rule never) (use assms in \<open>auto simp: write_frame_def Inl\<close>)
next
  case (Inr l)
  note again = normalized_idem [OF normalized_within [OF Inr]]
  obtain e1 w1 where header: "write_then (write_i32 sink code) (write_i32 sink (of_int n)) \<lparr>wr_dest = d, wr_written = 0, wr_limits = l\<rparr> = (e1, w1)"
    by fastforce
  show thesis
  proof (cases "(n < 0 \<or> n > lm_response_body l \<or> n > 2 ^ 31 - 1) \<or> e1 \<noteq> None")
    case True
    show thesis
      by (rule never) (use True assms in \<open>auto simp: write_frame_def Inr new_writer_def again header split: option.splits if_splits\<close>)
  next
    case False
    then have ok: "\<not> (n < 0 \<or> n > lm_response_body l \<or> n > 2 ^ 31 - 1)" "e1 = None" by auto
    let ?w = "\<lparr>wr_dest = (wr_dest w1, n), wr_written = 0, wr_limits = l\<rparr>"
    have frame: "write_frame sink (Some d) code n given (Some body') = map_prod id Some (write_body sink (wr_dest w1) n l body')" for body'
      using ok by (simp add: write_frame_def Inr new_writer_def again header)
    show thesis
    proof (rule once)
      show "write_then (write_i32 sink code) (write_i32 sink (of_int n)) \<lparr>wr_dest = d, wr_written = 0, wr_limits = l\<rparr> = (None, w1)"
        using header ok by simp
      show "0 \<le> n" using ok by simp
      show "write_frame sink (Some d) code n given (Some body') = (e, out)" if "body' ?w = body ?w" for body'
        using that assms unfolding frame by (simp add: write_body_def new_writer_def again)
      show "fst (body ?w) = None" if "e = None"
        using that assms unfolding frame by (auto simp: write_body_def new_writer_def again split: prod.splits option.splits)
    qed
  qed
qed

context byte_sink
begin

lemma write_frame_one_of:
  assumes "legal d" "S \<noteq> {}"
    and "byte_sink.emits_one_of (\<lambda>st. contents (fst st))
      (frame_open (contents d @ frame_header code n) n contents legal) body S T"
    and "write_frame sink (Some d) code n given (Some body) = (e, Some d')"
  shows "\<exists>bs\<in>S. framed_bytes (contents d) (frame_header code n) n bs e (contents d') \<and> (e = None \<longrightarrow> bs \<in> T)"
  using assms(4)
proof (cases rule: write_frame_once)
  case never
  obtain bs where bs: "bs \<in> S" using assms(2) by blast
  have "byte_sink.emits (\<lambda>st. contents (fst st)) (frame_open (contents d @ frame_header code n) n contents legal)
      (write_all (bounded_write sink) bs) bs"
    by (rule byte_sink.emits_all [OF bounded_sink])
  from write_frame_emits [OF assms(1) this never(1)] bs never(2) show ?thesis by auto
next
  case (once l w1)
  let ?w = "\<lparr>wr_dest = (wr_dest w1, n), wr_written = 0, wr_limits = l\<rparr>"
  have "emits (write_then (write_i32 sink code) (write_i32 sink (of_int n))) (frame_header code n)"
    unfolding write_i32_def frame_header_def by (intro emits_then emits_all)
  from emitsD [OF this _ once(1)] assms(1)
  have "frame_open (contents d @ frame_header code n) n contents legal (wr_dest ?w)"
    using once(2) by (auto simp: progress_wrote wrote_def frame_open_def)
  from byte_sink.emits_one_of_run [OF bounded_sink assms(3,2) this] obtain bs m' where m': "bs \<in> S" "m' ?w = body ?w"
      "byte_sink.emits (\<lambda>st. contents (fst st)) (frame_open (contents d @ frame_header code n) n contents legal) m' bs"
      "fst (body ?w) = None \<longrightarrow> bs \<in> T" by blast
  have "framed_bytes (contents d) (frame_header code n) n bs e (contents d')"
    by (rule write_frame_emits [OF assms(1) m'(3) once(3) [of m', OF m'(2)]])
  with m'(1,4) once(4) show ?thesis by auto
qed

end

section \<open>The list\<close>

text \<open>Lists of stored reservations that are in order.\<close>

definition listable :: "reservation list \<Rightarrow> bool" where
  "listable rs \<longleftrightarrow> sorted_wrt (<) (map number32 rs) \<and> list_all (\<lambda>r. validate_stored_reservation r = Inr ()) rs"

definition list_body :: "int \<Rightarrow> nat \<Rightarrow> reservation list \<Rightarrow> bytes" where
  "list_body amount count rs =
     le_put 2 version_number @ le_put 4 (of_int (8 + amount) :: i32) @ le_put 4 (of_nat count :: i32) @ concat (map reservation_struct rs)"

lemma unseen_ask:
  assumes "byte_sink sink contents legal" "ask_writer live x = (b, x')"
  shows "byte_sink.unseen (\<lambda>st. contents (fst (fst (fst st))))
      (frame_open start amount (\<lambda>st. contents (fst (fst st))) (\<lambda>st. legal (fst (fst st)))) (fst x) (fst x') \<and> snd x' = snd x"
proof -
  obtain d s n left where x: "wr_dest (fst x) = (((d, s), n), left)" by (metis surj_pair)
  obtain w k where xp: "x = (w, k)" by fastforce
  show ?thesis
    using assms(2) x
    by (auto simp: byte_sink.unseen_def [OF byte_sink.bounded_context [OF beside_sink [OF assms(1)]]] ask_writer_def xp frame_open_def)
qed

lemma unseen_fetch:
  assumes "byte_sink sink contents legal" "fetch_writer ops after x = (answer, x')"
  shows "byte_sink.unseen (\<lambda>st. contents (fst (fst (fst st))))
      (frame_open start amount (\<lambda>st. contents (fst (fst st))) (\<lambda>st. legal (fst (fst st)))) (fst x) (fst x') \<and> snd x' = snd x"
proof -
  obtain d s n left where x: "wr_dest (fst x) = (((d, s), n), left)" by (metis surj_pair)
  obtain w k where xp: "x = (w, k)" by fastforce
  show ?thesis
    using assms(2) x
    by (auto simp: byte_sink.unseen_def [OF byte_sink.bounded_context [OF beside_sink [OF assms(1)]]] fetch_writer_def xp frame_open_def
        split: prod.splits)
qed

lemma write_reservations_one_of:
  assumes sink: "byte_sink sink contents legal"
  shows "byte_sink.emits_one_of (\<lambda>st. contents (fst (fst (fst st))))
    (frame_open start amount (\<lambda>st. contents (fst (fst st))) (\<lambda>st. legal (fst (fst st))))
    (write_reservations live ops (frame_target live sink) given count) (range (\<lambda>rs. concat (map reservation_struct rs)))
    ((\<lambda>rs. concat (map reservation_struct rs)) ` {rs. listable rs \<and> length rs = count})"
proof -
  let ?C = "\<lambda>st. contents (fst (fst (fst st)))" and ?L = "frame_open start amount (\<lambda>st. contents (fst (fst st))) (\<lambda>st. legal (fst (fst st)))"
  note target = byte_sink.bounded_context [OF beside_sink [OF sink]]
  show ?thesis
  proof (unfold byte_sink.emits_one_of_def [OF target], intro allI impI)
    fix w e w' assume legal: "?L (wr_dest w)" and run: "write_reservations live ops (frame_target live sink) given count w = (e, w')"
    obtain e1 w1 n1 where each: "for_each_reservation CodecError (ask_writer live) (fetch_writer ops)
        (write_visit (frame_target live sink) given) 0 (w, 0) = (e1, (w1, n1))" by (metis surj_pair)
    have start: "byte_sink.listed ?C ?L 0 w (fst (w, 0)) (snd (w, 0)) []"
      using legal by (simp add: byte_sink.listed_def [OF target] byte_sink.wrote_def [OF target])
    have "\<exists>rs. byte_sink.progress ?C ?L (concat (map reservation_struct rs)) w e1 (fst (w1, n1)) \<and>
        (e1 = None \<longrightarrow> (\<exists>k. byte_sink.listed ?C ?L k w (fst (w1, n1)) (snd (w1, n1)) rs))"
      by (rule byte_sink.for_each_writes [OF target _ _ each start]) (erule unseen_ask [OF sink], erule unseen_fetch [OF sink])
    then obtain rs where rs: "byte_sink.progress ?C ?L (concat (map reservation_struct rs)) w e1 w1"
      and all: "e1 = None \<longrightarrow> (\<exists>k. byte_sink.listed ?C ?L k w w1 n1 rs)" by auto
    have finish: "w' = w1 \<and> (e = None \<longrightarrow> e1 = None \<and> n1 = count)"
      using run each by (auto simp: write_reservations_def write_fail_def split: option.splits if_splits)
    then have "byte_sink.progress ?C ?L (concat (map reservation_struct rs)) w e w'"
      using rs by (auto simp: byte_sink.progress_def [OF target])
    moreover have "e = None \<longrightarrow> listable rs \<and> length rs = count"
      using all finish by (auto simp: byte_sink.listed_def [OF target] listable_def list_all_iff)
    ultimately show "\<exists>bs\<in>range (\<lambda>rs. concat (map reservation_struct rs)). byte_sink.progress ?C ?L bs w e w' \<and>
        (e = None \<longrightarrow> bs \<in> (\<lambda>rs. concat (map reservation_struct rs)) ` {rs. listable rs \<and> length rs = count})" by blast
  qed
qed

lemma write_then_skip: "write_then m (\<lambda>w. (None, w)) = m"
  by (rule ext) (simp add: write_then_def split: prod.split option.split)

lemma list_body_one_of:
  assumes sink: "byte_sink sink contents legal"
  shows "byte_sink.emits_one_of (\<lambda>st. contents (fst (fst (fst st))))
    (frame_open start n (\<lambda>st. contents (fst (fst st))) (\<lambda>st. legal (fst (fst st))))
    (write_in_turn
       [write_u16 (frame_target live sink) version_number, write_i32 (frame_target live sink) (of_int (8 + amount)),
        write_i32 (frame_target live sink) (of_nat count), write_reservations live ops (frame_target live sink) given count])
    (range (list_body amount count)) (list_body amount count ` {rs. listable rs \<and> length rs = count})"
proof -
  note target = byte_sink.bounded_context [OF beside_sink [OF sink]]
  note then_one_of = byte_sink.emits_one_of_then [OF target]
  have body: "list_body amount count = (@) (le_put 2 version_number) \<circ> ((@) (le_put 4 (of_int (8 + amount) :: i32)) \<circ>
      ((@) (le_put 4 (of_nat count :: i32)) \<circ> (\<lambda>rs. concat (map reservation_struct rs))))"
    by (rule ext) (simp add: list_body_def)
  show ?thesis
    unfolding write_in_turn.simps write_then_skip body image_comp [symmetric]
    by (intro then_one_of write_reservations_one_of [OF sink] byte_sink.emits_u16 [OF target] byte_sink.emits_i32 [OF target]) auto
qed

lemma answer_failure_frame:
  assumes "byte_sink sink contents legal" "legal d" "answer_failure live sink (d, s) given = (e, Some (d', s'))"
  shows "framed_bytes (contents d) (frame_header result_failure 0) 0 [] e (contents d')"
proof -
  have run: "write_response live 0 (beside_world sink) (d, s) result_failure 0 given (\<lambda>w. (None, w)) = (e, Some (d', s'))"
    using assms(3) unfolding answer_failure_def answer_with_def .
  have "legal (fst (d, s))" using assms(2) by simp
  from byte_sink.write_response_emits [OF beside_sink [OF assms(1)] this byte_sink.emits_skip [OF byte_sink.bounded_context [OF beside_sink [OF assms(1)]]] run]
  show ?thesis by simp
qed

text \<open>C31. (safety): whatever the destination, the context and the source of the reservations do, also when
  the reservations change between the pass that measures and the pass that writes, what the request for the list leaves is
  nothing, or a prefix of an empty failure, or a prefix of one frame that announces its size before.  When the handler
  reports success, the frame is complete: the version and a vector, with exact sizes and count, of the structures of
  reservations that are all valid and strictly ordered by their numbers.\<close>

theorem reservation_list_exact:
  assumes "byte_sink sink contents legal" "legal d"
    and "handle_list live ops given body sink (d, s) = (e, Some (d', s'))"
  shows "contents d' = contents d \<and> e \<noteq> None \<or>
    framed_bytes (contents d) (frame_header result_failure 0) 0 [] e (contents d') \<or>
    (\<exists>amount count rs.
       framed_bytes (contents d) (frame_header result_success (10 + amount)) (10 + amount) (list_body amount count rs) e (contents d') \<and>
       (e = None \<longrightarrow> listable rs \<and>
          list_body amount count rs = le_put 2 version_number @ vector_put (length rs) (concat (map reservation_struct rs))))"
proof -
  have failed: "framed_bytes (contents d) (frame_header result_failure 0) 0 [] e (contents d')"
    if "answer_failure live sink (d, s) given = (e, Some (d', s'))"
    using answer_failure_frame [OF assms(1,2) that] .
  consider (bad) "e \<noteq> None" "d' = d" | (failure) "answer_failure live sink (d, s) given = (e, Some (d', s'))"
    | (list) n' amount count s1 where
      "answer_with live n' sink (d, s1) result_success (2 + 8 + amount) (list_limits given)
        (write_in_turn
          [write_u16 (frame_target live sink) version_number, write_i32 (frame_target live sink) (of_int (8 + amount)),
           write_i32 (frame_target live sink) (of_nat count), write_reservations live ops (frame_target live sink) (list_limits given) count]) =
       (e, Some (d', s'))"
    using assms(3) unfolding handle_list_def
    by (auto split: if_splits sum.splits prod.splits simp del: write_in_turn.simps)
  then show ?thesis
  proof cases
    case bad
    then show ?thesis by simp
  next
    case failure
    then show ?thesis using failed by blast
  next
    case list
    note context_of = byte_sink.context_sink [OF beside_sink [OF assms(1)]]
    from list obtain n2 where frame: "write_frame (context_writer live (beside_world sink)) (Some ((d, s1), n')) result_success (10 + amount) (list_limits given)
        (Some (write_in_turn
          [write_u16 (frame_target live sink) version_number, write_i32 (frame_target live sink) (of_int (8 + amount)),
           write_i32 (frame_target live sink) (of_nat count), write_reservations live ops (frame_target live sink) (list_limits given) count])) =
       (e, Some ((d', s'), n2))"
      by (auto simp: answer_with_def write_response_def map_prod_def simp del: write_in_turn.simps split: prod.splits)
    from byte_sink.write_frame_one_of [OF context_of _ _ list_body_one_of [OF assms(1)] frame] assms(2)
    obtain rs where rs: "framed_bytes (contents d) (frame_header result_success (10 + amount)) (10 + amount) (list_body amount count rs) e (contents d')"
      "e = None \<longrightarrow> list_body amount count rs \<in> list_body amount count ` {rs. listable rs \<and> length rs = count}"
      by auto
    show ?thesis
    proof (cases e)
      case None
      then obtain rs' where rs': "list_body amount count rs = list_body amount count rs'" "listable rs'" "length rs' = count"
        using rs(2) by auto
      have "10 + amount = int (length (list_body amount count rs'))" using rs(1) rs'(1) None by (simp add: framed_bytes_def)
      then have "8 + amount = int (8 + length (concat (map reservation_struct rs')))" by (simp add: list_body_def)
      then have "list_body amount count rs' = le_put 2 version_number @ vector_put (length rs') (concat (map reservation_struct rs'))"
        using rs'(3) unfolding list_body_def vector_put_def by simp
      then show ?thesis
        using rs(1) rs'(1,2) by (intro disjI2 exI [of _ amount] exI [of _ count] exI [of _ rs']) simp
    next
      case (Some x)
      then show ?thesis using rs(1) by auto
    qed
  qed
qed

text \<open>No reservation at all: the source has an empty page.\<close>

definition idle_operations :: "unit operations" where
  "idle_operations = \<lparr>op_add = \<lambda>_ s. (False, s), op_active = \<lambda>_ _ s. (([], True), s), op_change = \<lambda>_ s. (False, s),
     op_delete = \<lambda>_ s. (False, s), op_recording = \<lambda>_ s. ((False, False), s)\<rparr>"

theorem reservation_list_exact_witness:
  "\<exists>d'. handle_list (\<lambda>_. True) idle_operations default_limits (le_put 2 version_number) (buffer_write :: (unit, bytes) sink) ([], ()) =
      (None, Some (d', ())) \<and>
    (framed_bytes [] (frame_header result_failure 0) 0 [] (None :: unit wire_error option) d' \<or>
     (\<exists>amount count rs. framed_bytes [] (frame_header result_success (10 + amount)) (10 + amount) (list_body amount count rs) (None :: unit wire_error option) d' \<and>
       listable rs \<and> list_body amount count rs = le_put 2 version_number @ vector_put (length rs) (concat (map reservation_struct rs))))"
proof -
  let ?run = "handle_list (\<lambda>_. True) idle_operations default_limits (le_put 2 version_number) (buffer_write :: (unit, bytes) sink) ([], ())"
  have "fst ?run = None" "map_option snd (snd ?run) = Some ()" by code_simp+
  then obtain d' where run: "?run = (None, Some (d', ()))" by (cases ?run) auto
  from reservation_list_exact [OF buffer.byte_sink_axioms TrueI run] run show ?thesis by auto
qed

end
