(* ===== verification/ReservationRoundtrip.thy ===== *)
theory ReservationRoundtrip
  imports ReservationHandlerSpec
begin

text \<open>
  A reservation that the list has written is read back by the request that changes reservations, with the settings it had.
  Methods of the reader that follow one another are put together from what each reads.
\<close>

section \<open>Settings\<close>

text \<open>What the limits must leave room for, and the texts that \<open>StringSize\<close> has accepted.\<close>

definition roomy :: "limits \<Rightarrow> bool" where
  "roomy l \<longleftrightarrow> 6 \<le> lm_depth l \<and> 1 \<le> lm_vector_elements l \<and> 100 \<le> lm_logical_items l"

lemma component_mode_back:
  assumes "component_mode_valid mode"
  obtains v where "component_mode_to_wire mode = Inr v" "component_mode_from_wire v = Inr mode"
proof -
  have "mode \<le> 4" using assms by (simp add: component_mode_valid_def)
  then have "mode \<in> {0, 1, 2, 3, 4}" by simp unat_arith
  moreover have "component_mode_to_wire 0 = Inr 0" "component_mode_from_wire 0 = Inr 0"
    "component_mode_to_wire 1 = Inr 0x01" "component_mode_from_wire 0x01 = Inr 1"
    "component_mode_to_wire 2 = Inr 0x11" "component_mode_from_wire 0x11 = Inr 2"
    "component_mode_to_wire 3 = Inr 0x21" "component_mode_from_wire 0x21 = Inr 3"
    "component_mode_to_wire 4 = Inr 0x31" "component_mode_from_wire 0x31 = Inr 4"
    by code_simp+
  ultimately show thesis using that by auto
qed

lemma post_mode_back:
  assumes "post_recording_mode_valid mode"
  obtains suspend reboot where "encode_post_recording_mode mode = Some (suspend, reboot)"
    "decode_post_recording_mode suspend reboot = Some mode"
proof -
  have "mode \<le> 6" using assms by (simp add: post_recording_mode_valid_def)
  then have "mode \<in> {0, 1, 2, 3, 4, 5, 6}" by simp unat_arith
  then show thesis using that by (elim insertE emptyE) (simp_all; blast)+
qed

lemma template_of_plugin_back: "template_of_plugin bare (macro_name settings) = Some (o_template settings)"
proof -
  have "plugin_name \<noteq> []" by (simp add: plugin_name_def ascii_def)
  then show ?thesis by (simp add: template_of_plugin_def macro_name_def)
qed

lemma length_folder_struct_positive: "4 \<le> length (folder_struct settings)"
  by (simp add: folder_struct_def)

lemma reads_folder:
  assumes "list_all (string_fits l (d + 1)) (folder_values settings)" "output_settings_valid settings"
    and "d < lm_depth l" "int (length (folder_struct settings)) \<le> lm_structure_extent l" "length (folder_struct settings) < 2 ^ 31"
  shows "reads l d (read_structure (Some (read_folder bare))) (folder_struct settings) 5 settings"
proof -
  have eta: "\<lparr>o_folder = o_folder settings, o_template = o_template settings\<rparr> = settings" by (cases settings) simp
  have "reads l (d + 1) (read_folder bare)
      (string_bytes (o_folder settings) @ string_bytes writer_name @ string_bytes (macro_name settings) @ string_bytes [] @ [])
      (1 + (1 + (1 + (1 + 0)))) settings"
    unfolding read_folder_def
    by (rule reads_bind string_codec.reads_get | (use assms(1,2) in \<open>simp add: folder_values_def\<close>; fail))+
      (use assms(2) in \<open>simp add: template_of_plugin_back reads_return Let_def eta\<close>)
  from reads_structure [OF this] assms(3-) show ?thesis
    by (simp add: folder_struct_def folder_values_def)
qed

text \<open>The vector of no or one folder, with the value that both readers make of it.\<close>

lemma reads_folders:
  assumes "case settings of None \<Rightarrow> True | Some out \<Rightarrow> list_all (string_fits l (d + 2)) (folder_values out) \<and> output_settings_valid out"
    and "roomy l" "d + 1 < lm_depth l" "int (length (folder_vector settings)) \<le> lm_structure_extent l" "length (folder_vector settings) < 2 ^ 31"
  shows "reads l d (read_vector 4 1 (Some (\<lambda>_. read_structure (Some (read_folder bare))))) (folder_vector settings)
    (case settings of None \<Rightarrow> 2 | Some _ \<Rightarrow> 7) (case settings of None \<Rightarrow> [] | Some out \<Rightarrow> [out])"
proof (cases settings)
  case None
  then show ?thesis using assms by (auto simp: folder_vector_def roomy_def vector_maximum_def intro!: reads_vector_none)
next
  case (Some out)
  have "reads l (d + 1) (read_structure (Some (read_folder bare))) (folder_struct out) 5 out"
    using assms Some by (intro reads_folder) (simp_all add: folder_vector_def add.assoc)
  from reads_vector_one [OF this, of 4 1] show ?thesis
    using assms Some length_folder_struct_positive [of out] by (simp add: folder_vector_def roomy_def vector_maximum_def)
qed

definition folder_texts_ok :: "limits \<Rightarrow> output_settings option \<Rightarrow> bool" where
  "folder_texts_ok l settings \<longleftrightarrow>
     (case settings of None \<Rightarrow> True
      | Some out \<Rightarrow> list_all (string_fits l 0) (folder_values out) \<and> output_settings_valid out)"

lemma reads_output_folders:
  assumes "folder_texts_ok l settings" "roomy l" "d + 1 < lm_depth l" "int (length (folder_vector settings)) \<le> lm_structure_extent l"
    "length (folder_vector settings) < 2 ^ 31"
  shows "reads l d read_output_folders (folder_vector settings) (case settings of None \<Rightarrow> 2 | Some _ \<Rightarrow> 7)
    (case settings of None \<Rightarrow> empty_output | Some out \<Rightarrow> out)"
proof -
  have "reads l d read_output_folders (folder_vector settings @ []) ((case settings of None \<Rightarrow> 2 | Some _ \<Rightarrow> 7) + 0)
      (case (case settings of None \<Rightarrow> [] | Some out \<Rightarrow> [out]) of [] \<Rightarrow> empty_output | out # _ \<Rightarrow> out)"
    unfolding read_output_folders_def
    by (rule reads_bind, rule reads_folders)
      (use assms in \<open>auto simp: folder_texts_ok_def string_fits_depth [of _ "d + 2"] reads_return split: option.splits\<close>)
  then show ?thesis by (cases settings) simp_all
qed

lemma reads_one_seg_folders:
  assumes "folder_texts_ok l settings" "roomy l" "d + 1 < lm_depth l" "int (length (folder_vector settings)) \<le> lm_structure_extent l"
    "length (folder_vector settings) < 2 ^ 31" "settings \<noteq> Some empty_output"
  shows "reads l d read_one_seg_folders (folder_vector settings) (case settings of None \<Rightarrow> 2 | Some _ \<Rightarrow> 7)
    (case settings of None \<Rightarrow> (empty_output, 0) | Some out \<Rightarrow> (out, 1))"
proof -
  have "reads l d read_one_seg_folders (folder_vector settings @ []) ((case settings of None \<Rightarrow> 2 | Some _ \<Rightarrow> 7) + 0)
      (case (case settings of None \<Rightarrow> [] | Some out \<Rightarrow> [out]) of
         [] \<Rightarrow> (empty_output, 0)
       | out # _ \<Rightarrow> (out, if length (case settings of None \<Rightarrow> [] | Some out \<Rightarrow> [out]) = 1 \<and> out = empty_output then 0
           else length (case settings of None \<Rightarrow> [] | Some out \<Rightarrow> [out])))"
    unfolding read_one_seg_folders_def
    by (rule reads_bind, rule reads_folders)
      (use assms in \<open>auto simp: folder_texts_ok_def string_fits_depth [of _ "d + 2"] reads_return split: option.splits\<close>)
  then show ?thesis using assms(6) by (cases settings) simp_all
qed

section \<open>A reservation\<close>

text \<open>The settings of a stored reservation as the reader returns them.\<close>

definition settings_of :: "reservation \<Rightarrow> decoded_settings" where
  "settings_of r =
     \<lparr>ds_priority = r_priority r, ds_follow = r_effective_follow r, ds_disabled = r_disabled r, ds_margins = r_margins r,
      ds_output = r_output r, ds_one_seg_output = map_option os_output (r_one_seg_output r), ds_components = r_components r,
      ds_post_recording = r_post_recording r\<rparr>"

definition request_of :: "reservation \<Rightarrow> reservation_request" where
  "request_of r =
     (let p = r_program r in
      \<lparr>rq_network_id = p_network_id p, rq_transport_stream_id = p_transport_stream_id p, rq_service_id = p_service_id p,
       rq_event_id = p_event_id p, rq_start = p_start p, rq_duration = p_duration p, rq_priority = r_priority r,
       rq_requested_follow = r_effective_follow r, rq_disabled = r_disabled r, rq_margins = r_margins r, rq_output = r_output r,
       rq_one_seg_output = map_option os_output (r_one_seg_output r), rq_components = r_components r,
       rq_post_recording = r_post_recording r\<rparr>)"

lemma whole_seconds_back:
  assumes "d mod second = 0" "- hour \<le> d" "d \<le> hour"
  shows "sint (of_int (whole_seconds d) :: i32) * second = d" "-3600 \<le> sint (of_int (whole_seconds d) :: i32)"
    "sint (of_int (whole_seconds d) :: i32) \<le> 3600"
proof -
  from assms(1) obtain k where k: "d = second * k" by auto
  then have whole: "whole_seconds d = k" using nonzero_mult_div_cancel_left [of second "- k"] by (simp add: whole_seconds_def)
  have "-3600 \<le> k" "k \<le> 3600" using assms(2,3) by (simp_all add: k)
  then have "sint (of_int k :: i32) = k" by (simp add: signed_of_int signed_take_bit_int_eq_self)
  then show "sint (of_int (whole_seconds d) :: i32) * second = d" "-3600 \<le> sint (of_int (whole_seconds d) :: i32)"
    "sint (of_int (whole_seconds d) :: i32) \<le> 3600"
    unfolding whole using \<open>-3600 \<le> k\<close> \<open>k \<le> 3600\<close> by (simp_all add: k)
qed

lemma one_seg_folder_value:
  "(case one_seg_folder r of None \<Rightarrow> (empty_output, 0) | Some out \<Rightarrow> (out, 1)) =
   (case r_one_seg_output r of None \<Rightarrow> (empty_output, 0)
    | Some out \<Rightarrow> (os_output out, if os_output out = empty_output then 0 else 1 :: nat))"
  by (auto simp: one_seg_folder_def split: option.split)

lemma main_folder_value: "(case main_folder r of None \<Rightarrow> empty_output | Some out \<Rightarrow> out) = r_output r"
  by (simp add: main_folder_def)

text \<open>The checks of the settings accept what the list writes for a valid reservation.\<close>

lemma accept_settings_back:
  assumes stored: "reservation_time_ok r" "1 \<le> r_priority r" "r_priority r \<le> 5"
    and post: "decode_post_recording_mode suspend reboot = Some (pr_mode (r_post_recording r))"
  shows "accept_settings (if r_disabled r then 5 else 1) (r_priority r) (bool_byte (r_effective_follow r)) (r_components r) 0
      (pr_script (r_post_recording r)) (r_output r) suspend (bool_byte reboot) (bool_byte (r_margins r \<noteq> None)) (margin_start r)
      (margin_end r) 0 (bool_byte (r_one_seg_output r \<noteq> None)) 0
      (case one_seg_folder r of None \<Rightarrow> (empty_output, 0) | Some out \<Rightarrow> (out, 1)) = Inr (settings_of r)"
proof -
  have post_valid: "post_recording_valid (r_post_recording r)" using stored(1) by (simp add: reservation_time_ok_def)
  have margins: "m_start m mod second = 0" "- hour \<le> m_start m" "m_start m \<le> hour"
    "m_end m mod second = 0" "- hour \<le> m_end m" "m_end m \<le> hour" if "r_margins r = Some m" for m
    using stored(1) that by (auto simp: reservation_time_ok_def recording_time_valid_def effective_margins_def Let_def)
  have starts: "sint (margin_start r) * second = m_start m" "\<not> sint (margin_start r) < -3600" "\<not> 3600 < sint (margin_start r)"
    if "r_margins r = Some m" for m
    using whole_seconds_back [OF margins(1-3) [OF that]] by (simp_all add: margin_start_def that)
  have ends: "sint (margin_end r) * second = m_end m" "\<not> sint (margin_end r) < -3600" "\<not> 3600 < sint (margin_end r)"
    if "r_margins r = Some m" for m
    using whole_seconds_back [OF margins(4-6) [OF that]] by (simp_all add: margin_end_def that)
  have bool: "bool_byte b = 1 \<longleftrightarrow> b" "bool_byte b = 0 \<longleftrightarrow> \<not> b" "\<not> 1 < bool_byte b" for b by (simp_all add: bool_byte_def)
  have eta: "\<lparr>pr_mode = pr_mode p, pr_script = pr_script p\<rparr> = p" "\<lparr>m_start = m_start m, m_end = m_end m\<rparr> = m" for p m
    by (cases p, simp) (cases m, simp)
  have priority: "r_priority r \<noteq> 0" "\<not> 5 < r_priority r" using stored(2,3) by unat_arith+
  show ?thesis
    unfolding one_seg_folder_value accept_settings_def
    by (cases "r_one_seg_output r"; cases "r_margins r"; cases "r_disabled r")
      (simp_all add: bool post eta post_valid priority starts ends settings_of_def Let_def del: decode_post_recording_mode.simps)
qed

lemma reads_settings_fields:
  assumes stored: "reservation_time_ok r" "1 \<le> r_priority r" "r_priority r \<le> 5"
    and texts: "string_fits l 0 (pr_script (r_post_recording r))" "folder_texts_ok l (main_folder r)" "folder_texts_ok l (one_seg_folder r)"
    and room: "roomy l" "d + 1 < lm_depth l" "int (length (concat (settings_parts r))) \<le> lm_structure_extent l"
      "length (concat (settings_parts r)) < 2 ^ 31"
  shows "\<exists>c\<le>29. reads l d read_settings_fields (concat (settings_parts r)) c (settings_of r)"
proof -
  obtain bits where bits: "component_mode_to_wire (r_components r) = Inr bits" "component_mode_from_wire bits = Inr (r_components r)"
    using component_mode_back stored(1) by (auto simp: reservation_time_ok_def)
  obtain suspend reboot where post: "encode_post_recording_mode (pr_mode (r_post_recording r)) = Some (suspend, reboot)"
      "decode_post_recording_mode suspend reboot = Some (pr_mode (r_post_recording r))"
    using post_mode_back stored(1) unfolding reservation_time_ok_def post_recording_valid_def by metis
  let ?main = "case main_folder r of None \<Rightarrow> 2 | Some _ \<Rightarrow> 7" and ?one = "case one_seg_folder r of None \<Rightarrow> 2 | Some _ \<Rightarrow> (7 :: int)"
  have bytes: "concat (settings_parts r) =
      [if r_disabled r then 5 else 1] @ [r_priority r] @ [bool_byte (r_effective_follow r)] @ le_put 4 bits @ [] @ [0] @
      string_bytes (pr_script (r_post_recording r)) @ folder_vector (main_folder r) @ [suspend] @ [bool_byte reboot] @
      [bool_byte (r_margins r \<noteq> None)] @ le_put 4 (margin_start r) @ le_put 4 (margin_end r) @ [0] @
      [bool_byte (r_one_seg_output r \<noteq> None)] @ le_put 4 (0 :: u32) @ folder_vector (one_seg_folder r) @ []"
    by (simp add: settings_parts_def component_bits_def post_bytes_def bits(1) post(1) del: encode_post_recording_mode.simps)
  have vectors: "length (folder_vector (main_folder r)) \<le> length (concat (settings_parts r))"
    "length (folder_vector (one_seg_folder r)) \<le> length (concat (settings_parts r))"
    unfolding bytes by simp_all
  have main: "reads l d read_output_folders (folder_vector (main_folder r)) ?main (r_output r)"
    using reads_output_folders [OF texts(2) room(1,2)] vectors room by (simp add: main_folder_value)
  have "one_seg_folder r \<noteq> Some empty_output" by (simp add: one_seg_folder_def split: option.split)
  then have one: "reads l d read_one_seg_folders (folder_vector (one_seg_folder r)) ?one
      (case one_seg_folder r of None \<Rightarrow> (empty_output, 0) | Some out \<Rightarrow> (out, 1))"
    using reads_one_seg_folders [OF texts(3) room(1,2)] vectors room by simp
  have script: "string_fits l d (pr_script (r_post_recording r))" using texts(1) by (simp add: string_fits_depth [of l d])
  have components: "reads l d (lift_result (component_mode_from_wire bits)) [] 0 (r_components r)"
    unfolding bits(2) by (rule reads_lift)
  note step = reads_u8 u32_codec.reads_get [OF TrueI] i32_codec.reads_get [OF TrueI] components string_codec.reads_get [OF script] main one
  have "reads l d read_settings_fields (concat (settings_parts r))
      (1 + (1 + (1 + (1 + (0 + (1 + (1 + (?main + (1 + (1 + (1 + (1 + (1 + (1 + (1 + (1 + (?one + 0))))))))))))))))) (settings_of r)"
    unfolding read_settings_fields_def bytes
    by (rule reads_bind, rule step)+ (simp only: accept_settings_back [OF stored post(2)] reads_lift)
  moreover have "1 + (1 + (1 + (1 + (0 + (1 + (1 + (?main + (1 + (1 + (1 + (1 + (1 + (1 + (1 + (1 + (?one + 0)))))))))))))))) \<le> 29"
    by (simp split: option.split)
  ultimately show ?thesis by blast
qed

text \<open>The structure of the settings, and of the whole reservation.\<close>

lemma reads_settings:
  assumes "reservation_time_ok r" "1 \<le> r_priority r" "r_priority r \<le> 5"
    and "string_fits l 0 (pr_script (r_post_recording r))" "folder_texts_ok l (main_folder r)" "folder_texts_ok l (one_seg_folder r)"
    and "roomy l" "d + 2 < lm_depth l" "int (length (settings_struct r)) \<le> lm_structure_extent l" "length (settings_struct r) < 2 ^ 31"
  shows "\<exists>c\<le>30. reads l d read_settings (settings_struct r) c (settings_of r)"
proof -
  have sizes: "int (length (concat (settings_parts r))) \<le> lm_structure_extent l" "length (concat (settings_parts r)) < 2 ^ 31"
    using assms(9,10) by (simp_all add: settings_struct_def)
  obtain c where c: "c \<le> 29" "reads l (d + 1) read_settings_fields (concat (settings_parts r)) c (settings_of r)"
    using reads_settings_fields [OF assms(1-7) _ sizes, of "d + 1"] assms(8) by auto
  from reads_structure [OF c(2)] assms(8-) have "reads l d read_settings (settings_struct r) (1 + c) (settings_of r)"
    by (simp add: read_settings_def settings_struct_def)
  with c(1) show ?thesis by (intro exI [of _ "1 + c"]) simp
qed

text \<open>What the size of a reservation has checked when it succeeds.\<close>

definition reservation_texts_ok :: "limits \<Rightarrow> reservation \<Rightarrow> bool" where
  "reservation_texts_ok l r \<longleftrightarrow>
     list_all (string_fits l 0) [p_title (r_program r), p_station_name (r_program r), [], pr_script (r_post_recording r)] \<and>
     folder_texts_ok l (main_folder r) \<and> folder_texts_ok l (one_seg_folder r) \<and> list_all (string_fits l 0) (planned_names r)"

lemma reservation_size_texts:
  assumes "normalized given = Inr l" "reservation_size r given = Inr n"
  shows "reservation_texts_ok l r" "validate_stored_reservation r = Inr ()"
proof -
  from assms(2) obtain a b c e f g h where sizes: "validate_stored_reservation r = Inr ()"
    "string_size (p_title (r_program r)) given = Inr a" "string_size (p_station_name (r_program r)) given = Inr b"
    "reservation_folders_size r given = Inr c" "one_seg_folders_size r given = Inr e" "reservation_file_names_size r given = Inr f"
    "string_size (pr_script (r_post_recording r)) given = Inr g" "string_size [] given = Inr h"
    by (auto simp: reservation_size_def result_bind_eq_Inr)
  note fits = string_size_fits [OF assms(1)] sum_names_fit [OF assms(1)]
  have "folder_texts_ok l (main_folder r)"
    using sizes(4) fits(2) by (auto simp: folder_texts_ok_def main_folder_def reservation_folders_size_def split: if_splits)
  moreover have "folder_texts_ok l (one_seg_folder r)"
    using sizes(5) fits(2)
    by (auto simp: folder_texts_ok_def one_seg_folder_def one_seg_folders_size_def one_seg_output_valid_def split: if_splits option.splits)
  moreover have "list_all (string_fits l 0) (planned_names r)"
    using sizes(6) fits(1)
    by (auto simp: planned_names_def reservation_file_names_size_def result_bind_eq_Inr split: sum.splits option.splits)
  ultimately show "reservation_texts_ok l r" using sizes fits(1) by (simp add: reservation_texts_ok_def)
  show "validate_stored_reservation r = Inr ()" by (rule sizes(1))
qed

lemma reads_file_names:
  assumes "list_all (string_fits l 0) (planned_names r)" "roomy l" "d < lm_depth l"
    and "int (length (file_names_vector r)) \<le> lm_structure_extent l" "length (file_names_vector r) < 2 ^ 31"
  shows "reads l d (read_vector 6 1 (Some (\<lambda>_. read_string))) (file_names_vector r)
    (if planned_names r = [] then 2 else 3) (planned_names r)"
proof -
  consider "planned_names r = []" | v where "planned_names r = [v]"
    unfolding planned_names_def
    by (cases "scheduled_output_path r"; cases "projr (scheduled_output_path r)") auto
  then show ?thesis
  proof cases
    case 1
    then show ?thesis
      using assms by (auto simp: file_names_vector_def roomy_def vector_maximum_def intro!: reads_vector_none)
  next
    case 2
    have "reads l (d + 1) read_string (string_bytes v) 1 v"
      using assms(1) 2 by (intro string_codec.reads_get) (simp add: string_fits_depth [of l "d + 1"])
    from reads_vector_one [OF this, of 6 1] show ?thesis
      using assms 2 by (simp add: file_names_vector_def length_string_bytes roomy_def vector_maximum_def)
  qed
qed

lemma whole_duration:
  assumes "second \<le> d" "d \<le> 24 * hour" "d mod second = 0"
  shows "uint (of_int (whole_seconds d) :: u32) * second = d" "\<not> (of_int (whole_seconds d) :: u32) < 1"
    "\<not> 86400 < (of_int (whole_seconds d) :: u32)"
proof -
  obtain k where k: "d = second * k" using assms(3) by auto
  then have whole: "whole_seconds d = k" and range: "1 \<le> k" "k \<le> 86400" using assms(1,2) by (auto simp: whole_seconds_def)
  have same: "uint (of_int k :: u32) = k" using range by (simp add: uint_word_of_int)
  then show "uint (of_int (whole_seconds d) :: u32) * second = d" unfolding whole by (simp add: k)
  show "\<not> (of_int (whole_seconds d) :: u32) < 1" "\<not> 86400 < (of_int (whole_seconds d) :: u32)"
    unfolding whole using same range by (simp_all add: word_less_def)
qed

lemma accept_reservation_back:
  assumes "validate_stored_reservation r = Inr ()" "r_number r < 2 ^ 31"
  shows "accept_reservation True (p_start (r_program r)) (of_int (whole_seconds (p_duration (r_program r)))) (p_network_id (r_program r))
      (p_transport_stream_id (r_program r)) (p_service_id (r_program r)) (p_event_id (r_program r)) (of_int (r_number r)) 0 0 []
      (p_start (r_program r)) (settings_of r) 0 names 0 = Inr (r_number r, request_of r)"
proof -
  have valid: "1 \<le> r_number r" "second \<le> p_duration (r_program r)" "p_duration (r_program r) \<le> 24 * hour"
      "p_duration (r_program r) mod second = 0"
    using assms(1) by (auto simp: validate_stored_reservation_def split: if_splits)
  have "sint (of_int (r_number r) :: i32) = r_number r"
    using valid(1) assms(2) by (simp add: signed_of_int signed_take_bit_int_eq_self)
  then show ?thesis
    using valid(1) whole_duration [OF valid(2-4)] by (simp add: accept_reservation_def request_of_def settings_of_def Let_def)
qed

lemma reads_reservation_fields:
  assumes stored: "reservation_time_ok r" "validate_stored_reservation r = Inr ()" "r_number r < 2 ^ 31"
    and texts: "reservation_texts_ok l r" "time_fits l d (p_start (r_program r))"
    and room: "roomy l" "d + 2 < lm_depth l" "int (length (concat (reservation_parts r))) \<le> lm_structure_extent l"
      "length (concat (reservation_parts r)) < 2 ^ 31"
  shows "\<exists>c\<le>70. reads l d (read_reservation True) (concat (reservation_parts r)) c (r_number r, request_of r)"
proof -
  have "r_priority r \<noteq> 0" and priority: "r_priority r \<le> 5"
    using stored(2) by (auto simp: validate_stored_reservation_def not_less split: if_splits)
  then have positive: "1 \<le> r_priority r" by unat_arith
  let ?p = "r_program r"
  have bytes: "concat (reservation_parts r) =
      string_bytes (p_title ?p) @ time_bytes (p_start ?p) @ le_put 4 (of_int (whole_seconds (p_duration ?p)) :: u32) @
      string_bytes (p_station_name ?p) @ le_put 2 (p_network_id ?p) @ le_put 2 (p_transport_stream_id ?p) @ le_put 2 (p_service_id ?p) @
      le_put 2 (p_event_id ?p) @ string_bytes [] @ le_put 4 (of_int (r_number r) :: i32) @ [0] @ [0] @ string_bytes [] @
      time_bytes (p_start ?p) @ settings_struct r @ le_put 4 (0 :: i32) @ file_names_vector r @ le_put 4 (0 :: i32) @ []"
    by (simp add: reservation_parts_def Let_def)
  have parts: "length (settings_struct r) \<le> length (concat (reservation_parts r))"
    "length (file_names_vector r) \<le> length (concat (reservation_parts r))"
    unfolding bytes by simp_all
  have fits: "string_fits l d (p_title ?p)" "string_fits l d (p_station_name ?p)" "string_fits l d []"
    using texts(1) by (simp_all add: reservation_texts_ok_def string_fits_depth [of l d])
  obtain c where c: "c \<le> 30" "reads l d read_settings (settings_struct r) c (settings_of r)"
    using reads_settings [OF stored(1) positive priority, of l d] texts(1) room parts by (auto simp: reservation_texts_ok_def)
  have names: "reads l d (read_vector 6 1 (Some (\<lambda>_. read_string))) (file_names_vector r)
      (if planned_names r = [] then 2 else 3) (planned_names r)"
    using reads_file_names [of l r d] texts(1) room parts by (simp add: reservation_texts_ok_def)
  note step = reads_u8 u16_codec.reads_get [OF TrueI] u32_codec.reads_get [OF TrueI] i32_codec.reads_get [OF TrueI]
    string_codec.reads_get [OF fits(1)] string_codec.reads_get [OF fits(2)] string_codec.reads_get [OF fits(3)]
    time_codec.reads_get [OF texts(2)] c(2) names
  have "reads l d (read_reservation True) (concat (reservation_parts r))
      (1 + (8 + (1 + (1 + (1 + (1 + (1 + (1 + (1 + (1 + (1 + (1 + (1 + (8 + (c + (1 + ((if planned_names r = [] then 2 else 3) + (1 + 0))))))))))))))))))
      (r_number r, request_of r)"
    unfolding read_reservation_def bytes
    by (rule reads_bind, rule step)+ (simp only: accept_reservation_back [OF stored(2,3)] reads_lift)
  moreover have "1 + (8 + (1 + (1 + (1 + (1 + (1 + (1 + (1 + (1 + (1 + (1 + (1 + (8 + (c + (1 + ((if planned_names r = [] then 2 else 3) + (1 + 0))))))))))))))))) \<le> (70::int)"
    using c(1) by simp
  ultimately show ?thesis by blast
qed

lemma request_of_valid:
  assumes "reservation_time_ok r" "validate_stored_reservation r = Inr ()"
  shows "reservation_request_valid (request_of r)"
  using assms
  by (auto simp: reservation_request_valid_def request_of_def reservation_time_ok_def validate_stored_reservation_def
      one_seg_output_valid_def Let_def split: if_splits option.splits)

section \<open>Writing to a buffer\<close>

lemma completes_folder_vector:
  assumes "case settings of None \<Rightarrow> True | Some out \<Rightarrow> completes l (write_strings buffer_write (folder_values out))"
  shows "completes l (write_folder_vector buffer_write settings amount)"
  using assms
  by (cases settings) (auto simp: write_folder_vector_def completes_numbers simp del: write_in_turn.simps intro!: completes_in_turn)

lemma completes_folders:
  assumes "normalized given = Inr l" "reservation_folders_size r given = Inr n"
  shows "completes l (write_reservation_folders buffer_write r given)"
  unfolding write_reservation_folders_def
  by (rule completes_sized, rule assms(2), rule completes_folder_vector)
    (use assms in \<open>auto simp: reservation_folders_size_def completes_strings split: if_splits\<close>)

lemma completes_one_seg_folders:
  assumes "normalized given = Inr l" "one_seg_folders_size r given = Inr n"
  shows "completes l (write_one_seg_folders buffer_write r given)"
  unfolding write_one_seg_folders_def
  by (rule completes_sized, rule assms(2), rule completes_folder_vector)
    (use assms in \<open>auto simp: one_seg_folders_size_def completes_strings split: if_splits option.splits\<close>)

lemma completes_file_names:
  assumes "normalized given = Inr l" "reservation_file_names_size r given = Inr n"
  shows "completes l (write_reservation_file_names buffer_write r given)"
  unfolding write_reservation_file_names_def
  by (rule completes_sized, rule assms(2))
    (use assms in \<open>auto simp: reservation_file_names_size_def result_bind_eq_Inr completes_numbers completes_string
      simp del: write_in_turn.simps intro!: completes_in_turn split: sum.splits option.splits\<close>)

lemma completes_settings:
  assumes norm: "normalized given = Inr l" and folders: "reservation_folders_size r given = Inr a"
    and one_seg: "one_seg_folders_size r given = Inr b" and script: "string_size (pr_script (r_post_recording r)) given = Inr c"
    and blank: "string_size [] given = Inr d"
    and modes: "component_mode_valid (r_components r)" "post_recording_mode_valid (pr_mode (r_post_recording r))"
  shows "completes l (write_settings buffer_write r given)"
proof -
  obtain bits where bits: "component_mode_to_wire (r_components r) = Inr bits" using component_mode_back [OF modes(1)] by metis
  obtain suspend reboot where post: "encode_post_recording_mode (pr_mode (r_post_recording r)) = Some (suspend, reboot)"
    using post_mode_back [OF modes(2)] by metis
  have two: "completes l (write_in_turn [write_u8 buffer_write suspend, write_u8 buffer_write (bool_byte reboot)])"
    by (rule completes_in_turn) (simp add: completes_numbers)
  have size: "settings_size r given = Inr (35 + a + b + c - d)"
    using folders one_seg script blank by (simp add: settings_size_def)
  show ?thesis
    unfolding write_settings_def bits post option.case sum.case
    by (rule completes_sized, rule size, rule completes_in_turn)
      (simp add: completes_numbers completes_sized [OF refl] two completes_string [OF norm script] completes_folders [OF norm folders]
        completes_one_seg_folders [OF norm one_seg] del: write_in_turn.simps)
qed

text \<open>A reservation that has been measured is written.\<close>

lemma completes_reservation:
  assumes norm: "normalized given = Inr l" and size: "reservation_size r given = Inr n"
    and stored: "reservation_time_ok r" "time_fits l 0 (p_start (r_program r))"
  shows "completes l (write_reservation buffer_write given r)"
proof -
  from size obtain a b c e f g h where sizes: "validate_stored_reservation r = Inr ()"
    "string_size (p_title (r_program r)) given = Inr a" "string_size (p_station_name (r_program r)) given = Inr b"
    "reservation_folders_size r given = Inr c" "one_seg_folders_size r given = Inr e" "reservation_file_names_size r given = Inr f"
    "string_size (pr_script (r_post_recording r)) given = Inr g" "string_size [] given = Inr h"
    by (auto simp: reservation_size_def result_bind_eq_Inr)
  note strings = completes_string [OF norm sizes(2)] completes_string [OF norm sizes(3)] completes_string [OF norm sizes(8)]
  have "\<not> is_zero_time (p_start (r_program r))" using sizes(1) by (auto simp: validate_stored_reservation_def split: if_splits)
  note time = completes_time [OF this stored(2)]
  have settings: "completes l (write_settings buffer_write r given)"
    using stored(1) by (intro completes_settings [OF norm sizes(4,5,7,8)]) (simp_all add: reservation_time_ok_def post_recording_valid_def)
  show ?thesis
    unfolding write_reservation_def
    by (rule completes_sized, rule size, rule completes_in_turn)
      (simp add: completes_numbers strings time settings completes_file_names [OF norm sizes(6)] del: write_in_turn.simps)
qed

text \<open>What the writer of a reservation has written when it succeeds.\<close>

lemma reservation_written:
  assumes "write_reservation (buffer_write :: (unit, bytes) sink) given r \<lparr>wr_dest = [], wr_written = 0, wr_limits = l\<rparr> = (None, w)"
  shows "wr_dest w = reservation_struct r" "\<exists>n. reservation_size r given = Inr n"
proof -
  show "wr_dest w = reservation_struct r"
    using buffer.emitsD [OF buffer.emits_reservation _ assms] by (simp add: buffer.progress_wrote buffer.wrote_def)
  show "\<exists>n. reservation_size r given = Inr n"
    using assms by (cases "reservation_size r given") (auto simp: write_reservation_def write_sized_def write_fail_def)
qed

lemma decode_structure:
  assumes norm: "normalized given = Inr l" and room: "6 \<le> lm_depth l" "100 \<le> lm_logical_items l"
    and stored: "reservation_size r given = Inr n" "reservation_time_ok r" "r_number r < 2 ^ 31"
    and fits: "time_fits l 0 (p_start (r_program r))" "int (length (reservation_struct r)) + 8 \<le> lm_structure_extent l"
  shows "decode_reservation_request (le_put 2 version_number @ vector_put 1 (reservation_struct r)) given True =
    Some \<lparr>ch_number = r_number r, ch_request = request_of r, ch_resolved_one_seg = None\<rparr>"
proof -
  let ?body = "le_put 2 version_number @ vector_put 1 (reservation_struct r)"
  let ?start = "\<lparr>rd_data = ?body, rd_pos = 0, rd_depth = 0, rd_limits = l, rd_budget = lm_logical_items l\<rparr>"
  let ?vector = "read_vector 4 1 (Some (\<lambda>_. read_structure (Some (read_reservation True))))"
  note texts = reservation_size_texts [OF norm stored(1)] and bounds = normalized_bounds [OF norm]
  have roomy: "roomy l" using room bounds by (simp add: roomy_def)
  have time: "time_fits l d t = time_fits l 0 t" for d t by (simp add: time_fits_def)
  obtain c where c: "c \<le> 70" "reads l 2 (read_reservation True) (concat (reservation_parts r)) c (r_number r, request_of r)"
    using reads_reservation_fields [OF stored(2) texts(2) stored(3) texts(1), of 2] roomy room fits bounds time [of 2]
    by (auto simp: reservation_struct_def)
  have "reads l 1 (read_structure (Some (read_reservation True))) (reservation_struct r) (1 + c) (r_number r, request_of r)"
    unfolding reservation_struct_def
    by (rule reads_structure) (use c(2) room fits bounds in \<open>simp_all add: reservation_struct_def\<close>)
  then have vector_reads: "reads l 0 ?vector (vector_put 1 (reservation_struct r)) (2 + (1 + c)) [(r_number r, request_of r)]"
    using room fits bounds by (intro reads_vector_one) (simp_all add: reservation_struct_def vector_maximum_def)
  have whole: "ahead ?start ?body" by (auto simp: ahead_def intro!: exI [of _ "[]"])
  from ahead_second [OF whole, of 1] have "ahead (advance 2 1 ?start) (vector_put 1 (reservation_struct r))" by simp
  from readsD [OF vector_reads this] room c(1)
  have vector: "?vector (advance 2 1 ?start) =
      (Inr [(r_number r, request_of r)], advance (length (vector_put 1 (reservation_struct r))) (2 + (1 + c)) (advance 2 1 ?start))"
    by simp
  have version: "read_u16 ?start = (Inr version_number, advance 2 1 ?start)"
    using readsD [OF u16_codec.reads_get [OF TrueI] ahead_first [OF whole], of l 0] room by simp
  have "1 \<le> r_number r" using texts(2) by (auto simp: validate_stored_reservation_def split: if_splits)
  then show ?thesis
    using version vector request_of_valid [OF stored(2) texts(2)] norm
    by (simp add: decode_reservation_request_def new_reader_def read_bind_def read_return_def exact_def reservation_change_valid_def Let_def)
qed

text \<open>C32. (roundtrip): a client that sends a listed reservation back changes nothing.  A stored
  reservation that has been measured is written to a buffer without an error, in the announced size; and the request that
  changes reservations reads the bytes, as a vector of one behind the version, as the number of the reservation and the
  request with its programme, priority, following, margins, folders, components and what follows the recording.\<close>

theorem listed_reservation_sent_back:
  assumes "normalized given = Inr l" "6 \<le> lm_depth l" "100 \<le> lm_logical_items l"
    and "reservation_size r given = Inr n" "n + 8 \<le> lm_structure_extent l"
    and "reservation_time_ok r" "r_number r < 2 ^ 31" "time_fits l 0 (p_start (r_program r))"
  shows "\<exists>w. write_reservation (buffer_write :: (unit, bytes) sink) given r \<lparr>wr_dest = [], wr_written = 0, wr_limits = l\<rparr> = (None, w) \<and>
    int (length (wr_dest w)) = n \<and>
    decode_reservation_request (le_put 2 version_number @ vector_put 1 (wr_dest w)) given True =
      Some \<lparr>ch_number = r_number r, ch_request = request_of r, ch_resolved_one_seg = None\<rparr>"
proof -
  obtain w where run: "write_reservation (buffer_write :: (unit, bytes) sink) given r \<lparr>wr_dest = [], wr_written = 0, wr_limits = l\<rparr> = (None, w)"
    using completesD [OF completes_reservation [OF assms(1,4,6,8)], of "\<lparr>wr_dest = [], wr_written = 0, wr_limits = l\<rparr>"] by auto
  note size = reservation_size_ok [OF assms(4)]
  have "decode_reservation_request (le_put 2 version_number @ vector_put 1 (reservation_struct r)) given True =
      Some \<lparr>ch_number = r_number r, ch_request = request_of r, ch_resolved_one_seg = None\<rparr>"
    using decode_structure [OF assms(1-4,6-8)] assms(5) size by simp
  then show ?thesis using run reservation_written(1) [OF run] size by simp
qed

lemma sample_measured:
  "reservation_size sample_reservation default_limits = Inr 153"
proof -
  have "normalized default_limits = Inr default_limits" by code_simp
  then have "string_size [67] default_limits = Inr 8" "string_size [65, 0x2f, 66] default_limits = Inr 12" "string_size [] default_limits = Inr 6"
    by (simp_all add: string_size_def count_units.simps default_limits_def Let_def text_eval)
  moreover have "validate_stored_reservation sample_reservation = Inr ()"
    by (simp add: validate_stored_reservation_def sample_reservation_def sample_program_def is_zero_time_def zero_nanos_def
        planned_end_def planned_start_def effective_margins_def add_duration_def after_time_def sub_time_def
        max_effective_duration_def output_settings_valid_def)
  moreover have "scheduled_output_path sample_reservation = Inr None"
    by (simp add: scheduled_output_path_def sample_reservation_def output_settings_valid_def)
  ultimately show ?thesis
    by (simp add: reservation_size_def reservation_folders_size_def one_seg_folders_size_def reservation_file_names_size_def
        minimum_reserve_size_def empty_output_def sample_reservation_def sample_program_def)
qed

theorem listed_reservation_sent_back_witness:
  "\<exists>w. write_reservation (buffer_write :: (unit, bytes) sink) default_limits sample_reservation
      \<lparr>wr_dest = [], wr_written = 0, wr_limits = default_limits\<rparr> = (None, w) \<and>
    int (length (wr_dest w)) = 153 \<and>
    decode_reservation_request (le_put 2 version_number @ vector_put 1 (wr_dest w)) default_limits True =
      Some \<lparr>ch_number = 1, ch_request = request_of sample_reservation, ch_resolved_one_seg = None\<rparr>"
proof -
  have "normalized default_limits = Inr default_limits" by code_simp
  moreover have "hd (system_fields \<lparr>t_nanos = 1600000000 * second, t_utc = True\<rparr>) = 2020" by code_simp
  then have "time_fits default_limits 0 (p_start (r_program sample_reservation))" by (simp add: time_fits_def sample_start)
  moreover have "reservation_time_ok sample_reservation"
    by (simp add: reservation_time_ok_def sample_reservation_def sample_program_def program_time_valid_def utc_instant_def
        is_zero_time_def zero_nanos_def unix_milli_def recording_time_valid_def effective_margins_def add_duration_def
        after_time_def sub_time_def output_settings_valid_def component_mode_valid_def post_recording_valid_def
        post_recording_mode_valid_def)
  moreover have "r_number sample_reservation = 1" by (simp add: sample_reservation_def)
  moreover have "6 \<le> lm_depth default_limits" "100 \<le> lm_logical_items default_limits" "153 + 8 \<le> lm_structure_extent default_limits"
    by (simp_all add: default_limits_def)
  ultimately show ?thesis
    using listed_reservation_sent_back [of default_limits default_limits sample_reservation 153] sample_measured by simp
qed

end
