(* ===== verification/RuleHandler.thy ===== *)
theory RuleHandler
  imports CodecLogic ProgramMatcher
begin

text \<open>
  \<open>internal/adapters/ctrlcmd/autoreservation\<close>: the requests 2131, 2132, 2134 and 1033 that list, add, change and delete the
  rules of automatic reservations (\<open>handler.go\<close>), how a rule is read (\<open>projection.go\<close>) and written (\<open>writer.go\<close>).  The
  operations behind the handler are functions on a world, as in \<open>ReservationHandler\<close>.
\<close>

definition rule_failure :: "category \<Rightarrow> string \<Rightarrow> int \<Rightarrow> codec_error" where
  "rule_failure category reason amount =
     \<lparr>ce_category = category, ce_reason = reason, ce_offset = 0, ce_size = amount\<rparr>"

section \<open>Keywords\<close>

text \<open>The prefixes of a keyword hold the flags of the condition, and the limits of the length of a programme.\<close>

definition disabled_prefix :: bytes where "disabled_prefix = ascii ''^!{999}''"
definition case_prefix :: bytes where "case_prefix = ascii ''C!{999}''"
definition duration_prefix :: bytes where "duration_prefix = ascii ''D!{1''"
definition closing_brace :: byte where "closing_brace = 0x7d"

definition has_prefix :: "bytes \<Rightarrow> bytes \<Rightarrow> bool" where
  "has_prefix v p \<longleftrightarrow> take (length p) v = p"

definition trim_prefix :: "bytes \<Rightarrow> bytes \<Rightarrow> bytes" where
  "trim_prefix v p = (if has_prefix v p then drop (length p) v else v)"

text \<open>\<open>strconv.ParseUint\<close> in base 10 for a text of eight bytes, which cannot exceed 32 bits.\<close>

definition decimal_value :: "bytes \<Rightarrow> nat option" where
  "decimal_value v =
     (if v \<noteq> [] \<and> list_all (\<lambda>b. 48 \<le> b \<and> b \<le> 57) v then Some (fold (\<lambda>b n. n * 10 + (unat b - 48)) v 0) else None)"

definition decode_keyword :: "bytes \<Rightarrow> search_condition \<Rightarrow> (codec_error, search_condition) result" where
  "decode_keyword v search =
     (let enabled = \<not> has_prefix v disabled_prefix;
          v1 = trim_prefix v disabled_prefix;
          case_sensitive = has_prefix v1 case_prefix;
          v2 = trim_prefix v1 case_prefix;
          found = search\<lparr>sc_enabled := enabled, sc_case_sensitive := case_sensitive\<rparr>
      in
      if length v2 \<ge> 13 \<and> has_prefix v2 duration_prefix \<and> v2 ! 12 = closing_brace then
        (case decimal_value (slice 4 12 v2) of
           None \<Rightarrow> Inl (rule_failure Malformed ''automatic-duration-prefix'' 0)
         | Some number \<Rightarrow>
             Inr (found\<lparr>sc_keyword := drop 13 v2, sc_minimum_minutes := of_nat (number div 10000),
               sc_maximum_minutes := of_nat (number mod 10000)\<rparr>))
      else Inr (found\<lparr>sc_keyword := v2\<rparr>))"

definition wire_keyword :: "search_condition \<Rightarrow> bytes" where
  "wire_keyword search =
     (if \<not> sc_enabled search then disabled_prefix else []) @
     (if sc_case_sensitive search then case_prefix else []) @
     (if sc_minimum_minutes search > 0 \<or> sc_maximum_minutes search > 0
      then duration_prefix @ zero_pad 8 (decimal (unat (sc_minimum_minutes search) * 10000 + unat (sc_maximum_minutes search))) @
        [closing_brace]
      else []) @
     sc_keyword search"

section \<open>Reading a rule\<close>

text \<open>An error of a reader that is replaced by another one.\<close>

definition read_as :: "codec_error \<Rightarrow> 'a read \<Rightarrow> 'a read" where
  "read_as e m r = (case m r of (Inl _, r') \<Rightarrow> (Inl e, r') | (Inr x, r') \<Rightarrow> (Inr x, r'))"

definition bool32 :: "i32 \<Rightarrow> bool" where
  "bool32 v \<longleftrightarrow> v = 0 \<or> v = 1"

text \<open>A byte that is 0 or 1; every other one, and a failure, is the error of the given reason.\<close>

definition read_bool_byte :: "string \<Rightarrow> bool read" where
  "read_bool_byte reason =
     read_bind (read_as (rule_failure Malformed reason 0) read_u8) (\<lambda>v.
       if v > 1 then read_fail (rule_failure Malformed reason (uint v)) else read_return (v = 1))"

definition read_content :: "content_range read" where
  "read_content =
     read_bind read_u16 (\<lambda>content.
     read_bind read_u16 (\<lambda>user.
       read_return \<lparr>ct_content = content, ct_user = user\<rparr>))"

definition read_date :: "date_range read" where
  "read_date =
     read_bind read_u8 (\<lambda>start_day.
     read_bind read_u16 (\<lambda>start_hour.
     read_bind read_u16 (\<lambda>start_minute.
     read_bind read_u8 (\<lambda>end_day.
     read_bind read_u16 (\<lambda>end_hour.
     read_bind read_u16 (\<lambda>end_minute.
       read_return \<lparr>dr_start_day = start_day, dr_end_day = end_day, dr_start_hour = start_hour, dr_end_hour = end_hour,
         dr_start_minute = start_minute, dr_end_minute = end_minute\<rparr>))))))"

definition unpack_service :: "i64 \<Rightarrow> service_range" where
  "unpack_service packed =
     \<lparr>sv_network_id = ucast (drop_bit 32 packed), sv_transport_stream_id = ucast (drop_bit 16 packed), sv_service_id = ucast packed\<rparr>"

definition read_service :: "service_range read" where
  "read_service =
     read_bind (read_as (rule_failure Malformed ''automatic-service'' 0) read_i64) (\<lambda>packed.
       if sint packed < 0 \<or> drop_bit 48 packed \<noteq> 0
       then read_fail (rule_failure Malformed ''automatic-service'' (sint packed))
       else read_return (unpack_service packed))"

definition read_u16_vector :: "int \<Rightarrow> u16 list read" where
  "read_u16_vector maximum = read_vector 2 maximum (Some (\<lambda>_. read_u16))"

definition read_search_byte :: "int \<Rightarrow> byte read" where
  "read_search_byte index =
     read_bind (read_as (rule_failure Malformed ''automatic-search-byte'' 0) read_u8) (\<lambda>v.
       if v > 1 \<and> index < 4 then read_fail (rule_failure Malformed ''automatic-search-byte'' (uint v)) else read_return v)"

definition empty_search :: search_condition where
  "empty_search =
     \<lparr>sc_enabled = False, sc_case_sensitive = False, sc_regex = False, sc_title_only = False, sc_fuzzy = False, sc_keyword = [],
      sc_exclude = [], sc_contents = [], sc_dates = [], sc_services = [], sc_video = [], sc_audio = [], sc_exclude_contents = False,
      sc_exclude_dates = False, sc_free_access = 0, sc_check_recorded_title = False, sc_check_recorded_all_services = False,
      sc_check_recorded_days = 0, sc_minimum_minutes = 0, sc_maximum_minutes = 0\<rparr>"

definition all_services_offset :: u16 where "all_services_offset = 40000"

definition read_search_fields :: "search_condition read" where
  "read_search_fields =
     read_bind read_string (\<lambda>keyword.
     read_bind (lift_result (decode_keyword keyword empty_search)) (\<lambda>search.
     read_bind read_string (\<lambda>exclude.
     read_bind read_i32 (\<lambda>regex.
     read_bind (read_as (rule_failure Malformed ''automatic-search-flag'' (sint regex)) read_i32) (\<lambda>title.
       if \<not> bool32 regex \<or> \<not> bool32 title then read_fail (rule_failure Malformed ''automatic-search-flag'' (sint regex))
       else
     read_bind (read_vector 8 256 (Some (\<lambda>_. read_structure (Some read_content)))) (\<lambda>contents.
     read_bind (read_vector 14 64 (Some (\<lambda>_. read_structure (Some read_date)))) (\<lambda>dates.
     read_bind (read_vector 8 4096 (Some (\<lambda>_. read_service))) (\<lambda>services.
     read_bind (read_u16_vector 256) (\<lambda>video.
     read_bind (read_u16_vector 256) (\<lambda>audio.
     read_bind (read_search_byte 0) (\<lambda>fuzzy.
     read_bind (read_search_byte 1) (\<lambda>exclude_contents.
     read_bind (read_search_byte 2) (\<lambda>exclude_dates.
     read_bind (read_search_byte 3) (\<lambda>free_access.
     read_bind (read_search_byte 4) (\<lambda>recorded_title.
       if free_access > 2 \<or> recorded_title > 1
       then read_fail (rule_failure Malformed ''automatic-search-byte'' (uint free_access))
       else
     read_bind read_u16 (\<lambda>days.
       let all_services = days \<ge> all_services_offset in
       read_return (search\<lparr>sc_exclude := exclude, sc_regex := (regex = 1), sc_title_only := (title = 1), sc_contents := contents,
         sc_dates := dates, sc_services := services, sc_video := video, sc_audio := audio, sc_fuzzy := (fuzzy = 1),
         sc_exclude_contents := (exclude_contents = 1), sc_exclude_dates := (exclude_dates = 1), sc_free_access := free_access,
         sc_check_recorded_title := (recorded_title = 1), sc_check_recorded_all_services := all_services,
         sc_check_recorded_days := (if all_services then days - all_services_offset else days)\<rparr>)))))))))))))))))"

definition read_rule_folder :: "folder read" where
  "read_rule_folder =
     read_bind read_string (\<lambda>path.
     read_bind read_string (\<lambda>writer.
     read_bind read_string (\<lambda>name.
     read_bind (read_as (rule_failure Malformed ''automatic-folder-reserved'' 0) read_string) (\<lambda>reserved.
       if reserved \<noteq> [] then read_fail (rule_failure Malformed ''automatic-folder-reserved'' (int (length reserved)))
       else read_return \<lparr>fo_path = path, fo_writer = writer, fo_name = name\<rparr>))))"

definition read_rule_folders :: "folder list read" where
  "read_rule_folders = read_vector 28 16 (Some (\<lambda>_. read_structure (Some read_rule_folder)))"

definition read_recording_fields :: "recording_settings read" where
  "read_recording_fields =
     read_bind read_u8 (\<lambda>mode.
     read_bind read_u8 (\<lambda>priority.
     read_bind (read_bool_byte ''automatic-recording-follow'') (\<lambda>follow.
     read_bind read_u32 (\<lambda>service_mode.
     read_bind (read_bool_byte ''automatic-recording-exact'') (\<lambda>exact_mode.
     read_bind read_string (\<lambda>batch.
     read_bind read_rule_folders (\<lambda>folders.
     read_bind read_u8 (\<lambda>suspend.
     read_bind (read_bool_byte ''automatic-recording-reboot'') (\<lambda>reboot.
     read_bind (read_bool_byte ''automatic-recording-margin'') (\<lambda>use_margins.
     read_bind read_i32 (\<lambda>start.
     read_bind read_i32 (\<lambda>stop.
     read_bind (read_bool_byte ''automatic-recording-continue'') (\<lambda>continued.
     read_bind read_u8 (\<lambda>partial_mode.
     read_bind read_u32 (\<lambda>tuner.
     read_bind read_rule_folders (\<lambda>partial_folders.
       read_return
         \<lparr>rs_mode = mode, rs_priority = priority, rs_suspend = suspend, rs_partial_mode = partial_mode, rs_follow = follow,
          rs_exact = exact_mode, rs_reboot = reboot, rs_continue = continued, rs_service_mode = service_mode, rs_tuner_id = tuner,
          rs_batch = batch, rs_folders = folders, rs_partial_folders = partial_folders,
          rs_start_margin = (if use_margins then Some (sint start) else None),
          rs_end_margin = (if use_margins then Some (sint stop) else None)\<rparr>))))))))))))))))"

definition read_rule_fields :: "rule read" where
  "read_rule_fields =
     read_bind read_i32 (\<lambda>number.
     read_bind (read_structure (Some read_search_fields)) (\<lambda>search.
     read_bind (read_structure (Some read_recording_fields)) (\<lambda>recording.
     read_bind (read_as (rule_failure Malformed ''automatic-reservation-count'' 0) read_i32) (\<lambda>count.
       if sint count < 0 then read_fail (rule_failure Malformed ''automatic-reservation-count'' (sint count))
       else read_return
         \<lparr>ru_id = 0, ru_number = sint number, ru_version = 0, ru_search = search, ru_recording = recording,
          ru_reservation_count = sint count, ru_created = 0, ru_updated = 0\<rparr>))))"

definition read_rule :: "rule read" where
  "read_rule = read_structure (Some read_rule_fields)"

definition rule_version :: u16 where "rule_version = 5"

text \<open>Both callers drop the error, so \<open>None\<close> stands for every one.  The new rule is checked under a number of its own.\<close>

definition decode_one_rule :: "bytes \<Rightarrow> limits \<Rightarrow> bool \<Rightarrow> rule option" where
  "decode_one_rule body given require_number =
     (case new_reader body given of
        Inl e \<Rightarrow> None
      | Inr r \<Rightarrow>
          (case read_bind read_u16 (\<lambda>version.
                  if version \<noteq> rule_version then read_fail (rule_failure Malformed ''automatic-rule-version'' (uint version))
                  else
                    read_bind (read_vector 1 1 (Some (\<lambda>_. read_rule))) (\<lambda>found.
                      if length found \<noteq> 1
                      then read_fail (rule_failure Malformed ''automatic-rule-value'' (int (length found)))
                      else read_bind exact (\<lambda>_. read_return (hd found)))) r of
             (Inl e, _) \<Rightarrow> None
           | (Inr found, _) \<Rightarrow>
               if \<not> require_number \<and> ru_number found \<noteq> 0 \<or>
                  require_number \<and> \<not> is_ok (validate_change (ru_number found) (ru_search found) (ru_recording found)) \<or>
                  \<not> require_number \<and> \<not> is_ok (validate_new_rule (found\<lparr>ru_id := push_bit 120 1, ru_version := 1\<rparr>))
               then None else Some found))"

section \<open>Sizes\<close>

definition search_size :: "search_condition \<Rightarrow> limits \<Rightarrow> (codec_error, int) result" where
  "search_size search given =
     result_bind (string_size (wire_keyword search) given) (\<lambda>keyword.
     result_bind (string_size (sc_exclude search) given) (\<lambda>exclude.
       Inr (4 + keyword + exclude + 8 + int (8 + length (sc_contents search) * 8) + int (8 + length (sc_dates search) * 14) +
         int (8 + length (sc_services search) * 8) + int (8 + length (sc_video search) * 2) +
         int (8 + length (sc_audio search) * 2) + 7)))"

definition rule_folder_values :: "folder \<Rightarrow> bytes list" where
  "rule_folder_values f = [fo_path f, fo_writer f, fo_name f, []]"

fun sum_folders :: "limits \<Rightarrow> int \<Rightarrow> folder list \<Rightarrow> (codec_error, int) result" where
  "sum_folders given amount [] = Inr amount"
| "sum_folders given amount (f # fs) =
     result_bind (sum_names given 4 (rule_folder_values f)) (\<lambda>item. sum_folders given (amount + item) fs)"

definition rule_folders_size :: "folder list \<Rightarrow> limits \<Rightarrow> (codec_error, int) result" where
  "rule_folders_size folders given = sum_folders given 8 folders"

definition recording_size :: "recording_settings \<Rightarrow> limits \<Rightarrow> (codec_error, int) result" where
  "recording_size settings given =
     result_bind (string_size (rs_batch settings) given) (\<lambda>batch.
     result_bind (rule_folders_size (rs_folders settings) given) (\<lambda>folders.
     result_bind (rule_folders_size (rs_partial_folders settings) given) (\<lambda>partial.
       Inr (4 + 3 + 4 + 1 + batch + folders + 3 + 8 + 2 + 4 + partial))))"

definition auto_add_size :: "rule \<Rightarrow> limits \<Rightarrow> (codec_error, int) result" where
  "auto_add_size r given =
     result_bind (search_size (ru_search r) given) (\<lambda>search.
     result_bind (recording_size (ru_recording r) given) (\<lambda>recording.
       Inr (4 + 4 + search + recording + 4)))"

section \<open>Writing a rule\<close>

definition bool_i32 :: "bool \<Rightarrow> i32" where
  "bool_i32 b = ucast (bool_byte b)"

text \<open>A vector of items of the same size.\<close>

definition write_items :: "('e, 'd) sink \<Rightarrow> nat \<Rightarrow> ('a \<Rightarrow> ('e, 'd) write_op) \<Rightarrow> 'a list \<Rightarrow> ('e, 'd) write_op" where
  "write_items sink each put xs =
     write_in_turn
       (write_i32 sink (of_nat (8 + length xs * each)) # write_i32 sink (of_nat (length xs)) # map put xs)"

definition write_content :: "('e, 'd) sink \<Rightarrow> content_range \<Rightarrow> ('e, 'd) write_op" where
  "write_content sink c = write_in_turn [write_i32 sink 8, write_u16 sink (ct_content c), write_u16 sink (ct_user c)]"

definition write_date :: "('e, 'd) sink \<Rightarrow> date_range \<Rightarrow> ('e, 'd) write_op" where
  "write_date sink d =
     write_in_turn
       [write_i32 sink 14, write_u8 sink (dr_start_day d), write_u16 sink (dr_start_hour d), write_u16 sink (dr_start_minute d),
        write_u8 sink (dr_end_day d), write_u16 sink (dr_end_hour d), write_u16 sink (dr_end_minute d)]"

definition pack_service :: "service_range \<Rightarrow> i64" where
  "pack_service v =
     push_bit 32 (ucast (sv_network_id v)) OR push_bit 16 (ucast (sv_transport_stream_id v)) OR ucast (sv_service_id v)"

definition write_service_range :: "('e, 'd) sink \<Rightarrow> service_range \<Rightarrow> ('e, 'd) write_op" where
  "write_service_range sink v = write_i64 sink (pack_service v)"

definition write_u16_vector :: "('e, 'd) sink \<Rightarrow> u16 list \<Rightarrow> ('e, 'd) write_op" where
  "write_u16_vector sink vs = write_items sink 2 (write_u16 sink) vs"

definition wire_days :: "search_condition \<Rightarrow> u16" where
  "wire_days search =
     (if sc_check_recorded_all_services search then sc_check_recorded_days search + all_services_offset
      else sc_check_recorded_days search)"

definition write_search :: "('e, 'd) sink \<Rightarrow> limits \<Rightarrow> search_condition \<Rightarrow> ('e, 'd) write_op" where
  "write_search sink given search =
     write_sized (search_size search given) (\<lambda>amount.
       write_in_turn
         [write_i32 sink (of_int amount), write_string sink (wire_keyword search), write_string sink (sc_exclude search),
          write_i32 sink (bool_i32 (sc_regex search)), write_i32 sink (bool_i32 (sc_title_only search)),
          write_items sink 8 (write_content sink) (sc_contents search),
          write_items sink 14 (write_date sink) (sc_dates search),
          write_items sink 8 (write_service_range sink) (sc_services search),
          write_u16_vector sink (sc_video search), write_u16_vector sink (sc_audio search),
          write_u8 sink (bool_byte (sc_fuzzy search)), write_u8 sink (bool_byte (sc_exclude_contents search)),
          write_u8 sink (bool_byte (sc_exclude_dates search)), write_u8 sink (sc_free_access search),
          write_u8 sink (bool_byte (sc_check_recorded_title search)), write_u16 sink (wire_days search)])"

definition write_rule_folder :: "('e, 'd) sink \<Rightarrow> limits \<Rightarrow> folder \<Rightarrow> ('e, 'd) write_op" where
  "write_rule_folder sink given f =
     write_sized (rule_folders_size [f] given) (\<lambda>item.
       write_in_turn [write_i32 sink (of_int (item - 8)), write_strings sink (rule_folder_values f)])"

definition write_rule_folders :: "('e, 'd) sink \<Rightarrow> limits \<Rightarrow> folder list \<Rightarrow> ('e, 'd) write_op" where
  "write_rule_folders sink given folders =
     write_sized (rule_folders_size folders given) (\<lambda>amount.
       write_in_turn
         (write_i32 sink (of_int amount) # write_i32 sink (of_nat (length folders)) # map (write_rule_folder sink given) folders))"

definition write_recording :: "('e, 'd) sink \<Rightarrow> limits \<Rightarrow> recording_settings \<Rightarrow> ('e, 'd) write_op" where
  "write_recording sink given settings =
     write_sized (recording_size settings given) (\<lambda>amount.
       let (start, stop) = (case rs_start_margin settings of None \<Rightarrow> (0, 0) | Some start \<Rightarrow> (start, the (rs_end_margin settings))) in
       write_in_turn
         [write_i32 sink (of_int amount), write_u8 sink (rs_mode settings), write_u8 sink (rs_priority settings),
          write_u8 sink (bool_byte (rs_follow settings)), write_u32 sink (rs_service_mode settings),
          write_u8 sink (bool_byte (rs_exact settings)), write_string sink (rs_batch settings),
          write_rule_folders sink given (rs_folders settings), write_u8 sink (rs_suspend settings),
          write_u8 sink (bool_byte (rs_reboot settings)), write_u8 sink (bool_byte (rs_start_margin settings \<noteq> None)),
          write_i32 sink (of_int start), write_i32 sink (of_int stop), write_u8 sink (bool_byte (rs_continue settings)),
          write_u8 sink (rs_partial_mode settings), write_u32 sink (rs_tuner_id settings),
          write_rule_folders sink given (rs_partial_folders settings)])"

definition write_auto_add :: "('e, 'd) sink \<Rightarrow> limits \<Rightarrow> rule \<Rightarrow> ('e, 'd) write_op" where
  "write_auto_add sink given r =
     write_sized (auto_add_size r given) (\<lambda>amount.
       write_in_turn
         [write_i32 sink (of_int amount), write_i32 sink (of_int (ru_number r)), write_search sink given (ru_search r),
          write_recording sink given (ru_recording r), write_i32 sink (of_int (ru_reservation_count r))])"

section \<open>All rules\<close>

record 's rule_operations =
  ro_add :: "search_condition \<Rightarrow> recording_settings \<Rightarrow> 's \<Rightarrow> bool \<times> 's"
  ro_list :: "nat \<Rightarrow> int \<Rightarrow> 's \<Rightarrow> (rule list \<times> bool) \<times> 's"
  ro_change :: "int \<Rightarrow> search_condition \<Rightarrow> recording_settings \<Rightarrow> 's \<Rightarrow> bool \<times> 's"
  ro_delete :: "int \<Rightarrow> 's \<Rightarrow> bool \<times> 's"

definition max_rule_page :: nat where "max_rule_page = 128"

fun accept_page :: "rule list \<Rightarrow> int \<Rightarrow> rule list \<Rightarrow> (codec_error, rule list \<times> int) result" where
  "accept_page [] after rules = Inr (rules, after)"
| "accept_page (r # page) after rules =
     (if ru_number r \<le> after \<or> length rules = max_rules \<or> \<not> is_ok (validate_stored_rule r)
      then Inl (rule_failure Internal ''automatic-rule-source-invalid'' (ru_number r))
      else accept_page page (ru_number r) (rules @ [r]))"

text \<open>A second full page would exceed the limit of 128 rules, so two pages are enough.\<close>

definition pages_without_end :: codec_error where
  "pages_without_end = rule_failure Internal ''pages-without-end'' 0"

primrec all_rules_from ::
    "nat \<Rightarrow> (nat \<Rightarrow> bool) \<Rightarrow> 's rule_operations \<Rightarrow> int \<Rightarrow> rule list \<Rightarrow> 's \<times> nat \<Rightarrow> (codec_error, rule list) result \<times> 's \<times> nat" where
  "all_rules_from 0 live ops after rules st = (Inl pages_without_end, st)"
| "all_rules_from (Suc fuel) live ops after rules st =
     (case st of (s, n) \<Rightarrow>
        if \<not> live n then (Inl context_ended, (s, Suc n))
        else
          (case ro_list ops max_rule_page after s of
             ((page, ok), s') \<Rightarrow>
               if \<not> ok \<or> length page > max_rule_page
               then (Inl (rule_failure Internal ''automatic-rule-source-failed'' (int (length page))), (s', Suc n))
               else
                 case accept_page page after rules of
                   Inl e \<Rightarrow> (Inl e, (s', Suc n))
                 | Inr (rules', after') \<Rightarrow>
                     if length page < max_rule_page then (Inr rules', (s', Suc n))
                     else all_rules_from fuel live ops after' rules' (s', Suc n)))"

definition all_rules ::
    "(nat \<Rightarrow> bool) \<Rightarrow> 's rule_operations \<Rightarrow> 's \<Rightarrow> (codec_error, rule list) result \<times> 's \<times> nat" where
  "all_rules live ops s = all_rules_from 2 live ops 0 [] (s, 0)"

section \<open>The handlers\<close>

definition rule_success :: i32 where "rule_success = 1"
definition rule_refused :: i32 where "rule_refused = 0"

definition answer_refusal :: "(nat \<Rightarrow> bool) \<Rightarrow> ('e, 'd) sink \<Rightarrow> 'd \<times> 's \<Rightarrow> limits \<Rightarrow> ('e, 'd, 's) handled" where
  "answer_refusal live sink st given = answer_with live 0 sink st rule_refused 0 given (\<lambda>w. (None, w))"

definition answer_version :: "(nat \<Rightarrow> bool) \<Rightarrow> ('e, 'd) sink \<Rightarrow> 'd \<times> 's \<Rightarrow> limits \<Rightarrow> ('e, 'd, 's) handled" where
  "answer_version live sink st given =
     answer_with live 0 sink st rule_success 2 given (write_u16 (frame_target live sink) rule_version)"

fun rules_vector_size :: "limits \<Rightarrow> int \<Rightarrow> int \<Rightarrow> rule list \<Rightarrow> (codec_error, int) result" where
  "rules_vector_size given response_limit amount [] = Inr amount"
| "rules_vector_size given response_limit amount (r # rules) =
     (case auto_add_size r given of
        Inl e \<Rightarrow> Inl (rule_failure OverLimit ''automatic-rule-response'' 0)
      | Inr extent \<Rightarrow>
          if extent > response_limit - amount then Inl (rule_failure OverLimit ''automatic-rule-response'' extent)
          else rules_vector_size given response_limit (amount + extent) rules)"

definition response_limit :: "limits \<Rightarrow> int" where
  "response_limit given = (if lm_response_body given = 0 then lm_response_body default_limits else lm_response_body given)"

definition handle_rule_list ::
    "(nat \<Rightarrow> bool) \<Rightarrow> 's rule_operations \<Rightarrow> limits \<Rightarrow> bytes \<Rightarrow> ('e, 'd) sink \<Rightarrow> 'd \<times> 's \<Rightarrow> ('e, 'd, 's) handled" where
  "handle_rule_list live ops given body sink st =
     (case new_reader body given of
        Inl e \<Rightarrow> (Some (CodecError e), Some st)
      | Inr r \<Rightarrow>
          if (case read_bind read_u16 (\<lambda>version. read_bind exact (\<lambda>_. read_return version)) r of
                (Inl e, _) \<Rightarrow> True | (Inr version, _) \<Rightarrow> version \<noteq> rule_version)
          then answer_refusal live sink st given
          else
            (case all_rules live ops (snd st) of
               (Inl e, s', n') \<Rightarrow> (Some (CodecError e), Some (fst st, s'))
             | (Inr rules, s', n') \<Rightarrow>
                 (case rules_vector_size given (response_limit given) 8 rules of
                    Inl e \<Rightarrow> (Some (CodecError e), Some (fst st, s'))
                  | Inr amount \<Rightarrow>
                      answer_with live n' sink (fst st, s') rule_success (amount + 2) given
                        (write_in_turn
                          (write_u16 (frame_target live sink) rule_version # write_i32 (frame_target live sink) (of_int amount) #
                           write_i32 (frame_target live sink) (of_nat (length rules)) #
                           map (write_auto_add (frame_target live sink) given) rules)))))"

definition handle_rule_add ::
    "(nat \<Rightarrow> bool) \<Rightarrow> 's rule_operations \<Rightarrow> limits \<Rightarrow> bytes \<Rightarrow> ('e, 'd) sink \<Rightarrow> 'd \<times> 's \<Rightarrow> ('e, 'd, 's) handled" where
  "handle_rule_add live ops given body sink st =
     (case decode_one_rule body given False of
        None \<Rightarrow> answer_refusal live sink st given
      | Some r \<Rightarrow>
          (case ro_add ops (ru_search r) (ru_recording r) (snd st) of
             (False, s') \<Rightarrow> answer_refusal live sink (fst st, s') given
           | (True, s') \<Rightarrow> answer_version live sink (fst st, s') given))"

definition handle_rule_change ::
    "(nat \<Rightarrow> bool) \<Rightarrow> 's rule_operations \<Rightarrow> limits \<Rightarrow> bytes \<Rightarrow> ('e, 'd) sink \<Rightarrow> 'd \<times> 's \<Rightarrow> ('e, 'd, 's) handled" where
  "handle_rule_change live ops given body sink st =
     (case decode_one_rule body given True of
        None \<Rightarrow> answer_refusal live sink st given
      | Some r \<Rightarrow>
          (case ro_change ops (ru_number r) (ru_search r) (ru_recording r) (snd st) of
             (False, s') \<Rightarrow> answer_refusal live sink (fst st, s') given
           | (True, s') \<Rightarrow> answer_version live sink (fst st, s') given))"

definition handle_rule_delete ::
    "(nat \<Rightarrow> bool) \<Rightarrow> 's rule_operations \<Rightarrow> limits \<Rightarrow> bytes \<Rightarrow> ('e, 'd) sink \<Rightarrow> 'd \<times> 's \<Rightarrow> ('e, 'd, 's) handled" where
  "handle_rule_delete live ops given body sink st =
     (case new_reader body given of
        Inl e \<Rightarrow> (Some (CodecError e), Some st)
      | Inr r \<Rightarrow>
          (case read_vector 4 1 (Some (\<lambda>_. read_i32)) r of
             (Inl e, _) \<Rightarrow> answer_refusal live sink st given
           | (Inr found, r') \<Rightarrow>
               if length found \<noteq> 1 \<or> sint (hd found) < 1 \<or> fst (exact r') \<noteq> Inr () then answer_refusal live sink st given
               else
                 (case ro_delete ops (sint (hd found)) (snd st) of
                    (False, s') \<Rightarrow> answer_refusal live sink (fst st, s') given
                  | (True, s') \<Rightarrow> answer_with live 0 sink (fst st, s') rule_success 0 given (\<lambda>w. (None, w)))))"

definition command_rule_list :: i32 where "command_rule_list = 2131"
definition command_rule_add :: i32 where "command_rule_add = 2132"
definition command_rule_change :: i32 where "command_rule_change = 2134"
definition command_rule_delete :: i32 where "command_rule_delete = 1033"

text \<open>A missing context, destination or operation is \<open>None\<close>; the world is returned beside the destination.\<close>

definition handle_rules ::
    "(nat \<Rightarrow> bool) option \<Rightarrow> 's rule_operations option \<Rightarrow> limits \<Rightarrow> bytes \<Rightarrow> ('e, 'd) sink \<Rightarrow> 'd option \<Rightarrow> 's
      \<Rightarrow> 'e wire_error option \<times> ('d \<times> 's) option" where
  "handle_rules ctx operations given request sink destination s =
     (let untouched = map_option (\<lambda>d. (d, s)) destination in
      case parse_request_frame request given of
        Inl e \<Rightarrow> (Some (CodecError e), untouched)
      | Inr frame \<Rightarrow>
          (case (ctx, destination, operations) of
             (Some live, Some d, Some ops) \<Rightarrow>
               if fr_code frame = command_rule_list then handle_rule_list live ops given (fr_body frame) sink (d, s)
               else if fr_code frame = command_rule_add then handle_rule_add live ops given (fr_body frame) sink (d, s)
               else if fr_code frame = command_rule_change then handle_rule_change live ops given (fr_body frame) sink (d, s)
               else if fr_code frame = command_rule_delete then handle_rule_delete live ops given (fr_body frame) sink (d, s)
               else (Some (CodecError (rule_failure Unsupported ''command-out-of-profile'' (sint (fr_code frame)))), untouched)
           | _ \<Rightarrow> (Some (CodecError (rule_failure Internal ''missing-automatic-reservation-dependency'' 0)), untouched)))"

end
