(* ===== verification/RuleHandlerSpec.thy ===== *)
theory RuleHandlerSpec
  imports RuleHandler
begin

text \<open>
  What the handler of the automatic reservations writes: the bytes of a rule, the sizes that are announced before they are
  written, and the list of the rules, for every destination, context and source of rules.
\<close>

section \<open>The bytes of a rule\<close>

definition content_struct :: "content_range \<Rightarrow> bytes" where
  "content_struct c = structure_put (le_put 2 (ct_content c) @ le_put 2 (ct_user c))"

definition date_struct :: "date_range \<Rightarrow> bytes" where
  "date_struct d =
     structure_put ([dr_start_day d] @ le_put 2 (dr_start_hour d) @ le_put 2 (dr_start_minute d) @ [dr_end_day d] @
       le_put 2 (dr_end_hour d) @ le_put 2 (dr_end_minute d))"

definition search_parts :: "search_condition \<Rightarrow> bytes list" where
  "search_parts s =
     [string_bytes (wire_keyword s), string_bytes (sc_exclude s), le_put 4 (bool_i32 (sc_regex s)), le_put 4 (bool_i32 (sc_title_only s)),
      items_vector content_struct (sc_contents s), items_vector date_struct (sc_dates s),
      items_vector (\<lambda>v. le_put 8 (pack_service v)) (sc_services s), items_vector (le_put 2) (sc_video s),
      items_vector (le_put 2) (sc_audio s), [bool_byte (sc_fuzzy s)], [bool_byte (sc_exclude_contents s)],
      [bool_byte (sc_exclude_dates s)], [sc_free_access s], [bool_byte (sc_check_recorded_title s)], le_put 2 (wire_days s)]"

definition search_struct :: "search_condition \<Rightarrow> bytes" where
  "search_struct s = structure_put (concat (search_parts s))"

definition rule_folder_struct :: "folder \<Rightarrow> bytes" where
  "rule_folder_struct f = structure_put (concat (map string_bytes (rule_folder_values f)))"

definition margin_value :: "int option \<Rightarrow> i32" where
  "margin_value m = (case m of None \<Rightarrow> 0 | Some v \<Rightarrow> of_int v)"

definition recording_parts :: "recording_settings \<Rightarrow> bytes list" where
  "recording_parts g =
     [[rs_mode g], [rs_priority g], [bool_byte (rs_follow g)], le_put 4 (rs_service_mode g), [bool_byte (rs_exact g)],
      string_bytes (rs_batch g), items_vector rule_folder_struct (rs_folders g), [rs_suspend g], [bool_byte (rs_reboot g)],
      [bool_byte (rs_start_margin g \<noteq> None)], le_put 4 (margin_value (rs_start_margin g)),
      le_put 4 (if rs_start_margin g = None then 0 else of_int (the (rs_end_margin g)) :: i32), [bool_byte (rs_continue g)],
      [rs_partial_mode g], le_put 4 (rs_tuner_id g), items_vector rule_folder_struct (rs_partial_folders g)]"

definition recording_struct :: "recording_settings \<Rightarrow> bytes" where
  "recording_struct g = structure_put (concat (recording_parts g))"

definition rule_parts :: "rule \<Rightarrow> bytes list" where
  "rule_parts r =
     [le_put 4 (of_int (ru_number r) :: i32), search_struct (ru_search r), recording_struct (ru_recording r),
      le_put 4 (of_int (ru_reservation_count r) :: i32)]"

definition rule_struct :: "rule \<Rightarrow> bytes" where
  "rule_struct r = structure_put (concat (rule_parts r))"

section \<open>The sizes announced are the sizes written\<close>

lemma length_concat_same: "(\<And>x. length (put x) = n) \<Longrightarrow> length (concat (map put xs)) = length xs * n"
  by (induction xs) simp_all

lemma length_struct: "length (content_struct c) = 8" "length (date_struct d) = 14"
  by (simp_all add: content_struct_def date_struct_def)

lemma length_items_vector: "(\<And>x. length (put x) = n) \<Longrightarrow> length (items_vector put xs) = 8 + length xs * n"
  by (simp add: items_vector_def length_concat_same)

lemmas length_vectors = length_items_vector [of content_struct, OF length_struct(1)] length_items_vector [of date_struct, OF length_struct(2)]
  length_items_vector [of "\<lambda>v. le_put 8 (pack_service v)", OF length_le_put] length_items_vector [of "le_put 2", OF length_le_put]

lemma search_size_ok:
  assumes "search_size s given = Inr n"
  shows "n = int (length (search_struct s))"
  using assms
  by (auto simp: search_size_def search_struct_def search_parts_def result_bind_eq_Inr length_vectors dest!: string_size_length)

lemma sum_folders_ok:
  "sum_folders given amount fs = Inr n \<Longrightarrow> n = amount + int (length (concat (map rule_folder_struct fs)))"
proof (induction fs arbitrary: amount)
  case (Cons f fs)
  then obtain item where item: "sum_names given 4 (rule_folder_values f) = Inr item" "sum_folders given (amount + item) fs = Inr n"
    by (auto simp: result_bind_eq_Inr)
  show ?case using Cons.IH [OF item(2)] sum_names_ok [OF item(1)] by (simp add: rule_folder_struct_def)
qed simp

lemma rule_folders_size_ok:
  "rule_folders_size fs given = Inr n \<Longrightarrow> n = int (length (items_vector rule_folder_struct fs))"
  by (auto simp: rule_folders_size_def items_vector_def dest!: sum_folders_ok)

lemma recording_size_ok:
  assumes "recording_size g given = Inr n"
  shows "n = int (length (recording_struct g))"
  using assms
  by (auto simp: recording_size_def recording_struct_def recording_parts_def result_bind_eq_Inr
      dest!: string_size_length rule_folders_size_ok)

lemma auto_add_size_ok:
  assumes "auto_add_size r given = Inr n"
  shows "n = int (length (rule_struct r))"
  using assms
  by (auto simp: auto_add_size_def rule_struct_def rule_parts_def result_bind_eq_Inr dest!: search_size_ok recording_size_ok)

section \<open>Writing\<close>

lemma list_all2_map_same: "(\<And>x. x \<in> set xs \<Longrightarrow> P (f x) (g x)) \<Longrightarrow> list_all2 P (map f xs) (map g xs)"
  by (induction xs) simp_all

context byte_sink
begin

lemma emits_i64: "emits (write_i64 sink v) (le_put 8 v)"
  unfolding write_i64_def by (rule emits_all)

lemma emits_vector:
  assumes "\<And>x. emits (put x) (bs x)" "size_word = (of_nat (8 + length (concat (map bs xs))) :: i32)"
  shows "emits (write_in_turn (write_i32 sink size_word # write_i32 sink (of_nat (length xs)) # map put xs)) (items_vector bs xs)"
proof -
  have "emits (write_in_turn (write_i32 sink size_word # write_i32 sink (of_nat (length xs)) # map put xs))
      (concat (le_put 4 size_word # le_put 4 (of_nat (length xs) :: i32) # map bs xs))"
    by (rule emits_in_turn) (simp add: emits_basic list_all2_map_same assms(1))
  then show ?thesis by (simp add: items_vector_def vector_put_def assms(2))
qed

lemma emits_items:
  assumes "\<And>x. emits (put x) (bs x)" "\<And>x. length (bs x) = each"
  shows "emits (write_items sink each put xs) (items_vector bs xs)"
  unfolding write_items_def by (rule emits_vector) (simp_all add: assms length_concat_same [OF assms(2)])

lemma emits_parts:
  assumes "list_all2 emits ms bss" "as = concat bss"
  shows "emits (write_in_turn ms) as"
  using emits_in_turn [OF assms(1)] assms(2) by simp

lemma emits_content: "emits (write_content sink c) (content_struct c)"
  unfolding write_content_def
  by (rule emits_parts [where bss = "[le_put 4 (8 :: i32), le_put 2 (ct_content c), le_put 2 (ct_user c)]"])
    (simp_all add: emits_basic content_struct_def structure_put_def)

lemma emits_date: "emits (write_date sink d) (date_struct d)"
  unfolding write_date_def
  by (rule emits_parts [where bss = "[le_put 4 (14 :: i32), [dr_start_day d], le_put 2 (dr_start_hour d), le_put 2 (dr_start_minute d),
        [dr_end_day d], le_put 2 (dr_end_hour d), le_put 2 (dr_end_minute d)]"])
    (simp_all add: emits_basic date_struct_def structure_put_def)

lemmas emits_vectors = emits_items [OF emits_content length_struct(1)] emits_items [OF emits_date length_struct(2)]
  emits_items [OF emits_i64 length_le_put, of pack_service, folded write_service_range_def] emits_items [OF emits_u16 length_le_put]

lemma emits_search: "emits (write_search sink given s) (search_struct s)"
  unfolding write_search_def
proof (rule emits_sized)
  fix amount assume "search_size s given = Inr amount"
  from search_size_ok [OF this] have "search_struct s = concat (le_put 4 (of_int amount :: i32) # search_parts s)"
    by (simp add: search_struct_def structure_put_def)
  then show "emits (write_in_turn
         [write_i32 sink (of_int amount), write_string sink (wire_keyword s), write_string sink (sc_exclude s),
          write_i32 sink (bool_i32 (sc_regex s)), write_i32 sink (bool_i32 (sc_title_only s)),
          write_items sink 8 (write_content sink) (sc_contents s), write_items sink 14 (write_date sink) (sc_dates s),
          write_items sink 8 (write_service_range sink) (sc_services s),
          write_u16_vector sink (sc_video s), write_u16_vector sink (sc_audio s),
          write_u8 sink (bool_byte (sc_fuzzy s)), write_u8 sink (bool_byte (sc_exclude_contents s)),
          write_u8 sink (bool_byte (sc_exclude_dates s)), write_u8 sink (sc_free_access s),
          write_u8 sink (bool_byte (sc_check_recorded_title s)), write_u16 sink (wire_days s)]) (search_struct s)"
    by (rule emits_parts [rotated]) (simp add: search_parts_def emits_basic emits_vectors write_u16_vector_def)
qed

lemma emits_rule_folder: "emits (write_rule_folder sink given f) (rule_folder_struct f)"
  unfolding write_rule_folder_def
proof (rule emits_sized)
  fix item assume "rule_folders_size [f] given = Inr item"
  from rule_folders_size_ok [OF this] have "rule_folder_struct f = concat [le_put 4 (of_int (item - 8) :: i32), concat (map string_bytes (rule_folder_values f))]"
    by (simp add: items_vector_def) (simp add: rule_folder_struct_def structure_put_def)
  then show "emits (write_in_turn [write_i32 sink (of_int (item - 8)), write_strings sink (rule_folder_values f)]) (rule_folder_struct f)"
    by (rule emits_parts [rotated]) (simp add: emits_basic)
qed

lemma emits_rule_folders: "emits (write_rule_folders sink given fs) (items_vector rule_folder_struct fs)"
  unfolding write_rule_folders_def
  by (rule emits_sized, rule emits_vector)
    (auto simp: emits_rule_folder items_vector_def dest!: rule_folders_size_ok)

lemma emits_recording: "emits (write_recording sink given g) (recording_struct g)"
  unfolding write_recording_def
proof (rule emits_sized)
  fix amount assume "recording_size g given = Inr amount"
  from recording_size_ok [OF this] have bytes: "recording_struct g = concat (le_put 4 (of_int amount :: i32) # recording_parts g)"
    by (simp add: recording_struct_def structure_put_def)
  show "emits (let (start, stop) = (case rs_start_margin g of None \<Rightarrow> (0, 0) | Some start \<Rightarrow> (start, the (rs_end_margin g))) in
       write_in_turn
         [write_i32 sink (of_int amount), write_u8 sink (rs_mode g), write_u8 sink (rs_priority g),
          write_u8 sink (bool_byte (rs_follow g)), write_u32 sink (rs_service_mode g),
          write_u8 sink (bool_byte (rs_exact g)), write_string sink (rs_batch g),
          write_rule_folders sink given (rs_folders g), write_u8 sink (rs_suspend g),
          write_u8 sink (bool_byte (rs_reboot g)), write_u8 sink (bool_byte (rs_start_margin g \<noteq> None)),
          write_i32 sink (of_int start), write_i32 sink (of_int stop), write_u8 sink (bool_byte (rs_continue g)),
          write_u8 sink (rs_partial_mode g), write_u32 sink (rs_tuner_id g),
          write_rule_folders sink given (rs_partial_folders g)]) (recording_struct g)"
    unfolding bytes
    by (cases "rs_start_margin g")
      (simp_all only: Let_def option.case prod.case,
        (rule emits_parts [OF _ refl], simp add: recording_parts_def margin_value_def emits_basic emits_rule_folders emits_as [OF emits_i32])+)
qed

lemma emits_rule: "emits (write_auto_add sink given r) (rule_struct r)"
  unfolding write_auto_add_def
proof (rule emits_sized)
  fix amount assume "auto_add_size r given = Inr amount"
  from auto_add_size_ok [OF this] have "rule_struct r = concat (le_put 4 (of_int amount :: i32) # rule_parts r)"
    by (simp add: rule_struct_def structure_put_def)
  then show "emits (write_in_turn
         [write_i32 sink (of_int amount), write_i32 sink (of_int (ru_number r)), write_search sink given (ru_search r),
          write_recording sink given (ru_recording r), write_i32 sink (of_int (ru_reservation_count r))]) (rule_struct r)"
    by (rule emits_parts [rotated]) (simp add: rule_parts_def emits_basic emits_search emits_recording)
qed

end

section \<open>The list\<close>

text \<open>The rules that a list holds: valid, in the order of their numbers, and at most 128.\<close>

definition rules_in_order :: "int \<Rightarrow> rule list \<Rightarrow> bool" where
  "rules_in_order after rules \<longleftrightarrow>
     sorted_wrt (<) (map ru_number rules) \<and> list_all (\<lambda>r. ru_number r \<le> after \<and> validate_stored_rule r = Inr ()) rules \<and>
     length rules \<le> max_rules"

lemma accept_page_in_order:
  "accept_page page after rules = Inr (rules', after') \<Longrightarrow> rules_in_order after rules \<Longrightarrow>
   rules' = rules @ page \<and> rules_in_order after' rules' \<and> after \<le> after'"
proof (induction page arbitrary: after rules)
  case (Cons r page)
  then have r: "after < ru_number r" "length rules < max_rules" "validate_stored_rule r = Inr ()"
    and rest: "accept_page page (ru_number r) (rules @ [r]) = Inr (rules', after')"
    by (auto simp: rules_in_order_def is_ok_def split: if_splits sum.splits)
  have "rules_in_order (ru_number r) (rules @ [r])"
    using r Cons.prems(2) by (fastforce simp: rules_in_order_def sorted_wrt_append list_all_iff)
  from Cons.IH [OF rest this] r(1) show ?case by auto
qed simp

lemma all_rules_from_in_order:
  assumes "all_rules_from fuel live ops after rules st = (Inr rules', st')" "rules_in_order after rules"
  shows "\<exists>after'. rules_in_order after' rules'"
  using assms
proof (induction fuel arbitrary: after rules st)
  case (Suc fuel)
  obtain s n where st: "st = (s, n)" by (cases st)
  obtain page ok s1 where page: "ro_list ops max_rule_page after s = ((page, ok), s1)" by (metis surj_pair)
  from Suc.prems(1) obtain rules1 after1 where accepted: "accept_page page after rules = Inr (rules1, after1)"
    by (auto simp: st page split: if_splits sum.splits)
  note order = accept_page_in_order [OF accepted Suc.prems(2)]
  show ?case
    using Suc.prems(1) Suc.IH [of after1 rules1 "(s1, Suc n)"] order
    by (auto simp: st page accepted split: if_splits)
qed simp

text \<open>The second page is the last one, so the bound of two pages is never reached.\<close>

lemma accept_page_error: "accept_page page after rules \<noteq> Inl pages_without_end"
  by (induction page arbitrary: after rules) (auto simp: pages_without_end_def rule_failure_def)

lemma endless_round:
  assumes "fst (all_rules_from (Suc fuel) live ops after rules st) = Inl pages_without_end"
  shows "\<exists>page rules1 after1 st1. accept_page page after rules = Inr (rules1, after1) \<and> length page = max_rule_page \<and>
    fst (all_rules_from fuel live ops after1 rules1 st1) = Inl pages_without_end"
proof -
  obtain s n where st: "st = (s, n)" by (cases st)
  obtain page ok s1 where page: "ro_list ops max_rule_page after s = ((page, ok), s1)" by (metis surj_pair)
  have others: "context_ended \<noteq> pages_without_end"
    "rule_failure Internal ''automatic-rule-source-failed'' k \<noteq> pages_without_end" for k
    by (simp_all add: context_ended_def pages_without_end_def rule_failure_def failure_def channel_failure_def)
  then show ?thesis
    using assms accept_page_error [of page after rules]
    by (cases "accept_page page after rules") (fastforce simp: st page split: if_splits)+
qed

lemma all_rules_ends: "fst (all_rules live ops s) \<noteq> Inl pages_without_end"
proof
  assume "fst (all_rules live ops s) = Inl pages_without_end"
  then have "fst (all_rules_from (Suc (Suc 0)) live ops 0 [] (s, 0)) = Inl pages_without_end"
    by (simp only: all_rules_def numeral_2_eq_2)
  from endless_round [OF this] obtain page rules after st where one: "accept_page page 0 [] = Inr (rules, after)"
    "length page = max_rule_page" "fst (all_rules_from (Suc 0) live ops after rules st) = Inl pages_without_end" by blast
  from endless_round [OF one(3)] obtain page' rules' after' where two: "accept_page page' after rules = Inr (rules', after')"
    "length page' = max_rule_page" by blast
  have "rules_in_order 0 []" by (simp add: rules_in_order_def)
  from accept_page_in_order [OF one(1) this] have first: "rules = page" "rules_in_order after rules" by auto
  from accept_page_in_order [OF two(1) first(2)] have "length (page @ page') \<le> max_rules"
    using first(1) by (auto simp: rules_in_order_def)
  then show False using one(2) two(2) by (simp add: max_rules_def max_rule_page_def)
qed

lemma rules_vector_size_ok:
  "rules_vector_size given limit amount rules = Inr n \<Longrightarrow> n = amount + int (length (concat (map rule_struct rules)))"
  by (induction given limit amount rules rule: rules_vector_size.induct)
    (auto split: sum.splits if_splits dest!: auto_add_size_ok)

definition rules_body :: "rule list \<Rightarrow> bytes" where
  "rules_body rules = le_put 2 rule_version @ items_vector rule_struct rules"

context byte_sink
begin

lemma emits_rules_body:
  assumes "rules_vector_size given' limit 8 rules = Inr amount"
  shows "emits (write_in_turn
      (write_u16 sink rule_version # write_i32 sink (of_int amount) # write_i32 sink (of_nat (length rules)) #
       map (write_auto_add sink given) rules)) (rules_body rules)"
proof -
  have "(of_int amount :: i32) = of_nat (8 + length (concat (map rule_struct rules)))"
    using rules_vector_size_ok [OF assms] by simp
  from emits_vector [where put = "write_auto_add sink given", OF emits_rule this]
  have "emits (write_in_turn (write_i32 sink (of_int amount) # write_i32 sink (of_nat (length rules)) # map (write_auto_add sink given) rules))
      (items_vector rule_struct rules)" .
  with emits_then [OF emits_u16 this, of rule_version] show ?thesis by (simp add: rules_body_def)
qed

end

text \<open>
  Whatever the destination, the context and the source of the rules do, what the list leaves is nothing, or a prefix of an
  empty failure, or a prefix of one frame of exact size whose body has all rules of the source, valid and in order.
\<close>

theorem rule_list_exact:
  assumes "byte_sink sink contents legal" "legal d"
    and "handle_rule_list live ops given body sink (d, s) = (e, Some (d', s'))"
  shows "contents d' = contents d \<and> e \<noteq> None \<or>
    framed_bytes (contents d) (frame_header rule_refused 0) 0 [] e (contents d') \<or>
    (\<exists>rules after. fst (all_rules live ops s) = Inr rules \<and> rules_in_order after rules \<and>
       (let n = int (length (rules_body rules)) in
        framed_bytes (contents d) (frame_header rule_success n) n (rules_body rules) e (contents d')))"
proof -
  note beside = beside_sink [OF assms(1)]
  note target = byte_sink.bounded_context [OF beside]
  have legal: "legal (fst (d, x))" for x :: 'c using assms(2) by simp
  consider (bad) "e \<noteq> None" "d' = d" | (refused) "answer_refusal live sink (d, s) given = (e, Some (d', s'))"
    | (list) n' rules s1 amount where "all_rules live ops s = (Inr rules, s1, n')"
      "rules_vector_size given (response_limit given) 8 rules = Inr amount"
      "answer_with live n' sink (d, s1) rule_success (amount + 2) given
        (write_in_turn
          (write_u16 (frame_target live sink) rule_version # write_i32 (frame_target live sink) (of_int amount) #
           write_i32 (frame_target live sink) (of_nat (length rules)) #
           map (write_auto_add (frame_target live sink) given) rules)) = (e, Some (d', s'))"
    using assms(3) unfolding handle_rule_list_def
    by (auto split: if_splits sum.splits prod.splits simp del: write_in_turn.simps)
  then show ?thesis
  proof cases
    case bad
    then show ?thesis by simp
  next
    case refused
    then have "write_response live 0 (beside_world sink) (d, s) rule_refused 0 given (\<lambda>w. (None, w)) = (e, Some (d', s'))"
      unfolding answer_refusal_def answer_with_def .
    from byte_sink.write_response_emits [OF beside legal byte_sink.emits_skip [OF target] this]
    show ?thesis by simp
  next
    case list
    have "\<exists>after. rules_in_order after rules"
      using list(1) all_rules_from_in_order [of 2 live ops 0 "[]" "(s, 0)" rules "(s1, n')"]
      by (simp add: all_rules_def rules_in_order_def)
    moreover have "amount + 2 = int (length (rules_body rules))"
      using rules_vector_size_ok [OF list(2)] by (simp add: rules_body_def items_vector_def)
    moreover have "framed_bytes (contents (fst (d, s1))) (frame_header rule_success (amount + 2)) (amount + 2) (rules_body rules) e (contents (fst (d', s')))"
      using list(3) unfolding answer_with_def
      by (intro byte_sink.write_response_emits [OF beside legal byte_sink.emits_rules_body [OF target list(2)]])
    ultimately show ?thesis using list(1) by (auto simp: Let_def)
  qed
qed

end
