(* ===== verification/RuleRoundtrip.thy ===== *)
theory RuleRoundtrip
  imports RuleHandlerSpec
begin

text \<open>
  A rule that the list has written is read back by the request that changes rules, as long as its keyword is not taken for
  the prefixes that hold its flags; and the two cases in which the reader does not give back what the writer had.
\<close>

section \<open>Keywords\<close>

text \<open>A keyword that starts like a duration, and the keywords that stand behind the prefixes unambiguously.\<close>

definition duration_formed :: "bytes \<Rightarrow> bool" where
  "duration_formed v \<longleftrightarrow> length v \<ge> 13 \<and> has_prefix v duration_prefix \<and> v ! 12 = closing_brace"

definition keyword_plain :: "search_condition \<Rightarrow> bool" where
  "keyword_plain s \<longleftrightarrow>
     sc_minimum_minutes s \<le> 9999 \<and> sc_maximum_minutes s \<le> 9999 \<and>
     (sc_minimum_minutes s > 0 \<or> sc_maximum_minutes s > 0 \<or>
      \<not> duration_formed (sc_keyword s) \<and>
      (sc_case_sensitive s \<or> \<not> has_prefix (sc_keyword s) case_prefix \<and>
        (\<not> sc_enabled s \<or> \<not> has_prefix (sc_keyword s) disabled_prefix)))"

lemma has_prefix_append: "has_prefix (p @ v) p"
  by (simp add: has_prefix_def)

lemma trim_prefix_append: "trim_prefix (p @ v) p = v"
  by (simp add: trim_prefix_def has_prefix_append)

lemma trim_prefix_other: "\<not> has_prefix v p \<Longrightarrow> trim_prefix v p = v"
  by (simp add: trim_prefix_def)

lemma prefix_starts:
  "disabled_prefix = 94 # drop 1 disabled_prefix" "case_prefix = 67 # drop 1 case_prefix" "duration_prefix = 68 # drop 1 duration_prefix"
  by (simp_all add: disabled_prefix_def case_prefix_def duration_prefix_def ascii_def of_char_def)

lemma has_prefix_start: "p = b # p' \<Longrightarrow> has_prefix (a # v) p \<Longrightarrow> a = b"
  by (simp add: has_prefix_def)

lemma other_prefix:
  "\<not> has_prefix (case_prefix @ v) disabled_prefix" "\<not> has_prefix (duration_prefix @ v) disabled_prefix"
  "\<not> has_prefix (duration_prefix @ v) case_prefix"
  by (simp_all add: has_prefix_def disabled_prefix_def case_prefix_def duration_prefix_def ascii_def of_char_def)

text \<open>Numbers of eight digits.\<close>

definition decimal_step :: "byte \<Rightarrow> nat \<Rightarrow> nat" where
  "decimal_step b n = n * 10 + (unat b - 48)"

lemma fold_decimal: "fold decimal_step (decimal n) 0 = n"
proof (induction n rule: less_induct)
  case (less n)
  have one: "decimal_step (digit k) m = m * 10 + k" if "k < 10" for k m
  proof -
    have "unat (of_nat (48 + k) :: byte) = 48 + k" using that by (subst unat_of_nat) simp
    then show ?thesis using that by (simp add: decimal_step_def digit_def del: of_nat_add)
  qed
  show ?case
  proof (cases "n < 10")
    case True
    then show ?thesis unfolding decimal_def by (subst numerals.simps) (simp add: one)
  next
    case False
    then show ?thesis using less [of "n div 10"] one [of "n mod 10" "n div 10"]
      unfolding decimal_def by (subst numerals.simps) simp
  qed
qed

lemma decimal_value_padded: "decimal_value (zero_pad w (decimal n)) = Some n"
proof -
  have "fold decimal_step (replicate k 48) 0 = 0" for k by (induction k) (simp_all add: decimal_step_def)
  then have "fold decimal_step (zero_pad w (decimal n)) 0 = n" by (simp add: zero_pad_def fold_decimal)
  moreover have "decimal_step = (\<lambda>b n. n * 10 + (unat b - 48))" by (intro ext) (simp add: decimal_step_def)
  moreover have "list_all (\<lambda>b. 48 \<le> b \<and> b \<le> 57) (zero_pad w (decimal n))"
    using zero_pad_set [of w "decimal n"] decimal_digits by (fastforce simp: list_all_iff)
  ultimately show ?thesis by (simp add: decimal_value_def zero_pad_nonempty)
qed

lemma length_duration: "n < 10 ^ 8 \<Longrightarrow> length (zero_pad 8 (decimal n)) = 8"
  using decimal_length [of n 8] by simp

text \<open>What follows the two flags is read as the minutes and the keyword.\<close>

lemma duration_back:
  assumes "n < 10 ^ 8" "text = duration_prefix @ zero_pad 8 (decimal n) @ [closing_brace] @ v"
  shows "13 \<le> length text" "has_prefix text duration_prefix" "text ! 12 = closing_brace" "slice 4 12 text = zero_pad 8 (decimal n)"
    "drop 13 text = v"
proof -
  have four: "length duration_prefix = 4" by (simp add: duration_prefix_def ascii_def)
  note eight = length_duration [OF assms(1)]
  show "13 \<le> length text" "has_prefix text duration_prefix" "text ! 12 = closing_brace" "slice 4 12 text = zero_pad 8 (decimal n)"
    "drop 13 text = v"
    using four eight unfolding assms(2) by (simp_all add: has_prefix_append nth_append slice_def)
qed

lemma minutes_back:
  fixes a b :: u16
  assumes "a \<le> 9999" "b \<le> 9999"
  shows "unat a * 10000 + unat b < 10 ^ 8" "of_nat ((unat a * 10000 + unat b) div 10000) = a" "of_nat ((unat a * 10000 + unat b) mod 10000) = b"
proof -
  have range: "unat a \<le> 9999" "unat b \<le> 9999" using assms by (simp_all add: word_le_nat_alt)
  then show "unat a * 10000 + unat b < 10 ^ 8" by simp
  have "(unat a * 10000 + unat b) div 10000 = unat a" "(unat a * 10000 + unat b) mod 10000 = unat b" using range by simp_all
  then show "of_nat ((unat a * 10000 + unat b) div 10000) = a" "of_nat ((unat a * 10000 + unat b) mod 10000) = b" by simp_all
qed

lemma keyword_back:
  assumes "keyword_plain s"
  shows "decode_keyword (wire_keyword s) blank =
    Inr (blank\<lparr>sc_enabled := sc_enabled s, sc_case_sensitive := sc_case_sensitive s, sc_keyword := sc_keyword s,
      sc_minimum_minutes := if sc_minimum_minutes s > 0 \<or> sc_maximum_minutes s > 0 then sc_minimum_minutes s else sc_minimum_minutes blank,
      sc_maximum_minutes := if sc_minimum_minutes s > 0 \<or> sc_maximum_minutes s > 0 then sc_maximum_minutes s else sc_maximum_minutes blank\<rparr>)"
proof -
  let ?n = "unat (sc_minimum_minutes s) * 10000 + unat (sc_maximum_minutes s)"
  let ?limited = "sc_minimum_minutes s > 0 \<or> sc_maximum_minutes s > 0"
  define rest where "rest = (if ?limited then duration_prefix @ zero_pad 8 (decimal ?n) @ [closing_brace] else []) @ sc_keyword s"
  define inner where "inner = (if sc_case_sensitive s then case_prefix else []) @ rest"
  have wire: "wire_keyword s = (if \<not> sc_enabled s then disabled_prefix else []) @ inner"
    by (simp add: wire_keyword_def inner_def rest_def)
  have "sc_enabled s \<Longrightarrow> \<not> has_prefix inner disabled_prefix"
    using assms other_prefix by (auto simp: keyword_plain_def inner_def rest_def)
  then have one: "has_prefix (wire_keyword s) disabled_prefix \<longleftrightarrow> \<not> sc_enabled s" "trim_prefix (wire_keyword s) disabled_prefix = inner"
    by (auto simp: wire has_prefix_append trim_prefix_append trim_prefix_other)
  have "\<not> sc_case_sensitive s \<Longrightarrow> \<not> has_prefix rest case_prefix"
    using assms other_prefix by (auto simp: keyword_plain_def rest_def)
  then have two: "has_prefix inner case_prefix \<longleftrightarrow> sc_case_sensitive s" "trim_prefix inner case_prefix = rest"
    by (auto simp: inner_def has_prefix_append trim_prefix_append trim_prefix_other)
  show ?thesis
  proof (cases ?limited)
    case True
    have range: "sc_minimum_minutes s \<le> 9999" "sc_maximum_minutes s \<le> 9999" using assms by (simp_all add: keyword_plain_def)
    have "rest = duration_prefix @ zero_pad 8 (decimal ?n) @ [closing_brace] @ sc_keyword s" using True by (simp add: rest_def)
    from duration_back [OF minutes_back(1) [OF range] this] minutes_back(2,3) [OF range] True
    show ?thesis by (simp add: decode_keyword_def one two decimal_value_padded Let_def)
  next
    case False
    then have "rest = sc_keyword s" "\<not> duration_formed rest" using assms by (auto simp: rest_def keyword_plain_def)
    with False show ?thesis by (simp add: decode_keyword_def one two Let_def duration_formed_def) (auto simp: duration_formed_def)
  qed
qed

section \<open>Services and days\<close>

lemma service_back:
  "drop_bit 48 (pack_service v) = 0" "\<not> sint (pack_service v) < 0" "unpack_service (pack_service v) = v"
proof -
  show top: "drop_bit 48 (pack_service v) = 0"
    by (rule bit_word_eqI) (auto simp: pack_service_def bit_simps dest: bit_imp_le_length)
  have "\<not> bit (pack_service v) 63" by (auto simp: pack_service_def bit_simps dest: bit_imp_le_length)
  then show "\<not> sint (pack_service v) < 0" using bit_last_iff [of "pack_service v"] by simp
  have "ucast (drop_bit 32 (pack_service v)) = sv_network_id v" "ucast (drop_bit 16 (pack_service v)) = sv_transport_stream_id v"
    "ucast (pack_service v) = sv_service_id v"
    by (rule bit_word_eqI; auto simp: pack_service_def bit_simps dest: bit_imp_le_length)+
  then show "unpack_service (pack_service v) = v" by (simp add: unpack_service_def)
qed

lemma days_back:
  assumes "sc_check_recorded_days s \<le> 9999"
  shows "wire_days s \<ge> all_services_offset \<longleftrightarrow> sc_check_recorded_all_services s"
    "(if sc_check_recorded_all_services s then wire_days s - all_services_offset else wire_days s) = sc_check_recorded_days s"
  using assms unfolding wire_days_def all_services_offset_def by (auto simp: word_le_nat_alt unat_word_ariths)

section \<open>Fields\<close>

lemma reads_as: "reads l d m bs c x \<Longrightarrow> reads l d (read_as e m) bs c x"
  by (auto simp: reads_def read_as_def)

lemma reads_else: "\<not> bad \<Longrightarrow> reads l d m bs c x \<Longrightarrow> reads l d (if bad then m' else m) bs c x"
  by simp

lemma reads_bool_byte: "reads l d (read_bool_byte reason) [bool_byte b] 1 b"
proof -
  have "reads l d (read_bool_byte reason) ([bool_byte b] @ []) (1 + 0) b"
    unfolding read_bool_byte_def
    by (rule reads_bind, rule reads_as, rule reads_u8) (cases b; simp add: bool_byte_def reads_return)
  then show ?thesis by simp
qed

lemma reads_search_byte: "v \<le> 1 \<or> 4 \<le> i \<Longrightarrow> reads l d (read_search_byte i) [v] 1 v"
proof -
  assume v: "v \<le> 1 \<or> 4 \<le> i"
  have "reads l d (read_search_byte i) ([v] @ []) (1 + 0) v"
    unfolding read_search_byte_def
    by (rule reads_bind, rule reads_as, rule reads_u8, rule reads_else, use v in auto) (rule reads_return)+
  then show ?thesis by simp
qed

lemmas reads_numbers = reads_u8 u16_codec.reads_get [OF TrueI] u32_codec.reads_get [OF TrueI] i32_codec.reads_get [OF TrueI]
  i64_codec.reads_get [OF TrueI]

lemma bool_byte_values: "bool_byte b \<le> 1" "\<not> bool_byte b > 1" "bool_byte b = 1 \<longleftrightarrow> b"
  by (simp_all add: bool_byte_def)

lemma bool_i32_values: "bool32 (bool_i32 b)" "bool_i32 b = 1 \<longleftrightarrow> b"
  by (simp_all add: bool_i32_def bool_byte_def bool32_def)

lemma reads_content:
  assumes "d < lm_depth l" "8 \<le> lm_structure_extent l"
  shows "reads l d (read_structure (Some read_content)) (content_struct c) 3 c"
proof -
  have "reads l (d + 1) read_content (le_put 2 (ct_content c) @ le_put 2 (ct_user c) @ []) (1 + (1 + 0))
      \<lparr>ct_content = ct_content c, ct_user = ct_user c\<rparr>"
    unfolding read_content_def by (rule reads_bind reads_numbers reads_return)+
  from reads_structure [OF this] assms show ?thesis by (cases c) (simp add: content_struct_def)
qed

lemma reads_date:
  assumes "d < lm_depth l" "14 \<le> lm_structure_extent l"
  shows "reads l d (read_structure (Some read_date)) (date_struct x) 7 x"
proof -
  have "reads l (d + 1) read_date ([dr_start_day x] @ le_put 2 (dr_start_hour x) @ le_put 2 (dr_start_minute x) @ [dr_end_day x] @
        le_put 2 (dr_end_hour x) @ le_put 2 (dr_end_minute x) @ []) (1 + (1 + (1 + (1 + (1 + (1 + 0))))))
      \<lparr>dr_start_day = dr_start_day x, dr_end_day = dr_end_day x, dr_start_hour = dr_start_hour x, dr_end_hour = dr_end_hour x,
       dr_start_minute = dr_start_minute x, dr_end_minute = dr_end_minute x\<rparr>"
    unfolding read_date_def by (rule reads_bind reads_numbers reads_return)+
  from reads_structure [OF this] assms show ?thesis by (cases x) (simp add: date_struct_def)
qed

lemma reads_service: "reads l d read_service (le_put 8 (pack_service v)) 1 v"
proof -
  have "reads l d read_service (le_put 8 (pack_service v) @ []) (1 + 0) v"
    unfolding read_service_def
    by (rule reads_bind, rule reads_as, rule reads_numbers, rule reads_else) (simp_all add: service_back reads_return)
  then show ?thesis by simp
qed

text \<open>The limits must leave room for a rule; every vector in it is smaller than the rule.\<close>

definition rule_room :: "limits \<Rightarrow> int \<Rightarrow> nat \<Rightarrow> bool" where
  "rule_room l d n \<longleftrightarrow> d < lm_depth l \<and> 4096 \<le> lm_vector_elements l \<and> int n \<le> lm_structure_extent l \<and> n < 2 ^ 31"

lemma rule_roomD:
  "rule_room l d n \<Longrightarrow> k \<le> n \<Longrightarrow> int k \<le> lm_structure_extent l" "rule_room l d n \<Longrightarrow> k \<le> n \<Longrightarrow> k < 2 ^ 31" "rule_room l d n \<Longrightarrow> d < lm_depth l"
  "rule_room l d n \<Longrightarrow> 4096 \<le> lm_vector_elements l"
  by (auto simp: rule_room_def)

lemma reads_items:
  assumes item: "\<And>x. x \<in> set xs \<Longrightarrow> reads l (d + 1) m (put x) c x" "\<And>x. x \<in> set xs \<Longrightarrow> minimum \<le> int (length (put x))"
    and room: "0 \<le> c" "rule_room l d n" "length (items_vector put xs) \<le> n" "1 \<le> minimum"
    and bound: "length xs \<le> bound" "1 \<le> bound" "bound \<le> 4096"
  shows "reads l d (read_vector minimum (int bound) (Some (\<lambda>_. m))) (items_vector put xs) (2 + int (length xs) * c) xs"
  by (rule reads_vector [OF item room(1)])
    (use rule_roomD(1,2) [OF room(2,3)] rule_roomD(3,4) [OF room(2)] room(4) bound in \<open>auto simp: vector_maximum_def\<close>)

lemma length_items_member: "x \<in> set xs \<Longrightarrow> length (put x) \<le> length (items_vector put xs)"
  by (induction xs) (auto simp: items_vector_def)

section \<open>The condition\<close>

lemma reads_search_fields:
  assumes keyword: "keyword_plain s" "sc_free_access s \<le> 1"
    and valid: "validate_values s settings = Inr ()"
    and texts: "string_fits l 0 (wire_keyword s)" "string_fits l 0 (sc_exclude s)"
    and room: "rule_room l (d + 1) (length (concat (search_parts s)))"
  shows "reads l d read_search_fields (concat (search_parts s))
    (20 + 3 * int (length (sc_contents s)) + 7 * int (length (sc_dates s)) + int (length (sc_services s)) +
      int (length (sc_video s)) + int (length (sc_audio s))) s"
proof -
  have counts: "length (sc_contents s) \<le> 256" "length (sc_dates s) \<le> 64" "length (sc_services s) \<le> 4096" "length (sc_video s) \<le> 256"
    "length (sc_audio s) \<le> 256" "sc_check_recorded_days s \<le> 9999"
    using valid by (auto simp: validate_values_def not_less split: if_splits)
  have depth: "rule_room l d (length (concat (search_parts s)))" "d + 1 < lm_depth l"
    using room by (auto simp: rule_room_def)
  have parts: "length (items_vector content_struct (sc_contents s)) \<le> length (concat (search_parts s))"
    "length (items_vector date_struct (sc_dates s)) \<le> length (concat (search_parts s))"
    "length (items_vector (\<lambda>v. le_put 8 (pack_service v)) (sc_services s)) \<le> length (concat (search_parts s))"
    "length (items_vector (le_put 2) (sc_video s)) \<le> length (concat (search_parts s))"
    "length (items_vector (le_put 2) (sc_audio s)) \<le> length (concat (search_parts s))"
    by (simp_all add: search_parts_def)
  have "2 * 22 \<le> length (concat (search_parts s))" by (simp add: search_parts_def items_vector_def length_string_bytes)
  then have extents: "14 \<le> lm_structure_extent l" using room by (simp add: rule_room_def)
  have vectors:
    "reads l d (read_vector 8 256 (Some (\<lambda>_. read_structure (Some read_content)))) (items_vector content_struct (sc_contents s))
      (2 + int (length (sc_contents s)) * 3) (sc_contents s)"
    "reads l d (read_vector 14 64 (Some (\<lambda>_. read_structure (Some read_date)))) (items_vector date_struct (sc_dates s))
      (2 + int (length (sc_dates s)) * 7) (sc_dates s)"
    "reads l d (read_vector 8 4096 (Some (\<lambda>_. read_service))) (items_vector (\<lambda>v. le_put 8 (pack_service v)) (sc_services s))
      (2 + int (length (sc_services s)) * 1) (sc_services s)"
    "reads l d (read_u16_vector 256) (items_vector (le_put 2) (sc_video s)) (2 + int (length (sc_video s)) * 1) (sc_video s)"
    "reads l d (read_u16_vector 256) (items_vector (le_put 2) (sc_audio s)) (2 + int (length (sc_audio s)) * 1) (sc_audio s)"
    using reads_items [of "sc_contents s" l d "read_structure (Some read_content)" content_struct 3 8 "length (concat (search_parts s))" 256]
      reads_items [of "sc_dates s" l d "read_structure (Some read_date)" date_struct 7 14 "length (concat (search_parts s))" 64]
      reads_items [of "sc_services s" l d read_service "\<lambda>v. le_put 8 (pack_service v)" 1 8 "length (concat (search_parts s))" 4096]
      reads_items [of "sc_video s" l d read_u16 "le_put 2" 1 2 "length (concat (search_parts s))" 256]
      reads_items [of "sc_audio s" l d read_u16 "le_put 2" 1 2 "length (concat (search_parts s))" 256]
      reads_content reads_date reads_service reads_numbers(2) parts counts depth extents length_struct
    by (simp_all add: read_u16_vector_def)
  have strings: "string_fits l d (wire_keyword s)" "string_fits l d (sc_exclude s)" using texts by (simp_all add: string_fits_depth [of l d])
  have bytes: "concat (search_parts s) =
      string_bytes (wire_keyword s) @ [] @ string_bytes (sc_exclude s) @ le_put 4 (bool_i32 (sc_regex s)) @ le_put 4 (bool_i32 (sc_title_only s)) @
      items_vector content_struct (sc_contents s) @ items_vector date_struct (sc_dates s) @
      items_vector (\<lambda>v. le_put 8 (pack_service v)) (sc_services s) @ items_vector (le_put 2) (sc_video s) @
      items_vector (le_put 2) (sc_audio s) @ [bool_byte (sc_fuzzy s)] @ [bool_byte (sc_exclude_contents s)] @
      [bool_byte (sc_exclude_dates s)] @ [sc_free_access s] @ [bool_byte (sc_check_recorded_title s)] @ le_put 2 (wire_days s) @ []"
    by (simp add: search_parts_def)
  have free: "\<not> (sc_free_access s > 2 \<or> bool_byte (sc_check_recorded_title s) > 1)"
    using keyword(2) by (simp add: bool_byte_values) unat_arith
  have flags: "\<not> (\<not> bool32 (bool_i32 (sc_regex s)) \<or> \<not> bool32 (bool_i32 (sc_title_only s)))" by (simp add: bool_i32_values)
  let ?key = "empty_search\<lparr>sc_enabled := sc_enabled s, sc_case_sensitive := sc_case_sensitive s, sc_keyword := sc_keyword s,
      sc_minimum_minutes := sc_minimum_minutes s, sc_maximum_minutes := sc_maximum_minutes s\<rparr>"
  have "decode_keyword (wire_keyword s) empty_search = Inr ?key"
    using keyword_back [OF keyword(1), of empty_search] by (auto simp: empty_search_def word_gt_0)
  then have key: "reads l d (lift_result (decode_keyword (wire_keyword s) empty_search)) [] 0 ?key" by (simp add: reads_lift)
  note step = string_codec.reads_get [OF strings(1)] string_codec.reads_get [OF strings(2)] reads_as [OF reads_numbers(4)] reads_numbers
    vectors reads_search_byte [OF disjI1 [OF bool_byte_values(1)]] reads_search_byte [OF disjI1 [OF keyword(2)]]
  have result: "?key\<lparr>sc_exclude := sc_exclude s, sc_regex := sc_regex s, sc_title_only := sc_title_only s, sc_contents := sc_contents s,
         sc_dates := sc_dates s, sc_services := sc_services s, sc_video := sc_video s, sc_audio := sc_audio s, sc_fuzzy := sc_fuzzy s,
         sc_exclude_contents := sc_exclude_contents s, sc_exclude_dates := sc_exclude_dates s, sc_free_access := sc_free_access s,
         sc_check_recorded_title := sc_check_recorded_title s, sc_check_recorded_all_services := sc_check_recorded_all_services s,
         sc_check_recorded_days := sc_check_recorded_days s\<rparr> = s"
    by (cases s) (simp add: empty_search_def)
  have "reads l d read_search_fields (concat (search_parts s))
      (1 + (0 + (1 + (1 + (1 + ((2 + int (length (sc_contents s)) * 3) + ((2 + int (length (sc_dates s)) * 7) +
        ((2 + int (length (sc_services s)) * 1) + ((2 + int (length (sc_video s)) * 1) + ((2 + int (length (sc_audio s)) * 1) +
        (1 + (1 + (1 + (1 + (1 + (1 + 0)))))))))))))))) s"
    unfolding read_search_fields_def bytes
    by (rule reads_bind, rule step, rule reads_bind, rule key, (rule reads_bind, rule step)+, rule reads_else [OF flags],
        (rule reads_bind, rule step)+, rule reads_else [OF free], (rule reads_bind, rule step)+)
      (simp only: Let_def bool_i32_values bool_byte_values days_back [OF counts(6)] result reads_return)
  then show ?thesis by (simp add: algebra_simps)
qed

section \<open>The settings and the rule\<close>

lemma reads_rule_folder:
  assumes "list_all (string_fits l 0) (rule_folder_values f)" "d < lm_depth l" "int (length (rule_folder_struct f)) \<le> lm_structure_extent l"
    "length (rule_folder_struct f) < 2 ^ 31"
  shows "reads l d (read_structure (Some read_rule_folder)) (rule_folder_struct f) 5 f"
proof -
  have fits: "string_fits l (d + 1) (fo_path f)" "string_fits l (d + 1) (fo_writer f)" "string_fits l (d + 1) (fo_name f)"
    "string_fits l (d + 1) []"
    using assms(1) by (simp_all add: rule_folder_values_def string_fits_depth [of l "d + 1"])
  note step = string_codec.reads_get [OF fits(1)] string_codec.reads_get [OF fits(2)] string_codec.reads_get [OF fits(3)]
    reads_as [OF string_codec.reads_get [OF fits(4)]]
  have eta: "\<lparr>fo_path = fo_path f, fo_writer = fo_writer f, fo_name = fo_name f\<rparr> = f" by (cases f) simp
  have "reads l (d + 1) read_rule_folder
      (string_bytes (fo_path f) @ string_bytes (fo_writer f) @ string_bytes (fo_name f) @ string_bytes [] @ []) (1 + (1 + (1 + (1 + 0)))) f"
    unfolding read_rule_folder_def
    by (rule reads_bind, rule step)+ (simp add: eta reads_return)
  from reads_structure [OF this] assms(2-) show ?thesis by (simp add: rule_folder_struct_def rule_folder_values_def)
qed

lemma length_rule_folder_struct: "28 \<le> length (rule_folder_struct f)"
  by (simp add: rule_folder_struct_def rule_folder_values_def length_string_bytes)

lemma reads_rule_folders:
  assumes "list_all (\<lambda>f. list_all (string_fits l 0) (rule_folder_values f)) fs" "length fs \<le> 16" "d + 1 < lm_depth l"
    "rule_room l d n" "length (items_vector rule_folder_struct fs) \<le> n"
  shows "reads l d read_rule_folders (items_vector rule_folder_struct fs) (2 + int (length fs) * 5) fs"
proof -
  have item: "reads l (d + 1) (read_structure (Some read_rule_folder)) (rule_folder_struct f) 5 f" if "f \<in> set fs" for f
  proof (rule reads_rule_folder)
    have "length (rule_folder_struct f) \<le> n" using length_items_member [OF that, of rule_folder_struct] assms(5) by simp
    then show "int (length (rule_folder_struct f)) \<le> lm_structure_extent l" "length (rule_folder_struct f) < 2 ^ 31"
      using rule_roomD(1,2) [OF assms(4)] by auto
  qed (use that assms in \<open>auto simp: list_all_iff\<close>)
  show ?thesis
    unfolding read_rule_folders_def
    using reads_items [of fs l d "read_structure (Some read_rule_folder)" rule_folder_struct 5 28 n 16]
      item length_rule_folder_struct assms by simp
qed

lemma margins_back:
  assumes "validate_values search g = Inr ()"
  shows "(if rs_start_margin g \<noteq> None then Some (sint (margin_value (rs_start_margin g))) else None) = rs_start_margin g"
    "(if rs_start_margin g \<noteq> None
      then Some (sint (if rs_start_margin g = None then 0 else of_int (the (rs_end_margin g)) :: i32)) else None) = rs_end_margin g"
proof -
  have again: "sint (of_int v :: i32) = v" if "-3600 \<le> v" "v \<le> 3600" for v :: int
    using that by (simp add: signed_of_int signed_take_bit_int_eq_self)
  have same: "(rs_start_margin g = None) = (rs_end_margin g = None)" and hour: "margins_in_hour g"
    using assms by (auto simp: validate_values_def split: if_splits)
  show "(if rs_start_margin g \<noteq> None then Some (sint (margin_value (rs_start_margin g))) else None) = rs_start_margin g"
    "(if rs_start_margin g \<noteq> None
      then Some (sint (if rs_start_margin g = None then 0 else of_int (the (rs_end_margin g)) :: i32)) else None) = rs_end_margin g"
    using same hour by (auto simp: margins_in_hour_def margin_value_def again split: option.splits)
qed

lemma reads_recording_fields:
  assumes valid: "validate_values search g = Inr ()"
    and texts: "string_fits l 0 (rs_batch g)" "list_all (\<lambda>f. list_all (string_fits l 0) (rule_folder_values f)) (rs_folders g)"
      "list_all (\<lambda>f. list_all (string_fits l 0) (rule_folder_values f)) (rs_partial_folders g)"
    and room: "rule_room l (d + 1) (length (concat (recording_parts g)))"
  shows "reads l d read_recording_fields (concat (recording_parts g))
    (18 + 5 * int (length (rs_folders g)) + 5 * int (length (rs_partial_folders g))) g"
proof -
  have counts: "length (rs_folders g) \<le> 16" "length (rs_partial_folders g) \<le> 16"
    using valid by (auto simp: validate_values_def not_less split: if_splits)
  have depth: "rule_room l d (length (concat (recording_parts g)))" "d + 1 < lm_depth l"
    using room by (auto simp: rule_room_def)
  have parts: "length (items_vector rule_folder_struct (rs_folders g)) \<le> length (concat (recording_parts g))"
    "length (items_vector rule_folder_struct (rs_partial_folders g)) \<le> length (concat (recording_parts g))"
    by (simp_all add: recording_parts_def)
  note folders = reads_rule_folders [OF texts(2) counts(1) depth(2,1) parts(1)] reads_rule_folders [OF texts(3) counts(2) depth(2,1) parts(2)]
  have batch: "string_fits l d (rs_batch g)" using texts(1) by (simp add: string_fits_depth [of l d])
  have bytes: "concat (recording_parts g) =
      [rs_mode g] @ [rs_priority g] @ [bool_byte (rs_follow g)] @ le_put 4 (rs_service_mode g) @ [bool_byte (rs_exact g)] @
      string_bytes (rs_batch g) @ items_vector rule_folder_struct (rs_folders g) @ [rs_suspend g] @ [bool_byte (rs_reboot g)] @
      [bool_byte (rs_start_margin g \<noteq> None)] @ le_put 4 (margin_value (rs_start_margin g)) @
      le_put 4 (if rs_start_margin g = None then 0 else of_int (the (rs_end_margin g)) :: i32) @ [bool_byte (rs_continue g)] @
      [rs_partial_mode g] @ le_put 4 (rs_tuner_id g) @ items_vector rule_folder_struct (rs_partial_folders g) @ []"
    by (simp add: recording_parts_def)
  have result: "\<lparr>rs_mode = rs_mode g, rs_priority = rs_priority g, rs_suspend = rs_suspend g, rs_partial_mode = rs_partial_mode g,
      rs_follow = rs_follow g, rs_exact = rs_exact g, rs_reboot = rs_reboot g, rs_continue = rs_continue g,
      rs_service_mode = rs_service_mode g, rs_tuner_id = rs_tuner_id g, rs_batch = rs_batch g, rs_folders = rs_folders g,
      rs_partial_folders = rs_partial_folders g, rs_start_margin = rs_start_margin g, rs_end_margin = rs_end_margin g\<rparr> = g"
    by (cases g) simp
  note step = reads_bool_byte reads_numbers string_codec.reads_get [OF batch] folders
  have "reads l d read_recording_fields (concat (recording_parts g))
      (1 + (1 + (1 + (1 + (1 + (1 + ((2 + int (length (rs_folders g)) * 5) + (1 + (1 + (1 + (1 + (1 + (1 + (1 + (1 +
        ((2 + int (length (rs_partial_folders g)) * 5) + 0)))))))))))))))) g"
    unfolding read_recording_fields_def bytes
    by (rule reads_bind, rule step)+ (simp only: margins_back [OF valid] result reads_return)
  then show ?thesis by (simp add: algebra_simps)
qed

text \<open>What the size of a rule has checked when it succeeds.\<close>

definition rule_texts_ok :: "limits \<Rightarrow> rule \<Rightarrow> bool" where
  "rule_texts_ok l r \<longleftrightarrow>
     string_fits l 0 (wire_keyword (ru_search r)) \<and> string_fits l 0 (sc_exclude (ru_search r)) \<and>
     string_fits l 0 (rs_batch (ru_recording r)) \<and>
     list_all (\<lambda>f. list_all (string_fits l 0) (rule_folder_values f)) (rs_folders (ru_recording r) @ rs_partial_folders (ru_recording r))"

lemma folders_fit:
  assumes "normalized given = Inr l"
  shows "sum_folders given amount fs = Inr n \<Longrightarrow> list_all (\<lambda>f. list_all (string_fits l 0) (rule_folder_values f)) fs"
  by (induction fs arbitrary: amount) (auto simp: result_bind_eq_Inr dest: sum_names_fit [OF assms])

lemma rule_size_texts:
  assumes "normalized given = Inr l" "auto_add_size r given = Inr n"
  shows "rule_texts_ok l r"
  using assms(2) string_size_fits [OF assms(1)] folders_fit [OF assms(1)]
  by (auto simp: auto_add_size_def search_size_def recording_size_def rule_folders_size_def result_bind_eq_Inr rule_texts_ok_def)

lemma reads_rule_fields:
  assumes stored: "validate_stored_rule r = Inr ()" "ru_number r < 2 ^ 31" "ru_reservation_count r < 2 ^ 31"
    and plain: "keyword_plain (ru_search r)" "sc_free_access (ru_search r) \<le> 1"
    and texts: "rule_texts_ok l r" and room: "rule_room l (d + 2) (length (concat (rule_parts r)))"
  shows "\<exists>c\<le>7000. reads l d read_rule_fields (concat (rule_parts r)) c (r\<lparr>ru_id := 0, ru_version := 0, ru_created := 0, ru_updated := 0\<rparr>)"
proof -
  let ?s = "ru_search r" and ?g = "ru_recording r"
  have valid: "validate_values ?s ?g = Inr ()" "1 \<le> ru_number r" "0 \<le> ru_reservation_count r"
    using stored(1) by (auto simp: validate_stored_rule_def split: if_splits)
  have again: "sint (of_int v :: i32) = v" if "0 \<le> v" "v < 2 ^ 31" for v :: int
    using that by (simp add: signed_of_int signed_take_bit_int_eq_self)
  have numbers: "sint (of_int (ru_number r) :: i32) = ru_number r" "sint (of_int (ru_reservation_count r) :: i32) = ru_reservation_count r"
    using again valid(2,3) stored(2,3) by simp_all
  have parts: "length (search_struct ?s) \<le> length (concat (rule_parts r))" "length (recording_struct ?g) \<le> length (concat (rule_parts r))"
    by (simp_all add: rule_parts_def)
  have depth: "d < lm_depth l" "rule_room l (d + 1 + 1) (length (concat (search_parts ?s)))" "rule_room l (d + 1 + 1) (length (concat (recording_parts ?g)))"
    using room parts by (auto simp: rule_room_def search_struct_def recording_struct_def)
  let ?cs = "20 + 3 * int (length (sc_contents ?s)) + 7 * int (length (sc_dates ?s)) + int (length (sc_services ?s)) +
      int (length (sc_video ?s)) + int (length (sc_audio ?s))"
  let ?cg = "18 + 5 * int (length (rs_folders ?g)) + 5 * int (length (rs_partial_folders ?g))"
  have "reads l (d + 1) read_search_fields (concat (search_parts ?s)) ?cs ?s"
    using reads_search_fields [OF plain valid(1), of l "d + 1"] texts depth(2) by (simp add: rule_texts_ok_def)
  from reads_structure [OF this depth(1)] rule_roomD(1,2) [OF room parts(1)]
  have search: "reads l d (read_structure (Some read_search_fields)) (search_struct ?s) (1 + ?cs) ?s" by (simp add: search_struct_def)
  have "reads l (d + 1) read_recording_fields (concat (recording_parts ?g)) ?cg ?g"
    using reads_recording_fields [OF valid(1), of l "d + 1"] texts depth(3) by (simp add: rule_texts_ok_def)
  from reads_structure [OF this depth(1)] rule_roomD(1,2) [OF room parts(2)]
  have recording: "reads l d (read_structure (Some read_recording_fields)) (recording_struct ?g) (1 + ?cg) ?g" by (simp add: recording_struct_def)
  have bytes: "concat (rule_parts r) =
      le_put 4 (of_int (ru_number r) :: i32) @ search_struct ?s @ recording_struct ?g @ le_put 4 (of_int (ru_reservation_count r) :: i32) @ []"
    by (simp add: rule_parts_def)
  have count: "\<not> ru_reservation_count r < 0" using valid(3) by simp
  have "reads l d read_rule_fields (concat (rule_parts r)) (1 + ((1 + ?cs) + ((1 + ?cg) + (1 + 0))))
      (r\<lparr>ru_id := 0, ru_version := 0, ru_created := 0, ru_updated := 0\<rparr>)"
    unfolding read_rule_fields_def bytes
    by (rule reads_bind, rule reads_numbers, rule reads_bind, rule search, rule reads_bind, rule recording, rule reads_bind, rule reads_as, rule reads_numbers)
      (cases r; use numbers count in \<open>simp add: reads_return\<close>)
  moreover have "1 + ((1 + ?cs) + ((1 + ?cg) + (1 + 0))) \<le> 7000"
    using valid(1) by (auto simp: validate_values_def not_less split: if_splits)
  ultimately show ?thesis by blast
qed

lemma decode_rule_struct:
  assumes norm: "normalized given = Inr l" and room: "6 \<le> lm_depth l" "4096 \<le> lm_vector_elements l" "10000 \<le> lm_logical_items l"
    and stored: "auto_add_size r given = Inr n" "validate_stored_rule r = Inr ()" "ru_number r < 2 ^ 31" "ru_reservation_count r < 2 ^ 31"
    and plain: "keyword_plain (ru_search r)" "sc_free_access (ru_search r) \<le> 1"
    and fits: "int (length (rule_struct r)) + 8 \<le> lm_structure_extent l"
  shows "decode_one_rule (le_put 2 rule_version @ vector_put 1 (rule_struct r)) given True =
    Some (r\<lparr>ru_id := 0, ru_version := 0, ru_created := 0, ru_updated := 0\<rparr>)"
proof -
  let ?body = "le_put 2 rule_version @ vector_put 1 (rule_struct r)" and ?r = "r\<lparr>ru_id := 0, ru_version := 0, ru_created := 0, ru_updated := 0\<rparr>"
  let ?start = "\<lparr>rd_data = ?body, rd_pos = 0, rd_depth = 0, rd_limits = l, rd_budget = lm_logical_items l\<rparr>"
  note bounds = normalized_bounds [OF norm]
  have "rule_room l 4 (length (concat (rule_parts r)))" using room fits bounds by (simp add: rule_room_def rule_struct_def)
  then obtain c where c: "c \<le> 7000" "reads l 2 read_rule_fields (concat (rule_parts r)) c ?r"
    using reads_rule_fields [OF stored(2-4) plain rule_size_texts [OF norm stored(1)], of 2] by auto
  have "reads l 1 read_rule (rule_struct r) (1 + c) ?r"
    unfolding rule_struct_def read_rule_def by (rule reads_structure) (use c(2) room fits bounds in \<open>simp_all add: rule_struct_def\<close>)
  then have vector_reads: "reads l 0 (read_vector 1 1 (Some (\<lambda>_. read_rule))) (vector_put 1 (rule_struct r)) (2 + (1 + c)) [?r]"
    using room fits bounds by (intro reads_vector_one) (simp_all add: rule_struct_def vector_maximum_def)
  have whole: "ahead ?start ?body" by (auto simp: ahead_def intro!: exI [of _ "[]"])
  from ahead_second [OF whole, of 1] have "ahead (advance 2 1 ?start) (vector_put 1 (rule_struct r))" by simp
  from readsD [OF vector_reads this] room c(1)
  have vector: "read_vector 1 1 (Some (\<lambda>_. read_rule)) (advance 2 1 ?start) =
      (Inr [?r], advance (length (vector_put 1 (rule_struct r))) (2 + (1 + c)) (advance 2 1 ?start))" by simp
  have version: "read_u16 ?start = (Inr rule_version, advance 2 1 ?start)"
    using readsD [OF u16_codec.reads_get [OF TrueI] ahead_first [OF whole], of l 0] room by simp
  have "validate_change (ru_number r) (ru_search r) (ru_recording r) = Inr ()"
    using stored(2) by (auto simp: validate_stored_rule_def validate_change_def split: if_splits)
  then show ?thesis
    using version vector norm by (simp add: decode_one_rule_def new_reader_def read_bind_def read_return_def exact_def)
qed

section \<open>Writing a rule to a buffer\<close>

lemma completes_i64: "completes l (write_i64 buffer_write v)"
  by (simp add: write_i64_def completes_all)

lemma completes_list:
  "list_all (completes l) ms \<Longrightarrow> (\<And>x. x \<in> set xs \<Longrightarrow> completes l (put x)) \<Longrightarrow> completes l (write_in_turn (ms @ map put xs))"
  by (rule completes_in_turn) (auto simp: list_all_iff)

lemma completes_items: "(\<And>x. completes l (put x)) \<Longrightarrow> completes l (write_items buffer_write each put xs)"
  unfolding write_items_def
  using completes_list [of l "[write_i32 buffer_write (of_nat (8 + length xs * each)), write_i32 buffer_write (of_nat (length xs))]" xs put]
  by (simp add: completes_numbers)

lemma completes_content: "completes l (write_content buffer_write c)"
  unfolding write_content_def by (rule completes_in_turn) (simp add: completes_numbers)

lemma completes_date: "completes l (write_date buffer_write x)"
  unfolding write_date_def by (rule completes_in_turn) (simp add: completes_numbers)

lemma completes_search:
  assumes norm: "normalized given = Inr l" and size: "search_size s given = Inr n"
  shows "completes l (write_search buffer_write given s)"
proof -
  obtain a b where texts: "string_size (wire_keyword s) given = Inr a" "string_size (sc_exclude s) given = Inr b"
    using size by (auto simp: search_size_def result_bind_eq_Inr)
  show ?thesis
    unfolding write_search_def
    by (rule completes_sized, rule size, rule completes_in_turn)
      (simp add: completes_numbers completes_string [OF norm texts(1)] completes_string [OF norm texts(2)] completes_items completes_content
        completes_date completes_i64 write_service_range_def write_u16_vector_def del: write_in_turn.simps)
qed

lemma sum_folders_member:
  "sum_folders given amount fs = Inr n \<Longrightarrow> f \<in> set fs \<Longrightarrow> \<exists>k. sum_names given 4 (rule_folder_values f) = Inr k"
  by (induction fs arbitrary: amount) (auto simp: result_bind_eq_Inr)

lemma completes_rule_folders:
  assumes norm: "normalized given = Inr l" and size: "rule_folders_size fs given = Inr n"
  shows "completes l (write_rule_folders buffer_write given fs)"
proof -
  have "completes l (write_rule_folder buffer_write given f)" if member: "f \<in> set fs" for f
  proof -
    obtain k where k: "sum_names given 4 (rule_folder_values f) = Inr k"
      using sum_folders_member [OF size [unfolded rule_folders_size_def] member] by blast
    have one: "rule_folders_size [f] given = Inr (8 + k)" by (simp add: rule_folders_size_def k)
    show ?thesis
      unfolding write_rule_folder_def
      by (rule completes_sized, rule one, rule completes_in_turn) (simp add: completes_numbers completes_strings [OF norm k])
  qed
  then show ?thesis
    unfolding write_rule_folders_def
    using completes_list [of l "[write_i32 buffer_write (of_int n), write_i32 buffer_write (of_nat (length fs))]" fs]
    by (intro completes_sized [OF size]) (simp add: completes_numbers)
qed

lemma completes_recording:
  assumes norm: "normalized given = Inr l" and size: "recording_size g given = Inr n"
  shows "completes l (write_recording buffer_write given g)"
proof -
  obtain a b c where parts: "string_size (rs_batch g) given = Inr a" "rule_folders_size (rs_folders g) given = Inr b"
    "rule_folders_size (rs_partial_folders g) given = Inr c"
    using size by (auto simp: recording_size_def result_bind_eq_Inr)
  show ?thesis
    unfolding write_recording_def
    by (rule completes_sized, rule size, unfold Let_def prod.case_eq_if, rule completes_in_turn)
      (simp add: completes_numbers completes_string [OF norm parts(1)] completes_rule_folders [OF norm parts(2)]
        completes_rule_folders [OF norm parts(3)] del: write_in_turn.simps)
qed

lemma completes_rule:
  assumes norm: "normalized given = Inr l" and size: "auto_add_size r given = Inr n"
  shows "completes l (write_auto_add buffer_write given r)"
proof -
  obtain a b where parts: "search_size (ru_search r) given = Inr a" "recording_size (ru_recording r) given = Inr b"
    using size by (auto simp: auto_add_size_def result_bind_eq_Inr)
  show ?thesis
    unfolding write_auto_add_def
    by (rule completes_sized, rule size, rule completes_in_turn)
      (simp add: completes_numbers completes_search [OF norm parts(1)] completes_recording [OF norm parts(2)] del: write_in_turn.simps)
qed

section \<open>A listed rule is read back\<close>

text \<open>C33. (roundtrip): a client that sends a listed rule back changes nothing.  A stored rule that has been
  measured is written to a buffer without an error, in the announced size, and the request that changes rules reads the bytes,
  as a vector of one behind the version, as a rule with the same number, condition, settings and count.  It holds for rules
  whose keyword is not taken for its own prefixes and that do not ask for paid programmes only.\<close>

theorem listed_rule_sent_back:
  assumes "normalized given = Inr l" "6 \<le> lm_depth l" "4096 \<le> lm_vector_elements l" "10000 \<le> lm_logical_items l"
    and "auto_add_size r given = Inr n" "n + 8 \<le> lm_structure_extent l"
    and "validate_stored_rule r = Inr ()" "ru_number r < 2 ^ 31" "ru_reservation_count r < 2 ^ 31"
    and "keyword_plain (ru_search r)" "sc_free_access (ru_search r) \<le> 1"
  shows "\<exists>w. write_auto_add (buffer_write :: (unit, bytes) sink) given r \<lparr>wr_dest = [], wr_written = 0, wr_limits = l\<rparr> = (None, w) \<and>
    int (length (wr_dest w)) = n \<and>
    decode_one_rule (le_put 2 rule_version @ vector_put 1 (wr_dest w)) given True =
      Some (r\<lparr>ru_id := 0, ru_version := 0, ru_created := 0, ru_updated := 0\<rparr>)"
proof -
  obtain w where run: "write_auto_add (buffer_write :: (unit, bytes) sink) given r \<lparr>wr_dest = [], wr_written = 0, wr_limits = l\<rparr> = (None, w)"
    using completesD [OF completes_rule [OF assms(1,5)], of "\<lparr>wr_dest = [], wr_written = 0, wr_limits = l\<rparr>"] by auto
  have dest: "wr_dest w = rule_struct r"
    using buffer.emitsD [OF buffer.emits_rule _ run] by (simp add: buffer.progress_def)
  have size: "n = int (length (rule_struct r))" by (rule auto_add_size_ok [OF assms(5)])
  have "decode_one_rule (le_put 2 rule_version @ vector_put 1 (rule_struct r)) given True =
      Some (r\<lparr>ru_id := 0, ru_version := 0, ru_created := 0, ru_updated := 0\<rparr>)"
    using assms size by (intro decode_rule_struct) simp_all
  then show ?thesis using run dest size by simp
qed

definition sample_rule :: rule where
  "sample_rule =
     \<lparr>ru_id = 7, ru_number = 3, ru_version = 1,
      ru_search = empty_search\<lparr>sc_enabled := True, sc_keyword := [65], sc_services := [\<lparr>sv_network_id = 1, sv_transport_stream_id = 2, sv_service_id = 3\<rparr>],
        sc_minimum_minutes := 10, sc_maximum_minutes := 90, sc_free_access := 1\<rparr>,
      ru_recording =
        \<lparr>rs_mode = 1, rs_priority = 4, rs_suspend = 2, rs_partial_mode = 0, rs_follow = True, rs_exact = False, rs_reboot = True,
         rs_continue = False, rs_service_mode = 16, rs_tuner_id = 0, rs_batch = [], rs_folders = [], rs_partial_folders = [],
         rs_start_margin = Some (- 5), rs_end_margin = Some 10\<rparr>,
      ru_reservation_count = 2, ru_created = 1, ru_updated = 1\<rparr>"

lemma sample_rule_keyword: "wire_keyword (ru_search sample_rule) = ascii ''D!{100100090}A''"
proof -
  have "decimal 100090 = ascii ''100090''"
    by (simp add: decimal_def numerals.simps digit_def ascii_def of_char_def)
  then have "zero_pad 8 (decimal 100090) = ascii ''00100090''"
    by (simp add: zero_pad_def ascii_def of_char_def numeral_2_eq_2)
  then show ?thesis
    by (simp add: wire_keyword_def sample_rule_def empty_search_def duration_prefix_def closing_brace_def ascii_def of_char_def)
qed

lemma sample_rule_measured: "auto_add_size sample_rule default_limits = Inr 170"
proof -
  have "normalized default_limits = Inr default_limits" by code_simp
  then have "string_size (ascii ''D!{100100090}A'') default_limits = Inr 34" "string_size [] default_limits = Inr 6"
    by (simp_all add: string_size_def count_units.simps default_limits_def Let_def text_eval)
  then show ?thesis
    unfolding auto_add_size_def search_size_def sample_rule_keyword
    by (simp add: recording_size_def rule_folders_size_def) (simp add: sample_rule_def empty_search_def)
qed

theorem listed_rule_sent_back_witness:
  "\<exists>w. write_auto_add (buffer_write :: (unit, bytes) sink) default_limits sample_rule
      \<lparr>wr_dest = [], wr_written = 0, wr_limits = default_limits\<rparr> = (None, w) \<and>
    int (length (wr_dest w)) = 170 \<and>
    decode_one_rule (le_put 2 rule_version @ vector_put 1 (wr_dest w)) default_limits True =
      Some (sample_rule\<lparr>ru_id := 0, ru_version := 0, ru_created := 0, ru_updated := 0\<rparr>)"
proof (rule listed_rule_sent_back)
  show "normalized default_limits = Inr default_limits" by code_simp
  show "auto_add_size sample_rule default_limits = Inr 170" by (rule sample_rule_measured)
  show "validate_stored_rule sample_rule = Inr ()"
    by (simp add: validate_stored_rule_def validate_values_def sample_rule_def empty_search_def valid_rule_text_def margins_in_hour_def text_eval)
  show "keyword_plain (ru_search sample_rule)" by (simp add: keyword_plain_def sample_rule_def empty_search_def)
qed (simp_all add: sample_rule_def default_limits_def)

section \<open>What the reader does not give back\<close>

text \<open>Every value that a method reads has the property \<open>P\<close>.\<close>

definition yields :: "'a read \<Rightarrow> ('a \<Rightarrow> bool) \<Rightarrow> bool" where
  "yields m P \<longleftrightarrow> (\<forall>r x r'. m r = (Inr x, r') \<longrightarrow> P x)"

lemma yields_bind: "(\<And>x. yields (f x) P) \<Longrightarrow> yields (read_bind m f) P"
  unfolding yields_def read_bind_def by (auto split: prod.splits sum.splits)

lemma yields_bind_from: "yields m Q \<Longrightarrow> (\<And>x. Q x \<Longrightarrow> yields (f x) P) \<Longrightarrow> yields (read_bind m f) P"
  unfolding yields_def read_bind_def by (fastforce split: prod.splits sum.splits)

lemma yields_basic: "P x \<Longrightarrow> yields (read_return x) P" "yields (read_fail e) P"
  by (auto simp: yields_def read_return_def read_fail_def)

lemma yields_else: "yields m P \<Longrightarrow> yields (if bad then read_fail e else m) P"
  by (simp add: yields_basic)

lemma yields_in_child: "yields m P \<Longrightarrow> yields (in_child start extent header m) P"
  unfolding yields_def in_child_def read_bind_def read_return_def by (auto simp: Let_def split: prod.splits sum.splits)

lemma yields_structure: "yields m P \<Longrightarrow> yields (read_structure (Some m)) P"
  using yields_in_child [of m P]
  by (auto simp: yields_def read_structure_def read_fail_def read_bind_def Let_def split: if_splits prod.splits sum.splits)

lemma yields_items: "(\<And>i. yields (fn i) P) \<Longrightarrow> yields (read_items fn i n) (list_all P)"
proof (induction n arbitrary: i)
  case (Suc n)
  then have rest: "yields (read_items fn (i + 1) n) (list_all P)" by blast
  show ?case
    unfolding read_items.simps
    by (rule yields_bind_from [OF Suc.prems], rule yields_bind_from [OF rest], rule yields_basic) simp
qed (simp add: yields_basic)

lemma yields_vector:
  assumes "\<And>i. yields (fn i) P"
  shows "yields (read_vector minimum bound (Some fn)) (list_all P)"
  using yields_in_child [OF yields_items [OF assms]]
  by (auto simp: yields_def read_vector_def read_fail_def read_bind_def Let_def split: if_splits prod.splits sum.splits)

lemma read_search_byte_small: "i < 4 \<Longrightarrow> yields (read_search_byte i) (\<lambda>v. v \<le> 1)"
  unfolding read_search_byte_def by (rule yields_bind) (auto intro: yields_basic)

lemma read_search_free_access: "yields read_search_fields (\<lambda>s. sc_free_access s \<le> 1)"
proof -
  have free: "yields (read_search_byte 3) (\<lambda>v. v \<le> 1)" by (rule read_search_byte_small) simp
  show ?thesis
    unfolding read_search_fields_def
    by (rule yields_bind_from [OF free] | rule yields_else | rule yields_bind)+ (auto simp: Let_def intro: yields_basic)
qed

text \<open>C34. (error): the request that adds or changes a rule never accepts the search for paid programmes only,
  the value 2 of the free access, although the check that follows, the validation of rules and the matcher know it.\<close>

theorem paid_only_refused:
  "case decode_one_rule body given require_number of None \<Rightarrow> True | Some r \<Rightarrow> sc_free_access (ru_search r) \<le> 1"
proof -
  have "yields read_rule (\<lambda>r. sc_free_access (ru_search r) \<le> 1)"
    unfolding read_rule_def read_rule_fields_def
    by (rule yields_structure, rule yields_bind, rule yields_bind_from [OF yields_structure [OF read_search_free_access]],
        rule yields_bind, rule yields_bind) (simp add: yields_basic)
  from yields_vector [OF this] have rules: "yields (read_vector 1 1 (Some (\<lambda>_. read_rule))) (list_all (\<lambda>r. sc_free_access (ru_search r) \<le> 1))" .
  have "yields (read_bind read_u16 (\<lambda>version.
      if version \<noteq> rule_version then read_fail (rule_failure Malformed ''automatic-rule-version'' (uint version))
      else read_bind (read_vector 1 1 (Some (\<lambda>_. read_rule))) (\<lambda>found.
        if length found \<noteq> 1 then read_fail (rule_failure Malformed ''automatic-rule-value'' (int (length found)))
        else read_bind exact (\<lambda>_. read_return (hd found))))) (\<lambda>r. sc_free_access (ru_search r) \<le> 1)"
  proof (rule yields_bind, rule yields_else, rule yields_bind_from [OF rules])
    fix found assume found: "list_all (\<lambda>r. sc_free_access (ru_search r) \<le> 1) found"
    show "yields (if length found \<noteq> 1 then read_fail (rule_failure Malformed ''automatic-rule-value'' (int (length found)))
        else read_bind exact (\<lambda>_. read_return (hd found))) (\<lambda>r. sc_free_access (ru_search r) \<le> 1)"
      using found by (cases found) (auto intro: yields_bind yields_basic)
  qed
  then show ?thesis
    by (auto simp: decode_one_rule_def yields_def split: sum.splits prod.splits option.splits)
qed

text \<open>
  A duration of no minutes is dropped when the rule is listed, so that the rest of the keyword moves to the place of the
  prefixes: a rule that ignored the case is listed as one that does not.
\<close>

lemma zero_duration_forgotten:
  "case decode_keyword (ascii ''D!{100000000}C!{999}x'') empty_search of
     Inl e \<Rightarrow> False
   | Inr s \<Rightarrow> \<not> sc_case_sensitive s \<and>
       (case decode_keyword (wire_keyword s) empty_search of Inl e \<Rightarrow> False | Inr s' \<Rightarrow> sc_case_sensitive s')"
  by code_simp

end
