(* ===== verification/Reservations.thy ===== *)
theory Reservations
  imports AutoReservation
begin

text \<open>
  \<open>internal/app/recording/reservations.go\<close> and \<open>follow.go\<close>: the operations of the user on reservations, and the pass
  that moves reservations to the times of the newest catalog.  Catalog, store, clock and identifiers are functions on a
  world; what is asked of the store and what is announced is also written to a log.
\<close>

section \<open>Operations on reservations\<close>

record stop_result =
  st_reservation_id :: entity_id
  st_notify :: bool

datatype service_call =
  CreateReservation reservation
  | UpdateReservation reservation_change instant
  | StopReservation int instant

datatype service_event = Stored service_call bool | Announced | StopSent entity_id

datatype service_error =
  InvalidOperation | InvalidServiceClock | NotReservable | IdGenerationFailed | OneSegServiceUnavailable
  | OneSegOutputUnavailable | ReservationStoreFailed

record 's reservation_service =
  sv_find :: "(reservation_request \<Rightarrow> 's \<Rightarrow> program_snapshot option \<times> 's) option"
  sv_one_seg :: "(reservation_request \<Rightarrow> 's \<Rightarrow> (program_snapshot \<times> bytes) option \<times> 's) option"
  sv_create :: "reservation \<Rightarrow> 's \<Rightarrow> reservation option \<times> 's"
  sv_active :: "nat \<Rightarrow> int \<Rightarrow> 's \<Rightarrow> reservation list option \<times> 's"
  sv_update :: "reservation_change \<Rightarrow> instant \<Rightarrow> 's \<Rightarrow> bool \<times> 's"
  sv_stop :: "int \<Rightarrow> instant \<Rightarrow> 's \<Rightarrow> stop_result option \<times> 's"
  sv_recording :: "int \<Rightarrow> 's \<Rightarrow> bool option \<times> 's"
  sv_now :: "'s \<Rightarrow> instant \<times> 's"
  sv_new_id :: "'s \<Rightarrow> entity_id option \<times> 's"
  sv_on_added :: bool
  sv_on_stop :: bool

record 's service_run =
  sr_world :: 's
  sr_log :: "service_event list"

type_synonym ('s, 'a) service = "('s service_run, service_error, 'a) act"

text \<open>A question to the world, and a question whose success is logged as the call \<open>c\<close>.\<close>

definition inquire :: "('s \<Rightarrow> 'a \<times> 's) \<Rightarrow> ('s, 'a) service" where
  "inquire f s = (case f (sr_world s) of (x, w) \<Rightarrow> (Inr x, s\<lparr>sr_world := w\<rparr>))"

definition record_event :: "service_event \<Rightarrow> ('s, unit) service" where
  "record_event e = act_modify (\<lambda>s. s\<lparr>sr_log := sr_log s @ [e]\<rparr>)"

definition store_call :: "service_call \<Rightarrow> ('s \<Rightarrow> 'a option \<times> 's) \<Rightarrow> ('s, 'a) service" where
  "store_call c f =
     act_bind (inquire f) (\<lambda>answer.
       act_seq (record_event (Stored c (answer \<noteq> None)))
         (case answer of None \<Rightarrow> act_fail ReservationStoreFailed | Some x \<Rightarrow> act_return x))"

definition announce :: "'s reservation_service \<Rightarrow> ('s, unit) service" where
  "announce sv = act_when (sv_on_added sv) (record_event Announced)"

definition resolve_requested ::
    "'s reservation_service \<Rightarrow> (reservation_request \<Rightarrow> 's \<Rightarrow> program_snapshot option \<times> 's) \<Rightarrow> reservation_request
      \<Rightarrow> ('s, (service_error, program_snapshot \<times> one_seg_output option) result) service" where
  "resolve_requested sv finder request =
     (if rq_one_seg_output request = None then
        act_bind (inquire (finder request)) (\<lambda>answer.
          act_return (case answer of None \<Rightarrow> Inl NotReservable | Some program \<Rightarrow> Inr (program, None)))
      else
        case sv_one_seg sv of
          None \<Rightarrow> act_return (Inl OneSegServiceUnavailable)
        | Some one_seg \<Rightarrow>
            act_bind (inquire (one_seg request)) (\<lambda>answer.
              act_return (case answer of
                None \<Rightarrow> Inl OneSegServiceUnavailable
              | Some (program, locator) \<Rightarrow>
                  (case resolve_one_seg_output request locator of
                     Inl e \<Rightarrow> Inl OneSegOutputUnavailable
                   | Inr resolved \<Rightarrow> Inr (program, resolved)))))"

definition same_program_time :: "reservation_request \<Rightarrow> program_snapshot \<Rightarrow> bool" where
  "same_program_time request program \<longleftrightarrow>
     t_nanos (p_start program) = t_nanos (rq_start request) \<and> p_duration program = rq_duration request"

text \<open>The reservation that is stored has the shape of an automatic one.\<close>

definition add_reservation :: "'s reservation_service \<Rightarrow> reservation_request \<Rightarrow> ('s, reservation) service" where
  "add_reservation sv request =
     (case sv_find sv of
        None \<Rightarrow> act_fail InvalidOperation
      | Some finder \<Rightarrow>
          if \<not> reservation_request_valid request then act_fail InvalidOperation
          else act_bind (inquire (sv_now sv)) (\<lambda>t.
            if is_zero_time t then act_fail InvalidServiceClock
            else
              act_bind (resolve_requested sv finder request) (\<lambda>resolved.
                case resolved of
                  Inl e \<Rightarrow> act_fail NotReservable
                | Inr (program, one_seg) \<Rightarrow>
                    if \<not> same_program_time request program \<or>
                       \<not> after_time (planned_end (automatic_reservation 0 t request program None)) t
                    then act_fail NotReservable
                    else
                      act_bind (inquire (sv_new_id sv)) (\<lambda>answer.
                        case answer of
                          None \<Rightarrow> act_fail IdGenerationFailed
                        | Some ident \<Rightarrow>
                            let candidate = automatic_reservation ident (in_utc t) request program one_seg in
                            act_bind (store_call (CreateReservation candidate) (sv_create sv candidate)) (\<lambda>stored.
                              act_seq (announce sv)
                                (act_return (stored\<lparr>r_effective_follow := r_requested_follow stored\<rparr>)))))))"

definition active_reservations :: "'s reservation_service \<Rightarrow> nat \<Rightarrow> int \<Rightarrow> ('s, reservation list) service" where
  "active_reservations sv limit after =
     act_bind (inquire (sv_active sv limit after)) (\<lambda>answer.
       case answer of None \<Rightarrow> act_fail ReservationStoreFailed | Some page \<Rightarrow> act_return page)"

text \<open>The clock of the operations that change a reservation.\<close>

definition operation_time :: "'s reservation_service \<Rightarrow> ('s, instant) service" where
  "operation_time sv =
     act_bind (inquire (sv_now sv)) (\<lambda>t.
       if is_zero_time (in_utc t) \<or> unix_milli (in_utc t) < 0 then act_fail InvalidServiceClock else act_return (in_utc t))"

definition change_reservation :: "'s reservation_service \<Rightarrow> reservation_change \<Rightarrow> ('s, unit) service" where
  "change_reservation sv change =
     (if \<not> reservation_change_valid change then act_fail InvalidOperation
      else
        act_bind (operation_time sv) (\<lambda>t.
        act_bind
          (if rq_one_seg_output (ch_request change) = None then act_return change
           else
             case sv_find sv of
               None \<Rightarrow> act_fail OneSegServiceUnavailable
             | Some finder \<Rightarrow>
                 act_bind (resolve_requested sv finder (ch_request change)) (\<lambda>resolved.
                   case resolved of
                     Inl e \<Rightarrow> act_fail NotReservable
                   | Inr (program, one_seg) \<Rightarrow>
                       if \<not> same_program_time (ch_request change) program then act_fail NotReservable
                       else act_return (change\<lparr>ch_resolved_one_seg := one_seg\<rparr>)))
          (\<lambda>change.
            act_bind (store_call (UpdateReservation change t)
                (\<lambda>s. map_prod (\<lambda>ok. if ok then Some () else None) id (sv_update sv change t s)))
              (\<lambda>_. announce sv))))"

definition delete_reservation :: "'s reservation_service \<Rightarrow> int \<Rightarrow> ('s, unit) service" where
  "delete_reservation sv number =
     (if number < 1 then act_fail InvalidOperation
      else
        act_bind (operation_time sv) (\<lambda>t.
        act_bind (store_call (StopReservation number t) (sv_stop sv number t)) (\<lambda>result.
          act_seq (act_when (st_notify result \<and> sv_on_stop sv) (record_event (StopSent (st_reservation_id result))))
            (announce sv))))"

definition reservation_recording :: "'s reservation_service \<Rightarrow> int \<Rightarrow> ('s, bool) service" where
  "reservation_recording sv number =
     (if number < 1 then act_fail InvalidOperation
      else
        act_bind (inquire (sv_recording sv number)) (\<lambda>answer.
          case answer of None \<Rightarrow> act_fail ReservationStoreFailed | Some busy \<Rightarrow> act_return busy))"

section \<open>Following the catalog\<close>

definition max_page :: nat where "max_page = 256"
definition max_active_reservations :: nat where "max_active_reservations = 16384"

record follow_counts =
  fo_evaluated :: nat
  fo_updated :: nat
  fo_unchanged :: nat
  fo_blocked :: nat

record 's follow_service =
  fs_active :: "nat \<Rightarrow> int \<Rightarrow> 's \<Rightarrow> reservation list option \<times> 's"
  fs_target :: "entity_id \<Rightarrow> entity_id \<Rightarrow> 's \<Rightarrow> follow_target option option \<times> 's"
  fs_apply :: "follow_request \<Rightarrow> 's \<Rightarrow> bool option \<times> 's"
  fs_now :: "'s \<Rightarrow> instant \<times> 's"
  fs_extension_only :: bool
  fs_on_updated :: bool

datatype follow_error =
  InvalidFollowClock | ReadFollowReservations | InvalidFollowOrder | ReadFollowTarget | ApplyReservationFollow

text \<open>The counts, the world, the requests with their answers, and whether the update was announced.\<close>

record 's follow_run =
  fr_world :: 's
  fr_counts :: follow_counts
  fr_requests :: "(follow_request \<times> bool option) list"
  fr_announced :: bool

type_synonym ('s, 'a) following = "('s follow_run, follow_error, 'a) act"

definition follow_ask :: "('s \<Rightarrow> 'a \<times> 's) \<Rightarrow> ('s, 'a) following" where
  "follow_ask f s = (case f (fr_world s) of (x, w) \<Rightarrow> (Inr x, s\<lparr>fr_world := w\<rparr>))"

definition follow_count :: "(follow_counts \<Rightarrow> follow_counts) \<Rightarrow> ('s, unit) following" where
  "follow_count f = act_modify (\<lambda>s. s\<lparr>fr_counts := f (fr_counts s)\<rparr>)"

definition target_unchanged :: "reservation \<Rightarrow> follow_target option \<Rightarrow> bool" where
  "target_unchanged r target =
     (case target of
        None \<Rightarrow> True
      | Some target \<Rightarrow>
          ft_instance_id target \<noteq> p_instance_id (r_program r) \<or> ft_revision_id target = p_revision_id (r_program r) \<or>
          t_nanos (ft_start target) = t_nanos (p_start (r_program r)) \<and> ft_duration target = p_duration (r_program r))"

definition follow_request_of :: "bool \<Rightarrow> instant \<Rightarrow> reservation \<Rightarrow> follow_target \<Rightarrow> follow_request" where
  "follow_request_of extension_only t r target =
     \<lparr>fw_reservation_id = r_id r, fw_expected_version = r_version r,
      fw_expected_revision_id = p_revision_id (r_program r), fw_target_revision_id = ft_revision_id target, fw_now = t,
      fw_extension_only = extension_only\<rparr>"

definition apply_follow :: "'s follow_service \<Rightarrow> follow_request \<Rightarrow> ('s, unit) following" where
  "apply_follow fs request =
     act_bind (follow_ask (fs_apply fs request)) (\<lambda>answer.
       act_seq (act_modify (\<lambda>s. s\<lparr>fr_requests := fr_requests s @ [(request, answer)]\<rparr>))
         (case answer of
            None \<Rightarrow> act_fail ApplyReservationFollow
          | Some True \<Rightarrow> follow_count (\<lambda>c. c\<lparr>fo_updated := fo_updated c + 1\<rparr>)
          | Some False \<Rightarrow> follow_count (\<lambda>c. c\<lparr>fo_blocked := fo_blocked c + 1\<rparr>)))"

definition follow_reservation :: "'s follow_service \<Rightarrow> instant \<Rightarrow> reservation \<Rightarrow> ('s, unit) following" where
  "follow_reservation fs t r =
     act_seq (follow_count (\<lambda>c. c\<lparr>fo_evaluated := fo_evaluated c + 1\<rparr>))
       (let unchanged = follow_count (\<lambda>c. c\<lparr>fo_unchanged := fo_unchanged c + 1\<rparr>) in
        if \<not> r_requested_follow r then unchanged
        else
          act_bind (follow_ask (fs_target fs (p_backend_id (r_program r)) (p_instance_id (r_program r)))) (\<lambda>answer.
            case answer of
              None \<Rightarrow> act_fail ReadFollowTarget
            | Some target \<Rightarrow>
                if target_unchanged r target then unchanged
                else apply_follow fs (follow_request_of (fs_extension_only fs) t r (the target))))"

primrec follow_page :: "'s follow_service \<Rightarrow> instant \<Rightarrow> int \<Rightarrow> reservation list \<Rightarrow> ('s, int) following" where
  "follow_page fs t after [] = act_return after"
| "follow_page fs t after (r # page) =
     act_bind (act_get (\<lambda>s. fo_evaluated (fr_counts s))) (\<lambda>evaluated.
       if r_number r \<le> after \<or> evaluated \<ge> max_active_reservations then act_fail InvalidFollowOrder
       else act_seq (follow_reservation fs t r) (follow_page fs t (r_number r) page))"

lemma follow_reservation_counts:
  "follow_reservation fs t r s = (x, s') \<Longrightarrow> fo_evaluated (fr_counts s') = fo_evaluated (fr_counts s) + 1"
  by (auto simp: follow_reservation_def act_seq_def act_bind_def follow_count_def act_modify_def act_fail_def apply_follow_def Let_def
      follow_ask_def split: if_splits option.splits prod.splits sum.splits bool.splits)

lemma follow_page_counts:
  "follow_page fs t after page s = (Inr after', s') \<Longrightarrow>
   fo_evaluated (fr_counts s') = fo_evaluated (fr_counts s) + length page \<and>
   (page \<noteq> [] \<longrightarrow> fo_evaluated (fr_counts s') \<le> max_active_reservations)"
proof (induction page arbitrary: after s)
  case (Cons r page)
  from Cons.prems have small: "fo_evaluated (fr_counts s) < max_active_reservations"
    by (auto simp: act_bind_def act_get_def act_fail_def split: if_splits)
  from Cons.prems obtain s1 where first: "follow_reservation fs t r s = (Inr (), s1)"
    and rest: "follow_page fs t (r_number r) page s1 = (Inr after', s')"
    by (auto simp: act_bind_def act_seq_def act_get_def act_fail_def split: if_splits prod.splits sum.splits)
  from follow_reservation_counts [OF first] Cons.IH [OF rest] small show ?case
    by (cases "page = []") (auto simp: act_return_def)
qed (simp add: act_return_def)

lemma follow_pages_progress:
  assumes "follow_ask (fs_active fs max_page after) s = (Inr (Some page), s')"
    and "follow_page fs t after page s' = (Inr after', s'')" "max_page = length page"
  shows "max_active_reservations - fo_evaluated (fr_counts s'') < max_active_reservations - fo_evaluated (fr_counts s)"
proof -
  have "fr_counts s' = fr_counts s" "page \<noteq> []"
    using assms(1,3) by (auto simp: follow_ask_def max_page_def split: prod.splits)
  then show ?thesis using follow_page_counts [OF assms(2)] by (cases page) auto
qed

function follow_pages :: "'s follow_service \<Rightarrow> instant \<Rightarrow> int \<Rightarrow> ('s, unit) following" where
  "follow_pages fs t after s =
     (case follow_ask (fs_active fs max_page after) s of
        (Inl e, s') \<Rightarrow> (Inl e, s')
      | (Inr None, s') \<Rightarrow> (Inl ReadFollowReservations, s')
      | (Inr (Some page), s') \<Rightarrow>
          if length page > max_page then (Inl ReadFollowReservations, s')
          else
            case follow_page fs t after page s' of
              (Inl e, s'') \<Rightarrow> (Inl e, s'')
            | (Inr after', s'') \<Rightarrow>
                if length page < max_page then
                  (Inr (), if fo_updated (fr_counts s'') > 0 \<and> fs_on_updated fs then s''\<lparr>fr_announced := True\<rparr> else s'')
                else follow_pages fs t after' s'')"
  by pat_completeness auto
termination
  by (relation "measure (\<lambda>(fs, t, after, s). max_active_reservations - fo_evaluated (fr_counts s))")
    (auto dest!: follow_pages_progress [OF sym sym])

declare follow_pages.simps [simp del]

definition run_follow :: "'s follow_service \<Rightarrow> ('s, unit) following" where
  "run_follow fs =
     act_bind (follow_ask (fs_now fs)) (\<lambda>t.
       if is_zero_time (in_utc t) \<or> unix_milli (in_utc t) < 0 then act_fail InvalidFollowClock
       else follow_pages fs (in_utc t) 0)"

definition start_follow :: "'s \<Rightarrow> 's follow_run" where
  "start_follow w =
     \<lparr>fr_world = w, fr_counts = \<lparr>fo_evaluated = 0, fo_updated = 0, fo_unchanged = 0, fo_blocked = 0\<rparr>, fr_requests = [],
      fr_announced = False\<rparr>"

end
