(* ===== verification/ReservationsSpec.thy ===== *)
theory ReservationsSpec
  imports Reservations RuntimeSnapshotSpec
begin

text \<open>
  What the operations on reservations promise: one change of the store at most, announced after it succeeded and only then;
  additions that the store accepts; and a pass over the catalog whose counts and requests fit.
\<close>

section \<open>One change, then the announcement\<close>

definition wrote :: "service_event list \<Rightarrow> 's service_run \<Rightarrow> bool" where
  "wrote before s \<longleftrightarrow> sr_log s = before"

definition refused :: "service_event list \<Rightarrow> service_call set \<Rightarrow> 's service_run \<Rightarrow> bool" where
  "refused before calls s \<longleftrightarrow> sr_log s = before \<or> (\<exists>c \<in> calls. sr_log s = before @ [Stored c False])"

text \<open>One of the calls succeeded, \<open>stops\<close> was sent after it, and then the news.\<close>

definition stored_then ::
    "service_event list \<Rightarrow> service_call set \<Rightarrow> service_event list \<Rightarrow> bool \<Rightarrow> 's service_run \<Rightarrow> bool" where
  "stored_then before calls stops on_added s \<longleftrightarrow>
     (\<exists>c \<in> calls. sr_log s = before @ [Stored c True] @ stops @ (if on_added then [Announced] else []))"

lemma inquire_wrote [triple_rules]: "outcomes (wrote L) (inquire f) (\<lambda>_. wrote L) E"
  by (auto simp: outcomes_def inquire_def wrote_def split: prod.splits)

lemma store_call_wrote:
  "c \<in> C \<Longrightarrow> outcomes (wrote L) (store_call c f) (\<lambda>_. wrote (L @ [Stored c True])) (\<lambda>_. refused L C)"
  by (auto simp: outcomes_def store_call_def act_bind_def act_seq_def inquire_def record_event_def act_modify_def act_fail_def act_return_def
      wrote_def refused_def split: prod.splits option.splits)

lemma wrote_refused: "wrote L s \<Longrightarrow> refused L C s"
  by (simp add: wrote_def refused_def)

lemma return_wrote [triple_rules]: "outcomes (wrote L) (act_return x) (\<lambda>_. wrote L) E"
  by (simp add: outcomes_def act_return_def)

lemma fail_wrote [triple_rules]: "outcomes (wrote L) (act_fail e) Q (\<lambda>_. refused L C)"
  by (simp add: outcomes_def act_fail_def wrote_refused)

lemma announce_stored:
  "c \<in> C \<Longrightarrow> outcomes (wrote (L @ [Stored c True])) (announce sv) (\<lambda>_. stored_then L C [] (sv_on_added sv)) E"
  by (auto simp: outcomes_def announce_def act_when_def record_event_def act_modify_def act_return_def wrote_def stored_then_def)

lemma return_stored [triple_rules]: "outcomes (stored_then L C stops b) (act_return x) (\<lambda>_. stored_then L C stops b) E"
  by (simp add: outcomes_def act_return_def)

lemma resolve_wrote [triple_rules]: "outcomes (wrote L) (resolve_requested sv finder request) (\<lambda>_. wrote L) E"
  unfolding resolve_requested_def by (rule triple_rules)+

text \<open>The time of an operation is what its clock says in the world it starts in.\<close>

definition clock_of :: "'s reservation_service \<Rightarrow> 's service_run \<Rightarrow> instant" where
  "clock_of sv s = in_utc (fst (sv_now sv (sr_world s)))"

lemma clock_wrote:
  "outcomes (\<lambda>s'. s' = s) (inquire (sv_now sv)) (\<lambda>t s'. wrote (sr_log s) s' \<and> in_utc t = clock_of sv s) E"
  by (auto simp: outcomes_def inquire_def wrote_def clock_of_def split: prod.splits)

lemma time_wrote:
  "outcomes (\<lambda>s'. s' = s) (operation_time sv) (\<lambda>t s'. wrote (sr_log s) s' \<and> t = clock_of sv s) (\<lambda>_. refused (sr_log s) C)"
  by (auto simp: outcomes_def operation_time_def act_bind_def inquire_def act_fail_def act_return_def wrote_def refused_def clock_of_def
      split: prod.splits)

lemma triple_known:
  assumes "C \<Longrightarrow> outcomes P m Q E"
  shows "outcomes (\<lambda>s. P s \<and> C) m Q E"
  using assms by (auto simp: outcomes_def)

lemma start_refused: "outcomes (\<lambda>s'. s' = s) (act_fail e) Q (\<lambda>_. refused (sr_log s) C)"
  by (simp add: outcomes_def act_fail_def refused_def)

definition additions_at :: "instant \<Rightarrow> reservation_request \<Rightarrow> service_call set" where
  "additions_at t request = {CreateReservation (automatic_reservation ident t request program one_seg) | ident program one_seg. True}"

definition changes_at :: "instant \<Rightarrow> reservation_change \<Rightarrow> service_call set" where
  "changes_at t change =
     {UpdateReservation change' t | change'. \<exists>one_seg. change' = change\<lparr>ch_resolved_one_seg := one_seg\<rparr>}"

lemma add_wrote:
  "outcomes (\<lambda>s'. s' = s) (add_reservation sv request)
     (\<lambda>_. stored_then (sr_log s) (additions_at (clock_of sv s) request) [] (sv_on_added sv))
     (\<lambda>_. refused (sr_log s) (additions_at (clock_of sv s) request))"
proof -
  have create: "CreateReservation (automatic_reservation ident t request program one_seg) \<in> additions_at (clock_of sv s) request"
    if "t = clock_of sv s" for ident t program one_seg
    using that by (auto simp: additions_at_def)
  show ?thesis
    unfolding add_reservation_def Let_def
    by (rule start_refused triple_bind [OF clock_wrote] triple_known triple_bind [OF store_call_wrote [OF create]]
        triple_seq [OF announce_stored [OF create]] return_stored fail_wrote triple_if triple_option triple_bind [OF resolve_wrote]
        triple_bind [OF inquire_wrote] | assumption
      | (split sum.split prod.split, intro allI impI conjI))+
qed

lemma change_wrote:
  "outcomes (\<lambda>s'. s' = s) (change_reservation sv change)
     (\<lambda>_. stored_then (sr_log s) (changes_at (clock_of sv s) change) [] (sv_on_added sv))
     (\<lambda>_. refused (sr_log s) (changes_at (clock_of sv s) change))"
proof -
  let ?C = "changes_at (clock_of sv s) change" and ?L = "sr_log s"
  have put: "outcomes (\<lambda>s'. wrote ?L s' \<and> (\<exists>one_seg. change' = change\<lparr>ch_resolved_one_seg := one_seg\<rparr>))
      (act_bind (store_call (UpdateReservation change' (clock_of sv s)) f) (\<lambda>_. announce sv))
      (\<lambda>_. stored_then ?L ?C [] (sv_on_added sv)) (\<lambda>_. refused ?L ?C)" for change' f
    by (rule triple_known, rule triple_bind, rule store_call_wrote, force simp: changes_at_def, rule announce_stored)
      (force simp: changes_at_def)
  have chosen: "outcomes (wrote ?L)
      (if rq_one_seg_output (ch_request change) = None then act_return change
       else case sv_find sv of
           None \<Rightarrow> act_fail OneSegServiceUnavailable
         | Some finder \<Rightarrow>
             act_bind (resolve_requested sv finder (ch_request change)) (\<lambda>resolved.
               case resolved of
                 Inl e \<Rightarrow> act_fail NotReservable
               | Inr (program, one_seg) \<Rightarrow>
                   if \<not> same_program_time (ch_request change) program then act_fail NotReservable
                   else act_return (change\<lparr>ch_resolved_one_seg := one_seg\<rparr>)))
      (\<lambda>change' s'. wrote ?L s' \<and> (\<exists>one_seg. change' = change\<lparr>ch_resolved_one_seg := one_seg\<rparr>)) (\<lambda>_. refused ?L ?C)"
  proof -
    have same: "outcomes (wrote ?L) (act_return (change\<lparr>ch_resolved_one_seg := one_seg\<rparr>))
        (\<lambda>change' s'. wrote ?L s' \<and> (\<exists>one_seg. change' = change\<lparr>ch_resolved_one_seg := one_seg\<rparr>)) E" for one_seg E
      by (auto simp: outcomes_def act_return_def)
    show ?thesis
      by (rule triple_if same [of "ch_resolved_one_seg change", simplified] same fail_wrote triple_option triple_bind [OF resolve_wrote]
        | (split sum.split prod.split, intro allI impI conjI))+
  qed
  show ?thesis
    unfolding change_reservation_def
    by (rule start_refused triple_if triple_bind [OF time_wrote] triple_known)+ (hypsubst, rule triple_bind, rule chosen, rule put)
qed

text \<open>The stop that deleting a reservation sends is the one its store asks for.\<close>

definition stop_of :: "'s reservation_service \<Rightarrow> int \<Rightarrow> 's service_run \<Rightarrow> service_event list" where
  "stop_of sv number s =
     (case sv_now sv (sr_world s) of (t, w) \<Rightarrow>
        case fst (sv_stop sv number (in_utc t) w) of
          Some answer \<Rightarrow> if sv_on_stop sv \<and> st_notify answer then [StopSent (st_reservation_id answer)] else []
        | None \<Rightarrow> [])"

lemma delete_wrote:
  "outcomes (\<lambda>s'. s' = s) (delete_reservation sv number)
     (\<lambda>_. stored_then (sr_log s) {StopReservation number (clock_of sv s)} (stop_of sv number s) (sv_on_added sv))
     (\<lambda>_. refused (sr_log s) {StopReservation number (clock_of sv s)})"
  by (auto simp: outcomes_def delete_reservation_def operation_time_def store_call_def announce_def act_when_def act_seq_def act_bind_def
      inquire_def record_event_def act_modify_def act_return_def act_fail_def refused_def stored_then_def clock_of_def stop_of_def
      split: prod.splits option.splits if_splits)

definition one_change ::
    "'s reservation_service \<Rightarrow> service_call set \<Rightarrow> service_event list \<Rightarrow> service_event list \<Rightarrow> bool \<Rightarrow> service_event list \<Rightarrow> bool"
where
  "one_change sv calls stops before ok log \<longleftrightarrow>
     (if ok then \<exists>c \<in> calls. log = before @ [Stored c True] @ stops @ (if sv_on_added sv then [Announced] else [])
      else log = before \<or> (\<exists>c \<in> calls. log = before @ [Stored c False]))"

lemma one_changeI:
  assumes "outcomes (\<lambda>s'. s' = s) m (\<lambda>_. stored_then (sr_log s) C stops (sv_on_added sv)) (\<lambda>_. refused (sr_log s) C)"
  shows "one_change sv C stops (sr_log s) (is_ok (fst (m s))) (sr_log (snd (m s)))"
  using tripleD [OF assms, of s]
  by (cases "m s"; cases "fst (m s)") (auto simp: refused_def stored_then_def one_change_def)

text \<open>C36. (safety): adding, changing and deleting a reservation each make at most one change of the store:
  the creation of a reservation made from the request, the update to the given change but for its resolved one-seg output,
  and the stop of the given number, each at the time of the clock.  When it fails, or nothing was asked of the store, the
  operation fails and nothing is sent; when it succeeds the operation succeeds, and after it, in this order and each once,
  the stop of the recording is sent (by deleting only, with the identifier that the store answered, and exactly when the
  answer asks for it and somebody listens) and then the news for the scheduler.\<close>

theorem change_then_announce:
  "one_change sv (additions_at (clock_of sv s) request) [] (sr_log s)
     (is_ok (fst (add_reservation sv request s))) (sr_log (snd (add_reservation sv request s))) \<and>
   one_change sv (changes_at (clock_of sv s) change) [] (sr_log s)
     (is_ok (fst (change_reservation sv change s))) (sr_log (snd (change_reservation sv change s))) \<and>
   one_change sv {StopReservation number (clock_of sv s)} (stop_of sv number s) (sr_log s)
     (is_ok (fst (delete_reservation sv number s))) (sr_log (snd (delete_reservation sv number s)))"
  by (intro conjI one_changeI add_wrote change_wrote delete_wrote)

section \<open>Additions that the store accepts\<close>

definition valid_additions :: "'s service_run \<Rightarrow> bool" where
  "valid_additions s \<longleftrightarrow>
     list_all (\<lambda>e. case e of Stored (CreateReservation r) _ \<Rightarrow> validate_new r = Inr () | _ \<Rightarrow> True) (sr_log s)"

lemma inquire_valid:
  assumes "\<And>s. Q (fst (f s))"
  shows "outcomes valid_additions (inquire f) (\<lambda>x s. valid_additions s \<and> Q x) E"
  using assms by (auto simp: outcomes_def inquire_def valid_additions_def split: prod.splits) (metis fst_conv)

lemma store_call_valid:
  assumes "case c of CreateReservation r \<Rightarrow> validate_new r = Inr () | _ \<Rightarrow> True"
  shows "outcomes valid_additions (store_call c f) (\<lambda>_. valid_additions) (\<lambda>_. valid_additions)"
  using assms
  by (auto simp: outcomes_def store_call_def act_bind_def act_seq_def inquire_def record_event_def act_modify_def act_fail_def
      act_return_def valid_additions_def split: prod.splits option.splits service_call.splits)

lemma announce_valid: "outcomes valid_additions (act_seq (announce sv) (act_return x)) (\<lambda>_. valid_additions) E"
  by (auto simp: outcomes_def announce_def act_when_def act_seq_def act_bind_def record_event_def act_modify_def act_return_def
      valid_additions_def)

lemma keep_valid:
  "outcomes valid_additions (act_return x) (\<lambda>_. valid_additions) E"
  "outcomes valid_additions (act_fail e) Q (\<lambda>_. valid_additions)"
  by (simp_all add: outcomes_def act_return_def act_fail_def)

definition snapshot_service :: "'s catalog_reader \<Rightarrow> ('s \<Rightarrow> bool) \<Rightarrow> snapshot \<Rightarrow> 's reservation_service \<Rightarrow> 's reservation_service" where
  "snapshot_service rd live sn sv =
     sv\<lparr>sv_find := Some (find_program rd sn),
       sv_one_seg := Some (\<lambda>request s. resolve_one_seg_reservation rd (live s) sn request s)\<rparr>"

definition resolution_ok :: "reservation_request \<Rightarrow> (service_error, program_snapshot \<times> one_seg_output option) result \<Rightarrow> bool" where
  "resolution_ok request resolved \<longleftrightarrow>
     (case resolved of
        Inl e \<Rightarrow> True
      | Inr (program, one_seg) \<Rightarrow>
          snapshot_for request program \<and> (case one_seg of None \<Rightarrow> True | Some out \<Rightarrow> one_seg_output_valid out))"

lemma resolve_valid:
  assumes "snapshot_ok sn" "stores_programs rd"
  shows "outcomes valid_additions (resolve_requested (snapshot_service rd live sn sv) (find_program rd sn) request)
    (\<lambda>x s. valid_additions s \<and> resolution_ok request x) E"
proof -
  have found: "snapshot_for request p" if "find_program rd sn request s = (Some p, s')" for p s s'
    using find_program_stands [OF assms, of request s p] that by simp
  show ?thesis
    by (auto simp: outcomes_def resolve_requested_def snapshot_service_def act_bind_def inquire_def act_return_def valid_additions_def
        resolution_ok_def resolve_one_seg_reservation_def resolve_one_seg_output_def Let_def
        dest: found split: prod.splits option.splits if_splits sum.splits)
qed

lemma add_valid:
  assumes "snapshot_ok sn" "stores_programs rd" "\<And>s. fst (sv_new_id sv s) \<noteq> Some 0" "\<And>s. 0 \<le> unix_milli (fst (sv_now sv s))"
  shows "outcomes valid_additions (add_reservation (snapshot_service rd live sn sv) request) (\<lambda>_. valid_additions) (\<lambda>_. valid_additions)"
proof -
  let ?sv = "snapshot_service rd live sn sv"
  have clock: "outcomes valid_additions (inquire (sv_now ?sv)) (\<lambda>t s. valid_additions s \<and> 0 \<le> unix_milli t) (\<lambda>_. valid_additions)"
    by (rule inquire_valid) (simp add: snapshot_service_def assms)
  have ids: "outcomes valid_additions (inquire (sv_new_id ?sv)) (\<lambda>x s. valid_additions s \<and> x \<noteq> Some 0) (\<lambda>_. valid_additions)"
    by (rule inquire_valid) (simp add: snapshot_service_def assms)
  have create: "outcomes valid_additions
      (act_bind (store_call (CreateReservation candidate) (sv_create ?sv candidate)) (\<lambda>stored.
         act_seq (announce ?sv) (act_return (stored\<lparr>r_effective_follow := r_requested_follow stored\<rparr>))))
      (\<lambda>_. valid_additions) (\<lambda>_. valid_additions)"
    if "candidate = automatic_reservation ident (in_utc t) request program one_seg" "reservation_request_valid request"
      "0 \<le> unix_milli t" "\<not> is_zero_time t" "resolution_ok request (Inr (program, one_seg))" "ident \<noteq> 0"
    for candidate ident t program one_seg
  proof (rule triple_bind [OF store_call_valid announce_valid])
    have "validate_new candidate = Inr ()"
      unfolding that(1) by (rule automatic_reservation_valid)
        (use that in \<open>auto simp: resolution_ok_def in_utc_def is_zero_time_def unix_milli_def\<close>)
    then show "case CreateReservation candidate of CreateReservation r \<Rightarrow> validate_new r = Inr () | _ \<Rightarrow> True" by simp
  qed
  have find: "sv_find ?sv = Some (find_program rd sn)" by (simp add: snapshot_service_def)
  show ?thesis
    unfolding add_reservation_def find option.case Let_def
    by (rule triple_if keep_valid triple_bind [OF clock] triple_bind [OF ids] triple_bind [OF resolve_valid [OF assms(1,2)]] triple_known
        create [OF refl] triple_option
      | (split sum.split prod.split, intro allI impI conjI) | simp_all)+
qed

text \<open>C35. (safety): a reservation that is added over the snapshot \<open>BuildSnapshot\<close> made, with a catalog that
  stores programs under identifiers and accepted titles, reaches the store only as one that passes the validation of a new
  reservation, with or without a one-seg output and however the operation ends.\<close>

theorem additions_valid:
  assumes "fst (build_snapshot context sha loaded rd s') = Inr sn" "stores_programs rd"
    and "\<And>s. fst (sv_new_id sv s) \<noteq> Some 0" "\<And>s. 0 \<le> unix_milli (fst (sv_now sv s))"
  shows "list_all (\<lambda>e. case e of Stored (CreateReservation r) _ \<Rightarrow> validate_new r = Inr () | _ \<Rightarrow> True)
    (sr_log (snd (add_reservation (snapshot_service rd live sn sv) request \<lparr>sr_world = w, sr_log = []\<rparr>)))"
  using triple_invariant [OF add_valid [OF built_ok [OF assms(1)] assms(2-4), of live request], of "\<lparr>sr_world = w, sr_log = []\<rparr>"]
  by (simp add: valid_additions_def)

definition sample_service :: "nat reservation_service" where
  "sample_service =
     \<lparr>sv_find = None, sv_one_seg = None, sv_create = (\<lambda>r n. (Some (r\<lparr>r_number := 1\<rparr>), n)), sv_active = (\<lambda>_ _ n. (Some [], n)),
      sv_update = (\<lambda>_ _ n. (True, n)), sv_stop = (\<lambda>_ _ n. (None, n)), sv_recording = (\<lambda>_ n. (Some False, n)),
      sv_now = (\<lambda>n. (\<lparr>t_nanos = 1599999000 * second, t_utc = True\<rparr>, n)), sv_new_id = (\<lambda>n. (Some 9, n + 1)), sv_on_added = True,
      sv_on_stop = True\<rparr>"

lemma sample_request_valid: "reservation_request_valid (sample_request 2 False)"
  by (simp add: sample_request_def reservation_request_valid_def program_time_valid_def utc_instant_def is_zero_time_def zero_nanos_def
      unix_milli_def recording_time_valid_def effective_margins_def add_duration_def after_time_def sub_time_def Let_def
      output_settings_valid_def component_mode_valid_def post_recording_valid_def post_recording_mode_valid_def)

lemma sample_program_found:
  "\<exists>p. find_program sample_reader sample_snapshot (sample_request 2 False) = (\<lambda>n. (Some p, n)) \<and>
    p_start p = rq_start (sample_request 2 False) \<and> p_duration p = 30 * minute"
proof -
  have "requested_service sample_snapshot (sample_request 2 False) = Some sample_channel"
    by (simp add: requested_service_def sample_snapshot_def sample_request_def identity_of_def sample_channel_def joined_service_def
        sample_map_def the_only_def)
  moreover have "cs_locator sample_channel = [49]" by (simp add: sample_channel_def joined_service_def sample_map_def)
  moreover have "canonical_service_locator [49]"
    by (simp add: canonical_service_locator_def digits_def digits_value_def decimal_def numerals.simps digit_def)
  moreover have "program_row_matches (sample_request 2 False) [49] sample_current"
    by (simp add: program_row_matches_def sample_current_def sample_request_def unix_milli_def milliseconds_def)
  moreover have "ca_matching sample_reader b g l e t d n = (Some [sample_current], n)" "sn_programs sample_snapshot" for b g l e t d n
    by (simp_all add: sample_reader_def sample_snapshot_def)
  ultimately have "find_program sample_reader sample_snapshot (sample_request 2 False) n =
      (Some (program_snapshot_of sample_snapshot (sample_request 2 False) sample_channel sample_current), n)" for n
    by (simp add: find_program_def sample_request_valid the_only_def)
  then show ?thesis by (auto simp: fun_eq_iff program_snapshot_of_def) (simp add: sample_request_def)
qed

text \<open>The reservation of the sample program reaches the store and is announced.\<close>

theorem additions_valid_witness:
  "\<exists>r. sr_log (snd (add_reservation (snapshot_service sample_reader (\<lambda>_. True) sample_snapshot sample_service) (sample_request 2 False)
      \<lparr>sr_world = 0, sr_log = []\<rparr>)) = [Stored (CreateReservation r) True, Announced] \<and> validate_new r = Inr ()"
proof -
  obtain p where p: "find_program sample_reader sample_snapshot (sample_request 2 False) = (\<lambda>n. (Some p, n))"
    "p_start p = rq_start (sample_request 2 False)" "p_duration p = 30 * minute"
    using sample_program_found by blast
  have "\<exists>r. sr_log (snd (add_reservation (snapshot_service sample_reader (\<lambda>_. True) sample_snapshot sample_service) (sample_request 2 False)
      \<lparr>sr_world = 0, sr_log = []\<rparr>)) = [Stored (CreateReservation r) True, Announced]"
    using p
    by (simp add: add_reservation_def snapshot_service_def sample_service_def sample_request_valid act_bind_def inquire_def is_zero_time_def
        zero_nanos_def resolve_requested_def act_return_def same_program_time_def planned_end_def automatic_reservation_def
        effective_margins_def add_duration_def after_time_def store_call_def act_seq_def record_event_def act_modify_def announce_def
        act_when_def Let_def) (simp add: sample_request_def)
  then show ?thesis
    using additions_valid [OF sample_built sample_stores, of sample_service "\<lambda>_. True" "sample_request 2 False" 0]
    by (auto simp: sample_service_def unix_milli_def)
qed

section \<open>The pass over the catalog\<close>

definition counts_fit :: "(follow_request \<times> bool option) list \<Rightarrow> follow_counts \<Rightarrow> bool" where
  "counts_fit requests c \<longleftrightarrow>
     fo_updated c = length (filter (\<lambda>x. snd x = Some True) requests) \<and>
     fo_blocked c = length (filter (\<lambda>x. snd x = Some False) requests) \<and> fo_evaluated c \<le> max_active_reservations"

definition following :: "nat \<Rightarrow> 's follow_run \<Rightarrow> bool" where
  "following open_items s \<longleftrightarrow>
     counts_fit (fr_requests s) (fr_counts s) \<and>
     fo_evaluated (fr_counts s) = fo_updated (fr_counts s) + fo_unchanged (fr_counts s) + fo_blocked (fr_counts s) + open_items \<and>
     \<not> fr_announced s"

definition follow_failed :: "'s follow_run \<Rightarrow> bool" where
  "follow_failed s \<longleftrightarrow> following 0 s \<or> following 1 s"

lemma follow_ask_following: "outcomes (following n) (follow_ask f) (\<lambda>_. following n) E"
  by (auto simp: outcomes_def follow_ask_def following_def split: prod.splits)

lemma unchanged_following:
  "outcomes (following 1) (follow_count (\<lambda>c. c\<lparr>fo_unchanged := fo_unchanged c + 1\<rparr>)) (\<lambda>_. following 0) E"
  by (auto simp: outcomes_def follow_count_def act_modify_def following_def counts_fit_def)

lemma fail_following: "outcomes (following 1) (act_fail e) Q (\<lambda>_. follow_failed)"
  by (simp add: outcomes_def act_fail_def follow_failed_def)

lemma apply_following:
  "outcomes (following 1) (apply_follow fs request) (\<lambda>_. following 0) (\<lambda>_. follow_failed)"
  by (auto simp: outcomes_def apply_follow_def act_bind_def act_seq_def follow_ask_def act_modify_def act_fail_def follow_count_def
      following_def follow_failed_def counts_fit_def split: prod.splits option.splits bool.splits)

lemma follow_reservation_following:
  "outcomes (\<lambda>s. following 0 s \<and> fo_evaluated (fr_counts s) < max_active_reservations) (follow_reservation fs t r)
     (\<lambda>_. following 0) (\<lambda>_. follow_failed)"
proof -
  let ?x = "fs_extension_only fs"
  have counted: "outcomes (\<lambda>s. following 0 s \<and> fo_evaluated (fr_counts s) < max_active_reservations)
      (follow_count (\<lambda>c. c\<lparr>fo_evaluated := fo_evaluated c + 1\<rparr>)) (\<lambda>_. following 1) (\<lambda>_. follow_failed)"
    by (auto simp: outcomes_def follow_count_def act_modify_def following_def counts_fit_def)
  show ?thesis
    unfolding follow_reservation_def Let_def
    by (rule triple_seq [OF counted] triple_if unchanged_following triple_bind [OF follow_ask_following] triple_option fail_following
        apply_following | assumption)+
qed

text \<open>
  What the pass read, beside the world: the reservations of every page that the store answered, and every question for a
  target with its answer.  The service that notes them does what the service does.
\<close>

record 's observed =
  ob_world :: 's
  ob_listed :: "reservation list"
  ob_asked :: "(entity_id \<times> entity_id \<times> follow_target option option) list"

definition watch :: "('s \<Rightarrow> 'a \<times> 's) \<Rightarrow> ('a \<Rightarrow> 's observed \<Rightarrow> 's observed) \<Rightarrow> 's observed \<Rightarrow> 'a \<times> 's observed" where
  "watch f note o' = (case f (ob_world o') of (x, w) \<Rightarrow> (x, note x (o'\<lparr>ob_world := w\<rparr>)))"

definition observe_follow :: "'s follow_service \<Rightarrow> 's observed follow_service" where
  "observe_follow fs =
     \<lparr>fs_active = (\<lambda>n after. watch (fs_active fs n after)
        (\<lambda>answer o'. o'\<lparr>ob_listed := ob_listed o' @ (case answer of None \<Rightarrow> [] | Some page \<Rightarrow> page)\<rparr>)),
      fs_target = (\<lambda>b i. watch (fs_target fs b i) (\<lambda>answer o'. o'\<lparr>ob_asked := ob_asked o' @ [(b, i, answer)]\<rparr>)),
      fs_apply = (\<lambda>request. watch (fs_apply fs request) (\<lambda>_ o'. o')), fs_now = watch (fs_now fs) (\<lambda>_ o'. o'),
      fs_extension_only = fs_extension_only fs, fs_on_updated = fs_on_updated fs\<rparr>"

definition unobserved :: "'s observed follow_run \<Rightarrow> 's follow_run" where
  "unobserved s =
     \<lparr>fr_world = ob_world (fr_world s), fr_counts = fr_counts s, fr_requests = fr_requests s, fr_announced = fr_announced s\<rparr>"

definition observed_from :: "'s \<Rightarrow> 's observed" where
  "observed_from w = \<lparr>ob_world = w, ob_listed = [], ob_asked = []\<rparr>"

text \<open>The target that a reservation has to move to, when the catalog's answer is one.\<close>

definition moved_target :: "reservation \<Rightarrow> follow_target option option \<Rightarrow> follow_target option" where
  "moved_target r answer =
     (case answer of
        Some (Some target) \<Rightarrow>
          if ft_instance_id target = p_instance_id (r_program r) \<and> ft_revision_id target \<noteq> p_revision_id (r_program r) \<and>
             (t_nanos (ft_start target) \<noteq> t_nanos (p_start (r_program r)) \<or> ft_duration target \<noteq> p_duration (r_program r))
          then Some target else None
      | _ \<Rightarrow> None)"

text \<open>The requests for the reservations \<open>rs\<close> whose targets were answered as \<open>answers\<close>.\<close>

definition requests_for ::
    "instant \<Rightarrow> bool \<Rightarrow> reservation list \<Rightarrow> follow_target option option list \<Rightarrow> follow_request list" where
  "requests_for t extension_only rs answers =
     concat (map2 (\<lambda>r answer.
       case moved_target r answer of
         None \<Rightarrow> []
       | Some target \<Rightarrow>
           [\<lparr>fw_reservation_id = r_id r, fw_expected_version = r_version r,
             fw_expected_revision_id = p_revision_id (r_program r), fw_target_revision_id = ft_revision_id target, fw_now = t,
             fw_extension_only = extension_only\<rparr>]) rs answers)"

definition followed :: "reservation list \<Rightarrow> reservation list" where
  "followed rs = filter r_requested_follow rs"

definition trail :: "instant \<Rightarrow> bool \<Rightarrow> reservation list \<Rightarrow> reservation list \<Rightarrow> 's observed follow_run \<Rightarrow> bool" where
  "trail t extension_only past rest s \<longleftrightarrow>
     (let asked = ob_asked (fr_world s) in
      ob_listed (fr_world s) = past @ rest \<and> length past = fo_evaluated (fr_counts s) \<and>
      sorted_wrt (<) (0 # map r_number past) \<and>
      map (\<lambda>(b, i, answer). (b, i)) asked = map (\<lambda>r. (p_backend_id (r_program r), p_instance_id (r_program r))) (followed past) \<and>
      map fst (fr_requests s) = requests_for t extension_only (followed past) (map (\<lambda>(b, i, answer). answer) asked))"

lemma requests_for_snoc:
  "length rs = length answers \<Longrightarrow>
   requests_for t x (rs @ [r]) (answers @ [answer]) = requests_for t x rs answers @ requests_for t x [r] [answer]"
  by (simp add: requests_for_def)

lemma asked_length:
  "map (\<lambda>(b, i, answer). (b, i)) asked = map f rs \<Longrightarrow> length rs = length asked"
  by (metis length_map)

lemma sorted_wrt_snoc_last:
  "sorted_wrt (<) (x # xs) \<Longrightarrow> last (x # xs) < (y :: int) \<Longrightarrow> sorted_wrt (<) (x # xs @ [y])"
  by (cases xs rule: rev_cases) (auto simp: sorted_wrt_append)

lemma moved_unchanged:
  "target_unchanged r target \<longleftrightarrow> moved_target r (Some target) = None"
  "\<not> target_unchanged r target \<Longrightarrow> moved_target r (Some target) = Some (the target)"
  "moved_target r None = None"
  by (auto simp: target_unchanged_def moved_target_def split: option.splits)

lemma follow_reservation_trail:
  assumes "trail t (fs_extension_only fs) past (r # rest) s" "last (0 # map r_number past) < r_number r"
  shows "trail t (fs_extension_only fs) (past @ [r]) rest (snd (follow_reservation (observe_follow fs) t r s))"
proof -
  have order: "sorted_wrt (<) (0 # map r_number (past @ [r]))"
    using sorted_wrt_snoc_last [of 0 "map r_number past" "r_number r"] assms by (simp add: trail_def Let_def)
  let ?asked = "ob_asked (fr_world s)"
  have known: "ob_listed (fr_world s) = past @ r # rest" "length past = fo_evaluated (fr_counts s)"
    "map (\<lambda>(b, i, answer). (b, i)) ?asked = map (\<lambda>r. (p_backend_id (r_program r), p_instance_id (r_program r))) (followed past)"
    "map fst (fr_requests s) = requests_for t (fs_extension_only fs) (followed past) (map (\<lambda>(b, i, answer). answer) ?asked)"
    using assms(1) by (simp_all add: trail_def Let_def)
  have one: "requests_for t (fs_extension_only fs) (followed past @ [r]) (map (\<lambda>(b, i, answer). answer) ?asked @ [answer]) =
      map fst (fr_requests s) @ requests_for t (fs_extension_only fs) [r] [answer]" for answer
    using requests_for_snoc asked_length [OF known(3)] known(4) by simp
  obtain answer w1 where target:
    "fs_target fs (p_backend_id (r_program r)) (p_instance_id (r_program r)) (ob_world (fr_world s)) = (answer, w1)"
    by fastforce
  show ?thesis
  proof (cases "r_requested_follow r")
    case False
    then show ?thesis using known order
      by (simp add: follow_reservation_def act_seq_def act_bind_def follow_count_def act_modify_def trail_def Let_def followed_def)
  next
    case follows: True
    show ?thesis
    proof (cases "moved_target r answer")
      case None
      then have "case answer of None \<Rightarrow> True | Some target \<Rightarrow> target_unchanged r target"
        by (cases answer) (simp_all add: moved_unchanged(1))
      then show ?thesis using known order one [of answer] follows None target
        by (cases answer) (simp_all add: follow_reservation_def act_seq_def act_bind_def follow_count_def act_modify_def trail_def Let_def
            followed_def follow_ask_def observe_follow_def watch_def act_fail_def requests_for_def)
    next
      case (Some goal)
      then obtain given where given: "answer = Some (Some goal)" "\<not> target_unchanged r (Some goal)"
        by (auto simp: moved_target_def target_unchanged_def split: option.splits if_splits)
      let ?request = "follow_request_of (fs_extension_only fs) t r goal"
      obtain applied w2 where "fs_apply fs ?request w1 = (applied, w2)" by fastforce
      then show ?thesis using known order one [of answer] follows Some target given
        by (cases applied; cases "the applied")
          (simp_all add: follow_reservation_def act_seq_def act_bind_def follow_count_def act_modify_def trail_def Let_def
            followed_def follow_ask_def observe_follow_def watch_def act_fail_def requests_for_def apply_follow_def follow_request_of_def)
    qed
  qed
qed

lemma follow_page_following:
  "outcomes (following 0) (follow_page fs t after page)
     (\<lambda>_. following 0) (\<lambda>_. follow_failed)"
proof (induction page arbitrary: after)
  case (Cons r page)
  let ?x = "fs_extension_only fs"
  have seen: "outcomes (following 0) (act_get (\<lambda>s. fo_evaluated (fr_counts s)))
      (\<lambda>n s. following 0 s \<and> fo_evaluated (fr_counts s) = n) E" for E
    by (simp add: outcomes_def act_get_def)
  have failed: "outcomes (\<lambda>s. following 0 s \<and> fo_evaluated (fr_counts s) = n) (act_fail e) Q (\<lambda>_. follow_failed)" for n e Q
    by (simp add: outcomes_def act_fail_def follow_failed_def)
  have one: "outcomes (\<lambda>s. following 0 s \<and> fo_evaluated (fr_counts s) = n) (follow_reservation fs t r)
      (\<lambda>_. following 0) (\<lambda>_. follow_failed)"
    if "\<not> (r_number r \<le> after \<or> n \<ge> max_active_reservations)" for n
    by (rule triple_pre [OF follow_reservation_following]) (use that in auto)
  show ?case
    unfolding follow_page.simps
    by (rule triple_bind [OF seen] triple_if failed triple_seq one Cons.IH | assumption)+
qed (simp add: outcomes_def act_return_def)

definition some_trail :: "instant \<Rightarrow> bool \<Rightarrow> 's observed follow_run \<Rightarrow> bool" where
  "some_trail t extension_only s \<longleftrightarrow> (\<exists>past rest. trail t extension_only past rest s)"

definition trail_to :: "instant \<Rightarrow> bool \<Rightarrow> int \<Rightarrow> reservation list \<Rightarrow> 's observed follow_run \<Rightarrow> bool" where
  "trail_to t extension_only after rest s \<longleftrightarrow>
     (\<exists>past. trail t extension_only past rest s \<and> last (0 # map r_number past) = after)"

lemma trail_to_some: "trail_to t x after rest s \<Longrightarrow> some_trail t x s"
  by (auto simp: trail_to_def some_trail_def)

lemma follow_page_trail:
  "trail_to t (fs_extension_only fs) after page s \<Longrightarrow>
   case follow_page (observe_follow fs) t after page s of
     (Inl e, s') \<Rightarrow> some_trail t (fs_extension_only fs) s'
   | (Inr after', s') \<Rightarrow> trail_to t (fs_extension_only fs) after' [] s'"
proof (induction page arbitrary: after s)
  case (Cons r page)
  let ?x = "fs_extension_only fs"
  obtain y s1 where one: "follow_reservation (observe_follow fs) t r s = (y, s1)" by fastforce
  show ?case
  proof (cases "r_number r \<le> after \<or> fo_evaluated (fr_counts s) \<ge> max_active_reservations")
    case True
    then show ?thesis using trail_to_some [OF Cons.prems] by (auto simp: act_bind_def act_get_def act_fail_def)
  next
    case False
    from Cons.prems obtain past where past: "trail t ?x past (r # page) s" "last (0 # map r_number past) = after"
      by (auto simp: trail_to_def)
    from follow_reservation_trail [OF past(1)] past(2) False one have next_trail: "trail t ?x (past @ [r]) page s1" by simp
    then have "trail_to t ?x (r_number r) page s1" by (auto simp: trail_to_def intro!: exI [of _ "past @ [r]"])
    then show ?thesis using Cons.IH [of "r_number r" s1] one False trail_to_some
      by (cases y) (auto simp: act_bind_def act_get_def act_seq_def)
  qed
qed (simp add: act_return_def)

lemma trail_ask:
  assumes "trail t x past [] s"
  shows "trail t x past page (s\<lparr>fr_world := (fr_world s)\<lparr>ob_world := w, ob_listed := ob_listed (fr_world s) @ page\<rparr>\<rparr>)"
  using assms by (simp add: trail_def Let_def)

lemma ask_page_trail:
  assumes "trail_to t x after [] s" "follow_ask (fs_active (observe_follow fs) n after) s = (Inr answer, s1)"
  shows "case answer of None \<Rightarrow> some_trail t x s1 | Some page \<Rightarrow> trail_to t x after page s1"
proof -
  from assms(1) obtain past where past: "trail t x past [] s" "last (0 # map r_number past) = after"
    by (auto simp: trail_to_def)
  obtain page w where "fs_active fs n after (ob_world (fr_world s)) = (page, w)" by fastforce
  then have s1: "answer = page" "s1 = s\<lparr>fr_world := (fr_world s)\<lparr>ob_world := w,
      ob_listed := ob_listed (fr_world s) @ (case page of None \<Rightarrow> [] | Some page \<Rightarrow> page)\<rparr>\<rparr>"
    using assms(2) by (auto simp: follow_ask_def observe_follow_def watch_def)
  have "trail t x past (case answer of None \<Rightarrow> [] | Some page \<Rightarrow> page) s1"
    unfolding s1 by (rule trail_ask [OF past(1)])
  with past(2) have "trail_to t x after (case answer of None \<Rightarrow> [] | Some page \<Rightarrow> page) s1"
    unfolding trail_to_def by (intro exI [of _ past] conjI)
  then show ?thesis by (cases answer) (simp_all add: trail_to_some)
qed

definition follow_done :: "'s follow_service \<Rightarrow> 's follow_run \<Rightarrow> bool" where
  "follow_done fs s \<longleftrightarrow>
     following 0 (s\<lparr>fr_announced := False\<rparr>) \<and>
     (fr_announced s \<longleftrightarrow> fo_updated (fr_counts s) > 0 \<and> fs_on_updated fs)"

text \<open>What holds before every page, after every question and after every page holds in the end.\<close>

lemma follow_pages_rule:
  assumes "\<And>after s answer s1. P after s \<Longrightarrow> follow_ask (fs_active fs max_page after) s = (Inr answer, s1) \<Longrightarrow>
      (case answer of None \<Rightarrow> E s1 | Some page \<Rightarrow> Q after page s1)"
    and "\<And>after page s. Q after page s \<Longrightarrow> E s"
    and "\<And>after page. outcomes (Q after page) (follow_page fs t after page) P (\<lambda>_. E)"
    and "\<And>after s. P after s \<Longrightarrow> D (if fo_updated (fr_counts s) > 0 \<and> fs_on_updated fs then s\<lparr>fr_announced := True\<rparr> else s)"
    and "P after s"
  shows "case follow_pages fs t after s of (Inl e, s') \<Rightarrow> E s' | (Inr u, s') \<Rightarrow> D s'"
  using assms
proof (induction fs t after s rule: follow_pages.induct)
  case (1 fs t after s)
  obtain answer s1 where ask: "follow_ask (fs_active fs max_page after) s = (Inr answer, s1)"
    by (cases "follow_ask (fs_active fs max_page after) s") (auto simp: follow_ask_def split: prod.splits)
  note asked = 1(2) [OF 1(6) ask]
  show ?case
  proof (cases "answer = None \<or> length (the answer) > max_page")
    case True
    then show ?thesis using asked 1(3) ask by (cases answer) (auto simp: follow_pages.simps [of fs t after s])
  next
    case False
    then obtain page where page: "answer = Some page" "\<not> length page > max_page" by auto
    then have s1: "Q after page s1" using asked by simp
    obtain x s2 where run: "follow_page fs t after page s1 = (x, s2)" by fastforce
    show ?thesis
    proof (cases x)
      case (Inl e)
      from tripleD(1) [OF 1(4) s1 run [unfolded Inl]] show ?thesis
        using ask page run Inl by (simp add: follow_pages.simps [of fs t after s])
    next
      case (Inr after')
      from tripleD(2) [OF 1(4) s1 run [unfolded Inr]] have s2: "P after' s2" .
      show ?thesis
      proof (cases "length page < max_page")
        case True
        then show ?thesis using 1(5) [OF s2] ask page run Inr by (simp add: follow_pages.simps [of fs t after s])
      next
        case more: False
        have "follow_pages fs t after s = follow_pages fs t after' s2"
          using ask page run Inr more by (simp add: follow_pages.simps [of fs t after s])
        with 1(1) [of "Inr (Some page)" s1 "Some page" page x s2 after'] ask page run Inr more s2 1(2-5) show ?thesis by simp
      qed
    qed
  qed
qed

lemma follow_pages_done:
  fixes fs :: "'s follow_service"
  assumes "following 0 s" "trail_to t (fs_extension_only fs) after [] s"
  shows "case follow_pages (observe_follow fs) t after s of
     (Inl e, s') \<Rightarrow> follow_failed s' \<and> some_trail t (fs_extension_only fs) s'
   | (Inr u, s') \<Rightarrow> follow_done (observe_follow fs) s' \<and> (\<exists>past. trail t (fs_extension_only fs) past [] s')"
proof -
  let ?x = "fs_extension_only fs" and ?fs = "observe_follow fs"
  have x: "fs_extension_only ?fs = ?x" by (simp add: observe_follow_def)
  show ?thesis
  proof (rule follow_pages_rule [where P = "\<lambda>after s. following 0 s \<and> trail_to t ?x after [] s"
        and Q = "\<lambda>after page s. following 0 s \<and> trail_to t ?x after page s"
        and E = "\<lambda>s. follow_failed s \<and> some_trail t ?x s"
        and D = "\<lambda>s. follow_done ?fs s \<and> (\<exists>past. trail t ?x past [] s)"])
    fix after answer and s s1 :: "'s observed follow_run"
    assume before: "following 0 s \<and> trail_to t ?x after [] s"
      and ask: "follow_ask (fs_active ?fs max_page after) s = (Inr answer, s1)"
    have "following 0 s1" using tripleD(2) [OF follow_ask_following _ ask] before by blast
    then show "case answer of None \<Rightarrow> follow_failed s1 \<and> some_trail t ?x s1
        | Some page \<Rightarrow> following 0 s1 \<and> trail_to t ?x after page s1"
      using ask_page_trail [OF conjunct2 [OF before] ask] by (cases answer) (auto simp: follow_failed_def)
  next
    fix after page and s :: "'s observed follow_run"
    assume "following 0 s \<and> trail_to t ?x after page s"
    then show "follow_failed s \<and> some_trail t ?x s" using trail_to_some by (auto simp: follow_failed_def)
  next
    fix after page
    show "outcomes (\<lambda>s. following 0 s \<and> trail_to t ?x after page s) (follow_page ?fs t after page)
        (\<lambda>after s. following 0 s \<and> trail_to t ?x after [] s) (\<lambda>_ s. follow_failed s \<and> some_trail t ?x s)"
      using follow_page_following [of ?fs t after page] follow_page_trail [of t fs after page]
      by (fastforce simp: outcomes_def x split: prod.splits sum.splits)
  next
    fix after and s :: "'s observed follow_run"
    assume "following 0 s \<and> trail_to t ?x after [] s"
    then show "follow_done ?fs (if fo_updated (fr_counts s) > 0 \<and> fs_on_updated ?fs then s\<lparr>fr_announced := True\<rparr> else s) \<and>
        (\<exists>past. trail t ?x past [] (if fo_updated (fr_counts s) > 0 \<and> fs_on_updated ?fs then s\<lparr>fr_announced := True\<rparr> else s))"
      by (auto simp: follow_done_def following_def x trail_to_def trail_def Let_def)
  qed (use assms in simp)
qed

text \<open>The service that notes what it reads does what the service does.\<close>

lemma watch_unobserved: "map_prod id ob_world (watch f note o') = f (ob_world o')"
  if "\<And>x o'. ob_world (note x o') = ob_world o'"
  using that by (simp add: watch_def split: prod.splits)

lemma unobserved_ask:
  assumes "\<And>o'. map_prod id ob_world (f' o') = f (ob_world o')"
  shows "map_prod id unobserved (follow_ask f' s) = follow_ask f (unobserved s)"
  using assms [of "fr_world s", symmetric]
  by (cases "f' (fr_world s)") (simp add: follow_ask_def unobserved_def map_prod_def split: prod.splits)

lemma unobserved_bind:
  assumes "map_prod id unobserved (m' s) = m (unobserved s)"
    and "\<And>x s. map_prod id unobserved (k' x s) = k x (unobserved s)"
  shows "map_prod id unobserved (act_bind m' k' s) = act_bind m k (unobserved s)"
  using assms(1) assms(2) by (cases "m' s"; cases "fst (m' s)") (auto simp: act_bind_def dest: sym)

lemma unobserved_observe:
  "map_prod id ob_world (fs_active (observe_follow fs) n after o') = fs_active fs n after (ob_world o')"
  "map_prod id ob_world (fs_target (observe_follow fs) b i o') = fs_target fs b i (ob_world o')"
  "map_prod id ob_world (fs_apply (observe_follow fs) request o') = fs_apply fs request (ob_world o')"
  "map_prod id ob_world (fs_now (observe_follow fs) o') = fs_now fs (ob_world o')"
  "fs_extension_only (observe_follow fs) = fs_extension_only fs" "fs_on_updated (observe_follow fs) = fs_on_updated fs"
  by (simp_all add: observe_follow_def watch_unobserved)

lemma unobserved_basic:
  "map_prod id unobserved (act_fail e s) = act_fail e (unobserved s)"
  "map_prod id unobserved (act_return x s) = act_return x (unobserved s)"
  "map_prod id unobserved (follow_count f s) = follow_count f (unobserved s)"
  "map_prod id unobserved (act_get (\<lambda>s. fo_evaluated (fr_counts s)) s) = act_get (\<lambda>s. fo_evaluated (fr_counts s)) (unobserved s)"
  "map_prod id unobserved (act_modify (\<lambda>s. s\<lparr>fr_requests := fr_requests s @ [y]\<rparr>) s) =
   act_modify (\<lambda>s. s\<lparr>fr_requests := fr_requests s @ [y]\<rparr>) (unobserved s)"
  by (simp_all add: act_fail_def act_return_def follow_count_def act_get_def act_modify_def unobserved_def)

lemma unobserved_reservation:
  "map_prod id unobserved (follow_reservation (observe_follow fs) t r s) = follow_reservation fs t r (unobserved s)"
  unfolding follow_reservation_def apply_follow_def act_seq_def Let_def unobserved_observe(5)
  by (intro unobserved_bind unobserved_ask unobserved_observe unobserved_basic)
    (auto intro!: unobserved_bind unobserved_ask unobserved_observe unobserved_basic split: option.split bool.split)

lemma unobserved_page:
  "map_prod id unobserved (follow_page (observe_follow fs) t after page s) = follow_page fs t after page (unobserved s)"
proof (induction page arbitrary: after s)
  case (Cons r page)
  show ?case
    unfolding follow_page.simps act_seq_def
    by (rule unobserved_bind, rule unobserved_basic)
      (auto intro!: unobserved_bind unobserved_reservation unobserved_basic Cons.IH)
qed (simp add: unobserved_basic)

lemma unobserved_pages:
  "map_prod id unobserved (follow_pages (observe_follow fs) t after s) = follow_pages fs t after (unobserved s)"
proof (induction "observe_follow fs" t after s rule: follow_pages.induct)
  case (1 t after s)
  let ?fs = "observe_follow fs"
  obtain answer s1 where ask: "follow_ask (fs_active ?fs max_page after) s = (Inr answer, s1)"
    by (cases "follow_ask (fs_active ?fs max_page after) s") (auto simp: follow_ask_def split: prod.splits)
  have plain: "follow_ask (fs_active fs max_page after) (unobserved s) = (Inr answer, unobserved s1)"
    using unobserved_ask [of "fs_active ?fs max_page after" "fs_active fs max_page after" s, OF unobserved_observe(1)] ask
    by simp
  note pages = follow_pages.simps [of ?fs t after s] follow_pages.simps [of fs t after "unobserved s"]
  show ?case
  proof (cases "answer = None \<or> length (the answer) > max_page")
    case True
    then show ?thesis by (cases answer) (auto simp: pages ask plain)
  next
    case False
    then obtain page where page: "answer = Some page" "\<not> length page > max_page" by auto
    obtain x s2 where run: "follow_page ?fs t after page s1 = (x, s2)" by fastforce
    have plain_run: "follow_page fs t after page (unobserved s1) = (x, unobserved s2)"
      using unobserved_page [of fs t after page s1] run by simp
    have more: "map_prod id unobserved (follow_pages ?fs t after' s2) = follow_pages fs t after' (unobserved s2)"
      if "x = Inr after'" "\<not> length page < max_page" for after'
      using 1 [of "Inr (Some page)" s1 "Some page" page x s2 after'] ask page run that by simp
    show ?thesis
    proof (cases x)
      case (Inl e)
      then show ?thesis using page by (simp add: pages ask plain run plain_run)
    next
      case (Inr after')
      then show ?thesis using page more [OF Inr]
        by (simp add: pages ask plain run plain_run unobserved_observe(6)) (simp add: unobserved_def)
    qed
  qed
qed

lemma unobserved_run: "map_prod id unobserved (run_follow (observe_follow fs) s) = run_follow fs (unobserved s)"
  unfolding run_follow_def
  by (rule unobserved_bind, rule unobserved_ask, rule unobserved_observe) (auto simp: unobserved_basic unobserved_pages)

text \<open>C37. (invariant): a pass over the reservations evaluates at most 16384 of them, which are the first of those
  that the pages listed, all of them when it succeeds, and each once: their numbers increase from 1 on.  The catalog is asked
  once for every evaluated reservation that follows, in order, and the requests are exactly those for the answers that have
  the same programme in another revision at another time: each with the identifier, the version and the revision of the
  listed reservation, the revision of the answer and the time of the pass.  When it succeeds, every reservation is counted as
  updated, unchanged or blocked, and when it fails at most the last one is not; the updated and the blocked are exactly the
  requests that the store applied and refused, and the news is sent only by a pass that succeeded and updated something.
  The run is that of the service itself, with what it read noted beside the world.\<close>

theorem follow_accounts:
  "map_prod id unobserved (run_follow (observe_follow fs) (start_follow (observed_from w))) = run_follow fs (start_follow w) \<and>
   (case run_follow (observe_follow fs) (start_follow (observed_from w)) of (outcome, s) \<Rightarrow>
      let counts = fr_counts s; listed = ob_listed (fr_world s); past = take (fo_evaluated counts) listed;
          asked = ob_asked (fr_world s); settled = fo_updated counts + fo_unchanged counts + fo_blocked counts
      in fo_evaluated counts \<le> max_active_reservations \<and> fo_evaluated counts \<le> length listed \<and>
         sorted_wrt (<) (0 # map r_number past) \<and>
         map (\<lambda>(b, i, answer). (b, i)) asked = map (\<lambda>r. (p_backend_id (r_program r), p_instance_id (r_program r))) (followed past) \<and>
         map fst (fr_requests s) =
           requests_for (in_utc (fst (fs_now fs w))) (fs_extension_only fs) (followed past) (map (\<lambda>(b, i, answer). answer) asked) \<and>
         counts_fit (fr_requests s) counts \<and>
         (case outcome of
            Inl e \<Rightarrow> \<not> fr_announced s \<and> (fo_evaluated counts = settled \<or> fo_evaluated counts = settled + 1)
          | Inr u \<Rightarrow> past = listed \<and> fo_evaluated counts = settled \<and>
              (fr_announced s \<longleftrightarrow> fo_updated counts > 0 \<and> fs_on_updated fs)))"
proof -
  let ?x = "fs_extension_only fs" and ?fs = "observe_follow fs" and ?s = "start_follow (observed_from w)"
  obtain t w' where t: "fs_now fs w = (t, w')" by fastforce
  have start: "following 0 (start_follow (observed_from w'))" "trail_to (in_utc t) ?x 0 [] (start_follow (observed_from w'))"
    by (simp_all add: following_def start_follow_def counts_fit_def trail_to_def trail_def observed_from_def requests_for_def followed_def)
  have asked: "follow_ask (fs_now ?fs) ?s = (Inr t, start_follow (observed_from w'))"
    by (simp add: follow_ask_def t start_follow_def observe_follow_def watch_def observed_from_def)
  have run: "case run_follow ?fs ?s of
      (Inl e, s') \<Rightarrow> follow_failed s' \<and> some_trail (in_utc t) ?x s'
    | (Inr u, s') \<Rightarrow> follow_done ?fs s' \<and> (\<exists>past. trail (in_utc t) ?x past [] s')"
  proof (cases "is_zero_time (in_utc t) \<or> unix_milli (in_utc t) < 0")
    case True
    then show ?thesis using start trail_to_some [OF start(2)]
      by (simp add: run_follow_def act_bind_def asked act_fail_def follow_failed_def)
  next
    case False
    then show ?thesis using follow_pages_done [OF start] by (simp add: run_follow_def act_bind_def asked)
  qed
  have same: "unobserved ?s = start_follow w" by (simp add: unobserved_def start_follow_def observed_from_def)
  obtain outcome s where result: "run_follow ?fs ?s = (outcome, s)" by fastforce
  have "some_trail (in_utc t) ?x s" using run result by (cases outcome) (auto simp: some_trail_def)
  then obtain past rest where trail: "trail (in_utc t) ?x past rest s" by (auto simp: some_trail_def)
  then have past: "past = take (fo_evaluated (fr_counts s)) (ob_listed (fr_world s))"
    "fo_evaluated (fr_counts s) \<le> length (ob_listed (fr_world s))"
    by (simp_all add: trail_def Let_def)
  have counts: "counts_fit (fr_requests s) (fr_counts s)"
    using run result by (cases outcome) (auto simp: follow_failed_def follow_done_def following_def)
  have ended: "case outcome of
      Inl e \<Rightarrow> \<not> fr_announced s \<and> follow_failed s
    | Inr u \<Rightarrow> take (fo_evaluated (fr_counts s)) (ob_listed (fr_world s)) = ob_listed (fr_world s) \<and> follow_done ?fs s"
    using run result by (cases outcome) (auto simp: trail_def Let_def follow_failed_def following_def)
  have on: "fs_on_updated ?fs = fs_on_updated fs" by (simp add: observe_follow_def)
  show ?thesis
    unfolding result Let_def prod.case t fst_conv past(1) [symmetric]
  proof (intro conjI)
    show "map_prod id unobserved (outcome, s) = run_follow fs (start_follow w)"
      using unobserved_run [of fs ?s] unfolding same result .
  next
    show "fo_evaluated (fr_counts s) \<le> max_active_reservations" using counts by (simp add: counts_fit_def)
    show "case outcome of
        Inl e \<Rightarrow> \<not> fr_announced s \<and>
          (fo_evaluated (fr_counts s) = fo_updated (fr_counts s) + fo_unchanged (fr_counts s) + fo_blocked (fr_counts s) \<or>
           fo_evaluated (fr_counts s) = fo_updated (fr_counts s) + fo_unchanged (fr_counts s) + fo_blocked (fr_counts s) + 1)
      | Inr u \<Rightarrow> past = ob_listed (fr_world s) \<and>
          fo_evaluated (fr_counts s) = fo_updated (fr_counts s) + fo_unchanged (fr_counts s) + fo_blocked (fr_counts s) \<and>
          (fr_announced s \<longleftrightarrow> fo_updated (fr_counts s) > 0 \<and> fs_on_updated fs)"
      using ended on unfolding past(1)
      by (cases outcome) (auto simp: follow_failed_def follow_done_def following_def)
  qed (use trail past(2) counts in \<open>simp_all add: trail_def Let_def\<close>)
qed

end
