(* ===== verification/Reconciler.thy ===== *)
theory Reconciler
  imports Recovery
begin

text \<open>
  \<open>internal/app/recording/reconciler.go\<close> and \<open>reconciler_runner.go\<close>: finished recordings are compared with their files from
  time to time, at most 1000 in one run, from where the last run ended; only their availability is corrected.  What is
  observed and what is asked of the store is written to a log, the newest first.
\<close>

definition maximum_reconcile_items :: nat where "maximum_reconcile_items = 1000"

record reconcile_counts =
  rn_checked :: nat
  rn_changed :: nat
  rn_missing :: nat
  rn_mismatched :: nat

record 'w reconcile_env =
  rc_live :: "'w \<Rightarrow> bool \<times> 'w"
  rc_page :: "nat \<Rightarrow> entity_id \<Rightarrow> 'w \<Rightarrow> recovery_item list option \<times> 'w"
  rc_inspect :: "file_plan \<Rightarrow> 'w \<Rightarrow> file_observation option \<times> 'w"
  rc_set :: "entity_id \<Rightarrow> availability \<Rightarrow> terminal_reason \<Rightarrow> instant \<Rightarrow> 'w \<Rightarrow> bool option \<times> 'w"
  rc_set_one_seg :: "entity_id \<Rightarrow> availability \<Rightarrow> terminal_reason \<Rightarrow> instant \<Rightarrow> 'w \<Rightarrow> bool option \<times> 'w"
  rc_now :: "'w \<Rightarrow> instant \<times> 'w"

datatype reconcile_event =
  Observed file_plan "file_observation option"
  | Corrected recovery_item bool availability terminal_reason "bool option"

datatype reconcile_reason = ReconcileInternal | ReconcileCancelled | ReconcileReadFailed | ReconcileInspectFailed | ReconcileUpdateFailed

record 'w reconcile_run =
  rn_world :: 'w
  rn_counts :: reconcile_counts
  rn_read :: nat
  rn_after :: entity_id
  rn_log :: "reconcile_event list"

type_synonym ('w, 'a) reconciling = "('w reconcile_run, reconcile_reason, 'a) act"

definition reconcile_ask :: "('w \<Rightarrow> 'a \<times> 'w) \<Rightarrow> ('w, 'a) reconciling" where
  "reconcile_ask f s = (case f (rn_world s) of (x, w) \<Rightarrow> (Inr x, s\<lparr>rn_world := w\<rparr>))"

definition reconcile_log :: "reconcile_event \<Rightarrow> ('w, unit) reconciling" where
  "reconcile_log e = act_modify (\<lambda>s. s\<lparr>rn_log := e # rn_log s\<rparr>)"

definition observe_availability :: "availability \<Rightarrow> reconcile_counts \<Rightarrow> reconcile_counts" where
  "observe_availability avail c =
     (let c = c\<lparr>rn_checked := rn_checked c + 1\<rparr> in
      case avail of
        AvailabilityMissing \<Rightarrow> c\<lparr>rn_missing := rn_missing c + 1\<rparr>
      | AvailabilityMismatched \<Rightarrow> c\<lparr>rn_mismatched := rn_mismatched c + 1\<rparr>
      | _ \<Rightarrow> c)"

definition count_reconciled :: "(reconcile_counts \<Rightarrow> reconcile_counts) \<Rightarrow> ('w, unit) reconciling" where
  "count_reconciled f = act_modify (\<lambda>s. s\<lparr>rn_counts := f (rn_counts s)\<rparr>)"

definition observe_file :: "'w reconcile_env \<Rightarrow> file_plan \<Rightarrow> ('w, file_observation) reconciling" where
  "observe_file env plan =
     act_bind (reconcile_ask (rc_inspect env plan)) (\<lambda>answer.
       act_seq (reconcile_log (Observed plan answer))
         (case answer of None \<Rightarrow> act_fail ReconcileInspectFailed | Some ob \<Rightarrow> act_return ob))"

text \<open>A correction of the main recording or of its one-seg file, at the time of the clock.\<close>

definition correct_availability ::
    "'w reconcile_env \<Rightarrow> recovery_item \<Rightarrow> bool \<Rightarrow> availability \<Rightarrow> terminal_reason \<Rightarrow> ('w, unit) reconciling" where
  "correct_availability env item one_seg avail reason =
     act_bind (reconcile_ask (rc_now env)) (\<lambda>t.
     act_bind (reconcile_ask ((if one_seg then rc_set_one_seg env else rc_set env) (at_id (i_attempt item)) avail reason (in_utc t)))
       (\<lambda>answer.
         act_seq (reconcile_log (Corrected item one_seg avail reason answer))
           (case answer of
              None \<Rightarrow> act_fail ReconcileUpdateFailed
            | Some changed \<Rightarrow> act_when changed (count_reconciled (\<lambda>c. c\<lparr>rn_changed := rn_changed c + 1\<rparr>)))))"

definition reconcile_item :: "'w reconcile_env \<Rightarrow> recovery_item \<Rightarrow> ('w, unit) reconciling" where
  "reconcile_item env item =
     act_bind (observe_file env (at_plan (i_attempt item))) (\<lambda>ob.
       let (avail, reason) = completed_availability (at_byte_count (i_attempt item)) ob in
       act_seq (count_reconciled (observe_availability avail))
         (act_seq
           (act_when (i_availability item \<noteq> avail \<or> i_integrity_reason item \<noteq> reason)
             (correct_availability env item False avail reason))
           (case i_one_seg item of
              None \<Rightarrow> act_return ()
            | Some g \<Rightarrow>
                act_bind (observe_file env (sg_plan g)) (\<lambda>ob.
                  let (avail, reason) = settled_one_seg_availability g ob in
                  act_seq (count_reconciled (observe_availability avail))
                    (act_when (\<not> (sg_availability g = avail \<and> sg_integrity_reason g = reason))
                      (correct_availability env item True avail reason))))))"

definition reconcile_target :: "recovery_item \<Rightarrow> bool" where
  "reconcile_target item \<longleftrightarrow>
     (let state = at_state (i_attempt item);
          communication = (state = AttemptPartial \<and> i_planned_state item = AttemptPartial \<and>
            communication_partial_reason (i_planned_reason item) \<and> i_token item \<noteq> 0 \<and>
            at_byte_count (i_attempt item) \<ge> 188 \<and> at_byte_count (i_attempt item) mod 188 = 0 \<and>
            i_segment_state item = SegmentFinalized \<and> i_file_synced item \<and> i_final_published item \<and> i_directory_synced item)
      in state = AttemptSucceeded \<or> state = AttemptPartial \<and> i_planned_reason item = ReasonUserRequestedStop \<or> communication)"

primrec reconcile_page :: "'w reconcile_env \<Rightarrow> recovery_item list \<Rightarrow> ('w, unit) reconciling" where
  "reconcile_page env [] = act_return ()"
| "reconcile_page env (item # items) =
     act_bind (reconcile_ask (rc_live env)) (\<lambda>live.
       if \<not> live then act_fail ReconcileCancelled
       else
         act_seq (act_modify (\<lambda>s. s\<lparr>rn_read := rn_read s + 1, rn_after := at_id (i_attempt item)\<rparr>))
           (act_seq (act_when (reconcile_target item) (reconcile_item env item)) (reconcile_page env items)))"

definition keeps_read :: "('w, 'a) reconciling \<Rightarrow> bool" where
  "keeps_read m \<longleftrightarrow> (\<forall>s. rn_read (snd (m s)) = rn_read s)"

lemma keeps_read_bind [intro]: "keeps_read m \<Longrightarrow> (\<And>x. keeps_read (f x)) \<Longrightarrow> keeps_read (act_bind m f)"
  by (auto simp: keeps_read_def act_bind_def split: prod.splits sum.splits) (metis snd_conv)+

lemma keeps_read_simple [intro]:
  "keeps_read (act_return x)" "keeps_read (act_fail e)" "keeps_read (reconcile_ask f)" "keeps_read (reconcile_log ev)"
  "keeps_read (count_reconciled h)"
  by (auto simp: keeps_read_def act_return_def act_fail_def reconcile_ask_def reconcile_log_def act_modify_def count_reconciled_def
      split: prod.splits)

lemma keeps_read_when [intro]: "keeps_read m \<Longrightarrow> keeps_read (act_when c m)"
  by (simp add: act_when_def keeps_read_simple)

lemma keeps_read_item: "keeps_read (reconcile_item env item)"
proof -
  have observed: "keeps_read (observe_file env plan)" for plan
    unfolding observe_file_def act_seq_def by (intro keeps_read_bind keeps_read_simple) (auto split: option.splits)
  have corrected: "keeps_read (correct_availability env item b avail reason)" for b avail reason
    unfolding correct_availability_def act_seq_def
    by (intro keeps_read_bind keeps_read_simple) (auto split: option.splits)
  show ?thesis
    unfolding reconcile_item_def act_seq_def Let_def
    by (auto split: prod.splits option.splits intro!: keeps_read_bind keeps_read_simple keeps_read_when observed corrected)
qed

lemma reconcile_page_read:
  "reconcile_page env items s = (Inr u, s') \<Longrightarrow> rn_read s' = rn_read s + length items"
proof (induction items arbitrary: s)
  case (Cons item items)
  then obtain s1 s2 where first: "act_when (reconcile_target item) (reconcile_item env item) s1 = (Inr (), s2)"
    and rest: "reconcile_page env items s2 = (Inr u, s')" and s1: "rn_read s1 = rn_read s + 1"
    by (auto simp: act_bind_def act_seq_def act_modify_def act_fail_def reconcile_ask_def split: prod.splits sum.splits if_splits)
  from keeps_read_when [OF keeps_read_item, of "reconcile_target item" env item] first have "rn_read s2 = rn_read s1"
    unfolding keeps_read_def by (metis snd_conv)
  with Cons.IH [OF rest] s1 show ?case by simp
qed (simp add: act_return_def)

text \<open>The pages; the value says whether the whole table was read to its end.\<close>

function reconcile_pages :: "'w reconcile_env \<Rightarrow> ('w, bool) reconciling" where
  "reconcile_pages env s =
     (if rn_read s \<ge> maximum_reconcile_items then (Inr False, s)
      else
        let limit = min max_recovery_page (maximum_reconcile_items - rn_read s) in
        case reconcile_ask (rc_page env limit (rn_after s)) s of
          (Inl e, s') \<Rightarrow> (Inl e, s')
        | (Inr None, s') \<Rightarrow>
            (case reconcile_ask (rc_live env) s' of
               (Inr False, s'') \<Rightarrow> (Inl ReconcileCancelled, s'')
             | (_, s'') \<Rightarrow> (Inl ReconcileReadFailed, s''))
        | (Inr (Some items), s') \<Rightarrow>
            case reconcile_page env items s' of
              (Inl e, s'') \<Rightarrow> (Inl e, s'')
            | (Inr u, s'') \<Rightarrow> if length items < limit then (Inr True, s'') else reconcile_pages env s'')"
  by pat_completeness auto
termination
proof -
  have "maximum_reconcile_items - rn_read s'' < maximum_reconcile_items - rn_read s"
    if "rn_read s < maximum_reconcile_items" "reconcile_ask f s = (Inr x, s')" "reconcile_page env items s' = (Inr u, s'')"
      "min max_recovery_page (maximum_reconcile_items - rn_read s) \<le> length items"
    for s s' s'' :: "'w reconcile_run" and f :: "'w \<Rightarrow> recovery_item list option \<times> 'w" and x env items u
  proof -
    have "rn_read s' = rn_read s" using that(2) by (auto simp: reconcile_ask_def split: prod.splits)
    moreover have "0 < length items" using that(1,4) by (auto simp: max_recovery_page_def)
    ultimately show ?thesis using reconcile_page_read [OF that(3)] that(1) by (cases items) auto
  qed
  note progress = this
  show ?thesis
    by (relation "measure (\<lambda>(env, s). maximum_reconcile_items - rn_read s)")
      (auto intro: progress [OF _ sym sym])
qed

declare reconcile_pages.simps [simp del]

text \<open>One run from the cursor; the counts are kept on success only, as the cursor is.\<close>

definition start_reconcile :: "entity_id \<Rightarrow> 'w \<Rightarrow> 'w reconcile_run" where
  "start_reconcile cursor w =
     \<lparr>rn_world = w, rn_counts = \<lparr>rn_checked = 0, rn_changed = 0, rn_missing = 0, rn_mismatched = 0\<rparr>, rn_read = 0, rn_after = cursor,
      rn_log = []\<rparr>"

definition run_reconcile ::
    "'w reconcile_env \<Rightarrow> entity_id \<Rightarrow> 'w \<Rightarrow> (reconcile_reason, reconcile_counts) result \<times> entity_id \<times> 'w reconcile_run" where
  "run_reconcile env cursor w =
     (case reconcile_ask (rc_live env) (start_reconcile cursor w) of
        (Inr True, s) \<Rightarrow>
          (case reconcile_pages env s of
             (Inl e, s') \<Rightarrow> (Inl e, cursor, s')
           | (Inr whole, s') \<Rightarrow> (Inr (rn_counts s'), if whole then 0 else rn_after s', s'))
      | (_, s) \<Rightarrow> (Inl ReconcileCancelled, cursor, s))"

section \<open>The runner\<close>

text \<open>One turn of the loop: the context before and after a run, the event, and whether the loop goes on to wait.\<close>

record reconcile_report =
  rp_completed :: bool
  rp_counts :: reconcile_counts
  rp_duration :: int
  rp_reason :: bytes

definition stable_reconcile_reason :: "bytes \<Rightarrow> bytes" where
  "stable_reconcile_reason v =
     (if v = [] \<or> length v > 64 then ascii ''recording-reconcile-internal''
      else if list_ex (\<lambda>r. r \<noteq> 0x2d \<and> (r < 0x61 \<or> r > 0x7a)) (runes v) then ascii ''recording-reconcile-internal''
      else v)"

definition reconcile_reason_text :: "reconcile_reason \<Rightarrow> bytes" where
  "reconcile_reason_text r =
     (case r of
        ReconcileInternal \<Rightarrow> ascii ''recording-reconcile-internal''
      | ReconcileCancelled \<Rightarrow> ascii ''recording-reconcile-cancelled''
      | ReconcileReadFailed \<Rightarrow> ascii ''recording-reconcile-read-failed''
      | ReconcileInspectFailed \<Rightarrow> ascii ''recording-reconcile-inspect-failed''
      | ReconcileUpdateFailed \<Rightarrow> ascii ''recording-reconcile-update-failed'')"

definition reconcile_report_of :: "int \<Rightarrow> (reconcile_reason, reconcile_counts) result \<Rightarrow> reconcile_report" where
  "reconcile_report_of duration result =
     (case result of
        Inr c \<Rightarrow> \<lparr>rp_completed = True, rp_counts = c, rp_duration = duration, rp_reason = []\<rparr>
      | Inl r \<Rightarrow> \<lparr>rp_completed = False, rp_counts = \<lparr>rn_checked = 0, rn_changed = 0, rn_missing = 0, rn_mismatched = 0\<rparr>,
          rp_duration = duration, rp_reason = stable_reconcile_reason (reconcile_reason_text r)\<rparr>)"

definition runner_turn ::
    "'w reconcile_env \<Rightarrow> (bool \<times> bool \<times> bool) \<Rightarrow> int \<Rightarrow> entity_id \<Rightarrow> 'w \<Rightarrow> reconcile_report option \<times> bool \<times> entity_id \<times> 'w" where
  "runner_turn env answers duration cursor w =
     (case answers of (before, after, waited) \<Rightarrow>
        if \<not> before then (None, False, cursor, w)
        else
          case run_reconcile env cursor w of
            (result, cursor', s) \<Rightarrow>
              if \<not> after then (None, False, cursor', rn_world s)
              else (Some (reconcile_report_of duration result), waited, cursor', rn_world s))"

end
