(* ===== verification/ReconcilerSpec.thy ===== *)
theory ReconcilerSpec
  imports Reconciler
begin




















end
