(* ===== verification/Scheduler.thy ===== *)
theory Scheduler
  imports RecordingResults
begin

text \<open>
  \<open>internal/app/recording/scheduler.go\<close> and \<open>stop_registry.go\<close>.  The loop of \<open>Scheduler.Run\<close> reads the store, waits,
  claims and starts recordings; every recording runs beside it and hands its result over a channel without a buffer.
  The state below holds the point the loop has reached, the recordings that were started and not yet collected, the
  registry of stop functions and the two contexts.  Every step of the loop is a function of what the environment
  answers; the steps of the recordings and of the callers of \<open>Notify\<close> and \<open>NotifyStop\<close> come between them.
\<close>

section \<open>The power candidate\<close>

record power_candidate =
  pw_mode :: post_recording_mode
  pw_present :: bool
  pw_conflict :: bool

definition no_candidate :: power_candidate where
  "no_candidate = \<lparr>pw_mode = 0, pw_present = False, pw_conflict = False\<rparr>"

definition add_candidate :: "post_recording_mode \<Rightarrow> power_candidate \<Rightarrow> power_candidate" where
  "add_candidate mode c =
     (if \<not> changes_power mode then c
      else if pw_present c \<and> pw_mode c \<noteq> mode then c\<lparr>pw_conflict := True\<rparr>
      else c\<lparr>pw_mode := mode, pw_present := True\<rparr>)"

section \<open>Limits\<close>

definition late_start_limit :: int where "late_start_limit = 5 * minute"
definition minimum_run_time :: int where "minimum_run_time = 60 * second"
definition power_minimum_idle :: int where "power_minimum_idle = 10 * minute"
definition power_wake_margin :: int where "power_wake_margin = 5 * minute"

text \<open>The reasons of the power action that the scheduler gives itself.\<close>

datatype power_reason = PowerCancelled | PowerUnavailable | PowerConflict | PowerTooLate

text \<open>Either a reason, or the call of the controller with the mode and the time to wake at.\<close>

definition decide_power ::
    "bool \<Rightarrow> bool \<Rightarrow> power_candidate \<Rightarrow> instant \<Rightarrow> reservation option \<Rightarrow> (power_reason, post_recording_mode \<times> instant option) result" where
  "decide_power cancelled controller c t upcoming =
     (if cancelled then Inl PowerCancelled
      else if pw_conflict c then Inl PowerConflict
      else if \<not> controller then Inl PowerUnavailable
      else
        case upcoming of
          None \<Rightarrow> Inr (pw_mode c, None)
        | Some r \<Rightarrow>
            let start = in_utc (planned_start r); wake = add_duration start (- power_wake_margin);
                minimum_wake = add_duration t power_wake_margin in
            if sub_time start t < power_minimum_idle then Inl PowerTooLate
            else if before_time wake minimum_wake then Inl PowerTooLate
            else Inr (pw_mode c, Some wake))"

text \<open>Created while its program was already running, and not long ago.\<close>

definition fresh_in_progress :: "reservation \<Rightarrow> instant \<Rightarrow> instant \<Rightarrow> bool" where
  "fresh_in_progress r wake_at t \<longleftrightarrow>
     \<not> is_zero_time (r_created_at r) \<and> \<not> before_time (r_created_at r) wake_at \<and> \<not> after_time (r_created_at r) t \<and>
     sub_time t (r_created_at r) \<le> late_start_limit"

definition start_expired :: "reservation \<Rightarrow> instant \<Rightarrow> instant \<Rightarrow> bool" where
  "start_expired r wake_at t \<longleftrightarrow>
     \<not> fresh_in_progress r wake_at t \<and> sub_time t wake_at > late_start_limit \<or>
     sub_time (planned_end r) t < minimum_run_time"

section \<open>State\<close>

datatype 'e scheduler_error =
  SchedulerInvalid | SchedulerClockInvalid | ExpireDisabledFailed | DisabledDeadlineUnreadable | NextReservationUnreadable
  | SchedulerTimerInvalid | StopRegistrationInvalid | StopRegistrationLimit | ExecutorFailed 'e

type_synonym 'e completion = "post_recording_mode \<times> 'e option"

text \<open>The goroutine of one recording: executing, then removing its stop function, then sending its result.\<close>

datatype 'e execution_phase = Executing | Unregistering "'e completion" | Sending "'e completion"

record 'e execution =
  xe_number :: nat
  xe_reservation :: reservation
  xe_attempt :: attempt
  xe_cancelled :: bool
  xe_phase :: "'e execution_phase"

text \<open>Where the loop is: what it asked for, with what it knows.\<close>

datatype 'e loop_point =
  AtTop
  | Expiring instant
  | ReadingDeadline instant
  | ReadingNext instant "instant option"
  | PowerDeciding instant
  | PowerExecuting instant post_recording_mode "instant option"
  | MakingTimer int
  | Waiting bool
  | Missing reservation instant terminal_reason
  | SlotChecking reservation instant
  | Claiming reservation instant
  | Registering reservation attempt
  | Stopping "'e scheduler_error option"
  | Returned "'e scheduler_error option"

record 'e scheduler_state =
  sd_point :: "'e loop_point"
  sd_active :: nat
  sd_power :: power_candidate
  sd_wake :: bool
  sd_registry :: "(entity_id \<times> nat) list"
  sd_runs :: "'e execution list"
  sd_started :: nat
  sd_cancelled :: bool
  sd_stopped :: bool

record scheduler_config =
  cf_maximum :: nat
  cf_controller :: bool

definition start_scheduler :: "scheduler_config \<Rightarrow> 'e scheduler_state" where
  "start_scheduler cf =
     \<lparr>sd_point = (if cf_maximum cf < 1 then Returned (Some SchedulerInvalid) else AtTop), sd_active = 0, sd_power = no_candidate, sd_wake = False, sd_registry = [], sd_runs = [],
      sd_started = 0, sd_cancelled = False, sd_stopped = False\<rparr>"

section \<open>The registry of stop functions\<close>

text \<open>The function of a recording is named by its number.\<close>

definition register_stop ::
    "nat \<Rightarrow> entity_id \<Rightarrow> nat \<Rightarrow> (entity_id \<times> nat) list \<Rightarrow> ('e scheduler_error, (entity_id \<times> nat) list) result" where
  "register_stop maximum ident number items =
     (if ident = 0 \<or> maximum < 1 then Inl StopRegistrationInvalid
      else if map_of items ident \<noteq> None \<or> length items \<ge> maximum then Inl StopRegistrationLimit
      else Inr ((ident, number) # items))"

definition unregister_stop :: "entity_id \<Rightarrow> (entity_id \<times> nat) list \<Rightarrow> (entity_id \<times> nat) list" where
  "unregister_stop ident items = filter (\<lambda>item. fst item \<noteq> ident) items"

definition cancel_execution :: "nat \<Rightarrow> 'e execution list \<Rightarrow> 'e execution list" where
  "cancel_execution number = map (\<lambda>x. if xe_number x = number then x\<lparr>xe_cancelled := True\<rparr> else x)"

definition notify_stop :: "entity_id \<Rightarrow> 'e scheduler_state \<Rightarrow> 'e scheduler_state" where
  "notify_stop ident st =
     (if ident = 0 then st
      else case map_of (sd_registry st) ident of
        None \<Rightarrow> st
      | Some number \<Rightarrow> st\<lparr>sd_runs := cancel_execution number (sd_runs st)\<rparr>)"

text \<open>A note that something changed; a second one before it is read is dropped.\<close>

definition notify :: "'e scheduler_state \<Rightarrow> 'e scheduler_state" where
  "notify st = st\<lparr>sd_wake := True\<rparr>"

section \<open>Collecting recordings\<close>

text \<open>\<open>stopExecutions\<close>: the recordings are cancelled and collected one by one, and the first error is returned.\<close>

definition drain_point :: "nat \<Rightarrow> 'e scheduler_error option \<Rightarrow> 'e loop_point" where
  "drain_point active first = (if active = 0 then Returned first else Stopping first)"

definition stop_executions :: "'e scheduler_error option \<Rightarrow> 'e scheduler_state \<Rightarrow> 'e scheduler_state" where
  "stop_executions first st = st\<lparr>sd_stopped := True, sd_point := drain_point (sd_active st) first\<rparr>"

text \<open>The recording with a number that is sending, and the state without it.\<close>

definition sending :: "nat \<Rightarrow> 'e execution \<Rightarrow> bool" where
  "sending number x \<longleftrightarrow> xe_number x = number \<and> (case xe_phase x of Sending c \<Rightarrow> True | _ \<Rightarrow> False)"

definition sent :: "nat \<Rightarrow> 'e scheduler_state \<Rightarrow> 'e completion option" where
  "sent number st =
     (case List.find (sending number) (sd_runs st) of
        Some x \<Rightarrow> (case xe_phase x of Sending c \<Rightarrow> Some c | _ \<Rightarrow> None)
      | None \<Rightarrow> None)"

definition none_sending :: "'e scheduler_state \<Rightarrow> bool" where
  "none_sending st \<longleftrightarrow> list_all (\<lambda>x. \<not> sending (xe_number x) x) (sd_runs st)"

definition collected :: "nat \<Rightarrow> 'e scheduler_state \<Rightarrow> 'e scheduler_state" where
  "collected number st =
     st\<lparr>sd_runs := filter (\<lambda>x. xe_number x \<noteq> number) (sd_runs st), sd_active := sd_active st - 1\<rparr>"

text \<open>What follows a collected result: the end, or the loop goes on at a point.\<close>

definition settle_completion :: "'e completion \<Rightarrow> 'e loop_point \<Rightarrow> 'e scheduler_state \<Rightarrow> 'e scheduler_state" where
  "settle_completion c point st =
     (case snd c of
        Some e \<Rightarrow> stop_executions (Some (ExecutorFailed e)) st
      | None \<Rightarrow> st\<lparr>sd_power := add_candidate (fst c) (sd_power st), sd_point := point\<rparr>)"

definition drain_completion :: "'e completion \<Rightarrow> 'e scheduler_error option \<Rightarrow> 'e scheduler_state \<Rightarrow> 'e scheduler_state" where
  "drain_completion c first st =
     st\<lparr>sd_point := drain_point (sd_active st)
       (if first = None then map_option ExecutorFailed (snd c) else first)\<rparr>"

section \<open>The loop\<close>

text \<open>A failed read ends the loop, without an error when the context of the process ended.\<close>

definition read_failed :: "'e scheduler_error \<Rightarrow> 'e scheduler_state \<Rightarrow> 'e scheduler_state" where
  "read_failed e st = stop_executions (if sd_cancelled st then None else Some e) st"

definition at_point :: "'e loop_point \<Rightarrow> 'e scheduler_state \<Rightarrow> 'e scheduler_state" where
  "at_point point st = st\<lparr>sd_point := point\<rparr>"

definition read_clock :: "instant \<Rightarrow> 'e scheduler_state \<Rightarrow> 'e scheduler_state" where
  "read_clock t st =
     (let t = in_utc t in
      if is_zero_time t \<or> unix_milli t < 0 then stop_executions (Some SchedulerClockInvalid) st
      else at_point (Expiring t) st)"

text \<open>The next reservation in time is started, missed, or waited for.\<close>

definition take_reservation :: "scheduler_config \<Rightarrow> reservation \<Rightarrow> instant \<Rightarrow> instant option \<Rightarrow> 'e scheduler_state \<Rightarrow> 'e loop_point" where
  "take_reservation cf r t deadline st =
     (let start = planned_start r;
          deadline_first = (case deadline of None \<Rightarrow> False | Some d \<Rightarrow> before_time d start);
          wake_at = (case deadline of Some d \<Rightarrow> if deadline_first then d else start | None \<Rightarrow> start) in
      if after_time wake_at t then MakingTimer (sub_time wake_at t)
      else if deadline_first then AtTop
      else if start_expired r wake_at t then Missing r t ReasonLateStartExpired
      else if sd_active st \<ge> cf_maximum cf then SlotChecking r t
      else Claiming r t)"

definition next_point ::
    "scheduler_config \<Rightarrow> instant \<Rightarrow> instant option \<Rightarrow> reservation option \<Rightarrow> 'e scheduler_state \<Rightarrow> 'e loop_point" where
  "next_point cf t deadline upcoming st =
     (if sd_active st = 0 \<and> pw_present (sd_power st) then PowerDeciding t
      else
        case upcoming of
          None \<Rightarrow> (case deadline of None \<Rightarrow> Waiting False | Some d \<Rightarrow> MakingTimer (sub_time d t))
        | Some r \<Rightarrow> take_reservation cf r t deadline st)"

text \<open>The answers of the store, the executor, the clock and the controller, and the cases of the selections.\<close>

datatype 'e executor_answer = Answered | ReservationGone | AnsweredError 'e

datatype 'e scheduler_event =
  Receives nat
  | ReadsClock instant
  | ExpiresOne "bool option"
  | FindsDeadline "instant option option"
  | FindsNext "reservation option option"
  | PowerEnds
  | MakesTimer bool
  | SeesContextEnd
  | SeesWake
  | SeesTimer
  | MissAnswer "'e executor_answer"
  | NoneCompleted
  | ClaimAnswer "attempt + 'e option"
  | RegistersStop

definition receive :: "nat \<Rightarrow> 'e scheduler_state \<Rightarrow> 'e scheduler_state option" where
  "receive number st =
     Option.bind (sent number st) (\<lambda>c.
       let after = collected number st in
       case sd_point st of
         AtTop \<Rightarrow> Some (settle_completion c AtTop after)
       | Waiting timer \<Rightarrow> Some (settle_completion c AtTop after)
       | SlotChecking r t \<Rightarrow> Some (settle_completion c (Claiming r t) after)
       | Stopping first \<Rightarrow> Some (drain_completion c first after)
       | _ \<Rightarrow> None)"

definition power_answer :: "scheduler_config \<Rightarrow> instant \<Rightarrow> reservation option option \<Rightarrow> 'e scheduler_state \<Rightarrow> 'e scheduler_state" where
  "power_answer cf t answer st =
     (case answer of
        None \<Rightarrow> st\<lparr>sd_power := no_candidate, sd_point := AtTop\<rparr>
      | Some upcoming \<Rightarrow>
          case decide_power (sd_cancelled st) (cf_controller cf) (sd_power st) t upcoming of
            Inl reason \<Rightarrow> st\<lparr>sd_power := no_candidate, sd_point := AtTop\<rparr>
          | Inr (mode, wake) \<Rightarrow> at_point (PowerExecuting t mode wake) st)"

definition executor_failed :: "'e \<Rightarrow> 'e scheduler_state \<Rightarrow> 'e scheduler_state" where
  "executor_failed e st = stop_executions (Some (ExecutorFailed e)) st"

definition start_execution :: "scheduler_config \<Rightarrow> reservation \<Rightarrow> attempt \<Rightarrow> 'e scheduler_state \<Rightarrow> 'e scheduler_state" where
  "start_execution cf r at st =
     (case register_stop (cf_maximum cf) (r_id r) (sd_started st) (sd_registry st) of
        Inl e \<Rightarrow> stop_executions (Some e) st
      | Inr items \<Rightarrow>
          st\<lparr>sd_registry := items, sd_active := Suc (sd_active st), sd_started := Suc (sd_started st), sd_point := AtTop,
             sd_runs := sd_runs st @
               [\<lparr>xe_number = sd_started st, xe_reservation = r, xe_attempt = at, xe_cancelled = False, xe_phase = Executing\<rparr>]\<rparr>)"

definition loop_step :: "scheduler_config \<Rightarrow> 'e scheduler_event \<Rightarrow> 'e scheduler_state \<Rightarrow> 'e scheduler_state option" where
  "loop_step cf event st =
     (case (event, sd_point st) of
        (Receives number, _) \<Rightarrow> receive number st
      | (ReadsClock t, AtTop) \<Rightarrow> if none_sending st then Some (read_clock t st) else None
      | (ExpiresOne answer, Expiring t) \<Rightarrow> Some (
          case answer of
            None \<Rightarrow> read_failed ExpireDisabledFailed st
          | Some expired \<Rightarrow> at_point (if expired then AtTop else ReadingDeadline t) st)
      | (FindsDeadline answer, ReadingDeadline t) \<Rightarrow> Some (
          case answer of
            None \<Rightarrow> read_failed DisabledDeadlineUnreadable st
          | Some deadline \<Rightarrow> at_point (ReadingNext t deadline) st)
      | (FindsNext answer, ReadingNext t deadline) \<Rightarrow> Some (
          case answer of
            None \<Rightarrow> read_failed NextReservationUnreadable st
          | Some upcoming \<Rightarrow> at_point (next_point cf t deadline upcoming st) st)
      | (FindsNext answer, PowerDeciding t) \<Rightarrow> Some (power_answer cf t answer st)
      | (PowerEnds, PowerExecuting t mode wake) \<Rightarrow> Some (st\<lparr>sd_power := no_candidate, sd_point := AtTop\<rparr>)
      | (MakesTimer good, MakingTimer duration) \<Rightarrow> Some (
          if good then at_point (Waiting True) st else stop_executions (Some SchedulerTimerInvalid) st)
      | (SeesContextEnd, Waiting timer) \<Rightarrow> if sd_cancelled st then Some (stop_executions None st) else None
      | (SeesWake, Waiting timer) \<Rightarrow> if sd_wake st then Some (st\<lparr>sd_wake := False, sd_point := AtTop\<rparr>) else None
      | (SeesTimer, Waiting timer) \<Rightarrow> if timer then Some (at_point AtTop st) else None
      | (MissAnswer answer, Missing r t reason) \<Rightarrow> Some (
          case answer of AnsweredError e \<Rightarrow> executor_failed e st | _ \<Rightarrow> at_point AtTop st)
      | (NoneCompleted, SlotChecking r t) \<Rightarrow>
          if none_sending st then Some (at_point (Missing r t ReasonRecordingSlotUnavailable) st) else None
      | (ClaimAnswer answer, Claiming r t) \<Rightarrow> Some (
          case answer of
            Inl at \<Rightarrow> at_point (Registering r at) st
          | Inr None \<Rightarrow> at_point AtTop st
          | Inr (Some e) \<Rightarrow> executor_failed e st)
      | (RegistersStop, Registering r at) \<Rightarrow> Some (start_execution cf r at st)
      | _ \<Rightarrow> None)"

section \<open>Steps beside the loop\<close>

text \<open>\<open>ExecuteClaimed\<close> returns; the stop function is removed; then the recording waits for its result to be taken.\<close>

definition update_execution :: "nat \<Rightarrow> ('e execution \<Rightarrow> 'e execution) \<Rightarrow> 'e scheduler_state \<Rightarrow> 'e scheduler_state" where
  "update_execution number f st = st\<lparr>sd_runs := map (\<lambda>x. if xe_number x = number then f x else x) (sd_runs st)\<rparr>"

definition execution_returns :: "nat \<Rightarrow> 'e completion \<Rightarrow> 'e scheduler_state \<Rightarrow> 'e scheduler_state" where
  "execution_returns number c = update_execution number (\<lambda>x. x\<lparr>xe_phase := Unregistering c\<rparr>)"

definition execution_unregisters :: "'e execution \<Rightarrow> 'e completion \<Rightarrow> 'e scheduler_state \<Rightarrow> 'e scheduler_state" where
  "execution_unregisters x c st =
     update_execution (xe_number x) (\<lambda>x. x\<lparr>xe_phase := Sending c, xe_cancelled := True\<rparr>)
       (st\<lparr>sd_registry := unregister_stop (r_id (xe_reservation x)) (sd_registry st)\<rparr>)"

inductive scheduler_step :: "scheduler_config \<Rightarrow> 'e scheduler_state \<Rightarrow> 'e scheduler_state \<Rightarrow> bool" for cf where
  Loops: "loop_step cf event st = Some st' \<Longrightarrow> scheduler_step cf st st'"
| Returns: "x \<in> set (sd_runs st) \<Longrightarrow> xe_phase x = Executing \<Longrightarrow> scheduler_step cf st (execution_returns (xe_number x) c st)"
| Unregisters: "x \<in> set (sd_runs st) \<Longrightarrow> xe_phase x = Unregistering c \<Longrightarrow> scheduler_step cf st (execution_unregisters x c st)"
| Notifies: "scheduler_step cf st (notify st)"
| NotifiesStop: "scheduler_step cf st (notify_stop ident st)"
| ContextEnds: "scheduler_step cf st (st\<lparr>sd_cancelled := True\<rparr>)"

inductive scheduler_reachable :: "scheduler_config \<Rightarrow> 'e scheduler_state \<Rightarrow> bool" for cf where
  Starts: "scheduler_reachable cf (start_scheduler cf)"
| Steps: "scheduler_reachable cf st \<Longrightarrow> scheduler_step cf st st' \<Longrightarrow> scheduler_reachable cf st'"

end
