(* ===== verification/SchedulerSpec.thy ===== *)
theory SchedulerSpec
  imports Scheduler FilePlans
begin

text \<open>
  The scheduler over all interleavings of its loop, its recordings and its callers: the recordings are accounted for
  and never more than the limit, the registry leads exactly to those that still run, a recording is started only in its
  time, the power action is taken only when nothing is recorded, and the loop does not end before every recording has.
\<close>

section \<open>The invariant\<close>

definition registered :: "'e execution \<Rightarrow> bool" where
  "registered x \<longleftrightarrow> (case xe_phase x of Sending c \<Rightarrow> False | _ \<Rightarrow> True)"

lemma registered_simps [simp]:
  "registered (x\<lparr>xe_cancelled := b\<rparr>) = registered x"
  "registered (x\<lparr>xe_phase := Unregistering c\<rparr>)" "registered (x\<lparr>xe_phase := Executing\<rparr>)"
  "\<not> registered (x\<lparr>xe_phase := Sending c\<rparr>)" "\<not> registered (x\<lparr>xe_phase := Sending c, xe_cancelled := b\<rparr>)"
  by (simp_all add: registered_def)

definition entry_of :: "'e execution \<Rightarrow> entity_id \<times> nat" where
  "entry_of x = (r_id (xe_reservation x), xe_number x)"

text \<open>The recordings, their numbers and the entries of the registry.\<close>

definition runs_ok :: "nat \<Rightarrow> nat \<Rightarrow> 'e execution list \<Rightarrow> nat \<Rightarrow> (entity_id \<times> nat) list \<Rightarrow> bool" where
  "runs_ok maximum active runs started items \<longleftrightarrow>
     active = length runs \<and> active \<le> maximum \<and> distinct (map xe_number runs) \<and> (\<forall>x\<in>set runs. xe_number x < started) \<and>
     distinct (map fst items) \<and> set items = entry_of ` {x \<in> set runs. registered x}"

text \<open>The start of a reservation has come, it is not too late, and enough of it is left.\<close>

definition in_time :: "reservation \<Rightarrow> instant \<Rightarrow> bool" where
  "in_time r t \<longleftrightarrow> \<not> after_time (planned_start r) t \<and> \<not> start_expired r (planned_start r) t"

fun point_ok :: "nat \<Rightarrow> nat \<Rightarrow> bool \<Rightarrow> power_candidate \<Rightarrow> 'e loop_point \<Rightarrow> bool" where
  "point_ok maximum active stopped c (PowerDeciding t) \<longleftrightarrow> active = 0 \<and> pw_present c"
| "point_ok maximum active stopped c (PowerExecuting t mode wake) \<longleftrightarrow> active = 0 \<and> pw_present c \<and> mode = pw_mode c \<and> \<not> pw_conflict c"
| "point_ok maximum active stopped c (Missing r t reason) \<longleftrightarrow>
     (if reason = ReasonLateStartExpired then \<not> after_time (planned_start r) t \<and> start_expired r (planned_start r) t
      else reason = ReasonRecordingSlotUnavailable \<and> in_time r t \<and> active = maximum)"
| "point_ok maximum active stopped c (SlotChecking r t) \<longleftrightarrow> in_time r t \<and> active = maximum"
| "point_ok maximum active stopped c (Claiming r t) \<longleftrightarrow> in_time r t \<and> active < maximum"
| "point_ok maximum active stopped c (Registering r at) \<longleftrightarrow> active < maximum"
| "point_ok maximum active stopped c (Stopping first) \<longleftrightarrow> stopped \<and> 0 < active"
| "point_ok maximum active stopped c (Returned first) \<longleftrightarrow> active = 0"
| "point_ok maximum active stopped c _ \<longleftrightarrow> True"

definition candidate_ok :: "power_candidate \<Rightarrow> bool" where
  "candidate_ok c \<longleftrightarrow> (if pw_present c then changes_power (pw_mode c) else \<not> pw_conflict c)"

definition scheduler_ok :: "scheduler_config \<Rightarrow> 'e scheduler_state \<Rightarrow> bool" where
  "scheduler_ok cf st \<longleftrightarrow>
     runs_ok (cf_maximum cf) (sd_active st) (sd_runs st) (sd_started st) (sd_registry st) \<and> candidate_ok (sd_power st) \<and>
     point_ok (cf_maximum cf) (sd_active st) (sd_stopped st) (sd_power st) (sd_point st)"

lemma start_ok: "scheduler_ok cf (start_scheduler cf)"
  by (simp add: scheduler_ok_def start_scheduler_def runs_ok_def candidate_ok_def no_candidate_def)

lemma drain_point_ok: "point_ok maximum active True c (drain_point active first)"
  by (simp add: drain_point_def)

lemma stop_executions_ok:
  "runs_ok (cf_maximum cf) (sd_active st) (sd_runs st) (sd_started st) (sd_registry st) \<Longrightarrow> candidate_ok (sd_power st) \<Longrightarrow>
   scheduler_ok cf (stop_executions first st)"
  by (simp add: scheduler_ok_def stop_executions_def drain_point_ok)

lemma candidate_add: "candidate_ok c \<Longrightarrow> candidate_ok (add_candidate mode c)"
  by (simp add: candidate_ok_def add_candidate_def)

lemma no_candidate_ok [simp]: "candidate_ok no_candidate"
  by (simp add: candidate_ok_def no_candidate_def)

section \<open>Collecting keeps it\<close>

lemma sentD:
  assumes "sent number st = Some c"
  obtains x where "x \<in> set (sd_runs st)" "xe_number x = number" "xe_phase x = Sending c"
proof -
  from assms obtain x where find: "List.find (sending number) (sd_runs st) = Some x" and phase: "xe_phase x = Sending c"
    by (auto simp: sent_def split: option.splits execution_phase.splits)
  from find have "x \<in> set (sd_runs st)" "sending number x" by (auto simp: find_Some_iff)
  with phase that show ?thesis by (simp add: sending_def)
qed

lemma distinct_number_filter:
  "distinct (map xe_number runs) \<Longrightarrow> x \<in> set runs \<Longrightarrow>
   length runs = Suc (length (filter (\<lambda>y. xe_number y \<noteq> xe_number x) runs))"
proof (induction runs)
  case (Cons y runs)
  have "filter (\<lambda>z. xe_number z \<noteq> xe_number y) runs = runs"
    using Cons.prems(1) by (intro filter_True) (auto simp: image_iff)
  with Cons show ?case by auto
qed simp

lemma same_number: "distinct (map xe_number runs) \<Longrightarrow> x \<in> set runs \<Longrightarrow> y \<in> set runs \<Longrightarrow> xe_number x = xe_number y \<Longrightarrow> x = y"
  by (auto simp: distinct_map dest: inj_onD)

lemma collected_ok:
  assumes "runs_ok maximum active runs started items" "x \<in> set runs" "xe_phase x = Sending c"
  shows "runs_ok maximum (active - 1) (filter (\<lambda>y. xe_number y \<noteq> xe_number x) runs) started items"
proof -
  let ?rest = "filter (\<lambda>y. xe_number y \<noteq> xe_number x) runs"
  from assms have numbers: "distinct (map xe_number runs)" by (simp add: runs_ok_def)
  then have "distinct (map xe_number ?rest)" by (rule distinct_map_filter)
  moreover have "{y \<in> set runs. registered y} = {y \<in> set ?rest. registered y}"
    using same_number [OF numbers assms(2)] assms(3) by (force simp: registered_def)
  ultimately show ?thesis
    using assms distinct_number_filter [OF numbers assms(2)] by (simp add: runs_ok_def)
qed

lemma active_pos: "runs_ok maximum active runs started items \<Longrightarrow> x \<in> set runs \<Longrightarrow> 0 < active"
  by (auto simp: runs_ok_def)

lemma receive_ok:
  assumes ok: "scheduler_ok cf st" and step: "receive number st = Some st'"
  shows "scheduler_ok cf st'"
proof -
  from step obtain c where sent: "sent number st = Some c"
    by (auto simp: receive_def bind_eq_Some_conv)
  then obtain x where x: "x \<in> set (sd_runs st)" "xe_number x = number" "xe_phase x = Sending c" by (rule sentD)
  from ok have runs: "runs_ok (cf_maximum cf) (sd_active st) (sd_runs st) (sd_started st) (sd_registry st)"
    and power: "candidate_ok (sd_power st)"
    and point: "point_ok (cf_maximum cf) (sd_active st) (sd_stopped st) (sd_power st) (sd_point st)"
    by (simp_all add: scheduler_ok_def)
  have pos: "0 < sd_active st" using active_pos [OF runs x(1)] .
  have after: "runs_ok (cf_maximum cf) (sd_active (collected number st)) (sd_runs (collected number st))
      (sd_started (collected number st)) (sd_registry (collected number st))" "candidate_ok (sd_power (collected number st))"
    using collected_ok [OF runs x(1,3)] power by (simp_all add: collected_def x(2))
  have settled: "scheduler_ok cf (settle_completion c p (collected number st))"
    if "point_ok (cf_maximum cf) (sd_active st - 1) (sd_stopped st) (add_candidate (fst c) (sd_power st)) p" for p
  proof (cases "snd c")
    case None
    with after that show ?thesis by (simp add: settle_completion_def scheduler_ok_def candidate_add) (simp add: collected_def)
  next
    case (Some e)
    with after show ?thesis by (simp add: settle_completion_def stop_executions_ok)
  qed
  have "sd_active st \<le> cf_maximum cf" using runs by (simp add: runs_ok_def)
  then have below: "sd_active st - 1 < cf_maximum cf" using pos by linarith
  from step sent show ?thesis
  proof (cases "sd_point st")
    case (Stopping first)
    with step sent point after have "st' = drain_completion c first (collected number st)" "sd_stopped st"
      by (simp_all add: receive_def)
    with after show ?thesis
      by (simp add: drain_completion_def scheduler_ok_def) (simp add: collected_def drain_point_ok)
  qed (use point below in \<open>auto simp: receive_def intro: settled\<close>)
qed

section \<open>Starting keeps it\<close>

lemma registry_short:
  assumes "runs_ok maximum active runs started items"
  shows "length items \<le> active"
proof -
  from assms have "length items = card (set items)" by (simp add: runs_ok_def) (metis distinct_card distinct_map)
  also have "\<dots> \<le> card {x \<in> set runs. registered x}"
    using assms by (simp add: runs_ok_def card_image_le)
  also have "\<dots> \<le> card (set runs)" by (rule card_mono) auto
  also have "\<dots> \<le> length runs" by (rule card_length)
  finally show ?thesis using assms by (simp add: runs_ok_def)
qed

text \<open>There is room in the registry whenever the loop may start a recording.\<close>

lemma register_room:
  assumes "runs_ok maximum active runs started items" "active < maximum"
  shows "register_stop maximum ident number items =
    (if ident = 0 then Inl StopRegistrationInvalid
     else if map_of items ident \<noteq> None then Inl StopRegistrationLimit else Inr ((ident, number) # items))"
  using registry_short [OF assms(1)] assms(2) by (simp add: register_stop_def)

lemma start_execution_ok:
  fixes st :: "'e scheduler_state"
  assumes "runs_ok (cf_maximum cf) (sd_active st) (sd_runs st) (sd_started st) (sd_registry st)" "candidate_ok (sd_power st)"
    and "sd_active st < cf_maximum cf"
  shows "scheduler_ok cf (start_execution cf r at st)"
proof (cases "register_stop (cf_maximum cf) (r_id r) (sd_started st) (sd_registry st)
    :: ('e scheduler_error, (entity_id \<times> nat) list) result")
  case (Inl e)
  then have "start_execution cf r at st = stop_executions (Some e) st" by (simp add: start_execution_def)
  with assms show ?thesis by (simp add: stop_executions_ok)
next
  case (Inr items)
  then have "map_of (sd_registry st) (r_id r) = None" "items = (r_id r, sd_started st) # sd_registry st"
    by (auto simp: register_room [OF assms(1,3)] split: if_splits)
  with assms Inr show ?thesis
    by (auto simp: start_execution_def scheduler_ok_def runs_ok_def entry_of_def registered_def map_of_eq_None_iff less_SucI
        image_Un Collect_disj_eq conj_disj_distribR)
qed

section \<open>The steps keep it\<close>

lemma take_reservation_ok:
  "sd_active st \<le> maximum \<Longrightarrow>
   point_ok maximum (sd_active st) stopped c (take_reservation \<lparr>cf_maximum = maximum, cf_controller = k\<rparr> r t deadline st)"
  by (auto simp: take_reservation_def Let_def in_time_def split: option.splits)

lemma next_point_ok:
  assumes "sd_active st \<le> cf_maximum cf"
  shows "point_ok (cf_maximum cf) (sd_active st) (sd_stopped st) (sd_power st) (next_point cf t deadline upcoming st)"
  using take_reservation_ok [OF assms, of _ _ "cf_controller cf"]
  by (cases cf) (auto simp: next_point_def split: option.splits)

lemma power_answer_ok:
  assumes "scheduler_ok cf st" "sd_point st = PowerDeciding t"
  shows "scheduler_ok cf (power_answer cf t answer st)"
  using assms
  by (auto simp: power_answer_def scheduler_ok_def at_point_def decide_power_def Let_def split: option.split sum.split prod.split if_splits)

lemma loop_step_ok:
  assumes ok: "scheduler_ok cf st" and step: "loop_step cf event st = Some st'"
  shows "scheduler_ok cf st'"
proof -
  from ok have runs: "runs_ok (cf_maximum cf) (sd_active st) (sd_runs st) (sd_started st) (sd_registry st)"
    and power: "candidate_ok (sd_power st)"
    and point: "point_ok (cf_maximum cf) (sd_active st) (sd_stopped st) (sd_power st) (sd_point st)"
    by (simp_all add: scheduler_ok_def)
  note stopped = stop_executions_ok [OF runs power]
  have bound: "sd_active st \<le> cf_maximum cf" using runs by (simp add: runs_ok_def)
  have at: "scheduler_ok cf (at_point p st)" if "point_ok (cf_maximum cf) (sd_active st) (sd_stopped st) (sd_power st) p" for p
    using runs power that by (simp add: scheduler_ok_def at_point_def)
  have fresh: "scheduler_ok cf (st\<lparr>sd_power := no_candidate, sd_point := AtTop\<rparr>)" "scheduler_ok cf (st\<lparr>sd_wake := w, sd_point := AtTop\<rparr>)" for w
    using runs power by (simp_all add: scheduler_ok_def)
  show ?thesis
    using step point
    by (cases event; cases "sd_point st")
      (auto simp: loop_step_def read_clock_def read_failed_def executor_failed_def Let_def
        intro: receive_ok [OF ok] stopped at fresh next_point_ok [OF bound] power_answer_ok [OF ok]
          start_execution_ok [OF runs power] split: if_splits option.splits sum.splits executor_answer.splits)
qed

lemma runs_map_ok:
  assumes "runs_ok maximum active runs started items"
    and "\<And>x. xe_number (f x) = xe_number x" "\<And>x. xe_reservation (f x) = xe_reservation x"
    and "\<And>x. x \<in> set runs \<Longrightarrow> registered (f x) = registered x"
  shows "runs_ok maximum active (map f runs) started items"
proof -
  have "entry_of ` {x \<in> set (map f runs). registered x} = (entry_of \<circ> f) ` {x \<in> set runs. registered x}"
    using assms(4) by (auto simp: image_iff)
  also have "entry_of \<circ> f = entry_of" by (simp add: fun_eq_iff entry_of_def assms(2,3))
  finally show ?thesis
    using assms(1) by (simp add: runs_ok_def assms(2) comp_def)
qed

lemma update_same: "update_execution number f st = st\<lparr>sd_runs := map (\<lambda>x. if xe_number x = number then f x else x) (sd_runs st)\<rparr>"
  by (simp add: update_execution_def)

lemma entry_unique:
  assumes "runs_ok maximum active runs started items" "x \<in> set runs" "registered x"
    and "y \<in> set runs" "registered y" "r_id (xe_reservation y) = r_id (xe_reservation x)"
  shows "y = x"
proof -
  have "entry_of x \<in> set items" "entry_of y \<in> set items" using assms by (auto simp: runs_ok_def)
  moreover have "fst (entry_of x) = fst (entry_of y)" by (simp add: entry_of_def assms(6))
  ultimately have "entry_of x = entry_of y"
    using assms(1) by (auto simp: runs_ok_def distinct_map dest: inj_onD)
  then have "xe_number y = xe_number x" by (simp add: entry_of_def)
  with assms show ?thesis using same_number [of runs y x] by (auto simp: runs_ok_def)
qed

lemma unregister_ok:
  assumes ok: "runs_ok maximum active runs started items" and x: "x \<in> set runs" "registered x"
  shows "runs_ok maximum active (map (\<lambda>y. if xe_number y = xe_number x then y\<lparr>xe_phase := Sending c, xe_cancelled := True\<rparr> else y) runs)
    started (unregister_stop (r_id (xe_reservation x)) items)" (is "runs_ok _ _ (map ?f runs) _ _")
proof -
  have numbers: "distinct (map xe_number runs)" using ok by (simp add: runs_ok_def)
  have "{y \<in> set (map ?f runs). registered y} = {y \<in> set runs. registered y} - {x}"
  proof -
    have same: "y = x" if "y \<in> set runs" "xe_number y = xe_number x" for y
      using same_number [OF numbers that(1) x(1) that(2)] .
    have changed: "registered (?f y) = (registered y \<and> y \<noteq> x)" if "y \<in> set runs" for y
      using same [OF that] by auto
    show ?thesis
    proof (rule set_eqI)
      fix z
      have "z \<in> {y \<in> set (map ?f runs). registered y} \<longleftrightarrow> (\<exists>y\<in>set runs. z = ?f y \<and> registered (?f y))" by auto
      also have "\<dots> \<longleftrightarrow> (\<exists>y\<in>set runs. z = ?f y \<and> registered y \<and> y \<noteq> x)" using changed by blast
      also have "\<dots> \<longleftrightarrow> (\<exists>y\<in>set runs. z = y \<and> registered y \<and> y \<noteq> x)" using same by (metis (mono_tags, lifting))
      finally show "z \<in> {y \<in> set (map ?f runs). registered y} \<longleftrightarrow> z \<in> {y \<in> set runs. registered y} - {x}" by auto
    qed
  qed
  moreover have "set (unregister_stop (r_id (xe_reservation x)) items) = entry_of ` ({y \<in> set runs. registered y} - {x})"
  proof -
    have "set (unregister_stop (r_id (xe_reservation x)) items) = {e \<in> set items. fst e \<noteq> r_id (xe_reservation x)}"
      by (simp add: unregister_stop_def)
    also have "\<dots> = entry_of ` {y \<in> set runs. registered y \<and> r_id (xe_reservation y) \<noteq> r_id (xe_reservation x)}"
      using ok by (auto simp: runs_ok_def entry_of_def)
    also have "{y \<in> set runs. registered y \<and> r_id (xe_reservation y) \<noteq> r_id (xe_reservation x)} =
        {y \<in> set runs. registered y} - {x}"
      using entry_unique [OF ok x] by blast
    finally show ?thesis .
  qed
  moreover have "xe_number \<circ> ?f = xe_number" by (simp add: fun_eq_iff)
  moreover have "distinct (map fst (unregister_stop (r_id (xe_reservation x)) items))"
    using ok by (simp add: runs_ok_def unregister_stop_def distinct_map_filter)
  moreover have "\<forall>y\<in>set (map ?f runs). xe_number y < started" using ok by (auto simp: runs_ok_def)
  ultimately show ?thesis using ok by (simp add: runs_ok_def)
qed

lemma scheduler_step_ok:
  assumes "scheduler_step cf st st'" "scheduler_ok cf st"
  shows "scheduler_ok cf st'"
  using assms
proof (cases rule: scheduler_step.cases)
  case (Loops event)
  with assms(2) show ?thesis by (simp add: loop_step_ok)
next
  case (Returns x c)
  have "scheduler_ok cf (update_execution (xe_number x) (\<lambda>x. x\<lparr>xe_phase := Unregistering c\<rparr>) st)"
    if "runs_ok (cf_maximum cf) (sd_active st) (sd_runs (update_execution (xe_number x) (\<lambda>x. x\<lparr>xe_phase := Unregistering c\<rparr>) st))
      (sd_started st) (sd_registry st)"
    using that assms(2) by (simp add: scheduler_ok_def update_same)
  moreover have "registered y" if "y \<in> set (sd_runs st)" "xe_number y = xe_number x" for y
    using that Returns assms(2) same_number [of "sd_runs st" x y] by (auto simp: scheduler_ok_def runs_ok_def registered_def)
  ultimately show ?thesis
    using assms(2) Returns
    by (auto simp: execution_returns_def update_same scheduler_ok_def intro!: runs_map_ok split: if_splits)
next
  case (Unregisters x c)
  then have "registered x" by (simp add: registered_def)
  with assms(2) Unregisters unregister_ok [OF _ Unregisters(2) this] show ?thesis
    by (simp add: execution_unregisters_def update_same scheduler_ok_def)
next
  case Notifies
  with assms(2) show ?thesis by (simp add: notify_def scheduler_ok_def)
next
  case (NotifiesStop ident)
  with assms(2) show ?thesis
    by (auto simp: notify_stop_def scheduler_ok_def cancel_execution_def intro!: runs_map_ok
        split: option.split if_splits)
next
  case ContextEnds
  with assms(2) show ?thesis by (simp add: scheduler_ok_def)
qed

lemma scheduler_reachable_ok: "scheduler_reachable cf st \<Longrightarrow> scheduler_ok cf st"
  by (induction rule: scheduler_reachable.induct) (auto intro: start_ok scheduler_step_ok)

lemma reachable_parts:
  assumes "scheduler_reachable cf st"
  shows "runs_ok (cf_maximum cf) (sd_active st) (sd_runs st) (sd_started st) (sd_registry st)" "candidate_ok (sd_power st)"
    "point_ok (cf_maximum cf) (sd_active st) (sd_stopped st) (sd_power st) (sd_point st)"
  using scheduler_reachable_ok [OF assms] by (simp_all add: scheduler_ok_def)

section \<open>What holds of every reachable state\<close>

lemma recordings_entry:
  assumes "runs_ok maximum active runs started items"
  shows "map_of items ident = Some number \<longleftrightarrow>
    (\<exists>x\<in>set runs. registered x \<and> r_id (xe_reservation x) = ident \<and> xe_number x = number)"
proof -
  have "map_of items ident = Some number \<longleftrightarrow> (ident, number) \<in> set items"
    using assms by (simp add: runs_ok_def)
  also have "\<dots> \<longleftrightarrow> (\<exists>x\<in>set runs. registered x \<and> r_id (xe_reservation x) = ident \<and> xe_number x = number)"
    using assms by (auto simp: runs_ok_def entry_of_def)
  finally show ?thesis .
qed

text \<open>C26. (invariant): whatever the interleaving, the counter of the loop is the number of recordings
  started and not yet collected, they are never more than the limit, the registry leads from a reservation to exactly
  its recording as long as that one has not removed itself, and when \<open>Run\<close> has returned no recording is left.\<close>

theorem recordings_accounted:
  assumes "scheduler_reachable cf st"
  shows "sd_active st = length (sd_runs st) \<and> length (sd_runs st) \<le> cf_maximum cf \<and>
    (map_of (sd_registry st) ident = Some number \<longleftrightarrow>
      (\<exists>x\<in>set (sd_runs st). registered x \<and> r_id (xe_reservation x) = ident \<and> xe_number x = number)) \<and>
    (case sd_point st of Returned e \<Rightarrow> sd_runs st = [] | _ \<Rightarrow> True)"
proof -
  note runs = reachable_parts(1) [OF assms] and point = reachable_parts(3) [OF assms]
  show ?thesis
    using runs point recordings_entry [OF runs] by (cases "sd_point st") (auto simp: runs_ok_def)
qed

text \<open>A stop asked for a reservation cancels the recording of that reservation and
  no other, and a recording that the loop may start always finds room in the registry: it is refused only without an
  identifier or while the same reservation is still recorded.\<close>

theorem stops_reach_their_recording:
  assumes "scheduler_reachable cf st"
  shows "sd_runs (notify_stop ident st) =
      map (\<lambda>x. if registered x \<and> r_id (xe_reservation x) = ident \<and> ident \<noteq> 0 then x\<lparr>xe_cancelled := True\<rparr> else x) (sd_runs st) \<and>
    (case sd_point st of
      Registering r at \<Rightarrow>
        is_ok (register_stop (cf_maximum cf) (r_id r) (sd_started st) (sd_registry st)) =
        (r_id r \<noteq> 0 \<and> \<not> (\<exists>x\<in>set (sd_runs st). registered x \<and> r_id (xe_reservation x) = r_id r))
    | _ \<Rightarrow> True)"
proof
  note runs = reachable_parts(1) [OF assms] and point = reachable_parts(3) [OF assms]
  have numbers: "distinct (map xe_number (sd_runs st))" using runs by (simp add: runs_ok_def)
  have entry: "map_of (sd_registry st) ident = Some number \<longleftrightarrow>
      (\<exists>x\<in>set (sd_runs st). registered x \<and> r_id (xe_reservation x) = ident \<and> xe_number x = number)" for ident number
    using recordings_entry [OF runs] .
  show "sd_runs (notify_stop ident st) =
      map (\<lambda>x. if registered x \<and> r_id (xe_reservation x) = ident \<and> ident \<noteq> 0 then x\<lparr>xe_cancelled := True\<rparr> else x) (sd_runs st)"
  proof (cases "ident \<noteq> 0 \<and> (\<exists>x\<in>set (sd_runs st). registered x \<and> r_id (xe_reservation x) = ident)")
    case True
    then obtain x where x: "x \<in> set (sd_runs st)" "registered x" "r_id (xe_reservation x) = ident" "ident \<noteq> 0" by blast
    then have "map_of (sd_registry st) ident = Some (xe_number x)" using entry by blast
    moreover have "xe_number y = xe_number x \<longleftrightarrow> registered y \<and> r_id (xe_reservation y) = ident" if "y \<in> set (sd_runs st)" for y
      using same_number [OF numbers that x(1)] entry_unique [OF runs x(1,2) that] x by auto
    ultimately show ?thesis using x(4) by (simp add: notify_stop_def cancel_execution_def)
  next
    case False
    then have "ident = 0 \<or> map_of (sd_registry st) ident = None" using entry by (metis not_None_eq)
    then have "sd_runs (notify_stop ident st) = sd_runs st" by (auto simp: notify_stop_def)
    moreover have "map (\<lambda>x. if registered x \<and> r_id (xe_reservation x) = ident \<and> ident \<noteq> 0 then x\<lparr>xe_cancelled := True\<rparr> else x)
        (sd_runs st) = sd_runs st"
      using False by (intro map_idI) auto
    ultimately show ?thesis by simp
  qed
  show "case sd_point st of
      Registering r at \<Rightarrow>
        is_ok (register_stop (cf_maximum cf) (r_id r) (sd_started st) (sd_registry st)) =
        (r_id r \<noteq> 0 \<and> \<not> (\<exists>x\<in>set (sd_runs st). registered x \<and> r_id (xe_reservation x) = r_id r))
    | _ \<Rightarrow> True"
  proof (cases "sd_point st")
    case (Registering r at)
    then have "sd_active st < cf_maximum cf" using point by simp
    moreover have "map_of (sd_registry st) (r_id r) \<noteq> None \<longleftrightarrow>
        (\<exists>x\<in>set (sd_runs st). registered x \<and> r_id (xe_reservation x) = r_id r)" using entry by auto
    ultimately show ?thesis using Registering by (simp add: register_room [OF runs])
  qed simp_all
qed

text \<open>A reservation that may be started: its planned start has come, a minute or more is left, and the start is no more
  than five minutes ago or, for one made while its program ran, it was made no more than five minutes ago.\<close>

definition startable :: "reservation \<Rightarrow> instant \<Rightarrow> bool" where
  "startable r t \<longleftrightarrow>
     t_nanos (planned_start r) \<le> t_nanos t \<and> t_nanos t + 60 * second \<le> t_nanos (planned_end r) \<and>
     (t_nanos t \<le> t_nanos (planned_start r) + 5 * minute \<or>
      \<not> is_zero_time (r_created_at r) \<and> t_nanos (planned_start r) \<le> t_nanos (r_created_at r) \<and>
      t_nanos (r_created_at r) \<le> t_nanos t \<and> t_nanos t \<le> t_nanos (r_created_at r) + 5 * minute)"

lemma startable_in_time: "in_time r t \<longleftrightarrow> startable r t"
  by (auto simp: in_time_def startable_def start_expired_def fresh_in_progress_def after_time_def before_time_def sub_time_def
      late_start_limit_def minimum_run_time_def)

text \<open>C27. (safety): a reservation is claimed only while fewer recordings than the limit run, at or after its
  planned start, with a minute or more left of it, and either no later than five minutes after its start or, when it was
  made while its program ran, no later than five minutes after it was made; it is given up only at or after its start,
  when that is not so, or when it is so and all slots are taken.\<close>

theorem starts_in_time:
  assumes "scheduler_reachable cf st"
  shows "case sd_point st of
      Claiming r t \<Rightarrow> startable r t \<and> length (sd_runs st) < cf_maximum cf
    | Missing r t reason \<Rightarrow>
        (if reason = ReasonLateStartExpired then t_nanos (planned_start r) \<le> t_nanos t \<and> \<not> startable r t
         else reason = ReasonRecordingSlotUnavailable \<and> startable r t \<and> length (sd_runs st) = cf_maximum cf)
    | _ \<Rightarrow> True"
proof -
  note runs = reachable_parts(1) [OF assms] and point = reachable_parts(3) [OF assms]
  have "sd_active st = length (sd_runs st)" using runs by (simp add: runs_ok_def)
  then show ?thesis
    using point by (cases "sd_point st") (auto simp: startable_in_time [symmetric] in_time_def after_time_def split: if_splits)
qed

text \<open>Of several results, the candidate is the mode they agree on.\<close>

lemma candidate_of_results:
  "let c = fold add_candidate modes no_candidate; changing = filter changes_power modes in
   (pw_present c \<longleftrightarrow> changing \<noteq> []) \<and> (pw_present c \<longrightarrow> pw_mode c = hd changing) \<and>
   (pw_conflict c \<longleftrightarrow> (\<exists>mode\<in>set changing. mode \<noteq> hd changing))"
proof (induction modes rule: rev_induct)
  case Nil
  then show ?case by (simp add: no_candidate_def)
next
  case (snoc mode modes)
  then show ?case
    by (cases "filter changes_power modes") (auto simp: add_candidate_def Let_def)
qed

lemma loop_to_power:
  assumes "loop_step cf event st = Some st'" "sd_point st' = PowerExecuting t mode wake"
  obtains upcoming where "event = FindsNext (Some upcoming)" "sd_point st = PowerDeciding t"
    "decide_power (sd_cancelled st) (cf_controller cf) (sd_power st) t upcoming = Inr (mode, wake)"
proof -
  have collected: "sd_point (settle_completion c p st0) \<noteq> PowerExecuting t mode wake"
    if "p \<noteq> PowerExecuting t mode wake" for c p st0
    using that by (simp add: settle_completion_def stop_executions_def drain_point_def split: option.split)
  have receives: "sd_point st'' \<noteq> PowerExecuting t mode wake" if "receive number st = Some st''" for number st''
    using that
    by (cases "sd_point st") (auto simp: receive_def bind_eq_Some_conv collected drain_completion_def drain_point_def Let_def split: if_splits)
  have taken: "next_point cf t' deadline upcoming st \<noteq> PowerExecuting t mode wake" for t' deadline upcoming
    by (auto simp: next_point_def take_reservation_def Let_def split: option.split)
  show ?thesis
  proof (cases "\<exists>t' answer. event = FindsNext answer \<and> sd_point st = PowerDeciding t'")
    case True
    then obtain t' answer where at: "event = FindsNext answer" "sd_point st = PowerDeciding t'" by blast
    with assms have st': "st' = power_answer cf t' answer st" by (simp add: loop_step_def)
    with assms(2) at that show ?thesis
      by (auto simp: power_answer_def at_point_def split: option.splits sum.splits prod.splits)
  next
    case False
    with assms receives taken show ?thesis
      by (cases event; cases "sd_point st")
        (auto simp: loop_step_def read_clock_def read_failed_def executor_failed_def stop_executions_def drain_point_def
          start_execution_def at_point_def Let_def split: if_splits option.splits sum.splits executor_answer.splits)
  qed
qed

section \<open>The results since the last power decision\<close>

text \<open>
  Every run again, now with the modes of the results that the loop has collected without an error since its last power
  decision ended: a collected result adds its mode, and the end of a decision, with or without a call of the controller,
  clears the list.
\<close>

definition results_after ::
    "'e scheduler_event \<Rightarrow> 'e scheduler_state \<Rightarrow> 'e scheduler_state \<Rightarrow> post_recording_mode list \<Rightarrow> post_recording_mode list" where
  "results_after event st st' results =
     (case event of
        Receives number \<Rightarrow> (case sent number st of Some (mode, None) \<Rightarrow> results @ [mode] | _ \<Rightarrow> results)
      | _ \<Rightarrow>
          (case (sd_point st, sd_point st') of
             (PowerDeciding t, AtTop) \<Rightarrow> []
           | (PowerExecuting t mode wake, AtTop) \<Rightarrow> []
           | _ \<Rightarrow> results))"

inductive scheduler_history :: "scheduler_config \<Rightarrow> 'e scheduler_state \<Rightarrow> post_recording_mode list \<Rightarrow> bool" for cf where
  Begins: "scheduler_history cf (start_scheduler cf) []"
| LoopGoes: "scheduler_history cf st results \<Longrightarrow> loop_step cf event st = Some st' \<Longrightarrow>
    scheduler_history cf st' (results_after event st st' results)"
| Returning: "scheduler_history cf st results \<Longrightarrow> x \<in> set (sd_runs st) \<Longrightarrow> xe_phase x = Executing \<Longrightarrow>
    scheduler_history cf (execution_returns (xe_number x) c st) results"
| Removing: "scheduler_history cf st results \<Longrightarrow> x \<in> set (sd_runs st) \<Longrightarrow> xe_phase x = Unregistering c \<Longrightarrow>
    scheduler_history cf (execution_unregisters x c st) results"
| Notifying: "scheduler_history cf st results \<Longrightarrow> scheduler_history cf (notify st) results"
| NotifyingStop: "scheduler_history cf st results \<Longrightarrow> scheduler_history cf (notify_stop ident st) results"
| ContextEnding: "scheduler_history cf st results \<Longrightarrow> scheduler_history cf (st\<lparr>sd_cancelled := True\<rparr>) results"

lemma history_reachable: "scheduler_history cf st results \<Longrightarrow> scheduler_reachable cf st"
  by (induction rule: scheduler_history.induct) (auto intro: scheduler_reachable.intros scheduler_step.intros)

lemma reachable_history: "scheduler_reachable cf st \<Longrightarrow> \<exists>results. scheduler_history cf st results"
proof (induction rule: scheduler_reachable.induct)
  case (Steps st st')
  then obtain results where "scheduler_history cf st results" by blast
  with Steps(2) show ?case by (cases rule: scheduler_step.cases) (blast intro: scheduler_history.intros)+
qed (blast intro: Begins)

text \<open>What the candidate of the loop says of these results.\<close>

definition stands_for :: "power_candidate \<Rightarrow> post_recording_mode list \<Rightarrow> bool" where
  "stands_for c results \<longleftrightarrow>
     (pw_present c \<longleftrightarrow> (\<exists>m\<in>set results. changes_power m)) \<and> (pw_present c \<longrightarrow> pw_mode c \<in> set results) \<and>
     (\<not> pw_conflict c \<longrightarrow> (\<forall>m\<in>set results. changes_power m \<longrightarrow> m = pw_mode c))"

lemma stands_for_none [simp]: "stands_for no_candidate []"
  by (simp add: stands_for_def no_candidate_def)

lemma stands_for_add: "stands_for c results \<Longrightarrow> stands_for (add_candidate mode c) (results @ [mode])"
  by (auto simp: stands_for_def add_candidate_def)

definition going_on :: "'e loop_point \<Rightarrow> bool" where
  "going_on point \<longleftrightarrow> (case point of Stopping first \<Rightarrow> False | Returned first \<Rightarrow> False | _ \<Rightarrow> True)"

lemma stop_not_going [simp]: "\<not> going_on (sd_point (stop_executions first st))"
  by (simp add: going_on_def stop_executions_def drain_point_def)

lemma receive_history:
  assumes "receive number st = Some st'" "going_on (sd_point st) \<longrightarrow> stands_for (sd_power st) results" "going_on (sd_point st')"
  shows "stands_for (sd_power st') (results_after (Receives number) st st' results)"
proof -
  from assms(1) obtain mode failed where sent: "sent number st = Some (mode, failed)"
    by (auto simp: receive_def bind_eq_Some_conv)
  show ?thesis
  proof (cases failed)
    case None
    with assms sent show ?thesis
      by (cases "sd_point st")
        (auto simp: receive_def settle_completion_def drain_completion_def drain_point_def results_after_def collected_def going_on_def Let_def
          intro: stands_for_add split: if_splits)
  next
    case (Some e)
    with assms(1,3) sent show ?thesis
      by (cases "sd_point st")
        (auto simp: receive_def settle_completion_def drain_completion_def drain_point_def going_on_def stop_executions_def Let_def split: if_splits)
  qed
qed

lemma loop_history:
  assumes step: "loop_step cf event st = Some st'"
    and before: "going_on (sd_point st) \<longrightarrow> stands_for (sd_power st) results" and after: "going_on (sd_point st')"
  shows "stands_for (sd_power st') (results_after event st st' results)"
proof (cases "\<exists>number. event = Receives number")
  case True
  then obtain number where number: "event = Receives number" by blast
  with step have "receive number st = Some st'" by (cases "sd_point st") (simp_all add: loop_step_def)
  from receive_history [OF this before after] number show ?thesis by simp
next
  case False
  show ?thesis
  proof (cases "sd_power st' = no_candidate \<and> sd_point st' = AtTop \<and> (\<exists>t. sd_point st = PowerDeciding t \<or> (\<exists>mode wake. sd_point st = PowerExecuting t mode wake))")
    case True
    with False show ?thesis by (cases event) (auto simp: results_after_def)
  next
    case kept: False
    have "sd_power st' = sd_power st \<and> going_on (sd_point st) \<and> results_after event st st' results = results"
      using step False kept after
      by (cases event; cases "sd_point st")
        (auto simp: loop_step_def read_clock_def read_failed_def executor_failed_def at_point_def power_answer_def Let_def
          start_execution_def results_after_def going_on_def stop_executions_def drain_point_def
          split: if_splits option.splits sum.splits executor_answer.splits prod.splits)
    with before show ?thesis by simp
  qed
qed

lemma beside_same:
  "sd_point (notify_stop ident st) = sd_point st" "sd_power (notify_stop ident st) = sd_power st"
  by (simp_all add: notify_stop_def split: option.split)

lemma history_stands:
  "scheduler_history cf st results \<Longrightarrow> going_on (sd_point st) \<Longrightarrow> stands_for (sd_power st) results"
proof (induction rule: scheduler_history.induct)
  case Begins
  then show ?case by (simp add: start_scheduler_def)
next
  case (LoopGoes st results event st')
  then show ?case by (intro loop_history) auto
qed (simp_all add: execution_returns_def execution_unregisters_def update_execution_def notify_def beside_same)

text \<open>C28. (safety): the power controller is called only while no recording runs, with a mode that changes
  the power, that a recording asked for which was collected without an error since the last power decision, and that no
  other such recording disagreed with; a result that does not change the power has no say. When the store names a next
  reservation under the lock, the call is made only ten minutes or more before its planned start and with an alarm five
  minutes before that start.\<close>

theorem power_changes_alone:
  assumes "scheduler_history cf st results" "loop_step cf event st = Some st'" "sd_point st' = PowerExecuting t mode wake"
  shows "sd_runs st = [] \<and> changes_power mode \<and> mode \<in> set results \<and> (\<forall>m\<in>set results. changes_power m \<longrightarrow> m = mode) \<and>
    cf_controller cf \<and> \<not> sd_cancelled st \<and>
    (\<exists>upcoming. event = FindsNext (Some upcoming) \<and>
      (case upcoming of
        None \<Rightarrow> wake = None
      | Some r \<Rightarrow> t_nanos t + 10 * minute \<le> t_nanos (planned_start r) \<and>
          wake = Some \<lparr>t_nanos = t_nanos (planned_start r) - 5 * minute, t_utc = True\<rparr>))"
proof -
  note reachable = history_reachable [OF assms(1)]
  note runs = reachable_parts(1) [OF reachable] and power = reachable_parts(2) [OF reachable] and point = reachable_parts(3) [OF reachable]
  obtain upcoming where event: "event = FindsNext (Some upcoming)" and at: "sd_point st = PowerDeciding t"
    and decided: "decide_power (sd_cancelled st) (cf_controller cf) (sd_power st) t upcoming = Inr (mode, wake)"
    by (rule loop_to_power [OF assms(2,3)])
  have "sd_runs st = []" "pw_present (sd_power st)" using at point runs by (simp_all add: runs_ok_def)
  moreover have "changes_power (pw_mode (sd_power st))" using power \<open>pw_present (sd_power st)\<close> by (simp add: candidate_ok_def)
  moreover have "mode = pw_mode (sd_power st)" "\<not> pw_conflict (sd_power st)"
    using decided by (auto simp: decide_power_def Let_def split: if_splits option.splits)
  moreover have "stands_for (sd_power st) results" using history_stands [OF assms(1)] at by (simp add: going_on_def)
  then have "(pw_present (sd_power st) \<longrightarrow> pw_mode (sd_power st) \<in> set results) \<and>
      (\<not> pw_conflict (sd_power st) \<longrightarrow> (\<forall>m\<in>set results. changes_power m \<longrightarrow> m = pw_mode (sd_power st)))"
    by (simp add: stands_for_def)
  ultimately have agreed: "sd_runs st = [] \<and> changes_power mode \<and> mode \<in> set results \<and> (\<forall>m\<in>set results. changes_power m \<longrightarrow> m = mode)"
    by simp
  have "cf_controller cf \<and> \<not> sd_cancelled st \<and> (case upcoming of
        None \<Rightarrow> wake = None
      | Some r \<Rightarrow> t_nanos t + 10 * minute \<le> t_nanos (planned_start r) \<and>
          wake = Some \<lparr>t_nanos = t_nanos (planned_start r) - 5 * minute, t_utc = True\<rparr>)"
    using decided
    by (cases upcoming)
      (auto simp: decide_power_def Let_def sub_time_def add_duration_def in_utc_def power_minimum_idle_def power_wake_margin_def
        split: if_splits)
  with agreed event show ?thesis by blast
qed

section \<open>The end of the loop\<close>

lemma sending_sent:
  assumes "x \<in> set (sd_runs st)" "xe_phase x = Sending c" "distinct (map xe_number (sd_runs st))"
  shows "sent (xe_number x) st = Some c"
proof -
  have "List.find (sending (xe_number x)) (sd_runs st) \<noteq> None"
    using assms(1,2) by (auto simp: find_None_iff sending_def)
  then obtain y where y: "List.find (sending (xe_number x)) (sd_runs st) = Some y" by blast
  then have "y \<in> set (sd_runs st)" "xe_number y = xe_number x" by (auto simp: find_Some_iff sending_def)
  then have "y = x" using same_number [OF assms(3) _ assms(1)] by blast
  then show ?thesis using y assms(2) by (simp add: sent_def)
qed

text \<open>A recording sends its result in the end, whatever the loop does.\<close>

lemma reaches_sending:
  assumes "x \<in> set (sd_runs st)" "scheduler_ok cf st"
  obtains st' y c where "(scheduler_step cf)\<^sup>*\<^sup>* st st'" "scheduler_ok cf st'" "sd_point st' = sd_point st"
    "y \<in> set (sd_runs st')" "xe_phase y = Sending c" "sd_active st' = sd_active st"
proof -
  note reached = that
  have unregisters: thesis
    if x: "x \<in> set (sd_runs st0)" "xe_phase x = Unregistering c" and before: "(scheduler_step cf)\<^sup>*\<^sup>* st st0" "scheduler_ok cf st0"
      "sd_point st0 = sd_point st" "sd_active st0 = sd_active st" for x c st0
  proof (rule reached)
    have step: "scheduler_step cf st0 (execution_unregisters x c st0)" by (rule Unregisters [OF x])
    with before(1) show "(scheduler_step cf)\<^sup>*\<^sup>* st (execution_unregisters x c st0)" by simp
    show "scheduler_ok cf (execution_unregisters x c st0)" by (rule scheduler_step_ok [OF step before(2)])
    show "x\<lparr>xe_phase := Sending c, xe_cancelled := True\<rparr> \<in> set (sd_runs (execution_unregisters x c st0))"
      using x(1) by (auto simp: execution_unregisters_def update_same image_iff intro!: bexI [of _ x])
  qed (simp_all add: execution_unregisters_def update_same before)
  show thesis
  proof (cases "xe_phase x")
    case Executing
    let ?st = "execution_returns (xe_number x) (0, None) st"
    have step: "scheduler_step cf st ?st" by (rule Returns [OF assms(1) Executing])
    show thesis
    proof (rule unregisters)
      show "x\<lparr>xe_phase := Unregistering (0, None)\<rparr> \<in> set (sd_runs ?st)"
        using assms(1) by (auto simp: execution_returns_def update_same image_iff intro!: bexI [of _ x])
      show "scheduler_ok cf ?st" by (rule scheduler_step_ok [OF step assms(2)])
    qed (use step in \<open>simp_all add: execution_returns_def update_same\<close>)
  next
    case (Unregistering c)
    then show thesis using unregisters [OF assms(1) Unregistering] assms(2) by simp
  next
    case (Sending c)
    then show thesis using reached [of st x c] assms by simp
  qed
qed

text \<open>C29. (liveness): once the loop stops its recordings, every one of them can end, hand over its result and
  be collected, until \<open>Run\<close> returns; an error that made it stop is the one it returns.\<close>

theorem stopping_ends:
  assumes "scheduler_reachable cf st" "sd_point st = Stopping first"
  shows "\<exists>st' e. (scheduler_step cf)\<^sup>*\<^sup>* st st' \<and> sd_point st' = Returned e \<and> sd_runs st' = [] \<and> (first = None \<or> e = first)"
proof -
  have "scheduler_ok cf st \<Longrightarrow> sd_point st = Stopping first \<Longrightarrow> sd_active st = n \<Longrightarrow>
      \<exists>st' e. (scheduler_step cf)\<^sup>*\<^sup>* st st' \<and> sd_point st' = Returned e \<and> sd_runs st' = [] \<and> (first = None \<or> e = first)" for n st first
  proof (induction n arbitrary: st first)
    case 0
    then show ?case by (simp add: scheduler_ok_def)
  next
    case (Suc n)
    from Suc.prems have "sd_runs st \<noteq> []" by (auto simp: scheduler_ok_def runs_ok_def)
    then obtain x where "x \<in> set (sd_runs st)" by (cases "sd_runs st") auto
    then obtain st1 y c where st1: "(scheduler_step cf)\<^sup>*\<^sup>* st st1" "scheduler_ok cf st1" "sd_point st1 = Stopping first"
      "y \<in> set (sd_runs st1)" "xe_phase y = Sending c" "sd_active st1 = Suc n"
      using reaches_sending [OF _ Suc.prems(1)] Suc.prems by metis
    let ?st2 = "drain_completion c first (collected (xe_number y) st1)"
    have "sent (xe_number y) st1 = Some c"
      using st1 by (intro sending_sent) (auto simp: scheduler_ok_def runs_ok_def)
    then have receive: "receive (xe_number y) st1 = Some ?st2" by (simp add: receive_def st1(3))
    then have step: "scheduler_step cf st1 ?st2" by (intro Loops [where event = "Receives (xe_number y)"]) (simp add: loop_step_def)
    have ok: "scheduler_ok cf ?st2" by (rule receive_ok [OF st1(2) receive])
    have active: "sd_active ?st2 = n" by (simp add: drain_completion_def collected_def st1(6))
    from st1(1) step have reached2: "(scheduler_step cf)\<^sup>*\<^sup>* st ?st2" by (rule rtranclp.rtrancl_into_rtrancl)
    note Suc_IH = Suc.IH
    let ?first = "if first = None then map_option ExecutorFailed (snd c) else first"
    show ?case
    proof (cases n)
      case 0
      then have point: "sd_point ?st2 = Returned ?first" by (simp add: drain_completion_def drain_point_def collected_def st1(6))
      from ok have "sd_active ?st2 = length (sd_runs ?st2)" by (simp only: scheduler_ok_def runs_ok_def)
      then have "sd_runs ?st2 = []" using active 0 by simp
      moreover have "first = None \<or> ?first = first" by simp
      ultimately show ?thesis using reached2 point by blast
    next
      case (Suc m)
      then have point: "sd_point ?st2 = Stopping ?first" by (simp add: drain_completion_def drain_point_def collected_def st1(6))
      from Suc_IH [OF ok point active] obtain st' e where rest: "(scheduler_step cf)\<^sup>*\<^sup>* ?st2 st'"
        "sd_point st' = Returned e" "sd_runs st' = []" "?first = None \<or> e = ?first" by blast
      from reached2 rest(1) have "(scheduler_step cf)\<^sup>*\<^sup>* st st'" by (rule rtranclp_trans)
      moreover have "first = None \<or> e = first" using rest(4) by (cases first) auto
      ultimately show ?thesis using rest(2,3) by blast
    qed
  qed
  from this [OF scheduler_reachable_ok [OF assms(1)] assms(2) refl] show ?thesis .
qed

section \<open>A run with one recording\<close>

primrec loop_steps :: "scheduler_config \<Rightarrow> 'e scheduler_event list \<Rightarrow> 'e scheduler_state \<Rightarrow> 'e scheduler_state option" where
  "loop_steps cf [] st = Some st"
| "loop_steps cf (event # events) st = Option.bind (loop_step cf event st) (loop_steps cf events)"

lemma loop_steps_reachable:
  "loop_steps cf events st = Some st' \<Longrightarrow> scheduler_reachable cf st \<Longrightarrow> scheduler_reachable cf st'"
proof (induction events arbitrary: st)
  case (Cons event events)
  then show ?case by (auto simp: bind_eq_Some_conv dest: Steps [OF _ Loops])
qed simp

definition one_slot :: scheduler_config where
  "one_slot = \<lparr>cf_maximum = 1, cf_controller = True\<rparr>"

definition scheduled_attempt :: attempt where
  "scheduled_attempt = \<lparr>at_id = 1, at_reservation_id = 9, at_state = AttemptClaimed,
     at_planned_start = planned_start sample_reservation, at_planned_end = planned_end sample_reservation, at_byte_count = 0,
     at_plan = \<lparr>partial_path = [], final_path = []\<rparr>, at_one_seg_plan = None\<rparr>"

definition start_time :: instant where
  "start_time = \<lparr>t_nanos = 1600000000 * second, t_utc = True\<rparr>"

text \<open>The reservation is due; it is claimed and its recording started; the recording ends with a mode.\<close>

definition due :: "nat scheduler_state" where
  "due = (start_scheduler one_slot)\<lparr>sd_point := Claiming sample_reservation start_time\<rparr>"

definition recorded :: "nat execution" where
  "recorded = \<lparr>xe_number = 0, xe_reservation = sample_reservation, xe_attempt = scheduled_attempt, xe_cancelled = False, xe_phase = Executing\<rparr>"

definition running :: "nat scheduler_state" where
  "running = (start_scheduler one_slot)\<lparr>sd_active := 1, sd_started := 1, sd_registry := [(9, 0)], sd_runs := [recorded]\<rparr>"

lemma due_reachable: "scheduler_reachable one_slot due"
proof (rule loop_steps_reachable [OF _ Starts])
  show "loop_steps one_slot [ReadsClock start_time, ExpiresOne (Some False), FindsDeadline (Some None),
      FindsNext (Some (Some sample_reservation))] (start_scheduler one_slot) = Some due"
    by (simp add: loop_step_def due_def start_scheduler_def one_slot_def none_sending_def read_clock_def Let_def start_time_def
        in_utc_def is_zero_time_def zero_nanos_def unix_milli_def at_point_def next_point_def take_reservation_def no_candidate_def
        planned_start_def planned_end_def sample_reservation_def sample_program_def effective_margins_def add_duration_def
        after_time_def before_time_def start_expired_def fresh_in_progress_def sub_time_def late_start_limit_def minimum_run_time_def)
qed

lemma running_reachable: "scheduler_reachable one_slot running"
proof (rule loop_steps_reachable [OF _ due_reachable])
  show "loop_steps one_slot [ClaimAnswer (Inl scheduled_attempt), RegistersStop] due = Some running"
    by (simp add: loop_step_def due_def running_def recorded_def start_scheduler_def one_slot_def at_point_def start_execution_def
        register_stop_def sample_reservation_def)
qed

theorem recordings_accounted_witness:
  "sd_active running = length (sd_runs running) \<and> map_of (sd_registry running) 9 = Some 0"
  using recordings_accounted [OF running_reachable, of 9 0]
  by (auto simp: running_def recorded_def registered_def sample_reservation_def)

theorem stops_reach_their_recording_witness: "map xe_cancelled (sd_runs (notify_stop 9 running)) = [True]"
  using conjunct1 [OF stops_reach_their_recording [OF running_reachable, of 9]]
  by (simp add: running_def recorded_def registered_def sample_reservation_def)

theorem starts_in_time_witness: "startable sample_reservation start_time"
  using starts_in_time [OF due_reachable] by (simp add: due_def)

text \<open>The recording ends with the mode that puts the recorder on standby, and nothing else is reserved.\<close>

definition ended :: "nat scheduler_state" where
  "ended = execution_unregisters (recorded\<lparr>xe_phase := Unregistering (2, None)\<rparr>) (2, None) (execution_returns 0 (2, None) running)"

lemma ended_reachable: "scheduler_reachable one_slot ended"
proof -
  have "scheduler_reachable one_slot (execution_returns 0 (2, None) running)"
    using Steps [OF running_reachable Returns [of recorded running _ "(2, None)"]]
    by (simp add: running_def recorded_def)
  moreover have "recorded\<lparr>xe_phase := Unregistering (2, None)\<rparr> \<in> set (sd_runs (execution_returns 0 (2, None) running))"
    by (simp add: execution_returns_def update_execution_def running_def recorded_def)
  ultimately show ?thesis
    unfolding ended_def by (intro Steps [OF _ Unregisters]) simp_all
qed

definition deciding :: "nat scheduler_state" where
  "deciding = (start_scheduler one_slot)\<lparr>sd_started := 1, sd_power := \<lparr>pw_mode = 2, pw_present = True, pw_conflict = False\<rparr>,
     sd_point := PowerDeciding start_time\<rparr>"

lemma deciding_reachable: "scheduler_reachable one_slot deciding"
proof (rule loop_steps_reachable [OF _ ended_reachable])
  show "loop_steps one_slot [Receives 0, ReadsClock start_time, ExpiresOne (Some False), FindsDeadline (Some None),
      FindsNext (Some None)] ended = Some deciding"
    by (simp add: loop_step_def receive_def sent_def sending_def collected_def settle_completion_def add_candidate_def changes_power_def
        ended_def execution_unregisters_def execution_returns_def update_execution_def unregister_stop_def running_def recorded_def
        deciding_def start_scheduler_def one_slot_def none_sending_def read_clock_def Let_def start_time_def no_candidate_def
        in_utc_def is_zero_time_def zero_nanos_def unix_milli_def at_point_def next_point_def sample_reservation_def)
qed

theorem power_changes_alone_witness:
  "\<exists>results. scheduler_history one_slot deciding results \<and> 2 \<in> set results \<and> sd_runs deciding = [] \<and> cf_controller one_slot"
proof -
  have step: "loop_step one_slot (FindsNext (Some None)) deciding = Some (at_point (PowerExecuting start_time 2 None) deciding)"
    by (simp add: loop_step_def deciding_def start_scheduler_def one_slot_def power_answer_def decide_power_def)
  obtain results where history: "scheduler_history one_slot deciding results"
    using reachable_history [OF deciding_reachable] by blast
  from power_changes_alone [OF history step, of start_time 2 None] history show ?thesis
    by (auto simp: at_point_def)
qed

definition failing :: "nat scheduler_state" where
  "failing = running\<lparr>sd_stopped := True, sd_point := Stopping (Some DisabledDeadlineUnreadable)\<rparr>"

lemma failing_reachable: "scheduler_reachable one_slot failing"
proof (rule loop_steps_reachable [OF _ running_reachable])
  show "loop_steps one_slot [ReadsClock start_time, ExpiresOne (Some False), FindsDeadline None] running = Some failing"
    by (simp add: loop_step_def running_def recorded_def failing_def start_scheduler_def one_slot_def none_sending_def sending_def
        read_clock_def Let_def start_time_def in_utc_def is_zero_time_def zero_nanos_def unix_milli_def at_point_def
        read_failed_def stop_executions_def drain_point_def)
qed

theorem stopping_ends_witness:
  "\<exists>st. (scheduler_step one_slot)\<^sup>*\<^sup>* failing st \<and> sd_point st = Returned (Some DisabledDeadlineUnreadable)"
  using stopping_ends [OF failing_reachable, of "Some DisabledDeadlineUnreadable"] by (auto simp: failing_def)

end
