(* ===== verification/HlsPlaylist.thy ===== *)
theory HlsPlaylist
  imports GoText Calendar
begin

text \<open>
  \<open>internal/adapters/recordinghttp/hls_playlist.go\<close>: the media playlist of a live session.  Segments get consecutive
  numbers, the oldest leave when the playlist is longer than its window, and a segment that left has to be kept for
  its own duration and that of the longest playlist that listed it.  Sequence numbers are 64-bit words.
\<close>

abbreviation hls_target_duration :: int where "hls_target_duration \<equiv> 2 * second"

record hls_retention =
  hr_sequence :: u64
  hr_retain_for :: int

record hls_segment =
  hs_sequence :: u64
  hs_duration :: int
  hs_discontinuity :: bool
  hs_longest :: int

record hls_playlist =
  pl_key :: bytes
  pl_segments :: "hls_segment list"
  pl_next :: u64
  pl_exhausted :: bool
  pl_discontinuity_sequence :: u64
  pl_terminal :: bool
  pl_maximum :: int
  pl_minimum :: int

datatype hls_error = InvalidPlaylist | SequenceExhausted | InvalidSegment | PlaylistUnavailable

definition ascii_alphanumeric :: "byte \<Rightarrow> bool" where
  "ascii_alphanumeric b \<longleftrightarrow> 48 \<le> b \<and> b \<le> 57 \<or> 65 \<le> b \<and> b \<le> 90 \<or> 97 \<le> b \<and> b \<le> 122"

definition valid_hls_key :: "bytes \<Rightarrow> bool" where
  "valid_hls_key key \<longleftrightarrow>
     1 \<le> length key \<and> length key \<le> 96 \<and> ascii_alphanumeric (hd key) \<and>
     list_all (\<lambda>b. ascii_alphanumeric b \<or> b = 0x5f \<or> b = 0x2d) (tl key)"

definition new_hls_playlist_with_window :: "bytes \<Rightarrow> int \<Rightarrow> int \<Rightarrow> (hls_error, hls_playlist) result" where
  "new_hls_playlist_with_window key longest shortest =
     (if \<not> valid_hls_key key \<or> longest \<le> 0 \<or> shortest \<le> 0 \<or> shortest > longest then Inl InvalidPlaylist
      else Inr \<lparr>pl_key = key, pl_segments = [], pl_next = 0, pl_exhausted = False, pl_discontinuity_sequence = 0,
        pl_terminal = False, pl_maximum = longest, pl_minimum = shortest\<rparr>)"

definition new_hls_playlist :: "bytes \<Rightarrow> (hls_error, hls_playlist) result" where
  "new_hls_playlist key = new_hls_playlist_with_window key (60 * second) (6 * second)"

definition next_sequence :: "hls_playlist \<Rightarrow> (hls_error, u64) result" where
  "next_sequence pl = (if pl_terminal pl \<or> pl_exhausted pl then Inl SequenceExhausted else Inr (pl_next pl))"

definition playlist_duration :: "hls_segment list \<Rightarrow> int" where
  "playlist_duration segments = sum_list (map hs_duration segments)"

text \<open>
  The loop that retires segments from the front.  It gives whether it ended without exhausting the discontinuity
  sequence, the segments left, that sequence, the retentions and the length of what is left.
\<close>

type_synonym retired = "bool \<times> hls_segment list \<times> u64 \<times> hls_retention list \<times> int"

definition retention_of :: "hls_segment \<Rightarrow> hls_retention" where
  "retention_of seg = \<lparr>hr_sequence = hs_sequence seg, hr_retain_for = hs_duration seg + hs_longest seg\<rparr>"

fun retire :: "int \<Rightarrow> int \<Rightarrow> int \<Rightarrow> u64 \<Rightarrow> hls_segment list \<Rightarrow> retired" where
  "retire longest shortest span ds (oldest # second_oldest # rest) =
     (if span > longest then
        (if span - hs_duration oldest < shortest then (True, oldest # second_oldest # rest, ds, [], span)
         else if hs_discontinuity oldest \<and> ds = - 1 then (False, oldest # second_oldest # rest, ds, [], span)
         else
           case retire longest shortest (span - hs_duration oldest) (if hs_discontinuity oldest then ds + 1 else ds)
               (second_oldest # rest) of
             (good, left, ds', retired, span') \<Rightarrow> (good, left, ds', retention_of oldest # retired, span'))
      else (True, oldest # second_oldest # rest, ds, [], span))"
| "retire longest shortest span ds segments = (True, segments, ds, [], span)"

definition raise_longest :: "int \<Rightarrow> hls_segment \<Rightarrow> hls_segment" where
  "raise_longest span seg = (if span > hs_longest seg then seg\<lparr>hs_longest := span\<rparr> else seg)"

definition append_segment ::
    "u64 \<Rightarrow> int \<Rightarrow> bool \<Rightarrow> hls_playlist \<Rightarrow> (hls_error, hls_retention list) result \<times> hls_playlist" where
  "append_segment sequence duration discontinuity pl =
     (if pl_terminal pl \<or> pl_exhausted pl \<or> sequence \<noteq> pl_next pl \<or> duration \<le> 0 \<or> duration > hls_target_duration
      then (Inl InvalidSegment, pl)
      else
        let segments = pl_segments pl @ [\<lparr>hs_sequence = sequence, hs_duration = duration,
              hs_discontinuity = discontinuity, hs_longest = 0\<rparr>];
            pl1 = pl\<lparr>pl_exhausted := (sequence = - 1),
              pl_next := (if sequence = - 1 then pl_next pl else pl_next pl + 1)\<rparr>
        in
          case retire (pl_maximum pl) (pl_minimum pl) (playlist_duration segments) (pl_discontinuity_sequence pl) segments of
            (good, left, ds, retired, span) \<Rightarrow>
              if good then
                (Inr retired, pl1\<lparr>pl_segments := map (raise_longest span) left, pl_discontinuity_sequence := ds\<rparr>)
              else (Inl SequenceExhausted, pl1\<lparr>pl_segments := left, pl_discontinuity_sequence := ds\<rparr>))"

definition finish_playlist :: "hls_playlist \<Rightarrow> hls_retention list \<times> hls_playlist" where
  "finish_playlist pl =
     (map (\<lambda>seg. \<lparr>hr_sequence = hs_sequence seg, hr_retain_for = hs_longest seg\<rparr>) (pl_segments pl),
      pl\<lparr>pl_terminal := True\<rparr>)"

text \<open>
  \<open>formatHLSDuration\<close>: the decimal digits of the seconds; for durations up to the target of two seconds the nine
  digits that the code asks of the floating point number are those of the nanoseconds.
\<close>

definition format_hls_duration :: "int \<Rightarrow> bytes" where
  "format_hls_duration duration =
     (let text = trim_right 48 (decimal (nat (duration div second)) @ 0x2e # zero_pad 9 (decimal (nat (duration mod second))))
      in if last text = 0x2e then text @ [48] else text)"

definition newline :: byte where
  "newline = 10"

definition line :: "bytes \<Rightarrow> bytes" where
  "line text = text @ [newline]"

definition render_segment :: "bytes \<Rightarrow> hls_segment \<Rightarrow> bytes" where
  "render_segment key seg =
     (if hs_discontinuity seg then line (ascii ''#EXT-X-DISCONTINUITY'') else []) @
     line (ascii ''#EXTINF:'' @ format_hls_duration (hs_duration seg) @ ascii '','') @
     line (ascii ''/komorebi/live/'' @ key @ slash # decimal (unat (hs_sequence seg)) @ ascii ''.ts'')"

definition render_playlist :: "hls_playlist \<Rightarrow> (hls_error, bytes) result" where
  "render_playlist pl =
     (if pl_segments pl = [] then Inl PlaylistUnavailable
      else Inr
        (line (ascii ''#EXTM3U'') @ line (ascii ''#EXT-X-VERSION:3'') @ line (ascii ''#EXT-X-TARGETDURATION:2'') @
         (if pl_discontinuity_sequence pl > 0 \<or> list_ex hs_discontinuity (pl_segments pl)
          then line (ascii ''#EXT-X-DISCONTINUITY-SEQUENCE:'' @ decimal (unat (pl_discontinuity_sequence pl))) else []) @
         line (ascii ''#EXT-X-MEDIA-SEQUENCE:'' @ decimal (unat (hs_sequence (hd (pl_segments pl))))) @
         concat (map (render_segment (pl_key pl)) (pl_segments pl)) @
         (if pl_terminal pl then line (ascii ''#EXT-X-ENDLIST'') else [])))"

section \<open>Retirement\<close>

lemma retire_split:
  assumes "retire longest shortest span ds segments = (good, left, ds', retired, span')"
    and "span = playlist_duration segments"
  shows "\<exists>gone. segments = gone @ left \<and> retired = map retention_of gone \<and> span' = playlist_duration left \<and>
    (segments \<noteq> [] \<longrightarrow> left \<noteq> [])"
  using assms
proof (induction longest shortest span ds segments arbitrary: good left ds' retired span' rule: retire.induct)
  case (1 longest shortest span ds oldest second_oldest rest)
  show ?case
  proof (cases "span > longest \<and> \<not> span - hs_duration oldest < shortest \<and> \<not> (hs_discontinuity oldest \<and> ds = - 1)")
    case True
    obtain good1 left1 ds1 retired1 span1 where inner:
      "retire longest shortest (span - hs_duration oldest) (if hs_discontinuity oldest then ds + 1 else ds)
        (second_oldest # rest) = (good1, left1, ds1, retired1, span1)" by (metis prod_cases5)
    then have "\<exists>gone. second_oldest # rest = gone @ left1 \<and> retired1 = map retention_of gone \<and>
      span1 = playlist_duration left1 \<and> (second_oldest # rest \<noteq> [] \<longrightarrow> left1 \<noteq> [])"
      using 1(1) True 1(3) by (simp add: playlist_duration_def)
    then obtain gone where "second_oldest # rest = gone @ left1" "retired1 = map retention_of gone"
      "span1 = playlist_duration left1" "left1 \<noteq> []" by auto
    moreover have "left = left1" "retired = retention_of oldest # retired1" "span' = span1"
      using 1(2) True inner by auto
    ultimately show ?thesis by (intro exI [of _ "oldest # gone"]) simp
  next
    case False
    then have "left = oldest # second_oldest # rest" "retired = []" "span' = span"
      using 1(2) by (auto split: if_splits)
    then show ?thesis using 1(3) by (intro exI [of _ "[]"]) simp
  qed
qed auto

lemma retire_window:
  assumes "retire longest shortest span ds segments = (True, left, ds', retired, span')"
    and "list_all (\<lambda>seg. 0 < hs_duration seg \<and> hs_duration seg \<le> hls_target_duration) segments"
    and "hls_target_duration \<le> longest" "shortest + hls_target_duration \<le> longest" "span = playlist_duration segments"
  shows "span' \<le> longest"
  using assms
proof (induction longest shortest span ds segments arbitrary: left ds' retired span' rule: retire.induct)
  case (1 longest shortest span ds oldest second_oldest rest)
  show ?case
  proof (cases "span > longest")
    case True
    then have "\<not> span - hs_duration oldest < shortest" using 1(3,5) by auto
    moreover have "\<not> (hs_discontinuity oldest \<and> ds = - 1)" using 1(2) True calculation by auto
    moreover obtain left1 ds1 retired1 where
      "retire longest shortest (span - hs_duration oldest) (if hs_discontinuity oldest then ds + 1 else ds)
        (second_oldest # rest) = (True, left1, ds1, retired1, span')"
      using 1(2) True calculation by (auto split: prod.splits)
    ultimately show ?thesis using 1(1) True 1(3-6) by (simp add: playlist_duration_def)
  qed (use 1(2) in auto)
qed (auto simp: playlist_duration_def)

section \<open>Playlists of a session\<close>

text \<open>A playlist of the default window reached by appends and a finish, with the segment lists it has shown.\<close>

inductive published :: "hls_playlist \<Rightarrow> hls_segment list list \<Rightarrow> bool" where
  opened: "new_hls_playlist key = Inr pl \<Longrightarrow> published pl []"
| appended: "published pl shown \<Longrightarrow> append_segment sequence duration discontinuity pl = (r, pl') \<Longrightarrow>
    published pl' (if is_ok r then shown @ [pl_segments pl'] else shown)"
| finished: "published pl shown \<Longrightarrow> published (snd (finish_playlist pl)) shown"

definition sequence_limit :: "hls_playlist \<Rightarrow> nat" where
  "sequence_limit pl = (if pl_exhausted pl then 2 ^ 64 else unat (pl_next pl))"

definition numbered :: "nat \<Rightarrow> hls_segment list \<Rightarrow> bool" where
  "numbered limit segments \<longleftrightarrow>
     length segments \<le> limit \<and> map (\<lambda>seg. unat (hs_sequence seg)) segments = [limit - length segments ..< limit]"

definition lists_sequence :: "hls_segment list \<Rightarrow> u64 \<Rightarrow> bool" where
  "lists_sequence segments sequence \<longleftrightarrow> sequence \<in> hs_sequence ` set segments"

definition proper_durations :: "hls_segment list \<Rightarrow> bool" where
  "proper_durations = list_all (\<lambda>seg. 0 < hs_duration seg \<and> hs_duration seg \<le> hls_target_duration)"

definition playlist_ok :: "hls_playlist \<Rightarrow> hls_segment list list \<Rightarrow> bool" where
  "playlist_ok pl shown \<longleftrightarrow>
     pl_maximum pl = 60 * second \<and> pl_minimum pl = 6 * second \<and> proper_durations (pl_segments pl) \<and>
     numbered (sequence_limit pl) (pl_segments pl) \<and>
     (\<forall>segments\<in>set shown. \<forall>seg\<in>set (pl_segments pl). lists_sequence segments (hs_sequence seg) \<longrightarrow>
        playlist_duration segments \<le> hs_longest seg) \<and>
     (\<forall>segments\<in>set shown. \<forall>seg\<in>set segments. unat (hs_sequence seg) < sequence_limit pl)"

lemma numbered_drop:
  assumes "numbered limit (gone @ left)"
  shows "numbered limit left"
proof -
  have "map (\<lambda>seg. unat (hs_sequence seg)) left = drop (length gone) (map (\<lambda>seg. unat (hs_sequence seg)) (gone @ left))"
    by simp
  also have "\<dots> = drop (length gone) [limit - length (gone @ left) ..< limit]" using assms by (simp only: numbered_def)
  also have "\<dots> = [limit - length left ..< limit]" using assms by (simp add: numbered_def)
  finally show ?thesis using assms by (simp add: numbered_def)
qed

lemma numbered_snoc:
  assumes "numbered limit segments" "unat (hs_sequence seg) = limit"
  shows "numbered (Suc limit) (segments @ [seg])"
  using assms by (simp add: numbered_def Suc_diff_le)

lemma raise_keeps [simp]:
  "hs_sequence (raise_longest span seg) = hs_sequence seg" "hs_duration (raise_longest span seg) = hs_duration seg"
  "hs_longest seg \<le> hs_longest (raise_longest span seg)" "span \<le> hs_longest (raise_longest span seg)"
  by (simp_all add: raise_longest_def)

lemma raised_lists [simp]:
  "numbered limit (map (raise_longest span) segments) = numbered limit segments"
  "proper_durations (map (raise_longest span) segments) = proper_durations segments"
  "playlist_duration (map (raise_longest span) segments) = playlist_duration segments"
  "lists_sequence (map (raise_longest span) segments) q = lists_sequence segments q"
  by (simp_all add: numbered_def proper_durations_def playlist_duration_def lists_sequence_def list_all_iff comp_def image_image)

lemma append_cases:
  assumes "append_segment sequence duration discontinuity pl = (r, pl')"
  obtains "r = Inl InvalidSegment" "pl' = pl"
  | new gone left ds good where "\<not> pl_exhausted pl" "sequence = pl_next pl" "0 < duration" "duration \<le> hls_target_duration"
    "new = \<lparr>hs_sequence = sequence, hs_duration = duration, hs_discontinuity = discontinuity, hs_longest = 0\<rparr>"
    "pl_segments pl @ [new] = gone @ left" "left \<noteq> []"
    "good \<Longrightarrow> pl_maximum pl = 60 * second \<Longrightarrow> pl_minimum pl = 6 * second \<Longrightarrow> proper_durations (pl_segments pl) \<Longrightarrow>
       playlist_duration left \<le> 60 * second"
    "r = (if good then Inr (map retention_of gone) else Inl SequenceExhausted)"
    "pl' = pl\<lparr>pl_exhausted := (sequence = - 1), pl_next := (if sequence = - 1 then pl_next pl else pl_next pl + 1),
       pl_segments := (if good then map (raise_longest (playlist_duration left)) left else left),
       pl_discontinuity_sequence := ds\<rparr>"
proof (cases "pl_terminal pl \<or> pl_exhausted pl \<or> sequence \<noteq> pl_next pl \<or> duration \<le> 0 \<or> duration > hls_target_duration")
  case True
  then show thesis using that(1) assms by (simp add: append_segment_def)
next
  case False
  define new where "new = \<lparr>hs_sequence = sequence, hs_duration = duration, hs_discontinuity = discontinuity, hs_longest = 0\<rparr>"
  define segments where "segments = pl_segments pl @ [new]"
  obtain good left ds retired span where loop:
    "retire (pl_maximum pl) (pl_minimum pl) (playlist_duration segments) (pl_discontinuity_sequence pl) segments =
       (good, left, ds, retired, span)" by (metis prod_cases5)
  obtain gone where gone: "segments = gone @ left" "retired = map retention_of gone" "span = playlist_duration left" "left \<noteq> []"
    using retire_split [OF loop refl] by (auto simp: segments_def)
  have r: "r = (if good then Inr retired else Inl SequenceExhausted)"
    "pl' = pl\<lparr>pl_exhausted := (sequence = - 1), pl_next := (if sequence = - 1 then pl_next pl else pl_next pl + 1),
       pl_segments := (if good then map (raise_longest span) left else left), pl_discontinuity_sequence := ds\<rparr>"
    using assms False loop by (auto simp: append_segment_def new_def segments_def Let_def split: if_splits)
  have window: "playlist_duration left \<le> 60 * second"
    if good "pl_maximum pl = 60 * second" "pl_minimum pl = 6 * second" "proper_durations (pl_segments pl)"
  proof -
    have "proper_durations segments" using that(4) False by (simp add: proper_durations_def segments_def new_def)
    then show ?thesis
      using retire_window [of "60 * second" "6 * second" _ _ segments left ds retired span] loop that gone(3)
      by (simp add: proper_durations_def)
  qed
  show thesis
  proof (rule that(2) [of new gone left good ds])
    show "r = (if good then Inr (map retention_of gone) else Inl SequenceExhausted)" using r(1) gone(2) by simp
    show "pl' = pl\<lparr>pl_exhausted := (sequence = - 1), pl_next := (if sequence = - 1 then pl_next pl else pl_next pl + 1),
       pl_segments := (if good then map (raise_longest (playlist_duration left)) left else left),
       pl_discontinuity_sequence := ds\<rparr>" using r(2) gone(3) by simp
  qed (use False gone window in \<open>auto simp: new_def segments_def\<close>)
qed

lemma last_sequence: "unat (- 1 :: u64) = 18446744073709551615"
  by (simp add: unsigned_minus_1_eq_mask mask_eq_exp_minus_1)

lemma next_unat: "(q :: u64) \<noteq> - 1 \<Longrightarrow> unat (q + 1) = Suc (unat q)"
  by (metis add.commute add_eq_0_iff unatSuc Suc_eq_plus1)

lemma append_keeps_ok:
  assumes "append_segment sequence duration discontinuity pl = (r, pl')" "playlist_ok pl shown"
  shows "playlist_ok pl' (if is_ok r then shown @ [pl_segments pl'] else shown)"
  using assms(1)
proof (cases rule: append_cases)
  case 1
  then show ?thesis using assms(2) by simp
next
  case (2 new gone left ds good)
  have limit: "sequence_limit pl' = Suc (sequence_limit pl)" "unat (hs_sequence new) = sequence_limit pl"
  proof -
    have limit: "sequence_limit pl = unat (pl_next pl)" using 2(1) by (simp add: sequence_limit_def)
    show "unat (hs_sequence new) = sequence_limit pl" using 2(2,5) limit by simp
    have fields: "pl_exhausted pl' = (pl_next pl = - 1)" "pl_next pl' = (if pl_next pl = - 1 then pl_next pl else pl_next pl + 1)"
      using 2(2,10) by simp_all
    show "sequence_limit pl' = Suc (sequence_limit pl)"
    proof (cases "pl_next pl = - 1")
      case True
      then show ?thesis using fields by (simp add: sequence_limit_def [of pl'] limit last_sequence)
    next
      case False
      then show ?thesis using fields by (simp add: sequence_limit_def [of pl'] limit next_unat)
    qed
  qed
  have numbered: "numbered (Suc (sequence_limit pl)) left"
  proof (rule numbered_drop [of _ gone])
    have "numbered (Suc (sequence_limit pl)) (pl_segments pl @ [new])"
      using assms(2) by (intro numbered_snoc limit(2)) (simp add: playlist_ok_def)
    then show "numbered (Suc (sequence_limit pl)) (gone @ left)" by (simp only: 2(6))
  qed
  have proper: "proper_durations left"
  proof -
    have "proper_durations (pl_segments pl @ [new])" using assms(2) 2(3-5) by (simp add: playlist_ok_def proper_durations_def)
    then show ?thesis by (simp add: 2(6) proper_durations_def)
  qed
  have old: "playlist_duration segments \<le> hs_longest seg"
    if "segments \<in> set shown" "seg \<in> set left" "lists_sequence segments (hs_sequence seg)" for segments seg
  proof -
    have "seg \<in> set (pl_segments pl) \<or> seg = new" using that(2) 2(6) by (metis Un_iff in_set_conv_decomp set_ConsD set_append append_Nil2 empty_iff empty_set list.simps(15) insert_iff)
    moreover have "seg \<noteq> new"
      using that(1,3) assms(2) limit(2) by (fastforce simp: playlist_ok_def lists_sequence_def)
    ultimately show ?thesis using that assms(2) by (auto simp: playlist_ok_def)
  qed
  have below: "unat (hs_sequence seg) < Suc (sequence_limit pl)" if "seg \<in> set left" for seg
  proof -
    have "unat (hs_sequence seg) \<in> set (map (\<lambda>seg. unat (hs_sequence seg)) left)" using that by simp
    also have "map (\<lambda>seg. unat (hs_sequence seg)) left = [Suc (sequence_limit pl) - length left ..< Suc (sequence_limit pl)]"
      using numbered by (simp only: numbered_def)
    finally show ?thesis by (simp only: set_upt atLeastLessThan_iff)
  qed
  have fields: "pl_maximum pl' = pl_maximum pl" "pl_minimum pl' = pl_minimum pl" using 2(10) by simp_all
  show ?thesis
  proof (cases good)
    case True
    then have segments: "pl_segments pl' = map (raise_longest (playlist_duration left)) left" "is_ok r" using 2(9,10) by simp_all
    have "playlist_duration segs \<le> hs_longest seg"
      if among: "segs \<in> set (shown @ [pl_segments pl'])" and listed: "seg \<in> set (pl_segments pl')"
        and lists: "lists_sequence segs (hs_sequence seg)" for segs seg
    proof -
      obtain seg0 where seg0: "seg0 \<in> set left" "seg = raise_longest (playlist_duration left) seg0" using listed segments(1) by auto
      consider "segs \<in> set shown" | "segs = pl_segments pl'" using among by auto
      then show ?thesis
      proof cases
        case 1
        then have "playlist_duration segs \<le> hs_longest seg0" using old seg0 lists by simp
        then show ?thesis unfolding seg0(2) using raise_keeps(3) by (rule order_trans)
      qed (use seg0(2) segments(1) in simp)
    qed
    then show ?thesis
      using assms(2) segments numbered proper below limit(1) fields
      by (auto simp: playlist_ok_def less_SucI)
  next
    case False
    then have segments: "pl_segments pl' = left" "\<not> is_ok r" using 2(9,10) by simp_all
    then show ?thesis
      using assms(2) numbered proper old limit(1) fields by (auto simp: playlist_ok_def less_SucI)
  qed
qed

lemma published_ok: "published pl shown \<Longrightarrow> playlist_ok pl shown"
proof (induction rule: published.induct)
  case (opened key pl)
  then show ?case
    by (auto simp: new_hls_playlist_def new_hls_playlist_with_window_def playlist_ok_def proper_durations_def numbered_def
        sequence_limit_def split: if_splits)
next
  case (appended pl shown sequence duration discontinuity r pl')
  then show ?case using append_keeps_ok by blast
next
  case (finished pl shown)
  have "sequence_limit (snd (finish_playlist pl)) = sequence_limit pl" by (simp add: finish_playlist_def sequence_limit_def)
  then show ?case using finished(2) by (simp add: finish_playlist_def playlist_ok_def)
qed

text \<open>C20. (safety): when a segment leaves a live playlist, it is to be kept for at least its own duration
  and that of any playlist that has ever listed it, so a client that read such a playlist can still fetch it.\<close>

theorem hls_retention_covers:
  assumes "published pl shown" "append_segment sequence duration discontinuity pl = (Inr retired, pl')"
    and "kept \<in> set retired" "segments \<in> set shown" "lists_sequence segments (hr_sequence kept)"
  shows "\<exists>seg\<in>set (pl_segments pl). hs_sequence seg = hr_sequence kept \<and>
    hs_duration seg + playlist_duration segments \<le> hr_retain_for kept"
  using assms(2)
proof (cases rule: append_cases)
  case (2 new gone left ds good)
  have "retired = map retention_of gone" using 2(9) by (simp split: if_splits)
  then obtain seg where seg: "seg \<in> set gone" "kept = retention_of seg" using assms(3) by auto
  have "gone = take (length gone) (pl_segments pl)"
    using 2(6,7) by (cases left rule: rev_cases) (auto simp: append_eq_append_conv2 Cons_eq_append_conv)
  then have "seg \<in> set (pl_segments pl)" using seg(1) by (metis in_set_takeD)
  moreover have "playlist_duration segments \<le> hs_longest seg"
    using published_ok [OF assms(1)] assms(4,5) seg calculation by (auto simp: playlist_ok_def retention_of_def)
  ultimately show ?thesis using seg(2) by (intro bexI [of _ seg]) (simp_all add: retention_of_def)
qed simp

text \<open>Every playlist a session shows lists at least one segment and at most 60 seconds, with
  consecutive sequence numbers and durations within the announced target.\<close>

theorem hls_playlist_window:
  assumes "published pl shown" "append_segment sequence duration discontinuity pl = (Inr retired, pl')"
  shows "pl_segments pl' \<noteq> [] \<and> playlist_duration (pl_segments pl') \<le> 60 * second \<and> proper_durations (pl_segments pl') \<and>
    numbered (sequence_limit pl') (pl_segments pl') \<and> sequence_limit pl' = Suc (unat sequence)"
proof -
  have ok: "playlist_ok pl shown" by (rule published_ok [OF assms(1)])
  have ok': "playlist_ok pl' (shown @ [pl_segments pl'])" using append_keeps_ok [OF assms(2) ok] by simp
  show ?thesis
    using assms(2)
  proof (cases rule: append_cases)
    case (2 new gone left ds good)
    then have good: good by (simp split: if_splits)
    then have "playlist_duration left \<le> 60 * second" using 2(8) ok by (simp add: playlist_ok_def)
    moreover have "sequence_limit pl' = Suc (unat sequence)"
    proof (cases "sequence = - 1")
      case True
      then have "sequence_limit pl' = 2 ^ 64" using 2(10) by (simp add: sequence_limit_def)
      then show ?thesis by (simp add: True last_sequence)
    next
      case False
      then show ?thesis using 2(2,10) by (simp add: sequence_limit_def next_unat)
    qed
    ultimately show ?thesis using ok' 2(7,10) good by (simp add: playlist_ok_def)
  qed simp
qed

section \<open>A session of two segments\<close>

definition sample_key :: bytes where
  "sample_key = [97]"

lemma sample_open: "new_hls_playlist sample_key = Inr \<lparr>pl_key = sample_key, pl_segments = [], pl_next = 0,
    pl_exhausted = False, pl_discontinuity_sequence = 0, pl_terminal = False, pl_maximum = 60 * second, pl_minimum = 6 * second\<rparr>"
  by code_simp

primrec sample_run :: "nat \<Rightarrow> hls_playlist \<times> hls_segment list list" where
  "sample_run 0 = (case new_hls_playlist sample_key of Inr pl \<Rightarrow> (pl, []))"
| "sample_run (Suc n) =
     (case sample_run n of (pl, shown) \<Rightarrow>
        case append_segment (pl_next pl) (2 * second) False pl of
          (r, pl') \<Rightarrow> (pl', if is_ok r then shown @ [pl_segments pl'] else shown))"

lemma sample_published: "published (fst (sample_run n)) (snd (sample_run n))"
proof (induction n)
  case 0
  show ?case using published.opened [OF sample_open] unfolding sample_run.simps sample_open by simp
next
  case (Suc n)
  obtain pl shown where run: "sample_run n = (pl, shown)" by fastforce
  obtain r pl' where step: "append_segment (pl_next pl) (2 * second) False pl = (r, pl')" by fastforce
  have "published pl shown" using Suc by (simp add: run)
  from published.appended [OF this step] show ?case by (simp only: sample_run.simps run step prod.case fst_conv snd_conv)
qed

lemma sample_retires:
  "fst (append_segment 30 (2 * second) False (fst (sample_run 30))) =
     Inr [\<lparr>hr_sequence = 0, hr_retain_for = 62 * second\<rparr>] \<and> lists_sequence (last (snd (sample_run 30))) 0 \<and>
     snd (sample_run 30) \<noteq> []"
  by code_simp

theorem hls_retention_covers_witness:
  "\<exists>seg\<in>set (pl_segments (fst (sample_run 30))). hs_sequence seg = 0 \<and>
     hs_duration seg + playlist_duration (last (snd (sample_run 30))) \<le> 62 * second"
proof -
  obtain pl' where "append_segment 30 (2 * second) False (fst (sample_run 30)) = (Inr [\<lparr>hr_sequence = 0, hr_retain_for = 62 * second\<rparr>], pl')"
    using sample_retires by (metis prod.collapse)
  moreover have "last (snd (sample_run 30)) \<in> set (snd (sample_run 30))"
    using sample_retires by (intro last_in_set) blast
  ultimately show ?thesis
    using hls_retention_covers [OF sample_published, where kept = "\<lparr>hr_sequence = 0, hr_retain_for = 62 * second\<rparr>"] sample_retires
    by simp
qed

theorem hls_playlist_window_witness:
  "playlist_duration (pl_segments (snd (append_segment 0 second True (fst (sample_run 0))))) \<le> 60 * second"
proof -
  have "append_segment 0 second True (fst (sample_run 0)) = (Inr [], snd (append_segment 0 second True (fst (sample_run 0))))"
    by code_simp
  then show ?thesis using hls_playlist_window [OF sample_published] by blast
qed

end
