(* ===== verification/Spec2Isabelle.thy ===== *)
theory Spec2Isabelle
  imports Prelude TsPacket PsiTables PsiCollector SectionTransport PmtRewrite Packetizer Quality
    RecordingPsi Framing ComponentFilter Wire CodecReader CodecWriter CodecFrames CodecRoundtrip LiveRelay LiveSessions Calendar CodecTime
    GoText EntityId RecordingTypes FilePlans RecordingResults Effects Recovery RecoveryOrder FilterFile Executor ExecutorProtocol
    ExecutorRuns ExecutorCopy ExecutorConnections ExecutorSpec Utf8Scan FuzzyText
    ProgramMatcher AutoReservation AutoReservationSpec CatalogMetadata CatalogMetadataSpec CatalogRevision ChannelList ChannelHandler ChannelHandlerSpec RuntimeSnapshot RuntimeSnapshotSpec
    CodecLogic ReservationHandler ReservationHandlerSpec ReservationRoundtrip RuleHandler RuleHandlerSpec RuleRoundtrip Reservations ReservationsSpec Reconciler ReconcilerSpec Scheduler SchedulerSpec
    HlsPlaylist
begin

text \<open>
  Sazanami DVR (\<open>github.com/g0ooo0gle/sazanami-dvr\<close>) records digital television.  It reads the programme guide and the streams
  of a Mirakurun server, keeps reservations in SQLite, records each reserved programme into an MPEG-TS file, and answers the
  CtrlCmd protocol of KonomiTV.  This development models the parts of the Go program under \<open>src/internal\<close> that carry its own
  logic and proves what makes them correct.  Every theory opens with the files it models; names follow the code (snake case for
  camel case).

  \<^bold>\<open>How the parts interact.\<close>  A snapshot joins the channel map of the operator with one generation of the catalog and answers
  which programme stands for a request.  The user's requests and the automatic rules turn programmes into reservations through
  it.  The scheduler reads the reservations and starts an execution for each in its time.  An execution claims the
  reservation, opens a stream, copies it through the packetizer, the framer and the component filter into a partial file, and
  publishes the file under its final name.  Recovery does the same from the stored state after a restart, and the reconciler
  compares finished recordings with their files later.  Live sessions relay a stream to a client.

  \<^bold>\<open>The library.\<close>  \<open>Prelude\<close> has the shared types (bytes and words of Go's widths, \<open>result\<close> for fallible operations) and generic
  lemmas; \<open>Wire\<close>, \<open>GoText\<close>, \<open>Calendar\<close>, \<open>Utf8Scan\<close> and \<open>EntityId\<close> the parts of Go's \<open>encoding/binary\<close>, \<open>strings\<close>, \<open>strconv\<close>, \<open>path\<close>,
  \<open>unicode/utf8\<close> and \<open>time\<close> that the sources use, and the identifiers of \<open>core/catalogmodel/model.go\<close>.  \<open>Effects\<close> has code that
  calls its environment: state-passing actions that fail or return, and triples with one condition for the return and one for
  the failure.  Environments (store, files, provider, clock, contexts, random identifiers) are records of functions on an
  unknown state, so a theorem holds for every answer they give; where a property needs more of them, that is a hypothesis of it.
  Interfaces are locales, each interpreted on the model: \<open>byte_sink\<close> (what \<open>io.Writer\<close> documents; \<open>CodecFrames\<close>), \<open>wire_codec\<close> (an
  encoding with its reader; \<open>CodecRoundtrip\<close>), the packet owners of the framer and the file keepers of the filter (\<open>Framing\<close>,
  \<open>FilterFile\<close>), \<open>evaluator_world\<close> (\<open>AutoReservationSpec\<close>) and the others named in the theories.

  \<^bold>\<open>Transport streams\<close> (\<open>mpegts/*.go\<close>, \<open>app/recording/ts_*.go\<close>, \<open>core/recording/quality.go\<close>).  \<open>TsPacket\<close> is the packet level with the
  CRC, \<open>PsiTables\<close> the PAT, PMT and SDT, \<open>PsiCollector\<close> the reassembly of sections, \<open>Packetizer\<close> the resynchronising packetizer,
  \<open>PmtRewrite\<close> the rewriting of the PMT, \<open>Quality\<close> the bounded tracker of continuity errors, \<open>RecordingPsi\<close> the lenient collector of the
  recorder, \<open>Framing\<close> its framer, \<open>ComponentFilter\<close> the filter that drops captions and data, \<open>FilterFile\<close> what it does to its file.
  Proved: sections survive the cut into packets and the reassembly (\<open>SectionTransport\<close>), no packets make the collector index out
  of range before it has reported an invalid section (fed on after one, it can), a rewritten PMT is valid and keeps what it
  should, output does not depend on how the input is cut into reads, every received byte is delivered or counted as lost, and
  the filter's buffers stay within their limits after every write and at the end.

  \<^bold>\<open>Wire codec and its handlers\<close> (\<open>adapters/ctrlcmd/codec\<close>, \<open>channel\<close>, \<open>reservation\<close>, \<open>autoreservation\<close>).  \<open>CodecReader\<close> and \<open>CodecWriter\<close> model every method of
  the reader and the writer with its limits and errors; \<open>CodecTime\<close> the system times.  Within \<open>byte_sink\<close> every method of the
  writer appends a prefix of its encoding, all of it when it succeeds; within \<open>wire_codec\<close> every reader gives back what was
  written.  \<open>ChannelList\<close> validates and orders the services of a snapshot; \<open>ChannelHandler\<close> is the handler of the requests 1060 and
  1021, \<open>ReservationHandler\<close> the one that lists, adds, changes and deletes reservations, \<open>RuleHandler\<close> the one for the rules of
  automatic reservations; \<open>CodecLogic\<close> has the rules by which their fields are put together.  Proved: whatever the destination,
  the context and the source do, an answer is a prefix of one frame with exact sizes (\<open>ChannelHandlerSpec\<close>,
  \<open>ReservationHandlerSpec\<close>, \<open>RuleHandlerSpec\<close>), a listed reservation or rule that is sent back is read with the settings it had
  (\<open>ReservationRoundtrip\<close>, \<open>RuleRoundtrip\<close>), and a rule for paid programmes only is never accepted.

  \<^bold>\<open>Catalog model\<close> (\<open>core/catalogmodel\<close>).  \<open>CatalogMetadata\<close> normalises the details of a programme and stores them in a binary form;
  within the locales \<open>prefix_code\<close> and \<open>byte_codec\<close>, \<open>CatalogMetadataSpec\<close> proves that what is stored reads back as its
  normal form and nothing else is read.  \<open>CatalogRevision\<close> has the bytes a revision is hashed over, which determine its contents, and the test by which a
  rescheduled programme is taken for the successor of an earlier one.

  \<^bold>\<open>Snapshots and automatic reservations\<close> (\<open>adapters/ctrlcmd/runtime/config.go\<close>, \<open>snapshot.go\<close>, \<open>app/autoreservation\<close>,
  \<open>core/autoreservation\<close>).  \<open>RuntimeSnapshot\<close> builds a snapshot and looks programmes, one-seg services, live services and logos up
  in it.  \<open>FuzzyText\<close> and \<open>ProgramMatcher\<close> are the search, \<open>AutoReservation\<close> the rules, the index of recorded titles and one run of the
  evaluator.  Proved: snapshots are well formed, a listed programme is found again, a run stays within its limits (and, while
  the pages of the catalog do not change, within one comparison for each rule and programme) and hands only
  valid reservations to the store, the fuzzy search is the edit distance of a part of the text, the index is the search of the
  history.

  \<^bold>\<open>Reservations\<close> (\<open>core/recording/model.go\<close>, \<open>output.go\<close>, \<open>components.go\<close>, \<open>post_recording.go\<close>, \<open>app/recording/reservations.go\<close>,
  \<open>follow.go\<close>).  \<open>RecordingTypes\<close> has the model and its validation, \<open>FilePlans\<close> the names of the files, \<open>RecordingResults\<close> the states of a
  recording and the checks of its transitions, \<open>Reservations\<close> the operations of the user and the pass that follows the catalog.
  Proved: planned files stay in the recording folder and apart from one another, an accepted final state can be finished, each
  operation changes the store at most once and sends the stop and the news afterwards, and the pass accounts for every
  reservation: \<open>ReservationsSpec\<close> runs it on a service that notes the pages and answers it read (\<open>observe_follow\<close>) and proves that
  this changes nothing and that the requests are exactly those the notes call for.

  \<^bold>\<open>Scheduling and execution\<close> (\<open>app/recording/scheduler.go\<close>, \<open>stop_registry.go\<close>, \<open>executor.go\<close>).  \<open>Scheduler\<close> is a step relation: the
  loop between its points of waiting, the goroutines of the recordings, and the callers, interleaved in every way; its
  properties are invariants of the reachable states, or of the histories that also list the results since the last decision
  about the computer's power (\<open>scheduler_history\<close>).  \<open>Executor\<close> is one recording with every call it makes.  \<open>ExecutorProtocol\<close> is its
  abstract specification, an automaton over the events of a recording (lease, file, progress, finalization, publication); \<open>ExecutorRuns\<close>,
  \<open>ExecutorCopy\<close> and \<open>ExecutorConnections\<close> prove the triple of each operation and \<open>ExecutorSpec\<close> the refinement: every event is one the
  automaton allows, whatever the environment answers.  Proved as well: the order of publication (synchronised, linked, recorded,
  synchronised, partial name removed, synchronised, recorded), that the store accepts every request, and that an execution ends.

  \<^bold>\<open>Recovery and reconciliation\<close> (\<open>app/recording/recovery.go\<close>, \<open>reconciler.go\<close>, \<open>reconciler_runner.go\<close>, the row checks of
  \<open>adapters/sqlite/recording_recovery_repository.go\<close>).  \<open>Recovery\<close>, \<open>RecoveryOrder\<close>: what is asked of the store is accepted by it, no partial name
  is removed before the final one is durable, every directory is marked as synchronised only after it was, and the pages come
  to an end when each is ordered, follows the one before and lists identifiers of a finite set, whatever recovery changes.  \<open>Reconciler\<close>, \<open>ReconcilerSpec\<close>: every correction follows from
  an observation.  \<^bold>\<open>Live\<close> (\<open>app/liverelay/manager.go\<close>, \<open>adapters/recordinghttp/hls_playlist.go\<close>): \<open>LiveRelay\<close> has what the
  manager does under its lock, \<open>LiveSessions\<close> the sessions as a transition system in which every lock, grant, cancellation and
  return of a lease is a step of its own, \<open>HlsPlaylist\<close> the playlist with its retention.

  \<^bold>\<open>Bounds and fuel.\<close>  Most loops are structural recursions or have a termination proof by a measure the code itself has: bytes
  left of a buffer (scans, frames), identifiers left above a cursor (\<open>find_backend\<close>, \<open>read_catalog\<close>: 2^128), items left of a limit
  (\<open>follow_pages\<close>: 16384 reservations, \<open>reconcile_pages\<close>: 1000 items).  The others have fuel.  In the evaluator it is the number of
  pages that its own limits allow (\<open>read_rules\<close>: 2 pages of 128 rules, \<open>program_pages\<close>: 1026 of 256 programmes, \<open>history_pages\<close>: 66 of 256
  items), and \<open>AutoReservationSpec\<close> proves that it is never exhausted.  Where the environment decides how long a loop goes on, the
  fuel is a parameter and a theorem says how much is enough: the copy of a connection (\<open>copy_loop\<close>, \<open>execution_terminates\<close>: more turns
  than the time budget of the stream) and the pages of recovery (\<open>recovery_terminates\<close>).  The connections of a recording are as many
  as the delays of the code's list.  Machine integers are words where their width matters (packet fields, CRC, wire integers,
  identifiers as 128 bits); counters, sizes and times that the code bounds well below 2^63 are \<open>int\<close> or \<open>nat\<close>.

  \<^bold>\<open>Parameters.\<close>  Code that is not in the repository is an argument: SQL and the file system as the answers of stores and files,
  the network as the provider's streams, \<open>regexp\<close> and \<open>strings.ToLower\<close> (\<open>text_library\<close>), SHA-256, the JSON decoder, random numbers, clocks
  and contexts.

  \<^bold>\<open>Not modelled.\<close>  The SQLite repositories, migration, backup and restore (the behaviour is SQL's); the HTTP server, the segmenter,
  its sessions and its cache; the Mirakurun client and the fake provider; the synchronisation of the catalog; the one-seg side of an
  execution, a second goroutine (its results, validation and recovery are modelled); the other CtrlCmd handlers; the web interface;
  the actions after a recording; the command line; packaging.
\<close>

end
